(* ===== verification/Prelude.thy ===== *)
theory Prelude
  imports
    Main
    "HOL-Library.Word"
    "HOL-Library.Char_ord"
    "HOL-Library.List_Lexorder"
    "HOL-Library.Multiset"
begin

text \<open>
  Shared ground of the development: the machine integer types of the Rust code, the error
  type of \<^verbatim>\<open>crates/icefalldb-core/src/error.rs\<close>, results as sums (\<open>Inl\<close> is the error), a
  small state-and-error monad for code that goes through a storage, and the generic lemmas on
  lists, splitting and binary search that the component theories use.

  Rust's \<^verbatim>\<open>u64\<close>, \<^verbatim>\<open>u32\<close> and \<^verbatim>\<open>u8\<close> are words of that width, with the wrap-around arithmetic of
  a release build; a Rust \<^verbatim>\<open>String\<close> is a \<^typ>\<open>string\<close>, a \<^verbatim>\<open>Vec<u8>\<close> is a list of bytes and a
  \<^verbatim>\<open>usize\<close> that only counts is a \<^typ>\<open>nat\<close>.
\<close>

section \<open>Types\<close>

type_synonym u8 = "8 word"
type_synonym u16 = "16 word"
type_synonym u32 = "32 word"
type_synonym u64 = "64 word"
type_synonym bytes = "u8 list"

lemma unat_u8_less [simp]: "unat (w :: u8) < 256"
  using unsigned_less [of w] by simp

lemma unat_u32_less: "unat (w :: u32) < 2 ^ 32"
  using unsigned_less [of w] by simp

lemma unat_u64_less: "unat (w :: u64) < 2 ^ 64"
  using unsigned_less [of w] by simp

lemma of_nat_u64_eq: "m < 2 ^ 64 \<Longrightarrow> n < 2 ^ 64 \<Longrightarrow> (of_nat m :: u64) = of_nat n \<longleftrightarrow> m = n"
  by (simp add: word_unat_eq_iff unat_of_nat)

lemma unat_add_no_wrap: "unat a + unat b < 2 ^ 64 \<Longrightarrow> unat (a + b) = unat a + unat b"
  for a b :: u64
  by (simp add: unat_word_ariths)

lemma unat_add_no_wrap32: "unat a + unat b < 2 ^ 32 \<Longrightarrow> unat (a + b) = unat a + unat b"
  for a b :: u32
  by (simp add: unat_word_ariths)

lemma unat_ucast_u64 [simp]: "unat (ucast (w :: u32) :: u64) = unat w"
proof -
  have "unat w < 2 ^ 64" using unat_u32_less [of w] by simp
  then have "take_bit 64 (unat w) = unat w" by (simp add: take_bit_nat_eq_self)
  then show ?thesis by (simp add: unsigned_ucast_eq)
qed

lemma unat_ucast_u32: "unat (ucast (w :: u64) :: u32) = unat w mod 2 ^ 32"
  by (simp add: unsigned_ucast_eq take_bit_eq_mod)

lemma ucast_ucast_u32 [simp]: "ucast (ucast (w :: u32) :: u64) = w"
  using unat_u32_less [of w] by (simp add: word_unat_eq_iff unat_ucast_u32)

text \<open>Every value but \<^verbatim>\<open>u64::MAX\<close> has a successor.\<close>

lemma unat_not_max: "i \<noteq> - 1 \<Longrightarrow> unat i + 1 < 2 ^ 64" for i :: u64
proof -
  have "unat (- 1 :: u64) = 2 ^ 64 - 1"
    by (simp add: unsigned_minus_1_eq_mask mask_eq_exp_minus_1)
  moreover assume "i \<noteq> - 1"
  ultimately have "unat i \<noteq> 2 ^ 64 - 1" by (metis word_unat_eq_iff)
  with unat_u64_less [of i] show ?thesis by simp
qed

lemma word_le_pred_iff: "0 < n \<Longrightarrow> r \<le> n - 1 \<longleftrightarrow> r < n" for n r :: u64
proof -
  assume "0 < n"
  then have "unat (n - 1) = unat n - 1" "0 < unat n"
    by (auto simp: unat_minus_one unat_gt_0)
  then show ?thesis by (auto simp: word_le_nat_alt word_less_nat_alt)
qed

named_theorems io_simps \<open>running a program of the storage monad\<close>
named_theorems res_simps \<open>results as sums\<close>
named_theorems bytes_simps \<open>lengths and contents of byte encodings\<close>

section \<open>Errors and results\<close>

text \<open>
  The variants of \<^verbatim>\<open>IcefallDBError\<close>, in the order of the source, with their payloads; the text
  of a message is a short literal. \<open>Panic\<close> is not a variant of the enum: it stands for a
  Rust panic (an index out of range, a capacity overflow), which the code does not turn into
  an error value.
\<close>

datatype ierror =
    Io string
  | Serialization
  | ManifestNotFound string
  | SchemaNotFound string
  | ChecksumMismatch string
  | EmptyTable string
  | TypeNotSupported string
  | RowGroupChecksumMismatch string
  | ParquetDecode string
  | SchemaMismatch string string string
  | MissingRowGroupFile u64 string
  | NotFound string
  | InvalidPath string
  | InvalidManifestPointer string
  | MissingManifestPointer string
  | InvalidSchemaPointer string
  | InvalidSchema string string
  | MixedPartition string
  | SequenceCollision u64
  | CompactionConflict u64 u64
  | LockTimeout string
  | RangeReadError string string
  | TableAlreadyExists string
  | TableNotFound string
  | TsvError nat nat string string
  | Encryption string
  | EncryptionKeyNotFound string
  | Decryption string
  | LegacyIndex string string
  | SnapshotNotFound u64
  | UniqueKeyViolation string string string
  | Other string
  | Panic

type_synonym 'a result = "ierror + 'a"

definition is_not_found :: "ierror \<Rightarrow> bool" where
  "is_not_found e = (case e of NotFound _ \<Rightarrow> True | _ \<Rightarrow> False)"

lemma is_not_found_simps [simp]:
  "is_not_found (NotFound p)" "\<not> is_not_found (InvalidPath p)" "\<not> is_not_found (Other m)"
  "\<not> is_not_found Serialization" "\<not> is_not_found Panic"
  by (simp_all add: is_not_found_def)

text \<open>The \<^verbatim>\<open>?\<close> operator.\<close>

definition res_bind :: "'a result \<Rightarrow> ('a \<Rightarrow> 'b result) \<Rightarrow> 'b result" where
  "res_bind r f = (case r of Inl e \<Rightarrow> Inl e | Inr a \<Rightarrow> f a)"

lemma res_bind_Inl [simp, res_simps]: "res_bind (Inl e) f = Inl e"
  by (simp add: res_bind_def)

lemma res_bind_Inr [simp, res_simps]: "res_bind (Inr a) f = f a"
  by (simp add: res_bind_def)

lemma res_bind_eq_Inr: "res_bind r f = Inr b \<longleftrightarrow> (\<exists>a. r = Inr a \<and> f a = Inr b)"
  by (cases r) auto

text \<open>\<^verbatim>\<open>Option::ok_or\<close>.\<close>

definition ok_or :: "'a option \<Rightarrow> ierror \<Rightarrow> 'a result" where
  "ok_or x e = (case x of None \<Rightarrow> Inl e | Some a \<Rightarrow> Inr a)"

lemma ok_or_simps [simp, res_simps]: "ok_or None e = Inl e" "ok_or (Some a) e = Inr a"
  by (simp_all add: ok_or_def)

lemma ok_or_eq_Inr [simp]: "ok_or x e = Inr a \<longleftrightarrow> x = Some a"
  by (cases x) simp_all

section \<open>Programs over a storage state\<close>

text \<open>
  A program that goes through a storage is a function from the storage's state to a result and
  the state it leaves, so that a failing call still shows what it changed before it failed.
\<close>

type_synonym ('s, 'a) io = "'s \<Rightarrow> 'a result \<times> 's"

definition io_return :: "'a \<Rightarrow> ('s, 'a) io" where
  "io_return a s = (Inr a, s)"

definition io_throw :: "ierror \<Rightarrow> ('s, 'a) io" where
  "io_throw e s = (Inl e, s)"

definition io_lift :: "'a result \<Rightarrow> ('s, 'a) io" where
  "io_lift r s = (r, s)"

definition io_bind :: "('s, 'a) io \<Rightarrow> ('a \<Rightarrow> ('s, 'b) io) \<Rightarrow> ('s, 'b) io" where
  "io_bind m f s = (case m s of (Inl e, s') \<Rightarrow> (Inl e, s') | (Inr a, s') \<Rightarrow> f a s')"

definition io_then :: "('s, 'a) io \<Rightarrow> ('s, 'b) io \<Rightarrow> ('s, 'b) io" where
  "io_then m n = io_bind m (\<lambda>_. n)"

text \<open>\<open>io_try m\<close> runs \<open>m\<close> and hands its result, error or value, to a \<^verbatim>\<open>match\<close>.\<close>

definition io_try :: "('s, 'a) io \<Rightarrow> ('s, 'a result) io" where
  "io_try m s = (case m s of (r, s') \<Rightarrow> (Inr r, s'))"

text \<open>A \<^verbatim>\<open>for\<close> loop that carries an accumulator, left by the first error.\<close>

fun io_foldM :: "('b \<Rightarrow> 'a \<Rightarrow> ('s, 'b) io) \<Rightarrow> 'b \<Rightarrow> 'a list \<Rightarrow> ('s, 'b) io" where
  "io_foldM f b [] = io_return b"
| "io_foldM f b (x # xs) = io_bind (f b x) (\<lambda>b'. io_foldM f b' xs)"

lemma io_return_run [simp, io_simps]: "io_return a s = (Inr a, s)"
  by (simp add: io_return_def)

lemma io_throw_run [simp, io_simps]: "io_throw e s = (Inl e, s)"
  by (simp add: io_throw_def)

lemma io_lift_run [simp, io_simps]: "io_lift r s = (r, s)"
  by (simp add: io_lift_def)

lemma io_bind_run [io_simps]:
  "io_bind m f s = (case m s of (Inl e, s') \<Rightarrow> (Inl e, s') | (Inr a, s') \<Rightarrow> f a s')"
  by (simp add: io_bind_def)

lemma io_bind_Inr [simp]: "m s = (Inr a, s') \<Longrightarrow> io_bind m f s = f a s'"
  by (simp add: io_bind_def)

lemma io_bind_Inl [simp]: "m s = (Inl e, s') \<Longrightarrow> io_bind m f s = (Inl e, s')"
  by (simp add: io_bind_def)

lemma io_then_run [io_simps]:
  "io_then m n s = (case m s of (Inl e, s') \<Rightarrow> (Inl e, s') | (Inr a, s') \<Rightarrow> n s')"
  by (simp add: io_then_def io_bind_def)

lemma io_then_Inr [simp]: "m s = (Inr a, s') \<Longrightarrow> io_then m n s = n s'"
  by (simp add: io_then_def)

lemma io_then_Inl [simp]: "m s = (Inl e, s') \<Longrightarrow> io_then m n s = (Inl e, s')"
  by (simp add: io_then_def)

lemma io_try_run [io_simps]: "io_try m s = (case m s of (r, s') \<Rightarrow> (Inr r, s'))"
  by (simp add: io_try_def)

lemma io_try_eq [simp]: "m s = (r, s') \<Longrightarrow> io_try m s = (Inr r, s')"
  by (simp add: io_try_def)

lemma io_bind_eq_Inr:
  "io_bind m f s = (Inr b, t) \<longleftrightarrow> (\<exists>a s'. m s = (Inr a, s') \<and> f a s' = (Inr b, t))"
  by (auto simp: io_bind_def split: prod.splits sum.splits)

lemma io_then_eq_Inr:
  "io_then m n s = (Inr b, t) \<longleftrightarrow> (\<exists>a s'. m s = (Inr a, s') \<and> n s' = (Inr b, t))"
  by (simp add: io_then_def io_bind_eq_Inr)

lemmas io_success = io_bind_eq_Inr io_then_eq_Inr

section \<open>Splitting on a separator\<close>

text \<open>\<^verbatim>\<open>split(|&b| b == sep)\<close>: never empty, one piece more than there are separators.\<close>

fun split_on :: "'a \<Rightarrow> 'a list \<Rightarrow> 'a list list" where
  "split_on c [] = [[]]"
| "split_on c (x # xs) =
     (if x = c then [] # split_on c xs
      else (case split_on c xs of [] \<Rightarrow> [[x]] | y # ys \<Rightarrow> (x # y) # ys))"

lemma split_on_not_Nil [simp]: "split_on c xs \<noteq> []"
  by (induction xs) (auto split: list.splits)

lemma split_on_none [simp]: "c \<notin> set xs \<Longrightarrow> split_on c xs = [xs]"
  by (induction xs) auto

lemma split_on_append_sep [simp]: "split_on c (xs @ c # ys) = split_on c xs @ split_on c ys"
  by (induction xs) (auto split: list.splits)

lemma split_on_append_free:
  "c \<notin> set ys \<Longrightarrow> split_on c (xs @ ys) = butlast (split_on c xs) @ [last (split_on c xs) @ ys]"
  by (induction xs) (auto split: list.splits)

lemma split_on_pieces_free: "p \<in> set (split_on c xs) \<Longrightarrow> c \<notin> set p"
  by (induction xs arbitrary: p) (auto split: list.splits if_splits)

lemma split_on_lines:
  assumes "\<And>l. l \<in> set ls \<Longrightarrow> c \<notin> set l"
  shows "split_on c (concat (map (\<lambda>l. l @ [c]) ls) @ tl') = ls @ split_on c tl'"
  using assms by (induction ls) simp_all

section \<open>Sorted lists\<close>

text \<open>
  \<^verbatim>\<open>slice::partition_point\<close>: on a slice whose elements satisfying \<open>P\<close> come first (the
  documented precondition), the index of the first element that does not.
\<close>

definition partition_point :: "('a \<Rightarrow> bool) \<Rightarrow> 'a list \<Rightarrow> nat" where
  "partition_point P xs = length (takeWhile P xs)"

lemma partition_point_le: "partition_point P xs \<le> length xs"
  by (simp add: partition_point_def length_takeWhile_le)

lemma partition_point_nth: "i < partition_point P xs \<Longrightarrow> P (xs ! i)"
  unfolding partition_point_def
  by (metis nth_mem set_takeWhileD takeWhile_nth)

lemma partition_point_stop:
  "partition_point P xs < length xs \<Longrightarrow> \<not> P (xs ! partition_point P xs)"
  unfolding partition_point_def by (rule nth_length_takeWhile)

lemma partition_point_eqI:
  assumes "n \<le> length xs" "\<And>i. i < n \<Longrightarrow> P (xs ! i)" "n < length xs \<Longrightarrow> \<not> P (xs ! n)"
  shows "partition_point P xs = n"
proof (rule linorder_cases [of "partition_point P xs" n])
  assume "partition_point P xs < n"
  with assms(1,2) partition_point_stop [of P xs] show ?thesis by force
next
  assume "n < partition_point P xs"
  with assms(3) partition_point_nth [of n P xs] partition_point_le [of P xs] show ?thesis
    by force
qed

text \<open>\<^verbatim>\<open>windows(2).any(|w| w[0] == w[1])\<close> and its like: two neighbours related by \<open>R\<close>.\<close>

fun any_adjacent :: "('a \<Rightarrow> 'a \<Rightarrow> bool) \<Rightarrow> 'a list \<Rightarrow> bool" where
  "any_adjacent R (x # y # zs) = (R x y \<or> any_adjacent R (y # zs))"
| "any_adjacent R _ = False"

lemma any_adjacent_eq_iff:
  "sorted xs \<Longrightarrow> any_adjacent (=) xs \<longleftrightarrow> \<not> distinct xs"
  by (induction "(=) :: 'a::linorder \<Rightarrow> 'a \<Rightarrow> bool" xs rule: any_adjacent.induct) force+

lemma any_adjacent_map:
  "any_adjacent R (map f xs) = any_adjacent (\<lambda>a b. R (f a) (f b)) xs"
  by (induction "\<lambda>a b. R (f a) (f b)" xs rule: any_adjacent.induct) auto

lemma not_any_adjacent_le:
  fixes xs :: "'a::linorder list"
  shows "\<not> any_adjacent (\<lambda>a b. b \<le> a) xs \<longleftrightarrow> sorted_wrt (<) xs"
  by (induction "\<lambda>a b::'a. b \<le> a" xs rule: any_adjacent.induct)
    (auto simp: not_le intro: less_trans)

lemma sorted_wrt_less_iff:
  fixes xs :: "'a::linorder list"
  shows "sorted_wrt (<) xs \<longleftrightarrow> sorted xs \<and> distinct xs"
  by (auto simp: strict_sorted_iff)

lemma distinct_sort_fst: "distinct (map fst (sort_key fst xs)) = distinct (map fst xs)"
  by (rule mset_eq_imp_distinct_iff) simp

lemma map_of_sort_key:
  assumes "distinct (map fst xs)"
  shows "map_of (sort_key fst xs) k = map_of xs k"
proof -
  have "distinct (map fst (sort_key fst xs))" using assms by (simp only: distinct_sort_fst)
  then have "map_of (sort_key fst xs) k = Some v \<longleftrightarrow> map_of xs k = Some v" for v
    using assms by (simp add: map_of_eq_Some_iff)
  then show ?thesis by (metis not_None_eq)
qed

lemma sort_key_fst_perm:
  assumes "mset ys = mset zs" "distinct (map fst ys)"
  shows "sort_key fst ys = sort_key fst zs"
  using assms by (intro sort_key_inj_key_eq) (simp_all add: distinct_map)

lemma sort_key_sorted: "sorted (map f xs) \<Longrightarrow> sort_key f xs = xs"
  by (induction xs) (simp_all add: insort_is_Cons)

end
