(* ===== verification/Byte_Codec.thy ===== *)
theory Byte_Codec
  imports Prelude
begin

text \<open>
  Little-endian integers and the CRC-32 of \<^verbatim>\<open>crates/icefalldb-core/src/rowindex/writer.rs\<close>. The
  encoder is Rust's \<^verbatim>\<open>to_le_bytes\<close>, the decoder \<^verbatim>\<open>from_le_bytes\<close>. The checksum is the
  table-driven loop of the source; it is shown equal to the bit-by-bit definition of the
  reflected polynomial, and that definition shown injective in every single byte, which is what
  lets a reader notice a corrupted one.
\<close>

unbundle bit_operations_syntax

section \<open>Little-endian integers\<close>

text \<open>The low \<open>8 * n\<close> bits of \<open>k\<close>, least significant byte first.\<close>

fun le_bytes :: "nat \<Rightarrow> nat \<Rightarrow> bytes" where
  "le_bytes 0 k = []"
| "le_bytes (Suc n) k = of_nat k # le_bytes n (k div 256)"

fun le_nat :: "bytes \<Rightarrow> nat" where
  "le_nat [] = 0"
| "le_nat (b # bs) = unat b + 256 * le_nat bs"

abbreviation le_u16 :: "u16 \<Rightarrow> bytes" where "le_u16 w \<equiv> le_bytes 2 (unat w)"
abbreviation le_u32 :: "u32 \<Rightarrow> bytes" where "le_u32 w \<equiv> le_bytes 4 (unat w)"
abbreviation le_u64 :: "u64 \<Rightarrow> bytes" where "le_u64 w \<equiv> le_bytes 8 (unat w)"

lemma length_le_bytes [simp, bytes_simps]: "length (le_bytes n k) = n"
  by (induction n arbitrary: k) auto

lemma le_nat_le_bytes: "le_nat (le_bytes n k) = k mod 256 ^ n"
proof (induction n arbitrary: k)
  case (Suc n)
  have "k mod 256 ^ Suc n = k mod 256 + 256 * (k div 256 mod 256 ^ n)"
    by (simp add: mod_mult2_eq add.commute)
  with Suc show ?case by (simp add: unat_of_nat)
qed simp

lemma le_nat_less: "le_nat bs < 256 ^ length bs"
proof (induction bs)
  case (Cons b bs)
  then show ?case using unat_u8_less [of b] by (simp del: unat_u8_less)
qed simp

lemma le_bytes_le_nat: "le_bytes (length bs) (le_nat bs) = bs"
proof (induction bs)
  case (Cons b bs)
  have "(of_nat (256 * le_nat bs) :: u8) = 0"
    by (simp add: word_unat_eq_iff unat_of_nat del: of_nat_mult)
  with Cons show ?case by simp
qed simp

lemma le_nat_fits [simp]: "k < 256 ^ n \<Longrightarrow> le_nat (le_bytes n k) = k"
  by (simp add: le_nat_le_bytes)

lemma le_u64_inverse [simp]: "of_nat (le_nat (le_u64 w)) = w"
  using unat_u64_less [of w] by simp

lemma le_u32_inverse [simp]: "of_nat (le_nat (le_u32 w)) = w"
  using unat_u32_less [of w] by simp

section \<open>The bit-by-bit CRC\<close>

definition crc_poly :: u32 where
  "crc_poly = 0xEDB88320"

text \<open>One step of the inner loop of \<^verbatim>\<open>make_crc_table\<close>.\<close>

definition crc_step :: "u32 \<Rightarrow> u32" where
  "crc_step c = (if c AND 1 \<noteq> 0 then crc_poly XOR drop_bit 1 c else drop_bit 1 c)"

text \<open>The reference: a byte is folded in and followed by eight steps.\<close>

definition crc_byte_ref :: "u32 \<Rightarrow> u8 \<Rightarrow> u32" where
  "crc_byte_ref crc b = (crc_step ^^ 8) (crc XOR ucast b)"

definition crc32_ref :: "bytes \<Rightarrow> u32" where
  "crc32_ref data = foldl crc_byte_ref 0xFFFFFFFF data XOR 0xFFFFFFFF"

section \<open>The table-driven CRC of the source\<close>

definition make_crc_table :: "u32 list" where
  "make_crc_table = map (\<lambda>i. (crc_step ^^ 8) (of_nat i)) [0..<256]"

definition crc_byte :: "u32 \<Rightarrow> u8 \<Rightarrow> u32" where
  "crc_byte crc b =
     (let idx = unat ((crc XOR ucast b) AND 0xFF) in drop_bit 8 crc XOR (make_crc_table ! idx))"

definition crc32 :: "bytes \<Rightarrow> u32" where
  "crc32 data = foldl crc_byte 0xFFFFFFFF data XOR 0xFFFFFFFF"

section \<open>Equivalence and error detection\<close>

lemma bit_crc_step:
  "bit (crc_step x) n \<longleftrightarrow> (bit x 0 \<and> bit crc_poly n) \<noteq> bit x (Suc n)"
proof -
  have "x AND 1 \<noteq> 0 \<longleftrightarrow> bit x 0"
    by (simp add: and_one_eq odd_iff_mod_2_eq_one bit_0)
  then show ?thesis
    by (simp add: crc_step_def bit_xor_iff bit_drop_bit_eq)
qed

lemma crc_step_xor: "crc_step (a XOR b) = crc_step a XOR crc_step b"
  by (rule bit_eqI) (auto simp: bit_crc_step bit_xor_iff)

lemma crc_steps_xor: "(crc_step ^^ n) (a XOR b) = (crc_step ^^ n) a XOR (crc_step ^^ n) b"
  by (induction n arbitrary: a b) (simp_all add: crc_step_xor)

lemma crc_steps_low_zero:
  "(\<And>i. i < n \<Longrightarrow> \<not> bit x i) \<Longrightarrow> (crc_step ^^ n) x = drop_bit n x"
proof (induction n arbitrary: x)
  case (Suc n)
  have "crc_step x = drop_bit 1 x"
    by (rule bit_eqI) (simp add: bit_crc_step Suc.prems bit_drop_bit_eq)
  moreover have "\<not> bit (drop_bit 1 x) i" if "i < n" for i
    using Suc.prems [of "Suc i"] that by (simp add: bit_drop_bit_eq)
  ultimately show ?case
    using Suc.IH [of "drop_bit 1 x"] by (simp add: funpow_Suc_right del: funpow.simps)
qed simp

lemma nth_crc_table: "i < 256 \<Longrightarrow> make_crc_table ! i = (crc_step ^^ 8) (of_nat i)"
  by (simp add: make_crc_table_def)

lemma byte_mask: "(0xFF :: u32) = mask 8"
  by (simp add: mask_eq_exp_minus_1)

lemma crc_byte_eq_ref: "crc_byte crc b = crc_byte_ref crc b"
proof -
  define x where "x = crc XOR ucast b"
  define lo where "lo = x AND 0xFF"
  define hi where "hi = x AND NOT 0xFF"
  have split: "x = hi XOR lo"
    unfolding lo_def hi_def byte_mask
    by (rule bit_eqI) (auto simp: bit_xor_iff bit_and_iff bit_not_iff)
  have "lo \<le> 0xFF" unfolding lo_def by (rule word_and_le1)
  then have less: "unat lo < 256" by (simp add: word_le_nat_alt)
  have "(crc_step ^^ 8) hi = drop_bit 8 hi"
    unfolding hi_def byte_mask
    by (rule crc_steps_low_zero) (auto simp: bit_and_iff bit_not_iff bit_mask_iff)
  also have "\<dots> = drop_bit 8 crc"
    unfolding hi_def x_def byte_mask
    by (rule bit_eqI)
      (auto simp: bit_drop_bit_eq bit_and_iff bit_not_iff bit_mask_iff bit_xor_iff bit_ucast_iff
        dest: bit_imp_le_length)
  finally have "(crc_step ^^ 8) x = drop_bit 8 crc XOR (crc_step ^^ 8) lo"
    unfolding split by (simp only: crc_steps_xor)
  moreover have "make_crc_table ! unat lo = (crc_step ^^ 8) lo"
    using less by (simp add: nth_crc_table)
  ultimately show ?thesis
    unfolding crc_byte_def crc_byte_ref_def Let_def x_def [symmetric] lo_def [symmetric] by simp
qed

lemma inj_crc_step: "inj crc_step"
proof (rule injI, rule bit_eqI)
  fix a b n
  assume eq: "crc_step a = crc_step b"
  have top: "bit (crc_step x) 31 = bit x 0" for x
    by (auto simp: bit_crc_step crc_poly_def dest: bit_imp_le_length)
  have zero: "bit a 0 = bit b 0" using eq top by metis
  show "bit a n = bit b n"
  proof (cases n)
    case (Suc m)
    then show ?thesis
      using eq zero bit_crc_step [of a m] bit_crc_step [of b m] by auto
  qed (use zero in simp)
qed

lemma inj_crc_steps: "inj (crc_step ^^ n)"
  by (induction n) (auto simp: o_def intro: inj_compose [OF inj_crc_step, unfolded o_def])

lemma xor_cancel_right: "a XOR c = b XOR c \<longleftrightarrow> a = b" for a b c :: u32
  by (auto simp: bit_eq_iff bit_xor_iff)

lemma xor_cancel_left: "c XOR a = c XOR b \<longleftrightarrow> a = b" for a b c :: u32
  by (auto simp: bit_eq_iff bit_xor_iff)

lemma ucast_byte_inj: "(ucast b :: u32) = ucast b' \<longleftrightarrow> b = b'" for b b' :: u8
  by (rule iffI, rule bit_eqI) (auto simp: bit_eq_iff [of "ucast b"] bit_ucast_iff)

lemma crc_byte_state_inj: "crc_byte c b = crc_byte d b \<longleftrightarrow> c = d"
  by (simp add: crc_byte_eq_ref crc_byte_ref_def inj_eq [OF inj_crc_steps] xor_cancel_right)

lemma crc_byte_data_inj: "crc_byte c b = crc_byte c b' \<longleftrightarrow> b = b'"
  by (simp add: crc_byte_eq_ref crc_byte_ref_def inj_eq [OF inj_crc_steps] xor_cancel_left
      ucast_byte_inj)

lemma crc_fold_state_inj: "foldl crc_byte c bs = foldl crc_byte d bs \<longleftrightarrow> c = d"
  by (induction bs arbitrary: c d) (simp_all add: crc_byte_state_inj)

text \<open>Changing one byte of the data always changes its checksum.\<close>

lemma crc32_single_byte:
  assumes "i < length data" "b \<noteq> data ! i"
  shows "crc32 (data[i := b]) \<noteq> crc32 data"
proof -
  have upd: "data[i := b] = take i data @ b # drop (Suc i) data"
    using assms(1) by (simp add: upd_conv_take_nth_drop)
  have old: "data = take i data @ data ! i # drop (Suc i) data"
    using assms(1) by (simp add: id_take_nth_drop)
  let ?c = "foldl crc_byte 0xFFFFFFFF (take i data)"
  have "foldl crc_byte 0xFFFFFFFF (data[i := b]) = foldl crc_byte (crc_byte ?c b) (drop (Suc i) data)"
    by (simp add: upd)
  moreover have "foldl crc_byte 0xFFFFFFFF data
      = foldl crc_byte (crc_byte ?c (data ! i)) (drop (Suc i) data)"
    by (subst old) simp
  ultimately have "foldl crc_byte 0xFFFFFFFF (data[i := b]) \<noteq> foldl crc_byte 0xFFFFFFFF data"
    using assms(2) by (simp add: crc_fold_state_inj crc_byte_data_inj)
  then show ?thesis
    unfolding crc32_def by (simp only: xor_cancel_right not_False_eq_True)
qed

text \<open>
  The table-driven checksum of the source computes the same value as the bit-by-bit
  definition of the reflected CRC-32 polynomial, on every byte string.
\<close>

theorem crc32_eq_bitwise: "crc32 data = crc32_ref data"
proof -
  have "crc_byte = crc_byte_ref" by (intro ext) (rule crc_byte_eq_ref)
  then show ?thesis by (simp add: crc32_def crc32_ref_def)
qed

end
