(* ===== verification/Row_Id.thy ===== *)
theory Row_Id
  imports Prelude
begin

text \<open>
  Stable row identifiers: \<^verbatim>\<open>crates/icefalldb-core/src/rowid.rs\<close>, the segment builder and the
  row-id accumulator of \<^verbatim>\<open>compaction.rs\<close>, and the per-row lookup of
  \<^verbatim>\<open>crates/icefalldb-query/src/scan.rs\<close>. A fragment's rows are the concatenation of its segments
  in physical order; the lemmas show that allocation hands out fresh contiguous blocks, that the
  compactor's segment encoding loses nothing, and that the constant-space lookup agrees with the
  expanded list.
\<close>

section \<open>Segments\<close>

datatype row_id_segment = Range u64 u64 | Sorted "u64 list"

text \<open>The values of a Rust range \<^verbatim>\<open>a..b\<close>, empty when \<open>b \<le> a\<close>.\<close>

definition u64_range :: "u64 \<Rightarrow> u64 \<Rightarrow> u64 list" where
  "u64_range a b = map of_nat [unat a ..< unat b]"

definition allocate_range :: "u64 \<Rightarrow> u64 \<Rightarrow> row_id_segment \<times> u64" where
  "allocate_range next_id cnt = (Range next_id cnt, next_id + cnt)"

fun segment_ids :: "row_id_segment \<Rightarrow> u64 list" where
  "segment_ids (Range start cnt) = u64_range start (start + cnt)"
| "segment_ids (Sorted ids) = ids"

text \<open>The row ids of a fragment in physical order: \<^verbatim>\<open>row_ids.iter().flat_map(segment_ids)\<close>.\<close>

definition flat_ids :: "row_id_segment list \<Rightarrow> u64 list" where
  "flat_ids segs = concat (map segment_ids segs)"

text \<open>A range is well formed when its end is representable, so that it holds \<open>cnt\<close> ids.\<close>

fun wf_segment :: "row_id_segment \<Rightarrow> bool" where
  "wf_segment (Range start cnt) = (unat start + unat cnt < 2 ^ 64)"
| "wf_segment (Sorted ids) = True"

lemma segment_ids_Range:
  "wf_segment (Range s c) \<Longrightarrow> segment_ids (Range s c) = map of_nat [unat s ..< unat s + unat c]"
  by (simp add: u64_range_def unat_add_no_wrap)

lemma length_segment_Range [simp]:
  "unat s + unat c < 2 ^ 64 \<Longrightarrow> length (u64_range s (s + c)) = unat c"
  by (simp add: u64_range_def unat_add_no_wrap)

lemma u64_range_nth:
  "unat s + unat c < 2 ^ 64 \<Longrightarrow> i < unat c \<Longrightarrow> u64_range s (s + c) ! i = s + of_nat i"
  by (simp add: u64_range_def unat_add_no_wrap)

lemma flat_ids_simps [simp]:
  "flat_ids [] = []" "flat_ids (seg # segs) = segment_ids seg @ flat_ids segs"
  by (simp_all add: flat_ids_def)

section \<open>Allocation\<close>

text \<open>
  A commit allocates one block per new fragment, in order, from the manifest's \<^verbatim>\<open>next_row_id\<close>.
\<close>

fun allocate_blocks :: "u64 \<Rightarrow> u64 list \<Rightarrow> row_id_segment list \<times> u64" where
  "allocate_blocks next_id [] = ([], next_id)"
| "allocate_blocks next_id (c # cs) =
     (let (seg, next1) = allocate_range next_id c; (segs, next2) = allocate_blocks next1 cs
      in (seg # segs, next2))"

lemma allocate_blocks_spec:
  assumes "unat n + (\<Sum>c\<leftarrow>cs. unat c) < 2 ^ 64" "allocate_blocks n cs = (segs, n')"
  shows "flat_ids segs = map of_nat [unat n ..< unat n']" "unat n' = unat n + (\<Sum>c\<leftarrow>cs. unat c)"
proof -
  have "flat_ids segs = map of_nat [unat n ..< unat n'] \<and> unat n' = unat n + (\<Sum>c\<leftarrow>cs. unat c)"
    using assms
  proof (induction cs arbitrary: n segs)
    case (Cons c cs)
    have nc: "unat (n + c) = unat n + unat c"
      using Cons.prems(1) by (simp add: unat_add_no_wrap)
    obtain segs' where segs: "segs = Range n c # segs'" "allocate_blocks (n + c) cs = (segs', n')"
      using Cons.prems(2) by (auto simp: allocate_range_def split: prod.splits)
    have IH: "flat_ids segs' = map of_nat [unat (n + c) ..< unat n']"
      "unat n' = unat (n + c) + (\<Sum>c\<leftarrow>cs. unat c)"
      using Cons.IH [OF _ segs(2)] Cons.prems(1) nc by auto
    have "[unat n ..< unat n'] = [unat n ..< unat n + unat c] @ [unat n + unat c ..< unat n']"
      unfolding IH(2) nc add.assoc [of "unat n"]
      by (rule upt_add_eq_append [of "unat n" "unat n + unat c", unfolded add.assoc]) simp
    then show ?case
      using IH segs(1) nc by (simp add: u64_range_def)
  qed simp
  then show "flat_ids segs = map of_nat [unat n ..< unat n']"
    "unat n' = unat n + (\<Sum>c\<leftarrow>cs. unat c)" by simp_all
qed

text \<open>The loop of a commit: one block of row ids and one fragment id per planned row group.\<close>

fun allocate_fragments ::
  "u64 \<Rightarrow> u64 \<Rightarrow> u64 list \<Rightarrow> row_id_segment list \<times> u64 list \<times> u64 \<times> u64" where
  "allocate_fragments next_row_id next_fragment_id [] = ([], [], next_row_id, next_fragment_id)"
| "allocate_fragments next_row_id next_fragment_id (row_count # rest) =
     (let (seg, next_row_id') = allocate_range next_row_id row_count;
          (segs, frag_ids, r, f) = allocate_fragments next_row_id' (next_fragment_id + 1) rest
      in (seg # segs, next_fragment_id # frag_ids, r, f))"

lemma allocate_fragments_blocks:
  "allocate_fragments n f cs =
     (fst (allocate_blocks n cs), map (\<lambda>i. f + of_nat i) [0..<length cs], snd (allocate_blocks n cs),
      f + of_nat (length cs))"
proof (induction cs arbitrary: n f)
  case (Cons c cs)
  have "f # map (\<lambda>i. f + 1 + of_nat i) [0..<length cs] = map (\<lambda>i. f + of_nat i) [0..<length (c # cs)]"
    by (simp add: upt_rec [of 0] map_Suc_upt [symmetric] algebra_simps del: upt_Suc)
  then show ?case by (simp add: Cons.IH split_def Let_def algebra_simps)
qed simp

lemma distinct_consecutive:
  assumes "k \<le> 2 ^ 64"
  shows "distinct (map (\<lambda>i. f + of_nat i :: u64) [0..<k])"
  using assms by (auto simp: distinct_map of_nat_u64_eq intro!: inj_onI)

lemma distinct_map_of_nat_u64:
  "k \<le> 2 ^ 64 \<Longrightarrow> distinct (map (of_nat :: nat \<Rightarrow> u64) [j ..< k])"
  by (auto simp: distinct_map of_nat_u64_eq intro!: inj_onI)

section \<open>The compactor's segment builder\<close>

fun id_runs :: "u64 \<Rightarrow> u64 \<Rightarrow> u64 list \<Rightarrow> row_id_segment list" where
  "id_runs run_start run_len [] = [Range run_start run_len]"
| "id_runs run_start run_len (i # ids) =
     (if i = run_start + run_len then id_runs run_start (run_len + 1) ids
      else Range run_start run_len # id_runs i 1 ids)"

definition ids_to_segments :: "u64 list \<Rightarrow> row_id_segment list" where
  "ids_to_segments ids =
     (case ids of
        [] \<Rightarrow> []
      | i # rest \<Rightarrow>
          if any_adjacent (\<lambda>a b. b \<le> a) ids then [Sorted ids] else id_runs i 1 rest)"

lemma id_runs_flat:
  assumes "unat s + unat n < 2 ^ 64" "\<forall>i\<in>set ids. i \<noteq> - 1"
  shows "flat_ids (id_runs s n ids) = u64_range s (s + n) @ ids"
  using assms
proof (induction s n ids rule: id_runs.induct)
  case (2 s n i ids)
  show ?case
  proof (cases "i = s + n")
    case True
    have un: "unat (s + n) = unat s + unat n"
      using "2.prems"(1) by (simp add: unat_add_no_wrap)
    have lt: "unat s + unat n + 1 < 2 ^ 64"
      using True un unat_not_max [of i] "2.prems"(2) by simp
    then have n1: "unat (n + 1) = unat n + 1"
      by (simp add: unat_word_ariths)
    have "unat (s + (n + 1)) = Suc (unat s + unat n)"
      using lt n1 unat_add_no_wrap [of s "n + 1"] by (simp only: add_Suc_right add_0_right One_nat_def)
    moreover have "of_nat (unat s + unat n) = i" using True by simp
    ultimately have "u64_range s (s + (n + 1)) = u64_range s (s + n) @ [i]"
      by (simp add: u64_range_def un del: of_nat_add)
    moreover have "flat_ids (id_runs s (n + 1) ids) = u64_range s (s + (n + 1)) @ ids"
      using "2.IH"(1) True lt n1 "2.prems"(2) by simp
    ultimately show ?thesis using True by simp
  next
    case False
    have lt: "unat i + unat (1 :: u64) < 2 ^ 64"
      using unat_not_max [of i] "2.prems"(2) by simp
    then have "u64_range i (i + 1) = [i]"
      by (simp add: u64_range_def unat_add_no_wrap)
    with "2.IH"(2) False lt "2.prems"(2) show ?thesis by simp
  qed
qed simp


lemma ids_to_segments_flat:
  assumes "\<forall>i\<in>set ids. i \<noteq> - 1"
  shows "flat_ids (ids_to_segments ids) = ids"
proof (cases ids)
  case (Cons i rest)
  have lt: "unat i + unat (1 :: u64) < 2 ^ 64"
    using assms Cons unat_not_max [of i] by simp
  then have "u64_range i (i + 1) = [i]"
    by (simp add: u64_range_def unat_add_no_wrap)
  with lt assms show ?thesis
    unfolding ids_to_segments_def Cons by (simp add: id_runs_flat)
qed (simp add: ids_to_segments_def)

lemma id_runs_ranges: "seg \<in> set (id_runs s n ids) \<Longrightarrow> \<exists>a c. seg = Range a c"
  by (induction s n ids rule: id_runs.induct) (auto split: if_splits)

text \<open>The ascending path of the compactor produces ranges only.\<close>

lemma ids_to_segments_ranges:
  assumes "sorted_wrt (<) ids" "seg \<in> set (ids_to_segments ids)"
  shows "\<exists>a c. seg = Range a c"
proof -
  have "\<not> any_adjacent (\<lambda>a b. b \<le> a) ids" using assms(1) by (simp add: not_any_adjacent_le)
  with assms(2) show ?thesis
    by (auto simp: ids_to_segments_def id_runs_ranges split: list.splits)
qed

section \<open>The accumulator that keeps row ids beside batches\<close>

record row_id_accumulator =
  acc_all :: "u64 list"
  acc_cursor :: nat

definition acc_new :: row_id_accumulator where
  "acc_new = \<lparr>acc_all = [], acc_cursor = 0\<rparr>"

definition acc_push :: "row_id_accumulator \<Rightarrow> u64 list \<Rightarrow> row_id_accumulator" where
  "acc_push a ids = a\<lparr>acc_all := acc_all a @ ids\<rparr>"

definition acc_take :: "row_id_accumulator \<Rightarrow> nat \<Rightarrow> u64 list \<times> row_id_accumulator" where
  "acc_take a n =
     (let end_ix = min (acc_cursor a + n) (length (acc_all a))
      in (take (end_ix - acc_cursor a) (drop (acc_cursor a) (acc_all a)),
          a\<lparr>acc_cursor := end_ix\<rparr>))"

text \<open>What is still to be handed out: the accumulator is a queue of row ids.\<close>

definition acc_pending :: "row_id_accumulator \<Rightarrow> u64 list" where
  "acc_pending a = drop (acc_cursor a) (acc_all a)"

definition acc_inv :: "row_id_accumulator \<Rightarrow> bool" where
  "acc_inv a \<longleftrightarrow> acc_cursor a \<le> length (acc_all a)"

lemma acc_new_spec: "acc_inv acc_new" "acc_pending acc_new = []"
  by (simp_all add: acc_new_def acc_inv_def acc_pending_def)

lemma acc_push_spec:
  assumes "acc_inv a"
  shows "acc_inv (acc_push a ids)" "acc_pending (acc_push a ids) = acc_pending a @ ids"
  using assms by (simp_all add: acc_push_def acc_inv_def acc_pending_def)

lemma acc_take_spec:
  assumes "acc_inv a" "acc_take a n = (ids, a')"
  shows "acc_inv a'" "ids = take n (acc_pending a)" "acc_pending a' = drop n (acc_pending a)"
  using assms
  by (auto simp: acc_take_def acc_inv_def acc_pending_def min_def add.commute split: if_splits)

section \<open>The id at a physical offset\<close>

fun row_id_at_offset :: "row_id_segment list \<Rightarrow> nat \<Rightarrow> u64 option" where
  "row_id_at_offset [] remaining = None"
| "row_id_at_offset (Range start cnt # segs) remaining =
     (if remaining < unat cnt then Some (start + of_nat remaining)
      else row_id_at_offset segs (remaining - unat cnt))"
| "row_id_at_offset (Sorted ids # segs) remaining =
     (if remaining < length ids then Some (ids ! remaining)
      else row_id_at_offset segs (remaining - length ids))"

lemma row_id_at_offset_flat:
  assumes "\<forall>seg\<in>set segs. wf_segment seg"
  shows "row_id_at_offset segs off
    = (if off < length (flat_ids segs) then Some (flat_ids segs ! off) else None)"
  using assms
  by (induction segs off rule: row_id_at_offset.induct) (auto simp: nth_append u64_range_nth)

end
