(* ===== verification/Row_Index.thy ===== *)
theory Row_Index
  imports Byte_Codec Row_Id
begin

text \<open>
  The row-address index of \<^verbatim>\<open>crates/icefalldb-core/src/rowindex\<close>: address segments, the binary
  file format (\<open>encode_idx\<close>, \<open>decode_idx\<close>), predecessor search with containment
  (\<open>lookup_in_base\<close>), the memory-mapped reader, the layered address map and the coalescing of
  live rows into segments. The storage-backed operations are in \<open>Row_Index_Store\<close>.
\<close>

section \<open>Address segments\<close>

record addr_segment =
  start_row_id :: u64
  seg_fragment_id :: u64
  start_offset :: u32
  seg_len :: u32

abbreviation addr_of :: "u64 \<Rightarrow> addr_segment \<Rightarrow> u64 \<times> u32" where
  "addr_of row_id s \<equiv> (seg_fragment_id s, start_offset s + ucast (row_id - start_row_id s))"

section \<open>Encoding\<close>

definition HEADER_LEN :: nat where "HEADER_LEN = 32"
definition SEGMENT_LEN :: nat where "SEGMENT_LEN = 24"
definition BLOCK_ENTRY_LEN :: nat where "BLOCK_ENTRY_LEN = 12"
definition TRAILER_LEN :: nat where "TRAILER_LEN = 4"
definition BLOCK_STRIDE :: nat where "BLOCK_STRIDE = 1024"

lemmas idx_consts =
  HEADER_LEN_def SEGMENT_LEN_def BLOCK_ENTRY_LEN_def TRAILER_LEN_def BLOCK_STRIDE_def

text \<open>The ASCII bytes of \<^verbatim>\<open>MRIX\<close>.\<close>

definition MAGIC :: bytes where
  "MAGIC = [77, 82, 73, 88]"

definition encode_seg :: "addr_segment \<Rightarrow> bytes" where
  "encode_seg s =
     le_u64 (start_row_id s) @ le_u64 (seg_fragment_id s) @ le_u32 (start_offset s) @ le_u32 (seg_len s)"

definition block_index :: "addr_segment list \<Rightarrow> bytes" where
  "block_index segs =
     concat (map (\<lambda>(i, s).
       if i mod BLOCK_STRIDE = 0
       then le_u64 (start_row_id s) @ le_bytes 4 (HEADER_LEN + i * SEGMENT_LEN) else [])
       (enumerate 0 segs))"

definition encode_idx :: "addr_segment list \<Rightarrow> bytes" where
  "encode_idx segs =
     (let sorted = sort_key start_row_id segs;
          seg_count = length sorted;
          block_count = (if seg_count = 0 then 0 else (seg_count - 1) div BLOCK_STRIDE + 1);
          block_index_offset = HEADER_LEN + seg_count * SEGMENT_LEN;
          file_len_no_trailer = block_index_offset + block_count * BLOCK_ENTRY_LEN;
          total_len = file_len_no_trailer + TRAILER_LEN;
          buf = MAGIC @ le_u16 1 @ le_u16 0 @ le_bytes 8 seg_count @ le_bytes 8 total_len
                  @ le_bytes 8 block_index_offset
                @ concat (map encode_seg sorted)
                @ block_index sorted
      in buf @ le_u32 (crc32 buf))"

section \<open>Decoding\<close>

definition slice :: "'a list \<Rightarrow> nat \<Rightarrow> nat \<Rightarrow> 'a list" where
  "slice buf off n = take n (drop off buf)"

definition decode_seg :: "bytes \<Rightarrow> nat \<Rightarrow> addr_segment" where
  "decode_seg buf off =
     \<lparr>start_row_id = of_nat (le_nat (slice buf off 8)),
      seg_fragment_id = of_nat (le_nat (slice buf (off + 8) 8)),
      start_offset = of_nat (le_nat (slice buf (off + 16) 4)),
      seg_len = of_nat (le_nat (slice buf (off + 20) 4))\<rparr>"

text \<open>The segment loop; a slice out of range panics.\<close>

fun decode_segs :: "bytes \<Rightarrow> nat \<Rightarrow> nat \<Rightarrow> addr_segment list result" where
  "decode_segs buf i 0 = Inr []"
| "decode_segs buf i (Suc n) =
     (let off = HEADER_LEN + i * SEGMENT_LEN
      in if off + SEGMENT_LEN \<le> length buf
         then res_bind (decode_segs buf (Suc i) n) (\<lambda>rest. Inr (decode_seg buf off # rest))
         else Inl Panic)"

text \<open>
  \<^verbatim>\<open>decode_idx\<close>, checks in the order of the source. The products of header fields are \<^verbatim>\<open>usize\<close>
  arithmetic and wrap at 64 bits; \<^verbatim>\<open>Vec::with_capacity\<close> panics when the segments would take more
  than \<^verbatim>\<open>isize::MAX\<close> bytes.
\<close>

definition decode_idx :: "bytes \<Rightarrow> addr_segment list result" where
  "decode_idx buf =
     (if length buf < HEADER_LEN + TRAILER_LEN then Inl (Other ''buffer too short'')
      else if take 4 buf \<noteq> MAGIC then Inl (Other ''bad magic bytes'')
      else
        let body = take (length buf - TRAILER_LEN) buf;
            stored_crc = of_nat (le_nat (drop (length buf - TRAILER_LEN) buf)) :: u32
        in if stored_crc \<noteq> crc32 body then Inl (Other ''CRC32 mismatch'')
           else
             let seg_count = le_nat (slice buf 8 8);
                 file_len = le_nat (slice buf 16 8);
                 block_index_offset = le_nat (slice buf 24 8);
                 expected_seg_end = (HEADER_LEN + seg_count * SEGMENT_LEN) mod 2 ^ 64
             in if length buf \<noteq> file_len then Inl (Other ''file_length mismatch'')
                else if block_index_offset \<noteq> expected_seg_end
                then Inl (Other ''block_index_offset inconsistent'')
                else if length buf < expected_seg_end then Inl (Other ''truncated segments'')
                else if seg_count * SEGMENT_LEN \<ge> 2 ^ 63 then Inl Panic
                else decode_segs buf 0 seg_count)"

section \<open>The format reads back\<close>

lemma length_encode_seg [simp, bytes_simps]: "length (encode_seg s) = SEGMENT_LEN"
  by (simp add: encode_seg_def SEGMENT_LEN_def)

lemma length_concat_segs [simp, bytes_simps]:
  "length (concat (map encode_seg segs)) = length segs * SEGMENT_LEN"
  by (induction segs) simp_all

lemma slice_append_left: "off + n \<le> length xs \<Longrightarrow> slice (xs @ ys) off n = slice xs off n"
  by (simp add: slice_def)

lemma slice_append_right:
  "length xs \<le> off \<Longrightarrow> slice (xs @ ys) off n = slice ys (off - length xs) n"
  by (simp add: slice_def)

lemma slice_exact: "length xs = n \<Longrightarrow> slice (xs @ ys) 0 n = xs"
  by (simp add: slice_def)

lemma decode_encode_seg:
  "length pre = off \<Longrightarrow> decode_seg (pre @ encode_seg s @ post) off = s"
  by (simp add: decode_seg_def encode_seg_def slice_append_right slice_exact)

lemma decode_segs_encode:
  "length pre = HEADER_LEN + i * SEGMENT_LEN \<Longrightarrow>
   decode_segs (pre @ concat (map encode_seg segs) @ post) i (length segs) = Inr segs"
proof (induction segs arbitrary: pre i)
  case (Cons s segs)
  have "decode_segs ((pre @ encode_seg s) @ concat (map encode_seg segs) @ post) (Suc i)
      (length segs) = Inr segs"
    using Cons.prems by (intro Cons.IH) simp
  moreover have "decode_seg (pre @ encode_seg s @ concat (map encode_seg segs) @ post)
      (HEADER_LEN + i * SEGMENT_LEN) = s"
    using Cons.prems by (rule decode_encode_seg)
  ultimately show ?case using Cons.prems by simp
qed simp

lemma length_block_entries:
  "length (concat (map (\<lambda>(i, s). if i mod BLOCK_STRIDE = 0
      then le_u64 (start_row_id s) @ le_bytes 4 (HEADER_LEN + i * SEGMENT_LEN) else [])
      (enumerate k segs)))
   = BLOCK_ENTRY_LEN * card {i \<in> {k..<k + length segs}. i mod BLOCK_STRIDE = 0}"
proof (induction segs arbitrary: k)
  case (Cons s segs)
  have "{i \<in> {k..<k + length (s # segs)}. i mod BLOCK_STRIDE = 0}
      = (if k mod BLOCK_STRIDE = 0 then {k} else {})
        \<union> {i \<in> {Suc k..<Suc k + length segs}. i mod BLOCK_STRIDE = 0}"
    by (auto simp: not_less_eq_eq le_Suc_eq dest: le_neq_implies_less)
  then have "card {i \<in> {k..<k + length (s # segs)}. i mod BLOCK_STRIDE = 0}
      = (if k mod BLOCK_STRIDE = 0 then 1 else 0)
        + card {i \<in> {Suc k..<Suc k + length segs}. i mod BLOCK_STRIDE = 0}"
    by (simp add: card_insert_if)
  with Cons [of "Suc k"] show ?case by (simp add: BLOCK_ENTRY_LEN_def)
qed simp

lemma card_multiples:
  "0 < m \<Longrightarrow> card {i \<in> {0..<n}. i mod m = 0} = (if n = 0 then 0 else (n - 1) div m + 1)"
  for m n :: nat
proof -
  assume m: "0 < m"
  show ?thesis
  proof (cases n)
    case (Suc k)
    have "{i \<in> {0..<n}. i mod m = 0} = (\<lambda>j. j * m) ` {0..k div m}"
    proof (intro set_eqI iffI)
      fix i assume "i \<in> {i \<in> {0..<n}. i mod m = 0}"
      then have "i \<le> k" "i = i div m * m" using Suc by auto
      then show "i \<in> (\<lambda>j. j * m) ` {0..k div m}" 
        by (intro image_eqI [of _ _ "i div m"]) (auto intro: div_le_mono)
    next
      fix i assume "i \<in> (\<lambda>j. j * m) ` {0..k div m}"
      then obtain j where "i = j * m" "j \<le> k div m" by (metis atLeastAtMost_iff imageE)
      then have "i \<le> k" by (metis div_times_less_eq_dividend le_trans mult_le_mono1)
      with \<open>i = j * m\<close> show "i \<in> {i \<in> {0..<n}. i mod m = 0}" using Suc by simp
    qed
    moreover have "inj_on (\<lambda>j. j * m) {0..k div m}" using m by (auto intro: inj_onI)
    ultimately show ?thesis using Suc by (simp add: card_image)
  qed simp
qed

lemma length_block_index:
  "length (block_index segs)
   = (if length segs = 0 then 0 else (length segs - 1) div BLOCK_STRIDE + 1) * BLOCK_ENTRY_LEN"
proof -
  have "0 < BLOCK_STRIDE" by (simp add: BLOCK_STRIDE_def)
  then show ?thesis
    unfolding block_index_def length_block_entries add_0
    by (subst card_multiples) (simp_all del: mult_Suc add: mult.commute)
qed

lemma length_MAGIC [simp, bytes_simps]: "length MAGIC = 4"
  by (simp add: MAGIC_def)

text \<open>An accepted buffer: the fields agree with its length and the segment region fits.\<close>

lemma decode_idx_accept:
  assumes buf: "buf = MAGIC @ v @ r @ le_bytes 8 n @ le_bytes 8 (length buf)
      @ le_bytes 8 (HEADER_LEN + n * SEGMENT_LEN) @ concat (map encode_seg segs) @ post
      @ le_u32 (crc32 body)"
    and body: "body = take (length buf - TRAILER_LEN) buf"
    and lens: "length v = 2" "length r = 2" "n = length segs" "length buf < 2 ^ 63"
  shows "decode_idx buf = Inr segs"
proof -
  let ?hdr = "MAGIC @ v @ r @ le_bytes 8 n @ le_bytes 8 (length buf)
      @ le_bytes 8 (HEADER_LEN + n * SEGMENT_LEN)"
  have hl: "length ?hdr = HEADER_LEN" using lens by (simp add: HEADER_LEN_def)
  have len: "length buf = HEADER_LEN + n * SEGMENT_LEN + length post + TRAILER_LEN"
    using hl lens(3) by (subst buf) (simp add: TRAILER_LEN_def)
  have fits: "HEADER_LEN + n * SEGMENT_LEN < 2 ^ 63" using len lens(4) by linarith
  have nfits: "n < 2 ^ 63" using fits by (simp add: SEGMENT_LEN_def)
  have "take 4 buf = MAGIC" by (subst buf) simp
  moreover have "slice buf 8 8 = le_bytes 8 n"
    by (subst buf) (simp add: slice_append_right slice_exact lens)
  then have "le_nat (slice buf 8 8) = n" using nfits by simp
  moreover have "slice buf 16 8 = le_bytes 8 (length buf)"
    by (subst buf) (simp add: slice_append_right slice_exact lens)
  then have "le_nat (slice buf 16 8) = length buf" using lens(4) by simp
  moreover have "slice buf 24 8 = le_bytes 8 (HEADER_LEN + n * SEGMENT_LEN)"
    by (subst buf) (simp add: slice_append_right slice_exact lens)
  then have "le_nat (slice buf 24 8) = HEADER_LEN + n * SEGMENT_LEN" using fits by simp
  moreover have "drop (length buf - TRAILER_LEN) buf = le_u32 (crc32 body)"
    using hl len lens(3) by (subst (2) buf) (simp add: TRAILER_LEN_def)
  moreover have "decode_segs buf 0 n = Inr segs"
    using decode_segs_encode [of ?hdr 0 segs "post @ le_u32 (crc32 body)"] hl buf lens(3) by simp
  ultimately show ?thesis
    using len fits body by (simp add: decode_idx_def)
qed

lemma take_length_append: "take (length xs) (xs @ ys) = xs"
  by simp

text \<open>Decoding what was encoded gives back the segments, sorted by their first row id.\<close>

lemma decode_encode_idx:
  assumes "length segs < 2 ^ 56"
  shows "decode_idx (encode_idx segs) = Inr (sort_key start_row_id segs)"
proof -
  let ?s = "sort_key start_row_id segs"
  let ?n = "length segs"
  let ?bc = "if ?n = 0 then 0 else (?n - 1) div BLOCK_STRIDE + 1"
  let ?tot = "HEADER_LEN + ?n * SEGMENT_LEN + ?bc * BLOCK_ENTRY_LEN + TRAILER_LEN"
  let ?buf = "MAGIC @ le_u16 1 @ le_u16 0 @ le_bytes 8 ?n @ le_bytes 8 ?tot
      @ le_bytes 8 (HEADER_LEN + ?n * SEGMENT_LEN) @ concat (map encode_seg ?s) @ block_index ?s"
  have enc: "encode_idx segs = ?buf @ le_u32 (crc32 ?buf)"
    unfolding encode_idx_def Let_def length_sort by (simp only: append_assoc)
  have bc: "?bc \<le> ?n"
    by (cases ?n) (auto simp: BLOCK_STRIDE_def)
  have lb: "length ?buf = ?tot - TRAILER_LEN"
    by (simp add: length_block_index HEADER_LEN_def)
  then have len: "length (encode_idx segs) = ?tot"
    unfolding enc by (simp add: TRAILER_LEN_def)
  have body: "take (length (encode_idx segs) - TRAILER_LEN) (encode_idx segs) = ?buf"
    unfolding len lb [symmetric] by (simp only: enc take_length_append)
  have small: "length (encode_idx segs) < 2 ^ 63"
    unfolding len using assms bc by (simp add: idx_consts)
  have shape: "encode_idx segs = MAGIC @ le_u16 1 @ le_u16 0 @ le_bytes 8 ?n
      @ le_bytes 8 (length (encode_idx segs)) @ le_bytes 8 (HEADER_LEN + ?n * SEGMENT_LEN)
      @ concat (map encode_seg ?s) @ block_index ?s @ le_u32 (crc32 ?buf)"
    unfolding len by (simp only: enc append_assoc)
  show ?thesis
    by (rule decode_idx_accept [OF shape body [symmetric] _ _ _ small]) simp_all
qed

section \<open>Corruption is noticed\<close>

lemma decode_idx_crc:
  assumes "decode_idx buf = Inr segs"
  shows "HEADER_LEN + TRAILER_LEN \<le> length buf"
    "of_nat (le_nat (drop (length buf - TRAILER_LEN) buf)) = crc32 (take (length buf - TRAILER_LEN) buf)"
  using assms by (auto simp: decode_idx_def Let_def split: if_splits)

lemma decode_idx_bad_crc:
  assumes "of_nat (le_nat (drop (length buf - TRAILER_LEN) buf)) \<noteq> crc32 (take (length buf - TRAILER_LEN) buf)"
  shows "\<exists>m. decode_idx buf = Inl (Other m)"
  using assms by (auto simp: decode_idx_def Let_def)

lemma le_nat_u32_inj:
  assumes "length xs = 4" "length ys = 4" "(of_nat (le_nat xs) :: u32) = of_nat (le_nat ys)"
  shows "xs = ys"
proof -
  have "le_nat xs < 2 ^ 32" "le_nat ys < 2 ^ 32"
    using le_nat_less [of xs] le_nat_less [of ys] assms(1,2) by simp_all
  with assms(3) have "le_nat xs = le_nat ys"
    by (simp add: word_unat_eq_iff unat_of_nat)
  with assms(1,2) show ?thesis by (metis le_bytes_le_nat)
qed

lemma decode_idx_one_byte:
  assumes ok: "decode_idx buf = Inr segs" and i: "i < length buf" and b: "b \<noteq> buf ! i"
  shows "\<exists>m. decode_idx (buf[i := b]) = Inl (Other m)"
proof (rule decode_idx_bad_crc)
  let ?k = "length buf - TRAILER_LEN"
  note crc = decode_idx_crc [OF ok]
  have dropl: "length (drop ?k buf) = 4"
    using crc(1) by (simp add: HEADER_LEN_def TRAILER_LEN_def)
  have "of_nat (le_nat (drop ?k (buf[i := b]))) \<noteq> crc32 (take ?k (buf[i := b]))"
  proof (cases "i < ?k")
    case True
    then have "take ?k (buf[i := b]) = (take ?k buf)[i := b]" "drop ?k (buf[i := b]) = drop ?k buf"
      by (simp_all add: take_update_swap drop_update_cancel)
    moreover have "crc32 ((take ?k buf)[i := b]) \<noteq> crc32 (take ?k buf)"
      using True b by (intro crc32_single_byte) simp_all
    ultimately show ?thesis using crc(2) by simp
  next
    case False
    then have t: "take ?k (buf[i := b]) = take ?k buf"
      by (simp add: take_update_cancel)
    have d: "drop ?k (buf[i := b]) = (drop ?k buf)[i - ?k := b]"
      using False by (simp add: drop_update_swap)
    have "(drop ?k buf)[i - ?k := b] \<noteq> drop ?k buf"
    proof
      assume eq: "(drop ?k buf)[i - ?k := b] = drop ?k buf"
      have "i - ?k < length (drop ?k buf)" using False i by simp
      then have "(drop ?k buf)[i - ?k := b] ! (i - ?k) = b" by (rule nth_list_update_eq)
      moreover have "drop ?k buf ! (i - ?k) = buf ! i" using False i by simp
      ultimately show False using eq b by simp
    qed
    then have "(of_nat (le_nat (drop ?k (buf[i := b]))) :: u32) \<noteq> of_nat (le_nat (drop ?k buf))"
      using le_nat_u32_inj [of "(drop ?k buf)[i - ?k := b]" "drop ?k buf"] dropl d by auto
    then show ?thesis using t crc(2) by simp
  qed
  then show "of_nat (le_nat (drop (length (buf[i := b]) - TRAILER_LEN) (buf[i := b])))
      \<noteq> crc32 (take (length (buf[i := b]) - TRAILER_LEN) (buf[i := b]))" by simp
qed

section \<open>Predecessor search with containment\<close>

definition saturating_add_u64 :: "u64 \<Rightarrow> u64 \<Rightarrow> u64" where
  "saturating_add_u64 a b = (if unat a + unat b < 2 ^ 64 then a + b else - 1)"

definition lookup_in_base :: "addr_segment list \<Rightarrow> u64 \<Rightarrow> (u64 \<times> u32) option" where
  "lookup_in_base segments row_id =
     (let idx = partition_point (\<lambda>s. start_row_id s \<le> row_id) segments
      in if idx = 0 then None
         else let seg = segments ! (idx - 1)
              in if row_id < saturating_add_u64 (start_row_id seg) (ucast (seg_len seg))
                 then Some (addr_of row_id seg)
                 else None)"

text \<open>
  A segment covers the ids of its half-open interval. A segment list is well formed when the
  intervals are ordered, disjoint and end below \<^verbatim>\<open>u64::MAX\<close>, which is what \<^verbatim>\<open>derive_base\<close> produces.
\<close>

definition covers :: "addr_segment \<Rightarrow> u64 \<Rightarrow> bool" where
  "covers s r \<longleftrightarrow> unat (start_row_id s) \<le> unat r \<and> unat r < unat (start_row_id s) + unat (seg_len s)"

definition segs_wf :: "addr_segment list \<Rightarrow> bool" where
  "segs_wf segs \<longleftrightarrow>
     sorted_wrt (\<lambda>a b. unat (start_row_id a) + unat (seg_len a) \<le> unat (start_row_id b)) segs
     \<and> (\<forall>s \<in> set segs. unat (start_row_id s) + unat (seg_len s) < 2 ^ 64)"

definition segs_denote :: "addr_segment list \<Rightarrow> u64 \<Rightarrow> (u64 \<times> u32) option" where
  "segs_denote segs r = map_option (addr_of r) (find (\<lambda>s. covers s r) segs)"

lemma contains_iff_covers:
  assumes "unat (start_row_id s) + unat (seg_len s) < 2 ^ 64" "start_row_id s \<le> r"
  shows "r < saturating_add_u64 (start_row_id s) (ucast (seg_len s)) \<longleftrightarrow> covers s r"
proof -
  have u: "unat (ucast (seg_len s) :: u64) = unat (seg_len s)"
    by simp
  with assms(1) have "saturating_add_u64 (start_row_id s) (ucast (seg_len s))
      = start_row_id s + ucast (seg_len s)" by (simp add: saturating_add_u64_def)
  moreover have "unat (start_row_id s + ucast (seg_len s) :: u64)
      = unat (start_row_id s) + unat (seg_len s)"
    using assms(1) u by (simp add: unat_add_no_wrap)
  ultimately show ?thesis
    using assms(2) by (simp add: covers_def word_less_nat_alt word_le_nat_alt)
qed

lemma lookup_in_base_covered:
  assumes wf: "segs_wf segs" and i: "i < length segs" and c: "covers (segs ! i) r"
  shows "lookup_in_base segs r = Some (addr_of r (segs ! i))"
proof -
  have "partition_point (\<lambda>s. start_row_id s \<le> r) segs = Suc i"
  proof (rule partition_point_eqI)
    fix j assume "j < Suc i"
    then consider "j = i" | "j < i" by linarith
    then show "start_row_id (segs ! j) \<le> r"
    proof cases
      case 2
      then have "unat (start_row_id (segs ! j)) + unat (seg_len (segs ! j)) \<le> unat (start_row_id (segs ! i))"
        using wf i by (simp add: segs_wf_def sorted_wrt_iff_nth_less)
      with c show ?thesis by (simp add: covers_def word_le_nat_alt)
    qed (use c in \<open>simp add: covers_def word_le_nat_alt\<close>)
  next
    assume "Suc i < length segs"
    then have "unat (start_row_id (segs ! i)) + unat (seg_len (segs ! i)) \<le> unat (start_row_id (segs ! Suc i))"
      using wf by (simp add: segs_wf_def sorted_wrt_iff_nth_less)
    with c show "\<not> start_row_id (segs ! Suc i) \<le> r" by (simp add: covers_def word_le_nat_alt)
  qed (use i in simp)
  moreover have "r < saturating_add_u64 (start_row_id (segs ! i)) (ucast (seg_len (segs ! i)))"
    using wf i c by (subst contains_iff_covers) (auto simp: segs_wf_def covers_def word_le_nat_alt)
  ultimately show ?thesis by (simp add: lookup_in_base_def Let_def)
qed

lemma lookup_in_base_Some:
  assumes wf: "segs_wf segs" and l: "lookup_in_base segs r = Some a"
  shows "\<exists>s \<in> set segs. covers s r \<and> a = addr_of r s"
proof -
  let ?i = "partition_point (\<lambda>s. start_row_id s \<le> r) segs"
  have i: "?i \<noteq> 0" "a = addr_of r (segs ! (?i - 1))"
    "r < saturating_add_u64 (start_row_id (segs ! (?i - 1))) (ucast (seg_len (segs ! (?i - 1))))"
    using l by (auto simp: lookup_in_base_def Let_def split: if_splits)
  have "segs ! (?i - 1) \<in> set segs"
    using i(1) partition_point_le [of "\<lambda>s. start_row_id s \<le> r" segs] by simp
  moreover have "start_row_id (segs ! (?i - 1)) \<le> r"
    using i(1) partition_point_nth [of "?i - 1" "\<lambda>s. start_row_id s \<le> r" segs] by simp
  ultimately show ?thesis
    using i wf contains_iff_covers by (auto simp: segs_wf_def)
qed

lemma lookup_in_base_iff:
  assumes "segs_wf segs"
  shows "lookup_in_base segs r = Some a \<longleftrightarrow> (\<exists>s \<in> set segs. covers s r \<and> a = addr_of r s)"
  using lookup_in_base_Some [OF assms] lookup_in_base_covered [OF assms]
  by (metis in_set_conv_nth)

lemma lookup_in_base_denote: "segs_wf segs \<Longrightarrow> lookup_in_base segs r = segs_denote segs r"
proof -
  assume wf: "segs_wf segs"
  show ?thesis
  proof (cases "find (\<lambda>s. covers s r) segs")
    case None
    then have "\<forall>s \<in> set segs. \<not> covers s r" by (simp add: find_None_iff)
    with lookup_in_base_Some [OF wf] None show ?thesis
      by (cases "lookup_in_base segs r") (auto simp: segs_denote_def)
  next
    case (Some s)
    then obtain i where "i < length segs" "covers (segs ! i) r" "s = segs ! i"
      by (auto simp: find_Some_iff)
    with lookup_in_base_covered [OF wf] Some show ?thesis by (simp add: segs_denote_def)
  qed
qed

section \<open>The memory-mapped reader\<close>

text \<open>
  \<^verbatim>\<open>MmapBase\<close>: the bytes of the file and the segment count of its header. Offsets are \<^verbatim>\<open>usize\<close>
  and wrap; a slice that leaves the file panics.
\<close>

record mmap_base =
  mm_bytes :: bytes
  mm_seg_count :: nat

definition mmap_open :: "bytes \<Rightarrow> mmap_base result" where
  "mmap_open file =
     (if length file < HEADER_LEN then Inl (Other ''file too short for header'')
      else Inr \<lparr>mm_bytes = file, mm_seg_count = le_nat (slice file 8 8)\<rparr>)"

definition mmap_seg_start_row_id :: "mmap_base \<Rightarrow> nat \<Rightarrow> u64 result" where
  "mmap_seg_start_row_id m i =
     (let off = (HEADER_LEN + i * SEGMENT_LEN) mod 2 ^ 64
      in if off + 8 \<le> length (mm_bytes m) then Inr (of_nat (le_nat (slice (mm_bytes m) off 8)))
         else Inl Panic)"

definition mmap_decode_seg :: "mmap_base \<Rightarrow> nat \<Rightarrow> addr_segment result" where
  "mmap_decode_seg m i =
     (let base = (HEADER_LEN + i * SEGMENT_LEN) mod 2 ^ 64
      in if base + SEGMENT_LEN \<le> length (mm_bytes m) then Inr (decode_seg (mm_bytes m) base)
         else Inl Panic)"

function mmap_search :: "mmap_base \<Rightarrow> u64 \<Rightarrow> nat \<Rightarrow> nat \<Rightarrow> nat result" where
  "mmap_search m row_id lo hi =
     (if lo + 1 < hi
      then let mid = lo + (hi - lo) div 2
           in res_bind (mmap_seg_start_row_id m mid) (\<lambda>start.
                if start \<le> row_id then mmap_search m row_id mid hi else mmap_search m row_id lo mid)
      else Inr lo)"
  by pat_completeness auto
termination
  by (relation "measure (\<lambda>(m, row_id, lo, hi). hi - lo)") auto

declare mmap_search.simps [simp del]

definition mmap_lookup :: "mmap_base \<Rightarrow> u64 \<Rightarrow> (u64 \<times> u32) option result" where
  "mmap_lookup m row_id =
     (if mm_seg_count m = 0 then Inr None
      else res_bind (mmap_search m row_id 0 (mm_seg_count m)) (\<lambda>lo.
             res_bind (mmap_seg_start_row_id m lo) (\<lambda>start.
               if start > row_id then Inr None
               else res_bind (mmap_decode_seg m lo) (\<lambda>seg. Inr (lookup_in_base [seg] row_id)))))"

text \<open>An accepted file holds its segments at their offsets.\<close>

lemma decode_segs_layout:
  "decode_segs buf i n = Inr segs \<Longrightarrow>
   length segs = n \<and> (\<forall>k < n. HEADER_LEN + (i + k) * SEGMENT_LEN + SEGMENT_LEN \<le> length buf
     \<and> segs ! k = decode_seg buf (HEADER_LEN + (i + k) * SEGMENT_LEN))"
proof (induction buf i n arbitrary: segs rule: decode_segs.induct)
  case (2 buf i n)
  from "2.prems" obtain rest where rest: "decode_segs buf (Suc i) n = Inr rest"
    "HEADER_LEN + i * SEGMENT_LEN + SEGMENT_LEN \<le> length buf"
    "segs = decode_seg buf (HEADER_LEN + i * SEGMENT_LEN) # rest"
    by (auto simp: Let_def res_bind_eq_Inr split: if_splits)
  with "2.IH" [OF refl rest(2) rest(1)] show ?case
    by (auto simp: less_Suc_eq_0_disj)
qed simp

lemma decode_idx_layout:
  assumes "decode_idx buf = Inr segs"
  shows "le_nat (slice buf 8 8) = length segs" "length segs * SEGMENT_LEN < 2 ^ 63"
    "HEADER_LEN \<le> length buf"
    "k < length segs \<Longrightarrow> HEADER_LEN + k * SEGMENT_LEN + SEGMENT_LEN \<le> length buf"
    "k < length segs \<Longrightarrow> segs ! k = decode_seg buf (HEADER_LEN + k * SEGMENT_LEN)"
proof -
  have d: "decode_segs buf 0 (le_nat (slice buf 8 8)) = Inr segs"
    "le_nat (slice buf 8 8) * SEGMENT_LEN < 2 ^ 63" "HEADER_LEN \<le> length buf"
    using assms by (auto simp: decode_idx_def Let_def split: if_splits)
  note lay = decode_segs_layout [OF d(1)]
  show "le_nat (slice buf 8 8) = length segs" "length segs * SEGMENT_LEN < 2 ^ 63"
    "HEADER_LEN \<le> length buf"
    using lay d by simp_all
  show "HEADER_LEN + k * SEGMENT_LEN + SEGMENT_LEN \<le> length buf" if "k < length segs"
    using lay that by auto
  show "segs ! k = decode_seg buf (HEADER_LEN + k * SEGMENT_LEN)" if "k < length segs"
    using lay that by auto
qed

lemma mmap_reads:
  assumes "decode_idx buf = Inr segs" "k < length segs"
  shows "mmap_seg_start_row_id \<lparr>mm_bytes = buf, mm_seg_count = n\<rparr> k = Inr (start_row_id (segs ! k))"
    "mmap_decode_seg \<lparr>mm_bytes = buf, mm_seg_count = n\<rparr> k = Inr (segs ! k)"
proof -
  note lay = decode_idx_layout [OF assms(1)]
  have "k * SEGMENT_LEN \<le> length segs * SEGMENT_LEN" using assms(2) by (intro mult_le_mono1) simp
  then have "k * SEGMENT_LEN < 2 ^ 63" using lay(2) by (rule le_less_trans)
  then have "HEADER_LEN + k * SEGMENT_LEN < 2 ^ 64"
    by (simp add: HEADER_LEN_def SEGMENT_LEN_def)
  then have off: "(HEADER_LEN + k * SEGMENT_LEN) mod 2 ^ 64 = HEADER_LEN + k * SEGMENT_LEN"
    by (rule mod_less)
  show "mmap_seg_start_row_id \<lparr>mm_bytes = buf, mm_seg_count = n\<rparr> k = Inr (start_row_id (segs ! k))"
    "mmap_decode_seg \<lparr>mm_bytes = buf, mm_seg_count = n\<rparr> k = Inr (segs ! k)"
    unfolding mmap_seg_start_row_id_def mmap_decode_seg_def off Let_def
    using lay(4,5) [OF assms(2)] by (simp_all add: decode_seg_def SEGMENT_LEN_def)
qed

lemma sorted_starts_nth:
  "sorted (map start_row_id segs) \<Longrightarrow> i \<le> j \<Longrightarrow> j < length segs \<Longrightarrow>
   start_row_id (segs ! i) \<le> start_row_id (segs ! j)"
  using sorted_nth_mono [of "map start_row_id segs" i j] by simp

text \<open>The binary search ends at the predecessor.\<close>

lemma mmap_search_spec:
  assumes "decode_idx buf = Inr segs" "sorted (map start_row_id segs)"
  shows "lo < hi \<Longrightarrow> hi \<le> length segs \<Longrightarrow>
    (\<And>i. 0 < i \<Longrightarrow> i \<le> lo \<Longrightarrow> start_row_id (segs ! i) \<le> r) \<Longrightarrow>
    (hi < length segs \<Longrightarrow> r < start_row_id (segs ! hi)) \<Longrightarrow>
    \<exists>p. mmap_search \<lparr>mm_bytes = buf, mm_seg_count = n\<rparr> r lo hi = Inr p \<and> p < length segs
      \<and> (\<forall>i. 0 < i \<and> i \<le> p \<longrightarrow> start_row_id (segs ! i) \<le> r)
      \<and> (Suc p < length segs \<longrightarrow> r < start_row_id (segs ! Suc p))"
proof (induction "\<lparr>mm_bytes = buf, mm_seg_count = n\<rparr>" r lo hi rule: mmap_search.induct)
  case (1 r lo hi)
  show ?case
  proof (cases "lo + 1 < hi")
    case True
    define mid where "mid = lo + (hi - lo) div 2"
    have mid: "lo < mid" "mid < hi" "mid < length segs"
      using True "1.prems"(2) by (auto simp: mid_def)
    note read = mmap_reads(1) [OF assms(1) mid(3), of n]
    show ?thesis
    proof (cases "start_row_id (segs ! mid) \<le> r")
      case le: True
      have "start_row_id (segs ! i) \<le> r" if "i \<le> mid" for i
        using sorted_starts_nth [OF assms(2) that mid(3)] le by simp
      with "1.hyps"(1) [OF True mid_def le] "1.prems" mid show ?thesis
        using True read le by (subst mmap_search.simps) (simp add: mid_def [symmetric] Let_def)
    next
      case False
      with "1.hyps"(2) [OF True mid_def False] "1.prems" mid show ?thesis
        using True read by (subst mmap_search.simps) (simp add: mid_def [symmetric] Let_def)
    qed
  next
    case False
    then have "Suc lo = hi" using "1.prems"(1) by simp
    with 1 False show ?thesis by (subst mmap_search.simps) auto
  qed
qed

lemma mmap_lookup_correct:
  assumes ok: "decode_idx buf = Inr segs" and srt: "sorted (map start_row_id segs)"
  shows "\<exists>m. mmap_open buf = Inr m \<and> mmap_lookup m r = Inr (lookup_in_base segs r)"
proof -
  let ?m = "\<lparr>mm_bytes = buf, mm_seg_count = length segs\<rparr>"
  note lay = decode_idx_layout [OF ok]
  have "mmap_open buf = Inr ?m" using lay(1,3) by (simp add: mmap_open_def)
  moreover have "mmap_lookup ?m r = Inr (lookup_in_base segs r)"
  proof (cases "segs = []")
    case False
    then obtain p where p: "mmap_search ?m r 0 (length segs) = Inr p" "p < length segs"
      "\<forall>i. 0 < i \<and> i \<le> p \<longrightarrow> start_row_id (segs ! i) \<le> r"
      "Suc p < length segs \<longrightarrow> r < start_row_id (segs ! Suc p)"
      using mmap_search_spec [OF ok srt, of 0 "length segs" r "length segs"] by auto
    note reads = mmap_reads [OF ok p(2), of "length segs"]
    show ?thesis
    proof (cases "start_row_id (segs ! p) \<le> r")
      case True
      have "partition_point (\<lambda>s. start_row_id s \<le> r) segs = Suc p"
      proof (rule partition_point_eqI)
        fix i assume "i < Suc p"
        then show "start_row_id (segs ! i) \<le> r"
          using sorted_starts_nth [OF srt _ p(2), of i] True by (simp add: order_trans)
      qed (use p in auto)
      moreover have "partition_point (\<lambda>s. start_row_id s \<le> r) [segs ! p] = Suc 0"
        using True by (simp add: partition_point_def)
      ultimately have "lookup_in_base [segs ! p] r = lookup_in_base segs r"
        by (simp add: lookup_in_base_def Let_def)
      with p(1) reads True False show ?thesis by (simp add: mmap_lookup_def not_le [symmetric])
    next
      case gt: False
      then have "p = 0" using p(3) by (metis le_refl neq0_conv)
      with gt have "partition_point (\<lambda>s. start_row_id s \<le> r) segs = 0"
        by (intro partition_point_eqI) auto
      with p(1) reads gt False show ?thesis
        by (simp add: mmap_lookup_def lookup_in_base_def not_le)
    qed
  qed (simp add: mmap_lookup_def lookup_in_base_def partition_point_def)
  ultimately show ?thesis by blast
qed

end
