(* ===== verification/Deletion.thy ===== *)
theory Deletion
  imports Row_Id
begin

text \<open>
  Deletion vectors: \<^verbatim>\<open>crates/icefalldb-core/src/deletion.rs\<close>, the live-row filter of the compactor
  (\<^verbatim>\<open>compaction.rs\<close>) and the row selections of \<^verbatim>\<open>crates/icefalldb-query/src/scan.rs\<close>.

  \<^verbatim>\<open>RoaringBitmap\<close> comes from the \<^verbatim>\<open>roaring\<close> crate, \<^verbatim>\<open>RowSelection::from\<close> from \<^verbatim>\<open>parquet\<close> and
  the mask filter from \<^verbatim>\<open>arrow\<close>: they are parameters here, and what the code relies on is stated
  as \<open>roaring_laws\<close>, \<open>selection_law\<close> and \<open>filter_law\<close>.
\<close>

section \<open>The bitmap parameter\<close>

record 'bm roaring =
  rb_default :: 'bm
  rb_insert :: "'bm \<Rightarrow> u32 \<Rightarrow> 'bm"
  rb_len :: "'bm \<Rightarrow> u64"
  rb_contains :: "'bm \<Rightarrow> u32 \<Rightarrow> bool"
  rb_iter :: "'bm \<Rightarrow> u32 list"
  rb_serialize :: "'bm \<Rightarrow> bytes"
  rb_deserialize :: "bytes \<Rightarrow> 'bm option"

text \<open>
  A bitmap is a set of 32-bit integers: insertion adds one, iteration lists the members in
  ascending order, the length counts them, and the serialized form reads back.
\<close>

definition roaring_laws :: "'bm roaring \<Rightarrow> bool" where
  "roaring_laws R \<longleftrightarrow>
     (\<forall>n. \<not> rb_contains R (rb_default R) n) \<and>
     (\<forall>b n m. rb_contains R (rb_insert R b n) m \<longleftrightarrow> m = n \<or> rb_contains R b m) \<and>
     (\<forall>b. set (rb_iter R b) = {n. rb_contains R b n} \<and> sorted_wrt (<) (rb_iter R b)) \<and>
     (\<forall>b. rb_len R b = of_nat (length (rb_iter R b))) \<and>
     (\<forall>b. rb_deserialize R (rb_serialize R b) = Some b)"

section \<open>Deletion vectors\<close>

definition dv_default :: "'bm roaring \<Rightarrow> 'bm" where
  "dv_default R = rb_default R"

definition union_offsets :: "'bm roaring \<Rightarrow> 'bm \<Rightarrow> u32 list \<Rightarrow> 'bm" where
  "union_offsets R dv offsets = foldl (rb_insert R) dv offsets"

definition cardinality :: "'bm roaring \<Rightarrow> 'bm \<Rightarrow> u64" where
  "cardinality R dv = rb_len R dv"

definition dv_contains :: "'bm roaring \<Rightarrow> 'bm \<Rightarrow> u32 \<Rightarrow> bool" where
  "dv_contains R dv off = rb_contains R dv off"

definition dv_iter :: "'bm roaring \<Rightarrow> 'bm \<Rightarrow> u32 list" where
  "dv_iter R dv = rb_iter R dv"

definition dv_serialize :: "'bm roaring \<Rightarrow> 'bm \<Rightarrow> bytes" where
  "dv_serialize R dv = rb_serialize R dv"

definition dv_deserialize :: "'bm roaring \<Rightarrow> bytes \<Rightarrow> 'bm result" where
  "dv_deserialize R bs = ok_or (rb_deserialize R bs) (Io ''roaring'')"

text \<open>The deleted offsets as a set, the abstraction the properties are stated with.\<close>

definition dv_set :: "'bm roaring \<Rightarrow> 'bm \<Rightarrow> u32 set" where
  "dv_set R dv = {off. dv_contains R dv off}"

lemma dv_set_default: "roaring_laws R \<Longrightarrow> dv_set R (dv_default R) = {}"
  by (simp add: roaring_laws_def dv_set_def dv_default_def dv_contains_def)

lemma dv_set_union:
  assumes "roaring_laws R"
  shows "dv_set R (union_offsets R dv offsets) = dv_set R dv \<union> set offsets"
proof (induction offsets arbitrary: dv)
  case (Cons off offsets)
  have "dv_set R (rb_insert R dv off) = insert off (dv_set R dv)"
    using assms by (auto simp: roaring_laws_def dv_set_def dv_contains_def)
  with Cons [of "rb_insert R dv off"] show ?case by (simp add: union_offsets_def)
qed (simp add: union_offsets_def)

lemma dv_cardinality:
  assumes "roaring_laws R"
  shows "cardinality R dv = of_nat (card (dv_set R dv))"
proof -
  have "distinct (rb_iter R dv)" "set (rb_iter R dv) = dv_set R dv"
    using assms
    by (auto simp: roaring_laws_def dv_set_def dv_contains_def sorted_wrt_less_iff)
  then have "length (rb_iter R dv) = card (dv_set R dv)" by (metis distinct_card)
  then show ?thesis using assms by (simp add: roaring_laws_def cardinality_def)
qed

lemma dv_roundtrip: "roaring_laws R \<Longrightarrow> dv_deserialize R (dv_serialize R dv) = Inr dv"
  by (simp add: roaring_laws_def dv_deserialize_def dv_serialize_def)

section \<open>Live rows in the compactor\<close>

text \<open>
  \<open>filter_batch\<close> stands for \<^verbatim>\<open>arrow::compute::filter\<close> applied to every column of a record batch.
\<close>

definition filter_live_rows ::
  "'bm roaring \<Rightarrow> ('batch \<Rightarrow> nat) \<Rightarrow> (bool list \<Rightarrow> 'batch \<Rightarrow> 'batch) \<Rightarrow>
   'batch \<Rightarrow> 'bm option \<Rightarrow> u64 list \<Rightarrow> u32 \<Rightarrow> 'batch \<times> u64 list"
  where
  "filter_live_rows R num_rows filter_batch batch dvo all_ids physical_offset =
     (case dvo of
        None \<Rightarrow> (batch, all_ids)
      | Some dv \<Rightarrow>
          let nrows = num_rows batch;
              live = (\<lambda>i. \<not> dv_contains R dv (physical_offset + of_nat i))
          in (filter_batch (map live [0..<nrows]) batch,
              map (\<lambda>i. all_ids ! i) (filter live [0..<nrows])))"

text \<open>The mask filter keeps exactly the rows whose mask bit is set, in order.\<close>

definition filter_law ::
  "('batch \<Rightarrow> 'row list) \<Rightarrow> (bool list \<Rightarrow> 'batch \<Rightarrow> 'batch) \<Rightarrow> bool"
  where
  "filter_law rows_of filter_batch \<longleftrightarrow>
     (\<forall>mask b. length mask = length (rows_of b) \<longrightarrow>
        rows_of (filter_batch mask b) = map snd (filter fst (zip mask (rows_of b))))"

lemma filter_map_upt_zip:
  "length xs = n \<Longrightarrow>
   map (\<lambda>i. xs ! i) (filter P [0..<n]) = map snd (filter fst (zip (map P [0..<n]) xs))"
proof (induction xs arbitrary: n rule: rev_induct)
  case (snoc x xs)
  have "map (\<lambda>i. (xs @ [x]) ! i) (filter P [0..<length xs])
      = map (\<lambda>i. xs ! i) (filter P [0..<length xs])"
    by (rule map_cong) (auto simp: nth_append)
  with snoc show ?case by (auto simp: nth_append)
qed simp

lemma zip_map_snd_filter:
  "length xs = length ms \<Longrightarrow> length ys = length ms \<Longrightarrow>
   zip (map snd (filter fst (zip ms xs))) (map snd (filter fst (zip ms ys)))
     = map snd (filter fst (zip ms (zip xs ys)))"
proof (induction ms arbitrary: xs ys)
  case (Cons m ms)
  then obtain x xs' y ys' where "xs = x # xs'" "ys = y # ys'"
    by (metis length_Suc_conv)
  with Cons show ?case by simp
qed simp

lemma filter_live_rows_spec:
  assumes law: "filter_law rows_of filter_batch"
    and len: "length all_ids = length (rows_of batch)"
    and out: "filter_live_rows R (\<lambda>b. length (rows_of b)) filter_batch batch (Some dv) all_ids po
      = (batch', ids')"
  shows "zip (rows_of batch') ids' =
    map (\<lambda>i. (rows_of batch ! i, all_ids ! i))
      (filter (\<lambda>i. po + of_nat i \<notin> dv_set R dv) [0..<length (rows_of batch)])"
proof -
  let ?n = "length (rows_of batch)"
  let ?live = "\<lambda>i. \<not> dv_contains R dv (po + of_nat i)"
  let ?ms = "map ?live [0..<?n]"
  have b: "rows_of batch' = map snd (filter fst (zip ?ms (rows_of batch)))"
    using law out by (auto simp: filter_law_def filter_live_rows_def Let_def)
  have i: "ids' = map snd (filter fst (zip ?ms all_ids))"
    using out len filter_map_upt_zip [of all_ids ?n ?live] by (auto simp: filter_live_rows_def Let_def)
  have "zip (rows_of batch') ids' = map snd (filter fst (zip ?ms (zip (rows_of batch) all_ids)))"
    unfolding b i using len by (intro zip_map_snd_filter) simp_all
  also have "\<dots> = map (\<lambda>i. zip (rows_of batch) all_ids ! i) (filter ?live [0..<?n])"
    using len filter_map_upt_zip [of "zip (rows_of batch) all_ids" ?n ?live] by simp
  also have "\<dots> = map (\<lambda>i. (rows_of batch ! i, all_ids ! i)) (filter ?live [0..<?n])"
    using len by (intro map_cong) auto
  finally show ?thesis by (simp add: dv_set_def)
qed

section \<open>Row selections\<close>

text \<open>A \<^verbatim>\<open>RowSelector\<close> of the parquet reader: a run of rows to read or to skip.\<close>

datatype selector = Select nat | Skip nat

fun selection_bits :: "selector list \<Rightarrow> bool list" where
  "selection_bits [] = []"
| "selection_bits (Select n # ss) = replicate n True @ selection_bits ss"
| "selection_bits (Skip n # ss) = replicate n False @ selection_bits ss"

text \<open>
  \<^verbatim>\<open>RowSelection::from\<close> merges neighbouring runs and drops empty ones; the rows it denotes stay.
\<close>

definition selection_law :: "(selector list \<Rightarrow> selector list) \<Rightarrow> bool" where
  "selection_law rs_from \<longleftrightarrow> (\<forall>ss. selection_bits (rs_from ss) = selection_bits ss)"

text \<open>
  The loop over the offsets and the final run; the cast \<^verbatim>\<open>total_rows as u32\<close> bounds the loop.
\<close>

fun deletion_selectors :: "(nat \<Rightarrow> bool) \<Rightarrow> nat \<Rightarrow> nat \<Rightarrow> nat list \<Rightarrow> selector list" where
  "deletion_selectors del tot pos [] = (if pos < tot then [Select (tot - pos)] else [])"
| "deletion_selectors del tot pos (off # offs) =
     (if del off
      then (if pos < off then [Select (off - pos)] else [])
             @ Skip 1 # deletion_selectors del tot (off + 1) offs
      else deletion_selectors del tot pos offs)"

definition deletion_to_row_selection ::
  "'bm roaring \<Rightarrow> (selector list \<Rightarrow> selector list) \<Rightarrow> 'bm \<Rightarrow> nat \<Rightarrow> selector list"
  where
  "deletion_to_row_selection R rs_from dv total_rows =
     rs_from (deletion_selectors (\<lambda>off. dv_contains R dv (of_nat off)) total_rows 0
                [0..<total_rows mod 2 ^ 32])"

fun selected_offsets :: "nat \<Rightarrow> selector list \<Rightarrow> nat list" where
  "selected_offsets phys [] = []"
| "selected_offsets phys (Skip n # ss) = selected_offsets (phys + n) ss"
| "selected_offsets phys (Select n # ss) = [phys ..< phys + n] @ selected_offsets (phys + n) ss"

definition live_physical_offsets :: "selector list option \<Rightarrow> nat \<Rightarrow> nat list" where
  "live_physical_offsets row_selection total_rows =
     (case row_selection of None \<Rightarrow> [0..<total_rows] | Some sel \<Rightarrow> selected_offsets 0 sel)"

text \<open>The selection of the rows whose id is in a target set, run-length encoded.\<close>

fun rowid_selectors ::
  "u64 set \<Rightarrow> nat \<Rightarrow> nat \<Rightarrow> nat \<Rightarrow> nat \<Rightarrow> u64 list \<Rightarrow> selector list"
  where
  "rowid_selectors targets tot run_select run_skip phys ids =
     (let finish = (if run_select > 0 then [Select run_select] else [])
                   @ (if run_skip > 0 then [Skip run_skip] else [])
                   @ (if phys < tot then [Skip (tot - phys)] else [])
      in case ids of
           [] \<Rightarrow> finish
         | i # rest \<Rightarrow>
             if phys \<ge> tot then finish
             else if i \<in> targets
             then (if run_skip > 0 then [Skip run_skip] else [])
                    @ rowid_selectors targets tot (run_select + 1) 0 (phys + 1) rest
             else (if run_select > 0 then [Select run_select] else [])
                    @ rowid_selectors targets tot 0 (run_skip + 1) (phys + 1) rest)"

declare rowid_selectors.simps [simp del]

definition rowid_set_to_row_selection ::
  "(selector list \<Rightarrow> selector list) \<Rightarrow> row_id_segment list \<Rightarrow> u64 set \<Rightarrow> nat \<Rightarrow> selector list"
  where
  "rowid_set_to_row_selection rs_from row_ids targets total_rows =
     rs_from (rowid_selectors targets total_rows 0 0 0 (flat_ids row_ids))"

text \<open>Positions of the set bits, counted from \<open>p\<close>.\<close>

fun bit_positions :: "nat \<Rightarrow> bool list \<Rightarrow> nat list" where
  "bit_positions p [] = []"
| "bit_positions p (b # bs) = (if b then [p] else []) @ bit_positions (Suc p) bs"

lemma bit_positions_append:
  "bit_positions p (xs @ ys) = bit_positions p xs @ bit_positions (p + length xs) ys"
  by (induction xs arbitrary: p) auto

lemma bit_positions_True: "bit_positions p (replicate n True) = [p ..< p + n]"
  by (induction n arbitrary: p) (auto simp: upt_conv_Cons simp del: upt_Suc)

lemma bit_positions_False: "bit_positions p (replicate n False) = []"
  by (induction n arbitrary: p) auto

lemma bit_positions_map: "bit_positions p (map P [p ..< q]) = filter P [p ..< q]"
proof (induction "q - p" arbitrary: p)
  case (Suc n)
  then have "p < q" by linarith
  with Suc show ?case by (simp add: upt_conv_Cons)
qed simp

lemma selected_offsets_bits: "selected_offsets p ss = bit_positions p (selection_bits ss)"
  by (induction p ss rule: selected_offsets.induct)
    (simp_all add: bit_positions_append bit_positions_True bit_positions_False)

lemma deletion_selectors_bits:
  assumes "pos \<le> p" "p \<le> tot" "\<forall>i\<in>{pos..<p}. \<not> del i"
  shows "selection_bits (deletion_selectors del tot pos [p ..< tot])
    = map (\<lambda>i. \<not> del i) [pos ..< tot]"
  using assms
proof (induction "tot - p" arbitrary: p pos)
  case 0
  then have "map (\<lambda>i. \<not> del i) [pos ..< tot] = replicate (tot - pos) True"
    by (intro replicate_eqI) auto
  with 0 show ?case by auto
next
  case (Suc n)
  then have less: "p < tot" by linarith
  have pre: "map (\<lambda>i. \<not> del i) [pos ..< p] = replicate (p - pos) True"
    using Suc.prems(3) by (intro replicate_eqI) auto
  have cut: "[pos ..< tot] = [pos ..< p] @ p # [Suc p ..< tot]"
    using less Suc.prems(1) by (metis le_add_diff_inverse less_imp_le upt_add_eq_append upt_conv_Cons)
  show ?case
  proof (cases "del p")
    case True
    have "selection_bits (deletion_selectors del tot (Suc p) [Suc p ..< tot])
        = map (\<lambda>i. \<not> del i) [Suc p ..< tot]"
      using Suc.hyps less by (intro Suc.hyps(1)) auto
    then show ?thesis
      using True pre Suc.prems(1) less by (auto simp: upt_conv_Cons [of p tot] cut)
  next
    case False
    have "selection_bits (deletion_selectors del tot pos [Suc p ..< tot])
        = map (\<lambda>i. \<not> del i) [pos ..< tot]"
      using Suc.hyps(2) Suc.prems less False
      by (intro Suc.hyps(1)) (auto simp: less_Suc_eq)
    then show ?thesis using False less by (simp add: upt_conv_Cons [of p tot])
  qed
qed


text \<open>
  The selection built from a deletion vector expands to the live offsets, in order. The cast to
  32 bits is harmless below \<open>2 ^ 32\<close> rows.
\<close>

lemma deletion_selection_offsets:
  assumes "selection_law rs_from" "tot < 2 ^ 32"
  shows "live_physical_offsets (Some (deletion_to_row_selection R rs_from dv tot)) tot
    = filter (\<lambda>off. of_nat off \<notin> dv_set R dv) [0..<tot]"
proof -
  have "selection_bits (deletion_selectors (\<lambda>off. dv_contains R dv (of_nat off)) tot 0 [0..<tot])
      = map (\<lambda>off. \<not> dv_contains R dv (of_nat off)) [0..<tot]"
    by (rule deletion_selectors_bits) auto
  with assms show ?thesis
    by (simp add: live_physical_offsets_def deletion_to_row_selection_def selected_offsets_bits
        selection_law_def bit_positions_map dv_set_def)
qed

lemma rowid_selectors_bits:
  assumes "run_select = 0 \<or> run_skip = 0" "phys \<le> tot"
  shows "selection_bits (rowid_selectors targets tot run_select run_skip phys ids)
    = replicate run_select True @ replicate run_skip False
        @ map (\<lambda>i. i \<in> targets) (take (tot - phys) ids)
        @ replicate (tot - phys - length ids) False"
  using assms
proof (induction ids arbitrary: run_select run_skip phys)
  case Nil
  then show ?case by (simp add: rowid_selectors.simps)
next
  case (Cons i ids)
  show ?case
  proof (cases "phys < tot")
    case False
    with Cons.prems show ?thesis by (auto simp: rowid_selectors.simps)
  next
    case True
    then obtain k where k: "tot - phys = Suc k" by (metis Suc_diff_Suc)
    then have k': "tot - Suc phys = k" by linarith
    have rep: "replicate n b @ b # xs = b # replicate n b @ xs" for n and b :: bool and xs
      by (induction n) auto
    show ?thesis
      using Cons.IH [of "run_select + 1" 0 "phys + 1"] Cons.IH [of 0 "run_skip + 1" "phys + 1"]
        Cons.prems True
      by (subst rowid_selectors.simps) (auto simp: k k' rep)
  qed
qed

lemma rowid_selection_bits:
  assumes "selection_law rs_from" "length (flat_ids row_ids) = tot"
  shows "selection_bits (rowid_set_to_row_selection rs_from row_ids targets tot)
    = map (\<lambda>i. i \<in> targets) (flat_ids row_ids)"
  using assms rowid_selectors_bits [of 0 0 0 tot targets "flat_ids row_ids"]
  by (simp add: rowid_set_to_row_selection_def selection_law_def)

lemma bit_positions_nth: "bit_positions 0 (map P xs) = filter (\<lambda>i. P (xs ! i)) [0..<length xs]"
proof -
  have "map P xs = map (\<lambda>i. P (xs ! i)) [0..<length xs]"
    by (rule nth_equalityI) auto
  then show ?thesis by (simp only: bit_positions_map)
qed

end
