(* ===== verification/Row_Map.thy ===== *)
theory Row_Map
  imports Row_Index Deletion
begin

text \<open>
  The layers above a single segment list: \<^verbatim>\<open>AddressMap\<close> (base and deltas, newest first) of
  \<^verbatim>\<open>rowindex/reader.rs\<close>, the in-memory part of \<^verbatim>\<open>derive_base\<close> (collecting live rows, sorting,
  refusing duplicates, coalescing) and the comparison loop of \<^verbatim>\<open>verify\<close> of
  \<^verbatim>\<open>rowindex/writer.rs\<close>. The locale \<open>row_locator\<close> is the interface all readers share.
\<close>

section \<open>The interface of a reader\<close>

text \<open>
  The loop of \<^verbatim>\<open>verify\<close>, over any lookup function: every row of every fresh segment must
  resolve to the address the segment gives it.
\<close>

definition seg_rows :: "addr_segment \<Rightarrow> (u64 \<times> u64 \<times> u32) list" where
  "seg_rows s = map (\<lambda>i. (start_row_id s + of_nat i, seg_fragment_id s, start_offset s + of_nat i))
     [0..<unat (seg_len s)]"

fun check_rows :: "(u64 \<Rightarrow> (u64 \<times> u32) option) \<Rightarrow> (u64 \<times> u64 \<times> u32) list \<Rightarrow> unit result" where
  "check_rows look [] = Inr ()"
| "check_rows look ((row_id, expected) # rest) =
     (case look row_id of
        Some got \<Rightarrow> if got = expected then check_rows look rest
                    else Inl (Other ''verify: row_id mismatch'')
      | None \<Rightarrow> Inl (Other ''verify: row_id cannot be resolved''))"

definition verify_rows ::
  "(u64 \<Rightarrow> (u64 \<times> u32) option) \<Rightarrow> addr_segment list \<Rightarrow> unit result" where
  "verify_rows look fresh = check_rows look (concat (map seg_rows fresh))"

locale row_locator =
  fixes look :: "'m \<Rightarrow> u64 \<Rightarrow> (u64 \<times> u32) option"
    and invar :: "'m \<Rightarrow> bool"
    and denotes :: "'m \<Rightarrow> u64 \<Rightarrow> (u64 \<times> u32) option"
  assumes look_denotes: "invar m \<Longrightarrow> look m r = denotes m r"
begin

lemma check_rows_ok:
  "invar m \<Longrightarrow> check_rows (look m) rows = Inr () \<longleftrightarrow> (\<forall>(r, a) \<in> set rows. denotes m r = Some a)"
  by (induction rows) (auto simp: look_denotes split: option.splits if_splits)

lemma check_rows_total:
  "check_rows (look m) rows \<noteq> Inr () \<Longrightarrow> \<exists>msg. check_rows (look m) rows = Inl (Other msg)"
  by (induction rows) (auto split: option.splits)

lemma verify_rows_ok:
  "invar m \<Longrightarrow> verify_rows (look m) fresh = Inr () \<longleftrightarrow>
     (\<forall>s \<in> set fresh. \<forall>(r, a) \<in> set (seg_rows s). denotes m r = Some a)"
  unfolding verify_rows_def by (auto simp: check_rows_ok)

end

interpretation base: row_locator lookup_in_base segs_wf segs_denote
  by unfold_locales (rule lookup_in_base_denote)

text \<open>The rows a segment lists are the rows it covers.\<close>

lemma seg_rows_covers:
  assumes "unat (start_row_id s) + unat (seg_len s) < 2 ^ 64"
  shows "(r, a) \<in> set (seg_rows s) \<longleftrightarrow> covers s r \<and> a = addr_of r s"
proof
  assume "(r, a) \<in> set (seg_rows s)"
  then obtain i where i: "i < unat (seg_len s)" "r = start_row_id s + of_nat i"
    "a = (seg_fragment_id s, start_offset s + of_nat i)" by (auto simp: seg_rows_def)
  have i64: "i < 2 ^ 64" "i < 2 ^ 32" using i(1) unat_u32_less [of "seg_len s"] by simp_all
  then have u: "unat (of_nat i :: u64) = i" by (simp add: unat_of_nat)
  then have "unat r = unat (start_row_id s) + i"
    using i assms unat_add_no_wrap [of "start_row_id s" "of_nat i"] by simp
  moreover have "ucast (of_nat i :: u64) = (of_nat i :: u32)"
    using u i64 by (simp add: word_unat_eq_iff unat_ucast_u32 unat_of_nat)
  ultimately show "covers s r \<and> a = addr_of r s"
    using i by (simp add: covers_def)
next
  assume c: "covers s r \<and> a = addr_of r s"
  define i where "i = unat (r - start_row_id s)"
  have le: "start_row_id s \<le> r" using c by (simp add: covers_def word_le_nat_alt)
  then have "i = unat r - unat (start_row_id s)" by (simp add: i_def unat_sub)
  then have "i < unat (seg_len s)" using c by (auto simp: covers_def)
  moreover have "of_nat i = r - start_row_id s" by (simp add: i_def)
  moreover have "(of_nat i :: u32) = ucast (r - start_row_id s)"
    by (simp add: i_def unsigned_ucast_eq word_unat_eq_iff unat_of_nat take_bit_eq_mod)
  ultimately show "(r, a) \<in> set (seg_rows s)"
    using c by (auto simp: seg_rows_def intro!: image_eqI [of _ _ i])
qed

section \<open>The layered address map\<close>

record address_map =
  am_base :: "addr_segment list"
  am_deltas :: "addr_segment list list"

definition from_parts :: "addr_segment list \<Rightarrow> addr_segment list list \<Rightarrow> address_map" where
  "from_parts base_segments deltas = \<lparr>am_base = base_segments, am_deltas = deltas\<rparr>"

fun am_scan :: "addr_segment list list \<Rightarrow> u64 \<Rightarrow> (u64 \<times> u32) option" where
  "am_scan [] row_id = None"
| "am_scan (delta # rest) row_id =
     (case lookup_in_base delta row_id of Some result \<Rightarrow> Some result | None \<Rightarrow> am_scan rest row_id)"

definition am_lookup :: "address_map \<Rightarrow> u64 \<Rightarrow> (u64 \<times> u32) option" where
  "am_lookup m row_id =
     (case am_scan (rev (am_deltas m)) row_id of
        Some result \<Rightarrow> Some result
      | None \<Rightarrow> lookup_in_base (am_base m) row_id)"

text \<open>The specification: maps merged oldest first, a later layer overriding an earlier one.\<close>

definition am_wf :: "address_map \<Rightarrow> bool" where
  "am_wf m \<longleftrightarrow> segs_wf (am_base m) \<and> (\<forall>d \<in> set (am_deltas m). segs_wf d)"

definition am_denote :: "address_map \<Rightarrow> u64 \<Rightarrow> (u64 \<times> u32) option" where
  "am_denote m = foldl (++) (segs_denote (am_base m)) (map segs_denote (am_deltas m))"

lemma am_lookup_snoc:
  "am_lookup \<lparr>am_base = b, am_deltas = ds @ [d]\<rparr>
   = am_lookup \<lparr>am_base = b, am_deltas = ds\<rparr> ++ lookup_in_base d"
  by (auto simp: fun_eq_iff am_lookup_def map_add_def split: option.splits)

lemma am_lookup_foldl:
  "am_lookup \<lparr>am_base = b, am_deltas = ds\<rparr> = foldl (++) (lookup_in_base b) (map lookup_in_base ds)"
proof (induction ds rule: rev_induct)
  case Nil
  show ?case by (simp add: fun_eq_iff am_lookup_def)
next
  case (snoc d ds)
  then show ?case by (simp add: am_lookup_snoc)
qed

lemma am_lookup_denote: "am_wf m \<Longrightarrow> am_lookup m r = am_denote m r"
proof -
  assume wf: "am_wf m"
  obtain b ds where m: "m = \<lparr>am_base = b, am_deltas = ds\<rparr>" by (cases m) auto
  have "lookup_in_base b = segs_denote b" "map lookup_in_base ds = map segs_denote ds"
    using wf m by (auto simp: am_wf_def fun_eq_iff base.look_denotes)
  then show ?thesis by (simp only: m am_lookup_foldl am_denote_def address_map.simps)
qed

interpretation layered: row_locator am_lookup am_wf am_denote
  by unfold_locales (rule am_lookup_denote)

section \<open>Collecting and coalescing live rows\<close>

text \<open>
  One fragment: its ids in physical order, the offset counter running over all of them.
\<close>

fun live_rows :: "(u32 \<Rightarrow> bool) \<Rightarrow> u64 \<Rightarrow> u32 \<Rightarrow> u64 list \<Rightarrow> (u64 \<times> u64 \<times> u32) list" where
  "live_rows dead frag off [] = []"
| "live_rows dead frag off (row_id # ids) =
     (if dead off then live_rows dead frag (off + 1) ids
      else (row_id, frag, off) # live_rows dead frag (off + 1) ids)"

definition coalesce_step ::
  "addr_segment list \<Rightarrow> u64 \<times> u64 \<times> u32 \<Rightarrow> addr_segment list" where
  "coalesce_step segments rec =
     (case rec of (row_id, frag, off) \<Rightarrow>
        if segments \<noteq> []
           \<and> seg_fragment_id (last segments) = frag
           \<and> row_id = start_row_id (last segments) + ucast (seg_len (last segments))
           \<and> off = start_offset (last segments) + seg_len (last segments)
        then butlast segments @ [(last segments)\<lparr>seg_len := seg_len (last segments) + 1\<rparr>]
        else segments @ [\<lparr>start_row_id = row_id, seg_fragment_id = frag, start_offset = off, seg_len = 1\<rparr>])"

definition derive_segments :: "(u64 \<times> u64 \<times> u32) list \<Rightarrow> addr_segment list result" where
  "derive_segments live =
     (let sorted = sort_key fst live
      in if any_adjacent (\<lambda>a b. fst a = fst b) sorted
         then Inl (Other ''derive_base: row_id appears more than once in the live set'')
         else Inr (foldl coalesce_step [] sorted))"

text \<open>The live rows of a fragment are its ids at the offsets that are not deleted.\<close>

lemma live_rows_filter:
  "live_rows dead frag off ids
   = map (\<lambda>i. (ids ! i, frag, off + of_nat i)) (filter (\<lambda>i. \<not> dead (off + of_nat i)) [0..<length ids])"
proof (induction ids arbitrary: off)
  case (Cons r ids)
  show ?case
    by (simp add: Cons.IH upt_rec [of 0] map_Suc_upt [symmetric] filter_map comp_def algebra_simps
        del: upt_Suc)
qed simp

definition seg_set :: "addr_segment list \<Rightarrow> (u64 \<times> u64 \<times> u32) set" where
  "seg_set segs = {(r, addr_of r s) | r s. s \<in> set segs \<and> covers s r}"

text \<open>
  What holds of the segments after a prefix of the sorted live rows: they are well formed and
  non-empty, cover exactly the rows consumed, and their lengths add up to their number.
\<close>

definition coalesced :: "(u64 \<times> u64 \<times> u32) list \<Rightarrow> addr_segment list \<Rightarrow> bool" where
  "coalesced done segs \<longleftrightarrow>
     segs_wf segs \<and> seg_set segs = set done
     \<and> (\<forall>s \<in> set segs. 0 < unat (seg_len s))
     \<and> sum_list (map (unat \<circ> seg_len) segs) = length done"

lemma segs_wf_snoc:
  "segs_wf (segs @ [s]) \<longleftrightarrow> segs_wf segs
    \<and> (\<forall>x \<in> set segs. unat (start_row_id x) + unat (seg_len x) \<le> unat (start_row_id s))
    \<and> unat (start_row_id s) + unat (seg_len s) < 2 ^ 64"
  by (auto simp: segs_wf_def sorted_wrt_append)

lemma seg_set_snoc:
  "seg_set (segs @ [s]) = seg_set segs \<union> {(r, addr_of r s) | r. covers s r}"
  by (auto simp: seg_set_def)

lemma covers_single:
  "covers \<lparr>start_row_id = r, seg_fragment_id = f, start_offset = off, seg_len = 1\<rparr> r' \<longleftrightarrow> r' = r"
  by (auto simp: covers_def word_unat_eq_iff)

lemma covers_extend:
  assumes "unat (start_row_id s) + unat (seg_len s) < 2 ^ 64" "unat (seg_len s) + 1 < 2 ^ 32"
  shows "covers (s\<lparr>seg_len := seg_len s + 1\<rparr>) r \<longleftrightarrow>
    covers s r \<or> r = start_row_id s + ucast (seg_len s)"
proof -
  have "unat (seg_len s + 1) = unat (seg_len s) + 1"
    using assms(2) unat_add_no_wrap32 [of "seg_len s" 1] by simp
  moreover have "unat (start_row_id s + ucast (seg_len s)) = unat (start_row_id s) + unat (seg_len s)"
    using assms(1) by (simp add: unat_add_no_wrap)
  ultimately show ?thesis by (auto simp: covers_def word_unat_eq_iff [where 'a = 64])
qed

text \<open>Segments that only cover ids below \<open>r\<close> end at or before \<open>r\<close>.\<close>

lemma seg_end_le:
  assumes "unat (start_row_id s) + unat (seg_len s) < 2 ^ 64" "0 < unat (seg_len s)"
    and "\<And>r'. covers s r' \<Longrightarrow> r' < r"
  shows "unat (start_row_id s) + unat (seg_len s) \<le> unat r"
proof -
  define e where "e = unat (start_row_id s) + unat (seg_len s) - 1"
  have e: "unat (of_nat e :: u64) = e" using assms(1) by (simp add: e_def unat_of_nat)
  then have "covers s (of_nat e)" using assms(2) by (auto simp: covers_def e_def)
  then have "unat (of_nat e :: u64) < unat r" using assms(3) by (simp add: word_less_nat_alt)
  with e assms(2) show ?thesis by (simp add: e_def)
qed

lemma coalesced_new:
  assumes inv: "coalesced P segs" and below: "\<forall>x \<in> set P. fst x < r" and r: "r \<noteq> - 1"
  shows "coalesced (P @ [(r, f, off)])
    (segs @ [\<lparr>start_row_id = r, seg_fragment_id = f, start_offset = off, seg_len = 1\<rparr>])"
proof -
  let ?n = "\<lparr>start_row_id = r, seg_fragment_id = f, start_offset = off, seg_len = 1\<rparr>"
  have ends: "unat (start_row_id x) + unat (seg_len x) \<le> unat r" if x: "x \<in> set segs" for x
  proof (rule seg_end_le)
    show "r' < r" if "covers x r'" for r'
    proof -
      have "(r', addr_of r' x) \<in> seg_set segs" using x that by (auto simp: seg_set_def)
      with inv below show ?thesis by (force simp: coalesced_def)
    qed
  qed (use inv x in \<open>auto simp: coalesced_def segs_wf_def\<close>)
  then show ?thesis
    using inv unat_not_max [OF r] by (simp add: coalesced_def segs_wf_snoc seg_set_snoc covers_single)
qed

lemma coalesced_extend:
  assumes inv: "coalesced P (segs @ [s])" and r: "r \<noteq> - 1" "length P + 1 < 2 ^ 32"
    and m: "r = start_row_id s + ucast (seg_len s)" "off = start_offset s + seg_len s"
  shows "coalesced (P @ [(r, seg_fragment_id s, off)]) (segs @ [s\<lparr>seg_len := seg_len s + 1\<rparr>])"
proof -
  have fit: "unat (start_row_id s) + unat (seg_len s) < 2 ^ 64"
    using inv by (simp add: coalesced_def segs_wf_snoc)
  have small: "unat (seg_len s) + 1 < 2 ^ 32"
    using inv r(2) by (simp add: coalesced_def)
  have len: "unat (seg_len s + 1) = unat (seg_len s) + 1"
    using small unat_add_no_wrap32 [of "seg_len s" 1] by simp
  have ur: "unat r = unat (start_row_id s) + unat (seg_len s)"
    using fit m(1) by (simp add: unat_add_no_wrap)
  have wf: "segs_wf (segs @ [s\<lparr>seg_len := seg_len s + 1\<rparr>])"
    using inv ur len unat_not_max [OF r(1)] by (simp add: coalesced_def segs_wf_snoc)
  have "{(r', addr_of r' (s\<lparr>seg_len := seg_len s + 1\<rparr>)) | r'. covers (s\<lparr>seg_len := seg_len s + 1\<rparr>) r'}
      = {(r', addr_of r' s) | r'. covers s r'} \<union> {(r, seg_fragment_id s, off)}"
    using m by (auto simp: covers_extend [OF fit small])
  then have "seg_set (segs @ [s\<lparr>seg_len := seg_len s + 1\<rparr>]) = set (P @ [(r, seg_fragment_id s, off)])"
    using inv by (auto simp: coalesced_def seg_set_snoc)
  with wf inv len show ?thesis by (simp add: coalesced_def)
qed

lemma coalesced_step:
  assumes "coalesced P segs" "\<forall>x \<in> set P. fst x < fst x'" "fst x' \<noteq> - 1" "length P + 1 < 2 ^ 32"
  shows "coalesced (P @ [x']) (coalesce_step segs x')"
proof -
  obtain r f off where x': "x' = (r, f, off)" by (cases x')
  show ?thesis
  proof (cases segs rule: rev_cases)
    case Nil
    then show ?thesis using coalesced_new [of P segs r f off] assms by (simp add: coalesce_step_def x')
  next
    case (snoc segs' s)
    then show ?thesis
      using coalesced_new [of P segs r f off] coalesced_extend [of P segs' s r off] assms
      by (auto simp: coalesce_step_def x')
  qed
qed

lemma coalesced_foldl:
  assumes "sorted_wrt (<) (map fst xs)" "\<forall>x \<in> set xs. fst x \<noteq> - 1" "length xs < 2 ^ 32"
  shows "coalesced xs (foldl coalesce_step [] xs)"
  using assms
proof (induction xs rule: rev_induct)
  case Nil
  show ?case by (simp add: coalesced_def segs_wf_def seg_set_def)
next
  case (snoc x xs)
  then show ?case using coalesced_step [of xs _ x] by (simp add: sorted_wrt_append)
qed

lemma length_le_sum: "(\<And>x. x \<in> set xs \<Longrightarrow> 0 < f x) \<Longrightarrow> length xs \<le> sum_list (map f xs)"
  for f :: "'a \<Rightarrow> nat"
  by (induction xs) (simp, fastforce)

lemma coalesced_length: "coalesced P segs \<Longrightarrow> length segs \<le> length P"
  using length_le_sum [of segs "unat \<circ> seg_len"] by (simp add: coalesced_def)

text \<open>
  Deriving segments from live rows: with distinct ids the segments resolve exactly the live
  rows, each to its address; with a repeated id the derivation is refused.
\<close>

lemma derive_segments_dup:
  "\<not> distinct (map fst live) \<Longrightarrow> derive_segments live
     = Inl (Other ''derive_base: row_id appears more than once in the live set'')"
proof -
  assume "\<not> distinct (map fst live)"
  then have "\<not> distinct (map fst (sort_key fst live))" unfolding distinct_sort_fst .
  moreover have "sorted (map fst (sort_key fst live))" by simp
  ultimately show ?thesis
    by (simp add: derive_segments_def any_adjacent_eq_iff any_adjacent_map [symmetric])
qed

lemma derive_segments_ok:
  assumes "distinct (map fst live)" "\<forall>x \<in> set live. fst x \<noteq> - 1" "length live < 2 ^ 32"
  shows "\<exists>segs. derive_segments live = Inr segs \<and> segs_wf segs \<and> seg_set segs = set live
    \<and> length segs \<le> length live"
proof -
  let ?s = "sort_key fst live"
  have d: "distinct (map fst ?s)"
    using assms(1) by (simp only: distinct_sort_fst)
  have srt: "sorted (map fst ?s)" by simp
  have "coalesced ?s (foldl coalesce_step [] ?s)"
    using d srt assms(2,3) by (intro coalesced_foldl) (auto simp: sorted_wrt_less_iff)
  moreover have "derive_segments live = Inr (foldl coalesce_step [] ?s)"
    using d any_adjacent_eq_iff [OF srt]
    by (simp add: derive_segments_def any_adjacent_map [symmetric])
  ultimately show ?thesis using coalesced_length by (auto simp: coalesced_def)
qed

lemma seg_set_denote:
  assumes "segs_wf segs"
  shows "segs_denote segs r = Some a \<longleftrightarrow> (r, a) \<in> seg_set segs"
  using lookup_in_base_iff [OF assms] base.look_denotes [OF assms] by (auto simp: seg_set_def)

lemma seg_set_rows:
  assumes "segs_wf segs"
  shows "(\<Union>s \<in> set segs. set (seg_rows s)) = seg_set segs"
  using assms seg_rows_covers by (fastforce simp: seg_set_def segs_wf_def)

end
