(* ===== verification/Rust_Str.thy ===== *)
theory Rust_Str
  imports Prelude
begin

text \<open>
  The parts of Rust's standard string and path library the code uses: decimal formatting with
  zero padding (\<^verbatim>\<open>{:09}\<close>), \<^verbatim>\<open>str::parse::<u64>\<close>, \<^verbatim>\<open>strip_suffix\<close> and its kin, and
  \<^verbatim>\<open>std::path::Path::components\<close> on Unix. The round trip of a zero-padded number through its
  parser carries the file-name properties of the manifests and indexes.
\<close>

section \<open>Prefixes and suffixes\<close>

definition starts_with :: "'a list \<Rightarrow> 'a list \<Rightarrow> bool" where
  "starts_with s p \<longleftrightarrow> take (length p) s = p"

definition ends_with :: "'a list \<Rightarrow> 'a list \<Rightarrow> bool" where
  "ends_with s p \<longleftrightarrow> length p \<le> length s \<and> drop (length s - length p) s = p"

definition strip_prefix :: "'a list \<Rightarrow> 'a list \<Rightarrow> 'a list option" where
  "strip_prefix s p = (if starts_with s p then Some (drop (length p) s) else None)"

definition strip_suffix :: "'a list \<Rightarrow> 'a list \<Rightarrow> 'a list option" where
  "strip_suffix s p = (if ends_with s p then Some (take (length s - length p) s) else None)"

lemma starts_with_append [simp]: "starts_with (p @ s) p"
  by (simp add: starts_with_def)

lemma starts_with_iff: "starts_with s p \<longleftrightarrow> (\<exists>r. s = p @ r)"
  by (metis append_take_drop_id starts_with_append starts_with_def)

lemma ends_with_append [simp]: "ends_with (s @ p) p"
  by (simp add: ends_with_def)

lemma ends_with_iff: "ends_with s p \<longleftrightarrow> (\<exists>r. s = r @ p)"
  by (metis append_take_drop_id ends_with_append ends_with_def)

lemma strip_prefix_append [simp]: "strip_prefix (p @ s) p = Some s"
  by (simp add: strip_prefix_def)

lemma strip_prefix_eq_Some: "strip_prefix s p = Some r \<longleftrightarrow> s = p @ r"
  by (auto simp: strip_prefix_def starts_with_iff)

lemma strip_suffix_append [simp]: "strip_suffix (s @ p) p = Some s"
  by (simp add: strip_suffix_def)

lemma strip_suffix_eq_Some: "strip_suffix s p = Some r \<longleftrightarrow> s = r @ p"
  by (auto simp: strip_suffix_def ends_with_iff)

section \<open>Decimal numbers\<close>

definition digit_char :: "nat \<Rightarrow> char" where
  "digit_char d = char_of (48 + d)"

definition digit_val :: "char \<Rightarrow> nat option" where
  "digit_val c = (let n = of_char c in if 48 \<le> n \<and> n \<le> 57 then Some (n - 48) else None)"

lemma digit_val_char [simp]: "d < 10 \<Longrightarrow> digit_val (digit_char d) = Some d"
  by (simp add: digit_val_def digit_char_def of_char_of)

lemma digit_val_less: "digit_val c = Some d \<Longrightarrow> d < 10"
  by (auto simp: digit_val_def Let_def split: if_splits)

lemma digit_char_of_val: "digit_val c = Some d \<Longrightarrow> digit_char d = c"
  by (auto simp: digit_val_def digit_char_def Let_def split: if_splits)

text \<open>\<^verbatim>\<open>{}\<close> on an unsigned integer.\<close>

fun show_nat :: "nat \<Rightarrow> string" where
  "show_nat n = (if n < 10 then [digit_char n] else show_nat (n div 10) @ [digit_char (n mod 10)])"

declare show_nat.simps [simp del]

text \<open>\<^verbatim>\<open>{:0w}\<close>: padded with zeros on the left to at least \<open>w\<close> characters.\<close>

definition pad_zeros :: "nat \<Rightarrow> string \<Rightarrow> string" where
  "pad_zeros w s = replicate (w - length s) (digit_char 0) @ s"

text \<open>The digit loop of \<^verbatim>\<open>str::parse\<close>: every character a digit, most significant first.\<close>

fun parse_digits :: "nat \<Rightarrow> string \<Rightarrow> nat option" where
  "parse_digits acc [] = Some acc"
| "parse_digits acc (c # cs) =
     (case digit_val c of None \<Rightarrow> None | Some d \<Rightarrow> parse_digits (10 * acc + d) cs)"

text \<open>
  \<^verbatim>\<open>str::parse::<u64>\<close>: an optional \<^verbatim>\<open>+\<close>, at least one digit, and a value that fits; anything
  else is an error.
\<close>

definition parse_u64 :: "string \<Rightarrow> u64 option" where
  "parse_u64 s =
     (let ds = (case s of CHR ''+'' # r \<Rightarrow> r | _ \<Rightarrow> s)
      in if ds = [] then None
         else (case parse_digits 0 ds of
                 None \<Rightarrow> None
               | Some n \<Rightarrow> if n < 2 ^ 64 then Some (of_nat n) else None))"

lemma parse_digits_append:
  "parse_digits a (xs @ ys) = Option.bind (parse_digits a xs) (\<lambda>b. parse_digits b ys)"
  by (induction xs arbitrary: a) (auto split: option.splits)

lemma parse_digits_show_nat: "parse_digits 0 (show_nat n) = Some n"
proof (induction n rule: show_nat.induct)
  case (1 n)
  show ?case
  proof (cases "n < 10")
    case True
    then show ?thesis by (simp add: show_nat.simps [of n])
  next
    case False
    with "1.IH" show ?thesis by (simp add: show_nat.simps [of n] parse_digits_append)
  qed
qed

lemma parse_digits_zeros: "parse_digits 0 (replicate k (digit_char 0) @ s) = parse_digits 0 s"
  by (induction k) simp_all

lemma show_nat_not_Nil [simp]: "show_nat n \<noteq> []"
  by (subst show_nat.simps) simp

lemma digits_show_nat: "c \<in> set (show_nat n) \<Longrightarrow> \<exists>d<10. c = digit_char d"
proof (induction n rule: show_nat.induct)
  case (1 n)
  then show ?case
    by (cases "n < 10") (auto simp: show_nat.simps [of n] intro: exI [of _ "n mod 10"])
qed

lemma digits_pad_zeros: "c \<in> set (pad_zeros w (show_nat n)) \<Longrightarrow> \<exists>d<10. c = digit_char d"
  by (auto simp: pad_zeros_def dest: digits_show_nat intro: exI [of _ 0])

lemma digit_char_neq:
  "d < 10 \<Longrightarrow> digit_char d \<noteq> CHR ''+''" "d < 10 \<Longrightarrow> digit_char d \<noteq> CHR ''/''"
  "d < 10 \<Longrightarrow> digit_char d \<noteq> CHR ''.''" "d < 10 \<Longrightarrow> digit_char d \<noteq> CHR ''-''"
  by (auto dest!: arg_cong [where f = digit_val]) (simp_all add: digit_val_def)

lemma parse_digits_pad: "parse_digits 0 (pad_zeros w (show_nat n)) = Some n"
  by (simp add: pad_zeros_def parse_digits_zeros parse_digits_show_nat)

lemma pad_zeros_not_Nil [simp]: "pad_zeros w (show_nat n) \<noteq> []"
  by (simp add: pad_zeros_def)

lemma parse_u64_digits:
  assumes "s \<noteq> []" "hd s \<noteq> CHR ''+''"
  shows "parse_u64 s =
    (case parse_digits 0 s of None \<Rightarrow> None | Some n \<Rightarrow> if n < 2 ^ 64 then Some (of_nat n) else None)"
proof -
  have "(case s of CHR ''+'' # r \<Rightarrow> r | _ \<Rightarrow> s) = s"
    using assms(2) by (auto split: list.splits char.splits bool.splits)
  with assms(1) show ?thesis by (simp add: parse_u64_def)
qed

text \<open>A padded number parses back to itself.\<close>

lemma parse_u64_pad [simp]: "parse_u64 (pad_zeros w (show_nat (unat n))) = Some n"
proof -
  let ?s = "pad_zeros w (show_nat (unat n))"
  have "hd ?s \<in> set ?s" by simp
  then have "hd ?s \<noteq> CHR ''+''" using digits_pad_zeros digit_char_neq(1) by metis
  with pad_zeros_not_Nil show ?thesis
    using unsigned_less [of n] by (simp add: parse_u64_digits parse_digits_pad)
qed

lemma pad_zeros_inj: "pad_zeros w (show_nat m) = pad_zeros w (show_nat n) \<longleftrightarrow> m = n"
  by (metis option.inject parse_digits_pad)

section \<open>Paths\<close>

text \<open>
  \<^verbatim>\<open>Path::components\<close> on Unix: a leading \<^verbatim>\<open>/\<close> is the root, empty pieces vanish, and a \<^verbatim>\<open>.\<close>
  is dropped except as the first piece of a relative path.
\<close>

datatype component = RootDir | CurDir | ParentDir | Normal string

fun piece_component :: "string \<Rightarrow> component option" where
  "piece_component s =
     (if s = '''' \<or> s = ''.'' then None else if s = ''..'' then Some ParentDir else Some (Normal s))"

definition is_absolute :: "string \<Rightarrow> bool" where
  "is_absolute s \<longleftrightarrow> starts_with s ''/''"

definition path_components :: "string \<Rightarrow> component list" where
  "path_components s =
     (let ps = split_on (CHR ''/'') s
      in (if is_absolute s then [RootDir] else [])
         @ (if hd ps = ''.'' then [CurDir] else [])
         @ List.map_filter piece_component ps)"

text \<open>\<^verbatim>\<open>Path::file_name\<close>: the last component if it is a normal one.\<close>

definition file_name :: "string \<Rightarrow> string option" where
  "file_name s =
     (case rev (path_components s) of Normal c # _ \<Rightarrow> Some c | _ \<Rightarrow> None)"

definition plain_piece :: "string \<Rightarrow> bool" where
  "plain_piece s \<longleftrightarrow> s \<noteq> '''' \<and> s \<noteq> ''.'' \<and> s \<noteq> ''..'' \<and> CHR ''/'' \<notin> set s"

text \<open>A relative path of plain pieces, the form every stored path has.\<close>

definition join_path :: "string list \<Rightarrow> string" where
  "join_path ps = (case ps of [] \<Rightarrow> '''' | p # qs \<Rightarrow> p @ concat (map (\<lambda>q. ''/'' @ q) qs))"

lemma join_path_Cons: "qs \<noteq> [] \<Longrightarrow> join_path (p # qs) = p @ ''/'' @ join_path qs"
  by (cases qs) (simp_all add: join_path_def)

lemma join_path_single [simp]: "join_path [p] = p"
  by (simp add: join_path_def)

lemma split_on_join_path:
  "ps \<noteq> [] \<Longrightarrow> \<forall>p\<in>set ps. CHR ''/'' \<notin> set p \<Longrightarrow> split_on (CHR ''/'') (join_path ps) = ps"
proof (induction ps)
  case (Cons p qs)
  then show ?case by (cases "qs = []") (simp_all add: join_path_Cons)
qed simp

lemma map_filter_plain:
  "\<forall>p\<in>set ps. plain_piece p \<Longrightarrow> List.map_filter piece_component ps = map Normal ps"
  by (induction ps) (auto simp: map_filter_simps plain_piece_def)

lemma path_components_join [simp]:
  assumes "ps \<noteq> []" "\<forall>p\<in>set ps. plain_piece p"
  shows "path_components (join_path ps) = map Normal ps"
proof -
  have split: "split_on (CHR ''/'') (join_path ps) = ps"
    using assms by (intro split_on_join_path) (auto simp: plain_piece_def)
  obtain p qs where ps: "ps = p # qs" using assms(1) by (cases ps) auto
  have "p \<noteq> ''''" "p \<noteq> ''.''" "CHR ''/'' \<notin> set p" using assms(2) ps by (auto simp: plain_piece_def)
  then have "\<not> is_absolute (join_path ps)"
    using ps by (cases p) (auto simp: is_absolute_def starts_with_def join_path_def)
  moreover have "hd ps \<noteq> ''.''" using ps \<open>p \<noteq> ''.''\<close> by simp
  ultimately show ?thesis
    using split map_filter_plain [OF assms(2)] by (simp add: path_components_def)
qed

lemma file_name_join [simp]:
  assumes "ps \<noteq> []" "\<forall>p\<in>set ps. plain_piece p"
  shows "file_name (join_path ps) = Some (last ps)"
proof -
  obtain qs p where "ps = qs @ [p]" using assms(1) by (metis append_butlast_last_id)
  with assms show ?thesis by (simp add: file_name_def)
qed

end
