(* ===== verification/Json.thy ===== *)
theory Json
  imports Row_Id Rust_Str
begin

text \<open>
  JSON values as \<^verbatim>\<open>serde_json::Value\<close> has them, the canonical form and checksum of
  \<^verbatim>\<open>crates/icefalldb-core/src/metadata/checksum.rs\<close>, and the combinators with which the derived
  (de)serializers of the metadata structs are written.

  \<^verbatim>\<open>serde_json\<close>'s text format, SHA-256 and hex encoding are third-party code: they are the
  parameters collected in the record \<open>ext\<close>.
\<close>

section \<open>Values\<close>

text \<open>A number is an unsigned, a negative or a floating-point one, the last two by their bits.\<close>

datatype jnumber = PosInt u64 | NegInt u64 | Float u64

datatype json =
    JNull
  | JBool bool
  | JNum jnumber
  | JStr string
  | JArr "json list"
  | JObj "(string \<times> json) list"

record ext =
  json_to_string :: "json \<Rightarrow> bytes"
  json_pretty :: "json \<Rightarrow> bytes"
  json_parse :: "bytes \<Rightarrow> json option"
  sha256_hex :: "bytes \<Rightarrow> string"
  hex_encode :: "bytes \<Rightarrow> string"
  hex_decode :: "string \<Rightarrow> bytes option"

text \<open>
  What the code relies on: compact JSON text is not empty, has no raw line break, and it and the
  pretty-printed text read back as the entries that were written, in their order. For floating-point
  numbers this asks for an exact reader, more than \<^verbatim>\<open>serde_json\<close> gives without its feature
  \<^verbatim>\<open>float_roundtrip\<close> (a number may come back one unit in the last place off). Floats occur only in column
  statistics and partials; no theorem compares a float that was read back with the cells it was
  computed from.
\<close>

definition json_law :: "ext \<Rightarrow> bool" where
  "json_law X \<longleftrightarrow> (\<forall>v. json_parse X (json_to_string X v) = Some v
     \<and> 10 \<notin> set (json_to_string X v) \<and> json_to_string X v \<noteq> []
     \<and> json_parse X (json_pretty X v) = Some v)"

lemma json_lawD:
  assumes "json_law X"
  shows "json_parse X (json_to_string X v) = Some v" "10 \<notin> set (json_to_string X v)"
    "json_to_string X v \<noteq> []" "json_parse X (json_pretty X v) = Some v"
  using assms by (auto simp: json_law_def)

section \<open>Canonical form and checksum\<close>

text \<open>An object is the list of its entries in the order of iteration.\<close>

fun canonicalize :: "json \<Rightarrow> json" where
  "canonicalize (JObj items) = JObj (map (\<lambda>(k, v). (k, canonicalize v)) (sort_key fst items))"
| "canonicalize (JArr arr) = JArr (map canonicalize arr)"
| "canonicalize other = other"

definition checksum_bytes :: "ext \<Rightarrow> bytes \<Rightarrow> string" where
  "checksum_bytes X data = ''sha256:'' @ sha256_hex X data"

definition checksum_json :: "ext \<Rightarrow> json \<Rightarrow> string" where
  "checksum_json X v = checksum_bytes X (json_to_string X (canonicalize v))"

text \<open>Two values that differ only in the order of object entries, at any depth.\<close>

inductive json_sim :: "json \<Rightarrow> json \<Rightarrow> bool" where
  sim_refl: "json_sim v v"
| sim_arr: "list_all2 json_sim xs ys \<Longrightarrow> json_sim (JArr xs) (JArr ys)"
| sim_obj: "list_all2 (\<lambda>a b. fst a = fst b \<and> json_sim (snd a) (snd b)) xs ys \<Longrightarrow>
    distinct (map fst ys) \<Longrightarrow> mset ys = mset zs \<Longrightarrow> json_sim (JObj xs) (JObj zs)"

inductive_cases json_sim_ObjE: "json_sim (JObj xs) v"

lemma insort_key_list_all2:
  assumes "list_all2 (\<lambda>a b. fst a = fst b \<and> R (snd a) (snd b)) xs ys" "fst a = fst b" "R (snd a) (snd b)"
  shows "list_all2 (\<lambda>a b. fst a = fst b \<and> R (snd a) (snd b)) (insort_key fst a xs) (insort_key fst b ys)"
  using assms by (induction rule: list_all2_induct) auto

lemma sort_key_list_all2:
  assumes "list_all2 (\<lambda>a b. fst a = fst b \<and> R (snd a) (snd b)) xs ys"
  shows "list_all2 (\<lambda>a b. fst a = fst b \<and> R (snd a) (snd b)) (sort_key fst xs) (sort_key fst ys)"
  using assms by (induction rule: list_all2_induct) (auto intro: insort_key_list_all2)

lemma list_all2_map_eq: "list_all2 (\<lambda>a b. f a = f b) xs ys \<Longrightarrow> map f xs = map f ys"
  by (induction rule: list_all2_induct) auto

lemma canonicalize_sim: "json_sim a b \<Longrightarrow> canonicalize a = canonicalize b"
proof (induction rule: json_sim.induct)
  case (sim_arr xs ys)
  then have "list_all2 (\<lambda>a b. canonicalize a = canonicalize b) xs ys"
    by (rule list_all2_mono) simp
  then show ?case by (simp add: list_all2_map_eq)
next
  case (sim_obj xs ys zs)
  let ?c = "\<lambda>(k, v). (k, canonicalize v)"
  have "list_all2 (\<lambda>a b. fst a = fst b \<and> canonicalize (snd a) = canonicalize (snd b)) xs ys"
    using sim_obj(1) by (rule list_all2_mono) simp
  then have "list_all2 (\<lambda>a b. fst a = fst b \<and> canonicalize (snd a) = canonicalize (snd b))
      (sort_key fst xs) (sort_key fst ys)"
    by (rule sort_key_list_all2)
  then have "list_all2 (\<lambda>a b. ?c a = ?c b) (sort_key fst xs) (sort_key fst ys)"
    by (rule list_all2_mono) auto
  moreover have "sort_key fst ys = sort_key fst zs"
    using sim_obj(2,3) by (intro sort_key_fst_perm)
  ultimately show ?case using list_all2_map_eq [of ?c] by simp
qed simp

section \<open>Reading and writing structs\<close>

text \<open>
  \<open>jobj\<close> serializes a struct: the entries that are not skipped, in the order of declaration, as
  \<^verbatim>\<open>serde_json::to_vec\<close> writes them; \<open>jhashmap\<close> serializes a hash map in its iteration order.
  \<^verbatim>\<open>serde_json::to_value\<close> collects every object into a \<^verbatim>\<open>BTreeMap\<close>, which puts its entries in
  key order.
\<close>

fun kept_fields :: "(string \<times> json option) list \<Rightarrow> (string \<times> json) list" where
  "kept_fields [] = []"
| "kept_fields ((k, None) # es) = kept_fields es"
| "kept_fields ((k, Some v) # es) = (k, v) # kept_fields es"

definition jobj :: "(string \<times> json option) list \<Rightarrow> json" where
  "jobj es = JObj (kept_fields es)"

definition to_value :: "json \<Rightarrow> json" where
  "to_value v = canonicalize v"

definition jfield :: "string \<Rightarrow> json \<Rightarrow> json option" where
  "jfield k v = (case v of JObj es \<Rightarrow> map_of es k | _ \<Rightarrow> None)"

definition jhashmap :: "('a \<Rightarrow> json) \<Rightarrow> (string \<times> 'a) list \<Rightarrow> json" where
  "jhashmap f m = JObj (map (\<lambda>(k, v). (k, f v)) m)"

definition skip_zero :: "u64 \<Rightarrow> json option" where
  "skip_zero n = (if n = 0 then None else Some (JNum (PosInt n)))"

definition skip_empty :: "('a list \<Rightarrow> json) \<Rightarrow> 'a list \<Rightarrow> json option" where
  "skip_empty f xs = (if xs = [] then None else Some (f xs))"

definition de_u64 :: "json \<Rightarrow> u64 option" where
  "de_u64 v = (case v of JNum (PosInt n) \<Rightarrow> Some n | _ \<Rightarrow> None)"

definition de_str :: "json \<Rightarrow> string option" where
  "de_str v = (case v of JStr s \<Rightarrow> Some s | _ \<Rightarrow> None)"

definition de_bool :: "json \<Rightarrow> bool option" where
  "de_bool v = (case v of JBool b \<Rightarrow> Some b | _ \<Rightarrow> None)"

fun option_all :: "'a option list \<Rightarrow> 'a list option" where
  "option_all [] = Some []"
| "option_all (None # xs) = None"
| "option_all (Some x # xs) = map_option (Cons x) (option_all xs)"

definition de_vec :: "(json \<Rightarrow> 'a option) \<Rightarrow> json \<Rightarrow> 'a list option" where
  "de_vec f v = (case v of JArr xs \<Rightarrow> option_all (map f xs) | _ \<Rightarrow> None)"

definition de_map :: "(json \<Rightarrow> 'a option) \<Rightarrow> json \<Rightarrow> (string \<times> 'a) list option" where
  "de_map f v =
     (case v of JObj es \<Rightarrow> option_all (map (\<lambda>(k, v). map_option (Pair k) (f v)) es) | _ \<Rightarrow> None)"

definition de_option :: "(json \<Rightarrow> 'a option) \<Rightarrow> json \<Rightarrow> 'a option option" where
  "de_option f v = (if v = JNull then Some None else map_option Some (f v))"

text \<open>A required field, and one with a default when absent.\<close>

definition de_req :: "string \<Rightarrow> (json \<Rightarrow> 'a option) \<Rightarrow> json \<Rightarrow> 'a option" where
  "de_req k f v = Option.bind (jfield k v) f"

definition de_default :: "string \<Rightarrow> 'a \<Rightarrow> (json \<Rightarrow> 'a option) \<Rightarrow> json \<Rightarrow> 'a option" where
  "de_default k d f v = (case jfield k v of None \<Rightarrow> Some d | Some w \<Rightarrow> f w)"

definition is_jobj :: "json \<Rightarrow> bool" where
  "is_jobj v = (case v of JObj _ \<Rightarrow> True | _ \<Rightarrow> False)"

lemma kept_fields_keys: "fst ` set (kept_fields es) \<subseteq> fst ` set es"
  by (induction es rule: kept_fields.induct) auto

lemma map_of_kept_fields:
  "distinct (map fst es) \<Longrightarrow> map_of (kept_fields es) k = Option.bind (map_of es k) id"
proof (induction es rule: kept_fields.induct)
  case (2 j es)
  have "map_of (kept_fields es) j = None"
    using 2 kept_fields_keys [of es] by (auto simp: map_of_eq_None_iff)
  with 2 show ?case by auto
qed auto

text \<open>A field of a serialized struct is what was put there, absent if it was skipped.\<close>

lemma jfield_jobj [simp]:
  "distinct (map fst es) \<Longrightarrow> jfield k (jobj es) = Option.bind (map_of es k) id"
  by (simp add: jfield_def jobj_def map_of_kept_fields)

lemma is_jobj_jobj [simp]: "is_jobj (jobj es)"
  by (simp add: is_jobj_def jobj_def)

lemma jobj_not_null [simp]: "jobj es \<noteq> JNull"
  by (simp add: jobj_def)

lemma de_simps [simp]:
  "de_u64 (JNum (PosInt n)) = Some n" "de_str (JStr s) = Some s"
  by (simp_all add: de_u64_def de_str_def)

lemma option_all_Some [simp]: "option_all (map (\<lambda>x. Some (f x)) xs) = Some (map f xs)"
  by (induction xs) simp_all

lemma option_all_map_Some: "(\<And>x. x \<in> set xs \<Longrightarrow> g x = Some (f x)) \<Longrightarrow> option_all (map g xs) = Some (map f xs)"
  by (induction xs) simp_all

lemma de_vec_map:
  "(\<And>x. x \<in> set xs \<Longrightarrow> f (g x) = Some x) \<Longrightarrow> de_vec f (JArr (map g xs)) = Some xs"
  using option_all_map_Some [of xs "f \<circ> g" id] by (simp add: de_vec_def)

lemma de_map_jhashmap:
  assumes "\<And>k v. (k, v) \<in> set m \<Longrightarrow> f (g v) = Some v"
  shows "de_map f (jhashmap g m) = Some m"
proof -
  have "option_all (map ((\<lambda>(k, v). map_option (Pair k) (f v)) \<circ> (\<lambda>(k, v). (k, g v))) m)
      = Some (map id m)"
    by (rule option_all_map_Some) (auto simp: assms)
  then show ?thesis by (simp add: de_map_def jhashmap_def)
qed

text \<open>Canonical forms are stable, so the order of a hash map does not reach a checksum.\<close>

lemma canonicalize_idem: "canonicalize (canonicalize v) = canonicalize v"
proof (induction v rule: canonicalize.induct)
  case (1 items)
  let ?c = "\<lambda>(k, v). (k, canonicalize v)"
  have fst_c: "map fst (map ?c xs) = map fst xs" for xs :: "(string \<times> json) list"
    by (simp add: comp_def case_prod_beta)
  have "sort_key fst (map ?c (sort_key fst items)) = map ?c (sort_key fst items)"
    by (rule sort_key_sorted) (simp only: fst_c sorted_sort_key)
  moreover have "map ?c (map ?c (sort_key fst items)) = map ?c (sort_key fst items)"
    using 1 by (auto simp: comp_def)
  ultimately show ?case by simp
qed simp_all

lemma checksum_to_value [simp]: "checksum_json X (to_value v) = checksum_json X v"
  by (simp add: checksum_json_def to_value_def canonicalize_idem)

end
