(* ===== verification/Storage.thy ===== *)
theory Storage
  imports Rust_Str "HOL-Library.AList"
begin

text \<open>
  The storage layer of \<^verbatim>\<open>crates/icefalldb-core/src/storage\<close>: path validation (\<^verbatim>\<open>path.rs\<close>), the
  \<^verbatim>\<open>Storage\<close> trait (\<^verbatim>\<open>mod.rs\<close>) as a record of operations, with its default \<^verbatim>\<open>append\<close>, and the
  in-memory implementation (\<^verbatim>\<open>memory.rs\<close>). The locale \<open>storage_contract\<close> states what callers
  rely on; it is interpreted on the in-memory storage.
\<close>

section \<open>Path validation\<close>

fun clean_components :: "string \<Rightarrow> component list \<Rightarrow> string result" where
  "clean_components cleaned [] =
     (if cleaned = [] then Inl (InvalidPath ''path cannot be empty'') else Inr cleaned)"
| "clean_components cleaned (Normal c # rest) =
     clean_components ((if cleaned = [] then [] else cleaned @ ''/'') @ c) rest"
| "clean_components cleaned (CurDir # rest) = clean_components cleaned rest"
| "clean_components cleaned (ParentDir # rest) = Inl (InvalidPath ''path traversal is not allowed'')"
| "clean_components cleaned (RootDir # rest) = Inl (InvalidPath ''absolute paths are not allowed'')"

definition validate_path :: "string \<Rightarrow> string result" where
  "validate_path raw =
     (if raw = [] then Inl (InvalidPath ''path cannot be empty'')
      else if is_absolute raw then Inl (InvalidPath ''absolute paths are not allowed'')
      else clean_components [] (path_components raw))"

lemma join_path_Nil [simp]: "join_path [] = []"
  by (simp add: join_path_def)

lemma join_path_snoc: "ps \<noteq> [] \<Longrightarrow> join_path (ps @ [p]) = join_path ps @ ''/'' @ p"
  by (cases ps) (simp_all add: join_path_def)

lemma join_path_Nil_iff:
  "\<forall>p \<in> set ps. plain_piece p \<Longrightarrow> join_path ps = [] \<longleftrightarrow> ps = []"
  by (cases ps) (auto simp: join_path_def plain_piece_def)

lemma clean_components_normals:
  assumes "\<forall>p \<in> set (ps @ qs). plain_piece p" "ps @ qs \<noteq> []"
  shows "clean_components (join_path ps) (map Normal qs) = Inr (join_path (ps @ qs))"
  using assms
proof (induction qs arbitrary: ps)
  case Nil
  then show ?case by (simp add: join_path_Nil_iff)
next
  case (Cons q qs)
  have "(if join_path ps = [] then [] else join_path ps @ ''/'') @ q = join_path (ps @ [q])"
    using Cons.prems by (cases "ps = []") (simp_all add: join_path_snoc join_path_Nil_iff)
  then show ?case using Cons.IH [of "ps @ [q]"] Cons.prems by simp
qed

text \<open>A path of plain pieces is accepted as it is.\<close>

lemma validate_join_path:
  assumes "ps \<noteq> []" "\<forall>p \<in> set ps. plain_piece p"
  shows "validate_path (join_path ps) = Inr (join_path ps)"
proof -
  have ne: "join_path ps \<noteq> []" using assms by (simp add: join_path_Nil_iff)
  have "\<not> is_absolute (join_path ps)"
  proof
    assume "is_absolute (join_path ps)"
    then have "RootDir \<in> set (path_components (join_path ps))" by (simp add: path_components_def Let_def)
    then show False by (auto simp: path_components_join [OF assms])
  qed
  moreover have "clean_components [] (path_components (join_path ps)) = Inr (join_path ps)"
    using clean_components_normals [of "[]" ps] assms by simp
  ultimately show ?thesis using ne by (simp add: validate_path_def)
qed

lemma clean_components_Inr:
  assumes "clean_components (join_path ps) cs = Inr q" "\<forall>p \<in> set ps. plain_piece p"
    "\<forall>c. Normal c \<in> set cs \<longrightarrow> plain_piece c"
  shows "\<exists>qs. qs \<noteq> [] \<and> (\<forall>p \<in> set qs. plain_piece p) \<and> q = join_path qs"
  using assms
proof (induction "join_path ps" cs arbitrary: ps rule: clean_components.induct)
  case 1
  then show ?case by (auto simp: join_path_Nil_iff split: if_splits)
next
  case (2 c rest)
  have "(if join_path ps = [] then [] else join_path ps @ ''/'') @ c = join_path (ps @ [c])"
    using "2.prems"(2) by (cases "ps = []") (simp_all add: join_path_snoc join_path_Nil_iff)
  with "2.hyps" [of "ps @ [c]"] "2.prems" show ?case by auto
qed auto

lemma normal_components_plain: "Normal c \<in> set (path_components s) \<Longrightarrow> plain_piece c"
  by (auto simp: path_components_def Let_def List.map_filter_def plain_piece_def
      dest: split_on_pieces_free split: if_splits)

lemma validate_path_Inr:
  assumes "validate_path raw = Inr p"
  shows "\<exists>qs. qs \<noteq> [] \<and> (\<forall>q \<in> set qs. plain_piece q) \<and> p = join_path qs"
proof -
  have "clean_components (join_path []) (path_components raw) = Inr p"
    using assms by (simp add: validate_path_def join_path_def split: if_splits)
  then show ?thesis by (rule clean_components_Inr) (auto intro: normal_components_plain)
qed

lemma validate_path_idem: "validate_path raw = Inr p \<Longrightarrow> validate_path p = Inr p"
  using validate_path_Inr validate_join_path by blast

lemma clean_components_traversal:
  "ParentDir \<in> set cs \<Longrightarrow> \<exists>m. clean_components acc cs = Inl (InvalidPath m)"
  by (induction acc cs rule: clean_components.induct) auto

text \<open>The path of a file of a table, \<^verbatim>\<open>format!("{table}/{rel}")\<close>.\<close>

definition tpath :: "string \<Rightarrow> string \<Rightarrow> string" where
  "tpath table rel = table @ ''/'' @ rel"

lemma tpath_inj [simp]: "tpath t a = tpath t b \<longleftrightarrow> a = b"
  by (simp add: tpath_def)

lemma tpath_join: "ps \<noteq> [] \<Longrightarrow> tpath table (join_path ps) = join_path (table # ps)"
  by (simp add: tpath_def join_path_Cons)

lemma validate_tpath:
  assumes "plain_piece table" "ps \<noteq> []" "\<forall>p \<in> set ps. plain_piece p"
  shows "validate_path (tpath table (join_path ps)) = Inr (tpath table (join_path ps))"
  unfolding tpath_join [OF assms(2)] using assms by (intro validate_join_path) simp_all

section \<open>The storage trait\<close>

record 's storage =
  st_read :: "string \<Rightarrow> ('s, bytes) io"
  st_size :: "string \<Rightarrow> ('s, u64) io"
  st_read_range :: "string \<Rightarrow> u64 \<Rightarrow> u64 \<Rightarrow> ('s, bytes) io"
  st_write :: "string \<Rightarrow> bytes \<Rightarrow> ('s, unit) io"
  st_append :: "string \<Rightarrow> bytes \<Rightarrow> ('s, unit) io"
  st_delete :: "string \<Rightarrow> ('s, unit) io"
  st_rename :: "string \<Rightarrow> string \<Rightarrow> ('s, unit) io"
  st_list :: "string \<Rightarrow> ('s, string list) io"
  st_exists :: "string \<Rightarrow> ('s, bool) io"
  st_sync :: "string \<Rightarrow> ('s, unit) io"

text \<open>The trait's default \<^verbatim>\<open>append\<close>: read what is there, an absent object counting as empty.\<close>

definition default_append :: "'s storage \<Rightarrow> string \<Rightarrow> bytes \<Rightarrow> ('s, unit) io" where
  "default_append S path data =
     io_bind (io_try (st_read S path)) (\<lambda>r.
       case r of
         Inr existing \<Rightarrow> st_write S path (existing @ data)
       | Inl e \<Rightarrow> if is_not_found e then st_write S path data else io_throw e)"

section \<open>The in-memory storage\<close>

text \<open>
  The \<^verbatim>\<open>HashMap\<close> from path to contents as an association list; nothing depends on its order.
  The semaphores behind \<^verbatim>\<open>lock_exclusive\<close> are not part of this state.
\<close>

record memory_storage =
  ms_data :: "(string \<times> bytes) list"

definition mem_new :: memory_storage where
  "mem_new = \<lparr>ms_data = []\<rparr>"

abbreviation mem_get :: "memory_storage \<Rightarrow> string \<Rightarrow> bytes option" where
  "mem_get s \<equiv> map_of (ms_data s)"

definition mem_read :: "string \<Rightarrow> (memory_storage, bytes) io" where
  "mem_read raw = io_bind (io_lift (validate_path raw)) (\<lambda>path s.
     (ok_or (mem_get s path) (NotFound path), s))"

definition mem_size :: "string \<Rightarrow> (memory_storage, u64) io" where
  "mem_size raw = io_bind (io_lift (validate_path raw)) (\<lambda>path s.
     (ok_or (map_option (\<lambda>b. of_nat (length b)) (mem_get s path)) (NotFound path), s))"

definition mem_read_range :: "string \<Rightarrow> u64 \<Rightarrow> u64 \<Rightarrow> (memory_storage, bytes) io" where
  "mem_read_range raw off n = io_bind (io_lift (validate_path raw)) (\<lambda>path s.
     (res_bind (ok_or (mem_get s path) (NotFound path)) (\<lambda>bs.
        if unat off + unat n \<ge> 2 ^ 64 then Inl (RangeReadError path ''range length overflow'')
        else if unat off + unat n > length bs then Inl (RangeReadError path ''range exceeds object size'')
        else Inr (take (unat n) (drop (unat off) bs))), s))"

definition mem_write :: "string \<Rightarrow> bytes \<Rightarrow> (memory_storage, unit) io" where
  "mem_write raw data = io_bind (io_lift (validate_path raw)) (\<lambda>path s.
     (Inr (), s\<lparr>ms_data := AList.update path data (ms_data s)\<rparr>))"

definition mem_append :: "string \<Rightarrow> bytes \<Rightarrow> (memory_storage, unit) io" where
  "mem_append raw data = io_bind (io_lift (validate_path raw)) (\<lambda>path s.
     (Inr (), s\<lparr>ms_data :=
        AList.update path ((case mem_get s path of None \<Rightarrow> [] | Some e \<Rightarrow> e) @ data) (ms_data s)\<rparr>))"

definition mem_delete :: "string \<Rightarrow> (memory_storage, unit) io" where
  "mem_delete raw = io_bind (io_lift (validate_path raw)) (\<lambda>path s.
     case mem_get s path of
       None \<Rightarrow> (Inl (NotFound path), s)
     | Some _ \<Rightarrow> (Inr (), s\<lparr>ms_data := AList.delete path (ms_data s)\<rparr>))"

definition mem_rename :: "string \<Rightarrow> string \<Rightarrow> (memory_storage, unit) io" where
  "mem_rename raw_from raw_to =
     io_bind (io_lift (validate_path raw_from)) (\<lambda>from.
       io_bind (io_lift (validate_path raw_to)) (\<lambda>to s.
         case mem_get s from of
           None \<Rightarrow> (Inl (NotFound from), s)
         | Some v \<Rightarrow> (Inr (), s\<lparr>ms_data := AList.update to v (AList.delete from (ms_data s))\<rparr>)))"

definition mem_exists :: "string \<Rightarrow> (memory_storage, bool) io" where
  "mem_exists raw = io_bind (io_lift (validate_path raw)) (\<lambda>path s. (Inr (mem_get s path \<noteq> None), s))"

text \<open>The child of the directory \<open>dir\<close> (with its slash) that \<open>key\<close> lies under.\<close>

definition child_of :: "string \<Rightarrow> string \<Rightarrow> string option" where
  "child_of dir key = map_option (\<lambda>rest. dir @ hd (split_on (CHR ''/'') rest)) (strip_prefix key dir)"

definition mem_list :: "string \<Rightarrow> (memory_storage, string list) io" where
  "mem_list prefix =
     io_bind (if prefix = [] then io_return [] else
                io_bind (io_lift (validate_path prefix)) (\<lambda>cleaned.
                  io_return (if ends_with cleaned ''/'' then cleaned else cleaned @ ''/'')))
       (\<lambda>normalized s.
          let children = remdups (List.map_filter (child_of normalized) (map fst (ms_data s)))
          in if children = [] \<and> prefix \<noteq> [] then (Inl (NotFound prefix), s)
             else (Inr (sort children), s))"

text \<open>
  As in \<^verbatim>\<open>memory.rs\<close>, \<^verbatim>\<open>sync\<close> does nothing and never fails. Runs in which it fails are the subject of the
  theory on faulty synchronisation.
\<close>

definition mem_sync :: "string \<Rightarrow> (memory_storage, unit) io" where
  "mem_sync path = io_return ()"

definition mem_storage :: "memory_storage storage" where
  "mem_storage =
     \<lparr>st_read = mem_read, st_size = mem_size, st_read_range = mem_read_range, st_write = mem_write,
      st_append = mem_append, st_delete = mem_delete, st_rename = mem_rename, st_list = mem_list,
      st_exists = mem_exists, st_sync = mem_sync\<rparr>"

lemma mem_storage_sel [simp]:
  "st_read mem_storage = mem_read" "st_size mem_storage = mem_size"
  "st_read_range mem_storage = mem_read_range" "st_write mem_storage = mem_write"
  "st_append mem_storage = mem_append" "st_delete mem_storage = mem_delete"
  "st_rename mem_storage = mem_rename" "st_list mem_storage = mem_list"
  "st_exists mem_storage = mem_exists" "st_sync mem_storage = mem_sync"
  by (simp_all add: mem_storage_def)

section \<open>What callers rely on\<close>

text \<open>The direct children of a directory among a set of keys.\<close>

definition dir_children :: "string \<Rightarrow> string set \<Rightarrow> string set" where
  "dir_children dir keys = {c. \<exists>k \<in> keys. child_of (dir @ ''/'') k = Some c}"

text \<open>
  The contract, over the contents of the store as a map \<open>view\<close>. A path is named by the raw
  string the caller passes and the form \<open>validate_path\<close> gives it.
\<close>

locale storage_contract =
  fixes S :: "'s storage"
    and view :: "'s \<Rightarrow> string \<Rightarrow> bytes option"
  assumes invalid_read: "validate_path raw = Inl e \<Longrightarrow> st_read S raw s = (Inl e, s)"
    and read_law: "validate_path raw = Inr p \<Longrightarrow> st_read S raw s = (ok_or (view s p) (NotFound p), s)"
    and write_law: "validate_path raw = Inr p \<Longrightarrow>
        \<exists>s'. st_write S raw b s = (Inr (), s') \<and> view s' = (view s)(p \<mapsto> b)"
    and append_law: "validate_path raw = Inr p \<Longrightarrow>
        \<exists>s'. st_append S raw b s = (Inr (), s')
          \<and> view s' = (view s)(p \<mapsto> (case view s p of None \<Rightarrow> [] | Some e \<Rightarrow> e) @ b)"
    and delete_law: "validate_path raw = Inr p \<Longrightarrow>
        \<exists>s'. st_delete S raw s = ((if view s p = None then Inl (NotFound p) else Inr ()), s')
          \<and> view s' = (view s)(p := None)"
    and invalid_delete: "validate_path raw = Inl e \<Longrightarrow> st_delete S raw s = (Inl e, s)"
    and rename_law: "validate_path rf = Inr f \<Longrightarrow> validate_path rt = Inr t \<Longrightarrow> view s f = Some b \<Longrightarrow>
        \<exists>s'. st_rename S rf rt s = (Inr (), s') \<and> view s' = (view s)(f := None, t \<mapsto> b)"
    and list_law: "validate_path raw = Inr d \<Longrightarrow> raw = d \<Longrightarrow>
        st_list S raw s =
          (if dir_children d (dom (view s)) = {} then Inl (NotFound d)
           else Inr (sorted_list_of_set (dir_children d (dom (view s)))), s)"
    and exists_law: "validate_path raw = Inr p \<Longrightarrow> st_exists S raw s = (Inr (view s p \<noteq> None), s)"
    and sync_law: "st_sync S raw s = (Inr (), s)"
    and finite_view: "finite (dom (view s))"
begin

lemma finite_children: "finite (dir_children d (dom (view s)))"
proof -
  have "dir_children d (dom (view s)) \<subseteq> (\<lambda>k. the (child_of (d @ ''/'') k)) ` dom (view s)"
    by (force simp: dir_children_def)
  then show ?thesis using finite_view finite_subset by blast
qed

lemma set_list_children [simp]:
  "set (sorted_list_of_set (dir_children d (dom (view s)))) = dir_children d (dom (view s))"
  by (simp add: finite_children)

text \<open>The specialised \<^verbatim>\<open>append\<close> of an implementation agrees with the trait's default.\<close>

lemma default_append_law:
  assumes "validate_path raw = Inr p"
  shows "\<exists>s'. default_append S raw b s = (Inr (), s')
    \<and> view s' = (view s)(p \<mapsto> (case view s p of None \<Rightarrow> [] | Some e \<Rightarrow> e) @ b)"
proof (cases "view s p")
  case None
  then show ?thesis
    using write_law [OF assms, of b s] read_law [OF assms, of s]
    by (auto simp: default_append_def io_simps)
next
  case (Some e)
  then show ?thesis
    using write_law [OF assms, of "e @ b" s] read_law [OF assms, of s]
    by (auto simp: default_append_def io_simps)
qed

lemma read_after_write:
  assumes "validate_path raw = Inr p" "st_write S raw b s = (Inr (), s')"
  shows "st_read S raw s' = (Inr b, s')"
    "validate_path raw' = Inr p' \<Longrightarrow> p' \<noteq> p \<Longrightarrow> fst (st_read S raw' s') = fst (st_read S raw' s)"
  using write_law [OF assms(1), of b s] assms by (auto simp: read_law)

lemma read_after_append:
  assumes "validate_path raw = Inr p" "st_append S raw b s = (Inr (), s')" "view s p = Some e"
  shows "st_read S raw s' = (Inr (e @ b), s')"
  using append_law [OF assms(1), of b s] assms by (auto simp: read_law)

end

text \<open>In a store whose keys are validated paths, every listed child is one too.\<close>

definition clean_keys :: "string set \<Rightarrow> bool" where
  "clean_keys keys \<longleftrightarrow> (\<forall>k \<in> keys. validate_path k = Inr k)"

lemma join_split: "join_path (split_on (CHR ''/'') s) = s"
proof (induction s)
  case (Cons c s)
  obtain y ys where y: "split_on (CHR ''/'') s = y # ys"
    by (cases "split_on (CHR ''/'') s") auto
  with Cons show ?case by (simp add: join_path_def)
qed simp

lemma clean_pieces:
  "validate_path k = Inr k \<longleftrightarrow> (\<forall>q \<in> set (split_on (CHR ''/'') k). plain_piece q)"
proof
  assume "validate_path k = Inr k"
  then obtain qs where qs: "qs \<noteq> []" "\<forall>q \<in> set qs. plain_piece q" "k = join_path qs"
    using validate_path_Inr by blast
  then have "split_on (CHR ''/'') k = qs"
    by (metis split_on_join_path plain_piece_def)
  with qs(2) show "\<forall>q \<in> set (split_on (CHR ''/'') k). plain_piece q" by simp
next
  assume "\<forall>q \<in> set (split_on (CHR ''/'') k). plain_piece q"
  then have "validate_path (join_path (split_on (CHR ''/'') k)) = Inr (join_path (split_on (CHR ''/'') k))"
    by (intro validate_join_path) simp_all
  then show "validate_path k = Inr k" by (simp only: join_split)
qed

lemma child_of_SomeE:
  assumes "child_of (d @ ''/'') k = Some c"
  obtains rest where "k = d @ CHR ''/'' # rest" "c = d @ CHR ''/'' # hd (split_on (CHR ''/'') rest)"
  using assms by (auto simp: child_of_def strip_prefix_eq_Some)

lemma child_clean:
  assumes "validate_path k = Inr k" "child_of (d @ ''/'') k = Some c"
  shows "validate_path c = Inr c"
proof -
  obtain rest where r: "k = d @ CHR ''/'' # rest" "c = d @ CHR ''/'' # hd (split_on (CHR ''/'') rest)"
    using assms(2) by (rule child_of_SomeE)
  have "hd (split_on (CHR ''/'') rest) \<in> set (split_on (CHR ''/'') rest)" by simp
  then have "CHR ''/'' \<notin> set (hd (split_on (CHR ''/'') rest))" by (rule split_on_pieces_free)
  then have "split_on (CHR ''/'') c = split_on (CHR ''/'') d @ [hd (split_on (CHR ''/'') rest)]"
    using r(2) by simp
  with assms(1) r(1) show ?thesis by (auto simp: clean_pieces)
qed

section \<open>The in-memory storage meets the contract\<close>

lemma validated_no_slash:
  assumes "validate_path raw = Inr p"
  shows "\<not> ends_with p ''/''"
proof
  assume "ends_with p ''/''"
  then obtain r where r: "p = r @ ''/''" by (auto simp: ends_with_iff)
  obtain qs where qs: "qs \<noteq> []" "\<forall>q \<in> set qs. plain_piece q" "p = join_path qs"
    using validate_path_Inr [OF assms] by blast
  have "\<forall>q \<in> set qs. CHR ''/'' \<notin> set q" using qs(2) by (simp add: plain_piece_def)
  then have "split_on (CHR ''/'') p = qs" unfolding qs(3) by (rule split_on_join_path [OF qs(1)])
  moreover have "split_on (CHR ''/'') p = split_on (CHR ''/'') r @ [[]]"
    using split_on_append_sep [of "CHR ''/''" r "[]"] r by simp
  ultimately have "[] \<in> set qs" by (metis in_set_conv_decomp)
  with qs(2) have "plain_piece []" by (rule bspec)
  then show False by (simp add: plain_piece_def)
qed

lemma mem_list_valid:
  assumes "validate_path d = Inr d"
  shows "mem_list d s =
    (if dir_children d (dom (mem_get s)) = {} then Inl (NotFound d)
     else Inr (sorted_list_of_set (dir_children d (dom (mem_get s)))), s)"
proof -
  let ?cs = "List.map_filter (child_of (d @ ''/'')) (map fst (ms_data s))"
  have "d \<noteq> []" using assms by (auto simp: validate_path_def)
  then have run: "mem_list d s = (let children = remdups ?cs in
      if children = [] then (Inl (NotFound d), s) else (Inr (sort children), s))"
    using assms validated_no_slash [OF assms] by (simp add: mem_list_def io_simps)
  have set: "set ?cs = dir_children d (dom (mem_get s))"
    by (force simp: dir_children_def List.map_filter_def dom_map_of_conv_image_fst)
  then have "?cs = [] \<longleftrightarrow> dir_children d (dom (mem_get s)) = {}" by auto
  moreover have "sort (remdups ?cs) = sorted_list_of_set (set ?cs)"
    by (simp add: sorted_list_of_set_sort_remdups)
  ultimately show ?thesis using set by (simp add: run Let_def)
qed

lemma mem_runs:
  assumes "validate_path raw = Inr p"
  shows "mem_read raw s = (ok_or (mem_get s p) (NotFound p), s)"
    "mem_write raw b s = (Inr (), s\<lparr>ms_data := AList.update p b (ms_data s)\<rparr>)"
    "mem_append raw b s = (Inr (), s\<lparr>ms_data :=
        AList.update p ((case mem_get s p of None \<Rightarrow> [] | Some e \<Rightarrow> e) @ b) (ms_data s)\<rparr>)"
    "mem_exists raw s = (Inr (mem_get s p \<noteq> None), s)"
    "mem_delete raw s = (if mem_get s p = None then (Inl (NotFound p), s)
        else (Inr (), s\<lparr>ms_data := AList.delete p (ms_data s)\<rparr>))"
  using assms
  by (auto simp: io_bind_run mem_read_def mem_write_def mem_append_def mem_exists_def mem_delete_def
      split: option.split)

lemma mem_rename_run:
  assumes "validate_path rf = Inr f" "validate_path rt = Inr t" "mem_get s f = Some b"
  shows "mem_rename rf rt s
    = (Inr (), s\<lparr>ms_data := AList.update t b (AList.delete f (ms_data s))\<rparr>)"
  using assms by (simp add: mem_rename_def io_bind_run)

interpretation mem: storage_contract mem_storage "\<lambda>s. mem_get s"
proof unfold_locales
  fix raw p d rf f rt t :: string and e b and s :: memory_storage
  show "st_read mem_storage raw s = (Inl e, s)" if "validate_path raw = Inl e"
    using that by (simp add: mem_read_def io_bind_run)
  show "st_delete mem_storage raw s = (Inl e, s)" if "validate_path raw = Inl e"
    using that by (simp add: mem_delete_def io_bind_run)
  show "st_sync mem_storage raw s = (Inr (), s)" by (simp add: mem_sync_def)
  show "finite (dom (mem_get s))" by (rule finite_dom_map_of)
  show "\<exists>s'. st_rename mem_storage rf rt s = (Inr (), s') \<and> mem_get s' = (mem_get s)(f := None, t \<mapsto> b)"
    if "validate_path rf = Inr f" "validate_path rt = Inr t" "mem_get s f = Some b"
    using mem_rename_run [OF that] by (simp add: update_conv' delete_conv')
  assume v: "validate_path raw = Inr p"
  note r = mem_runs [OF v]
  show "st_read mem_storage raw s = (ok_or (mem_get s p) (NotFound p), s)" by (simp add: r)
  show "\<exists>s'. st_write mem_storage raw b s = (Inr (), s') \<and> mem_get s' = (mem_get s)(p \<mapsto> b)"
    by (simp add: r update_conv')
  show "\<exists>s'. st_append mem_storage raw b s = (Inr (), s')
      \<and> mem_get s' = (mem_get s)(p \<mapsto> (case mem_get s p of None \<Rightarrow> [] | Some e \<Rightarrow> e) @ b)"
    by (simp add: r update_conv')
  show "\<exists>s'. st_delete mem_storage raw s = ((if mem_get s p = None then Inl (NotFound p) else Inr ()), s')
      \<and> mem_get s' = (mem_get s)(p := None)"
    by (auto simp: r delete_conv' fun_eq_iff)
  show "st_exists mem_storage raw s = (Inr (mem_get s p \<noteq> None), s)" by (simp add: r)
  show "st_list mem_storage raw s =
      (if dir_children p (dom (mem_get s)) = {} then Inl (NotFound p)
       else Inr (sorted_list_of_set (dir_children p (dom (mem_get s)))), s)" if "raw = p"
    using that v by (simp add: mem_list_valid)
qed

end
