(* ===== verification/Manifest.thy ===== *)
theory Manifest
  imports Json Storage
begin

text \<open>
  Table manifests: \<^verbatim>\<open>crates/icefalldb-core/src/metadata/manifest.rs\<close>. The structs with their
  serialized form (the \<^verbatim>\<open>serde\<close> attributes written out), file names, the self-checksum, the
  hash chain to the preceding manifest (\<^verbatim>\<open>parent_manifest_checksum\<close>) and its publication helper
  (\<^verbatim>\<open>finalize_manifest\<close>). The commit time \<^verbatim>\<open>Utc::now()\<close> is an argument.
\<close>

section \<open>Structs\<close>

record row_index_ref =
  ri_base :: "string option"
  ri_deltas :: "string list"

record index_ref =
  ix_base :: "string option"
  ix_deltas :: "string list"

record row_group_entry =
  rg_data :: string
  rg_meta :: string
  rg_fragment_id :: u64
  rg_deletes :: "string option"
  rg_deleted_count :: u64
  rg_agg :: "string option"

record manifest =
  mf_format_version :: u64
  mf_sequence :: u64
  mf_schema_id :: u64
  mf_row_groups :: "row_group_entry list"
  mf_row_counts :: "u64 list option"
  mf_partition_values :: "(string \<times> (string \<times> json) list) list option"
  mf_next_row_id :: u64
  mf_next_fragment_id :: u64
  mf_rowindex_generation :: "row_index_ref option"
  mf_index_generations :: "(string \<times> index_ref) list"
  mf_checkpoint :: "string option"
  mf_parent_hash :: "string option"
  mf_committed_at :: "string option"
  mf_checksum :: string

section \<open>Serialized form\<close>

abbreviation jstrs :: "string list \<Rightarrow> json" where
  "jstrs xs \<equiv> JArr (map JStr xs)"

definition row_index_ref_value :: "row_index_ref \<Rightarrow> json" where
  "row_index_ref_value r = jobj
     [(''base'', map_option JStr (ri_base r)), (''deltas'', skip_empty jstrs (ri_deltas r))]"

definition index_ref_value :: "index_ref \<Rightarrow> json" where
  "index_ref_value r = jobj
     [(''base'', map_option JStr (ix_base r)), (''deltas'', skip_empty jstrs (ix_deltas r))]"

definition row_group_entry_value :: "row_group_entry \<Rightarrow> json" where
  "row_group_entry_value e = jobj
     [(''data'', Some (JStr (rg_data e))), (''meta'', Some (JStr (rg_meta e))),
      (''fragment_id'', skip_zero (rg_fragment_id e)),
      (''deletes'', map_option JStr (rg_deletes e)),
      (''deleted_count'', skip_zero (rg_deleted_count e)),
      (''agg'', map_option JStr (rg_agg e))]"

definition manifest_value :: "manifest \<Rightarrow> json" where
  "manifest_value m = jobj
     [(''format_version'', Some (JNum (PosInt (mf_format_version m)))),
      (''sequence'', Some (JNum (PosInt (mf_sequence m)))),
      (''schema_id'', Some (JNum (PosInt (mf_schema_id m)))),
      (''row_groups'', Some (JArr (map row_group_entry_value (mf_row_groups m)))),
      (''row_counts'', map_option (\<lambda>cs. JArr (map (\<lambda>n. JNum (PosInt n)) cs)) (mf_row_counts m)),
      (''partition_values'', map_option (jhashmap (jhashmap id)) (mf_partition_values m)),
      (''next_row_id'', skip_zero (mf_next_row_id m)),
      (''next_fragment_id'', skip_zero (mf_next_fragment_id m)),
      (''rowindex_generation'', map_option row_index_ref_value (mf_rowindex_generation m)),
      (''index_generations'', skip_empty (jhashmap index_ref_value) (mf_index_generations m)),
      (''checkpoint'', map_option JStr (mf_checkpoint m)),
      (''parent_hash'', map_option JStr (mf_parent_hash m)),
      (''committed_at'', map_option JStr (mf_committed_at m)),
      (''checksum'', Some (JStr (mf_checksum m)))]"

definition de_row_index_ref :: "json \<Rightarrow> row_index_ref option" where
  "de_row_index_ref v =
     (if is_jobj v then
        Option.bind (de_default ''base'' None (de_option de_str) v) (\<lambda>base.
        Option.bind (de_default ''deltas'' [] (de_vec de_str) v) (\<lambda>deltas.
        Some \<lparr>ri_base = base, ri_deltas = deltas\<rparr>))
      else None)"

definition de_index_ref :: "json \<Rightarrow> index_ref option" where
  "de_index_ref v =
     (if is_jobj v then
        Option.bind (de_default ''base'' None (de_option de_str) v) (\<lambda>base.
        Option.bind (de_default ''deltas'' [] (de_vec de_str) v) (\<lambda>deltas.
        Some \<lparr>ix_base = base, ix_deltas = deltas\<rparr>))
      else None)"

definition de_row_group_entry :: "json \<Rightarrow> row_group_entry option" where
  "de_row_group_entry v =
     Option.bind (de_req ''data'' de_str v) (\<lambda>data.
     Option.bind (de_req ''meta'' de_str v) (\<lambda>meta.
     Option.bind (de_default ''fragment_id'' 0 de_u64 v) (\<lambda>fragment_id.
     Option.bind (de_default ''deletes'' None (de_option de_str) v) (\<lambda>deletes.
     Option.bind (de_default ''deleted_count'' 0 de_u64 v) (\<lambda>deleted_count.
     Option.bind (de_default ''agg'' None (de_option de_str) v) (\<lambda>agg.
     Some \<lparr>rg_data = data, rg_meta = meta, rg_fragment_id = fragment_id, rg_deletes = deletes,
           rg_deleted_count = deleted_count, rg_agg = agg\<rparr>))))))"

definition de_manifest :: "json \<Rightarrow> manifest option" where
  "de_manifest v =
     Option.bind (de_req ''format_version'' de_u64 v) (\<lambda>format_version.
     Option.bind (de_req ''sequence'' de_u64 v) (\<lambda>sequence.
     Option.bind (de_req ''schema_id'' de_u64 v) (\<lambda>schema_id.
     Option.bind (de_req ''row_groups'' (de_vec de_row_group_entry) v) (\<lambda>row_groups.
     Option.bind (de_default ''row_counts'' None (de_option (de_vec de_u64)) v) (\<lambda>row_counts.
     Option.bind (de_default ''partition_values'' None (de_option (de_map (de_map Some))) v) (\<lambda>pvs.
     Option.bind (de_default ''next_row_id'' 0 de_u64 v) (\<lambda>next_row_id.
     Option.bind (de_default ''next_fragment_id'' 0 de_u64 v) (\<lambda>next_fragment_id.
     Option.bind (de_default ''rowindex_generation'' None (de_option de_row_index_ref) v) (\<lambda>rig.
     Option.bind (de_default ''index_generations'' [] (de_map de_index_ref) v) (\<lambda>ixg.
     Option.bind (de_default ''checkpoint'' None (de_option de_str) v) (\<lambda>checkpoint.
     Option.bind (de_default ''parent_hash'' None (de_option de_str) v) (\<lambda>parent_hash.
     Option.bind (de_default ''committed_at'' None (de_option de_str) v) (\<lambda>committed_at.
     Option.bind (de_req ''checksum'' de_str v) (\<lambda>checksum.
     Some \<lparr>mf_format_version = format_version, mf_sequence = sequence, mf_schema_id = schema_id,
           mf_row_groups = row_groups, mf_row_counts = row_counts, mf_partition_values = pvs,
           mf_next_row_id = next_row_id, mf_next_fragment_id = next_fragment_id,
           mf_rowindex_generation = rig, mf_index_generations = ixg, mf_checkpoint = checkpoint,
           mf_parent_hash = parent_hash, mf_committed_at = committed_at,
           mf_checksum = checksum\<rparr>))))))))))))))"

text \<open>\<^verbatim>\<open>serde_json::from_slice::<Manifest>\<close>.\<close>

definition parse_manifest :: "ext \<Rightarrow> bytes \<Rightarrow> manifest option" where
  "parse_manifest X bs = Option.bind (json_parse X bs) de_manifest"

lemma de_opt_str: "de_default k None (de_option de_str) v = Some x"
  if "jfield k v = map_option JStr x"
  using that by (cases x) (simp_all add: de_default_def de_option_def)

lemma de_skip_zero: "de_default k 0 de_u64 v = Some n" if "jfield k v = skip_zero n"
  using that by (cases "n = 0") (simp_all add: de_default_def skip_zero_def)

lemma de_skip_strs: "de_default k [] (de_vec de_str) v = Some xs"
  if "jfield k v = skip_empty jstrs xs"
  using that by (cases "xs = []") (simp_all add: de_default_def skip_empty_def de_vec_map)

lemma de_req_eq: "de_req k f v = f w" if "jfield k v = Some w"
  using that by (simp add: de_req_def)

lemmas de_field = de_opt_str de_skip_zero de_skip_strs de_req_eq

lemma row_index_ref_roundtrip: "de_row_index_ref (row_index_ref_value r) = Some r"
  by (simp add: de_row_index_ref_def row_index_ref_value_def de_field)

lemma index_ref_roundtrip: "de_index_ref (index_ref_value r) = Some r"
  by (simp add: de_index_ref_def index_ref_value_def de_field)

lemma row_group_entry_roundtrip: "de_row_group_entry (row_group_entry_value e) = Some e"
  by (simp add: de_row_group_entry_def row_group_entry_value_def de_field)

lemma manifest_fields:
  "jfield ''format_version'' (manifest_value m) = Some (JNum (PosInt (mf_format_version m)))"
  "jfield ''sequence'' (manifest_value m) = Some (JNum (PosInt (mf_sequence m)))"
  "jfield ''schema_id'' (manifest_value m) = Some (JNum (PosInt (mf_schema_id m)))"
  "jfield ''row_groups'' (manifest_value m) = Some (JArr (map row_group_entry_value (mf_row_groups m)))"
  "jfield ''row_counts'' (manifest_value m)
     = map_option (\<lambda>cs. JArr (map (\<lambda>n. JNum (PosInt n)) cs)) (mf_row_counts m)"
  "jfield ''partition_values'' (manifest_value m)
     = map_option (jhashmap (jhashmap id)) (mf_partition_values m)"
  "jfield ''next_row_id'' (manifest_value m) = skip_zero (mf_next_row_id m)"
  "jfield ''next_fragment_id'' (manifest_value m) = skip_zero (mf_next_fragment_id m)"
  "jfield ''rowindex_generation'' (manifest_value m)
     = map_option row_index_ref_value (mf_rowindex_generation m)"
  "jfield ''index_generations'' (manifest_value m)
     = skip_empty (jhashmap index_ref_value) (mf_index_generations m)"
  "jfield ''checkpoint'' (manifest_value m) = map_option JStr (mf_checkpoint m)"
  "jfield ''parent_hash'' (manifest_value m) = map_option JStr (mf_parent_hash m)"
  "jfield ''committed_at'' (manifest_value m) = map_option JStr (mf_committed_at m)"
  "jfield ''checksum'' (manifest_value m) = Some (JStr (mf_checksum m))"
  by (simp_all add: manifest_value_def)

lemma de_opt: "de_default k None (de_option f) v = Some x"
  if "jfield k v = map_option g x" "\<And>y. x = Some y \<Longrightarrow> f (g y) = Some y \<and> g y \<noteq> JNull"
  using that by (cases x) (simp_all add: de_default_def de_option_def)

lemma manifest_opt_fields:
  shows "de_default ''row_counts'' None (de_option (de_vec de_u64)) (manifest_value m)
      = Some (mf_row_counts m)"
    "de_default ''partition_values'' None (de_option (de_map (de_map Some))) (manifest_value m)
      = Some (mf_partition_values m)"
    "de_default ''rowindex_generation'' None (de_option de_row_index_ref) (manifest_value m)
      = Some (mf_rowindex_generation m)"
    "de_default ''index_generations'' [] (de_map de_index_ref) (manifest_value m)
      = Some (mf_index_generations m)"
proof -
  show "de_default ''row_counts'' None (de_option (de_vec de_u64)) (manifest_value m)
      = Some (mf_row_counts m)"
    by (rule de_opt [OF manifest_fields(5)]) (simp add: de_vec_map)
  show "de_default ''partition_values'' None (de_option (de_map (de_map Some))) (manifest_value m)
      = Some (mf_partition_values m)"
    by (rule de_opt [OF manifest_fields(6)]) (simp add: de_map_jhashmap, simp add: jhashmap_def)
  show "de_default ''rowindex_generation'' None (de_option de_row_index_ref) (manifest_value m)
      = Some (mf_rowindex_generation m)"
    by (rule de_opt [OF manifest_fields(9)])
      (simp add: row_index_ref_roundtrip, simp add: row_index_ref_value_def)
  show "de_default ''index_generations'' [] (de_map de_index_ref) (manifest_value m)
      = Some (mf_index_generations m)"
    using manifest_fields(10) [of m]
    by (cases "mf_index_generations m = []")
      (simp_all add: de_default_def skip_empty_def de_map_jhashmap index_ref_roundtrip)
qed

lemma manifest_roundtrip: "de_manifest (manifest_value m) = Some m"
  by (simp add: de_manifest_def manifest_fields manifest_opt_fields de_field de_vec_map
      row_group_entry_roundtrip)

section \<open>File names\<close>

definition manifest_filename :: "u64 \<Rightarrow> string" where
  "manifest_filename seq = ''_manifests/'' @ pad_zeros 9 (show_nat (unat seq)) @ ''.json''"

text \<open>The sequence number a directory entry names: \<^verbatim>\<open>file_name\<close>, \<^verbatim>\<open>strip_suffix(".json")\<close>, \<^verbatim>\<open>parse\<close>.\<close>

definition entry_seq :: "string \<Rightarrow> u64 option" where
  "entry_seq entry = Option.bind (file_name entry) (\<lambda>f. Option.bind (strip_suffix f ''.json'') parse_u64)"

section \<open>Checksum and hash chain\<close>

definition compute_checksum :: "ext \<Rightarrow> manifest \<Rightarrow> string" where
  "compute_checksum X m = checksum_json X (to_value (manifest_value (m\<lparr>mf_checksum := []\<rparr>)))"

definition verify_checksum :: "ext \<Rightarrow> manifest \<Rightarrow> bool" where
  "verify_checksum X m \<longleftrightarrow> mf_checksum m = compute_checksum X m"

definition finalize :: "ext \<Rightarrow> string option \<Rightarrow> string \<Rightarrow> manifest \<Rightarrow> manifest" where
  "finalize X parent_checksum committed_at m =
     (let m1 = m\<lparr>mf_parent_hash := parent_checksum, mf_committed_at := Some committed_at\<rparr>
      in m1\<lparr>mf_checksum := compute_checksum X m1\<rparr>)"

text \<open>The scan for the highest sequence below \<open>next_seq\<close>.\<close>

definition best_predecessor :: "u64 \<Rightarrow> string list \<Rightarrow> u64 option" where
  "best_predecessor next_seq entries =
     foldl (\<lambda>best entry.
       case entry_seq entry of
         None \<Rightarrow> best
       | Some seq \<Rightarrow>
           if seq < next_seq \<and> (case best of None \<Rightarrow> True | Some b \<Rightarrow> seq > b) then Some seq else best)
       None entries"

definition parent_manifest_checksum ::
  "ext \<Rightarrow> 's storage \<Rightarrow> string \<Rightarrow> u64 \<Rightarrow> ('s, string option) io" where
  "parent_manifest_checksum X S table next_seq =
     (if next_seq \<le> 1 then io_return None
      else
        io_bind (io_try (st_read S (tpath table (manifest_filename (next_seq - 1))))) (\<lambda>direct.
          case (case direct of Inr bs \<Rightarrow> parse_manifest X bs | Inl _ \<Rightarrow> None) of
            Some m \<Rightarrow> io_return (Some (mf_checksum m))
          | None \<Rightarrow>
              io_bind (io_try (st_list S (tpath table ''_manifests''))) (\<lambda>listing.
                case listing of
                  Inl e \<Rightarrow> if is_not_found e then io_return None else io_throw e
                | Inr entries \<Rightarrow>
                    (case best_predecessor next_seq entries of
                       None \<Rightarrow> io_return None
                     | Some pred_seq \<Rightarrow>
                         io_bind (io_try (st_read S (tpath table (manifest_filename pred_seq)))) (\<lambda>pred.
                           case pred of
                             Inr bs \<Rightarrow> io_return (map_option mf_checksum (parse_manifest X bs))
                           | Inl _ \<Rightarrow> io_return None)))))"

definition finalize_manifest ::
  "ext \<Rightarrow> 's storage \<Rightarrow> string \<Rightarrow> string \<Rightarrow> manifest \<Rightarrow> u64 \<Rightarrow> ('s, manifest) io" where
  "finalize_manifest X S table now m next_seq =
     io_bind (parent_manifest_checksum X S table next_seq) (\<lambda>parent.
       io_return (finalize X parent now m))"

lemma finalize_verifies: "verify_checksum X (finalize X parent now m)"
  by (simp add: verify_checksum_def finalize_def compute_checksum_def Let_def)

lemma manifest_filename_plain:
  "plain_piece (pad_zeros 9 (show_nat n) @ ''.json'')"
proof -
  have "CHR ''/'' \<notin> set (pad_zeros 9 (show_nat n))"
    using digits_pad_zeros digit_char_neq(2) by metis
  moreover have "length (pad_zeros 9 (show_nat n) @ ''.json'') > 2" by simp
  ultimately show ?thesis by (auto simp: plain_piece_def simp del: length_append)
qed

lemma manifest_filename_join:
  "manifest_filename q = join_path [''_manifests'', pad_zeros 9 (show_nat (unat q)) @ ''.json'']"
  by (simp add: join_path_def manifest_filename_def)

lemma table_path_join:
  "tpath table (manifest_filename q)
     = join_path [table, ''_manifests'', pad_zeros 9 (show_nat (unat q)) @ ''.json'']"
  by (simp add: manifest_filename_join tpath_join)

lemma plain_manifests [simp]: "plain_piece ''_manifests''"
  by (simp add: plain_piece_def)

lemma validate_manifest_path:
  "plain_piece table \<Longrightarrow>
   validate_path (tpath table (manifest_filename q)) = Inr (tpath table (manifest_filename q))"
  unfolding manifest_filename_join by (rule validate_tpath) (simp_all add: manifest_filename_plain)

lemma validate_manifests_dir:
  "plain_piece table \<Longrightarrow> validate_path (tpath table ''_manifests'') = Inr (tpath table ''_manifests'')"
  using validate_tpath [of table "[''_manifests'']"] by simp

text \<open>The name of a manifest file gives back its sequence number.\<close>

lemma entry_seq_filename:
  "plain_piece table \<Longrightarrow> entry_seq (tpath table (manifest_filename q)) = Some q"
  unfolding table_path_join entry_seq_def
  by (simp add: manifest_filename_plain)

lemma child_manifest:
  "child_of ((tpath table ''_manifests'') @ ''/'') (tpath table (manifest_filename q))
     = Some (tpath table (manifest_filename q))"
proof -
  have "CHR ''/'' \<notin> set (pad_zeros 9 (show_nat (unat q)) @ ''.json'')"
    using manifest_filename_plain [of "unat q"] by (simp add: plain_piece_def)
  then have "hd (split_on (CHR ''/'') (pad_zeros 9 (show_nat (unat q)) @ ''.json''))
      = pad_zeros 9 (show_nat (unat q)) @ ''.json''"
    using split_on_none by (metis list.sel(1))
  moreover have "tpath table (manifest_filename q)
      = ((tpath table ''_manifests'') @ ''/'') @ (pad_zeros 9 (show_nat (unat q)) @ ''.json'')"
    by (simp add: manifest_filename_def tpath_def)
  ultimately show ?thesis
    unfolding child_of_def by (simp only: strip_prefix_append option.map)
qed

lemma best_predecessor_snoc:
  "best_predecessor n (es @ [e]) =
     (case entry_seq e of
        None \<Rightarrow> best_predecessor n es
      | Some q \<Rightarrow> if q < n \<and> (case best_predecessor n es of None \<Rightarrow> True | Some b \<Rightarrow> q > b)
                  then Some q else best_predecessor n es)"
  unfolding best_predecessor_def by simp

lemma best_predecessor_inv:
  "case best_predecessor n es of
     None \<Rightarrow> \<forall>e \<in> set es. \<forall>q. entry_seq e = Some q \<longrightarrow> \<not> q < n
   | Some b \<Rightarrow> b < n \<and> (\<exists>e \<in> set es. entry_seq e = Some b)
       \<and> (\<forall>e \<in> set es. \<forall>q. entry_seq e = Some q \<longrightarrow> q < n \<longrightarrow> q \<le> b)"
proof (induction es rule: rev_induct)
  case (snoc e es)
  then show ?case
    by (cases "best_predecessor n es"; cases "entry_seq e")
      (force simp: best_predecessor_snoc split: if_splits)+
qed (simp add: best_predecessor_def)

lemma best_predecessor_max:
  assumes "e \<in> set es" "entry_seq e = Some q" "q < n"
    and "\<And>e' r. e' \<in> set es \<Longrightarrow> entry_seq e' = Some r \<Longrightarrow> r < n \<Longrightarrow> r \<le> q"
  shows "best_predecessor n es = Some q"
  using best_predecessor_inv [where n = n and es = es] assms
  by (auto split: option.splits intro: antisym)

section \<open>The chain links to the highest predecessor\<close>

text \<open>\<open>q\<close> is the highest sequence below \<open>n\<close> among the files of the manifest directory.\<close>

definition latest_below :: "string \<Rightarrow> string set \<Rightarrow> u64 \<Rightarrow> u64 \<Rightarrow> bool" where
  "latest_below table keys n q \<longleftrightarrow>
     q < n \<and> tpath table (manifest_filename q) \<in> keys
     \<and> (\<forall>c \<in> dir_children (tpath table ''_manifests'') keys. \<forall>r. entry_seq c = Some r \<longrightarrow> r < n \<longrightarrow> r \<le> q)"

lemma manifest_is_child:
  "tpath table (manifest_filename q) \<in> keys \<Longrightarrow>
   tpath table (manifest_filename q) \<in> dir_children (tpath table ''_manifests'') keys"
  unfolding dir_children_def using child_manifest by blast

context storage_contract
begin

lemma parent_checksum_links:
  assumes t: "plain_piece table" and n: "1 < n" and l: "latest_below table (dom (view s)) n q"
    and m: "view s (tpath table (manifest_filename q)) = Some bs" "parse_manifest X bs = Some m"
  shows "parent_manifest_checksum X S table n s = (Inr (Some (mf_checksum m)), s)"
proof (cases "q = n - 1")
  case True
  then show ?thesis
    using m n by (simp add: parent_manifest_checksum_def io_simps read_law [OF validate_manifest_path [OF t]])
next
  case False
  have le: "r \<le> n - 1 \<longleftrightarrow> r < n" for r
    by (rule word_le_pred_iff) (use n in \<open>simp add: order_less_trans [of 0 1]\<close>)
  have "view s (tpath table (manifest_filename (n - 1))) = None"
  proof (rule ccontr)
    assume "view s (tpath table (manifest_filename (n - 1))) \<noteq> None"
    then have "tpath table (manifest_filename (n - 1)) \<in> dom (view s)" by blast
    from manifest_is_child [OF this] have "n - 1 \<le> q"
      using l entry_seq_filename [OF t] le [of "n - 1"] unfolding latest_below_def by blast
    moreover have "q \<le> n - 1" using l le unfolding latest_below_def by blast
    ultimately show False using False by simp
  qed
  moreover have child: "tpath table (manifest_filename q)
      \<in> dir_children (tpath table ''_manifests'') (dom (view s))"
    using l unfolding latest_below_def by (blast intro: manifest_is_child)
  moreover have "best_predecessor n
      (sorted_list_of_set (dir_children (tpath table ''_manifests'') (dom (view s)))) = Some q"
    using l child entry_seq_filename [OF t, of q] unfolding latest_below_def
    by (intro best_predecessor_max [of "tpath table (manifest_filename q)"]) auto
  ultimately show ?thesis
    using m n list_law [OF validate_manifests_dir [OF t] refl, of s]
    by (auto simp: parent_manifest_checksum_def io_simps read_law [OF validate_manifest_path [OF t]])
qed

end

end
