(* ===== verification/Row_Group_Meta.thy ===== *)
theory Row_Group_Meta
  imports Manifest
begin

text \<open>
  Row-group metadata files: \<^verbatim>\<open>crates/icefalldb-core/src/metadata/row_group_meta.rs\<close>, with the
  serialized form of \<^verbatim>\<open>RowIdSegment\<close> (\<^verbatim>\<open>rowid.rs\<close>), the checksum of the data file and the
  metadata's checksum of itself.
\<close>

section \<open>Structs and serialized form\<close>

record column_stats =
  cs_min :: "json option"
  cs_max :: "json option"
  cs_nulls :: u64

record column_chunk_offset =
  cc_offset :: u64
  cc_length :: u64

record row_group_meta =
  rm_row_group :: string
  rm_schema_id :: u64
  rm_rows :: u64
  rm_columns :: "(string \<times> column_stats) list"
  rm_column_offsets :: "(string \<times> column_chunk_offset) list option"
  rm_sort :: "string list option"
  rm_row_ids :: "row_id_segment list"
  rm_checksum :: string
  rm_meta_checksum :: string

abbreviation jnum :: "u64 \<Rightarrow> json" where
  "jnum n \<equiv> JNum (PosInt n)"

fun row_id_segment_value :: "row_id_segment \<Rightarrow> json" where
  "row_id_segment_value (Range start cnt) = jobj
     [(''kind'', Some (JStr ''range'')), (''start'', Some (jnum start)), (''count'', Some (jnum cnt))]"
| "row_id_segment_value (Sorted ids) = jobj
     [(''kind'', Some (JStr ''sorted'')), (''ids'', Some (JArr (map jnum ids)))]"

definition de_row_id_segment :: "json \<Rightarrow> row_id_segment option" where
  "de_row_id_segment v =
     Option.bind (de_req ''kind'' de_str v) (\<lambda>kind.
       if kind = ''range'' then
         Option.bind (de_req ''start'' de_u64 v) (\<lambda>start.
         Option.bind (de_req ''count'' de_u64 v) (\<lambda>cnt. Some (Range start cnt)))
       else if kind = ''sorted'' then map_option Sorted (de_req ''ids'' (de_vec de_u64) v)
       else None)"

definition column_stats_value :: "column_stats \<Rightarrow> json" where
  "column_stats_value c = jobj
     [(''min'', cs_min c), (''max'', cs_max c), (''nulls'', Some (jnum (cs_nulls c)))]"

definition de_column_stats :: "json \<Rightarrow> column_stats option" where
  "de_column_stats v =
     Option.bind (de_default ''min'' None (de_option Some) v) (\<lambda>mn.
     Option.bind (de_default ''max'' None (de_option Some) v) (\<lambda>mx.
     Option.bind (de_req ''nulls'' de_u64 v) (\<lambda>nulls.
     Some \<lparr>cs_min = mn, cs_max = mx, cs_nulls = nulls\<rparr>)))"

definition column_chunk_offset_value :: "column_chunk_offset \<Rightarrow> json" where
  "column_chunk_offset_value c = jobj
     [(''offset'', Some (jnum (cc_offset c))), (''length'', Some (jnum (cc_length c)))]"

definition de_column_chunk_offset :: "json \<Rightarrow> column_chunk_offset option" where
  "de_column_chunk_offset v =
     Option.bind (de_req ''offset'' de_u64 v) (\<lambda>off.
     Option.bind (de_req ''length'' de_u64 v) (\<lambda>n. Some \<lparr>cc_offset = off, cc_length = n\<rparr>))"

definition row_group_meta_value :: "row_group_meta \<Rightarrow> json" where
  "row_group_meta_value m = jobj
     [(''row_group'', Some (JStr (rm_row_group m))),
      (''schema_id'', Some (jnum (rm_schema_id m))),
      (''rows'', Some (jnum (rm_rows m))),
      (''columns'', Some (jhashmap column_stats_value (rm_columns m))),
      (''column_offsets'', map_option (jhashmap column_chunk_offset_value) (rm_column_offsets m)),
      (''sort'', map_option jstrs (rm_sort m)),
      (''row_ids'', skip_empty (\<lambda>ss. JArr (map row_id_segment_value ss)) (rm_row_ids m)),
      (''checksum'', Some (JStr (rm_checksum m))),
      (''meta_checksum'', Some (JStr (rm_meta_checksum m)))]"

definition de_row_group_meta :: "json \<Rightarrow> row_group_meta option" where
  "de_row_group_meta v =
     Option.bind (de_req ''row_group'' de_str v) (\<lambda>row_group.
     Option.bind (de_req ''schema_id'' de_u64 v) (\<lambda>schema_id.
     Option.bind (de_req ''rows'' de_u64 v) (\<lambda>rows.
     Option.bind (de_req ''columns'' (de_map de_column_stats) v) (\<lambda>columns.
     Option.bind (de_default ''column_offsets'' None (de_option (de_map de_column_chunk_offset)) v) (\<lambda>offs.
     Option.bind (de_default ''sort'' None (de_option (de_vec de_str)) v) (\<lambda>srt.
     Option.bind (de_default ''row_ids'' [] (de_vec de_row_id_segment) v) (\<lambda>row_ids.
     Option.bind (de_req ''checksum'' de_str v) (\<lambda>checksum.
     Option.bind (de_req ''meta_checksum'' de_str v) (\<lambda>meta_checksum.
     Some \<lparr>rm_row_group = row_group, rm_schema_id = schema_id, rm_rows = rows, rm_columns = columns,
           rm_column_offsets = offs, rm_sort = srt, rm_row_ids = row_ids, rm_checksum = checksum,
           rm_meta_checksum = meta_checksum\<rparr>)))))))))"

definition parse_row_group_meta :: "ext \<Rightarrow> bytes \<Rightarrow> row_group_meta option" where
  "parse_row_group_meta X bs = Option.bind (json_parse X bs) de_row_group_meta"

section \<open>Checksums\<close>

definition compute_meta_checksum :: "ext \<Rightarrow> row_group_meta \<Rightarrow> string \<times> row_group_meta" where
  "compute_meta_checksum X m =
     (let saved = rm_checksum m;
          cleared = m\<lparr>rm_checksum := [], rm_meta_checksum := []\<rparr>;
          cs = checksum_json X (to_value (row_group_meta_value cleared))
      in (cs, cleared\<lparr>rm_meta_checksum := cs, rm_checksum := saved\<rparr>))"

definition rgm_compute_checksum :: "ext \<Rightarrow> bytes \<Rightarrow> row_group_meta \<Rightarrow> string \<times> row_group_meta" where
  "rgm_compute_checksum X parquet_bytes m =
     (let cs = checksum_bytes X parquet_bytes
      in (cs, snd (compute_meta_checksum X (m\<lparr>rm_checksum := cs\<rparr>))))"

definition verify_against_data :: "ext \<Rightarrow> bytes \<Rightarrow> row_group_meta \<Rightarrow> bool" where
  "verify_against_data X parquet_bytes m \<longleftrightarrow> checksum_bytes X parquet_bytes = rm_checksum m"

definition verify_meta_checksum :: "ext \<Rightarrow> row_group_meta \<Rightarrow> bool" where
  "verify_meta_checksum X m \<longleftrightarrow>
     rm_meta_checksum m \<noteq> [] \<and>
     checksum_json X (to_value (row_group_meta_value (m\<lparr>rm_checksum := [], rm_meta_checksum := []\<rparr>)))
       = rm_meta_checksum m"

lemma rgm_checksum_verifies:
  assumes "rgm_compute_checksum X bs m = (cs, m')"
  shows "verify_against_data X bs m'" "verify_meta_checksum X m'"
    "rm_row_ids m' = rm_row_ids m" "rm_columns m' = rm_columns m"
  using assms
  by (auto simp: rgm_compute_checksum_def compute_meta_checksum_def verify_against_data_def
      verify_meta_checksum_def checksum_json_def checksum_bytes_def Let_def)

section \<open>Reading back\<close>

lemma row_id_segment_roundtrip: "de_row_id_segment (row_id_segment_value seg) = Some seg"
  by (cases seg) (simp_all add: de_row_id_segment_def de_req_eq de_vec_map)

definition stats_wf :: "column_stats \<Rightarrow> bool" where
  "stats_wf c \<longleftrightarrow> cs_min c \<noteq> Some JNull \<and> cs_max c \<noteq> Some JNull"

lemma de_opt_value: "de_default k None (de_option Some) v = Some x"
  if "jfield k v = x" "x \<noteq> Some JNull"
  using that by (cases x) (simp_all add: de_default_def de_option_def)

lemma column_stats_roundtrip:
  "stats_wf c \<Longrightarrow> de_column_stats (column_stats_value c) = Some c"
  by (simp add: de_column_stats_def column_stats_value_def de_opt_value stats_wf_def de_req_eq bind_eq_Some_conv)

lemma column_chunk_offset_roundtrip:
  "de_column_chunk_offset (column_chunk_offset_value c) = Some c"
  by (simp add: de_column_chunk_offset_def column_chunk_offset_value_def de_req_eq)

text \<open>No explicit null among the statistics: it would read back as an absent bound.\<close>

definition rgm_wf :: "row_group_meta \<Rightarrow> bool" where
  "rgm_wf m \<longleftrightarrow> (\<forall>(k, c) \<in> set (rm_columns m). stats_wf c)"

lemma rgm_fields:
  "jfield ''row_group'' (row_group_meta_value m) = Some (JStr (rm_row_group m))"
  "jfield ''schema_id'' (row_group_meta_value m) = Some (jnum (rm_schema_id m))"
  "jfield ''rows'' (row_group_meta_value m) = Some (jnum (rm_rows m))"
  "jfield ''columns'' (row_group_meta_value m) = Some (jhashmap column_stats_value (rm_columns m))"
  "jfield ''column_offsets'' (row_group_meta_value m)
     = map_option (jhashmap column_chunk_offset_value) (rm_column_offsets m)"
  "jfield ''sort'' (row_group_meta_value m) = map_option jstrs (rm_sort m)"
  "jfield ''row_ids'' (row_group_meta_value m)
     = skip_empty (\<lambda>ss. JArr (map row_id_segment_value ss)) (rm_row_ids m)"
  "jfield ''checksum'' (row_group_meta_value m) = Some (JStr (rm_checksum m))"
  "jfield ''meta_checksum'' (row_group_meta_value m) = Some (JStr (rm_meta_checksum m))"
  by (simp_all add: row_group_meta_value_def)

lemma rgm_roundtrip:
  assumes "rgm_wf m"
  shows "de_row_group_meta (row_group_meta_value m) = Some m"
proof -
  have "de_map de_column_stats (jhashmap column_stats_value (rm_columns m)) = Some (rm_columns m)"
    using assms by (intro de_map_jhashmap) (auto simp: rgm_wf_def column_stats_roundtrip)
  moreover have "de_default ''column_offsets'' None (de_option (de_map de_column_chunk_offset))
      (row_group_meta_value m) = Some (rm_column_offsets m)"
    by (intro de_opt [OF rgm_fields(5)])
      (simp add: de_map_jhashmap column_chunk_offset_roundtrip, simp add: jhashmap_def)
  moreover have "de_default ''sort'' None (de_option (de_vec de_str)) (row_group_meta_value m)
      = Some (rm_sort m)"
    by (rule de_opt [OF rgm_fields(6)]) (simp add: de_vec_map)
  moreover have "de_default ''row_ids'' [] (de_vec de_row_id_segment) (row_group_meta_value m)
      = Some (rm_row_ids m)"
    by (cases "rm_row_ids m = []")
      (simp_all add: de_default_def rgm_fields skip_empty_def de_vec_map row_id_segment_roundtrip)
  ultimately show ?thesis
    by (simp add: de_row_group_meta_def rgm_fields de_req_eq)
qed

end
