(* ===== verification/Row_Index_Store.thy ===== *)
theory Row_Index_Store
  imports Row_Map Row_Group_Meta
begin

text \<open>
  The operations of the row index that go through a storage: \<^verbatim>\<open>derive_base\<close>, \<^verbatim>\<open>rebuild\<close> and
  \<^verbatim>\<open>verify\<close> of \<^verbatim>\<open>rowindex/writer.rs\<close>, \<^verbatim>\<open>AddressMap::open\<close> and \<^verbatim>\<open>RangedBase::lookup\<close> of
  \<^verbatim>\<open>rowindex/reader.rs\<close>. They are shown correct for every storage that meets
  \<open>storage_contract\<close>.
\<close>

section \<open>Operations\<close>

definition fragment_live ::
  "ext \<Rightarrow> 'bm roaring \<Rightarrow> 's storage \<Rightarrow> string \<Rightarrow> (u64 \<times> u64 \<times> u32) list \<Rightarrow> row_group_entry \<Rightarrow>
   ('s, (u64 \<times> u64 \<times> u32) list) io" where
  "fragment_live X R S table live entry =
     io_bind (st_read S (tpath table (rg_meta entry))) (\<lambda>meta_bytes.
     io_bind (io_lift (ok_or (parse_row_group_meta X meta_bytes) Serialization)) (\<lambda>meta.
     io_bind (case rg_deletes entry of
                Some del_path \<Rightarrow>
                  io_bind (st_read S (tpath table del_path)) (\<lambda>del_bytes.
                  io_bind (io_lift (dv_deserialize R del_bytes)) (\<lambda>dv. io_return (Some dv)))
              | None \<Rightarrow> io_return None) (\<lambda>dv.
     io_return (live @ live_rows (\<lambda>off. case dv of None \<Rightarrow> False | Some d \<Rightarrow> dv_contains R d off)
                         (rg_fragment_id entry) 0 (flat_ids (rm_row_ids meta))))))"

definition derive_base ::
  "ext \<Rightarrow> 'bm roaring \<Rightarrow> 's storage \<Rightarrow> string \<Rightarrow> manifest \<Rightarrow> ('s, addr_segment list) io" where
  "derive_base X R S table m =
     io_bind (io_foldM (fragment_live X R S table) [] (mf_row_groups m)) (\<lambda>live.
       io_lift (derive_segments live))"

definition base_rel_path :: "u64 \<Rightarrow> string" where
  "base_rel_path seq = ''_rowindex/base__v'' @ pad_zeros 9 (show_nat (unat seq)) @ ''.idx''"

definition rebuild ::
  "ext \<Rightarrow> 'bm roaring \<Rightarrow> 's storage \<Rightarrow> string \<Rightarrow> manifest \<Rightarrow> ('s, row_index_ref) io" where
  "rebuild X R S table m =
     io_bind (derive_base X R S table m) (\<lambda>segments.
     io_then (st_write S (tpath table (base_rel_path (mf_sequence m))) (encode_idx segments))
       (io_return \<lparr>ri_base = Some (base_rel_path (mf_sequence m)), ri_deltas = []\<rparr>))"

definition read_idx :: "'s storage \<Rightarrow> string \<Rightarrow> string \<Rightarrow> ('s, addr_segment list) io" where
  "read_idx S table rel = io_bind (st_read S (tpath table rel)) (\<lambda>buf. io_lift (decode_idx buf))"

definition am_open :: "'s storage \<Rightarrow> string \<Rightarrow> row_index_ref \<Rightarrow> ('s, address_map) io" where
  "am_open S table gen =
     io_bind (case ri_base gen of Some rel \<Rightarrow> read_idx S table rel | None \<Rightarrow> io_return []) (\<lambda>base.
     io_bind (io_foldM (\<lambda>ds rel. io_bind (read_idx S table rel) (\<lambda>d. io_return (ds @ [d])))
                [] (ri_deltas gen)) (\<lambda>deltas.
     io_return \<lparr>am_base = base, am_deltas = deltas\<rparr>))"

definition ranged_lookup :: "'s storage \<Rightarrow> string \<Rightarrow> u64 \<Rightarrow> ('s, (u64 \<times> u32) option) io" where
  "ranged_lookup S path row_id =
     io_bind (st_read S path) (\<lambda>buf.
     io_bind (io_lift (decode_idx buf)) (\<lambda>segs. io_return (lookup_in_base segs row_id)))"

definition verify ::
  "ext \<Rightarrow> 'bm roaring \<Rightarrow> 's storage \<Rightarrow> string \<Rightarrow> manifest \<Rightarrow> ('s, unit) io" where
  "verify X R S table m =
     io_bind (derive_base X R S table m) (\<lambda>fresh.
       case mf_rowindex_generation m of
         None \<Rightarrow>
           if fresh = [] then io_return ()
           else io_throw (Other ''verify: manifest has no rowindex_generation but the table has live rows'')
       | Some gen \<Rightarrow>
           io_bind (am_open S table gen) (\<lambda>am. io_lift (verify_rows (am_lookup am) fresh)))"

section \<open>What they compute\<close>

text \<open>Reading, and the live rows of a manifest, as functions of the store's contents.\<close>

definition vread :: "(string \<Rightarrow> bytes option) \<Rightarrow> string \<Rightarrow> bytes result" where
  "vread v raw = res_bind (validate_path raw) (\<lambda>p. ok_or (v p) (NotFound p))"

definition fragment_dv :: "'bm roaring \<Rightarrow> (string \<Rightarrow> bytes option) \<Rightarrow> string \<Rightarrow> row_group_entry \<Rightarrow> 'bm option result" where
  "fragment_dv R v table entry =
     (case rg_deletes entry of
        Some d \<Rightarrow> res_bind (vread v (tpath table d)) (\<lambda>bs. res_bind (dv_deserialize R bs) (\<lambda>dv. Inr (Some dv)))
      | None \<Rightarrow> Inr None)"

definition fragment_rows ::
  "ext \<Rightarrow> 'bm roaring \<Rightarrow> (string \<Rightarrow> bytes option) \<Rightarrow> string \<Rightarrow> row_group_entry \<Rightarrow> (u64 \<times> u64 \<times> u32) list result" where
  "fragment_rows X R v table entry =
     res_bind (vread v (tpath table (rg_meta entry))) (\<lambda>mb.
     res_bind (ok_or (parse_row_group_meta X mb) Serialization) (\<lambda>meta.
     res_bind (fragment_dv R v table entry) (\<lambda>dv.
     Inr (live_rows (\<lambda>off. case dv of None \<Rightarrow> False | Some d \<Rightarrow> dv_contains R d off)
            (rg_fragment_id entry) 0 (flat_ids (rm_row_ids meta))))))"

fun manifest_rows ::
  "ext \<Rightarrow> 'bm roaring \<Rightarrow> (string \<Rightarrow> bytes option) \<Rightarrow> string \<Rightarrow> row_group_entry list \<Rightarrow> (u64 \<times> u64 \<times> u32) list result" where
  "manifest_rows X R v table [] = Inr []"
| "manifest_rows X R v table (e # es) =
     res_bind (fragment_rows X R v table e) (\<lambda>rows.
     res_bind (manifest_rows X R v table es) (\<lambda>rest. Inr (rows @ rest)))"

text \<open>The files a manifest's live rows are read from.\<close>

definition live_files :: "string \<Rightarrow> manifest \<Rightarrow> string set" where
  "live_files table m =
     (\<Union>e \<in> set (mf_row_groups m). insert (tpath table (rg_meta e))
        (case rg_deletes e of None \<Rightarrow> {} | Some d \<Rightarrow> {tpath table d}))"

lemma vread_cong:
  "(\<And>p. validate_path raw = Inr p \<Longrightarrow> v p = v' p) \<Longrightarrow> vread v raw = vread v' raw"
  by (cases "validate_path raw") (simp_all add: vread_def)

lemma fragment_rows_cong:
  assumes "vread v (tpath table (rg_meta e)) = vread v' (tpath table (rg_meta e))"
    "\<And>d. rg_deletes e = Some d \<Longrightarrow> vread v (tpath table d) = vread v' (tpath table d)"
  shows "fragment_rows X R v table e = fragment_rows X R v' table e"
  using assms by (auto simp: fragment_rows_def fragment_dv_def split: option.splits)

lemma manifest_rows_cong:
  assumes "\<And>raw. raw \<in> live_files table m \<Longrightarrow> vread v raw = vread v' raw"
  shows "manifest_rows X R v table (mf_row_groups m) = manifest_rows X R v' table (mf_row_groups m)"
proof -
  have "manifest_rows X R v table es = manifest_rows X R v' table es"
    if "set es \<subseteq> set (mf_row_groups m)" for es
    using that
  proof (induction es)
    case (Cons e es)
    then have "fragment_rows X R v table e = fragment_rows X R v' table e"
      by (intro fragment_rows_cong assms) (force simp: live_files_def split: option.splits)+
    with Cons show ?case by simp
  qed simp
  then show ?thesis by simp
qed

lemma segs_wf_sorted: "segs_wf segs \<Longrightarrow> sorted (map start_row_id segs)"
proof -
  assume "segs_wf segs"
  then have "sorted_wrt (\<lambda>a b. unat (start_row_id a) + unat (seg_len a) \<le> unat (start_row_id b)) segs"
    by (simp add: segs_wf_def)
  then have "sorted_wrt (\<lambda>a b. start_row_id a \<le> start_row_id b) segs"
    by (rule sorted_wrt_mono_rel [rotated]) (simp add: word_le_nat_alt)
  then show ?thesis by (simp add: sorted_wrt_map)
qed

context storage_contract
begin

lemma st_read_vread: "st_read S raw s = (vread (view s) raw, s)"
  by (cases "validate_path raw") (simp_all add: vread_def invalid_read read_law)

lemma fragment_live_run:
  "fragment_live X R S table live e s
     = (res_bind (fragment_rows X R (view s) table e) (\<lambda>rows. Inr (live @ rows)), s)"
  by (auto simp: fragment_live_def fragment_rows_def fragment_dv_def io_bind_run st_read_vread
      res_bind_def split: sum.splits option.splits)

lemma fold_fragments_run:
  "io_foldM (fragment_live X R S table) live es s
     = (res_bind (manifest_rows X R (view s) table es) (\<lambda>rows. Inr (live @ rows)), s)"
proof (induction es arbitrary: live)
  case (Cons e es)
  then show ?case
    by (auto simp: io_bind_run fragment_live_run res_bind_def split: sum.splits)
qed simp

lemma derive_base_run:
  "derive_base X R S table m s
     = (res_bind (manifest_rows X R (view s) table (mf_row_groups m)) derive_segments, s)"
  by (auto simp: derive_base_def io_bind_run fold_fragments_run res_bind_def split: sum.splits)

lemma ranged_lookup_run:
  assumes "validate_path raw = Inr p" "view s p = Some (encode_idx segs)"
    "segs_wf segs" "length segs < 2 ^ 56"
  shows "ranged_lookup S raw r s = (Inr (segs_denote segs r), s)"
proof -
  have "sort_key start_row_id segs = segs"
    using assms(3) by (intro sort_key_sorted segs_wf_sorted)
  then show ?thesis
    using assms read_law [OF assms(1), of s] base.look_denotes
    by (simp add: ranged_lookup_def io_simps decode_encode_idx)
qed

lemma am_open_base:
  assumes "validate_path (tpath table rel) = Inr (tpath table rel)"
    "view s (tpath table rel) = Some (encode_idx segs)" "segs_wf segs" "length segs < 2 ^ 56"
  shows "am_open S table \<lparr>ri_base = Some rel, ri_deltas = []\<rparr> s
    = (Inr \<lparr>am_base = segs, am_deltas = []\<rparr>, s)"
proof -
  have "sort_key start_row_id segs = segs"
    using assms(3) by (intro sort_key_sorted segs_wf_sorted)
  then show ?thesis
    using assms(2,4) by (simp add: am_open_def read_idx_def io_bind_run read_law [OF assms(1)] decode_encode_idx)
qed

text \<open>\<open>verify\<close> accepts exactly the generations that resolve every live row.\<close>

lemma verify_run:
  assumes "derive_base X R S table m s = (Inr fresh, s)" "segs_wf fresh"
    "mf_rowindex_generation m = Some gen" "am_open S table gen s = (Inr am, s)" "am_wf am"
  shows "verify X R S table m s = (Inr (), s) \<longleftrightarrow> (\<forall>(r, a) \<in> seg_set fresh. am_lookup am r = Some a)"
proof -
  have "verify X R S table m s = (verify_rows (am_lookup am) fresh, s)"
    using assms(1,3,4) by (simp add: verify_def io_bind_run)
  then show ?thesis
    using layered.verify_rows_ok [OF assms(5), of fresh] layered.look_denotes [OF assms(5)]
    unfolding seg_set_rows [OF assms(2), symmetric] by simp
qed

lemma rebuild_then_verify:
  assumes rows: "manifest_rows X R (view s) table (mf_row_groups m) = Inr live"
    and ids: "distinct (map fst live)" "\<forall>x \<in> set live. fst x \<noteq> - 1" "length live < 2 ^ 32"
    and valid: "validate_path (tpath table (base_rel_path (mf_sequence m)))
        = Inr (tpath table (base_rel_path (mf_sequence m)))"
    and fresh: "\<forall>raw \<in> live_files table m. validate_path raw \<noteq> Inr (tpath table (base_rel_path (mf_sequence m)))"
  shows "\<exists>gen s' am. rebuild X R S table m s = (Inr gen, s')
    \<and> verify X R S table (m\<lparr>mf_rowindex_generation := Some gen\<rparr>) s' = (Inr (), s')
    \<and> am_open S table gen s' = (Inr am, s')
    \<and> (\<forall>r a. am_lookup am r = Some a \<longleftrightarrow> (r, a) \<in> set live)"
proof -
  let ?p = "tpath table (base_rel_path (mf_sequence m))"
  let ?gen = "\<lparr>ri_base = Some (base_rel_path (mf_sequence m)), ri_deltas = []\<rparr>"
  obtain segs where segs: "derive_segments live = Inr segs" "segs_wf segs" "seg_set segs = set live"
    "length segs \<le> length live" using derive_segments_ok [OF ids] by blast
  obtain s' where s': "st_write S ?p (encode_idx segs) s = (Inr (), s')"
    "view s' = (view s)(?p \<mapsto> encode_idx segs)" using write_law [OF valid] by blast
  have "manifest_rows X R (view s') table (mf_row_groups m) = Inr live"
    unfolding rows [symmetric] using fresh s'(2)
    by (intro manifest_rows_cong vread_cong) auto
  then have d': "derive_base X R S table (m\<lparr>mf_rowindex_generation := Some ?gen\<rparr>) s' = (Inr segs, s')"
    using segs(1) by (simp add: derive_base_run)
  have am: "am_open S table ?gen s' = (Inr \<lparr>am_base = segs, am_deltas = []\<rparr>, s')"
    using valid segs(2,4) ids(3) s'(2) by (intro am_open_base) auto
  have wf: "am_wf \<lparr>am_base = segs, am_deltas = []\<rparr>" using segs(2) by (simp add: am_wf_def)
  have look: "am_lookup \<lparr>am_base = segs, am_deltas = []\<rparr> r = Some a \<longleftrightarrow> (r, a) \<in> set live" for r a
    using seg_set_denote [OF segs(2)] segs(3) layered.look_denotes [OF wf, of r]
    by (simp add: am_denote_def)
  have "verify X R S table (m\<lparr>mf_rowindex_generation := Some ?gen\<rparr>) s' = (Inr (), s')"
    using verify_run [OF d' segs(2) _ am wf] look segs(3) by auto
  moreover have "rebuild X R S table m s = (Inr ?gen, s')"
    using s'(1) rows segs(1) by (simp add: rebuild_def io_simps derive_base_run)
  ultimately show ?thesis using am look by blast
qed

end

lemma base_rel_path_join:
  "base_rel_path q = join_path [''_rowindex'', ''base__v'' @ pad_zeros 9 (show_nat (unat q)) @ ''.idx'']"
  by (simp add: base_rel_path_def join_path_def)

lemma validate_base_path:
  assumes "plain_piece table"
  shows "validate_path (tpath table (base_rel_path q)) = Inr (tpath table (base_rel_path q))"
proof -
  have "CHR ''/'' \<notin> set (pad_zeros 9 (show_nat (unat q)))"
    using digits_pad_zeros digit_char_neq(2) by metis
  then show ?thesis
    unfolding base_rel_path_join using assms by (intro validate_tpath) (auto simp: plain_piece_def)
qed

end
