(* ===== verification/Json_Codec.thy ===== *)
theory Json_Codec
  imports Json
begin

text \<open>
  A small executable text format that satisfies \<open>json_law\<close>, so that the laws assumed of the
  third-party serializer are known to be satisfiable and the properties that assume them can be
  applied to concrete inputs. It is not a model of \<^verbatim>\<open>serde_json\<close>'s output: a tag byte below 10,
  payloads as nibbles in 16..31, and a zero byte at the end of strings, arrays and objects.
\<close>

section \<open>Printing\<close>

fun nibbles :: "nat \<Rightarrow> nat \<Rightarrow> bytes" where
  "nibbles 0 n = []"
| "nibbles (Suc k) n = of_nat (16 + n mod 16) # nibbles k (n div 16)"

definition print_str :: "string \<Rightarrow> bytes" where
  "print_str s = concat (map (\<lambda>c. nibbles 2 (of_char c)) s) @ [0]"

fun print_num :: "jnumber \<Rightarrow> bytes" where
  "print_num (PosInt n) = 4 # nibbles 16 (unat n)"
| "print_num (NegInt n) = 5 # nibbles 16 (unat n)"
| "print_num (Float n) = 6 # nibbles 16 (unat n)"

fun print_json :: "json \<Rightarrow> bytes" where
  "print_json JNull = [1]"
| "print_json (JBool b) = [if b then 3 else 2]"
| "print_json (JNum n) = print_num n"
| "print_json (JStr s) = 7 # print_str s"
| "print_json (JArr xs) = 8 # concat (map print_json xs) @ [0]"
| "print_json (JObj es) = 9 # concat (map (\<lambda>(k, v). 1 # print_str k @ print_json v) es) @ [0]"

section \<open>Parsing\<close>

fun read_nibbles :: "nat \<Rightarrow> bytes \<Rightarrow> (nat \<times> bytes) option" where
  "read_nibbles 0 bs = Some (0, bs)"
| "read_nibbles (Suc k) [] = None"
| "read_nibbles (Suc k) (b # bs) =
     (case read_nibbles k bs of None \<Rightarrow> None | Some (n, r) \<Rightarrow> Some (unat b - 16 + 16 * n, r))"

fun read_str :: "nat \<Rightarrow> bytes \<Rightarrow> (string \<times> bytes) option" where
  "read_str 0 bs = None"
| "read_str (Suc f) [] = None"
| "read_str (Suc f) (b # bs) =
     (if b = 0 then Some ([], bs)
      else (case read_nibbles 2 (b # bs) of
              None \<Rightarrow> None
            | Some (n, r) \<Rightarrow>
                (case read_str f r of None \<Rightarrow> None | Some (s, r') \<Rightarrow> Some (char_of n # s, r'))))"

fun read_json :: "nat \<Rightarrow> bytes \<Rightarrow> (json \<times> bytes) option"
  and read_arr :: "nat \<Rightarrow> bytes \<Rightarrow> (json list \<times> bytes) option"
  and read_obj :: "nat \<Rightarrow> bytes \<Rightarrow> ((string \<times> json) list \<times> bytes) option" where
  "read_json 0 bs = None"
| "read_json (Suc f) [] = None"
| "read_json (Suc f) (t # bs) =
     (if t = 1 then Some (JNull, bs)
      else if t = 2 then Some (JBool False, bs)
      else if t = 3 then Some (JBool True, bs)
      else if t = 4 then map_option (\<lambda>(n, r). (JNum (PosInt (of_nat n)), r)) (read_nibbles 16 bs)
      else if t = 5 then map_option (\<lambda>(n, r). (JNum (NegInt (of_nat n)), r)) (read_nibbles 16 bs)
      else if t = 6 then map_option (\<lambda>(n, r). (JNum (Float (of_nat n)), r)) (read_nibbles 16 bs)
      else if t = 7 then map_option (\<lambda>(s, r). (JStr s, r)) (read_str f bs)
      else if t = 8 then map_option (\<lambda>(xs, r). (JArr xs, r)) (read_arr f bs)
      else if t = 9 then map_option (\<lambda>(es, r). (JObj es, r)) (read_obj f bs)
      else None)"
| "read_arr 0 bs = None"
| "read_arr (Suc f) bs =
     (if bs = [] then None
      else if hd bs = 0 then Some ([], tl bs)
      else (case read_json f bs of
              None \<Rightarrow> None
            | Some (x, r) \<Rightarrow> map_option (\<lambda>(xs, r'). (x # xs, r')) (read_arr f r)))"
| "read_obj 0 bs = None"
| "read_obj (Suc f) bs =
     (if bs = [] then None
      else if hd bs = 0 then Some ([], tl bs)
      else (case read_str f (tl bs) of
              None \<Rightarrow> None
            | Some (k, r) \<Rightarrow>
                (case read_json f r of
                   None \<Rightarrow> None
                 | Some (v, r') \<Rightarrow> map_option (\<lambda>(es, r''). ((k, v) # es, r'')) (read_obj f r'))))"

definition parse_json :: "bytes \<Rightarrow> json option" where
  "parse_json bs =
     (case read_json (length bs) bs of Some (v, []) \<Rightarrow> Some v | _ \<Rightarrow> None)"

definition plain_ext :: ext where
  "plain_ext = \<lparr>json_to_string = print_json, json_pretty = print_json, json_parse = parse_json,
     sha256_hex = (\<lambda>bs. show_nat (length bs)), hex_encode = map (\<lambda>b. char_of (unat b)),
     hex_decode = (\<lambda>s. Some (map (\<lambda>c. of_nat (of_char c)) s))\<rparr>"

section \<open>Reading back\<close>

lemma unat_nibble: "d < 16 \<Longrightarrow> unat (of_nat (16 + d) :: u8) = 16 + d"
  by (simp add: unat_of_nat del: of_nat_add)

lemma read_nibbles_print:
  "n < 16 ^ k \<Longrightarrow> read_nibbles k (nibbles k n @ r) = Some (n, r)"
proof (induction k arbitrary: n)
  case (Suc k)
  then have "read_nibbles k (nibbles k (n div 16) @ r) = Some (n div 16, r)"
    by (intro Suc.IH) (simp add: less_mult_imp_div_less mult.commute)
  moreover have "unat (of_nat (16 + n mod 16) :: u8) = 16 + n mod 16" by (rule unat_nibble) simp
  ultimately show ?case by (simp del: of_nat_add)
qed simp

lemma nibbles_range: "b \<in> set (nibbles k n) \<Longrightarrow> 16 \<le> unat b \<and> unat b < 32"
proof (induction k arbitrary: n)
  case (Suc k)
  have "unat (of_nat (16 + n mod 16) :: u8) = 16 + n mod 16" by (rule unat_nibble) simp
  with Suc show ?case by (auto simp del: of_nat_add)
qed simp

lemma length_nibbles [simp]: "length (nibbles k n) = k"
  by (induction k arbitrary: n) simp_all

lemma read_str_print: "length s < f \<Longrightarrow> read_str f (print_str s @ r) = Some (s, r)"
proof (induction s arbitrary: f)
  case Nil
  then show ?case by (cases f) (simp_all add: print_str_def)
next
  case (Cons c s)
  then obtain f' where f: "f = Suc f'" "length s < f'" by (cases f) auto
  obtain b bs where nib: "nibbles 2 (of_char c) = b # bs" by (simp add: numeral_2_eq_2)
  have "b \<noteq> 0" using nibbles_range [of b 2 "of_char c"] nib by auto
  moreover have "read_nibbles 2 (nibbles 2 (of_char c) @ print_str s @ r) = Some (of_char c, print_str s @ r)"
    by (rule read_nibbles_print) (use nat_of_char_less_256 [of c] in simp)
  ultimately show ?case
    using Cons.IH [OF f(2)] f nib by (simp add: print_str_def)
qed

lemma print_json_tag: "\<exists>t bs. print_json v = t # bs \<and> t \<noteq> 0"
proof (cases v)
  case (JNum n)
  then show ?thesis by (cases n) simp_all
qed simp_all

lemma print_num_read:
  "f > 0 \<Longrightarrow> read_json f (print_num n @ r) = Some (JNum n, r)"
proof -
  assume "f > 0"
  then obtain f' where "f = Suc f'" by (cases f) auto
  moreover have "read_nibbles 16 (nibbles 16 (unat w) @ r) = Some (unat w, r)" for w :: u64
    using unat_u64_less [of w] by (intro read_nibbles_print) simp
  ultimately show ?thesis by (cases n) simp_all
qed

definition reads_back :: "json \<Rightarrow> bool" where
  "reads_back v \<longleftrightarrow> (\<forall>f r. length (print_json v) \<le> f \<longrightarrow> read_json f (print_json v @ r) = Some (v, r))"

lemma read_arr_print:
  "\<forall>x \<in> set xs. reads_back x \<Longrightarrow> length (concat (map print_json xs)) < f \<Longrightarrow>
   read_arr f (concat (map print_json xs) @ 0 # r) = Some (xs, r)"
proof (induction xs arbitrary: f)
  case Nil
  then show ?case by (cases f) simp_all
next
  case (Cons x xs)
  then obtain f' where f: "f = Suc f'" by (cases f) auto
  obtain t bs where t: "print_json x = t # bs" "t \<noteq> 0" using print_json_tag by blast
  have "read_json f' (print_json x @ concat (map print_json xs) @ 0 # r)
      = Some (x, concat (map print_json xs) @ 0 # r)"
    using Cons.prems f by (simp add: reads_back_def)
  moreover have "read_arr f' (concat (map print_json xs) @ 0 # r) = Some (xs, r)"
    using Cons.prems f t(1) by (intro Cons.IH) simp_all
  ultimately show ?case using f t by simp
qed

abbreviation print_entry :: "string \<times> json \<Rightarrow> bytes" where
  "print_entry \<equiv> \<lambda>(k, v). 1 # print_str k @ print_json v"

lemma read_obj_print:
  "\<forall>(k, v) \<in> set es. reads_back v \<Longrightarrow> length (concat (map print_entry es)) < f \<Longrightarrow>
   read_obj f (concat (map print_entry es) @ 0 # r) = Some (es, r)"
proof (induction es arbitrary: f)
  case Nil
  then show ?case by (cases f) simp_all
next
  case (Cons e es)
  obtain k v where e: "e = (k, v)" by (cases e)
  obtain f' where f: "f = Suc f'" using Cons.prems by (cases f) auto
  let ?rest = "concat (map print_entry es) @ 0 # r"
  have len: "length s \<le> length (print_str s)" for s
    by (induction s) (simp_all add: print_str_def)
  have "read_str f' (print_str k @ print_json v @ ?rest) = Some (k, print_json v @ ?rest)"
    using Cons.prems f e len [of k] by (intro read_str_print) simp
  moreover have "read_json f' (print_json v @ ?rest) = Some (v, ?rest)"
    using Cons.prems f e by (simp add: reads_back_def)
  moreover have "read_obj f' ?rest = Some (es, r)"
    using Cons.prems f e by (intro Cons.IH) simp_all
  ultimately show ?case using f e by simp
qed

lemma reads_backI:
  assumes "\<And>f r. length (print_json v) \<le> Suc f \<Longrightarrow> read_json (Suc f) (print_json v @ r) = Some (v, r)"
  shows "reads_back v"
  unfolding reads_back_def
proof (intro allI impI)
  fix f r assume "length (print_json v) \<le> f"
  moreover from this obtain f' where "f = Suc f'" using print_json_tag [of v] by (cases f) auto
  ultimately show "read_json f (print_json v @ r) = Some (v, r)" using assms by simp
qed

lemma length_print_str: "length s < length (print_str s)"
  by (induction s) (simp_all add: print_str_def)

lemma reads_back: "reads_back v"
proof (induction v)
  case (JNum n)
  show ?case by (rule reads_backI) (simp add: print_num_read)
next
  case (JStr s)
  show ?case
    by (rule reads_backI) (use length_print_str [of s] in \<open>simp add: read_str_print\<close>)
next
  case (JArr xs)
  then show ?case
    by (intro reads_backI) (simp add: read_arr_print del: read_arr.simps)
next
  case (JObj es)
  then have "\<forall>(k, v) \<in> set es. reads_back v" by fastforce
  then show ?case
    by (intro reads_backI) (simp add: read_obj_print del: read_obj.simps)
qed (auto intro!: reads_backI)

lemma parse_print: "parse_json (print_json v) = Some v"
proof -
  have "read_json (length (print_json v)) (print_json v @ []) = Some (v, [])"
    using reads_back [of v] unfolding reads_back_def by blast
  then show ?thesis by (simp add: parse_json_def)
qed

lemma newline_not_nibble: "(10 :: u8) \<notin> set (nibbles k n)"
  using nibbles_range [of 10 k n] by auto

lemma newline_not_str: "(10 :: u8) \<notin> set (print_str s)"
  using newline_not_nibble by (auto simp: print_str_def)

lemma newline_not_json: "(10 :: u8) \<notin> set (print_json v)"
proof (induction v)
  case (JNum n)
  show ?case by (cases n) (simp_all add: newline_not_nibble)
next
  case (JObj es)
  then show ?case by (auto simp: newline_not_str)
qed (auto simp: newline_not_str)

lemma plain_ext_law: "json_law plain_ext"
proof -
  have "print_json v \<noteq> []" for v using print_json_tag [of v] by auto
  then show ?thesis by (simp add: json_law_def plain_ext_def parse_print newline_not_json)
qed

end
