(* ===== verification/Samples.thy ===== *)
theory Samples
  imports Row_Index_Store Json_Codec
begin

text \<open>
  Concrete values that the witnesses of the properties are evaluated on: a bitmap that satisfies
  \<open>roaring_laws\<close>, and a one-fragment table with its metadata file in the in-memory storage.
\<close>

section \<open>A bitmap\<close>

fun read_u32s :: "bytes \<Rightarrow> u32 list" where
  "read_u32s (a # b # c # d # rest) = of_nat (le_nat [a, b, c, d]) # read_u32s rest"
| "read_u32s _ = []"

definition set_bitmap :: "u32 set roaring" where
  "set_bitmap = \<lparr>rb_default = {}, rb_insert = (\<lambda>b n. insert n b), rb_len = (\<lambda>b. of_nat (card b)),
     rb_contains = (\<lambda>b n. n \<in> b), rb_iter = sorted_list_of_set,
     rb_serialize = (\<lambda>b. concat (map le_u32 (sorted_list_of_set b))),
     rb_deserialize = (\<lambda>bs. Some (set (read_u32s bs)))\<rparr>"

lemma read_u32s_4:
  assumes "length l = 4"
  shows "read_u32s (l @ r) = of_nat (le_nat l) # read_u32s r"
proof -
  from assms have "\<exists>a b c d. l = [a, b, c, d]"
    by (auto simp: eval_nat_numeral length_Suc_conv)
  then show ?thesis by auto
qed

lemma read_u32s_le: "read_u32s (concat (map le_u32 ws)) = ws"
  by (induction ws) (simp_all only: list.map concat.simps read_u32s_4 length_le_bytes le_u32_inverse
      read_u32s.simps)

lemma set_bitmap_laws: "roaring_laws set_bitmap"
  by (simp add: roaring_laws_def set_bitmap_def read_u32s_le)

section \<open>A table\<close>

definition sample_meta :: row_group_meta where
  "sample_meta = \<lparr>rm_row_group = ''rg_1'', rm_schema_id = 1, rm_rows = 3, rm_columns = [],
     rm_column_offsets = None, rm_sort = None, rm_row_ids = [Range 10 3],
     rm_checksum = ''c'', rm_meta_checksum = ''m''\<rparr>"

definition sample_entry :: row_group_entry where
  "sample_entry = \<lparr>rg_data = ''rg_1.parquet'', rg_meta = ''rg_1.meta'', rg_fragment_id = 7,
     rg_deletes = None, rg_deleted_count = 0, rg_agg = None\<rparr>"

definition sample_manifest :: manifest where
  "sample_manifest = \<lparr>mf_format_version = 1, mf_sequence = 4, mf_schema_id = 1,
     mf_row_groups = [sample_entry], mf_row_counts = Some [3], mf_partition_values = None,
     mf_next_row_id = 13, mf_next_fragment_id = 8, mf_rowindex_generation = None,
     mf_index_generations = [], mf_checkpoint = None, mf_parent_hash = None,
     mf_committed_at = None, mf_checksum = ''''\<rparr>"

definition sample_store :: memory_storage where
  "sample_store = \<lparr>ms_data =
     [(''t/rg_1.meta'', json_to_string plain_ext (row_group_meta_value sample_meta))]\<rparr>"

lemma plain_t [simp]: "plain_piece ''t''"
  by (simp add: plain_piece_def)

lemma tpath_t: "tpath ''t'' p = ''t/'' @ p"
  by (simp add: tpath_def)

lemma validate_sample_meta: "validate_path ''t/rg_1.meta'' = Inr ''t/rg_1.meta''"
  using validate_join_path [of "[''t'', ''rg_1.meta'']"] by (simp add: join_path_def plain_piece_def)

lemma sample_rows:
  "manifest_rows plain_ext set_bitmap (mem_get sample_store) ''t'' (mf_row_groups sample_manifest)
     = Inr [(10, 7, 0), (11, 7, 1), (12, 7, 2)]"
proof -
  have "rgm_wf sample_meta" by (simp add: rgm_wf_def sample_meta_def)
  then have "parse_row_group_meta plain_ext (json_to_string plain_ext (row_group_meta_value sample_meta))
      = Some sample_meta"
    by (simp add: parse_row_group_meta_def rgm_roundtrip json_lawD [OF plain_ext_law])
  then have "fragment_rows plain_ext set_bitmap (mem_get sample_store) ''t'' sample_entry
      = Inr (live_rows (\<lambda>off. False) 7 0 (flat_ids (rm_row_ids sample_meta)))"
    by (simp add: fragment_rows_def sample_entry_def tpath_t vread_def validate_sample_meta
        sample_store_def fragment_dv_def)
  also have "flat_ids (rm_row_ids sample_meta) = [10, 11, 12]" by (simp add: sample_meta_def) code_simp
  finally show ?thesis by (simp add: sample_manifest_def)
qed

end
