(* ===== verification/Row_Properties.thy ===== *)
theory Row_Properties
  imports Samples
begin

text \<open>
  Properties of row identity: the allocation of row ids, their segments, the address index with
  its file format, and the selections that hide deleted rows.
\<close>

section \<open>The index file\<close>

definition seg_a :: addr_segment where
  "seg_a = \<lparr>start_row_id = 10, seg_fragment_id = 7, start_offset = 0, seg_len = 3\<rparr>"

definition seg_b :: addr_segment where
  "seg_b = \<lparr>start_row_id = 20, seg_fragment_id = 8, start_offset = 5, seg_len = 2\<rparr>"

lemma seg_values [simp]:
  "start_row_id seg_a = 10" "start_row_id seg_b = 20" "seg_len seg_a = 3" "seg_len seg_b = 2"
  "seg_fragment_id seg_a = 7" "seg_fragment_id seg_b = 8" "start_offset seg_a = 0" "start_offset seg_b = 5"
  by (simp_all add: seg_a_def seg_b_def)

lemma seg_ab_wf: "segs_wf [seg_a, seg_b]"
  by (simp add: segs_wf_def)

text \<open>
  C29: Encoding the segments of a row index and decoding the bytes gives the segments back, in the
  order of their first row id.
\<close>

theorem idx_roundtrip:
  assumes "length segs < 2 ^ 56"
  shows "decode_idx (encode_idx segs) = Inr (sort_key start_row_id segs)"
  using assms by (rule decode_encode_idx)

theorem idx_roundtrip_witness: "decode_idx (encode_idx [seg_b, seg_a]) = Inr [seg_a, seg_b]"
  using idx_roundtrip [of "[seg_b, seg_a]"] by simp

text \<open>
  C28: Changing any single byte of a decodable index file, the checksum trailer included, makes the
  decoder report an error.
\<close>

theorem idx_detects_corruption:
  assumes "decode_idx buf = Inr segs" "i < length buf" "b \<noteq> buf ! i"
  shows "\<exists>m. decode_idx (buf[i := b]) = Inl (Other m)"
  using assms by (rule decode_idx_one_byte)

theorem idx_detects_corruption_witness:
  "\<exists>m. decode_idx ((encode_idx [seg_a, seg_b])[0 := 0]) = Inl (Other m)"
proof -
  have "encode_idx [seg_a, seg_b] ! 0 = 77" "0 < length (encode_idx [seg_a, seg_b])"
    by (simp_all add: encode_idx_def Let_def MAGIC_def)
  moreover have "decode_idx (encode_idx [seg_a, seg_b]) = Inr [seg_a, seg_b]"
    using decode_encode_idx [of "[seg_a, seg_b]"] by simp
  ultimately show ?thesis by (intro idx_detects_corruption) simp_all
qed

text \<open>
  The lookup in a well-formed segment list answers exactly the addresses that the segments
  cover.
\<close>

theorem lookup_exact:
  assumes "segs_wf segs"
  shows "lookup_in_base segs r = Some a \<longleftrightarrow> (\<exists>s \<in> set segs. covers s r \<and> a = addr_of r s)"
  using assms by (rule lookup_in_base_iff)

theorem lookup_exact_witness: "lookup_in_base [seg_a, seg_b] 21 = Some (8, 6)"
  using lookup_exact [OF seg_ab_wf, of 21 "(8, 6)"] by (simp add: covers_def)

text \<open>
  The lookup that bisects the mapped file gives the same answer as decoding the whole file and
  searching the segments.
\<close>

theorem mmap_agrees:
  assumes "decode_idx buf = Inr segs" "sorted (map start_row_id segs)"
  shows "\<exists>m. mmap_open buf = Inr m \<and> mmap_lookup m r = Inr (lookup_in_base segs r)"
  using assms by (rule mmap_lookup_correct)

theorem mmap_agrees_witness:
  "\<exists>m. mmap_open (encode_idx [seg_a, seg_b]) = Inr m
     \<and> mmap_lookup m 11 = Inr (lookup_in_base [seg_a, seg_b] 11)"
  using mmap_agrees [of "encode_idx [seg_a, seg_b]" "[seg_a, seg_b]" 11]
    decode_encode_idx [of "[seg_a, seg_b]"] by simp

text \<open>
  An address map answers like the union of its layers in which every delta overrides the
  layers before it.
\<close>

theorem layered_lookup:
  "am_lookup (from_parts b ds) = foldl (++) (lookup_in_base b) (map lookup_in_base ds)"
  by (simp add: from_parts_def am_lookup_foldl)

text \<open>
  Deriving segments from live rows fails when a row id occurs twice, and otherwise gives
  well-formed segments that denote exactly those rows.
\<close>

theorem derive_segments_exact:
  assumes "\<forall>x \<in> set live. fst x \<noteq> - 1" "length live < 2 ^ 32"
  shows "if distinct (map fst live)
    then \<exists>segs. derive_segments live = Inr segs \<and> segs_wf segs \<and> seg_set segs = set live
      \<and> length segs \<le> length live
    else derive_segments live = Inl (Other ''derive_base: row_id appears more than once in the live set'')"
  using derive_segments_ok [OF _ assms] derive_segments_dup by simp

theorem derive_segments_exact_witness:
  "\<exists>segs. derive_segments [(12, 7, 2), (10, 7, 0), (11, 7, 1)] = Inr segs
     \<and> segs_wf segs \<and> seg_set segs = {(10, 7, 0), (11, 7, 1), (12, 7, 2)}"
  using derive_segments_exact [of "[(12, 7, 2), (10, 7, 0), (11, 7, 1)]"]
  by (auto simp: insert_commute)

section \<open>Row ids\<close>

text \<open>
  A commit hands out the consecutive row ids from the old counter to the new one, each once,
  gives every new fragment its own id, and moves both counters past what it handed out.
\<close>

theorem allocation_contiguous:
  assumes "unat n + (\<Sum>c\<leftarrow>cs. unat c) < 2 ^ 64" "unat f + length cs < 2 ^ 64"
    "allocate_fragments n f cs = (segs, frag_ids, n', f')"
  shows "flat_ids segs = map of_nat [unat n ..< unat n'] \<and> distinct (flat_ids segs)
    \<and> unat n' = unat n + (\<Sum>c\<leftarrow>cs. unat c)
    \<and> distinct frag_ids \<and> length frag_ids = length cs \<and> unat f' = unat f + length cs"
proof -
  have b: "allocate_blocks n cs = (segs, n')" "frag_ids = map (\<lambda>i. f + of_nat i) [0..<length cs]"
    "f' = f + of_nat (length cs)"
    using assms(3) by (auto simp: allocate_fragments_blocks)
  have "unat f' = unat f + length cs"
    using assms(2) by (simp add: b(3) unat_add_no_wrap unat_of_nat take_bit_nat_eq_self)
  moreover have "distinct frag_ids" unfolding b(2) using assms(2) by (intro distinct_consecutive) simp
  ultimately show ?thesis
    using allocate_blocks_spec [OF assms(1) b(1)] distinct_map_of_nat_u64 [of "unat n'" "unat n"] b(2) assms(1)
    by simp
qed

theorem allocation_contiguous_witness:
  "allocate_fragments 5 1 [2, 3] = ([Range 5 2, Range 7 3], [1, 2], 10, 3)
   \<and> flat_ids [Range 5 2, Range 7 3] = map of_nat [5 ..< 10] \<and> distinct (flat_ids [Range 5 2, Range 7 3])"
  using allocation_contiguous [of 5 "[2, 3]" 1 "[Range 5 2, Range 7 3]" "[1, 2]" 10 3]
  by (simp add: allocate_range_def)

text \<open>
  The segments the compactor builds for the surviving row ids list these ids again, in the
  same order.
\<close>

theorem compaction_ids_kept:
  assumes "\<forall>i\<in>set ids. i \<noteq> - 1"
  shows "flat_ids (ids_to_segments ids) = ids"
  using assms by (rule ids_to_segments_flat)

theorem compaction_ids_kept_witness: "flat_ids (ids_to_segments [3, 4, 9, 2]) = [3, 4, 9, 2]"
  using compaction_ids_kept [of "[3, 4, 9, 2]"] by simp

text \<open>
  The row id found for a physical offset by walking the segments is the entry of the expanded
  list at that offset, and there is none behind its end.
\<close>

theorem offset_row_id:
  assumes "\<forall>seg\<in>set segs. wf_segment seg"
  shows "row_id_at_offset segs off
    = (if off < length (flat_ids segs) then Some (flat_ids segs ! off) else None)"
  using assms by (rule row_id_at_offset_flat)

section \<open>Deleted rows\<close>

text \<open>
  C30: The row selection made from a deletion vector reads exactly the physical offsets that are
  not in the vector.
\<close>

theorem selection_hides_deleted:
  assumes "selection_law rs_from" "tot < 2 ^ 32"
  shows "live_physical_offsets (Some (deletion_to_row_selection R rs_from dv tot)) tot
    = filter (\<lambda>off. of_nat off \<notin> dv_set R dv) [0..<tot]"
  using assms by (rule deletion_selection_offsets)

theorem selection_hides_deleted_witness:
  "live_physical_offsets (Some (deletion_to_row_selection set_bitmap id {1, 3} 4)) 4 = [0, 2]"
  using selection_hides_deleted [of id 4 set_bitmap "{1, 3}"]
  by (simp add: selection_law_def dv_set_def dv_contains_def set_bitmap_def upt_rec)

text \<open>
  The row selection for a set of row ids has one bit per row, set exactly for the rows whose
  id is wanted.
\<close>

theorem selection_finds_ids:
  assumes "selection_law rs_from" "length (flat_ids row_ids) = tot"
  shows "selection_bits (rowid_set_to_row_selection rs_from row_ids targets tot)
    = map (\<lambda>i. i \<in> targets) (flat_ids row_ids)"
  using assms by (rule rowid_selection_bits)

theorem selection_finds_ids_witness:
  "selection_bits (rowid_set_to_row_selection id [Sorted [4, 6, 9]] {6, 9} 3) = [False, True, True]"
  using selection_finds_ids [of id "[Sorted [4, 6, 9]]" 3 "{6, 9}"] by (simp add: selection_law_def)

text \<open>
  Filtering a batch by a deletion vector keeps the rows and the row ids at the same live
  offsets, so that every surviving row keeps its own id.
\<close>

theorem live_rows_keep_ids:
  assumes "filter_law rows_of filter_batch" "length all_ids = length (rows_of batch)"
    "filter_live_rows R (\<lambda>b. length (rows_of b)) filter_batch batch (Some dv) all_ids po = (batch', ids')"
  shows "zip (rows_of batch') ids' =
    map (\<lambda>i. (rows_of batch ! i, all_ids ! i))
      (filter (\<lambda>i. po + of_nat i \<notin> dv_set R dv) [0..<length (rows_of batch)])"
  using assms by (rule filter_live_rows_spec)

definition mask_filter :: "bool list \<Rightarrow> string \<Rightarrow> string" where
  "mask_filter bits b = map snd (filter fst (zip bits b))"

text \<open>
  Adding offsets to a deletion vector gives the union, its cardinality is the number of
  members, and the serialized vector reads back.
\<close>

theorem deletion_vector_union:
  assumes "roaring_laws R"
  shows "dv_set R (union_offsets R dv offsets) = dv_set R dv \<union> set offsets
    \<and> cardinality R (union_offsets R dv offsets) = of_nat (card (dv_set R dv \<union> set offsets))
    \<and> dv_deserialize R (dv_serialize R (union_offsets R dv offsets)) = Inr (union_offsets R dv offsets)"
  using dv_cardinality [OF assms, of "union_offsets R dv offsets"] dv_set_union [OF assms]
    dv_roundtrip [OF assms] by simp

end
