(* ===== verification/Mutation_Wal.thy ===== *)
theory Mutation_Wal
  imports Manifest Row_Group_Meta
begin

text \<open>
  The per-table mutation log: \<^verbatim>\<open>crates/icefalldb-core/src/mutation_wal.rs\<close>. Records with their
  serialized form and checksum, appending and reading the durable prefix, applying a record to a
  manifest, the live manifest, materializing inlined artifacts, and the checkpoint that folds the
  log into a manifest and moves the pointer.

  A Rust \<^verbatim>\<open>HashMap\<close> iterates in an order of its own. A record's checksum is taken over the text
  of the map in that order, so the order is part of the model: the entries are a list in
  iteration order, and the argument \<open>H\<close> gives the iteration order of a map rebuilt from a list
  of entries.
\<close>

section \<open>Records\<close>

record fragment_delete =
  fd_fragment_id :: u64
  fd_deletes :: string
  fd_deleted_count :: u64

record staged_artifact =
  sa_path :: string
  sa_hex :: string

record mutation_record =
  mr_sequence :: u64
  mr_base_sequence :: u64
  mr_fragment_deletes :: "fragment_delete list"
  mr_fragment_adds :: "row_group_entry list"
  mr_index_generations :: "(string \<times> index_ref) list"
  mr_rowindex_generation :: "row_index_ref option"
  mr_next_fragment_id :: u64
  mr_next_row_id :: u64
  mr_staged_artifacts :: "staged_artifact list"
  mr_checksum :: string

type_synonym hash_order = "(string \<times> index_ref) list \<Rightarrow> (string \<times> index_ref) list"

definition fragment_delete_value :: "fragment_delete \<Rightarrow> json" where
  "fragment_delete_value d = jobj
     [(''fragment_id'', Some (jnum (fd_fragment_id d))), (''deletes'', Some (JStr (fd_deletes d))),
      (''deleted_count'', Some (jnum (fd_deleted_count d)))]"

definition staged_artifact_value :: "staged_artifact \<Rightarrow> json" where
  "staged_artifact_value a = jobj [(''path'', Some (JStr (sa_path a))), (''hex'', Some (JStr (sa_hex a)))]"

definition mutation_record_value :: "mutation_record \<Rightarrow> json" where
  "mutation_record_value r = jobj
     [(''sequence'', Some (jnum (mr_sequence r))),
      (''base_sequence'', Some (jnum (mr_base_sequence r))),
      (''fragment_deletes'', Some (JArr (map fragment_delete_value (mr_fragment_deletes r)))),
      (''fragment_adds'', skip_empty (\<lambda>xs. JArr (map row_group_entry_value xs)) (mr_fragment_adds r)),
      (''index_generations'', skip_empty (jhashmap index_ref_value) (mr_index_generations r)),
      (''rowindex_generation'', map_option row_index_ref_value (mr_rowindex_generation r)),
      (''next_fragment_id'', skip_zero (mr_next_fragment_id r)),
      (''next_row_id'', skip_zero (mr_next_row_id r)),
      (''staged_artifacts'', skip_empty (\<lambda>xs. JArr (map staged_artifact_value xs)) (mr_staged_artifacts r)),
      (''checksum'', Some (JStr (mr_checksum r)))]"

definition de_fragment_delete :: "json \<Rightarrow> fragment_delete option" where
  "de_fragment_delete v =
     Option.bind (de_req ''fragment_id'' de_u64 v) (\<lambda>i.
     Option.bind (de_req ''deletes'' de_str v) (\<lambda>d.
     Option.bind (de_req ''deleted_count'' de_u64 v) (\<lambda>n.
     Some \<lparr>fd_fragment_id = i, fd_deletes = d, fd_deleted_count = n\<rparr>)))"

definition de_staged_artifact :: "json \<Rightarrow> staged_artifact option" where
  "de_staged_artifact v =
     Option.bind (de_req ''path'' de_str v) (\<lambda>p.
     Option.bind (de_req ''hex'' de_str v) (\<lambda>h. Some \<lparr>sa_path = p, sa_hex = h\<rparr>))"

definition de_mutation_record :: "hash_order \<Rightarrow> json \<Rightarrow> mutation_record option" where
  "de_mutation_record H v =
     Option.bind (de_req ''sequence'' de_u64 v) (\<lambda>sequence.
     Option.bind (de_req ''base_sequence'' de_u64 v) (\<lambda>base_sequence.
     Option.bind (de_req ''fragment_deletes'' (de_vec de_fragment_delete) v) (\<lambda>deletes.
     Option.bind (de_default ''fragment_adds'' [] (de_vec de_row_group_entry) v) (\<lambda>adds.
     Option.bind (de_default ''index_generations'' [] (de_map de_index_ref) v) (\<lambda>ixg.
     Option.bind (de_default ''rowindex_generation'' None (de_option de_row_index_ref) v) (\<lambda>rig.
     Option.bind (de_default ''next_fragment_id'' 0 de_u64 v) (\<lambda>nf.
     Option.bind (de_default ''next_row_id'' 0 de_u64 v) (\<lambda>nr.
     Option.bind (de_default ''staged_artifacts'' [] (de_vec de_staged_artifact) v) (\<lambda>arts.
     Option.bind (de_req ''checksum'' de_str v) (\<lambda>checksum.
     Some \<lparr>mr_sequence = sequence, mr_base_sequence = base_sequence, mr_fragment_deletes = deletes,
           mr_fragment_adds = adds, mr_index_generations = H ixg, mr_rowindex_generation = rig,
           mr_next_fragment_id = nf, mr_next_row_id = nr, mr_staged_artifacts = arts,
           mr_checksum = checksum\<rparr>))))))))))"

definition parse_mutation_record :: "ext \<Rightarrow> hash_order \<Rightarrow> bytes \<Rightarrow> mutation_record option" where
  "parse_mutation_record X H line = Option.bind (json_parse X line) (de_mutation_record H)"

definition wal_path :: "string \<Rightarrow> string" where
  "wal_path table = tpath table ''_wal/mutations.log''"

definition mr_compute_checksum :: "ext \<Rightarrow> mutation_record \<Rightarrow> string" where
  "mr_compute_checksum X r =
     checksum_bytes X (json_to_string X (mutation_record_value (r\<lparr>mr_checksum := []\<rparr>)))"

definition mr_verify :: "ext \<Rightarrow> mutation_record \<Rightarrow> bool" where
  "mr_verify X r \<longleftrightarrow> mr_checksum r = mr_compute_checksum X r"

definition sealed :: "ext \<Rightarrow> mutation_record \<Rightarrow> mutation_record" where
  "sealed X r = r\<lparr>mr_checksum := mr_compute_checksum X r\<rparr>"

section \<open>The log\<close>

definition wal_append :: "ext \<Rightarrow> 's storage \<Rightarrow> string \<Rightarrow> mutation_record \<Rightarrow> ('s, unit) io" where
  "wal_append X S table r =
     (let path = wal_path table; line = json_to_string X (mutation_record_value r) @ [10]
      in io_then (st_append S path line) (io_then (st_sync S path) (io_return ())))"

fun read_lines :: "ext \<Rightarrow> hash_order \<Rightarrow> bytes list \<Rightarrow> mutation_record list" where
  "read_lines X H [] = []"
| "read_lines X H (line # rest) =
     (if line = [] then read_lines X H rest
      else (case parse_mutation_record X H line of
              Some rec \<Rightarrow> if mr_verify X rec then rec # read_lines X H rest else []
            | None \<Rightarrow> []))"

definition read_records ::
  "ext \<Rightarrow> hash_order \<Rightarrow> 's storage \<Rightarrow> string \<Rightarrow> ('s, mutation_record list) io" where
  "read_records X H S table =
     io_bind (io_try (st_read S (wal_path table))) (\<lambda>data.
       case data of
         Inr d \<Rightarrow> io_return (sort_key mr_sequence (read_lines X H (split_on 10 d)))
       | Inl e \<Rightarrow> if is_not_found e then io_return [] else io_throw e)"

section \<open>Applying records\<close>

fun set_deletes :: "fragment_delete \<Rightarrow> row_group_entry list \<Rightarrow> row_group_entry list" where
  "set_deletes fd [] = []"
| "set_deletes fd (e # es) =
     (if rg_fragment_id e = fd_fragment_id fd
      then e\<lparr>rg_deletes := Some (fd_deletes fd), rg_deleted_count := fd_deleted_count fd\<rparr> # es
      else e # set_deletes fd es)"

definition apply_record :: "ext \<Rightarrow> manifest \<Rightarrow> mutation_record \<Rightarrow> manifest" where
  "apply_record X base r =
     (let m = base\<lparr>mf_sequence := mr_sequence r,
                   mf_row_groups := fold set_deletes (mr_fragment_deletes r) (mf_row_groups base)
                     @ mr_fragment_adds r,
                   mf_index_generations := mr_index_generations r,
                   mf_rowindex_generation := (case mr_rowindex_generation r of
                      Some g \<Rightarrow> Some g | None \<Rightarrow> mf_rowindex_generation base),
                   mf_next_fragment_id := (if mr_next_fragment_id r \<noteq> 0 then mr_next_fragment_id r
                      else mf_next_fragment_id base),
                   mf_next_row_id := (if mr_next_row_id r \<noteq> 0 then mr_next_row_id r
                      else mf_next_row_id base),
                   mf_row_counts := None,
                   mf_checkpoint := None\<rparr>
      in m\<lparr>mf_checksum := compute_checksum X m\<rparr>)"

definition materialize_one :: "ext \<Rightarrow> 's storage \<Rightarrow> string \<Rightarrow> staged_artifact \<Rightarrow> ('s, unit) io" where
  "materialize_one X S table art =
     io_bind (st_exists S (tpath table (sa_path art))) (\<lambda>there.
       if there then io_return ()
       else io_bind (io_lift (ok_or (hex_decode X (sa_hex art))
                (Other ''mutation_wal: bad artifact hex''))) (\<lambda>bs.
              st_write S (tpath table (sa_path art)) bs))"

definition materialize :: "ext \<Rightarrow> 's storage \<Rightarrow> string \<Rightarrow> mutation_record \<Rightarrow> ('s, unit) io" where
  "materialize X S table r = io_foldM (\<lambda>_. materialize_one X S table) () (mr_staged_artifacts r)"

definition live_manifest ::
  "ext \<Rightarrow> hash_order \<Rightarrow> 's storage \<Rightarrow> string \<Rightarrow> manifest \<Rightarrow> ('s, manifest) io" where
  "live_manifest X H S table base =
     io_bind (read_records X H S table) (\<lambda>records.
       io_foldM (\<lambda>m rec.
         if mr_sequence rec > mf_sequence m
         then io_then (materialize X S table rec) (io_return (apply_record X m rec))
         else io_return m) base records)"

section \<open>Checkpoint\<close>

definition load_pointer_manifest :: "ext \<Rightarrow> 's storage \<Rightarrow> string \<Rightarrow> ('s, manifest) io" where
  "load_pointer_manifest X S table =
     io_bind (st_read S (tpath table ''_manifest.json'')) (\<lambda>data.
     io_bind (io_lift (ok_or (json_parse X data) Serialization)) (\<lambda>pointer.
     io_bind (io_lift (ok_or (Option.bind (jfield ''latest'' pointer) de_u64)
         (InvalidManifestPointer ''missing or invalid latest''))) (\<lambda>seq.
     io_bind (st_read S (tpath table (manifest_filename seq))) (\<lambda>bs.
     io_lift (ok_or (parse_manifest X bs) Serialization)))))"

definition write_pointer :: "ext \<Rightarrow> 's storage \<Rightarrow> string \<Rightarrow> u64 \<Rightarrow> ('s, unit) io" where
  "write_pointer X S table seq =
     (let pointer_path = tpath table ''_manifest.json''; tmp_path = tpath table ''_manifest.json.tmp'';
          pointer = JObj [(''latest'', jnum seq)]
      in io_then (st_write S tmp_path (json_to_string X pointer))
         (io_then (st_sync S tmp_path)
         (io_then (st_rename S tmp_path pointer_path)
         (io_then (st_sync S (tpath table [])) (io_return ())))))"

definition wal_clear :: "'s storage \<Rightarrow> string \<Rightarrow> ('s, unit) io" where
  "wal_clear S table =
     io_bind (io_try (st_delete S (wal_path table))) (\<lambda>r.
       case r of Inr _ \<Rightarrow> io_return () | Inl e \<Rightarrow> if is_not_found e then io_return () else io_throw e)"

text \<open>The caller holds the table's write lock; \<open>now\<close> is the commit time.\<close>

definition checkpoint_locked ::
  "ext \<Rightarrow> hash_order \<Rightarrow> 's storage \<Rightarrow> string \<Rightarrow> string \<Rightarrow> ('s, bool) io" where
  "checkpoint_locked X H S now table =
     io_bind (read_records X H S table) (\<lambda>records.
       if records = [] then io_return False
       else io_bind (load_pointer_manifest X S table) (\<lambda>base.
         if \<forall>r \<in> set records. mr_sequence r \<le> mf_sequence base
         then io_then (wal_clear S table) (io_return True)
         else
           io_bind (io_foldM (\<lambda>live rec.
               if mr_sequence rec > mf_sequence live
               then io_then (materialize X S table rec)
                    (io_then (io_foldM (\<lambda>_ art. st_sync S (tpath table (sa_path art))) ()
                        (mr_staged_artifacts rec))
                    (io_return (apply_record X live rec)))
               else io_return live) base records) (\<lambda>live.
           io_bind (parent_manifest_checksum X S table (mf_sequence live)) (\<lambda>parent.
             let live' = finalize X parent now live;
                 manifest_path = tpath table (manifest_filename (mf_sequence live'))
             in io_then (st_write S manifest_path (json_to_string X (manifest_value live')))
                (io_then (st_sync S manifest_path)
                (io_then (write_pointer X S table (mf_sequence live'))
                (io_then (wal_clear S table)
                (io_return True))))))))"

section \<open>Reading back the log\<close>

lemma fragment_delete_roundtrip: "de_fragment_delete (fragment_delete_value d) = Some d"
  by (simp add: de_fragment_delete_def fragment_delete_value_def de_req_eq)

lemma staged_artifact_roundtrip: "de_staged_artifact (staged_artifact_value a) = Some a"
  by (simp add: de_staged_artifact_def staged_artifact_value_def de_req_eq)

lemma record_fields:
  "jfield ''sequence'' (mutation_record_value r) = Some (jnum (mr_sequence r))"
  "jfield ''base_sequence'' (mutation_record_value r) = Some (jnum (mr_base_sequence r))"
  "jfield ''fragment_deletes'' (mutation_record_value r)
     = Some (JArr (map fragment_delete_value (mr_fragment_deletes r)))"
  "jfield ''fragment_adds'' (mutation_record_value r)
     = skip_empty (\<lambda>xs. JArr (map row_group_entry_value xs)) (mr_fragment_adds r)"
  "jfield ''index_generations'' (mutation_record_value r)
     = skip_empty (jhashmap index_ref_value) (mr_index_generations r)"
  "jfield ''rowindex_generation'' (mutation_record_value r)
     = map_option row_index_ref_value (mr_rowindex_generation r)"
  "jfield ''next_fragment_id'' (mutation_record_value r) = skip_zero (mr_next_fragment_id r)"
  "jfield ''next_row_id'' (mutation_record_value r) = skip_zero (mr_next_row_id r)"
  "jfield ''staged_artifacts'' (mutation_record_value r)
     = skip_empty (\<lambda>xs. JArr (map staged_artifact_value xs)) (mr_staged_artifacts r)"
  "jfield ''checksum'' (mutation_record_value r) = Some (JStr (mr_checksum r))"
  by (simp_all add: mutation_record_value_def)

lemma de_skip_vec: "de_default k [] (de_vec f) v = Some xs"
  if "jfield k v = skip_empty (\<lambda>xs. JArr (map g xs)) xs" "\<And>x. f (g x) = Some x"
  using that by (cases "xs = []") (simp_all add: de_default_def skip_empty_def de_vec_map)

lemma de_skip_map: "de_default k [] (de_map f) v = Some xs"
  if "jfield k v = skip_empty (jhashmap g) xs" "\<And>x. f (g x) = Some x"
  using that by (cases "xs = []") (simp_all add: de_default_def skip_empty_def de_map_jhashmap)

lemma mutation_record_roundtrip:
  "de_mutation_record H (mutation_record_value r)
     = Some (r\<lparr>mr_index_generations := H (mr_index_generations r)\<rparr>)"
proof -
  have "de_default ''rowindex_generation'' None (de_option de_row_index_ref) (mutation_record_value r)
      = Some (mr_rowindex_generation r)"
    by (rule de_opt [OF record_fields(6)])
      (simp add: row_index_ref_roundtrip, simp add: row_index_ref_value_def)
  moreover note de_skip_vec [OF record_fields(4) row_group_entry_roundtrip]
    de_skip_vec [OF record_fields(9) staged_artifact_roundtrip]
    de_skip_map [OF record_fields(5) index_ref_roundtrip]
  ultimately show ?thesis
    by (simp add: de_mutation_record_def record_fields de_req_eq de_skip_zero de_vec_map
        fragment_delete_roundtrip)
qed

text \<open>
  A record survives the log when it is sealed and its index map iterates in the same order
  after it is read. The hash map promises only a permutation, so this is certain for a map with at
  most one entry and a matter of luck for a larger one.
\<close>

definition stable_record :: "ext \<Rightarrow> hash_order \<Rightarrow> mutation_record \<Rightarrow> bool" where
  "stable_record X H r \<longleftrightarrow> mr_verify X r \<and> H (mr_index_generations r) = mr_index_generations r"

definition hash_law :: "hash_order \<Rightarrow> bool" where
  "hash_law H \<longleftrightarrow> (\<forall>m. mset (H m) = mset m)"

lemma sealed_verifies: "mr_verify X (sealed X r)"
  by (simp add: mr_verify_def sealed_def mr_compute_checksum_def)

lemma hash_order_short: "hash_law H \<Longrightarrow> length m \<le> 1 \<Longrightarrow> H m = m"
proof -
  assume h: "hash_law H" and "length m \<le> 1"
  then consider "m = []" | x where "m = [x]" by (cases m) auto
  then show "H m = m" using h by cases (auto simp: hash_law_def dest: spec [of _ m])
qed

definition log_bytes :: "ext \<Rightarrow> mutation_record list \<Rightarrow> bytes" where
  "log_bytes X rs = concat (map (\<lambda>r. json_to_string X (mutation_record_value r) @ [10]) rs)"

lemma parse_record:
  "json_law X \<Longrightarrow> parse_mutation_record X H (json_to_string X (mutation_record_value r))
     = Some (r\<lparr>mr_index_generations := H (mr_index_generations r)\<rparr>)"
  by (simp add: parse_mutation_record_def json_lawD mutation_record_roundtrip)

lemma read_lines_log:
  assumes X: "json_law X" and rs: "\<forall>r \<in> set rs. stable_record X H r"
  shows "read_lines X H (split_on 10 (log_bytes X rs @ rest)) = rs @ read_lines X H (split_on 10 rest)"
proof -
  have "split_on 10 (log_bytes X rs @ rest)
      = map (\<lambda>r. json_to_string X (mutation_record_value r)) rs @ split_on 10 rest"
    using json_lawD(2) [OF X] unfolding log_bytes_def
    by (induction rs) simp_all
  moreover have "read_lines X H (map (\<lambda>r. json_to_string X (mutation_record_value r)) rs @ ls)
      = rs @ read_lines X H ls" for ls
    using rs
    by (induction rs) (simp_all add: parse_record [OF X] json_lawD(3) [OF X] stable_record_def)
  ultimately show ?thesis by simp
qed

text \<open>A torn tail: no line break, and not a complete sealed record.\<close>

definition torn :: "ext \<Rightarrow> hash_order \<Rightarrow> bytes \<Rightarrow> bool" where
  "torn X H t \<longleftrightarrow> 10 \<notin> set t \<and>
     (t = [] \<or> (case parse_mutation_record X H t of None \<Rightarrow> True | Some r \<Rightarrow> \<not> mr_verify X r))"

lemma read_lines_torn: "torn X H t \<Longrightarrow> read_lines X H (split_on 10 t) = []"
  by (auto simp: torn_def split: option.splits)

lemma plain_wal_pieces: "plain_piece ''_wal''" "plain_piece ''mutations.log''"
  "plain_piece ''_manifest.json''" "plain_piece ''_manifest.json.tmp''"
  by (simp_all add: plain_piece_def)

lemma validate_wal_path: "plain_piece table \<Longrightarrow> validate_path (wal_path table) = Inr (wal_path table)"
  using validate_tpath [of table "[''_wal'', ''mutations.log'']"]
  by (simp add: wal_path_def plain_wal_pieces join_path_def)

lemma validate_pointer_path:
  "plain_piece table \<Longrightarrow> validate_path (tpath table ''_manifest.json'') = Inr (tpath table ''_manifest.json'')"
  "plain_piece table \<Longrightarrow>
     validate_path (tpath table ''_manifest.json.tmp'') = Inr (tpath table ''_manifest.json.tmp'')"
  using validate_tpath [of table "[''_manifest.json'']"] validate_tpath [of table "[''_manifest.json.tmp'']"]
  by (simp_all add: plain_wal_pieces)

context storage_contract
begin

lemma read_records_run:
  assumes "plain_piece table"
  shows "read_records X H S table s = (Inr (case view s (wal_path table) of
      None \<Rightarrow> [] | Some d \<Rightarrow> sort_key mr_sequence (read_lines X H (split_on 10 d))), s)"
  by (auto simp: read_records_def io_bind_run io_try_run read_law [OF validate_wal_path [OF assms]]
      split: option.split)

lemma wal_append_run:
  assumes "plain_piece table"
  shows "\<exists>s'. wal_append X S table r s = (Inr (), s') \<and>
    view s' = (view s)(wal_path table \<mapsto>
      (case view s (wal_path table) of None \<Rightarrow> [] | Some e \<Rightarrow> e)
        @ json_to_string X (mutation_record_value r) @ [10])"
  using append_law [OF validate_wal_path [OF assms], of "json_to_string X (mutation_record_value r) @ [10]" s]
  by (auto simp: wal_append_def Let_def sync_law)

lemma append_then_read:
  assumes "plain_piece table" "json_law X" "\<forall>r \<in> set (rs @ [r]). stable_record X H r"
    and "view s (wal_path table) = (if rs = [] then None else Some (log_bytes X rs))"
  shows "\<exists>s'. wal_append X S table r s = (Inr (), s')
    \<and> read_records X H S table s' = (Inr (sort_key mr_sequence (rs @ [r])), s')"
proof -
  obtain s' where s': "wal_append X S table r s = (Inr (), s')"
    "view s' (wal_path table) = Some (log_bytes X (rs @ [r]))"
    using wal_append_run [OF assms(1), of X r s] assms(4) by (auto simp: log_bytes_def)
  have "read_lines X H (split_on 10 (log_bytes X (rs @ [r]))) = rs @ [r]"
    using read_lines_log [OF assms(2,3), of "[]"] by simp
  with s' show ?thesis by (simp add: read_records_run [OF assms(1)])
qed

lemma read_torn:
  assumes "plain_piece table" "json_law X" "\<forall>r \<in> set rs. stable_record X H r" "torn X H t"
    and "view s (wal_path table) = Some (log_bytes X rs @ t)"
  shows "read_records X H S table s = (Inr (sort_key mr_sequence rs), s)"
  using assms read_lines_log [OF assms(2,3), of t] read_lines_torn
  by (simp add: read_records_run)

text \<open>Nothing repairs a torn tail: the next record is appended to it, and is not read.\<close>

lemma append_after_torn:
  assumes "plain_piece table" "json_law X" "\<forall>r \<in> set rs. stable_record X H r"
    and "view s (wal_path table) = Some (log_bytes X rs @ t)"
    and "torn X H (t @ json_to_string X (mutation_record_value r))"
  shows "\<exists>s'. wal_append X S table r s = (Inr (), s')
    \<and> read_records X H S table s' = (Inr (sort_key mr_sequence rs), s')"
proof -
  let ?l = "t @ json_to_string X (mutation_record_value r)"
  obtain s' where s': "wal_append X S table r s = (Inr (), s')"
    "view s' (wal_path table) = Some (log_bytes X rs @ ?l @ [10])"
    using wal_append_run [OF assms(1), of X r s] assms(4) by auto
  have "?l \<noteq> []" using json_lawD(3) [OF assms(2)] by simp
  then have "read_lines X H (split_on 10 (?l @ [10])) = []"
    using split_on_append_sep [of 10 ?l "[]"] assms(5)
    by (auto simp: torn_def split: option.splits)
  with s' read_lines_log [OF assms(2,3), of "?l @ [10]"] show ?thesis
    by (simp add: read_records_run [OF assms(1)])
qed

end

section \<open>The live manifest\<close>

definition fold_live :: "ext \<Rightarrow> manifest \<Rightarrow> mutation_record list \<Rightarrow> manifest" where
  "fold_live X base rs =
     foldl (\<lambda>m r. if mr_sequence r > mf_sequence m then apply_record X m r else m) base rs"

definition artifacts_ok :: "ext \<Rightarrow> string \<Rightarrow> mutation_record \<Rightarrow> bool" where
  "artifacts_ok X table r \<longleftrightarrow> (\<forall>a \<in> set (mr_staged_artifacts r).
     validate_path (tpath table (sa_path a)) = Inr (tpath table (sa_path a))
     \<and> hex_decode X (sa_hex a) \<noteq> None)"

lemma apply_record_verifies: "verify_checksum X (apply_record X base r)"
  by (simp add: verify_checksum_def apply_record_def compute_checksum_def Let_def)

lemma apply_record_sequence [simp]: "mf_sequence (apply_record X base r) = mr_sequence r"
  by (simp add: apply_record_def Let_def)

text \<open>Replacing a deletion vector touches only the first entry of that fragment.\<close>

lemma set_deletes_ids: "map rg_fragment_id (set_deletes fd es) = map rg_fragment_id es"
  by (induction es) simp_all

lemma set_deletes_other:
  "rg_fragment_id e \<noteq> fd_fragment_id fd \<Longrightarrow> e \<in> set es \<Longrightarrow> e \<in> set (set_deletes fd es)"
  by (induction es) auto

lemma fold_set_deletes_ids: "map rg_fragment_id (fold set_deletes fds es) = map rg_fragment_id es"
  by (induction fds arbitrary: es) (simp_all add: set_deletes_ids)

lemma set_deletes_distinct:
  assumes "distinct (map rg_fragment_id es)"
  shows "set_deletes fd es = map (\<lambda>e. if rg_fragment_id e = fd_fragment_id fd
    then e\<lparr>rg_deletes := Some (fd_deletes fd), rg_deleted_count := fd_deleted_count fd\<rparr> else e) es"
  using assms
proof (induction es)
  case (Cons e es)
  have "map (\<lambda>e. if rg_fragment_id e = fd_fragment_id fd
      then e\<lparr>rg_deletes := Some (fd_deletes fd), rg_deleted_count := fd_deleted_count fd\<rparr> else e) es = es"
    if "rg_fragment_id e = fd_fragment_id fd"
    using that Cons.prems by (intro map_idI) force
  with Cons show ?case by simp
qed simp

lemma fold_live_sequence:
  assumes "rs \<noteq> []" "sorted (map mr_sequence rs)"
  shows "mf_sequence (fold_live X base rs) = max (mf_sequence base) (mr_sequence (last rs))"
  using assms
proof (induction rs rule: rev_induct)
  case (snoc r rs)
  show ?case
  proof (cases "rs = []")
    case True
    then show ?thesis by (auto simp: fold_live_def max_def)
  next
    case False
    have le: "mr_sequence (last rs) \<le> mr_sequence r"
      using snoc.prems(2) False by (simp add: sorted_append)
    have "mf_sequence (fold_live X base rs) = max (mf_sequence base) (mr_sequence (last rs))"
      using snoc False by (simp add: sorted_append)
    then show ?thesis using le by (auto simp: fold_live_def max_def)
  qed
qed simp

context storage_contract
begin

lemma materialize_one_run:
  assumes valid: "validate_path (tpath table (sa_path a)) = Inr (tpath table (sa_path a))"
    and hex: "hex_decode X (sa_hex a) \<noteq> None"
  shows "\<exists>s'. materialize_one X S table a s = (Inr (), s') \<and> view s \<subseteq>\<^sub>m view s'
    \<and> view s' (tpath table (sa_path a)) \<noteq> None"
proof (cases "view s (tpath table (sa_path a))")
  case None
  obtain bs where bs: "hex_decode X (sa_hex a) = Some bs" using hex by blast
  obtain s' where "st_write S (tpath table (sa_path a)) bs s = (Inr (), s')"
    "view s' = (view s)(tpath table (sa_path a) \<mapsto> bs)"
    using write_law [OF valid] by blast
  with None bs show ?thesis
    by (auto simp: materialize_one_def io_bind_run exists_law [OF valid] map_le_def)
qed (simp add: materialize_one_def io_bind_run exists_law [OF valid])

lemma materialize_run:
  assumes "artifacts_ok X table r"
  shows "\<exists>s'. materialize X S table r s = (Inr (), s') \<and> view s \<subseteq>\<^sub>m view s'
    \<and> (\<forall>a \<in> set (mr_staged_artifacts r). view s' (tpath table (sa_path a)) \<noteq> None)"
proof -
  have "\<exists>s'. io_foldM (\<lambda>_. materialize_one X S table) () as s = (Inr (), s') \<and> view s \<subseteq>\<^sub>m view s'
      \<and> (\<forall>a \<in> set as. view s' (tpath table (sa_path a)) \<noteq> None)"
    if "set as \<subseteq> set (mr_staged_artifacts r)" for as
    using that
  proof (induction as arbitrary: s)
    case (Cons a as)
    then have "validate_path (tpath table (sa_path a)) = Inr (tpath table (sa_path a))"
      "hex_decode X (sa_hex a) \<noteq> None" using assms by (auto simp: artifacts_ok_def)
    from materialize_one_run [OF this] obtain s1 where
      s1: "materialize_one X S table a s = (Inr (), s1)" "view s \<subseteq>\<^sub>m view s1"
      "view s1 (tpath table (sa_path a)) \<noteq> None" by blast
    from Cons.IH [of s1] Cons.prems obtain s2 where
      s2: "io_foldM (\<lambda>_. materialize_one X S table) () as s1 = (Inr (), s2)" "view s1 \<subseteq>\<^sub>m view s2"
      "\<forall>a \<in> set as. view s2 (tpath table (sa_path a)) \<noteq> None" by auto
    have "view s2 (tpath table (sa_path a)) \<noteq> None"
      using s1(3) s2(2) by (auto simp: map_le_def dom_def)
    moreover have "view s \<subseteq>\<^sub>m view s2" using s1(2) s2(2) by (rule map_le_trans)
    ultimately show ?case using s1(1) s2(1,3) by simp
  qed simp
  then show ?thesis unfolding materialize_def by blast
qed

lemma fold_live_steps:
  assumes "\<And>m r s. r \<in> set rs \<Longrightarrow> \<exists>s'. f m r s
      = (Inr (if mr_sequence r > mf_sequence m then apply_record X m r else m), s') \<and> view s \<subseteq>\<^sub>m view s'"
  shows "\<exists>s'. io_foldM f base rs s = (Inr (fold_live X base rs), s') \<and> view s \<subseteq>\<^sub>m view s'"
  using assms
proof (induction rs arbitrary: base s)
  case (Cons r rs)
  obtain s1 where s1: "f base r s
      = (Inr (if mr_sequence r > mf_sequence base then apply_record X base r else base), s1)"
    "view s \<subseteq>\<^sub>m view s1" using Cons.prems [of r base s] by auto
  obtain s2 where "io_foldM f (if mr_sequence r > mf_sequence base then apply_record X base r else base) rs s1
      = (Inr (fold_live X (if mr_sequence r > mf_sequence base then apply_record X base r else base) rs), s2)"
    "view s1 \<subseteq>\<^sub>m view s2" using Cons by fastforce
  with s1 show ?case by (auto simp: fold_live_def intro: map_le_trans)
qed (simp add: fold_live_def)

lemma live_manifest_run:
  assumes "read_records X H S table s = (Inr rs, s)" "\<forall>r \<in> set rs. artifacts_ok X table r"
  shows "\<exists>s'. live_manifest X H S table base s = (Inr (fold_live X base rs), s') \<and> view s \<subseteq>\<^sub>m view s'"
proof -
  have "\<exists>s'. (if mr_sequence r > mf_sequence m
      then io_then (materialize X S table r) (io_return (apply_record X m r)) else io_return m) s
      = (Inr (if mr_sequence r > mf_sequence m then apply_record X m r else m), s') \<and> view s \<subseteq>\<^sub>m view s'"
    if "r \<in> set rs" for m r s
    using materialize_run [of X table r s] assms(2) that by (auto simp: io_then_run)
  from fold_live_steps [OF this] show ?thesis
    using assms(1) by (simp add: live_manifest_def)
qed

lemma parent_checksum_total:
  assumes "plain_piece table"
  shows "\<exists>p. parent_manifest_checksum X S table n s = (Inr p, s)"
  by (auto simp: parent_manifest_checksum_def io_bind_run io_try_run
      read_law [OF validate_manifest_path [OF assms]] list_law [OF validate_manifests_dir [OF assms]]
      ok_or_def split: option.splits)

lemma sync_artifacts_run:
  "io_foldM (\<lambda>_ a. st_sync S (tpath table (sa_path a))) () arts s = (Inr (), s)"
  by (induction arts) (simp_all add: sync_law)

lemma checkpoint_fold:
  assumes "\<forall>r \<in> set rs. artifacts_ok X table r"
  shows "\<exists>s'. io_foldM (\<lambda>live rec.
      if mr_sequence rec > mf_sequence live
      then io_then (materialize X S table rec)
           (io_then (io_foldM (\<lambda>_ art. st_sync S (tpath table (sa_path art))) ()
               (mr_staged_artifacts rec))
           (io_return (apply_record X live rec)))
      else io_return live) base rs s = (Inr (fold_live X base rs), s') \<and> view s \<subseteq>\<^sub>m view s'"
proof (rule fold_live_steps)
  fix m r s assume "r \<in> set rs"
  then obtain s' where "materialize X S table r s = (Inr (), s')" "view s \<subseteq>\<^sub>m view s'"
    using materialize_run [of X table r s] assms by auto
  then show "\<exists>s'. (if mr_sequence r > mf_sequence m
      then io_then (materialize X S table r)
           (io_then (io_foldM (\<lambda>_ art. st_sync S (tpath table (sa_path art))) ()
               (mr_staged_artifacts r))
           (io_return (apply_record X m r)))
      else io_return m) s
      = (Inr (if mr_sequence r > mf_sequence m then apply_record X m r else m), s') \<and> view s \<subseteq>\<^sub>m view s'"
    by (auto simp: io_then_run sync_artifacts_run)
qed

end

section \<open>Checkpointing keeps the live view\<close>

text \<open>The files a checkpoint to sequence \<open>q\<close> replaces or removes.\<close>

definition checkpoint_paths :: "string \<Rightarrow> u64 \<Rightarrow> string set" where
  "checkpoint_paths table q = {tpath table (manifest_filename q), tpath table ''_manifest.json'',
     tpath table ''_manifest.json.tmp'', wal_path table}"

lemma pointer_paths_differ [simp]:
  "manifest_filename q \<noteq> ''_manifest.json''" "manifest_filename q \<noteq> ''_manifest.json.tmp''"
  "tpath table (manifest_filename q) \<noteq> wal_path table"
  "tpath table ''_manifest.json'' \<noteq> wal_path table"
  by (simp_all add: manifest_filename_def wal_path_def)

context storage_contract
begin

lemma write_pointer_run:
  assumes "plain_piece table"
  shows "\<exists>s'. write_pointer X S table q s = (Inr (), s') \<and>
    view s' = (view s)(tpath table ''_manifest.json.tmp'' := None,
      tpath table ''_manifest.json'' \<mapsto> json_to_string X (JObj [(''latest'', jnum q)]))"
proof -
  note v = validate_pointer_path [OF assms]
  obtain s1 where s1: "st_write S (tpath table ''_manifest.json.tmp'')
      (json_to_string X (JObj [(''latest'', jnum q)])) s = (Inr (), s1)"
    "view s1 = (view s)(tpath table ''_manifest.json.tmp'' \<mapsto> json_to_string X (JObj [(''latest'', jnum q)]))"
    using write_law [OF v(2)] by blast
  then obtain s2 where "st_rename S (tpath table ''_manifest.json.tmp'') (tpath table ''_manifest.json'') s1
      = (Inr (), s2)" "view s2 = (view s1)(tpath table ''_manifest.json.tmp'' := None,
        tpath table ''_manifest.json'' \<mapsto> json_to_string X (JObj [(''latest'', jnum q)]))"
    using rename_law [OF v(2) v(1), of s1] by auto
  with s1 show ?thesis
    by (simp add: write_pointer_def Let_def io_then_run sync_law)
qed

lemma wal_clear_run:
  assumes "plain_piece table"
  shows "\<exists>s'. wal_clear S table s = (Inr (), s') \<and> view s' = (view s)(wal_path table := None)"
proof -
  obtain s' where s': "st_delete S (wal_path table) s
      = ((if view s (wal_path table) = None then Inl (NotFound (wal_path table)) else Inr ()), s')"
    "view s' = (view s)(wal_path table := None)"
    using delete_law [OF validate_wal_path [OF assms]] by blast
  show ?thesis
  proof (cases "view s (wal_path table) = None")
    case True
    with s' show ?thesis by (simp add: wal_clear_def io_bind_run io_try_run)
  next
    case False
    with s' show ?thesis by (simp add: wal_clear_def io_bind_run io_try_run del: not_None_eq)
  qed
qed

lemma load_pointer_run:
  assumes "plain_piece table" "json_law X"
    and "view s (tpath table ''_manifest.json'') = Some (json_to_string X (JObj [(''latest'', jnum q)]))"
    and "view s (tpath table (manifest_filename q)) = Some (json_to_string X (manifest_value m))"
  shows "load_pointer_manifest X S table s = (Inr m, s)"
  using assms
  by (simp add: load_pointer_manifest_def io_bind_run read_law [OF validate_pointer_path(1) [OF assms(1)]]
      read_law [OF validate_manifest_path [OF assms(1)]] json_lawD jfield_def parse_manifest_def manifest_roundtrip)

lemma checkpoint_publishes:
  assumes t: "plain_piece table" and X: "json_law X"
    and rs: "read_records X H S table s = (Inr rs, s)" "rs \<noteq> []"
    and base: "load_pointer_manifest X S table s = (Inr base, s)"
    and new: "\<exists>r \<in> set rs. mr_sequence r > mf_sequence base"
    and arts: "\<forall>r \<in> set rs. artifacts_ok X table r"
  shows "\<exists>parent s'. checkpoint_locked X H S now table s = (Inr True, s')
    \<and> load_pointer_manifest X S table s' = (Inr (finalize X parent now (fold_live X base rs)), s')
    \<and> read_records X H S table s' = (Inr [], s')
    \<and> view s' (tpath table ''_manifest.json'')
        = Some (json_to_string X (JObj [(''latest'', jnum (mf_sequence (fold_live X base rs)))]))
    \<and> view s' (tpath table (manifest_filename (mf_sequence (fold_live X base rs))))
        = Some (json_to_string X (manifest_value (finalize X parent now (fold_live X base rs))))
    \<and> (\<forall>p b. view s p = Some b \<longrightarrow> p \<notin> checkpoint_paths table (mf_sequence (fold_live X base rs)) \<longrightarrow>
          view s' p = Some b)"
proof -
  let ?live = "fold_live X base rs"
  obtain s1 where s1: "io_foldM (\<lambda>live rec.
      if mr_sequence rec > mf_sequence live
      then io_then (materialize X S table rec)
           (io_then (io_foldM (\<lambda>_ art. st_sync S (tpath table (sa_path art))) ()
               (mr_staged_artifacts rec))
           (io_return (apply_record X live rec)))
      else io_return live) base rs s = (Inr ?live, s1)" "view s \<subseteq>\<^sub>m view s1"
    using checkpoint_fold [OF arts] by blast
  obtain parent where parent: "parent_manifest_checksum X S table (mf_sequence ?live) s1 = (Inr parent, s1)"
    using parent_checksum_total [OF t] by blast
  let ?m = "finalize X parent now ?live"
  have seq: "mf_sequence ?m = mf_sequence ?live" by (simp add: finalize_def Let_def)
  obtain s2 where s2: "st_write S (tpath table (manifest_filename (mf_sequence ?m)))
      (json_to_string X (manifest_value ?m)) s1 = (Inr (), s2)"
    "view s2 = (view s1)(tpath table (manifest_filename (mf_sequence ?m)) \<mapsto> json_to_string X (manifest_value ?m))"
    using write_law [OF validate_manifest_path [OF t], of "mf_sequence ?m" "json_to_string X (manifest_value ?m)" s1]
    by auto
  obtain s3 where s3: "write_pointer X S table (mf_sequence ?m) s2 = (Inr (), s3)"
    "view s3 = (view s2)(tpath table ''_manifest.json.tmp'' := None,
      tpath table ''_manifest.json'' \<mapsto> json_to_string X (JObj [(''latest'', jnum (mf_sequence ?m))]))"
    using write_pointer_run [OF t] by blast
  obtain s4 where s4: "wal_clear S table s3 = (Inr (), s4)" "view s4 = (view s3)(wal_path table := None)"
    using wal_clear_run [OF t] by blast
  have pending: "(\<forall>r \<in> set rs. mr_sequence r \<le> mf_sequence base) = False"
    using new by (auto simp: not_le)
  have "checkpoint_locked X H S now table s = (Inr True, s4)"
    using rs base s1(1) parent s2(1) s3(1) s4(1)
    by (simp add: checkpoint_locked_def pending Let_def sync_law seq)
  moreover have "load_pointer_manifest X S table s4 = (Inr ?m, s4)"
    using s2(2) s3(2) s4(2) by (intro load_pointer_run [OF t X, where q = "mf_sequence ?m"]) simp_all
  moreover have "read_records X H S table s4 = (Inr [], s4)"
    using s4(2) by (simp add: read_records_run [OF t])
  moreover have "view s4 (tpath table ''_manifest.json'')
        = Some (json_to_string X (JObj [(''latest'', jnum (mf_sequence ?live))]))"
    "view s4 (tpath table (manifest_filename (mf_sequence ?live))) = Some (json_to_string X (manifest_value ?m))"
    using s2(2) s3(2) s4(2) seq by simp_all
  moreover have "view s4 p = Some b"
    if "view s p = Some b" "p \<notin> checkpoint_paths table (mf_sequence ?live)" for p b
    using that s1(2) s2(2) s3(2) s4(2) seq by (auto simp: checkpoint_paths_def map_le_def dom_def)
  ultimately show ?thesis by blast
qed

end

end
