(* ===== verification/Type_Syntax.thy ===== *)
theory Type_Syntax
  imports Rust_Str
begin

text \<open>
  Column types: the recursive-descent parser of type strings of
  \<^verbatim>\<open>crates/icefalldb-core/src/metadata/schema.rs\<close> (\<^verbatim>\<open>TypeParser\<close>) and the printer of
  \<^verbatim>\<open>crates/icefalldb-core/src/schema_util.rs\<close> (\<^verbatim>\<open>arrow_type_to_icefalldb\<close>). A parser state is the
  input that is left. Type strings are ASCII; the only caller drops the error message
  (\<^verbatim>\<open>.ok()\<close>), so a failure is \<open>None\<close>. The recursion is bounded by a fuel, which is shown never
  to be used up when it exceeds the length of the input.
\<close>

section \<open>Types\<close>

text \<open>The Arrow types the mapping knows; \<open>DOther\<close> is any other, by its debug form.\<close>

datatype data_type =
    DInt8 | DInt16 | DInt32 | DInt64
  | DUInt8 | DUInt16 | DUInt32 | DUInt64
  | DFloat32 | DFloat64
  | DUtf8 | DLargeUtf8 | DBinary | DLargeBinary | DBoolean
  | DTimestampUs "string option"
  | DDecimal128 u8 u8
  | DFixedSizeBinary u32
  | DList dfield
  | DLargeList dfield
  | DStruct "dfield list"
  | DMap dfield bool
  | DOther string
and dfield = Field (df_name: string) (df_type: data_type) (df_nullable: bool)

section \<open>The parser\<close>

definition is_whitespace :: "char \<Rightarrow> bool" where
  "is_whitespace c \<longleftrightarrow> c = CHR '' '' \<or> (9 \<le> (of_char c :: nat) \<and> (of_char c :: nat) \<le> 13)"

definition is_alphabetic :: "char \<Rightarrow> bool" where
  "is_alphabetic c \<longleftrightarrow>
     (let n = of_char c :: nat in (65 \<le> n \<and> n \<le> 90) \<or> (97 \<le> n \<and> n \<le> 122))"

definition is_digit :: "char \<Rightarrow> bool" where
  "is_digit c \<longleftrightarrow> digit_val c \<noteq> None"

definition word_start :: "char \<Rightarrow> bool" where
  "word_start c \<longleftrightarrow> is_alphabetic c \<or> c = CHR ''_''"

definition word_char :: "char \<Rightarrow> bool" where
  "word_char c \<longleftrightarrow> is_alphabetic c \<or> is_digit c \<or> c = CHR ''_''"

definition skip_ws :: "string \<Rightarrow> string" where
  "skip_ws s = dropWhile is_whitespace s"

definition expect :: "char \<Rightarrow> string \<Rightarrow> string option" where
  "expect c s = (case skip_ws s of [] \<Rightarrow> None | x # r \<Rightarrow> if x = c then Some r else None)"

definition parse_field_name :: "string \<Rightarrow> (string \<times> string) option" where
  "parse_field_name s =
     (let s' = skip_ws s
      in case s' of
           [] \<Rightarrow> None
         | c # _ \<Rightarrow> if word_start c then Some (takeWhile word_char s', dropWhile word_char s') else None)"

definition parse_word :: "string \<Rightarrow> (string \<times> string) option" where
  "parse_word s =
     (case parse_field_name s of
        None \<Rightarrow> None
      | Some (w, r) \<Rightarrow>
          if w = ''timestamp'' then
            (let r' = skip_ws r
             in if r' \<noteq> [] \<and> hd r' = CHR ''['' then
                  (let inner = takeWhile (\<lambda>c. c \<noteq> CHR '']'') (tl r');
                       rest = dropWhile (\<lambda>c. c \<noteq> CHR '']'') (tl r')
                   in if rest = [] then None else if inner = ''us'' then Some (w, tl rest) else None)
                else Some (w, r'))
          else Some (w, r))"

definition parse_usize :: "string \<Rightarrow> (u64 \<times> string) option" where
  "parse_usize s =
     (let s' = skip_ws s
      in map_option (\<lambda>n. (n, dropWhile is_digit s')) (parse_u64 (takeWhile is_digit s')))"

definition primitive_types :: "(string \<times> data_type) list" where
  "primitive_types =
     [(''int8'', DInt8), (''int16'', DInt16), (''int32'', DInt32), (''int64'', DInt64),
      (''uint8'', DUInt8), (''uint16'', DUInt16), (''uint32'', DUInt32), (''uint64'', DUInt64),
      (''float32'', DFloat32), (''float64'', DFloat64), (''utf8'', DUtf8), (''string'', DUtf8),
      (''large_utf8'', DLargeUtf8), (''binary'', DBinary), (''large_binary'', DLargeBinary),
      (''bool'', DBoolean), (''timestamp'', DTimestampUs None)]"

text \<open>
  The recursion is bounded by a number of nested calls; \<open>z\<close> and \<open>zs\<close> are the results once it is used up. The parser proper gives
  \<open>None\<close> there, and it is shown that, with a bound above the length of the input, no call ever gets there.
\<close>

fun parse_type_or :: "(data_type \<times> string) option \<Rightarrow> (dfield list \<times> string) option \<Rightarrow> nat \<Rightarrow> string \<Rightarrow> (data_type \<times> string) option"
  and parse_struct_fields_or :: "(data_type \<times> string) option \<Rightarrow> (dfield list \<times> string) option \<Rightarrow> nat \<Rightarrow> string \<Rightarrow> (dfield list \<times> string) option" where
  "parse_type_or z zs 0 s = z"
| "parse_type_or z zs (Suc f) s =
     Option.bind (parse_word s) (\<lambda>(w, r0).
       let r = skip_ws r0
       in case map_of primitive_types w of
            Some t \<Rightarrow> Some (t, r)
          | None \<Rightarrow>
              if w = ''list'' then
                Option.bind (expect (CHR ''<'') r) (\<lambda>r1.
                Option.bind (parse_type_or z zs f r1) (\<lambda>(item, r2).
                Option.bind (expect (CHR ''>'') r2) (\<lambda>r3. Some (DList (Field ''item'' item True), r3))))
              else if w = ''large_list'' then
                Option.bind (expect (CHR ''<'') r) (\<lambda>r1.
                Option.bind (parse_type_or z zs f r1) (\<lambda>(item, r2).
                Option.bind (expect (CHR ''>'') r2) (\<lambda>r3. Some (DLargeList (Field ''item'' item True), r3))))
              else if w = ''struct'' then
                Option.bind (expect (CHR ''<'') r) (\<lambda>r1.
                Option.bind (parse_struct_fields_or z zs f r1) (\<lambda>(fields, r2).
                Option.bind (expect (CHR ''>'') r2) (\<lambda>r3. Some (DStruct fields, r3))))
              else if w = ''map'' then
                Option.bind (expect (CHR ''<'') r) (\<lambda>r1.
                Option.bind (parse_type_or z zs f r1) (\<lambda>(k, r2).
                Option.bind (expect (CHR '','') r2) (\<lambda>r3.
                Option.bind (parse_type_or z zs f r3) (\<lambda>(v, r4).
                Option.bind (expect (CHR ''>'') r4) (\<lambda>r5.
                Some (DMap (Field ''entries''
                  (DStruct [Field ''key'' k False, Field ''value'' v True]) False) False, r5))))))
              else if w = ''decimal128'' then
                Option.bind (expect (CHR ''('') r) (\<lambda>r1.
                Option.bind (parse_usize r1) (\<lambda>(p, r2).
                Option.bind (expect (CHR '','') r2) (\<lambda>r3.
                Option.bind (parse_usize r3) (\<lambda>(sc, r4).
                Option.bind (expect (CHR '')'') r4) (\<lambda>r5. Some (DDecimal128 (ucast p) (ucast sc), r5))))))
              else if w = ''fixed_size_binary'' then
                Option.bind (expect (CHR ''('') r) (\<lambda>r1.
                Option.bind (parse_usize r1) (\<lambda>(n, r2).
                Option.bind (expect (CHR '')'') r2) (\<lambda>r3. Some (DFixedSizeBinary (ucast n), r3))))
              else None)"
| "parse_struct_fields_or z zs 0 s = zs"
| "parse_struct_fields_or z zs (Suc f) s =
     (let s' = skip_ws s
      in if s' \<noteq> [] \<and> hd s' = CHR ''>'' then Some ([], s')
         else
           Option.bind (parse_field_name s') (\<lambda>(name, r0).
           Option.bind (expect (CHR '':'') (skip_ws r0)) (\<lambda>r1.
           Option.bind (parse_type_or z zs f r1) (\<lambda>(t, r2).
             let r3 = skip_ws r2; fld = Field name t True
             in if r3 \<noteq> [] \<and> hd r3 = CHR '','' then
                  map_option (\<lambda>(fs, r). (fld # fs, r)) (parse_struct_fields_or z zs f (tl r3))
                else if r3 \<noteq> [] \<and> hd r3 = CHR ''>'' then Some ([fld], r3)
                else None))))"

abbreviation parse_type :: "nat \<Rightarrow> string \<Rightarrow> (data_type \<times> string) option" where
  "parse_type \<equiv> parse_type_or None None"

abbreviation parse_struct_fields :: "nat \<Rightarrow> string \<Rightarrow> (dfield list \<times> string) option" where
  "parse_struct_fields \<equiv> parse_struct_fields_or None None"

text \<open>\<^verbatim>\<open>str::trim\<close> and the entry point; input left after the type is not looked at.\<close>

definition trim :: "string \<Rightarrow> string" where
  "trim s = rev (dropWhile is_whitespace (rev (dropWhile is_whitespace s)))"

definition icefalldb_type_to_arrow :: "string \<Rightarrow> data_type option" where
  "icefalldb_type_to_arrow s = map_option fst (parse_type (length s + 1) (trim s))"

section \<open>The printer\<close>

definition show_sint :: "'a :: len word \<Rightarrow> string" where
  "show_sint w = (if sint w < 0 then ''-'' @ show_nat (nat (- sint w)) else show_nat (nat (sint w)))"

definition join_comma :: "string list \<Rightarrow> string" where
  "join_comma xs = (case xs of [] \<Rightarrow> [] | y # ys \<Rightarrow> y @ concat (map (\<lambda>z. '', '' @ z) ys))"

lemma size_df_type [termination_simp]: "size (df_type f) < Suc (size f)"
  by (cases f) simp

lemma size_df_type_member [termination_simp]:
  "f \<in> set fs \<Longrightarrow> size (df_type f) < Suc (size_list size fs)"
  using size_df_type [of f] size_list_estimation' [of f fs "size f" size] by simp

lemma size_df_type_entry [termination_simp]:
  "df_type field = DStruct fs \<Longrightarrow> f \<in> set fs \<Longrightarrow> size (df_type f) < Suc (size field)"
  using size_df_type [of field] size_df_type_member [of f fs] by simp

fun arrow_type_to_icefalldb :: "data_type \<Rightarrow> string" where
  "arrow_type_to_icefalldb DInt8 = ''int8''"
| "arrow_type_to_icefalldb DInt16 = ''int16''"
| "arrow_type_to_icefalldb DInt32 = ''int32''"
| "arrow_type_to_icefalldb DInt64 = ''int64''"
| "arrow_type_to_icefalldb DUInt8 = ''uint8''"
| "arrow_type_to_icefalldb DUInt16 = ''uint16''"
| "arrow_type_to_icefalldb DUInt32 = ''uint32''"
| "arrow_type_to_icefalldb DUInt64 = ''uint64''"
| "arrow_type_to_icefalldb DFloat32 = ''float32''"
| "arrow_type_to_icefalldb DFloat64 = ''float64''"
| "arrow_type_to_icefalldb DBoolean = ''bool''"
| "arrow_type_to_icefalldb DUtf8 = ''utf8''"
| "arrow_type_to_icefalldb DLargeUtf8 = ''large_utf8''"
| "arrow_type_to_icefalldb DBinary = ''binary''"
| "arrow_type_to_icefalldb DLargeBinary = ''large_binary''"
| "arrow_type_to_icefalldb (DFixedSizeBinary n) = ''fixed_size_binary('' @ show_sint n @ '')''"
| "arrow_type_to_icefalldb (DTimestampUs tz) = ''timestamp[us]''"
| "arrow_type_to_icefalldb (DDecimal128 p sc) =
     ''decimal128('' @ show_nat (unat p) @ '','' @ show_sint sc @ '')''"
| "arrow_type_to_icefalldb (DList f) = ''list<'' @ arrow_type_to_icefalldb (df_type f) @ ''>''"
| "arrow_type_to_icefalldb (DLargeList f) = ''large_list<'' @ arrow_type_to_icefalldb (df_type f) @ ''>''"
| "arrow_type_to_icefalldb (DStruct fields) =
     ''struct<'' @ join_comma (map (\<lambda>f. df_name f @ '': '' @ arrow_type_to_icefalldb (df_type f)) fields) @ ''>''"
| "arrow_type_to_icefalldb (DMap field srt) =
     (case df_type field of
        DStruct fields \<Rightarrow>
          (let ts = map (\<lambda>f. (df_name f, arrow_type_to_icefalldb (df_type f))) fields;
               key = (case map_of ts ''key'' of Some t \<Rightarrow> t | None \<Rightarrow> ''utf8'');
               val = (case map_of ts ''value'' of Some t \<Rightarrow> t | None \<Rightarrow> ''utf8'')
           in ''map<'' @ key @ '','' @ val @ ''>'')
      | _ \<Rightarrow> ''map<utf8,utf8>'')"
| "arrow_type_to_icefalldb (DOther debug) = debug"

section \<open>The fuel is enough\<close>

lemma skip_ws_le: "length (skip_ws s) \<le> length s"
  by (simp add: skip_ws_def length_dropWhile_le)

lemma less_skip_ws: "n < length (skip_ws s) \<Longrightarrow> n < length s"
  using skip_ws_le [of s] by simp

lemma le_skip_ws: "n \<le> length (skip_ws s) - Suc 0 \<Longrightarrow> n \<le> length s"
  using skip_ws_le [of s] by simp

lemma expect_less: "expect c s = Some r \<Longrightarrow> length r < length s"
  using skip_ws_le [of s] by (auto simp: expect_def split: list.splits if_splits)

lemma parse_field_name_less: "parse_field_name s = Some (w, r) \<Longrightarrow> length r < length s"
proof -
  assume "parse_field_name s = Some (w, r)"
  then obtain c cs where c: "skip_ws s = c # cs" "word_start c" "r = dropWhile word_char (c # cs)"
    by (auto simp: parse_field_name_def Let_def split: list.splits if_splits)
  then have "r = dropWhile word_char cs" by (auto simp: word_start_def word_char_def)
  with c(1) skip_ws_le [of s] length_dropWhile_le [of word_char cs] show ?thesis by simp
qed

lemma parse_word_less: "parse_word s = Some (w, r) \<Longrightarrow> length r < length s"
proof -
  assume w: "parse_word s = Some (w, r)"
  then obtain v q where q: "parse_field_name s = Some (v, q)"
    by (auto simp: parse_word_def split: option.splits)
  have "length r \<le> length q"
    using w q skip_ws_le [of q] length_dropWhile_le [of "\<lambda>c. c \<noteq> CHR '']''" "tl (skip_ws q)"]
    by (auto simp: parse_word_def Let_def split: if_splits)
  with parse_field_name_less [OF q] show ?thesis by simp
qed

lemma parse_usize_le: "parse_usize s = Some (n, r) \<Longrightarrow> length r \<le> length s"
  using skip_ws_le [of s] length_dropWhile_le [of is_digit "skip_ws s"]
  by (auto simp: parse_usize_def Let_def)

lemmas consumed = expect_less parse_field_name_less parse_word_less parse_usize_le

lemma parse_consumes:
  "(\<forall>s t r. parse_type f s = Some (t, r) \<longrightarrow> length r < length s)
   \<and> (\<forall>s fs r. parse_struct_fields f s = Some (fs, r) \<longrightarrow> length r \<le> length s)"
proof (induction f)
  case (Suc f)
  have IHt: "\<And>s t r. parse_type f s = Some (t, r) \<Longrightarrow> length r < length s"
    and IHs: "\<And>s fs r. parse_struct_fields f s = Some (fs, r) \<Longrightarrow> length r \<le> length s"
    using Suc.IH by blast+
  have "length r < length s" if p: "parse_type (Suc f) s = Some (t, r)" for s t r
  proof -
    obtain w r0 where w: "parse_word s = Some (w, r0)"
      using p by (auto simp: bind_eq_Some_conv)
    have "length (skip_ws r0) < length s"
      using parse_word_less [OF w] skip_ws_le [of r0] by simp
    then show ?thesis
      using p w by (auto simp: Let_def bind_eq_Some_conv split: option.splits if_splits
          dest!: expect_less parse_usize_le IHt IHs)
  qed
  moreover have "length r \<le> length s" if p: "parse_struct_fields (Suc f) s = Some (fs, r)" for s fs r
    using p skip_ws_le [of s]
    by (auto simp: Let_def bind_eq_Some_conv split: if_splits intro!: order_trans [OF skip_ws_le]
        dest!: parse_field_name_less expect_less IHt IHs less_skip_ws le_skip_ws)
  ultimately show ?case by blast
qed simp

lemma parse_type_less: "parse_type f s = Some (t, r) \<Longrightarrow> length r < length s"
  using parse_consumes by blast

lemma parse_fuel:
  "(\<forall>g s. length s < f \<longrightarrow> length s < g \<longrightarrow> parse_type_or z zs f s = parse_type g s)
   \<and> (\<forall>g s. length s < f \<longrightarrow> length s < g \<longrightarrow> parse_struct_fields_or z zs f s = parse_struct_fields g s)"
proof (induction f)
  case (Suc f)
  have IHt: "\<And>g s. length s < f \<Longrightarrow> length s < g \<Longrightarrow> parse_type_or z zs f s = parse_type g s"
    and IHs: "\<And>g s. length s < f \<Longrightarrow> length s < g \<Longrightarrow> parse_struct_fields_or z zs f s = parse_struct_fields g s"
    using Suc.IH by blast+
  have "parse_type_or z zs (Suc f) s = parse_type (Suc g) s" if l: "length s < Suc f" "length s < Suc g" for s g
  proof (cases "parse_word s")
    case (Some wr)
    obtain w r0 where wr: "wr = (w, r0)" by (cases wr)
    define r where "r = skip_ws r0"
    have r: "length r < length s"
      using parse_word_less [of s w r0] Some wr skip_ws_le [of r0] by (simp add: r_def)
    have E: "parse_type_or z zs f r1 = parse_type g r1" "parse_struct_fields_or z zs f r1 = parse_struct_fields g r1"
      if "expect c r = Some r1" for c r1
      using expect_less [OF that] r l by (auto intro: IHt IHs)
    have M: "parse_type_or z zs f r3 = parse_type g r3"
      if "expect c r = Some r1" "parse_type g r1 = Some (k, r2)" "expect c' r2 = Some r3" for c r1 k r2 c' r3
      using expect_less [OF that(1)] expect_less [OF that(3)] r l parse_type_less [OF that(2)]
      by (intro IHt) linarith+
    have list: "Option.bind (expect c r) (\<lambda>r1. Option.bind (parse_type_or z zs f r1) K)
        = Option.bind (expect c r) (\<lambda>r1. Option.bind (parse_type g r1) K)"
      "Option.bind (expect c r) (\<lambda>r1. Option.bind (parse_struct_fields_or z zs f r1) L)
        = Option.bind (expect c r) (\<lambda>r1. Option.bind (parse_struct_fields g r1) L)"
      for c and K :: "data_type \<times> string \<Rightarrow> (data_type \<times> string) option"
        and L :: "dfield list \<times> string \<Rightarrow> (data_type \<times> string) option"
      using E by (auto intro!: Option.bind_cong)
    have map: "Option.bind (expect c r) (\<lambda>r1. Option.bind (parse_type g r1) (\<lambda>(k, r2).
          Option.bind (expect c' r2) (\<lambda>r3. Option.bind (parse_type_or z zs f r3) (K k))))
        = Option.bind (expect c r) (\<lambda>r1. Option.bind (parse_type g r1) (\<lambda>(k, r2).
          Option.bind (expect c' r2) (\<lambda>r3. Option.bind (parse_type g r3) (K k))))"
      for c c' and K :: "data_type \<Rightarrow> data_type \<times> string \<Rightarrow> (data_type \<times> string) option"
      using M by (auto intro!: Option.bind_cong split: prod.split)
    show ?thesis
      by (simp add: Some wr Let_def r_def [symmetric] list map split: option.split)
  qed simp
  moreover have "parse_struct_fields_or z zs (Suc f) s = parse_struct_fields (Suc g) s"
    if l: "length s < Suc f" "length s < Suc g" for s g
  proof -
    have E: "parse_type_or z zs f r1 = parse_type g r1"
      if "parse_field_name (skip_ws s) = Some (n, r0)" "expect c (skip_ws r0) = Some r1" for n r0 c r1
      using parse_field_name_less [OF that(1)] expect_less [OF that(2)] l skip_ws_le [of s] skip_ws_le [of r0]
      by (intro IHt) linarith+
    have M: "parse_struct_fields_or z zs f (tl (skip_ws r2)) = parse_struct_fields g (tl (skip_ws r2))"
      if "parse_field_name (skip_ws s) = Some (n, r0)" "expect c (skip_ws r0) = Some r1"
        "parse_type g r1 = Some (t, r2)" for n r0 c r1 t r2
    proof -
      have "length (tl (skip_ws r2)) \<le> length r2" using skip_ws_le [of r2] by simp
      then show ?thesis
        using parse_field_name_less [OF that(1)] expect_less [OF that(2)] parse_type_less [OF that(3)] l
          skip_ws_le [of s] skip_ws_le [of r0]
        by (intro IHs) linarith+
    qed
    show ?thesis
    proof (cases "parse_field_name (skip_ws s)")
      case (Some nr)
      obtain n r0 where nr: "parse_field_name (skip_ws s) = Some (n, r0)" using Some by (cases nr) auto
      show ?thesis
      proof (cases "expect (CHR '':'') (skip_ws r0)")
        case (Some r1)
        then show ?thesis
          using E [OF nr Some] M [OF nr Some] nr by (cases "parse_type g r1") (auto simp: Let_def)
      qed (use nr in \<open>auto simp: Let_def\<close>)
    qed (auto simp: Let_def)
  qed
  ultimately have "parse_type_or z zs (Suc f) s = parse_type g s"
    "parse_struct_fields_or z zs (Suc f) s = parse_struct_fields g s" if "length s < Suc f" "length s < g" for s g
    using that by (cases g; blast)+
  then show ?case by blast
qed simp

section \<open>Printed types parse back\<close>

definition is_ident :: "string \<Rightarrow> bool" where
  "is_ident s \<longleftrightarrow> s \<noteq> [] \<and> word_start (hd s) \<and> list_all word_char s"

text \<open>
  The types in the image of the parser: list items are nullable and named \<^verbatim>\<open>item\<close>, struct fields
  are nullable with an identifier for a name, map entries have the standard names and flags,
  scale and width are not negative, and timestamps have no zone.
\<close>

fun canonical :: "data_type \<Rightarrow> bool" where
  "canonical (DTimestampUs tz) \<longleftrightarrow> tz = None"
| "canonical (DDecimal128 p sc) \<longleftrightarrow> 0 \<le> sint sc"
| "canonical (DFixedSizeBinary n) \<longleftrightarrow> 0 \<le> sint n"
| "canonical (DList (Field n t b)) \<longleftrightarrow> n = ''item'' \<and> b \<and> canonical t"
| "canonical (DLargeList (Field n t b)) \<longleftrightarrow> n = ''item'' \<and> b \<and> canonical t"
| "canonical (DStruct fs) \<longleftrightarrow> (\<forall>f \<in> set fs. is_ident (df_name f) \<and> df_nullable f \<and> canonical (df_type f))"
| "canonical (DMap (Field n (DStruct [Field kn k kb, Field vn v vb]) b) srt) \<longleftrightarrow>
     n = ''entries'' \<and> \<not> b \<and> \<not> srt \<and> kn = ''key'' \<and> \<not> kb \<and> vn = ''value'' \<and> vb
     \<and> canonical k \<and> canonical v"
| "canonical (DMap f srt) \<longleftrightarrow> False"
| "canonical (DOther d) \<longleftrightarrow> False"
| "canonical t \<longleftrightarrow> True"

definition stops :: "string \<Rightarrow> bool" where
  "stops rest \<longleftrightarrow> rest = [] \<or> hd rest = CHR '','' \<or> hd rest = CHR ''>'' \<or> hd rest = CHR '')''"

lemma char_classes:
  "\<not> is_whitespace (CHR '','')" "\<not> is_whitespace (CHR ''>'')" "\<not> is_whitespace (CHR '')'')"
  "\<not> is_whitespace (CHR ''<'')" "\<not> is_whitespace (CHR ''('')" "\<not> is_whitespace (CHR '':'')"
  "\<not> word_char (CHR '','')" "\<not> word_char (CHR ''>'')" "\<not> word_char (CHR '')'')"
  "\<not> word_char (CHR ''<'')" "\<not> word_char (CHR ''('')" "\<not> word_char (CHR '':'')" "\<not> word_char (CHR ''['')"
  "\<not> is_digit (CHR '','')" "\<not> is_digit (CHR '')'')" "\<not> is_whitespace (CHR ''['')" "is_whitespace (CHR '' '')"
  by code_simp+

lemma word_not_ws: "word_char c \<Longrightarrow> \<not> is_whitespace c"
  by (auto simp: word_char_def is_whitespace_def is_alphabetic_def is_digit_def digit_val_def Let_def
      split: if_splits)

lemma word_start_char: "word_start c \<Longrightarrow> word_char c"
  by (auto simp: word_start_def word_char_def)

lemma skip_ws_stops [simp]: "stops rest \<Longrightarrow> skip_ws rest = rest"
  by (cases rest) (auto simp: stops_def skip_ws_def char_classes)

lemma skip_ws_Cons: "\<not> is_whitespace c \<Longrightarrow> skip_ws (c # s) = c # s"
  by (simp add: skip_ws_def)

lemma expect_Cons [simp]: "\<not> is_whitespace c \<Longrightarrow> expect c (c # s) = Some s"
  by (simp add: expect_def skip_ws_Cons)

lemma parse_name_ident:
  assumes "is_ident w" "rest = [] \<or> \<not> word_char (hd rest)"
  shows "parse_field_name (w @ rest) = Some (w, rest)"
proof -
  obtain c cs where w: "w = c # cs" "word_start c" using assms(1) by (cases w) (auto simp: is_ident_def)
  have all: "\<forall>x \<in> set w. word_char x" using assms(1) by (simp add: is_ident_def list_all_iff)
  have "takeWhile word_char (w @ rest) = w" "dropWhile word_char (w @ rest) = rest"
    using all assms(2) by (cases rest; simp add: takeWhile_append2 dropWhile_append2)+
  moreover have "skip_ws (w @ rest) = w @ rest"
    using w word_not_ws [OF word_start_char] by (simp add: skip_ws_Cons)
  ultimately show ?thesis using w by (simp add: parse_field_name_def Let_def)
qed

lemma parse_word_ident:
  assumes "is_ident w" "rest = [] \<or> \<not> word_char (hd rest)" "w \<noteq> ''timestamp''"
  shows "parse_word (w @ rest) = Some (w, rest)"
  using parse_name_ident [OF assms(1,2)] assms(3) by (simp add: parse_word_def)

lemma parse_name_space: "parse_field_name (CHR '' '' # s) = parse_field_name s"
  by (simp add: parse_field_name_def skip_ws_def char_classes)

lemma parse_type_space: "parse_type f (CHR '' '' # s) = parse_type f s"
  by (cases f) (simp_all add: parse_word_def parse_name_space)

lemma primitive_idents:
  "list_all (\<lambda>(w, t). is_ident w) primitive_types" "distinct (map fst primitive_types)"
  by code_simp+

lemma parse_primitive:
  assumes "(w, t) \<in> set primitive_types" "w \<noteq> ''timestamp''" "stops rest"
  shows "parse_type (Suc f) (w @ rest) = Some (t, rest)"
proof -
  have "is_ident w" using primitive_idents(1) assms(1) by (auto simp: list_all_iff)
  moreover have "rest = [] \<or> \<not> word_char (hd rest)" using assms(3) by (auto simp: stops_def char_classes)
  moreover have "map_of primitive_types w = Some t"
    using assms(1) primitive_idents(2) by (rule map_of_is_SomeI [rotated])
  ultimately show ?thesis using assms(2,3) by (simp add: parse_word_ident)
qed

lemma parse_timestamp:
  "stops rest \<Longrightarrow> parse_type (Suc f) (''timestamp[us]'' @ rest) = Some (DTimestampUs None, rest)"
proof -
  assume s: "stops rest"
  have "parse_field_name (''timestamp'' @ ''[us]'' @ rest) = Some (''timestamp'', ''[us]'' @ rest)"
    by (rule parse_name_ident) (code_simp, simp add: char_classes)
  then have "parse_word (''timestamp[us]'' @ rest) = Some (''timestamp'', rest)"
    by (simp add: parse_word_def skip_ws_Cons char_classes)
  moreover have "map_of primitive_types ''timestamp'' = Some (DTimestampUs None)" by code_simp
  ultimately show ?thesis using s by simp
qed

lemma show_nat_digits: "list_all is_digit (show_nat n)"
  using digits_show_nat by (fastforce simp: list_all_iff is_digit_def)

lemma parse_usize_show:
  assumes "n < 2 ^ 64" "\<not> is_digit c"
  shows "parse_usize (show_nat n @ c # rest) = Some (of_nat n, c # rest)"
proof -
  have d: "\<forall>x \<in> set (show_nat n). is_digit x" using show_nat_digits by (simp add: list_all_iff)
  have tw: "takeWhile is_digit (show_nat n @ c # rest) = show_nat n"
    "dropWhile is_digit (show_nat n @ c # rest) = c # rest"
    using d assms(2) by (simp_all add: takeWhile_append2 dropWhile_append2)
  obtain x xs where x: "show_nat n = x # xs" by (cases "show_nat n") auto
  have "is_digit x" using d x by simp
  then have "\<not> is_whitespace x" using word_not_ws by (auto simp: word_char_def)
  then have ws: "skip_ws (show_nat n @ c # rest) = show_nat n @ c # rest" by (simp add: x skip_ws_Cons)
  have "parse_u64 (show_nat n) = Some (of_nat n)"
    using parse_u64_pad [of 0 "of_nat n"] assms(1) by (simp add: pad_zeros_def unat_of_nat)
  then show ?thesis by (simp add: parse_usize_def ws tw)
qed

lemma struct_fields_space: "parse_struct_fields f (CHR '' '' # s) = parse_struct_fields f s"
  by (cases f) (simp_all add: skip_ws_def char_classes)

abbreviation print_field :: "dfield \<Rightarrow> string" where
  "print_field f \<equiv> df_name f @ '': '' @ arrow_type_to_icefalldb (df_type f)"

text \<open>A type that parses back from its printed form, wherever it stands.\<close>

definition prints_back :: "data_type \<Rightarrow> bool" where
  "prints_back t \<longleftrightarrow> (\<forall>f rest. length (arrow_type_to_icefalldb t) < f \<longrightarrow> stops rest \<longrightarrow>
     parse_type f (arrow_type_to_icefalldb t @ rest) = Some (t, rest))"

lemma parse_one_field:
  assumes "is_ident (df_name d)" "df_nullable d" "prints_back (df_type d)" "stops rest" "rest \<noteq> []"
    "length (print_field d) < Suc f"
  shows "parse_struct_fields (Suc f) (print_field d @ rest) =
    (if hd rest = CHR '','' then map_option (\<lambda>(fs, r). (d # fs, r)) (parse_struct_fields f (tl rest))
     else if hd rest = CHR ''>'' then Some ([d], rest) else None)"
proof -
  obtain c cs where c: "df_name d = c # cs" "word_start c"
    using assms(1) by (cases "df_name d") (auto simp: is_ident_def)
  have d: "Field (df_name d) (df_type d) True = d" using assms(2) by (cases d) simp
  let ?t = "arrow_type_to_icefalldb (df_type d)"
  have ws: "skip_ws (print_field d @ rest) = print_field d @ rest" "c \<noteq> CHR ''>''"
    using c word_not_ws [OF word_start_char] word_start_char char_classes by (auto simp: skip_ws_Cons)
  have name: "parse_field_name (print_field d @ rest) = Some (df_name d, '': '' @ ?t @ rest)"
    using parse_name_ident [OF assms(1), of "'': '' @ ?t @ rest"] by (simp add: char_classes)
  have "parse_type f (?t @ rest) = Some (df_type d, rest)"
    using assms(3,4,6) by (simp add: prints_back_def)
  then have body: "expect (CHR '':'') (skip_ws ('': '' @ ?t @ rest)) = Some (CHR '' '' # ?t @ rest)"
    "parse_type f (CHR '' '' # ?t @ rest) = Some (df_type d, rest)"
    by (simp_all add: skip_ws_Cons char_classes parse_type_space)
  have "hd (print_field d @ rest) \<noteq> CHR ''>''" using ws(2) c(1) by simp
  then show ?thesis
    unfolding parse_struct_fields_or.simps ws(1) Let_def name
    using body assms(4,5) d by (simp add: case_prod_beta)
qed

lemma join_comma_simps:
  "join_comma [] = []" "join_comma [x] = x" "join_comma (x # y # ys) = x @ '', '' @ join_comma (y # ys)"
  by (simp_all add: join_comma_def)

lemma parse_fields_print:
  assumes "\<forall>d \<in> set ds. is_ident (df_name d) \<and> df_nullable d \<and> prints_back (df_type d)"
    "length (join_comma (map print_field ds)) < f"
  shows "parse_struct_fields f (join_comma (map print_field ds) @ CHR ''>'' # rest) = Some (ds, CHR ''>'' # rest)"
  using assms
proof (induction ds arbitrary: f rule: induct_list012)
  case 1
  then show ?case by (cases f) (simp_all add: join_comma_simps skip_ws_Cons char_classes)
next
  case (2 d)
  then obtain f' where f: "f = Suc f'" by (cases f) auto
  show ?case
    using parse_one_field [of d "CHR ''>'' # rest" f'] 2 by (simp add: join_comma_simps f stops_def)
next
  case (3 d e ds)
  then obtain f' where f: "f = Suc f'" by (cases f) auto
  let ?more = "join_comma (map print_field (e # ds)) @ CHR ''>'' # rest"
  have "parse_struct_fields f' ?more = Some (e # ds, CHR ''>'' # rest)"
    using "3.prems" f by (intro "3.IH"(2)) (simp_all add: join_comma_simps)
  moreover have "parse_struct_fields (Suc f') (print_field d @ '', '' @ ?more)
      = map_option (\<lambda>(fs, r). (d # fs, r)) (parse_struct_fields f' (CHR '' '' # ?more))"
    using parse_one_field [of d "'', '' @ ?more" f'] "3.prems" f by (simp add: join_comma_simps stops_def)
  ultimately show ?case
    by (simp add: join_comma_simps f struct_fields_space)
qed

lemma composite_words:
  "is_ident ''list''" "is_ident ''large_list''" "is_ident ''struct''" "is_ident ''map''"
  "is_ident ''decimal128''" "is_ident ''fixed_size_binary''"
  "map_of primitive_types ''list'' = None" "map_of primitive_types ''large_list'' = None"
  "map_of primitive_types ''struct'' = None" "map_of primitive_types ''map'' = None"
  "map_of primitive_types ''decimal128'' = None" "map_of primitive_types ''fixed_size_binary'' = None"
  by code_simp+

lemma parse_composite_words:
  "parse_word (''list<'' @ s) = Some (''list'', ''<'' @ s)"
  "parse_word (''large_list<'' @ s) = Some (''large_list'', ''<'' @ s)"
  "parse_word (''struct<'' @ s) = Some (''struct'', ''<'' @ s)"
  "parse_word (''map<'' @ s) = Some (''map'', ''<'' @ s)"
  "parse_word (''decimal128('' @ s) = Some (''decimal128'', ''('' @ s)"
  "parse_word (''fixed_size_binary('' @ s) = Some (''fixed_size_binary'', ''('' @ s)"
  using parse_word_ident [OF composite_words(1), of "''<'' @ s"]
    parse_word_ident [OF composite_words(2), of "''<'' @ s"]
    parse_word_ident [OF composite_words(3), of "''<'' @ s"]
    parse_word_ident [OF composite_words(4), of "''<'' @ s"]
    parse_word_ident [OF composite_words(5), of "''('' @ s"]
    parse_word_ident [OF composite_words(6), of "''('' @ s"]
  by (simp_all add: char_classes)

lemma prints_backI:
  assumes "\<And>f rest. length (arrow_type_to_icefalldb t) < Suc f \<Longrightarrow> stops rest \<Longrightarrow>
    parse_type (Suc f) (arrow_type_to_icefalldb t @ rest) = Some (t, rest)"
  shows "prints_back t"
  unfolding prints_back_def
proof (intro allI impI)
  fix f rest assume "length (arrow_type_to_icefalldb t) < f" "stops rest"
  then show "parse_type f (arrow_type_to_icefalldb t @ rest) = Some (t, rest)"
    using assms by (cases f) simp_all
qed

lemma prints_backD:
  "prints_back t \<Longrightarrow> length (arrow_type_to_icefalldb t) < f \<Longrightarrow> stops rest \<Longrightarrow>
   parse_type f (arrow_type_to_icefalldb t @ rest) = Some (t, rest)"
  by (simp add: prints_back_def)

lemma stops_Cons: "stops (CHR ''>'' # s)" "stops (CHR '','' # s)" "stops (CHR '')'' # s)"
  by (simp_all add: stops_def)

lemma show_sint_nonneg: "0 \<le> sint w \<Longrightarrow> show_sint w = show_nat (unat w)"
  for w :: "'a :: len word"
proof -
  assume nn: "0 \<le> sint w"
  have "sint w < 2 ^ (LENGTH('a) - 1)" using sint_lt [of w] by simp
  also have "\<dots> \<le> 2 ^ LENGTH('a)" by (intro power_increasing) simp_all
  finally have "take_bit LENGTH('a) (sint w) = sint w" using nn by (intro take_bit_int_eq_self)
  then have "sint w = uint w" by (simp add: uint_sint)
  then show ?thesis by (simp add: show_sint_def)
qed

lemma prints_back_list:
  assumes "prints_back t"
  shows "prints_back (DList (Field ''item'' t True))" "prints_back (DLargeList (Field ''item'' t True))"
proof -
  show "prints_back (DList (Field ''item'' t True))"
    using assms parse_composite_words(1)
    by (intro prints_backI)
      (simp add: composite_words skip_ws_Cons char_classes prints_backD stops_Cons)
  show "prints_back (DLargeList (Field ''item'' t True))"
    using assms parse_composite_words(2)
    by (intro prints_backI)
      (simp add: composite_words skip_ws_Cons char_classes prints_backD stops_Cons)
qed

lemma prints_back_struct:
  assumes "\<forall>d \<in> set ds. is_ident (df_name d) \<and> df_nullable d \<and> prints_back (df_type d)"
  shows "prints_back (DStruct ds)"
  using assms parse_composite_words(3)
  by (intro prints_backI)
    (simp add: composite_words skip_ws_Cons char_classes parse_fields_print [simplified] stops_Cons)

lemma prints_back_map:
  assumes "prints_back k" "prints_back v"
  shows "prints_back (DMap (Field ''entries''
    (DStruct [Field ''key'' k False, Field ''value'' v True]) False) False)"
  using assms parse_composite_words(4)
  by (intro prints_backI)
    (simp add: composite_words skip_ws_Cons char_classes prints_backD stops_Cons)

lemma ucast_of_nat_unat: "ucast (of_nat (unat w) :: u64) = w" if "LENGTH('a) \<le> 64" for w :: "'a :: len word"
proof -
  have "unat w < 2 ^ LENGTH('a)" by (rule unsigned_less)
  also have "\<dots> \<le> (2 :: nat) ^ 64" using that by (intro power_increasing) simp_all
  finally have "unat w < 2 ^ 64" .
  then have "take_bit 64 (unat w) = unat w" by (rule take_bit_nat_eq_self)
  then have "unat (ucast w :: u64) = unat w" by (simp add: unsigned_ucast_eq)
  moreover have "take_bit LENGTH('a) (unat w) = unat w"
    using unsigned_less [of w] by (intro take_bit_nat_eq_self)
  ultimately show ?thesis
    using \<open>take_bit 64 (unat w) = unat w\<close>
    by (simp add: word_unat_eq_iff unsigned_ucast_eq unsigned_take_bit_eq)
qed

lemma prints_back_numbers:
  "0 \<le> sint sc \<Longrightarrow> prints_back (DDecimal128 p sc)" "0 \<le> sint n \<Longrightarrow> prints_back (DFixedSizeBinary n)"
proof -
  have lt: "unat p < 2 ^ 64" "unat sc < 2 ^ 64" "unat n < 2 ^ 64"
    using less_trans [OF unat_u8_less [of p], of "2 ^ 64"] less_trans [OF unat_u8_less [of sc], of "2 ^ 64"]
      unat_u32_less [of n] by simp_all
  have u: "ucast (of_nat (unat p) :: u64) = p" "ucast (of_nat (unat sc) :: u64) = sc"
    "ucast (of_nat (unat n) :: u64) = n"
    by (rule ucast_of_nat_unat; simp)+
  show "prints_back (DDecimal128 p sc)" if "0 \<le> sint sc"
    using parse_composite_words(5) that lt u
    by (intro prints_backI)
      (simp add: composite_words skip_ws_Cons char_classes show_sint_nonneg parse_usize_show)
  show "prints_back (DFixedSizeBinary n)" if "0 \<le> sint n"
    using parse_composite_words(6) that lt u
    by (intro prints_backI)
      (simp add: composite_words skip_ws_Cons char_classes show_sint_nonneg parse_usize_show)
qed

lemma canonical_prints_back: "canonical t \<Longrightarrow> prints_back t"
proof (induction t rule: canonical.induct)
  case (1 tz)
  then show ?case using parse_timestamp by (intro prints_backI) simp
next
  case (6 ds)
  then show ?case by (intro prints_back_struct) auto
qed (auto simp: prints_back_list prints_back_map prints_back_numbers primitive_types_def
    intro!: prints_backI parse_primitive [where w = "arrow_type_to_icefalldb _" and t = t for t])

lemma trim_id:
  assumes "s \<noteq> []" "\<not> is_whitespace (hd s)" "\<not> is_whitespace (last s)"
  shows "trim s = s"
proof -
  have "dropWhile is_whitespace s = s" using assms(1,2) by (cases s) auto
  moreover have "dropWhile is_whitespace (rev s) = rev s"
    using assms(1,3) by (cases s rule: rev_cases) auto
  ultimately show ?thesis by (simp add: trim_def)
qed

lemma ends_not_ws:
  "\<not> is_whitespace (CHR ''i'')" "\<not> is_whitespace (CHR ''u'')" "\<not> is_whitespace (CHR ''f'')"
  "\<not> is_whitespace (CHR ''b'')" "\<not> is_whitespace (CHR ''l'')" "\<not> is_whitespace (CHR ''t'')"
  "\<not> is_whitespace (CHR ''d'')" "\<not> is_whitespace (CHR ''s'')" "\<not> is_whitespace (CHR ''m'')"
  "\<not> is_whitespace (CHR ''8'')" "\<not> is_whitespace (CHR ''6'')" "\<not> is_whitespace (CHR ''2'')"
  "\<not> is_whitespace (CHR ''4'')" "\<not> is_whitespace (CHR ''y'')" "\<not> is_whitespace (CHR '']'')"
  by code_simp+

lemma canonical_ends:
  "canonical t \<Longrightarrow> arrow_type_to_icefalldb t \<noteq> []
     \<and> \<not> is_whitespace (hd (arrow_type_to_icefalldb t)) \<and> \<not> is_whitespace (last (arrow_type_to_icefalldb t))"
  by (cases t rule: canonical.cases) (auto simp: ends_not_ws char_classes Let_def)

lemma canonical_type_back: "canonical t \<Longrightarrow> icefalldb_type_to_arrow (arrow_type_to_icefalldb t) = Some t"
proof -
  assume c: "canonical t"
  have "trim (arrow_type_to_icefalldb t) = arrow_type_to_icefalldb t"
    using canonical_ends [OF c] by (intro trim_id) simp_all
  moreover have "parse_type (length (arrow_type_to_icefalldb t) + 1) (arrow_type_to_icefalldb t @ [])
      = Some (t, [])"
    by (rule prints_backD [OF canonical_prints_back [OF c]]) (simp_all add: stops_def)
  ultimately show ?thesis by (simp add: icefalldb_type_to_arrow_def)
qed

text \<open>C31: Printing a canonical column type and parsing the string gives the type back
  (\<^verbatim>\<open>arrow_type_to_icefalldb\<close> and \<^verbatim>\<open>icefalldb_type_to_arrow\<close> are inverse on the types the parser produces),
  for arbitrarily nested lists, structs and maps.\<close>

theorem type_string_roundtrip:
  assumes "canonical t"
  shows "icefalldb_type_to_arrow (arrow_type_to_icefalldb t) = Some t"
  using assms by (rule canonical_type_back)

theorem type_string_roundtrip_witness:
  "canonical (DStruct [Field ''a'' (DList (Field ''item'' DInt64 True)) True])
   \<and> icefalldb_type_to_arrow ''struct<a: list<int64>>''
       = Some (DStruct [Field ''a'' (DList (Field ''item'' DInt64 True)) True])"
proof -
  have c: "canonical (DStruct [Field ''a'' (DList (Field ''item'' DInt64 True)) True])" by code_simp
  show ?thesis using type_string_roundtrip [OF c] c by (simp add: join_comma_def)
qed

text \<open>C32: The type parser terminates: it nests at most as many calls as the input has characters. With a bound above that, what the
  bounded parser would return on reaching the bound does not matter, whatever it is, nor does the bound, so that no call reaches it; a
  string that does not parse is rejected by the grammar and not for lack of steps.\<close>

theorem type_parser_terminates:
  assumes "length s < f" "length s < g"
  shows "parse_type_or z zs f s = parse_type_or z' zs' g s"
  using parse_fuel [of f z zs] parse_fuel [of g z' zs'] assms by metis

theorem type_parser_terminates_witness:
  "parse_type_or (Some (DOther ''spent'', [])) (Some ([], [])) 11 ''list<int8>'' = Some (DList (Field ''item'' DInt8 True), [])
   \<and> parse_type_or (Some (DOther ''spent'', [])) (Some ([], [])) 11 ''list<int8'' = None"
proof -
  have "parse_type 20 ''list<int8>'' = Some (DList (Field ''item'' DInt8 True), [])" "parse_type 20 ''list<int8'' = None" by code_simp+
  then show ?thesis
    using type_parser_terminates [of "''list<int8>''" 11 20 "Some (DOther ''spent'', [])" "Some ([], [])" None None]
      type_parser_terminates [of "''list<int8''" 11 20 "Some (DOther ''spent'', [])" "Some ([], [])" None None] by simp
qed

end
