(* ===== verification/Schema.thy ===== *)
theory Schema
  imports Type_Syntax Manifest
begin

text \<open>
  Table schemas: the structs and field-id assignment of
  \<^verbatim>\<open>crates/icefalldb-core/src/metadata/schema.rs\<close>, the conversion from and to Arrow schemas of
  \<^verbatim>\<open>schema_util.rs\<close>, and the serialized form. A field id is an \<^verbatim>\<open>i32\<close>: an integer whose successor
  wraps at \<^verbatim>\<open>i32::MAX\<close>.
\<close>

section \<open>Structs\<close>

record column =
  col_name :: string
  col_type :: string
  col_nullable :: bool
  col_field_id :: int

record table_schema =
  sc_schema_id :: u64
  sc_columns :: "column list"
  sc_partition_by :: "string list option"
  sc_sort :: "string list option"
  sc_agg_group_keys :: "string list option"
  sc_row_group_target_rows :: u64
  sc_row_group_target_bytes :: u64
  sc_dropped_columns :: "string list"
  sc_max_field_id :: int

definition new_column :: "string \<Rightarrow> string \<Rightarrow> bool \<Rightarrow> column" where
  "new_column name ty nullable =
     \<lparr>col_name = name, col_type = ty, col_nullable = nullable, col_field_id = 0\<rparr>"

definition schema_filename :: "u64 \<Rightarrow> string" where
  "schema_filename i = ''_schemas/'' @ pad_zeros 6 (show_nat (unat i)) @ ''.json''"

section \<open>Field ids\<close>

definition i32_succ :: "int \<Rightarrow> int" where
  "i32_succ n = (if n = 2 ^ 31 - 1 then - (2 ^ 31) else n + 1)"

definition i32_pred :: "int \<Rightarrow> int" where
  "i32_pred n = (if n = - (2 ^ 31) then 2 ^ 31 - 1 else n - 1)"

text \<open>The highest positive id of the columns, or 0.\<close>

definition highest_column_id :: "column list \<Rightarrow> int" where
  "highest_column_id cols = foldl max 0 (filter (\<lambda>i. 0 < i) (map col_field_id cols))"

text \<open>The ids a previous schema passes on: assigned, and not those of a dropped column.\<close>

definition inherited_ids :: "table_schema option \<Rightarrow> string \<Rightarrow> int option" where
  "inherited_ids previous =
     (case previous of
        None \<Rightarrow> (\<lambda>_. None)
      | Some p \<Rightarrow> map_of (rev (map (\<lambda>c. (col_name c, col_field_id c))
          (filter (\<lambda>c. 0 < col_field_id c \<and> col_name c \<notin> set (sc_dropped_columns p)) (sc_columns p)))))"

fun assign_columns :: "(string \<Rightarrow> int option) \<Rightarrow> int \<Rightarrow> column list \<Rightarrow> column list \<times> int" where
  "assign_columns ids next_id [] = ([], next_id)"
| "assign_columns ids next_id (c # cs) =
     (case ids (col_name c) of
        Some i \<Rightarrow> (case assign_columns ids next_id cs of (cs', n') \<Rightarrow> (c\<lparr>col_field_id := i\<rparr> # cs', n'))
      | None \<Rightarrow> (case assign_columns ids (i32_succ next_id) cs of
                   (cs', n') \<Rightarrow> (c\<lparr>col_field_id := next_id\<rparr> # cs', n')))"

definition assign_field_ids :: "table_schema option \<Rightarrow> table_schema \<Rightarrow> table_schema" where
  "assign_field_ids previous self =
     (let ids = inherited_ids previous;
          previous_max = (case previous of None \<Rightarrow> 0 | Some p \<Rightarrow> max (sc_max_field_id p) 0);
          previous_highest = (case previous of None \<Rightarrow> 0 | Some p \<Rightarrow> highest_column_id (sc_columns p));
          next_id = i32_succ (max (max previous_max previous_highest) (max (sc_max_field_id self) 0));
          (cols, next') = assign_columns ids next_id (sc_columns self)
      in self\<lparr>sc_columns := cols,
              sc_max_field_id := max (max (max (sc_max_field_id self) 0) previous_max) (i32_pred next')\<rparr>)"

definition repair_field_ids :: "table_schema \<Rightarrow> table_schema" where
  "repair_field_ids self = assign_field_ids None self"

definition has_field_ids :: "table_schema \<Rightarrow> bool" where
  "has_field_ids self \<longleftrightarrow> list_all (\<lambda>c. 0 < col_field_id c) (sc_columns self)"

definition next_field_id :: "table_schema \<Rightarrow> int" where
  "next_field_id self = i32_succ (max (sc_max_field_id self) (highest_column_id (sc_columns self)))"

section \<open>Arrow schemas\<close>

definition arrow_field_to_column :: "dfield \<Rightarrow> column" where
  "arrow_field_to_column f = new_column (df_name f) (arrow_type_to_icefalldb (df_type f)) (df_nullable f)"

definition arrow_schema_to_icefalldb :: "dfield list \<Rightarrow> table_schema" where
  "arrow_schema_to_icefalldb flds =
     \<lparr>sc_schema_id = 1, sc_columns = map arrow_field_to_column flds, sc_partition_by = None,
      sc_sort = None, sc_agg_group_keys = None, sc_row_group_target_rows = 1000000,
      sc_row_group_target_bytes = 134217728, sc_dropped_columns = [], sc_max_field_id = 0\<rparr>"

definition arrow_schema :: "table_schema \<Rightarrow> dfield list option" where
  "arrow_schema self =
     option_all (map (\<lambda>c. map_option (\<lambda>t. Field (col_name c) t (col_nullable c))
       (icefalldb_type_to_arrow (col_type c))) (sc_columns self))"

section \<open>Serialized form\<close>

definition jint :: "int \<Rightarrow> json" where
  "jint i = (if 0 \<le> i then JNum (PosInt (word_of_int i)) else JNum (NegInt (word_of_int i)))"

definition de_i32 :: "json \<Rightarrow> int option" where
  "de_i32 v = (case v of
      JNum (PosInt n) \<Rightarrow> if uint n < 2 ^ 31 then Some (uint n) else None
    | JNum (NegInt n) \<Rightarrow> if - (2 ^ 31) \<le> sint n \<and> sint n < 0 then Some (sint n) else None
    | _ \<Rightarrow> None)"

definition column_value :: "column \<Rightarrow> json" where
  "column_value c = jobj
     [(''name'', Some (JStr (col_name c))), (''type'', Some (JStr (col_type c))),
      (''nullable'', Some (JBool (col_nullable c))), (''field_id'', Some (jint (col_field_id c)))]"

definition de_column :: "json \<Rightarrow> column option" where
  "de_column v =
     Option.bind (de_req ''name'' de_str v) (\<lambda>name.
     Option.bind (de_req ''type'' de_str v) (\<lambda>ty.
     Option.bind (de_req ''nullable'' de_bool v) (\<lambda>nullable.
     Option.bind (de_default ''field_id'' 0 de_i32 v) (\<lambda>field_id.
     Some \<lparr>col_name = name, col_type = ty, col_nullable = nullable, col_field_id = field_id\<rparr>))))"

definition schema_value :: "table_schema \<Rightarrow> json" where
  "schema_value s = jobj
     [(''schema_id'', Some (JNum (PosInt (sc_schema_id s)))),
      (''columns'', Some (JArr (map column_value (sc_columns s)))),
      (''partition_by'', map_option jstrs (sc_partition_by s)),
      (''sort'', map_option jstrs (sc_sort s)),
      (''agg_group_keys'', map_option jstrs (sc_agg_group_keys s)),
      (''row_group_target_rows'', Some (JNum (PosInt (sc_row_group_target_rows s)))),
      (''row_group_target_bytes'', Some (JNum (PosInt (sc_row_group_target_bytes s)))),
      (''dropped_columns'', skip_empty jstrs (sc_dropped_columns s)),
      (''max_field_id'', Some (jint (sc_max_field_id s)))]"

definition de_schema :: "json \<Rightarrow> table_schema option" where
  "de_schema v =
     Option.bind (de_req ''schema_id'' de_u64 v) (\<lambda>schema_id.
     Option.bind (de_req ''columns'' (de_vec de_column) v) (\<lambda>columns.
     Option.bind (de_default ''partition_by'' None (de_option (de_vec de_str)) v) (\<lambda>partition_by.
     Option.bind (de_default ''sort'' None (de_option (de_vec de_str)) v) (\<lambda>srt.
     Option.bind (de_default ''agg_group_keys'' None (de_option (de_vec de_str)) v) (\<lambda>keys.
     Option.bind (de_req ''row_group_target_rows'' de_u64 v) (\<lambda>target_rows.
     Option.bind (de_req ''row_group_target_bytes'' de_u64 v) (\<lambda>target_bytes.
     Option.bind (de_default ''dropped_columns'' [] (de_vec de_str) v) (\<lambda>dropped.
     Option.bind (de_default ''max_field_id'' 0 de_i32 v) (\<lambda>max_field_id.
     Some \<lparr>sc_schema_id = schema_id, sc_columns = columns, sc_partition_by = partition_by,
           sc_sort = srt, sc_agg_group_keys = keys, sc_row_group_target_rows = target_rows,
           sc_row_group_target_bytes = target_bytes, sc_dropped_columns = dropped,
           sc_max_field_id = max_field_id\<rparr>)))))))))"

definition parse_schema :: "ext \<Rightarrow> bytes \<Rightarrow> table_schema option" where
  "parse_schema X bs = Option.bind (json_parse X bs) de_schema"

definition i32_range :: "int \<Rightarrow> bool" where
  "i32_range i \<longleftrightarrow> - (2 ^ 31) \<le> i \<and> i < 2 ^ 31"

lemma de_i32_jint: "i32_range i \<Longrightarrow> de_i32 (jint i) = Some i"
proof (cases "0 \<le> i")
  case True
  assume r: "i32_range i"
  then have "uint (word_of_int i :: u64) = i"
    using True by (simp add: uint_word_of_int i32_range_def)
  with r True show ?thesis by (simp add: de_i32_def jint_def i32_range_def)
next
  case False
  assume r: "i32_range i"
  then have "sint (word_of_int i :: u64) = i"
    using False by (simp add: signed_of_int signed_take_bit_int_eq_self i32_range_def)
  with r False show ?thesis by (simp add: de_i32_def jint_def i32_range_def)
qed

lemma column_roundtrip: "i32_range (col_field_id c) \<Longrightarrow> de_column (column_value c) = Some c"
  by (simp add: de_column_def column_value_def de_req_eq de_bool_def de_default_def de_i32_jint)

lemma schema_roundtrip:
  assumes "i32_range (sc_max_field_id s)" "\<forall>c \<in> set (sc_columns s). i32_range (col_field_id c)"
  shows "de_schema (schema_value s) = Some s"
proof -
  have opt: "de_default k None (de_option (de_vec de_str)) v = Some x"
    if "jfield k v = map_option jstrs x" for k v x
    using that by (rule de_opt) (simp add: de_vec_map)
  have "de_vec de_column (JArr (map column_value (sc_columns s))) = Some (sc_columns s)"
    using assms(2) by (intro de_vec_map) (simp add: column_roundtrip)
  then show ?thesis
    using assms(1)
    by (simp add: de_schema_def schema_value_def de_req_eq opt de_skip_strs de_default_def [of "''max_field_id''"]
        de_i32_jint)
qed

text \<open>Converting an Arrow schema and back keeps its fields, when their types are canonical.\<close>

lemma arrow_schema_back:
  assumes "\<forall>f \<in> set flds. canonical (df_type f)"
  shows "arrow_schema (arrow_schema_to_icefalldb flds) = Some flds"
proof -
  have "option_all (map ((\<lambda>c. map_option (\<lambda>t. Field (col_name c) t (col_nullable c))
      (icefalldb_type_to_arrow (col_type c))) \<circ> arrow_field_to_column) flds) = Some (map id flds)"
    using assms
    by (intro option_all_map_Some) (simp add: arrow_field_to_column_def new_column_def canonical_type_back)
  then show ?thesis by (simp add: arrow_schema_def arrow_schema_to_icefalldb_def)
qed

section \<open>What the ids promise\<close>

definition column_ids :: "table_schema \<Rightarrow> int list" where
  "column_ids s = map col_field_id (sc_columns s)"

text \<open>A persisted schema: distinct names and distinct positive ids.\<close>

definition schema_wf :: "table_schema \<Rightarrow> bool" where
  "schema_wf s \<longleftrightarrow> distinct (map col_name (sc_columns s)) \<and> distinct (column_ids s)
     \<and> (\<forall>i \<in> set (column_ids s). 0 < i)"

lemma foldl_max_start: "a \<le> foldl max a xs" for a :: int
  by (induction xs arbitrary: a) (auto intro: order_trans [OF max.cobounded1])

lemma foldl_max_member: "x \<in> set xs \<Longrightarrow> x \<le> foldl max a xs" for a x :: int
  by (induction xs arbitrary: a) (auto intro: order_trans [OF max.cobounded2 foldl_max_start])

lemmas foldl_max_ge = foldl_max_start foldl_max_member

lemma highest_column_id_ge:
  "0 \<le> highest_column_id cols" "c \<in> set cols \<Longrightarrow> 0 < col_field_id c \<Longrightarrow> col_field_id c \<le> highest_column_id cols"
  using foldl_max_ge by (auto simp: highest_column_id_def)

lemma inherited_ids_wf:
  assumes "schema_wf p" "c \<in> set (sc_columns p)"
  shows "inherited_ids (Some p) (col_name c)
    = (if col_name c \<in> set (sc_dropped_columns p) then None else Some (col_field_id c))"
proof -
  let ?cs = "filter (\<lambda>c. 0 < col_field_id c \<and> col_name c \<notin> set (sc_dropped_columns p)) (sc_columns p)"
  have pos: "0 < col_field_id c" using assms by (auto simp: schema_wf_def column_ids_def)
  have dist: "distinct (map fst (rev (map (\<lambda>c. (col_name c, col_field_id c)) ?cs)))"
    using assms(1) by (simp add: schema_wf_def rev_map [symmetric] comp_def distinct_map_filter)
  show ?thesis
  proof (cases "col_name c \<in> set (sc_dropped_columns p)")
    case True
    then show ?thesis by (auto simp: inherited_ids_def map_of_eq_None_iff)
  next
    case False
    then have "(col_name c, col_field_id c) \<in> set (rev (map (\<lambda>c. (col_name c, col_field_id c)) ?cs))"
      using assms(2) pos by auto
    with dist have "map_of (rev (map (\<lambda>c. (col_name c, col_field_id c)) ?cs)) (col_name c) = Some (col_field_id c)"
      by (rule map_of_is_SomeI)
    then show ?thesis using False by (simp add: inherited_ids_def)
  qed
qed

lemma inherited_ids_from:
  "inherited_ids (Some p) n = Some i \<Longrightarrow> \<exists>c \<in> set (sc_columns p). col_name c = n \<and> col_field_id c = i \<and> 0 < i"
  by (auto simp: inherited_ids_def dest!: map_of_SomeD)

lemma assign_columns_names:
  "assign_columns ids n cs = (cs', n') \<Longrightarrow> map col_name cs' = map col_name cs"
  by (induction cs arbitrary: n cs') (auto split: option.splits prod.splits)

text \<open>
  New ids are taken in order from \<open>n\<close>, as long as the counter does not reach \<^verbatim>\<open>i32::MAX\<close>.
\<close>

lemma assign_columns_spec:
  assumes "assign_columns ids n cs = (cs', n')" "n + int (length cs) < 2 ^ 31"
  shows "n \<le> n' \<and> n' \<le> n + int (length cs)
    \<and> (\<forall>c \<in> set cs'. case ids (col_name c) of Some i \<Rightarrow> col_field_id c = i
         | None \<Rightarrow> n \<le> col_field_id c \<and> col_field_id c < n')
    \<and> sorted_wrt (<) (map col_field_id (filter (\<lambda>c. ids (col_name c) = None) cs'))"
  using assms
proof (induction cs arbitrary: n cs')
  case (Cons c cs)
  show ?case
  proof (cases "ids (col_name c)")
    case None
    have succ: "i32_succ n = n + 1" using Cons.prems(2) by (simp add: i32_succ_def)
    obtain cs'' where cs'': "cs' = c\<lparr>col_field_id := n\<rparr> # cs''" "assign_columns ids (n + 1) cs = (cs'', n')"
      using Cons.prems(1) None succ by (auto split: prod.splits)
    have IH: "n + 1 \<le> n' \<and> n' \<le> n + 1 + int (length cs)
      \<and> (\<forall>c \<in> set cs''. case ids (col_name c) of Some i \<Rightarrow> col_field_id c = i
         | None \<Rightarrow> n + 1 \<le> col_field_id c \<and> col_field_id c < n')
      \<and> sorted_wrt (<) (map col_field_id (filter (\<lambda>c. ids (col_name c) = None) cs''))"
      using Cons.IH [OF cs''(2)] Cons.prems(2) by simp
    have "\<forall>d \<in> set cs''. ids (col_name d) = None \<longrightarrow> n < col_field_id d"
      using IH by (force split: option.splits)
    then show ?thesis using IH cs''(1) None by (auto split: option.splits)
  next
    case (Some i)
    then obtain cs'' where cs'': "cs' = c\<lparr>col_field_id := i\<rparr> # cs''" "assign_columns ids n cs = (cs'', n')"
      using Cons.prems(1) by (auto split: prod.splits)
    then show ?thesis using Cons.IH [OF cs''(2)] Cons.prems(2) Some by auto
  qed
qed simp

text \<open>The first id \<^verbatim>\<open>assign_field_ids\<close> hands out, less one.\<close>

definition id_floor :: "table_schema option \<Rightarrow> table_schema \<Rightarrow> int" where
  "id_floor previous self =
     max (max (case previous of None \<Rightarrow> 0 | Some p \<Rightarrow> max (sc_max_field_id p) 0)
              (case previous of None \<Rightarrow> 0 | Some p \<Rightarrow> highest_column_id (sc_columns p)))
         (max (sc_max_field_id self) 0)"

lemma id_floor_ge:
  "0 \<le> id_floor previous self" "sc_max_field_id self \<le> id_floor previous self"
  "previous = Some p \<Longrightarrow> sc_max_field_id p \<le> id_floor previous self"
  "previous = Some p \<Longrightarrow> highest_column_id (sc_columns p) \<le> id_floor previous self"
  by (auto simp: id_floor_def)

lemma assign_field_ids_columns:
  assumes "id_floor previous self + 1 + int (length (sc_columns self)) < 2 ^ 31"
  obtains cols n' where "assign_columns (inherited_ids previous) (id_floor previous self + 1) (sc_columns self) = (cols, n')"
    "sc_columns (assign_field_ids previous self) = cols"
    "sc_max_field_id (assign_field_ids previous self)
       = max (max (max (sc_max_field_id self) 0)
           (case previous of None \<Rightarrow> 0 | Some p \<Rightarrow> max (sc_max_field_id p) 0)) (n' - 1)"
    "id_floor previous self + 1 \<le> n'"
proof -
  obtain cols n' where c: "assign_columns (inherited_ids previous) (id_floor previous self + 1) (sc_columns self) = (cols, n')"
    by (cases "assign_columns (inherited_ids previous) (id_floor previous self + 1) (sc_columns self)")
  have succ: "i32_succ (id_floor previous self) = id_floor previous self + 1"
    using assms by (simp add: i32_succ_def)
  have n': "id_floor previous self + 1 \<le> n'" using assign_columns_spec [OF c] assms by simp
  then have "i32_pred n' = n' - 1" using id_floor_ge(1) [of previous self] by (simp add: i32_pred_def)
  then have "assign_field_ids previous self = self\<lparr>sc_columns := cols, sc_max_field_id :=
      max (max (max (sc_max_field_id self) 0)
        (case previous of None \<Rightarrow> 0 | Some p \<Rightarrow> max (sc_max_field_id p) 0)) (n' - 1)\<rparr>"
    using c succ unfolding assign_field_ids_def Let_def id_floor_def by (simp only: prod.case)
  then show ?thesis using c n' by (intro that [of cols n']) simp_all
qed

lemma inherited_source:
  assumes "inherited_ids previous m = Some i"
  shows "\<exists>p c. previous = Some p \<and> c \<in> set (sc_columns p) \<and> col_name c = m \<and> col_field_id c = i \<and> 0 < i"
proof -
  obtain p where "previous = Some p" using assms by (cases previous) (auto simp: inherited_ids_def)
  with inherited_ids_from [of p m i] assms show ?thesis by auto
qed

lemma inherited_below_floor:
  assumes "inherited_ids previous m = Some i"
  shows "0 < i" "i \<le> id_floor previous self"
proof -
  obtain p c where c: "previous = Some p" "c \<in> set (sc_columns p)" "col_field_id c = i" "0 < i"
    using inherited_source [OF assms] by blast
  then show "0 < i" "i \<le> id_floor previous self"
    using highest_column_id_ge(2) [of c "sc_columns p"] id_floor_ge(4) [OF c(1), of self] by linarith+
qed

lemma assigned_ids_inj:
  assumes wf: "\<And>p. previous = Some p \<Longrightarrow> schema_wf p"
    and b: "id_floor previous self + 1 + int (length cs) < 2 ^ 31"
    and c: "assign_columns (inherited_ids previous) (id_floor previous self + 1) cs = (cols, n')"
    and names: "distinct (map col_name cols)"
  shows "inj_on col_field_id (set cols)"
proof (rule inj_onI)
  fix x y assume xy: "x \<in> set cols" "y \<in> set cols" "col_field_id x = col_field_id y"
  let ?ids = "inherited_ids previous"
  note spec = assign_columns_spec [OF c b]
  have new: "id_floor previous self < col_field_id d" if "d \<in> set cols" "?ids (col_name d) = None" for d
    using spec that by (force split: option.splits)
  have old: "?ids (col_name d) = Some (col_field_id d)" if "d \<in> set cols" "?ids (col_name d) \<noteq> None" for d
    using spec that by (force split: option.splits)
  have mixed: False
    if "d \<in> set cols" "e \<in> set cols" "col_field_id d = col_field_id e" "?ids (col_name d) = None" "?ids (col_name e) \<noteq> None"
    for d e
    using new [OF that(1,4)] that(3) inherited_below_floor(2) [OF old [OF that(2,5)], of self] by linarith
  show "x = y"
  proof (cases "?ids (col_name x) = None")
    case True
    then have yN: "?ids (col_name y) = None" using mixed [of x y] xy by blast
    have "inj_on col_field_id (set (filter (\<lambda>c. ?ids (col_name c) = None) cols))"
      using spec by (auto simp: strict_sorted_iff distinct_map)
    then show ?thesis using True yN xy by (auto dest: inj_onD)
  next
    case False
    then have yS: "?ids (col_name y) \<noteq> None" using mixed [of y x] xy by fastforce
    obtain p c1 where p1: "previous = Some p" "c1 \<in> set (sc_columns p)" "col_name c1 = col_name x"
      "col_field_id c1 = col_field_id x" using inherited_source [OF old [OF xy(1) False]] by blast
    obtain q c2 where p2: "previous = Some q" "c2 \<in> set (sc_columns q)" "col_name c2 = col_name y"
      "col_field_id c2 = col_field_id y" using inherited_source [OF old [OF xy(2) yS]] by blast
    have "inj_on col_field_id (set (sc_columns p))"
      using wf [OF p1(1)] by (simp add: schema_wf_def column_ids_def distinct_map)
    moreover have "col_field_id c1 = col_field_id c2" using p1(4) p2(4) xy(3) by simp
    moreover have "c2 \<in> set (sc_columns p)" using p1(1) p2(1,2) by simp
    ultimately have "c1 = c2" using p1(2) by (meson inj_onD)
    then have "col_name x = col_name y" using p1 p2 by simp
    then show ?thesis using names xy by (auto simp: distinct_map dest: inj_onD)
  qed
qed

text \<open>
  What an evolution step promises: names keep their ids, new columns get ids above everything
  ever used, ids stay distinct and positive, and the recorded maximum never falls.
\<close>

definition ids_evolve :: "table_schema option \<Rightarrow> table_schema \<Rightarrow> table_schema \<Rightarrow> bool" where
  "ids_evolve previous self r \<longleftrightarrow>
     schema_wf r
     \<and> (\<forall>c \<in> set (sc_columns r). case inherited_ids previous (col_name c) of
          Some i \<Rightarrow> col_field_id c = i | None \<Rightarrow> id_floor previous self < col_field_id c)
     \<and> (\<forall>c \<in> set (sc_columns r). col_field_id c \<le> sc_max_field_id r)
     \<and> sc_max_field_id self \<le> sc_max_field_id r
     \<and> (\<forall>p. previous = Some p \<longrightarrow> sc_max_field_id p \<le> sc_max_field_id r)"

lemma assign_field_ids_evolve:
  assumes wf: "\<And>p. previous = Some p \<Longrightarrow> schema_wf p"
    and d: "distinct (map col_name (sc_columns self))"
    and b: "id_floor previous self + 1 + int (length (sc_columns self)) < 2 ^ 31"
  shows "ids_evolve previous self (assign_field_ids previous self)"
proof -
  let ?ids = "inherited_ids previous" and ?r = "assign_field_ids previous self"
  obtain cols n' where c: "assign_columns ?ids (id_floor previous self + 1) (sc_columns self) = (cols, n')"
    "sc_columns ?r = cols"
    "sc_max_field_id ?r = max (max (max (sc_max_field_id self) 0)
       (case previous of None \<Rightarrow> 0 | Some p \<Rightarrow> max (sc_max_field_id p) 0)) (n' - 1)"
    "id_floor previous self + 1 \<le> n'"
    using assign_field_ids_columns [OF b] by blast
  note spec = assign_columns_spec [OF c(1) b]
  have names: "distinct (map col_name cols)" using assign_columns_names [OF c(1)] d by simp
  have col: "0 < col_field_id x \<and> col_field_id x < n'
      \<and> (case ?ids (col_name x) of Some i \<Rightarrow> col_field_id x = i | None \<Rightarrow> id_floor previous self < col_field_id x)"
    if "x \<in> set cols" for x
  proof (cases "?ids (col_name x)")
    case None
    then show ?thesis using spec that id_floor_ge(1) [of previous self] by (force split: option.splits)
  next
    case (Some i)
    then have "col_field_id x = i" using spec that by (force split: option.splits)
    with inherited_below_floor(1) [OF Some] inherited_below_floor(2) [OF Some, of self] c(4) Some show ?thesis by simp
  qed
  have "distinct (map col_field_id cols)"
    using assigned_ids_inj [OF wf b c(1) names] names by (simp add: distinct_map)
  then have "schema_wf ?r" using names col c(2) by (auto simp: schema_wf_def column_ids_def)
  moreover have "col_field_id x \<le> sc_max_field_id ?r" if "x \<in> set cols" for x
    using col [OF that] c(3) by linarith
  moreover have "sc_max_field_id self \<le> sc_max_field_id ?r" using c(3) by linarith
  moreover have "sc_max_field_id p \<le> sc_max_field_id ?r" if "previous = Some p" for p
    using c(3) that by simp
  ultimately show ?thesis using col c(2) by (simp add: ids_evolve_def)
qed

end
