(* ===== verification/Catalog.thy ===== *)
theory Catalog
  imports Mutation_Wal Schema
begin

text \<open>
  The table catalog: \<^verbatim>\<open>crates/icefalldb-core/src/catalog.rs\<close>. \<open>refresh\<close> resolves the manifest
  pointer, validates the manifest and its schema, and replays the mutation log. A failing
  refresh leaves the cached state as it was, which is how its error result is read.
\<close>

section \<open>Operations\<close>

record catalog =
  cat_table :: string
  cat_latest_manifest :: "manifest option"
  cat_latest_schema :: "table_schema option"

definition pointer_latest :: "json \<Rightarrow> u64 option" where
  "pointer_latest v = Option.bind (jfield ''latest'' v) de_u64"

definition repaired :: "table_schema \<Rightarrow> table_schema" where
  "repaired sc = (if has_field_ids sc then sc else repair_field_ids sc)"

text \<open>No pointer: an uninitialized table, or a partially initialized one.\<close>

definition refresh_no_pointer :: "'s storage \<Rightarrow> catalog \<Rightarrow> ('s, catalog) io" where
  "refresh_no_pointer S cat =
     io_bind (io_try (st_exists S (tpath (cat_table cat) ''_schema.json''))) (\<lambda>r.
       case r of
         Inr True \<Rightarrow> io_throw (MissingManifestPointer (tpath (cat_table cat) ''_manifest.json''))
       | Inr False \<Rightarrow> io_return cat
       | Inl e \<Rightarrow> if is_not_found e then io_return cat else io_throw e)"

text \<open>\<^verbatim>\<open>latest = 0\<close>: a table without commits, whose schema may or may not be written yet.\<close>

definition refresh_empty :: "ext \<Rightarrow> 's storage \<Rightarrow> catalog \<Rightarrow> ('s, catalog) io" where
  "refresh_empty X S cat =
     io_bind (io_try (st_read S (tpath (cat_table cat) ''_schema.json''))) (\<lambda>r.
       case r of
         Inl e \<Rightarrow> if is_not_found e then io_return cat else io_throw e
       | Inr schema_data \<Rightarrow>
           io_bind (io_lift (ok_or (json_parse X schema_data) Serialization)) (\<lambda>ptr.
           io_bind (io_lift (ok_or (pointer_latest ptr)
               (InvalidSchemaPointer (tpath (cat_table cat) ''_schema.json'')))) (\<lambda>schema_id.
           io_bind (st_read S (tpath (cat_table cat) (schema_filename schema_id))) (\<lambda>bs.
           io_bind (io_lift (ok_or (parse_schema X bs) Serialization)) (\<lambda>schema.
           io_return (cat\<lparr>cat_latest_schema := Some (repaired schema)\<rparr>))))))"

definition refresh_snapshot :: "ext \<Rightarrow> hash_order \<Rightarrow> 's storage \<Rightarrow> catalog \<Rightarrow> u64 \<Rightarrow> ('s, catalog) io" where
  "refresh_snapshot X H S cat latest =
     (let manifest_path = tpath (cat_table cat) (manifest_filename latest)
      in io_bind (st_read S manifest_path) (\<lambda>bs.
         io_bind (io_lift (ok_or (parse_manifest X bs) Serialization)) (\<lambda>m.
           if \<not> verify_checksum X m then io_throw (ChecksumMismatch manifest_path)
           else if mf_sequence m \<noteq> latest then io_throw (InvalidManifestPointer ''sequence mismatch'')
           else
             let schema_path = tpath (cat_table cat) (schema_filename (mf_schema_id m))
             in io_bind (io_try (st_read S schema_path)) (\<lambda>r.
                  case r of
                    Inl e \<Rightarrow> if is_not_found e then io_throw (SchemaNotFound schema_path) else io_throw e
                  | Inr schema_data \<Rightarrow>
                      io_bind (io_lift (ok_or (parse_schema X schema_data) Serialization)) (\<lambda>schema.
                        if sc_schema_id schema \<noteq> mf_schema_id m
                        then io_throw (SchemaMismatch ''schema_id'' (show_nat (unat (mf_schema_id m))) schema_path)
                        else
                          io_bind (live_manifest X H S (cat_table cat) m) (\<lambda>live.
                            io_return (cat\<lparr>cat_latest_manifest := Some live,
                                           cat_latest_schema := Some (repaired schema)\<rparr>)))))))"

definition refresh :: "ext \<Rightarrow> hash_order \<Rightarrow> 's storage \<Rightarrow> catalog \<Rightarrow> ('s, catalog) io" where
  "refresh X H S cat =
     io_bind (io_try (st_read S (tpath (cat_table cat) ''_manifest.json''))) (\<lambda>r.
       case r of
         Inl e \<Rightarrow> if is_not_found e then refresh_no_pointer S cat else io_throw e
       | Inr data \<Rightarrow>
           io_bind (io_lift (ok_or (json_parse X data) Serialization)) (\<lambda>ptr.
           io_bind (io_lift (ok_or (pointer_latest ptr)
               (InvalidManifestPointer ''missing or invalid latest''))) (\<lambda>latest.
             if latest = 0 then refresh_empty X S cat else refresh_snapshot X H S cat latest)))"

definition catalog_load :: "ext \<Rightarrow> hash_order \<Rightarrow> 's storage \<Rightarrow> string \<Rightarrow> ('s, catalog) io" where
  "catalog_load X H S table =
     refresh X H S \<lparr>cat_table = table, cat_latest_manifest = None, cat_latest_schema = None\<rparr>"

section \<open>What a loaded catalog guarantees\<close>

lemma repaired_has_ids:
  assumes "distinct (map col_name (sc_columns sc))"
    "id_floor None sc + 1 + int (length (sc_columns sc)) < 2 ^ 31"
  shows "has_field_ids (repaired sc)"
proof (cases "has_field_ids sc")
  case False
  have "ids_evolve None sc (repair_field_ids sc)"
    unfolding repair_field_ids_def using assms by (intro assign_field_ids_evolve) simp_all
  then show ?thesis
    using False by (auto simp: repaired_def ids_evolve_def schema_wf_def column_ids_def has_field_ids_def list_all_iff)
qed (simp add: repaired_def)

lemma schema_path_join:
  "schema_filename q = join_path [''_schemas'', pad_zeros 6 (show_nat (unat q)) @ ''.json'']"
  by (simp add: schema_filename_def join_path_def)

lemma validate_schema_path:
  assumes "plain_piece table"
  shows "validate_path (tpath table (schema_filename q)) = Inr (tpath table (schema_filename q))"
proof -
  have "CHR ''/'' \<notin> set (pad_zeros 6 (show_nat (unat q)))"
    using digits_pad_zeros digit_char_neq(2) by metis
  moreover have "pad_zeros 6 (show_nat (unat q)) @ ''.json'' \<noteq> ''.''" "pad_zeros 6 (show_nat (unat q)) @ ''.json'' \<noteq> ''..''"
    by (auto dest!: arg_cong [where f = length])
  ultimately show ?thesis
    unfolding schema_path_join using assms by (intro validate_tpath) (auto simp: plain_piece_def)
qed

lemma schema_path_not_checkpoint: "tpath table (schema_filename i) \<notin> checkpoint_paths table q"
  by (simp add: checkpoint_paths_def schema_filename_def manifest_filename_def wal_path_def)

lemma fold_live_schema: "mf_schema_id (fold_live X base rs) = mf_schema_id base"
proof (induction rs rule: rev_induct)
  case (snoc r rs)
  then show ?case by (simp add: fold_live_def apply_record_def Let_def)
qed (simp add: fold_live_def)

lemma fold_live_mono: "mf_sequence base \<le> mf_sequence (fold_live X base rs)"
proof (induction rs rule: rev_induct)
  case (snoc r rs)
  then show ?case by (auto simp: fold_live_def intro: order_trans less_imp_le)
qed (simp add: fold_live_def)

context storage_contract
begin

lemma st_read_state: "st_read S raw s = (r, s') \<Longrightarrow> s' = s"
  by (cases "validate_path raw") (auto simp: invalid_read read_law)

text \<open>A loaded manifest stands on a manifest whose checksum and sequence were verified.\<close>

lemma refresh_snapshot_sound:
  assumes "refresh_snapshot X H S cat latest s = (Inr cat', s')"
  shows "\<exists>bs m sc. st_read S (tpath (cat_table cat) (manifest_filename latest)) s = (Inr bs, s)
    \<and> parse_manifest X bs = Some m \<and> verify_checksum X m \<and> mf_sequence m = latest
    \<and> sc_schema_id sc = mf_schema_id m \<and> cat_latest_schema cat' = Some (repaired sc)
    \<and> (\<exists>live. live_manifest X H S (cat_table cat) m s = (Inr live, s') \<and> cat_latest_manifest cat' = Some live)"
proof -
  obtain bs m where m: "st_read S (tpath (cat_table cat) (manifest_filename latest)) s = (Inr bs, s)"
    "parse_manifest X bs = Some m"
    using assms st_read_state
    by (fastforce simp: refresh_snapshot_def Let_def io_bind_eq_Inr)
  have ok: "verify_checksum X m" "mf_sequence m = latest"
    using assms m by (auto simp: refresh_snapshot_def Let_def split: if_splits)
  obtain sd sc where sc: "st_read S (tpath (cat_table cat) (schema_filename (mf_schema_id m))) s = (Inr sd, s)"
    "parse_schema X sd = Some sc" "sc_schema_id sc = mf_schema_id m"
  proof -
    obtain r where r: "st_read S (tpath (cat_table cat) (schema_filename (mf_schema_id m))) s = (r, s)"
      using st_read_state by (metis prod.collapse)
    with assms m ok that show thesis
      by (cases r) (auto simp: refresh_snapshot_def Let_def io_bind_run split: if_splits option.splits sum.splits)
  qed
  from assms m ok sc show ?thesis
    by (auto simp: refresh_snapshot_def Let_def io_bind_eq_Inr)
qed

lemma catalog_load_run:
  assumes t: "plain_piece table" and X: "json_law X" and l: "mf_sequence m \<noteq> 0"
    and ptr: "view s (tpath table ''_manifest.json'')
        = Some (json_to_string X (JObj [(''latest'', jnum (mf_sequence m))]))"
    and man: "view s (tpath table (manifest_filename (mf_sequence m))) = Some (json_to_string X (manifest_value m))"
      "verify_checksum X m"
    and sch: "view s (tpath table (schema_filename (mf_schema_id m))) = Some sb" "parse_schema X sb = Some sc"
      "sc_schema_id sc = mf_schema_id m"
    and live: "live_manifest X H S table m s = (Inr live, s')"
  shows "catalog_load X H S table s
    = (Inr \<lparr>cat_table = table, cat_latest_manifest = Some live, cat_latest_schema = Some (repaired sc)\<rparr>, s')"
proof -
  let ?c = "\<lparr>cat_table = table, cat_latest_manifest = None, cat_latest_schema = None\<rparr>"
  have "refresh_snapshot X H S ?c (mf_sequence m) s
      = (Inr \<lparr>cat_table = table, cat_latest_manifest = Some live, cat_latest_schema = Some (repaired sc)\<rparr>, s')"
    using man sch live
    by (simp add: refresh_snapshot_def Let_def io_bind_run io_try_run read_law [OF validate_manifest_path [OF t]]
        read_law [OF validate_schema_path [OF t]] parse_manifest_def json_lawD [OF X] manifest_roundtrip)
  then show ?thesis
    using ptr l
    by (simp add: catalog_load_def refresh_def io_bind_run io_try_run json_lawD [OF X] pointer_latest_def
        jfield_def read_law [OF validate_pointer_path(1) [OF t]])
qed

text \<open>
  Loading before and after a checkpoint shows the same table: the fold of the log, with only
  the chain fields of the manifest stamped anew.
\<close>

lemma load_around_checkpoint:
  assumes t: "plain_piece table" and X: "json_law X"
    and base: "view s (tpath table ''_manifest.json'')
        = Some (json_to_string X (JObj [(''latest'', jnum (mf_sequence base))]))"
      "view s (tpath table (manifest_filename (mf_sequence base))) = Some (json_to_string X (manifest_value base))"
      "verify_checksum X base" "mf_sequence base \<noteq> 0"
    and sch: "view s (tpath table (schema_filename (mf_schema_id base))) = Some sb" "parse_schema X sb = Some sc"
      "sc_schema_id sc = mf_schema_id base"
    and rs: "read_records X H S table s = (Inr rs, s)" "\<forall>r \<in> set rs. artifacts_ok X table r"
      "\<exists>r \<in> set rs. mr_sequence r > mf_sequence base"
  shows "\<exists>s1. catalog_load X H S table s
      = (Inr \<lparr>cat_table = table, cat_latest_manifest = Some (fold_live X base rs),
               cat_latest_schema = Some (repaired sc)\<rparr>, s1)"
    and "\<exists>parent s2. checkpoint_locked X H S now table s = (Inr True, s2)
      \<and> catalog_load X H S table s2
        = (Inr \<lparr>cat_table = table, cat_latest_manifest = Some (finalize X parent now (fold_live X base rs)),
                 cat_latest_schema = Some (repaired sc)\<rparr>, s2)"
proof -
  obtain s1 where "live_manifest X H S table base s = (Inr (fold_live X base rs), s1)"
    using live_manifest_run [OF rs(1,2)] by blast
  from catalog_load_run [OF t X base(4,1,2,3) sch this]
  show "\<exists>s1. catalog_load X H S table s
      = (Inr \<lparr>cat_table = table, cat_latest_manifest = Some (fold_live X base rs),
               cat_latest_schema = Some (repaired sc)\<rparr>, s1)" by blast
  let ?live = "fold_live X base rs"
  have loaded: "load_pointer_manifest X S table s = (Inr base, s)"
    by (rule load_pointer_run [OF t X base(1,2)])
  have ne: "rs \<noteq> []" using rs(3) by auto
  obtain parent s2 where c: "checkpoint_locked X H S now table s = (Inr True, s2)"
    "read_records X H S table s2 = (Inr [], s2)"
    "view s2 (tpath table ''_manifest.json'') = Some (json_to_string X (JObj [(''latest'', jnum (mf_sequence ?live))]))"
    "view s2 (tpath table (manifest_filename (mf_sequence ?live)))
       = Some (json_to_string X (manifest_value (finalize X parent now ?live)))"
    "\<forall>p b. view s p = Some b \<longrightarrow> p \<notin> checkpoint_paths table (mf_sequence ?live) \<longrightarrow> view s2 p = Some b"
    using checkpoint_publishes [OF t X rs(1) ne loaded rs(3,2), of now] by blast
  let ?m = "finalize X parent now ?live"
  have seq: "mf_sequence ?m = mf_sequence ?live" "mf_schema_id ?m = mf_schema_id base"
    by (simp_all add: finalize_def Let_def fold_live_schema)
  have "mf_sequence base \<le> mf_sequence ?live" by (rule fold_live_mono)
  then have nz: "mf_sequence ?m \<noteq> 0" using base(4) seq(1) by auto
  have "view s2 (tpath table (schema_filename (mf_schema_id ?m))) = Some sb"
    using c(5) sch(1) schema_path_not_checkpoint seq(2) by simp
  moreover have "live_manifest X H S table ?m s2 = (Inr ?m, s2)"
    using c(2) by (simp add: live_manifest_def)
  ultimately have "catalog_load X H S table s2
        = (Inr \<lparr>cat_table = table, cat_latest_manifest = Some ?m, cat_latest_schema = Some (repaired sc)\<rparr>, s2)"
    using c(3,4) sch(2,3) seq finalize_verifies nz
    by (intro catalog_load_run [OF t X]) simp_all
  with c(1) show "\<exists>parent s2. checkpoint_locked X H S now table s = (Inr True, s2)
      \<and> catalog_load X H S table s2
        = (Inr \<lparr>cat_table = table, cat_latest_manifest = Some (finalize X parent now ?live),
                 cat_latest_schema = Some (repaired sc)\<rparr>, s2)" by blast
qed

end

end
