(* ===== verification/Gc.thy ===== *)
theory Gc
  imports Catalog
begin

text \<open>
  Garbage collection: \<^verbatim>\<open>crates/icefalldb-core/src/gc.rs\<close>, with the referenced-file set of
  \<^verbatim>\<open>writer.rs\<close> (\<^verbatim>\<open>manifest_referenced_files\<close>) and the table gate of \<^verbatim>\<open>reader.rs\<close>
  (\<^verbatim>\<open>require_table_exists\<close>). The exclusive writer lock is held by the caller of the model. The
  sweeping loops of the source share one shape, \<open>sweep\<close>: list a directory, delete the doomed
  entries, sync the directory if any was deleted.
\<close>

section \<open>Referenced files\<close>

definition checkpoint_archive_filename :: "u64 \<Rightarrow> string" where
  "checkpoint_archive_filename seq = ''_checkpoints/'' @ pad_zeros 9 (show_nat (unat seq)) @ ''.rkyv''"

definition entry_files :: "row_group_entry \<Rightarrow> string list" where
  "entry_files e = [rg_data e, rg_meta e]
     @ (case rg_deletes e of Some d \<Rightarrow> [d] | None \<Rightarrow> []) @ (case rg_agg e of Some a \<Rightarrow> [a] | None \<Rightarrow> [])"

definition index_files :: "index_ref \<Rightarrow> string list" where
  "index_files r =
     (case ix_base r of
        Some b \<Rightarrow> b # (case strip_suffix b ''.json'' of
                         Some stem \<Rightarrow> [stem @ ''.idx'', stem @ ''.model''] | None \<Rightarrow> [])
      | None \<Rightarrow> []) @ ix_deltas r"

definition rowindex_files :: "row_index_ref \<Rightarrow> string list" where
  "rowindex_files r = (case ri_base r of Some b \<Rightarrow> [b] | None \<Rightarrow> []) @ ri_deltas r"

definition manifest_referenced_files :: "manifest \<Rightarrow> string list" where
  "manifest_referenced_files m =
     concat (map entry_files (mf_row_groups m))
     @ concat (map (\<lambda>(_, r). index_files r) (mf_index_generations m))
     @ (case mf_rowindex_generation m of Some r \<Rightarrow> rowindex_files r | None \<Rightarrow> [])
     @ (case mf_checkpoint m of
          Some c \<Rightarrow> [c, checkpoint_archive_filename (mf_sequence m)] | None \<Rightarrow> [])"

section \<open>Snapshots\<close>

definition require_table_exists :: "ext \<Rightarrow> 's storage \<Rightarrow> string \<Rightarrow> ('s, unit) io" where
  "require_table_exists X S table =
     io_bind (st_exists S (tpath table ''_schema.json'')) (\<lambda>there.
     io_bind (if there then
                io_bind (st_read S (tpath table ''_schema.json'')) (\<lambda>data.
                io_bind (io_lift (ok_or (json_parse X data) Serialization)) (\<lambda>v.
                io_return (pointer_latest v)))
              else io_return None) (\<lambda>schema_id.
       case schema_id of
         None \<Rightarrow> io_throw (TableNotFound table)
       | Some i \<Rightarrow>
           io_bind (st_exists S (tpath table (schema_filename i))) (\<lambda>there.
             if there then io_return () else io_throw (TableNotFound table))))"

definition list_or_empty :: "'s storage \<Rightarrow> string \<Rightarrow> ('s, string list) io" where
  "list_or_empty S dir =
     io_bind (io_try (st_list S dir)) (\<lambda>r.
       case r of Inr es \<Rightarrow> io_return es | Inl e \<Rightarrow> if is_not_found e then io_return [] else io_throw e)"

text \<open>A snapshot counts when its name, sequence, format version and checksum agree.\<close>

definition valid_snapshot :: "ext \<Rightarrow> u64 \<Rightarrow> bytes \<Rightarrow> manifest option" where
  "valid_snapshot X seq data =
     (case parse_manifest X data of
        None \<Rightarrow> None
      | Some m \<Rightarrow> if mf_sequence m = seq \<and> mf_format_version m = 1 \<and> verify_checksum X m then Some m else None)"

definition load_valid_snapshots ::
  "ext \<Rightarrow> 's storage \<Rightarrow> string \<Rightarrow> ('s, (u64 \<times> manifest) list) io" where
  "load_valid_snapshots X S table =
     io_bind (list_or_empty S (tpath table ''_manifests'')) (\<lambda>entries.
       io_foldM (\<lambda>valid entry.
         case entry_seq entry of
           None \<Rightarrow> io_return valid
         | Some seq \<Rightarrow>
             io_bind (io_try (st_read S entry)) (\<lambda>r.
               case r of
                 Inr data \<Rightarrow>
                   (case valid_snapshot X seq data of
                      None \<Rightarrow> io_return valid
                    | Some m \<Rightarrow> io_return (valid @ [(seq, m)]))
               | Inl e \<Rightarrow> (case e of Io msg \<Rightarrow> io_throw (Io msg) | _ \<Rightarrow> io_return valid))) [] entries)"

definition read_pointer :: "ext \<Rightarrow> 's storage \<Rightarrow> string \<Rightarrow> ('s, u64 option) io" where
  "read_pointer X S table =
     io_bind (io_try (st_read S (tpath table ''_manifest.json''))) (\<lambda>r.
       case r of
         Inr data \<Rightarrow> io_return (Option.bind (json_parse X data) pointer_latest)
       | Inl _ \<Rightarrow> io_return None)"

text \<open>\<open>sequences\<close> is not empty and in descending order here.\<close>

definition resolve_current_sequence ::
  "ext \<Rightarrow> 's storage \<Rightarrow> string \<Rightarrow> u64 list \<Rightarrow> ('s, u64) io" where
  "resolve_current_sequence X S table sequences =
     io_bind (read_pointer X S table) (\<lambda>ptr.
       case ptr of
         Some seq \<Rightarrow>
           if seq \<in> set sequences then io_return seq
           else io_then (write_pointer X S table (hd sequences)) (io_return (hd sequences))
       | None \<Rightarrow> io_then (write_pointer X S table (hd sequences)) (io_return (hd sequences)))"

definition cutoff_seq :: "nat \<Rightarrow> u64 \<Rightarrow> u64" where
  "cutoff_seq retain current =
     (if retain = 0 then 0
      else if unat current < retain - 1 then 0 else current - of_nat (retain - 1))"

definition retained_sequences :: "u64 \<Rightarrow> u64 \<Rightarrow> u64 list \<Rightarrow> u64 list" where
  "retained_sequences cutoff current sequences =
     (let kept = filter (\<lambda>q. q \<ge> cutoff) sequences
      in if current \<in> set kept then kept else rev (sort (kept @ [current])))"

definition referenced_paths :: "string \<Rightarrow> u64 list \<Rightarrow> (u64 \<times> manifest) list \<Rightarrow> string list" where
  "referenced_paths table retained valid =
     concat (map (\<lambda>q. case map_of (rev valid) q of
         Some m \<Rightarrow> map (tpath table) (manifest_referenced_files m) | None \<Rightarrow> []) retained)"

section \<open>Sweeping\<close>

definition base_name :: "string \<Rightarrow> string" where
  "base_name entry = (case file_name entry of Some f \<Rightarrow> f | None \<Rightarrow> [])"

definition sweep ::
  "'s storage \<Rightarrow> string \<Rightarrow> string \<Rightarrow> (string \<Rightarrow> bool) \<Rightarrow> string list \<Rightarrow> ('s, string list) io" where
  "sweep S dir sync_path doomed deleted =
     io_bind (list_or_empty S dir) (\<lambda>entries.
     io_bind (io_foldM (\<lambda>(del, swept) entry.
         if doomed entry
         then io_then (st_delete S entry) (io_return (del @ [entry], True))
         else io_return (del, swept)) (deleted, False) entries) (\<lambda>(del, swept).
       if swept then io_then (st_sync S sync_path) (io_return del) else io_return del))"

definition doomed_root :: "string list \<Rightarrow> string \<Rightarrow> bool" where
  "doomed_root referenced entry \<longleftrightarrow>
     (let f = base_name entry
      in ends_with f ''.json.tmp''
         \<or> (starts_with f ''rg_''
            \<and> (ends_with f ''.parquet'' \<or> ends_with f ''.meta'' \<or> ends_with f ''.agg'')
            \<and> entry \<notin> set referenced))"

definition doomed_suffix :: "string list \<Rightarrow> string list \<Rightarrow> string \<Rightarrow> bool" where
  "doomed_suffix suffixes referenced entry \<longleftrightarrow>
     list_ex (\<lambda>x. ends_with (base_name entry) x) suffixes \<and> entry \<notin> set referenced"

text \<open>Old manifest snapshots and left-over temporary files.\<close>

definition sweep_manifests ::
  "'s storage \<Rightarrow> string \<Rightarrow> u64 \<Rightarrow> string list \<Rightarrow> ('s, string list) io" where
  "sweep_manifests S dir cutoff deleted =
     io_bind (list_or_empty S dir) (\<lambda>entries.
     io_bind (io_foldM (\<lambda>(del, swept) entry.
         if ends_with (base_name entry) ''.json.tmp''
         then io_then (st_delete S entry) (io_return (del @ [entry], True))
         else (case entry_seq entry of
                 None \<Rightarrow> io_return (del, swept)
               | Some seq \<Rightarrow>
                   if seq < cutoff then
                     io_bind (st_exists S entry) (\<lambda>there.
                       if there then io_then (st_delete S entry) (io_return (del @ [entry], True))
                       else io_return (del, swept))
                   else io_return (del, swept))) (deleted, False) entries) (\<lambda>(del, swept).
       if swept then io_then (st_sync S dir) (io_return del) else io_return del))"

definition sweep_index_generations ::
  "'s storage \<Rightarrow> string \<Rightarrow> string list \<Rightarrow> string list \<Rightarrow> ('s, string list) io" where
  "sweep_index_generations S table referenced deleted =
     io_bind (list_or_empty S (tpath table ''_indexes'')) (\<lambda>entries.
       io_foldM (\<lambda>del entry.
         sweep S entry entry (doomed_suffix [''.json'', ''.idx'', ''.model'', ''.tmp''] referenced) del)
         deleted entries)"

definition gc_sweeps ::
  "'s storage \<Rightarrow> string \<Rightarrow> string list \<Rightarrow> u64 \<Rightarrow> ('s, string list) io" where
  "gc_sweeps S table referenced cutoff =
     io_bind (sweep S table (tpath table []) (doomed_root referenced) []) (\<lambda>d1.
     io_bind (sweep S (tpath table ''_deletions'') (tpath table ''_deletions'')
                (doomed_suffix [''.del''] referenced) d1) (\<lambda>d2.
     io_bind (sweep S (tpath table ''_rowindex'') (tpath table ''_rowindex'')
                (doomed_suffix [''.idx''] referenced) d2) (\<lambda>d3.
     io_bind (sweep S (tpath table ''_checkpoints'') (tpath table ''_checkpoints'')
                (doomed_suffix [''.json'', ''.rkyv'', ''.tmp''] referenced) d3) (\<lambda>d4.
     io_bind (sweep_index_generations S table referenced d4) (\<lambda>d5.
     io_bind (sweep S (tpath table ''_staging/incoming'') (tpath table ''_staging/incoming'')
                (\<lambda>e. ends_with e ''.part'') d5) (\<lambda>d6.
     io_bind (sweep S (tpath table ''_staging/compact'') (tpath table ''_staging/compact'')
                (\<lambda>e. ends_with e ''.part'') d6) (\<lambda>d7.
     io_bind (sweep S (tpath table ''_staging/intents'') (tpath table ''_staging/intents'')
                (\<lambda>e. ends_with e ''.json'') d7) (\<lambda>d8.
     sweep_manifests S (tpath table ''_manifests'') cutoff d8))))))))"

record gc_result =
  gc_deleted :: "string list"
  gc_retained_snapshots :: "u64 list"

definition gc_collect :: "ext \<Rightarrow> 's storage \<Rightarrow> string \<Rightarrow> nat \<Rightarrow> ('s, gc_result) io" where
  "gc_collect X S table retain =
     io_bind (load_valid_snapshots X S table) (\<lambda>valid.
       if valid = [] then io_return \<lparr>gc_deleted = [], gc_retained_snapshots = []\<rparr>
       else
         let sequences = rev (sort (map fst valid))
         in io_bind (resolve_current_sequence X S table sequences) (\<lambda>current.
              let cutoff = cutoff_seq retain current;
                  retained = retained_sequences cutoff current sequences
              in io_bind (gc_sweeps S table (referenced_paths table retained valid) cutoff) (\<lambda>deleted.
                   io_return \<lparr>gc_deleted = deleted, gc_retained_snapshots = retained\<rparr>)))"

definition gc_run ::
  "ext \<Rightarrow> hash_order \<Rightarrow> 's storage \<Rightarrow> string \<Rightarrow> string \<Rightarrow> nat \<Rightarrow> ('s, gc_result) io" where
  "gc_run X H S now table retain =
     io_then (require_table_exists X S table)
     (io_then (checkpoint_locked X H S now table)
     (gc_collect X S table retain))"

section \<open>What a collection can change\<close>

text \<open>\<open>p\<close> lies directly in the directory \<open>dir\<close>.\<close>

definition direct :: "string \<Rightarrow> string \<Rightarrow> bool" where
  "direct dir p \<longleftrightarrow> (\<exists>rest. p = dir @ CHR ''/'' # rest \<and> CHR ''/'' \<notin> set rest)"

lemma child_direct: "c \<in> dir_children dir keys \<Longrightarrow> direct dir c"
proof -
  assume "c \<in> dir_children dir keys"
  then obtain k where "child_of (dir @ ''/'') k = Some c" by (auto simp: dir_children_def)
  then obtain rest where c: "c = dir @ CHR ''/'' # hd (split_on (CHR ''/'') rest)"
    by (rule child_of_SomeE)
  have "hd (split_on (CHR ''/'') rest) \<in> set (split_on (CHR ''/'') rest)" by simp
  then have "CHR ''/'' \<notin> set (hd (split_on (CHR ''/'') rest))" by (rule split_on_pieces_free)
  with c show ?thesis by (auto simp: direct_def)
qed

lemma children_clean: "clean_keys keys \<Longrightarrow> c \<in> dir_children dir keys \<Longrightarrow> validate_path c = Inr c"
  by (auto simp: dir_children_def clean_keys_def intro: child_clean)

text \<open>
  A program \<^emph>\<open>removes only\<close> \<open>D\<close> when, whatever its result, it keeps the store clean and every
  path it changes is one of \<open>D\<close>.
\<close>

definition removes_only ::
  "('s \<Rightarrow> string \<Rightarrow> bytes option) \<Rightarrow> (string \<Rightarrow> bool) \<Rightarrow> ('s, 'a) io \<Rightarrow> bool" where
  "removes_only view D m \<longleftrightarrow> (\<forall>s r s'. clean_keys (dom (view s)) \<longrightarrow> m s = (r, s') \<longrightarrow>
     clean_keys (dom (view s')) \<and> (\<forall>p. view s' p \<noteq> view s p \<longrightarrow> D p))"

text \<open>
  The files swept without regard to references: temporary files, staging artifacts, intents and
  the entries of the manifest directory; and the pointer, which may be repaired.
\<close>

definition transient :: "string \<Rightarrow> string \<Rightarrow> bool" where
  "transient table p \<longleftrightarrow>
     ends_with (base_name p) ''.json.tmp''
     \<or> direct (tpath table ''_staging/incoming'') p \<or> direct (tpath table ''_staging/compact'') p
     \<or> direct (tpath table ''_staging/intents'') p \<or> direct (tpath table ''_manifests'') p
     \<or> p = tpath table ''_manifest.json'' \<or> p = tpath table ''_manifest.json.tmp''"

definition kept :: "string \<Rightarrow> string list \<Rightarrow> u64 \<Rightarrow> string \<Rightarrow> bool" where
  "kept table referenced cutoff p \<longleftrightarrow>
     (p \<in> set referenced \<and> \<not> transient table p)
     \<or> (\<exists>q \<ge> cutoff. p = tpath table (manifest_filename q))"

lemma manifest_not_direct [simp]:
  "\<not> direct table (tpath table (manifest_filename q))"
  "\<not> direct (tpath table ''_deletions'') (tpath table (manifest_filename q))"
  "\<not> direct (tpath table ''_rowindex'') (tpath table (manifest_filename q))"
  "\<not> direct (tpath table ''_checkpoints'') (tpath table (manifest_filename q))"
  "\<not> direct (tpath table ''_staging/incoming'') (tpath table (manifest_filename q))"
  "\<not> direct (tpath table ''_staging/compact'') (tpath table (manifest_filename q))"
  "\<not> direct (tpath table ''_staging/intents'') (tpath table (manifest_filename q))"
  "direct (tpath table ''_indexes'') c \<Longrightarrow> \<not> direct c (tpath table (manifest_filename q))"
  by (auto simp: direct_def tpath_def manifest_filename_def)

lemma manifest_base_name:
  assumes "plain_piece table"
  shows "\<not> ends_with (base_name (tpath table (manifest_filename q))) ''.json.tmp''"
proof -
  have "base_name (tpath table (manifest_filename q)) = pad_zeros 9 (show_nat (unat q)) @ ''.json''"
    unfolding table_path_join base_name_def using assms by (simp add: manifest_filename_plain)
  moreover have "\<not> ends_with (xs @ ''.json'') ''.json.tmp''" for xs
  proof
    assume "ends_with (xs @ ''.json'') ''.json.tmp''"
    then obtain r where "xs @ ''.json'' = r @ ''.json.tmp''" by (auto simp: ends_with_iff)
    then have "last (xs @ ''.json'') = last (r @ ''.json.tmp'')" by (rule arg_cong)
    then show False by simp
  qed
  ultimately show ?thesis by simp
qed

lemma plain_dirs:
  "plain_piece ''_deletions''" "plain_piece ''_rowindex''" "plain_piece ''_checkpoints''"
  "plain_piece ''_staging''" "plain_piece ''incoming''" "plain_piece ''compact''" "plain_piece ''intents''"
  by (simp_all add: plain_piece_def)

lemma validate_dirs:
  assumes "plain_piece table"
  shows "validate_path table = Inr table"
    "validate_path (tpath table ''_deletions'') = Inr (tpath table ''_deletions'')"
    "validate_path (tpath table ''_rowindex'') = Inr (tpath table ''_rowindex'')"
    "validate_path (tpath table ''_checkpoints'') = Inr (tpath table ''_checkpoints'')"
    "validate_path (tpath table ''_staging/incoming'') = Inr (tpath table ''_staging/incoming'')"
    "validate_path (tpath table ''_staging/compact'') = Inr (tpath table ''_staging/compact'')"
    "validate_path (tpath table ''_staging/intents'') = Inr (tpath table ''_staging/intents'')"
  using assms plain_dirs validate_join_path [of "[table]"] validate_tpath [OF assms, of "[''_deletions'']"]
    validate_tpath [OF assms, of "[''_rowindex'']"] validate_tpath [OF assms, of "[''_checkpoints'']"]
    validate_tpath [OF assms, of "[''_staging'', ''incoming'']"]
    validate_tpath [OF assms, of "[''_staging'', ''compact'']"]
    validate_tpath [OF assms, of "[''_staging'', ''intents'']"]
  by (simp_all add: join_path_def)

context storage_contract
begin

lemma removes_only_pure: "(\<And>s. snd (m s) = s) \<Longrightarrow> removes_only view D m"
  by (auto simp: removes_only_def dest: arg_cong [where f = snd])

lemma removes_only_bind:
  assumes "removes_only view D m" "\<And>a. removes_only view D (f a)"
  shows "removes_only view D (io_bind m f)"
  unfolding removes_only_def
proof (intro allI impI)
  fix s r s' assume c: "clean_keys (dom (view s))" and run: "io_bind m f s = (r, s')"
  obtain x s1 where x: "m s = (x, s1)" by (cases "m s")
  have one: "clean_keys (dom (view s1))" "\<And>p. view s1 p \<noteq> view s p \<Longrightarrow> D p"
    using assms(1) c x unfolding removes_only_def by blast+
  show "clean_keys (dom (view s')) \<and> (\<forall>p. view s' p \<noteq> view s p \<longrightarrow> D p)"
  proof (cases x)
    case (Inl e)
    then show ?thesis using run x one by (auto simp: io_bind_run)
  next
    case (Inr a)
    then have "f a s1 = (r, s')" using run x by (simp add: io_bind_run)
    then have "clean_keys (dom (view s'))" "\<And>p. view s' p \<noteq> view s1 p \<Longrightarrow> D p"
      using assms(2) [of a] one(1) unfolding removes_only_def by blast+
    then show ?thesis using one by metis
  qed
qed

lemma removes_only_foldM:
  "(\<And>b x. x \<in> set xs \<Longrightarrow> removes_only view D (f b x)) \<Longrightarrow> removes_only view D (io_foldM f b xs)"
  by (induction xs arbitrary: b) (auto intro: removes_only_bind removes_only_pure)

lemma removes_only_delete:
  assumes "validate_path e = Inr e" "D e"
  shows "removes_only view D (st_delete S e)"
  unfolding removes_only_def
proof (intro allI impI)
  fix s r s' assume c: "clean_keys (dom (view s))" and run: "st_delete S e s = (r, s')"
  have "view s' = (view s)(e := None)" using delete_law [OF assms(1), of s] run by auto
  then show "clean_keys (dom (view s')) \<and> (\<forall>p. view s' p \<noteq> view s p \<longrightarrow> D p)"
    using c assms(2) by (auto simp: clean_keys_def)
qed

lemma list_or_empty_run:
  assumes "validate_path d = Inr d"
  shows "\<exists>es. list_or_empty S d s = (Inr es, s) \<and> set es = dir_children d (dom (view s))"
  by (auto simp: list_or_empty_def io_bind_run io_try_run list_law [OF assms refl] simp del: set_sorted_list_of_set)

lemma removes_only_listed:
  assumes d: "validate_path d = Inr d"
    and g: "\<And>es. (\<And>e. e \<in> set es \<Longrightarrow> validate_path e = Inr e \<and> direct d e) \<Longrightarrow> removes_only view D (g es)"
  shows "removes_only view D (io_bind (list_or_empty S d) g)"
  unfolding removes_only_def
proof (intro allI impI)
  fix s r s' assume c: "clean_keys (dom (view s))" and run: "io_bind (list_or_empty S d) g s = (r, s')"
  obtain es where es: "list_or_empty S d s = (Inr es, s)" "set es = dir_children d (dom (view s))"
    using list_or_empty_run [OF d] by blast
  have "removes_only view D (g es)"
    using es(2) children_clean [OF c] child_direct by (intro g) blast
  moreover have "g es s = (r, s')" using run es(1) by simp
  ultimately show "clean_keys (dom (view s')) \<and> (\<forall>p. view s' p \<noteq> view s p \<longrightarrow> D p)"
    using c unfolding removes_only_def by blast
qed

lemma removes_only_delete_then:
  "validate_path e = Inr e \<Longrightarrow> D e \<Longrightarrow> removes_only view D (io_then (st_delete S e) (io_return x))"
  unfolding io_then_def
  by (rule removes_only_bind [OF removes_only_delete]) (simp_all add: removes_only_pure)

lemma removes_only_sync: "removes_only view D (if b then io_then (st_sync S sp) (io_return x) else io_return x)"
  by (rule removes_only_pure) (simp add: io_then_run sync_law)

lemma removes_only_sweep:
  assumes "validate_path d = Inr d" and D: "\<And>p. direct d p \<Longrightarrow> doomed p \<Longrightarrow> D p"
  shows "removes_only view D (sweep S d sp doomed del)"
  unfolding sweep_def
proof (rule removes_only_listed [OF assms(1)], rule removes_only_bind)
  fix es assume es: "\<And>e. e \<in> set es \<Longrightarrow> validate_path e = Inr e \<and> direct d e"
  show "removes_only view D (io_foldM (\<lambda>(del, swept) entry. if doomed entry
         then io_then (st_delete S entry) (io_return (del @ [entry], True)) else io_return (del, swept))
       (del, False) es)"
    using es D
    by (intro removes_only_foldM) (auto split: prod.split intro: removes_only_delete_then removes_only_pure)
qed (auto simp: removes_only_sync split: prod.split)

lemma removes_only_sweep_manifests:
  assumes "validate_path d = Inr d"
    and D: "\<And>p. direct d p \<Longrightarrow> ends_with (base_name p) ''.json.tmp'' \<Longrightarrow> D p"
      "\<And>p q. direct d p \<Longrightarrow> entry_seq p = Some q \<Longrightarrow> q < cutoff \<Longrightarrow> D p"
  shows "removes_only view D (sweep_manifests S d cutoff del)"
  unfolding sweep_manifests_def
proof (rule removes_only_listed [OF assms(1)], rule removes_only_bind)
  fix es assume es: "\<And>e. e \<in> set es \<Longrightarrow> validate_path e = Inr e \<and> direct d e"
  have ex: "removes_only view D (io_bind (st_exists S e) (\<lambda>there. if there
      then io_then (st_delete S e) (io_return x) else io_return y))"
    if "validate_path e = Inr e" "D e" for e and x y :: "string list \<times> bool"
    using that
    by (intro removes_only_bind) (auto intro: removes_only_delete_then removes_only_pure
        simp: exists_law [OF that(1)])
  show "removes_only view D (io_foldM (\<lambda>(del, swept) entry.
         if ends_with (base_name entry) ''.json.tmp''
         then io_then (st_delete S entry) (io_return (del @ [entry], True))
         else (case entry_seq entry of
                 None \<Rightarrow> io_return (del, swept)
               | Some seq \<Rightarrow>
                   if seq < cutoff then
                     io_bind (st_exists S entry) (\<lambda>there.
                       if there then io_then (st_delete S entry) (io_return (del @ [entry], True))
                       else io_return (del, swept))
                   else io_return (del, swept))) (del, False) es)"
    using es D
    by (intro removes_only_foldM)
      (auto split: prod.split option.split intro: removes_only_delete_then ex removes_only_pure)
qed (auto simp: removes_only_sync split: prod.split)

lemma removes_only_sweep_indexes:
  assumes "plain_piece table" and D: "\<And>c p. direct (tpath table ''_indexes'') c \<Longrightarrow> direct c p \<Longrightarrow> p \<notin> set referenced \<Longrightarrow> D p"
  shows "removes_only view D (sweep_index_generations S table referenced del)"
  unfolding sweep_index_generations_def
proof (rule removes_only_listed)
  show "validate_path (tpath table ''_indexes'') = Inr (tpath table ''_indexes'')"
    using validate_tpath [of table "[''_indexes'']"] assms(1) by (simp add: plain_piece_def)
  fix es assume es: "\<And>e. e \<in> set es \<Longrightarrow> validate_path e = Inr e \<and> direct (tpath table ''_indexes'') e"
  show "removes_only view D (io_foldM (\<lambda>del entry.
         sweep S entry entry (doomed_suffix [''.json'', ''.idx'', ''.model'', ''.tmp''] referenced) del) del es)"
    using es D by (intro removes_only_foldM removes_only_sweep) (auto simp: doomed_suffix_def)
qed

lemma removes_only_gc_sweeps:
  assumes t: "plain_piece table"
  shows "removes_only view (\<lambda>p. \<not> kept table referenced cutoff p) (gc_sweeps S table referenced cutoff)"
proof -
  note v = validate_dirs [OF t] and nt = manifest_base_name [OF t]
  show ?thesis
    unfolding gc_sweeps_def
    by (intro removes_only_bind removes_only_sweep removes_only_sweep_indexes removes_only_sweep_manifests
        v t validate_manifests_dir [OF t])
      (auto simp: kept_def transient_def doomed_root_def doomed_suffix_def Let_def nt
        entry_seq_filename [OF t])
qed

text \<open>
  A collection, however it ends, leaves every file referenced by a retained snapshot and every
  manifest from the cutoff on as it was.
\<close>

lemma gc_collect_keeps:
  assumes t: "plain_piece table" and c: "clean_keys (dom (view s))"
    and run: "gc_collect X S table retain s = (r, s')"
    and valid: "load_valid_snapshots X S table s = (Inr valid, s)" "valid \<noteq> []"
    and cur: "resolve_current_sequence X S table (rev (sort (map fst valid))) s = (Inr current, s1)"
    and p: "kept table (referenced_paths table (retained_sequences (cutoff_seq retain current) current
        (rev (sort (map fst valid)))) valid) (cutoff_seq retain current) p"
    and np: "p \<noteq> tpath table ''_manifest.json''" "p \<noteq> tpath table ''_manifest.json.tmp''"
  shows "view s' p = view s p"
proof -
  let ?cut = "cutoff_seq retain current"
  let ?ref = "referenced_paths table (retained_sequences ?cut current (rev (sort (map fst valid)))) valid"
  have s1: "view s1 p = view s p \<and> clean_keys (dom (view s1))"
  proof -
    obtain s2 where w: "write_pointer X S table (hd (rev (sort (map fst valid)))) s = (Inr (), s2)"
      "view s2 = (view s)(tpath table ''_manifest.json.tmp'' := None,
        tpath table ''_manifest.json'' \<mapsto> json_to_string X (JObj [(''latest'', jnum (hd (rev (sort (map fst valid)))))]))"
      using write_pointer_run [OF t] by blast
    obtain ptr where "read_pointer X S table s = (Inr ptr, s)"
      by (cases "view s (tpath table ''_manifest.json'')")
        (simp_all add: read_pointer_def io_bind_run io_try_run read_law [OF validate_pointer_path(1) [OF t]])
    then have "s1 = s \<or> s1 = s2"
      using cur w(1) by (auto simp: resolve_current_sequence_def split: option.splits if_splits)
    moreover have "clean_keys (dom (view s2))"
      using c w(2) validate_pointer_path [OF t] by (auto simp: clean_keys_def)
    ultimately show ?thesis using c w(2) np by auto
  qed
  obtain r2 s3 where sw: "gc_sweeps S table ?ref ?cut s1 = (r2, s3)" by (cases "gc_sweeps S table ?ref ?cut s1")
  then have "view s3 p = view s1 p"
    using removes_only_gc_sweeps [OF t, of ?ref ?cut] s1 p unfolding removes_only_def by blast
  moreover have "s' = s3"
    using run valid cur sw by (cases r2) (auto simp: gc_collect_def Let_def)
  ultimately show ?thesis using s1 by simp
qed

end

end
