(* ===== verification/Wal_Recovery.thy ===== *)
theory Wal_Recovery
  imports Row_Group_Meta
begin

text \<open>
  The transaction log of the database and its recovery: \<^verbatim>\<open>crates/icefalldb-core/src/wal.rs\<close> and
  \<^verbatim>\<open>recovery.rs\<close>. Log entries with their serialized form, opening the log, appending with the next
  log sequence number, reading all segments, deciding every transaction, and collecting the inserts
  of the committed ones. The final step of \<^verbatim>\<open>apply_committed_transactions\<close>, which hands the batches
  to a table writer, is not modelled.
\<close>

section \<open>Entries\<close>

datatype log_entry_body =
    Begin string
  | Insert string string bytes
  | Commit string
  | Rollback string

record log_entry =
  le_lsn :: u64
  le_body :: log_entry_body

fun body_tx_id :: "log_entry_body \<Rightarrow> string" where
  "body_tx_id (Begin tx) = tx"
| "body_tx_id (Insert tx _ _) = tx"
| "body_tx_id (Commit tx) = tx"
| "body_tx_id (Rollback tx) = tx"

definition tx_id :: "log_entry \<Rightarrow> string" where
  "tx_id e = body_tx_id (le_body e)"

fun body_fields :: "log_entry_body \<Rightarrow> (string \<times> json option) list" where
  "body_fields (Begin tx) = [(''op'', Some (JStr ''Begin'')), (''tx_id'', Some (JStr tx))]"
| "body_fields (Insert tx table rows) =
     [(''op'', Some (JStr ''Insert'')), (''tx_id'', Some (JStr tx)), (''table'', Some (JStr table)),
      (''rows_ipc'', Some (JArr (map (\<lambda>b. jnum (ucast b)) rows)))]"
| "body_fields (Commit tx) = [(''op'', Some (JStr ''Commit'')), (''tx_id'', Some (JStr tx))]"
| "body_fields (Rollback tx) = [(''op'', Some (JStr ''Rollback'')), (''tx_id'', Some (JStr tx))]"

definition log_entry_value :: "log_entry \<Rightarrow> json" where
  "log_entry_value e = jobj ((''lsn'', Some (jnum (le_lsn e))) # body_fields (le_body e))"

definition de_byte :: "json \<Rightarrow> u8 option" where
  "de_byte v = Option.bind (de_u64 v) (\<lambda>n. if n < 256 then Some (ucast n) else None)"

definition de_body :: "json \<Rightarrow> log_entry_body option" where
  "de_body v =
     Option.bind (de_req ''op'' de_str v) (\<lambda>op.
     Option.bind (de_req ''tx_id'' de_str v) (\<lambda>tx.
       if op = ''Begin'' then Some (Begin tx)
       else if op = ''Insert'' then
         Option.bind (de_req ''table'' de_str v) (\<lambda>table.
         Option.bind (de_req ''rows_ipc'' (de_vec de_byte) v) (\<lambda>rows. Some (Insert tx table rows)))
       else if op = ''Commit'' then Some (Commit tx)
       else if op = ''Rollback'' then Some (Rollback tx)
       else None))"

definition de_log_entry :: "json \<Rightarrow> log_entry option" where
  "de_log_entry v =
     Option.bind (de_req ''lsn'' de_u64 v) (\<lambda>lsn.
     Option.bind (de_body v) (\<lambda>body. Some \<lparr>le_lsn = lsn, le_body = body\<rparr>))"

section \<open>The log\<close>

definition SEGMENT_SIZE :: u64 where
  "SEGMENT_SIZE = 16777216"

definition segment_path :: "u64 \<Rightarrow> string" where
  "segment_path lsn = ''_wal/'' @ pad_zeros 20 (show_nat (unat (lsn div SEGMENT_SIZE))) @ ''.log''"

fun parse_entries :: "ext \<Rightarrow> bytes list \<Rightarrow> log_entry list result" where
  "parse_entries X [] = Inr []"
| "parse_entries X (line # rest) =
     (if line = [] then parse_entries X rest
      else res_bind (ok_or (Option.bind (json_parse X line) de_log_entry) Serialization) (\<lambda>e.
           res_bind (parse_entries X rest) (\<lambda>es. Inr (e # es))))"

definition wal_entries :: "ext \<Rightarrow> 's storage \<Rightarrow> ('s, log_entry list) io" where
  "wal_entries X S =
     io_bind (st_list S ''_wal'') (\<lambda>names.
     io_bind (io_foldM (\<lambda>es name.
         io_bind (st_read S name) (\<lambda>data.
         io_bind (io_lift (parse_entries X (split_on 10 data))) (\<lambda>new. io_return (es @ new))))
         [] (sort (filter (\<lambda>n. ends_with n ''.log'') names))) (\<lambda>es.
     io_return (sort_key le_lsn es)))"

definition next_lsn_after :: "log_entry list \<Rightarrow> u64" where
  "next_lsn_after es = foldl (\<lambda>n e. if le_lsn e \<ge> n then le_lsn e + 1 else n) 0 es"

text \<open>\<^verbatim>\<open>Wal::open\<close>: a log that cannot be read counts as an empty one.\<close>

definition wal_open :: "ext \<Rightarrow> 's storage \<Rightarrow> ('s, u64) io" where
  "wal_open X S =
     io_bind (io_try (wal_entries X S)) (\<lambda>r.
       case r of Inr es \<Rightarrow> io_return (next_lsn_after es) | Inl _ \<Rightarrow> io_return 0)"

text \<open>Appending: the state is the storage with the counter, which moves even if the write fails.\<close>

definition log_append :: "ext \<Rightarrow> 's storage \<Rightarrow> log_entry_body \<Rightarrow> ('s \<times> u64, log_entry) io" where
  "log_append X S body = (\<lambda>(s, next_lsn).
     let entry = \<lparr>le_lsn = next_lsn, le_body = body\<rparr>;
         path = segment_path next_lsn;
         line = json_to_string X (log_entry_value entry) @ [10]
     in case io_then (st_append S path line) (io_then (st_sync S path) (io_return entry)) s of
          (r, s') \<Rightarrow> (r, (s', next_lsn + 1)))"

section \<open>Recovery\<close>

record recovery_state =
  rs_committed :: "string list"
  rs_aborted :: "string list"
  rs_undecided :: "string list"

datatype decision = Committed | Aborted | Undecided

fun decide :: "log_entry list \<Rightarrow> decision" where
  "decide [] = Undecided"
| "decide (e # es) =
     (case le_body e of Commit _ \<Rightarrow> Committed | Rollback _ \<Rightarrow> Aborted | _ \<Rightarrow> decide es)"

definition record_decision :: "log_entry list \<Rightarrow> recovery_state \<Rightarrow> string \<Rightarrow> recovery_state" where
  "record_decision entries st tx =
     (case decide (filter (\<lambda>e. tx_id e = tx) entries) of
        Committed \<Rightarrow> st\<lparr>rs_committed := rs_committed st @ [tx]\<rparr>
      | Aborted \<Rightarrow> st\<lparr>rs_aborted := rs_aborted st @ [tx]\<rparr>
      | Undecided \<Rightarrow> st\<lparr>rs_undecided := rs_undecided st @ [tx]\<rparr>)"

definition recover_entries :: "log_entry list \<Rightarrow> recovery_state" where
  "recover_entries entries =
     foldl (record_decision entries) \<lparr>rs_committed = [], rs_aborted = [], rs_undecided = []\<rparr>
       (sort (remdups (map tx_id entries)))"

definition recover :: "ext \<Rightarrow> 's storage \<Rightarrow> ('s, recovery_state) io" where
  "recover X S = io_bind (wal_entries X S) (\<lambda>es. io_return (recover_entries es))"

text \<open>
  The inserts of committed transactions, by transaction and table, in log order;
  \<open>decode_ipc\<close> stands for the Arrow IPC reader.
\<close>

fun collect_inserts ::
  "(bytes \<Rightarrow> 'batch list option) \<Rightarrow> string list \<Rightarrow> log_entry list \<Rightarrow>
   ((string \<times> string) \<times> 'batch list) list \<Rightarrow> ((string \<times> string) \<times> 'batch list) list result" where
  "collect_inserts decode_ipc committed [] acc = Inr acc"
| "collect_inserts decode_ipc committed (e # es) acc =
     (case le_body e of
        Insert tx table rows \<Rightarrow>
          if tx \<notin> set committed then collect_inserts decode_ipc committed es acc
          else res_bind (ok_or (decode_ipc rows) (Other ''ipc'')) (\<lambda>batches.
                 collect_inserts decode_ipc committed es
                   (AList.update (tx, table)
                     ((case map_of acc (tx, table) of Some bs \<Rightarrow> bs | None \<Rightarrow> []) @ batches) acc))
      | _ \<Rightarrow> collect_inserts decode_ipc committed es acc)"

section \<open>Every transaction is decided once\<close>

lemma record_fold:
  "foldl (record_decision es) st txs =
     \<lparr>rs_committed = rs_committed st @ filter (\<lambda>tx. decide (filter (\<lambda>e. tx_id e = tx) es) = Committed) txs,
      rs_aborted = rs_aborted st @ filter (\<lambda>tx. decide (filter (\<lambda>e. tx_id e = tx) es) = Aborted) txs,
      rs_undecided = rs_undecided st @ filter (\<lambda>tx. decide (filter (\<lambda>e. tx_id e = tx) es) = Undecided) txs\<rparr>"
  by (induction txs arbitrary: st) (simp_all add: record_decision_def split: decision.split)

lemma recover_entries_sets:
  "set (rs_committed (recover_entries es)) = {tx \<in> tx_id ` set es. decide (filter (\<lambda>e. tx_id e = tx) es) = Committed}"
  "set (rs_aborted (recover_entries es)) = {tx \<in> tx_id ` set es. decide (filter (\<lambda>e. tx_id e = tx) es) = Aborted}"
  "set (rs_undecided (recover_entries es)) = {tx \<in> tx_id ` set es. decide (filter (\<lambda>e. tx_id e = tx) es) = Undecided}"
  by (auto simp: recover_entries_def record_fold)

lemma recover_entries_distinct:
  "distinct (rs_committed (recover_entries es) @ rs_aborted (recover_entries es) @ rs_undecided (recover_entries es))"
  by (auto simp: recover_entries_def record_fold)

text \<open>A transaction is committed when a commit comes before any rollback in its entries.\<close>

definition commits_first :: "log_entry list \<Rightarrow> bool" where
  "commits_first es \<longleftrightarrow>
     (\<exists>pre e post tx. es = pre @ e # post \<and> le_body e = Commit tx
       \<and> (\<forall>x \<in> set pre. \<forall>tx'. le_body x \<noteq> Rollback tx'))"

lemma commits_first_skip:
  assumes "\<And>tx. le_body e \<noteq> Commit tx" and "\<And>tx. le_body e \<noteq> Rollback tx"
  shows "commits_first (e # es) \<longleftrightarrow> commits_first es"
proof
  assume "commits_first (e # es)"
  then obtain pre x post tx where split: "e # es = pre @ x # post" and x: "le_body x = Commit tx"
    and pre: "\<forall>y \<in> set pre. \<forall>tx'. le_body y \<noteq> Rollback tx'"
    unfolding commits_first_def by blast
  from split x assms(1) obtain pre' where "pre = e # pre'" "es = pre' @ x # post"
    by (cases pre) auto
  with x pre show "commits_first es" unfolding commits_first_def by auto
next
  assume "commits_first es"
  then obtain pre x post tx where "es = pre @ x # post" "le_body x = Commit tx"
    and pre: "\<forall>y \<in> set pre. \<forall>tx'. le_body y \<noteq> Rollback tx'"
    unfolding commits_first_def by blast
  then have "e # es = (e # pre) @ x # post" by simp
  moreover have "\<forall>y \<in> set (e # pre). \<forall>tx'. le_body y \<noteq> Rollback tx'" using pre assms(2) by simp
  ultimately show "commits_first (e # es)"
    unfolding commits_first_def using \<open>le_body x = Commit tx\<close> by blast
qed

lemma decide_committed: "decide es = Committed \<longleftrightarrow> commits_first es"
proof (induction es)
  case Nil
  then show ?case by (simp add: commits_first_def)
next
  case (Cons e es)
  show ?case
  proof (cases "le_body e")
    case (Commit tx)
    then have "e # es = [] @ e # es \<and> le_body e = Commit tx \<and> (\<forall>x \<in> set []. \<forall>tx'. le_body x \<noteq> Rollback tx')"
      by simp
    then have "commits_first (e # es)" unfolding commits_first_def by blast
    with Commit show ?thesis by simp
  next
    case (Rollback tx)
    then have "\<not> commits_first (e # es)" by (auto simp: commits_first_def Cons_eq_append_conv)
    with Rollback show ?thesis by simp
  qed (simp_all add: Cons.IH commits_first_skip)
qed

section \<open>Reading back the log\<close>

lemma de_byte_ucast: "de_byte (jnum (ucast b)) = Some b"
proof -
  have lt: "unat b < 2 ^ 64" "unat b < 256" using less_trans [OF unat_u8_less [of b], of "2 ^ 64"] by simp_all
  have t: "take_bit 64 (unat b) = unat b" "take_bit 8 (unat b) = unat b"
    using take_bit_nat_eq_self [OF lt(1)] take_bit_nat_eq_self [of "unat b" 8] lt(2) by simp_all
  have u: "unat (ucast b :: u64) = unat b" using t(1) by (simp add: unsigned_ucast_eq)
  have "(ucast b :: u64) < 256" using u lt(2) by (simp add: word_less_nat_alt)
  moreover have "ucast (ucast b :: u64) = b"
    using t by (simp add: word_unat_eq_iff unsigned_ucast_eq unsigned_take_bit_eq)
  ultimately show ?thesis by (simp add: de_byte_def)
qed

lemma log_entry_roundtrip: "de_log_entry (log_entry_value e) = Some e"
proof (cases "le_body e")
  case (Insert tx t rows)
  have "de_vec de_byte (JArr (map (\<lambda>b. jnum (ucast b)) rows)) = Some rows"
    by (intro de_vec_map) (rule de_byte_ucast)
  with Insert show ?thesis
    by (cases e) (simp add: de_log_entry_def log_entry_value_def de_body_def de_req_def)
qed (cases e; simp add: de_log_entry_def log_entry_value_def de_body_def de_req_def)+

definition log_lines :: "ext \<Rightarrow> log_entry list \<Rightarrow> bytes" where
  "log_lines X es = concat (map (\<lambda>e. json_to_string X (log_entry_value e) @ [10]) es)"

lemma log_lines_snoc:
  "log_lines X (es @ [e]) = log_lines X es @ json_to_string X (log_entry_value e) @ [10]"
  by (simp add: log_lines_def)

lemma parse_log_lines:
  assumes X: "json_law X"
  shows "parse_entries X (split_on 10 (log_lines X es @ rest))
    = res_bind (parse_entries X (split_on 10 rest)) (\<lambda>new. Inr (es @ new))"
proof (induction es)
  case Nil
  then show ?case by (cases "parse_entries X (split_on 10 rest)") (simp_all add: log_lines_def)
next
  case (Cons e es)
  have "parse_entries X (split_on 10 (log_lines X (e # es) @ rest))
      = res_bind (parse_entries X (split_on 10 (log_lines X es @ rest))) (\<lambda>new. Inr (e # new))"
    using json_lawD(2,3) [OF X]
    by (simp add: log_lines_def json_lawD(1) [OF X] log_entry_roundtrip)
  then show ?case by (cases "parse_entries X (split_on 10 rest)") (simp_all add: Cons.IH)
qed

lemma validate_segment_path: "validate_path (segment_path lsn) = Inr (segment_path lsn)"
proof -
  let ?f = "pad_zeros 20 (show_nat (unat (lsn div SEGMENT_SIZE))) @ ''.log''"
  have "CHR ''/'' \<notin> set ?f" using digits_pad_zeros digit_char_neq(2) by (auto, metis)
  moreover have "length ?f > 2" by simp
  ultimately have "plain_piece ?f" by (auto simp: plain_piece_def simp del: length_append)
  moreover have "plain_piece ''_wal''" by (simp add: plain_piece_def)
  ultimately have "validate_path (join_path [''_wal'', ?f]) = Inr (join_path [''_wal'', ?f])"
    by (intro validate_join_path) simp_all
  then show ?thesis by (simp add: segment_path_def join_path_def)
qed

lemma child_segment_path: "child_of (''_wal'' @ ''/'') (segment_path lsn) = Some (segment_path lsn)"
proof -
  have "CHR ''/'' \<notin> set (pad_zeros 20 (show_nat (unat (lsn div SEGMENT_SIZE))) @ ''.log'')"
    using digits_pad_zeros digit_char_neq(2) by (auto, metis)
  then show ?thesis by (simp add: child_of_def segment_path_def strip_prefix_eq_Some)
qed

text \<open>The segments of a store, and a store in which segment \<open>n\<close> holds exactly the entries \<open>seg n\<close>.\<close>

definition segments :: "string set \<Rightarrow> string set" where
  "segments D = {n \<in> dir_children ''_wal'' D. ends_with n ''.log''}"

definition holds_log :: "ext \<Rightarrow> (string \<Rightarrow> bytes option) \<Rightarrow> (string \<Rightarrow> log_entry list) \<Rightarrow> bool" where
  "holds_log X v seg \<longleftrightarrow> (\<forall>n \<in> segments (dom v). v n = Some (log_lines X (seg n)) \<and> validate_path n = Inr n)"

definition logged :: "(string \<Rightarrow> bytes option) \<Rightarrow> (string \<Rightarrow> log_entry list) \<Rightarrow> log_entry list" where
  "logged v seg = sort_key le_lsn (concat (map seg (sorted_list_of_set (segments (dom v)))))"

lemma segments_insert:
  "segments (insert (segment_path lsn) D) = insert (segment_path lsn) (segments D)"
proof -
  have "ends_with (segment_path lsn) ''.log''" by (simp add: segment_path_def ends_with_iff)
  then show ?thesis using child_segment_path [of lsn] by (auto simp: segments_def dir_children_def)
qed

lemma mset_segments:
  "finite A \<Longrightarrow> mset (concat (map g (sorted_list_of_set A))) = (\<Sum>n\<in>A. mset (g n))"
  by (simp add: mset_concat comp_def sum_list_distinct_conv_sum_set)

lemma validate_wal_dir: "validate_path ''_wal'' = Inr ''_wal''"
  using validate_join_path [of "[''_wal'']"] by (simp add: join_path_def plain_piece_def)

context storage_contract
begin

lemma finite_segments: "finite (segments (dom (view s)))"
  using finite_children [of "''_wal''" s] by (auto simp: segments_def intro: finite_subset)

lemma sorted_segments:
  "sort (filter (\<lambda>n. ends_with n ''.log'') (sorted_list_of_set (dir_children ''_wal'' (dom (view s)))))
     = sorted_list_of_set (segments (dom (view s)))"
proof -
  let ?l = "filter (\<lambda>n. ends_with n ''.log'') (sorted_list_of_set (dir_children ''_wal'' (dom (view s))))"
  have "sorted_list_of_set (set ?l) = sort (remdups ?l)" by (rule sorted_list_of_set_sort_remdups)
  moreover have "set ?l = segments (dom (view s))" by (auto simp: segments_def finite_children)
  moreover have "distinct ?l" by simp
  ultimately show ?thesis by (simp add: distinct_remdups_id)
qed

lemma read_segments:
  assumes X: "json_law X" and v: "\<forall>n \<in> set ns. view s n = Some (log_lines X (seg n)) \<and> validate_path n = Inr n"
  shows "io_foldM (\<lambda>es name.
         io_bind (st_read S name) (\<lambda>data.
         io_bind (io_lift (parse_entries X (split_on 10 data))) (\<lambda>new. io_return (es @ new)))) es0 ns s
     = (Inr (es0 @ concat (map seg ns)), s)"
  using v
proof (induction ns arbitrary: es0)
  case (Cons n ns)
  have "parse_entries X (split_on 10 (log_lines X (seg n))) = Inr (seg n)"
    using parse_log_lines [OF X, of "seg n" "[]"] by simp
  then show ?case using Cons read_law [of n n s] by simp
qed simp

lemma wal_entries_run:
  assumes "json_law X" "holds_log X (view s) seg" "segments (dom (view s)) \<noteq> {}"
  shows "wal_entries X S s = (Inr (logged (view s) seg), s)"
proof -
  have "dir_children ''_wal'' (dom (view s)) \<noteq> {}" using assms(3) by (auto simp: segments_def)
  then have "st_list S ''_wal'' s = (Inr (sorted_list_of_set (dir_children ''_wal'' (dom (view s)))), s)"
    using list_law [OF validate_wal_dir refl] by simp
  moreover have "\<forall>n \<in> set (sorted_list_of_set (segments (dom (view s)))).
      view s n = Some (log_lines X (seg n)) \<and> validate_path n = Inr n"
    using assms(2) finite_segments by (simp add: holds_log_def)
  ultimately show ?thesis
    using read_segments [OF assms(1), of "sorted_list_of_set (segments (dom (view s)))" s seg "[]"]
    by (simp add: wal_entries_def sorted_segments logged_def)
qed

lemma log_append_run:
  "\<exists>s'. log_append X S body (s, n) = (Inr \<lparr>le_lsn = n, le_body = body\<rparr>, (s', n + 1))
     \<and> view s' = (view s)(segment_path n \<mapsto> (case view s (segment_path n) of None \<Rightarrow> [] | Some e \<Rightarrow> e)
         @ json_to_string X (log_entry_value \<lparr>le_lsn = n, le_body = body\<rparr>) @ [10])"
  using append_law [OF validate_segment_path [of n], of "json_to_string X (log_entry_value \<lparr>le_lsn = n, le_body = body\<rparr>) @ [10]" s]
  by (auto simp: log_append_def Let_def sync_law)

lemma logged_append:
  assumes "holds_log X (view s) seg" and v: "view s' = (view s)(segment_path (le_lsn e) \<mapsto>
      (case view s (segment_path (le_lsn e)) of None \<Rightarrow> [] | Some d \<Rightarrow> d) @ json_to_string X (log_entry_value e) @ [10])"
    and "distinct (map le_lsn (logged (view s) seg))" "\<forall>x \<in> set (logged (view s) seg). le_lsn x < le_lsn e"
  shows "\<exists>seg'. holds_log X (view s') seg' \<and> logged (view s') seg' = logged (view s) seg @ [e]"
proof -
  let ?p = "segment_path (le_lsn e)" and ?N = "segments (dom (view s))"
  define old where "old = (if ?p \<in> ?N then seg ?p else [])"
  define seg' where "seg' = seg(?p := old @ [e])"
  have N': "segments (dom (view s')) = insert ?p ?N" using v segments_insert by simp
  have p: "view s' ?p = Some (log_lines X (old @ [e]))"
  proof (cases "?p \<in> ?N")
    case True
    with assms(1) v show ?thesis by (simp add: holds_log_def old_def log_lines_snoc)
  next
    case False
    then have "?p \<notin> dom (view s)"
      by (metis insertI1 insert_absorb segments_insert)
    then have "view s ?p = None" by (simp add: domIff)
    with False v show ?thesis by (simp add: old_def log_lines_def)
  qed
  have holds: "holds_log X (view s') seg'"
    using assms(1) p v by (auto simp: holds_log_def N' segments_insert seg'_def validate_segment_path)
  have "(\<Sum>n\<in>insert ?p ?N. mset (seg' n)) = (\<Sum>n\<in>?N. mset (seg n)) + {#e#}"
  proof (cases "?p \<in> ?N")
    case True
    have "(\<Sum>n\<in>?N - {?p}. mset (seg' n)) = (\<Sum>n\<in>?N - {?p}. mset (seg n))"
      by (intro sum.cong) (auto simp: seg'_def)
    moreover have "mset (seg' ?p) = mset (seg ?p) + {#e#}" using True by (simp add: seg'_def old_def)
    ultimately have "(\<Sum>n\<in>?N. mset (seg' n)) = (\<Sum>n\<in>?N. mset (seg n)) + {#e#}"
      by (simp only: sum.remove [OF finite_segments True] ac_simps)
    with True show ?thesis by (simp add: insert_absorb)
  next
    case False
    then have "(\<Sum>n\<in>?N. mset (seg' n)) = (\<Sum>n\<in>?N. mset (seg n))"
      by (intro sum.cong) (auto simp: seg'_def)
    with False show ?thesis using finite_segments [of s] by (simp add: seg'_def old_def)
  qed
  then have m: "mset (concat (map seg' (sorted_list_of_set (segments (dom (view s'))))))
      = mset (logged (view s) seg @ [e])"
    using finite_segments [of s] by (simp add: N' mset_segments logged_def del: sorted_list_of_set_insert_remove)
  have "inj_on le_lsn (set (logged (view s) seg @ [e]))"
    using assms(3,4) by (auto simp: distinct_map inj_on_def)
  then have "inj_on le_lsn (set (concat (map seg' (sorted_list_of_set (segments (dom (view s')))))))"
    using mset_eq_setD [OF m] by simp
  moreover have "sorted (map le_lsn (logged (view s) seg @ [e]))"
    using assms(4) sorted_sort_key [of le_lsn] by (simp add: sorted_append less_imp_le) (simp add: logged_def)
  ultimately have "logged (view s') seg' = logged (view s) seg @ [e]"
    unfolding logged_def [of "view s'"] using m by (intro sort_key_inj_key_eq)
  with holds show ?thesis by blast
qed

end

text \<open>Bodies appended from an empty log get consecutive numbers.\<close>

definition numbered :: "log_entry_body list \<Rightarrow> log_entry list" where
  "numbered bs = map (\<lambda>i. \<lparr>le_lsn = of_nat i, le_body = bs ! i\<rparr>) [0..<length bs]"

definition append_all ::
  "ext \<Rightarrow> 's storage \<Rightarrow> log_entry list \<Rightarrow> log_entry_body list \<Rightarrow> ('s \<times> u64, log_entry list) io" where
  "append_all X S = io_foldM (\<lambda>acc b. io_bind (log_append X S b) (\<lambda>e. io_return (acc @ [e])))"

lemma length_numbered [simp]: "length (numbered bs) = length bs"
  by (simp add: numbered_def)

lemma numbered_snoc: "numbered (bs @ [b]) = numbered bs @ [\<lparr>le_lsn = of_nat (length bs), le_body = b\<rparr>]"
  by (auto simp: numbered_def nth_append)

lemma unat_of_nat_u64: "n < 2 ^ 64 \<Longrightarrow> unat (of_nat n :: u64) = n"
  by (simp add: unat_of_nat take_bit_nat_eq_self)

lemma numbered_lsn:
  assumes "length bs \<le> 2 ^ 64"
  shows "map (unat \<circ> le_lsn) (numbered bs) = [0..<length bs]"
proof (rule nth_equalityI)
  fix i assume "i < length (map (unat \<circ> le_lsn) (numbered bs))"
  then show "map (unat \<circ> le_lsn) (numbered bs) ! i = [0..<length bs] ! i"
    using assms unat_of_nat_u64 [of i] by (simp add: numbered_def)
qed simp

lemma numbered_distinct: "length bs \<le> 2 ^ 64 \<Longrightarrow> distinct (map le_lsn (numbered bs))"
  using numbered_lsn [of bs] distinct_map [of unat "map le_lsn (numbered bs)"] distinct_upt
  by (metis map_map)

lemma numbered_below:
  assumes "length bs < 2 ^ 64" "e \<in> set (numbered bs)"
  shows "le_lsn e < of_nat (length bs)"
proof -
  have "unat (le_lsn e) \<in> set (map (unat \<circ> le_lsn) (numbered bs))" using assms(2) by simp
  also have "map (unat \<circ> le_lsn) (numbered bs) = [0..<length bs]" using assms(1) by (intro numbered_lsn) simp
  finally have "unat (le_lsn e) < length bs" by simp
  then show ?thesis using assms(1) by (simp add: word_less_nat_alt unat_of_nat_u64)
qed

lemma next_lsn_numbered: "length bs < 2 ^ 64 \<Longrightarrow> next_lsn_after (numbered bs) = of_nat (length bs)"
proof (induction bs rule: rev_induct)
  case (snoc b bs)
  then show ?case by (simp add: next_lsn_after_def numbered_snoc)
qed (simp add: next_lsn_after_def numbered_def)

context storage_contract
begin

lemma append_all_run:
  assumes X: "json_law X" and "length (bs0 @ bs) < 2 ^ 64" "holds_log X (view s) seg"
    "logged (view s) seg = numbered bs0"
  shows "\<exists>s' seg'. append_all X S (numbered bs0) bs (s, of_nat (length bs0))
      = (Inr (numbered (bs0 @ bs)), (s', of_nat (length (bs0 @ bs))))
    \<and> holds_log X (view s') seg' \<and> logged (view s') seg' = numbered (bs0 @ bs)
    \<and> (bs \<noteq> [] \<longrightarrow> segments (dom (view s')) \<noteq> {})"
  using assms(2-)
proof (induction bs arbitrary: bs0 s seg)
  case Nil
  then show ?case by (auto simp: append_all_def)
next
  case (Cons b bs)
  let ?e = "\<lparr>le_lsn = of_nat (length bs0), le_body = b\<rparr>"
  obtain s1 where s1: "log_append X S b (s, of_nat (length bs0)) = (Inr ?e, (s1, of_nat (length bs0) + 1))"
    and v: "view s1 = (view s)(segment_path (le_lsn ?e) \<mapsto>
      (case view s (segment_path (le_lsn ?e)) of None \<Rightarrow> [] | Some d \<Rightarrow> d) @ json_to_string X (log_entry_value ?e) @ [10])"
    using log_append_run [of X b s "of_nat (length bs0)"] by auto
  have len: "length bs0 < 2 ^ 64" using Cons.prems(1) by simp
  have "\<exists>seg1. holds_log X (view s1) seg1 \<and> logged (view s1) seg1 = logged (view s) seg @ [?e]"
    using numbered_distinct [of bs0] numbered_below [OF len] len Cons.prems(3)
    by (intro logged_append [OF Cons.prems(2) v]) simp_all
  then obtain seg1 where seg1: "holds_log X (view s1) seg1" "logged (view s1) seg1 = numbered (bs0 @ [b])"
    by (auto simp: numbered_snoc Cons.prems(3))
  have ne: "segments (dom (view s1)) \<noteq> {}" using v segments_insert by simp
  obtain s' seg' where *: "append_all X S (numbered (bs0 @ [b])) bs (s1, of_nat (length (bs0 @ [b])))
      = (Inr (numbered ((bs0 @ [b]) @ bs)), (s', of_nat (length ((bs0 @ [b]) @ bs))))"
    "holds_log X (view s') seg'" "logged (view s') seg' = numbered ((bs0 @ [b]) @ bs)"
    "bs \<noteq> [] \<longrightarrow> segments (dom (view s')) \<noteq> {}"
    using Cons.IH [of "bs0 @ [b]" s1 seg1] Cons.prems(1) seg1 by auto
  have "append_all X S (numbered bs0) (b # bs) (s, of_nat (length bs0))
      = append_all X S (numbered (bs0 @ [b])) bs (s1, of_nat (length (bs0 @ [b])))"
    using s1 by (simp add: append_all_def numbered_snoc add.commute)
  moreover have "segments (dom (view s')) \<noteq> {}"
    using * ne by (cases "bs = []") (auto simp: append_all_def)
  ultimately show ?case using *(1-3) by auto
qed

lemma append_all_reopen:
  assumes X: "json_law X" and "segments (dom (view s)) = {}" "bs \<noteq> []" "length bs < 2 ^ 64"
  shows "\<exists>s'. append_all X S [] bs (s, 0) = (Inr (numbered bs), (s', of_nat (length bs)))
    \<and> wal_entries X S s' = (Inr (numbered bs), s') \<and> wal_open X S s' = (Inr (of_nat (length bs)), s')"
proof -
  have "holds_log X (view s) (\<lambda>_. [])" "logged (view s) (\<lambda>_. []) = numbered []"
    using assms(2) by (simp_all add: holds_log_def logged_def numbered_def)
  from append_all_run [OF X _ this, of bs] obtain s' seg' where
    a: "append_all X S (numbered []) bs (s, of_nat (length [])) = (Inr (numbered ([] @ bs)), (s', of_nat (length ([] @ bs))))"
    and *: "holds_log X (view s') seg'" "logged (view s') seg' = numbered bs" "segments (dom (view s')) \<noteq> {}"
    using assms(3,4) by auto
  have "wal_entries X S s' = (Inr (numbered bs), s')" using wal_entries_run [OF X *(1,3)] *(2) by simp
  moreover have "append_all X S [] bs (s, 0) = (Inr (numbered bs), (s', of_nat (length bs)))"
    using a by (simp add: numbered_def)
  ultimately show ?thesis using next_lsn_numbered [OF assms(4)] by (auto simp: wal_open_def)
qed

text \<open>
  A segment with a torn last line cannot be read, and a log opened in that state starts again
  from number 0.
\<close>

lemma torn_log_reopen:
  assumes X: "json_law X" and "dir_children ''_wal'' (dom (view s)) = {segment_path 0}"
    and "view s (segment_path 0) = Some (log_lines X es @ t)"
    and t: "t \<noteq> []" "10 \<notin> set t" "Option.bind (json_parse X t) de_log_entry = None"
  shows "wal_entries X S s = (Inl Serialization, s)" "wal_open X S s = (Inr 0, s)"
proof -
  have log: "ends_with (segment_path 0) ''.log''" by (simp add: segment_path_def ends_with_iff)
  have "parse_entries X (split_on 10 (log_lines X es @ t)) = Inl Serialization"
    using t by (simp add: parse_log_lines [OF X])
  then show "wal_entries X S s = (Inl Serialization, s)"
    using log list_law [OF validate_wal_dir refl, of s] assms(2,3) read_law [OF validate_segment_path [of 0], of s]
    by (simp add: wal_entries_def)
  then show "wal_open X S s = (Inr 0, s)" by (simp add: wal_open_def)
qed

end

end
