(* ===== verification/Log_Properties.thy ===== *)
theory Log_Properties
  imports Samples Gc Wal_Recovery
begin

text \<open>
  Properties of the logs and of what is recovered from them: the mutation log and its
  checkpoint, the catalog, the garbage collector, and the transaction log.
\<close>

section \<open>The mutation log\<close>

definition sample_delete :: mutation_record where
  "sample_delete = \<lparr>mr_sequence = 5, mr_base_sequence = 4,
     mr_fragment_deletes = [\<lparr>fd_fragment_id = 7, fd_deletes = ''_deletions/d5'', fd_deleted_count = 1\<rparr>],
     mr_fragment_adds = [], mr_index_generations = [], mr_rowindex_generation = None,
     mr_next_fragment_id = 0, mr_next_row_id = 0, mr_staged_artifacts = [], mr_checksum = []\<rparr>"

abbreviation sealed_delete :: mutation_record where
  "sealed_delete \<equiv> sealed plain_ext sample_delete"

lemma sealed_delete_stable: "stable_record plain_ext id sealed_delete"
  by (simp add: stable_record_def sealed_verifies)

lemma sealed_delete_gens: "mr_index_generations sealed_delete = []"
  by (simp add: sealed_def sample_delete_def)

text \<open>
  C27: A sealed record appended to the mutation log is durable, when it and the records before it
  advance at most one index generation each: the next read returns all earlier records and the new
  one, in the order of their sequence numbers. The checksum covers the hash map of the index
  generations in its order of iteration, of which only a permutation is promised; a record with
  several generations may fail its own checksum when it is read
  (\<open>mutation_checksum_needs_order\<close>).
\<close>

theorem mutation_append_read:
  assumes "plain_piece table" "json_law X" and hash: "hash_law H"
    and recs: "\<forall>r \<in> set (rs @ [r]). mr_verify X r \<and> length (mr_index_generations r) \<le> 1"
    and "mem_get s (wal_path table) = (if rs = [] then None else Some (log_bytes X rs))"
  shows "\<exists>s'. wal_append X mem_storage table r s = (Inr (), s')
    \<and> read_records X H mem_storage table s' = (Inr (sort_key mr_sequence (rs @ [r])), s')"
proof -
  have "\<forall>r \<in> set (rs @ [r]). stable_record X H r"
    using recs hash_order_short [OF hash] by (simp add: stable_record_def)
  then show ?thesis using assms(1,2,5) by (intro mem.append_then_read)
qed

theorem mutation_append_read_witness:
  "\<exists>s'. wal_append plain_ext mem_storage ''t'' sealed_delete mem_new = (Inr (), s')
    \<and> read_records plain_ext id mem_storage ''t'' s' = (Inr [sealed_delete], s')"
  using mutation_append_read [of "''t''" plain_ext id "[]" sealed_delete mem_new]
  by (simp add: plain_ext_law sealed_verifies hash_law_def mem_new_def sealed_delete_gens)

text \<open>
  After a crash in the middle of an append, the log reads as the records before the torn tail.
\<close>

theorem mutation_torn_tail_ignored:
  assumes "plain_piece table" "json_law X" "\<forall>r \<in> set rs. stable_record X H r" "torn X H t"
    "mem_get s (wal_path table) = Some (log_bytes X rs @ t)"
  shows "read_records X H mem_storage table s = (Inr (sort_key mr_sequence rs), s)"
  using assms by (rule mem.read_torn)

lemma torn_zero: "10 \<notin> set bs \<Longrightarrow> torn plain_ext id (0 # bs)"
  by (simp add: torn_def parse_mutation_record_def plain_ext_def parse_json_def)

definition torn_store :: memory_storage where
  "torn_store = \<lparr>ms_data = [(wal_path ''t'', log_bytes plain_ext [sealed_delete] @ [0])]\<rparr>"

text \<open>
  C38: The append does not repair a torn tail: a record appended behind one reports success and is
  not returned by any later read.
\<close>

theorem mutation_append_lost_after_torn_tail:
  assumes "plain_piece table" "json_law X" "\<forall>r \<in> set rs. stable_record X H r"
    "mem_get s (wal_path table) = Some (log_bytes X rs @ t)"
    "torn X H (t @ json_to_string X (mutation_record_value r))"
  shows "\<exists>s'. wal_append X mem_storage table r s = (Inr (), s')
    \<and> read_records X H mem_storage table s' = (Inr (sort_key mr_sequence rs), s')"
  using assms by (rule mem.append_after_torn)

theorem mutation_append_lost_after_torn_tail_witness:
  "\<exists>s'. wal_append plain_ext mem_storage ''t'' (sealed_delete\<lparr>mr_sequence := 6\<rparr>) torn_store = (Inr (), s')
    \<and> read_records plain_ext id mem_storage ''t'' s' = (Inr [sealed_delete], s')"
proof -
  have "torn plain_ext id ([0] @ json_to_string plain_ext
      (mutation_record_value (sealed_delete\<lparr>mr_sequence := 6\<rparr>)))"
    using torn_zero json_lawD(2) [OF plain_ext_law] by simp
  then show ?thesis
    using mutation_append_lost_after_torn_tail [of "''t''" plain_ext "[sealed_delete]" id torn_store "[0]"
        "sealed_delete\<lparr>mr_sequence := 6\<rparr>"]
    by (simp add: plain_ext_law sealed_delete_stable torn_store_def)
qed

text \<open>
  The checksum of a record depends on the order in which the map of index generations is
  iterated: when the map that is read back iterates in another order, a sealed record is not
  accepted again, so the log stops there.
\<close>

theorem mutation_checksum_needs_order:
  assumes "json_law X" "inj (sha256_hex X)" "mr_verify X r" "H (mr_index_generations r) \<noteq> mr_index_generations r"
  shows "read_lines X H [json_to_string X (mutation_record_value r)] = []"
proof -
  let ?r' = "r\<lparr>mr_index_generations := H (mr_index_generations r)\<rparr>"
  have inj: "mr_index_generations a = mr_index_generations b"
    if "mutation_record_value a = mutation_record_value b" for a b
  proof -
    have "de_mutation_record id (mutation_record_value a) = de_mutation_record id (mutation_record_value b)"
      by (simp only: that)
    then have "a\<lparr>mr_index_generations := id (mr_index_generations a)\<rparr>
        = b\<lparr>mr_index_generations := id (mr_index_generations b)\<rparr>"
      by (simp only: mutation_record_roundtrip option.inject)
    then show ?thesis by (drule_tac arg_cong [where f = mr_index_generations]) simp
  qed
  have "mutation_record_value (?r'\<lparr>mr_checksum := []\<rparr>) \<noteq> mutation_record_value (r\<lparr>mr_checksum := []\<rparr>)"
    using assms(4) inj [of "?r'\<lparr>mr_checksum := []\<rparr>" "r\<lparr>mr_checksum := []\<rparr>"] by auto
  then have "json_to_string X (mutation_record_value (?r'\<lparr>mr_checksum := []\<rparr>))
      \<noteq> json_to_string X (mutation_record_value (r\<lparr>mr_checksum := []\<rparr>))"
    using json_lawD(1) [OF assms(1)] by (intro notI) (drule arg_cong [where f = "json_parse X"], simp)
  then have "mr_compute_checksum X ?r' \<noteq> mr_compute_checksum X r"
    using assms(2) by (simp add: mr_compute_checksum_def checksum_bytes_def inj_eq)
  then have "\<not> mr_verify X ?r'" using assms(3) by (simp add: mr_verify_def)
  then show ?thesis by (simp add: parse_record [OF assms(1)])
qed

definition hex_ext :: ext where
  "hex_ext = plain_ext\<lparr>sha256_hex := map (\<lambda>b. char_of (unat b))\<rparr>"

theorem mutation_checksum_needs_order_witness:
  "read_lines hex_ext rev [json_to_string hex_ext (mutation_record_value (sealed hex_ext
     (sample_delete\<lparr>mr_index_generations := [(''a'', \<lparr>ix_base = None, ix_deltas = []\<rparr>),
        (''b'', \<lparr>ix_base = None, ix_deltas = []\<rparr>)]\<rparr>)))] = []"
proof -
  have law: "json_law hex_ext"
    using plain_ext_law by (simp add: json_law_def hex_ext_def)
  have "inj (\<lambda>b :: u8. char_of (unat b))"
  proof (rule injI)
    fix a b :: u8
    assume "char_of (unat a) = char_of (unat b)"
    then have "(of_char (char_of (unat a)) :: nat) = of_char (char_of (unat b))" by simp
    then have "unat a = unat b" unfolding of_char_of by (simp only: mod_less unat_u8_less)
    then show "a = b" by (simp add: word_unat_eq_iff)
  qed
  then have inj: "inj (sha256_hex hex_ext)" by (simp add: hex_ext_def)
  show ?thesis
    by (rule mutation_checksum_needs_order [OF law inj sealed_verifies]) (simp add: sealed_def)
qed

section \<open>Checkpoint and catalog\<close>

definition sample_base :: manifest where
  "sample_base = finalize plain_ext None ''now'' sample_manifest"

definition sample_schema :: table_schema where
  "sample_schema = \<lparr>sc_schema_id = 1,
     sc_columns = [\<lparr>col_name = ''id'', col_type = ''int64'', col_nullable = False, col_field_id = 1\<rparr>],
     sc_partition_by = None, sc_sort = None, sc_agg_group_keys = None,
     sc_row_group_target_rows = 1000, sc_row_group_target_bytes = 1000000, sc_dropped_columns = [],
     sc_max_field_id = 1\<rparr>"

definition sample_table :: memory_storage where
  "sample_table = \<lparr>ms_data =
     [(tpath ''t'' ''_manifest.json'', json_to_string plain_ext (JObj [(''latest'', jnum 4)])),
      (tpath ''t'' (manifest_filename 4), json_to_string plain_ext (manifest_value sample_base)),
      (tpath ''t'' (schema_filename 1), json_to_string plain_ext (schema_value sample_schema)),
      (wal_path ''t'', log_bytes plain_ext [sealed_delete])]\<rparr>"

text \<open>
  C18: Folding the log into a new snapshot is invisible to readers: the table loaded before the
  checkpoint and the one loaded after it have the same schema and the same manifest, up to the
  snapshot's own parent link, commit time and checksum.
\<close>

theorem checkpoint_preserves_table:
  assumes "plain_piece table" "json_law X"
    "mem_get s (tpath table ''_manifest.json'') = Some (json_to_string X (JObj [(''latest'', jnum (mf_sequence base))]))"
    "mem_get s (tpath table (manifest_filename (mf_sequence base))) = Some (json_to_string X (manifest_value base))"
    "verify_checksum X base" "mf_sequence base \<noteq> 0"
    "mem_get s (tpath table (schema_filename (mf_schema_id base))) = Some sb"
    "parse_schema X sb = Some sc" "sc_schema_id sc = mf_schema_id base"
    "read_records X H mem_storage table s = (Inr rs, s)" "\<forall>r \<in> set rs. artifacts_ok X table r"
    "\<exists>r \<in> set rs. mr_sequence r > mf_sequence base"
  shows "\<exists>m parent s1 s2.
    catalog_load X H mem_storage table s
      = (Inr \<lparr>cat_table = table, cat_latest_manifest = Some m, cat_latest_schema = Some (repaired sc)\<rparr>, s1)
    \<and> checkpoint_locked X H mem_storage now table s = (Inr True, s2)
    \<and> catalog_load X H mem_storage table s2
      = (Inr \<lparr>cat_table = table, cat_latest_manifest = Some (finalize X parent now m),
               cat_latest_schema = Some (repaired sc)\<rparr>, s2)"
  using mem.load_around_checkpoint(1) [OF assms] mem.load_around_checkpoint(2) [OF assms] by blast

theorem checkpoint_preserves_table_witness:
  "\<exists>m parent s1 s2.
    catalog_load plain_ext id mem_storage ''t'' sample_table
      = (Inr \<lparr>cat_table = ''t'', cat_latest_manifest = Some m, cat_latest_schema = Some (repaired sample_schema)\<rparr>, s1)
    \<and> checkpoint_locked plain_ext id mem_storage ''later'' ''t'' sample_table = (Inr True, s2)
    \<and> catalog_load plain_ext id mem_storage ''t'' s2
      = (Inr \<lparr>cat_table = ''t'', cat_latest_manifest = Some (finalize plain_ext parent ''later'' m),
               cat_latest_schema = Some (repaired sample_schema)\<rparr>, s2)"
proof -
  have fields: "mf_sequence sample_base = 4" "mf_schema_id sample_base = 1" "mr_sequence sealed_delete = 5"
    "mr_staged_artifacts sealed_delete = []"
    by (simp_all add: sample_base_def finalize_def sample_manifest_def sealed_def sample_delete_def Let_def)
  have names: "manifest_filename 4 \<noteq> ''_manifest.json''" "schema_filename 1 \<noteq> ''_manifest.json''"
    "schema_filename 1 \<noteq> manifest_filename 4"
    "wal_path ''t'' \<noteq> tpath ''t'' ''_manifest.json''"
    "wal_path ''t'' \<noteq> tpath ''t'' (manifest_filename 4)"
    "wal_path ''t'' \<noteq> tpath ''t'' (schema_filename 1)"
    by (simp_all add: tpath_def manifest_filename_def schema_filename_def wal_path_def)
  have view: "mem_get sample_table (tpath ''t'' ''_manifest.json'') = Some (json_to_string plain_ext (JObj [(''latest'', jnum 4)]))"
    "mem_get sample_table (tpath ''t'' (manifest_filename 4)) = Some (json_to_string plain_ext (manifest_value sample_base))"
    "mem_get sample_table (tpath ''t'' (schema_filename 1)) = Some (json_to_string plain_ext (schema_value sample_schema))"
    "mem_get sample_table (wal_path ''t'') = Some (log_bytes plain_ext [sealed_delete])"
    by (simp_all add: sample_table_def names names [symmetric])
  have "parse_schema plain_ext (json_to_string plain_ext (schema_value sample_schema)) = Some sample_schema"
    by (simp add: parse_schema_def json_lawD [OF plain_ext_law] schema_roundtrip sample_schema_def i32_range_def)
  moreover have "read_records plain_ext id mem_storage ''t'' sample_table = (Inr [sealed_delete], sample_table)"
    using read_lines_log [OF plain_ext_law, of "[sealed_delete]" id "[]"]
    by (simp add: mem.read_records_run view sealed_delete_stable)
  moreover have "sc_schema_id sample_schema = mf_schema_id sample_base" by (simp add: fields sample_schema_def)
  moreover have "verify_checksum plain_ext sample_base" by (simp add: sample_base_def finalize_verifies)
  moreover have "\<forall>r \<in> set [sealed_delete]. artifacts_ok plain_ext ''t'' r"
    by (simp add: artifacts_ok_def fields)
  ultimately show ?thesis
    by (intro checkpoint_preserves_table [where rs = "[sealed_delete]" and base = sample_base])
      (simp_all add: fields view plain_ext_law)
qed

section \<open>Garbage collection\<close>

text \<open>
  C26: A collection leaves every file that a retained snapshot references as it was, whatever else
  it sweeps; temporary files and the entries of the staging and manifest directories excepted.
\<close>

theorem gc_keeps_retained_files:
  assumes "plain_piece table" "clean_keys (dom (mem_get s))"
    "gc_collect X mem_storage table retain s = (r, s')"
    "load_valid_snapshots X mem_storage table s = (Inr valid, s)" "valid \<noteq> []"
    "resolve_current_sequence X mem_storage table (rev (sort (map fst valid))) s = (Inr current, s1)"
    "q \<in> set (retained_sequences (cutoff_seq retain current) current (rev (sort (map fst valid))))"
    "map_of (rev valid) q = Some m" "f \<in> set (manifest_referenced_files m)" "\<not> transient table (tpath table f)"
  shows "mem_get s' (tpath table f) = mem_get s (tpath table f)"
proof -
  have "tpath table f \<in> set (referenced_paths table
      (retained_sequences (cutoff_seq retain current) current (rev (sort (map fst valid)))) valid)"
    using assms(7-9) unfolding referenced_paths_def by (force split: option.splits)
  then show ?thesis
    using assms(10) by (intro mem.gc_collect_keeps [OF assms(1-6)]) (simp_all add: kept_def transient_def)
qed

definition sample_garbage :: memory_storage where
  "sample_garbage = \<lparr>ms_data =
     [(tpath ''t'' (manifest_filename 4), json_to_string plain_ext (manifest_value sample_base)),
      (tpath ''t'' ''_manifest.json'', json_to_string plain_ext (JObj [(''latest'', jnum 4)])),
      (''t/rg_1.parquet'', [1, 2]), (''t/rg_9.parquet'', [3])]\<rparr>"

lemma sample_garbage_children:
  "dir_children (tpath ''t'' ''_manifests'') (dom (mem_get sample_garbage)) = {tpath ''t'' (manifest_filename 4)}"
proof -
  have "child_of (tpath ''t'' ''_manifests'' @ ''/'') (tpath ''t'' ''_manifest.json'') = None"
    "child_of (tpath ''t'' ''_manifests'' @ ''/'') ''t/rg_1.parquet'' = None"
    "child_of (tpath ''t'' ''_manifests'' @ ''/'') ''t/rg_9.parquet'' = None"
    by (simp_all add: child_of_def tpath_t strip_prefix_def starts_with_def)
  then show ?thesis using child_manifest [of "''t''" 4]
    by (auto simp: dir_children_def dom_map_of_conv_image_fst sample_garbage_def)
qed

lemma sample_garbage_snapshots:
  "load_valid_snapshots plain_ext mem_storage ''t'' sample_garbage = (Inr [(4, sample_base)], sample_garbage)"
proof -
  have "st_list mem_storage (tpath ''t'' ''_manifests'') sample_garbage
      = (Inr [tpath ''t'' (manifest_filename 4)], sample_garbage)"
    using mem.list_law [OF validate_manifests_dir [OF plain_t] refl, of sample_garbage]
    by (simp add: sample_garbage_children)
  moreover have "st_read mem_storage (tpath ''t'' (manifest_filename 4)) sample_garbage
      = (Inr (json_to_string plain_ext (manifest_value sample_base)), sample_garbage)"
    using mem.read_law [OF validate_manifest_path [OF plain_t], of 4 sample_garbage] by (simp add: sample_garbage_def)
  moreover have "valid_snapshot plain_ext 4 (json_to_string plain_ext (manifest_value sample_base)) = Some sample_base"
  proof -
    have "parse_manifest plain_ext (json_to_string plain_ext (manifest_value sample_base)) = Some sample_base"
      by (simp add: parse_manifest_def json_lawD [OF plain_ext_law] manifest_roundtrip)
    moreover have "mf_sequence sample_base = 4" "mf_format_version sample_base = 1"
      by (simp_all add: sample_base_def finalize_def sample_manifest_def Let_def)
    ultimately show ?thesis using finalize_verifies by (simp add: valid_snapshot_def sample_base_def)
  qed
  ultimately show ?thesis
    using entry_seq_filename [OF plain_t, of 4]
    by (simp add: load_valid_snapshots_def list_or_empty_def del: mem_storage_sel)
qed

theorem gc_keeps_retained_files_witness:
  "\<exists>r s'. gc_collect plain_ext mem_storage ''t'' 1 sample_garbage = (r, s')
     \<and> mem_get s' ''t/rg_1.parquet'' = Some [1, 2]"
proof -
  obtain r s' where run: "gc_collect plain_ext mem_storage ''t'' 1 sample_garbage = (r, s')" by fastforce
  have "clean_keys (dom (mem_get sample_garbage))"
    using validate_manifest_path [OF plain_t, of 4] validate_pointer_path(1) [OF plain_t]
      validate_join_path [of "[''t'', ''rg_1.parquet'']"] validate_join_path [of "[''t'', ''rg_9.parquet'']"]
    by (simp add: clean_keys_def dom_map_of_conv_image_fst sample_garbage_def join_path_def plain_piece_def)
  moreover have "read_pointer plain_ext mem_storage ''t'' sample_garbage = (Inr (Some 4), sample_garbage)"
  proof -
    have "st_read mem_storage (tpath ''t'' ''_manifest.json'') sample_garbage
        = (Inr (json_to_string plain_ext (JObj [(''latest'', jnum 4)])), sample_garbage)"
      using mem.read_law [OF validate_pointer_path(1) [OF plain_t], of sample_garbage]
      by (simp add: sample_garbage_def tpath_t manifest_filename_def)
    then show ?thesis
      by (simp add: read_pointer_def json_lawD [OF plain_ext_law] pointer_latest_def jfield_def de_u64_def
          del: mem_storage_sel)
  qed
  then have "resolve_current_sequence plain_ext mem_storage ''t'' (rev (sort (map fst [(4, sample_base)]))) sample_garbage
      = (Inr 4, sample_garbage)" by (simp add: resolve_current_sequence_def)
  moreover have "\<not> transient ''t'' (tpath ''t'' ''rg_1.parquet'')"
    by (simp add: transient_def direct_def tpath_t base_name_def) code_simp
  moreover have "''rg_1.parquet'' \<in> set (manifest_referenced_files sample_base)"
    by (simp add: sample_base_def finalize_def sample_manifest_def Let_def manifest_referenced_files_def
        entry_files_def sample_entry_def)
  moreover have "4 \<in> set (retained_sequences (cutoff_seq 1 4) 4 (rev (sort (map fst [(4 :: u64, sample_base)]))))"
    by (simp add: retained_sequences_def cutoff_seq_def Let_def)
  ultimately have "mem_get s' (tpath ''t'' ''rg_1.parquet'') = mem_get sample_garbage (tpath ''t'' ''rg_1.parquet'')"
    by (intro gc_keeps_retained_files [OF plain_t _ run sample_garbage_snapshots, where q = 4 and m = sample_base
          and current = 4]) simp_all
  then show ?thesis using run by (auto simp: tpath_t sample_garbage_def manifest_filename_def)
qed

section \<open>The transaction log\<close>

text \<open>
  Bodies appended to an empty transaction log get the log sequence numbers 0, 1, 2 and so on;
  reading the log gives exactly these entries in order, and reopening it continues the numbering.
\<close>

theorem log_appends_read_back:
  assumes "json_law X" "segments (dom (mem_get s)) = {}" "bs \<noteq> []" "length bs < 2 ^ 64"
  shows "\<exists>s'. append_all X mem_storage [] bs (s, 0) = (Inr (numbered bs), (s', of_nat (length bs)))
    \<and> wal_entries X mem_storage s' = (Inr (numbered bs), s')
    \<and> wal_open X mem_storage s' = (Inr (of_nat (length bs)), s')"
  using assms by (rule mem.append_all_reopen)

theorem log_appends_read_back_witness:
  "\<exists>s'. append_all plain_ext mem_storage [] [Begin ''x'', Commit ''x''] (mem_new, 0)
      = (Inr (numbered [Begin ''x'', Commit ''x'']), (s', 2))
    \<and> wal_open plain_ext mem_storage s' = (Inr 2, s')"
  using log_appends_read_back [OF plain_ext_law, of mem_new "[Begin ''x'', Commit ''x'']"]
  by (auto simp: segments_def dir_children_def mem_new_def)

text \<open>
  A torn last line makes the whole transaction log unreadable, and opening it then starts the
  numbering again at 0, below the numbers of the entries in the log.
\<close>

theorem torn_log_restarts_numbering:
  assumes "json_law X" "dir_children ''_wal'' (dom (mem_get s)) = {segment_path 0}"
    "mem_get s (segment_path 0) = Some (log_lines X es @ t)"
    "t \<noteq> []" "10 \<notin> set t" "Option.bind (json_parse X t) de_log_entry = None"
  shows "wal_entries X mem_storage s = (Inl Serialization, s) \<and> wal_open X mem_storage s = (Inr 0, s)"
  using mem.torn_log_reopen [OF assms] by simp

definition torn_log :: memory_storage where
  "torn_log = \<lparr>ms_data = [(segment_path 0, log_lines plain_ext (numbered [Begin ''x'', Commit ''x'']) @ [0])]\<rparr>"

theorem torn_log_restarts_numbering_witness:
  "wal_entries plain_ext mem_storage torn_log = (Inl Serialization, torn_log)
    \<and> wal_open plain_ext mem_storage torn_log = (Inr 0, torn_log)"
proof (rule torn_log_restarts_numbering [OF plain_ext_law])
  show "dir_children ''_wal'' (dom (mem_get torn_log)) = {segment_path 0}"
    using child_segment_path [of 0] by (auto simp: dir_children_def torn_log_def split: if_splits)
  show "Option.bind (json_parse plain_ext [0]) de_log_entry = None"
    by (simp add: plain_ext_def parse_json_def)
qed (simp_all add: torn_log_def)

text \<open>
  C39: Recovery puts every transaction of the log into exactly one of the committed, aborted and
  undecided lists; it is committed when its first decision is a commit.
\<close>

theorem recovery_partition:
  "set (rs_committed (recover_entries es)) \<union> set (rs_aborted (recover_entries es))
      \<union> set (rs_undecided (recover_entries es)) = tx_id ` set es
   \<and> distinct (rs_committed (recover_entries es) @ rs_aborted (recover_entries es) @ rs_undecided (recover_entries es))
   \<and> set (rs_committed (recover_entries es))
      = {tx \<in> tx_id ` set es. commits_first (filter (\<lambda>e. tx_id e = tx) es)}"
proof -
  have "decide l = Committed \<or> decide l = Aborted \<or> decide l = Undecided" for l
    by (cases "decide l") simp_all
  then have "set (rs_committed (recover_entries es)) \<union> set (rs_aborted (recover_entries es))
      \<union> set (rs_undecided (recover_entries es)) = tx_id ` set es"
    unfolding recover_entries_sets by blast
  then show ?thesis using recover_entries_distinct [of es] recover_entries_sets(1) [of es]
    by (simp only: decide_committed)
qed

end
