(* ===== verification/Commit_Delta.thy ===== *)
theory Commit_Delta
  imports Mutation_Wal
begin

text \<open>
  The description of a commit handed to caches: \<^verbatim>\<open>crates/icefalldb-core/src/commit_delta.rs\<close>. The
  planned row groups a delta carries are only stored, so their type is a parameter.
\<close>

section \<open>Definitions\<close>

datatype commit_kind = Noop | Append | Replace | Delete | Update | Merge | Compact

record fragment_delta =
  fdl_fragment_id :: u64
  fdl_old_deletes :: "string option"
  fdl_new_deletes :: "string option"
  fdl_old_deleted_count :: u64
  fdl_new_deleted_count :: u64

record 'prg commit_delta =
  cd_previous_sequence :: u64
  cd_new_sequence :: u64
  cd_kind :: commit_kind
  cd_previous_manifest :: manifest
  cd_new_manifest :: manifest
  cd_added_row_groups :: "'prg list"

definition commit_delta_new :: "manifest \<Rightarrow> manifest \<Rightarrow> commit_kind \<Rightarrow> 'prg commit_delta" where
  "commit_delta_new previous_manifest new_manifest kind =
     \<lparr>cd_previous_sequence = mf_sequence previous_manifest, cd_new_sequence = mf_sequence new_manifest,
      cd_kind = kind, cd_previous_manifest = previous_manifest, cd_new_manifest = new_manifest,
      cd_added_row_groups = []\<rparr>"

definition with_added_row_groups :: "'prg list \<Rightarrow> 'prg commit_delta \<Rightarrow> 'prg commit_delta" where
  "with_added_row_groups added d = d\<lparr>cd_added_row_groups := added\<rparr>"

definition is_noop :: "'prg commit_delta \<Rightarrow> bool" where
  "is_noop d \<longleftrightarrow> cd_previous_sequence d = cd_new_sequence d"

definition schema_changed :: "'prg commit_delta \<Rightarrow> bool" where
  "schema_changed d \<longleftrightarrow> mf_schema_id (cd_previous_manifest d) \<noteq> mf_schema_id (cd_new_manifest d)"

definition added_row_groups :: "'prg commit_delta \<Rightarrow> row_group_entry list" where
  "added_row_groups d =
     (let prev_ids = set (map rg_fragment_id (mf_row_groups (cd_previous_manifest d)))
      in filter (\<lambda>rg. rg_fragment_id rg \<notin> prev_ids) (mf_row_groups (cd_new_manifest d)))"

definition removed_fragment_ids :: "'prg commit_delta \<Rightarrow> u64 list" where
  "removed_fragment_ids d =
     (let new_ids = set (map rg_fragment_id (mf_row_groups (cd_new_manifest d)))
      in map rg_fragment_id
           (filter (\<lambda>rg. rg_fragment_id rg \<notin> new_ids) (mf_row_groups (cd_previous_manifest d))))"

definition fragment_change :: "row_group_entry \<Rightarrow> row_group_entry \<Rightarrow> fragment_delta option" where
  "fragment_change old new =
     (if rg_data old = rg_data new \<and> rg_meta old = rg_meta new
         \<and> (rg_deletes old \<noteq> rg_deletes new \<or> rg_deleted_count old \<noteq> rg_deleted_count new)
      then Some \<lparr>fdl_fragment_id = rg_fragment_id new, fdl_old_deletes = rg_deletes old,
                 fdl_new_deletes = rg_deletes new, fdl_old_deleted_count = rg_deleted_count old,
                 fdl_new_deleted_count = rg_deleted_count new\<rparr>
      else None)"

fun updated_among :: "(u64 \<Rightarrow> row_group_entry option) \<Rightarrow> row_group_entry list \<Rightarrow> fragment_delta list" where
  "updated_among prev_by_id [] = []"
| "updated_among prev_by_id (new # rest) =
     (case Option.bind (prev_by_id (rg_fragment_id new)) (\<lambda>old. fragment_change old new) of
        Some d \<Rightarrow> d # updated_among prev_by_id rest
      | None \<Rightarrow> updated_among prev_by_id rest)"

definition updated_fragments :: "'prg commit_delta \<Rightarrow> fragment_delta list" where
  "updated_fragments d =
     updated_among (map_of (rev (map (\<lambda>rg. (rg_fragment_id rg, rg)) (mf_row_groups (cd_previous_manifest d)))))
       (mf_row_groups (cd_new_manifest d))"

section \<open>A delta tells the whole difference\<close>

text \<open>
  Rebuilding the new fragment list from the old one and the delta: drop what was removed, set
  the changed deletion vectors, append what was added.
\<close>

definition apply_fragment_delta :: "fragment_delta list \<Rightarrow> row_group_entry \<Rightarrow> row_group_entry" where
  "apply_fragment_delta ds e =
     (case find (\<lambda>d. fdl_fragment_id d = rg_fragment_id e) ds of
        Some d \<Rightarrow> e\<lparr>rg_deletes := fdl_new_deletes d, rg_deleted_count := fdl_new_deleted_count d\<rparr>
      | None \<Rightarrow> e)"

definition fragment_ids :: "manifest \<Rightarrow> u64 list" where
  "fragment_ids m = map rg_fragment_id (mf_row_groups m)"

lemma prev_by_id:
  assumes "distinct (map rg_fragment_id es)" "e \<in> set es"
  shows "map_of (rev (map (\<lambda>rg. (rg_fragment_id rg, rg)) es)) (rg_fragment_id e) = Some e"
  using assms by (intro map_of_is_SomeI) (auto simp: rev_map [symmetric] comp_def)

lemma updated_among_mem:
  "d \<in> set (updated_among f es) \<longleftrightarrow>
     (\<exists>new \<in> set es. \<exists>old. f (rg_fragment_id new) = Some old \<and> fragment_change old new = Some d)"
  by (induction es) (auto split: option.splits simp: bind_eq_Some_conv)

lemma fragment_change_id: "fragment_change old new = Some d \<Longrightarrow> fdl_fragment_id d = rg_fragment_id new"
  by (auto simp: fragment_change_def split: if_splits)

lemma delta_rebuilds_fragment:
  assumes d: "distinct (fragment_ids old)" "distinct (fragment_ids new)"
    and e: "e \<in> set (mf_row_groups old)" "e' \<in> set (mf_row_groups new)" "rg_fragment_id e = rg_fragment_id e'"
    and same: "rg_data e = rg_data e'" "rg_meta e = rg_meta e'" "rg_agg e = rg_agg e'"
  shows "apply_fragment_delta (updated_fragments (commit_delta_new old new k :: 'prg commit_delta)) e = e'"
proof -
  let ?ds = "updated_fragments (commit_delta_new old new k :: 'prg commit_delta)"
  let ?f = "map_of (rev (map (\<lambda>rg. (rg_fragment_id rg, rg)) (mf_row_groups old)))"
  have ds: "x \<in> set ?ds \<longleftrightarrow> (\<exists>n \<in> set (mf_row_groups new). \<exists>o'. ?f (rg_fragment_id n) = Some o' \<and> fragment_change o' n = Some x)" for x
    by (simp add: updated_fragments_def updated_among_mem commit_delta_new_def)
  have fe: "?f (rg_fragment_id e) = Some e"
    using d(1) e(1) by (intro prev_by_id) (simp_all add: fragment_ids_def)
  have only: "x \<in> set ?ds \<Longrightarrow> fdl_fragment_id x = rg_fragment_id e \<Longrightarrow> fragment_change e e' = Some x" for x
  proof -
    assume x: "x \<in> set ?ds" "fdl_fragment_id x = rg_fragment_id e"
    obtain n o' where n: "n \<in> set (mf_row_groups new)" "?f (rg_fragment_id n) = Some o'" "fragment_change o' n = Some x"
      using x(1) ds by blast
    have "rg_fragment_id n = rg_fragment_id e'" using fragment_change_id [OF n(3)] x(2) e(3) by simp
    then have "n = e'" using d(2) n(1) e(2)
      by (auto simp: fragment_ids_def distinct_map dest: inj_onD)
    with n fe e(3) show ?thesis by simp
  qed
  show ?thesis
  proof (cases "fragment_change e e'")
    case None
    then have "find (\<lambda>d. fdl_fragment_id d = rg_fragment_id e) ?ds = None"
      using only by (auto simp: find_None_iff)
    moreover have "e = e'"
      using None e(3) same by (auto simp: fragment_change_def split: if_splits intro!: row_group_entry.equality)
    ultimately show ?thesis by (simp add: apply_fragment_delta_def)
  next
    case (Some x)
    then have "x \<in> set ?ds" using ds e fe by auto
    moreover have "fdl_fragment_id x = rg_fragment_id e" using fragment_change_id [OF Some] e(3) by simp
    ultimately obtain y where y: "find (\<lambda>d. fdl_fragment_id d = rg_fragment_id e) ?ds = Some y" "y \<in> set ?ds"
      "fdl_fragment_id y = rg_fragment_id e"
      by (cases "find (\<lambda>d. fdl_fragment_id d = rg_fragment_id e) ?ds") (auto simp: find_None_iff find_Some_iff)
    then have "x = y" using only [OF y(2,3)] Some by simp
    with y(1) Some e(3) same show ?thesis
      by (auto simp: apply_fragment_delta_def fragment_change_def split: if_splits intro!: row_group_entry.equality)
  qed
qed

end
