(* ===== verification/Meta_Properties.thy ===== *)
theory Meta_Properties
  imports Samples Commit_Delta Schema
begin

text \<open>
  Properties of paths and metadata: path validation, checksums, manifests and their hash chain,
  row-group metadata, schema evolution, and commit deltas.
\<close>

section \<open>Paths\<close>

text \<open>
  A validated path cannot leave the storage root: it is a relative path of plain components,
  none of them empty, \<^verbatim>\<open>.\<close> or \<^verbatim>\<open>..\<close>; validating it again changes nothing; and a path with a parent
  component is refused.
\<close>

theorem validated_path_safe:
  "(case validate_path raw of
      Inr p \<Rightarrow> (\<exists>qs. qs \<noteq> [] \<and> list_all plain_piece qs \<and> p = join_path qs)
        \<and> validate_path p = Inr p \<and> ParentDir \<notin> set (path_components raw)
    | Inl e \<Rightarrow> (\<exists>m. e = InvalidPath m))"
proof (cases "validate_path raw")
  case (Inl e)
  have "clean_components acc cs = Inl e \<Longrightarrow> \<exists>m. e = InvalidPath m" for acc cs
    by (induction acc cs rule: clean_components.induct) (auto split: if_splits)
  with Inl show ?thesis by (auto simp: validate_path_def split: if_splits)
next
  case (Inr p)
  have "ParentDir \<notin> set (path_components raw)"
    using Inr clean_components_traversal [of "path_components raw" "[]"]
    by (auto simp: validate_path_def split: if_splits)
  with Inr show ?thesis using validate_path_Inr [OF Inr] validate_path_idem [OF Inr] by (auto simp: list_all_iff)
qed

section \<open>Checksums\<close>

text \<open>
  The checksum of a JSON value does not depend on the order of object entries at any depth,
  and canonicalizing twice is canonicalizing once.
\<close>

theorem checksum_order_independent:
  assumes "json_sim a b"
  shows "checksum_json X a = checksum_json X b \<and> canonicalize (canonicalize a) = canonicalize b"
  using canonicalize_sim [OF assms] by (simp add: checksum_json_def canonicalize_idem)

theorem checksum_order_independent_witness:
  "checksum_json plain_ext (JObj [(''b'', JNull), (''a'', JBool True)])
     = checksum_json plain_ext (JObj [(''a'', JBool True), (''b'', JNull)])"
proof -
  have "json_sim (JObj [(''b'', JNull), (''a'', JBool True)]) (JObj [(''a'', JBool True), (''b'', JNull)])"
    by (rule sim_obj [of _ "[(''b'', JNull), (''a'', JBool True)]"]) (simp_all add: sim_refl)
  from checksum_order_independent [OF this, of plain_ext] show ?thesis by simp
qed

section \<open>Manifests\<close>

text \<open>
  A finalized manifest that is written and read back is the same manifest, carries a checksum
  that verifies, and names the parent it was given.
\<close>

theorem manifest_write_read:
  assumes "json_law X"
  shows "parse_manifest X (json_to_string X (manifest_value (finalize X parent now m))) = Some (finalize X parent now m)
    \<and> verify_checksum X (finalize X parent now m) \<and> mf_parent_hash (finalize X parent now m) = parent"
  using finalize_verifies [of X parent now m]
  by (simp add: parse_manifest_def json_lawD [OF assms] manifest_roundtrip finalize_def Let_def)

theorem manifest_write_read_witness:
  "parse_manifest plain_ext (json_to_string plain_ext (manifest_value (finalize plain_ext None ''now'' sample_manifest)))
     = Some (finalize plain_ext None ''now'' sample_manifest)"
  using manifest_write_read [OF plain_ext_law, of None "''now''" sample_manifest] by simp

text \<open>
  A new manifest is linked to the highest sequence below its own that has a file, also when
  numbers are missing in between.
\<close>

theorem manifest_parent_linked:
  assumes "plain_piece table" "1 < n" "latest_below table (dom (mem_get s)) n q"
    "mem_get s (tpath table (manifest_filename q)) = Some bs" "parse_manifest X bs = Some p"
  shows "finalize_manifest X mem_storage table now m n s = (Inr (finalize X (Some (mf_checksum p)) now m), s)"
  using mem.parent_checksum_links [OF assms] by (simp add: finalize_manifest_def)

definition chain_store :: memory_storage where
  "chain_store = \<lparr>ms_data = [(tpath ''t'' (manifest_filename 4), json_to_string plain_ext (manifest_value sample_manifest))]\<rparr>"

theorem manifest_parent_linked_witness:
  "finalize_manifest plain_ext mem_storage ''t'' ''now'' sample_manifest 9 chain_store
     = (Inr (finalize plain_ext (Some []) ''now'' sample_manifest), chain_store)"
proof -
  have dom: "dom (mem_get chain_store) = {tpath ''t'' (manifest_filename 4)}"
    by (auto simp: chain_store_def split: if_splits)
  have "dir_children (tpath ''t'' ''_manifests'') (dom (mem_get chain_store)) = {tpath ''t'' (manifest_filename 4)}"
    using child_manifest [of "''t''" 4] by (auto simp: dir_children_def dom)
  then have "latest_below ''t'' (dom (mem_get chain_store)) 9 4"
    using entry_seq_filename [OF plain_t, of 4] by (auto simp: latest_below_def dom)
  moreover have "parse_manifest plain_ext (json_to_string plain_ext (manifest_value sample_manifest)) = Some sample_manifest"
    by (simp add: parse_manifest_def json_lawD [OF plain_ext_law] manifest_roundtrip)
  ultimately show ?thesis
    using manifest_parent_linked [OF plain_t, of 9 chain_store 4
        "json_to_string plain_ext (manifest_value sample_manifest)" plain_ext sample_manifest]
    by (simp add: chain_store_def sample_manifest_def)
qed

section \<open>Row-group metadata\<close>

text \<open>
  After its checksums are computed, row-group metadata verifies against the data file and
  against itself, and keeps its row ids and statistics; written and read back it is unchanged.
\<close>

theorem row_group_meta_verifies:
  assumes "json_law X" "rgm_wf m" "rgm_compute_checksum X bs m = (cs, m')"
  shows "verify_against_data X bs m' \<and> verify_meta_checksum X m' \<and> rm_row_ids m' = rm_row_ids m
    \<and> parse_row_group_meta X (json_to_string X (row_group_meta_value m)) = Some m"
  using rgm_checksum_verifies [OF assms(3)] rgm_roundtrip [OF assms(2)]
  by (simp add: parse_row_group_meta_def json_lawD [OF assms(1)])

theorem row_group_meta_verifies_witness:
  "verify_against_data plain_ext [1, 2] (snd (rgm_compute_checksum plain_ext [1, 2] sample_meta))
   \<and> verify_meta_checksum plain_ext (snd (rgm_compute_checksum plain_ext [1, 2] sample_meta))"
proof -
  obtain cs m' where c: "rgm_compute_checksum plain_ext [1, 2] sample_meta = (cs, m')" by fastforce
  have "rgm_wf sample_meta" by (simp add: rgm_wf_def sample_meta_def)
  from row_group_meta_verifies [OF plain_ext_law this c] show ?thesis by (simp add: c)
qed

section \<open>Schema evolution\<close>

text \<open>
  Assigning field ids keeps the id of every column that the previous schema knew, gives new
  columns ids above all that were ever used, keeps ids distinct and positive, and never lowers
  the recorded maximum.
\<close>

theorem field_ids_stable:
  assumes "\<And>p. previous = Some p \<Longrightarrow> schema_wf p" "distinct (map col_name (sc_columns self))"
    "id_floor previous self + 1 + int (length (sc_columns self)) < 2 ^ 31"
  shows "ids_evolve previous self (assign_field_ids previous self)"
  using assms by (rule assign_field_ids_evolve)

definition sample_columns :: table_schema where
  "sample_columns = \<lparr>sc_schema_id = 2, sc_columns = [new_column ''id'' ''int64'' False, new_column ''v'' ''utf8'' True],
     sc_partition_by = None, sc_sort = None, sc_agg_group_keys = None, sc_row_group_target_rows = 0,
     sc_row_group_target_bytes = 0, sc_dropped_columns = [], sc_max_field_id = 0\<rparr>"

theorem field_ids_stable_witness:
  "ids_evolve None sample_columns (assign_field_ids None sample_columns)"
  by (rule field_ids_stable) (simp_all add: sample_columns_def id_floor_def new_column_def)

section \<open>Commit deltas\<close>

text \<open>
  The old fragments less the removed ones, with the changed deletion vectors set, and the
  added ones are exactly the fragments of the new manifest, when a kept fragment keeps its files.
\<close>

theorem commit_delta_complete:
  fixes d :: "'prg commit_delta"
  assumes "d = commit_delta_new old new k" "distinct (fragment_ids old)" "distinct (fragment_ids new)"
    and same: "\<And>e e'. e \<in> set (mf_row_groups old) \<Longrightarrow> e' \<in> set (mf_row_groups new) \<Longrightarrow>
      rg_fragment_id e = rg_fragment_id e' \<Longrightarrow>
      rg_data e = rg_data e' \<and> rg_meta e = rg_meta e' \<and> rg_agg e = rg_agg e'"
  shows "set (mf_row_groups new) =
    apply_fragment_delta (updated_fragments d)
        ` {e \<in> set (mf_row_groups old). rg_fragment_id e \<notin> set (removed_fragment_ids d)}
      \<union> set (added_row_groups d)"
    (is "_ = ?A \<union> _")
proof -
  have upd: "apply_fragment_delta (updated_fragments d) e = e'"
    if "e \<in> set (mf_row_groups old)" "e' \<in> set (mf_row_groups new)" "rg_fragment_id e = rg_fragment_id e'" for e e'
    unfolding assms(1) using delta_rebuilds_fragment [OF assms(2,3) that] same [OF that] by blast
  have old: "{e \<in> set (mf_row_groups old). rg_fragment_id e \<notin> set (removed_fragment_ids d)}
      = {e \<in> set (mf_row_groups old). \<exists>e' \<in> set (mf_row_groups new). rg_fragment_id e = rg_fragment_id e'}"
    by (auto simp: removed_fragment_ids_def assms(1) commit_delta_new_def)
  have add: "set (added_row_groups d)
      = {e' \<in> set (mf_row_groups new). \<not> (\<exists>e \<in> set (mf_row_groups old). rg_fragment_id e = rg_fragment_id e')}"
    by (auto simp: added_row_groups_def assms(1) commit_delta_new_def image_iff)
  have "?A = {e' \<in> set (mf_row_groups new). \<exists>e \<in> set (mf_row_groups old). rg_fragment_id e = rg_fragment_id e'}"
    unfolding old using upd by (fastforce simp: image_iff)
  then show ?thesis unfolding add by blast
qed

theorem commit_delta_complete_witness:
  "set [sample_entry\<lparr>rg_deletes := Some ''d'', rg_deleted_count := 1\<rparr>] =
    apply_fragment_delta (updated_fragments (commit_delta_new sample_manifest
        (sample_manifest\<lparr>mf_row_groups := [sample_entry\<lparr>rg_deletes := Some ''d'', rg_deleted_count := 1\<rparr>]\<rparr>) Delete
        :: unit commit_delta)) ` {sample_entry}"
  using commit_delta_complete [OF refl, of sample_manifest
      "sample_manifest\<lparr>mf_row_groups := [sample_entry\<lparr>rg_deletes := Some ''d'', rg_deleted_count := 1\<rparr>]\<rparr>" Delete,
      where 'prg = unit]
  by (simp add: fragment_ids_def removed_fragment_ids_def added_row_groups_def commit_delta_new_def
      sample_manifest_def Collect_conv_if)

end
