(* ===== verification/Ordered_Map.thy ===== *)
theory Ordered_Map
  imports Json
begin

text \<open>
  Rust's \<^verbatim>\<open>BTreeMap\<close> as the list of its entries in key order: \<^verbatim>\<open>entry\<close>, \<^verbatim>\<open>insert\<close>, \<^verbatim>\<open>remove\<close>,
  \<^verbatim>\<open>retain\<close>, and its JSON form. The invariant \<open>bt_wf\<close> is that the keys ascend; a well-formed list
  is determined by the map it denotes.
\<close>

section \<open>Operations\<close>

fun bt_update :: "'k :: linorder \<Rightarrow> ('v option \<Rightarrow> 'v) \<Rightarrow> ('k \<times> 'v) list \<Rightarrow> ('k \<times> 'v) list" where
  "bt_update k f [] = [(k, f None)]"
| "bt_update k f ((a, b) # m) =
     (if k < a then (k, f None) # (a, b) # m
      else if k = a then (a, f (Some b)) # m
      else (a, b) # bt_update k f m)"

definition bt_insert :: "'k :: linorder \<Rightarrow> 'v \<Rightarrow> ('k \<times> 'v) list \<Rightarrow> ('k \<times> 'v) list" where
  "bt_insert k v = bt_update k (\<lambda>_. v)"

text \<open>\<^verbatim>\<open>map.entry(k).or_default().push(x)\<close>.\<close>

definition bt_push :: "'k :: linorder \<Rightarrow> 'v \<Rightarrow> ('k \<times> 'v list) list \<Rightarrow> ('k \<times> 'v list) list" where
  "bt_push k x = bt_update k (\<lambda>old. (case old of None \<Rightarrow> [] | Some l \<Rightarrow> l) @ [x])"

definition bt_remove :: "'k \<Rightarrow> ('k \<times> 'v) list \<Rightarrow> ('k \<times> 'v) list" where
  "bt_remove k m = filter (\<lambda>(a, _). a \<noteq> k) m"

text \<open>\<^verbatim>\<open>values_mut\<close> and \<^verbatim>\<open>retain\<close>.\<close>

definition bt_map_values :: "('v \<Rightarrow> 'w) \<Rightarrow> ('k \<times> 'v) list \<Rightarrow> ('k \<times> 'w) list" where
  "bt_map_values f m = map (\<lambda>(k, v). (k, f v)) m"

definition bt_retain :: "('v \<Rightarrow> bool) \<Rightarrow> ('k \<times> 'v) list \<Rightarrow> ('k \<times> 'v) list" where
  "bt_retain P m = filter (\<lambda>(k, v). P v) m"

definition bt_of_list :: "('k :: linorder \<times> 'v) list \<Rightarrow> ('k \<times> 'v) list" where
  "bt_of_list kvs = foldl (\<lambda>m (k, v). bt_insert k v m) [] kvs"

definition de_btree :: "(json \<Rightarrow> 'a option) \<Rightarrow> json \<Rightarrow> (string \<times> 'a) list option" where
  "de_btree f v = map_option bt_of_list (de_map f v)"

text \<open>The list a key stands for, empty when it is absent.\<close>

definition bt_list :: "('k \<times> 'v list) list \<Rightarrow> 'k \<Rightarrow> 'v list" where
  "bt_list m k = (case map_of m k of None \<Rightarrow> [] | Some l \<Rightarrow> l)"

lemma option_all_eq_Some: "option_all xs = Some ys \<longleftrightarrow> xs = map Some ys"
  by (induction xs arbitrary: ys rule: option_all.induct) (auto simp: Cons_eq_map_conv)

section \<open>Invariant\<close>

abbreviation bt_wf :: "('k :: linorder \<times> 'v) list \<Rightarrow> bool" where
  "bt_wf m \<equiv> sorted_wrt (<) (map fst m)"

lemma bt_wf_distinct: "bt_wf m \<Longrightarrow> distinct (map fst m)"
  by (simp add: strict_sorted_iff)

lemma bt_update_keys [simp]: "fst ` set (bt_update k f m) = insert k (fst ` set m)"
proof (induction m)
  case (Cons e m)
  then show ?case by (cases e) (simp add: insert_commute)
qed simp

lemma bt_update_wf: "bt_wf m \<Longrightarrow> bt_wf (bt_update k f m)"
proof (induction m)
  case (Cons e m)
  obtain a b where e: "e = (a, b)" by force
  have "a < x" if "x \<in> fst ` set (bt_update k f m)" "a < k" for x
    using Cons.prems that e by auto
  then show ?case using Cons e by auto
qed simp

lemma bt_update_get: "bt_wf m \<Longrightarrow> map_of (bt_update k f m) = (map_of m)(k \<mapsto> f (map_of m k))"
proof (induction m)
  case (Cons e m)
  obtain a b where e: "e = (a, b)" by force
  have "map_of m k = None" if "k < a"
    using Cons.prems that e by (force simp: map_of_eq_None_iff)
  then show ?case using Cons e by (auto simp: fun_eq_iff)
qed simp

lemma bt_insert_wf [simp]: "bt_wf m \<Longrightarrow> bt_wf (bt_insert k v m)"
  by (simp add: bt_insert_def bt_update_wf)

lemma bt_insert_get [simp]: "bt_wf m \<Longrightarrow> map_of (bt_insert k v m) = (map_of m)(k \<mapsto> v)"
  by (simp add: bt_insert_def bt_update_get)

lemma bt_push_wf [simp]: "bt_wf m \<Longrightarrow> bt_wf (bt_push k x m)"
  by (simp add: bt_push_def bt_update_wf)

lemma bt_push_list: "bt_wf m \<Longrightarrow> bt_list (bt_push k x m) j = bt_list m j @ (if j = k then [x] else [])"
  by (simp add: bt_list_def bt_push_def bt_update_get)

lemma sorted_map_fst_filter: "sorted_wrt R (map fst m) \<Longrightarrow> sorted_wrt R (map fst (filter P m))"
  by (induction m) auto

lemma bt_remove_wf [simp]: "bt_wf m \<Longrightarrow> bt_wf (bt_remove k m)"
  by (simp add: bt_remove_def sorted_map_fst_filter)

lemma bt_remove_get [simp]: "map_of (bt_remove k m) = (map_of m)(k := None)"
  by (induction m) (auto simp: bt_remove_def fun_eq_iff)

lemma bt_map_values_wf [simp]: "bt_wf (bt_map_values f m) \<longleftrightarrow> bt_wf m"
  by (simp add: bt_map_values_def case_prod_unfold comp_def)

lemma bt_map_values_get [simp]: "map_of (bt_map_values f m) k = map_option f (map_of m k)"
  by (induction m) (auto simp: bt_map_values_def)

lemma bt_retain_wf [simp]: "bt_wf m \<Longrightarrow> bt_wf (bt_retain P m)"
  by (simp add: bt_retain_def sorted_map_fst_filter)

lemma bt_retain_get:
  "bt_wf m \<Longrightarrow> map_of (bt_retain P m) k = Option.bind (map_of m k) (\<lambda>v. if P v then Some v else None)"
proof (induction m)
  case (Cons e m)
  obtain a b where e: "e = (a, b)" by force
  have "map_of m a = None" using bt_wf_distinct [OF Cons.prems] e by (simp add: map_of_eq_None_iff)
  then show ?case using Cons e by (auto simp: bt_retain_def)
qed (simp add: bt_retain_def)

lemma bt_of_list_fold:
  "bt_wf m \<Longrightarrow> bt_wf (foldl (\<lambda>m (k, v). bt_insert k v m) m kvs)
     \<and> map_of (foldl (\<lambda>m (k, v). bt_insert k v m) m kvs) = map_of m ++ map_of (rev kvs)"
proof (induction kvs arbitrary: m)
  case (Cons e kvs)
  then show ?case by (cases e) (auto simp: fun_eq_iff map_add_def split: option.split)
qed simp

lemma bt_of_list_wf [simp]: "bt_wf (bt_of_list kvs)"
  using bt_of_list_fold [of "[]" kvs] by (simp add: bt_of_list_def)

lemma bt_of_list_get: "map_of (bt_of_list kvs) = map_of (rev kvs)"
  using bt_of_list_fold [of "[]" kvs] by (simp add: bt_of_list_def)

text \<open>A well-formed list is determined by its map.\<close>

lemma bt_ext:
  assumes "bt_wf m" "bt_wf m'" "map_of m = map_of m'"
  shows "m = m'"
proof -
  have d: "distinct (map fst m)" "distinct (map fst m')" using assms by (simp_all add: bt_wf_distinct)
  have eq: "set m = set m'"
    using assms(3) map_of_eq_Some_iff [OF d(1)] map_of_eq_Some_iff [OF d(2)] by auto
  moreover have "inj_on fst (set m \<union> set m')" using d(1) eq by (simp add: distinct_map)
  ultimately show ?thesis
    using assms(1,2) d by (intro map_sorted_distinct_set_unique) (simp_all add: strict_sorted_iff)
qed

lemma map_of_rev_id: "distinct (map fst m) \<Longrightarrow> map_of (rev m) = map_of m"
  by (intro map_of_eqI) (auto simp: rev_map [symmetric])

lemma bt_of_list_id: "bt_wf m \<Longrightarrow> bt_of_list m = m"
  by (rule bt_ext) (simp_all add: bt_of_list_get bt_wf_distinct map_of_rev_id)

end
