(* ===== verification/Index.thy ===== *)
theory Index
  imports Ordered_Map Manifest
begin

text \<open>
  Secondary indexes, \<^verbatim>\<open>crates/icefalldb-core/src/index.rs\<close>: the index of one snapshot, its deltas
  applied to a loaded index and replayed into an overlay, building from the rows of a table, and
  the check that guards a unique index. Files are in \<open>Index_Store\<close>.
\<close>

section \<open>Data\<close>

record index_definition =
  def_name :: string
  def_table :: string
  def_column :: string
  def_unique :: bool

record btree_index =
  bi_definition :: index_definition
  bi_snapshot_sequence :: u64
  bi_entries :: "(string \<times> u64 list) list"

record tombstone_delta =
  td_tombstoned :: "u64 list"
  td_adds :: "(string \<times> u64) list"

definition bi_lookup :: "btree_index \<Rightarrow> string \<Rightarrow> u64 list" where
  "bi_lookup ix value = bt_list (bi_entries ix) value"

section \<open>Serialized form\<close>

definition index_definition_value :: "index_definition \<Rightarrow> json" where
  "index_definition_value d = jobj
     [(''name'', Some (JStr (def_name d))), (''table'', Some (JStr (def_table d))),
      (''column'', Some (JStr (def_column d))), (''unique'', Some (JBool (def_unique d)))]"

definition de_index_definition :: "json \<Rightarrow> index_definition option" where
  "de_index_definition v =
     Option.bind (de_req ''name'' de_str v) (\<lambda>name.
     Option.bind (de_req ''table'' de_str v) (\<lambda>table.
     Option.bind (de_req ''column'' de_str v) (\<lambda>column.
     Option.bind (de_default ''unique'' False de_bool v) (\<lambda>unique.
     Some \<lparr>def_name = name, def_table = table, def_column = column, def_unique = unique\<rparr>))))"

definition btree_index_value :: "btree_index \<Rightarrow> json" where
  "btree_index_value ix = jobj
     [(''definition'', Some (index_definition_value (bi_definition ix))),
      (''snapshot_sequence'', Some (JNum (PosInt (bi_snapshot_sequence ix)))),
      (''entries'', Some (jhashmap (\<lambda>ids. JArr (map (\<lambda>i. JNum (PosInt i)) ids)) (bi_entries ix)))]"

definition de_btree_index :: "json \<Rightarrow> btree_index option" where
  "de_btree_index v =
     Option.bind (de_req ''definition'' de_index_definition v) (\<lambda>d.
     Option.bind (de_req ''snapshot_sequence'' de_u64 v) (\<lambda>seq.
     Option.bind (de_req ''entries'' (de_btree (de_vec de_u64)) v) (\<lambda>es.
     Some \<lparr>bi_definition = d, bi_snapshot_sequence = seq, bi_entries = es\<rparr>)))"

definition de_add :: "json \<Rightarrow> (string \<times> u64) option" where
  "de_add v = (case v of
      JArr [k, r] \<Rightarrow> Option.bind (de_str k) (\<lambda>key. map_option (Pair key) (de_u64 r))
    | _ \<Rightarrow> None)"

definition tombstone_delta_value :: "tombstone_delta \<Rightarrow> json" where
  "tombstone_delta_value d = jobj
     [(''tombstoned_row_ids'', Some (JArr (map (\<lambda>i. JNum (PosInt i)) (td_tombstoned d)))),
      (''adds'', skip_empty (\<lambda>as. JArr (map (\<lambda>(k, r). JArr [JStr k, JNum (PosInt r)]) as)) (td_adds d))]"

definition de_tombstone_delta :: "json \<Rightarrow> tombstone_delta option" where
  "de_tombstone_delta v =
     Option.bind (de_req ''tombstoned_row_ids'' (de_vec de_u64) v) (\<lambda>ts.
     Option.bind (de_default ''adds'' [] (de_vec de_add) v) (\<lambda>as.
     Some \<lparr>td_tombstoned = ts, td_adds = as\<rparr>))"

section \<open>Applying deltas\<close>

definition drop_tombstoned :: "u64 list \<Rightarrow> (string \<times> u64 list) list \<Rightarrow> (string \<times> u64 list) list" where
  "drop_tombstoned ts es =
     (if ts = [] then es
      else bt_retain (\<lambda>ids. ids \<noteq> []) (bt_map_values (filter (\<lambda>i. i \<notin> set ts)) es))"

definition push_adds :: "(string \<times> u64) list \<Rightarrow> (string \<times> u64 list) list \<Rightarrow> (string \<times> u64 list) list" where
  "push_adds as es = foldl (\<lambda>es (k, r). bt_push k r es) es as"

definition apply_delta :: "tombstone_delta \<Rightarrow> btree_index \<Rightarrow> btree_index" where
  "apply_delta d ix = ix\<lparr>bi_entries := push_adds (td_adds d) (drop_tombstoned (td_tombstoned d) (bi_entries ix))\<rparr>"

section \<open>The overlay\<close>

record index_delta_overlay =
  ov_tombstones :: "u64 set"
  ov_adds :: "(string \<times> u64 list) list"

definition ov_default :: index_delta_overlay where
  "ov_default = \<lparr>ov_tombstones = {}, ov_adds = []\<rparr>"

definition ov_is_empty :: "index_delta_overlay \<Rightarrow> bool" where
  "ov_is_empty ov \<longleftrightarrow> ov_tombstones ov = {} \<and> ov_adds ov = []"

definition ov_merge :: "index_delta_overlay \<Rightarrow> string \<Rightarrow> u64 list \<Rightarrow> u64 list" where
  "ov_merge ov value base =
     filter (\<lambda>i. i \<notin> ov_tombstones ov) base
     @ (case map_of (ov_adds ov) value of Some adds \<Rightarrow> adds | None \<Rightarrow> [])"

definition ov_tombstone :: "index_delta_overlay \<Rightarrow> u64 \<Rightarrow> index_delta_overlay" where
  "ov_tombstone ov i =
     \<lparr>ov_tombstones = insert i (ov_tombstones ov),
      ov_adds = bt_map_values (filter (\<lambda>x. x \<noteq> i)) (ov_adds ov)\<rparr>"

definition ov_replay :: "index_delta_overlay \<Rightarrow> tombstone_delta \<Rightarrow> index_delta_overlay" where
  "ov_replay ov d =
     (let ov' = foldl ov_tombstone ov (td_tombstoned d)
      in ov'\<lparr>ov_adds := push_adds (td_adds d) (ov_adds ov')\<rparr>)"

section \<open>Building\<close>

text \<open>\<^verbatim>\<open>dedup\<close> removes consecutive repetitions; on a sorted list that is every repetition.\<close>

definition build_btree_index_from_adds ::
  "index_definition \<Rightarrow> u64 \<Rightarrow> (string \<times> u64) list \<Rightarrow> btree_index result" where
  "build_btree_index_from_adds d seq adds =
     (let entries = bt_map_values (\<lambda>ids. remdups_adj (sort ids)) (push_adds adds []);
          clash = find (\<lambda>(k, ids). length ids > 1) entries
      in case (if def_unique d then clash else None) of
           Some (k, _) \<Rightarrow> Inl (UniqueKeyViolation (def_table d) (def_name d) k)
         | None \<Rightarrow> Inr \<lparr>bi_definition = d, bi_snapshot_sequence = seq, bi_entries = entries\<rparr>)"

section \<open>The uniqueness check\<close>

fun unique_scan ::
  "index_definition \<Rightarrow> btree_index \<Rightarrow> u64 list \<Rightarrow> (string \<Rightarrow> u64 option) \<Rightarrow> (string \<times> u64) list \<Rightarrow> unit result" where
  "unique_scan d ix ts seen [] = Inr ()"
| "unique_scan d ix ts seen ((k, r) # adds) =
     (let seen' = (case seen k of None \<Rightarrow> seen(k \<mapsto> r) | Some _ \<Rightarrow> seen)
      in if seen' k \<noteq> Some r then Inl (UniqueKeyViolation (def_table d) (def_name d) k)
         else if list_ex (\<lambda>i. i \<notin> set ts) (bt_list (bi_entries ix) k)
         then Inl (UniqueKeyViolation (def_table d) (def_name d) k)
         else unique_scan d ix ts seen' adds)"

definition check_unique_adds ::
  "index_definition \<Rightarrow> btree_index \<Rightarrow> (string \<times> u64) list \<Rightarrow> u64 list \<Rightarrow> unit result" where
  "check_unique_adds d ix adds ts =
     (if \<not> def_unique d then Inr () else unique_scan d ix ts Map.empty adds)"

section \<open>What a delta does to a lookup\<close>

definition adds_for :: "(string \<times> u64) list \<Rightarrow> string \<Rightarrow> u64 list" where
  "adds_for as k = map snd (filter (\<lambda>(j, _). j = k) as)"

lemma push_adds_list:
  assumes "bt_wf es"
  shows "bt_wf (push_adds as es) \<and> bt_list (push_adds as es) k = bt_list es k @ adds_for as k"
  using assms
proof (induction as arbitrary: es)
  case (Cons a as)
  then show ?case
    using Cons.IH [of "bt_push (fst a) (snd a) es"]
    by (cases a) (auto simp: push_adds_def adds_for_def bt_push_list)
qed (simp add: push_adds_def adds_for_def)

lemma drop_tombstoned_list:
  assumes "bt_wf es"
  shows "bt_wf (drop_tombstoned ts es) \<and> bt_list (drop_tombstoned ts es) k = filter (\<lambda>i. i \<notin> set ts) (bt_list es k)"
  using assms
  by (auto simp: drop_tombstoned_def bt_list_def bt_retain_get split: option.split)

lemma apply_delta_lookup:
  assumes "bt_wf (bi_entries ix)"
  shows "bt_wf (bi_entries (apply_delta d ix))
    \<and> bi_lookup (apply_delta d ix) k
      = filter (\<lambda>i. i \<notin> set (td_tombstoned d)) (bi_lookup ix k) @ adds_for (td_adds d) k"
  using drop_tombstoned_list [OF assms, of "td_tombstoned d"]
    push_adds_list [of "drop_tombstoned (td_tombstoned d) (bi_entries ix)"]
  by (auto simp: apply_delta_def bi_lookup_def)

lemma ov_tombstones_fold:
  assumes "bt_wf (ov_adds ov)"
  shows "bt_wf (ov_adds (foldl ov_tombstone ov ts))
    \<and> ov_tombstones (foldl ov_tombstone ov ts) = ov_tombstones ov \<union> set ts
    \<and> bt_list (ov_adds (foldl ov_tombstone ov ts)) k = filter (\<lambda>i. i \<notin> set ts) (bt_list (ov_adds ov) k)"
  using assms
proof (induction ts arbitrary: ov)
  case (Cons t ts)
  have "bt_list (ov_adds (ov_tombstone ov t)) k = filter (\<lambda>i. i \<noteq> t) (bt_list (ov_adds ov) k)"
    by (simp add: ov_tombstone_def bt_list_def split: option.split)
  moreover have "bt_wf (ov_adds (ov_tombstone ov t))" using Cons.prems by (simp add: ov_tombstone_def)
  ultimately show ?case
    using Cons.IH [of "ov_tombstone ov t"]
    by (auto simp: ov_tombstone_def conj_commute intro!: filter_cong)
qed simp

lemma ov_replay_merge:
  assumes "bt_wf (ov_adds ov)"
  shows "bt_wf (ov_adds (ov_replay ov d))
    \<and> ov_merge (ov_replay ov d) k base
      = filter (\<lambda>i. i \<notin> set (td_tombstoned d)) (ov_merge ov k base) @ adds_for (td_adds d) k"
proof -
  let ?o = "foldl ov_tombstone ov (td_tombstoned d)"
  have o: "bt_wf (ov_adds ?o)" "ov_tombstones ?o = ov_tombstones ov \<union> set (td_tombstoned d)"
    "bt_list (ov_adds ?o) k = filter (\<lambda>i. i \<notin> set (td_tombstoned d)) (bt_list (ov_adds ov) k)"
    using ov_tombstones_fold [OF assms, of "td_tombstoned d" k] by simp_all
  have merge: "ov_merge v k base = filter (\<lambda>i. i \<notin> ov_tombstones v) base @ bt_list (ov_adds v) k" for v
    by (simp add: ov_merge_def bt_list_def)
  show ?thesis
    using push_adds_list [OF o(1), of "td_adds d" k] o
    by (simp add: merge ov_replay_def Let_def conj_commute)
qed

text \<open>Replaying deltas over a base agrees with applying them to the loaded index.\<close>

lemma overlay_agrees:
  assumes "bt_wf (bi_entries ix)"
  shows "bt_wf (bi_entries (fold apply_delta ds ix))
    \<and> bi_lookup (fold apply_delta ds ix) k = ov_merge (foldl ov_replay ov_default ds) k (bi_lookup ix k)"
proof -
  have "bt_wf (bi_entries (fold apply_delta ds ix)) \<and> bt_wf (ov_adds (foldl ov_replay ov_default ds))
    \<and> bi_lookup (fold apply_delta ds ix) k = ov_merge (foldl ov_replay ov_default ds) k (bi_lookup ix k)"
  proof (induction ds rule: rev_induct)
    case Nil
    then show ?case using assms by (simp add: ov_default_def ov_merge_def)
  next
    case (snoc d ds)
    then show ?case
      using apply_delta_lookup [of "fold apply_delta ds ix" d k]
        ov_replay_merge [of "foldl ov_replay ov_default ds" d k "bi_lookup ix k"]
      by simp
  qed
  then show ?thesis by simp
qed

section \<open>Building and uniqueness\<close>

definition unique_index :: "btree_index \<Rightarrow> bool" where
  "unique_index ix \<longleftrightarrow> (\<forall>k. \<forall>a \<in> set (bi_lookup ix k). \<forall>b \<in> set (bi_lookup ix k). a = b)"

lemma unique_scan_ok:
  "unique_scan d ix ts seen adds = Inr () \<longleftrightarrow>
     (\<forall>k \<in> fst ` set adds. set (bi_lookup ix k) \<subseteq> set ts)
     \<and> single_valued (set adds \<union> Map.graph seen)"
proof (induction adds arbitrary: seen)
  case Nil
  then show ?case by (auto simp: single_valued_def Map.graph_def)
next
  case (Cons a adds)
  obtain k r where a: "a = (k, r)" by force
  have ex: "list_ex (\<lambda>i. i \<notin> set ts) (bt_list (bi_entries ix) k) \<longleftrightarrow> \<not> set (bi_lookup ix k) \<subseteq> set ts"
    by (auto simp: list_ex_iff bi_lookup_def)
  show ?case
  proof (cases "seen k")
    case None
    define seen' where "seen' = seen(k \<mapsto> r)"
    have "set adds \<union> Map.graph seen' = insert (k, r) (set adds \<union> Map.graph seen)"
      using None by (simp add: seen'_def graph_map_upd fun_upd_idem)
    then show ?thesis using None a ex Cons.IH [of seen'] by (simp add: Let_def seen'_def [symmetric]) (simp add: seen'_def)
  next
    case (Some r')
    then have g: "(k, r') \<in> Map.graph seen" by (simp add: in_graphI)
    show ?thesis
    proof (cases "r = r'")
      case True
      then have "insert (k, r) (set adds \<union> Map.graph seen) = set adds \<union> Map.graph seen" using g by auto
      then show ?thesis using Some True a ex Cons.IH [of seen] by (simp add: Let_def)
    next
      case False
      then have "\<not> single_valued (set (a # adds) \<union> Map.graph seen)"
        using g a by (auto simp: single_valued_def)
      then show ?thesis using Some False a by (simp add: Let_def)
    qed
  qed
qed

lemma unique_scan_error:
  "unique_scan d ix ts seen adds = Inl e \<Longrightarrow> \<exists>k. e = UniqueKeyViolation (def_table d) (def_name d) k"
  by (induction adds arbitrary: seen) (auto simp: Let_def split: if_splits)

lemma check_unique_adds_error:
  "check_unique_adds d ix adds ts = Inl e \<Longrightarrow>
     def_unique d \<and> adds \<noteq> [] \<and> (\<exists>k. e = UniqueKeyViolation (def_table d) (def_name d) k)"
  using unique_scan_error by (cases adds) (fastforce simp: check_unique_adds_def split: if_splits)+

lemma check_unique_adds_ok:
  "check_unique_adds d ix adds ts = Inr () \<longleftrightarrow>
     (def_unique d \<longrightarrow> (\<forall>k \<in> fst ` set adds. set (bi_lookup ix k) \<subseteq> set ts) \<and> single_valued (set adds))"
  by (simp add: check_unique_adds_def unique_scan_ok)

lemma set_adds_for: "set (adds_for as k) = {r. (k, r) \<in> set as}"
  by (force simp: adds_for_def)

text \<open>Adds that pass the check keep a unique index unique.\<close>

lemma unique_preserved:
  assumes "bt_wf (bi_entries ix)" "unique_index ix" "def_unique d"
    "check_unique_adds d ix (td_adds td) (td_tombstoned td) = Inr ()"
  shows "unique_index (apply_delta td ix)"
  unfolding unique_index_def
proof (intro allI ballI)
  fix k a b
  assume ab: "a \<in> set (bi_lookup (apply_delta td ix) k)" "b \<in> set (bi_lookup (apply_delta td ix) k)"
  have chk: "\<forall>k \<in> fst ` set (td_adds td). set (bi_lookup ix k) \<subseteq> set (td_tombstoned td)" "single_valued (set (td_adds td))"
    using assms(3,4) by (simp_all add: check_unique_adds_ok)
  have look: "set (bi_lookup (apply_delta td ix) k)
      = (set (bi_lookup ix k) - set (td_tombstoned td)) \<union> {r. (k, r) \<in> set (td_adds td)}"
    using apply_delta_lookup [OF assms(1), of td k] by (auto simp: set_adds_for)
  show "a = b"
  proof (cases "k \<in> fst ` set (td_adds td)")
    case True
    then have "set (bi_lookup ix k) - set (td_tombstoned td) = {}" using chk(1) by auto
    then show ?thesis using ab look chk(2) by (auto simp: single_valued_def)
  next
    case False
    then have "{r. (k, r) \<in> set (td_adds td)} = {}" by force
    then show ?thesis using ab look assms(2) by (auto simp: unique_index_def)
  qed
qed

lemma remdups_adj_sort: "remdups_adj (sort xs) = sorted_list_of_set (set xs)" for xs :: "u64 list"
proof -
  have "sorted_wrt (<) (remdups_adj ys)" if "sorted ys" for ys :: "u64 list"
    using that by (induction ys rule: remdups_adj.induct) auto
  then have "distinct (remdups_adj (sort xs))" using strict_sorted_iff sorted_sort by blast
  then have "sorted_list_of_set (set (remdups_adj (sort xs))) = remdups_adj (sort xs)"
    by (intro sorted_list_of_set.idem_if_sorted_distinct) simp
  then show ?thesis by simp
qed

lemma built_entries:
  fixes adds
  defines "es \<equiv> bt_map_values (\<lambda>ids. remdups_adj (sort ids)) (push_adds adds [])"
  shows "bt_wf es" "bt_list es k = sorted_list_of_set {r. (k, r) \<in> set adds}"
proof -
  have p: "bt_wf (push_adds adds [])" "bt_list (push_adds adds []) k = adds_for adds k"
    using push_adds_list [of "[]" adds k] by (simp_all add: bt_list_def)
  show "bt_wf es" using p(1) by (simp add: es_def)
  have "bt_list es k = remdups_adj (sort (bt_list (push_adds adds []) k))"
    by (simp add: es_def bt_list_def split: option.split)
  then show "bt_list es k = sorted_list_of_set {r. (k, r) \<in> set adds}"
    by (simp add: p(2) remdups_adj_sort set_adds_for)
qed

lemma bt_list_mem: "bt_wf m \<Longrightarrow> (k, l) \<in> set m \<Longrightarrow> bt_list m k = l"
  by (simp add: bt_list_def bt_wf_distinct)

lemma built_clash:
  fixes adds
  defines "es \<equiv> bt_map_values (\<lambda>ids. remdups_adj (sort ids)) (push_adds adds [])"
  shows "(\<exists>(k, ids) \<in> set es. length ids > 1) \<longleftrightarrow> \<not> single_valued (set adds)"
proof -
  note es = built_entries [of adds, folded es_def]
  have card: "length (bt_list es k) = card {r. (k, r) \<in> set adds}" for k by (simp add: es(2))
  have fin: "finite {r. (k, r) \<in> set adds}" for k
    by (rule finite_subset [of _ "snd ` set adds"]) force+
  show ?thesis
  proof
    assume "\<exists>(k, ids) \<in> set es. length ids > 1"
    then obtain k ids where "(k, ids) \<in> set es" "length ids > 1" by auto
    then have "\<not> card {r. (k, r) \<in> set adds} \<le> Suc 0" using card [of k] bt_list_mem [OF es(1)] by fastforce
    then obtain r r' where "r \<noteq> r'" "(k, r) \<in> set adds" "(k, r') \<in> set adds"
      using card_le_Suc0_iff_eq [OF fin] by blast
    then show "\<not> single_valued (set adds)" by (auto simp: single_valued_def)
  next
    assume "\<not> single_valued (set adds)"
    then obtain k r r' where "r \<noteq> r'" "(k, r) \<in> set adds" "(k, r') \<in> set adds"
      by (auto simp: single_valued_def)
    then have long: "length (bt_list es k) > 1" using card [of k] card_le_Suc0_iff_eq [OF fin, of k] by fastforce
    then obtain l where "map_of es k = Some l" "bt_list es k = l" by (auto simp: bt_list_def split: option.splits)
    then show "\<exists>(k, ids) \<in> set es. length ids > 1" using long map_of_SomeD by fastforce
  qed
qed

lemma build_spec:
  "if def_unique d \<and> \<not> single_valued (set adds)
   then \<exists>k. build_btree_index_from_adds d seq adds = Inl (UniqueKeyViolation (def_table d) (def_name d) k)
   else \<exists>ix. build_btree_index_from_adds d seq adds = Inr ix \<and> bt_wf (bi_entries ix)
     \<and> bi_definition ix = d \<and> bi_snapshot_sequence ix = seq
     \<and> (\<forall>k. bi_lookup ix k = sorted_list_of_set {r. (k, r) \<in> set adds})"
proof -
  let ?es = "bt_map_values (\<lambda>ids. remdups_adj (sort ids)) (push_adds adds [])"
  let ?c = "find (\<lambda>(k, ids). length ids > 1) ?es"
  have c: "?c = None \<longleftrightarrow> single_valued (set adds)"
    using built_clash [of adds] by (auto simp: find_None_iff)
  show ?thesis
  proof (cases "def_unique d \<and> \<not> single_valued (set adds)")
    case True
    then obtain k ids where "?c = Some (k, ids)" using c by auto
    with True show ?thesis by (simp add: build_btree_index_from_adds_def Let_def)
  next
    case False
    then have none: "(if def_unique d then ?c else None) = None" using c by simp
    have "build_btree_index_from_adds d seq adds
        = Inr \<lparr>bi_definition = d, bi_snapshot_sequence = seq, bi_entries = ?es\<rparr>"
      unfolding build_btree_index_from_adds_def Let_def none by simp
    then show ?thesis using False built_entries [of adds] by (auto simp: bi_lookup_def)
  qed
qed

section \<open>Reading back\<close>

lemma index_definition_roundtrip: "de_index_definition (index_definition_value d) = Some d"
  by (cases d) (simp add: de_index_definition_def index_definition_value_def de_req_def de_default_def de_bool_def)

lemma btree_index_roundtrip:
  assumes "bt_wf (bi_entries ix)"
  shows "de_btree_index (btree_index_value ix) = Some ix"
proof -
  have "de_map (de_vec de_u64) (jhashmap (\<lambda>ids. JArr (map (\<lambda>i. JNum (PosInt i)) ids)) (bi_entries ix))
      = Some (bi_entries ix)"
    by (intro de_map_jhashmap de_vec_map) simp
  then have "de_btree (de_vec de_u64) (jhashmap (\<lambda>ids. JArr (map (\<lambda>i. JNum (PosInt i)) ids)) (bi_entries ix))
      = Some (bi_entries ix)"
    by (simp add: de_btree_def bt_of_list_id assms)
  then show ?thesis
    by (cases ix) (simp add: de_btree_index_def btree_index_value_def de_req_def index_definition_roundtrip)
qed

lemma tombstone_delta_roundtrip: "de_tombstone_delta (tombstone_delta_value d) = Some d"
proof -
  have ts: "de_vec de_u64 (JArr (map (\<lambda>i. JNum (PosInt i)) (td_tombstoned d))) = Some (td_tombstoned d)"
    by (intro de_vec_map) simp
  have as: "de_vec de_add (JArr (map (\<lambda>(k, r). JArr [JStr k, JNum (PosInt r)]) (td_adds d))) = Some (td_adds d)"
    by (intro de_vec_map) (auto simp: de_add_def)
  show ?thesis using ts as
    by (cases d) (simp add: de_tombstone_delta_def tombstone_delta_value_def de_req_def de_default_def skip_empty_def)
qed

end
