(* ===== verification/Learned_Index.thy ===== *)
theory Learned_Index
  imports Index "HOL-Library.Signed_Division"
begin

text \<open>
  The learned key model of \<^verbatim>\<open>crates/icefalldb-core/src/index.rs\<close>: an index whose keys are integers in
  arithmetic progression, with row ids in arithmetic progression, is replaced by five numbers.
  \<^verbatim>\<open>i64\<close> values are integers with the range checks of the checked operations written out.
\<close>

section \<open>Signed 64-bit integers\<close>

definition in_i64 :: "int \<Rightarrow> bool" where
  "in_i64 i \<longleftrightarrow> - (2 ^ 63) \<le> i \<and> i < 2 ^ 63"

definition checked :: "int \<Rightarrow> int option" where
  "checked i = (if in_i64 i then Some i else None)"

text \<open>\<^verbatim>\<open>str::parse::<i64>\<close> and \<^verbatim>\<open>to_string\<close>.\<close>

definition parse_i64 :: "string \<Rightarrow> int option" where
  "parse_i64 s =
     (case s of
        [] \<Rightarrow> None
      | c # r \<Rightarrow>
          if c = CHR ''-'' then
            (if r = [] then None else Option.bind (parse_digits 0 r) (\<lambda>n. checked (- int n)))
          else
            (let ds = (if c = CHR ''+'' then r else s)
             in if ds = [] then None else Option.bind (parse_digits 0 ds) (\<lambda>n. checked (int n))))"

definition show_i64 :: "int \<Rightarrow> string" where
  "show_i64 i = (if i < 0 then CHR ''-'' # show_nat (nat (- i)) else show_nat (nat i))"

section \<open>Fitting and looking up\<close>

record learned_key_model =
  km_key_base :: int
  km_key_stride :: int
  km_rid_base :: u64
  km_rid_stride :: int
  km_count :: u64

definition model_pair :: "string \<times> u64 list \<Rightarrow> (int \<times> u64) option" where
  "model_pair e =
     (case e of (k, ids) \<Rightarrow>
       (case ids of [r] \<Rightarrow> map_option (\<lambda>key. (key, r)) (parse_i64 k) | _ \<Rightarrow> None))"

text \<open>\<^verbatim>\<open>base.checked_add(i.checked_mul(stride)?)?\<close>\<close>

definition affine_at :: "int \<Rightarrow> int \<Rightarrow> nat \<Rightarrow> int option" where
  "affine_at base stride i = Option.bind (checked (int i * stride)) (\<lambda>s. checked (base + s))"

definition km_fit :: "btree_index \<Rightarrow> learned_key_model option" where
  "km_fit ix =
     Option.bind (option_all (map model_pair (bi_entries ix))) (\<lambda>unsorted.
       if length unsorted < 2 then None
       else
         let pairs = sort_key fst unsorted
         in if list_ex (\<lambda>(_, r). unat r > 2 ^ 63 - 1) pairs then None
            else
              Option.bind (checked (fst (pairs ! 1) - fst (pairs ! 0))) (\<lambda>key_stride.
              Option.bind (checked (uint (snd (pairs ! 1)) - uint (snd (pairs ! 0)))) (\<lambda>rid_stride.
                if key_stride = 0 then None
                else if list_all (\<lambda>(i, k, r). affine_at (fst (pairs ! 0)) key_stride i = Some k
                          \<and> affine_at (uint (snd (pairs ! 0))) rid_stride i = Some (uint r)) (enumerate 0 pairs)
                then Some \<lparr>km_key_base = fst (pairs ! 0), km_key_stride = key_stride,
                           km_rid_base = snd (pairs ! 0), km_rid_stride = rid_stride,
                           km_count = of_nat (length pairs)\<rparr>
                else None)))"

text \<open>\<^verbatim>\<open>i64::MIN % -1\<close> panics; every other remainder and quotient is the truncating one.\<close>

definition km_lookup :: "learned_key_model \<Rightarrow> string \<Rightarrow> u64 list result" where
  "km_lookup m value =
     (case parse_i64 value of
        None \<Rightarrow> Inr []
      | Some k \<Rightarrow>
          (case checked (k - km_key_base m) of
             None \<Rightarrow> Inr []
           | Some off \<Rightarrow>
               if km_key_stride m = 0 then Inr []
               else if off = - (2 ^ 63) \<and> km_key_stride m = - 1 then Inl Panic
               else if off smod km_key_stride m \<noteq> 0 then Inr []
               else
                 let i = off sdiv km_key_stride m
                 in if i < 0 \<or> i \<ge> uint (km_count m) then Inr []
                    else (case Option.bind (checked (i * km_rid_stride m)) (\<lambda>s. checked (sint (km_rid_base m) + s)) of
                            Some r \<Rightarrow> if r \<ge> 0 then Inr [word_of_int r] else Inr []
                          | None \<Rightarrow> Inr [])))"

section \<open>The model file\<close>

definition jint64 :: "int \<Rightarrow> json" where
  "jint64 i = (if 0 \<le> i then JNum (PosInt (word_of_int i)) else JNum (NegInt (word_of_int i)))"

definition learned_key_model_value :: "learned_key_model \<Rightarrow> json" where
  "learned_key_model_value m = jobj
     [(''key_base'', Some (jint64 (km_key_base m))), (''key_stride'', Some (jint64 (km_key_stride m))),
      (''rid_base'', Some (JNum (PosInt (km_rid_base m)))), (''rid_stride'', Some (jint64 (km_rid_stride m))),
      (''count'', Some (JNum (PosInt (km_count m))))]"

definition learned_index_file_value :: "index_definition \<Rightarrow> learned_key_model \<Rightarrow> json" where
  "learned_index_file_value d m = jobj
     [(''definition'', Some (index_definition_value d)), (''model'', Some (learned_key_model_value m))]"

definition de_i64 :: "json \<Rightarrow> int option" where
  "de_i64 v = (case v of
      JNum (PosInt n) \<Rightarrow> if uint n < 2 ^ 63 then Some (uint n) else None
    | JNum (NegInt n) \<Rightarrow> if sint n < 0 then Some (sint n) else None
    | _ \<Rightarrow> None)"

definition de_learned_key_model :: "json \<Rightarrow> learned_key_model option" where
  "de_learned_key_model v =
     Option.bind (de_req ''key_base'' de_i64 v) (\<lambda>kb.
     Option.bind (de_req ''key_stride'' de_i64 v) (\<lambda>ks.
     Option.bind (de_req ''rid_base'' de_u64 v) (\<lambda>rb.
     Option.bind (de_req ''rid_stride'' de_i64 v) (\<lambda>rs.
     Option.bind (de_req ''count'' de_u64 v) (\<lambda>cnt.
     Some \<lparr>km_key_base = kb, km_key_stride = ks, km_rid_base = rb, km_rid_stride = rs, km_count = cnt\<rparr>)))))"

definition de_learned_index_file :: "json \<Rightarrow> (index_definition \<times> learned_key_model) option" where
  "de_learned_index_file v =
     Option.bind (de_req ''definition'' de_index_definition v) (\<lambda>d.
     map_option (Pair d) (de_req ''model'' de_learned_key_model v))"

section \<open>The model answers like the index\<close>

lemma checked_Some: "checked i = Some j \<longleftrightarrow> in_i64 i \<and> j = i"
  by (auto simp: checked_def)

lemma affine_at_Some:
  "affine_at b s i = Some v \<longleftrightarrow> v = b + int i * s \<and> in_i64 (int i * s) \<and> in_i64 v"
  by (auto simp: affine_at_def checked_def)

text \<open>What a fit establishes, with \<open>pairs\<close> the sorted entries.\<close>

definition affine_pairs :: "learned_key_model \<Rightarrow> (int \<times> u64) list \<Rightarrow> bool" where
  "affine_pairs m pairs \<longleftrightarrow> km_key_stride m > 0 \<and> length pairs = unat (km_count m)
     \<and> uint (km_rid_base m) < 2 ^ 63
     \<and> (\<forall>i < length pairs. fst (pairs ! i) = km_key_base m + int i * km_key_stride m
         \<and> uint (snd (pairs ! i)) = uint (km_rid_base m) + int i * km_rid_stride m
         \<and> in_i64 (int i * km_key_stride m) \<and> in_i64 (int i * km_rid_stride m)
         \<and> in_i64 (uint (snd (pairs ! i))))"

lemma km_fit_affine:
  assumes "km_fit ix = Some m" "length (bi_entries ix) < 2 ^ 64"
  shows "\<exists>unsorted. option_all (map model_pair (bi_entries ix)) = Some unsorted
    \<and> affine_pairs m (sort_key fst unsorted)"
proof -
  obtain unsorted where u: "option_all (map model_pair (bi_entries ix)) = Some unsorted"
    using assms(1) by (auto simp: km_fit_def bind_eq_Some_conv)
  define pairs where "pairs = sort_key fst unsorted"
  have len: "length pairs = length (bi_entries ix)"
    using u by (auto simp: pairs_def option_all_eq_Some dest: arg_cong [where f = length])
  have fit: "2 \<le> length pairs" "\<not> list_ex (\<lambda>(_, r). unat r > 2 ^ 63 - 1) pairs"
    "km_key_stride m = fst (pairs ! 1) - fst (pairs ! 0)" "km_key_stride m \<noteq> 0"
    "km_key_base m = fst (pairs ! 0)" "km_rid_base m = snd (pairs ! 0)" "km_count m = of_nat (length pairs)"
    "list_all (\<lambda>(i, k, r). affine_at (km_key_base m) (km_key_stride m) i = Some k
       \<and> affine_at (uint (km_rid_base m)) (km_rid_stride m) i = Some (uint r)) (enumerate 0 pairs)"
    using assms(1) u
    by (auto simp: km_fit_def Let_def bind_eq_Some_conv checked_Some pairs_def not_less split: if_splits)
  have "fst (pairs ! 0) \<le> fst (pairs ! 1)"
  proof -
    have "sorted (map fst pairs)" by (simp add: pairs_def)
    then have "map fst pairs ! 0 \<le> map fst pairs ! 1" using fit(1) by (intro sorted_nth_mono) simp_all
    moreover have "0 < length pairs" "1 < length pairs" using fit(1) by linarith+
    ultimately show ?thesis by (simp only: nth_map)
  qed
  then have "km_key_stride m > 0" using fit(3,4) by simp
  moreover have "length pairs = unat (km_count m)"
    using fit(7) len assms(2) by (simp add: unat_of_nat take_bit_nat_eq_self)
  moreover have "uint (km_rid_base m) < 2 ^ 63"
  proof -
    have "unat (snd (pairs ! 0)) \<le> 2 ^ 63 - 1"
      using fit(1,2) nth_mem [of 0 pairs] by (fastforce simp: list_ex_iff case_prod_unfold)
    then have "unat (snd (pairs ! 0)) < 2 ^ 63" by simp
    then have "int (unat (snd (pairs ! 0))) < int (2 ^ 63)" by (simp only: of_nat_less_iff)
    then show ?thesis by (simp add: fit(6))
  qed
  moreover have "affine_at (km_key_base m) (km_key_stride m) i = Some (fst (pairs ! i))
      \<and> affine_at (uint (km_rid_base m)) (km_rid_stride m) i = Some (uint (snd (pairs ! i)))"
    if "i < length pairs" for i
    using fit(8) that by (fastforce simp: list_all_length nth_enumerate_eq case_prod_unfold)
  ultimately have "affine_pairs m pairs" unfolding affine_pairs_def affine_at_Some by blast
  then show ?thesis using u by (auto simp: pairs_def)
qed

text \<open>A key on the grid is found at its index, any other key is not.\<close>

lemma km_lookup_grid:
  assumes a: "affine_pairs m pairs" and v: "parse_i64 v = Some k"
  shows "i < length pairs \<Longrightarrow> fst (pairs ! i) = k \<Longrightarrow> km_lookup m v = Inr [snd (pairs ! i)]"
    and "k \<notin> fst ` set pairs \<Longrightarrow> km_lookup m v = Inr []"
proof -
  let ?s = "km_key_stride m" and ?b = "km_key_base m"
  have pos: "?s > 0" and cnt: "uint (km_count m) = int (length pairs)" and small: "uint (km_rid_base m) < 2 ^ 63"
    using a by (simp_all add: affine_pairs_def)
  have rb: "sint (km_rid_base m) = uint (km_rid_base m)"
  proof -
    have "signed_take_bit 63 (uint (km_rid_base m)) = uint (km_rid_base m)"
      by (rule signed_take_bit_int_eq_self) (use small in \<open>simp_all add: order_trans [of _ 0]\<close>)
    then show ?thesis by (simp add: sint_uint)
  qed
  show "km_lookup m v = Inr [snd (pairs ! i)]" if i: "i < length pairs" "fst (pairs ! i) = k"
  proof -
    have k: "k - ?b = int i * ?s" "in_i64 (int i * ?s)" "in_i64 (int i * km_rid_stride m)"
      "uint (km_rid_base m) + int i * km_rid_stride m = uint (snd (pairs ! i))" "in_i64 (uint (snd (pairs ! i)))"
      using a i by (auto simp: affine_pairs_def)
    have "(int i * ?s) smod ?s = 0" "(int i * ?s) sdiv ?s = int i"
      using pos by (simp_all add: signed_modulo_int_eq_modulo_int signed_divide_int_eq_divide_int)
    then show ?thesis using v k pos cnt rb i(1)
      by (simp add: km_lookup_def checked_def Let_def)
  qed
  show "km_lookup m v = Inr []" if none: "k \<notin> fst ` set pairs"
  proof (cases "checked (k - ?b)")
    case (Some off)
    have "\<not> (off smod ?s = 0 \<and> 0 \<le> off sdiv ?s \<and> off sdiv ?s < uint (km_count m))"
    proof
      assume c: "off smod ?s = 0 \<and> 0 \<le> off sdiv ?s \<and> off sdiv ?s < uint (km_count m)"
      define i where "i = nat (off sdiv ?s)"
      have "i < length pairs" using c cnt by (simp add: i_def nat_less_iff)
      moreover have "k = ?b + int i * ?s"
        using c Some sdiv_mult_smod_eq [of off ?s] by (simp add: i_def checked_Some)
      ultimately show False using a none by (force simp: affine_pairs_def in_set_conv_nth)
    qed
    then show ?thesis using Some v pos by (auto simp: km_lookup_def Let_def not_le not_less)
  qed (simp add: km_lookup_def v)
qed

text \<open>The entry of the index whose key is the same number as the value.\<close>

definition same_number :: "string \<Rightarrow> string \<times> u64 list \<Rightarrow> bool" where
  "same_number v e \<longleftrightarrow> parse_i64 v \<noteq> None \<and> parse_i64 (fst e) = parse_i64 v"

lemma km_lookup_numeric:
  assumes "km_fit ix = Some m" "length (bi_entries ix) < 2 ^ 64"
  shows "km_lookup m v = Inr (case find (same_number v) (bi_entries ix) of Some (k, ids) \<Rightarrow> ids | None \<Rightarrow> [])"
proof -
  obtain ps where ps: "option_all (map model_pair (bi_entries ix)) = Some ps"
    and aff: "affine_pairs m (sort_key fst ps)"
    using km_fit_affine [OF assms] by blast
  have es: "map model_pair (bi_entries ix) = map Some ps" using ps by (simp add: option_all_eq_Some)
  have pair: "\<exists>r. snd e = [r] \<and> (the (parse_i64 (fst e)), r) \<in> set ps \<and> parse_i64 (fst e) \<noteq> None"
    if "e \<in> set (bi_entries ix)" for e
  proof -
    have "model_pair e \<in> set (map Some ps)" using that unfolding es [symmetric] by simp
    then show ?thesis by (auto simp: model_pair_def split: prod.splits list.splits)
  qed
  have keyed: "\<exists>e \<in> set (bi_entries ix). parse_i64 (fst e) = Some k" if k: "k \<in> fst ` set ps" for k
  proof -
    obtain r where "(k, r) \<in> set ps" using k by auto
    then have "Some (k, r) \<in> set (map Some ps)" by simp
    then obtain e where "e \<in> set (bi_entries ix)" "model_pair e = Some (k, r)" unfolding es [symmetric] by auto
    then show ?thesis by (force simp: model_pair_def split: prod.splits list.splits)
  qed
  show ?thesis
  proof (cases "parse_i64 v")
    case None
    then have "find (same_number v) (bi_entries ix) = None" by (auto simp: find_None_iff same_number_def)
    then show ?thesis using None by (simp add: km_lookup_def)
  next
    case (Some k)
    show ?thesis
    proof (cases "find (same_number v) (bi_entries ix)")
      case None
      then have "\<forall>e \<in> set (bi_entries ix). parse_i64 (fst e) \<noteq> Some k"
        using Some by (auto simp: find_None_iff same_number_def)
      then have "k \<notin> fst ` set (sort_key fst ps)" using keyed by auto
      then show ?thesis using km_lookup_grid(2) [OF aff Some] None by simp
    next
      case (Some e)
      then have e: "e \<in> set (bi_entries ix)" "parse_i64 (fst e) = Some k"
        using \<open>parse_i64 v = Some k\<close> by (auto simp: find_Some_iff same_number_def)
      from pair [OF e(1)] obtain r where "snd e = [r]" "(the (parse_i64 (fst e)), r) \<in> set ps" by blast
      then have r: "snd e = [r]" "(k, r) \<in> set (sort_key fst ps)" using e(2) by simp_all
      then obtain i where "i < length (sort_key fst ps)" "sort_key fst ps ! i = (k, r)"
        by (auto simp: in_set_conv_nth simp del: set_sort)
      then have "km_lookup m v = Inr [r]"
        using km_lookup_grid(1) [OF aff \<open>parse_i64 v = Some k\<close>, of i] by simp
      then show ?thesis using Some r(1) by (cases e) simp
    qed
  qed
qed

lemma parse_show_i64: "in_i64 i \<Longrightarrow> parse_i64 (show_i64 i) = Some i"
proof (cases "i < 0")
  case False
  assume i: "in_i64 i"
  obtain c r where cr: "show_nat (nat i) = c # r" by (cases "show_nat (nat i)") simp_all
  then have "c \<noteq> CHR ''-''" "c \<noteq> CHR ''+''"
    using digits_show_nat [of c "nat i"] digit_char_neq by auto
  then show ?thesis
    using False i cr parse_digits_show_nat [of "nat i"]
    by (simp add: parse_i64_def show_i64_def checked_def Let_def)
qed (simp add: parse_i64_def show_i64_def parse_digits_show_nat checked_def)

text \<open>With keys in their printed form, as an \<^verbatim>\<open>Int64\<close> column gives them, the model is exact.\<close>

lemma km_lookup_printed:
  assumes fit: "km_fit ix = Some m" "length (bi_entries ix) < 2 ^ 64"
    and keys: "\<forall>e \<in> set (bi_entries ix). \<exists>i. in_i64 i \<and> fst e = show_i64 i"
    and j: "in_i64 j"
  shows "km_lookup m (show_i64 j) = Inr (bi_lookup ix (show_i64 j))"
proof -
  have "same_number (show_i64 j) e \<longleftrightarrow> fst e = show_i64 j" if "e \<in> set (bi_entries ix)" for e
    using keys that j by (force simp: same_number_def parse_show_i64)
  then have "find (same_number (show_i64 j)) (bi_entries ix) = find (\<lambda>e. fst e = show_i64 j) (bi_entries ix)"
    by (intro find_cong) auto
  moreover have "(case find (\<lambda>e. fst e = v) es of Some (k, ids) \<Rightarrow> ids | None \<Rightarrow> []) = bt_list es v"
    for es :: "(string \<times> u64 list) list" and v
    by (induction es) (auto simp: bt_list_def)
  ultimately show ?thesis using km_lookup_numeric [OF fit] by (simp add: bi_lookup_def)
qed

section \<open>The model file reads back\<close>

lemma de_i64_jint64: "in_i64 i \<Longrightarrow> de_i64 (jint64 i) = Some i"
proof (cases "0 \<le> i")
  case True
  moreover assume "in_i64 i"
  moreover from calculation have "uint (word_of_int i :: u64) = i"
    by (simp add: uint_word_of_int in_i64_def)
  ultimately show ?thesis by (simp add: de_i64_def jint64_def in_i64_def)
next
  case False
  moreover assume "in_i64 i"
  moreover from calculation have "sint (word_of_int i :: u64) = i"
    by (simp add: signed_of_int signed_take_bit_int_eq_self in_i64_def)
  ultimately show ?thesis by (simp add: de_i64_def jint64_def)
qed

text \<open>A fitted model stays within \<^verbatim>\<open>i64\<close>, so its file gives it back.\<close>

definition km_in_range :: "learned_key_model \<Rightarrow> bool" where
  "km_in_range m \<longleftrightarrow> in_i64 (km_key_base m) \<and> in_i64 (km_key_stride m) \<and> in_i64 (km_rid_stride m)"

lemma parse_i64_range: "parse_i64 s = Some i \<Longrightarrow> in_i64 i"
  by (auto simp: parse_i64_def checked_Some bind_eq_Some_conv Let_def split: list.splits if_splits)

lemma km_fit_range:
  assumes fit: "km_fit ix = Some m"
  shows "km_in_range m"
proof -
  obtain ps where ps: "option_all (map model_pair (bi_entries ix)) = Some ps" "2 \<le> length ps"
    "km_key_base m = fst (sort_key fst ps ! 0)" "in_i64 (km_key_stride m)" "in_i64 (km_rid_stride m)"
    using fit by (auto simp: km_fit_def Let_def bind_eq_Some_conv checked_Some not_less split: if_splits)
  obtain k r where kr: "sort_key fst ps ! 0 = (k, r)" by force
  have "sort_key fst ps ! 0 \<in> set (sort_key fst ps)" using ps(2) by (intro nth_mem) auto
  then have "Some (k, r) \<in> set (map model_pair (bi_entries ix))"
    using ps(1) kr by (simp add: option_all_eq_Some)
  then have "in_i64 k"
    by (auto simp: model_pair_def dest!: sym [of "Some _"] split: list.splits dest: parse_i64_range)
  then show ?thesis using ps kr by (simp add: km_in_range_def)
qed

lemma learned_index_file_roundtrip:
  "km_in_range m \<Longrightarrow> de_learned_index_file (learned_index_file_value d m) = Some (d, m)"
  by (cases m) (simp add: de_learned_index_file_def learned_index_file_value_def de_req_def index_definition_roundtrip
      de_learned_key_model_def learned_key_model_value_def de_i64_jint64 km_in_range_def)

text \<open>Two entries with integer keys are always fitted.\<close>

lemma km_fit_two:
  assumes "bi_entries ix = [(k, [r]), (l, [q])]" "parse_i64 k = Some a" "parse_i64 l = Some b" "a < b"
    "in_i64 (b - a)" "unat r < 2 ^ 63" "unat q < 2 ^ 63"
  shows "km_fit ix = Some \<lparr>km_key_base = a, km_key_stride = b - a, km_rid_base = r, km_rid_stride = uint q - uint r, km_count = 2\<rparr>"
proof -
  have ab: "in_i64 a" "in_i64 b" using assms(2,3) by (auto dest: parse_i64_range)
  have rq: "in_i64 (uint r)" "in_i64 (uint q)" "in_i64 (uint q - uint r)"
  proof -
    have "int (unat r) < int (2 ^ 63)" "int (unat q) < int (2 ^ 63)" using assms(6,7) by (simp_all only: of_nat_less_iff)
    then have "uint r < 2 ^ 63" "uint q < 2 ^ 63" by simp_all
    moreover have "0 \<le> uint r" "0 \<le> uint q" by simp_all
    ultimately show "in_i64 (uint r)" "in_i64 (uint q)" "in_i64 (uint q - uint r)" unfolding in_i64_def by linarith+
  qed
  have "option_all (map model_pair (bi_entries ix)) = Some [(a, r), (b, q)]"
    using assms(1-3) by (simp add: model_pair_def)
  moreover have "sort_key fst [(a, r), (b, q)] = [(a, r), (b, q)]" using assms(4) by simp
  ultimately show ?thesis
    using assms(4-7) ab rq by (simp add: km_fit_def Let_def checked_def affine_at_def in_i64_def [of 0])
qed

end
