(* ===== verification/Binary_Index.thy ===== *)
theory Binary_Index
  imports Index Row_Index
begin

text \<open>
  The binary form of a secondary index, \<^verbatim>\<open>crates/icefalldb-core/src/index/binary.rs\<close>: a header, the
  definition, a directory of fixed-size entries in key order, the keys and the row ids. A reader
  bisects the directory and decodes the row ids of one key.
\<close>

section \<open>Strings as bytes\<close>

definition str_bytes :: "string \<Rightarrow> bytes" where
  "str_bytes s = map (\<lambda>c. of_nat (of_char c)) s"

abbreviation utf8_cont :: "u8 \<Rightarrow> bool" where
  "utf8_cont b \<equiv> 128 \<le> b \<and> b < 192"

fun utf8_valid :: "bytes \<Rightarrow> bool" where
  "utf8_valid [] = True"
| "utf8_valid (a # bs) =
     (if a < 128 then utf8_valid bs
      else if 194 \<le> a \<and> a < 224 then (case bs of b # r \<Rightarrow> utf8_cont b \<and> utf8_valid r | _ \<Rightarrow> False)
      else if 224 \<le> a \<and> a < 240 then
        (case bs of b # c # r \<Rightarrow> utf8_cont b \<and> utf8_cont c \<and> (a = 224 \<longrightarrow> 160 \<le> b) \<and> (a = 237 \<longrightarrow> b < 160)
           \<and> utf8_valid r | _ \<Rightarrow> False)
      else if 240 \<le> a \<and> a < 245 then
        (case bs of b # c # d # r \<Rightarrow> utf8_cont b \<and> utf8_cont c \<and> utf8_cont d \<and> (a = 240 \<longrightarrow> 144 \<le> b)
           \<and> (a = 244 \<longrightarrow> b < 144) \<and> utf8_valid r | _ \<Rightarrow> False)
      else False)"

definition from_utf8 :: "bytes \<Rightarrow> string option" where
  "from_utf8 bs = (if utf8_valid bs then Some (map (\<lambda>b. char_of (unat b)) bs) else None)"

section \<open>Writing\<close>

definition BIN_MAGIC :: bytes where
  "BIN_MAGIC = [66, 76, 90, 73, 68, 88, 48, 49]"

definition DIR_ENTRY_LEN :: nat where "DIR_ENTRY_LEN = 32"

definition align8 :: "nat \<Rightarrow> nat" where
  "align8 n = (n + 7) div 8 * 8"

text \<open>The directory, with the cursors of the key and the posting region.\<close>

fun dir_entries :: "nat \<Rightarrow> nat \<Rightarrow> (string \<times> u64 list) list \<Rightarrow> bytes" where
  "dir_entries key_cursor post_cursor [] = []"
| "dir_entries key_cursor post_cursor ((key, ids) # es) =
     le_bytes 8 key_cursor @ le_bytes 8 (length key) @ le_bytes 8 post_cursor @ le_bytes 8 (length ids)
     @ dir_entries (key_cursor + length key) (post_cursor + 8 * length ids) es"

definition serialize :: "ext \<Rightarrow> btree_index \<Rightarrow> bytes" where
  "serialize X ix =
     (let es = bi_entries ix;
          def_json = json_to_string X (index_definition_value (bi_definition ix));
          dir_off = align8 (32 + length def_json);
          key_blob_off = dir_off + length es * DIR_ENTRY_LEN;
          key_blob_len = sum_list (map (length \<circ> fst) es);
          postings_off = align8 (key_blob_off + key_blob_len)
      in BIN_MAGIC @ le_u64 (bi_snapshot_sequence ix) @ le_bytes 8 (length es) @ le_bytes 8 (length def_json)
         @ def_json @ replicate (dir_off - (32 + length def_json)) 0
         @ dir_entries key_blob_off postings_off es
         @ concat (map (str_bytes \<circ> fst) es) @ replicate (postings_off - (key_blob_off + key_blob_len)) 0
         @ concat (map (\<lambda>e. concat (map le_u64 (snd e))) es))"

section \<open>Reading\<close>

definition u64_at :: "bytes \<Rightarrow> nat \<Rightarrow> nat option" where
  "u64_at bs off = (if off + 8 \<le> length bs then Some (le_nat (slice bs off 8)) else None)"

text \<open>\<^verbatim>\<open>bytes.get(a..a.checked_add(n)?)\<close>\<close>

definition get_range :: "bytes \<Rightarrow> nat \<Rightarrow> nat \<Rightarrow> bytes option" where
  "get_range bs a n = (if a + n < 2 ^ 64 \<and> a + n \<le> length bs then Some (slice bs a n) else None)"

record binary_index_ref =
  br_bytes :: bytes
  br_key_count :: nat
  br_snapshot_sequence :: u64
  br_dir_off :: nat
  br_definition :: index_definition

definition br_parse :: "ext \<Rightarrow> bytes \<Rightarrow> binary_index_ref option" where
  "br_parse X bs =
     (if length bs < 32 \<or> take 8 bs \<noteq> BIN_MAGIC then None
      else
        Option.bind (u64_at bs 8) (\<lambda>seq.
        Option.bind (u64_at bs 16) (\<lambda>key_count.
        Option.bind (u64_at bs 24) (\<lambda>def_len.
        Option.bind (get_range bs 32 def_len) (\<lambda>def_bytes.
        Option.bind (Option.bind (json_parse X def_bytes) de_index_definition) (\<lambda>d.
          let dir_off = align8 (32 + def_len); dir_end = dir_off + key_count * DIR_ENTRY_LEN
          in if dir_end \<ge> 2 ^ 64 \<or> length bs < dir_end then None
             else Some \<lparr>br_bytes = bs, br_key_count = key_count, br_snapshot_sequence = of_nat seq,
                        br_dir_off = dir_off, br_definition = d\<rparr>))))))"

definition br_key_at :: "binary_index_ref \<Rightarrow> nat \<Rightarrow> string option" where
  "br_key_at r i =
     (let dir = br_dir_off r + i * DIR_ENTRY_LEN
      in Option.bind (u64_at (br_bytes r) dir) (\<lambda>key_off.
         Option.bind (u64_at (br_bytes r) (dir + 8)) (\<lambda>key_len.
         Option.bind (get_range (br_bytes r) key_off key_len) from_utf8)))"

fun read_u64s :: "bytes \<Rightarrow> u64 list" where
  "read_u64s (a # b # c # d # e # f # g # h # rest) = of_nat (le_nat [a, b, c, d, e, f, g, h]) # read_u64s rest"
| "read_u64s _ = []"

definition br_entry :: "binary_index_ref \<Rightarrow> nat \<Rightarrow> (string \<times> u64 list) option" where
  "br_entry r i =
     (let dir = br_dir_off r + i * DIR_ENTRY_LEN
      in Option.bind (u64_at (br_bytes r) dir) (\<lambda>key_off.
         Option.bind (u64_at (br_bytes r) (dir + 8)) (\<lambda>key_len.
         Option.bind (u64_at (br_bytes r) (dir + 16)) (\<lambda>post_off.
         Option.bind (u64_at (br_bytes r) (dir + 24)) (\<lambda>post_count.
         Option.bind (Option.bind (get_range (br_bytes r) key_off key_len) from_utf8) (\<lambda>key.
         if post_count * 8 \<ge> 2 ^ 64 then None
         else map_option (\<lambda>pb. (key, read_u64s pb)) (get_range (br_bytes r) post_off (post_count * 8))))))))"

function br_search :: "binary_index_ref \<Rightarrow> string \<Rightarrow> nat \<Rightarrow> nat \<Rightarrow> u64 list option" where
  "br_search r value lo hi =
     (if lo < hi then
        let mid = lo + (hi - lo) div 2
        in case br_key_at r mid of
             None \<Rightarrow> None
           | Some k \<Rightarrow>
               if value = k then map_option snd (br_entry r mid)
               else if value < k then br_search r value lo mid
               else br_search r value (mid + 1) hi
      else Some [])"
  by pat_completeness auto
termination
  by (relation "measure (\<lambda>(r, value, lo, hi). hi - lo)") auto

declare br_search.simps [simp del]

definition br_lookup_checked :: "binary_index_ref \<Rightarrow> string \<Rightarrow> u64 list option" where
  "br_lookup_checked r value = br_search r value 0 (br_key_count r)"

definition br_lookup :: "binary_index_ref \<Rightarrow> string \<Rightarrow> u64 list" where
  "br_lookup r value = (case br_lookup_checked r value of Some ids \<Rightarrow> ids | None \<Rightarrow> [])"

text \<open>The mapped file is parsed at every lookup.\<close>

definition mmap_index_lookup :: "ext \<Rightarrow> bytes \<Rightarrow> string \<Rightarrow> u64 list option" where
  "mmap_index_lookup X mapped value = Option.bind (br_parse X mapped) (\<lambda>r. br_lookup_checked r value)"

section \<open>Reading regions of a concatenation\<close>

lemma length_str_bytes [simp]: "length (str_bytes s) = length s"
  by (simp add: str_bytes_def)

lemma u64_at_right: "u64_at (xs @ ys) (length xs + k) = u64_at ys k"
  by (simp add: u64_at_def slice_def)

lemma u64_at_left: "off + 8 \<le> length xs \<Longrightarrow> u64_at (xs @ ys) off = u64_at xs off"
  by (simp add: u64_at_def slice_append_left)

lemma u64_at_le: "n < 2 ^ 64 \<Longrightarrow> u64_at (le_bytes 8 n @ ys) 0 = Some n"
  by (simp add: u64_at_def slice_def)

lemma get_range_right:
  "length (xs @ ys) < 2 ^ 64 \<Longrightarrow> get_range (xs @ ys) (length xs + k) n = get_range ys k n"
  by (auto simp: get_range_def slice_def add.assoc)

lemma get_range_left:
  "length (xs @ ys) < 2 ^ 64 \<Longrightarrow> k + n \<le> length xs \<Longrightarrow> get_range (xs @ ys) k n = Some (slice xs k n)"
  by (simp add: get_range_def slice_append_left)

lemma align8_ge: "n \<le> align8 n"
  by (simp add: align8_def)

lemma from_utf8_str: "utf8_valid (str_bytes s) \<Longrightarrow> from_utf8 (str_bytes s) = Some s"
proof -
  have "unat (of_nat (of_char c) :: u8) = of_char c" for c
    using nat_of_char_less_256 [of c] by (simp add: unat_of_nat take_bit_nat_eq_self)
  then show "utf8_valid (str_bytes s) \<Longrightarrow> from_utf8 (str_bytes s) = Some s"
    by (simp add: from_utf8_def) (simp add: str_bytes_def comp_def)
qed

section \<open>What is written is read back\<close>

abbreviation key_total :: "(string \<times> u64 list) list \<Rightarrow> nat" where
  "key_total es \<equiv> sum_list (map (length \<circ> fst) es)"

abbreviation post_total :: "(string \<times> u64 list) list \<Rightarrow> nat" where
  "post_total es \<equiv> sum_list (map (length \<circ> snd) es)"

lemma length_dir_entries [simp]: "length (dir_entries kc pc es) = 32 * length es"
  by (induction kc pc es rule: dir_entries.induct) simp_all

lemma drop_dir_entries:
  "drop (32 * i) (dir_entries kc pc es)
   = dir_entries (kc + key_total (take i es)) (pc + 8 * post_total (take i es)) (drop i es)"
proof (induction kc pc es arbitrary: i rule: dir_entries.induct)
  case (2 kc pc key ids es)
  then show ?case by (cases i) (simp_all add: algebra_simps)
qed simp

lemma u64_at_drop: "n \<le> length bs \<Longrightarrow> u64_at bs (n + k) = u64_at (drop n bs) k"
  by (auto simp: u64_at_def slice_def add.commute)

lemma total_nth:
  "i < length es \<Longrightarrow> sum_list (map f (take i es)) + f (es ! i) \<le> sum_list (map f es)" for f :: "'a \<Rightarrow> nat"
  by (subst (3) id_take_nth_drop [of i es]) simp_all

lemma u64_at_dir:
  assumes i: "i < length es" and fits: "kc + key_total es < 2 ^ 64" "pc + 8 * post_total es < 2 ^ 64"
  shows "u64_at (dir_entries kc pc es @ zs) (32 * i) = Some (kc + key_total (take i es))"
    "u64_at (dir_entries kc pc es @ zs) (32 * i + 8) = Some (length (fst (es ! i)))"
    "u64_at (dir_entries kc pc es @ zs) (32 * i + 16) = Some (pc + 8 * post_total (take i es))"
    "u64_at (dir_entries kc pc es @ zs) (32 * i + 24) = Some (length (snd (es ! i)))"
proof -
  let ?bs = "dir_entries kc pc es @ zs"
  have "drop i es = es ! i # drop (Suc i) es" using i by (simp add: Cons_nth_drop_Suc)
  then obtain r where r: "drop (32 * i) ?bs = le_bytes 8 (kc + key_total (take i es))
      @ le_bytes 8 (length (fst (es ! i))) @ le_bytes 8 (pc + 8 * post_total (take i es))
      @ le_bytes 8 (length (snd (es ! i))) @ r"
    using i by (cases "es ! i") (simp add: drop_dir_entries)
  have at: "u64_at ?bs (32 * i + k) = u64_at (drop (32 * i) ?bs) k" for k
    using i by (intro u64_at_drop) simp
  have le: "kc + key_total (take i es) < 2 ^ 64" "length (fst (es ! i)) < 2 ^ 64"
    "pc + 8 * post_total (take i es) < 2 ^ 64" "length (snd (es ! i)) < 2 ^ 64"
    using total_nth [OF i, of "length \<circ> fst"] total_nth [OF i, of "length \<circ> snd"] fits by simp_all
  show "u64_at ?bs (32 * i) = Some (kc + key_total (take i es))"
    using at [of 0] le(1) unfolding r by (simp add: u64_at_le)
  show "u64_at ?bs (32 * i + 8) = Some (length (fst (es ! i)))"
    using at [of 8] le(2) u64_at_right [of "le_bytes 8 (kc + key_total (take i es))" _ 0] unfolding r
    by (simp add: u64_at_le)
  show "u64_at ?bs (32 * i + 16) = Some (pc + 8 * post_total (take i es))"
    using at [of 16] le(3) u64_at_right [of "le_bytes 8 (kc + key_total (take i es)) @ le_bytes 8 (length (fst (es ! i)))" _ 0]
    unfolding r by (simp add: u64_at_le)
  show "u64_at ?bs (32 * i + 24) = Some (length (snd (es ! i)))"
    using at [of 24] le(4) u64_at_right [of "le_bytes 8 (kc + key_total (take i es)) @ le_bytes 8 (length (fst (es ! i)))
      @ le_bytes 8 (pc + 8 * post_total (take i es))" _ 0]
    unfolding r by (simp add: u64_at_le)
qed

lemma slice_concat:
  "i < length xs \<Longrightarrow> slice (concat xs @ zs) (sum_list (map length (take i xs))) (length (xs ! i)) = xs ! i"
proof (induction xs arbitrary: i)
  case (Cons x xs)
  then show ?case by (cases i) (simp_all add: slice_def)
qed simp

lemma get_range_region:
  assumes "length (pre @ concat xs @ zs) < 2 ^ 64" "i < length xs"
    "off = length pre + sum_list (map length (take i xs))" "n = length (xs ! i)"
  shows "get_range (pre @ concat xs @ zs) off n = Some (xs ! i)"
proof -
  have "sum_list (map length (take i xs)) + length (xs ! i) \<le> length (concat xs)"
    using total_nth [OF assms(2), of length] by (simp add: length_concat)
  with assms show ?thesis
    by (simp add: get_range_def slice_append_right slice_concat)
qed

lemma read_u64s_8:
  assumes "length xs = 8"
  shows "read_u64s (xs @ ys) = of_nat (le_nat xs) # read_u64s ys"
proof -
  have "length xs = Suc (Suc (Suc (Suc (Suc (Suc (Suc (Suc 0)))))))" using assms by simp
  then obtain a b c d e f g h where "xs = [a, b, c, d, e, f, g, h]"
    unfolding length_Suc_conv length_0_conv by blast
  then show ?thesis by (simp del: le_nat.simps)
qed

lemma read_u64s_concat: "read_u64s (concat (map le_u64 ids)) = ids"
  by (induction ids) (simp_all add: read_u64s_8)

text \<open>The reader of a serialized index sees its entries.\<close>

definition br_holds :: "binary_index_ref \<Rightarrow> (string \<times> u64 list) list \<Rightarrow> bool" where
  "br_holds r es \<longleftrightarrow> br_key_count r = length es
     \<and> (\<forall>i < length es. br_key_at r i = Some (fst (es ! i)) \<and> br_entry r i = Some (es ! i))"

lemma bt_list_nth: "bt_wf es \<Longrightarrow> i < length es \<Longrightarrow> bt_list es (fst (es ! i)) = snd (es ! i)"
  using map_of_is_SomeI [OF bt_wf_distinct, of es "fst (es ! i)" "snd (es ! i)"] by (simp add: bt_list_def)

lemma bt_list_absent: "(\<And>i. i < length es \<Longrightarrow> fst (es ! i) \<noteq> v) \<Longrightarrow> bt_list es v = []"
proof -
  assume "\<And>i. i < length es \<Longrightarrow> fst (es ! i) \<noteq> v"
  then have "v \<notin> fst ` set es" by (metis imageE in_set_conv_nth)
  then have "map_of es v = None" by (simp add: map_of_eq_None_iff)
  then show ?thesis by (simp add: bt_list_def)
qed

lemma bt_wf_nth_less: "bt_wf es \<Longrightarrow> i < j \<Longrightarrow> j < length es \<Longrightarrow> fst (es ! i) < fst (es ! j)"
  by (simp add: sorted_wrt_iff_nth_less)

lemma br_search_spec:
  "br_holds r es \<Longrightarrow> bt_wf es \<Longrightarrow> hi \<le> length es \<Longrightarrow> (\<And>i. i < lo \<Longrightarrow> fst (es ! i) < v) \<Longrightarrow>
    (\<And>i. hi \<le> i \<Longrightarrow> i < length es \<Longrightarrow> v < fst (es ! i)) \<Longrightarrow> br_search r v lo hi = Some (bt_list es v)"
proof (induction r v lo hi rule: br_search.induct)
  case (1 r v lo hi)
  show ?case
  proof (cases "lo < hi")
    case True
    define mid where "mid = lo + (hi - lo) div 2"
    have mid: "lo \<le> mid" "mid < hi" "mid < length es" using True "1.prems"(3) by (auto simp: mid_def)
    have read: "br_key_at r mid = Some (fst (es ! mid))" "br_entry r mid = Some (es ! mid)"
      using "1.prems"(1) mid by (simp_all add: br_holds_def)
    note less = bt_wf_nth_less [OF "1.prems"(2)]
    note step = br_search.simps [of r v lo hi, unfolded Let_def, folded mid_def]
    consider "v = fst (es ! mid)" | "v < fst (es ! mid)" | "fst (es ! mid) < v" by fastforce
    then show ?thesis
    proof cases
      case 1
      then show ?thesis using True read bt_list_nth [OF "1.prems"(2) mid(3)] by (subst step) simp
    next
      case lt: 2
      have "v < fst (es ! i)" if i: "mid \<le> i" "i < length es" for i
        using less [of mid i] i lt by (cases "i = mid") auto
      moreover have "v \<noteq> fst (es ! mid)" using lt by simp
      ultimately show ?thesis using "1.IH"(1) [OF True mid_def read(1)] "1.prems" mid lt True read
        by (simp add: step)
    next
      case gt: 3
      have "fst (es ! i) < v" if i: "i < Suc mid" for i
        using less [of i mid] i gt mid(3) by (cases "i = mid") auto
      moreover have "v \<noteq> fst (es ! mid)" "\<not> v < fst (es ! mid)" using gt by simp_all
      ultimately show ?thesis using "1.IH"(2) [OF True mid_def read(1)] "1.prems" mid gt True read
        by (simp add: step)
    qed
  next
    case False
    have "fst (es ! i) \<noteq> v" if "i < length es" for i
      using "1.prems"(4) [of i] "1.prems"(5) [of i] that False by (cases "i < lo") force+
    then show ?thesis using False by (subst br_search.simps) (simp add: bt_list_absent)
  qed
qed

lemma br_lookup_holds:
  "br_holds r es \<Longrightarrow> bt_wf es \<Longrightarrow> br_lookup_checked r v = Some (bt_list es v)"
  unfolding br_lookup_checked_def by (rule br_search_spec) (simp_all add: br_holds_def)

section \<open>A serialized index is parsed\<close>

text \<open>The bytes before the directory, and the length of a serialized index.\<close>

definition bin_head :: "ext \<Rightarrow> btree_index \<Rightarrow> bytes" where
  "bin_head X ix =
     (let def_json = json_to_string X (index_definition_value (bi_definition ix))
      in BIN_MAGIC @ le_u64 (bi_snapshot_sequence ix) @ le_bytes 8 (length (bi_entries ix))
         @ le_bytes 8 (length def_json) @ def_json
         @ replicate (align8 (32 + length def_json) - (32 + length def_json)) 0)"

definition bin_key_off :: "ext \<Rightarrow> btree_index \<Rightarrow> nat" where
  "bin_key_off X ix = length (bin_head X ix) + 32 * length (bi_entries ix)"

lemma length_bin_head:
  "length (bin_head X ix) = align8 (32 + length (json_to_string X (index_definition_value (bi_definition ix))))"
  using align8_ge [of "32 + length (json_to_string X (index_definition_value (bi_definition ix)))"]
  by (simp add: bin_head_def Let_def BIN_MAGIC_def)

lemma serialize_regions:
  "serialize X ix = bin_head X ix
     @ dir_entries (bin_key_off X ix) (align8 (bin_key_off X ix + key_total (bi_entries ix))) (bi_entries ix)
     @ concat (map (str_bytes \<circ> fst) (bi_entries ix))
     @ replicate (align8 (bin_key_off X ix + key_total (bi_entries ix)) - (bin_key_off X ix + key_total (bi_entries ix))) 0
     @ concat (map (\<lambda>e. concat (map le_u64 (snd e))) (bi_entries ix))"
  by (simp add: serialize_def Let_def bin_key_off_def length_bin_head DIR_ENTRY_LEN_def)
     (simp add: bin_head_def Let_def mult.commute)

lemma key_length: "length (concat (map (str_bytes \<circ> fst) es)) = key_total es"
  by (induction es) simp_all

lemma post_length: "length (concat (map le_u64 ids)) = 8 * length ids"
  by (induction ids) simp_all

lemma posts_length: "length (concat (map (\<lambda>e. concat (map le_u64 (snd e))) es)) = 8 * post_total es"
  by (induction es) (simp_all add: post_length)

lemma length_serialize:
  "length (serialize X ix) = align8 (bin_key_off X ix + key_total (bi_entries ix)) + 8 * post_total (bi_entries ix)"
  using align8_ge [of "bin_key_off X ix + key_total (bi_entries ix)"]
  unfolding serialize_regions by (simp add: bin_key_off_def key_length posts_length)

lemma serialize_parse:
  assumes law: "json_law X" and small: "length (serialize X ix) < 2 ^ 64"
  shows "br_parse X (serialize X ix) =
    Some \<lparr>br_bytes = serialize X ix, br_key_count = length (bi_entries ix),
      br_snapshot_sequence = bi_snapshot_sequence ix, br_dir_off = length (bin_head X ix),
      br_definition = bi_definition ix\<rparr>"
proof -
  let ?bs = "serialize X ix"
  let ?j = "json_to_string X (index_definition_value (bi_definition ix))"
  obtain r where bs: "?bs = BIN_MAGIC @ le_u64 (bi_snapshot_sequence ix) @ le_bytes 8 (length (bi_entries ix))
      @ le_bytes 8 (length ?j) @ ?j @ r"
    unfolding serialize_regions bin_head_def Let_def by simp
  have len: "length (bin_head X ix) + 32 * length (bi_entries ix) \<le> length ?bs"
    unfolding serialize_regions by simp
  have h: "length ?j \<le> length (bin_head X ix)" "32 \<le> length ?bs" 
    using align8_ge [of "32 + length ?j"] len unfolding length_bin_head by linarith+
  have magic: "length BIN_MAGIC = 8" by (simp add: BIN_MAGIC_def)
  have "take 8 ?bs = BIN_MAGIC" by (subst bs) (simp add: magic)
  moreover have "u64_at ?bs 8 = Some (unat (bi_snapshot_sequence ix))"
    using u64_at_right [of BIN_MAGIC _ 0] unat_u64_less [of "bi_snapshot_sequence ix"]
    by (subst bs) (simp add: magic u64_at_le)
  moreover have "u64_at ?bs 16 = Some (length (bi_entries ix))"
    using u64_at_right [of "BIN_MAGIC @ le_u64 (bi_snapshot_sequence ix)" _ 0] len small
    by (subst bs) (simp add: magic u64_at_le)
  moreover have "u64_at ?bs 24 = Some (length ?j)"
    using u64_at_right [of "BIN_MAGIC @ le_u64 (bi_snapshot_sequence ix) @ le_bytes 8 (length (bi_entries ix))" _ 0]
      len small h by (subst bs) (simp add: magic u64_at_le)
  moreover have "get_range ?bs 32 (length ?j) = Some ?j"
    using get_range_right [of "BIN_MAGIC @ le_u64 (bi_snapshot_sequence ix) @ le_bytes 8 (length (bi_entries ix))
        @ le_bytes 8 (length ?j)" "?j @ r" 0 "length ?j"] small
    unfolding bs by (simp add: magic get_range_left) (simp add: slice_def)
  ultimately show ?thesis
    using h len small
    by (simp add: br_parse_def json_lawD(1) [OF law] index_definition_roundtrip length_bin_head DIR_ENTRY_LEN_def
      mult.commute)
qed

lemma serialize_holds:
  assumes keys: "\<forall>e \<in> set (bi_entries ix). utf8_valid (str_bytes (fst e))"
    and small: "length (serialize X ix) < 2 ^ 64"
    and r: "br_bytes r = serialize X ix" "br_dir_off r = length (bin_head X ix)"
      "br_key_count r = length (bi_entries ix)"
  shows "br_holds r (bi_entries ix)"
proof -
  let ?es = "bi_entries ix"
  let ?bs = "serialize X ix"
  let ?ko = "bin_key_off X ix"
  let ?po = "align8 (?ko + key_total ?es)"
  let ?ks = "concat (map (str_bytes \<circ> fst) ?es)"
  let ?ps = "concat (map (\<lambda>e. concat (map le_u64 (snd e))) ?es)"
  let ?pad = "replicate (?po - (?ko + key_total ?es)) 0 :: bytes"
  have pre: "length (bin_head X ix @ dir_entries ?ko ?po ?es @ ?ks @ ?pad) = ?po"
    using align8_ge [of "?ko + key_total ?es"] by (simp add: bin_key_off_def key_length)
  have fits: "?ko + key_total ?es < 2 ^ 64" "?po + 8 * post_total ?es < 2 ^ 64"
    using small align8_ge [of "?ko + key_total ?es"] unfolding length_serialize by linarith+
  {
    fix i assume i: "i < length ?es"
    note dirs = u64_at_dir [OF i fits]
    have dir: "u64_at ?bs (length (bin_head X ix) + k) = u64_at (dir_entries ?ko ?po ?es @ ?ks @ ?pad @ ?ps) k" for k
      unfolding serialize_regions by (rule u64_at_right)
    have "get_range ?bs (?ko + key_total (take i ?es)) (length (fst (?es ! i))) = Some (map (str_bytes \<circ> fst) ?es ! i)"
      unfolding serialize_regions append.assoc [symmetric, of "bin_head X ix"] using small i
      by (intro get_range_region)
        (simp_all add: serialize_regions bin_key_off_def take_map comp_def)
    moreover have "get_range ?bs (?po + 8 * post_total (take i ?es)) (length (snd (?es ! i)) * 8)
      = Some (map (\<lambda>e. concat (map le_u64 (snd e))) ?es ! i)"
      using get_range_region [of "bin_head X ix @ dir_entries ?ko ?po ?es @ ?ks @ ?pad"
          "map (\<lambda>e. concat (map le_u64 (snd e))) ?es" "[]" i, OF _ _ refl refl]
        small i pre posts_length [of "take i ?es"]
      unfolding serialize_regions by (simp add: post_length take_map length_concat comp_def mult.commute
        sum_list_triv)
    moreover have "from_utf8 (str_bytes (fst (?es ! i))) = Some (fst (?es ! i))"
      using keys i by (simp add: from_utf8_str)
    moreover have "length (snd (?es ! i)) * 8 < 2 ^ 64"
      using total_nth [OF i, of "length \<circ> snd"] fits(2) by simp
    ultimately have "br_key_at r i = Some (fst (?es ! i)) \<and> br_entry r i = Some (?es ! i)"
      using i dir [of "32 * i"] dir [of "32 * i + 8"] dir [of "32 * i + 16"] dir [of "32 * i + 24"]
      by (simp add: br_key_at_def br_entry_def r DIR_ENTRY_LEN_def dirs mult.commute [of i] add.assoc read_u64s_concat)
  }
  then show ?thesis by (simp add: br_holds_def r)
qed

text \<open>The reader answers every lookup as the index that was serialized.\<close>

lemma serialize_lookup:
  assumes "json_law X" "length (serialize X ix) < 2 ^ 64" "bt_wf (bi_entries ix)"
    "\<forall>e \<in> set (bi_entries ix). utf8_valid (str_bytes (fst e))"
  shows "mmap_index_lookup X (serialize X ix) v = Some (bi_lookup ix v)"
  unfolding mmap_index_lookup_def serialize_parse [OF assms(1,2)] bind.bind_lunit bi_lookup_def
  by (rule br_lookup_holds [OF serialize_holds [OF assms(4,2)] assms(3)]) simp_all

end
