(* ===== verification/Database_Catalog.thy ===== *)
theory Database_Catalog
  imports Ordered_Map Manifest
begin

text \<open>
  The database-wide catalog, \<^verbatim>\<open>crates/icefalldb-core/src/database_catalog.rs\<close>: the tables and the
  index definitions by name, in one file that every change replaces. The caller holds the catalog
  lock; the time of registration is an argument. \<^verbatim>\<open>create_table\<close> is left out: it runs
  \<^verbatim>\<open>Writer::create\<close>, which is not modelled.
\<close>

section \<open>Replacing a file\<close>

text \<open>
  The pattern of every metadata writer: write a temporary file, sync it, rename it over the
  target.
\<close>

definition write_rename :: "'s storage \<Rightarrow> string \<Rightarrow> bytes \<Rightarrow> ('s, unit) io" where
  "write_rename S path data =
     (let tmp = path @ ''.tmp''
      in io_then (st_write S tmp data) (io_then (st_sync S tmp) (st_rename S tmp path)))"

section \<open>Data\<close>

record index_entry =
  ie_table :: string
  ie_column :: string
  ie_index_type :: string
  ie_unique :: bool

text \<open>A table's entry is the time it was registered at.\<close>

record catalog_data =
  dc_tables :: "(string \<times> string) list"
  dc_indexes :: "(string \<times> index_entry) list"

definition dc_default :: catalog_data where
  "dc_default = \<lparr>dc_tables = [], dc_indexes = []\<rparr>"

abbreviation dc_wf :: "catalog_data \<Rightarrow> bool" where
  "dc_wf d \<equiv> bt_wf (dc_tables d) \<and> bt_wf (dc_indexes d)"

definition index_entry_value :: "index_entry \<Rightarrow> json" where
  "index_entry_value e = jobj
     [(''table'', Some (JStr (ie_table e))), (''column'', Some (JStr (ie_column e))),
      (''index_type'', Some (JStr (ie_index_type e))), (''unique'', Some (JBool (ie_unique e)))]"

definition de_index_entry :: "json \<Rightarrow> index_entry option" where
  "de_index_entry v =
     Option.bind (de_req ''table'' de_str v) (\<lambda>table.
     Option.bind (de_req ''column'' de_str v) (\<lambda>column.
     Option.bind (de_req ''index_type'' de_str v) (\<lambda>index_type.
     Option.bind (de_default ''unique'' False de_bool v) (\<lambda>unique.
     Some \<lparr>ie_table = table, ie_column = column, ie_index_type = index_type, ie_unique = unique\<rparr>))))"

definition catalog_data_value :: "catalog_data \<Rightarrow> json" where
  "catalog_data_value d = jobj
     [(''tables'', Some (jhashmap (\<lambda>at. jobj [(''created_at'', Some (JStr at))]) (dc_tables d))),
      (''indexes'', Some (jhashmap index_entry_value (dc_indexes d)))]"

definition de_catalog_data :: "json \<Rightarrow> catalog_data option" where
  "de_catalog_data v =
     Option.bind (de_req ''tables'' (de_btree (de_req ''created_at'' de_str)) v) (\<lambda>tables.
     Option.bind (de_req ''indexes'' (de_btree de_index_entry) v) (\<lambda>indexes.
     Some \<lparr>dc_tables = tables, dc_indexes = indexes\<rparr>))"

section \<open>Loading and saving\<close>

definition CATALOG_PATH :: string where
  "CATALOG_PATH = ''_catalog.json''"

definition dc_load :: "ext \<Rightarrow> 's storage \<Rightarrow> ('s, catalog_data) io" where
  "dc_load X S =
     io_bind (io_try (st_read S CATALOG_PATH)) (\<lambda>r.
       case r of
         Inr data \<Rightarrow> io_lift (ok_or (Option.bind (json_parse X data) de_catalog_data) Serialization)
       | Inl e \<Rightarrow> if is_not_found e then io_return dc_default else io_throw e)"

definition dc_save :: "ext \<Rightarrow> 's storage \<Rightarrow> catalog_data \<Rightarrow> ('s, unit) io" where
  "dc_save X S d =
     io_then (write_rename S CATALOG_PATH (json_pretty X (catalog_data_value d)))
       (io_then (st_sync S []) (io_return ()))"

section \<open>Tables\<close>

definition RESERVED_TABLE_NAMES :: "string list" where
  "RESERVED_TABLE_NAMES =
     [''_write'', ''_write.lock'', ''_manifest'', ''_manifest.json'', ''_schema'', ''_schema.json'',
      ''_manifests'', ''_schemas'', ''_staging'', ''views'']"

definition validate_table :: "string \<Rightarrow> unit result" where
  "validate_table table =
     (if table = [] \<or> starts_with table ''/''
         \<or> list_ex (\<lambda>c. c = ''..'' \<or> c = ''.'') (split_on (CHR ''/'') table)
         \<or> list_ex (\<lambda>c. c = []) (split_on (CHR ''/'') table)
      then Inl (InvalidPath table)
      else if table \<in> set RESERVED_TABLE_NAMES \<or> starts_with table ''_manifests/''
         \<or> starts_with table ''_schemas/'' \<or> starts_with table ''_staging/''
      then Inl (InvalidPath table)
      else Inr ())"

definition validate_table_name :: "string \<Rightarrow> unit result" where
  "validate_table_name name =
     res_bind (validate_table name) (\<lambda>_.
       if starts_with name ''_'' then Inl (InvalidPath ''table names may not start with _'') else Inr ())"

definition register_existing_table :: "ext \<Rightarrow> 's storage \<Rightarrow> string \<Rightarrow> string \<Rightarrow> ('s, unit) io" where
  "register_existing_table X S now name =
     io_then (io_lift (validate_table_name name))
       (io_bind (dc_load X S) (\<lambda>d.
         if map_of (dc_tables d) name \<noteq> None then io_return ()
         else dc_save X S (d\<lparr>dc_tables := bt_insert name now (dc_tables d)\<rparr>)))"

definition drop_table :: "ext \<Rightarrow> 's storage \<Rightarrow> string \<Rightarrow> ('s, unit) io" where
  "drop_table X S name =
     io_then (io_lift (validate_table_name name))
       (io_bind (dc_load X S) (\<lambda>d.
         if map_of (dc_tables d) name = None then io_throw (TableNotFound name)
         else dc_save X S (d\<lparr>dc_tables := bt_remove name (dc_tables d)\<rparr>)))"

definition list_tables :: "ext \<Rightarrow> 's storage \<Rightarrow> ('s, string list) io" where
  "list_tables X S = io_bind (dc_load X S) (\<lambda>d. io_return (map fst (dc_tables d)))"

definition table_exists :: "ext \<Rightarrow> 's storage \<Rightarrow> string \<Rightarrow> ('s, bool) io" where
  "table_exists X S name = io_bind (dc_load X S) (\<lambda>d. io_return (map_of (dc_tables d) name \<noteq> None))"

section \<open>Index definitions\<close>

definition create_index_definition_with_options ::
  "ext \<Rightarrow> 's storage \<Rightarrow> string \<Rightarrow> string \<Rightarrow> string \<Rightarrow> string \<Rightarrow> bool \<Rightarrow> ('s, unit) io" where
  "create_index_definition_with_options X S name table column index_type unique =
     io_bind (dc_load X S) (\<lambda>d.
       if map_of (dc_indexes d) name \<noteq> None then io_throw (TableAlreadyExists name)
       else dc_save X S (d\<lparr>dc_indexes := bt_insert name
              \<lparr>ie_table = table, ie_column = column, ie_index_type = index_type, ie_unique = unique\<rparr>
              (dc_indexes d)\<rparr>))"

definition create_index_definition ::
  "ext \<Rightarrow> 's storage \<Rightarrow> string \<Rightarrow> string \<Rightarrow> string \<Rightarrow> string \<Rightarrow> ('s, unit) io" where
  "create_index_definition X S name table column index_type =
     create_index_definition_with_options X S name table column index_type False"

definition drop_index_definition :: "ext \<Rightarrow> 's storage \<Rightarrow> string \<Rightarrow> ('s, unit) io" where
  "drop_index_definition X S name =
     io_bind (dc_load X S) (\<lambda>d.
       if map_of (dc_indexes d) name = None then io_throw (TableNotFound name)
       else dc_save X S (d\<lparr>dc_indexes := bt_remove name (dc_indexes d)\<rparr>))"

definition list_index_definitions :: "ext \<Rightarrow> 's storage \<Rightarrow> ('s, (string \<times> index_entry) list) io" where
  "list_index_definitions X S = io_bind (dc_load X S) (\<lambda>d. io_return (dc_indexes d))"

section \<open>Reading back\<close>

lemma index_entry_roundtrip: "de_index_entry (index_entry_value e) = Some e"
  by (cases e) (simp add: de_index_entry_def index_entry_value_def de_req_def de_default_def de_bool_def)

lemma de_btree_jhashmap:
  "bt_wf m \<Longrightarrow> (\<And>k v. (k, v) \<in> set m \<Longrightarrow> f (g v) = Some v) \<Longrightarrow> de_btree f (jhashmap g m) = Some m"
  by (simp add: de_btree_def de_map_jhashmap bt_of_list_id)

lemma catalog_data_roundtrip: "dc_wf d \<Longrightarrow> de_catalog_data (catalog_data_value d) = Some d"
  by (cases d) (simp add: de_catalog_data_def catalog_data_value_def de_req_def de_btree_jhashmap index_entry_roundtrip)

text \<open>What is loaded is well-formed, whatever the file holds.\<close>

lemma de_catalog_wf: "de_catalog_data v = Some d \<Longrightarrow> dc_wf d"
  by (auto simp: de_catalog_data_def de_req_def de_btree_def bind_eq_Some_conv)

section \<open>The catalog as a map\<close>

text \<open>The catalog a store holds: empty when there is no file, absent when the file is damaged.\<close>

definition dc_of :: "ext \<Rightarrow> (string \<Rightarrow> bytes option) \<Rightarrow> catalog_data option" where
  "dc_of X v = (case v CATALOG_PATH of
      None \<Rightarrow> Some dc_default
    | Some b \<Rightarrow> Option.bind (json_parse X b) de_catalog_data)"

lemma dc_of_wf: "dc_of X v = Some d \<Longrightarrow> dc_wf d"
  by (auto simp: dc_of_def dc_default_def bind_eq_Some_conv dest: de_catalog_wf split: option.splits)

lemma validate_catalog_path:
  "validate_path CATALOG_PATH = Inr CATALOG_PATH"
  "validate_path (CATALOG_PATH @ ''.tmp'') = Inr (CATALOG_PATH @ ''.tmp'')"
  using validate_join_path [of "[CATALOG_PATH]"] validate_join_path [of "[CATALOG_PATH @ ''.tmp'']"]
  by (simp_all add: CATALOG_PATH_def plain_piece_def)

context storage_contract
begin

lemma write_rename_run:
  assumes "validate_path path = Inr path" "validate_path (path @ ''.tmp'') = Inr (path @ ''.tmp'')"
  obtains s' where "write_rename S path b s = (Inr (), s')"
    "view s' = (view s)(path @ ''.tmp'' := None, path \<mapsto> b)"
proof -
  obtain s1 where s1: "st_write S (path @ ''.tmp'') b s = (Inr (), s1)" "view s1 = (view s)(path @ ''.tmp'' \<mapsto> b)"
    using write_law [OF assms(2)] by blast
  obtain s2 where s2: "st_rename S (path @ ''.tmp'') path s1 = (Inr (), s2)"
    "view s2 = (view s1)(path @ ''.tmp'' := None, path \<mapsto> b)"
    using rename_law [OF assms(2,1), of s1 b] s1(2) by auto
  show ?thesis using that [of s2] s1 s2 by (simp add: write_rename_def Let_def io_simps sync_law)
qed

lemma dc_load_run: "dc_load X S s = (ok_or (dc_of X (view s)) Serialization, s)"
  by (cases "view s CATALOG_PATH")
    (simp_all add: dc_load_def io_simps read_law [OF validate_catalog_path(1)] dc_of_def)

lemma dc_save_run:
  assumes "json_law X" "dc_wf d"
  obtains s' where "dc_save X S d s = (Inr (), s')" "dc_of X (view s') = Some d"
    "\<And>p. p \<noteq> CATALOG_PATH \<Longrightarrow> p \<noteq> CATALOG_PATH @ ''.tmp'' \<Longrightarrow> view s' p = view s p"
proof -
  obtain s' where s': "write_rename S CATALOG_PATH (json_pretty X (catalog_data_value d)) s = (Inr (), s')"
    "view s' = (view s)(CATALOG_PATH @ ''.tmp'' := None, CATALOG_PATH \<mapsto> json_pretty X (catalog_data_value d))"
    using write_rename_run [OF validate_catalog_path] by blast
  show ?thesis
    using that [of s'] s'
    by (simp add: dc_save_def io_simps sync_law dc_of_def json_lawD(4) [OF assms(1)] catalog_data_roundtrip [OF assms(2)])
qed

text \<open>Each operation changes the catalog as it would change the map, or fails and keeps it.\<close>

lemma register_run:
  assumes "json_law X" "dc_of X (view s) = Some d" "validate_table_name name = Inr ()"
  obtains s' d' where "register_existing_table X S now name s = (Inr (), s')" "dc_of X (view s') = Some d'"
    "map_of (dc_tables d') = (if map_of (dc_tables d) name = None then (map_of (dc_tables d))(name \<mapsto> now)
       else map_of (dc_tables d))" "dc_indexes d' = dc_indexes d"
proof (cases "map_of (dc_tables d) name")
  case None
  have wf: "dc_wf (d\<lparr>dc_tables := bt_insert name now (dc_tables d)\<rparr>)" using dc_of_wf [OF assms(2)] by simp
  obtain s' where s': "dc_save X S (d\<lparr>dc_tables := bt_insert name now (dc_tables d)\<rparr>) s = (Inr (), s')"
    "dc_of X (view s') = Some (d\<lparr>dc_tables := bt_insert name now (dc_tables d)\<rparr>)"
    using dc_save_run [OF assms(1) wf] by blast
  show ?thesis
    using that [OF _ s'(2)] s'(1) None dc_of_wf [OF assms(2)] assms(2,3)
    by (simp add: register_existing_table_def io_simps dc_load_run)
next
  case (Some a)
  then show ?thesis
    using that [of s d] assms by (simp add: register_existing_table_def io_simps dc_load_run)
qed

lemma drop_table_run:
  assumes "json_law X" "dc_of X (view s) = Some d" "validate_table_name name = Inr ()"
  shows "if map_of (dc_tables d) name = None then drop_table X S name s = (Inl (TableNotFound name), s)
    else \<exists>s' d'. drop_table X S name s = (Inr (), s') \<and> dc_of X (view s') = Some d'
      \<and> map_of (dc_tables d') = (map_of (dc_tables d))(name := None) \<and> dc_indexes d' = dc_indexes d"
proof (cases "map_of (dc_tables d) name")
  case (Some a)
  have wf: "dc_wf (d\<lparr>dc_tables := bt_remove name (dc_tables d)\<rparr>)" using dc_of_wf [OF assms(2)] by simp
  obtain s' where "dc_save X S (d\<lparr>dc_tables := bt_remove name (dc_tables d)\<rparr>) s = (Inr (), s')"
    "dc_of X (view s') = Some (d\<lparr>dc_tables := bt_remove name (dc_tables d)\<rparr>)"
    using dc_save_run [OF assms(1) wf] by blast
  then show ?thesis using Some assms(2,3) by (simp add: drop_table_def io_simps dc_load_run)
qed (use assms in \<open>simp add: drop_table_def io_simps dc_load_run\<close>)

lemma create_index_run:
  assumes "json_law X" "dc_of X (view s) = Some d"
  shows "if map_of (dc_indexes d) name \<noteq> None
    then create_index_definition_with_options X S name table column ty u s = (Inl (TableAlreadyExists name), s)
    else \<exists>s' d'. create_index_definition_with_options X S name table column ty u s = (Inr (), s')
      \<and> dc_of X (view s') = Some d' \<and> dc_tables d' = dc_tables d
      \<and> map_of (dc_indexes d') = (map_of (dc_indexes d))(name \<mapsto>
          \<lparr>ie_table = table, ie_column = column, ie_index_type = ty, ie_unique = u\<rparr>)"
proof (cases "map_of (dc_indexes d) name")
  case None
  let ?d = "d\<lparr>dc_indexes := bt_insert name
      \<lparr>ie_table = table, ie_column = column, ie_index_type = ty, ie_unique = u\<rparr> (dc_indexes d)\<rparr>"
  have wf: "dc_wf ?d" using dc_of_wf [OF assms(2)] by simp
  obtain s' where "dc_save X S ?d s = (Inr (), s')" "dc_of X (view s') = Some ?d"
    using dc_save_run [OF assms(1) wf] by blast
  then show ?thesis
    using None dc_of_wf [OF assms(2)] assms(2)
    by (simp add: create_index_definition_with_options_def io_simps dc_load_run)
qed (use assms in \<open>simp add: create_index_definition_with_options_def io_simps dc_load_run\<close>)

lemma drop_index_run:
  assumes "json_law X" "dc_of X (view s) = Some d"
  shows "if map_of (dc_indexes d) name = None then drop_index_definition X S name s = (Inl (TableNotFound name), s)
    else \<exists>s' d'. drop_index_definition X S name s = (Inr (), s') \<and> dc_of X (view s') = Some d'
      \<and> dc_tables d' = dc_tables d \<and> map_of (dc_indexes d') = (map_of (dc_indexes d))(name := None)"
proof (cases "map_of (dc_indexes d) name")
  case (Some a)
  have wf: "dc_wf (d\<lparr>dc_indexes := bt_remove name (dc_indexes d)\<rparr>)" using dc_of_wf [OF assms(2)] by simp
  obtain s' where "dc_save X S (d\<lparr>dc_indexes := bt_remove name (dc_indexes d)\<rparr>) s = (Inr (), s')"
    "dc_of X (view s') = Some (d\<lparr>dc_indexes := bt_remove name (dc_indexes d)\<rparr>)"
    using dc_save_run [OF assms(1) wf] by blast
  then show ?thesis using Some assms(2) by (simp add: drop_index_definition_def io_simps dc_load_run)
qed (use assms in \<open>simp add: drop_index_definition_def io_simps dc_load_run\<close>)

end

end
