(* ===== verification/Index_Store.thy ===== *)
theory Index_Store
  imports Learned_Index Binary_Index Database_Catalog Row_Index_Store
begin

text \<open>
  Secondary indexes on a storage, \<^verbatim>\<open>crates/icefalldb-core/src/index.rs\<close>: the files of a
  generation (the JSON base, its binary and learned-model siblings, the deltas), loading a
  generation and its overlay, collecting the entries of a table's rows, and \<^verbatim>\<open>IndexMaintainer\<close>.
  Encryption is off. \<open>local\<close> says that the storage has a local root.

  The Parquet reader is the argument \<open>PQ\<close>: given a file it fails, or gives for every column it
  has the batches of its values, each of which may fail to decode.
\<close>

section \<open>Columns\<close>

text \<open>The array types \<^verbatim>\<open>scalar_to_key\<close> tells apart; of the others the name and the length.\<close>

datatype arrow_values =
    Int64Values "int list"
  | Utf8Values "string list"
  | LargeUtf8Values "string list"
  | OtherValues string nat

record arrow_array =
  aa_values :: arrow_values
  aa_validity :: "bool list option"

type_synonym parquet_reader = "bytes \<Rightarrow> (string \<Rightarrow> arrow_array option list option) option"

fun values_len :: "arrow_values \<Rightarrow> nat" where
  "values_len (Int64Values vs) = length vs"
| "values_len (Utf8Values vs) = length vs"
| "values_len (LargeUtf8Values vs) = length vs"
| "values_len (OtherValues ty n) = n"

definition aa_is_null :: "arrow_array \<Rightarrow> nat \<Rightarrow> bool result" where
  "aa_is_null a i = (case aa_validity a of
      None \<Rightarrow> Inr False
    | Some valid \<Rightarrow> if i < length valid then Inr (\<not> valid ! i) else Inl Panic)"

fun values_key :: "arrow_values \<Rightarrow> nat \<Rightarrow> string result" where
  "values_key (Int64Values vs) row = (if row < length vs then Inr (show_i64 (vs ! row)) else Inl Panic)"
| "values_key (Utf8Values vs) row = (if row < length vs then Inr (vs ! row) else Inl Panic)"
| "values_key (LargeUtf8Values vs) row = (if row < length vs then Inr (vs ! row) else Inl Panic)"
| "values_key (OtherValues ty n) row = Inl (TypeNotSupported ty)"

definition scalar_to_key :: "arrow_array \<Rightarrow> nat \<Rightarrow> string result" where
  "scalar_to_key a row = values_key (aa_values a) row"

section \<open>File names\<close>

definition INDEXES_DIR :: string where "INDEXES_DIR = ''_indexes''"

abbreviation seq9 :: "u64 \<Rightarrow> string" where
  "seq9 seq \<equiv> pad_zeros 9 (show_nat (unat seq))"

definition bi_versioned_filename :: "string \<Rightarrow> u64 \<Rightarrow> string" where
  "bi_versioned_filename name seq = INDEXES_DIR @ ''/'' @ name @ ''/base__v'' @ seq9 seq @ ''.json''"

definition bi_legacy_filename :: "string \<Rightarrow> string" where
  "bi_legacy_filename name = INDEXES_DIR @ ''/'' @ name @ ''.json''"

definition km_versioned_filename :: "string \<Rightarrow> u64 \<Rightarrow> string" where
  "km_versioned_filename name seq = INDEXES_DIR @ ''/'' @ name @ ''/base__v'' @ seq9 seq @ ''.model''"

definition km_legacy_filename :: "string \<Rightarrow> string" where
  "km_legacy_filename name = INDEXES_DIR @ ''/'' @ name @ ''.model''"

definition td_versioned_filename :: "string \<Rightarrow> u64 \<Rightarrow> string" where
  "td_versioned_filename name seq = INDEXES_DIR @ ''/'' @ name @ ''/delta__v'' @ seq9 seq @ ''.json''"

definition index_dir :: "string \<Rightarrow> string \<Rightarrow> string" where
  "index_dir table name = tpath table (INDEXES_DIR @ ''/'' @ name)"

section \<open>Saving\<close>

definition save_binary_sibling :: "ext \<Rightarrow> 's storage \<Rightarrow> string \<Rightarrow> btree_index \<Rightarrow> ('s, unit) io" where
  "save_binary_sibling X S json_rel ix =
     (case strip_suffix json_rel ''.json'' of
        None \<Rightarrow> io_return ()
      | Some stem \<Rightarrow> write_rename S (tpath (def_table (bi_definition ix)) (stem @ ''.idx'')) (serialize X ix))"

definition save_model_sibling :: "ext \<Rightarrow> 's storage \<Rightarrow> string \<Rightarrow> btree_index \<Rightarrow> ('s, unit) io" where
  "save_model_sibling X S json_rel ix =
     (case km_fit ix of
        None \<Rightarrow> io_return ()
      | Some model \<Rightarrow>
          (case strip_suffix json_rel ''.json'' of
             None \<Rightarrow> io_return ()
           | Some stem \<Rightarrow>
               write_rename S (tpath (def_table (bi_definition ix)) (stem @ ''.model''))
                 (json_to_string X (learned_index_file_value (bi_definition ix) model))))"

text \<open>The siblings are written on a best-effort basis: \<^verbatim>\<open>let _ = ...\<close>.\<close>

definition save_siblings :: "ext \<Rightarrow> 's storage \<Rightarrow> bool \<Rightarrow> string \<Rightarrow> btree_index \<Rightarrow> ('s, unit) io" where
  "save_siblings X S local json_rel ix =
     io_then (if local then io_then (io_try (save_binary_sibling X S json_rel ix)) (io_return ()) else io_return ())
       (io_then (io_try (save_model_sibling X S json_rel ix)) (io_return ()))"

definition bi_save :: "ext \<Rightarrow> 's storage \<Rightarrow> bool \<Rightarrow> btree_index \<Rightarrow> ('s, unit) io" where
  "bi_save X S local ix =
     (let d = bi_definition ix; legacy = bi_legacy_filename (def_name d)
      in io_then (write_rename S (tpath (def_table d) legacy) (json_pretty X (btree_index_value ix)))
         (io_then (save_siblings X S local legacy ix)
         (io_then (st_sync S (tpath (def_table d) INDEXES_DIR)) (io_return ()))))"

definition bi_save_versioned :: "ext \<Rightarrow> 's storage \<Rightarrow> bool \<Rightarrow> btree_index \<Rightarrow> ('s, string) io" where
  "bi_save_versioned X S local ix =
     (let d = bi_definition ix; rel = bi_versioned_filename (def_name d) (bi_snapshot_sequence ix)
      in io_then (write_rename S (tpath (def_table d) rel) (json_pretty X (btree_index_value ix)))
         (io_then (save_siblings X S local rel ix)
         (io_then (st_sync S (index_dir (def_table d) (def_name d))) (io_return rel))))"

section \<open>Loading\<close>

definition load_learned_model ::
  "ext \<Rightarrow> 's storage \<Rightarrow> string \<Rightarrow> string \<Rightarrow> ('s, (index_definition \<times> learned_key_model) option) io" where
  "load_learned_model X S table json_rel =
     (case strip_suffix json_rel ''.json'' of
        None \<Rightarrow> io_return None
      | Some stem \<Rightarrow>
          io_bind (io_try (st_read S (tpath table (stem @ ''.model'')))) (\<lambda>r.
            case r of
              Inr bs \<Rightarrow> io_return (Option.bind (json_parse X bs) de_learned_index_file)
            | Inl e \<Rightarrow> if is_not_found e then io_return None else io_throw e))"

text \<open>The file is mapped only when it validates; the mapping is its bytes.\<close>

definition open_mmap_binary_index ::
  "ext \<Rightarrow> 's storage \<Rightarrow> string \<Rightarrow> string \<Rightarrow> ('s, bytes option) io" where
  "open_mmap_binary_index X S table base_rel =
     (case strip_suffix base_rel ''.json'' of
        None \<Rightarrow> io_return None
      | Some stem \<Rightarrow>
          io_bind (io_try (st_read S (tpath table (stem @ ''.idx'')))) (\<lambda>r.
            case r of
              Inr bs \<Rightarrow> io_return (case br_parse X bs of Some _ \<Rightarrow> Some bs | None \<Rightarrow> None)
            | Inl _ \<Rightarrow> io_return None))"

text \<open>The obsolete form of an index file: entries that are arrays with a string in them.\<close>

definition is_legacy_string_index :: "ext \<Rightarrow> bytes \<Rightarrow> bool" where
  "is_legacy_string_index X data =
     (case Option.bind (json_parse X data) (jfield ''entries'') of
        Some (JObj entries) \<Rightarrow>
          list_ex (\<lambda>(_, l). case l of JArr items \<Rightarrow> list_ex (\<lambda>v. case v of JStr _ \<Rightarrow> True | _ \<Rightarrow> False) items
                                   | _ \<Rightarrow> False) entries
      | _ \<Rightarrow> False)"

definition parse_index :: "ext \<Rightarrow> bytes \<Rightarrow> btree_index option" where
  "parse_index X data = Option.bind (json_parse X data) de_btree_index"

definition parse_delta :: "ext \<Rightarrow> bytes \<Rightarrow> tombstone_delta option" where
  "parse_delta X data = Option.bind (json_parse X data) de_tombstone_delta"

definition load_index :: "ext \<Rightarrow> 's storage \<Rightarrow> string \<Rightarrow> string \<Rightarrow> ('s, btree_index option) io" where
  "load_index X S table name =
     (let file = (if ends_with name ''.json'' then name else name @ ''.json'')
      in io_bind (io_try (st_read S (tpath table (INDEXES_DIR @ ''/'' @ file)))) (\<lambda>r.
           case r of
             Inr data \<Rightarrow>
               (case parse_index X data of
                  Some ix \<Rightarrow> io_return (Some ix)
                | None \<Rightarrow> if is_legacy_string_index X data then io_throw (LegacyIndex table file)
                          else io_throw Serialization)
           | Inl e \<Rightarrow> if is_not_found e then io_return None else io_throw e))"

text \<open>One delta file: a missing file is skipped.\<close>

definition read_delta :: "ext \<Rightarrow> 's storage \<Rightarrow> string \<Rightarrow> string \<Rightarrow> ('s, tombstone_delta option) io" where
  "read_delta X S table rel =
     io_bind (io_try (st_read S (tpath table rel))) (\<lambda>r.
       case r of
         Inr data \<Rightarrow> io_lift (map_sum id Some (ok_or (parse_delta X data) Serialization))
       | Inl e \<Rightarrow> if is_not_found e then io_return None else io_throw e)"

definition apply_deltas :: "ext \<Rightarrow> 's storage \<Rightarrow> string \<Rightarrow> index_ref \<Rightarrow> btree_index \<Rightarrow> ('s, btree_index) io" where
  "apply_deltas X S table ref ix =
     io_foldM (\<lambda>ix rel. io_bind (read_delta X S table rel) (\<lambda>d.
         io_return (case d of Some d \<Rightarrow> apply_delta d ix | None \<Rightarrow> ix))) ix (ix_deltas ref)"

definition load_index_by_ref ::
  "ext \<Rightarrow> 's storage \<Rightarrow> string \<Rightarrow> string \<Rightarrow> index_ref \<Rightarrow> ('s, btree_index option) io" where
  "load_index_by_ref X S table name ref =
     io_bind (case ix_base ref of
         Some base \<Rightarrow>
           io_bind (io_try (st_read S (tpath table base))) (\<lambda>r.
             case r of
               Inr data \<Rightarrow> io_lift (map_sum id Some (ok_or (parse_index X data) Serialization))
             | Inl e \<Rightarrow> if is_not_found e then io_return None else io_throw e)
       | None \<Rightarrow> io_return None) (\<lambda>versioned.
     io_bind (if versioned = None then load_index X S table name else io_return versioned) (\<lambda>ix.
       case ix of
         Some i \<Rightarrow> if ix_deltas ref = [] then io_return (Some i)
                   else io_bind (apply_deltas X S table ref i) (\<lambda>i'. io_return (Some i'))
       | None \<Rightarrow> io_return None))"

definition load_index_overlay ::
  "ext \<Rightarrow> 's storage \<Rightarrow> string \<Rightarrow> index_ref \<Rightarrow> ('s, index_delta_overlay) io" where
  "load_index_overlay X S table ref =
     io_foldM (\<lambda>ov rel. io_bind (read_delta X S table rel) (\<lambda>d.
         io_return (case d of Some d \<Rightarrow> ov_replay ov d | None \<Rightarrow> ov))) ov_default (ix_deltas ref)"

definition list_index_names :: "'s storage \<Rightarrow> string \<Rightarrow> ('s, string list) io" where
  "list_index_names S table =
     io_bind (io_try (st_list S (tpath table INDEXES_DIR))) (\<lambda>r.
       case r of
         Inr entries \<Rightarrow>
           io_return (List.map_filter (\<lambda>e. Option.bind (file_name e) (\<lambda>f. strip_suffix f ''.json'')) entries)
       | Inl e \<Rightarrow> if is_not_found e then io_return [] else io_throw e)"

section \<open>Writing deltas\<close>

text \<open>A failing sync of a directory that is not there yet is ignored.\<close>

definition ensure_dir :: "'s storage \<Rightarrow> string \<Rightarrow> ('s, unit) io" where
  "ensure_dir S dir =
     io_bind (io_try (st_sync S dir)) (\<lambda>r.
       case r of Inr _ \<Rightarrow> io_return () | Inl e \<Rightarrow> if is_not_found e then io_return () else io_throw e)"

definition append_tombstones ::
  "ext \<Rightarrow> 's storage \<Rightarrow> string \<Rightarrow> string \<Rightarrow> u64 list \<Rightarrow> u64 \<Rightarrow> index_ref \<Rightarrow> bool \<Rightarrow> ('s, index_ref) io" where
  "append_tombstones X S table name row_ids seq ref sync_durable =
     (let rel = td_versioned_filename name seq; path = tpath table rel; tmp = path @ ''.tmp'';
          dir = index_dir table name;
          data = json_pretty X (tombstone_delta_value \<lparr>td_tombstoned = row_ids, td_adds = []\<rparr>)
      in io_then (ensure_dir S dir)
         (io_then (st_write S tmp data)
         (io_then (if sync_durable then st_sync S tmp else io_return ())
         (io_then (st_rename S tmp path)
         (io_then (if sync_durable then st_sync S dir else io_return ())
           (io_return (ref\<lparr>ix_deltas := ix_deltas ref @ [rel]\<rparr>)))))))"

definition append_index_delta ::
  "ext \<Rightarrow> 's storage \<Rightarrow> string \<Rightarrow> string \<Rightarrow> u64 list \<Rightarrow> (string \<times> u64) list \<Rightarrow> u64 \<Rightarrow> index_ref \<Rightarrow>
   ('s, index_ref \<times> string) io" where
  "append_index_delta X S table name row_ids adds seq ref =
     (let rel = td_versioned_filename name seq; dir = index_dir table name;
          data = json_pretty X (tombstone_delta_value \<lparr>td_tombstoned = row_ids, td_adds = adds\<rparr>)
      in io_then (ensure_dir S dir)
         (io_then (write_rename S (tpath table rel) data)
         (io_then (st_sync S dir)
           (io_return (ref\<lparr>ix_deltas := ix_deltas ref @ [rel]\<rparr>, rel)))))"

section \<open>The entries of a table's rows\<close>

text \<open>
  One batch: the rows from \<open>i\<close> on, with \<open>base\<close> the physical offset of the first row of the batch.
\<close>

fun batch_adds ::
  "(u32 \<Rightarrow> bool) \<Rightarrow> u64 list \<Rightarrow> u32 \<Rightarrow> arrow_array \<Rightarrow> nat list \<Rightarrow> (string \<times> u64) list result" where
  "batch_adds dead ids base a [] = Inr []"
| "batch_adds dead ids base a (i # is) =
     (let off = base + of_nat i
      in if dead off then batch_adds dead ids base a is
         else res_bind (aa_is_null a i) (\<lambda>null.
           if null then batch_adds dead ids base a is
           else if unat off < length ids
           then res_bind (scalar_to_key a i) (\<lambda>key.
                res_bind (batch_adds dead ids base a is) (\<lambda>rest. Inr ((key, ids ! unat off) # rest)))
           else Inl (Other ''physical offset out of range for row_id_vec'')))"

fun column_adds ::
  "(u32 \<Rightarrow> bool) \<Rightarrow> u64 list \<Rightarrow> u32 \<Rightarrow> arrow_array option list \<Rightarrow> (string \<times> u64) list result" where
  "column_adds dead ids base [] = Inr []"
| "column_adds dead ids base (None # bs) = Inl (Other ''batch'')"
| "column_adds dead ids base (Some a # bs) =
     res_bind (batch_adds dead ids base a [0..<values_len (aa_values a)]) (\<lambda>xs.
     res_bind (column_adds dead ids (base + of_nat (values_len (aa_values a))) bs) (\<lambda>ys. Inr (xs @ ys)))"

definition collect_fragment_adds ::
  "ext \<Rightarrow> 'bm roaring \<Rightarrow> parquet_reader \<Rightarrow> 's storage \<Rightarrow> index_definition \<Rightarrow> row_group_entry \<Rightarrow>
   ('s, (string \<times> u64) list) io" where
  "collect_fragment_adds X R PQ S d rg =
     io_bind (case rg_deletes rg of
         Some del \<Rightarrow>
           io_bind (io_try (st_read S (tpath (def_table d) del))) (\<lambda>r.
             case r of
               Inr bs \<Rightarrow> io_lift (dv_deserialize R bs)
             | Inl e \<Rightarrow> if is_not_found e then io_return (dv_default R) else io_throw e)
       | None \<Rightarrow> io_return (dv_default R)) (\<lambda>dv.
     io_bind (st_read S (tpath (def_table d) (rg_meta rg))) (\<lambda>meta_bytes.
     io_bind (io_lift (ok_or (parse_row_group_meta X meta_bytes) Serialization)) (\<lambda>meta.
       if rm_row_ids meta = [] then io_return []
       else
         io_bind (st_read S (tpath (def_table d) (rg_data rg))) (\<lambda>data.
         io_bind (io_lift (ok_or (PQ data) (Other ''parquet''))) (\<lambda>columns.
         io_bind (io_lift (ok_or (columns (def_column d)) (Other ''column not found''))) (\<lambda>batches.
           io_lift (column_adds (dv_contains R dv) (flat_ids (rm_row_ids meta)) 0 batches)))))))"

definition collect_index_adds_for_fragments ::
  "ext \<Rightarrow> 'bm roaring \<Rightarrow> parquet_reader \<Rightarrow> 's storage \<Rightarrow> index_definition \<Rightarrow> row_group_entry list \<Rightarrow>
   ('s, (string \<times> u64) list) io" where
  "collect_index_adds_for_fragments X R PQ S d fragments =
     io_foldM (\<lambda>adds rg. io_bind (collect_fragment_adds X R PQ S d rg) (\<lambda>more. io_return (adds @ more))) [] fragments"

definition build_btree_index ::
  "ext \<Rightarrow> 'bm roaring \<Rightarrow> parquet_reader \<Rightarrow> 's storage \<Rightarrow> index_definition \<Rightarrow> manifest \<Rightarrow> ('s, btree_index) io" where
  "build_btree_index X R PQ S d m =
     io_bind (collect_index_adds_for_fragments X R PQ S d (mf_row_groups m)) (\<lambda>adds.
       io_lift (build_btree_index_from_adds d (mf_sequence m) adds))"

section \<open>Live addresses\<close>

text \<open>
  \<open>cache\<close> holds what the callback returned for the fragments met so far; the callback, whose
  results may change from call to call, is asked once for each.
\<close>

fun resolve_live_addresses ::
  "'bm roaring \<Rightarrow> address_map \<Rightarrow> ('c \<Rightarrow> u64 \<Rightarrow> 'bm option \<times> 'c) \<Rightarrow> 'c \<Rightarrow> (u64 \<Rightarrow> 'bm option option) \<Rightarrow> u64 list \<Rightarrow>
   (u64 \<times> u32) list" where
  "resolve_live_addresses R am get c cache [] = []"
| "resolve_live_addresses R am get c cache (row_id # rest) =
     (case am_lookup am row_id of
        None \<Rightarrow> resolve_live_addresses R am get c cache rest
      | Some (frag, off) \<Rightarrow>
          (let (dv, c', cache') = (case cache frag of
                 Some dv \<Rightarrow> (dv, c, cache)
               | None \<Rightarrow> (case get c frag of (dv, c') \<Rightarrow> (dv, c', cache(frag \<mapsto> dv))))
           in if (case dv of Some d \<Rightarrow> dv_contains R d off | None \<Rightarrow> False)
              then resolve_live_addresses R am get c' cache' rest
              else (frag, off) # resolve_live_addresses R am get c' cache' rest))"

definition load_dvs ::
  "'bm roaring \<Rightarrow> 's storage \<Rightarrow> string \<Rightarrow> row_group_entry list \<Rightarrow> ('s, u64 \<Rightarrow> 'bm option) io" where
  "load_dvs R S table rgs =
     io_foldM (\<lambda>dvs rg. case rg_deletes rg of
         None \<Rightarrow> io_return dvs
       | Some del \<Rightarrow>
           io_bind (io_try (st_read S (tpath table del))) (\<lambda>r.
             case r of
               Inr bs \<Rightarrow> io_bind (io_lift (dv_deserialize R bs)) (\<lambda>dv. io_return (dvs(rg_fragment_id rg \<mapsto> dv)))
             | Inl e \<Rightarrow> if is_not_found e then io_return dvs else io_throw e)) Map.empty rgs"

text \<open>The callback moves the vector out of the map: \<^verbatim>\<open>dv_map.remove(&frag_id)\<close>.\<close>

definition take_out :: "(u64 \<Rightarrow> 'bm option) \<Rightarrow> u64 \<Rightarrow> 'bm option \<times> (u64 \<Rightarrow> 'bm option)" where
  "take_out dvs f = (dvs f, dvs(f := None))"

definition resolve_live_addresses_storage ::
  "'bm roaring \<Rightarrow> 's storage \<Rightarrow> string \<Rightarrow> manifest \<Rightarrow> u64 list \<Rightarrow> ('s, (u64 \<times> u32) list) io" where
  "resolve_live_addresses_storage R S table m row_ids =
     (case mf_rowindex_generation m of
        None \<Rightarrow> io_return []
      | Some gen \<Rightarrow>
          io_bind (am_open S table gen) (\<lambda>am.
          io_bind (load_dvs R S table (mf_row_groups m)) (\<lambda>dvs.
            io_return (resolve_live_addresses R am take_out dvs Map.empty row_ids))))"

section \<open>Maintenance at a commit\<close>

text \<open>The indexes of a table, in the order of the catalog.\<close>

definition table_indexes :: "string \<Rightarrow> catalog_data \<Rightarrow> (string \<times> index_entry) list" where
  "table_indexes table d = filter (\<lambda>(_, e). ie_table e = table \<and> ie_index_type e = ''btree'') (dc_indexes d)"

definition entry_definition :: "string \<Rightarrow> index_entry \<Rightarrow> index_definition" where
  "entry_definition name e =
     \<lparr>def_name = name, def_table = ie_table e, def_column = ie_column e, def_unique = ie_unique e\<rparr>"

definition set_generation :: "string \<Rightarrow> index_ref \<Rightarrow> manifest \<Rightarrow> manifest" where
  "set_generation name ref m = m\<lparr>mf_index_generations := AList.update name ref (mf_index_generations m)\<rparr>"

text \<open>A full build saved as a new base.\<close>

definition rebuild_index ::
  "ext \<Rightarrow> 'bm roaring \<Rightarrow> parquet_reader \<Rightarrow> 's storage \<Rightarrow> bool \<Rightarrow> index_definition \<Rightarrow>
   manifest \<times> string list \<Rightarrow> ('s, manifest \<times> string list) io" where
  "rebuild_index X R PQ S local d = (\<lambda>(m, written).
     io_bind (build_btree_index X R PQ S d m) (\<lambda>ix.
     io_bind (bi_save_versioned X S local ix) (\<lambda>rel.
       io_return (set_generation (def_name d) \<lparr>ix_base = Some rel, ix_deltas = []\<rparr> m, written @ [rel]))))"

definition maintain ::
  "ext \<Rightarrow> 'bm roaring \<Rightarrow> parquet_reader \<Rightarrow> 's storage \<Rightarrow> bool \<Rightarrow> string \<Rightarrow> manifest \<Rightarrow>
   ('s, manifest \<times> string list) io" where
  "maintain X R PQ S local table m =
     io_bind (dc_load X S) (\<lambda>data.
       io_foldM (\<lambda>acc (name, e). rebuild_index X R PQ S local (entry_definition name e) acc) (m, [])
         (table_indexes table data))"

text \<open>The guard of a unique index, closed when the current generation cannot be loaded.\<close>

definition guard_unique ::
  "ext \<Rightarrow> 's storage \<Rightarrow> string \<Rightarrow> index_definition \<Rightarrow> index_ref \<Rightarrow> (string \<times> u64) list \<Rightarrow> u64 list \<Rightarrow>
   ('s, unit) io" where
  "guard_unique X S table d ref adds row_ids =
     (if def_unique d \<and> adds \<noteq> [] then
        io_bind (load_index_by_ref X S table (def_name d) ref) (\<lambda>existing.
          case existing of
            Some ix \<Rightarrow> io_lift (check_unique_adds d ix adds row_ids)
          | None \<Rightarrow> io_throw (Other ''unique index has no loadable base; cannot verify uniqueness''))
      else io_return ())"

definition delta_step ::
  "ext \<Rightarrow> 's storage \<Rightarrow> string \<Rightarrow> u64 \<Rightarrow> index_definition \<Rightarrow> index_ref \<Rightarrow> (string \<times> u64) list \<Rightarrow> u64 list \<Rightarrow>
   manifest \<times> string list \<Rightarrow> ('s, manifest \<times> string list) io" where
  "delta_step X S table seq d ref adds row_ids = (\<lambda>(m, written).
     io_then (guard_unique X S table d ref adds row_ids)
       (io_bind (append_index_delta X S table (def_name d) row_ids adds seq ref) (\<lambda>(new_ref, rel).
         io_return (set_generation (def_name d) new_ref m, written @ [rel]))))"

text \<open>The new keys of the updated rows; an unsupported type is skipped, a row out of range panics.\<close>

fun update_adds :: "arrow_array \<Rightarrow> (nat \<times> u64) list \<Rightarrow> (string \<times> u64) list result" where
  "update_adds a [] = Inr []"
| "update_adds a ((k, row_id) # rest) =
     res_bind (aa_is_null a k) (\<lambda>null.
       if null then update_adds a rest
       else (case scalar_to_key a k of
               Inr key \<Rightarrow> res_bind (update_adds a rest) (\<lambda>adds. Inr ((key, row_id) # adds))
             | Inl e \<Rightarrow> if e = Panic then Inl Panic else update_adds a rest))"

definition update_index_step ::
  "ext \<Rightarrow> 's storage \<Rightarrow> string \<Rightarrow> string list \<Rightarrow> (string \<Rightarrow> arrow_array option) \<Rightarrow> u64 list \<Rightarrow> u64 \<Rightarrow>
   manifest \<times> string list \<Rightarrow> string \<times> index_entry \<Rightarrow> ('s, manifest \<times> string list) io" where
  "update_index_step X S table set_columns updated_rows row_ids seq = (\<lambda>(m, written) (name, e).
     if ie_column e \<notin> set set_columns then io_return (m, written)
     else (case updated_rows (ie_column e) of
             None \<Rightarrow> io_return (m, written)
           | Some a \<Rightarrow>
               io_bind (io_lift (update_adds a (enumerate 0 row_ids))) (\<lambda>adds.
                 delta_step X S table seq (entry_definition name e)
                   (case map_of (mf_index_generations m) name of
                      Some r \<Rightarrow> r | None \<Rightarrow> \<lparr>ix_base = None, ix_deltas = []\<rparr>)
                   adds row_ids (m, written))))"

definition maintain_on_update ::
  "ext \<Rightarrow> 's storage \<Rightarrow> string \<Rightarrow> manifest \<Rightarrow> string list \<Rightarrow> (string \<Rightarrow> arrow_array option) \<Rightarrow> u64 list \<Rightarrow> u64 \<Rightarrow>
   ('s, manifest \<times> string list) io" where
  "maintain_on_update X S table m set_columns updated_rows row_ids seq =
     (if set_columns = [] then io_return (m, [])
      else
        io_bind (dc_load X S) (\<lambda>data.
          io_foldM (update_index_step X S table set_columns updated_rows row_ids seq) (m, [])
            (table_indexes table data)))"

definition current_generation ::
  "'s storage \<Rightarrow> string \<Rightarrow> (string \<times> index_ref) list \<Rightarrow> string \<Rightarrow> ('s, index_ref option) io" where
  "current_generation S table generations name =
     (case map_of generations name of
        Some r \<Rightarrow> io_return (Some r)
      | None \<Rightarrow>
          io_bind (io_try (st_size S (tpath table (bi_legacy_filename name)))) (\<lambda>r.
            io_return (case r of
                Inr _ \<Rightarrow> Some \<lparr>ix_base = Some (bi_legacy_filename name), ix_deltas = []\<rparr>
              | Inl _ \<Rightarrow> None)))"

definition maintain_on_insert ::
  "ext \<Rightarrow> 'bm roaring \<Rightarrow> parquet_reader \<Rightarrow> 's storage \<Rightarrow> bool \<Rightarrow> string \<Rightarrow> manifest \<Rightarrow>
   (string \<times> index_ref) list \<Rightarrow> row_group_entry list \<Rightarrow> u64 \<Rightarrow> ('s, manifest \<times> string list) io" where
  "maintain_on_insert X R PQ S local table m generations new_fragments seq =
     io_bind (dc_load X S) (\<lambda>data.
       io_foldM (\<lambda>acc (name, e).
         let d = entry_definition name e
         in io_bind (current_generation S table generations name) (\<lambda>cur.
              case (case cur of Some r \<Rightarrow> if ix_base r \<noteq> None then Some r else None | None \<Rightarrow> None) of
                None \<Rightarrow> rebuild_index X R PQ S local d acc
              | Some ref \<Rightarrow>
                  io_bind (collect_index_adds_for_fragments X R PQ S d new_fragments) (\<lambda>adds.
                    delta_step X S table seq d ref adds [] acc)))
         (m, []) (table_indexes table data))"

section \<open>Reading a generation\<close>

text \<open>The deltas and the base of a generation, as functions of the store's contents.\<close>

definition delta_of :: "ext \<Rightarrow> (string \<Rightarrow> bytes option) \<Rightarrow> string \<Rightarrow> string \<Rightarrow> tombstone_delta option result" where
  "delta_of X v table rel =
     (case vread v (tpath table rel) of
        Inr data \<Rightarrow> map_sum id Some (ok_or (parse_delta X data) Serialization)
      | Inl e \<Rightarrow> if is_not_found e then Inr None else Inl e)"

fun deltas_of :: "ext \<Rightarrow> (string \<Rightarrow> bytes option) \<Rightarrow> string \<Rightarrow> string list \<Rightarrow> tombstone_delta list result" where
  "deltas_of X v table [] = Inr []"
| "deltas_of X v table (rel # rels) =
     res_bind (delta_of X v table rel) (\<lambda>d.
     res_bind (deltas_of X v table rels) (\<lambda>ds. Inr (case d of Some d \<Rightarrow> d # ds | None \<Rightarrow> ds)))"

definition legacy_of :: "ext \<Rightarrow> (string \<Rightarrow> bytes option) \<Rightarrow> string \<Rightarrow> string \<Rightarrow> btree_index option result" where
  "legacy_of X v table name =
     (let file = (if ends_with name ''.json'' then name else name @ ''.json'')
      in case vread v (tpath table (INDEXES_DIR @ ''/'' @ file)) of
           Inr data \<Rightarrow>
             (case parse_index X data of
                Some ix \<Rightarrow> Inr (Some ix)
              | None \<Rightarrow> Inl (if is_legacy_string_index X data then LegacyIndex table file else Serialization))
         | Inl e \<Rightarrow> if is_not_found e then Inr None else Inl e)"

definition base_of :: "ext \<Rightarrow> (string \<Rightarrow> bytes option) \<Rightarrow> string \<Rightarrow> string \<Rightarrow> index_ref \<Rightarrow> btree_index option result" where
  "base_of X v table name ref =
     res_bind (case ix_base ref of
         None \<Rightarrow> Inr None
       | Some base \<Rightarrow>
           (case vread v (tpath table base) of
              Inr data \<Rightarrow> map_sum id Some (ok_or (parse_index X data) Serialization)
            | Inl e \<Rightarrow> if is_not_found e then Inr None else Inl e)) (\<lambda>b.
       if b = None then legacy_of X v table name else Inr b)"

definition index_of_ref :: "ext \<Rightarrow> (string \<Rightarrow> bytes option) \<Rightarrow> string \<Rightarrow> string \<Rightarrow> index_ref \<Rightarrow> btree_index option result" where
  "index_of_ref X v table name ref =
     res_bind (base_of X v table name ref) (\<lambda>b.
       case b of
         None \<Rightarrow> Inr None
       | Some ix \<Rightarrow> map_sum id (\<lambda>ds. Some (fold apply_delta ds ix)) (deltas_of X v table (ix_deltas ref)))"

lemma parse_index_wf: "parse_index X data = Some ix \<Longrightarrow> bt_wf (bi_entries ix)"
  by (auto simp: parse_index_def de_btree_index_def de_req_def de_btree_def bind_eq_Some_conv)

lemma map_sum_Inr: "map_sum id f x = Inr y \<longleftrightarrow> (\<exists>z. x = Inr z \<and> y = f z)"
  by (cases x) auto

lemma base_of_wf: "base_of X v table name ref = Inr (Some ix) \<Longrightarrow> bt_wf (bi_entries ix)"
  by (auto simp: base_of_def legacy_of_def Let_def res_bind_eq_Inr map_sum_Inr
      split: option.splits sum.splits if_splits dest: parse_index_wf)

lemma index_of_ref_wf: "index_of_ref X v table name ref = Inr (Some ix) \<Longrightarrow> bt_wf (bi_entries ix)"
  using overlay_agrees base_of_wf
  by (auto simp: index_of_ref_def res_bind_eq_Inr map_sum_Inr split: option.splits)

context storage_contract
begin

lemma read_delta_run: "read_delta X S table rel s = (delta_of X (view s) table rel, s)"
  by (auto simp: read_delta_def delta_of_def io_simps st_read_vread split: sum.splits)

lemma apply_deltas_run:
  "apply_deltas X S table ref ix s
     = (map_sum id (\<lambda>ds. fold apply_delta ds ix) (deltas_of X (view s) table (ix_deltas ref)), s)"
proof -
  have "io_foldM (\<lambda>ix rel. io_bind (read_delta X S table rel) (\<lambda>d.
         io_return (case d of Some d \<Rightarrow> apply_delta d ix | None \<Rightarrow> ix))) ix rels s
     = (map_sum id (\<lambda>ds. fold apply_delta ds ix) (deltas_of X (view s) table rels), s)" for rels
    by (induction rels arbitrary: ix)
      (auto simp: io_simps read_delta_run res_bind_def split: sum.splits option.splits)
  then show ?thesis by (simp add: apply_deltas_def)
qed

lemma load_index_overlay_run:
  "load_index_overlay X S table ref s
     = (map_sum id (foldl ov_replay ov_default) (deltas_of X (view s) table (ix_deltas ref)), s)"
proof -
  have "io_foldM (\<lambda>ov rel. io_bind (read_delta X S table rel) (\<lambda>d.
         io_return (case d of Some d \<Rightarrow> ov_replay ov d | None \<Rightarrow> ov))) ov rels s
     = (map_sum id (foldl ov_replay ov) (deltas_of X (view s) table rels), s)" for ov rels
    by (induction rels arbitrary: ov)
      (auto simp: io_simps read_delta_run res_bind_def split: sum.splits option.splits)
  then show ?thesis by (simp add: load_index_overlay_def)
qed

lemma load_index_run: "load_index X S table name s = (legacy_of X (view s) table name, s)"
  by (auto simp: load_index_def legacy_of_def Let_def io_simps st_read_vread split: sum.splits option.splits)

lemma load_index_by_ref_run:
  "load_index_by_ref X S table name ref s = (index_of_ref X (view s) table name ref, s)"
  by (cases "deltas_of X (view s) table (ix_deltas ref)")
    (auto simp: load_index_by_ref_def index_of_ref_def base_of_def io_simps st_read_vread load_index_run
      apply_deltas_run res_bind_def split: sum.splits option.splits if_splits)

end

text \<open>The two ways to read a generation give the same row ids.\<close>

lemma overlay_of_ref:
  assumes "base_of X v table name ref = Inr (Some b)" "index_of_ref X v table name ref = Inr (Some ix)"
  obtains ds where "deltas_of X v table (ix_deltas ref) = Inr ds"
    "\<And>k. bi_lookup ix k = ov_merge (foldl ov_replay ov_default ds) k (bi_lookup b k)"
proof -
  obtain ds where ds: "deltas_of X v table (ix_deltas ref) = Inr ds" "ix = fold apply_delta ds b"
    using assms by (auto simp: index_of_ref_def map_sum_Inr)
  then show ?thesis using that overlay_agrees [OF base_of_wf [OF assms(1)]] by blast
qed

section \<open>Index paths\<close>

definition index_file :: "string \<Rightarrow> string \<Rightarrow> string \<Rightarrow> string" where
  "index_file table name f = tpath table (INDEXES_DIR @ ''/'' @ name @ ''/'' @ f)"

lemma index_file_join: "index_file table name f = tpath table (join_path [INDEXES_DIR, name, f])"
  by (simp add: index_file_def join_path_def)

lemma validate_index_file:
  assumes "plain_piece table" "plain_piece name" "plain_piece f"
  shows "validate_path (index_file table name f) = Inr (index_file table name f)"
  unfolding index_file_join using assms
  by (intro validate_tpath) (auto simp: INDEXES_DIR_def plain_piece_def)

lemma index_file_inj:
  assumes "plain_piece name" "plain_piece name'"
  shows "index_file table name f = index_file table name' f' \<longleftrightarrow> name = name' \<and> f = f'"
proof -
  have "name = name' \<and> f = f'" if eq: "name @ CHR ''/'' # f = name' @ CHR ''/'' # f'"
  proof -
    have "CHR ''/'' \<notin> set name" "CHR ''/'' \<notin> set name'" using assms by (simp_all add: plain_piece_def)
    then show ?thesis using eq append_eq_append_conv2 [of name "CHR ''/'' # f" name' "CHR ''/'' # f'"]
      by (auto simp: append_eq_Cons_conv Cons_eq_append_conv)
  qed
  then show ?thesis by (auto simp: index_file_def)
qed

lemma plain_seq_file:
  assumes "CHR ''/'' \<notin> set a" "CHR ''/'' \<notin> set b" "2 < length a + length b"
  shows "plain_piece (a @ seq9 seq @ b)"
proof -
  have "CHR ''/'' \<notin> set (seq9 seq)" using digits_pad_zeros digit_char_neq(2) by metis
  moreover have "x \<noteq> [] \<and> x \<noteq> ''.'' \<and> x \<noteq> ''..''" if "2 < length x" for x :: string using that by auto
  then have "a @ seq9 seq @ b \<noteq> [] \<and> a @ seq9 seq @ b \<noteq> ''.'' \<and> a @ seq9 seq @ b \<noteq> ''..''"
    using assms(3) by simp
  ultimately show ?thesis using assms by (simp add: plain_piece_def)
qed

definition base_file :: "u64 \<Rightarrow> string \<Rightarrow> string" where
  "base_file seq suffix = ''base__v'' @ seq9 seq @ suffix"

definition delta_file :: "u64 \<Rightarrow> string \<Rightarrow> string" where
  "delta_file seq suffix = ''delta__v'' @ seq9 seq @ suffix"

lemma versioned_files [simp]:
  "base_file seq a = base_file seq b \<longleftrightarrow> a = b" "delta_file seq a = delta_file seq b \<longleftrightarrow> a = b"
  "base_file seq a \<noteq> delta_file seq' b" "delta_file seq' b \<noteq> base_file seq a"
  "base_file seq a @ b = base_file seq (a @ b)" "delta_file seq a @ b = delta_file seq (a @ b)"
  by (simp_all add: base_file_def delta_file_def)

lemma plain_versioned:
  "CHR ''/'' \<notin> set a \<Longrightarrow> plain_piece (base_file seq a)" "CHR ''/'' \<notin> set a \<Longrightarrow> plain_piece (delta_file seq a)"
  unfolding base_file_def delta_file_def by (intro plain_seq_file; simp)+

lemma versioned_paths:
  "tpath table (bi_versioned_filename name seq) = index_file table name (base_file seq ''.json'')"
  "tpath table (td_versioned_filename name seq) = index_file table name (delta_file seq ''.json'')"
  "index_file table name f @ g = index_file table name (f @ g)"
  by (simp_all add: bi_versioned_filename_def td_versioned_filename_def index_file_def tpath_def
      base_file_def delta_file_def)

section \<open>Appending a delta\<close>

text \<open>The files a generation is read from.\<close>

definition ref_files :: "string \<Rightarrow> string \<Rightarrow> index_ref \<Rightarrow> string set" where
  "ref_files table name ref =
     tpath table ` (set_option (ix_base ref) \<union> set (ix_deltas ref)
        \<union> {INDEXES_DIR @ ''/'' @ (if ends_with name ''.json'' then name else name @ ''.json'')})"

lemma deltas_of_cong:
  "(\<And>rel. rel \<in> set rels \<Longrightarrow> vread v (tpath table rel) = vread v' (tpath table rel)) \<Longrightarrow>
   deltas_of X v table rels = deltas_of X v' table rels"
  by (induction rels) (auto simp: delta_of_def res_bind_def split: sum.splits)

lemma index_of_ref_cong:
  assumes "\<And>raw. raw \<in> ref_files table name ref \<Longrightarrow> vread v raw = vread v' raw"
  shows "index_of_ref X v table name ref = index_of_ref X v' table name ref"
proof -
  have ds: "deltas_of X v table (ix_deltas ref) = deltas_of X v' table (ix_deltas ref)"
    by (intro deltas_of_cong assms) (auto simp: ref_files_def)
  have legacy: "legacy_of X v table name = legacy_of X v' table name"
    using assms by (auto simp: legacy_of_def ref_files_def Let_def)
  have "vread v (tpath table b) = vread v' (tpath table b)" if "ix_base ref = Some b" for b
    using assms that by (auto simp: ref_files_def)
  then show ?thesis unfolding index_of_ref_def base_of_def ds legacy by (auto split: option.split)
qed

lemma deltas_of_append:
  "deltas_of X v table (rels @ rels')
     = res_bind (deltas_of X v table rels) (\<lambda>ds. map_sum id ((@) ds) (deltas_of X v table rels'))"
proof (induction rels)
  case (Cons rel rels)
  then show ?case
    by (cases "deltas_of X v table rels'") (auto simp: res_bind_def split: sum.splits option.splits)
qed (cases "deltas_of X v table rels'"; simp)

lemma index_of_ref_snoc:
  assumes "delta_of X v table rel = Inr (Some d)"
  shows "index_of_ref X v table name (ref\<lparr>ix_deltas := ix_deltas ref @ [rel]\<rparr>)
    = map_sum id (map_option (apply_delta d)) (index_of_ref X v table name ref)"
  using assms
  by (auto simp: index_of_ref_def base_of_def deltas_of_append res_bind_def split: sum.splits option.splits)

text \<open>A delta is written at a path that no generation reads yet.\<close>

abbreviation delta_paths :: "string \<Rightarrow> string \<Rightarrow> u64 \<Rightarrow> string set" where
  "delta_paths table name seq \<equiv>
     {index_file table name (delta_file seq ''.json''), index_file table name (delta_file seq ''.json.tmp'')}"

lemma validate_delta_paths:
  assumes "plain_piece table" "plain_piece name"
  shows "validate_path (index_file table name (delta_file seq ''.json'')) = Inr (index_file table name (delta_file seq ''.json''))"
    "validate_path (index_file table name (delta_file seq ''.json.tmp'')) = Inr (index_file table name (delta_file seq ''.json.tmp''))"
  by (intro validate_index_file assms plain_versioned; simp)+

lemma vread_cong_valid:
  "(\<And>p. p \<in> W \<Longrightarrow> validate_path raw \<noteq> Inr p) \<Longrightarrow> (\<And>p. p \<notin> W \<Longrightarrow> v' p = v p) \<Longrightarrow> vread v' raw = vread v raw"
  by (intro vread_cong) blast

definition add_delta :: "string \<Rightarrow> u64 \<Rightarrow> index_ref \<Rightarrow> index_ref" where
  "add_delta name seq ref = ref\<lparr>ix_deltas := ix_deltas ref @ [td_versioned_filename name seq]\<rparr>"

context storage_contract
begin

lemma append_index_delta_run:
  assumes "json_law X" "plain_piece table" "plain_piece name"
  obtains s' where
    "append_index_delta X S table name row_ids adds seq ref s
       = (Inr (ref\<lparr>ix_deltas := ix_deltas ref @ [td_versioned_filename name seq]\<rparr>, td_versioned_filename name seq), s')"
    "delta_of X (view s') table (td_versioned_filename name seq) = Inr (Some \<lparr>td_tombstoned = row_ids, td_adds = adds\<rparr>)"
    "\<And>p. p \<notin> delta_paths table name seq \<Longrightarrow> view s' p = view s p"
proof -
  let ?p = "index_file table name (delta_file seq ''.json'')"
  let ?d = "\<lparr>td_tombstoned = row_ids, td_adds = adds\<rparr>"
  have v: "validate_path ?p = Inr ?p" "validate_path (?p @ ''.tmp'') = Inr (?p @ ''.tmp'')"
    using validate_delta_paths [OF assms(2,3)] by (simp_all add: versioned_paths)
  obtain s' where s': "write_rename S ?p (json_pretty X (tombstone_delta_value ?d)) s = (Inr (), s')"
    "view s' = (view s)(?p @ ''.tmp'' := None, ?p \<mapsto> json_pretty X (tombstone_delta_value ?d))"
    using write_rename_run [OF v] by blast
  have "append_index_delta X S table name row_ids adds seq ref s
      = (Inr (ref\<lparr>ix_deltas := ix_deltas ref @ [td_versioned_filename name seq]\<rparr>, td_versioned_filename name seq), s')"
    using s'(1) by (simp add: append_index_delta_def Let_def ensure_dir_def io_simps sync_law versioned_paths)
  moreover have "delta_of X (view s') table (td_versioned_filename name seq) = Inr (Some ?d)"
    using v s'(2) by (simp add: delta_of_def versioned_paths vread_def parse_delta_def json_lawD(4) [OF assms(1)]
        tombstone_delta_roundtrip)
  ultimately show ?thesis using that s'(2) by (simp add: versioned_paths)
qed

text \<open>One index at a commit: the new generation reads as the old one with the delta applied.\<close>

lemma delta_step_run:
  assumes X: "json_law X" and plain: "plain_piece table" "plain_piece (def_name d)"
    and ix: "index_of_ref X (view s) table (def_name d) ref = Inr (Some ix)"
    and fresh: "\<forall>raw \<in> ref_files table (def_name d) ref. \<forall>p \<in> delta_paths table (def_name d) seq. validate_path raw \<noteq> Inr p"
    and ok: "check_unique_adds d ix adds row_ids = Inr ()"
  obtains s' where
    "delta_step X S table seq d ref adds row_ids (m, written) s
       = (Inr (set_generation (def_name d) (add_delta (def_name d) seq ref) m,
           written @ [td_versioned_filename (def_name d) seq]), s')"
    "index_of_ref X (view s') table (def_name d) (add_delta (def_name d) seq ref)
       = Inr (Some (apply_delta \<lparr>td_tombstoned = row_ids, td_adds = adds\<rparr> ix))"
    "\<And>p. p \<notin> delta_paths table (def_name d) seq \<Longrightarrow> view s' p = view s p"
proof -
  let ?rel = "td_versioned_filename (def_name d) seq"
  obtain s' where s': "append_index_delta X S table (def_name d) row_ids adds seq ref s
       = (Inr (ref\<lparr>ix_deltas := ix_deltas ref @ [?rel]\<rparr>, ?rel), s')"
    "delta_of X (view s') table ?rel = Inr (Some \<lparr>td_tombstoned = row_ids, td_adds = adds\<rparr>)"
    "\<And>p. p \<notin> delta_paths table (def_name d) seq \<Longrightarrow> view s' p = view s p"
    using append_index_delta_run [OF X plain] by blast
  have "guard_unique X S table d ref adds row_ids s = (Inr (), s)"
    using ix ok by (simp add: guard_unique_def io_simps load_index_by_ref_run)
  then have run: "delta_step X S table seq d ref adds row_ids (m, written) s
      = (Inr (set_generation (def_name d) (add_delta (def_name d) seq ref) m, written @ [?rel]), s')"
    using s'(1) by (simp add: delta_step_def io_simps add_delta_def)
  have "index_of_ref X (view s') table (def_name d) ref = Inr (Some ix)"
    unfolding ix [symmetric]
  proof (rule index_of_ref_cong)
    fix raw assume "raw \<in> ref_files table (def_name d) ref"
    then show "vread (view s') raw = vread (view s) raw"
      using fresh s'(3) by (intro vread_cong_valid [where W = "delta_paths table (def_name d) seq"]) auto
  qed
  then show ?thesis using that [OF run _ s'(3)] index_of_ref_snoc [OF s'(2)] by (simp add: add_delta_def)
qed

text \<open>A step that would break uniqueness fails and leaves the store as it was.\<close>

lemma delta_step_rejects:
  assumes "index_of_ref X (view s) table (def_name d) ref = Inr (Some ix)"
    "def_unique d" "adds \<noteq> []" "check_unique_adds d ix adds row_ids = Inl e"
  shows "delta_step X S table seq d ref adds row_ids (m, written) s = (Inl e, s)"
  using assms by (simp add: delta_step_def guard_unique_def io_simps load_index_by_ref_run)

end

section \<open>Maintenance on update\<close>

text \<open>
  What an update expects of an index of the table: its generation loads, its files are not
  the delta files of this commit, and the new keys are admissible.
\<close>

definition update_ready ::
  "ext \<Rightarrow> (string \<Rightarrow> bytes option) \<Rightarrow> string \<Rightarrow> string set \<Rightarrow> (string \<Rightarrow> arrow_array option) \<Rightarrow> u64 list \<Rightarrow> u64 \<Rightarrow>
   string \<times> index_entry \<Rightarrow> index_ref \<Rightarrow> btree_index \<Rightarrow> (string \<times> u64) list \<Rightarrow> bool" where
  "update_ready X v table names updated_rows row_ids seq = (\<lambda>(name, e) ref ix adds.
     index_of_ref X v table name ref = Inr (Some ix)
     \<and> (\<forall>raw \<in> ref_files table name ref. \<forall>n \<in> names. \<forall>p \<in> delta_paths table n seq. validate_path raw \<noteq> Inr p)
     \<and> (\<exists>a. updated_rows (ie_column e) = Some a \<and> update_adds a (enumerate 0 row_ids) = Inr adds)
     \<and> check_unique_adds (entry_definition name e) ix adds row_ids = Inr ())"

lemma map_of_set_generation:
  "map_of (mf_index_generations (set_generation name ref m)) = (map_of (mf_index_generations m))(name \<mapsto> ref)"
  by (simp add: set_generation_def update_conv')

lemma entry_definition_sel [simp]:
  "def_name (entry_definition name e) = name" "def_unique (entry_definition name e) = ie_unique e"
  "def_table (entry_definition name e) = ie_table e" "def_column (entry_definition name e) = ie_column e"
  by (simp_all add: entry_definition_def)

lemma add_delta_files:
  "ref_files table name (add_delta n seq ref) = insert (index_file table n (delta_file seq ''.json'')) (ref_files table name ref)"
  by (auto simp: ref_files_def add_delta_def versioned_paths)

lemma index_of_ref_frame:
  assumes "\<And>p. p \<notin> W \<Longrightarrow> v' p = v p" "\<forall>raw \<in> ref_files table name ref. \<forall>p \<in> W. validate_path raw \<noteq> Inr p"
  shows "index_of_ref X v' table name ref = index_of_ref X v table name ref"
proof (rule index_of_ref_cong)
  fix raw assume "raw \<in> ref_files table name ref"
  with assms show "vread v' raw = vread v raw" by (intro vread_cong_valid [where W = W]) auto
qed

text \<open>The delta files of one index are read by no other index of the table.\<close>

lemma update_ready_frame:
  assumes "update_ready X v table names updated_rows row_ids seq e ref ix adds" "name \<in> names"
    "\<And>p. p \<notin> delta_paths table name seq \<Longrightarrow> v' p = v p"
  shows "update_ready X v' table names updated_rows row_ids seq e ref ix adds"
proof -
  obtain n' e' where e: "e = (n', e')" by force
  have "index_of_ref X v' table n' ref = index_of_ref X v table n' ref"
  proof (rule index_of_ref_frame)
    show "\<forall>raw \<in> ref_files table n' ref. \<forall>p \<in> delta_paths table name seq. validate_path raw \<noteq> Inr p"
      using assms(1,2) e by (simp add: update_ready_def)
  qed (rule assms(3))
  then show ?thesis using assms(1) e by (simp add: update_ready_def)
qed

lemma add_delta_fresh:
  assumes "update_ready X v table names updated_rows row_ids seq (name, e) ref ix adds"
    "plain_piece table" "\<forall>n \<in> names. plain_piece n" "name \<in> names"
  shows "\<forall>raw \<in> ref_files table name (add_delta name seq ref).
    \<forall>n \<in> names - {name}. \<forall>p \<in> delta_paths table n seq. validate_path raw \<noteq> Inr p"
  using assms by (auto simp: add_delta_files update_ready_def validate_delta_paths index_file_inj)

context storage_contract
begin

lemma update_step_run:
  assumes X: "json_law X" and plain: "plain_piece table" "plain_piece name" and n: "name \<in> names"
    and gen: "ie_column e \<in> set cols" "map_of (mf_index_generations m) name = Some ref"
    and rdy: "update_ready X (view s) table names updated_rows row_ids seq (name, e) ref ix adds"
  obtains s' where "update_index_step X S table cols updated_rows row_ids seq (m, w) (name, e) s
      = (Inr (set_generation name (add_delta name seq ref) m, w @ [td_versioned_filename name seq]), s')"
    "index_of_ref X (view s') table name (add_delta name seq ref)
       = Inr (Some (apply_delta \<lparr>td_tombstoned = row_ids, td_adds = adds\<rparr> ix))"
    "\<And>p. p \<notin> delta_paths table name seq \<Longrightarrow> view s' p = view s p"
proof -
  obtain a where a: "updated_rows (ie_column e) = Some a" "update_adds a (enumerate 0 row_ids) = Inr adds"
    using rdy by (auto simp: update_ready_def)
  have "index_of_ref X (view s) table (def_name (entry_definition name e)) ref = Inr (Some ix)"
    "\<forall>raw \<in> ref_files table (def_name (entry_definition name e)) ref.
       \<forall>p \<in> delta_paths table (def_name (entry_definition name e)) seq. validate_path raw \<noteq> Inr p"
    "check_unique_adds (entry_definition name e) ix adds row_ids = Inr ()"
    using rdy n by (simp_all add: update_ready_def)
  from delta_step_run [OF X plain(1) _ this, of m w] plain(2)
  obtain s' where "delta_step X S table seq (entry_definition name e) ref adds row_ids (m, w) s
      = (Inr (set_generation name (add_delta name seq ref) m, w @ [td_versioned_filename name seq]), s')"
    "index_of_ref X (view s') table name (add_delta name seq ref)
       = Inr (Some (apply_delta \<lparr>td_tombstoned = row_ids, td_adds = adds\<rparr> ix))"
    "\<And>p. p \<notin> delta_paths table name seq \<Longrightarrow> view s' p = view s p"
    by (metis entry_definition_sel(1))
  then show thesis using that [of s'] gen a by (simp add: update_index_step_def io_simps)
qed

lemma update_steps_run:
  assumes X: "json_law X" and plain: "plain_piece table" "\<forall>n \<in> names. plain_piece n"
  shows "distinct (map fst es) \<Longrightarrow> fst ` set es \<subseteq> names \<Longrightarrow>
    \<forall>(name, e) \<in> set es. ie_column e \<in> set cols \<and> map_of (mf_index_generations m) name = Some (R name)
       \<and> update_ready X (view s) table names updated_rows row_ids seq (name, e) (R name) (I name) (A name) \<Longrightarrow>
    \<exists>m' w' s'. io_foldM (update_index_step X S table cols updated_rows row_ids seq) (m, w) es s = (Inr (m', w'), s')
      \<and> (\<forall>n. map_of (mf_index_generations m') n
           = (if n \<in> fst ` set es then Some (add_delta n seq (R n)) else map_of (mf_index_generations m) n))
      \<and> (\<forall>n \<in> fst ` set es. index_of_ref X (view s') table n (add_delta n seq (R n))
           = Inr (Some (apply_delta \<lparr>td_tombstoned = row_ids, td_adds = A n\<rparr> (I n))))
      \<and> (\<forall>p. p \<notin> (\<Union>n \<in> fst ` set es. delta_paths table n seq) \<longrightarrow> view s' p = view s p)"
proof (induction es arbitrary: m w s)
  case (Cons x es)
  obtain name e where x: "x = (name, e)" by force
  let ?m = "set_generation name (add_delta name seq (R name)) m"
  have n: "name \<in> names" "plain_piece name" "name \<notin> fst ` set es" using Cons.prems x plain by auto
  have rdy: "ie_column e \<in> set cols" "map_of (mf_index_generations m) name = Some (R name)"
    "update_ready X (view s) table names updated_rows row_ids seq (name, e) (R name) (I name) (A name)"
    using Cons.prems(3) x by auto
  obtain s1 where s1: "update_index_step X S table cols updated_rows row_ids seq (m, w) x s
      = (Inr (?m, w @ [td_versioned_filename name seq]), s1)"
    "index_of_ref X (view s1) table name (add_delta name seq (R name))
       = Inr (Some (apply_delta \<lparr>td_tombstoned = row_ids, td_adds = A name\<rparr> (I name)))"
    "\<And>p. p \<notin> delta_paths table name seq \<Longrightarrow> view s1 p = view s p"
    using update_step_run [OF X plain(1) n(2,1) rdy] unfolding x by blast
  have rest: "\<forall>(n, e) \<in> set es. ie_column e \<in> set cols \<and> map_of (mf_index_generations ?m) n = Some (R n)
      \<and> update_ready X (view s1) table names updated_rows row_ids seq (n, e) (R n) (I n) (A n)"
  proof (intro ballI, unfold case_prod_unfold, intro conjI)
    fix y assume y: "y \<in> set es"
    have old: "ie_column (snd y) \<in> set cols" "map_of (mf_index_generations m) (fst y) = Some (R (fst y))"
      "update_ready X (view s) table names updated_rows row_ids seq y (R (fst y)) (I (fst y)) (A (fst y))"
      using Cons.prems(3) y by auto
    show "ie_column (snd y) \<in> set cols" by (rule old)
    have "fst y \<noteq> name" using y n(3) by auto
    then show "map_of (mf_index_generations ?m) (fst y) = Some (R (fst y))"
      using old(2) by (simp add: map_of_set_generation)
    show "update_ready X (view s1) table names updated_rows row_ids seq (fst y, snd y) (R (fst y)) (I (fst y)) (A (fst y))"
      using update_ready_frame [OF old(3) n(1) s1(3)] by simp
  qed
  have "distinct (map fst es)" "fst ` set es \<subseteq> names" using Cons.prems by auto
  from Cons.IH [OF this rest] obtain m' w' s' where ih:
    "io_foldM (update_index_step X S table cols updated_rows row_ids seq) (?m, w @ [td_versioned_filename name seq]) es s1
       = (Inr (m', w'), s')"
    "\<And>n. map_of (mf_index_generations m') n
       = (if n \<in> fst ` set es then Some (add_delta n seq (R n)) else map_of (mf_index_generations ?m) n)"
    "\<forall>n \<in> fst ` set es. index_of_ref X (view s') table n (add_delta n seq (R n))
       = Inr (Some (apply_delta \<lparr>td_tombstoned = row_ids, td_adds = A n\<rparr> (I n)))"
    "\<And>p. p \<notin> (\<Union>n \<in> fst ` set es. delta_paths table n seq) \<Longrightarrow> view s' p = view s1 p"
    by blast
  have "index_of_ref X (view s') table name (add_delta name seq (R name))
      = index_of_ref X (view s1) table name (add_delta name seq (R name))"
  proof (rule index_of_ref_frame)
    show "\<forall>raw \<in> ref_files table name (add_delta name seq (R name)).
        \<forall>p \<in> (\<Union>n \<in> fst ` set es. delta_paths table n seq). validate_path raw \<noteq> Inr p"
    proof (intro ballI)
      fix raw p
      assume raw: "raw \<in> ref_files table name (add_delta name seq (R name))"
        and "p \<in> (\<Union>n \<in> fst ` set es. delta_paths table n seq)"
      then obtain n' where n': "n' \<in> fst ` set es" "p \<in> delta_paths table n' seq" by blast
      then have "n' \<in> names - {name}" using Cons.prems(2) n(3) by auto
      then show "validate_path raw \<noteq> Inr p"
        using add_delta_fresh [OF rdy(3) plain n(1)] raw n'(2) by blast
    qed
  qed (rule ih(4))
  then have "\<forall>n \<in> fst ` set (x # es). index_of_ref X (view s') table n (add_delta n seq (R n))
       = Inr (Some (apply_delta \<lparr>td_tombstoned = row_ids, td_adds = A n\<rparr> (I n)))"
    using s1(2) ih(3) x by simp
  moreover have "map_of (mf_index_generations m') n
      = (if n \<in> fst ` set (x # es) then Some (add_delta n seq (R n)) else map_of (mf_index_generations m) n)" for n
    using ih(2) x by (simp add: map_of_set_generation)
  moreover have "view s' p = view s p" if "p \<notin> (\<Union>n \<in> fst ` set (x # es). delta_paths table n seq)" for p
    using ih(4) [of p] s1(3) [of p] that x by simp
  moreover have "io_foldM (update_index_step X S table cols updated_rows row_ids seq) (m, w) (x # es) s = (Inr (m', w'), s')"
    using s1(1) ih(1) by (simp add: io_simps)
  ultimately show ?case by blast
qed simp

text \<open>An update of the table brings every index of an updated column up to date.\<close>

lemma maintain_on_update_run:
  assumes X: "json_law X" and plain: "plain_piece table" "\<forall>n \<in> fst ` set (table_indexes table cat). plain_piece n"
    and cat: "dc_of X (view s) = Some cat" and cols: "set_columns \<noteq> []"
    and ready: "\<forall>(name, e) \<in> set (table_indexes table cat). ie_column e \<in> set set_columns \<longrightarrow>
       map_of (mf_index_generations m) name = Some (R name)
       \<and> update_ready X (view s) table (fst ` set (table_indexes table cat)) updated_rows row_ids seq (name, e)
            (R name) (I name) (A name)"
  shows "\<exists>m' w' s'. maintain_on_update X S table m set_columns updated_rows row_ids seq s = (Inr (m', w'), s')
    \<and> (\<forall>(n, e) \<in> set (table_indexes table cat). ie_column e \<in> set set_columns \<longrightarrow>
         map_of (mf_index_generations m') n = Some (add_delta n seq (R n))
         \<and> index_of_ref X (view s') table n (add_delta n seq (R n))
             = Inr (Some (apply_delta \<lparr>td_tombstoned = row_ids, td_adds = A n\<rparr> (I n))))
    \<and> (\<forall>(n, e) \<in> set (table_indexes table cat). ie_column e \<notin> set set_columns \<longrightarrow>
         map_of (mf_index_generations m') n = map_of (mf_index_generations m) n)"
proof -
  let ?ts = "table_indexes table cat"
  let ?es = "filter (\<lambda>(_, e). ie_column e \<in> set set_columns) ?ts"
  let ?step = "update_index_step X S table set_columns updated_rows row_ids seq"
  have skip: "io_foldM ?step acc es s = io_foldM ?step acc (filter (\<lambda>(_, e). ie_column e \<in> set set_columns) es) s"
    for acc es s
    by (induction es arbitrary: acc s) (auto simp: io_bind_def update_index_step_def split: prod.split sum.split)
  have "bt_wf (dc_indexes cat)" using dc_of_wf [OF cat] by simp
  then have dist: "distinct (map fst ?ts)"
    unfolding table_indexes_def by (intro bt_wf_distinct sorted_map_fst_filter)
  then have d: "distinct (map fst ?es)" by (intro distinct_map_filter)
  have sub: "fst ` set ?es \<subseteq> fst ` set ?ts" by auto
  have rdy: "\<forall>(name, e) \<in> set ?es. ie_column e \<in> set set_columns \<and> map_of (mf_index_generations m) name = Some (R name)
       \<and> update_ready X (view s) table (fst ` set ?ts) updated_rows row_ids seq (name, e) (R name) (I name) (A name)"
    using ready by auto
  obtain m' w' s' where "io_foldM ?step (m, []) ?es s = (Inr (m', w'), s')"
    and gens: "\<forall>n. map_of (mf_index_generations m') n
       = (if n \<in> fst ` set ?es then Some (add_delta n seq (R n)) else map_of (mf_index_generations m) n)"
    and ixs: "\<forall>n \<in> fst ` set ?es. index_of_ref X (view s') table n (add_delta n seq (R n))
       = Inr (Some (apply_delta \<lparr>td_tombstoned = row_ids, td_adds = A n\<rparr> (I n)))"
    using update_steps_run [OF X plain d sub rdy, of "[]"] by blast
  then have run: "maintain_on_update X S table m set_columns updated_rows row_ids seq s = (Inr (m', w'), s')"
    using cols cat by (simp add: maintain_on_update_def io_simps dc_load_run skip [of "(m, [])" ?ts])
  have mem: "n \<in> fst ` set ?es \<longleftrightarrow> ie_column e \<in> set set_columns" if ts: "(n, e) \<in> set ?ts" for n e
  proof
    assume "n \<in> fst ` set ?es"
    then obtain e' where "(n, e') \<in> set ?ts" "ie_column e' \<in> set set_columns" by auto
    then show "ie_column e \<in> set set_columns" using ts eq_key_imp_eq_value [OF dist, of n e e'] by simp
  next
    assume "ie_column e \<in> set set_columns"
    then show "n \<in> fst ` set ?es" using ts by (intro image_eqI [of _ _ "(n, e)"]) simp_all
  qed
  have "map_of (mf_index_generations m') n = Some (add_delta n seq (R n))
      \<and> index_of_ref X (view s') table n (add_delta n seq (R n))
          = Inr (Some (apply_delta \<lparr>td_tombstoned = row_ids, td_adds = A n\<rparr> (I n)))"
    if "(n, e) \<in> set ?ts" "ie_column e \<in> set set_columns" for n e
    using gens ixs mem [OF that(1)] that(2) by metis
  moreover have "map_of (mf_index_generations m') n = map_of (mf_index_generations m) n"
    if "(n, e) \<in> set ?ts" "ie_column e \<notin> set set_columns" for n e
    using gens mem [OF that(1)] that(2) by metis
  ultimately show ?thesis using run by blast
qed

end

section \<open>Live addresses, without a cache\<close>

definition live_address :: "'bm roaring \<Rightarrow> address_map \<Rightarrow> (u64 \<Rightarrow> 'bm option) \<Rightarrow> u64 \<Rightarrow> (u64 \<times> u32) option" where
  "live_address R am dvs row_id =
     Option.bind (am_lookup am row_id) (\<lambda>(frag, off).
       if (case dvs frag of Some d \<Rightarrow> dv_contains R d off | None \<Rightarrow> False) then None else Some (frag, off))"

text \<open>The callback's map loses the vectors it handed out, but the cache holds them.\<close>

lemma resolve_live_spec:
  assumes "\<And>f. case cache f of Some dv \<Rightarrow> dv = dvs f | None \<Rightarrow> c f = dvs f"
  shows "resolve_live_addresses R am take_out c cache row_ids = List.map_filter (live_address R am dvs) row_ids"
  using assms
proof (induction row_ids arbitrary: c cache)
  case (Cons row_id rest)
  show ?case
  proof (cases "am_lookup am row_id")
    case None
    then have "live_address R am dvs row_id = None" by (simp add: live_address_def)
    then show ?thesis using None Cons by (simp add: List.map_filter_simps)
  next
    case (Some a)
    obtain frag off where a: "a = (frag, off)" by force
    have live: "live_address R am dvs row_id
        = (if case dvs frag of Some d \<Rightarrow> dv_contains R d off | None \<Rightarrow> False then None else Some (frag, off))"
      using Some a by (simp add: live_address_def)
    show ?thesis
    proof (cases "cache frag")
      case hit: (Some dv)
      then have "dv = dvs frag" using Cons.prems [of frag] by simp
      then show ?thesis using Some a hit live Cons.IH [OF Cons.prems] by (simp add: List.map_filter_simps)
    next
      case miss: None
      then have c: "c frag = dvs frag" using Cons.prems [of frag] by simp
      have "resolve_live_addresses R am take_out (c(frag := None)) (cache(frag \<mapsto> dvs frag)) rest
          = List.map_filter (live_address R am dvs) rest"
      proof (rule Cons.IH)
        show "case (cache(frag \<mapsto> dvs frag)) f of Some dv \<Rightarrow> dv = dvs f | None \<Rightarrow> (c(frag := None)) f = dvs f" for f
          using Cons.prems [of f] by (auto split: option.splits)
      qed
      then show ?thesis using Some a miss c live by (simp add: List.map_filter_simps take_out_def [of c])
    qed
  qed
qed (simp add: List.map_filter_simps)

section \<open>What a build indexes\<close>

text \<open>The keys of a column in physical order, \<open>None\<close> for a row that is not indexed.\<close>

definition cell_key :: "arrow_array \<Rightarrow> nat \<Rightarrow> string option" where
  "cell_key a i = (case aa_is_null a i of
      Inr False \<Rightarrow> (case scalar_to_key a i of Inr k \<Rightarrow> Some k | Inl _ \<Rightarrow> None)
    | _ \<Rightarrow> None)"

definition column_keys :: "arrow_array option list \<Rightarrow> string option list" where
  "column_keys bs = concat (map (\<lambda>a. map (cell_key a) [0..<values_len (aa_values a)]) (map the bs))"

definition row_add :: "(u32 \<Rightarrow> bool) \<Rightarrow> u64 list \<Rightarrow> nat \<times> string option \<Rightarrow> (string \<times> u64) option" where
  "row_add dead ids = (\<lambda>(i, key). if dead (of_nat i) then None else map_option (\<lambda>k. (k, ids ! i)) key)"

lemma enumerate_map_upt: "enumerate b (map f [0..<n]) = map (\<lambda>i. (b + i, f i)) [0..<n]"
  by (rule nth_equalityI) (simp_all add: nth_enumerate_eq)

lemma batch_adds_spec:
  assumes "batch_adds dead ids (of_nat b) a is = Inr adds" "\<forall>i \<in> set is. b + i < 2 ^ 32"
  shows "adds = List.map_filter (row_add dead ids) (map (\<lambda>i. (b + i, cell_key a i)) is)"
  using assms
proof (induction "is" arbitrary: adds)
  case (Cons i "is")
  have off: "(of_nat b :: u32) + of_nat i = of_nat (b + i)" by simp
  have "b + i < 2 ^ 32" using Cons.prems(2) by simp
  then have unat: "unat (of_nat (b + i) :: u32) = b + i"
    by (simp add: unat_of_nat take_bit_nat_eq_self del: of_nat_add)
  show ?case
    using Cons off unat
    by (auto simp: Let_def row_add_def cell_key_def List.map_filter_simps res_bind_eq_Inr
        simp del: of_nat_add split: if_splits)
qed (simp add: List.map_filter_simps)

lemma map_filter_append: "List.map_filter f (xs @ ys) = List.map_filter f xs @ List.map_filter f ys"
  by (simp add: List.map_filter_def)

lemma column_adds_spec:
  assumes "column_adds dead ids (of_nat b) bs = Inr adds" "b + length (column_keys bs) < 2 ^ 32"
  shows "adds = List.map_filter (row_add dead ids) (enumerate b (column_keys bs))"
  using assms
proof (induction bs arbitrary: b adds)
  case (Cons x bs)
  obtain a where x: "x = Some a" using Cons.prems(1) by (cases x) simp_all
  let ?n = "values_len (aa_values a)"
  obtain xs ys where xy: "batch_adds dead ids (of_nat b) a [0..<?n] = Inr xs"
    "column_adds dead ids (of_nat (b + ?n)) bs = Inr ys" "adds = xs @ ys"
    using Cons.prems(1) x by (auto simp: res_bind_eq_Inr)
  have keys: "column_keys (x # bs) = map (cell_key a) [0..<?n] @ column_keys bs" by (simp add: column_keys_def x)
  have "xs = List.map_filter (row_add dead ids) (enumerate b (map (cell_key a) [0..<?n]))"
    using batch_adds_spec [OF xy(1)] Cons.prems(2) keys by (simp add: enumerate_map_upt)
  moreover have "ys = List.map_filter (row_add dead ids) (enumerate (b + ?n) (column_keys bs))"
    using Cons.IH [OF xy(2)] Cons.prems(2) keys by simp
  ultimately show ?case using xy(3) keys by (simp add: enumerate_append_eq map_filter_append)
qed (simp add: column_keys_def List.map_filter_simps)

definition keyed_rows :: "(u32 \<Rightarrow> bool) \<Rightarrow> u64 list \<Rightarrow> string option list \<Rightarrow> (string \<times> u64) set" where
  "keyed_rows dead ids keys = {(k, ids ! i) | k i. i < length keys \<and> \<not> dead (of_nat i) \<and> keys ! i = Some k}"

text \<open>
  The keyed live rows of a fragment, as a set over the contents of the store. As in the code, a
  deletion vector that is missing counts as empty, and a fragment without row ids has no keyed row.
\<close>

definition fragment_keyed ::
  "ext \<Rightarrow> 'bm roaring \<Rightarrow> parquet_reader \<Rightarrow> (string \<Rightarrow> bytes option) \<Rightarrow> index_definition \<Rightarrow> row_group_entry \<Rightarrow>
   (string \<times> u64) set result" where
  "fragment_keyed X R PQ v d rg =
     res_bind (case rg_deletes rg of
         None \<Rightarrow> Inr (dv_default R)
       | Some del \<Rightarrow> (case vread v (tpath (def_table d) del) of
             Inr bs \<Rightarrow> dv_deserialize R bs
           | Inl e \<Rightarrow> if is_not_found e then Inr (dv_default R) else Inl e)) (\<lambda>dv.
     res_bind (vread v (tpath (def_table d) (rg_meta rg))) (\<lambda>mb.
     res_bind (ok_or (parse_row_group_meta X mb) Serialization) (\<lambda>meta.
       if rm_row_ids meta = [] then Inr {}
       else
         res_bind (vread v (tpath (def_table d) (rg_data rg))) (\<lambda>data.
         res_bind (ok_or (PQ data) (Other ''parquet'')) (\<lambda>columns.
         res_bind (ok_or (columns (def_column d)) (Other ''column not found'')) (\<lambda>bs.
           Inr (keyed_rows (dv_contains R dv) (flat_ids (rm_row_ids meta)) (column_keys bs))))))))"

fun fragments_keyed ::
  "ext \<Rightarrow> 'bm roaring \<Rightarrow> parquet_reader \<Rightarrow> (string \<Rightarrow> bytes option) \<Rightarrow> index_definition \<Rightarrow> row_group_entry list \<Rightarrow>
   (string \<times> u64) set result" where
  "fragments_keyed X R PQ v d [] = Inr {}"
| "fragments_keyed X R PQ v d (rg # rgs) =
     res_bind (fragment_keyed X R PQ v d rg) (\<lambda>K.
     res_bind (fragments_keyed X R PQ v d rgs) (\<lambda>L. Inr (K \<union> L)))"

text \<open>Physical offsets are 32-bit, so a file has fewer than \<open>2 ^ 32\<close> rows.\<close>

definition offsets_fit :: "parquet_reader \<Rightarrow> bool" where
  "offsets_fit PQ \<longleftrightarrow>
     (\<forall>data columns c bs. PQ data = Some columns \<longrightarrow> columns c = Some bs \<longrightarrow> length (column_keys bs) < 2 ^ 32)"

lemma set_row_adds:
  "set (List.map_filter (row_add dead ids) (enumerate 0 keys)) = keyed_rows dead ids keys"
proof -
  have "x \<in> set (List.map_filter (row_add dead ids) (enumerate 0 keys))
      \<longleftrightarrow> (\<exists>i < length keys. row_add dead ids (i, keys ! i) = Some x)" for x
    by (force simp: List.map_filter_def in_set_conv_nth nth_enumerate_eq)
  moreover have "row_add dead ids (i, keys ! i) = Some x
      \<longleftrightarrow> (\<exists>k. \<not> dead (of_nat i) \<and> keys ! i = Some k \<and> x = (k, ids ! i))" for i x
    by (auto simp: row_add_def)
  ultimately show ?thesis unfolding keyed_rows_def by blast
qed

context storage_contract
begin

lemma collect_fragment_adds_run:
  assumes fit: "offsets_fit PQ" and run: "collect_fragment_adds X R PQ S d rg s = (Inr adds, s')"
  shows "s' = s \<and> fragment_keyed X R PQ (view s) d rg = Inr (set adds)"
proof -
  have keyed: "keyed_rows dead ids (column_keys bs) = set xs"
    if "column_adds dead ids 0 bs = Inr xs" "PQ data = Some columns" "columns c = Some bs" for dead ids bs xs data columns c
    using column_adds_spec [of dead ids 0 bs xs] that fit by (simp add: offsets_fit_def set_row_adds)
  show ?thesis
    using run
    by (auto simp: collect_fragment_adds_def fragment_keyed_def io_success io_try_run st_read_vread
        dest: keyed split: option.splits sum.splits if_splits)
qed

lemma collect_adds_run:
  assumes fit: "offsets_fit PQ"
  shows "collect_index_adds_for_fragments X R PQ S d rgs s = (Inr adds, s') \<Longrightarrow>
    s' = s \<and> fragments_keyed X R PQ (view s) d rgs = Inr (set adds)"
proof -
  define f where "f adds rg = io_bind (collect_fragment_adds X R PQ S d rg) (\<lambda>more. io_return (adds @ more))" for adds rg
  have "io_foldM f acc rgs s = (Inr adds, s') \<Longrightarrow> s' = s \<and> (\<exists>xs. adds = acc @ xs \<and> fragments_keyed X R PQ (view s) d rgs = Inr (set xs))" for acc
  proof (induction rgs arbitrary: acc)
    case (Cons rg rgs)
    from Cons.prems obtain more s1 where more: "collect_fragment_adds X R PQ S d rg s = (Inr more, s1)"
      "io_foldM f (acc @ more) rgs s1 = (Inr adds, s')"
      by (auto simp: io_success f_def [of acc])
    note f = collect_fragment_adds_run [OF fit more(1)]
    then obtain xs where "s' = s" "adds = (acc @ more) @ xs" "fragments_keyed X R PQ (view s) d rgs = Inr (set xs)"
      using Cons.IH more(2) by blast
    then show ?case using f by (auto intro: exI [of _ "more @ xs"])
  qed auto
  from this [of "[]"] show "collect_index_adds_for_fragments X R PQ S d rgs s = (Inr adds, s') \<Longrightarrow> ?thesis"
    by (simp add: collect_index_adds_for_fragments_def f_def [abs_def])
qed

text \<open>A built index holds exactly the keyed live rows.\<close>

lemma build_btree_index_run:
  assumes fit: "offsets_fit PQ" and run: "build_btree_index X R PQ S d m s = (Inr ix, s')"
  shows "s' = s \<and> bt_wf (bi_entries ix) \<and> (\<exists>K. fragments_keyed X R PQ (view s) d (mf_row_groups m) = Inr K
    \<and> (\<forall>k. bi_lookup ix k = sorted_list_of_set {r. (k, r) \<in> K}) \<and> (def_unique d \<longrightarrow> single_valued K))"
proof -
  obtain adds where adds: "collect_index_adds_for_fragments X R PQ S d (mf_row_groups m) s = (Inr adds, s')"
    "build_btree_index_from_adds d (mf_sequence m) adds = Inr ix"
    using run by (auto simp: build_btree_index_def io_success)
  have "\<not> (def_unique d \<and> \<not> single_valued (set adds))" "bt_wf (bi_entries ix)"
    "\<forall>k. bi_lookup ix k = sorted_list_of_set {r. (k, r) \<in> set adds}"
    using build_spec [of d adds "mf_sequence m"] adds(2) by (auto split: if_splits)
  then show ?thesis using collect_adds_run [OF fit adds(1)] by auto
qed

end

end
