(* ===== verification/Snapshot_Index.thy ===== *)
theory Snapshot_Index
  imports Index_Store
begin

text \<open>
  The indexes a table provider opens for a snapshot,
  \<^verbatim>\<open>crates/icefalldb-query/src/provider.rs\<close>, and the probe for equality predicates,
  \<^verbatim>\<open>crates/icefalldb-query/src/index_selector.rs\<close>. An index is opened in the cheapest of three
  forms: the learned model, the mapped binary file with the overlay of the deltas, the parsed JSON.
  Of a DataFusion expression the model has the forms the probe tells apart.
\<close>

section \<open>Predicates\<close>

datatype scalar_value =
    SInt64 "int option"
  | SUtf8 "string option"
  | SLargeUtf8 "string option"
  | SOther

datatype expr =
    EColumn string
  | ELiteral scalar_value
  | EEq expr expr
  | EInList expr "expr list" bool
  | EOther

fun scalar_to_string :: "expr \<Rightarrow> string option" where
  "scalar_to_string (ELiteral (SInt64 (Some v))) = Some (show_i64 v)"
| "scalar_to_string (ELiteral (SUtf8 (Some v))) = Some v"
| "scalar_to_string (ELiteral (SLargeUtf8 (Some v))) = Some v"
| "scalar_to_string _ = None"

section \<open>Opened indexes\<close>

datatype snapshot_index =
    JsonIndex btree_index
  | BinaryIndex bytes index_definition index_delta_overlay
  | LearnedIndex index_definition learned_key_model

fun si_column :: "snapshot_index \<Rightarrow> string" where
  "si_column (JsonIndex i) = def_column (bi_definition i)"
| "si_column (BinaryIndex mapped d ov) = def_column d"
| "si_column (LearnedIndex d m) = def_column d"

text \<open>\<open>Inr None\<close> asks the caller to scan instead.\<close>

fun si_lookup :: "ext \<Rightarrow> snapshot_index \<Rightarrow> string \<Rightarrow> u64 list option result" where
  "si_lookup X (JsonIndex i) value = Inr (Some (bi_lookup i value))"
| "si_lookup X (BinaryIndex mapped d ov) value =
     Inr (map_option (ov_merge ov value) (mmap_index_lookup X mapped value))"
| "si_lookup X (LearnedIndex d m) value = map_sum id Some (km_lookup m value)"

text \<open>
  The probe, over the trait \<^verbatim>\<open>IndexLookup\<close>: \<open>column\<close> is the indexed column, \<open>lookup_ids\<close> the
  candidates for a value.
\<close>

fun in_list_ids ::
  "(string \<Rightarrow> u64 list option result) \<Rightarrow> u64 set \<Rightarrow> expr list \<Rightarrow> u64 set option result" where
  "in_list_ids lookup_ids acc [] = Inr (Some acc)"
| "in_list_ids lookup_ids acc (item # items) =
     (case scalar_to_string item of
        None \<Rightarrow> Inr None
      | Some key \<Rightarrow> res_bind (lookup_ids key) (\<lambda>ids.
          case ids of None \<Rightarrow> Inr None | Some is \<Rightarrow> in_list_ids lookup_ids (acc \<union> set is) items))"

fun index_equality_lookup ::
  "string \<Rightarrow> (string \<Rightarrow> u64 list option result) \<Rightarrow> expr \<Rightarrow> u64 set option result" where
  "index_equality_lookup column lookup_ids (EEq l r) =
     (case l of
        EColumn c \<Rightarrow>
          if c \<noteq> column then Inr None
          else (case scalar_to_string r of
                  None \<Rightarrow> Inr None
                | Some key \<Rightarrow> map_sum id (map_option set) (lookup_ids key))
      | _ \<Rightarrow> Inr None)"
| "index_equality_lookup column lookup_ids (EInList e items negated) =
     (if negated then Inr None
      else (case e of
              EColumn c \<Rightarrow> if c \<noteq> column then Inr None else in_list_ids lookup_ids {} items
            | _ \<Rightarrow> Inr None))"
| "index_equality_lookup column lookup_ids _ = Inr None"

section \<open>Opening\<close>

definition definition_matches :: "string \<Rightarrow> string \<Rightarrow> index_definition \<Rightarrow> bool" where
  "definition_matches table name d \<longleftrightarrow> def_table d = table \<and> def_name d = name"

definition try_learned ::
  "ext \<Rightarrow> 's storage \<Rightarrow> string \<Rightarrow> string \<Rightarrow> string \<Rightarrow> ('s, snapshot_index option) io" where
  "try_learned X S table name base_rel =
     io_bind (load_learned_model X S table base_rel) (\<lambda>lf. io_return (case lf of
         Some (d, m) \<Rightarrow> if definition_matches table name d then Some (LearnedIndex d m) else None
       | None \<Rightarrow> None))"

definition try_binary ::
  "ext \<Rightarrow> 's storage \<Rightarrow> bool \<Rightarrow> string \<Rightarrow> string \<Rightarrow> string \<Rightarrow> ('s, index_delta_overlay) io \<Rightarrow>
   ('s, snapshot_index option) io" where
  "try_binary X S local table name base_rel load_overlay =
     (if local then
        io_bind (open_mmap_binary_index X S table base_rel) (\<lambda>mapped.
          case mapped of
            None \<Rightarrow> io_return None
          | Some bs \<Rightarrow>
              (case br_parse X bs of
                 None \<Rightarrow> io_return None
               | Some r \<Rightarrow>
                   if definition_matches table name (br_definition r)
                   then io_bind load_overlay (\<lambda>ov. io_return (Some (BinaryIndex bs (br_definition r) ov)))
                   else io_return None))
      else io_return None)"

definition open_generation ::
  "ext \<Rightarrow> 's storage \<Rightarrow> bool \<Rightarrow> string \<Rightarrow> string \<Rightarrow> index_ref \<Rightarrow> ('s, snapshot_index option) io" where
  "open_generation X S local table name ref =
     io_bind (case ix_base ref of
         Some base_rel \<Rightarrow> if ix_deltas ref = [] then try_learned X S table name base_rel else io_return None
       | None \<Rightarrow> io_return None) (\<lambda>learned.
       if learned \<noteq> None then io_return learned
       else
         io_bind (case ix_base ref of
             Some base_rel \<Rightarrow> try_binary X S local table name base_rel (load_index_overlay X S table ref)
           | None \<Rightarrow> io_return None) (\<lambda>binary.
           if binary \<noteq> None then io_return binary
           else io_bind (load_index_by_ref X S table name ref) (\<lambda>ix. io_return (map_option JsonIndex ix))))"

definition open_legacy ::
  "ext \<Rightarrow> 's storage \<Rightarrow> bool \<Rightarrow> string \<Rightarrow> string \<Rightarrow> ('s, snapshot_index option) io" where
  "open_legacy X S local table name =
     io_bind (try_learned X S table name (bi_legacy_filename name)) (\<lambda>learned.
       if learned \<noteq> None then io_return learned
       else
         io_bind (try_binary X S local table name (bi_legacy_filename name) (io_return ov_default)) (\<lambda>binary.
           if binary \<noteq> None then io_return binary
           else io_bind (load_index X S table name) (\<lambda>ix. io_return (map_option JsonIndex ix))))"

text \<open>The names are a hash set; \<open>order\<close> is the order it is iterated in.\<close>

definition load_snapshot_indexes ::
  "ext \<Rightarrow> (string set \<Rightarrow> string list) \<Rightarrow> 's storage \<Rightarrow> bool \<Rightarrow> string \<Rightarrow> manifest option \<Rightarrow> bool \<Rightarrow>
   ('s, snapshot_index list) io" where
  "load_snapshot_indexes X order S local table manifest versioned_only =
     (case manifest of
        None \<Rightarrow> io_return []
      | Some m \<Rightarrow>
          io_bind (if versioned_only then io_return [] else list_index_names S table) (\<lambda>flat.
            io_foldM (\<lambda>indexes name.
              io_bind (case map_of (mf_index_generations m) name of
                  Some ref \<Rightarrow> open_generation X S local table name ref
                | None \<Rightarrow> open_legacy X S local table name) (\<lambda>ix.
                io_return (case ix of Some i \<Rightarrow> indexes @ [i] | None \<Rightarrow> indexes)))
              [] (order (fst ` set (mf_index_generations m) \<union> set flat))))"

section \<open>The contract of an index\<close>

text \<open>The values a predicate accepts for the column \<open>c\<close>.\<close>

fun accepts :: "string \<Rightarrow> expr \<Rightarrow> string \<Rightarrow> bool" where
  "accepts c (EEq l r) key \<longleftrightarrow> l = EColumn c \<and> scalar_to_string r = Some key"
| "accepts c (EInList e items negated) key \<longleftrightarrow>
     e = EColumn c \<and> \<not> negated \<and> Some key \<in> scalar_to_string ` set items"
| "accepts c _ key \<longleftrightarrow> False"

text \<open>
  \<open>stands i D\<close>: the opened index \<open>i\<close> stands for the map \<open>D\<close> from values to row ids;
  \<open>adm i v\<close>: the value is one the index answers exactly.
\<close>

locale index_lookup =
  fixes column :: "'i \<Rightarrow> string"
    and lookup_ids :: "'i \<Rightarrow> string \<Rightarrow> u64 list option result"
    and stands :: "'i \<Rightarrow> (string \<Rightarrow> u64 set) \<Rightarrow> bool"
    and adm :: "'i \<Rightarrow> string \<Rightarrow> bool"
  assumes lookup_law: "stands i D \<Longrightarrow> adm i v \<Longrightarrow> lookup_ids i v = Inr (Some ids) \<Longrightarrow> set ids = D v"
begin

lemma in_list_exact:
  assumes "stands i D" "\<forall>v. Some v \<in> scalar_to_string ` set items \<longrightarrow> adm i v"
    "in_list_ids (lookup_ids i) acc items = Inr (Some K)"
  shows "K = acc \<union> {r. \<exists>v. Some v \<in> scalar_to_string ` set items \<and> r \<in> D v}"
  using assms
proof (induction items arbitrary: acc)
  case (Cons item items)
  then obtain v ids where v: "scalar_to_string item = Some v" "lookup_ids i v = Inr (Some ids)"
    "in_list_ids (lookup_ids i) (acc \<union> set ids) items = Inr (Some K)"
    by (auto simp: res_bind_eq_Inr split: option.splits)
  have "adm i v" "\<forall>v. Some v \<in> scalar_to_string ` set items \<longrightarrow> adm i v" using Cons.prems(2) v(1) by auto
  then have "K = acc \<union> D v \<union> {r. \<exists>v. Some v \<in> scalar_to_string ` set items \<and> r \<in> D v}"
    using Cons.IH [OF Cons.prems(1) _ v(3)] lookup_law [OF Cons.prems(1) _ v(2)] by simp
  then show ?case using v(1) by auto
qed simp

text \<open>A probe that answers gives exactly the row ids of the accepted values.\<close>

lemma probe_exact:
  assumes "stands i D" "\<forall>v. accepts (column i) e v \<longrightarrow> adm i v"
    "index_equality_lookup (column i) (lookup_ids i) e = Inr (Some K)"
  shows "K = {r. \<exists>v. accepts (column i) e v \<and> r \<in> D v}"
proof (cases e)
  case (EEq l r)
  then obtain v ids where "l = EColumn (column i)" "scalar_to_string r = Some v"
    "lookup_ids i v = Inr (Some ids)" "K = set ids"
    using assms(3) by (auto simp: map_sum_Inr eq_commute [of "Some K"] split: expr.splits if_splits option.splits)
  then show ?thesis using EEq assms(2) lookup_law [OF assms(1)] by auto
next
  case (EInList l items negated)
  then have "\<not> negated" "l = EColumn (column i)" "in_list_ids (lookup_ids i) {} items = Inr (Some K)"
    using assms(3) by (auto split: if_splits expr.splits)
  then show ?thesis using EInList assms(2) in_list_exact [OF assms(1), of items "{}"] by simp
qed (use assms(3) in simp_all)

end

definition bi_lookup_ids :: "btree_index \<Rightarrow> string \<Rightarrow> u64 list option result" where
  "bi_lookup_ids ix v = Inr (Some (bi_lookup ix v))"

interpretation btree: index_lookup "\<lambda>ix. def_column (bi_definition ix)" bi_lookup_ids
  "\<lambda>ix D. D = (\<lambda>v. set (bi_lookup ix v))" "\<lambda>ix v. True"
  by unfold_locales (simp add: bi_lookup_ids_def)

text \<open>The three forms of an opened index, and the index each stands for.\<close>

definition bin_ok :: "ext \<Rightarrow> btree_index \<Rightarrow> bool" where
  "bin_ok X ix \<longleftrightarrow> length (serialize X ix) < 2 ^ 64 \<and> (\<forall>e \<in> set (bi_entries ix). utf8_valid (str_bytes (fst e)))"

definition printed_keys :: "btree_index \<Rightarrow> bool" where
  "printed_keys ix \<longleftrightarrow> (\<forall>e \<in> set (bi_entries ix). \<exists>i. in_i64 i \<and> fst e = show_i64 i)"

fun si_stands :: "ext \<Rightarrow> snapshot_index \<Rightarrow> (string \<Rightarrow> u64 set) \<Rightarrow> bool" where
  "si_stands X (JsonIndex ix) D \<longleftrightarrow> D = (\<lambda>v. set (bi_lookup ix v))"
| "si_stands X (BinaryIndex mapped d ov) D \<longleftrightarrow>
     json_law X \<and> (\<exists>b. mapped = serialize X b \<and> bt_wf (bi_entries b) \<and> bin_ok X b
       \<and> D = (\<lambda>v. set (ov_merge ov v (bi_lookup b v))))"
| "si_stands X (LearnedIndex d m) D \<longleftrightarrow>
     (\<exists>ix. km_fit ix = Some m \<and> length (bi_entries ix) < 2 ^ 64 \<and> printed_keys ix \<and> D = (\<lambda>v. set (bi_lookup ix v)))"

text \<open>
  The values for which an opened index answers as the index it stands for. A learned model reads any
  text that parses as a number, so its answer is right only for a value spelled the way a number is
  printed, as the keys it was fitted on are.
\<close>

fun si_adm :: "snapshot_index \<Rightarrow> string \<Rightarrow> bool" where
  "si_adm (LearnedIndex d m) v \<longleftrightarrow> (\<exists>i. in_i64 i \<and> v = show_i64 i)"
| "si_adm _ v \<longleftrightarrow> True"

lemma si_lookup_answers:
  assumes "si_stands X i D" "si_adm i v"
  shows "\<exists>ids. si_lookup X i v = Inr (Some ids) \<and> set ids = D v"
proof (cases i)
  case (BinaryIndex mapped d ov)
  then obtain b where "json_law X" "mapped = serialize X b" "bt_wf (bi_entries b)" "bin_ok X b"
    "D = (\<lambda>v. set (ov_merge ov v (bi_lookup b v)))" using assms(1) by auto
  then show ?thesis using BinaryIndex by (simp add: serialize_lookup bin_ok_def)
next
  case (LearnedIndex d m)
  then obtain ix j where "km_fit ix = Some m" "length (bi_entries ix) < 2 ^ 64" "printed_keys ix"
    "D = (\<lambda>v. set (bi_lookup ix v))" "in_i64 j" "v = show_i64 j" using assms by auto
  then show ?thesis using LearnedIndex km_lookup_printed [of ix m j] by (simp add: printed_keys_def)
qed (use assms in simp)

interpretation snapshot: index_lookup si_column "si_lookup X" "si_stands X" si_adm
proof unfold_locales
  fix i D v ids assume "si_stands X i D" "si_adm i v" "si_lookup X i v = Inr (Some ids)"
  then show "set ids = D v" using si_lookup_answers [of X i D v] by auto
qed

section \<open>Opening a generation\<close>

text \<open>
  The files of a base: the index itself, and siblings that are absent or derived from it. \<open>D\<close>
  is the directory-relative stem of the three names.
\<close>

definition base_files_ok :: "ext \<Rightarrow> (string \<Rightarrow> bytes option) \<Rightarrow> string \<Rightarrow> string \<Rightarrow> btree_index \<Rightarrow> bool" where
  "base_files_ok X v table stem b \<longleftrightarrow>
     vread v (tpath table (stem @ ''.json'')) = Inr (json_pretty X (btree_index_value b))
     \<and> (\<forall>bs. vread v (tpath table (stem @ ''.idx'')) = Inr bs \<longrightarrow> bs = serialize X b)
     \<and> ((\<exists>p. vread v (tpath table (stem @ ''.model'')) = Inl (NotFound p))
        \<or> (\<exists>m. km_fit b = Some m \<and> vread v (tpath table (stem @ ''.model''))
              = Inr (json_to_string X (learned_index_file_value (bi_definition b) m))))"

definition index_sound :: "ext \<Rightarrow> btree_index \<Rightarrow> bool" where
  "index_sound X b \<longleftrightarrow> bt_wf (bi_entries b) \<and> bin_ok X b \<and> length (bi_entries b) < 2 ^ 64
     \<and> (km_fit b \<noteq> None \<longrightarrow> printed_keys b)"

lemma base_of_files:
  assumes "json_law X" "base_files_ok X v table stem b" "bt_wf (bi_entries b)" "ix_base ref = Some (stem @ ''.json'')"
  shows "base_of X v table name ref = Inr (Some b)"
  using assms
  by (simp add: base_of_def base_files_ok_def parse_index_def json_lawD(4) btree_index_roundtrip)

context storage_contract
begin

lemma try_learned_run:
  assumes "json_law X" "base_files_ok X (view s) table stem b"
  shows "try_learned X S table name (stem @ ''.json'') s = (Inr None, s)
    \<or> (\<exists>m. km_fit b = Some m \<and> definition_matches table name (bi_definition b)
          \<and> try_learned X S table name (stem @ ''.json'') s = (Inr (Some (LearnedIndex (bi_definition b) m)), s))"
proof -
  have "try_learned X S table name (stem @ ''.json'') s
      = (Inr (if definition_matches table name (bi_definition b) then Some (LearnedIndex (bi_definition b) m) else None), s)"
    if "km_fit b = Some m" "vread (view s) (tpath table (stem @ ''.model''))
          = Inr (json_to_string X (learned_index_file_value (bi_definition b) m))" for m
    using that by (simp add: try_learned_def load_learned_model_def io_simps st_read_vread json_lawD(1) [OF assms(1)]
        learned_index_file_roundtrip km_fit_range)
  moreover have "try_learned X S table name (stem @ ''.json'') s = (Inr None, s)"
    if "vread (view s) (tpath table (stem @ ''.model'')) = Inl (NotFound p)" for p
    using that by (simp add: try_learned_def load_learned_model_def io_simps st_read_vread)
  ultimately show ?thesis using assms(2) by (auto simp: base_files_ok_def)
qed

lemma try_binary_run:
  assumes "json_law X" "base_files_ok X (view s) table stem b" "bin_ok X b" "load_overlay s = (Inr ov, s)"
  shows "try_binary X S local table name (stem @ ''.json'') load_overlay s = (Inr None, s)
    \<or> try_binary X S local table name (stem @ ''.json'') load_overlay s
        = (Inr (Some (BinaryIndex (serialize X b) (bi_definition b) ov)), s)"
proof (cases "vread (view s) (tpath table (stem @ ''.idx''))")
  case (Inl e)
  then show ?thesis by (simp add: try_binary_def open_mmap_binary_index_def io_simps st_read_vread)
next
  case (Inr bs)
  then have "bs = serialize X b" using assms(2) by (simp add: base_files_ok_def)
  moreover have "length (serialize X b) < 2 ^ 64" using assms(3) by (simp add: bin_ok_def)
  note p = serialize_parse [OF assms(1) this]
  ultimately show ?thesis
    using Inr assms(4) by (simp add: try_binary_def open_mmap_binary_index_def io_simps st_read_vread p)
qed

text \<open>Whichever form is opened, it stands for the index the generation denotes.\<close>

lemma open_generation_run:
  assumes X: "json_law X" and files: "base_files_ok X (view s) table stem b" and b: "index_sound X b"
    and ref: "ix_base ref = Some (stem @ ''.json'')"
    and ix: "index_of_ref X (view s) table name ref = Inr (Some ix)"
  shows "\<exists>i. open_generation X S local table name ref s = (Inr (Some i), s)
    \<and> si_stands X i (\<lambda>v. set (bi_lookup ix v))"
proof -
  have wf: "bt_wf (bi_entries b)" "bin_ok X b" using b by (simp_all add: index_sound_def)
  obtain ds where ds: "deltas_of X (view s) table (ix_deltas ref) = Inr ds"
    "\<And>k. bi_lookup ix k = ov_merge (foldl ov_replay ov_default ds) k (bi_lookup b k)"
    using overlay_of_ref [OF base_of_files [OF X files wf(1) ref] ix] by blast
  have ov: "load_index_overlay X S table ref s = (Inr (foldl ov_replay ov_default ds), s)"
    using ds(1) by (simp add: load_index_overlay_run)
  have json: "load_index_by_ref X S table name ref s = (Inr (Some ix), s)"
    using ix by (simp add: load_index_by_ref_run)
  have bin: "si_stands X (BinaryIndex (serialize X b) (bi_definition b) (foldl ov_replay ov_default ds)) (\<lambda>v. set (bi_lookup ix v))"
    using X wf ds(2) by auto
  have model: "si_stands X (LearnedIndex (bi_definition b) m) (\<lambda>v. set (bi_lookup ix v))"
    if "km_fit b = Some m" "ix_deltas ref = []" for m
    using that b ds by (auto simp: index_sound_def ov_merge_def ov_default_def)
  note l = try_learned_run [OF X files, of name]
  note bb = try_binary_run [OF X files wf(2), of "load_index_overlay X S table ref" _ local name, OF ov]
  show ?thesis
  proof (cases "ix_deltas ref = []")
    case True
    then show ?thesis using l bb json bin model
      by (elim disjE exE conjE) (auto simp: open_generation_def io_simps ref)
  next
    case False
    then show ?thesis using bb json bin by (elim disjE) (auto simp: open_generation_def io_simps ref)
  qed
qed

end

section \<open>Saving a base\<close>

definition stem_paths_ok :: "string \<Rightarrow> string \<Rightarrow> bool" where
  "stem_paths_ok table stem \<longleftrightarrow>
     (\<forall>suffix \<in> set [''.json'', ''.json.tmp'', ''.idx'', ''.idx.tmp'', ''.model'', ''.model.tmp''].
        validate_path (tpath table (stem @ suffix)) = Inr (tpath table (stem @ suffix)))"

lemma stem_tmp: "tpath table (stem @ a) @ b = tpath table (stem @ a @ b)"
  by (simp add: tpath_def)

context storage_contract
begin

lemma stem_write_run:
  assumes "stem_paths_ok table stem" "suffix \<in> {''.json'', ''.idx'', ''.model''}"
  obtains s' where "write_rename S (tpath table (stem @ suffix)) b s = (Inr (), s')"
    "view s' = (view s)(tpath table (stem @ suffix @ ''.tmp'') := None, tpath table (stem @ suffix) \<mapsto> b)"
proof -
  have "validate_path (tpath table (stem @ suffix)) = Inr (tpath table (stem @ suffix))"
    "validate_path (tpath table (stem @ suffix) @ ''.tmp'') = Inr (tpath table (stem @ suffix) @ ''.tmp'')"
    using assms by (auto simp: stem_paths_ok_def stem_tmp)
  from write_rename_run [OF this] show ?thesis using that by (metis append.assoc stem_tmp)
qed

text \<open>The store after a save, at the three paths of the base.\<close>

lemma save_files_run:
  assumes ok: "stem_paths_ok t stem" and t: "t = def_table (bi_definition ix)"
  obtains s1 s' where "write_rename S (tpath t (stem @ ''.json'')) data s = (Inr (), s1)"
    "save_siblings X S local (stem @ ''.json'') ix s1 = (Inr (), s')"
    "view s' (tpath t (stem @ ''.json'')) = Some data"
    "view s' (tpath t (stem @ ''.idx'')) = (if local then Some (serialize X ix) else view s (tpath t (stem @ ''.idx'')))"
    "view s' (tpath t (stem @ ''.model'')) = (case km_fit ix of
        Some m \<Rightarrow> Some (json_to_string X (learned_index_file_value (bi_definition ix) m))
      | None \<Rightarrow> view s (tpath t (stem @ ''.model'')))"
proof -
  obtain s1 where s1: "write_rename S (tpath t (stem @ ''.json'')) data s = (Inr (), s1)"
    "view s1 = (view s)(tpath t (stem @ ''.json'' @ ''.tmp'') := None, tpath t (stem @ ''.json'') \<mapsto> data)"
    using stem_write_run [OF ok, of "''.json''"] by auto
  obtain s2 where s2: "write_rename S (tpath t (stem @ ''.idx'')) (serialize X ix) s1 = (Inr (), s2)"
    "view s2 = (view s1)(tpath t (stem @ ''.idx'' @ ''.tmp'') := None, tpath t (stem @ ''.idx'') \<mapsto> serialize X ix)"
    using stem_write_run [OF ok, of "''.idx''"] by auto
  define s2' where "s2' = (if local then s2 else s1)"
  have bin: "(if local then io_then (io_try (save_binary_sibling X S (stem @ ''.json'') ix)) (io_return ()) else io_return ()) s1
      = (Inr (), s2')"
    using s2(1) t by (simp add: s2'_def save_binary_sibling_def io_simps)
  have v2: "view s2' (tpath t (stem @ ''.json'')) = Some data"
    "view s2' (tpath t (stem @ ''.idx'')) = (if local then Some (serialize X ix) else view s (tpath t (stem @ ''.idx'')))"
    "view s2' (tpath t (stem @ ''.model'')) = view s (tpath t (stem @ ''.model''))"
    using s1(2) s2(2) by (simp_all add: s2'_def)
  show thesis
  proof (cases "km_fit ix")
    case None
    then have "save_siblings X S local (stem @ ''.json'') ix s1 = (Inr (), s2')"
      unfolding save_siblings_def io_then_Inr [where m = "if local then _ else _", OF bin]
      by (simp add: io_simps save_model_sibling_def)
    then show thesis using that [OF s1(1)] v2 None by simp
  next
    case (Some m)
    obtain s3 where s3: "write_rename S (tpath t (stem @ ''.model''))
        (json_to_string X (learned_index_file_value (bi_definition ix) m)) s2' = (Inr (), s3)"
      "view s3 = (view s2')(tpath t (stem @ ''.model'' @ ''.tmp'') := None,
         tpath t (stem @ ''.model'') \<mapsto> json_to_string X (learned_index_file_value (bi_definition ix) m))"
      using stem_write_run [OF ok, of "''.model''"] by auto
    have "save_siblings X S local (stem @ ''.json'') ix s1 = (Inr (), s3)"
      unfolding save_siblings_def io_then_Inr [where m = "if local then _ else _", OF bin]
      using s3(1) Some t by (simp add: io_simps save_model_sibling_def)
    then show thesis using that [OF s1(1)] v2 s3(2) Some by simp
  qed
qed

end

text \<open>The versioned and the legacy paths.\<close>

definition versioned_stem :: "string \<Rightarrow> u64 \<Rightarrow> string" where
  "versioned_stem name seq = INDEXES_DIR @ ''/'' @ name @ ''/'' @ base_file seq []"

definition legacy_stem :: "string \<Rightarrow> string" where
  "legacy_stem name = INDEXES_DIR @ ''/'' @ name"

lemma stem_names:
  "bi_versioned_filename name seq = versioned_stem name seq @ ''.json''"
  "bi_legacy_filename name = legacy_stem name @ ''.json''"
  by (simp_all add: bi_versioned_filename_def versioned_stem_def base_file_def bi_legacy_filename_def legacy_stem_def)

lemma versioned_stem_ok:
  assumes "plain_piece table" "plain_piece name"
  shows "stem_paths_ok table (versioned_stem name seq)"
proof -
  have "validate_path (tpath table (versioned_stem name seq @ suffix)) = Inr (tpath table (versioned_stem name seq @ suffix))"
    if "CHR ''/'' \<notin> set suffix" for suffix
    using validate_index_file [OF assms plain_versioned(1) [OF that]]
    by (simp add: versioned_stem_def index_file_def tpath_def)
  then show ?thesis by (simp add: stem_paths_ok_def)
qed

lemma legacy_stem_ok:
  assumes "plain_piece table" "plain_piece name"
  shows "stem_paths_ok table (legacy_stem name)"
proof -
  have "validate_path (tpath table (legacy_stem name @ suffix)) = Inr (tpath table (legacy_stem name @ suffix))"
    if "CHR ''/'' \<notin> set suffix" "2 < length suffix" for suffix
  proof -
    have "name @ suffix \<noteq> x" if "length x \<le> 2" for x using that \<open>2 < length suffix\<close> by auto
    then have "plain_piece (name @ suffix)" using that assms(2) by (auto simp: plain_piece_def)
    then show ?thesis
      using validate_tpath [OF assms(1), of "[INDEXES_DIR, name @ suffix]"]
      by (simp add: legacy_stem_def join_path_def INDEXES_DIR_def plain_piece_def)
  qed
  then show ?thesis by (simp add: stem_paths_ok_def)
qed

context storage_contract
begin

text \<open>Saving at a fresh version leaves the base and its siblings consistent.\<close>

lemma save_versioned_run:
  assumes plain: "plain_piece (def_table (bi_definition ix))" "plain_piece (def_name (bi_definition ix))"
    and fresh: "\<And>suffix. view s (tpath (def_table (bi_definition ix))
        (versioned_stem (def_name (bi_definition ix)) (bi_snapshot_sequence ix) @ suffix)) = None"
  obtains s' where "bi_save_versioned X S local ix s
      = (Inr (versioned_stem (def_name (bi_definition ix)) (bi_snapshot_sequence ix) @ ''.json''), s')"
    "base_files_ok X (view s') (def_table (bi_definition ix))
       (versioned_stem (def_name (bi_definition ix)) (bi_snapshot_sequence ix)) ix"
proof -
  let ?t = "def_table (bi_definition ix)"
  let ?stem = "versioned_stem (def_name (bi_definition ix)) (bi_snapshot_sequence ix)"
  have ok: "stem_paths_ok ?t ?stem" by (rule versioned_stem_ok [OF plain])
  obtain s1 s' where s': "write_rename S (tpath ?t (?stem @ ''.json'')) (json_pretty X (btree_index_value ix)) s = (Inr (), s1)"
    "save_siblings X S local (?stem @ ''.json'') ix s1 = (Inr (), s')"
    "view s' (tpath ?t (?stem @ ''.json'')) = Some (json_pretty X (btree_index_value ix))"
    "view s' (tpath ?t (?stem @ ''.idx'')) = (if local then Some (serialize X ix) else None)"
    "view s' (tpath ?t (?stem @ ''.model'')) = (case km_fit ix of
        Some m \<Rightarrow> Some (json_to_string X (learned_index_file_value (bi_definition ix) m)) | None \<Rightarrow> None)"
    using save_files_run [OF ok refl, of "json_pretty X (btree_index_value ix)" s X local] unfolding fresh by blast
  have "bi_save_versioned X S local ix s = (Inr (?stem @ ''.json''), s')"
    using s'(1,2) by (simp add: bi_save_versioned_def Let_def stem_names io_simps sync_law)
  moreover have "base_files_ok X (view s') ?t ?stem ix"
    using ok s'(3-5) by (cases "km_fit ix") (simp_all add: base_files_ok_def vread_def stem_paths_ok_def)
  ultimately show thesis by (rule that)
qed

text \<open>
  Saving over a legacy base whose keys were affine with an index whose keys are not leaves the
  old model in place.
\<close>

lemma save_keeps_stale_model:
  assumes X: "json_law X" and plain: "plain_piece (def_table (bi_definition ix))" "plain_piece (def_name (bi_definition ix))"
    and old: "view s (tpath (def_table (bi_definition ix)) (legacy_stem (def_name (bi_definition ix)) @ ''.model''))
        = Some (json_to_string X (learned_index_file_value d m))" "km_in_range m"
    and new: "km_fit ix = None"
  shows "\<exists>s'. bi_save X S local ix s = (Inr (), s')
    \<and> load_learned_model X S (def_table (bi_definition ix)) (bi_legacy_filename (def_name (bi_definition ix))) s'
        = (Inr (Some (d, m)), s')"
proof -
  let ?t = "def_table (bi_definition ix)"
  let ?stem = "legacy_stem (def_name (bi_definition ix))"
  have ok: "stem_paths_ok ?t ?stem" by (rule legacy_stem_ok [OF plain])
  obtain s1 s' where w: "write_rename S (tpath ?t (?stem @ ''.json'')) (json_pretty X (btree_index_value ix)) s = (Inr (), s1)"
    "save_siblings X S local (?stem @ ''.json'') ix s1 = (Inr (), s')"
    "view s' (tpath ?t (?stem @ ''.model'')) = Some (json_to_string X (learned_index_file_value d m))"
    using save_files_run [OF ok refl, of "json_pretty X (btree_index_value ix)" s X local]
    unfolding new option.case old(1) by blast
  then have s': "bi_save X S local ix s = (Inr (), s')"
    by (simp add: bi_save_def Let_def stem_names io_simps sync_law)
  from w(3) have "vread (view s') (tpath ?t (?stem @ ''.model'')) = Inr (json_to_string X (learned_index_file_value d m))"
    using ok by (simp add: vread_def stem_paths_ok_def)
  then show ?thesis using s'
    by (auto simp: load_learned_model_def stem_names io_simps st_read_vread json_lawD(1) [OF X]
        learned_index_file_roundtrip [OF old(2)])
qed

end

end
