(* ===== verification/Row_Locate.thy ===== *)
theory Row_Locate
  imports Snapshot_Index
begin

text \<open>
  Locating the rows of a DELETE or UPDATE through an index, \<^verbatim>\<open>try_locate_by_index\<close> of
  \<^verbatim>\<open>crates/icefalldb-query/src/provider.rs\<close>: the candidates of the first index that answers the
  predicate are turned into the physical locations that are live. The candidates are a hash set;
  \<open>order\<close> is the order it is iterated in.
\<close>

section \<open>Offsets of row ids\<close>

definition position :: "'a \<Rightarrow> 'a list \<Rightarrow> nat option" where
  "position x xs = find (\<lambda>i. xs ! i = x) [0..<length xs]"

text \<open>The sums are \<^verbatim>\<open>u64\<close> and wrap; the result is cut to 32 bits.\<close>

fun offset_from :: "u64 \<Rightarrow> row_id_segment list \<Rightarrow> u64 \<Rightarrow> u32 option" where
  "offset_from base [] rid = None"
| "offset_from base (Range start cnt # segs) rid =
     (if start \<le> rid \<and> rid < start + cnt then Some (ucast (base + (rid - start)))
      else offset_from (base + cnt) segs rid)"
| "offset_from base (Sorted ids # segs) rid =
     (case position rid ids of
        Some pos \<Rightarrow> Some (ucast (base + of_nat pos))
      | None \<Rightarrow> offset_from (base + of_nat (length ids)) segs rid)"

definition offset_of_row_id :: "row_id_segment list \<Rightarrow> u64 \<Rightarrow> u32 option" where
  "offset_of_row_id segs rid = offset_from 0 segs rid"

section \<open>Locating\<close>

record frag_locate =
  fl_fragment_id :: u64
  fl_row_ids :: "row_id_segment list"
  fl_deletes :: "string option"
  fl_deleted_count :: u64

record match_loc =
  ml_fragment_id :: u64
  ml_offset :: u32
  ml_row_id :: u64

text \<open>One fragment: its deletion vector is read into the cache when it is first needed.\<close>

definition frag_probe ::
  "'bm roaring \<Rightarrow> 's storage \<Rightarrow> u64 \<Rightarrow> (u64 \<Rightarrow> 'bm option) \<times> match_loc option \<times> nat \<Rightarrow> frag_locate \<Rightarrow>
   ('s, (u64 \<Rightarrow> 'bm option) \<times> match_loc option \<times> nat) io" where
  "frag_probe R S rid = (\<lambda>(cache, live, n) f.
     case offset_of_row_id (fl_row_ids f) rid of
       None \<Rightarrow> io_return (cache, live, n)
     | Some off \<Rightarrow>
         io_bind (case fl_deletes f of
             Some path \<Rightarrow>
               if fl_deleted_count f > 0 \<and> cache (fl_fragment_id f) = None then
                 io_bind (st_read S path) (\<lambda>bs.
                 io_bind (io_lift (dv_deserialize R bs)) (\<lambda>dv.
                   io_return (cache(fl_fragment_id f \<mapsto> dv))))
               else io_return cache
           | None \<Rightarrow> io_return cache) (\<lambda>cache'.
         let deleted = (case cache' (fl_fragment_id f) of Some dv \<Rightarrow> dv_contains R dv off | None \<Rightarrow> False)
         in io_return (if deleted then (cache', live, n)
              else (cache', Some \<lparr>ml_fragment_id = fl_fragment_id f, ml_offset = off, ml_row_id = rid\<rparr>, n + 1))))"

text \<open>A row with several live locations sends the caller back to the scan.\<close>

fun locate_rows ::
  "'bm roaring \<Rightarrow> 's storage \<Rightarrow> frag_locate list \<Rightarrow> (u64 \<Rightarrow> 'bm option) \<Rightarrow> match_loc list \<Rightarrow> u64 list \<Rightarrow>
   ('s, match_loc list option) io" where
  "locate_rows R S frags cache out [] = io_return (Some out)"
| "locate_rows R S frags cache out (rid # rids) =
     io_bind (io_foldM (frag_probe R S rid) (cache, None, 0) frags) (\<lambda>(cache', live, n).
       if n = 0 then locate_rows R S frags cache' out rids
       else if n = 1 then locate_rows R S frags cache' (out @ [the live]) rids
       else io_return None)"

text \<open>The first index that answers the predicate; an index that panics ends the call.\<close>

fun first_candidates :: "ext \<Rightarrow> expr \<Rightarrow> snapshot_index list \<Rightarrow> u64 set option result" where
  "first_candidates X e [] = Inr None"
| "first_candidates X e (i # is) =
     res_bind (index_equality_lookup (si_column i) (si_lookup X i) e) (\<lambda>r.
       case r of Some ids \<Rightarrow> Inr (Some ids) | None \<Rightarrow> first_candidates X e is)"

definition try_locate_by_index ::
  "ext \<Rightarrow> 'bm roaring \<Rightarrow> (u64 set \<Rightarrow> u64 list) \<Rightarrow> 's storage \<Rightarrow> snapshot_index list \<Rightarrow> frag_locate list \<Rightarrow> expr \<Rightarrow>
   ('s, match_loc list option) io" where
  "try_locate_by_index X R order S indexes frags e =
     io_bind (io_lift (first_candidates X e indexes)) (\<lambda>r.
       case r of
         None \<Rightarrow> io_return None
       | Some ids \<Rightarrow> locate_rows R S frags Map.empty [] (order ids))"

section \<open>An offset is the position of the row id\<close>

lemma position_Some: "position x xs = Some i \<longleftrightarrow> i < length xs \<and> xs ! i = x \<and> (\<forall>j < i. xs ! j \<noteq> x)"
  by (auto simp: position_def find_Some_iff)

lemma position_None: "position x xs = None \<longleftrightarrow> x \<notin> set xs"
  by (auto simp: position_def find_None_iff in_set_conv_nth)

lemma position_append:
  "position x (xs @ ys) = (case position x xs of Some i \<Rightarrow> Some i | None \<Rightarrow> map_option ((+) (length xs)) (position x ys))"
proof (cases "position x xs")
  case (Some i)
  then have "position x (xs @ ys) = Some i" by (auto simp: position_Some nth_append)
  then show ?thesis using Some by simp
next
  case None
  then have out: "x \<notin> set xs" by (simp add: position_None)
  show ?thesis
  proof (cases "position x ys")
    case n: None
    then have "position x (xs @ ys) = None" using out by (simp add: position_None)
    then show ?thesis using None n by simp
  next
    case (Some i)
    have "(xs @ ys) ! j \<noteq> x" if "j < length xs + i" for j
    proof (cases "j < length xs")
      case True
      then show ?thesis using out nth_mem [of j xs] by (auto simp: nth_append)
    next
      case False
      then have "j - length xs < i" using that by linarith
      then show ?thesis using Some False by (simp add: position_Some nth_append)
    qed
    then have "position x (xs @ ys) = Some (length xs + i)" using Some by (simp add: position_Some)
    then show ?thesis using None Some by simp
  qed
qed

lemma position_range:
  assumes "unat start + unat cnt < 2 ^ 64"
  shows "position rid (u64_range start (start + cnt))
    = (if start \<le> rid \<and> rid < start + cnt then Some (unat (rid - start)) else None)"
proof (cases "start \<le> rid \<and> rid < start + cnt")
  case True
  have c: "unat (start + cnt) = unat start + unat cnt" using assms by (rule unat_add_no_wrap)
  have d: "unat (rid - start) = unat rid - unat start" using True by (simp add: unat_sub)
  have "unat rid - unat start < unat cnt" using True c unfolding word_le_nat_alt word_less_nat_alt by linarith
  moreover have eq: "start + of_nat (unat rid - unat start) = rid" unfolding d [symmetric] by simp
  moreover have "start + of_nat j \<noteq> rid" if "j < unat rid - unat start" for j
  proof
    assume "start + of_nat j = rid"
    moreover have "unat (start + of_nat j) = unat start + j"
      using that unat_u64_less [of rid] by (subst unat_add_no_wrap) (simp_all add: unat_of_nat take_bit_nat_eq_self)
    ultimately show False using that by simp
  qed
  ultimately have "position rid (u64_range start (start + cnt)) = Some (unat (rid - start))"
    using assms True d eq by (auto simp: position_Some u64_range_nth)
  then show ?thesis using True by simp
next
  case False
  have "rid \<notin> set (u64_range start (start + cnt))"
  proof
    assume "rid \<in> set (u64_range start (start + cnt))"
    then obtain j where j: "rid = of_nat j" "unat start \<le> j" "j < unat (start + cnt)" by (auto simp: u64_range_def)
    then have "j < 2 ^ 64" using unat_u64_less [of "start + cnt"] by linarith
    then have "unat rid = j" using j(1) by (simp add: unat_of_nat take_bit_nat_eq_self)
    then show False using False j by (simp add: word_le_nat_alt word_less_nat_alt)
  qed
  then show ?thesis using False by (simp add: position_None [symmetric])
qed

lemma ucast_of_nat_u32: "n < 2 ^ 64 \<Longrightarrow> (ucast (of_nat n :: u64) :: u32) = of_nat n"
  by (simp add: unsigned_of_nat take_bit_nat_eq_self)

lemma offset_from_spec:
  "\<forall>seg \<in> set segs. wf_segment seg \<Longrightarrow> b + length (flat_ids segs) < 2 ^ 64 \<Longrightarrow>
   offset_from (of_nat b) segs rid = map_option (\<lambda>i. of_nat (b + i)) (position rid (flat_ids segs))"
proof (induction segs arbitrary: b)
  case Nil
  then show ?case by (simp add: position_def)
next
  case (Cons seg segs)
  show ?case
  proof (cases seg)
    case (Range start cnt)
    then have wf: "unat start + unat cnt < 2 ^ 64" using Cons.prems(1) by simp
    have len: "length (u64_range start (start + cnt)) = unat cnt" using wf by simp
    have "(of_nat b :: u64) + cnt = of_nat (b + unat cnt)" by simp
    then have IH: "offset_from (of_nat b + cnt) segs rid
        = map_option (\<lambda>i. of_nat (b + unat cnt + i)) (position rid (flat_ids segs))"
      using Cons.IH [of "b + unat cnt"] Cons.prems Range len by simp
    have "(ucast (of_nat b + (rid - start)) :: u32) = of_nat (b + unat (rid - start))" if "start \<le> rid \<and> rid < start + cnt"
    proof -
      have "position rid (u64_range start (start + cnt)) = Some (unat (rid - start))"
        using that position_range [OF wf] by simp
      then have "unat (rid - start) < unat cnt" using len by (simp add: position_Some)
      then have "b + unat (rid - start) < 2 ^ 64" using Cons.prems(2) Range len by simp
      then show ?thesis using ucast_of_nat_u32 [of "b + unat (rid - start)"] by simp
    qed
    then show ?thesis
      using Range IH len position_range [OF wf, of rid]
      by (auto simp: position_append option.map_comp comp_def add.assoc)
  next
    case (Sorted ids)
    have IH: "offset_from (of_nat b + of_nat (length ids)) segs rid
        = map_option (\<lambda>i. of_nat (b + length ids + i)) (position rid (flat_ids segs))"
      using Cons.IH [of "b + length ids"] Cons.prems Sorted by simp
    show ?thesis
    proof (cases "position rid ids")
      case None
      then show ?thesis using Sorted IH by (simp add: position_append option.map_comp comp_def add.assoc)
    next
      case (Some i)
      then have "b + i < 2 ^ 64" using Cons.prems(2) Sorted by (simp add: position_Some)
      then show ?thesis using Sorted Some ucast_of_nat_u32 [of "b + i"] by (simp add: position_append)
    qed
  qed
qed

lemma offset_of_row_id_spec:
  assumes "\<forall>seg \<in> set segs. wf_segment seg" "length (flat_ids segs) < 2 ^ 64"
  shows "offset_of_row_id segs rid = map_option of_nat (position rid (flat_ids segs))"
  using offset_from_spec [of segs 0 rid] assms by (simp add: offset_of_row_id_def)

section \<open>What is located\<close>

text \<open>The deletion vector of a fragment that has deletions, over the contents of the store.\<close>

definition frag_dv :: "'bm roaring \<Rightarrow> (string \<Rightarrow> bytes option) \<Rightarrow> frag_locate \<Rightarrow> 'bm option result" where
  "frag_dv R v f =
     (case fl_deletes f of
        Some path \<Rightarrow>
          if fl_deleted_count f > 0
          then res_bind (vread v path) (\<lambda>bs. res_bind (dv_deserialize R bs) (\<lambda>dv. Inr (Some dv)))
          else Inr None
      | None \<Rightarrow> Inr None)"

definition live_loc :: "'bm roaring \<Rightarrow> (string \<Rightarrow> bytes option) \<Rightarrow> u64 \<Rightarrow> frag_locate \<Rightarrow> match_loc option" where
  "live_loc R v rid f =
     Option.bind (offset_of_row_id (fl_row_ids f) rid) (\<lambda>off.
       if (case frag_dv R v f of Inr (Some dv) \<Rightarrow> dv_contains R dv off | _ \<Rightarrow> False) then None
       else Some \<lparr>ml_fragment_id = fl_fragment_id f, ml_offset = off, ml_row_id = rid\<rparr>)"

definition live_locs :: "'bm roaring \<Rightarrow> (string \<Rightarrow> bytes option) \<Rightarrow> frag_locate list \<Rightarrow> u64 \<Rightarrow> match_loc list" where
  "live_locs R v frags rid = List.map_filter (live_loc R v rid) frags"

definition frags_readable :: "'bm roaring \<Rightarrow> (string \<Rightarrow> bytes option) \<Rightarrow> frag_locate list \<Rightarrow> bool" where
  "frags_readable R v frags \<longleftrightarrow> (\<forall>f \<in> set frags. \<exists>dv. frag_dv R v f = Inr dv)"

text \<open>The cache holds vectors of the fragments, under distinct fragment ids.\<close>

definition cache_ok :: "'bm roaring \<Rightarrow> (string \<Rightarrow> bytes option) \<Rightarrow> frag_locate list \<Rightarrow> (u64 \<Rightarrow> 'bm option) \<Rightarrow> bool" where
  "cache_ok R v frags cache \<longleftrightarrow>
     (\<forall>f \<in> set frags. \<forall>dv. cache (fl_fragment_id f) = Some dv \<longrightarrow> frag_dv R v f = Inr (Some dv))"

lemma cache_ok_upd:
  assumes "cache_ok R v frags cache" "distinct (map fl_fragment_id frags)" "f \<in> set frags" "frag_dv R v f = Inr (Some dv)"
  shows "cache_ok R v frags (cache(fl_fragment_id f \<mapsto> dv))"
  using assms by (auto simp: cache_ok_def distinct_map dest: inj_onD)

context storage_contract
begin

lemma frag_probe_run:
  assumes ok: "cache_ok R (view s) frags cache" and dist: "distinct (map fl_fragment_id frags)" and f: "f \<in> set frags"
    and dv: "frag_dv R (view s) f = Inr dv"
  shows "\<exists>cache'. cache_ok R (view s) frags cache' \<and> frag_probe R S rid (cache, live, n) f s
    = (Inr (case live_loc R (view s) rid f of None \<Rightarrow> (cache', live, n) | Some loc \<Rightarrow> (cache', Some loc, n + 1)), s)"
proof (cases "offset_of_row_id (fl_row_ids f) rid")
  case None
  then show ?thesis using ok by (auto simp: frag_probe_def live_loc_def)
next
  case (Some off)
  define load where "load = (case fl_deletes f of
      Some path \<Rightarrow>
        if fl_deleted_count f > 0 \<and> cache (fl_fragment_id f) = None then
          io_bind (st_read S path) (\<lambda>bs. io_bind (io_lift (dv_deserialize R bs)) (\<lambda>dv.
            io_return (cache(fl_fragment_id f \<mapsto> dv))))
        else io_return cache
    | None \<Rightarrow> io_return cache)"
  have "\<exists>cache'. load s = (Inr cache', s) \<and> cache_ok R (view s) frags cache' \<and> cache' (fl_fragment_id f) = dv"
  proof (cases "cache (fl_fragment_id f)")
    case hit: (Some d)
    then have "dv = Some d" using ok f dv by (auto simp: cache_ok_def)
    then show ?thesis using hit ok by (auto simp: load_def split: option.split)
  next
    case miss: None
    show ?thesis
    proof (cases dv)
      case None
      then have "load s = (Inr cache, s)"
        using dv by (auto simp: load_def frag_dv_def res_bind_eq_Inr split: option.splits if_splits)
      then show ?thesis using ok miss None by auto
    next
      case d: (Some d)
      then have "load s = (Inr (cache(fl_fragment_id f \<mapsto> d)), s)"
        using dv miss
        by (auto simp: load_def frag_dv_def res_bind_eq_Inr io_simps st_read_vread split: option.splits if_splits)
      then show ?thesis using cache_ok_upd [OF ok dist f] dv d by auto
    qed
  qed
  then obtain cache' where c: "load s = (Inr cache', s)" "cache_ok R (view s) frags cache'" "cache' (fl_fragment_id f) = dv"
    by blast
  then have "frag_probe R S rid (cache, live, n) f s
      = (Inr (case live_loc R (view s) rid f of None \<Rightarrow> (cache', live, n) | Some loc \<Rightarrow> (cache', Some loc, n + 1)), s)"
    using Some dv by (simp add: frag_probe_def load_def [symmetric] live_loc_def Let_def)
  then show ?thesis using c(2) by blast
qed

lemma probe_frags_run:
  assumes dist: "distinct (map fl_fragment_id frags)" and rd: "frags_readable R (view s) frags"
  shows "set fs \<subseteq> set frags \<Longrightarrow> cache_ok R (view s) frags cache \<Longrightarrow>
    \<exists>cache'. cache_ok R (view s) frags cache' \<and> io_foldM (frag_probe R S rid) (cache, live, n) fs s
      = (Inr (cache', if live_locs R (view s) fs rid = [] then live else Some (last (live_locs R (view s) fs rid)),
              n + length (live_locs R (view s) fs rid)), s)"
proof (induction fs arbitrary: cache live n)
  case Nil
  then show ?case by (auto simp: live_locs_def List.map_filter_simps)
next
  case (Cons f fs)
  obtain dv where dv: "frag_dv R (view s) f = Inr dv" using rd Cons.prems(1) by (auto simp: frags_readable_def)
  have f: "f \<in> set frags" using Cons.prems(1) by simp
  obtain c1 where c1: "cache_ok R (view s) frags c1" "frag_probe R S rid (cache, live, n) f s
      = (Inr (case live_loc R (view s) rid f of None \<Rightarrow> (c1, live, n) | Some loc \<Rightarrow> (c1, Some loc, n + 1)), s)"
    using frag_probe_run [OF Cons.prems(2) dist f dv, of rid live n] by blast
  have sub: "set fs \<subseteq> set frags" using Cons.prems(1) by simp
  show ?case
  proof (cases "live_loc R (view s) rid f")
    case None
    then show ?thesis using Cons.IH [OF sub c1(1), of live n] c1(2)
      by (auto simp: live_locs_def List.map_filter_simps io_simps)
  next
    case (Some loc)
    then show ?thesis using Cons.IH [OF sub c1(1), of "Some loc" "n + 1"] c1(2)
      by (auto simp: live_locs_def List.map_filter_simps io_simps)
  qed
qed

lemma locate_rows_run:
  assumes dist: "distinct (map fl_fragment_id frags)" and rd: "frags_readable R (view s) frags"
  shows "cache_ok R (view s) frags cache \<Longrightarrow> locate_rows R S frags cache out rids s
    = (Inr (if \<exists>rid \<in> set rids. length (live_locs R (view s) frags rid) > 1 then None
            else Some (out @ concat (map (live_locs R (view s) frags) rids))), s)"
proof (induction rids arbitrary: cache out)
  case (Cons rid rids)
  let ?l = "live_locs R (view s) frags rid"
  obtain c where c: "cache_ok R (view s) frags c" "io_foldM (frag_probe R S rid) (cache, None, 0) frags s
      = (Inr (c, if ?l = [] then None else Some (last ?l), length ?l), s)"
    using probe_frags_run [OF dist rd order_refl Cons.prems, of rid None 0] by auto
  consider "?l = []" | x where "?l = [x]" | "length ?l > 1" by (cases ?l; cases "tl ?l") auto
  then show ?case using c Cons.IH [OF c(1)] by cases (auto simp: io_simps)
qed simp

end

text \<open>The candidates of an answered predicate are the row ids of the values it accepts.\<close>

lemma first_candidates_exact:
  assumes "\<forall>i \<in> set indexes. si_stands X i (D (si_column i)) \<and> (\<forall>v. accepts (si_column i) e v \<longrightarrow> si_adm i v)"
    "first_candidates X e indexes = Inr (Some K)"
  shows "\<exists>i \<in> set indexes. K = {r. \<exists>v. accepts (si_column i) e v \<and> r \<in> D (si_column i) v}"
  using assms
proof (induction indexes)
  case (Cons i indexes)
  obtain r where r: "index_equality_lookup (si_column i) (si_lookup X i) e = Inr r"
    using Cons.prems(2) by (auto simp: res_bind_eq_Inr)
  show ?case
  proof (cases r)
    case None
    then show ?thesis using Cons r by auto
  next
    case (Some K')
    then have "K' = K" using Cons.prems(2) r by simp
    then show ?thesis using snapshot.probe_exact [of X i "D (si_column i)" e K] Cons.prems(1) r Some by auto
  qed
qed simp

end
