(* ===== verification/Index_Properties.thy ===== *)
theory Index_Properties
  imports Row_Locate Samples
begin

text \<open>
  The properties of secondary indexes: what an opened index answers, what a build and an update
  record, the uniqueness guarantee, the location of rows through an index, the database catalog,
  and two behaviours of the learned model that its callers do not expect. The storage is the
  in-memory one, whose contract the component lemmas rest on.
\<close>

section \<open>A sample index\<close>

definition sample_index :: btree_index where
  "sample_index = \<lparr>bi_definition = \<lparr>def_name = ''i'', def_table = ''t'', def_column = ''c'', def_unique = True\<rparr>,
     bi_snapshot_sequence = 3, bi_entries = [(''10'', [5]), (''20'', [6])]\<rparr>"

definition sample_delta :: tombstone_delta where
  "sample_delta = \<lparr>td_tombstoned = [5], td_adds = [(''30'', 5)]\<rparr>"

lemma plain_i [simp]: "plain_piece ''i''"
  by (simp add: plain_piece_def)

lemma sample_index_sound: "index_sound plain_ext sample_index"
proof -
  have "length (serialize plain_ext sample_index) < 1000" by code_simp
  then have "length (serialize plain_ext sample_index) < 2 ^ 64" by simp
  moreover have "\<forall>e \<in> set (bi_entries sample_index). utf8_valid (str_bytes (fst e))" by code_simp
  moreover have "\<exists>i. in_i64 i \<and> fst e = show_i64 i" if "e \<in> set (bi_entries sample_index)" for e
  proof -
    have "''10'' = show_i64 10" "''20'' = show_i64 20" by code_simp+
    moreover have "in_i64 10" "in_i64 20" by (simp_all add: in_i64_def)
    ultimately show ?thesis using that by (auto simp: sample_index_def)
  qed
  ultimately show ?thesis by (simp add: index_sound_def bin_ok_def printed_keys_def) (simp add: sample_index_def)
qed

section \<open>Opening\<close>

text \<open>
  C19: A generation whose base file is sound and whose siblings are absent or derived from the base
  can be opened, and whichever of the three forms is chosen (learned model, mapped binary file
  with the overlay of the deltas, parsed JSON with the deltas applied), a lookup answers with the
  row ids of the canonical index of the generation. Where the learned model is chosen, this is said of values spelled the way a
  64-bit integer is printed; the model takes any other spelling of a number for the same key.
\<close>

theorem index_open_exact:
  assumes "json_law X" "base_files_ok X (mem_get s) table stem b" "index_sound X b"
    "ix_base ref = Some (stem @ ''.json'')" "index_of_ref X (mem_get s) table name ref = Inr (Some ix)"
  shows "\<exists>i. open_generation X mem_storage local table name ref s = (Inr (Some i), s)
    \<and> (\<forall>v. si_adm i v \<longrightarrow> (\<exists>ids. si_lookup X i v = Inr (Some ids) \<and> set ids = set (bi_lookup ix v)))"
  using mem.open_generation_run [OF assms, of local] si_lookup_answers by blast

definition sample_catalog :: catalog_data where
  "sample_catalog = \<lparr>dc_tables = [(''t'', ''now'')],
     dc_indexes = [(''i'', \<lparr>ie_table = ''t'', ie_column = ''c'', ie_index_type = ''btree'', ie_unique = True\<rparr>),
       (''j'', \<lparr>ie_table = ''t'', ie_column = ''z'', ie_index_type = ''btree'', ie_unique = False\<rparr>)]\<rparr>"

definition sample_index_store :: memory_storage where
  "sample_index_store = \<lparr>ms_data =
     [(CATALOG_PATH, json_pretty plain_ext (catalog_data_value sample_catalog)),
      (''t/b.json'', json_pretty plain_ext (btree_index_value sample_index)),
      (''t/d.json'', json_pretty plain_ext (tombstone_delta_value sample_delta))]\<rparr>"

lemma validate_short:
  assumes "plain_piece f"
  shows "validate_path (''t/'' @ f) = Inr (''t/'' @ f)"
  using validate_join_path [of "[''t'', f]"] assms by (simp add: join_path_def)

lemma sample_reads:
  "vread (mem_get sample_index_store) (tpath ''t'' ''b.json'') = Inr (json_pretty plain_ext (btree_index_value sample_index))"
  "vread (mem_get sample_index_store) (tpath ''t'' ''b.idx'') = Inl (NotFound ''t/b.idx'')"
  "vread (mem_get sample_index_store) (tpath ''t'' ''b.model'') = Inl (NotFound ''t/b.model'')"
  "vread (mem_get sample_index_store) (tpath ''t'' ''d.json'') = Inr (json_pretty plain_ext (tombstone_delta_value sample_delta))"
  using validate_short [of "''b.json''"] validate_short [of "''b.idx''"] validate_short [of "''b.model''"]
    validate_short [of "''d.json''"]
  by (simp_all add: vread_def tpath_t plain_piece_def sample_index_store_def CATALOG_PATH_def)

lemma sample_index_wf: "bt_wf (bi_entries sample_index)"
  using sample_index_sound by (simp add: index_sound_def)

lemma sample_files: "base_files_ok plain_ext (mem_get sample_index_store) ''t'' ''b'' sample_index"
  using sample_reads by (simp add: base_files_ok_def)

lemma sample_index_of_ref:
  "index_of_ref plain_ext (mem_get sample_index_store) ''t'' ''i'' \<lparr>ix_base = Some ''b.json'', ix_deltas = [''d.json'']\<rparr>
     = Inr (Some (apply_delta sample_delta sample_index))"
proof -
  have "base_of plain_ext (mem_get sample_index_store) ''t'' ''i'' \<lparr>ix_base = Some ''b.json'', ix_deltas = [''d.json'']\<rparr>
      = Inr (Some sample_index)"
    by (rule base_of_files [OF plain_ext_law sample_files sample_index_wf]) simp
  then show ?thesis
    by (simp add: index_of_ref_def delta_of_def sample_reads parse_delta_def json_lawD(4) [OF plain_ext_law]
        tombstone_delta_roundtrip)
qed

theorem index_open_exact_witness:
  "\<exists>i. open_generation plain_ext mem_storage True ''t'' ''i'' \<lparr>ix_base = Some ''b.json'', ix_deltas = [''d.json'']\<rparr> sample_index_store
      = (Inr (Some i), sample_index_store)
    \<and> (\<forall>v. si_adm i v \<longrightarrow> (\<exists>ids. si_lookup plain_ext i v = Inr (Some ids)
        \<and> set ids = set (bi_lookup (apply_delta sample_delta sample_index) v)))"
  by (rule index_open_exact [OF plain_ext_law sample_files sample_index_sound _ sample_index_of_ref]) simp



section \<open>The binary form\<close>

text \<open>
  C25: A lookup in the binary file of an index, by bisection over its directory, finds the row ids
  the index holds for the value, for values that are present and absent.
\<close>

theorem binary_lookup_agrees:
  assumes "json_law X" "length (serialize X ix) < 2 ^ 64" "bt_wf (bi_entries ix)"
    "\<forall>e \<in> set (bi_entries ix). utf8_valid (str_bytes (fst e))"
  shows "mmap_index_lookup X (serialize X ix) v = Some (bi_lookup ix v)"
  by (rule serialize_lookup [OF assms])

theorem binary_lookup_agrees_witness:
  "mmap_index_lookup plain_ext (serialize plain_ext sample_index) ''20'' = Some (bi_lookup sample_index ''20'')"
  using sample_index_sound
  by (intro binary_lookup_agrees) (simp_all add: plain_ext_law index_sound_def bin_ok_def)

section \<open>Building and maintaining\<close>

text \<open>
  C23: A built index lists under every key, in ascending order and once each, the row ids of the
  live rows of the manifest's fragments whose column has that key; a unique index is only built
  when no key has two live rows.
\<close>

theorem index_build_exact:
  assumes "offsets_fit PQ" "build_btree_index X R PQ mem_storage d m s = (Inr ix, s')"
  shows "\<exists>K. fragments_keyed X R PQ (mem_get s) d (mf_row_groups m) = Inr K
    \<and> (\<forall>k. bi_lookup ix k = sorted_list_of_set {r. (k, r) \<in> K}) \<and> (def_unique d \<longrightarrow> single_valued K)"
  using mem.build_btree_index_run [OF assms] by blast

text \<open>A one-column file for the sample table: two keys and a null.\<close>

definition sample_column :: arrow_array where
  "sample_column = \<lparr>aa_values = Int64Values [10, 20, 0], aa_validity = Some [True, True, False]\<rparr>"

definition sample_parquet :: parquet_reader where
  "sample_parquet data = Some (\<lambda>c. if c = ''c'' then Some [Some sample_column] else None)"

lemma sample_fit: "offsets_fit sample_parquet"
  by (auto simp: offsets_fit_def sample_parquet_def column_keys_def sample_column_def split: if_splits)

definition sample_table_store :: memory_storage where
  "sample_table_store = \<lparr>ms_data =
     [(''t/rg_1.meta'', json_to_string plain_ext (row_group_meta_value sample_meta)), (''t/rg_1.parquet'', [1])]\<rparr>"

lemma sample_build:
  "build_btree_index plain_ext set_bitmap sample_parquet mem_storage (bi_definition sample_index) sample_manifest sample_table_store
     = (Inr \<lparr>bi_definition = bi_definition sample_index, bi_snapshot_sequence = 4,
            bi_entries = [(''10'', [10]), (''20'', [11])]\<rparr>, sample_table_store)"
proof -
  have reads: "st_read mem_storage (tpath ''t'' ''rg_1.meta'') sample_table_store
      = (Inr (json_to_string plain_ext (row_group_meta_value sample_meta)), sample_table_store)"
    "st_read mem_storage (tpath ''t'' ''rg_1.parquet'') sample_table_store = (Inr [1], sample_table_store)"
    using validate_short [of "''rg_1.meta''"] validate_short [of "''rg_1.parquet''"]
    by (simp_all add: mem_runs tpath_t plain_piece_def sample_table_store_def)
  have "rgm_wf sample_meta" by (simp add: rgm_wf_def sample_meta_def)
  then have meta: "parse_row_group_meta plain_ext (json_to_string plain_ext (row_group_meta_value sample_meta))
      = Some sample_meta"
    by (simp add: parse_row_group_meta_def rgm_roundtrip json_lawD [OF plain_ext_law])
  have ids: "rm_row_ids sample_meta = [Range 10 3]" "flat_ids [Range 10 3] = [10, 11, 12]"
    by (simp add: sample_meta_def) code_simp
  have adds: "column_adds (dv_contains set_bitmap (dv_default set_bitmap)) [10, 11, 12] 0 [Some sample_column]
      = Inr [(''10'', 10), (''20'', 11)]"
  proof -
    have dv: "dv_contains set_bitmap (dv_default set_bitmap) = (\<lambda>_. False)"
      by (simp add: fun_eq_iff dv_contains_def dv_default_def set_bitmap_def)
    show ?thesis unfolding dv by code_simp
  qed
  have "build_btree_index_from_adds (bi_definition sample_index) 4 [(''10'', 10), (''20'', 11)]
      = Inr \<lparr>bi_definition = bi_definition sample_index, bi_snapshot_sequence = 4, bi_entries = [(''10'', [10]), (''20'', [11])]\<rparr>"
    by code_simp
  then show ?thesis
    using reads meta ids adds
    by (simp add: build_btree_index_def collect_index_adds_for_fragments_def collect_fragment_adds_def io_simps
        sample_manifest_def sample_entry_def sample_parquet_def sample_index_def)
qed

theorem index_build_exact_witness:
  "\<exists>K. fragments_keyed plain_ext set_bitmap sample_parquet (mem_get sample_table_store) (bi_definition sample_index)
      (mf_row_groups sample_manifest) = Inr K
    \<and> (\<forall>k. bi_lookup \<lparr>bi_definition = bi_definition sample_index, bi_snapshot_sequence = 4,
            bi_entries = [(''10'', [10]), (''20'', [11])]\<rparr> k = sorted_list_of_set {r. (k, r) \<in> K})
    \<and> (def_unique (bi_definition sample_index) \<longrightarrow> single_valued K)"
  by (rule index_build_exact [OF sample_fit sample_build])

text \<open>
  C21: After an UPDATE commit every index of an updated column loads, under its new generation, as
  the old index without the updated rows and with their new keys appended; the generations of the
  other indexes of the table are untouched.
\<close>

theorem update_maintains_indexes:
  assumes X: "json_law X" and plain: "plain_piece table" "\<forall>n \<in> fst ` set (table_indexes table cat). plain_piece n"
    and cat: "dc_of X (mem_get s) = Some cat" and cols: "set_columns \<noteq> []"
    and ready: "\<forall>(name, e) \<in> set (table_indexes table cat). ie_column e \<in> set set_columns \<longrightarrow>
       map_of (mf_index_generations m) name = Some (R name)
       \<and> update_ready X (mem_get s) table (fst ` set (table_indexes table cat)) updated_rows row_ids seq (name, e)
            (R name) (I name) (A name)"
  shows "\<exists>m' w' s'. maintain_on_update X mem_storage table m set_columns updated_rows row_ids seq s = (Inr (m', w'), s')
    \<and> (\<forall>(n, e) \<in> set (table_indexes table cat). if ie_column e \<in> set set_columns
         then (\<exists>ref' ix'. map_of (mf_index_generations m') n = Some ref'
           \<and> load_index_by_ref X mem_storage table n ref' s' = (Inr (Some ix'), s')
           \<and> (\<forall>k. bi_lookup ix' k = filter (\<lambda>r. r \<notin> set row_ids) (bi_lookup (I n) k) @ adds_for (A n) k))
         else map_of (mf_index_generations m') n = map_of (mf_index_generations m) n)"
proof -
  let ?ts = "table_indexes table cat"
  obtain m' w' s' where run: "maintain_on_update X mem_storage table m set_columns updated_rows row_ids seq s = (Inr (m', w'), s')"
    and upd: "\<forall>(n, e) \<in> set ?ts. ie_column e \<in> set set_columns \<longrightarrow>
         map_of (mf_index_generations m') n = Some (add_delta n seq (R n))
         \<and> index_of_ref X (mem_get s') table n (add_delta n seq (R n))
             = Inr (Some (apply_delta \<lparr>td_tombstoned = row_ids, td_adds = A n\<rparr> (I n)))"
    and keep: "\<forall>(n, e) \<in> set ?ts. ie_column e \<notin> set set_columns \<longrightarrow>
         map_of (mf_index_generations m') n = map_of (mf_index_generations m) n"
    using mem.maintain_on_update_run [OF X plain cat cols ready] by blast
  have "\<exists>ref' ix'. map_of (mf_index_generations m') n = Some ref'
      \<and> load_index_by_ref X mem_storage table n ref' s' = (Inr (Some ix'), s')
      \<and> (\<forall>k. bi_lookup ix' k = filter (\<lambda>r. r \<notin> set row_ids) (bi_lookup (I n) k) @ adds_for (A n) k)"
    if ne: "(n, e) \<in> set ?ts" "ie_column e \<in> set set_columns" for n e
  proof -
    have "index_of_ref X (mem_get s) table n (R n) = Inr (Some (I n))" using ready ne by (auto simp: update_ready_def)
    then have "bt_wf (bi_entries (I n))" by (rule index_of_ref_wf)
    moreover have "map_of (mf_index_generations m') n = Some (add_delta n seq (R n))"
      "index_of_ref X (mem_get s') table n (add_delta n seq (R n))
         = Inr (Some (apply_delta \<lparr>td_tombstoned = row_ids, td_adds = A n\<rparr> (I n)))"
      using upd ne by auto
    ultimately show ?thesis
      using apply_delta_lookup [of "I n" "\<lparr>td_tombstoned = row_ids, td_adds = A n\<rparr>"]
      by (auto simp: mem.load_index_by_ref_run)
  qed
  then show ?thesis using run keep by (intro exI conjI) auto
qed

definition sample_ref :: index_ref where
  "sample_ref = \<lparr>ix_base = Some ''b.json'', ix_deltas = []\<rparr>"

definition sample_update :: "string \<Rightarrow> arrow_array option" where
  "sample_update = [''c'' \<mapsto> \<lparr>aa_values = Int64Values [30], aa_validity = None\<rparr>]"

lemma sample_catalog_of: "dc_of plain_ext (mem_get sample_index_store) = Some sample_catalog"
  using catalog_data_roundtrip [of sample_catalog]
  by (simp add: dc_of_def sample_index_store_def json_lawD(4) [OF plain_ext_law]) (simp add: sample_catalog_def)

lemma sample_ref_of:
  "index_of_ref plain_ext (mem_get sample_index_store) ''t'' ''i'' sample_ref = Inr (Some sample_index)"
proof -
  have "base_of plain_ext (mem_get sample_index_store) ''t'' ''i'' sample_ref = Inr (Some sample_index)"
    by (rule base_of_files [OF plain_ext_law sample_files sample_index_wf]) (simp add: sample_ref_def)
  then show ?thesis by (simp add: index_of_ref_def sample_ref_def)
qed

lemma sample_ref_fresh:
  assumes "n \<in> {''i'', ''j''}"
  shows "\<forall>raw \<in> ref_files ''t'' ''i'' sample_ref. \<forall>p \<in> delta_paths ''t'' n seq. validate_path raw \<noteq> Inr p"
proof -
  have "ref_files ''t'' ''i'' sample_ref = {''t/b.json'', ''t/_indexes/i.json''}"
    by (auto simp: ref_files_def sample_ref_def INDEXES_DIR_def tpath_t ends_with_def)
  moreover have "validate_path ''t/b.json'' = Inr ''t/b.json''" "validate_path ''t/_indexes/i.json'' = Inr ''t/_indexes/i.json''"
    using validate_join_path [of "[''t'', ''b.json'']"] validate_join_path [of "[''t'', ''_indexes'', ''i.json'']"]
    by (simp_all add: join_path_def plain_piece_def)
  moreover have "index_file ''t'' n f \<noteq> ''t/b.json''" "index_file ''t'' n f \<noteq> ''t/_indexes/i.json''" for f
    using assms by (auto simp: index_file_def tpath_t INDEXES_DIR_def)
  ultimately show ?thesis by (simp add: eq_commute [of _ "index_file _ _ _"])
qed

lemma sample_update_ready:
  "update_ready plain_ext (mem_get sample_index_store) ''t'' {''i'', ''j''} sample_update [5] 9
     (''i'', the (map_of (dc_indexes sample_catalog) ''i'')) sample_ref sample_index [(''30'', 5)]"
proof -
  have "update_adds \<lparr>aa_values = Int64Values [30], aa_validity = None\<rparr> (enumerate 0 [5]) = Inr [(''30'', 5)]" by code_simp
  moreover have "check_unique_adds (entry_definition ''i'' (the (map_of (dc_indexes sample_catalog) ''i''))) sample_index [(''30'', 5)] [5]
      = Inr ()" by code_simp
  ultimately show ?thesis
    using sample_ref_of sample_ref_fresh
    by (simp add: update_ready_def sample_update_def sample_catalog_def)
qed

theorem update_maintains_indexes_witness:
  "\<exists>m' w' s'. maintain_on_update plain_ext mem_storage ''t'' (set_generation ''i'' sample_ref sample_manifest) [''c'']
       sample_update [5] 9 sample_index_store = (Inr (m', w'), s')
    \<and> (\<forall>(n, e) \<in> set (table_indexes ''t'' sample_catalog). if ie_column e \<in> set [''c'']
         then (\<exists>ref' ix'. map_of (mf_index_generations m') n = Some ref'
           \<and> load_index_by_ref plain_ext mem_storage ''t'' n ref' s' = (Inr (Some ix'), s')
           \<and> (\<forall>k. bi_lookup ix' k = filter (\<lambda>r. r \<notin> set [5]) (bi_lookup sample_index k) @ adds_for [(''30'', 5)] k))
         else map_of (mf_index_generations m') n
            = map_of (mf_index_generations (set_generation ''i'' sample_ref sample_manifest)) n)"
proof (rule update_maintains_indexes [OF plain_ext_law plain_t _ sample_catalog_of,
      where R = "\<lambda>_. sample_ref" and I = "\<lambda>_. sample_index" and A = "\<lambda>_. [(''30'', 5)]"])
  have names: "fst ` set (table_indexes ''t'' sample_catalog) = {''i'', ''j''}"
    by (auto simp: table_indexes_def sample_catalog_def)
  show "\<forall>n \<in> fst ` set (table_indexes ''t'' sample_catalog). plain_piece n"
    unfolding names by (simp add: plain_piece_def)
  show "\<forall>(name, e) \<in> set (table_indexes ''t'' sample_catalog). ie_column e \<in> set [''c''] \<longrightarrow>
      map_of (mf_index_generations (set_generation ''i'' sample_ref sample_manifest)) name = Some sample_ref
      \<and> update_ready plain_ext (mem_get sample_index_store) ''t'' (fst ` set (table_indexes ''t'' sample_catalog))
          sample_update [5] 9 (name, e) sample_ref sample_index [(''30'', 5)]"
    unfolding names using sample_update_ready
    by (simp add: table_indexes_def sample_catalog_def map_of_set_generation)
qed simp

text \<open>
  C22: Maintaining a unique index with the keys of a commit either extends its generation to one
  that loads as an index with at most one row id per key, or fails with a uniqueness violation
  and changes nothing.
\<close>

theorem unique_index_kept:
  assumes X: "json_law X" and plain: "plain_piece table" "plain_piece (def_name d)" and u: "def_unique d"
    and ix: "index_of_ref X (mem_get s) table (def_name d) ref = Inr (Some ix)" "unique_index ix"
    and fresh: "\<forall>raw \<in> ref_files table (def_name d) ref. \<forall>p \<in> delta_paths table (def_name d) seq. validate_path raw \<noteq> Inr p"
  shows "(\<exists>m' w' s' ref' ix'. delta_step X mem_storage table seq d ref adds row_ids (m, w) s = (Inr (m', w'), s')
      \<and> map_of (mf_index_generations m') (def_name d) = Some ref'
      \<and> load_index_by_ref X mem_storage table (def_name d) ref' s' = (Inr (Some ix'), s') \<and> unique_index ix')
    \<or> (\<exists>k. delta_step X mem_storage table seq d ref adds row_ids (m, w) s
        = (Inl (UniqueKeyViolation (def_table d) (def_name d) k), s))"
proof (cases "check_unique_adds d ix adds row_ids")
  case (Inl e)
  then show ?thesis
    using check_unique_adds_error [OF Inl] mem.delta_step_rejects [OF ix(1) u _ Inl] by auto
next
  case (Inr x)
  then have ok: "check_unique_adds d ix adds row_ids = Inr ()" by simp
  let ?td = "\<lparr>td_tombstoned = row_ids, td_adds = adds\<rparr>"
  obtain s' where "delta_step X mem_storage table seq d ref adds row_ids (m, w) s
      = (Inr (set_generation (def_name d) (add_delta (def_name d) seq ref) m, w @ [td_versioned_filename (def_name d) seq]), s')"
    "index_of_ref X (mem_get s') table (def_name d) (add_delta (def_name d) seq ref) = Inr (Some (apply_delta ?td ix))"
    using mem.delta_step_run [OF X plain ix(1) fresh ok] by blast
  moreover have "unique_index (apply_delta ?td ix)"
    using unique_preserved [OF index_of_ref_wf [OF ix(1)] ix(2) u, of ?td] ok by simp
  ultimately show ?thesis by (auto simp: mem.load_index_by_ref_run map_of_set_generation)
qed

lemma sample_index_unique: "unique_index sample_index"
  by (simp add: unique_index_def bi_lookup_def bt_list_def sample_index_def)

theorem unique_index_kept_witness:
  "(\<exists>m' w' s' ref' ix'. delta_step plain_ext mem_storage ''t'' 9 (bi_definition sample_index) sample_ref [(''20'', 7)] []
        (sample_manifest, []) sample_index_store = (Inr (m', w'), s')
      \<and> map_of (mf_index_generations m') (def_name (bi_definition sample_index)) = Some ref'
      \<and> load_index_by_ref plain_ext mem_storage ''t'' (def_name (bi_definition sample_index)) ref' s' = (Inr (Some ix'), s')
      \<and> unique_index ix')
    \<or> (\<exists>k. delta_step plain_ext mem_storage ''t'' 9 (bi_definition sample_index) sample_ref [(''20'', 7)] []
        (sample_manifest, []) sample_index_store
        = (Inl (UniqueKeyViolation (def_table (bi_definition sample_index)) (def_name (bi_definition sample_index)) k), sample_index_store))"
proof -
  have n: "def_name (bi_definition sample_index) = ''i''" "def_unique (bi_definition sample_index)"
    by (simp_all add: sample_index_def)
  show ?thesis
    by (rule unique_index_kept [OF plain_ext_law plain_t _ n(2)])
      (use n sample_ref_of sample_index_unique sample_ref_fresh in simp_all)
qed

section \<open>Locating rows\<close>

text \<open>
  C20: When the first index that answers the predicate of a DELETE or UPDATE gives candidates, the located rows are exactly the
  live physical locations of the row ids that the index holds for the values the predicate
  accepts. The call leaves the predicate to a scan when no index answers it, and when a candidate has more than one live location;
  a candidate without a live location is skipped. A learned index is asked only for values spelled the way a 64-bit integer is printed.
\<close>

theorem locate_exact:
  assumes order: "\<forall>K. set (order K) = K" and dist: "distinct (map fl_fragment_id frags)"
    and rd: "frags_readable R (mem_get s) frags"
    and ixs: "\<forall>i \<in> set indexes. si_stands X i (D (si_column i)) \<and> (\<forall>v. accepts (si_column i) e v \<longrightarrow> si_adm i v)"
    and cand: "first_candidates X e indexes = Inr cand"
  shows "\<exists>r. try_locate_by_index X R order mem_storage indexes frags e s = (Inr r, s)
    \<and> (r = None \<longleftrightarrow> cand = None \<or> (\<exists>rid \<in> the cand. 1 < length (live_locs R (mem_get s) frags rid)))
    \<and> (\<forall>locs. r = Some locs \<longrightarrow> set locs = (\<Union>rid \<in> the cand. set (live_locs R (mem_get s) frags rid)))
    \<and> (\<forall>K. cand = Some K \<longrightarrow> (\<exists>i \<in> set indexes. K = {rid. \<exists>v. accepts (si_column i) e v \<and> rid \<in> D (si_column i) v}))"
proof (cases cand)
  case None
  then show ?thesis using cand by (simp add: try_locate_by_index_def io_simps)
next
  case (Some K)
  have "cache_ok R (mem_get s) frags Map.empty" by (simp add: cache_ok_def)
  then have "try_locate_by_index X R order mem_storage indexes frags e s
      = (Inr (if \<exists>rid \<in> K. 1 < length (live_locs R (mem_get s) frags rid) then None
              else Some (concat (map (live_locs R (mem_get s) frags) (order K)))), s)"
    using mem.locate_rows_run [OF dist rd, of Map.empty "[]" "order K"] cand Some order
    by (simp add: try_locate_by_index_def io_simps)
  then show ?thesis using first_candidates_exact [OF ixs cand [unfolded Some]] order Some by auto
qed

definition sample_frags :: "frag_locate list" where
  "sample_frags = [\<lparr>fl_fragment_id = 7, fl_row_ids = [Range 5 1], fl_deletes = None, fl_deleted_count = 0\<rparr>]"

theorem locate_exact_witness:
  "\<exists>r. try_locate_by_index plain_ext set_bitmap sorted_list_of_set mem_storage [JsonIndex sample_index] sample_frags
        (EEq (EColumn ''c'') (ELiteral (SInt64 (Some 10)))) sample_index_store = (Inr r, sample_index_store)
    \<and> (r = None \<longleftrightarrow> Some {5 :: u64} = None \<or> (\<exists>rid \<in> the (Some {5}). 1 < length (live_locs set_bitmap (mem_get sample_index_store) sample_frags rid)))
    \<and> (\<forall>locs. r = Some locs \<longrightarrow> set locs = (\<Union>rid \<in> the (Some {5}). set (live_locs set_bitmap (mem_get sample_index_store) sample_frags rid)))
    \<and> (\<forall>K. Some {5} = Some K \<longrightarrow> (\<exists>i \<in> set [JsonIndex sample_index]. K = {rid. \<exists>v. accepts (si_column i) (EEq (EColumn ''c'') (ELiteral (SInt64 (Some 10)))) v
         \<and> rid \<in> (\<lambda>_ v. set (bi_lookup sample_index v)) (si_column i) v}))"
proof (rule locate_exact)
  have "show_i64 10 = ''10''" by code_simp
  then show "first_candidates plain_ext (EEq (EColumn ''c'') (ELiteral (SInt64 (Some 10)))) [JsonIndex sample_index] = Inr (Some {5})"
    by (simp add: bi_lookup_def bt_list_def sample_index_def)
qed (simp_all add: sample_frags_def frags_readable_def frag_dv_def)

section \<open>What the learned model does not promise\<close>

definition text_index :: btree_index where
  "text_index = \<lparr>bi_definition = \<lparr>def_name = ''i'', def_table = ''t'', def_column = ''c'', def_unique = False\<rparr>,
     bi_snapshot_sequence = 3, bi_entries = [(''1'', [5]), (''2'', [6])]\<rparr>"

text \<open>
  The learned model compares keys as numbers. A text column with the keys \<^verbatim>\<open>1\<close> and \<^verbatim>\<open>2\<close> is
  fitted, and the predicate for the value \<^verbatim>\<open>01\<close>, which no row has, yields the row of the key
  \<^verbatim>\<open>1\<close> as its candidate; the parsed index yields none. Locating rows for a DELETE does not check
  the candidates again.
\<close>

theorem learned_model_ignores_spelling:
  "\<exists>m. km_fit text_index = Some m
    \<and> first_candidates plain_ext (EEq (EColumn ''c'') (ELiteral (SUtf8 (Some ''01'')))) [LearnedIndex (bi_definition text_index) m]
        = Inr (Some {5})
    \<and> first_candidates plain_ext (EEq (EColumn ''c'') (ELiteral (SUtf8 (Some ''01'')))) [JsonIndex text_index]
        = Inr (Some {})"
proof -
  have fit: "km_fit text_index = Some \<lparr>km_key_base = 1, km_key_stride = 1, km_rid_base = 5, km_rid_stride = 1, km_count = 2\<rparr>"
    using km_fit_two [of text_index "''1''" 5 "''2''" 6 1 2]
    by (simp add: text_index_def parse_i64_def checked_def in_i64_def digit_val_def)
  have "km_lookup \<lparr>km_key_base = 1, km_key_stride = 1, km_rid_base = 5, km_rid_stride = 1, km_count = 2\<rparr> ''01'' = Inr [5]"
    by (simp add: km_lookup_def parse_i64_def checked_def in_i64_def digit_val_def)
  then show ?thesis using fit by (simp add: text_index_def bi_lookup_def bt_list_def)
qed

text \<open>
  C40: Saving an index whose keys do not fit a model over a legacy base whose keys did leaves the old
  model file in place, and the next open takes that model for the index.
\<close>

theorem stale_model_opened:
  assumes X: "json_law X" and plain: "plain_piece (def_table (bi_definition ix))" "plain_piece (def_name (bi_definition ix))"
    and old: "mem_get s (tpath (def_table (bi_definition ix)) (legacy_stem (def_name (bi_definition ix)) @ ''.model''))
        = Some (json_to_string X (learned_index_file_value (bi_definition ix) m))" "km_fit ix0 = Some m"
    and new: "km_fit ix = None"
  shows "\<exists>s'. bi_save X mem_storage local ix s = (Inr (), s')
    \<and> open_legacy X mem_storage local (def_table (bi_definition ix)) (def_name (bi_definition ix)) s'
        = (Inr (Some (LearnedIndex (bi_definition ix) m)), s')"
proof -
  obtain s' where "bi_save X mem_storage local ix s = (Inr (), s')"
    "load_learned_model X mem_storage (def_table (bi_definition ix)) (bi_legacy_filename (def_name (bi_definition ix))) s'
       = (Inr (Some (bi_definition ix, m)), s')"
    using mem.save_keeps_stale_model [OF X plain old(1) km_fit_range [OF old(2)] new] by blast
  then show ?thesis by (auto simp: open_legacy_def try_learned_def io_simps definition_matches_def)
qed

theorem stale_model_opened_witness:
  "\<exists>s'. bi_save plain_ext mem_storage True (sample_index\<lparr>bi_entries := [(''a'', [5])]\<rparr>)
        \<lparr>ms_data = [(''t/_indexes/i.model'', json_to_string plain_ext (learned_index_file_value (bi_definition sample_index)
           (the (km_fit sample_index))))]\<rparr> = (Inr (), s')
    \<and> open_legacy plain_ext mem_storage True (def_table (bi_definition (sample_index\<lparr>bi_entries := [(''a'', [5])]\<rparr>)))
        (def_name (bi_definition (sample_index\<lparr>bi_entries := [(''a'', [5])]\<rparr>))) s'
        = (Inr (Some (LearnedIndex (bi_definition (sample_index\<lparr>bi_entries := [(''a'', [5])]\<rparr>)) (the (km_fit sample_index)))), s')"
proof (rule stale_model_opened [OF plain_ext_law])
  have "km_fit sample_index = Some \<lparr>km_key_base = 10, km_key_stride = 10, km_rid_base = 5, km_rid_stride = 1, km_count = 2\<rparr>"
    using km_fit_two [of sample_index "''10''" 5 "''20''" 6 10 20]
    by (simp add: sample_index_def parse_i64_def checked_def in_i64_def digit_val_def)
  then show "km_fit sample_index = Some (the (km_fit sample_index))" by simp
  show "km_fit (sample_index\<lparr>bi_entries := [(''a'', [5])]\<rparr>) = None"
    by (simp add: km_fit_def model_pair_def parse_i64_def digit_val_def)
qed (simp_all add: sample_index_def legacy_stem_def INDEXES_DIR_def tpath_t)

section \<open>The catalog\<close>

text \<open>
  The database catalog behaves as a map of index definitions: a new name is added and listed
  with its entry, a name in use is refused, dropping removes exactly the named entry, and a refused
  call changes nothing. The tables are not affected.
\<close>

theorem index_definitions_are_a_map:
  assumes "json_law X" "dc_of X (mem_get s) = Some d"
  shows "if map_of (dc_indexes d) name \<noteq> None
    then create_index_definition_with_options X mem_storage name table column ty u s = (Inl (TableAlreadyExists name), s)
      \<and> (\<exists>s' l. drop_index_definition X mem_storage name s = (Inr (), s')
          \<and> list_index_definitions X mem_storage s' = (Inr l, s') \<and> map_of l = (map_of (dc_indexes d))(name := None)
          \<and> list_tables X mem_storage s' = (Inr (map fst (dc_tables d)), s'))
    else drop_index_definition X mem_storage name s = (Inl (TableNotFound name), s)
      \<and> (\<exists>s' l. create_index_definition_with_options X mem_storage name table column ty u s = (Inr (), s')
          \<and> list_index_definitions X mem_storage s' = (Inr l, s')
          \<and> map_of l = (map_of (dc_indexes d))(name \<mapsto>
              \<lparr>ie_table = table, ie_column = column, ie_index_type = ty, ie_unique = u\<rparr>)
          \<and> list_tables X mem_storage s' = (Inr (map fst (dc_tables d)), s'))"
  using mem.create_index_run [OF assms, of name table column ty u] mem.drop_index_run [OF assms, of name]
  by (auto simp: list_index_definitions_def list_tables_def io_simps mem.dc_load_run)

theorem index_definitions_are_a_map_witness:
  "if map_of (dc_indexes sample_catalog) ''k'' \<noteq> None
    then create_index_definition_with_options plain_ext mem_storage ''k'' ''t'' ''c'' ''btree'' True sample_index_store
        = (Inl (TableAlreadyExists ''k''), sample_index_store)
      \<and> (\<exists>s' l. drop_index_definition plain_ext mem_storage ''k'' sample_index_store = (Inr (), s')
          \<and> list_index_definitions plain_ext mem_storage s' = (Inr l, s')
          \<and> map_of l = (map_of (dc_indexes sample_catalog))(''k'' := None)
          \<and> list_tables plain_ext mem_storage s' = (Inr (map fst (dc_tables sample_catalog)), s'))
    else drop_index_definition plain_ext mem_storage ''k'' sample_index_store = (Inl (TableNotFound ''k''), sample_index_store)
      \<and> (\<exists>s' l. create_index_definition_with_options plain_ext mem_storage ''k'' ''t'' ''c'' ''btree'' True sample_index_store
            = (Inr (), s')
          \<and> list_index_definitions plain_ext mem_storage s' = (Inr l, s')
          \<and> map_of l = (map_of (dc_indexes sample_catalog))(''k'' \<mapsto>
              \<lparr>ie_table = ''t'', ie_column = ''c'', ie_index_type = ''btree'', ie_unique = True\<rparr>)
          \<and> list_tables plain_ext mem_storage s' = (Inr (map fst (dc_tables sample_catalog)), s'))"
  by (rule index_definitions_are_a_map [OF plain_ext_law sample_catalog_of])

end
