(* ===== verification/Crash_Model.thy ===== *)
theory Crash_Model
  imports Gc
begin

text \<open>
  Programs over a store that can stop at any point. \<open>traced\<close> wraps a storage so that it records every
  state of the disk a program passes through, partly written files included: a crash leaves the
  disk in one of them. The locale \<open>protected_storage\<close> states which calls keep an invariant of
  the disk that constrains some of its files, and the rules \<open>keeps\<close> carry the
  invariant through the programs; it is interpreted on the traced storage.
\<close>

section \<open>Invariants of programs\<close>

definition keeps :: "('s \<Rightarrow> bool) \<Rightarrow> ('s, 'a) io \<Rightarrow> bool" where
  "keeps J m \<longleftrightarrow> (\<forall>s r s'. J s \<longrightarrow> m s = (r, s') \<longrightarrow> J s')"

named_theorems keeps_rules "rules that carry an invariant of the store through a program"

lemma keepsD: "keeps J m \<Longrightarrow> J s \<Longrightarrow> m s = (r, s') \<Longrightarrow> J s'"
  by (auto simp: keeps_def)

lemma keeps_return [keeps_rules]: "keeps J (io_return a)"
  by (simp add: keeps_def)

lemma keeps_throw [keeps_rules]: "keeps J (io_throw e)"
  by (simp add: keeps_def)

lemma keeps_lift [keeps_rules]: "keeps J (io_lift r)"
  by (simp add: keeps_def)

lemma keeps_bind [keeps_rules]:
  assumes "keeps J m" "\<And>a. keeps J (f a)"
  shows "keeps J (io_bind m f)"
  unfolding keeps_def
proof (intro allI impI)
  fix s r s' assume s: "J s" and run: "io_bind m f s = (r, s')"
  obtain x s1 where x: "m s = (x, s1)" by (cases "m s")
  then have s1: "J s1" using assms(1) s by (auto dest: keepsD)
  show "J s'"
    using run x s1 by (cases x) (auto dest: keepsD [OF assms(2)])
qed

lemma keeps_then [keeps_rules]: "keeps J m \<Longrightarrow> keeps J n \<Longrightarrow> keeps J (io_then m n)"
  unfolding io_then_def by (rule keeps_bind)

lemma keeps_try [keeps_rules]: "keeps J m \<Longrightarrow> keeps J (io_try m)"
  unfolding keeps_def
proof (intro allI impI)
  fix s r s' assume "\<forall>s r s'. J s \<longrightarrow> m s = (r, s') \<longrightarrow> J s'" "J s" "io_try m s = (r, s')"
  then show "J s'" by (cases "m s") (auto simp: io_try_def)
qed

lemma keeps_foldM: "(\<And>b x. x \<in> set xs \<Longrightarrow> keeps J (f b x)) \<Longrightarrow> keeps J (io_foldM f b xs)"
  by (induction xs arbitrary: b) (auto intro: keeps_rules)

lemma keeps_if [keeps_rules]: "(c \<Longrightarrow> keeps J m) \<Longrightarrow> (\<not> c \<Longrightarrow> keeps J n) \<Longrightarrow> keeps J (if c then m else n)"
  by simp

lemma keeps_case_option [keeps_rules]:
  "(x = None \<Longrightarrow> keeps J m) \<Longrightarrow> (\<And>a. x = Some a \<Longrightarrow> keeps J (f a)) \<Longrightarrow>
   keeps J (case x of None \<Rightarrow> m | Some a \<Rightarrow> f a)"
  by (cases x) simp_all

lemma keeps_case_sum [keeps_rules]:
  "(\<And>e. x = Inl e \<Longrightarrow> keeps J (f e)) \<Longrightarrow> (\<And>a. x = Inr a \<Longrightarrow> keeps J (g a)) \<Longrightarrow>
   keeps J (case x of Inl e \<Rightarrow> f e | Inr a \<Rightarrow> g a)"
  by (cases x) simp_all

lemma keeps_case_prod [keeps_rules]: "(\<And>a b. x = (a, b) \<Longrightarrow> keeps J (f a b)) \<Longrightarrow> keeps J (case x of (a, b) \<Rightarrow> f a b)"
  by (cases x) simp

lemma keeps_let [keeps_rules]: "(\<And>a. keeps J (f a)) \<Longrightarrow> keeps J (let a = x in f a)"
  by simp

section \<open>Constrained files\<close>

text \<open>
  \<open>G p x\<close> says that the file \<open>p\<close> may have the contents \<open>x\<close> (\<open>None\<close>: it does not exist). A path is
  free when it may have any.
\<close>

definition free_path :: "(string \<Rightarrow> bytes option \<Rightarrow> bool) \<Rightarrow> string \<Rightarrow> bool" where
  "free_path G raw \<longleftrightarrow> (\<forall>p x. validate_path raw = Inr p \<longrightarrow> G p x)"

definition deletable :: "(string \<Rightarrow> bytes option \<Rightarrow> bool) \<Rightarrow> string \<Rightarrow> bool" where
  "deletable G raw \<longleftrightarrow> (\<forall>p. validate_path raw = Inr p \<longrightarrow> G p None)"

lemma free_deletable [simp]: "free_path G raw \<Longrightarrow> deletable G raw"
  by (simp add: free_path_def deletable_def)

locale protected_storage =
  fixes S :: "'s storage" and J :: "'s \<Rightarrow> bool" and G :: "string \<Rightarrow> bytes option \<Rightarrow> bool"
  assumes keeps_read [keeps_rules]: "keeps J (st_read S raw)"
    and keeps_size [keeps_rules]: "keeps J (st_size S raw)"
    and keeps_read_range [keeps_rules]: "keeps J (st_read_range S raw off n)"
    and keeps_list [keeps_rules]: "keeps J (st_list S raw)"
    and keeps_exists [keeps_rules]: "keeps J (st_exists S raw)"
    and keeps_sync [keeps_rules]: "keeps J (st_sync S raw)"
    and keeps_write: "free_path G raw \<Longrightarrow> keeps J (st_write S raw b)"
    and keeps_append: "free_path G raw \<Longrightarrow> keeps J (st_append S raw b)"
    and keeps_delete: "deletable G raw \<Longrightarrow> keeps J (st_delete S raw)"
    and keeps_rename: "deletable G rf \<Longrightarrow> free_path G rt \<Longrightarrow> keeps J (st_rename S rf rt)"
    and read_allowed: "J s \<Longrightarrow> st_read S raw s = (Inr b, s') \<Longrightarrow> validate_path raw = Inr p \<Longrightarrow> G p (Some b)"
    and listed: "J s \<Longrightarrow> validate_path d = Inr d \<Longrightarrow> st_list S d s = (Inr es, s') \<Longrightarrow>
      e \<in> set es \<Longrightarrow> validate_path e = Inr e \<and> direct d e"
begin

lemmas protected_rules = keeps_rules keeps_write keeps_append keeps_delete keeps_rename

lemma keeps_list_or_empty [keeps_rules]: "keeps J (list_or_empty S d)"
  unfolding list_or_empty_def by (intro keeps_rules)

text \<open>A loop over the entries of a directory.\<close>

lemma keeps_listed:
  assumes d: "validate_path d = Inr d"
    and g: "\<And>es. (\<And>e. e \<in> set es \<Longrightarrow> validate_path e = Inr e \<and> direct d e) \<Longrightarrow> keeps J (g es)"
  shows "keeps J (io_bind (list_or_empty S d) g)"
  unfolding keeps_def
proof (intro allI impI)
  fix s r s' assume s: "J s" and run: "io_bind (list_or_empty S d) g s = (r, s')"
  obtain x s1 where x: "list_or_empty S d s = (x, s1)" by (cases "list_or_empty S d s")
  have s1: "J s1" by (rule keepsD [OF keeps_list_or_empty s x])
  show "J s'"
  proof (cases x)
    case (Inl e)
    then show ?thesis using run x s1 by simp
  next
    case (Inr es)
    obtain y s2 where y: "st_list S d s = (y, s2)" by (cases "st_list S d s")
    have "validate_path e = Inr e \<and> direct d e" if "e \<in> set es" for e
      using that x y Inr listed [OF s d] unfolding list_or_empty_def
      by (cases y) (auto simp: io_bind_run io_try_run split: if_splits)
    then have "keeps J (g es)" by (rule g)
    then show ?thesis using run x Inr s1 by (auto dest: keepsD)
  qed
qed

end

section \<open>A storage that records the disk\<close>

record 's traced =
  tr_disk :: 's
  tr_seen :: "'s list"

text \<open>
  A deletion or a rename happens or does not; a write or an append also passes through the
  states in which only a part of its bytes has arrived. Calls that only read are not recorded.
  The states follow each other in the order of the program: they are what a crash of the process can
  leave. That a machine may lose or reorder writes that were not yet synchronised is not modelled.
\<close>

definition traced_read :: "('s, 'a) io \<Rightarrow> ('s traced, 'a) io" where
  "traced_read m t = (case m (tr_disk t) of (r, s') \<Rightarrow> (r, t\<lparr>tr_disk := s'\<rparr>))"

definition traced_step :: "('s, unit) io \<Rightarrow> ('s traced, unit) io" where
  "traced_step m t =
     (case m (tr_disk t) of
        (Inl e, s') \<Rightarrow> (Inl e, t\<lparr>tr_disk := s'\<rparr>)
      | (Inr u, s') \<Rightarrow> (Inr u, \<lparr>tr_disk = s', tr_seen = tr_seen t @ [s']\<rparr>))"

definition traced_write :: "(bytes \<Rightarrow> ('s, unit) io) \<Rightarrow> bytes \<Rightarrow> ('s traced, unit) io" where
  "traced_write m b t =
     (case m b (tr_disk t) of
        (r, s') \<Rightarrow> (r, \<lparr>tr_disk = s',
          tr_seen = tr_seen t @ map (\<lambda>k. snd (m (take k b) (tr_disk t))) [0..<length b] @ [s']\<rparr>))"

definition traced :: "'s storage \<Rightarrow> 's traced storage" where
  "traced S =
     \<lparr>st_read = (\<lambda>raw. traced_read (st_read S raw)),
      st_size = (\<lambda>raw. traced_read (st_size S raw)),
      st_read_range = (\<lambda>raw off n. traced_read (st_read_range S raw off n)),
      st_write = (\<lambda>raw. traced_write (st_write S raw)),
      st_append = (\<lambda>raw. traced_write (st_append S raw)),
      st_delete = (\<lambda>raw. traced_step (st_delete S raw)),
      st_rename = (\<lambda>rf rt. traced_step (st_rename S rf rt)),
      st_list = (\<lambda>raw. traced_read (st_list S raw)),
      st_exists = (\<lambda>raw. traced_read (st_exists S raw)),
      st_sync = (\<lambda>raw. traced_read (st_sync S raw))\<rparr>"

lemma traced_sel [simp]:
  "st_read (traced S) raw = traced_read (st_read S raw)"
  "st_size (traced S) raw = traced_read (st_size S raw)"
  "st_read_range (traced S) raw off n = traced_read (st_read_range S raw off n)"
  "st_write (traced S) raw = traced_write (st_write S raw)"
  "st_append (traced S) raw = traced_write (st_append S raw)"
  "st_delete (traced S) raw = traced_step (st_delete S raw)"
  "st_rename (traced S) raw to = traced_step (st_rename S raw to)"
  "st_list (traced S) raw = traced_read (st_list S raw)"
  "st_exists (traced S) raw = traced_read (st_exists S raw)"
  "st_sync (traced S) raw = traced_read (st_sync S raw)"
  by (simp_all add: traced_def)

lemma traced_read_pure: "m (tr_disk t) = (r, tr_disk t) \<Longrightarrow> traced_read m t = (r, t)"
  by (simp add: traced_read_def)

abbreviation traced_mem :: "memory_storage traced storage" where
  "traced_mem \<equiv> traced mem_storage"

text \<open>Recording does not change what a program does.\<close>

interpretation tmem: storage_contract traced_mem "\<lambda>t. mem_get (tr_disk t)"
proof unfold_locales
  fix raw p d rf f rt t :: string and e b and s :: "memory_storage traced"
  show "st_read traced_mem raw s = (Inl e, s)" if "validate_path raw = Inl e"
    unfolding traced_sel by (rule traced_read_pure) (rule mem.invalid_read [OF that])
  show "st_delete traced_mem raw s = (Inl e, s)" if "validate_path raw = Inl e"
    using mem.invalid_delete [OF that] by (simp add: traced_step_def del: mem_storage_sel)
  show "st_sync traced_mem raw s = (Inr (), s)"
    unfolding traced_sel by (rule traced_read_pure) (rule mem.sync_law)
  show "finite (dom (mem_get (tr_disk s)))" by (rule finite_dom_map_of)
  show "\<exists>s'. st_rename traced_mem rf rt s = (Inr (), s')
      \<and> mem_get (tr_disk s') = (mem_get (tr_disk s))(f := None, t \<mapsto> b)"
    if "validate_path rf = Inr f" "validate_path rt = Inr t" "mem_get (tr_disk s) f = Some b"
    using mem.rename_law [OF that] by (auto simp: traced_step_def simp del: mem_storage_sel)
  assume v: "validate_path raw = Inr p"
  show "st_read traced_mem raw s = (ok_or (mem_get (tr_disk s) p) (NotFound p), s)"
    unfolding traced_sel by (rule traced_read_pure) (rule mem.read_law [OF v])
  show "\<exists>s'. st_write traced_mem raw b s = (Inr (), s')
      \<and> mem_get (tr_disk s') = (mem_get (tr_disk s))(p \<mapsto> b)"
    using mem.write_law [OF v, of b "tr_disk s"] by (auto simp: traced_write_def simp del: mem_storage_sel)
  show "\<exists>s'. st_append traced_mem raw b s = (Inr (), s')
      \<and> mem_get (tr_disk s') = (mem_get (tr_disk s))
          (p \<mapsto> (case mem_get (tr_disk s) p of None \<Rightarrow> [] | Some e \<Rightarrow> e) @ b)"
    using mem.append_law [OF v, of b "tr_disk s"] by (auto simp: traced_write_def simp del: mem_storage_sel)
  show "\<exists>s'. st_delete traced_mem raw s
        = ((if mem_get (tr_disk s) p = None then Inl (NotFound p) else Inr ()), s')
      \<and> mem_get (tr_disk s') = (mem_get (tr_disk s))(p := None)"
    using mem.delete_law [OF v, of "tr_disk s"]
    by (cases "mem_get (tr_disk s) p = None") (auto simp: traced_step_def simp del: mem_storage_sel)
  show "st_exists traced_mem raw s = (Inr (mem_get (tr_disk s) p \<noteq> None), s)"
    unfolding traced_sel by (rule traced_read_pure) (rule mem.exists_law [OF v])
  show "st_list traced_mem raw s =
      (if dir_children p (dom (mem_get (tr_disk s))) = {} then Inl (NotFound p)
       else Inr (sorted_list_of_set (dir_children p (dom (mem_get (tr_disk s))))), s)" if "raw = p"
    unfolding traced_sel by (rule traced_read_pure) (rule mem.list_law [OF v that])
qed

section \<open>Disks whose files are as allowed\<close>

definition disk_ok :: "(string \<Rightarrow> bytes option \<Rightarrow> bool) \<Rightarrow> memory_storage \<Rightarrow> bool" where
  "disk_ok G d \<longleftrightarrow> clean_keys (dom (mem_get d)) \<and> (\<forall>p. G p (mem_get d p))"

text \<open>Every disk seen so far is one of \<open>A\<close>, left over from an earlier phase, or as allowed.\<close>

definition seen_ok ::
  "(memory_storage \<Rightarrow> bool) \<Rightarrow> (string \<Rightarrow> bytes option \<Rightarrow> bool) \<Rightarrow> memory_storage traced \<Rightarrow> bool" where
  "seen_ok A G t \<longleftrightarrow> disk_ok G (tr_disk t) \<and> (\<forall>d \<in> set (tr_seen t). A d \<or> disk_ok G d)"

text \<open>A call of the in-memory storage changes no path but those it names.\<close>

lemma disk_ok_upd:
  assumes "disk_ok G d" "mem_get d' = (mem_get d)(p := x)" "G p x" "validate_path raw = Inr p"
  shows "disk_ok G d'"
  using assms validate_path_idem [OF assms(4)] by (auto simp: disk_ok_def clean_keys_def dom_def split: if_splits)

lemma mem_invalid:
  assumes "validate_path raw = Inl e"
  shows "mem_write raw b d = (Inl e, d)" "mem_append raw b d = (Inl e, d)"
    "mem_delete raw d = (Inl e, d)" "mem_rename raw raw' d = (Inl e, d)"
  using assms by (simp_all add: mem_write_def mem_append_def mem_delete_def mem_rename_def io_bind_run)

lemma io_bind_pure: "snd (m d) = d \<Longrightarrow> (\<And>a. snd (f a d) = d) \<Longrightarrow> snd (io_bind m f d) = d"
  by (cases "m d"; cases "fst (m d)") auto

lemma mem_reads_pure:
  "snd (mem_read raw d) = d" "snd (mem_size raw d) = d" "snd (mem_read_range raw off n d) = d"
  "snd (mem_list raw d) = d" "snd (mem_exists raw d) = d" "snd (mem_sync raw d) = d"
proof -
  show "snd (mem_read raw d) = d" by (cases "validate_path raw") (simp_all add: mem_read_def io_bind_run)
  show "snd (mem_size raw d) = d" by (cases "validate_path raw") (simp_all add: mem_size_def io_bind_run)
  show "snd (mem_read_range raw off n d) = d"
    by (cases "validate_path raw") (simp_all add: mem_read_range_def io_bind_run)
  show "snd (mem_list raw d) = d"
    unfolding mem_list_def by (intro io_bind_pure) (auto simp: Let_def intro: io_bind_pure)
  show "snd (mem_exists raw d) = d" by (cases "validate_path raw") (simp_all add: mem_exists_def io_bind_run)
  show "snd (mem_sync raw d) = d" by (simp add: mem_sync_def)
qed

lemma disk_ok_write:
  assumes "disk_ok G d" "free_path G raw"
  shows "disk_ok G (snd (mem_write raw b d))" "disk_ok G (snd (mem_append raw b d))"
proof -
  have one: "disk_ok G d'" if "validate_path raw = Inr p" "mem_get d' = (mem_get d)(p := x)" for p d' x
    using that assms by (intro disk_ok_upd [OF assms(1)]) (simp_all add: free_path_def)
  show "disk_ok G (snd (mem_write raw b d))"
    by (cases "validate_path raw") (simp_all add: mem_invalid assms(1) mem_runs(2) one update_conv')
  show "disk_ok G (snd (mem_append raw b d))"
    by (cases "validate_path raw") (simp_all add: mem_invalid assms(1) mem_runs(3) one update_conv')
qed

lemma disk_ok_delete:
  assumes "disk_ok G d" "deletable G raw"
  shows "disk_ok G (snd (mem_delete raw d))"
proof -
  have "disk_ok G d'" if "validate_path raw = Inr p" "mem_get d' = (mem_get d)(p := None)" for p d'
    using that assms by (intro disk_ok_upd [OF assms(1)]) (simp_all add: deletable_def)
  then show ?thesis
    by (cases "validate_path raw") (simp_all add: mem_invalid assms(1) mem_runs(5) delete_conv')
qed

lemma disk_ok_rename:
  assumes "disk_ok G d" "deletable G rf" "free_path G rt"
  shows "disk_ok G (snd (mem_rename rf rt d))"
proof (cases "validate_path rf")
  case (Inl e)
  then show ?thesis using assms by (simp add: mem_invalid)
next
  case f: (Inr f)
  show ?thesis
  proof (cases "validate_path rt")
    case (Inl e)
    then show ?thesis using assms f by (simp add: mem_rename_def io_bind_run)
  next
    case t: (Inr t)
    show ?thesis
    proof (cases "mem_get d f")
      case None
      then show ?thesis using assms f t by (simp add: mem_rename_def io_bind_run)
    next
      case (Some b)
      obtain d' where d': "mem_rename rf rt d = (Inr (), d')" "mem_get d' = (mem_get d)(f := None, t \<mapsto> b)"
        using mem_rename_run [OF f t Some] by (simp add: update_conv' delete_conv')
      have "G f None" "G t (Some b)" using assms f t by (simp_all add: free_path_def deletable_def)
      moreover have "clean_keys (dom (mem_get d'))"
        using assms(1) validate_path_idem [OF t]
        by (auto simp: d'(2) disk_ok_def clean_keys_def split: if_splits)
      ultimately show ?thesis using assms(1) by (auto simp: d' disk_ok_def)
    qed
  qed
qed

lemma keeps_traced_read: "(\<And>d. snd (m d) = d) \<Longrightarrow> keeps (seen_ok A G) (traced_read m)"
  unfolding keeps_def traced_read_def seen_ok_def by (auto split: prod.splits dest: arg_cong [where f = snd])

lemma keeps_traced_step:
  assumes "\<And>d. disk_ok G d \<Longrightarrow> disk_ok G (snd (m d))"
  shows "keeps (seen_ok A G) (traced_step m)"
  unfolding keeps_def
proof (intro allI impI)
  fix t r t' assume t: "seen_ok A G t" and run: "traced_step m t = (r, t')"
  obtain x s' where x: "m (tr_disk t) = (x, s')" by (cases "m (tr_disk t)")
  then have "disk_ok G s'" using assms [of "tr_disk t"] t by (simp add: seen_ok_def)
  then show "seen_ok A G t'"
    using run t x by (cases x) (auto simp: traced_step_def seen_ok_def)
qed

lemma keeps_traced_write:
  assumes "\<And>b d. disk_ok G d \<Longrightarrow> disk_ok G (snd (m b d))"
  shows "keeps (seen_ok A G) (traced_write m b)"
  unfolding keeps_def
proof (intro allI impI)
  fix t r t' assume t: "seen_ok A G t" and run: "traced_write m b t = (r, t')"
  have all: "disk_ok G (snd (m c (tr_disk t)))" for c using t assms by (simp add: seen_ok_def)
  obtain x s' where x: "m b (tr_disk t) = (x, s')" by (cases "m b (tr_disk t)")
  then have "disk_ok G s'" using all [of b] by simp
  moreover have "t' = \<lparr>tr_disk = s',
      tr_seen = tr_seen t @ map (\<lambda>k. snd (m (take k b) (tr_disk t))) [0..<length b] @ [s']\<rparr>"
    using run x by (simp add: traced_write_def)
  ultimately show "seen_ok A G t'" using t all by (auto simp: seen_ok_def)
qed

interpretation prot: protected_storage traced_mem "seen_ok A G" G for A G
proof unfold_locales
  fix raw rf rt d e p :: string and b es and s s' :: "memory_storage traced" and off n
  show "keeps (seen_ok A G) (st_read traced_mem raw)" "keeps (seen_ok A G) (st_size traced_mem raw)"
    "keeps (seen_ok A G) (st_read_range traced_mem raw off n)"
    "keeps (seen_ok A G) (st_list traced_mem raw)" "keeps (seen_ok A G) (st_exists traced_mem raw)"
    "keeps (seen_ok A G) (st_sync traced_mem raw)"
    unfolding traced_sel mem_storage_sel by (rule keeps_traced_read, rule mem_reads_pure)+
  show "keeps (seen_ok A G) (st_write traced_mem raw b)" "keeps (seen_ok A G) (st_append traced_mem raw b)"
    if "free_path G raw"
    unfolding traced_sel mem_storage_sel using that
    by (blast intro: keeps_traced_write disk_ok_write)+
  show "keeps (seen_ok A G) (st_delete traced_mem raw)" if "deletable G raw"
    unfolding traced_sel mem_storage_sel using that by (blast intro: keeps_traced_step disk_ok_delete)
  show "keeps (seen_ok A G) (st_rename traced_mem rf rt)" if "deletable G rf" "free_path G rt"
    unfolding traced_sel mem_storage_sel using that by (blast intro: keeps_traced_step disk_ok_rename)
  show "G p (Some b)"
    if s: "seen_ok A G s" and r: "st_read traced_mem raw s = (Inr b, s')" and p: "validate_path raw = Inr p"
  proof -
    have "mem_get (tr_disk s) p = Some b"
      using tmem.read_law [OF p, of s] r by (cases "mem_get (tr_disk s) p") (simp_all add: ok_or_def)
    then show ?thesis using s unfolding seen_ok_def disk_ok_def by metis
  qed
  show "validate_path e = Inr e \<and> direct d e"
    if s: "seen_ok A G s" and d: "validate_path d = Inr d"
      and l: "st_list traced_mem d s = (Inr es, s')" and e: "e \<in> set es"
  proof -
    have "es = sorted_list_of_set (dir_children d (dom (mem_get (tr_disk s))))"
      using tmem.list_law [OF d refl, of s] l by (simp split: if_splits)
    then have "e \<in> dir_children d (dom (mem_get (tr_disk s)))"
      using e tmem.set_list_children [of d s] by simp
    then show ?thesis
      using s child_direct children_clean by (auto simp: seen_ok_def disk_ok_def)
  qed
qed

end
