(* ===== verification/Snapshot_Checkpoint.thy ===== *)
theory Snapshot_Checkpoint
  imports Row_Group_Meta
begin

text \<open>
  Snapshot checkpoints: \<^verbatim>\<open>crates/icefalldb-core/src/metadata/checkpoint.rs\<close>. The summaries of the
  fragments of a snapshot with their serialized form and checksum, and the mirror types of the
  zero-copy archive. The archive format itself is the \<^verbatim>\<open>rkyv\<close> crate's, a parameter.
\<close>

section \<open>Structs and serialized form\<close>

record fragment_summary =
  fs_row_group :: string
  fs_data :: string
  fs_meta :: string
  fs_agg :: "string option"
  fs_deletes :: "string option"
  fs_fragment_id :: u64
  fs_rows :: u64
  fs_deleted_count :: u64
  fs_columns :: "(string \<times> column_stats) list"
  fs_column_offsets :: "(string \<times> column_chunk_offset) list option"
  fs_row_ids :: "row_id_segment list"
  fs_sort :: "string list option"
  fs_checksum :: string
  fs_meta_checksum :: string

record snapshot_checkpoint =
  cp_sequence :: u64
  cp_schema_id :: u64
  cp_fragments :: "fragment_summary list"
  cp_checksum :: string

definition fragment_summary_value :: "fragment_summary \<Rightarrow> json" where
  "fragment_summary_value f = jobj
     [(''row_group'', skip_empty JStr (fs_row_group f)),
      (''data'', Some (JStr (fs_data f))),
      (''meta'', Some (JStr (fs_meta f))),
      (''agg'', map_option JStr (fs_agg f)),
      (''deletes'', map_option JStr (fs_deletes f)),
      (''fragment_id'', Some (jnum (fs_fragment_id f))),
      (''rows'', skip_zero (fs_rows f)),
      (''deleted_count'', skip_zero (fs_deleted_count f)),
      (''columns'', skip_empty (jhashmap column_stats_value) (fs_columns f)),
      (''column_offsets'', map_option (jhashmap column_chunk_offset_value) (fs_column_offsets f)),
      (''row_ids'', skip_empty (\<lambda>ss. JArr (map row_id_segment_value ss)) (fs_row_ids f)),
      (''sort'', map_option jstrs (fs_sort f)),
      (''checksum'', skip_empty JStr (fs_checksum f)),
      (''meta_checksum'', skip_empty JStr (fs_meta_checksum f))]"

definition de_fragment_summary :: "json \<Rightarrow> fragment_summary option" where
  "de_fragment_summary v =
     Option.bind (de_default ''row_group'' [] de_str v) (\<lambda>row_group.
     Option.bind (de_req ''data'' de_str v) (\<lambda>data.
     Option.bind (de_req ''meta'' de_str v) (\<lambda>meta.
     Option.bind (de_default ''agg'' None (de_option de_str) v) (\<lambda>agg.
     Option.bind (de_default ''deletes'' None (de_option de_str) v) (\<lambda>deletes.
     Option.bind (de_req ''fragment_id'' de_u64 v) (\<lambda>fragment_id.
     Option.bind (de_default ''rows'' 0 de_u64 v) (\<lambda>rows.
     Option.bind (de_default ''deleted_count'' 0 de_u64 v) (\<lambda>deleted_count.
     Option.bind (de_default ''columns'' [] (de_map de_column_stats) v) (\<lambda>columns.
     Option.bind (de_default ''column_offsets'' None (de_option (de_map de_column_chunk_offset)) v) (\<lambda>offs.
     Option.bind (de_default ''row_ids'' [] (de_vec de_row_id_segment) v) (\<lambda>row_ids.
     Option.bind (de_default ''sort'' None (de_option (de_vec de_str)) v) (\<lambda>srt.
     Option.bind (de_default ''checksum'' [] de_str v) (\<lambda>checksum.
     Option.bind (de_default ''meta_checksum'' [] de_str v) (\<lambda>meta_checksum.
     Some \<lparr>fs_row_group = row_group, fs_data = data, fs_meta = meta, fs_agg = agg, fs_deletes = deletes,
           fs_fragment_id = fragment_id, fs_rows = rows, fs_deleted_count = deleted_count,
           fs_columns = columns, fs_column_offsets = offs, fs_row_ids = row_ids, fs_sort = srt,
           fs_checksum = checksum, fs_meta_checksum = meta_checksum\<rparr>))))))))))))))"

definition snapshot_checkpoint_value :: "snapshot_checkpoint \<Rightarrow> json" where
  "snapshot_checkpoint_value c = jobj
     [(''sequence'', Some (jnum (cp_sequence c))),
      (''schema_id'', Some (jnum (cp_schema_id c))),
      (''fragments'', Some (JArr (map fragment_summary_value (cp_fragments c)))),
      (''checksum'', skip_empty JStr (cp_checksum c))]"

definition de_snapshot_checkpoint :: "json \<Rightarrow> snapshot_checkpoint option" where
  "de_snapshot_checkpoint v =
     Option.bind (de_req ''sequence'' de_u64 v) (\<lambda>sequence.
     Option.bind (de_req ''schema_id'' de_u64 v) (\<lambda>schema_id.
     Option.bind (de_req ''fragments'' (de_vec de_fragment_summary) v) (\<lambda>fragments.
     Option.bind (de_default ''checksum'' [] de_str v) (\<lambda>checksum.
     Some \<lparr>cp_sequence = sequence, cp_schema_id = schema_id, cp_fragments = fragments,
           cp_checksum = checksum\<rparr>))))"

definition parse_checkpoint :: "ext \<Rightarrow> bytes \<Rightarrow> snapshot_checkpoint option" where
  "parse_checkpoint X bs = Option.bind (json_parse X bs) de_snapshot_checkpoint"

definition cp_filename :: "u64 \<Rightarrow> string" where
  "cp_filename seq = ''_checkpoints/'' @ pad_zeros 9 (show_nat (unat seq)) @ ''.json''"

section \<open>Checksum\<close>

definition cp_compute_checksum :: "ext \<Rightarrow> snapshot_checkpoint \<Rightarrow> string" where
  "cp_compute_checksum X c =
     checksum_json X (to_value (snapshot_checkpoint_value (c\<lparr>cp_checksum := []\<rparr>)))"

definition cp_verify_checksum :: "ext \<Rightarrow> snapshot_checkpoint \<Rightarrow> bool" where
  "cp_verify_checksum X c \<longleftrightarrow> cp_checksum c = cp_compute_checksum X c"

section \<open>The archive mirror\<close>

record arch_col_stats =
  acs_min :: "bytes option"
  acs_max :: "bytes option"
  acs_nulls :: u64

record arch_fragment =
  af_row_group :: string
  af_data :: string
  af_meta :: string
  af_agg :: "string option"
  af_deletes :: "string option"
  af_fragment_id :: u64
  af_rows :: u64
  af_deleted_count :: u64
  af_columns :: "(string \<times> arch_col_stats) list"
  af_column_offsets :: "(string \<times> column_chunk_offset) list option"
  af_row_ids :: "row_id_segment list"
  af_sort :: "string list option"
  af_checksum :: string
  af_meta_checksum :: string

record arch_checkpoint =
  ac_sequence :: u64
  ac_schema_id :: u64
  ac_fragments :: "arch_fragment list"
  ac_checksum :: string

definition stats_to_arch :: "ext \<Rightarrow> column_stats \<Rightarrow> arch_col_stats" where
  "stats_to_arch X c = \<lparr>acs_min = map_option (json_to_string X) (cs_min c),
     acs_max = map_option (json_to_string X) (cs_max c), acs_nulls = cs_nulls c\<rparr>"

definition arch_to_stats :: "ext \<Rightarrow> arch_col_stats \<Rightarrow> column_stats" where
  "arch_to_stats X a = \<lparr>cs_min = Option.bind (acs_min a) (json_parse X),
     cs_max = Option.bind (acs_max a) (json_parse X), cs_nulls = acs_nulls a\<rparr>"

definition frag_to_arch :: "ext \<Rightarrow> fragment_summary \<Rightarrow> arch_fragment" where
  "frag_to_arch X f =
     \<lparr>af_row_group = fs_row_group f, af_data = fs_data f, af_meta = fs_meta f, af_agg = fs_agg f,
      af_deletes = fs_deletes f, af_fragment_id = fs_fragment_id f, af_rows = fs_rows f,
      af_deleted_count = fs_deleted_count f,
      af_columns = sort_key fst (map (\<lambda>(k, v). (k, stats_to_arch X v)) (fs_columns f)),
      af_column_offsets = map_option (sort_key fst) (fs_column_offsets f),
      af_row_ids = fs_row_ids f, af_sort = fs_sort f, af_checksum = fs_checksum f,
      af_meta_checksum = fs_meta_checksum f\<rparr>"

definition arch_frag_to_summary :: "ext \<Rightarrow> arch_fragment \<Rightarrow> fragment_summary" where
  "arch_frag_to_summary X a =
     \<lparr>fs_row_group = af_row_group a, fs_data = af_data a, fs_meta = af_meta a, fs_agg = af_agg a,
      fs_deletes = af_deletes a, fs_fragment_id = af_fragment_id a, fs_rows = af_rows a,
      fs_deleted_count = af_deleted_count a,
      fs_columns = map (\<lambda>(k, v). (k, arch_to_stats X v)) (af_columns a),
      fs_column_offsets = af_column_offsets a, fs_row_ids = af_row_ids a, fs_sort = af_sort a,
      fs_checksum = af_checksum a, fs_meta_checksum = af_meta_checksum a\<rparr>"

text \<open>The \<^verbatim>\<open>rkyv\<close> calls: writing may fail, and validated access may refuse the bytes.\<close>

record archiver =
  rkyv_to_bytes :: "arch_checkpoint \<Rightarrow> bytes option"
  rkyv_access :: "bytes \<Rightarrow> arch_checkpoint option"

definition to_archive_bytes :: "ext \<Rightarrow> archiver \<Rightarrow> snapshot_checkpoint \<Rightarrow> bytes" where
  "to_archive_bytes X K c =
     (case rkyv_to_bytes K
        \<lparr>ac_sequence = cp_sequence c, ac_schema_id = cp_schema_id c,
         ac_fragments = map (frag_to_arch X) (cp_fragments c), ac_checksum = cp_checksum c\<rparr> of
        None \<Rightarrow> [] | Some b \<Rightarrow> b)"

definition from_archive_bytes :: "ext \<Rightarrow> archiver \<Rightarrow> bytes \<Rightarrow> snapshot_checkpoint option" where
  "from_archive_bytes X K bs =
     map_option (\<lambda>a.
       \<lparr>cp_sequence = ac_sequence a, cp_schema_id = ac_schema_id a,
        cp_fragments = map (arch_frag_to_summary X) (ac_fragments a), cp_checksum = ac_checksum a\<rparr>)
     (rkyv_access K bs)"

section \<open>Reading back\<close>

definition fs_wf :: "fragment_summary \<Rightarrow> bool" where
  "fs_wf f \<longleftrightarrow> (\<forall>(k, c) \<in> set (fs_columns f). stats_wf c)"

lemma de_skip_str: "de_default k [] de_str v = Some s" if "jfield k v = skip_empty JStr s"
  using that by (cases "s = []") (simp_all add: de_default_def skip_empty_def)

lemma summary_fields:
  "jfield ''row_group'' (fragment_summary_value f) = skip_empty JStr (fs_row_group f)"
  "jfield ''data'' (fragment_summary_value f) = Some (JStr (fs_data f))"
  "jfield ''meta'' (fragment_summary_value f) = Some (JStr (fs_meta f))"
  "jfield ''agg'' (fragment_summary_value f) = map_option JStr (fs_agg f)"
  "jfield ''deletes'' (fragment_summary_value f) = map_option JStr (fs_deletes f)"
  "jfield ''fragment_id'' (fragment_summary_value f) = Some (jnum (fs_fragment_id f))"
  "jfield ''rows'' (fragment_summary_value f) = skip_zero (fs_rows f)"
  "jfield ''deleted_count'' (fragment_summary_value f) = skip_zero (fs_deleted_count f)"
  "jfield ''columns'' (fragment_summary_value f) = skip_empty (jhashmap column_stats_value) (fs_columns f)"
  "jfield ''column_offsets'' (fragment_summary_value f)
     = map_option (jhashmap column_chunk_offset_value) (fs_column_offsets f)"
  "jfield ''row_ids'' (fragment_summary_value f)
     = skip_empty (\<lambda>ss. JArr (map row_id_segment_value ss)) (fs_row_ids f)"
  "jfield ''sort'' (fragment_summary_value f) = map_option jstrs (fs_sort f)"
  "jfield ''checksum'' (fragment_summary_value f) = skip_empty JStr (fs_checksum f)"
  "jfield ''meta_checksum'' (fragment_summary_value f) = skip_empty JStr (fs_meta_checksum f)"
  by (simp_all add: fragment_summary_value_def)

lemma fragment_summary_roundtrip:
  assumes "fs_wf f"
  shows "de_fragment_summary (fragment_summary_value f) = Some f"
proof -
  have "de_default ''columns'' [] (de_map de_column_stats) (fragment_summary_value f) = Some (fs_columns f)"
    using assms
    by (cases "fs_columns f = []")
      (auto simp: de_default_def summary_fields skip_empty_def fs_wf_def column_stats_roundtrip
        intro!: de_map_jhashmap)
  moreover have "de_default ''column_offsets'' None (de_option (de_map de_column_chunk_offset))
      (fragment_summary_value f) = Some (fs_column_offsets f)"
    by (intro de_opt [OF summary_fields(10)])
      (simp add: de_map_jhashmap column_chunk_offset_roundtrip, simp add: jhashmap_def)
  moreover have "de_default ''sort'' None (de_option (de_vec de_str)) (fragment_summary_value f)
      = Some (fs_sort f)"
    by (rule de_opt [OF summary_fields(12)]) (simp add: de_vec_map)
  moreover have "de_default ''row_ids'' [] (de_vec de_row_id_segment) (fragment_summary_value f)
      = Some (fs_row_ids f)"
    by (cases "fs_row_ids f = []")
      (simp_all add: de_default_def summary_fields skip_empty_def de_vec_map row_id_segment_roundtrip)
  ultimately show ?thesis
    by (simp add: de_fragment_summary_def summary_fields de_field de_skip_str)
qed

lemma snapshot_checkpoint_roundtrip:
  assumes "\<forall>f \<in> set (cp_fragments c). fs_wf f"
  shows "de_snapshot_checkpoint (snapshot_checkpoint_value c) = Some c"
  using assms
  by (simp add: de_snapshot_checkpoint_def snapshot_checkpoint_value_def de_field de_skip_str
      de_vec_map fragment_summary_roundtrip)

text \<open>The archive gives the summaries back with their maps in key order.\<close>

definition in_key_order :: "fragment_summary \<Rightarrow> fragment_summary" where
  "in_key_order f = f\<lparr>fs_columns := sort_key fst (fs_columns f),
     fs_column_offsets := map_option (sort_key fst) (fs_column_offsets f)\<rparr>"

lemma sort_key_map_snd:
  "sort_key fst (map (\<lambda>p. (fst p, g (snd p))) xs) = map (\<lambda>p. (fst p, g (snd p))) (sort_key fst xs)"
proof (induction xs)
  case (Cons x xs)
  have "insort_key fst (fst y, g (snd y)) (map (\<lambda>p. (fst p, g (snd p))) ys)
      = map (\<lambda>p. (fst p, g (snd p))) (insort_key fst y ys)" for y ys
    by (induction ys) auto
  with Cons show ?case by simp
qed simp

lemma arch_stats_back: "json_law X \<Longrightarrow> arch_to_stats X (stats_to_arch X c) = c"
  by (cases "cs_min c"; cases "cs_max c") (simp_all add: arch_to_stats_def stats_to_arch_def json_lawD)

lemma arch_fragment_back: "json_law X \<Longrightarrow> arch_frag_to_summary X (frag_to_arch X f) = in_key_order f"
  by (simp add: arch_frag_to_summary_def frag_to_arch_def in_key_order_def sort_key_map_snd
      case_prod_beta' comp_def arch_stats_back)

lemma archive_back:
  assumes "json_law X" "\<And>a b. rkyv_to_bytes K a = Some b \<Longrightarrow> rkyv_access K b = Some a"
    "to_archive_bytes X K c \<noteq> []"
  shows "from_archive_bytes X K (to_archive_bytes X K c)
    = Some (c\<lparr>cp_fragments := map in_key_order (cp_fragments c)\<rparr>)"
  using assms by (auto simp: from_archive_bytes_def to_archive_bytes_def arch_fragment_back split: option.splits)

text \<open>The order of the maps does not reach the checksum, so an archived checkpoint verifies like the original.\<close>

definition canon_eq :: "json \<Rightarrow> json \<Rightarrow> bool" where
  "canon_eq v w \<longleftrightarrow> canonicalize v = canonicalize w"

lemma canon_jobj_cong:
  assumes "list_all2 (\<lambda>a b. fst a = fst b \<and> rel_option canon_eq (snd a) (snd b)) es es'"
  shows "canon_eq (jobj es) (jobj es')"
proof -
  have "list_all2 (\<lambda>a b. fst a = fst b \<and> canon_eq (snd a) (snd b)) (kept_fields es) (kept_fields es')"
    using assms
  proof (induction rule: list_all2_induct)
    case (Cons x xs y ys)
    then show ?case by (cases x; cases y; cases "snd x"; cases "snd y") auto
  qed simp
  then have "list_all2 (\<lambda>a b. fst a = fst b \<and> canon_eq (snd a) (snd b))
      (sort_key fst (kept_fields es)) (sort_key fst (kept_fields es'))"
    by (rule sort_key_list_all2)
  then have "list_all2 (\<lambda>a b. (\<lambda>(k, v). (k, canonicalize v)) a = (\<lambda>(k, v). (k, canonicalize v)) b)
      (sort_key fst (kept_fields es)) (sort_key fst (kept_fields es'))"
    by (rule list_all2_mono) (auto simp: canon_eq_def)
  from list_all2_map_eq [OF this] show ?thesis by (simp add: canon_eq_def jobj_def)
qed

lemma canon_eq_refl [simp]: "canon_eq v v" "rel_option canon_eq x x"
  by (simp_all add: canon_eq_def option.rel_refl)

lemma canon_jhashmap_sorted: "canon_eq (jhashmap g (sort_key fst m)) (jhashmap g m)"
  by (simp add: canon_eq_def jhashmap_def case_prod_beta' sort_key_map_snd sort_key_sorted)

lemma canon_in_key_order:
  "canon_eq (fragment_summary_value (in_key_order f)) (fragment_summary_value f)"
proof -
  have "rel_option canon_eq (skip_empty (jhashmap column_stats_value) (sort_key fst (fs_columns f)))
      (skip_empty (jhashmap column_stats_value) (fs_columns f))"
    using canon_jhashmap_sorted [of column_stats_value "fs_columns f"]
    by (cases "fs_columns f") (simp_all add: skip_empty_def insort_not_Nil)
  moreover have "rel_option canon_eq
      (map_option (jhashmap column_chunk_offset_value) (map_option (sort_key fst) (fs_column_offsets f)))
      (map_option (jhashmap column_chunk_offset_value) (fs_column_offsets f))"
    by (cases "fs_column_offsets f") (simp_all add: canon_jhashmap_sorted)
  ultimately show ?thesis
    unfolding fragment_summary_value_def by (intro canon_jobj_cong) (simp add: in_key_order_def)
qed

lemma checksum_in_key_order:
  "cp_compute_checksum X (c\<lparr>cp_fragments := map in_key_order (cp_fragments c)\<rparr>) = cp_compute_checksum X c"
proof -
  have "canon_eq (JArr (map fragment_summary_value (map in_key_order (cp_fragments c))))
      (JArr (map fragment_summary_value (cp_fragments c)))"
    using canon_in_key_order by (simp add: canon_eq_def)
  then have "canon_eq
      (snapshot_checkpoint_value (c\<lparr>cp_fragments := map in_key_order (cp_fragments c), cp_checksum := []\<rparr>))
      (snapshot_checkpoint_value (c\<lparr>cp_checksum := []\<rparr>))"
    unfolding snapshot_checkpoint_value_def by (intro canon_jobj_cong) simp
  then show ?thesis by (simp add: cp_compute_checksum_def checksum_json_def to_value_def canon_eq_def)
qed

lemma archive_verifies:
  "cp_verify_checksum X (c\<lparr>cp_fragments := map in_key_order (cp_fragments c)\<rparr>) \<longleftrightarrow> cp_verify_checksum X c"
  by (simp add: cp_verify_checksum_def checksum_in_key_order)

end
