(* ===== verification/Staging.thy ===== *)
theory Staging
  imports Crash_Model Snapshot_Checkpoint
begin

text \<open>
  The staging area of a table writer: \<^verbatim>\<open>ensure_dir\<close>, \<^verbatim>\<open>cleanup_staging\<close>, the commit intents,
  \<^verbatim>\<open>build_snapshot_checkpoint\<close> and \<^verbatim>\<open>write_checkpoint\<close> of \<^verbatim>\<open>crates/icefalldb-core/src/writer.rs\<close>.
  A snapshot summary may come from the process-wide cache of parsed sidecars, which is the
  argument \<open>cache\<close>; \<open>local\<close> says whether the storage has a local root.
\<close>

section \<open>Operations\<close>

definition w_ensure_dir :: "'s storage \<Rightarrow> string \<Rightarrow> ('s, unit) io" where
  "w_ensure_dir S path =
     io_bind (io_try (st_list S path)) (\<lambda>r.
       case r of
         Inr _ \<Rightarrow> io_return ()
       | Inl e \<Rightarrow>
           if is_not_found e then
             io_then (st_write S (path @ ''/.keep'') [])
             (io_then (io_try (st_delete S (path @ ''/.keep''))) (io_return ()))
           else io_throw e)"

text \<open>Deleting a file that may be gone already.\<close>

definition delete_quietly :: "'s storage \<Rightarrow> string \<Rightarrow> ('s, unit) io" where
  "delete_quietly S path =
     io_bind (io_try (st_delete S path)) (\<lambda>r.
       case r of Inr _ \<Rightarrow> io_return () | Inl e \<Rightarrow> if is_not_found e then io_return () else io_throw e)"

definition intent_value :: "string \<Rightarrow> string \<Rightarrow> u64 \<Rightarrow> string list \<Rightarrow> json" where
  "intent_value txn_id started_at schema_id files = JObj
     [(''files'', jstrs files), (''schema_id'', jnum schema_id), (''started_at'', JStr started_at),
      (''txn_id'', JStr txn_id)]"

definition intents_dir :: "string \<Rightarrow> string" where
  "intents_dir table = tpath table ''_staging/intents''"

definition intent_path :: "string \<Rightarrow> string \<Rightarrow> string" where
  "intent_path table txn_id = intents_dir table @ ''/'' @ txn_id @ ''.json''"

text \<open>Rewriting an intent in place; the first write also syncs the directory.\<close>

definition write_intent ::
  "ext \<Rightarrow> 's storage \<Rightarrow> string \<Rightarrow> string \<Rightarrow> string \<Rightarrow> u64 \<Rightarrow> string list \<Rightarrow> ('s, unit) io" where
  "write_intent X S path txn_id now schema_id files =
     io_then (st_write S path (json_to_string X (intent_value txn_id now schema_id files)))
       (st_sync S path)"

section \<open>Cleaning up after a crash\<close>

definition intent_files :: "ext \<Rightarrow> bytes \<Rightarrow> string list" where
  "intent_files X data =
     (case Option.bind (json_parse X data) (jfield ''files'') of
        Some (JArr files) \<Rightarrow> List.map_filter de_str files
      | _ \<Rightarrow> [])"

definition cleanup_intent :: "ext \<Rightarrow> 's storage \<Rightarrow> string \<Rightarrow> string list \<Rightarrow> string \<Rightarrow> ('s, unit) io" where
  "cleanup_intent X S table referenced entry =
     (if \<not> ends_with entry ''.json'' then io_return ()
      else
        io_bind (io_try (st_read S entry)) (\<lambda>r.
          case r of
            Inl e \<Rightarrow> if is_not_found e then io_return () else io_throw e
          | Inr data \<Rightarrow>
              io_then (io_foldM (\<lambda>_ f.
                  if f \<in> set referenced then io_return () else delete_quietly S (tpath table f))
                  () (intent_files X data))
                (delete_quietly S entry)))"

definition cleanup_dir :: "'s storage \<Rightarrow> string \<Rightarrow> (string \<Rightarrow> bool) \<Rightarrow> ('s, unit) io" where
  "cleanup_dir S dir doomed =
     io_bind (list_or_empty S dir) (\<lambda>entries.
       io_foldM (\<lambda>_ entry. if doomed entry then delete_quietly S entry else io_return ()) () entries)"

definition is_part :: "string \<Rightarrow> bool" where
  "is_part entry \<longleftrightarrow> ends_with entry ''.part''"

definition stale_manifest :: "u64 \<Rightarrow> string \<Rightarrow> bool" where
  "stale_manifest latest_seq entry \<longleftrightarrow>
     ends_with (base_name entry) ''.json.tmp''
     \<or> (case entry_seq entry of None \<Rightarrow> False | Some seq \<Rightarrow> seq > latest_seq)"

definition cleanup_staging ::
  "ext \<Rightarrow> 's storage \<Rightarrow> string \<Rightarrow> u64 \<Rightarrow> string list \<Rightarrow> ('s, unit) io" where
  "cleanup_staging X S table latest_seq referenced =
     io_then (io_bind (list_or_empty S (intents_dir table)) (\<lambda>entries.
       io_foldM (\<lambda>_. cleanup_intent X S table referenced) () entries))
     (io_then (cleanup_dir S (tpath table ''_staging/incoming'') is_part)
     (io_then (cleanup_dir S (tpath table ''_staging/compact'') is_part)
     (cleanup_dir S (tpath table ''_manifests'') (stale_manifest latest_seq))))"

section \<open>Snapshot checkpoints\<close>

definition summary_of :: "row_group_entry \<Rightarrow> row_group_meta \<Rightarrow> fragment_summary" where
  "summary_of e m =
     \<lparr>fs_row_group = rm_row_group m, fs_data = rg_data e, fs_meta = rg_meta e, fs_agg = rg_agg e,
      fs_deletes = rg_deletes e, fs_fragment_id = rg_fragment_id e, fs_rows = rm_rows m,
      fs_deleted_count = rg_deleted_count e, fs_columns = rm_columns m,
      fs_column_offsets = rm_column_offsets m, fs_row_ids = rm_row_ids m, fs_sort = rm_sort m,
      fs_checksum = rm_checksum m, fs_meta_checksum = rm_meta_checksum m\<rparr>"

text \<open>The last entry of a list with a given key, as inserting them one by one into a hash map leaves it.\<close>

definition last_by :: "('a \<Rightarrow> 'k) \<Rightarrow> 'a list \<Rightarrow> 'k \<Rightarrow> 'a option" where
  "last_by key xs k = find (\<lambda>x. key x = k) (rev xs)"

definition prev_summaries ::
  "ext \<Rightarrow> 's storage \<Rightarrow> string \<Rightarrow> manifest \<Rightarrow> ('s, fragment_summary list) io" where
  "prev_summaries X S table current =
     (case mf_checkpoint current of
        None \<Rightarrow> io_return []
      | Some prev_path \<Rightarrow>
          io_bind (io_try (st_read S (tpath table prev_path))) (\<lambda>r.
            io_return (case r of
                Inl _ \<Rightarrow> []
              | Inr bytes \<Rightarrow> (case parse_checkpoint X bytes of None \<Rightarrow> [] | Some prev \<Rightarrow> cp_fragments prev))))"

definition entry_unchanged :: "row_group_entry list \<Rightarrow> row_group_entry \<Rightarrow> bool" where
  "entry_unchanged current e =
     (case last_by rg_fragment_id current (rg_fragment_id e) of
        None \<Rightarrow> False
      | Some c \<Rightarrow> rg_data c = rg_data e \<and> rg_meta c = rg_meta e \<and> rg_deletes c = rg_deletes e
          \<and> rg_deleted_count c = rg_deleted_count e \<and> rg_agg c = rg_agg e)"

definition reusable_summary ::
  "row_group_entry list \<Rightarrow> fragment_summary list \<Rightarrow> row_group_entry \<Rightarrow> fragment_summary option" where
  "reusable_summary current prev e =
     (if entry_unchanged current e then
        (case last_by fs_fragment_id prev (rg_fragment_id e) of
           None \<Rightarrow> None
         | Some f \<Rightarrow> if fs_checksum f \<noteq> [] \<and> fs_meta_checksum f \<noteq> [] then Some f else None)
      else None)"

definition read_meta_cached ::
  "ext \<Rightarrow> 's storage \<Rightarrow> (string \<Rightarrow> row_group_meta option) \<Rightarrow> string \<Rightarrow> ('s, row_group_meta) io" where
  "read_meta_cached X S cache path =
     (case cache path of
        Some m \<Rightarrow> io_return m
      | None \<Rightarrow>
          io_bind (st_read S path) (\<lambda>bytes. io_lift (ok_or (parse_row_group_meta X bytes) Serialization)))"

definition build_snapshot_checkpoint ::
  "ext \<Rightarrow> 's storage \<Rightarrow> (string \<Rightarrow> row_group_meta option) \<Rightarrow> string \<Rightarrow> manifest \<Rightarrow> manifest \<Rightarrow>
   ('s, snapshot_checkpoint) io" where
  "build_snapshot_checkpoint X S cache table current new =
     io_bind (prev_summaries X S table current) (\<lambda>prev.
     io_bind (io_foldM (\<lambda>fragments e.
         case reusable_summary (mf_row_groups current) prev e of
           Some f \<Rightarrow> io_return (fragments @ [f])
         | None \<Rightarrow>
             io_bind (read_meta_cached X S cache (tpath table (rg_meta e))) (\<lambda>m.
               io_return (fragments @ [summary_of e m]))) [] (mf_row_groups new)) (\<lambda>fragments.
       let c = \<lparr>cp_sequence = mf_sequence new, cp_schema_id = mf_schema_id new, cp_fragments = fragments,
                cp_checksum = []\<rparr>
       in io_return (c\<lparr>cp_checksum := cp_compute_checksum X c\<rparr>)))"

definition checkpoint_part :: "string \<Rightarrow> u64 \<Rightarrow> string" where
  "checkpoint_part table seq =
     tpath table (''_staging/incoming/_checkpoint_'' @ pad_zeros 9 (show_nat (unat seq)) @ ''.json.part'')"

text \<open>The archive next to the checkpoint; its path, if it was written, is a staged file.\<close>

definition write_archive ::
  "ext \<Rightarrow> archiver \<Rightarrow> 's storage \<Rightarrow> string \<Rightarrow> snapshot_checkpoint \<Rightarrow> u64 \<Rightarrow> ('s, string list) io" where
  "write_archive X K S table c seq =
     (let rel = checkpoint_archive_filename seq; path = tpath table rel; tmp = path @ ''.tmp'';
          bytes = to_archive_bytes X K c;
          give_up = io_then (io_try (st_delete S tmp)) (io_return [])
      in if bytes = [] then give_up
         else
           io_bind (io_try (io_then (st_write S tmp bytes)
               (io_then (st_sync S tmp) (st_rename S tmp path)))) (\<lambda>r.
             case r of Inr _ \<Rightarrow> io_return [rel] | Inl _ \<Rightarrow> give_up))"

definition write_checkpoint ::
  "ext \<Rightarrow> archiver \<Rightarrow> 's storage \<Rightarrow> bool \<Rightarrow> string \<Rightarrow> string \<Rightarrow> snapshot_checkpoint \<Rightarrow> u64 \<Rightarrow> string \<Rightarrow>
   string list \<Rightarrow> string list \<Rightarrow> string \<Rightarrow> u64 \<Rightarrow> ('s, string \<times> string list \<times> string list) io" where
  "write_checkpoint X K S local now table c seq ipath ifiles staged txn_id schema_id =
     (let rel = cp_filename seq; part = checkpoint_part table seq; ifiles' = ifiles @ [rel]
      in io_then (w_ensure_dir S (tpath table ''_checkpoints''))
         (io_then (st_write S part (json_to_string X (snapshot_checkpoint_value c)))
         (io_then (st_sync S part)
         (io_then (write_intent X S ipath txn_id now schema_id ifiles')
         (io_then (st_rename S part (tpath table rel))
         (if local then
            io_bind (write_archive X K S table c seq) (\<lambda>arch. io_return (rel, ifiles', staged @ rel # arch))
          else io_return (rel, ifiles', staged @ [rel])))))))"

section \<open>What the operations do\<close>

text \<open>A store after some files were deleted.\<close>

definition without :: "string set \<Rightarrow> (string \<Rightarrow> bytes option) \<Rightarrow> string \<Rightarrow> bytes option" where
  "without D v p = (if p \<in> D then None else v p)"

lemma without_empty [simp]: "without {} v = v"
  by (simp add: without_def fun_eq_iff)

lemma without_without [simp]: "without D (without E v) = without (D \<union> E) v"
  by (auto simp: without_def fun_eq_iff)

lemma upd_without: "v(p := None) = without {p} v"
  by (auto simp: without_def fun_eq_iff)

lemma dom_without: "dom (without D v) = dom v - D"
  by (auto simp: without_def dom_def split: if_splits)

context storage_contract
begin

lemma delete_quietly_run:
  assumes "validate_path raw = Inr p"
  shows "\<exists>s'. delete_quietly S raw s = (Inr (), s') \<and> view s' = without {p} (view s)"
proof -
  obtain s' where s': "st_delete S raw s = ((if view s p = None then Inl (NotFound p) else Inr ()), s')"
    "view s' = (view s)(p := None)" using delete_law [OF assms] by blast
  then show ?thesis
    by (intro exI [of _ s']) (auto simp: delete_quietly_def io_simps is_not_found_def upd_without)
qed

lemma delete_each_run:
  assumes "\<And>x. x \<in> set xs \<Longrightarrow> doomed x \<Longrightarrow> validate_path (g x) = Inr (h x)"
  shows "\<exists>s'. io_foldM (\<lambda>_ x. if doomed x then delete_quietly S (g x) else io_return ()) () xs s = (Inr (), s')
    \<and> view s' = without (h ` {x \<in> set xs. doomed x}) (view s)"
  using assms
proof (induction xs arbitrary: s)
  case (Cons x xs)
  obtain s1 where s1: "(if doomed x then delete_quietly S (g x) else io_return ()) s = (Inr (), s1)"
    "view s1 = without (if doomed x then {h x} else {}) (view s)"
    using delete_quietly_run [of "g x" "h x" s] Cons.prems [of x] by (cases "doomed x") auto
  obtain s2 where s2: "io_foldM (\<lambda>_ x. if doomed x then delete_quietly S (g x) else io_return ()) () xs s1
      = (Inr (), s2)" "view s2 = without (h ` {x \<in> set xs. doomed x}) (view s1)"
    using Cons.IH [of s1] Cons.prems by auto
  have "h ` {y \<in> set (x # xs). doomed y} = h ` {y \<in> set xs. doomed y} \<union> (if doomed x then {h x} else {})"
    by auto
  then show ?case using s1 s2 by (intro exI [of _ s2]) simp
qed simp

lemma cleanup_dir_run:
  assumes "validate_path d = Inr d" "clean_keys (dom (view s))"
  shows "\<exists>s'. cleanup_dir S d doomed s = (Inr (), s')
    \<and> view s' = without {p. p \<in> dir_children d (dom (view s)) \<and> doomed p} (view s)"
proof -
  obtain es where es: "list_or_empty S d s = (Inr es, s)" "set es = dir_children d (dom (view s))"
    using list_or_empty_run [OF assms(1)] by blast
  have "\<exists>s'. io_foldM (\<lambda>_ e. if doomed e then delete_quietly S e else io_return ()) () es s = (Inr (), s')
      \<and> view s' = without (id ` {x \<in> set es. doomed x}) (view s)"
    using children_clean [OF assms(2)] es(2) by (intro delete_each_run) auto
  then show ?thesis using es unfolding cleanup_dir_def by simp
qed

end

text \<open>A key that lies directly in a directory is one of its children.\<close>

lemma direct_child:
  assumes "direct d p" "p \<in> keys"
  shows "p \<in> dir_children d keys"
proof -
  obtain rest where "p = d @ CHR ''/'' # rest" "CHR ''/'' \<notin> set rest"
    using assms(1) by (auto simp: direct_def)
  then have "child_of (d @ ''/'') p = Some p" by (simp add: child_of_def strip_prefix_eq_Some)
  with assms(2) show ?thesis by (auto simp: dir_children_def)
qed

text \<open>The files the intents of a store make deletable.\<close>

definition is_intent :: "string \<Rightarrow> string \<Rightarrow> bool" where
  "is_intent table e \<longleftrightarrow> direct (intents_dir table) e \<and> ends_with e ''.json''"

definition intent_targets :: "ext \<Rightarrow> string \<Rightarrow> string list \<Rightarrow> bytes \<Rightarrow> string set" where
  "intent_targets X table referenced data =
     {p. \<exists>f \<in> set (intent_files X data). f \<notin> set referenced \<and> validate_path (tpath table f) = Inr p}"

definition intents_valid :: "ext \<Rightarrow> string \<Rightarrow> string list \<Rightarrow> (string \<Rightarrow> bytes option) \<Rightarrow> bool" where
  "intents_valid X table referenced v \<longleftrightarrow>
     (\<forall>e data. is_intent table e \<longrightarrow> v e = Some data \<longrightarrow>
        (\<forall>f \<in> set (intent_files X data). f \<notin> set referenced \<longrightarrow> (\<exists>p. validate_path (tpath table f) = Inr p)))"

definition intents_doomed ::
  "ext \<Rightarrow> string \<Rightarrow> string list \<Rightarrow> (string \<Rightarrow> bytes option) \<Rightarrow> string set" where
  "intents_doomed X table referenced v =
     {e. is_intent table e} \<union>
     (\<Union>e \<in> {e. is_intent table e}. case v e of None \<Rightarrow> {} | Some data \<Rightarrow> intent_targets X table referenced data)"

lemma intents_valid_without:
  "intents_valid X table referenced v \<Longrightarrow> intents_valid X table referenced (without D v)"
  unfolding intents_valid_def without_def by (metis option.distinct(1))

lemma intents_doomed_without:
  "intents_doomed X table referenced (without D v) \<subseteq> intents_doomed X table referenced v"
  by (auto simp: intents_doomed_def without_def split: if_splits)

text \<open>
  After a cleanup no intent, no staged part and no manifest beyond the current one is left, and
  nothing went but what the intents list and the leftovers themselves.
\<close>

definition leftover :: "string \<Rightarrow> u64 \<Rightarrow> string \<Rightarrow> bool" where
  "leftover table latest p \<longleftrightarrow>
     is_intent table p
     \<or> direct (tpath table ''_staging/incoming'') p \<and> is_part p
     \<or> direct (tpath table ''_staging/compact'') p \<and> is_part p
     \<or> direct (tpath table ''_manifests'') p \<and> stale_manifest latest p"

context storage_contract
begin

lemma cleanup_intent_run:
  assumes e: "is_intent table e" "validate_path e = Inr e" and ok: "intents_valid X table referenced (view s)"
  shows "\<exists>s' D. cleanup_intent X S table referenced e s = (Inr (), s') \<and> view s' = without D (view s)
    \<and> view s' e = None \<and> D \<subseteq> intents_doomed X table referenced (view s)"
proof (cases "view s e")
  case None
  then show ?thesis
    using e by (intro exI [of _ s] exI [of _ "{}"])
      (auto simp: cleanup_intent_def is_intent_def io_simps read_law [OF e(2)] ok_or_def is_not_found_def)
next
  case (Some data)
  let ?D = "intent_targets X table referenced data"
  let ?h = "\<lambda>f. projr (validate_path (tpath table f))"
  let ?del = "\<lambda>_ f. if f \<notin> set referenced then delete_quietly S (tpath table f) else io_return ()"
  have "validate_path (tpath table f) = Inr (?h f)" if "f \<in> set (intent_files X data)" "f \<notin> set referenced" for f
    using ok e(1) Some that unfolding intents_valid_def by force
  then obtain s1 where s1: "io_foldM ?del () (intent_files X data) s = (Inr (), s1)"
    "view s1 = without (?h ` {f \<in> set (intent_files X data). f \<notin> set referenced}) (view s)"
    using delete_each_run [of "intent_files X data" "\<lambda>f. f \<notin> set referenced" "tpath table" ?h s] by blast
  have D: "?h ` {f \<in> set (intent_files X data). f \<notin> set referenced} \<subseteq> ?D"
    using \<open>\<And>f. f \<in> set (intent_files X data) \<Longrightarrow> f \<notin> set referenced \<Longrightarrow> _\<close>
    unfolding intent_targets_def by blast
  obtain s2 where s2: "delete_quietly S e s1 = (Inr (), s2)" "view s2 = without {e} (view s1)"
    using delete_quietly_run [OF e(2)] by blast
  have swap: "(\<lambda>_ f. if f \<in> set referenced then io_return () else delete_quietly S (tpath table f)) = ?del"
    by (simp add: fun_eq_iff)
  have "cleanup_intent X S table referenced e s = (Inr (), s2)"
    using e s1(1) s2(1) Some
    by (simp add: cleanup_intent_def is_intent_def io_simps read_law [OF e(2)] ok_or_def swap)
  moreover have "?D \<subseteq> intents_doomed X table referenced (view s)"
    using e(1) Some unfolding intents_doomed_def by force
  ultimately show ?thesis
    using D e(1) s1(2) s2(2)
    by (intro exI [of _ s2] exI [of _ "{e} \<union> ?h ` {f \<in> set (intent_files X data). f \<notin> set referenced}"])
      (auto simp: intents_doomed_def without_def)
qed

lemma cleanup_intents_run:
  assumes "\<And>e. e \<in> set es \<Longrightarrow> direct (intents_dir table) e \<and> validate_path e = Inr e"
    "intents_valid X table referenced (view s)"
  shows "\<exists>s' D. io_foldM (\<lambda>_. cleanup_intent X S table referenced) () es s = (Inr (), s')
    \<and> view s' = without D (view s) \<and> (\<forall>e \<in> set es. is_intent table e \<longrightarrow> view s' e = None)
    \<and> D \<subseteq> intents_doomed X table referenced (view s)"
  using assms
proof (induction es arbitrary: s)
  case Nil
  then show ?case by (intro exI [of _ s] exI [of _ "{}"]) simp
next
  case (Cons e es)
  obtain s1 D1 where s1: "cleanup_intent X S table referenced e s = (Inr (), s1)"
    "view s1 = without D1 (view s)" "is_intent table e \<longrightarrow> view s1 e = None"
    "D1 \<subseteq> intents_doomed X table referenced (view s)"
  proof (cases "is_intent table e")
    case True
    then show ?thesis using that cleanup_intent_run [OF True _ Cons.prems(2)] Cons.prems(1) [of e] by auto
  next
    case False
    then have "\<not> ends_with e ''.json''" using Cons.prems(1) [of e] by (simp add: is_intent_def)
    then show ?thesis using False by (intro that [of s "{}"]) (simp_all add: cleanup_intent_def)
  qed
  have "intents_valid X table referenced (view s1)"
    using s1(2) Cons.prems(2) by (simp add: intents_valid_without)
  then obtain s2 D2 where s2: "io_foldM (\<lambda>_. cleanup_intent X S table referenced) () es s1 = (Inr (), s2)"
    "view s2 = without D2 (view s1)" "\<forall>e \<in> set es. is_intent table e \<longrightarrow> view s2 e = None"
    "D2 \<subseteq> intents_doomed X table referenced (view s1)"
    using Cons.IH [of s1] Cons.prems(1) by auto
  have "D2 \<subseteq> intents_doomed X table referenced (view s)"
    using s2(4) s1(2) intents_doomed_without [of X table referenced D1 "view s"] by simp
  moreover have "is_intent table e \<longrightarrow> view s2 e = None"
    using s1(3) s2(2) by (simp add: without_def)
  ultimately show ?case
    using s1(1,2,4) s2(1,2,3) by (intro exI [of _ s2] exI [of _ "D2 \<union> D1"]) simp
qed

lemma cleanup_dir_direct:
  assumes "validate_path d = Inr d" "clean_keys (dom (view s))"
  shows "\<exists>s'. cleanup_dir S d doomed s = (Inr (), s')
    \<and> view s' = without {p. direct d p \<and> doomed p} (view s)"
proof -
  obtain s' where s': "cleanup_dir S d doomed s = (Inr (), s')"
    "view s' = without {p. p \<in> dir_children d (dom (view s)) \<and> doomed p} (view s)"
    using cleanup_dir_run [OF assms] by blast
  have "without {p. p \<in> dir_children d (dom (view s)) \<and> doomed p} (view s) p
      = without {p. direct d p \<and> doomed p} (view s) p" for p
    by (cases "view s p") (auto simp: without_def intro: direct_child child_direct)
  then have "view s' = without {p. direct d p \<and> doomed p} (view s)" using s'(2) by (simp add: fun_eq_iff)
  with s'(1) show ?thesis by blast
qed

lemma cleanup_staging_run:
  assumes t: "plain_piece table" and clean: "clean_keys (dom (view s))"
    and ok: "intents_valid X table referenced (view s)"
  shows "\<exists>s' D. cleanup_staging X S table latest referenced s = (Inr (), s') \<and> view s' = without D (view s)
    \<and> (\<forall>p. leftover table latest p \<longrightarrow> view s' p = None)
    \<and> (\<forall>p \<in> D. leftover table latest p \<or> p \<in> intents_doomed X table referenced (view s))"
proof -
  let ?in = "tpath table ''_staging/incoming''" and ?co = "tpath table ''_staging/compact''"
    and ?ma = "tpath table ''_manifests''"
  have vi: "validate_path (intents_dir table) = Inr (intents_dir table)"
    unfolding intents_dir_def by (rule validate_dirs [OF t])
  have vm: "validate_path ?ma = Inr ?ma"
    using validate_tpath [OF t, of "[''_manifests'']"] by (simp add: join_path_def plain_piece_def)
  obtain es where es: "list_or_empty S (intents_dir table) s = (Inr es, s)"
    "set es = dir_children (intents_dir table) (dom (view s))"
    using list_or_empty_run [OF vi] by blast
  have "direct (intents_dir table) e \<and> validate_path e = Inr e" if "e \<in> set es" for e
    using that es(2) child_direct children_clean [OF clean] by blast
  then obtain s1 D1 where s1: "io_foldM (\<lambda>_. cleanup_intent X S table referenced) () es s = (Inr (), s1)"
    "view s1 = without D1 (view s)" "\<forall>e \<in> set es. is_intent table e \<longrightarrow> view s1 e = None"
    "D1 \<subseteq> intents_doomed X table referenced (view s)"
    using cleanup_intents_run [OF _ ok, of es] by blast
  have intents: "view s1 p = None" if "is_intent table p" for p
  proof (cases "view s p")
    case (Some b)
    then have "p \<in> set es" using that es(2) by (auto simp: is_intent_def intro: direct_child)
    then show ?thesis using s1(3) that by blast
  qed (simp add: s1(2) without_def)
  have c1: "clean_keys (dom (view s1))" using clean s1(2) by (simp add: dom_without clean_keys_def)
  obtain s2 where s2: "cleanup_dir S ?in is_part s1 = (Inr (), s2)"
    "view s2 = without {p. direct ?in p \<and> is_part p} (view s1)"
    using cleanup_dir_direct [OF validate_dirs(5) [OF t] c1] by blast
  have c2: "clean_keys (dom (view s2))" using c1 s2(2) by (simp add: dom_without clean_keys_def)
  obtain s3 where s3: "cleanup_dir S ?co is_part s2 = (Inr (), s3)"
    "view s3 = without {p. direct ?co p \<and> is_part p} (view s2)"
    using cleanup_dir_direct [OF validate_dirs(6) [OF t] c2] by blast
  have c3: "clean_keys (dom (view s3))" using c2 s3(2) by (simp add: dom_without clean_keys_def)
  obtain s4 where s4: "cleanup_dir S ?ma (stale_manifest latest) s3 = (Inr (), s4)"
    "view s4 = without {p. direct ?ma p \<and> stale_manifest latest p} (view s3)"
    using cleanup_dir_direct [OF vm c3] by blast
  let ?D = "{p. direct ?ma p \<and> stale_manifest latest p} \<union> ({p. direct ?co p \<and> is_part p}
      \<union> ({p. direct ?in p \<and> is_part p} \<union> D1))"
  have v4: "view s4 = without ?D (view s)" using s1(2) s2(2) s3(2) s4(2) by simp
  have run: "cleanup_staging X S table latest referenced s = (Inr (), s4)"
    using es(1) s1(1) s2(1) s3(1) s4(1) by (simp add: cleanup_staging_def)
  have "view s4 p = None" if "leftover table latest p" for p
    using that intents [of p] s1(2) unfolding v4 leftover_def by (auto simp: without_def split: if_splits)
  moreover have "\<forall>p \<in> ?D. leftover table latest p \<or> p \<in> intents_doomed X table referenced (view s)"
    using s1(4) by (auto simp: leftover_def)
  ultimately show ?thesis using run v4 by blast
qed

end

section \<open>Reading sidecars, writing checkpoints\<close>

text \<open>The metadata of a fragment, from the cache or its sidecar, and the summaries of the previous checkpoint.\<close>

definition meta_at ::
  "ext \<Rightarrow> (string \<Rightarrow> bytes option) \<Rightarrow> (string \<Rightarrow> row_group_meta option) \<Rightarrow> string \<Rightarrow> row_group_meta option" where
  "meta_at X v cache path =
     (case cache path of
        Some m \<Rightarrow> Some m
      | None \<Rightarrow> (case validate_path path of
                  Inl _ \<Rightarrow> None | Inr p \<Rightarrow> Option.bind (v p) (parse_row_group_meta X)))"

definition prev_at ::
  "ext \<Rightarrow> (string \<Rightarrow> bytes option) \<Rightarrow> string \<Rightarrow> manifest \<Rightarrow> fragment_summary list" where
  "prev_at X v table current =
     (case mf_checkpoint current of
        None \<Rightarrow> []
      | Some c \<Rightarrow> (case validate_path (tpath table c) of
                    Inl _ \<Rightarrow> []
                  | Inr p \<Rightarrow> (case Option.bind (v p) (parse_checkpoint X) of None \<Rightarrow> [] | Some c \<Rightarrow> cp_fragments c)))"

definition summary_at ::
  "ext \<Rightarrow> (string \<Rightarrow> bytes option) \<Rightarrow> (string \<Rightarrow> row_group_meta option) \<Rightarrow> string \<Rightarrow> manifest \<Rightarrow>
   row_group_entry \<Rightarrow> fragment_summary option" where
  "summary_at X v cache table current e =
     (case reusable_summary (mf_row_groups current) (prev_at X v table current) e of
        Some f \<Rightarrow> Some f
      | None \<Rightarrow> map_option (summary_of e) (meta_at X v cache (tpath table (rg_meta e))))"

definition checkpoint_at ::
  "ext \<Rightarrow> (string \<Rightarrow> bytes option) \<Rightarrow> (string \<Rightarrow> row_group_meta option) \<Rightarrow> string \<Rightarrow> manifest \<Rightarrow>
   manifest \<Rightarrow> snapshot_checkpoint" where
  "checkpoint_at X v cache table current new =
     (let c = \<lparr>cp_sequence = mf_sequence new, cp_schema_id = mf_schema_id new,
               cp_fragments = map (the \<circ> summary_at X v cache table current) (mf_row_groups new),
               cp_checksum = []\<rparr>
      in c\<lparr>cp_checksum := cp_compute_checksum X c\<rparr>)"

context storage_contract
begin

lemma w_ensure_dir_run:
  assumes "validate_path d = Inr d" "validate_path (d @ ''/.keep'') = Inr (d @ ''/.keep'')"
  shows "\<exists>s'. w_ensure_dir S d s = (Inr (), s') \<and> view s' = view s"
proof (cases "dir_children d (dom (view s)) = {}")
  case True
  let ?k = "d @ ''/.keep''"
  have "direct d ?k" by (simp add: direct_def)
  then have k: "view s ?k = None" using direct_child [of d ?k "dom (view s)"] True by blast
  obtain s1 where s1: "st_write S ?k [] s = (Inr (), s1)" "view s1 = (view s)(?k \<mapsto> [])"
    using write_law [OF assms(2)] by blast
  obtain s2 where s2: "st_delete S ?k s1 = (Inr (), s2)" "view s2 = (view s1)(?k := None)"
    using delete_law [OF assms(2), of s1] s1(2) by auto
  have "view s2 = view s" using s1(2) s2(2) k by (auto simp: fun_eq_iff)
  then show ?thesis
    using s1(1) s2(1) True
    by (intro exI [of _ s2])
      (simp add: w_ensure_dir_def io_simps list_law [OF assms(1) refl] is_not_found_def)
next
  case False
  then show ?thesis
    by (intro exI [of _ s]) (simp add: w_ensure_dir_def io_simps list_law [OF assms(1) refl])
qed

lemma write_intent_run:
  assumes "validate_path raw = Inr p"
  shows "\<exists>s'. write_intent X S raw txn now sid files s = (Inr (), s')
    \<and> view s' = (view s)(p \<mapsto> json_to_string X (intent_value txn now sid files))"
proof -
  let ?b = "json_to_string X (intent_value txn now sid files)"
  obtain s' where "st_write S raw ?b s = (Inr (), s')" "view s' = (view s)(p \<mapsto> ?b)"
    using write_law [OF assms] by blast
  then show ?thesis by (simp add: write_intent_def sync_law)
qed

lemma prev_summaries_run: "prev_summaries X S table current s = (Inr (prev_at X (view s) table current), s)"
proof (cases "mf_checkpoint current")
  case (Some c)
  show ?thesis
  proof (cases "validate_path (tpath table c)")
    case (Inl e)
    then show ?thesis
      using Some invalid_read [OF Inl, of s] by (simp add: prev_summaries_def prev_at_def io_simps)
  next
    case (Inr p)
    then show ?thesis
      using Some read_law [OF Inr, of s]
      by (cases "view s p") (simp_all add: prev_summaries_def prev_at_def io_simps ok_or_def)
  qed
qed (simp add: prev_summaries_def prev_at_def)

lemma read_meta_cached_run:
  "meta_at X (view s) cache path = Some m \<Longrightarrow> read_meta_cached X S cache path s = (Inr m, s)"
  by (auto simp: meta_at_def read_meta_cached_def io_simps read_law ok_or_def bind_eq_Some_conv
      split: option.splits sum.splits)

lemma build_snapshot_checkpoint_run:
  assumes "\<forall>e \<in> set (mf_row_groups new). summary_at X (view s) cache table current e \<noteq> None"
  shows "build_snapshot_checkpoint X S cache table current new s
    = (Inr (checkpoint_at X (view s) cache table current new), s)"
proof -
  let ?prev = "prev_at X (view s) table current"
  define step where "step = (\<lambda>fragments e.
      case reusable_summary (mf_row_groups current) ?prev e of
        Some f \<Rightarrow> io_return (fragments @ [f])
      | None \<Rightarrow> io_bind (read_meta_cached X S cache (tpath table (rg_meta e))) (\<lambda>m.
                 io_return (fragments @ [summary_of e m])))"
  have one: "step acc e s = (Inr (acc @ [the (summary_at X (view s) cache table current e)]), s)"
    if "summary_at X (view s) cache table current e \<noteq> None" for acc e
    using that read_meta_cached_run [of X s cache "tpath table (rg_meta e)"]
    by (auto simp: step_def summary_at_def split: option.splits)
  have "io_foldM step acc es s = (Inr (acc @ map (the \<circ> summary_at X (view s) cache table current) es), s)"
    if "\<forall>e \<in> set es. summary_at X (view s) cache table current e \<noteq> None" for es acc
    using that by (induction es arbitrary: acc) (simp_all add: one)
  from this [OF assms, of "[]"] show ?thesis
    by (simp add: build_snapshot_checkpoint_def prev_summaries_run step_def checkpoint_at_def Let_def)
qed

end

context protected_storage
begin

lemma keeps_ensure_dir: "free_path G (d @ ''/.keep'') \<Longrightarrow> keeps J (w_ensure_dir S d)"
  unfolding w_ensure_dir_def by (intro protected_rules) auto

lemma keeps_delete_quietly: "deletable G p \<Longrightarrow> keeps J (delete_quietly S p)"
  unfolding delete_quietly_def by (intro protected_rules)

lemma keeps_write_intent: "free_path G p \<Longrightarrow> keeps J (write_intent X S p txn now sid files)"
  unfolding write_intent_def by (intro protected_rules)

lemma keeps_read_meta_cached [keeps_rules]: "keeps J (read_meta_cached X S cache p)"
  unfolding read_meta_cached_def by (intro keeps_rules)

lemma keeps_build_snapshot_checkpoint [keeps_rules]:
  "keeps J (build_snapshot_checkpoint X S cache table current new)"
  unfolding build_snapshot_checkpoint_def prev_summaries_def
  by (intro keeps_rules keeps_foldM)

lemma keeps_cleanup_dir:
  assumes "validate_path d = Inr d" "\<And>p. direct d p \<Longrightarrow> doomed p \<Longrightarrow> G p None"
  shows "keeps J (cleanup_dir S d doomed)"
  unfolding cleanup_dir_def using assms
  by (intro keeps_listed keeps_foldM keeps_if keeps_delete_quietly keeps_rules)
    (auto simp: deletable_def)

lemma keeps_cleanup_intent:
  assumes e: "is_intent table e" "validate_path e = Inr e"
    and safe: "\<And>data f. G e (Some data) \<Longrightarrow> f \<in> set (intent_files X data) \<Longrightarrow> f \<notin> set referenced \<Longrightarrow>
      deletable G (tpath table f)"
    and "G e None"
  shows "keeps J (cleanup_intent X S table referenced e)"
proof -
  let ?rest = "\<lambda>data. io_then (io_foldM (\<lambda>_ f. if f \<in> set referenced then io_return ()
      else delete_quietly S (tpath table f)) () (intent_files X data)) (delete_quietly S e)"
  have rest: "keeps J (?rest data)" if "G e (Some data)" for data
    using that assms by (intro keeps_foldM keeps_rules keeps_delete_quietly) (auto simp: deletable_def)
  show ?thesis
    unfolding keeps_def
  proof (intro allI impI)
    fix s r s' assume s: "J s" and run: "cleanup_intent X S table referenced e s = (r, s')"
    obtain x s1 where x: "st_read S e s = (x, s1)" by (cases "st_read S e s")
    have s1: "J s1" by (rule keepsD [OF keeps_read s x])
    show "J s'"
    proof (cases x)
      case (Inl err)
      then show ?thesis using run x s1 e(1)
        by (auto simp: cleanup_intent_def is_intent_def io_simps split: if_splits)
    next
      case (Inr data)
      have "?rest data s1 = (r, s')"
        using run x Inr e(1) by (simp add: cleanup_intent_def is_intent_def io_bind_run io_try_run)
      then show ?thesis using rest read_allowed [OF s _ e(2)] x Inr s1 by (auto dest: keepsD)
    qed
  qed
qed

lemma keeps_cleanup_staging:
  assumes t: "plain_piece table"
    and gone: "\<And>p. leftover table latest p \<Longrightarrow> G p None"
    and safe: "\<And>e data f. is_intent table e \<Longrightarrow> G e (Some data) \<Longrightarrow> f \<in> set (intent_files X data) \<Longrightarrow>
      f \<notin> set referenced \<Longrightarrow> deletable G (tpath table f)"
  shows "keeps J (cleanup_staging X S table latest referenced)"
proof -
  have vm: "validate_path (tpath table ''_manifests'') = Inr (tpath table ''_manifests'')"
    using validate_tpath [OF t, of "[''_manifests'']"] by (simp add: join_path_def plain_piece_def)
  have vi: "validate_path (intents_dir table) = Inr (intents_dir table)"
    unfolding intents_dir_def by (rule validate_dirs [OF t])
  have one: "keeps J (cleanup_intent X S table referenced e)"
    if "validate_path e = Inr e \<and> direct (intents_dir table) e" for e
  proof (cases "ends_with e ''.json''")
    case True
    then have e: "is_intent table e" using that by (simp add: is_intent_def)
    then have "G e None" by (intro gone) (simp add: leftover_def)
    with e that show ?thesis by (intro keeps_cleanup_intent safe) auto
  qed (simp add: cleanup_intent_def keeps_return)
  show ?thesis
    unfolding cleanup_staging_def using one gone vm vi validate_dirs [OF t]
    by (intro keeps_rules keeps_listed keeps_foldM keeps_cleanup_dir) (auto simp: leftover_def)
qed

lemma keeps_write_archive:
  assumes "free_path G (tpath table (checkpoint_archive_filename seq))"
    "free_path G (tpath table (checkpoint_archive_filename seq) @ ''.tmp'')"
  shows "keeps J (write_archive X K S table c seq)"
  unfolding write_archive_def Let_def using assms by (intro protected_rules) auto

lemma keeps_write_checkpoint:
  assumes "free_path G (tpath table ''_checkpoints'' @ ''/.keep'')" "free_path G (checkpoint_part table seq)"
    "free_path G ipath" "free_path G (tpath table (cp_filename seq))"
    "free_path G (tpath table (checkpoint_archive_filename seq))"
    "free_path G (tpath table (checkpoint_archive_filename seq) @ ''.tmp'')"
  shows "keeps J (write_checkpoint X K S local now table c seq ipath ifiles staged txn sid)"
  unfolding write_checkpoint_def Let_def using assms
  by (intro protected_rules keeps_ensure_dir keeps_write_intent keeps_write_archive) auto

end

end
