(* ===== verification/Table_State.thy ===== *)
theory Table_State
  imports Staging Database_Catalog
begin

text \<open>
  Opening a table and finding its current state: the validation and initialization functions and
  \<^verbatim>\<open>open_or_create_table_full\<close>, \<^verbatim>\<open>load_checkpoint_manifest\<close> with the recovery of a lost pointer, and
  \<^verbatim>\<open>load_current_manifest\<close> of \<^verbatim>\<open>crates/icefalldb-core/src/writer.rs\<close>. The caller holds the table's
  write lock; encryption is off.
\<close>

section \<open>Validating a schema\<close>

definition quoted :: "string \<Rightarrow> string" where
  "quoted s = CHR 0x27 # s @ [CHR 0x27]"

fun duplicate_or_empty :: "string set \<Rightarrow> column list \<Rightarrow> string \<Rightarrow> unit result" where
  "duplicate_or_empty seen [] table = Inr ()"
| "duplicate_or_empty seen (c # cs) table =
     (if col_name c = [] then Inl (InvalidSchema ''column name must not be empty'' table)
      else if col_name c \<in> seen then
        Inl (InvalidSchema (''duplicate column name '' @ quoted (col_name c)) table)
      else duplicate_or_empty (insert (col_name c) seen) cs table)"

fun partition_columns_known :: "string list \<Rightarrow> column list \<Rightarrow> string \<Rightarrow> unit result" where
  "partition_columns_known [] cols table = Inr ()"
| "partition_columns_known (p # ps) cols table =
     (if p \<in> col_name ` set cols then partition_columns_known ps cols table
      else Inl (InvalidSchema (''partition column '' @ quoted p @ '' not found in schema'') table))"

definition validate_schema_for_table :: "table_schema \<Rightarrow> string \<Rightarrow> unit result" where
  "validate_schema_for_table schema table =
     (if sc_columns schema = [] then Inl (InvalidSchema ''schema must have at least one column'' table)
      else if sc_row_group_target_rows schema = 0 then
        Inl (InvalidSchema ''row_group_target_rows must be > 0'' table)
      else if sc_row_group_target_bytes schema = 0 then
        Inl (InvalidSchema ''row_group_target_bytes must be > 0'' table)
      else res_bind (duplicate_or_empty {} (sc_columns schema) table) (\<lambda>_.
        case sc_partition_by schema of
          None \<Rightarrow> Inr ()
        | Some ps \<Rightarrow> partition_columns_known ps (sc_columns schema) table))"

section \<open>Creating and opening\<close>

definition load_existing_schema_file :: "ext \<Rightarrow> 's storage \<Rightarrow> string \<Rightarrow> u64 \<Rightarrow> ('s, table_schema) io" where
  "load_existing_schema_file X S table schema_id =
     (let path = tpath table (schema_filename schema_id)
      in io_bind (st_exists S path) (\<lambda>there.
           if \<not> there then io_throw (SchemaNotFound path)
           else io_bind (st_read S path) (\<lambda>bytes.
                io_bind (io_lift (ok_or (parse_schema X bytes) Serialization)) (\<lambda>schema.
                  if sc_schema_id schema \<noteq> schema_id
                  then io_throw (SchemaMismatch ''schema_id'' (show_nat (unat schema_id)) path)
                  else io_return schema))))"

definition normalized_schema :: "table_schema \<Rightarrow> table_schema" where
  "normalized_schema schema =
     assign_field_ids None (schema\<lparr>sc_schema_id := 1, sc_dropped_columns := [], sc_max_field_id := 0\<rparr>)"

definition latest_pointer :: "u64 \<Rightarrow> json" where
  "latest_pointer n = JObj [(''latest'', jnum n)]"

definition initialize_table_locked :: "ext \<Rightarrow> 's storage \<Rightarrow> string \<Rightarrow> table_schema \<Rightarrow> ('s, table_schema) io" where
  "initialize_table_locked X S table schema =
     (let sc = normalized_schema schema
      in io_then (write_rename S (tpath table (schema_filename (sc_schema_id sc)))
                    (json_to_string X (schema_value sc)))
         (io_then (st_sync S (tpath table ''_schemas''))
         (io_then (write_rename S (tpath table ''_schema.json'')
                    (json_to_string X (latest_pointer (sc_schema_id sc))))
         (io_then (w_ensure_dir S (tpath table ''_manifests''))
         (io_then (write_rename S (tpath table ''_manifest.json'') (json_to_string X (latest_pointer 0)))
         (io_then (st_sync S (tpath table []))
           (io_return sc)))))))"

datatype create_mode = OpenOrCreate | CreateNew

text \<open>Opening an existing table: the schema must be the persisted one, whose ids may need repair.\<close>

definition open_existing_table :: "ext \<Rightarrow> 's storage \<Rightarrow> string \<Rightarrow> table_schema \<Rightarrow> ('s, table_schema) io" where
  "open_existing_table X S table schema =
     (let pointer_path = tpath table ''_schema.json''
      in io_bind (st_read S pointer_path) (\<lambda>data.
         io_bind (io_lift (ok_or (json_parse X data) (InvalidSchemaPointer pointer_path))) (\<lambda>pointer.
         io_bind (io_lift (ok_or (pointer_latest pointer) (InvalidSchemaPointer pointer_path))) (\<lambda>pointer_id.
           if sc_schema_id schema \<noteq> pointer_id
           then io_throw (SchemaMismatch ''schema_id'' (show_nat (unat (sc_schema_id schema))) pointer_path)
           else io_bind (load_existing_schema_file X S table pointer_id) (\<lambda>previous.
             let previous' = repaired previous; schema' = assign_field_ids (Some previous') schema
             in if previous' \<noteq> schema'
                then io_throw (SchemaMismatch ''schema'' ''match existing content'' pointer_path)
                else if has_field_ids previous then io_return schema'
                else
                  let path = tpath table (schema_filename (sc_schema_id previous')); tmp = path @ ''.tmp''
                  in io_then (st_write S tmp (json_to_string X (schema_value previous')))
                     (io_then (st_sync S tmp)
                     (io_then (st_rename S tmp path)
                     (io_then (st_sync S (tpath table ''_schemas''))
                       (io_return schema')))))))))"

fun arrow_schema_from_icefalldb :: "column list \<Rightarrow> string \<Rightarrow> dfield list result" where
  "arrow_schema_from_icefalldb [] path = Inr []"
| "arrow_schema_from_icefalldb (c # cs) path =
     (case icefalldb_type_to_arrow (col_type c) of
        None \<Rightarrow> Inl (InvalidSchema (''column '' @ quoted (col_name c) @ '' has unsupported type ''
                  @ quoted (col_type c)) path)
      | Some t \<Rightarrow> res_bind (arrow_schema_from_icefalldb cs path) (\<lambda>fs.
                   Inr (Field (col_name c) t (col_nullable c) # fs)))"

text \<open>
  An open table. The buffered record batches are of a type \<open>'b\<close>; the lock timeout is left out.
\<close>

record 'b writer =
  w_table :: string
  w_schema :: table_schema
  w_arrow_schema :: "dfield list"
  w_buffer :: "'b list"
  w_buffered_rows :: nat
  w_buffered_bytes :: nat
  w_wal_mode :: bool
  w_wal_checkpoint_threshold :: nat

definition with_wal_mode :: "bool \<Rightarrow> 'b writer \<Rightarrow> 'b writer" where
  "with_wal_mode on w = w\<lparr>w_wal_mode := on\<rparr>"

definition open_or_create_table ::
  "ext \<Rightarrow> 's storage \<Rightarrow> string \<Rightarrow> table_schema \<Rightarrow> create_mode \<Rightarrow> ('s, 'b writer) io" where
  "open_or_create_table X S table schema mode =
     io_bind (io_lift (validate_table table)) (\<lambda>_.
     io_bind (io_lift (validate_schema_for_table schema table)) (\<lambda>_.
       if mode = CreateNew \<and> sc_schema_id schema \<noteq> 1
       then io_throw (InvalidSchema ''new tables must start at schema_id 1'' table)
       else
         io_bind (io_lift (arrow_schema_from_icefalldb (sc_columns schema) table)) (\<lambda>arrow.
         io_bind (st_exists S (tpath table ''_schema.json'')) (\<lambda>there.
         io_bind (if there then
                    if mode = CreateNew then io_throw (TableAlreadyExists table)
                    else open_existing_table X S table schema
                  else
                    io_then (w_ensure_dir S (tpath table ''_staging/intents''))
                    (io_then (w_ensure_dir S (tpath table ''_staging/incoming''))
                    (initialize_table_locked X S table schema))) (\<lambda>schema'.
           io_return \<lparr>w_table = table, w_schema = schema', w_arrow_schema = arrow, w_buffer = [],
                      w_buffered_rows = 0, w_buffered_bytes = 0, w_wal_mode = False,
                      w_wal_checkpoint_threshold = 64\<rparr>)))))"

section \<open>The current manifest\<close>

definition read_manifest_validated :: "ext \<Rightarrow> 's storage \<Rightarrow> string \<Rightarrow> ('s, manifest) io" where
  "read_manifest_validated X S path =
     io_bind (st_read S path) (\<lambda>data.
     io_bind (io_lift (ok_or (parse_manifest X data) Serialization)) (\<lambda>m.
       if verify_checksum X m then io_return m else io_throw (ChecksumMismatch path)))"

datatype pointer_state = PointerAbsent | PointerZero | PointerMalformed | PointerAt u64

definition pointer_state_of :: "ext \<Rightarrow> bytes \<Rightarrow> pointer_state" where
  "pointer_state_of X data =
     (case Option.bind (json_parse X data) pointer_latest of
        None \<Rightarrow> PointerMalformed
      | Some q \<Rightarrow> if q = 0 then PointerZero else PointerAt q)"

definition read_pointer_state :: "ext \<Rightarrow> 's storage \<Rightarrow> string \<Rightarrow> ('s, pointer_state) io" where
  "read_pointer_state X S table =
     (let path = tpath table ''_manifest.json''
      in io_bind (st_exists S path) (\<lambda>there.
           if there then
             io_bind (io_try (st_read S path)) (\<lambda>r.
               case r of
                 Inr data \<Rightarrow> io_return (pointer_state_of X data)
               | Inl (NotFound _) \<Rightarrow> io_return PointerAbsent
               | Inl e \<Rightarrow> io_throw e)
           else io_return PointerAbsent))"

fun first_valid :: "ext \<Rightarrow> 's storage \<Rightarrow> string \<Rightarrow> u64 list \<Rightarrow> ('s, (u64 \<times> manifest) option) io" where
  "first_valid X S table [] = io_return None"
| "first_valid X S table (q # qs) =
     io_bind (io_try (read_manifest_validated X S (tpath table (manifest_filename q)))) (\<lambda>r.
       case r of Inr m \<Rightarrow> io_return (Some (q, m)) | Inl _ \<Rightarrow> first_valid X S table qs)"

definition empty_manifest :: manifest where
  "empty_manifest =
     \<lparr>mf_format_version = 1, mf_sequence = 0, mf_schema_id = 0, mf_row_groups = [], mf_row_counts = None,
      mf_partition_values = None, mf_next_row_id = 0, mf_next_fragment_id = 0,
      mf_rowindex_generation = None, mf_index_generations = [], mf_checkpoint = None,
      mf_parent_hash = None, mf_committed_at = None, mf_checksum = []\<rparr>"

text \<open>The pointer does not name a snapshot: take the highest valid one and point to it.\<close>

definition recover_pointer ::
  "ext \<Rightarrow> 's storage \<Rightarrow> string \<Rightarrow> pointer_state \<Rightarrow> ('s, u64 \<times> manifest) io" where
  "recover_pointer X S table p =
     io_bind (list_or_empty S (tpath table ''_manifests'')) (\<lambda>entries.
       let sequences = rev (sort (List.map_filter entry_seq entries))
       in io_bind (first_valid X S table sequences) (\<lambda>best.
            let fallback =
              (if p = PointerZero \<and> sequences \<noteq> [] \<or> p = PointerMalformed
               then io_throw (InvalidManifestPointer (tpath table ''_manifest.json''))
               else io_return (0, empty_manifest))
            in case best of
                 None \<Rightarrow> fallback
               | Some (q, m) \<Rightarrow>
                   if q > 0 then io_then (write_pointer X S table q) (io_return (q, m)) else fallback))"

definition load_checkpoint_manifest :: "ext \<Rightarrow> 's storage \<Rightarrow> string \<Rightarrow> ('s, u64 \<times> manifest) io" where
  "load_checkpoint_manifest X S table =
     io_bind (read_pointer_state X S table) (\<lambda>p.
       case p of
         PointerAt q \<Rightarrow>
           (let path = tpath table (manifest_filename q)
            in io_bind (io_try (read_manifest_validated X S path)) (\<lambda>r.
                 case r of
                   Inr m \<Rightarrow> io_return (q, m)
                 | Inl (NotFound _) \<Rightarrow> io_throw (ManifestNotFound path)
                 | Inl e \<Rightarrow> io_throw e))
       | _ \<Rightarrow> recover_pointer X S table p)"

definition load_current_manifest :: "ext \<Rightarrow> hash_order \<Rightarrow> 's storage \<Rightarrow> string \<Rightarrow> ('s, u64 \<times> manifest) io" where
  "load_current_manifest X H S table =
     io_bind (load_checkpoint_manifest X S table) (\<lambda>(q, m).
       if q = 0 then io_return (q, m)
       else io_bind (live_manifest X H S table m) (\<lambda>live. io_return (mf_sequence live, live)))"

section \<open>Finding the current manifest\<close>

text \<open>The valid snapshot a store holds for a sequence number.\<close>

definition manifest_at :: "ext \<Rightarrow> (string \<Rightarrow> bytes option) \<Rightarrow> string \<Rightarrow> u64 \<Rightarrow> manifest option" where
  "manifest_at X v table q =
     Option.bind (v (tpath table (manifest_filename q))) (\<lambda>b.
     Option.bind (parse_manifest X b) (\<lambda>m. if verify_checksum X m then Some m else None))"

definition pointer_at :: "ext \<Rightarrow> (string \<Rightarrow> bytes option) \<Rightarrow> string \<Rightarrow> pointer_state" where
  "pointer_at X v table =
     (case v (tpath table ''_manifest.json'') of None \<Rightarrow> PointerAbsent | Some b \<Rightarrow> pointer_state_of X b)"

lemma set_map_filter_Some: "y \<in> set (List.map_filter f xs) \<longleftrightarrow> (\<exists>x \<in> set xs. f x = Some y)"
  by (induction xs) (auto simp: List.map_filter_simps split: option.split)

lemma find_descending:
  assumes "sorted_wrt (\<ge>) qs" "q \<in> set qs" "P q" "\<And>r. r \<in> set qs \<Longrightarrow> P r \<Longrightarrow> r \<le> (q :: 'a :: linorder)"
  shows "find P qs = Some q"
  using assms
proof (induction qs)
  case (Cons r qs)
  show ?case
  proof (cases "P r")
    case True
    then have "r \<le> q" using Cons.prems by simp
    moreover have "q \<le> r" using Cons.prems by auto
    ultimately show ?thesis using True by simp
  next
    case False
    then show ?thesis using Cons by auto
  qed
qed simp

lemma manifest_direct: "direct (tpath table ''_manifests'') (tpath table (manifest_filename q))"
proof -
  have "CHR ''/'' \<notin> set (pad_zeros 9 (show_nat (unat q)) @ ''.json'')"
    using manifest_filename_plain [of "unat q"] unfolding plain_piece_def by blast
  then show ?thesis unfolding direct_def tpath_def manifest_filename_def by simp
qed

context storage_contract
begin

lemma read_pointer_state_run:
  assumes "plain_piece table"
  shows "read_pointer_state X S table s = (Inr (pointer_at X (view s) table), s)"
  using validate_pointer_path(1) [OF assms]
  by (cases "view s (tpath table ''_manifest.json'')")
    (simp_all add: read_pointer_state_def pointer_at_def Let_def io_simps exists_law read_law ok_or_def)

lemma read_manifest_validated_run:
  assumes "plain_piece table"
  shows "manifest_at X (view s) table q = Some m \<Longrightarrow>
      read_manifest_validated X S (tpath table (manifest_filename q)) s = (Inr m, s)"
    "manifest_at X (view s) table q = None \<Longrightarrow>
      \<exists>e. read_manifest_validated X S (tpath table (manifest_filename q)) s = (Inl e, s)"
proof -
  let ?p = "tpath table (manifest_filename q)"
  note r = read_law [OF validate_manifest_path [OF assms, of q], of s]
  show "read_manifest_validated X S ?p s = (Inr m, s)" if some: "manifest_at X (view s) table q = Some m"
  proof -
    obtain b where b: "view s ?p = Some b" "parse_manifest X b = Some m" "verify_checksum X m"
      using some by (auto simp: manifest_at_def bind_eq_Some_conv split: if_splits)
    then show ?thesis using r by (simp add: read_manifest_validated_def ok_or_def)
  qed
  show "\<exists>e. read_manifest_validated X S ?p s = (Inl e, s)" if none: "manifest_at X (view s) table q = None"
  proof (cases "view s ?p")
    case None
    then show ?thesis using r by (simp add: read_manifest_validated_def ok_or_def)
  next
    case (Some b)
    then show ?thesis
      using r none by (cases "parse_manifest X b")
        (simp_all add: read_manifest_validated_def ok_or_def manifest_at_def split: if_splits)
  qed
qed

lemma first_valid_run:
  assumes "plain_piece table"
  shows "first_valid X S table qs s
    = (Inr (map_option (\<lambda>q. (q, the (manifest_at X (view s) table q)))
        (find (\<lambda>q. manifest_at X (view s) table q \<noteq> None) qs)), s)"
proof (induction qs)
  case (Cons q qs)
  show ?case
  proof (cases "manifest_at X (view s) table q")
    case None
    then obtain e where "read_manifest_validated X S (tpath table (manifest_filename q)) s = (Inl e, s)"
      using read_manifest_validated_run(2) [OF assms] by blast
    then show ?thesis using Cons None by (simp add: io_simps)
  next
    case (Some m)
    then show ?thesis using read_manifest_validated_run(1) [OF assms Some] by (simp add: io_simps)
  qed
qed simp

text \<open>The pointer names a valid snapshot: that one is read and nothing changes.\<close>

lemma load_checkpoint_manifest_run:
  assumes "plain_piece table" "pointer_at X (view s) table = PointerAt q" "manifest_at X (view s) table q = Some m"
  shows "load_checkpoint_manifest X S table s = (Inr (q, m), s)"
  using assms read_manifest_validated_run(1) [OF assms(1,3)]
  by (simp add: load_checkpoint_manifest_def read_pointer_state_run Let_def io_simps)

lemma load_current_manifest_run:
  assumes "plain_piece table" "pointer_at X (view s) table = PointerAt q" "manifest_at X (view s) table q = Some m"
    "q \<noteq> 0" "view s (wal_path table) = None"
  shows "load_current_manifest X H S table s = (Inr (mf_sequence m, m), s)"
proof -
  have "read_records X H S table s = (Inr [], s)"
    using assms(5) by (simp add: read_records_def io_simps read_law [OF validate_wal_path [OF assms(1)]]
        ok_or_def is_not_found_def)
  then have "live_manifest X H S table m s = (Inr m, s)" by (simp add: live_manifest_def)
  then show ?thesis
    using assms(4) load_checkpoint_manifest_run [OF assms(1-3)] by (simp add: load_current_manifest_def)
qed

text \<open>
  The pointer is missing or unreadable: the highest valid snapshot is found and the pointer is
  repaired, so that the next open reads it directly.
\<close>

lemma recover_pointer_run:
  assumes t: "plain_piece table" and X: "json_law X"
    and q: "manifest_at X (view s) table q = Some m" "q > 0"
      "\<And>r. manifest_at X (view s) table r \<noteq> None \<Longrightarrow> r \<le> q"
  shows "\<exists>s'. recover_pointer X S table p s = (Inr (q, m), s')
    \<and> view s' = (view s)(tpath table ''_manifest.json.tmp'' := None,
        tpath table ''_manifest.json'' \<mapsto> json_to_string X (latest_pointer q))"
proof -
  have vm: "validate_path (tpath table ''_manifests'') = Inr (tpath table ''_manifests'')"
    using validate_tpath [OF t, of "[''_manifests'']"] by (simp add: join_path_def plain_piece_def)
  obtain es where es: "list_or_empty S (tpath table ''_manifests'') s = (Inr es, s)"
    "set es = dir_children (tpath table ''_manifests'') (dom (view s))"
    using list_or_empty_run [OF vm] by blast
  define f where "f = tpath table (manifest_filename q)"
  define qs where "qs = rev (sort (List.map_filter entry_seq es))"
  have "f \<in> dom (view s)"
    using q(1) unfolding manifest_at_def f_def by (cases "view s (tpath table (manifest_filename q))") (simp_all add: domI)
  moreover have "direct (tpath table ''_manifests'') f" unfolding f_def by (rule manifest_direct)
  ultimately have "f \<in> set es" unfolding es(2) by (intro direct_child)
  moreover have "entry_seq f = Some q" unfolding f_def by (rule entry_seq_filename [OF t])
  ultimately have mem: "q \<in> set qs" unfolding qs_def set_rev set_sort set_map_filter_Some by blast
  have "find (\<lambda>q. manifest_at X (view s) table q \<noteq> None) qs = Some q"
  proof (rule find_descending [OF _ mem])
    show "sorted_wrt (\<ge>) qs" unfolding qs_def by (simp add: sorted_wrt_rev)
    show "manifest_at X (view s) table q \<noteq> None" using q(1) by simp
  qed (rule q(3))
  then have first: "first_valid X S table qs s = (Inr (Some (q, m)), s)"
    using first_valid_run [OF t, of X qs s] q(1) by simp
  obtain s' where s': "write_pointer X S table q s = (Inr (), s')"
    "view s' = (view s)(tpath table ''_manifest.json.tmp'' := None,
        tpath table ''_manifest.json'' \<mapsto> json_to_string X (latest_pointer q))"
    using write_pointer_run [OF t, of X q s] unfolding latest_pointer_def by blast
  have "recover_pointer X S table p s = (Inr (q, m), s')"
    unfolding recover_pointer_def Let_def io_bind_Inr [where m = "list_or_empty S _", OF es(1)] qs_def [symmetric]
      io_bind_Inr [where m = "first_valid X S table qs", OF first]
    using s'(1) q(2) by simp
  with s'(2) show ?thesis by blast
qed

end

lemma pointer_state_latest:
  "json_law X \<Longrightarrow> pointer_state_of X (json_to_string X (latest_pointer q)) = (if q = 0 then PointerZero else PointerAt q)"
  by (simp add: pointer_state_of_def latest_pointer_def json_lawD pointer_latest_def jfield_def)

end
