(* ===== verification/Publish.thy ===== *)
theory Publish
  imports Table_State
begin

text \<open>
  The publishing half of a commit, which the commit functions of
  \<^verbatim>\<open>crates/icefalldb-core/src/writer.rs\<close> repeat: write the intent, the snapshot checkpoint and the
  manifest, each through a temporary file, and swap the pointer last. \<open>commit_direct\<close> is that half
  for the mutations that stage no row group of their own.
\<close>

section \<open>Publishing a manifest\<close>

text \<open>
  What a commit takes from outside: the clock (one reading per call site), a fresh transaction
  id, whether the storage is local, the sidecar cache and the archiver.
\<close>

record commit_env =
  ce_now :: "nat \<Rightarrow> string"
  ce_txn_id :: string
  ce_local :: bool
  ce_cache :: "string \<Rightarrow> row_group_meta option"
  ce_archiver :: archiver

definition verify_manifest_checksum :: "ext \<Rightarrow> 's storage \<Rightarrow> string \<Rightarrow> ('s, bool) io" where
  "verify_manifest_checksum X S path =
     io_bind (st_read S path) (\<lambda>data.
     io_bind (io_lift (ok_or (parse_manifest X data) Serialization)) (\<lambda>m.
       io_return (verify_checksum X m)))"

text \<open>Write the temporary manifest and verify it, once more if the first attempt was damaged.\<close>

definition stage_manifest ::
  "ext \<Rightarrow> 's storage \<Rightarrow> string \<Rightarrow> manifest \<Rightarrow> ('s, unit) io \<Rightarrow> ('s, unit) io" where
  "stage_manifest X S tmp m on_mismatch =
     (let data = json_to_string X (manifest_value m); put = io_then (st_write S tmp data) (st_sync S tmp)
      in io_then put
         (io_bind (verify_manifest_checksum X S tmp) (\<lambda>ok.
            if ok then io_return ()
            else io_then put
                 (io_bind (verify_manifest_checksum X S tmp) (\<lambda>ok.
                    if ok then io_return ()
                    else io_then on_mismatch (io_throw (ChecksumMismatch tmp)))))))"

definition publish_manifest ::
  "ext \<Rightarrow> 's storage \<Rightarrow> string \<Rightarrow> manifest \<Rightarrow> u64 \<Rightarrow> ('s, unit) io \<Rightarrow> ('s, unit) io" where
  "publish_manifest X S table m seq on_mismatch =
     (let path = tpath table (manifest_filename seq); tmp = path @ ''.tmp''
      in io_then (stage_manifest X S tmp m on_mismatch)
         (io_then (st_rename S tmp path)
         (st_sync S (tpath table ''_manifests''))))"

text \<open>The direct mode: intent, checkpoint, manifest, pointer.\<close>

definition commit_direct ::
  "ext \<Rightarrow> 's storage \<Rightarrow> commit_env \<Rightarrow> string \<Rightarrow> u64 \<Rightarrow> manifest \<Rightarrow> manifest \<Rightarrow> u64 \<Rightarrow> string list \<Rightarrow>
   ('s, manifest) io" where
  "commit_direct X S E table schema_id current new seq files =
     (let ipath = intent_path table (ce_txn_id E)
      in io_then (write_intent X S ipath (ce_txn_id E) (ce_now E 0) schema_id files)
         (io_then (st_sync S (intents_dir table))
         (io_bind (build_snapshot_checkpoint X S (ce_cache E) table current new) (\<lambda>cp.
          io_bind (write_checkpoint X (ce_archiver E) S (ce_local E) (ce_now E 1) table cp seq ipath files []
                     (ce_txn_id E) schema_id) (\<lambda>(rel, _, _).
          io_bind (finalize_manifest X S table (ce_now E 2) (new\<lparr>mf_checkpoint := Some rel\<rparr>) seq) (\<lambda>m.
          io_then (publish_manifest X S table m seq (io_then (io_try (st_delete S ipath)) (io_return ())))
          (io_then (write_pointer X S table seq)
          (io_then (io_try (st_delete S ipath))
            (io_return m)))))))))"

section \<open>Zones of a table\<close>

text \<open>The first piece of a path below the table's directory; paths of different zones differ.\<close>

definition zone :: "string \<Rightarrow> string \<Rightarrow> string" where
  "zone table p = takeWhile (\<lambda>c. c \<noteq> CHR ''/'') (drop (length table + 1) p)"

lemma zone_tpath: "zone table (tpath table rel) = takeWhile (\<lambda>c. c \<noteq> CHR ''/'') rel"
  by (simp add: zone_def tpath_def)

lemma zones [simp]:
  "zone table (tpath table ''_manifest.json'') = ''_manifest.json''"
  "zone table (tpath table ''_manifest.json.tmp'') = ''_manifest.json.tmp''"
  "zone table (tpath table (manifest_filename q)) = ''_manifests''"
  "zone table (tpath table (manifest_filename q) @ ''.tmp'') = ''_manifests''"
  "zone table (tpath table (cp_filename q)) = ''_checkpoints''"
  "zone table (tpath table (checkpoint_archive_filename q)) = ''_checkpoints''"
  "zone table (tpath table (checkpoint_archive_filename q) @ ''.tmp'') = ''_checkpoints''"
  "zone table (checkpoint_part table q) = ''_staging''"
  "zone table (intent_path table txn) = ''_staging''"
  "zone table (wal_path table) = ''_wal''"
  "zone table (tpath table ''_checkpoints'' @ ''/.keep'') = ''_checkpoints''"
  "zone table (tpath table ''_deletions'' @ ''/.keep'') = ''_deletions''"
  by (simp_all add: zone_def tpath_def manifest_filename_def cp_filename_def checkpoint_archive_filename_def
      checkpoint_part_def intent_path_def intents_dir_def wal_path_def)

definition commit_paths :: "string \<Rightarrow> u64 \<Rightarrow> string \<Rightarrow> string set" where
  "commit_paths table seq txn =
     {intent_path table txn, checkpoint_part table seq, tpath table (cp_filename seq),
      tpath table (checkpoint_archive_filename seq), tpath table (checkpoint_archive_filename seq) @ ''.tmp'',
      tpath table (manifest_filename seq), tpath table (manifest_filename seq) @ ''.tmp'',
      tpath table ''_manifest.json'', tpath table ''_manifest.json.tmp'', tpath table ''_checkpoints'' @ ''/.keep''}"

lemma validate_numbered:
  assumes "plain_piece table" "plain_piece d" "CHR ''/'' \<notin> set b" "CHR ''/'' \<notin> set a"
    "2 < length a + length b"
  shows "validate_path (tpath table (d @ ''/'' @ a @ pad_zeros 9 (show_nat n) @ b))
    = Inr (tpath table (d @ ''/'' @ a @ pad_zeros 9 (show_nat n) @ b))"
proof -
  have "CHR ''/'' \<notin> set (pad_zeros 9 (show_nat n))" using digits_pad_zeros digit_char_neq(2) by metis
  moreover have "x \<noteq> [] \<and> x \<noteq> ''.'' \<and> x \<noteq> ''..''" if "2 < length x" for x :: string using that by auto
  then have "a @ pad_zeros 9 (show_nat n) @ b \<noteq> [] \<and> a @ pad_zeros 9 (show_nat n) @ b \<noteq> ''.''
      \<and> a @ pad_zeros 9 (show_nat n) @ b \<noteq> ''..''" using assms(5) by simp
  ultimately have "plain_piece (a @ pad_zeros 9 (show_nat n) @ b)" using assms by (simp add: plain_piece_def)
  then show ?thesis
    using validate_tpath [OF assms(1), of "[d, a @ pad_zeros 9 (show_nat n) @ b]"] assms(2)
    by (simp add: join_path_def)
qed

lemma validate_commit_paths:
  assumes t: "plain_piece table"
  shows "validate_path (tpath table (cp_filename q)) = Inr (tpath table (cp_filename q))"
    "validate_path (tpath table (checkpoint_archive_filename q)) = Inr (tpath table (checkpoint_archive_filename q))"
    "validate_path (tpath table (checkpoint_archive_filename q) @ ''.tmp'')
       = Inr (tpath table (checkpoint_archive_filename q) @ ''.tmp'')"
    "validate_path (tpath table (manifest_filename q) @ ''.tmp'') = Inr (tpath table (manifest_filename q) @ ''.tmp'')"
    "validate_path (checkpoint_part table q) = Inr (checkpoint_part table q)"
    "validate_path (tpath table ''_checkpoints'' @ ''/.keep'') = Inr (tpath table ''_checkpoints'' @ ''/.keep'')"
proof -
  have p: "plain_piece ''_checkpoints''" "plain_piece ''_manifests''" by (simp_all add: plain_piece_def)
  show "validate_path (tpath table (cp_filename q)) = Inr (tpath table (cp_filename q))"
    using validate_numbered [OF t p(1), of "''.json''" "[]" "unat q"] by (simp add: cp_filename_def)
  show "validate_path (tpath table (checkpoint_archive_filename q)) = Inr (tpath table (checkpoint_archive_filename q))"
    using validate_numbered [OF t p(1), of "''.rkyv''" "[]" "unat q"] by (simp add: checkpoint_archive_filename_def)
  show "validate_path (tpath table (checkpoint_archive_filename q) @ ''.tmp'')
      = Inr (tpath table (checkpoint_archive_filename q) @ ''.tmp'')"
    using validate_numbered [OF t p(1), of "''.rkyv.tmp''" "[]" "unat q"]
    by (simp add: checkpoint_archive_filename_def tpath_def)
  show "validate_path (tpath table (manifest_filename q) @ ''.tmp'') = Inr (tpath table (manifest_filename q) @ ''.tmp'')"
    using validate_numbered [OF t p(2), of "''.json.tmp''" "[]" "unat q"] by (simp add: manifest_filename_def tpath_def)
  have "CHR ''/'' \<notin> set (pad_zeros 9 (show_nat (unat q)))" using digits_pad_zeros digit_char_neq(2) by metis
  then have "plain_piece (''_checkpoint_'' @ pad_zeros 9 (show_nat (unat q)) @ ''.json.part'')"
    by (simp add: plain_piece_def)
  then show "validate_path (checkpoint_part table q) = Inr (checkpoint_part table q)"
    using validate_tpath [OF t, of "[''_staging'', ''incoming'', ''_checkpoint_'' @ pad_zeros 9 (show_nat (unat q)) @ ''.json.part'']"]
    by (simp add: join_path_def checkpoint_part_def plain_piece_def)
  show "validate_path (tpath table ''_checkpoints'' @ ''/.keep'') = Inr (tpath table ''_checkpoints'' @ ''/.keep'')"
    using validate_tpath [OF t, of "[''_checkpoints'', ''.keep'']"] by (simp add: join_path_def tpath_def plain_piece_def)
qed

lemma validate_intent_path:
  assumes "plain_piece table" "plain_piece (txn @ ''.json'')"
  shows "validate_path (intent_path table txn) = Inr (intent_path table txn)"
  using validate_tpath [OF assms(1), of "[''_staging'', ''intents'', txn @ ''.json'']"] assms(2)
  by (simp add: join_path_def intent_path_def intents_dir_def tpath_def plain_piece_def)

section \<open>What publishing does\<close>

context storage_contract
begin

lemma write_archive_run:
  assumes t: "plain_piece table"
  shows "\<exists>s' arch. write_archive X K S table c seq s = (Inr arch, s')
    \<and> (\<forall>p. p \<notin> {tpath table (checkpoint_archive_filename seq),
         tpath table (checkpoint_archive_filename seq) @ ''.tmp''} \<longrightarrow> view s' p = view s p)"
proof -
  let ?p = "tpath table (checkpoint_archive_filename seq)"
  note v = validate_commit_paths(2,3) [OF t, of seq]
  show ?thesis
  proof (cases "to_archive_bytes X K c = []")
    case True
    obtain s' where "st_delete S (?p @ ''.tmp'') s
        = (if view s (?p @ ''.tmp'') = None then Inl (NotFound (?p @ ''.tmp'')) else Inr (), s')"
      "view s' = (view s)(?p @ ''.tmp'' := None)" using delete_law [OF v(2)] by blast
    then show ?thesis
      using True by (intro exI [of _ s'] exI [of _ "[]"]) (simp add: write_archive_def Let_def io_simps)
  next
    case False
    let ?b = "to_archive_bytes X K c"
    obtain s1 where s1: "st_write S (?p @ ''.tmp'') ?b s = (Inr (), s1)" "view s1 = (view s)(?p @ ''.tmp'' \<mapsto> ?b)"
      using write_law [OF v(2)] by blast
    obtain s2 where s2: "st_rename S (?p @ ''.tmp'') ?p s1 = (Inr (), s2)"
      "view s2 = (view s1)(?p @ ''.tmp'' := None, ?p \<mapsto> ?b)"
      using rename_law [OF v(2,1), of s1 ?b] s1(2) by auto
    show ?thesis
      using False s1 s2 by (intro exI [of _ s2] exI [of _ "[checkpoint_archive_filename seq]"])
        (simp add: write_archive_def Let_def io_simps sync_law)
  qed
qed

lemma write_checkpoint_run:
  assumes t: "plain_piece table" and ip: "validate_path ipath = Inr ipath"
    "zone table ipath = ''_staging''" "ipath \<noteq> checkpoint_part table seq"
  shows "\<exists>s' st. write_checkpoint X K S local now table c seq ipath ifiles staged txn sid s
      = (Inr (cp_filename seq, ifiles @ [cp_filename seq], st), s')
    \<and> view s' (tpath table (cp_filename seq)) = Some (json_to_string X (snapshot_checkpoint_value c))
    \<and> (\<forall>p. p \<notin> {ipath, checkpoint_part table seq, tpath table (cp_filename seq),
         tpath table (checkpoint_archive_filename seq), tpath table (checkpoint_archive_filename seq) @ ''.tmp''}
        \<longrightarrow> view s' p = view s p)"
proof -
  let ?rel = "cp_filename seq" and ?part = "checkpoint_part table seq"
  let ?b = "json_to_string X (snapshot_checkpoint_value c)"
  note v = validate_commit_paths(1-5) [OF t, of seq] validate_commit_paths(6) [OF t]
  obtain s0 where s0: "w_ensure_dir S (tpath table ''_checkpoints'') s = (Inr (), s0)" "view s0 = view s"
    using w_ensure_dir_run [OF validate_dirs(4) [OF t] v(6)] by blast
  obtain s1 where s1: "st_write S ?part ?b s0 = (Inr (), s1)" "view s1 = (view s0)(?part \<mapsto> ?b)"
    using write_law [OF v(5)] by blast
  obtain s2 where s2: "write_intent X S ipath txn now sid (ifiles @ [?rel]) s1 = (Inr (), s2)"
    "view s2 = (view s1)(ipath \<mapsto> json_to_string X (intent_value txn now sid (ifiles @ [?rel])))"
    using write_intent_run [OF ip(1)] by blast
  have "view s2 ?part = Some ?b" using s1(2) s2(2) ip(3) by simp
  then obtain s3 where s3: "st_rename S ?part (tpath table ?rel) s2 = (Inr (), s3)"
    "view s3 = (view s2)(?part := None, tpath table ?rel \<mapsto> ?b)"
    using rename_law [OF v(5,1)] by blast
  obtain s4 arch where s4: "(if local then write_archive X K S table c seq s3 else (Inr [], s3)) = (Inr arch, s4)"
    "\<forall>p. p \<notin> {tpath table (checkpoint_archive_filename seq),
         tpath table (checkpoint_archive_filename seq) @ ''.tmp''} \<longrightarrow> view s4 p = view s3 p"
    using write_archive_run [OF t, of X K c seq s3] by (cases local) auto
  have run: "write_checkpoint X K S local now table c seq ipath ifiles staged txn sid s
      = (Inr (?rel, ifiles @ [?rel], if local then staged @ ?rel # arch else staged @ [?rel]), s4)"
    using s0(1) s1(1) s2(1) s3(1) s4(1)
    by (cases local) (simp_all add: write_checkpoint_def Let_def io_then_run sync_law io_bind_run)
  have "tpath table ?rel \<noteq> tpath table (checkpoint_archive_filename seq)"
    "tpath table ?rel \<noteq> tpath table (checkpoint_archive_filename seq) @ ''.tmp''"
    by (simp_all add: cp_filename_def checkpoint_archive_filename_def tpath_def)
  then have "view s4 (tpath table ?rel) = Some ?b" using s3(2) s4(2) by simp
  moreover have "view s4 p = view s p" if "p \<notin> {ipath, ?part, tpath table ?rel,
      tpath table (checkpoint_archive_filename seq), tpath table (checkpoint_archive_filename seq) @ ''.tmp''}" for p
    using that s0(2) s1(2) s2(2) s3(2) s4(2) by simp
  ultimately show ?thesis using run by blast
qed

lemma publish_manifest_run:
  assumes t: "plain_piece table" and X: "json_law X" and m: "verify_checksum X m"
  shows "\<exists>s'. publish_manifest X S table m seq on_mismatch s = (Inr (), s')
    \<and> view s' = (view s)(tpath table (manifest_filename seq) @ ''.tmp'' := None,
        tpath table (manifest_filename seq) \<mapsto> json_to_string X (manifest_value m))"
proof -
  let ?p = "tpath table (manifest_filename seq)" and ?b = "json_to_string X (manifest_value m)"
  note v = validate_manifest_path [OF t, of seq] validate_commit_paths(4) [OF t, of seq]
  obtain s1 where s1: "st_write S (?p @ ''.tmp'') ?b s = (Inr (), s1)" "view s1 = (view s)(?p @ ''.tmp'' \<mapsto> ?b)"
    using write_law [OF v(2)] by blast
  have "verify_manifest_checksum X S (?p @ ''.tmp'') s1 = (Inr True, s1)"
    using s1(2) m by (simp add: verify_manifest_checksum_def io_simps read_law [OF v(2)] ok_or_def
        parse_manifest_def json_lawD [OF X] manifest_roundtrip)
  then have st: "stage_manifest X S (?p @ ''.tmp'') m on_mismatch s = (Inr (), s1)"
    using s1(1) by (simp add: stage_manifest_def Let_def io_then_run sync_law)
  obtain s2 where s2: "st_rename S (?p @ ''.tmp'') ?p s1 = (Inr (), s2)"
    "view s2 = (view s1)(?p @ ''.tmp'' := None, ?p \<mapsto> ?b)"
    using rename_law [OF v(2,1), of s1 ?b] s1(2) by auto
  show ?thesis
    using st s1(2) s2 by (intro exI [of _ s2]) (simp add: publish_manifest_def Let_def io_then_run sync_law)
qed

text \<open>The states a direct commit passes through.\<close>

lemma commit_direct_steps:
  assumes t: "plain_piece table" and X: "json_law X" and txn: "plain_piece (ce_txn_id E @ ''.json'')"
    and part: "intent_path table (ce_txn_id E) \<noteq> checkpoint_part table seq"
    and sums: "\<And>v. (\<forall>p. p \<noteq> intent_path table (ce_txn_id E) \<longrightarrow> v p = view s p) \<Longrightarrow>
      \<forall>e \<in> set (mf_row_groups new). summary_at X v (ce_cache E) table current e \<noteq> None"
  obtains s1 c s2 st parent s3 s4 r s5 where
    "write_intent X S (intent_path table (ce_txn_id E)) (ce_txn_id E) (ce_now E 0) sid files s = (Inr (), s1)"
    "build_snapshot_checkpoint X S (ce_cache E) table current new s1 = (Inr c, s1)"
    "write_checkpoint X (ce_archiver E) S (ce_local E) (ce_now E 1) table c seq (intent_path table (ce_txn_id E)) files []
      (ce_txn_id E) sid s1 = (Inr (cp_filename seq, files @ [cp_filename seq], st), s2)"
    "parent_manifest_checksum X S table seq s2 = (Inr parent, s2)"
    "publish_manifest X S table (finalize X parent (ce_now E 2) (new\<lparr>mf_checkpoint := Some (cp_filename seq)\<rparr>)) seq
      (io_then (io_try (st_delete S (intent_path table (ce_txn_id E)))) (io_return ())) s2 = (Inr (), s3)"
    "write_pointer X S table seq s3 = (Inr (), s4)"
    "view s4 (tpath table ''_manifest.json'') = Some (json_to_string X (latest_pointer seq))"
    "view s4 (tpath table (manifest_filename seq)) = Some (json_to_string X (manifest_value
      (finalize X parent (ce_now E 2) (new\<lparr>mf_checkpoint := Some (cp_filename seq)\<rparr>))))"
    "\<forall>p. p \<notin> commit_paths table seq (ce_txn_id E) \<longrightarrow> view s4 p = view s p"
    "st_delete S (intent_path table (ce_txn_id E)) s4 = (r, s5)"
    "view s5 = (view s4)(intent_path table (ce_txn_id E) := None)"
    "commit_direct X S E table sid current new seq files s
      = (Inr (finalize X parent (ce_now E 2) (new\<lparr>mf_checkpoint := Some (cp_filename seq)\<rparr>)), s5)"
proof -
  let ?ip = "intent_path table (ce_txn_id E)" and ?new = "new\<lparr>mf_checkpoint := Some (cp_filename seq)\<rparr>"
  note ip = validate_intent_path [OF t txn]
  obtain s1 where s1: "write_intent X S ?ip (ce_txn_id E) (ce_now E 0) sid files s = (Inr (), s1)"
    "view s1 = (view s)(?ip \<mapsto> json_to_string X (intent_value (ce_txn_id E) (ce_now E 0) sid files))"
    using write_intent_run [OF ip] by blast
  let ?c = "checkpoint_at X (view s1) (ce_cache E) table current new"
  have c: "build_snapshot_checkpoint X S (ce_cache E) table current new s1 = (Inr ?c, s1)"
    using sums [of "view s1"] s1(2) by (intro build_snapshot_checkpoint_run) simp
  obtain s2 st where s2: "write_checkpoint X (ce_archiver E) S (ce_local E) (ce_now E 1) table ?c seq ?ip files []
      (ce_txn_id E) sid s1 = (Inr (cp_filename seq, files @ [cp_filename seq], st), s2)"
    "\<forall>p. p \<notin> {?ip, checkpoint_part table seq, tpath table (cp_filename seq),
         tpath table (checkpoint_archive_filename seq), tpath table (checkpoint_archive_filename seq) @ ''.tmp''}
        \<longrightarrow> view s2 p = view s1 p"
    using write_checkpoint_run [OF t ip _ part, of X "ce_archiver E" "ce_local E" "ce_now E 1" ?c files "[]"
        "ce_txn_id E" sid s1] by auto
  obtain parent where parent: "parent_manifest_checksum X S table seq s2 = (Inr parent, s2)"
    using parent_checksum_total [OF t] by blast
  let ?m = "finalize X parent (ce_now E 2) ?new"
  let ?om = "io_then (io_try (st_delete S ?ip)) (io_return ())"
  obtain s3 where s3: "publish_manifest X S table ?m seq ?om s2 = (Inr (), s3)"
    "view s3 = (view s2)(tpath table (manifest_filename seq) @ ''.tmp'' := None,
        tpath table (manifest_filename seq) \<mapsto> json_to_string X (manifest_value ?m))"
    using publish_manifest_run [OF t X finalize_verifies, of parent "ce_now E 2" ?new seq ?om s2] by blast
  obtain s4 where s4: "write_pointer X S table seq s3 = (Inr (), s4)"
    "view s4 = (view s3)(tpath table ''_manifest.json.tmp'' := None,
      tpath table ''_manifest.json'' \<mapsto> json_to_string X (latest_pointer seq))"
    using write_pointer_run [OF t, of X seq s3] unfolding latest_pointer_def by blast
  obtain r s5 where s5: "st_delete S ?ip s4 = (r, s5)" "view s5 = (view s4)(?ip := None)"
    using delete_law [OF ip, of s4] by blast
  have run: "commit_direct X S E table sid current new seq files s = (Inr ?m, s5)"
    using s1(1) c s2(1) parent s3(1) s4(1) s5(1)
    by (simp add: commit_direct_def Let_def io_then_run sync_law io_bind_run finalize_manifest_def io_try_run)
  have p4: "view s4 (tpath table ''_manifest.json'') = Some (json_to_string X (latest_pointer seq))"
    "view s4 (tpath table (manifest_filename seq)) = Some (json_to_string X (manifest_value ?m))"
    using s3(2) s4(2) by simp_all
  have "\<forall>p. p \<notin> commit_paths table seq (ce_txn_id E) \<longrightarrow> view s4 p = view s p"
    using s1(2) s2(2) s3(2) s4(2) by (simp add: commit_paths_def)
  from that [OF s1(1) c s2(1) parent s3(1) s4(1) p4 this s5 run] show thesis .
qed

lemma commit_direct_run:
  assumes "plain_piece table" "json_law X" "plain_piece (ce_txn_id E @ ''.json'')"
    "intent_path table (ce_txn_id E) \<noteq> checkpoint_part table seq"
    "\<And>v. (\<forall>p. p \<noteq> intent_path table (ce_txn_id E) \<longrightarrow> v p = view s p) \<Longrightarrow>
      \<forall>e \<in> set (mf_row_groups new). summary_at X v (ce_cache E) table current e \<noteq> None"
  shows "\<exists>s' parent. commit_direct X S E table sid current new seq files s
      = (Inr (finalize X parent (ce_now E 2) (new\<lparr>mf_checkpoint := Some (cp_filename seq)\<rparr>)), s')
    \<and> view s' (tpath table ''_manifest.json'') = Some (json_to_string X (latest_pointer seq))
    \<and> view s' (tpath table (manifest_filename seq))
      = Some (json_to_string X (manifest_value (finalize X parent (ce_now E 2) (new\<lparr>mf_checkpoint := Some (cp_filename seq)\<rparr>))))
    \<and> view s' (intent_path table (ce_txn_id E)) = None
    \<and> (\<forall>p. p \<notin> commit_paths table seq (ce_txn_id E) \<longrightarrow> view s' p = view s p)"
proof (rule commit_direct_steps [OF assms, where sid = sid and files = files])
  fix s4 s5 parent
  let ?ip = "intent_path table (ce_txn_id E)"
  let ?m = "finalize X parent (ce_now E 2) (new\<lparr>mf_checkpoint := Some (cp_filename seq)\<rparr>)"
  assume s: "view s4 (tpath table ''_manifest.json'') = Some (json_to_string X (latest_pointer seq))"
    "view s4 (tpath table (manifest_filename seq)) = Some (json_to_string X (manifest_value ?m))"
    "\<forall>p. p \<notin> commit_paths table seq (ce_txn_id E) \<longrightarrow> view s4 p = view s p"
    "view s5 = (view s4)(?ip := None)" "commit_direct X S E table sid current new seq files s = (Inr ?m, s5)"
  have "?ip \<noteq> tpath table ''_manifest.json''" "?ip \<noteq> tpath table (manifest_filename seq)"
    using zones(9) [of table "ce_txn_id E"] zones(1) [of table] zones(3) [of table seq] by fastforce+
  moreover have "?ip \<in> commit_paths table seq (ce_txn_id E)" by (simp add: commit_paths_def)
  ultimately show ?thesis
    using s by (intro exI [of _ s5] exI [of _ parent]) auto
qed

end

end
