(* ===== verification/Delete_Commit.thy ===== *)
theory Delete_Commit
  imports Publish Index_Store Commit_Delta
begin

text \<open>
  Logical deletion: \<^verbatim>\<open>Writer::commit_deletes\<close> of \<^verbatim>\<open>crates/icefalldb-core/src/writer.rs\<close>, in both
  of its modes. The direct mode publishes a new manifest and swaps the pointer; in the deferred
  mode one record goes to the mutation log. The caller holds the table's write lock.
\<close>

section \<open>Versioned deletion files\<close>

fun show_hex :: "nat \<Rightarrow> string" where
  "show_hex n = (if n < 16 then [''0123456789abcdef'' ! n] else show_hex (n div 16) @ [''0123456789abcdef'' ! (n mod 16)])"

declare show_hex.simps [simp del]

definition del_rel_path :: "u64 \<Rightarrow> u64 \<Rightarrow> string" where
  "del_rel_path fragment_id ver =
     ''_deletions/rg_'' @ pad_zeros 16 (show_hex (unat fragment_id)) @ ''__v'' @ show_nat (unat ver) @ ''.del''"

text \<open>\<^verbatim>\<open>rsplit(sep).next()\<close>: what follows the last occurrence of the separator, or everything.\<close>

fun after_sep :: "string \<Rightarrow> string \<Rightarrow> string option" where
  "after_sep sep [] = None"
| "after_sep sep (c # cs) =
     (case after_sep sep cs of
        Some r \<Rightarrow> Some r
      | None \<Rightarrow> strip_prefix (c # cs) sep)"

definition after_last :: "string \<Rightarrow> string \<Rightarrow> string" where
  "after_last sep s = (case after_sep sep s of Some r \<Rightarrow> r | None \<Rightarrow> s)"

definition del_version :: "string \<Rightarrow> u64 option" where
  "del_version path = Option.bind (strip_suffix (after_last ''__v'' path) ''.del'') parse_u64"

definition new_del_version :: "string option \<Rightarrow> u64 result" where
  "new_del_version deletes =
     (case deletes of
        None \<Rightarrow> Inr 1
      | Some cur \<Rightarrow> ok_or (map_option (\<lambda>v. v + 1) (del_version cur))
          (Other ''commit_deletes: cannot parse version from existing .del path''))"

section \<open>Marking the rows of a fragment\<close>

definition load_deletion_vector :: "'bm roaring \<Rightarrow> 's storage \<Rightarrow> string \<Rightarrow> string option \<Rightarrow> ('s, 'bm) io" where
  "load_deletion_vector R S table deletes =
     (case deletes of
        None \<Rightarrow> io_return (dv_default R)
      | Some p \<Rightarrow>
          io_bind (st_read S (tpath table p)) (\<lambda>bytes.
            io_lift (case dv_deserialize R bytes of Inl _ \<Rightarrow> Inl (Other ''deserialize'') | Inr dv \<Rightarrow> Inr dv)))"

record deletion_work =
  dw_row_groups :: "row_group_entry list"
  dw_paths :: "string list"
  dw_artifacts :: "staged_artifact list"

definition mark_fragment ::
  "ext \<Rightarrow> 'bm roaring \<Rightarrow> 's storage \<Rightarrow> bool \<Rightarrow> string \<Rightarrow> (u64 \<Rightarrow> u32 list option) \<Rightarrow> deletion_work \<Rightarrow>
   row_group_entry \<Rightarrow> ('s, deletion_work) io" where
  "mark_fragment X R S wal_mode table by_fragment wk entry =
     (case by_fragment (rg_fragment_id entry) of
        None \<Rightarrow> io_return (wk\<lparr>dw_row_groups := dw_row_groups wk @ [entry]\<rparr>)
      | Some offsets \<Rightarrow>
          if offsets = [] then io_return (wk\<lparr>dw_row_groups := dw_row_groups wk @ [entry]\<rparr>)
          else
            io_bind (load_deletion_vector R S table (rg_deletes entry)) (\<lambda>dv0.
            io_bind (io_lift (new_del_version (rg_deletes entry))) (\<lambda>ver.
              let dv = union_offsets R dv0 offsets;
                  rel = del_rel_path (rg_fragment_id entry) ver;
                  bytes = dv_serialize R dv;
                  entry' = entry\<lparr>rg_deletes := Some rel, rg_deleted_count := cardinality R dv\<rparr>;
                  arts = (if wal_mode then [\<lparr>sa_path = rel, sa_hex = hex_encode X bytes\<rparr>] else [])
              in io_then (st_write S (tpath table rel) bytes)
                 (io_then (if wal_mode then io_return () else st_sync S (tpath table rel))
                 (io_return \<lparr>dw_row_groups = dw_row_groups wk @ [entry'], dw_paths = dw_paths wk @ [rel],
                             dw_artifacts = dw_artifacts wk @ arts\<rparr>)))))"

definition mark_fragments ::
  "ext \<Rightarrow> 'bm roaring \<Rightarrow> 's storage \<Rightarrow> bool \<Rightarrow> string \<Rightarrow> (u64 \<Rightarrow> u32 list option) \<Rightarrow> row_group_entry list \<Rightarrow>
   ('s, deletion_work) io" where
  "mark_fragments X R S wal_mode table by_fragment entries =
     io_foldM (mark_fragment X R S wal_mode table by_fragment)
       \<lparr>dw_row_groups = [], dw_paths = [], dw_artifacts = []\<rparr> entries"

section \<open>Tombstones of unique indexes\<close>

text \<open>The ids of the deleted rows, and the fragments that carry no ids.\<close>

definition collect_deleted_ids ::
  "ext \<Rightarrow> 's storage \<Rightarrow> string \<Rightarrow> (u64 \<Rightarrow> u32 list option) \<Rightarrow> row_group_entry list \<Rightarrow>
   ('s, u64 list \<times> u64 list) io" where
  "collect_deleted_ids X S table by_fragment entries =
     io_foldM (\<lambda>(ids, missing) rg.
       case by_fragment (rg_fragment_id rg) of
         None \<Rightarrow> io_return (ids, missing)
       | Some offsets \<Rightarrow>
           if offsets = [] then io_return (ids, missing)
           else
             io_bind (st_read S (tpath table (rg_meta rg))) (\<lambda>bytes.
             io_bind (io_lift (ok_or (parse_row_group_meta X bytes) Serialization)) (\<lambda>meta.
               if rm_row_ids meta = [] then io_return (ids, missing @ [rg_fragment_id rg])
               else
                 let all_ids = concat (map segment_ids (rm_row_ids meta))
                 in io_return (ids @ map (\<lambda>off. all_ids ! unat off)
                      (filter (\<lambda>off. unat off < length all_ids) offsets), missing)))) ([], []) entries"

definition has_unique_index :: "string \<Rightarrow> (string \<times> index_ref) list \<Rightarrow> catalog_data \<Rightarrow> bool" where
  "has_unique_index table gens data \<longleftrightarrow>
     list_ex (\<lambda>(name, e). ie_table e = table \<and> ie_unique e \<and> ie_index_type e = ''btree''
       \<and> map_of gens name \<noteq> None) (dc_indexes data)"

type_synonym tombstone_work = "(string \<times> index_ref) list \<times> string list \<times> staged_artifact list"

definition tombstone_index ::
  "ext \<Rightarrow> 's storage \<Rightarrow> bool \<Rightarrow> string \<Rightarrow> u64 list \<Rightarrow> u64 \<Rightarrow> tombstone_work \<Rightarrow> string \<times> index_entry \<Rightarrow>
   ('s, tombstone_work) io" where
  "tombstone_index X S wal_mode table ids seq = (\<lambda>(gens, paths, arts) (name, e).
     if ie_table e \<noteq> table \<or> \<not> ie_unique e \<or> ie_index_type e \<noteq> ''btree'' then io_return (gens, paths, arts)
     else (case map_of gens name of
             None \<Rightarrow> io_return (gens, paths, arts)
           | Some ref \<Rightarrow>
               io_bind (append_tombstones X S table name ids seq ref (\<not> wal_mode)) (\<lambda>new_ref.
                 let delta = last (ix_deltas new_ref)
                 in io_bind (if wal_mode then
                               io_bind (st_read S (tpath table delta)) (\<lambda>bytes.
                                 io_return [\<lparr>sa_path = delta, sa_hex = hex_encode X bytes\<rparr>])
                             else io_return []) (\<lambda>new_arts.
                    io_return (AList.update name new_ref gens, paths @ [delta], arts @ new_arts)))))"

definition tombstone_indexes ::
  "ext \<Rightarrow> 's storage \<Rightarrow> bool \<Rightarrow> string \<Rightarrow> u64 list \<Rightarrow> u64 \<Rightarrow> catalog_data \<Rightarrow> tombstone_work \<Rightarrow>
   ('s, tombstone_work) io" where
  "tombstone_indexes X S wal_mode table ids seq data wk =
     (if ids = [] then io_return wk
      else io_foldM (tombstone_index X S wal_mode table ids seq) wk (dc_indexes data))"

section \<open>The commit\<close>

definition deleted_manifest ::
  "manifest \<Rightarrow> u64 \<Rightarrow> row_group_entry list \<Rightarrow> (string \<times> index_ref) list \<Rightarrow> manifest" where
  "deleted_manifest current seq row_groups gens =
     \<lparr>mf_format_version = 1, mf_sequence = seq, mf_schema_id = mf_schema_id current,
      mf_row_groups = row_groups, mf_row_counts = mf_row_counts current,
      mf_partition_values = mf_partition_values current, mf_next_row_id = mf_next_row_id current,
      mf_next_fragment_id = mf_next_fragment_id current,
      mf_rowindex_generation = mf_rowindex_generation current, mf_index_generations = gens,
      mf_checkpoint = None, mf_parent_hash = None, mf_committed_at = None, mf_checksum = []\<rparr>"

text \<open>The deferred mode: one record, and a checkpoint when the log has grown past the threshold.\<close>

definition delete_record ::
  "ext \<Rightarrow> manifest \<Rightarrow> u64 \<Rightarrow> u64 \<Rightarrow> (u64 \<Rightarrow> u32 list option) \<Rightarrow> row_group_entry list \<Rightarrow>
   (string \<times> index_ref) list \<Rightarrow> staged_artifact list \<Rightarrow> mutation_record" where
  "delete_record X current latest seq by_fragment row_groups gens arts =
     sealed X
       \<lparr>mr_sequence = seq, mr_base_sequence = latest,
        mr_fragment_deletes = List.map_filter (\<lambda>e.
          case rg_deletes e of
            None \<Rightarrow> None
          | Some d \<Rightarrow> Some \<lparr>fd_fragment_id = rg_fragment_id e, fd_deletes = d,
                            fd_deleted_count = rg_deleted_count e\<rparr>)
          (filter (\<lambda>e. case by_fragment (rg_fragment_id e) of None \<Rightarrow> False | Some offs \<Rightarrow> offs \<noteq> []) row_groups),
        mr_fragment_adds = [], mr_index_generations = gens, mr_rowindex_generation = None,
        mr_next_fragment_id = 0, mr_next_row_id = mf_next_row_id current,
        mr_staged_artifacts = arts, mr_checksum = []\<rparr>"

definition commit_deferred ::
  "ext \<Rightarrow> hash_order \<Rightarrow> 's storage \<Rightarrow> commit_env \<Rightarrow> string \<Rightarrow> nat \<Rightarrow> mutation_record \<Rightarrow> ('s, unit) io" where
  "commit_deferred X H S E table threshold rec =
     io_then (wal_append X S table rec)
     (io_bind (read_records X H S table) (\<lambda>records.
        if length records \<ge> threshold
        then io_then (checkpoint_locked X H S (ce_now E 0) table) (io_return ())
        else io_return ()))"

definition commit_deletes ::
  "ext \<Rightarrow> hash_order \<Rightarrow> 'bm roaring \<Rightarrow> 's storage \<Rightarrow> commit_env \<Rightarrow> 'b writer \<Rightarrow> (u64 \<Rightarrow> u32 list option) \<Rightarrow>
   ('s, 'prg commit_delta) io" where
  "commit_deletes X H R S E w by_fragment =
     (let table = w_table w; wal_mode = w_wal_mode w
      in io_bind (load_current_manifest X H S table) (\<lambda>(latest_seq, current).
         io_then (cleanup_staging X S table latest_seq (manifest_referenced_files current))
         (let next_seq = latest_seq + 1
          in io_bind (st_exists S (tpath table (manifest_filename next_seq))) (\<lambda>there.
               if there then io_throw (SequenceCollision next_seq)
               else
                 io_then (w_ensure_dir S (tpath table ''_deletions''))
                 (io_bind (mark_fragments X R S wal_mode table by_fragment (mf_row_groups current)) (\<lambda>wk.
                  io_then (if wal_mode then io_return () else st_sync S (tpath table ''_deletions''))
                  (io_bind (collect_deleted_ids X S table by_fragment (mf_row_groups current)) (\<lambda>(ids, missing).
                   io_bind (dc_load X S) (\<lambda>data.
                     if has_unique_index table (mf_index_generations current) data \<and> missing \<noteq> []
                     then io_throw (Other ''commit_deletes: fragment(s) have no row_ids'')
                     else
                       io_bind (tombstone_indexes X S wal_mode table ids next_seq data
                                  (mf_index_generations current, [], dw_artifacts wk))
                         (\<lambda>(gens, tomb_paths, arts).
                          let new = deleted_manifest current next_seq (dw_row_groups wk) gens
                          in if wal_mode then
                               io_then (commit_deferred X H S E table (w_wal_checkpoint_threshold w)
                                   (delete_record X current latest_seq next_seq by_fragment (dw_row_groups wk) gens arts))
                                 (io_return (commit_delta_new current new Delete))
                             else
                               io_bind (commit_direct X S E table (sc_schema_id (w_schema w)) current new
                                          next_seq (dw_paths wk @ tomb_paths)) (\<lambda>m.
                                 io_return (commit_delta_new current m Delete))))))))))))"

section \<open>The names of deletion files\<close>

definition hex_digits :: string where "hex_digits = ''0123456789abcdef''"

definition hex_digit_val :: "char \<Rightarrow> nat" where
  "hex_digit_val c = length (takeWhile (\<lambda>x. x \<noteq> c) hex_digits)"

lemma hex_digit_val_nth: "d < 16 \<Longrightarrow> hex_digit_val (''0123456789abcdef'' ! d) = d"
proof -
  have "list_all (\<lambda>d. hex_digit_val (''0123456789abcdef'' ! d) = d) [0..<16]" by code_simp
  then show "d < 16 \<Longrightarrow> ?thesis" by (simp add: list_all_iff)
qed

lemma hex_digit_char: "d < 16 \<Longrightarrow> ''0123456789abcdef'' ! d \<noteq> CHR ''_'' \<and> ''0123456789abcdef'' ! d \<noteq> CHR ''/''"
proof -
  have "list_all (\<lambda>d. ''0123456789abcdef'' ! d \<noteq> CHR ''_'' \<and> ''0123456789abcdef'' ! d \<noteq> CHR ''/'') [0..<16]"
    by code_simp
  then show "d < 16 \<Longrightarrow> ?thesis" by (simp add: list_all_iff)
qed

definition hex_value :: "string \<Rightarrow> nat" where
  "hex_value s = foldl (\<lambda>a c. 16 * a + hex_digit_val c) 0 s"

lemma hex_value_show: "hex_value (show_hex n) = n"
proof (induction n rule: show_hex.induct)
  case (1 n)
  then show ?case
    by (cases "n < 16") (simp_all add: show_hex.simps [of n] hex_value_def hex_digit_val_nth)
qed

lemma hex_value_pad: "hex_value (pad_zeros w s) = hex_value s"
proof -
  have "hex_digit_val (digit_char 0) = 0" by code_simp
  then have "foldl (\<lambda>a c. 16 * a + hex_digit_val c) 0 (replicate k (digit_char 0)) = 0" for k
    by (induction k) simp_all
  then show ?thesis by (simp add: hex_value_def pad_zeros_def)
qed

lemma show_hex_chars: "c \<in> set (show_hex n) \<Longrightarrow> c \<noteq> CHR ''_'' \<and> c \<noteq> CHR ''/''"
proof (induction n rule: show_hex.induct)
  case (1 n)
  then show ?case
    using hex_digit_char [of n] hex_digit_char [of "n mod 16"]
    by (cases "n < 16") (auto simp: show_hex.simps [of n])
qed

lemma pad_hex_chars: "c \<in> set (pad_zeros w (show_hex n)) \<Longrightarrow> c \<noteq> CHR ''_'' \<and> c \<noteq> CHR ''/''"
proof -
  have "digit_char 0 \<noteq> CHR ''_'' \<and> digit_char 0 \<noteq> CHR ''/''" by code_simp
  then show "c \<in> set (pad_zeros w (show_hex n)) \<Longrightarrow> ?thesis"
    using show_hex_chars [of c n] by (auto simp: pad_zeros_def split: if_splits)
qed

lemma show_nat_chars: "c \<in> set (show_nat n) \<Longrightarrow> c \<noteq> CHR ''_'' \<and> c \<noteq> CHR ''/'' \<and> c \<noteq> CHR ''.''"
proof -
  assume "c \<in> set (show_nat n)"
  then obtain d where "d < 10" "c = digit_char d" using digits_show_nat by blast
  moreover have "list_all (\<lambda>d. digit_char d \<noteq> CHR ''_'' \<and> digit_char d \<noteq> CHR ''/'' \<and> digit_char d \<noteq> CHR ''.'') [0..<10]"
    by code_simp
  ultimately show ?thesis by (simp add: list_all_iff)
qed

lemma del_rel_path_inj: "del_rel_path f v = del_rel_path f' v' \<longleftrightarrow> f = f' \<and> v = v'"
proof
  assume eq: "del_rel_path f v = del_rel_path f' v'"
  have hex: "takeWhile (\<lambda>c. c \<noteq> CHR ''_'') (pad_zeros 16 (show_hex n) @ ''__v'' @ r) = pad_zeros 16 (show_hex n)" for n r
    using pad_hex_chars by (subst takeWhile_append2) auto
  have e: "pad_zeros 16 (show_hex (unat f)) @ ''__v'' @ show_nat (unat v) @ ''.del''
      = pad_zeros 16 (show_hex (unat f')) @ ''__v'' @ show_nat (unat v') @ ''.del''"
    using eq by (simp add: del_rel_path_def)
  then have h: "pad_zeros 16 (show_hex (unat f)) = pad_zeros 16 (show_hex (unat f'))"
    using hex by metis
  then have "unat f = unat f'" by (metis hex_value_pad hex_value_show)
  moreover have "show_nat (unat v) = show_nat (unat v')" using e h by simp
  then have "unat v = unat v'" using parse_digits_show_nat by (metis option.inject)
  ultimately show "f = f' \<and> v = v'" by (simp only: unsigned_word_eqI)
qed simp

lemma after_sep_append: "after_sep sep b = Some r \<Longrightarrow> after_sep sep (a @ b) = Some r"
  by (induction a) simp_all

lemma after_sep_absent: "x \<notin> set s \<Longrightarrow> after_sep (x # xs) s = None"
  by (induction s) (auto simp: strip_prefix_def starts_with_def)

lemma del_version_path: "del_version (del_rel_path f v) = Some v"
proof -
  let ?n = "show_nat (unat v) @ ''.del''"
  have "CHR ''_'' \<notin> set ?n" using show_nat_chars by force
  then have "after_sep ''__v'' (CHR ''v'' # ?n) = None"
    by (intro after_sep_absent) simp
  then have "after_sep ''__v'' (''__v'' @ ?n) = Some ?n"
    by (simp add: strip_prefix_def starts_with_def)
  then have "after_sep ''__v'' (del_rel_path f v) = Some ?n"
    unfolding del_rel_path_def
    using after_sep_append [of "''__v''" "''__v'' @ ?n" ?n "''_deletions/rg_'' @ pad_zeros 16 (show_hex (unat f))"]
    by simp
  moreover have "parse_u64 (show_nat (unat v)) = Some v"
    using parse_u64_pad [of 0 v] by (simp add: pad_zeros_def)
  ultimately show ?thesis by (simp add: del_version_def after_last_def)
qed

lemma validate_del_path:
  assumes "plain_piece table"
  shows "validate_path (tpath table (del_rel_path f v)) = Inr (tpath table (del_rel_path f v))"
proof -
  have "CHR ''/'' \<notin> set (pad_zeros 16 (show_hex (unat f)))" "CHR ''/'' \<notin> set (show_nat (unat v))"
    using pad_hex_chars show_nat_chars by blast+
  then show ?thesis
    using validate_tpath [OF assms, of "[''_deletions'',
        ''rg_'' @ pad_zeros 16 (show_hex (unat f)) @ ''__v'' @ show_nat (unat v) @ ''.del'']"]
    by (simp add: join_path_def del_rel_path_def plain_piece_def)
qed

lemma zone_del [simp]: "zone table (tpath table (del_rel_path f v)) = ''_deletions''"
  by (simp add: zone_tpath del_rel_path_def)

section \<open>What deleting does\<close>

text \<open>The deletion vector of an entry, the entry after its rows were marked, and the file it gets.\<close>

definition targeted :: "(u64 \<Rightarrow> u32 list option) \<Rightarrow> row_group_entry \<Rightarrow> bool" where
  "targeted bf e \<longleftrightarrow> (case bf (rg_fragment_id e) of None \<Rightarrow> False | Some offs \<Rightarrow> offs \<noteq> [])"

definition dv_at :: "'bm roaring \<Rightarrow> (string \<Rightarrow> bytes option) \<Rightarrow> string \<Rightarrow> row_group_entry \<Rightarrow> 'bm option" where
  "dv_at R v table e =
     (case rg_deletes e of
        None \<Rightarrow> Some (dv_default R)
      | Some p \<Rightarrow> (case validate_path (tpath table p) of
                    Inl _ \<Rightarrow> None | Inr q \<Rightarrow> Option.bind (v q) (rb_deserialize R)))"

definition next_version :: "row_group_entry \<Rightarrow> u64" where
  "next_version e = (case rg_deletes e of None \<Rightarrow> 1 | Some p \<Rightarrow> the (del_version p) + 1)"

definition new_del_path :: "row_group_entry \<Rightarrow> string" where
  "new_del_path e = del_rel_path (rg_fragment_id e) (next_version e)"

definition marked_dv ::
  "'bm roaring \<Rightarrow> (string \<Rightarrow> bytes option) \<Rightarrow> string \<Rightarrow> (u64 \<Rightarrow> u32 list option) \<Rightarrow> row_group_entry \<Rightarrow> 'bm" where
  "marked_dv R v table bf e = union_offsets R (the (dv_at R v table e)) (the (bf (rg_fragment_id e)))"

definition marked ::
  "'bm roaring \<Rightarrow> (string \<Rightarrow> bytes option) \<Rightarrow> string \<Rightarrow> (u64 \<Rightarrow> u32 list option) \<Rightarrow> row_group_entry \<Rightarrow>
   row_group_entry" where
  "marked R v table bf e =
     (if targeted bf e
      then e\<lparr>rg_deletes := Some (new_del_path e), rg_deleted_count := cardinality R (marked_dv R v table bf e)\<rparr>
      else e)"

text \<open>A deletion file of a well-formed entry carries the entry's fragment id and reads back.\<close>

definition deletes_wf :: "'bm roaring \<Rightarrow> (string \<Rightarrow> bytes option) \<Rightarrow> string \<Rightarrow> row_group_entry \<Rightarrow> bool" where
  "deletes_wf R v table e \<longleftrightarrow>
     (case rg_deletes e of
        None \<Rightarrow> True
      | Some p \<Rightarrow> (\<exists>ver dv. p = del_rel_path (rg_fragment_id e) ver
           \<and> v (tpath table p) = Some (dv_serialize R dv)))"

lemma new_del_version_wf: "deletes_wf R v table e \<Longrightarrow> new_del_version (rg_deletes e) = Inr (next_version e)"
  by (auto simp: deletes_wf_def new_del_version_def next_version_def del_version_path split: option.splits)

lemma dv_at_cong:
  assumes "plain_piece table" "deletes_wf R v table e"
    "\<And>ver. v' (tpath table (del_rel_path (rg_fragment_id e) ver)) = v (tpath table (del_rel_path (rg_fragment_id e) ver))"
  shows "dv_at R v' table e = dv_at R v table e"
  using assms by (auto simp: deletes_wf_def dv_at_def validate_del_path split: option.splits)

definition mark_work ::
  "ext \<Rightarrow> 'bm roaring \<Rightarrow> bool \<Rightarrow> (string \<Rightarrow> bytes option) \<Rightarrow> string \<Rightarrow> (u64 \<Rightarrow> u32 list option) \<Rightarrow>
   row_group_entry list \<Rightarrow> deletion_work" where
  "mark_work X R wal v table bf es =
     (let ts = filter (targeted bf) es
      in \<lparr>dw_row_groups = map (marked R v table bf) es, dw_paths = map new_del_path ts,
          dw_artifacts = (if wal then map (\<lambda>e. \<lparr>sa_path = new_del_path e,
             sa_hex = hex_encode X (dv_serialize R (marked_dv R v table bf e))\<rparr>) ts else [])\<rparr>)"

text \<open>The store after the deletion files of the entries were written.\<close>

definition with_dels ::
  "'bm roaring \<Rightarrow> (string \<Rightarrow> bytes option) \<Rightarrow> string \<Rightarrow> (u64 \<Rightarrow> u32 list option) \<Rightarrow> row_group_entry list \<Rightarrow>
   (string \<Rightarrow> bytes option)" where
  "with_dels R v table bf es =
     v ++ map_of (map (\<lambda>e. (tpath table (new_del_path e), dv_serialize R (marked_dv R v table bf e)))
       (filter (targeted bf) es))"

lemma no_del_file:
  assumes "\<And>e. e \<in> set es \<Longrightarrow> targeted bf e \<Longrightarrow> p \<noteq> tpath table (new_del_path e)"
  shows "map_of (map (\<lambda>e. (tpath table (new_del_path e), g e)) (filter (targeted bf) es)) p = None"
proof (rule ccontr)
  assume "\<not> ?thesis"
  then obtain b where "map_of (map (\<lambda>e. (tpath table (new_del_path e), g e)) (filter (targeted bf) es)) p = Some b"
    by blast
  from map_of_SomeD [OF this] obtain e where "e \<in> set es" "targeted bf e" "p = tpath table (new_del_path e)"
    by auto
  then show False using assms by blast
qed

lemma with_dels_outside:
  assumes "\<And>e. e \<in> set es \<Longrightarrow> targeted bf e \<Longrightarrow> p \<noteq> tpath table (new_del_path e)"
  shows "with_dels R v table bf es p = v p"
  using no_del_file [of es bf p table "\<lambda>e. dv_serialize R (marked_dv R v table bf e)"] assms
  by (simp add: with_dels_def map_add_def)

lemma with_dels_at:
  assumes "distinct (map rg_fragment_id es)" "e \<in> set es" "targeted bf e"
  shows "with_dels R v table bf es (tpath table (new_del_path e)) = Some (dv_serialize R (marked_dv R v table bf e))"
proof -
  have "distinct (map fst (map (\<lambda>e. (tpath table (new_del_path e), dv_serialize R (marked_dv R v table bf e)))
      (filter (targeted bf) es)))"
    using assms(1)
    by (auto simp: distinct_map inj_on_def new_del_path_def del_rel_path_inj comp_def)
  then have "map_of (map (\<lambda>e. (tpath table (new_del_path e), dv_serialize R (marked_dv R v table bf e)))
      (filter (targeted bf) es)) (tpath table (new_del_path e)) = Some (dv_serialize R (marked_dv R v table bf e))"
    using assms(2,3) by (intro map_of_is_SomeI) auto
  then show ?thesis by (simp add: with_dels_def map_add_def)
qed

context storage_contract
begin

lemma load_deletion_vector_run:
  assumes "plain_piece table" "dv_at R (view s) table e = Some dv"
  shows "load_deletion_vector R S table (rg_deletes e) s = (Inr dv, s)"
  using assms
  by (auto simp: load_deletion_vector_def dv_at_def dv_deserialize_def io_simps read_law ok_or_def
      bind_eq_Some_conv split: option.splits sum.splits)

lemma mark_fragment_run:
  assumes t: "plain_piece table" and wf: "deletes_wf R (view s) table e"
    and dv: "dv_at R (view s) table e = Some dv" and tg: "targeted bf e"
  shows "\<exists>s'. mark_fragment X R S wal table bf wk e s
      = (Inr \<lparr>dw_row_groups = dw_row_groups wk @ [marked R (view s) table bf e],
              dw_paths = dw_paths wk @ [new_del_path e],
              dw_artifacts = dw_artifacts wk @ (if wal then [\<lparr>sa_path = new_del_path e,
                sa_hex = hex_encode X (dv_serialize R (marked_dv R (view s) table bf e))\<rparr>] else [])\<rparr>, s')
    \<and> view s' = (view s)(tpath table (new_del_path e) \<mapsto> dv_serialize R (marked_dv R (view s) table bf e))"
proof -
  obtain offs where offs: "bf (rg_fragment_id e) = Some offs" "offs \<noteq> []"
    using tg by (auto simp: targeted_def split: option.splits)
  let ?b = "dv_serialize R (marked_dv R (view s) table bf e)" and ?p = "tpath table (new_del_path e)"
  have v: "validate_path ?p = Inr ?p" unfolding new_del_path_def by (rule validate_del_path [OF t])
  obtain s' where s': "st_write S ?p ?b s = (Inr (), s')" "view s' = (view s)(?p \<mapsto> ?b)"
    using write_law [OF v] by blast
  have b: "dv_serialize R (union_offsets R dv offs) = ?b"
    "cardinality R (union_offsets R dv offs) = cardinality R (marked_dv R (view s) table bf e)"
    using offs dv by (simp_all add: marked_dv_def)
  have "mark_fragment X R S wal table bf wk e s
      = (Inr \<lparr>dw_row_groups = dw_row_groups wk @ [marked R (view s) table bf e],
              dw_paths = dw_paths wk @ [new_del_path e],
              dw_artifacts = dw_artifacts wk @ (if wal then [\<lparr>sa_path = new_del_path e,
                sa_hex = hex_encode X ?b\<rparr>] else [])\<rparr>, s')"
    using offs s'(1) load_deletion_vector_run [OF t dv] new_del_version_wf [OF wf] tg
    by (cases wal) (simp_all add: mark_fragment_def Let_def io_then_run sync_law io_bind_run b marked_def
        new_del_path_def [symmetric])
  with s'(2) show ?thesis by blast
qed

end

end
