(* ===== verification/Delete_Run.thy ===== *)
theory Delete_Run
  imports Delete_Commit
begin

text \<open>
  What a logical deletion does to the store of a table: the deletion files it writes, the ids it
  collects, the tombstones it appends, and the manifest it publishes.
\<close>

section \<open>The deletion files\<close>

lemma dv_at_wf:
  assumes "roaring_laws R" "plain_piece table" "deletes_wf R v table e"
  shows "\<exists>dv. dv_at R v table e = Some dv"
  using assms dv_roundtrip [OF assms(1)]
  by (auto simp: deletes_wf_def dv_at_def validate_del_path dv_deserialize_def ok_or_eq_Inr split: option.splits)

lemma marked_cong:
  assumes "dv_at R v' table e = dv_at R v table e"
  shows "marked_dv R v' table bf e = marked_dv R v table bf e" "marked R v' table bf e = marked R v table bf e"
  using assms by (simp_all add: marked_dv_def marked_def)

lemma deletes_wf_cong:
  assumes "\<And>ver. v' (tpath table (del_rel_path (rg_fragment_id e) ver)) = v (tpath table (del_rel_path (rg_fragment_id e) ver))"
  shows "deletes_wf R v' table e = deletes_wf R v table e"
  using assms by (auto simp: deletes_wf_def split: option.splits)

text \<open>The files of other fragments do not matter to an entry.\<close>

lemma marks_independent:
  assumes "plain_piece table" "\<And>e. e \<in> set es \<Longrightarrow> deletes_wf R v table e \<and> rg_fragment_id e \<noteq> f"
    "v' = v(tpath table (del_rel_path f ver) \<mapsto> b)"
  shows "\<And>e. e \<in> set es \<Longrightarrow> deletes_wf R v' table e" "\<And>e. e \<in> set es \<Longrightarrow> dv_at R v' table e = dv_at R v table e"
proof -
  fix e assume e: "e \<in> set es"
  have same: "v' (tpath table (del_rel_path (rg_fragment_id e) k)) = v (tpath table (del_rel_path (rg_fragment_id e) k))" for k
    using assms(2) [OF e] by (simp add: assms(3) tpath_def del_rel_path_inj)
  show "deletes_wf R v' table e" using deletes_wf_cong [of v' table e v R, OF same] assms(2) [OF e] by simp
  show "dv_at R v' table e = dv_at R v table e" using assms(1,2) e same by (intro dv_at_cong) auto
qed

lemma mark_work_cong:
  assumes "\<And>e. e \<in> set es \<Longrightarrow> dv_at R v' table e = dv_at R v table e"
  shows "mark_work X R wal v' table bf es = mark_work X R wal v table bf es"
proof -
  note c = marked_cong [OF assms]
  have "map (marked R v' table bf) es = map (marked R v table bf) es" by (simp add: c cong: map_cong)
  moreover have "map (\<lambda>e. \<lparr>sa_path = new_del_path e, sa_hex = hex_encode X (dv_serialize R (marked_dv R v' table bf e))\<rparr>)
        (filter (targeted bf) es)
      = map (\<lambda>e. \<lparr>sa_path = new_del_path e, sa_hex = hex_encode X (dv_serialize R (marked_dv R v table bf e))\<rparr>)
        (filter (targeted bf) es)" by (auto simp: c)
  ultimately show ?thesis by (simp add: mark_work_def Let_def)
qed

lemma with_dels_Cons:
  assumes "targeted bf e" "v' = v(tpath table (new_del_path e) \<mapsto> dv_serialize R (marked_dv R v table bf e))"
    "\<And>x. x \<in> set es \<Longrightarrow> dv_at R v' table x = dv_at R v table x \<and> rg_fragment_id x \<noteq> rg_fragment_id e"
  shows "with_dels R v' table bf es = with_dels R v table bf (e # es)"
proof
  fix p
  let ?f = "\<lambda>v e. (tpath table (new_del_path e), dv_serialize R (marked_dv R v table bf e))"
  let ?m = "map_of (map (?f v) (filter (targeted bf) es))"
  have same: "map (?f v') (filter (targeted bf) es) = map (?f v) (filter (targeted bf) es)"
    using assms(3) marked_cong(1) [of R v' table _ v bf] by (intro map_cong) auto
  have "?m (tpath table (new_del_path e)) = None"
  proof (rule no_del_file)
    fix x assume "x \<in> set es"
    then have "rg_fragment_id x \<noteq> rg_fragment_id e" using assms(3) by blast
    then show "tpath table (new_del_path e) \<noteq> tpath table (new_del_path x)"
      by (simp add: new_del_path_def tpath_def del_rel_path_inj)
  qed
  then show "with_dels R v' table bf es p = with_dels R v table bf (e # es) p"
    unfolding with_dels_def same using assms(1) by (simp add: assms(2) map_add_def split: option.split)
qed

definition after_marks :: "deletion_work \<Rightarrow> deletion_work \<Rightarrow> deletion_work" where
  "after_marks wk work =
     \<lparr>dw_row_groups = dw_row_groups wk @ dw_row_groups work, dw_paths = dw_paths wk @ dw_paths work,
      dw_artifacts = dw_artifacts wk @ dw_artifacts work\<rparr>"

context storage_contract
begin

lemma mark_each_run:
  assumes R: "roaring_laws R" and t: "plain_piece table" and d: "distinct (map rg_fragment_id es)"
    and wf: "\<And>e. e \<in> set es \<Longrightarrow> deletes_wf R (view s) table e"
  shows "\<exists>s'. io_foldM (mark_fragment X R S wal table bf) wk es s
      = (Inr (after_marks wk (mark_work X R wal (view s) table bf es)), s')
    \<and> view s' = with_dels R (view s) table bf es"
  using d wf
proof (induction es arbitrary: s wk)
  case Nil
  then show ?case by (simp add: after_marks_def mark_work_def with_dels_def)
next
  case (Cons e es)
  show ?case
  proof (cases "targeted bf e")
    case False
    then have one: "mark_fragment X R S wal table bf wk e s = (Inr (wk\<lparr>dw_row_groups := dw_row_groups wk @ [e]\<rparr>), s)"
      by (auto simp: mark_fragment_def targeted_def split: option.splits)
    obtain s' where s': "io_foldM (mark_fragment X R S wal table bf) (wk\<lparr>dw_row_groups := dw_row_groups wk @ [e]\<rparr>) es s
        = (Inr (after_marks (wk\<lparr>dw_row_groups := dw_row_groups wk @ [e]\<rparr>) (mark_work X R wal (view s) table bf es)), s')"
      "view s' = with_dels R (view s) table bf es"
      using Cons.IH [of s "wk\<lparr>dw_row_groups := dw_row_groups wk @ [e]\<rparr>"] Cons.prems by auto
    show ?thesis
      using one s' False by (intro exI [of _ s']) (simp add: after_marks_def mark_work_def with_dels_def marked_def Let_def)
  next
    case True
    have wfe: "deletes_wf R (view s) table e" using Cons.prems(2) by simp
    obtain dv where dv: "dv_at R (view s) table e = Some dv" using dv_at_wf [OF R t wfe] by blast
    obtain s1 where s1: "mark_fragment X R S wal table bf wk e s
      = (Inr \<lparr>dw_row_groups = dw_row_groups wk @ [marked R (view s) table bf e],
              dw_paths = dw_paths wk @ [new_del_path e],
              dw_artifacts = dw_artifacts wk @ (if wal then [\<lparr>sa_path = new_del_path e,
                sa_hex = hex_encode X (dv_serialize R (marked_dv R (view s) table bf e))\<rparr>] else [])\<rparr>, s1)"
      (is "_ = (Inr ?wk1, s1)")
      "view s1 = (view s)(tpath table (new_del_path e) \<mapsto> dv_serialize R (marked_dv R (view s) table bf e))"
      using mark_fragment_run [OF t wfe dv True] by blast
    have other: "deletes_wf R (view s) table x \<and> rg_fragment_id x \<noteq> rg_fragment_id e" if "x \<in> set es" for x
    proof
      show "deletes_wf R (view s) table x" using that Cons.prems(2) by simp
      show "rg_fragment_id x \<noteq> rg_fragment_id e" using that Cons.prems(1) by (metis distinct.simps(2) image_eqI list.simps(9) set_map)
    qed
    note ind = marks_independent [OF t other s1(2) [unfolded new_del_path_def]]
    obtain s2 where s2: "io_foldM (mark_fragment X R S wal table bf) ?wk1 es s1
        = (Inr (after_marks ?wk1 (mark_work X R wal (view s1) table bf es)), s2)"
      "view s2 = with_dels R (view s1) table bf es"
      using Cons.IH [of s1 ?wk1] Cons.prems(1) ind(1) by auto
    have "view s2 = with_dels R (view s) table bf (e # es)"
      unfolding s2(2) using ind(2) other by (intro with_dels_Cons [OF True s1(2)]) blast
    moreover have work: "mark_work X R wal (view s1) table bf es = mark_work X R wal (view s) table bf es"
      by (rule mark_work_cong) (rule ind(2))
    have "after_marks ?wk1 (mark_work X R wal (view s1) table bf es)
        = after_marks wk (mark_work X R wal (view s) table bf (e # es))"
      unfolding work using True by (simp add: after_marks_def mark_work_def Let_def)
    ultimately show ?thesis using s1(1) s2(1) by simp
  qed
qed

lemma mark_fragments_run:
  assumes "roaring_laws R" "plain_piece table" "distinct (map rg_fragment_id es)"
    "\<And>e. e \<in> set es \<Longrightarrow> deletes_wf R (view s) table e"
  shows "\<exists>s'. mark_fragments X R S wal table bf es s = (Inr (mark_work X R wal (view s) table bf es), s')
    \<and> view s' = with_dels R (view s) table bf es"
  using mark_each_run [OF assms, of X wal bf "\<lparr>dw_row_groups = [], dw_paths = [], dw_artifacts = []\<rparr>"]
  by (simp add: mark_fragments_def after_marks_def mark_work_def Let_def)

end

section \<open>The ids of the deleted rows\<close>

definition victim_ids ::
  "ext \<Rightarrow> (string \<Rightarrow> bytes option) \<Rightarrow> string \<Rightarrow> (u64 \<Rightarrow> u32 list option) \<Rightarrow> row_group_entry \<Rightarrow> u64 list" where
  "victim_ids X v table bf e =
     (let all_ids = flat_ids (rm_row_ids (the (meta_at X v (\<lambda>_. None) (tpath table (rg_meta e)))))
      in map (\<lambda>off. all_ids ! unat off) (filter (\<lambda>off. unat off < length all_ids) (the (bf (rg_fragment_id e)))))"

definition without_ids ::
  "ext \<Rightarrow> (string \<Rightarrow> bytes option) \<Rightarrow> string \<Rightarrow> (u64 \<Rightarrow> u32 list option) \<Rightarrow> row_group_entry \<Rightarrow> bool" where
  "without_ids X v table bf e \<longleftrightarrow>
     targeted bf e \<and> rm_row_ids (the (meta_at X v (\<lambda>_. None) (tpath table (rg_meta e)))) = []"

definition deleted_ids ::
  "ext \<Rightarrow> (string \<Rightarrow> bytes option) \<Rightarrow> string \<Rightarrow> (u64 \<Rightarrow> u32 list option) \<Rightarrow> row_group_entry list \<Rightarrow> u64 list" where
  "deleted_ids X v table bf es = concat (map (victim_ids X v table bf) (filter (targeted bf) es))"

context storage_contract
begin

lemma collect_deleted_ids_run:
  assumes "\<And>e. e \<in> set es \<Longrightarrow> targeted bf e \<Longrightarrow> meta_at X (view s) (\<lambda>_. None) (tpath table (rg_meta e)) \<noteq> None"
  shows "collect_deleted_ids X S table bf es s
    = (Inr (deleted_ids X (view s) table bf es, map rg_fragment_id (filter (without_ids X (view s) table bf) es)), s)"
proof -
  define step where "step = (\<lambda>(ids, missing) (rg :: row_group_entry).
       case bf (rg_fragment_id rg) of
         None \<Rightarrow> io_return (ids, missing)
       | Some offsets \<Rightarrow>
           if offsets = [] then io_return (ids, missing)
           else
             io_bind (st_read S (tpath table (rg_meta rg))) (\<lambda>bytes.
             io_bind (io_lift (ok_or (parse_row_group_meta X bytes) Serialization)) (\<lambda>meta.
               if rm_row_ids meta = [] then io_return (ids, missing @ [rg_fragment_id rg])
               else
                 let all_ids = concat (map segment_ids (rm_row_ids meta))
                 in io_return (ids @ map (\<lambda>off. all_ids ! unat off)
                      (filter (\<lambda>off. unat off < length all_ids) offsets), missing))))"
  have skip: "step (ids, missing) e s = (Inr (ids, missing), s)" if "\<not> targeted bf e" for ids missing e
    using that by (auto simp: step_def targeted_def split: option.splits)
  have one: "step (ids, missing) e s
      = (Inr (ids @ victim_ids X (view s) table bf e, missing @ (if without_ids X (view s) table bf e then [rg_fragment_id e] else [])), s)"
    if tg: "targeted bf e" and m: "meta_at X (view s) (\<lambda>_. None) (tpath table (rg_meta e)) \<noteq> None" for ids missing e
  proof -
    obtain offs where offs: "bf (rg_fragment_id e) = Some offs" "offs \<noteq> []"
      using tg by (auto simp: targeted_def split: option.splits)
    obtain meta where meta: "meta_at X (view s) (\<lambda>_. None) (tpath table (rg_meta e)) = Some meta" using m by blast
    obtain p b where p: "validate_path (tpath table (rg_meta e)) = Inr p" "view s p = Some b" "parse_row_group_meta X b = Some meta"
      using meta by (auto simp: meta_at_def bind_eq_Some_conv split: sum.splits)
    show ?thesis
      using offs tg by (simp add: step_def io_simps read_law [OF p(1)] p(2,3) victim_ids_def without_ids_def meta
          flat_ids_def Let_def)
  qed
  have "io_foldM step (ids, missing) es s
      = (Inr (ids @ deleted_ids X (view s) table bf es,
           missing @ map rg_fragment_id (filter (without_ids X (view s) table bf) es)), s)" for ids missing
    using assms
  proof (induction es arbitrary: ids missing)
    case Nil
    then show ?case by (simp add: deleted_ids_def)
  next
    case (Cons e es)
    then show ?case
      by (cases "targeted bf e") (simp_all add: one skip deleted_ids_def without_ids_def)
  qed
  then show ?thesis by (simp add: collect_deleted_ids_def step_def)
qed

end

section \<open>The tombstones\<close>

text \<open>The indexes a deletion tombstones, and the generations it leaves.\<close>

definition tombstoned_names ::
  "string \<Rightarrow> (string \<times> index_ref) list \<Rightarrow> (string \<times> index_entry) list \<Rightarrow> string list" where
  "tombstoned_names table gens xs =
     map fst (filter (\<lambda>(n, e). ie_table e = table \<and> ie_unique e \<and> ie_index_type e = ''btree''
       \<and> map_of gens n \<noteq> None) xs)"

definition tombstoned_gens :: "u64 \<Rightarrow> (string \<times> index_ref) list \<Rightarrow> string list \<Rightarrow> (string \<times> index_ref) list" where
  "tombstoned_gens seq gens ns = fold (\<lambda>n g. AList.update n (add_delta n seq (the (map_of g n))) g) ns gens"

lemma map_of_tombstoned_gens:
  assumes "distinct ns"
  shows "map_of (tombstoned_gens seq gens ns) n
    = (if n \<in> set ns then Some (add_delta n seq (the (map_of gens n))) else map_of gens n)"
  using assms
proof (induction ns arbitrary: gens)
  case (Cons m ns)
  have "tombstoned_gens seq gens (m # ns) = tombstoned_gens seq (AList.update m (add_delta m seq (the (map_of gens m))) gens) ns"
    by (simp add: tombstoned_gens_def)
  then show ?case using Cons by (simp add: update_conv')
qed (simp add: tombstoned_gens_def)

lemma tombstoned_names_update:
  "map_of gens n \<noteq> None \<Longrightarrow> tombstoned_names table (AList.update n r gens) xs = tombstoned_names table gens xs"
  unfolding tombstoned_names_def update_conv' by (intro arg_cong [where f = "map fst"] filter_cong) (auto split: if_splits)

lemma has_unique_index_names:
  "has_unique_index table gens data \<longleftrightarrow> tombstoned_names table gens (dc_indexes data) \<noteq> []"
  by (auto simp: has_unique_index_def tombstoned_names_def list_ex_iff filter_empty_conv)

definition tombstone_bytes :: "ext \<Rightarrow> u64 list \<Rightarrow> bytes" where
  "tombstone_bytes X ids = json_pretty X (tombstone_delta_value \<lparr>td_tombstoned = ids, td_adds = []\<rparr>)"

definition tombstone_artifact :: "ext \<Rightarrow> u64 list \<Rightarrow> u64 \<Rightarrow> string \<Rightarrow> staged_artifact" where
  "tombstone_artifact X ids seq n =
     \<lparr>sa_path = td_versioned_filename n seq, sa_hex = hex_encode X (tombstone_bytes X ids)\<rparr>"

context storage_contract
begin

lemma append_tombstones_run:
  assumes "plain_piece table" "plain_piece name"
  shows "\<exists>s'. append_tombstones X S table name ids seq ref durable s = (Inr (add_delta name seq ref), s')
    \<and> view s' (index_file table name (delta_file seq ''.json'')) = Some (tombstone_bytes X ids)
    \<and> (\<forall>p. p \<notin> delta_paths table name seq \<longrightarrow> view s' p = view s p)"
proof -
  let ?p = "index_file table name (delta_file seq ''.json'')"
  have v: "validate_path ?p = Inr ?p" "validate_path (?p @ ''.tmp'') = Inr (?p @ ''.tmp'')"
    using validate_delta_paths [OF assms] by (simp_all add: versioned_paths)
  obtain s1 where s1: "st_write S (?p @ ''.tmp'') (tombstone_bytes X ids) s = (Inr (), s1)"
    "view s1 = (view s)(?p @ ''.tmp'' \<mapsto> tombstone_bytes X ids)" using write_law [OF v(2)] by blast
  obtain s2 where s2: "st_rename S (?p @ ''.tmp'') ?p s1 = (Inr (), s2)"
    "view s2 = (view s1)(?p @ ''.tmp'' := None, ?p \<mapsto> tombstone_bytes X ids)"
    using rename_law [OF v(2,1), of s1] s1(2) by auto
  have "append_tombstones X S table name ids seq ref durable s = (Inr (add_delta name seq ref), s2)"
    using s1(1) s2(1)
    by (cases durable) (simp_all add: append_tombstones_def Let_def ensure_dir_def io_then_run sync_law
        versioned_paths tombstone_bytes_def [symmetric] add_delta_def)
  then show ?thesis using s1(2) s2(2) by (intro exI [of _ s2]) (auto simp: versioned_paths)
qed

lemma tombstone_index_run:
  assumes "plain_piece table" "plain_piece n" "map_of gens n = Some ref"
    "ie_table e = table" "ie_unique e" "ie_index_type e = ''btree''"
  shows "\<exists>s'. tombstone_index X S wal table ids seq (gens, paths, arts) (n, e) s
      = (Inr (AList.update n (add_delta n seq ref) gens, paths @ [td_versioned_filename n seq],
          arts @ (if wal then [tombstone_artifact X ids seq n] else [])), s')
    \<and> view s' (index_file table n (delta_file seq ''.json'')) = Some (tombstone_bytes X ids)
    \<and> (\<forall>p. p \<notin> delta_paths table n seq \<longrightarrow> view s' p = view s p)"
proof -
  let ?p = "index_file table n (delta_file seq ''.json'')"
  obtain s' where s': "append_tombstones X S table n ids seq ref (\<not> wal) s = (Inr (add_delta n seq ref), s')"
    "view s' ?p = Some (tombstone_bytes X ids)" "\<forall>p. p \<notin> delta_paths table n seq \<longrightarrow> view s' p = view s p"
    using append_tombstones_run [OF assms(1,2)] by blast
  have l: "last (ix_deltas (add_delta n seq ref)) = td_versioned_filename n seq" by (simp add: add_delta_def)
  have r: "st_read S ?p s' = (Inr (tombstone_bytes X ids), s')"
    using s'(2) read_law [OF validate_delta_paths(1) [OF assms(1,2)], of seq s'] by (simp add: ok_or_def)
  have "tombstone_index X S wal table ids seq (gens, paths, arts) (n, e) s
      = (Inr (AList.update n (add_delta n seq ref) gens, paths @ [td_versioned_filename n seq],
          arts @ (if wal then [tombstone_artifact X ids seq n] else [])), s')"
    using assms(3-) s'(1) r
    by (cases wal) (simp_all add: tombstone_index_def io_bind_run Let_def l versioned_paths(2) tombstone_artifact_def)
  with s'(2,3) show ?thesis by blast
qed

lemma tombstone_each_run:
  assumes t: "plain_piece table" and names: "\<forall>n \<in> fst ` set xs. plain_piece n" and d: "distinct (map fst xs)"
  shows "\<exists>s'. io_foldM (tombstone_index X S wal table ids seq) (gens, paths, arts) xs s
      = (Inr (tombstoned_gens seq gens (tombstoned_names table gens xs),
          paths @ map (\<lambda>n. td_versioned_filename n seq) (tombstoned_names table gens xs),
          arts @ (if wal then map (tombstone_artifact X ids seq) (tombstoned_names table gens xs) else [])), s')
    \<and> (\<forall>n \<in> set (tombstoned_names table gens xs).
         view s' (index_file table n (delta_file seq ''.json'')) = Some (tombstone_bytes X ids))
    \<and> (\<forall>p. (\<forall>n \<in> set (tombstoned_names table gens xs). p \<notin> delta_paths table n seq) \<longrightarrow> view s' p = view s p)"
  using names d
proof (induction xs arbitrary: gens paths arts s)
  case Nil
  then show ?case by (simp add: tombstoned_names_def tombstoned_gens_def)
next
  case (Cons x xs)
  obtain n e where x: "x = (n, e)" by force
  have pre: "\<forall>n \<in> fst ` set xs. plain_piece n" "distinct (map fst xs)" using Cons.prems by auto
  let ?hit = "ie_table e = table \<and> ie_unique e \<and> ie_index_type e = ''btree'' \<and> map_of gens n \<noteq> None"
  show ?case
  proof (cases ?hit)
    case False
    then have "tombstone_index X S wal table ids seq (gens, paths, arts) (n, e) s = (Inr (gens, paths, arts), s)"
      by (auto simp: tombstone_index_def)
    moreover have "tombstoned_names table gens (x # xs) = tombstoned_names table gens xs"
      using False by (simp add: tombstoned_names_def x)
    ultimately show ?thesis using Cons.IH [OF pre, of gens paths arts s] by (cases wal) (simp_all add: x)
  next
    case True
    then obtain ref where ref: "map_of gens n = Some ref" by blast
    have pn: "plain_piece n" using Cons.prems(1) x by simp
    let ?g = "AList.update n (add_delta n seq ref) gens"
    let ?ns = "tombstoned_names table gens xs"
    obtain s1 where s1: "tombstone_index X S wal table ids seq (gens, paths, arts) (n, e) s
        = (Inr (?g, paths @ [td_versioned_filename n seq],
            arts @ (if wal then [tombstone_artifact X ids seq n] else [])), s1)"
      "view s1 (index_file table n (delta_file seq ''.json'')) = Some (tombstone_bytes X ids)"
      "\<forall>p. p \<notin> delta_paths table n seq \<longrightarrow> view s1 p = view s p"
      using tombstone_index_run [OF t pn ref] True by blast
    have ns: "tombstoned_names table ?g xs = ?ns" using ref by (simp add: tombstoned_names_update)
    obtain s2 where s2: "io_foldM (tombstone_index X S wal table ids seq) (?g, paths @ [td_versioned_filename n seq],
          arts @ (if wal then [tombstone_artifact X ids seq n] else [])) xs s1
        = (Inr (tombstoned_gens seq ?g ?ns, (paths @ [td_versioned_filename n seq]) @ map (\<lambda>n. td_versioned_filename n seq) ?ns,
            (arts @ (if wal then [tombstone_artifact X ids seq n] else []))
              @ (if wal then map (tombstone_artifact X ids seq) ?ns else [])), s2)"
      "\<forall>n \<in> set ?ns. view s2 (index_file table n (delta_file seq ''.json'')) = Some (tombstone_bytes X ids)"
      "\<forall>p. (\<forall>n \<in> set ?ns. p \<notin> delta_paths table n seq) \<longrightarrow> view s2 p = view s1 p"
      using Cons.IH [OF pre, of ?g "paths @ [td_versioned_filename n seq]"
          "arts @ (if wal then [tombstone_artifact X ids seq n] else [])" s1] unfolding ns by blast
    have all: "tombstoned_names table gens (x # xs) = n # ?ns"
      using True by (simp add: tombstoned_names_def x)
    have fresh: "n \<notin> set ?ns" and plain: "\<forall>m \<in> set ?ns. plain_piece m"
      using Cons.prems x by (force simp: tombstoned_names_def)+
    have "index_file table n (delta_file seq ''.json'') \<notin> delta_paths table m seq" if "m \<in> set ?ns" for m
      using that fresh plain pn t by (auto simp: index_file_inj plain_versioned)
    then have "view s2 (index_file table n (delta_file seq ''.json'')) = Some (tombstone_bytes X ids)"
      using s1(2) s2(3) by auto
    then show ?thesis
      using s1(1,3) s2 ref unfolding x [symmetric] all
      by (intro exI [of _ s2]) (simp add: x tombstoned_gens_def)
  qed
qed

end

section \<open>A table at rest\<close>

text \<open>The files a snapshot names, and all files an open reads for it.\<close>

definition named_paths :: "string \<Rightarrow> manifest \<Rightarrow> string set" where
  "named_paths table m = {p. \<exists>f \<in> set (manifest_referenced_files m). validate_path (tpath table f) = Inr p}"

definition table_paths :: "string \<Rightarrow> manifest \<Rightarrow> string set" where
  "table_paths table m =
     {tpath table ''_manifest.json'', tpath table (manifest_filename (mf_sequence m)), CATALOG_PATH}
     \<union> named_paths table m"

text \<open>
  No commit is in progress: the pointer names a valid snapshot, the mutation log is empty, the files
  of the snapshot are readable, and nothing an interrupted commit left behind is one of them.
\<close>

definition at_rest ::
  "ext \<Rightarrow> 'bm roaring \<Rightarrow> (string \<Rightarrow> bytes option) \<Rightarrow> string \<Rightarrow> manifest \<Rightarrow> bool" where
  "at_rest X R v table m \<longleftrightarrow>
     plain_piece table \<and> clean_keys (dom v) \<and> mf_sequence m \<noteq> 0
     \<and> pointer_at X v table = PointerAt (mf_sequence m) \<and> manifest_at X v table (mf_sequence m) = Some m
     \<and> v (wal_path table) = None \<and> wal_path table \<notin> named_paths table m
     \<and> distinct (map rg_fragment_id (mf_row_groups m))
     \<and> (\<forall>e \<in> set (mf_row_groups m). deletes_wf R v table e
           \<and> meta_at X v (\<lambda>_. None) (tpath table (rg_meta e)) \<noteq> None)
     \<and> intents_valid X table (manifest_referenced_files m) v
     \<and> (\<forall>p \<in> table_paths table m. \<not> leftover table (mf_sequence m) p
           \<and> p \<notin> intents_doomed X table (manifest_referenced_files m) v)"

lemma entry_referenced:
  assumes "e \<in> set (mf_row_groups m)" "f \<in> set (entry_files e)" "validate_path (tpath table f) = Inr p"
  shows "p \<in> named_paths table m"
  using assms by (auto simp: named_paths_def manifest_referenced_files_def)

text \<open>What a snapshot says depends on the files it names only.\<close>

lemma entry_cong:
  assumes t: "plain_piece table" and e: "e \<in> set (mf_row_groups m)"
    and same: "\<forall>p \<in> named_paths table m. v' p = v p"
  shows "meta_at X v' cache (tpath table (rg_meta e)) = meta_at X v cache (tpath table (rg_meta e))"
    "deletes_wf R v' table e = deletes_wf R v table e" "dv_at R v' table e = dv_at R v table e"
proof -
  have f: "rg_meta e \<in> set (entry_files e)" "rg_deletes e = Some d \<Longrightarrow> d \<in> set (entry_files e)" for d
    by (simp_all add: entry_files_def)
  have m: "v' p = v p" if "validate_path (tpath table (rg_meta e)) = Inr p" for p
    by (rule same [rule_format]) (rule entry_referenced [OF e f(1) that])
  have d: "v' p = v p" if "rg_deletes e = Some d" "validate_path (tpath table d) = Inr p" for d p
    by (rule same [rule_format]) (rule entry_referenced [OF e f(2) [OF that(1)] that(2)])
  show "meta_at X v' cache (tpath table (rg_meta e)) = meta_at X v cache (tpath table (rg_meta e))"
    using m by (auto simp: meta_at_def split: option.split sum.split)
  show "dv_at R v' table e = dv_at R v table e"
    using d by (auto simp: dv_at_def split: option.split sum.split)
  show "deletes_wf R v' table e = deletes_wf R v table e"
    using d validate_del_path [OF t] by (auto simp: deletes_wf_def split: option.splits)
qed

lemma prev_at_cong:
  assumes "\<forall>p \<in> named_paths table m. v' p = v p"
  shows "prev_at X v' table m = prev_at X v table m"
proof -
  have "v' p = v p" if "mf_checkpoint m = Some c" "validate_path (tpath table c) = Inr p" for c p
  proof -
    have "p \<in> named_paths table m" using that by (auto simp: named_paths_def manifest_referenced_files_def)
    then show ?thesis using assms by blast
  qed
  then show ?thesis by (auto simp: prev_at_def split: option.split sum.split)
qed

lemma manifest_at_cong: "v' (tpath table (manifest_filename q)) = v (tpath table (manifest_filename q)) \<Longrightarrow>
    manifest_at X v' table q = manifest_at X v table q"
  by (simp add: manifest_at_def)

lemma pointer_at_cong: "v' (tpath table ''_manifest.json'') = v (tpath table ''_manifest.json'') \<Longrightarrow>
    pointer_at X v' table = pointer_at X v table"
  by (simp add: pointer_at_def)

lemma dc_of_cong: "v' CATALOG_PATH = v CATALOG_PATH \<Longrightarrow> dc_of X v' = dc_of X v"
  by (simp add: dc_of_def)

text \<open>The files a deletion writes.\<close>

definition deletion_files ::
  "string \<Rightarrow> u64 \<Rightarrow> (u64 \<Rightarrow> u32 list option) \<Rightarrow> row_group_entry list \<Rightarrow> string list \<Rightarrow> string set" where
  "deletion_files table seq bf es ns = insert (tpath table ''_deletions'' @ ''/.keep'')
     ((\<lambda>e. tpath table (new_del_path e)) ` {e \<in> set es. targeted bf e} \<union> (\<Union>n \<in> set ns. delta_paths table n seq))"

definition delete_writes ::
  "string \<Rightarrow> string \<Rightarrow> u64 \<Rightarrow> (u64 \<Rightarrow> u32 list option) \<Rightarrow> row_group_entry list \<Rightarrow> string list \<Rightarrow> string set" where
  "delete_writes table txn seq bf es ns = commit_paths table seq txn \<union> deletion_files table seq bf es ns"

lemma written_cases [consumes 1, case_names commit keep del delta]:
  assumes "p \<in> delete_writes table txn seq bf es ns"
  obtains "p \<in> commit_paths table seq txn" | "p = tpath table ''_deletions'' @ ''/.keep''"
    | e where "e \<in> set es" "targeted bf e" "p = tpath table (new_del_path e)"
    | n where "n \<in> set ns" "p \<in> delta_paths table n seq"
  using assms unfolding delete_writes_def deletion_files_def by blast

lemma no_sep_catalog: "CHR ''/'' \<notin> set CATALOG_PATH"
  by (simp add: CATALOG_PATH_def)

lemma sep_tpath: "CHR ''/'' \<in> set (tpath table rel)" "CHR ''/'' \<in> set (tpath table rel @ x)"
  by (simp_all add: tpath_def)

lemma sep_paths: "CHR ''/'' \<in> set (intent_path table txn)" "CHR ''/'' \<in> set (checkpoint_part table q)"
  "CHR ''/'' \<in> set (index_file table n f)"
  by (simp_all add: intent_path_def intents_dir_def checkpoint_part_def index_file_def sep_tpath)

lemma catalog_not_written: "CATALOG_PATH \<notin> delete_writes table txn seq bf es ns"
proof -
  have "CHR ''/'' \<in> set p" if "p \<in> delete_writes table txn seq bf es ns" for p
    using that unfolding delete_writes_def deletion_files_def commit_paths_def by (auto simp: sep_paths sep_tpath)
  then show ?thesis using no_sep_catalog by blast
qed

section \<open>The direct commit\<close>

text \<open>
  What a deletion needs to succeed: room for a sequence number, a usable transaction id, a readable
  catalog, ids in the sidecars when a unique index must be maintained, and fresh names.
\<close>

definition delete_ready ::
  "ext \<Rightarrow> (string \<Rightarrow> bytes option) \<Rightarrow> string \<Rightarrow> string \<Rightarrow> manifest \<Rightarrow> (u64 \<Rightarrow> u32 list option) \<Rightarrow> catalog_data \<Rightarrow> bool" where
  "delete_ready X v table txn m bf data \<longleftrightarrow>
     mf_sequence m + 1 \<noteq> 0 \<and> plain_piece (txn @ ''.json'')
     \<and> intent_path table txn \<noteq> checkpoint_part table (mf_sequence m + 1)
     \<and> dc_of X v = Some data \<and> (\<forall>n \<in> fst ` set (dc_indexes data). plain_piece n)
     \<and> (tombstoned_names table (mf_index_generations m) (dc_indexes data) \<noteq> [] \<longrightarrow>
          (\<forall>e \<in> set (mf_row_groups m). \<not> without_ids X v table bf e))
     \<and> named_paths table m \<inter> delete_writes table txn (mf_sequence m + 1) bf (mf_row_groups m)
          (tombstoned_names table (mf_index_generations m) (dc_indexes data)) = {}"

text \<open>The generations and the manifest a deletion leaves.\<close>

definition deleted_gens ::
  "ext \<Rightarrow> (string \<Rightarrow> bytes option) \<Rightarrow> string \<Rightarrow> manifest \<Rightarrow> (u64 \<Rightarrow> u32 list option) \<Rightarrow> catalog_data \<Rightarrow>
   (string \<times> index_ref) list" where
  "deleted_gens X v table m bf data =
     (if deleted_ids X v table bf (mf_row_groups m) = [] then mf_index_generations m
      else tombstoned_gens (mf_sequence m + 1) (mf_index_generations m)
             (tombstoned_names table (mf_index_generations m) (dc_indexes data)))"

definition after_deletion ::
  "ext \<Rightarrow> 'bm roaring \<Rightarrow> (string \<Rightarrow> bytes option) \<Rightarrow> string \<Rightarrow> manifest \<Rightarrow> (u64 \<Rightarrow> u32 list option) \<Rightarrow>
   catalog_data \<Rightarrow> manifest" where
  "after_deletion X R v table m bf data =
     deleted_manifest m (mf_sequence m + 1) (map (marked R v table bf) (mf_row_groups m))
       (deleted_gens X v table m bf data)"

text \<open>The store after the files of the deletion were written and before anything is published.\<close>

definition dels_written ::
  "ext \<Rightarrow> 'bm roaring \<Rightarrow> (string \<Rightarrow> bytes option) \<Rightarrow> string \<Rightarrow> manifest \<Rightarrow> (u64 \<Rightarrow> u32 list option) \<Rightarrow>
   catalog_data \<Rightarrow> (string \<Rightarrow> bytes option) \<Rightarrow> bool" where
  "dels_written X R v table m bf data v' \<longleftrightarrow>
     (\<forall>e \<in> set (mf_row_groups m). targeted bf e \<longrightarrow>
        v' (tpath table (new_del_path e)) = Some (dv_serialize R (marked_dv R v table bf e)))
     \<and> (deleted_ids X v table bf (mf_row_groups m) \<noteq> [] \<longrightarrow>
        (\<forall>n \<in> set (tombstoned_names table (mf_index_generations m) (dc_indexes data)).
           v' (index_file table n (delta_file (mf_sequence m + 1) ''.json''))
             = Some (tombstone_bytes X (deleted_ids X v table bf (mf_row_groups m)))))"

text \<open>The published snapshot, and the store it is published in.\<close>

definition deletion_snapshot ::
  "ext \<Rightarrow> 'bm roaring \<Rightarrow> (string \<Rightarrow> bytes option) \<Rightarrow> string \<Rightarrow> manifest \<Rightarrow> (u64 \<Rightarrow> u32 list option) \<Rightarrow>
   catalog_data \<Rightarrow> string option \<Rightarrow> string \<Rightarrow> manifest" where
  "deletion_snapshot X R v table m bf data parent now =
     finalize X parent now
       ((after_deletion X R v table m bf data)\<lparr>mf_checkpoint := Some (cp_filename (mf_sequence m + 1))\<rparr>)"

definition deletion_done ::
  "ext \<Rightarrow> 'bm roaring \<Rightarrow> (string \<Rightarrow> bytes option) \<Rightarrow> string \<Rightarrow> string \<Rightarrow> manifest \<Rightarrow> (u64 \<Rightarrow> u32 list option) \<Rightarrow>
   catalog_data \<Rightarrow> manifest \<Rightarrow> (string \<Rightarrow> bytes option) \<Rightarrow> bool" where
  "deletion_done X R v table txn m bf data m' v' \<longleftrightarrow>
     (let q = mf_sequence m + 1;
          W = delete_writes table txn q bf (mf_row_groups m)
                (tombstoned_names table (mf_index_generations m) (dc_indexes data))
      in pointer_at X v' table = PointerAt q \<and> manifest_at X v' table q = Some m'
         \<and> dels_written X R v table m bf data v' \<and> v' (intent_path table txn) = None
         \<and> (\<forall>p. leftover table (mf_sequence m) p \<and> p \<notin> W \<longrightarrow> v' p = None)
         \<and> (\<exists>D. D \<inter> table_paths table m = {} \<and> (\<forall>p. p \<notin> W \<longrightarrow> v' p = without D v p)))"

lemma commit_paths_zone:
  assumes "p \<in> commit_paths table q txn"
  shows "zone table p \<in> {''_staging'', ''_checkpoints'', ''_manifests'', ''_manifest.json'', ''_manifest.json.tmp''}"
  using assms unfolding commit_paths_def by auto

lemma zone_index [simp]: "zone table (index_file table n f) = ''_indexes''"
  by (simp add: zone_def index_file_def INDEXES_DIR_def tpath_def)

lemma dels_written_cong:
  assumes "\<forall>p. p \<notin> commit_paths table q txn \<longrightarrow> v'' p = v' p" "dels_written X R v table m bf data v'"
  shows "dels_written X R v table m bf data v''"
proof -
  have "tpath table (new_del_path e) \<notin> commit_paths table q txn" for e
    using commit_paths_zone [of "tpath table (new_del_path e)" table q txn] by (auto simp: new_del_path_def)
  moreover have "index_file table n f \<notin> commit_paths table q txn" for n f
    using commit_paths_zone [of "index_file table n f" table q txn] by auto
  ultimately show ?thesis using assms by (simp add: dels_written_def)
qed

lemma meta_at_cache: "meta_at X v (\<lambda>_. None) p \<noteq> None \<Longrightarrow> meta_at X v cache p \<noteq> None"
  by (auto simp: meta_at_def split: option.splits)

lemma summary_at_meta:
  "meta_at X v cache (tpath table (rg_meta e)) \<noteq> None \<Longrightarrow> summary_at X v cache table m e \<noteq> None"
  by (simp add: summary_at_def split: option.split)

lemma deleted_ids_cong:
  assumes "\<And>e. e \<in> set es \<Longrightarrow> meta_at X v' (\<lambda>_. None) (tpath table (rg_meta e)) = meta_at X v (\<lambda>_. None) (tpath table (rg_meta e))"
  shows "deleted_ids X v' table bf es = deleted_ids X v table bf es"
    "filter (without_ids X v' table bf) es = filter (without_ids X v table bf) es"
proof -
  show "deleted_ids X v' table bf es = deleted_ids X v table bf es"
    unfolding deleted_ids_def using assms by (intro arg_cong [where f = concat] map_cong) (auto simp: victim_ids_def)
  show "filter (without_ids X v' table bf) es = filter (without_ids X v table bf) es"
    using assms by (intro filter_cong) (auto simp: without_ids_def)
qed

text \<open>The sidecars the snapshot checkpoint needs are there.\<close>

lemma deletion_summaries:
  assumes rest: "at_rest X R v table m" and same: "\<forall>p \<in> named_paths table m. v' p = v p"
  shows "\<forall>e \<in> set (mf_row_groups (after_deletion X R v table m bf data)). summary_at X v' cache table m e \<noteq> None"
proof
  fix e' assume "e' \<in> set (mf_row_groups (after_deletion X R v table m bf data))"
  then obtain e where e: "e \<in> set (mf_row_groups m)" "rg_meta e' = rg_meta e"
    by (auto simp: after_deletion_def deleted_manifest_def marked_def)
  have t: "plain_piece table" using rest by (simp add: at_rest_def)
  have "meta_at X v cache (tpath table (rg_meta e)) \<noteq> None"
    using rest e(1) by - (rule meta_at_cache, simp add: at_rest_def)
  then show "summary_at X v' cache table m e' \<noteq> None"
    using entry_cong(1) [OF t e(1) same, of X cache] e(2) by (intro summary_at_meta) simp
qed

lemma stale_manifest_iff:
  assumes "plain_piece table"
  shows "stale_manifest latest (tpath table (manifest_filename q)) \<longleftrightarrow> latest < q"
  using manifest_base_name [OF assms, of q] by (simp add: stale_manifest_def entry_seq_filename [OF assms])

lemma delete_free_paths:
  assumes "at_rest X R v table m" "delete_ready X v table txn m bf data"
  shows "validate_path (tpath table ''_deletions'') = Inr (tpath table ''_deletions'')"
    "validate_path (tpath table ''_deletions'' @ ''/.keep'') = Inr (tpath table ''_deletions'' @ ''/.keep'')"
    "leftover table (mf_sequence m) (tpath table (manifest_filename (mf_sequence m + 1)))"
proof -
  have t: "plain_piece table" using assms(1) by (simp add: at_rest_def)
  show "validate_path (tpath table ''_deletions'') = Inr (tpath table ''_deletions'')"
    using validate_tpath [OF t, of "[''_deletions'']"] by (simp add: join_path_def plain_piece_def)
  show "validate_path (tpath table ''_deletions'' @ ''/.keep'') = Inr (tpath table ''_deletions'' @ ''/.keep'')"
    using validate_tpath [OF t, of "[''_deletions'', ''.keep'']"] by (simp add: join_path_def tpath_def plain_piece_def)
  have "mf_sequence m + 1 \<noteq> 0" using assms(2) by (simp add: delete_ready_def)
  then have "mf_sequence m < mf_sequence m + 1" using unatSuc [of "mf_sequence m"] by (simp add: word_less_nat_alt add.commute)
  then show "leftover table (mf_sequence m) (tpath table (manifest_filename (mf_sequence m + 1)))"
    using manifest_direct stale_manifest_iff [OF t] by (simp add: leftover_def)
qed

text \<open>The artifacts of a deferred deletion.\<close>

definition delete_artifacts ::
  "ext \<Rightarrow> 'bm roaring \<Rightarrow> (string \<Rightarrow> bytes option) \<Rightarrow> string \<Rightarrow> manifest \<Rightarrow> (u64 \<Rightarrow> u32 list option) \<Rightarrow> catalog_data \<Rightarrow>
   staged_artifact list" where
  "delete_artifacts X R v table m bf data =
     (let ids = deleted_ids X v table bf (mf_row_groups m)
      in map (\<lambda>e. \<lparr>sa_path = new_del_path e, sa_hex = hex_encode X (dv_serialize R (marked_dv R v table bf e))\<rparr>)
           (filter (targeted bf) (mf_row_groups m))
         @ (if ids = [] then [] else map (tombstone_artifact X ids (mf_sequence m + 1))
             (tombstoned_names table (mf_index_generations m) (dc_indexes data))))"

context storage_contract
begin

lemma tombstone_indexes_run:
  assumes "plain_piece table" "\<forall>n \<in> fst ` set (dc_indexes data). plain_piece n" "dc_wf data"
  shows "\<exists>s' paths. tombstone_indexes X S wal table ids seq data (gens, [], arts) s
      = (Inr (if ids = [] then gens else tombstoned_gens seq gens (tombstoned_names table gens (dc_indexes data)), paths,
          arts @ (if wal \<and> ids \<noteq> [] then map (tombstone_artifact X ids seq) (tombstoned_names table gens (dc_indexes data)) else [])), s')
    \<and> (ids \<noteq> [] \<longrightarrow> (\<forall>n \<in> set (tombstoned_names table gens (dc_indexes data)).
         view s' (index_file table n (delta_file seq ''.json'')) = Some (tombstone_bytes X ids)))
    \<and> (\<forall>p. (\<forall>n \<in> set (tombstoned_names table gens (dc_indexes data)). p \<notin> delta_paths table n seq) \<longrightarrow> view s' p = view s p)"
proof (cases "ids = []")
  case True
  then show ?thesis by (intro exI [of _ s] exI [of _ "[]"]) (simp add: tombstone_indexes_def)
next
  case False
  have "distinct (map fst (dc_indexes data))" using assms(3) by (simp add: bt_wf_distinct)
  from tombstone_each_run [OF assms(1,2) this, of X wal ids seq gens "[]" arts s] show ?thesis
    using False unfolding tombstone_indexes_def by (cases wal) (simp_all, blast+)
qed

text \<open>Everything before the commit: the files are written, and the snapshot's own files stay as they were.\<close>

lemma delete_work_run:
  assumes R: "roaring_laws R" and rest: "at_rest X R (view s) table m"
    and ready: "delete_ready X (view s) table txn m bf data"
  shows "\<exists>s1 s2 s3 s4 paths D.
      load_current_manifest X H S table s = (Inr (mf_sequence m, m), s)
    \<and> cleanup_staging X S table (mf_sequence m) (manifest_referenced_files m) s = (Inr (), s1)
    \<and> st_exists S (tpath table (manifest_filename (mf_sequence m + 1))) s1 = (Inr False, s1)
    \<and> w_ensure_dir S (tpath table ''_deletions'') s1 = (Inr (), s2)
    \<and> mark_fragments X R S wal table bf (mf_row_groups m) s2 = (Inr (mark_work X R wal (view s) table bf (mf_row_groups m)), s3)
    \<and> collect_deleted_ids X S table bf (mf_row_groups m) s3
        = (Inr (deleted_ids X (view s) table bf (mf_row_groups m),
             map rg_fragment_id (filter (without_ids X (view s) table bf) (mf_row_groups m))), s3)
    \<and> dc_load X S s3 = (Inr data, s3)
    \<and> tombstone_indexes X S wal table (deleted_ids X (view s) table bf (mf_row_groups m)) (mf_sequence m + 1) data
        (mf_index_generations m, [], dw_artifacts (mark_work X R wal (view s) table bf (mf_row_groups m))) s3
        = (Inr (deleted_gens X (view s) table m bf data, paths,
             if wal then delete_artifacts X R (view s) table m bf data else []), s4)
    \<and> dels_written X R (view s) table m bf data (view s4)
    \<and> (\<forall>p. p \<notin> deletion_files table (mf_sequence m + 1) bf (mf_row_groups m)
          (tombstoned_names table (mf_index_generations m) (dc_indexes data)) \<longrightarrow> view s4 p = view s1 p)
    \<and> view s1 = without D (view s)
    \<and> D \<inter> table_paths table m = {} \<and> (\<forall>p. leftover table (mf_sequence m) p \<longrightarrow> view s1 p = None)"
proof -
  define es where "es = mf_row_groups m"
  define q where "q = mf_sequence m + 1"
  define ns where "ns = tombstoned_names table (mf_index_generations m) (dc_indexes data)"
  define W where "W = deletion_files table q bf es ns"
  define ids where "ids = deleted_ids X (view s) table bf es"
  have t: "plain_piece table" and d: "distinct (map rg_fragment_id es)"
    and wf: "\<And>e. e \<in> set es \<Longrightarrow> deletes_wf R (view s) table e"
    and metas: "\<And>e. e \<in> set es \<Longrightarrow> meta_at X (view s) (\<lambda>_. None) (tpath table (rg_meta e)) \<noteq> None"
    using rest by (simp_all add: at_rest_def es_def)
  have data: "dc_of X (view s) = Some data" and names: "\<forall>n \<in> fst ` set (dc_indexes data). plain_piece n"
    and apart: "named_paths table m \<inter> W = {}"
    using ready by (auto simp: delete_ready_def W_def q_def es_def ns_def delete_writes_def)
  have load: "load_current_manifest X H S table s = (Inr (mf_sequence m, m), s)"
    using load_current_manifest_run [OF t, of X s "mf_sequence m" m] rest by (simp add: at_rest_def)
  obtain s1 D where s1: "cleanup_staging X S table (mf_sequence m) (manifest_referenced_files m) s = (Inr (), s1)"
    "view s1 = without D (view s)" "\<forall>p. leftover table (mf_sequence m) p \<longrightarrow> view s1 p = None"
    "\<forall>p \<in> D. leftover table (mf_sequence m) p \<or> p \<in> intents_doomed X table (manifest_referenced_files m) (view s)"
    using cleanup_staging_run [OF t, of s X "manifest_referenced_files m" "mf_sequence m"] rest
    unfolding at_rest_def by blast
  have D: "D \<inter> table_paths table m = {}" using s1(4) rest unfolding at_rest_def by blast
  have same1: "view s1 p = view s p" if "p \<in> table_paths table m" for p
    using that D s1(2) by (auto simp: without_def)
  then have ref1: "\<forall>p \<in> named_paths table m. view s1 p = view s p" by (simp add: table_paths_def)
  have c1: "deletes_wf R (view s1) table e = deletes_wf R (view s) table e" "dv_at R (view s1) table e = dv_at R (view s) table e"
    if "e \<in> set es" for e
    using entry_cong(2,3) [OF t _ ref1] that unfolding es_def by blast+
  note free = delete_free_paths [OF rest ready]
  have ex: "st_exists S (tpath table (manifest_filename q)) s1 = (Inr False, s1)"
    using exists_law [OF validate_manifest_path [OF t]] free(3) s1(3) by (simp add: q_def)
  obtain s2 where s2: "w_ensure_dir S (tpath table ''_deletions'') s1 = (Inr (), s2)" "view s2 = view s1"
    using w_ensure_dir_run [OF free(1,2)] by blast
  have wf2: "\<And>e. e \<in> set es \<Longrightarrow> deletes_wf R (view s2) table e"
    unfolding s2(2) using wf c1(1) by blast
  obtain s3 where s3: "mark_fragments X R S wal table bf es s2 = (Inr (mark_work X R wal (view s2) table bf es), s3)"
    "view s3 = with_dels R (view s2) table bf es"
    using mark_fragments_run [OF R t d wf2] by blast
  have work: "mark_work X R wal (view s2) table bf es = mark_work X R wal (view s) table bf es"
    unfolding s2(2) by (rule mark_work_cong) (rule c1(2))
  have ref3: "view s3 p = view s p" if "p \<in> table_paths table m" "p \<notin> W" for p
  proof -
    have "view s3 p = view s2 p"
      unfolding s3(2) using that(2) by (intro with_dels_outside) (auto simp: W_def deletion_files_def)
    then show ?thesis using s2(2) same1 [OF that(1)] by simp
  qed
  then have r3: "\<forall>p \<in> named_paths table m. view s3 p = view s p"
    using apart by (auto simp: table_paths_def)
  have c3: "meta_at X (view s3) (\<lambda>_. None) (tpath table (rg_meta e)) = meta_at X (view s) (\<lambda>_. None) (tpath table (rg_meta e))"
    if "e \<in> set es" for e
    using entry_cong(1) [OF t _ r3] that unfolding es_def by blast
  have ids3: "collect_deleted_ids X S table bf es s3 = (Inr (ids, map rg_fragment_id (filter (without_ids X (view s) table bf) es)), s3)"
  proof -
    have "collect_deleted_ids X S table bf es s3
        = (Inr (deleted_ids X (view s3) table bf es, map rg_fragment_id (filter (without_ids X (view s3) table bf) es)), s3)"
      by (rule collect_deleted_ids_run) (simp add: metas c3)
    then show ?thesis
      unfolding ids_def using deleted_ids_cong [of es X "view s3" table "view s" bf, OF c3] by simp
  qed
  have "dc_of X (view s3) = Some data"
  proof -
    have "CATALOG_PATH \<in> table_paths table m" by (simp add: table_paths_def)
    moreover have "CATALOG_PATH \<notin> W" 
      using catalog_not_written [of table txn q bf es ns] unfolding W_def delete_writes_def by blast
    ultimately have "dc_of X (view s3) = dc_of X (view s)" by (intro dc_of_cong ref3)
    with data show ?thesis by simp
  qed
  then have load3: "dc_load X S s3 = (Inr data, s3)" by (simp add: dc_load_run ok_or_def)
  let ?arts = "dw_artifacts (mark_work X R wal (view s) table bf es)"
  obtain s4 paths where s4: "tombstone_indexes X S wal table ids q data (mf_index_generations m, [], ?arts) s3
      = (Inr (if ids = [] then mf_index_generations m else tombstoned_gens q (mf_index_generations m) ns, paths,
          ?arts @ (if wal \<and> ids \<noteq> [] then map (tombstone_artifact X ids q) ns else [])), s4)"
    "ids \<noteq> [] \<longrightarrow> (\<forall>n \<in> set ns. view s4 (index_file table n (delta_file q ''.json'')) = Some (tombstone_bytes X ids))"
    "\<forall>p. (\<forall>n \<in> set ns. p \<notin> delta_paths table n q) \<longrightarrow> view s4 p = view s3 p"
    using tombstone_indexes_run [OF t names dc_of_wf [OF data], of X wal ids q "mf_index_generations m" ?arts s3,
        folded ns_def] that by (elim exE conjE)
  have gens: "(if ids = [] then mf_index_generations m else tombstoned_gens q (mf_index_generations m) ns)
      = deleted_gens X (view s) table m bf data"
    by (simp add: deleted_gens_def ids_def es_def q_def ns_def)
  have arts: "?arts @ (if wal \<and> ids \<noteq> [] then map (tombstone_artifact X ids q) ns else [])
      = (if wal then delete_artifacts X R (view s) table m bf data else [])"
    by (simp add: delete_artifacts_def mark_work_def Let_def ids_def es_def q_def ns_def)
  have "view s4 (tpath table (new_del_path e)) = Some (dv_serialize R (marked_dv R (view s) table bf e))"
    if "e \<in> set es" "targeted bf e" for e
  proof -
    have "tpath table (new_del_path e) \<notin> delta_paths table n q" for n
      by (auto simp: new_del_path_def del_rel_path_def index_file_def tpath_def INDEXES_DIR_def)
    then have "view s4 (tpath table (new_del_path e)) = view s3 (tpath table (new_del_path e))"
      using s4(3) by blast
    then show ?thesis
      using with_dels_at [OF d that, of R "view s2" table] s3(2) marked_cong(1) [OF c1(2) [OF that(1)], of bf] s2(2) by simp
  qed
  then have wr: "dels_written X R (view s) table m bf data (view s4)"
    using s4(2) by (simp add: dels_written_def es_def ns_def q_def ids_def)
  have frame: "\<forall>p. p \<notin> W \<longrightarrow> view s4 p = view s1 p"
  proof (intro allI impI)
    fix p assume p: "p \<notin> W"
    have "view s4 p = view s3 p" using p s4(3) by (auto simp: W_def deletion_files_def)
    also have "\<dots> = view s2 p"
      unfolding s3(2) using p by (intro with_dels_outside) (auto simp: W_def deletion_files_def)
    finally show "view s4 p = view s1 p" using s2(2) by simp
  qed
  show ?thesis
    unfolding es_def [symmetric] q_def [symmetric] ns_def [symmetric] ids_def [symmetric] W_def [symmetric]
    by (intro exI [of _ s1] exI [of _ s2] exI [of _ s3] exI [of _ s4] exI [of _ paths] exI [of _ D] conjI)
      (rule load s1(1) ex s2(1) s3(1) [unfolded work] ids3 load3 s4(1) [unfolded gens arts] wr frame s1(2) D s1(3))+
qed

lemma commit_deletes_direct_run:
  assumes R: "roaring_laws R" and X: "json_law X" and wal: "\<not> w_wal_mode w"
    and rest: "at_rest X R (view s) (w_table w) m"
    and ready: "delete_ready X (view s) (w_table w) (ce_txn_id E) m bf data"
  shows "\<exists>s' parent. commit_deletes X H R S E w bf s
      = (Inr (commit_delta_new m (deletion_snapshot X R (view s) (w_table w) m bf data parent (ce_now E 2)) Delete), s')
    \<and> deletion_done X R (view s) (w_table w) (ce_txn_id E) m bf data
        (deletion_snapshot X R (view s) (w_table w) m bf data parent (ce_now E 2)) (view s')"
proof -
  define table es q where "table = w_table w" and "es = mf_row_groups m" and "q = mf_sequence m + 1"
  define ns where "ns = tombstoned_names table (mf_index_generations m) (dc_indexes data)"
  define W where "W = delete_writes table (ce_txn_id E) q bf es ns"
  define ids where "ids = deleted_ids X (view s) table bf es"
  define new where "new = after_deletion X R (view s) table m bf data"
  note names = table_def [symmetric] es_def [symmetric] q_def [symmetric]
  have t: "plain_piece table" using rest by (simp add: at_rest_def table_def)
  obtain s1 s2 s3 s4 paths D where s:
      "load_current_manifest X H S table s = (Inr (mf_sequence m, m), s)"
      "cleanup_staging X S table (mf_sequence m) (manifest_referenced_files m) s = (Inr (), s1)"
      "st_exists S (tpath table (manifest_filename q)) s1 = (Inr False, s1)"
      "w_ensure_dir S (tpath table ''_deletions'') s1 = (Inr (), s2)"
      "mark_fragments X R S False table bf es s2 = (Inr (mark_work X R False (view s) table bf es), s3)"
      "collect_deleted_ids X S table bf es s3
        = (Inr (ids, map rg_fragment_id (filter (without_ids X (view s) table bf) es)), s3)"
      "dc_load X S s3 = (Inr data, s3)"
      "tombstone_indexes X S False table ids q data
        (mf_index_generations m, [], dw_artifacts (mark_work X R False (view s) table bf es)) s3
        = (Inr (deleted_gens X (view s) table m bf data, paths, []), s4)"
      "dels_written X R (view s) table m bf data (view s4)"
      "\<forall>p. p \<notin> deletion_files table q bf es ns \<longrightarrow> view s4 p = view s1 p" "view s1 = without D (view s)"
      "D \<inter> table_paths table m = {}" "\<forall>p. leftover table (mf_sequence m) p \<longrightarrow> view s1 p = None"
    using delete_work_run [OF R rest ready, of H False, unfolded names if_False, folded ns_def ids_def] that
    by (elim exE conjE)
  have apart: "named_paths table m \<inter> W = {}" and txn: "plain_piece (ce_txn_id E @ ''.json'')"
    and part: "intent_path table (ce_txn_id E) \<noteq> checkpoint_part table q" and q0: "q \<noteq> 0"
    and unique: "has_unique_index table (mf_index_generations m) data \<longrightarrow> filter (without_ids X (view s) table bf) es = []"
    using ready by (simp_all add: delete_ready_def table_def q_def es_def ns_def W_def has_unique_index_names filter_empty_conv)
  let ?ip = "intent_path table (ce_txn_id E)"
  have sums: "\<forall>e \<in> set (mf_row_groups new). summary_at X v (ce_cache E) table m e \<noteq> None"
    if v: "\<forall>p. p \<noteq> ?ip \<longrightarrow> v p = view s4 p" for v
    unfolding new_def
  proof (rule deletion_summaries [OF rest [folded table_def]], rule ballI)
    fix p assume p: "p \<in> named_paths table m"
    have "p \<notin> W" using p apart by blast
    moreover have "?ip \<in> W" by (simp add: W_def delete_writes_def commit_paths_def)
    ultimately have "v p = view s1 p" using v s(10) by (metis W_def UnI2 delete_writes_def)
    then show "v p = view s p" using p s(11,12) by (auto simp: without_def table_paths_def)
  qed
  let ?sid = "sc_schema_id (w_schema w)"
  let ?files = "dw_paths (mark_work X R False (view s) table bf es) @ paths"
  obtain s' parent where s': "commit_direct X S E table ?sid m new q ?files s4
      = (Inr (finalize X parent (ce_now E 2) (new\<lparr>mf_checkpoint := Some (cp_filename q)\<rparr>)), s')"
    "view s' (tpath table ''_manifest.json'') = Some (json_to_string X (latest_pointer q))"
    "view s' (tpath table (manifest_filename q))
      = Some (json_to_string X (manifest_value (finalize X parent (ce_now E 2) (new\<lparr>mf_checkpoint := Some (cp_filename q)\<rparr>))))"
    "view s' ?ip = None" "\<forall>p. p \<notin> commit_paths table q (ce_txn_id E) \<longrightarrow> view s' p = view s4 p"
    using commit_direct_run [OF t X txn part, of s4 new m ?sid ?files] sums by blast
  define m' where "m' = finalize X parent (ce_now E 2) (new\<lparr>mf_checkpoint := Some (cp_filename q)\<rparr>)"
  have snap: "deletion_snapshot X R (view s) (w_table w) m bf data parent (ce_now E 2) = m'"
    by (simp add: deletion_snapshot_def m'_def new_def table_def q_def)
  have new: "deleted_manifest m q (dw_row_groups (mark_work X R False (view s) table bf es))
      (deleted_gens X (view s) table m bf data) = new"
    by (simp add: new_def after_deletion_def mark_work_def Let_def es_def q_def)
  have run: "commit_deletes X H R S E w bf s = (Inr (commit_delta_new m m' Delete), s')"
    unfolding commit_deletes_def Let_def names
    using s(1-8) s'(1) unique wal
    by (simp add: io_bind_run io_then_run sync_law new m'_def names)
  have "pointer_at X (view s') table = PointerAt q"
    using q0 by (simp add: pointer_at_def s'(2) pointer_state_latest [OF X])
  moreover have "manifest_at X (view s') table q = Some m'"
    by (simp add: manifest_at_def s'(3) parse_manifest_def json_lawD [OF X] manifest_roundtrip m'_def finalize_verifies)
  moreover have "dels_written X R (view s) table m bf data (view s')"
    by (rule dels_written_cong [OF s'(5) s(9)])
  moreover have out: "view s' p = view s1 p" if "p \<notin> W" for p
    using that s'(5) s(10) by (simp add: W_def delete_writes_def)
  ultimately have "deletion_done X R (view s) table (ce_txn_id E) m bf data m' (view s')"
    unfolding deletion_done_def Let_def names using s'(4) s(11-13)
    by (auto simp: W_def ns_def es_def q_def)
  then show ?thesis
    using run snap unfolding table_def by (intro exI [of _ s'] exI [of _ parent]) simp
qed

end

end
