(* ===== verification/Delete_Effect.thy ===== *)
theory Delete_Effect
  imports Delete_Run
begin

text \<open>
  What a published deletion means for the table: the deleted offsets of every fragment, the
  entries of its unique indexes, and that the table is at rest again, so that the next operation finds
  what it needs.
\<close>

section \<open>The files of the new snapshot\<close>

lemma finalize_sel [simp]:
  "mf_row_groups (finalize X parent now m) = mf_row_groups m"
  "mf_sequence (finalize X parent now m) = mf_sequence m"
  "mf_index_generations (finalize X parent now m) = mf_index_generations m"
  "mf_rowindex_generation (finalize X parent now m) = mf_rowindex_generation m"
  "mf_checkpoint (finalize X parent now m) = mf_checkpoint m"
  "mf_schema_id (finalize X parent now m) = mf_schema_id m"
  "mf_next_row_id (finalize X parent now m) = mf_next_row_id m"
  "mf_next_fragment_id (finalize X parent now m) = mf_next_fragment_id m"
  by (simp_all add: finalize_def Let_def)

lemma deletion_snapshot_sel [simp]:
  "mf_row_groups (deletion_snapshot X R v table m bf data parent now) = map (marked R v table bf) (mf_row_groups m)"
  "mf_sequence (deletion_snapshot X R v table m bf data parent now) = mf_sequence m + 1"
  "mf_index_generations (deletion_snapshot X R v table m bf data parent now) = deleted_gens X v table m bf data"
  "mf_rowindex_generation (deletion_snapshot X R v table m bf data parent now) = mf_rowindex_generation m"
  "mf_checkpoint (deletion_snapshot X R v table m bf data parent now) = Some (cp_filename (mf_sequence m + 1))"
  "mf_schema_id (deletion_snapshot X R v table m bf data parent now) = mf_schema_id m"
  "mf_next_row_id (deletion_snapshot X R v table m bf data parent now) = mf_next_row_id m"
  "mf_next_fragment_id (deletion_snapshot X R v table m bf data parent now) = mf_next_fragment_id m"
  by (simp_all add: deletion_snapshot_def after_deletion_def deleted_manifest_def)

lemma marked_sel [simp]:
  "rg_fragment_id (marked R v table bf e) = rg_fragment_id e" "rg_meta (marked R v table bf e) = rg_meta e"
  "rg_data (marked R v table bf e) = rg_data e" "rg_agg (marked R v table bf e) = rg_agg e"
  "rg_deletes (marked R v table bf e) = (if targeted bf e then Some (new_del_path e) else rg_deletes e)"
  by (simp_all add: marked_def)

lemma referenced_iff:
  "f \<in> set (manifest_referenced_files m) \<longleftrightarrow>
     (\<exists>e \<in> set (mf_row_groups m). f \<in> set (entry_files e))
     \<or> (\<exists>n r. (n, r) \<in> set (mf_index_generations m) \<and> f \<in> set (index_files r))
     \<or> (\<exists>r. mf_rowindex_generation m = Some r \<and> f \<in> set (rowindex_files r))
     \<or> (\<exists>c. mf_checkpoint m = Some c \<and> (f = c \<or> f = checkpoint_archive_filename (mf_sequence m)))"
  unfolding manifest_referenced_files_def
  by (cases "mf_rowindex_generation m"; cases "mf_checkpoint m") fastforce+

lemma marked_files:
  "f \<in> set (entry_files (marked R v table bf e)) \<Longrightarrow> f \<in> set (entry_files e) \<or> targeted bf e \<and> f = new_del_path e"
  by (auto simp: entry_files_def split: option.splits if_splits)

lemma set_alist_update: "x \<in> set (AList.update k r al) \<Longrightarrow> x = (k, r) \<or> x \<in> set al"
  by (induction al) (auto split: if_splits)

lemma tombstoned_gens_files:
  assumes "(n, r) \<in> set (tombstoned_gens seq gens ns)" "f \<in> set (index_files r)" "\<forall>k \<in> set ns. map_of gens k \<noteq> None"
  shows "(\<exists>(k, r') \<in> set gens. f \<in> set (index_files r')) \<or> (\<exists>k \<in> set ns. f = td_versioned_filename k seq)"
  using assms(1,3)
proof (induction ns arbitrary: gens)
  case Nil
  then show ?case using assms(2) by (auto simp: tombstoned_gens_def)
next
  case (Cons k ns)
  obtain r0 where r0: "map_of gens k = Some r0" using Cons.prems(2) by auto
  let ?g = "AList.update k (add_delta k seq r0) gens"
  have "(n, r) \<in> set (tombstoned_gens seq ?g ns)"
    using Cons.prems(1) r0 by (simp add: tombstoned_gens_def)
  moreover have "\<forall>j \<in> set ns. map_of ?g j \<noteq> None" using Cons.prems(2) by (auto simp: update_conv')
  ultimately have "(\<exists>(j, r') \<in> set ?g. f \<in> set (index_files r')) \<or> (\<exists>j \<in> set ns. f = td_versioned_filename j seq)"
    by (rule Cons.IH)
  then show ?case
  proof
    assume "\<exists>(j, r') \<in> set ?g. f \<in> set (index_files r')"
    then obtain j r' where r': "(j, r') \<in> set ?g" "f \<in> set (index_files r')" by blast
    show ?thesis
    proof (cases "(j, r') \<in> set gens")
      case True
      then show ?thesis using r'(2) by blast
    next
      case False
      then have "r' = add_delta k seq r0" using set_alist_update [OF r'(1)] by auto
      then have "f \<in> set (index_files r0) \<or> f = td_versioned_filename k seq"
        using r'(2) by (auto simp: index_files_def add_delta_def split: option.splits)
      then show ?thesis using map_of_SomeD [OF r0] by auto
    qed
  qed auto
qed

lemma tombstoned_names_known: "k \<in> set (tombstoned_names table gens xs) \<Longrightarrow> map_of gens k \<noteq> None \<and> k \<in> fst ` set xs"
  by (force simp: tombstoned_names_def)

lemma deleted_gens_files:
  assumes "(n, r) \<in> set (deleted_gens X v table m bf data)" "f \<in> set (index_files r)"
  shows "f \<in> set (manifest_referenced_files m)
    \<or> (\<exists>k \<in> set (tombstoned_names table (mf_index_generations m) (dc_indexes data)).
         f = td_versioned_filename k (mf_sequence m + 1))"
proof -
  have old: "f \<in> set (manifest_referenced_files m)" if "(k, r') \<in> set (mf_index_generations m)" "f \<in> set (index_files r')" for k r'
    using that unfolding referenced_iff by blast
  show ?thesis
  proof (cases "deleted_ids X v table bf (mf_row_groups m) = []")
    case True
    then show ?thesis using assms old by (auto simp: deleted_gens_def)
  next
    case False
    then have "(n, r) \<in> set (tombstoned_gens (mf_sequence m + 1) (mf_index_generations m)
        (tombstoned_names table (mf_index_generations m) (dc_indexes data)))" using assms(1) by (simp add: deleted_gens_def)
    from tombstoned_gens_files [OF this assms(2)] show ?thesis
      using tombstoned_names_known old by blast
  qed
qed

text \<open>Every file the new snapshot names is one the old one names or one the deletion wrote.\<close>

lemma snapshot_files:
  assumes "f \<in> set (manifest_referenced_files (deletion_snapshot X R v table m bf data parent now))"
  shows "f \<in> set (manifest_referenced_files m)
    \<or> (\<exists>e \<in> set (mf_row_groups m). targeted bf e \<and> f = new_del_path e)
    \<or> (\<exists>k \<in> set (tombstoned_names table (mf_index_generations m) (dc_indexes data)).
         f = td_versioned_filename k (mf_sequence m + 1))
    \<or> f = cp_filename (mf_sequence m + 1) \<or> f = checkpoint_archive_filename (mf_sequence m + 1)"
proof -
  let ?m' = "deletion_snapshot X R v table m bf data parent now"
  consider (entry) e where "e \<in> set (mf_row_groups m)" "f \<in> set (entry_files (marked R v table bf e))"
    | (index) n r where "(n, r) \<in> set (deleted_gens X v table m bf data)" "f \<in> set (index_files r)"
    | (row) r where "mf_rowindex_generation m = Some r" "f \<in> set (rowindex_files r)"
    | (cp) "f = cp_filename (mf_sequence m + 1) \<or> f = checkpoint_archive_filename (mf_sequence m + 1)"
    using assms unfolding referenced_iff deletion_snapshot_sel set_map by blast
  then show ?thesis
  proof cases
    case entry
    then show ?thesis using marked_files [OF entry(2)] unfolding referenced_iff by blast
  next
    case index
    then show ?thesis using deleted_gens_files by blast
  next
    case row
    then show ?thesis unfolding referenced_iff by blast
  qed blast
qed

section \<open>The table is at rest again\<close>

lemma zones_differ: "zone table p \<noteq> zone table p' \<Longrightarrow> p \<noteq> p'"
  by blast

lemma direct_zone:
  "direct (tpath table ''_staging/intents'') p \<Longrightarrow> zone table p = ''_staging''"
  "direct (tpath table ''_staging/incoming'') p \<Longrightarrow> zone table p = ''_staging''"
  "direct (tpath table ''_staging/compact'') p \<Longrightarrow> zone table p = ''_staging''"
  "direct (tpath table ''_manifests'') p \<Longrightarrow> zone table p = ''_manifests''"
  by (auto simp: direct_def zone_def tpath_def)

lemma leftover_zone: "leftover table latest p \<Longrightarrow> zone table p \<in> {''_staging'', ''_manifests''}"
  by (auto simp: leftover_def is_intent_def intents_dir_def dest: direct_zone)

lemma leftover_intent: "is_intent table p \<Longrightarrow> leftover table latest p"
  by (simp add: leftover_def)

lemma leftover_mono: "leftover table latest' p \<Longrightarrow> latest \<le> latest' \<Longrightarrow> leftover table latest p"
  by (auto simp: leftover_def stale_manifest_def split: option.splits)

lemma manifest_not_leftover:
  assumes "plain_piece table"
  shows "\<not> leftover table q (tpath table (manifest_filename q))"
proof
  assume l: "leftover table q (tpath table (manifest_filename q))"
  have "zone table (tpath table (manifest_filename q)) \<noteq> ''_staging''" by simp
  then have "\<not> direct (tpath table ''_staging/incoming'') (tpath table (manifest_filename q))"
    "\<not> direct (tpath table ''_staging/compact'') (tpath table (manifest_filename q))"
    "\<not> is_intent table (tpath table (manifest_filename q))"
    using direct_zone(1-3) [of table "tpath table (manifest_filename q)"] by (auto simp: is_intent_def intents_dir_def)
  then show False using l stale_manifest_iff [OF assms, of q q] by (simp add: leftover_def)
qed

lemma pointer_not_leftover: "\<not> leftover table q (tpath table ''_manifest.json'')"
  using leftover_zone [of table q "tpath table ''_manifest.json''"] by auto

lemma direct_sep: "direct d p \<Longrightarrow> CHR ''/'' \<in> set p"
  by (auto simp: direct_def)

lemma catalog_not_leftover: "\<not> leftover table q CATALOG_PATH"
proof
  assume "leftover table q CATALOG_PATH"
  then have "CHR ''/'' \<in> set CATALOG_PATH" by (auto simp: leftover_def is_intent_def dest: direct_sep)
  then show False using no_sep_catalog by simp
qed

lemma validate_written:
  assumes t: "plain_piece table" and "plain_piece (txn @ ''.json'')" "\<forall>n \<in> set ns. plain_piece n"
    and p: "p \<in> delete_writes table txn q bf es ns"
  shows "validate_path p = Inr p"
proof -
  from p show ?thesis
  proof (cases rule: written_cases)
    case commit
    then show ?thesis
      using validate_commit_paths [OF t] validate_manifest_path [OF t, of q] validate_intent_path [OF assms(1,2)]
        validate_pointer_path [OF t] unfolding commit_paths_def by auto
  next
    case keep
    then show ?thesis
      using validate_tpath [OF t, of "[''_deletions'', ''.keep'']"] by (simp add: join_path_def tpath_def plain_piece_def)
  next
    case (del e)
    then show ?thesis using validate_del_path [OF t] by (simp add: new_del_path_def)
  next
    case (delta n)
    then show ?thesis using validate_delta_paths [OF t, of n q] assms(3) by auto
  qed
qed

lemma named_after:
  assumes t: "plain_piece table" and "\<forall>n \<in> fst ` set (dc_indexes data). plain_piece n"
    and p: "p \<in> named_paths table (deletion_snapshot X R v table m bf data parent now)"
  shows "p \<in> named_paths table m \<or> zone table p \<in> {''_deletions'', ''_indexes'', ''_checkpoints''}"
proof -
  let ?q = "mf_sequence m + 1"
  obtain f where f: "f \<in> set (manifest_referenced_files (deletion_snapshot X R v table m bf data parent now))"
    "validate_path (tpath table f) = Inr p" using p by (auto simp: named_paths_def)
  consider "f \<in> set (manifest_referenced_files m)" | e where "f = new_del_path e"
    | k where "k \<in> set (tombstoned_names table (mf_index_generations m) (dc_indexes data))" "f = td_versioned_filename k ?q"
    | "f = cp_filename ?q" | "f = checkpoint_archive_filename ?q"
    using snapshot_files [OF f(1)] by blast
  then show ?thesis
  proof cases
    case 1
    then show ?thesis using f(2) by (auto simp: named_paths_def)
  next
    case 2
    then show ?thesis using f(2) validate_del_path [OF t] by (simp add: new_del_path_def) (metis Inr_inject zone_del)
  next
    case 3
    then have "plain_piece k" using tombstoned_names_known assms(2) by blast
    then show ?thesis using f(2) 3(2) validate_delta_paths(1) [OF t, of k ?q] by (auto simp: versioned_paths)
  next
    case 4
    then show ?thesis using f(2) validate_commit_paths(1) [OF t, of ?q] by auto
  next
    case 5
    then show ?thesis using f(2) validate_commit_paths(2) [OF t, of ?q] by auto
  qed
qed

lemma written_zone:
  assumes "p \<in> delete_writes table txn q bf es ns"
  shows "zone table p \<in> {''_staging'', ''_checkpoints'', ''_manifests'', ''_manifest.json'', ''_manifest.json.tmp'',
    ''_deletions'', ''_indexes''}"
  using assms by (cases rule: written_cases) (auto dest: commit_paths_zone simp: new_del_path_def)

lemma part_not_intent: "\<not> is_intent table (checkpoint_part table q)"
  by (auto simp: is_intent_def direct_def intents_dir_def checkpoint_part_def tpath_def)

text \<open>The intents among the written files.\<close>

lemma written_intent:
  assumes "is_intent table p" "p \<in> delete_writes table txn q bf es ns"
  shows "p = intent_path table txn"
proof -
  have z: "zone table p = ''_staging''"
    using assms(1) direct_zone(1) by (simp add: is_intent_def intents_dir_def)
  from assms(2) show ?thesis
  proof (cases rule: written_cases)
    case commit
    then show ?thesis using z assms(1) part_not_intent unfolding commit_paths_def by auto
  qed (use z in \<open>auto simp: new_del_path_def\<close>)
qed

lemma deletion_done_frame:
  assumes rest: "at_rest X R v table m" and ready: "delete_ready X v table txn m bf data"
    and fin: "deletion_done X R v table txn m bf data m' v'"
  shows "\<forall>p \<in> named_paths table m. v' p = v p" "v' (wal_path table) = None" "clean_keys (dom v')"
    "\<And>e. is_intent table e \<Longrightarrow> v' e = None"
proof -
  let ?W = "delete_writes table txn (mf_sequence m + 1) bf (mf_row_groups m)
    (tombstoned_names table (mf_index_generations m) (dc_indexes data))"
  obtain D where D: "D \<inter> table_paths table m = {}" "\<And>p. p \<notin> ?W \<Longrightarrow> v' p = without D v p"
    using fin by (auto simp: deletion_done_def Let_def)
  have t: "plain_piece table" and wal: "v (wal_path table) = None" and clean: "clean_keys (dom v)"
    using rest by (simp_all add: at_rest_def)
  have apart: "named_paths table m \<inter> ?W = {}" and txn: "plain_piece (txn @ ''.json'')"
    and names: "\<forall>n \<in> fst ` set (dc_indexes data). plain_piece n"
    using ready by (simp_all add: delete_ready_def)
  show "\<forall>p \<in> named_paths table m. v' p = v p"
  proof
    fix p assume p: "p \<in> named_paths table m"
    then have "p \<notin> D" using D(1) by (auto simp: table_paths_def)
    moreover have "p \<notin> ?W" using p apart by blast
    ultimately show "v' p = v p" using D(2) [of p] by (simp add: without_def)
  qed
  have "wal_path table \<notin> ?W" using written_zone [of "wal_path table" table] by auto
  then show "v' (wal_path table) = None" using D(2) wal by (simp add: without_def)
  have plain: "\<forall>n \<in> set (tombstoned_names table (mf_index_generations m) (dc_indexes data)). plain_piece n"
    using names tombstoned_names_known by blast
  show "clean_keys (dom v')"
    unfolding clean_keys_def
  proof
    fix p assume p: "p \<in> dom v'"
    show "validate_path p = Inr p"
    proof (cases "p \<in> ?W")
      case True
      then show ?thesis by (rule validate_written [OF t txn plain])
    next
      case False
      then have "p \<in> dom v" using p D(2) [OF False] by (simp add: without_def dom_def split: if_splits)
      then show ?thesis using clean by (simp add: clean_keys_def)
    qed
  qed
  show "v' e = None" if e: "is_intent table e" for e
  proof (cases "e \<in> ?W")
    case True
    then show ?thesis using written_intent [OF e True] fin by (simp add: deletion_done_def Let_def)
  next
    case False
    then show ?thesis using leftover_intent [OF e] fin by (simp add: deletion_done_def Let_def)
  qed
qed

lemma no_intents:
  assumes "\<And>e. is_intent table e \<Longrightarrow> v e = None"
  shows "intents_valid X table referenced v" "intents_doomed X table referenced v = {e. is_intent table e}"
  using assms by (auto simp: intents_valid_def intents_doomed_def)

lemma deletion_at_rest:
  assumes rest: "at_rest X R v table m" and ready: "delete_ready X v table txn m bf data"
    and fin: "deletion_done X R v table txn m bf data m' v'"
    and m': "m' = deletion_snapshot X R v table m bf data parent now"
  shows "at_rest X R v' table m'"
proof -
  note f = deletion_done_frame [OF rest ready fin]
  have t: "plain_piece table" and names: "\<forall>n \<in> fst ` set (dc_indexes data). plain_piece n"
    and q0: "mf_sequence m + 1 \<noteq> 0"
    using rest ready by (simp_all add: at_rest_def delete_ready_def)
  have le: "mf_sequence m \<le> mf_sequence m + 1"
    using q0 unatSuc [of "mf_sequence m"] by (simp add: word_le_nat_alt add.commute)
  have entries: "deletes_wf R v' table (marked R v table bf e)
      \<and> meta_at X v' (\<lambda>_. None) (tpath table (rg_meta e)) \<noteq> None" if e: "e \<in> set (mf_row_groups m)" for e
  proof
    show "meta_at X v' (\<lambda>_. None) (tpath table (rg_meta e)) \<noteq> None"
      using rest e entry_cong(1) [OF t e f(1)] by (simp add: at_rest_def)
    show "deletes_wf R v' table (marked R v table bf e)"
    proof (cases "targeted bf e")
      case True
      then have "v' (tpath table (new_del_path e)) = Some (dv_serialize R (marked_dv R v table bf e))"
        using fin e by (simp add: deletion_done_def Let_def dels_written_def)
      then show ?thesis using True by (auto simp: deletes_wf_def new_del_path_def)
    next
      case False
      then show ?thesis using rest e entry_cong(2) [OF t e f(1), of R] by (simp add: at_rest_def marked_def)
    qed
  qed
  have left: "\<not> leftover table (mf_sequence m + 1) p" if p: "p \<in> table_paths table m'" for p
  proof -
    have "\<not> leftover table (mf_sequence m + 1) p" if "p \<in> named_paths table m'"
    proof -
      have "\<not> leftover table (mf_sequence m) p" if "p \<in> named_paths table m"
        using rest that by (simp add: at_rest_def table_paths_def)
      moreover have "\<not> leftover table (mf_sequence m) p" if "zone table p \<in> {''_deletions'', ''_indexes'', ''_checkpoints''}"
        using leftover_zone [of table "mf_sequence m" p] that by auto
      ultimately show ?thesis using named_after [OF t names] that leftover_mono [OF _ le] unfolding m' by blast
    qed
    then show ?thesis
      using p manifest_not_leftover [OF t] pointer_not_leftover catalog_not_leftover by (auto simp: table_paths_def m')
  qed
  have none: "intents_valid X table (manifest_referenced_files m') v'"
    "intents_doomed X table (manifest_referenced_files m') v' = {e. is_intent table e}"
    using f(4) by (intro no_intents; blast)+
  have "\<forall>p \<in> table_paths table m'. \<not> leftover table (mf_sequence m + 1) p
      \<and> p \<notin> intents_doomed X table (manifest_referenced_files m') v'"
    using left leftover_intent [of table _ "mf_sequence m + 1"] unfolding none(2) by blast
  moreover have "wal_path table \<notin> named_paths table m'"
    using named_after [OF t names, of "wal_path table" X R v m bf parent now] rest unfolding m' at_rest_def by auto
  moreover note none(1)
  moreover have "pointer_at X v' table = PointerAt (mf_sequence m + 1)" "manifest_at X v' table (mf_sequence m + 1) = Some m'"
    using fin by (simp_all add: deletion_done_def Let_def)
  ultimately show ?thesis
    using t f(2,3) q0 entries rest
    unfolding at_rest_def by (auto simp: m' comp_def)
qed

section \<open>The deleted rows\<close>

text \<open>The abstract state of a fragment: the offsets of its deleted rows.\<close>

definition deleted_offsets :: "'bm roaring \<Rightarrow> (string \<Rightarrow> bytes option) \<Rightarrow> string \<Rightarrow> row_group_entry \<Rightarrow> u32 set" where
  "deleted_offsets R v table e = dv_set R (the (dv_at R v table e))"

definition offsets_of :: "(u64 \<Rightarrow> u32 list option) \<Rightarrow> u64 \<Rightarrow> u32 set" where
  "offsets_of bf f = (case bf f of None \<Rightarrow> {} | Some offs \<Rightarrow> set offs)"

lemma deletion_rows:
  assumes R: "roaring_laws R" and t: "plain_piece table" and wr: "dels_written X R v table m bf data v'"
    and same: "\<forall>p \<in> named_paths table m. v' p = v p" and e: "e \<in> set (mf_row_groups m)"
  shows "deleted_offsets R v' table (marked R v table bf e) = deleted_offsets R v table e \<union> offsets_of bf (rg_fragment_id e)"
    "targeted bf e \<Longrightarrow> rg_deleted_count (marked R v table bf e)
       = of_nat (card (deleted_offsets R v' table (marked R v table bf e)))"
proof -
  have at: "dv_at R v' table (marked R v table bf e) = Some (marked_dv R v table bf e)" if tg: "targeted bf e"
  proof -
    have "v' (tpath table (new_del_path e)) = Some (dv_serialize R (marked_dv R v table bf e))"
      using wr e tg by (simp add: dels_written_def)
    then show ?thesis
      using tg dv_roundtrip [OF R] validate_del_path [OF t]
      by (simp add: dv_at_def new_del_path_def dv_deserialize_def ok_or_eq_Inr)
  qed
  show "deleted_offsets R v' table (marked R v table bf e) = deleted_offsets R v table e \<union> offsets_of bf (rg_fragment_id e)"
  proof (cases "targeted bf e")
    case True
    then show ?thesis
      using at [OF True] dv_set_union [OF R]
      by (auto simp: deleted_offsets_def marked_dv_def offsets_of_def targeted_def split: option.splits)
  next
    case False
    then have "offsets_of bf (rg_fragment_id e) = {}"
      by (auto simp: offsets_of_def targeted_def split: option.splits)
    then show ?thesis
      using False entry_cong(3) [OF t e same, of R] by (simp add: deleted_offsets_def marked_def)
  qed
  show "rg_deleted_count (marked R v table bf e) = of_nat (card (deleted_offsets R v' table (marked R v table bf e)))"
    if tg: "targeted bf e"
    using at [OF tg] tg dv_cardinality [OF R] by (simp add: deleted_offsets_def marked_def)
qed

section \<open>The unique indexes\<close>

lemma vread_named:
  assumes "f \<in> set (manifest_referenced_files m)" "\<forall>p \<in> named_paths table m. v' p = v p"
  shows "vread v' (tpath table f) = vread v (tpath table f)"
proof (cases "validate_path (tpath table f)")
  case (Inr p)
  then have "p \<in> named_paths table m" using assms(1) by (auto simp: named_paths_def)
  then show ?thesis using assms(2) Inr by (simp add: vread_def)
qed (simp add: vread_def)

text \<open>A generation with its base in place is read from the files the snapshot names.\<close>

lemma index_of_named_ref:
  assumes g: "map_of (mf_index_generations m) n = Some ref" and b: "ix_base ref = Some b" "vread v (tpath table b) = Inr bytes"
    and same: "\<forall>p \<in> named_paths table m. v' p = v p"
  shows "index_of_ref X v' table n ref = index_of_ref X v table n ref"
proof -
  have f: "f \<in> set (manifest_referenced_files m)" if "f \<in> set (index_files ref)" for f
    using that map_of_SomeD [OF g] unfolding referenced_iff by blast
  have "deltas_of X v' table (ix_deltas ref) = deltas_of X v table (ix_deltas ref)"
    using f same by (intro deltas_of_cong vread_named) (auto simp: index_files_def)
  moreover have "vread v' (tpath table b) = Inr bytes"
    using vread_named [OF f same, of b] b by (simp add: index_files_def split: option.split)
  ultimately show ?thesis
    using b by (cases "parse_index X bytes") (simp_all add: index_of_ref_def base_of_def ok_or_def res_bind_def)
qed

lemma deletion_index:
  assumes X: "json_law X" and rest: "at_rest X R v table m" and ready: "delete_ready X v table txn m bf data"
    and wr: "dels_written X R v table m bf data v'" and same: "\<forall>p \<in> named_paths table m. v' p = v p"
    and ids: "deleted_ids X v table bf (mf_row_groups m) \<noteq> []"
    and n: "n \<in> set (tombstoned_names table (mf_index_generations m) (dc_indexes data))"
    and g: "map_of (mf_index_generations m) n = Some ref" and b: "ix_base ref = Some b" "vread v (tpath table b) = Inr bytes"
    and ix: "index_of_ref X v table n ref = Inr (Some ix)"
  shows "map_of (deleted_gens X v table m bf data) n = Some (add_delta n (mf_sequence m + 1) ref)"
    "index_of_ref X v' table n (add_delta n (mf_sequence m + 1) ref)
       = Inr (Some (apply_delta \<lparr>td_tombstoned = deleted_ids X v table bf (mf_row_groups m), td_adds = []\<rparr> ix))"
proof -
  let ?q = "mf_sequence m + 1" and ?ids = "deleted_ids X v table bf (mf_row_groups m)"
  let ?ns = "tombstoned_names table (mf_index_generations m) (dc_indexes data)"
  have t: "plain_piece table" and data: "dc_of X v = Some data" and names: "\<forall>n \<in> fst ` set (dc_indexes data). plain_piece n"
    using rest ready by (simp_all add: at_rest_def delete_ready_def)
  have "distinct (map fst (dc_indexes data))" using dc_of_wf [OF data] by (simp add: bt_wf_distinct)
  then have "distinct ?ns" unfolding tombstoned_names_def by (rule distinct_map_filter)
  then show "map_of (deleted_gens X v table m bf data) n = Some (add_delta n ?q ref)"
    using n g ids by (simp add: deleted_gens_def map_of_tombstoned_gens)
  have "v' (index_file table n (delta_file ?q ''.json'')) = Some (tombstone_bytes X ?ids)"
    using wr ids n by (simp add: dels_written_def)
  moreover have "plain_piece n" using tombstoned_names_known [OF n] names by blast
  ultimately have "delta_of X v' table (td_versioned_filename n ?q) = Inr (Some \<lparr>td_tombstoned = ?ids, td_adds = []\<rparr>)"
    using validate_delta_paths(1) [OF t, of n ?q]
    by (simp add: delta_of_def versioned_paths vread_def parse_delta_def tombstone_bytes_def json_lawD(4) [OF X]
        tombstone_delta_roundtrip)
  from index_of_ref_snoc [OF this, of n ref]
  show "index_of_ref X v' table n (add_delta n ?q ref) = Inr (Some (apply_delta \<lparr>td_tombstoned = ?ids, td_adds = []\<rparr> ix))"
    using index_of_named_ref [OF g b same, of X] ix by (simp add: add_delta_def)
qed

end
