(* ===== verification/Deferred_Delete.thy ===== *)
theory Deferred_Delete
  imports Delete_Effect
begin

text \<open>
  The deferred mode of \<^verbatim>\<open>commit_deletes\<close>: one record in the mutation log. The files the record names are
  not synced, so a crash may lose them; the record carries their bytes and the next open
  writes the missing ones again.
\<close>

section \<open>Materializing\<close>

definition hex_law :: "ext \<Rightarrow> bool" where
  "hex_law X \<longleftrightarrow> (\<forall>b. hex_decode X (hex_encode X b) = Some b)"

text \<open>The artifacts of a record, all of whose paths are valid, have the contents \<open>g\<close>.\<close>

definition artifacts_are :: "ext \<Rightarrow> string \<Rightarrow> (string \<Rightarrow> bytes) \<Rightarrow> staged_artifact list \<Rightarrow> bool" where
  "artifacts_are X table g as \<longleftrightarrow> (\<forall>a \<in> set as.
     validate_path (tpath table (sa_path a)) = Inr (tpath table (sa_path a))
     \<and> hex_decode X (sa_hex a) = Some (g (tpath table (sa_path a))))"

definition artifact_paths :: "string \<Rightarrow> staged_artifact list \<Rightarrow> string set" where
  "artifact_paths table as = (\<lambda>a. tpath table (sa_path a)) ` set as"

context storage_contract
begin

lemma materialize_each:
  assumes "artifacts_are X table g as" "\<forall>p \<in> artifact_paths table as. view s p = None \<or> view s p = Some (g p)"
  shows "\<exists>s'. io_foldM (\<lambda>_. materialize_one X S table) () as s = (Inr (), s')
    \<and> view s' = (\<lambda>p. if p \<in> artifact_paths table as then Some (g p) else view s p)"
  using assms
proof (induction as arbitrary: s)
  case Nil
  then show ?case by (simp add: artifact_paths_def fun_eq_iff)
next
  case (Cons a as)
  let ?p = "tpath table (sa_path a)"
  have a: "validate_path ?p = Inr ?p" "hex_decode X (sa_hex a) = Some (g ?p)"
    using Cons.prems(1) by (simp_all add: artifacts_are_def)
  have pres: "view s ?p = None \<or> view s ?p = Some (g ?p)" using Cons.prems(2) by (simp add: artifact_paths_def)
  obtain s1 where s1: "materialize_one X S table a s = (Inr (), s1)" "view s1 = (view s)(?p \<mapsto> g ?p)"
  proof (cases "view s ?p")
    case None
    obtain s1 where "st_write S ?p (g ?p) s = (Inr (), s1)" "view s1 = (view s)(?p \<mapsto> g ?p)"
      using write_law [OF a(1)] by blast
    then show ?thesis using that None a by (simp add: materialize_one_def io_bind_run exists_law [OF a(1)] ok_or_def)
  next
    case (Some b)
    then have "view s = (view s)(?p \<mapsto> g ?p)" using pres by (auto simp: fun_eq_iff)
    then show ?thesis
      using that [of s] Some by (simp add: materialize_one_def io_bind_run exists_law [OF a(1)])
  qed
  have "artifacts_are X table g as" using Cons.prems(1) by (simp add: artifacts_are_def)
  moreover have "\<forall>p \<in> artifact_paths table as. view s1 p = None \<or> view s1 p = Some (g p)"
    using Cons.prems(2) s1(2) by (auto simp: artifact_paths_def)
  ultimately obtain s2 where s2: "io_foldM (\<lambda>_. materialize_one X S table) () as s1 = (Inr (), s2)"
    "view s2 = (\<lambda>p. if p \<in> artifact_paths table as then Some (g p) else view s1 p)"
    using Cons.IH by blast
  have "view s2 = (\<lambda>p. if p \<in> artifact_paths table (a # as) then Some (g p) else view s p)"
    using s2(2) s1(2) by (auto simp: artifact_paths_def fun_eq_iff)
  then show ?case using s1(1) s2(1) by simp
qed

end

section \<open>The record of a deletion\<close>

definition fragment_delete_of :: "row_group_entry \<Rightarrow> fragment_delete" where
  "fragment_delete_of e =
     \<lparr>fd_fragment_id = rg_fragment_id e, fd_deletes = the (rg_deletes e), fd_deleted_count = rg_deleted_count e\<rparr>"

lemma targeted_marked [simp]: "targeted bf (marked R v table bf e) = targeted bf e"
  by (simp add: targeted_def)

lemma record_deletes:
  "mr_fragment_deletes (delete_record X m latest q bf (map (marked R v table bf) es) gens arts)
     = map (\<lambda>e. fragment_delete_of (marked R v table bf e)) (filter (targeted bf) es)"
proof -
  have "(\<lambda>e. case bf (rg_fragment_id e) of None \<Rightarrow> False | Some offs \<Rightarrow> offs \<noteq> []) = targeted bf"
    by (simp add: fun_eq_iff targeted_def)
  then have "mr_fragment_deletes (delete_record X m latest q bf (map (marked R v table bf) es) gens arts)
      = List.map_filter (\<lambda>e. case rg_deletes e of None \<Rightarrow> None
          | Some d \<Rightarrow> Some \<lparr>fd_fragment_id = rg_fragment_id e, fd_deletes = d, fd_deleted_count = rg_deleted_count e\<rparr>)
        (map (marked R v table bf) (filter (targeted bf) es))"
    by (simp add: delete_record_def sealed_def filter_map comp_def)
  also have "\<dots> = map (\<lambda>e. fragment_delete_of (marked R v table bf e)) (filter (targeted bf) es)"
    by (induction es) (simp_all add: List.map_filter_simps fragment_delete_of_def)
  finally show ?thesis .
qed

definition overwrite :: "fragment_delete \<Rightarrow> row_group_entry \<Rightarrow> row_group_entry" where
  "overwrite fd e = (if rg_fragment_id e = fd_fragment_id fd
     then e\<lparr>rg_deletes := Some (fd_deletes fd), rg_deleted_count := fd_deleted_count fd\<rparr> else e)"

lemma fold_set_deletes:
  assumes "distinct (map rg_fragment_id es)"
  shows "fold set_deletes fds es = map (fold overwrite fds) es"
  using assms
proof (induction fds arbitrary: es)
  case (Cons fd fds)
  have "set_deletes fd es = map (overwrite fd) es"
    using set_deletes_distinct [OF Cons.prems] by (simp add: overwrite_def [abs_def])
  moreover have "distinct (map rg_fragment_id (map (overwrite fd) es))"
    using Cons.prems by (simp add: comp_def overwrite_def if_distrib [of rg_fragment_id] cong: if_cong)
  ultimately show ?case using Cons.IH by simp
qed simp

lemma overwrite_absent: "\<forall>fd \<in> set fds. fd_fragment_id fd \<noteq> rg_fragment_id e \<Longrightarrow> fold overwrite fds e = e"
  by (induction fds) (auto simp: overwrite_def)

lemma overwrite_marked:
  assumes "distinct (map rg_fragment_id es)" "e \<in> set es"
  shows "fold overwrite (map (\<lambda>e. fragment_delete_of (marked R v table bf e)) (filter (targeted bf) es)) e = marked R v table bf e"
  using assms
proof (induction es)
  case (Cons x es)
  let ?fds = "map (\<lambda>e. fragment_delete_of (marked R v table bf e)) (filter (targeted bf) es)"
  show ?case
  proof (cases "e = x")
    case True
    have "fold overwrite ?fds e' = e'" if "rg_fragment_id e' = rg_fragment_id x" for e'
    proof (rule overwrite_absent, rule ballI)
      fix fd assume "fd \<in> set ?fds"
      then obtain y where "y \<in> set es" "fd_fragment_id fd = rg_fragment_id y" by (auto simp: fragment_delete_of_def)
      then show "fd_fragment_id fd \<noteq> rg_fragment_id e'" using Cons.prems(1) that by (auto simp: rev_image_eqI)
    qed
    moreover have "overwrite (fragment_delete_of (marked R v table bf x)) x = marked R v table bf x" if "targeted bf x"
      using that by (simp add: overwrite_def fragment_delete_of_def marked_def)
    moreover have "\<not> targeted bf x \<Longrightarrow> marked R v table bf x = x" by (simp add: marked_def)
    ultimately show ?thesis using True by simp
  next
    case False
    then have e: "e \<in> set es" "rg_fragment_id e \<noteq> rg_fragment_id x" using Cons.prems by (auto simp: rev_image_eqI)
    then have "overwrite (fragment_delete_of (marked R v table bf x)) e = e"
      by (simp add: overwrite_def fragment_delete_of_def)
    then show ?thesis using Cons e(1) by simp
  qed
qed simp

lemma apply_delete_record:
  assumes "distinct (map rg_fragment_id (mf_row_groups m))"
  shows "mf_row_groups (apply_record X m (delete_record X m latest q bf (map (marked R v table bf) (mf_row_groups m)) gens arts))
      = map (marked R v table bf) (mf_row_groups m)"
    "mf_index_generations (apply_record X m (delete_record X m latest q bf rgs gens arts)) = gens"
    "mf_sequence (apply_record X m (delete_record X m latest q bf rgs gens arts)) = q"
    "mf_next_row_id (apply_record X m (delete_record X m latest q bf rgs gens arts)) = mf_next_row_id m"
    "mf_next_fragment_id (apply_record X m (delete_record X m latest q bf rgs gens arts)) = mf_next_fragment_id m"
    "mf_rowindex_generation (apply_record X m (delete_record X m latest q bf rgs gens arts)) = mf_rowindex_generation m"
    "mf_schema_id (apply_record X m (delete_record X m latest q bf rgs gens arts)) = mf_schema_id m"
proof -
  have adds: "mr_fragment_adds (delete_record X m latest q bf rgs gens arts) = []" for rgs
    by (simp add: delete_record_def sealed_def)
  show "mf_row_groups (apply_record X m (delete_record X m latest q bf (map (marked R v table bf) (mf_row_groups m)) gens arts))
      = map (marked R v table bf) (mf_row_groups m)"
    using overwrite_marked [OF assms, of _ R v table bf]
    by (simp add: apply_record_def Let_def record_deletes adds fold_set_deletes [OF assms])
qed (simp_all add: apply_record_def delete_record_def sealed_def Let_def)

section \<open>The deferred commit\<close>

definition deletion_record ::
  "ext \<Rightarrow> 'bm roaring \<Rightarrow> (string \<Rightarrow> bytes option) \<Rightarrow> string \<Rightarrow> manifest \<Rightarrow> (u64 \<Rightarrow> u32 list option) \<Rightarrow>
   catalog_data \<Rightarrow> mutation_record" where
  "deletion_record X R v table m bf data =
     delete_record X m (mf_sequence m) (mf_sequence m + 1) bf (map (marked R v table bf) (mf_row_groups m))
       (deleted_gens X v table m bf data) (delete_artifacts X R v table m bf data)"

lemma deletion_record_sel [simp]:
  "mr_sequence (deletion_record X R v table m bf data) = mf_sequence m + 1"
  "mr_staged_artifacts (deletion_record X R v table m bf data) = delete_artifacts X R v table m bf data"
  "mr_index_generations (deletion_record X R v table m bf data) = deleted_gens X v table m bf data"
  by (simp_all add: deletion_record_def delete_record_def sealed_def)

lemma deletion_record_verifies: "mr_verify X (deletion_record X R v table m bf data)"
  unfolding deletion_record_def delete_record_def by (rule sealed_verifies)

lemma artifact_paths_files:
  "artifact_paths table (delete_artifacts X R v table m bf data)
     \<subseteq> deletion_files table (mf_sequence m + 1) bf (mf_row_groups m)
         (tombstoned_names table (mf_index_generations m) (dc_indexes data))"
  by (auto simp: artifact_paths_def delete_artifacts_def deletion_files_def tombstone_artifact_def versioned_paths Let_def
      split: if_splits)

lemma deletion_artifacts:
  assumes hex: "hex_law X" and t: "plain_piece table" and names: "\<forall>n \<in> fst ` set (dc_indexes data). plain_piece n"
    and wr: "dels_written X R v table m bf data v'"
  shows "artifacts_are X table (\<lambda>p. the (v' p)) (delete_artifacts X R v table m bf data)"
    "\<forall>p \<in> artifact_paths table (delete_artifacts X R v table m bf data). v' p \<noteq> None"
proof -
  have one: "validate_path (tpath table (sa_path a)) = Inr (tpath table (sa_path a))
      \<and> (\<exists>b. v' (tpath table (sa_path a)) = Some b \<and> hex_decode X (sa_hex a) = Some b)"
    if a: "a \<in> set (delete_artifacts X R v table m bf data)" for a
  proof -
    let ?ids = "deleted_ids X v table bf (mf_row_groups m)"
    consider (del) e where "e \<in> set (mf_row_groups m)" "targeted bf e"
        "a = \<lparr>sa_path = new_del_path e, sa_hex = hex_encode X (dv_serialize R (marked_dv R v table bf e))\<rparr>"
      | (tomb) n where "?ids \<noteq> []" "n \<in> set (tombstoned_names table (mf_index_generations m) (dc_indexes data))"
        "a = tombstone_artifact X ?ids (mf_sequence m + 1) n"
      using a by (auto simp: delete_artifacts_def Let_def split: if_splits)
    then show ?thesis
    proof cases
      case del
      then show ?thesis
        using wr hex validate_del_path [OF t] by (auto simp: dels_written_def hex_law_def new_del_path_def)
    next
      case tomb
      then have "plain_piece n" using tombstoned_names_known names by blast
      then show ?thesis
        using wr hex tomb validate_delta_paths(1) [OF t, of n]
        by (auto simp: dels_written_def hex_law_def tombstone_artifact_def versioned_paths)
    qed
  qed
  show "artifacts_are X table (\<lambda>p. the (v' p)) (delete_artifacts X R v table m bf data)"
    using one unfolding artifacts_are_def by fastforce
  show "\<forall>p \<in> artifact_paths table (delete_artifacts X R v table m bf data). v' p \<noteq> None"
    using one unfolding artifact_paths_def by fastforce
qed

definition deletion_logged ::
  "ext \<Rightarrow> 'bm roaring \<Rightarrow> (string \<Rightarrow> bytes option) \<Rightarrow> string \<Rightarrow> manifest \<Rightarrow> (u64 \<Rightarrow> u32 list option) \<Rightarrow>
   catalog_data \<Rightarrow> (string \<Rightarrow> bytes option) \<Rightarrow> bool" where
  "deletion_logged X R v table m bf data v' \<longleftrightarrow>
     v' (wal_path table) = Some (json_to_string X (mutation_record_value (deletion_record X R v table m bf data)) @ [10])
     \<and> dels_written X R v table m bf data v' \<and> (\<forall>p \<in> table_paths table m. v' p = v p)"

context storage_contract
begin

text \<open>The commit itself.\<close>

lemma commit_deletes_deferred_run:
  assumes R: "roaring_laws R" and X: "json_law X" and wal: "w_wal_mode w" "1 < w_wal_checkpoint_threshold w"
    and rest: "at_rest X R (view s) (w_table w) m"
    and ready: "delete_ready X (view s) (w_table w) txn m bf data"
    and order: "H (deleted_gens X (view s) (w_table w) m bf data) = deleted_gens X (view s) (w_table w) m bf data"
  shows "\<exists>s'. commit_deletes X H R S E w bf s
      = (Inr (commit_delta_new m (after_deletion X R (view s) (w_table w) m bf data) Delete), s')
    \<and> deletion_logged X R (view s) (w_table w) m bf data (view s')"
proof -
  define table es q where "table = w_table w" and "es = mf_row_groups m" and "q = mf_sequence m + 1"
  define ns where "ns = tombstoned_names table (mf_index_generations m) (dc_indexes data)"
  define ids where "ids = deleted_ids X (view s) table bf es"
  define rec where "rec = deletion_record X R (view s) table m bf data"
  note names = table_def [symmetric] es_def [symmetric] q_def [symmetric]
  have t: "plain_piece table" and wal0: "view s (wal_path table) = None"
    and waln: "wal_path table \<notin> named_paths table m"
    using rest by (simp_all add: at_rest_def table_def)
  obtain s1 s2 s3 s4 paths D where s:
      "load_current_manifest X H S table s = (Inr (mf_sequence m, m), s)"
      "cleanup_staging X S table (mf_sequence m) (manifest_referenced_files m) s = (Inr (), s1)"
      "st_exists S (tpath table (manifest_filename q)) s1 = (Inr False, s1)"
      "w_ensure_dir S (tpath table ''_deletions'') s1 = (Inr (), s2)"
      "mark_fragments X R S True table bf es s2 = (Inr (mark_work X R True (view s) table bf es), s3)"
      "collect_deleted_ids X S table bf es s3
        = (Inr (ids, map rg_fragment_id (filter (without_ids X (view s) table bf) es)), s3)"
      "dc_load X S s3 = (Inr data, s3)"
      "tombstone_indexes X S True table ids q data
        (mf_index_generations m, [], dw_artifacts (mark_work X R True (view s) table bf es)) s3
        = (Inr (deleted_gens X (view s) table m bf data, paths, delete_artifacts X R (view s) table m bf data), s4)"
      "dels_written X R (view s) table m bf data (view s4)"
      "\<forall>p. p \<notin> deletion_files table q bf es ns \<longrightarrow> view s4 p = view s1 p" "view s1 = without D (view s)"
      "D \<inter> table_paths table m = {}" "\<forall>p. leftover table (mf_sequence m) p \<longrightarrow> view s1 p = None"
    using delete_work_run [OF R rest ready, of H True, unfolded names if_True, folded ns_def ids_def] that
    by (elim exE conjE)
  have unique: "has_unique_index table (mf_index_generations m) data \<longrightarrow> filter (without_ids X (view s) table bf) es = []"
    and apart: "named_paths table m \<inter> delete_writes table txn q bf es ns = {}"
    using ready by (simp_all add: delete_ready_def table_def q_def es_def ns_def has_unique_index_names filter_empty_conv)
  have zf: "zone table p \<in> {''_deletions'', ''_indexes''}" if "p \<in> deletion_files table q bf es ns" for p
    using that by (auto simp: deletion_files_def new_del_path_def)
  have "wal_path table \<notin> deletion_files table q bf es ns" using zf [of "wal_path table"] by auto
  then have wal4: "view s4 (wal_path table) = None" using s(10,11) wal0 by (simp add: without_def)
  have stable: "\<forall>r \<in> set ([] @ [rec]). stable_record X H r"
    using order by (simp add: stable_record_def rec_def deletion_record_verifies table_def)
  let ?line = "json_to_string X (mutation_record_value rec) @ [10]"
  obtain s5 where s5: "wal_append X S table rec s4 = (Inr (), s5)" "view s5 = (view s4)(wal_path table \<mapsto> ?line)"
    using wal_append_run [OF t, of X rec s4] wal4 by auto
  have "read_records X H S table s5 = (Inr [rec], s5)"
    using append_then_read [OF t X stable, of s4] wal4 s5(1) by auto
  then have def: "commit_deferred X H S E table (w_wal_checkpoint_threshold w) rec s4 = (Inr (), s5)"
    using s5(1) wal(2) by (simp add: commit_deferred_def io_then_run io_bind_run)
  have rec: "delete_record X m (mf_sequence m) q bf (dw_row_groups (mark_work X R True (view s) table bf es))
      (deleted_gens X (view s) table m bf data) (delete_artifacts X R (view s) table m bf data) = rec"
    by (simp add: rec_def deletion_record_def mark_work_def Let_def es_def q_def)
  have new: "deleted_manifest m q (dw_row_groups (mark_work X R True (view s) table bf es))
      (deleted_gens X (view s) table m bf data) = after_deletion X R (view s) table m bf data"
    by (simp add: after_deletion_def mark_work_def Let_def es_def q_def)
  have run: "commit_deletes X H R S E w bf s
      = (Inr (commit_delta_new m (after_deletion X R (view s) table m bf data) Delete), s5)"
    unfolding commit_deletes_def Let_def names
    using s(1-8) def unique wal(1)
    by (simp add: io_bind_run io_then_run sync_law new rec names)
  have "dels_written X R (view s) table m bf data (view s5)"
  proof -
    have "tpath table (new_del_path e) \<noteq> wal_path table" "index_file table n f \<noteq> wal_path table" for e n f
      by (rule zones_differ [of table], simp add: new_del_path_def)+
    then show ?thesis using s(9) by (simp add: dels_written_def s5(2))
  qed
  moreover have "view s5 p = view s p" if p: "p \<in> table_paths table m" for p
  proof -
    have "p \<notin> deletion_files table q bf es ns"
    proof
      assume f: "p \<in> deletion_files table q bf es ns"
      then have "p \<notin> named_paths table m" using apart by (auto simp: delete_writes_def)
      then have "p \<in> {tpath table ''_manifest.json'', tpath table (manifest_filename (mf_sequence m)), CATALOG_PATH}"
        using p by (simp add: table_paths_def)
      moreover have "CATALOG_PATH \<notin> deletion_files table q bf es ns"
        using catalog_not_written [of table txn q bf es ns] by (simp add: delete_writes_def)
      ultimately show False using zf [OF f] f by auto
    qed
    moreover have "p \<noteq> wal_path table"
    proof
      assume p': "p = wal_path table"
      have "CHR ''/'' \<in> set (wal_path table)" by (simp add: wal_path_def sep_tpath)
      then have "wal_path table \<noteq> CATALOG_PATH" using no_sep_catalog by metis
      moreover have "wal_path table \<noteq> tpath table ''_manifest.json''" "wal_path table \<noteq> tpath table (manifest_filename (mf_sequence m))"
        by (rule zones_differ [of table], simp)+
      ultimately show False using p p' waln by (simp add: table_paths_def)
    qed
    ultimately show ?thesis using p s(10-12) s5(2) by (auto simp: without_def)
  qed
  ultimately have "deletion_logged X R (view s) table m bf data (view s5)"
    using s5(2) by (simp add: deletion_logged_def rec_def)
  then show ?thesis using run unfolding table_def by blast
qed

text \<open>The next open finds the snapshot and the record, whatever became of the unsynced files.\<close>

lemma deferred_base:
  assumes X: "json_law X" and rest: "at_rest X R v table m"
    and order: "H (deleted_gens X v table m bf data) = deleted_gens X v table m bf data"
    and logged: "deletion_logged X R v table m bf data v'"
    and same: "\<And>p. p \<notin> artifact_paths table (delete_artifacts X R v table m bf data) \<Longrightarrow> view s p = v' p"
  shows "load_checkpoint_manifest X S table s = (Inr (mf_sequence m, m), s)"
    "read_records X H S table s = (Inr [deletion_record X R v table m bf data], s)"
proof -
  let ?rec = "deletion_record X R v table m bf data" and ?A = "artifact_paths table (delete_artifacts X R v table m bf data)"
  have t: "plain_piece table" and ptr: "pointer_at X v table = PointerAt (mf_sequence m)"
    and man: "manifest_at X v table (mf_sequence m) = Some m"
    using rest by (simp_all add: at_rest_def)
  have zf: "zone table p \<in> {''_deletions'', ''_indexes''}" if "p \<in> ?A" for p
    using that artifact_paths_files by (fastforce simp: deletion_files_def new_del_path_def)
  have out: "tpath table ''_manifest.json'' \<notin> ?A" "tpath table (manifest_filename (mf_sequence m)) \<notin> ?A" "wal_path table \<notin> ?A"
    using zf by fastforce+
  have old: "view s p = v p" if "p \<in> table_paths table m" "p \<notin> ?A" for p
    using that same logged by (simp add: deletion_logged_def)
  have "pointer_at X (view s) table = PointerAt (mf_sequence m)"
    unfolding ptr [symmetric] using out(1) by (intro pointer_at_cong old) (simp_all add: table_paths_def)
  moreover have "manifest_at X (view s) table (mf_sequence m) = Some m"
    unfolding man [symmetric] using out(2) by (intro manifest_at_cong old) (simp_all add: table_paths_def)
  ultimately show "load_checkpoint_manifest X S table s = (Inr (mf_sequence m, m), s)"
    by (rule load_checkpoint_manifest_run [OF t])
  have "view s (wal_path table) = Some (log_bytes X [?rec])"
    using out(3) same logged by (simp add: deletion_logged_def log_bytes_def)
  moreover have "read_lines X H (split_on 10 (log_bytes X [?rec])) = [?rec]"
    using read_lines_log [OF X, of "[?rec]" H "[]"] order by (simp add: stable_record_def deletion_record_verifies)
  ultimately show "read_records X H S table s = (Inr [?rec], s)" by (simp add: read_records_run [OF t])
qed

text \<open>The next open, after a crash that lost some of the unsynced files.\<close>

lemma load_after_deferred:
  assumes X: "json_law X" and hex: "hex_law X"
    and rest: "at_rest X R v table m" and ready: "delete_ready X v table txn m bf data"
    and order: "H (deleted_gens X v table m bf data) = deleted_gens X v table m bf data"
    and logged: "deletion_logged X R v table m bf data v'"
    and lost: "L \<subseteq> artifact_paths table (delete_artifacts X R v table m bf data)" "view s = without L v'"
  shows "\<exists>s'. load_current_manifest X H S table s
      = (Inr (mf_sequence m + 1, apply_record X m (deletion_record X R v table m bf data)), s')
    \<and> dels_written X R v table m bf data (view s') \<and> (\<forall>p \<in> named_paths table m. view s' p = v p)"
proof -
  let ?q = "mf_sequence m + 1" and ?rec = "deletion_record X R v table m bf data"
  let ?A = "artifact_paths table (delete_artifacts X R v table m bf data)"
  have t: "plain_piece table" and q: "mf_sequence m \<noteq> 0" using rest by (simp_all add: at_rest_def)
  have names: "\<forall>n \<in> fst ` set (dc_indexes data). plain_piece n" and q1: "?q \<noteq> 0"
    and apart: "named_paths table m \<inter> delete_writes table txn ?q bf (mf_row_groups m)
      (tombstoned_names table (mf_index_generations m) (dc_indexes data)) = {}"
    using ready by (simp_all add: delete_ready_def)
  have lt: "mf_sequence m < ?q" using q1 unatSuc [of "mf_sequence m"] by (simp add: word_less_nat_alt add.commute)
  note arts = deletion_artifacts [OF hex t names, of R v m bf v']
  have wr: "dels_written X R v table m bf data v'" using logged by (simp add: deletion_logged_def)
  have keep: "view s p = v' p" if "p \<notin> ?A" for p
    using that lost by (auto simp: without_def)
  note base = deferred_base [where H = H and s = s, OF X rest order logged keep]
  have named: "p \<notin> ?A \<and> v' p = v p" if "p \<in> named_paths table m" for p
    using that apart artifact_paths_files [of table X R v m bf data] logged
    by (auto simp: delete_writes_def deletion_logged_def table_paths_def)
  have "\<forall>p \<in> ?A. view s p = None \<or> view s p = Some (the (v' p))"
    using arts(2) [OF wr] lost(2) by (auto simp: without_def)
  then obtain s' where s': "materialize X S table ?rec s = (Inr (), s')"
    "view s' = (\<lambda>p. if p \<in> ?A then Some (the (v' p)) else view s p)"
    using materialize_each [OF arts(1) [OF wr]] unfolding materialize_def by auto
  have live: "live_manifest X H S table m s = (Inr (apply_record X m ?rec), s')"
    using base(2) s'(1) lt by (simp add: live_manifest_def io_bind_run io_then_run)
  have run: "load_current_manifest X H S table s = (Inr (?q, apply_record X m ?rec), s')"
    using base(1) live q by (simp add: load_current_manifest_def io_bind_run)
  have v': "view s' p = v' p" if "v' p \<noteq> None \<or> p \<in> ?A" for p
    using that s'(2) lost arts(2) [OF wr] by (auto simp: without_def)
  have "dels_written X R v table m bf data (view s')"
    using wr v' unfolding dels_written_def by (metis option.distinct(1))
  moreover have "\<forall>p \<in> named_paths table m. view s' p = v p"
    using named keep s'(2) by simp
  ultimately show ?thesis using run by blast
qed

text \<open>A file that is there is kept, whatever it holds.\<close>

lemma load_after_damage:
  assumes X: "json_law X" and hex: "hex_law X" and rest: "at_rest X R v table m" and ready: "delete_ready X v table txn m bf data"
    and order: "H (deleted_gens X v table m bf data) = deleted_gens X v table m bf data"
    and logged: "deletion_logged X R v table m bf data v'"
    and damage: "p \<in> artifact_paths table (delete_artifacts X R v table m bf data)" "view s = v'(p \<mapsto> b)"
  shows "\<exists>s'. load_current_manifest X H S table s
      = (Inr (mf_sequence m + 1, apply_record X m (deletion_record X R v table m bf data)), s') \<and> view s' p = Some b"
proof -
  let ?q = "mf_sequence m + 1" and ?rec = "deletion_record X R v table m bf data"
  let ?A = "artifact_paths table (delete_artifacts X R v table m bf data)"
  have t: "plain_piece table" and q: "mf_sequence m \<noteq> 0" using rest by (simp_all add: at_rest_def)
  have names: "\<forall>n \<in> fst ` set (dc_indexes data). plain_piece n" and q1: "?q \<noteq> 0"
    using ready by (simp_all add: delete_ready_def)
  have lt: "mf_sequence m < ?q" using q1 unatSuc [of "mf_sequence m"] by (simp add: word_less_nat_alt add.commute)
  have keep: "view s p' = v' p'" if "p' \<notin> ?A" for p' using that damage by auto
  note base = deferred_base [where H = H and s = s, OF X rest order logged keep]
  have "artifacts_are X table (\<lambda>p. the (v' p)) (delete_artifacts X R v table m bf data)"
    using deletion_artifacts(1) [OF hex t names] logged unfolding deletion_logged_def by blast
  then have "artifacts_ok X table ?rec" by (simp add: artifacts_ok_def artifacts_are_def)
  then obtain s' where live: "live_manifest X H S table m s = (Inr (fold_live X m [?rec]), s')" "view s \<subseteq>\<^sub>m view s'"
    using live_manifest_run [OF base(2), of m] by auto
  then have "load_current_manifest X H S table s = (Inr (?q, apply_record X m ?rec), s')"
    using base(1) q lt by (simp add: load_current_manifest_def io_bind_run fold_live_def)
  moreover have "view s p = Some b" using damage(2) by simp
  then have "view s' p = Some b" using live(2) by (metis domI map_le_def)
  ultimately show ?thesis by blast
qed

end

end
