(* ===== verification/Delete_Crash.thy ===== *)
theory Delete_Crash
  imports Delete_Effect
begin

text \<open>
  A crash during a direct deletion: every state the disk passes through, partly written files
  included, opens as the table before the deletion or as the table after it.
\<close>

section \<open>What the steps of a deletion protect\<close>

lemma keeps_lift_bind:
  assumes "\<And>a. r = Inr a \<Longrightarrow> keeps J (f a)"
  shows "keeps J (io_bind (io_lift r) f)"
  using assms by (cases r) (auto simp: keeps_def io_bind_run)

text \<open>A loop whose accumulator keeps a property.\<close>

lemma keeps_foldM_inv:
  assumes "P b" "\<And>b x. P b \<Longrightarrow> x \<in> set xs \<Longrightarrow> keeps J (f b x)"
    "\<And>b x s b' s'. P b \<Longrightarrow> x \<in> set xs \<Longrightarrow> f b x s = (Inr b', s') \<Longrightarrow> P b'"
  shows "keeps J (io_foldM f b xs)"
  using assms
proof (induction xs arbitrary: b)
  case Nil
  then show ?case by (simp add: keeps_def)
next
  case (Cons x xs)
  show ?case
    unfolding keeps_def
  proof (intro allI impI)
    fix s r s' assume s: "J s" and run: "io_foldM f b (x # xs) s = (r, s')"
    obtain y s1 where y: "f b x s = (y, s1)" by (cases "f b x s")
    have s1: "J s1" using Cons.prems(1,2) s y by (auto dest: keepsD)
    show "J s'"
    proof (cases y)
      case (Inl e)
      then show ?thesis using run y s1 by simp
    next
      case (Inr b')
      have "P b'" using Cons.prems(3) [OF Cons.prems(1), of x s b' s1] y Inr by simp
      then have "keeps J (io_foldM f b' xs)"
      proof (rule Cons.IH)
        show "keeps J (f b x)" if "P b" "x \<in> set xs" for b x using that by (intro Cons.prems(2)) simp_all
        show "P b'" if "P b" "x \<in> set xs" "f b x s = (Inr b', s')" for b x s b' s'
          using Cons.prems(3) [OF that(1) _ that(3)] that(2) by simp
      qed
      then show ?thesis using run y Inr s1 by (auto dest: keepsD)
    qed
  qed
qed

lemma keeps_case_prod_app: "(\<And>a c. keeps J (f a c x)) \<Longrightarrow> keeps J ((case b of (a, c) \<Rightarrow> f a c) x)"
  by (cases b) simp

definition same_keys :: "('a \<times> 'b) list \<Rightarrow> ('a \<times> 'b) list \<Rightarrow> bool" where
  "same_keys g g' \<longleftrightarrow> (\<forall>k. map_of g k = None \<longleftrightarrow> map_of g' k = None)"

lemma same_keys_update: "same_keys g g' \<Longrightarrow> map_of g n = Some r \<Longrightarrow> same_keys (AList.update n r' g) g'"
  unfolding same_keys_def update_conv' by (metis fun_upd_apply option.distinct(1))

context protected_storage
begin

lemma keeps_mark_fragments:
  assumes "\<And>e ver. e \<in> set es \<Longrightarrow> targeted bf e \<Longrightarrow> new_del_version (rg_deletes e) = Inr ver \<Longrightarrow>
    free_path G (tpath table (del_rel_path (rg_fragment_id e) ver))"
  shows "keeps J (mark_fragments X R S wal table bf es)"
  unfolding mark_fragments_def mark_fragment_def load_deletion_vector_def Let_def using assms
  by (intro keeps_foldM keeps_case_option keeps_if keeps_lift_bind keeps_rules keeps_write) (auto simp: targeted_def)

lemma keeps_collect_deleted_ids [keeps_rules]: "keeps J (collect_deleted_ids X S table bf es)"
  unfolding collect_deleted_ids_def Let_def by (intro keeps_foldM keeps_case_prod_app keeps_rules)

lemma keeps_dc_load [keeps_rules]: "keeps J (dc_load X S)"
  unfolding dc_load_def by (intro keeps_rules)

lemma keeps_append_tombstones:
  assumes "free_path G (index_file table n (delta_file seq ''.json''))"
    "free_path G (index_file table n (delta_file seq ''.json.tmp''))"
  shows "keeps J (append_tombstones X S table n ids seq ref durable)"
  unfolding append_tombstones_def Let_def ensure_dir_def versioned_paths using assms
  by (intro protected_rules) auto

lemma keeps_tombstone_indexes:
  assumes "\<And>n. n \<in> set (tombstoned_names table gens (dc_indexes data)) \<Longrightarrow>
      free_path G (index_file table n (delta_file seq ''.json''))
      \<and> free_path G (index_file table n (delta_file seq ''.json.tmp''))"
  shows "keeps J (tombstone_indexes X S wal table ids seq data (gens, paths, arts))"
proof -
  let ?P = "\<lambda>(g, paths, arts). same_keys g gens"
  have one: "keeps J (tombstone_index X S wal table ids seq (g, ps, as) (n, e))"
    if "same_keys g gens" "(n, e) \<in> set (dc_indexes data)" for g ps as n e
  proof -
    have "free_path G (index_file table n (delta_file seq ''.json''))
        \<and> free_path G (index_file table n (delta_file seq ''.json.tmp''))"
      if "ie_table e = table" "ie_unique e" "ie_index_type e = ''btree''" "map_of g n = Some ref" for ref
    proof -
      have "map_of gens n \<noteq> None" using \<open>same_keys g gens\<close> that(4) unfolding same_keys_def by (metis option.distinct(1))
      then show ?thesis using that \<open>(n, e) \<in> _\<close> by (intro assms) (force simp: tombstoned_names_def)
    qed
    then show ?thesis
      unfolding tombstone_index_def Let_def split_conv
      by (intro keeps_if keeps_case_option keeps_rules keeps_append_tombstones) auto
  qed
  have step: "?P b'" if "?P (g, ps, as)" "tombstone_index X S wal table ids seq (g, ps, as) (n, e) s = (Inr b', s')"
    for g ps as n e s b' s'
    using that by (auto simp: tombstone_index_def io_bind_run same_keys_update Let_def split: if_splits option.splits sum.splits prod.splits)
  have "keeps J (io_foldM (tombstone_index X S wal table ids seq) (gens, paths, arts) (dc_indexes data))"
  proof (rule keeps_foldM_inv [where P = ?P])
    show "?P (gens, paths, arts)" by (simp add: same_keys_def)
    show "keeps J (tombstone_index X S wal table ids seq b x)" if "?P b" "x \<in> set (dc_indexes data)" for b x
      using that one by (cases b; cases x) auto
    show "?P b'" if "?P b" "tombstone_index X S wal table ids seq b x s = (Inr b', s')" for b x s b' s'
      using that step by (cases b; cases x) blast
  qed
  then show ?thesis unfolding tombstone_indexes_def by (intro keeps_if keeps_rules)
qed

lemma keeps_publish_manifest:
  assumes "free_path G (tpath table (manifest_filename seq))" "free_path G (tpath table (manifest_filename seq) @ ''.tmp'')"
    "deletable G ip"
  shows "keeps J (publish_manifest X S table m seq (io_then (io_try (st_delete S ip)) (io_return ())))"
  unfolding publish_manifest_def stage_manifest_def verify_manifest_checksum_def Let_def using assms
  by (intro protected_rules) auto

end

section \<open>Protected files\<close>

text \<open>Until the pointer is swapped the files of the old snapshot and the log are as they were.\<close>

definition before_swap :: "(string \<Rightarrow> bytes option) \<Rightarrow> string \<Rightarrow> manifest \<Rightarrow> string \<Rightarrow> bytes option \<Rightarrow> bool" where
  "before_swap v table m p x \<longleftrightarrow> (p \<in> insert (wal_path table) (table_paths table m) \<longrightarrow> x = v p)"

definition in_cleanup :: "(string \<Rightarrow> bytes option) \<Rightarrow> string \<Rightarrow> manifest \<Rightarrow> string \<Rightarrow> bytes option \<Rightarrow> bool" where
  "in_cleanup v table m p x \<longleftrightarrow> before_swap v table m p x \<and> (is_intent table p \<longrightarrow> x = None \<or> x = v p)"

lemma seen_ok_mono: "(\<And>p x. G p x \<Longrightarrow> G' p x) \<Longrightarrow> seen_ok A G t \<Longrightarrow> seen_ok A G' t"
  by (auto simp: seen_ok_def disk_ok_def)

lemma cleanup_allowed:
  assumes rest: "at_rest X R v table m"
  shows "leftover table (mf_sequence m) p \<Longrightarrow> in_cleanup v table m p None"
    "is_intent table e \<Longrightarrow> in_cleanup v table m e (Some data) \<Longrightarrow> f \<in> set (intent_files X data) \<Longrightarrow>
       f \<notin> set (manifest_referenced_files m) \<Longrightarrow> deletable (in_cleanup v table m) (tpath table f)"
proof -
  have wal: "v (wal_path table) = None" using rest by (simp add: at_rest_def)
  show "in_cleanup v table m p None" if "leftover table (mf_sequence m) p"
    using that rest wal by (auto simp: in_cleanup_def before_swap_def at_rest_def)
  assume e: "is_intent table e" and d: "in_cleanup v table m e (Some data)"
    and f: "f \<in> set (intent_files X data)" "f \<notin> set (manifest_referenced_files m)"
  show "deletable (in_cleanup v table m) (tpath table f)"
    unfolding deletable_def
  proof (intro allI impI)
    fix p assume p: "validate_path (tpath table f) = Inr p"
    have "v e = Some data" using e d by (simp add: in_cleanup_def)
    then have "p \<in> intents_doomed X table (manifest_referenced_files m) v"
      using e f p by (fastforce simp: intents_doomed_def intent_targets_def)
    then show "in_cleanup v table m p None"
      using rest wal by (auto simp: in_cleanup_def before_swap_def at_rest_def)
  qed
qed

lemma cleanup_spares:
  assumes "at_rest X R v table m"
  shows "keeps (seen_ok A (in_cleanup v table m)) (cleanup_staging X traced_mem table (mf_sequence m) (manifest_referenced_files m))"
  using assms cleanup_allowed [OF assms] by (intro prot.keeps_cleanup_staging) (auto simp: at_rest_def)

lemma manifest_path_inj:
  assumes "plain_piece table" "tpath table (manifest_filename q) = tpath table (manifest_filename q')"
  shows "q = q'"
  using entry_seq_filename [OF assms(1), of q] entry_seq_filename [OF assms(1), of q'] assms(2) by (metis option.inject)

text \<open>Every file the deletion writes, but the pointer, is free until the swap.\<close>

lemma written_free:
  assumes rest: "at_rest X R v table m" and ready: "delete_ready X v table txn m bf data"
    and p: "p \<in> delete_writes table txn (mf_sequence m + 1) bf (mf_row_groups m)
      (tombstoned_names table (mf_index_generations m) (dc_indexes data))" "p \<noteq> tpath table ''_manifest.json''"
  shows "free_path (before_swap v table m) p"
proof -
  let ?q = "mf_sequence m + 1"
  have t: "plain_piece table" using rest by (simp add: at_rest_def)
  have "plain_piece (txn @ ''.json'')"
    "\<forall>n \<in> set (tombstoned_names table (mf_index_generations m) (dc_indexes data)). plain_piece n"
    using ready tombstoned_names_known by (fastforce simp: delete_ready_def)+
  then have valid: "validate_path p = Inr p" using validate_written [OF t _ _ p(1)] by blast
  have "p \<noteq> tpath table (manifest_filename (mf_sequence m))"
  proof
    assume eq: "p = tpath table (manifest_filename (mf_sequence m))"
    have z: "zone table p = ''_manifests''" by (simp add: eq)
    from p(1) show False
    proof (cases rule: written_cases)
      case commit
      have "last p = CHR ''n''" by (simp add: eq manifest_filename_def tpath_def)
      then have "p \<noteq> tpath table (manifest_filename ?q) @ ''.tmp''" by auto
      then have "p = tpath table (manifest_filename ?q)" using commit z unfolding commit_paths_def by auto
      then have "mf_sequence m = ?q" using manifest_path_inj [OF t] eq by metis
      then show False by simp
    next
      case keep
      then show False using z by simp
    next
      case (del e)
      then show False using z by (simp add: new_del_path_def)
    next
      case (delta n)
      then show False using z by auto
    qed
  qed
  moreover have "p \<noteq> wal_path table" using written_zone [OF p(1)] by auto
  moreover have "p \<noteq> CATALOG_PATH" using p(1) catalog_not_written by metis
  moreover have "p \<notin> named_paths table m" using ready p(1) by (auto simp: delete_ready_def)
  ultimately show ?thesis using valid p(2) by (simp add: free_path_def before_swap_def table_paths_def)
qed

section \<open>The states of the disk\<close>

definition opens_before :: "ext \<Rightarrow> (string \<Rightarrow> bytes option) \<Rightarrow> string \<Rightarrow> manifest \<Rightarrow> (string \<Rightarrow> bytes option) \<Rightarrow> bool" where
  "opens_before X v table m v' \<longleftrightarrow>
     pointer_at X v' table = PointerAt (mf_sequence m) \<and> manifest_at X v' table (mf_sequence m) = Some m
     \<and> v' (wal_path table) = None \<and> (\<forall>p \<in> named_paths table m. v' p = v p)"

definition opens_after ::
  "ext \<Rightarrow> 'bm roaring \<Rightarrow> (string \<Rightarrow> bytes option) \<Rightarrow> string \<Rightarrow> manifest \<Rightarrow> (u64 \<Rightarrow> u32 list option) \<Rightarrow> catalog_data \<Rightarrow>
   manifest \<Rightarrow> (string \<Rightarrow> bytes option) \<Rightarrow> bool" where
  "opens_after X R v table m bf data m' v' \<longleftrightarrow>
     pointer_at X v' table = PointerAt (mf_sequence m') \<and> manifest_at X v' table (mf_sequence m') = Some m'
     \<and> v' (wal_path table) = None \<and> (\<forall>p \<in> named_paths table m. v' p = v p)
     \<and> dels_written X R v table m bf data v'"

lemma before_swap_opens:
  assumes rest: "at_rest X R v table m" and ok: "disk_ok (before_swap v table m) d"
  shows "opens_before X v table m (mem_get d)"
proof -
  have same: "mem_get d p = v p" if "p \<in> insert (wal_path table) (table_paths table m)" for p
    using ok that by (auto simp: disk_ok_def before_swap_def)
  have "pointer_at X (mem_get d) table = PointerAt (mf_sequence m)"
    using rest pointer_at_cong [of "mem_get d" table v X] same by (simp add: at_rest_def table_paths_def)
  moreover have "manifest_at X (mem_get d) table (mf_sequence m) = Some m"
    using rest manifest_at_cong [of "mem_get d" table "mf_sequence m" v X] same by (simp add: at_rest_def table_paths_def)
  ultimately show ?thesis using rest same by (simp add: opens_before_def at_rest_def table_paths_def)
qed

lemma traced_step_seen:
  "traced_step f t = (Inr u, t') \<Longrightarrow> tr_seen t' = tr_seen t @ [tr_disk t']"
  "traced_step f t = (r, t') \<Longrightarrow> set (tr_seen t') \<subseteq> insert (tr_disk t') (set (tr_seen t))"
  by (auto simp: traced_step_def split: prod.splits sum.splits)

text \<open>Swapping the pointer: the disk is as before, or as after the swap.\<close>

lemma write_pointer_seen:
  assumes t: "plain_piece table" and ok: "seen_ok A G s" and free: "free_path G (tpath table ''_manifest.json.tmp'')"
    and run: "write_pointer X traced_mem table q s = (Inr (), s')"
  shows "\<forall>d \<in> set (tr_seen s'). A d \<or> disk_ok G d \<or> d = tr_disk s'"
proof -
  let ?tmp = "tpath table ''_manifest.json.tmp''" and ?b = "json_to_string X (latest_pointer q)"
  note v = validate_pointer_path [OF t]
  obtain s1 where s1: "st_write traced_mem ?tmp ?b s = (Inr (), s1)" "mem_get (tr_disk s1) = (mem_get (tr_disk s))(?tmp \<mapsto> ?b)"
    using tmem.write_law v by blast
  have ok1: "seen_ok A G s1" by (rule keepsD [OF prot.keeps_write [OF free] ok s1(1)])
  obtain s2 where s2: "st_rename traced_mem ?tmp (tpath table ''_manifest.json'') s1 = (Inr (), s2)"
    using tmem.rename_law [of ?tmp ?tmp "tpath table ''_manifest.json''" "tpath table ''_manifest.json''" s1 ?b] v s1(2) by auto
  have "s' = s2"
    using run s1(1) s2 by (simp add: write_pointer_def Let_def latest_pointer_def [symmetric] io_then_run tmem.sync_law del: traced_sel)
  moreover have "tr_seen s2 = tr_seen s1 @ [tr_disk s2]" using s2 traced_step_seen(1) unfolding traced_sel by blast
  ultimately show ?thesis using ok1 by (auto simp: seen_ok_def)
qed

text \<open>A deletion, step by step.\<close>

lemma deletion_seen:
  assumes R: "roaring_laws R" and X: "json_law X" and wal: "\<not> w_wal_mode w" and seen: "tr_seen s = []"
    and rest: "at_rest X R (mem_get (tr_disk s)) (w_table w) m"
    and ready: "delete_ready X (mem_get (tr_disk s)) (w_table w) (ce_txn_id E) m bf data"
    and run: "commit_deletes X H R traced_mem E w bf s = (r, s')"
  shows "\<exists>parent. let m' = deletion_snapshot X R (mem_get (tr_disk s)) (w_table w) m bf data parent (ce_now E 2)
    in r = Inr (commit_delta_new m m' Delete)
      \<and> (\<forall>d \<in> set (tr_seen s'). opens_before X (mem_get (tr_disk s)) (w_table w) m (mem_get d)
          \<or> opens_after X R (mem_get (tr_disk s)) (w_table w) m bf data m' (mem_get d))"
proof -
  define v where "v = mem_get (tr_disk s)"
  define table es q where "table = w_table w" and "es = mf_row_groups m" and "q = mf_sequence m + 1"
  define ns where "ns = tombstoned_names table (mf_index_generations m) (dc_indexes data)"
  define W where "W = delete_writes table (ce_txn_id E) q bf es ns"
  define ids where "ids = deleted_ids X v table bf es"
  define new where "new = after_deletion X R v table m bf data"
  define G where "G = before_swap v table m"
  note names = v_def [symmetric] table_def [symmetric] es_def [symmetric] q_def [symmetric]
  note rest = rest [folded v_def table_def] and ready = ready [folded v_def table_def]
  have t: "plain_piece table" and wf: "\<And>e. e \<in> set es \<Longrightarrow> deletes_wf R v table e"
    using rest by (simp_all add: at_rest_def es_def)
  have free: "free_path G p" if "p \<in> W" "p \<noteq> tpath table ''_manifest.json''" for p
    using that written_free [OF rest ready] unfolding G_def W_def q_def es_def ns_def by blast
  have freed: "free_path G p" if p: "p \<in> deletion_files table q bf es ns" for p
  proof (rule free)
    show "p \<in> W" using p by (simp add: W_def delete_writes_def)
    have "zone table p \<in> {''_deletions'', ''_indexes''}" using p by (auto simp: deletion_files_def new_del_path_def)
    then show "p \<noteq> tpath table ''_manifest.json''" by auto
  qed
  obtain s1 s2 s3 s4 paths D where c:
      "load_current_manifest X H traced_mem table s = (Inr (mf_sequence m, m), s)"
      "cleanup_staging X traced_mem table (mf_sequence m) (manifest_referenced_files m) s = (Inr (), s1)"
      "st_exists traced_mem (tpath table (manifest_filename q)) s1 = (Inr False, s1)"
      "w_ensure_dir traced_mem (tpath table ''_deletions'') s1 = (Inr (), s2)"
      "mark_fragments X R traced_mem False table bf es s2 = (Inr (mark_work X R False v table bf es), s3)"
      "collect_deleted_ids X traced_mem table bf es s3
        = (Inr (ids, map rg_fragment_id (filter (without_ids X v table bf) es)), s3)"
      "dc_load X traced_mem s3 = (Inr data, s3)"
      "tombstone_indexes X traced_mem False table ids q data
        (mf_index_generations m, [], dw_artifacts (mark_work X R False v table bf es)) s3
        = (Inr (deleted_gens X v table m bf data, paths, []), s4)"
      "dels_written X R v table m bf data (mem_get (tr_disk s4))"
      "\<forall>p. p \<notin> deletion_files table q bf es ns \<longrightarrow> mem_get (tr_disk s4) p = mem_get (tr_disk s1) p"
      "mem_get (tr_disk s1) = without D v" "D \<inter> table_paths table m = {}"
      "\<forall>p. leftover table (mf_sequence m) p \<longrightarrow> mem_get (tr_disk s1) p = None"
    using tmem.delete_work_run [OF R rest [unfolded v_def] ready [unfolded v_def], of H False,
        unfolded names if_False, folded ns_def ids_def] that
    by (elim exE conjE)
  have "seen_ok (\<lambda>_. False) (in_cleanup v table m) s"
    using seen rest by (simp add: seen_ok_def disk_ok_def in_cleanup_def before_swap_def at_rest_def v_def)
  from keepsD [OF cleanup_spares [OF rest] this c(2)] have j1: "seen_ok (\<lambda>_. False) G s1"
    by (rule seen_ok_mono [rotated]) (simp add: in_cleanup_def G_def)
  have j2: "seen_ok (\<lambda>_. False) G s2"
    by (rule keepsD [OF prot.keeps_ensure_dir j1 c(4)], rule freed) (simp add: deletion_files_def)
  have "free_path G (tpath table (del_rel_path (rg_fragment_id e) ver))"
    if "e \<in> set es" "targeted bf e" "new_del_version (rg_deletes e) = Inr ver" for e ver
  proof -
    have "ver = next_version e" using new_del_version_wf [OF wf [OF that(1)]] that(3) by simp
    then show ?thesis
      using that(1,2) by (intro freed) (auto simp: deletion_files_def new_del_path_def)
  qed
  then have j3: "seen_ok (\<lambda>_. False) G s3" by (rule keepsD [OF prot.keeps_mark_fragments j2 c(5)])
  have j4: "seen_ok (\<lambda>_. False) G s4"
    by (rule keepsD [OF prot.keeps_tombstone_indexes j3 c(8)], intro conjI freed)
      (auto simp: deletion_files_def ns_def [symmetric])
  have apart: "named_paths table m \<inter> W = {}" and txn: "plain_piece (ce_txn_id E @ ''.json'')"
    and part: "intent_path table (ce_txn_id E) \<noteq> checkpoint_part table q" and q0: "q \<noteq> 0"
    and unique: "has_unique_index table (mf_index_generations m) data \<longrightarrow> filter (without_ids X v table bf) es = []"
    using ready by (simp_all add: delete_ready_def q_def es_def ns_def W_def has_unique_index_names filter_empty_conv)
  let ?ip = "intent_path table (ce_txn_id E)"
  have ipW: "?ip \<in> W" by (simp add: W_def delete_writes_def commit_paths_def)
  have named4: "mem_get (tr_disk s4) p = v p" if p: "p \<in> named_paths table m" for p
  proof -
    have "p \<notin> deletion_files table q bf es ns" using p apart by (auto simp: W_def delete_writes_def)
    then show ?thesis using c(10-12) p by (auto simp: without_def table_paths_def)
  qed
  have sums: "\<forall>e \<in> set (mf_row_groups new). summary_at X v' (ce_cache E) table m e \<noteq> None"
    if v': "\<forall>p. p \<noteq> ?ip \<longrightarrow> v' p = mem_get (tr_disk s4) p" for v'
    unfolding new_def
  proof (rule deletion_summaries [OF rest], rule ballI)
    fix p assume p: "p \<in> named_paths table m"
    then have "p \<noteq> ?ip" using ipW apart by blast
    then show "v' p = v p" using v' named4 [OF p] by simp
  qed
  let ?sid = "sc_schema_id (w_schema w)"
  let ?files = "dw_paths (mark_work X R False v table bf es) @ paths"
  let ?m = "\<lambda>parent. finalize X parent (ce_now E 2) (new\<lparr>mf_checkpoint := Some (cp_filename q)\<rparr>)"
  obtain s5 cp s6 st parent s7 s8 r9 s9 where k:
    "write_intent X traced_mem ?ip (ce_txn_id E) (ce_now E 0) ?sid ?files s4 = (Inr (), s5)"
    "build_snapshot_checkpoint X traced_mem (ce_cache E) table m new s5 = (Inr cp, s5)"
    "write_checkpoint X (ce_archiver E) traced_mem (ce_local E) (ce_now E 1) table cp q ?ip ?files []
      (ce_txn_id E) ?sid s5 = (Inr (cp_filename q, ?files @ [cp_filename q], st), s6)"
    "parent_manifest_checksum X traced_mem table q s6 = (Inr parent, s6)"
    "publish_manifest X traced_mem table (?m parent) q (io_then (io_try (st_delete traced_mem ?ip)) (io_return ())) s6
      = (Inr (), s7)"
    "write_pointer X traced_mem table q s7 = (Inr (), s8)"
    "mem_get (tr_disk s8) (tpath table ''_manifest.json'') = Some (json_to_string X (latest_pointer q))"
    "mem_get (tr_disk s8) (tpath table (manifest_filename q)) = Some (json_to_string X (manifest_value (?m parent)))"
    "\<forall>p. p \<notin> commit_paths table q (ce_txn_id E) \<longrightarrow> mem_get (tr_disk s8) p = mem_get (tr_disk s4) p"
    "st_delete traced_mem ?ip s8 = (r9, s9)" "mem_get (tr_disk s9) = (mem_get (tr_disk s8))(?ip := None)"
    "commit_direct X traced_mem E table ?sid m new q ?files s4 = (Inr (?m parent), s9)"
    by (rule tmem.commit_direct_steps [OF t X txn part sums, where sid = ?sid and files = ?files])
  have freec: "free_path G p" if "p \<in> commit_paths table q (ce_txn_id E)" "p \<noteq> tpath table ''_manifest.json''" for p
    using that by (intro free) (simp_all add: W_def delete_writes_def)
  have zp: "zone table p \<noteq> ''_manifest.json'' \<Longrightarrow> p \<noteq> tpath table ''_manifest.json''" for p by auto
  have j5: "seen_ok (\<lambda>_. False) G s5"
    by (rule keepsD [OF prot.keeps_write_intent j4 k(1)], intro freec zp) (simp_all add: commit_paths_def)
  have j6: "seen_ok (\<lambda>_. False) G s6"
    by (rule keepsD [OF prot.keeps_write_checkpoint j5 k(3)]; intro freec zp) (simp_all add: commit_paths_def)
  have j7: "seen_ok (\<lambda>_. False) G s7"
    by (rule keepsD [OF prot.keeps_publish_manifest j6 k(5)]; intro freec zp free_deletable) (simp_all add: commit_paths_def)
  have "\<forall>d \<in> set (tr_seen s8). disk_ok G d \<or> d = tr_disk s8"
    using write_pointer_seen [OF t j7 _ k(6)] freec [OF _ zp] by (simp add: commit_paths_def)
  moreover have "set (tr_seen s9) \<subseteq> insert (tr_disk s9) (set (tr_seen s8))"
    using k(10) traced_step_seen(2) unfolding traced_sel by blast
  ultimately have all: "\<forall>d \<in> set (tr_seen s9). disk_ok G d \<or> d = tr_disk s8 \<or> d = tr_disk s9" by blast
  define m' where "m' = ?m parent"
  have snap: "deletion_snapshot X R v table m bf data parent (ce_now E 2) = m'"
    by (simp add: deletion_snapshot_def m'_def new_def q_def)
  have after: "opens_after X R v table m bf data m' (mem_get d)" if d: "\<forall>p. p \<noteq> ?ip \<longrightarrow> mem_get d p = mem_get (tr_disk s8) p" for d
  proof -
    have ne: "tpath table ''_manifest.json'' \<noteq> ?ip" "tpath table (manifest_filename q) \<noteq> ?ip" "wal_path table \<noteq> ?ip"
      by (rule zones_differ [of table], simp)+
    have seq: "mf_sequence m' = q" unfolding snap [symmetric] by (simp add: q_def)
    have "pointer_at X (mem_get d) table = PointerAt q"
      using q0 ne(1) d k(7) by (simp add: pointer_at_def pointer_state_latest [OF X])
    moreover have "manifest_at X (mem_get d) table q = Some m'"
      using ne(2) d k(8) by (simp add: manifest_at_def parse_manifest_def json_lawD [OF X] manifest_roundtrip m'_def finalize_verifies)
    moreover have "mem_get d (wal_path table) = None"
    proof -
      have "wal_path table \<notin> W" using written_zone [of "wal_path table" table] unfolding W_def by auto
      then have "mem_get d (wal_path table) = without D v (wal_path table)"
        using d ne(3) k(9) c(10,11) by (simp add: W_def delete_writes_def)
      then show ?thesis using rest by (simp add: without_def at_rest_def)
    qed
    moreover have "mem_get d p = v p" if p: "p \<in> named_paths table m" for p
    proof -
      have "p \<notin> W" using p apart by blast
      then have "mem_get d p = mem_get (tr_disk s4) p" using d k(9) ipW by (metis UnI1 W_def delete_writes_def)
      then show ?thesis using named4 [OF p] by simp
    qed
    moreover have "dels_written X R v table m bf data (mem_get d)"
    proof (rule dels_written_cong [OF _ c(9)], intro allI impI)
      fix p assume "p \<notin> commit_paths table q (ce_txn_id E)"
      moreover from this have "p \<noteq> ?ip" by (auto simp: commit_paths_def)
      ultimately show "mem_get d p = mem_get (tr_disk s4) p" using d k(9) by simp
    qed
    ultimately show ?thesis by (simp add: opens_after_def seq)
  qed
  have new: "deleted_manifest m q (dw_row_groups (mark_work X R False v table bf es))
      (deleted_gens X v table m bf data) = new"
    by (simp add: new_def after_deletion_def mark_work_def Let_def es_def q_def)
  have "(r, s') = (Inr (commit_delta_new m m' Delete), s9)"
    unfolding run [symmetric] commit_deletes_def Let_def names
    using c(1-8) k(12) unique wal
    by (simp add: io_bind_run io_then_run tmem.sync_law new m'_def names del: traced_sel)
  then have "r = Inr (commit_delta_new m m' Delete)" "s' = s9" by simp_all
  moreover have "opens_before X v table m (mem_get d) \<or> opens_after X R v table m bf data m' (mem_get d)" if "d \<in> set (tr_seen s9)" for d
    using all that before_swap_opens [OF rest, of d, folded G_def] after [of "tr_disk s8"] after [of "tr_disk s9"] k(11) by auto
  ultimately show ?thesis
    unfolding names Let_def by (intro exI [of _ parent]) (simp add: snap)
qed

end
