(* ===== verification/Writer_Properties.thy ===== *)
theory Writer_Properties
  imports Deferred_Delete Delete_Crash Index_Properties Log_Properties
begin

text \<open>
  The properties of the table writer: logical deletion in both modes, what a crash can leave, and
  the recovery of a lost pointer.
\<close>

section \<open>A table at rest\<close>

lemma at_restI:
  assumes t: "plain_piece table" and clean: "clean_keys (dom v)" and q: "mf_sequence m \<noteq> 0"
    and ptr: "pointer_at X v table = PointerAt (mf_sequence m)" "manifest_at X v table (mf_sequence m) = Some m"
    and zone: "\<And>p. p \<in> dom v \<Longrightarrow> zone table p \<notin> {''_staging'', ''_wal''}"
    and named: "\<And>p. p \<in> named_paths table m \<Longrightarrow> zone table p \<notin> {''_staging'', ''_wal'', ''_manifests''}"
    and es: "distinct (map rg_fragment_id (mf_row_groups m))"
      "\<And>e. e \<in> set (mf_row_groups m) \<Longrightarrow> deletes_wf R v table e
         \<and> meta_at X v (\<lambda>_. None) (tpath table (rg_meta e)) \<noteq> None"
  shows "at_rest X R v table m"
proof -
  have "wal_path table \<notin> dom v" using zone [of "wal_path table"] by auto
  then have wal: "v (wal_path table) = None" "wal_path table \<notin> named_paths table m"
    using named [of "wal_path table"] by (auto simp: domIff)
  have "v e = None" if e: "is_intent table e" for e
  proof (rule ccontr)
    assume "v e \<noteq> None"
    then show False
      using zone [of e] direct_zone(1) [of table e] e by (auto simp: is_intent_def intents_dir_def)
  qed
  then have none: "intents_valid X table r v" "intents_doomed X table r v = {e. is_intent table e}" for r
    by (intro no_intents; blast)+
  have "\<not> leftover table (mf_sequence m) p" if p: "p \<in> table_paths table m" for p
    using p leftover_zone [of table "mf_sequence m" p] named [of p] manifest_not_leftover [OF t] pointer_not_leftover
      catalog_not_leftover by (auto simp: table_paths_def)
  then show ?thesis
    using assms wal none leftover_intent unfolding at_rest_def by blast
qed

definition sample_live :: manifest where
  "sample_live = finalize plain_ext None ''now'' (sample_manifest\<lparr>mf_index_generations := [(''i'', sample_ref)]\<rparr>)"

definition sample_disk :: memory_storage where
  "sample_disk = \<lparr>ms_data =
     [(tpath ''t'' ''_manifest.json'', json_to_string plain_ext (latest_pointer 4)),
      (tpath ''t'' (manifest_filename 4), json_to_string plain_ext (manifest_value sample_live)),
      (''t/rg_1.meta'', json_to_string plain_ext (row_group_meta_value sample_meta)),
      (CATALOG_PATH, json_pretty plain_ext (catalog_data_value sample_catalog)),
      (''t/b.json'', json_pretty plain_ext (btree_index_value sample_index))]\<rparr>"

lemma sample_live_sel [simp]:
  "mf_sequence sample_live = 4" "mf_row_groups sample_live = [sample_entry]" "mf_index_generations sample_live = [(''i'', sample_ref)]"
  "mf_rowindex_generation sample_live = None" "mf_checkpoint sample_live = None" "mf_schema_id sample_live = 1"
  by (simp_all add: sample_live_def sample_manifest_def)

lemma manifest_4: "manifest_filename 4 = ''_manifests/000000004.json''"
proof -
  have "pad_zeros 9 (show_nat 4) = ''000000004''" by code_simp
  then show ?thesis by (simp add: manifest_filename_def)
qed

lemma sample_disk_get:
  "mem_get sample_disk ''t/_manifest.json'' = Some (json_to_string plain_ext (latest_pointer 4))"
  "mem_get sample_disk ''t/_manifests/000000004.json'' = Some (json_to_string plain_ext (manifest_value sample_live))"
  "mem_get sample_disk ''t/rg_1.meta'' = Some (json_to_string plain_ext (row_group_meta_value sample_meta))"
  "mem_get sample_disk CATALOG_PATH = Some (json_pretty plain_ext (catalog_data_value sample_catalog))"
  "mem_get sample_disk ''t/b.json'' = Some (json_pretty plain_ext (btree_index_value sample_index))"
  "dom (mem_get sample_disk) = {''t/_manifest.json'', ''t/_manifests/000000004.json'', ''t/rg_1.meta'', CATALOG_PATH, ''t/b.json''}"
  by (simp_all add: sample_disk_def manifest_4 tpath_t CATALOG_PATH_def dom_map_of_conv_image_fst)

lemma sample_named: "named_paths ''t'' sample_live = {''t/rg_1.parquet'', ''t/rg_1.meta'', ''t/b.json'', ''t/b.idx'', ''t/b.model''}"
proof -
  have files: "set (manifest_referenced_files sample_live) = {''rg_1.parquet'', ''rg_1.meta'', ''b.json'', ''b.idx'', ''b.model''}"
    by (auto simp: manifest_referenced_files_def entry_files_def sample_entry_def index_files_def sample_ref_def
        strip_suffix_def ends_with_def)
  have "validate_path (tpath ''t'' f) = Inr (''t/'' @ f)" if "f \<in> set (manifest_referenced_files sample_live)" for f
    using that validate_short [of f] unfolding files by (auto simp: tpath_t plain_piece_def)
  then show ?thesis unfolding named_paths_def files by (auto simp: files)
qed


lemma sample_meta_at: "meta_at plain_ext (mem_get sample_disk) (\<lambda>_. None) (tpath ''t'' (rg_meta sample_entry)) = Some sample_meta"
proof -
  have "rgm_wf sample_meta" by (simp add: rgm_wf_def sample_meta_def)
  then show ?thesis
    using validate_sample_meta
    by (simp add: meta_at_def sample_entry_def tpath_t sample_disk_get parse_row_group_meta_def
        json_lawD [OF plain_ext_law] rgm_roundtrip)
qed

lemma sample_at_rest: "at_rest plain_ext set_bitmap (mem_get sample_disk) ''t'' sample_live"
proof (rule at_restI)
  show "plain_piece ''t''" by simp
  show "clean_keys (dom (mem_get sample_disk))"
    using validate_short [of "''_manifest.json''"] validate_short [of "''rg_1.meta''"] validate_short [of "''b.json''"]
      validate_manifest_path [OF plain_t, of 4] validate_catalog_path(1)
    by (simp add: clean_keys_def sample_disk_get manifest_4 tpath_t plain_piece_def)
  show "mf_sequence sample_live \<noteq> 0" by simp
  show "pointer_at plain_ext (mem_get sample_disk) ''t'' = PointerAt (mf_sequence sample_live)"
    by (simp add: pointer_at_def tpath_t sample_disk_get pointer_state_latest [OF plain_ext_law])
  have "verify_checksum plain_ext sample_live" unfolding sample_live_def by (rule finalize_verifies)
  then show "manifest_at plain_ext (mem_get sample_disk) ''t'' (mf_sequence sample_live) = Some sample_live"
    by (simp add: manifest_at_def tpath_t manifest_4 sample_disk_get parse_manifest_def json_lawD [OF plain_ext_law] manifest_roundtrip)
  show "zone ''t'' p \<notin> {''_staging'', ''_wal''}" if "p \<in> dom (mem_get sample_disk)" for p
    using that unfolding sample_disk_get(6) by (auto simp: zone_def CATALOG_PATH_def)
  show "zone ''t'' p \<notin> {''_staging'', ''_wal'', ''_manifests''}" if "p \<in> named_paths ''t'' sample_live" for p
    using that unfolding sample_named by (auto simp: zone_def)
  show "distinct (map rg_fragment_id (mf_row_groups sample_live))" by simp
  fix e assume "e \<in> set (mf_row_groups sample_live)"
  then have e: "e = sample_entry" by simp
  show "deletes_wf set_bitmap (mem_get sample_disk) ''t'' e
      \<and> meta_at plain_ext (mem_get sample_disk) (\<lambda>_. None) (tpath ''t'' (rg_meta e)) \<noteq> None"
    using sample_meta_at by (simp add: deletes_wf_def e) (simp add: sample_entry_def)
qed

text \<open>The second row of the sample's only row group is deleted.\<close>

definition sample_victims :: "u64 \<Rightarrow> u32 list option" where
  "sample_victims = [7 \<mapsto> [1]]"

lemma sample_dc: "dc_of plain_ext (mem_get sample_disk) = Some sample_catalog"
  using catalog_data_roundtrip [of sample_catalog]
  by (simp add: dc_of_def sample_disk_get json_lawD(4) [OF plain_ext_law]) (simp add: sample_catalog_def)

lemma sample_names: "tombstoned_names ''t'' (mf_index_generations sample_live) (dc_indexes sample_catalog) = [''i'']"
  by (simp add: tombstoned_names_def sample_catalog_def)

lemma sample_delete_ready: "delete_ready plain_ext (mem_get sample_disk) ''t'' ''x'' sample_live sample_victims sample_catalog"
proof -
  have "intent_path ''t'' ''x'' \<noteq> checkpoint_part ''t'' 5"
    by (simp add: intent_path_def intents_dir_def checkpoint_part_def tpath_t)
  moreover have "\<forall>n \<in> fst ` set (dc_indexes sample_catalog). plain_piece n"
    by (simp add: sample_catalog_def plain_piece_def)
  moreover have "\<not> without_ids plain_ext (mem_get sample_disk) ''t'' sample_victims sample_entry"
    unfolding without_ids_def sample_meta_at by (simp add: sample_meta_def)
  moreover have "p \<notin> named_paths ''t'' sample_live" if "p \<in> delete_writes ''t'' ''x'' 5 bf es ns" for p bf es ns
    using written_zone [OF that] unfolding sample_named by (auto simp: zone_def)
  moreover have "plain_piece ''x.json''" by (simp add: plain_piece_def)
  ultimately show ?thesis
    using sample_dc unfolding delete_ready_def sample_names by auto
qed

definition sample_env :: commit_env where
  "sample_env = \<lparr>ce_now = (\<lambda>_. ''now''), ce_txn_id = ''x'', ce_local = False, ce_cache = (\<lambda>_. None),
     ce_archiver = \<lparr>rkyv_to_bytes = (\<lambda>_. None), rkyv_access = (\<lambda>_. None)\<rparr>\<rparr>"

definition sample_writer :: "bool \<Rightarrow> unit writer" where
  "sample_writer wal = \<lparr>w_table = ''t'', w_schema = sample_schema, w_arrow_schema = [], w_buffer = [], w_buffered_rows = 0,
     w_buffered_bytes = 0, w_wal_mode = wal, w_wal_checkpoint_threshold = 64\<rparr>"

section \<open>Deleting rows\<close>

text \<open>
  The row groups of a table after a deletion: the same fragments, with the given offsets deleted as well. The count in the entry of a
  fragment that lost rows is the number of its deleted offsets, the other entries are the same, and every file the old snapshot names
  (data, metadata, partials, indexes) has the same bytes.
\<close>

definition rows_deleted ::
  "'bm roaring \<Rightarrow> string \<Rightarrow> (u64 \<Rightarrow> u32 list option) \<Rightarrow> (string \<Rightarrow> bytes option) \<Rightarrow> manifest \<Rightarrow>
   (string \<Rightarrow> bytes option) \<Rightarrow> manifest \<Rightarrow> bool" where
  "rows_deleted R table bf v m v' m' \<longleftrightarrow>
     list_all2 (\<lambda>e e'. rg_fragment_id e' = rg_fragment_id e \<and> rg_data e' = rg_data e \<and> rg_meta e' = rg_meta e
         \<and> deleted_offsets R v' table e' = deleted_offsets R v table e \<union> offsets_of bf (rg_fragment_id e)
         \<and> (if targeted bf e then rg_deleted_count e' = of_nat (card (deleted_offsets R v' table e')) else e' = e))
       (mf_row_groups m) (mf_row_groups m')
     \<and> (\<forall>p \<in> named_paths table m. v' p = v p)"

lemma rows_deletedI:
  assumes "roaring_laws R" "plain_piece table" "dels_written X R v table m bf data v'"
    "\<forall>p \<in> named_paths table m. v' p = v p" "mf_row_groups m' = map (marked R v table bf) (mf_row_groups m)"
  shows "rows_deleted R table bf v m v' m'"
  using deletion_rows [OF assms(1-4)] assms(4) unfolding rows_deleted_def assms(5) list.rel_map
  by (intro conjI list.rel_refl_strong) (simp_all add: marked_def)

text \<open>Nothing is deleted where the files are the same.\<close>

lemma no_rows_deleted:
  assumes "plain_piece table" "\<forall>p \<in> named_paths table m. v' p = v p"
  shows "rows_deleted R table (\<lambda>_. None) v m v' m"
  using assms entry_cong(3) [OF assms(1) _ assms(2), of _ R] unfolding rows_deleted_def
  by (intro conjI list.rel_refl_strong) (simp_all add: offsets_of_def targeted_def deleted_offsets_def)

text \<open>
  C4: Deleting rows of a table at rest (direct mode) succeeds and publishes the next snapshot, which
  the following open loads: it has the same fragments, each with exactly the requested offsets
  deleted in addition and counted, and every file of the old snapshot has its bytes. No intent is left,
  and the table is at rest again, ready for the next commit.
\<close>

theorem delete_commits:
  assumes "roaring_laws R" "json_law X" "\<not> w_wal_mode w" "at_rest X R (mem_get s) (w_table w) m"
    "delete_ready X (mem_get s) (w_table w) (ce_txn_id E) m bf data"
  shows "\<exists>s' m'. commit_deletes X H R mem_storage E w bf s = (Inr (commit_delta_new m m' Delete :: 'prg commit_delta), s')
    \<and> load_current_manifest X H mem_storage (w_table w) s' = (Inr (mf_sequence m + 1, m'), s')
    \<and> rows_deleted R (w_table w) bf (mem_get s) m (mem_get s') m'
    \<and> (\<forall>p. is_intent (w_table w) p \<longrightarrow> mem_get s' p = None)
    \<and> at_rest X R (mem_get s') (w_table w) m'"
proof -
  let ?snap = "\<lambda>parent. deletion_snapshot X R (mem_get s) (w_table w) m bf data parent (ce_now E 2)"
  obtain s' parent where run: "commit_deletes X H R mem_storage E w bf s
      = (Inr (commit_delta_new m (?snap parent) Delete :: 'prg commit_delta), s')"
    and fin: "deletion_done X R (mem_get s) (w_table w) (ce_txn_id E) m bf data (?snap parent) (mem_get s')"
    using mem.commit_deletes_direct_run [OF assms] by blast
  have rest: "at_rest X R (mem_get s') (w_table w) (?snap parent)" by (rule deletion_at_rest [OF assms(4,5) fin refl])
  then have "load_current_manifest X H mem_storage (w_table w) s' = (Inr (mf_sequence m + 1, ?snap parent), s')"
    using mem.load_current_manifest_run [of "w_table w" X s' "mf_sequence m + 1" "?snap parent" H] by (simp add: at_rest_def)
  moreover have "rows_deleted R (w_table w) bf (mem_get s) m (mem_get s') (?snap parent)"
    using assms(4) fin deletion_done_frame(1) [OF assms(4,5) fin]
    by (intro rows_deletedI [OF assms(1), where X = X and data = data]) (simp_all add: at_rest_def deletion_done_def Let_def)
  moreover have "\<forall>p. is_intent (w_table w) p \<longrightarrow> mem_get s' p = None" using deletion_done_frame(4) [OF assms(4,5) fin] by blast
  ultimately show ?thesis using run rest by blast
qed

theorem delete_commits_witness:
  "\<exists>s' m'. commit_deletes plain_ext id set_bitmap mem_storage sample_env (sample_writer False) sample_victims sample_disk
      = (Inr (commit_delta_new sample_live m' Delete), s')
    \<and> load_current_manifest plain_ext id mem_storage ''t'' s' = (Inr (5, m'), s')
    \<and> rows_deleted set_bitmap ''t'' sample_victims (mem_get sample_disk) sample_live (mem_get s') m'
    \<and> mem_get s' (intent_path ''t'' ''x'') = None \<and> at_rest plain_ext set_bitmap (mem_get s') ''t'' m'"
proof -
  have w: "w_table (sample_writer False) = ''t''" "\<not> w_wal_mode (sample_writer False)" "ce_txn_id sample_env = ''x''"
    by (simp_all add: sample_writer_def sample_env_def)
  have "is_intent ''t'' (intent_path ''t'' ''x'')" by (simp add: is_intent_def direct_def intent_path_def ends_with_def)
  then show ?thesis
    using delete_commits [OF set_bitmap_laws plain_ext_law w(2), of sample_disk sample_live sample_env sample_victims sample_catalog id,
        unfolded w(1,3), OF sample_at_rest sample_delete_ready] by auto
qed

text \<open>
  C5: A crash of the process at any point of a direct deletion, also in the middle of a write, leaves a disk that opens
  as the table before the deletion, with the rows it had, or as the table after it, with exactly the requested offsets
  deleted in addition; in both cases every data, metadata and index file of the old snapshot has its bytes.
\<close>

theorem delete_crash_atomic:
  assumes "roaring_laws R" "json_law X" "\<not> w_wal_mode w" "at_rest X R (mem_get d0) (w_table w) m"
    "delete_ready X (mem_get d0) (w_table w) (ce_txn_id E) m bf data"
    "commit_deletes X H R traced_mem E w bf \<lparr>tr_disk = d0, tr_seen = []\<rparr> = (r, t)"
  shows "\<exists>m'. \<forall>d \<in> set (tr_seen t).
      load_current_manifest X H mem_storage (w_table w) d = (Inr (mf_sequence m, m), d)
        \<and> rows_deleted R (w_table w) (\<lambda>_. None) (mem_get d0) m (mem_get d) m
      \<or> load_current_manifest X H mem_storage (w_table w) d = (Inr (mf_sequence m + 1, m'), d)
        \<and> rows_deleted R (w_table w) bf (mem_get d0) m (mem_get d) m'"
proof -
  let ?v = "mem_get d0"
  obtain parent where p: "\<forall>d \<in> set (tr_seen t). opens_before X ?v (w_table w) m (mem_get d)
      \<or> opens_after X R ?v (w_table w) m bf data (deletion_snapshot X R ?v (w_table w) m bf data parent (ce_now E 2)) (mem_get d)"
    using deletion_seen [OF assms(1-3), of "\<lparr>tr_disk = d0, tr_seen = []\<rparr>" m E bf data H r t] assms(4-6)
    unfolding Let_def by auto
  define m' where "m' = deletion_snapshot X R ?v (w_table w) m bf data parent (ce_now E 2)"
  have t: "plain_piece (w_table w)" and q: "mf_sequence m \<noteq> 0" "mf_sequence m' = mf_sequence m + 1" "mf_sequence m + 1 \<noteq> 0"
    using assms(4,5) by (simp_all add: at_rest_def delete_ready_def m'_def)
  have before: "load_current_manifest X H mem_storage (w_table w) d = (Inr (mf_sequence m, m), d)
      \<and> rows_deleted R (w_table w) (\<lambda>_. None) ?v m (mem_get d) m" if o: "opens_before X ?v (w_table w) m (mem_get d)" for d
  proof
    show "load_current_manifest X H mem_storage (w_table w) d = (Inr (mf_sequence m, m), d)"
      using o mem.load_current_manifest_run [OF t _ _ q(1)] by (simp add: opens_before_def)
    show "rows_deleted R (w_table w) (\<lambda>_. None) ?v m (mem_get d) m"
      using o by (intro no_rows_deleted [OF t]) (simp add: opens_before_def)
  qed
  have after: "load_current_manifest X H mem_storage (w_table w) d = (Inr (mf_sequence m + 1, m'), d)
      \<and> rows_deleted R (w_table w) bf ?v m (mem_get d) m'" if o: "opens_after X R ?v (w_table w) m bf data m' (mem_get d)" for d
  proof
    show "load_current_manifest X H mem_storage (w_table w) d = (Inr (mf_sequence m + 1, m'), d)"
      using o q mem.load_current_manifest_run [OF t, of X d "mf_sequence m'" m' H] by (simp add: opens_after_def)
    show "rows_deleted R (w_table w) bf ?v m (mem_get d) m'"
      using o by (intro rows_deletedI [OF assms(1) t, where X = X and data = data]) (simp_all add: opens_after_def m'_def)
  qed
  show ?thesis using p before after unfolding m'_def [symmetric] by blast
qed

theorem delete_crash_atomic_witness:
  "\<exists>r t m'. commit_deletes plain_ext id set_bitmap traced_mem sample_env (sample_writer False) sample_victims
        \<lparr>tr_disk = sample_disk, tr_seen = []\<rparr> = (r :: unit commit_delta result, t)
    \<and> (\<forall>d \<in> set (tr_seen t).
      load_current_manifest plain_ext id mem_storage ''t'' d = (Inr (4, sample_live), d)
        \<and> rows_deleted set_bitmap ''t'' (\<lambda>_. None) (mem_get sample_disk) sample_live (mem_get d) sample_live
      \<or> load_current_manifest plain_ext id mem_storage ''t'' d = (Inr (5, m'), d)
        \<and> rows_deleted set_bitmap ''t'' sample_victims (mem_get sample_disk) sample_live (mem_get d) m')"
proof -
  obtain r :: "unit commit_delta result" and t where run: "commit_deletes plain_ext id set_bitmap traced_mem sample_env
      (sample_writer False) sample_victims \<lparr>tr_disk = sample_disk, tr_seen = []\<rparr> = (r, t)"
    by (cases "commit_deletes plain_ext id set_bitmap traced_mem sample_env (sample_writer False) sample_victims
      \<lparr>tr_disk = sample_disk, tr_seen = []\<rparr> :: unit commit_delta result \<times> memory_storage traced") blast
  have w: "w_table (sample_writer False) = ''t''" "\<not> w_wal_mode (sample_writer False)" "ce_txn_id sample_env = ''x''"
    by (simp_all add: sample_writer_def sample_env_def)
  show ?thesis
    using run delete_crash_atomic [OF set_bitmap_laws plain_ext_law w(2) _ _ run, of sample_live sample_catalog] sample_at_rest sample_delete_ready w(1,3) by auto
qed

text \<open>
  C7: A deletion in the direct mode tombstones every unique index with a current generation: the generation of the new
  snapshot loads as the old index without the ids of the deleted rows.
\<close>

theorem delete_tombstones_indexes:
  assumes X: "roaring_laws R" "json_law X" "\<not> w_wal_mode w" "at_rest X R (mem_get s) (w_table w) m"
      "delete_ready X (mem_get s) (w_table w) (ce_txn_id E) m bf data"
    and n: "deleted_ids X (mem_get s) (w_table w) bf (mf_row_groups m) \<noteq> []"
      "n \<in> set (tombstoned_names (w_table w) (mf_index_generations m) (dc_indexes data))"
      "map_of (mf_index_generations m) n = Some ref" "ix_base ref = Some b" "vread (mem_get s) (tpath (w_table w) b) = Inr bytes"
    and ix: "load_index_by_ref X mem_storage (w_table w) n ref s = (Inr (Some ix), s)"
  shows "\<exists>s' m' ref' ix'. commit_deletes X H R mem_storage E w bf s = (Inr (commit_delta_new m m' Delete :: 'prg commit_delta), s')
    \<and> map_of (mf_index_generations m') n = Some ref'
    \<and> load_index_by_ref X mem_storage (w_table w) n ref' s' = (Inr (Some ix'), s')
    \<and> (\<forall>k. bi_lookup ix' k = filter (\<lambda>i. i \<notin> set (deleted_ids X (mem_get s) (w_table w) bf (mf_row_groups m))) (bi_lookup ix k))"
proof -
  let ?td = "\<lparr>td_tombstoned = deleted_ids X (mem_get s) (w_table w) bf (mf_row_groups m), td_adds = []\<rparr>"
  let ?snap = "\<lambda>parent. deletion_snapshot X R (mem_get s) (w_table w) m bf data parent (ce_now E 2)"
  obtain s' parent where run: "commit_deletes X H R mem_storage E w bf s
      = (Inr (commit_delta_new m (?snap parent) Delete :: 'prg commit_delta), s')"
    and fin: "deletion_done X R (mem_get s) (w_table w) (ce_txn_id E) m bf data (?snap parent) (mem_get s')"
    using mem.commit_deletes_direct_run [OF X] by blast
  have ix: "index_of_ref X (mem_get s) (w_table w) n ref = Inr (Some ix)" using ix by (simp add: mem.load_index_by_ref_run)
  have wr: "dels_written X R (mem_get s) (w_table w) m bf data (mem_get s')" using fin by (simp add: deletion_done_def Let_def)
  note d = deletion_index [OF X(2,4,5) wr deletion_done_frame(1) [OF X(4,5) fin] n ix]
  have "bi_lookup (apply_delta ?td ix) k = filter (\<lambda>i. i \<notin> set (td_tombstoned ?td)) (bi_lookup ix k)" for k
    using apply_delta_lookup [OF index_of_ref_wf [OF ix], of ?td k] by (simp add: adds_for_def)
  then show ?thesis
    using run d by (intro exI [of _ s'] exI [of _ "?snap parent"] exI [of _ "add_delta n (mf_sequence m + 1) ref"]
        exI [of _ "apply_delta ?td ix"]) (simp add: mem.load_index_by_ref_run)
qed

lemma sample_deleted_ids: "deleted_ids plain_ext (mem_get sample_disk) ''t'' sample_victims [sample_entry] = [11]"
proof -
  have "flat_ids (rm_row_ids sample_meta) = [10, 11, 12]" by code_simp
  then show ?thesis
    using sample_meta_at by (simp add: deleted_ids_def victim_ids_def sample_victims_def targeted_def Let_def)
      (simp add: sample_entry_def)
qed

theorem delete_tombstones_indexes_witness:
  "\<exists>s' m' ref' ix'. commit_deletes plain_ext id set_bitmap mem_storage sample_env (sample_writer False) sample_victims sample_disk
      = (Inr (commit_delta_new sample_live m' Delete :: unit commit_delta), s')
    \<and> map_of (mf_index_generations m') ''i'' = Some ref'
    \<and> load_index_by_ref plain_ext mem_storage ''t'' ''i'' ref' s' = (Inr (Some ix'), s')
    \<and> (\<forall>k. bi_lookup ix' k = filter (\<lambda>i. i \<notin> {11}) (bi_lookup sample_index k))"
proof -
  have base: "vread (mem_get sample_disk) (tpath ''t'' ''b.json'') = Inr (json_pretty plain_ext (btree_index_value sample_index))"
    using validate_short [of "''b.json''"] by (simp add: vread_def tpath_t plain_piece_def sample_disk_get)
  have "base_of plain_ext (mem_get sample_disk) ''t'' ''i'' sample_ref = Inr (Some sample_index)"
    by (simp add: base_of_def sample_ref_def base parse_index_def json_lawD(4) [OF plain_ext_law]
        btree_index_roundtrip sample_index_wf)
  then have "load_index_by_ref plain_ext mem_storage ''t'' ''i'' sample_ref sample_disk = (Inr (Some sample_index), sample_disk)"
    by (simp add: mem.load_index_by_ref_run index_of_ref_def sample_ref_def)
  then show ?thesis
    using delete_tombstones_indexes [OF set_bitmap_laws plain_ext_law, of "sample_writer False" sample_disk sample_live sample_env
        sample_victims sample_catalog "''i''" sample_ref "''b.json''" _ sample_index id]
      sample_at_rest sample_delete_ready sample_names base sample_deleted_ids
    by (simp add: sample_writer_def sample_env_def sample_ref_def)
qed

text \<open>
  The record of a deletion is sealed over the index generations in the order a hash map yields them, and that order may change when the
  record is read back. One generation has one order.
\<close>

lemma length_fold_update:
  "set ns \<subseteq> dom (map_of gens) \<Longrightarrow> length (fold (\<lambda>n g. AList.update n (f n g) g) ns gens) = length gens"
proof (induction ns arbitrary: gens)
  case (Cons n ns)
  have "length (AList.update n b gens) = length gens" if "n \<in> dom (map_of gens)" for b
    using that by (induction gens) auto
  moreover have "set ns \<subseteq> dom (map_of (AList.update n (f n gens) gens))" using Cons.prems by (auto simp: update_conv')
  ultimately show ?case using Cons by simp
qed simp

lemma deleted_gens_length: "length (deleted_gens X v table m bf data) = length (mf_index_generations m)"
proof -
  have "set (tombstoned_names table (mf_index_generations m) (dc_indexes data)) \<subseteq> dom (map_of (mf_index_generations m))"
    by (auto simp: tombstoned_names_def)
  then show ?thesis by (simp add: deleted_gens_def tombstoned_gens_def length_fold_update)
qed

lemma one_order:
  assumes "mset (H g) = mset g" "length g \<le> 1"
  shows "H g = g"
  using assms by (cases g) auto


lemma plain_ext_hex: "hex_law plain_ext"
proof -
  have "of_nat (of_char (char_of (unat b) :: char)) = b" for b :: u8
    using unat_u8_less [of b] by (simp add: of_char_of)
  then show ?thesis by (simp add: hex_law_def plain_ext_def comp_def)
qed

lemma mem_lose: "mem_get \<lparr>ms_data = filter (\<lambda>(p, _). p \<notin> L) (ms_data s)\<rparr> = without L (mem_get s)"
proof -
  have "map_of (filter (\<lambda>(p, _). p \<notin> L) xs) p = without L (map_of xs) p" for xs :: "(string \<times> bytes) list" and p
    by (induction xs) (auto simp: without_def)
  then show ?thesis by (simp add: fun_eq_iff)
qed


text \<open>
  C33: The bytes in a deferred record are not what the next open uses when a crash left the file torn:
  a file that exists is kept whatever it holds, and the open succeeds with a snapshot that reads it.
\<close>

theorem torn_artifact_kept:
  assumes X: "roaring_laws R" "json_law X" and wal: "w_wal_mode w" "1 < w_wal_checkpoint_threshold w" and hex: "hex_law X"
    and rest: "at_rest X R (mem_get s) (w_table w) m"
    and ready: "delete_ready X (mem_get s) (w_table w) (ce_txn_id E) m bf data"
    and order: "H (deleted_gens X (mem_get s) (w_table w) m bf data) = deleted_gens X (mem_get s) (w_table w) m bf data"
    and e: "e \<in> set (mf_row_groups m)" "targeted bf e"
  shows "\<exists>s' m' s2 e'. commit_deletes X H R mem_storage E w bf s
      = (Inr (commit_delta_new m (after_deletion X R (mem_get s) (w_table w) m bf data) Delete :: 'prg commit_delta), s')
    \<and> load_current_manifest X H mem_storage (w_table w)
        (s'\<lparr>ms_data := AList.update (tpath (w_table w) (new_del_path e)) junk (ms_data s')\<rparr>) = (Inr (mf_sequence m + 1, m'), s2)
    \<and> e' \<in> set (mf_row_groups m') \<and> rg_fragment_id e' = rg_fragment_id e \<and> rg_deletes e' = Some (new_del_path e)
    \<and> mem_get s2 (tpath (w_table w) (new_del_path e)) = Some junk"
proof -
  let ?v = "mem_get s" and ?p = "tpath (w_table w) (new_del_path e)"
  have d: "distinct (map rg_fragment_id (mf_row_groups m))" using rest by (simp add: at_rest_def)
  obtain s' where run: "commit_deletes X H R mem_storage E w bf s
      = (Inr (commit_delta_new m (after_deletion X R ?v (w_table w) m bf data) Delete :: 'prg commit_delta), s')"
    and logged: "deletion_logged X R ?v (w_table w) m bf data (mem_get s')"
    using mem.commit_deletes_deferred_run [where H = H, OF X wal rest ready order] by blast
  let ?m' = "apply_record X m (deletion_record X R ?v (w_table w) m bf data)"
  have "?p \<in> artifact_paths (w_table w) (delete_artifacts X R ?v (w_table w) m bf data)"
    using e by (force simp: artifact_paths_def delete_artifacts_def Let_def)
  then obtain s2 where s2: "load_current_manifest X H mem_storage (w_table w) (s'\<lparr>ms_data := AList.update ?p junk (ms_data s')\<rparr>)
      = (Inr (mf_sequence m + 1, ?m'), s2)" "mem_get s2 ?p = Some junk"
    using mem.load_after_damage [where H = H, OF X(2) hex rest ready order logged,
        of ?p "s'\<lparr>ms_data := AList.update ?p junk (ms_data s')\<rparr>" junk]
    by (auto simp: update_conv')
  have "mf_row_groups ?m' = map (marked R ?v (w_table w) bf) (mf_row_groups m)"
    unfolding deletion_record_def by (rule apply_delete_record(1) [OF d])
  then have "marked R ?v (w_table w) bf e \<in> set (mf_row_groups ?m')" using e(1) by simp
  then show ?thesis
    using run s2 e(2) by (intro exI [of _ s'] exI [of _ ?m'] exI [of _ s2] exI [of _ "marked R ?v (w_table w) bf e"]) simp
qed

theorem torn_artifact_kept_witness:
  "\<exists>s' m' s2 e'. commit_deletes plain_ext id set_bitmap mem_storage sample_env (sample_writer True) sample_victims sample_disk
      = (Inr (commit_delta_new sample_live (after_deletion plain_ext set_bitmap (mem_get sample_disk) ''t'' sample_live
          sample_victims sample_catalog) Delete :: unit commit_delta), s')
    \<and> load_current_manifest plain_ext id mem_storage ''t''
        (s'\<lparr>ms_data := AList.update (tpath ''t'' (new_del_path sample_entry)) [] (ms_data s')\<rparr>) = (Inr (5, m'), s2)
    \<and> e' \<in> set (mf_row_groups m') \<and> rg_fragment_id e' = 7 \<and> rg_deletes e' = Some (new_del_path sample_entry)
    \<and> mem_get s2 (tpath ''t'' (new_del_path sample_entry)) = Some []"
proof -
  have w: "w_table (sample_writer True) = ''t''" "w_wal_mode (sample_writer True)" "1 < w_wal_checkpoint_threshold (sample_writer True)"
    "ce_txn_id sample_env = ''x''" "rg_fragment_id sample_entry = 7" "targeted sample_victims sample_entry"
    by (simp_all add: sample_writer_def sample_env_def sample_entry_def targeted_def sample_victims_def)
  show ?thesis
    using torn_artifact_kept [where 'prg = unit, OF set_bitmap_laws plain_ext_law w(2,3) plain_ext_hex, of sample_disk sample_live sample_env
      sample_victims sample_catalog id sample_entry "[]", unfolded w(1,4,5), OF sample_at_rest sample_delete_ready id_apply _ w(6)]
    by simp
qed

section \<open>Finding the current snapshot\<close>

text \<open>
  C8: A table whose pointer is missing, unreadable or still zero stays available: an open finds the highest
  valid snapshot, writes a pointer to it and changes nothing else, and the next open reads that pointer and goes straight to the
  snapshot.
\<close>

theorem pointer_recovered:
  assumes "plain_piece table" "json_law X" "\<forall>q. pointer_at X (mem_get s) table \<noteq> PointerAt q"
    "manifest_at X (mem_get s) table q = Some m" "q > 0" "\<forall>r. manifest_at X (mem_get s) table r \<noteq> None \<longrightarrow> r \<le> q"
  shows "\<exists>s'. load_checkpoint_manifest X mem_storage table s = (Inr (q, m), s')
    \<and> mem_get s' (tpath table ''_manifest.json'') = Some (json_to_string X (latest_pointer q))
    \<and> pointer_at X (mem_get s') table = PointerAt q
    \<and> load_checkpoint_manifest X mem_storage table s' = (Inr (q, m), s')
    \<and> (\<forall>p. p \<notin> {tpath table ''_manifest.json'', tpath table ''_manifest.json.tmp''} \<longrightarrow> mem_get s' p = mem_get s p)"
proof -
  obtain s' where s': "recover_pointer X mem_storage table (pointer_at X (mem_get s) table) s = (Inr (q, m), s')"
    "mem_get s' = (mem_get s)(tpath table ''_manifest.json.tmp'' := None,
        tpath table ''_manifest.json'' \<mapsto> json_to_string X (latest_pointer q))"
    using mem.recover_pointer_run [OF assms(1,2,4,5)] assms(6) by blast
  have run: "load_checkpoint_manifest X mem_storage table s = (Inr (q, m), s')"
    using assms(3) s'(1) by (cases "pointer_at X (mem_get s) table")
      (simp_all add: load_checkpoint_manifest_def mem.read_pointer_state_run [OF assms(1)] io_bind_run)
  have ptr: "pointer_at X (mem_get s') table = PointerAt q"
    using assms(5) by (simp add: pointer_at_def s'(2) pointer_state_latest [OF assms(2)])
  have "tpath table (manifest_filename q) \<noteq> tpath table ''_manifest.json''"
    "tpath table (manifest_filename q) \<noteq> tpath table ''_manifest.json.tmp''"
    by (rule zones_differ [of table], simp)+
  then have "manifest_at X (mem_get s') table q = Some m"
    using assms(4) manifest_at_cong [of "mem_get s'" table q "mem_get s" X] by (simp add: s'(2))
  with ptr have "load_checkpoint_manifest X mem_storage table s' = (Inr (q, m), s')"
    by (rule mem.load_checkpoint_manifest_run [OF assms(1)])
  then show ?thesis using run s'(2) ptr by (intro exI [of _ s']) simp
qed

theorem pointer_recovered_witness:
  "\<exists>s'. load_checkpoint_manifest plain_ext mem_storage ''t'' (sample_disk\<lparr>ms_data := tl (ms_data sample_disk)\<rparr>)
        = (Inr (4, sample_live), s')
    \<and> mem_get s' (tpath ''t'' ''_manifest.json'') = Some (json_to_string plain_ext (latest_pointer 4))
    \<and> load_checkpoint_manifest plain_ext mem_storage ''t'' s' = (Inr (4, sample_live), s')"
proof -
  define s where "s = sample_disk\<lparr>ms_data := tl (ms_data sample_disk)\<rparr>"
  have get: "mem_get s = (mem_get sample_disk)(''t/_manifest.json'' := None)"
    by (simp add: s_def sample_disk_def tpath_t manifest_4 CATALOG_PATH_def fun_eq_iff)
  have ptr: "pointer_at plain_ext (mem_get s) ''t'' = PointerAbsent" by (simp add: pointer_at_def tpath_t get)
  have "manifest_at plain_ext (mem_get sample_disk) ''t'' 4 = Some sample_live" using sample_at_rest by (simp add: at_rest_def)
  moreover have "manifest_at plain_ext (mem_get s) ''t'' r = manifest_at plain_ext (mem_get sample_disk) ''t'' r" for r
    by (rule manifest_at_cong) (simp add: get tpath_t manifest_filename_def)
  moreover have "r = 4" if r: "manifest_at plain_ext (mem_get sample_disk) ''t'' r \<noteq> None" for r
  proof -
    have "tpath ''t'' (manifest_filename r) \<in> dom (mem_get sample_disk)" using r by (auto simp: manifest_at_def bind_eq_Some_conv)
    moreover have "zone ''t'' (tpath ''t'' (manifest_filename r)) = ''_manifests''" by simp
    ultimately have "tpath ''t'' (manifest_filename r) = tpath ''t'' (manifest_filename 4)"
      unfolding sample_disk_get(6) manifest_4 by (auto simp: tpath_t zone_def CATALOG_PATH_def manifest_filename_def)
    then show ?thesis by (rule manifest_path_inj [OF plain_t])
  qed
  ultimately show ?thesis
    using pointer_recovered [OF plain_t plain_ext_law, of s 4 sample_live] ptr unfolding s_def [symmetric] by auto
qed

end
