(* ===== verification/Float64.thy ===== *)
theory Float64
  imports Json
begin

text \<open>
  What the code uses of Rust's \<^verbatim>\<open>f64\<close>. A value is its 64 bits: a sign, an exponent and a fraction;
  the lower 63 bits, read as a number, order the magnitudes. \<^verbatim>\<open>partial_cmp\<close>, \<^verbatim>\<open>total_cmp\<close> and
  \<^verbatim>\<open>is_finite\<close> are functions of the bits, and \<^verbatim>\<open>as f64\<close> rounds an integer to the nearest
  representable one, ties to even. Shown: the conversion is monotone, and exact up to 53 bits.
\<close>

section \<open>Comparison\<close>

datatype ordering = Less | Equal | Greater

fun ord_rank :: "ordering \<Rightarrow> nat" where
  "ord_rank Less = 0" | "ord_rank Equal = 1" | "ord_rank Greater = 2"

instantiation ordering :: linorder
begin

definition less_eq_ordering :: "ordering \<Rightarrow> ordering \<Rightarrow> bool" where
  "less_eq_ordering a b \<longleftrightarrow> ord_rank a \<le> ord_rank b"

definition less_ordering :: "ordering \<Rightarrow> ordering \<Rightarrow> bool" where
  "less_ordering a b \<longleftrightarrow> ord_rank a < ord_rank b"

instance
proof
  fix x y :: ordering assume "x \<le> y" "y \<le> x"
  then show "x = y" by (cases x; cases y) (simp_all add: less_eq_ordering_def)
qed (auto simp: less_eq_ordering_def less_ordering_def)

end

fun flip :: "ordering \<Rightarrow> ordering" where
  "flip Less = Greater" | "flip Equal = Equal" | "flip Greater = Less"

definition cmp_of :: "'a::linorder \<Rightarrow> 'a \<Rightarrow> ordering" where
  "cmp_of a b = (if a < b then Less else if a = b then Equal else Greater)"

lemma cmp_of_iff [simp]:
  "cmp_of a b = Less \<longleftrightarrow> a < b" "cmp_of a b = Equal \<longleftrightarrow> a = b" "cmp_of a b = Greater \<longleftrightarrow> b < a"
  by (auto simp: cmp_of_def)

lemma cmp_of_flip: "cmp_of b a = flip (cmp_of a b)"
  by (auto simp: cmp_of_def)

lemma cmp_of_mono: "a \<le> b \<Longrightarrow> cmp_of a c \<le> cmp_of b c"
  by (auto simp: cmp_of_def less_eq_ordering_def)

lemma ordering_le [simp]:
  "Less \<le> x" "x \<le> Greater" "x \<le> Less \<longleftrightarrow> x = Less" "Greater \<le> x \<longleftrightarrow> x = Greater"
  "Equal \<le> x \<longleftrightarrow> x \<noteq> Less" "x \<le> Equal \<longleftrightarrow> x \<noteq> Greater"
  by (cases x; simp add: less_eq_ordering_def)+

definition f64_mag :: "u64 \<Rightarrow> nat" where
  "f64_mag b = unat b mod 2 ^ 63"

definition f64_neg :: "u64 \<Rightarrow> bool" where
  "f64_neg b \<longleftrightarrow> 2 ^ 63 \<le> unat b"

definition f64_inf :: nat where
  "f64_inf = 2047 * 2 ^ 52"

definition is_nan :: "u64 \<Rightarrow> bool" where
  "is_nan b \<longleftrightarrow> f64_inf < f64_mag b"

definition is_finite :: "u64 \<Rightarrow> bool" where
  "is_finite b \<longleftrightarrow> f64_mag b < f64_inf"

text \<open>Zeros of both signs are equal; a NaN is comparable with nothing.\<close>

definition f64_key :: "u64 \<Rightarrow> int" where
  "f64_key b = (if f64_neg b then - int (f64_mag b) else int (f64_mag b))"

definition f64_partial_cmp :: "u64 \<Rightarrow> u64 \<Rightarrow> ordering option" where
  "f64_partial_cmp a b = (if is_nan a \<or> is_nan b then None else Some (cmp_of (f64_key a) (f64_key b)))"

text \<open>The total order: the sign of a zero counts, and NaNs are outermost.\<close>

definition total_key :: "u64 \<Rightarrow> int" where
  "total_key b = (if f64_neg b then - int (f64_mag b) - 1 else int (f64_mag b))"

lemma total_key_inj: "total_key a = total_key b \<Longrightarrow> a = b"
proof -
  assume "total_key a = total_key b"
  then have "f64_neg a = f64_neg b" "f64_mag a = f64_mag b" by (auto simp: total_key_def split: if_splits)
  moreover have "unat c = f64_mag c + (if f64_neg c then 2 ^ 63 else 0)" for c :: u64
  proof (cases "f64_neg c")
    case True
    then have "unat c mod 2 ^ 63 = unat c - 2 ^ 63"
      using unat_u64_less [of c] le_mod_geq [of "2 ^ 63" "unat c"] by (simp add: f64_neg_def)
    then show ?thesis using True by (simp add: f64_mag_def f64_neg_def)
  qed (simp add: f64_mag_def f64_neg_def)
  ultimately show ?thesis by (simp add: word_unat_eq_iff)
qed

lemma key_le_of_total: "total_key a \<le> total_key b \<Longrightarrow> f64_key a \<le> f64_key b"
  by (auto simp: total_key_def f64_key_def split: if_splits)

section \<open>Equality of JSON scalars\<close>

text \<open>\<^verbatim>\<open>serde_json\<close> compares floats as numbers; of the other values two are equal when they are the same.\<close>

fun value_eq :: "json \<Rightarrow> json \<Rightarrow> bool" where
  "value_eq (JNum (Float a)) (JNum (Float b)) = (f64_partial_cmp a b = Some Equal)"
| "value_eq a b = (a = b)"

section \<open>Conversion from integers\<close>

fun bit_len :: "nat \<Rightarrow> nat" where
  "bit_len n = (if n = 0 then 0 else Suc (bit_len (n div 2)))"

declare bit_len.simps [simp del]

text \<open>The quotient by \<open>2 ^ s\<close>, rounded to nearest, ties to even.\<close>

definition round_even :: "nat \<Rightarrow> nat \<Rightarrow> nat" where
  "round_even s n =
     (let q = n div 2 ^ s; r = n mod 2 ^ s
      in if 2 ^ s < 2 * r \<or> 2 * r = 2 ^ s \<and> odd q then q + 1 else q)"

text \<open>The significand has 53 bits, or is \<open>2 ^ 53\<close> after rounding, which the exponent absorbs.\<close>

definition significand :: "nat \<Rightarrow> nat" where
  "significand n =
     (let k = bit_len n in if k \<le> 53 then n * 2 ^ (53 - k) else round_even (k - 53) n)"

definition nat_as_f64 :: "nat \<Rightarrow> nat" where
  "nat_as_f64 n = (if n = 0 then 0 else (bit_len n + 1021) * 2 ^ 52 + significand n)"

definition int_as_f64 :: "int \<Rightarrow> u64" where
  "int_as_f64 i = (if i < 0 then of_nat (2 ^ 63 + nat_as_f64 (nat (- i))) else of_nat (nat_as_f64 (nat i)))"

section \<open>The conversion is monotone\<close>

lemma bit_len_bounds: "n \<noteq> 0 \<Longrightarrow> 2 ^ (bit_len n - 1) \<le> n \<and> n < 2 ^ bit_len n"
proof (induction n rule: bit_len.induct)
  case (1 n)
  show ?case
  proof (cases "n div 2 = 0")
    case True
    then have "n = 1" using 1(2) by (cases n) auto
    moreover have "bit_len 1 = 1" by (simp add: bit_len.simps [of "Suc 0"] bit_len.simps [of 0])
    ultimately show ?thesis by simp
  next
    case False
    let ?k = "bit_len (n div 2)"
    have k: "bit_len n = Suc ?k" using 1(2) by (simp add: bit_len.simps [of n])
    have h: "2 ^ (?k - 1) \<le> n div 2" "n div 2 < 2 ^ ?k" using 1(1) [OF 1(2) False] by auto
    have "0 < ?k" using False by (simp add: bit_len.simps [of "n div 2"])
    then have "2 ^ ?k = 2 * (2 :: nat) ^ (?k - 1)" by (cases ?k) simp_all
    then show ?thesis using h k by simp linarith
  qed
qed

lemma bit_len_less: "n < 2 ^ k \<Longrightarrow> bit_len n \<le> k"
proof (rule ccontr)
  assume n: "n < 2 ^ k" and "\<not> bit_len n \<le> k"
  moreover from this have "n \<noteq> 0" by (intro notI) (simp add: bit_len.simps [of 0])
  ultimately have "n \<noteq> 0" "k \<le> bit_len n - 1" by simp_all
  then show False using n bit_len_bounds [of n] power_increasing [of k "bit_len n - 1" "2 :: nat"] by linarith
qed

lemma bit_len_mono: "n \<le> m \<Longrightarrow> bit_len n \<le> bit_len m"
  using bit_len_less [of n "bit_len m"] bit_len_bounds [of m] by (cases "m = 0") (auto simp: bit_len.simps [of 0])

lemma bit_len_eq:
  assumes "2 ^ k \<le> n" "n < 2 ^ (k + 1)"
  shows "bit_len n = k + 1"
proof (rule antisym)
  show "bit_len n \<le> k + 1" by (rule bit_len_less [OF assms(2)])
  show "k + 1 \<le> bit_len n"
  proof (rule ccontr)
    assume "\<not> k + 1 \<le> bit_len n"
    moreover have "n \<noteq> 0" using assms(1) by (intro notI) simp
    ultimately have "2 ^ bit_len n \<le> (2 :: nat) ^ k" "n < 2 ^ bit_len n"
      using bit_len_bounds [of n] by (simp_all add: power_increasing)
    then show False using assms(1) by linarith
  qed
qed

lemma round_even_between: "n div 2 ^ s \<le> round_even s n" "round_even s n \<le> n div 2 ^ s + 1"
  by (simp_all add: round_even_def Let_def)

lemma round_even_mono: "n \<le> m \<Longrightarrow> round_even s n \<le> round_even s m"
proof (cases "n div 2 ^ s < m div 2 ^ s")
  case True
  then show ?thesis using round_even_between [of s n] round_even_between [of m s] by simp
next
  case False
  moreover assume le: "n \<le> m"
  ultimately have q: "n div 2 ^ s = m div 2 ^ s" using div_le_mono [OF le, of "2 ^ s"] by simp
  have "n mod 2 ^ s \<le> m mod 2 ^ s"
    using le q div_mult_mod_eq [of n "2 ^ s"] div_mult_mod_eq [of m "2 ^ s"] by simp
  then show ?thesis using q by (auto simp: round_even_def Let_def)
qed

lemma significand_bounds:
  assumes "n \<noteq> 0"
  shows "2 ^ 52 \<le> significand n" "significand n \<le> 2 ^ 53"
proof -
  let ?k = "bit_len n"
  note b = bit_len_bounds [OF assms]
  have k0: "0 < ?k" using assms by (simp add: bit_len.simps [of n])
  have "2 ^ 52 \<le> significand n \<and> significand n \<le> 2 ^ 53"
  proof (cases "?k \<le> 53")
    case True
    have "2 ^ (?k - 1) * 2 ^ (53 - ?k) = (2 :: nat) ^ 52" "2 ^ ?k * 2 ^ (53 - ?k) = (2 :: nat) ^ 53"
      using True k0 by (simp_all add: power_add [symmetric])
    then show ?thesis
      using True b mult_right_mono [of "2 ^ (?k - 1)" n "2 ^ (53 - ?k)"] mult_right_mono [of n "2 ^ ?k" "2 ^ (53 - ?k)"]
      by (simp add: significand_def Let_def)
  next
    case False
    have e: "?k - 1 = 52 + (?k - 53)" "?k = 53 + (?k - 53)" using False by simp_all
    have p: "2 ^ (?k - 1) = (2 :: nat) ^ 52 * 2 ^ (?k - 53)" "2 ^ ?k = (2 :: nat) ^ 53 * 2 ^ (?k - 53)"
      using arg_cong [OF e(1), of "power (2 :: nat)"] arg_cong [OF e(2), of "power (2 :: nat)"]
      unfolding power_add by simp_all
    have "2 ^ 52 \<le> n div 2 ^ (?k - 53)" using b p(1) div_le_mono [of "2 ^ 52 * 2 ^ (?k - 53)" n "2 ^ (?k - 53)"] by simp
    moreover have "n div 2 ^ (?k - 53) < 2 ^ 53" using b p(2) by (simp add: less_mult_imp_div_less)
    ultimately show ?thesis
      using False round_even_between [of n "?k - 53"] round_even_between [of "?k - 53" n]
      by (simp add: significand_def Let_def)
  qed
  then show "2 ^ 52 \<le> significand n" "significand n \<le> 2 ^ 53" by simp_all
qed

lemma nat_as_f64_mono: "n \<le> m \<Longrightarrow> nat_as_f64 n \<le> nat_as_f64 m"
proof (cases "n = 0")
  case False
  moreover assume le: "n \<le> m"
  ultimately have nz: "n \<noteq> 0" "m \<noteq> 0" by simp_all
  show ?thesis
  proof (cases "bit_len n = bit_len m")
    case True
    then have "significand n \<le> significand m" using le by (simp add: significand_def Let_def round_even_mono)
    then show ?thesis using True nz by (simp add: nat_as_f64_def)
  next
    case False
    then have "bit_len n + 1 \<le> bit_len m" using bit_len_mono [OF le] by simp
    then have "(bit_len n + 1 + 1021) * 2 ^ 52 \<le> (bit_len m + 1021) * 2 ^ 52" by simp
    then show ?thesis
      using nz significand_bounds(2) [OF nz(1)] significand_bounds(1) [OF nz(2)] by (simp add: nat_as_f64_def)
  qed
qed (simp add: nat_as_f64_def)

lemma nat_as_f64_pos: "n \<noteq> 0 \<Longrightarrow> 0 < nat_as_f64 n"
  by (simp add: nat_as_f64_def)

text \<open>Numbers of at most 128 bits stay far below infinity.\<close>

lemma nat_as_f64_less:
  assumes "n < 2 ^ 128"
  shows "nat_as_f64 n < f64_inf"
proof (cases "n = 0")
  case False
  have "bit_len n \<le> 128" by (rule bit_len_less [OF assms])
  then have "(bit_len n + 1021) * 2 ^ 52 \<le> (128 + 1021) * 2 ^ 52" by simp
  then show ?thesis using False significand_bounds(2) [OF False] by (simp add: nat_as_f64_def f64_inf_def)
qed (simp add: nat_as_f64_def f64_inf_def)

lemma int_as_f64_parts:
  assumes "\<bar>i\<bar> < 2 ^ 128"
  shows "f64_key (int_as_f64 i) = (if i < 0 then - int (nat_as_f64 (nat (- i))) else int (nat_as_f64 (nat i)))"
    "\<not> is_nan (int_as_f64 i)" "is_finite (int_as_f64 i)"
proof -
  let ?n = "nat \<bar>i\<bar>"
  have n: "nat_as_f64 ?n < f64_inf" using assms by (intro nat_as_f64_less) (simp add: nat_less_iff)
  then have lt: "nat_as_f64 ?n < 2 ^ 63" by (simp add: f64_inf_def)
  have w: "unat (of_nat k :: u64) = k" if "k < 2 ^ 64" for k
    using that by (simp add: unat_of_nat)
  have u: "unat (int_as_f64 i) = (if i < 0 then 2 ^ 63 else 0) + nat_as_f64 ?n"
    using lt w [of "2 ^ 63 + nat_as_f64 ?n"] w [of "nat_as_f64 ?n"] by (simp add: int_as_f64_def abs_if del: of_nat_add of_nat_power split: if_splits)
  then have mag: "f64_mag (int_as_f64 i) = nat_as_f64 ?n" and neg: "f64_neg (int_as_f64 i) \<longleftrightarrow> i < 0"
    using lt by (auto simp: f64_mag_def f64_neg_def abs_if split: if_splits)
  show "f64_key (int_as_f64 i) = (if i < 0 then - int (nat_as_f64 (nat (- i))) else int (nat_as_f64 (nat i)))"
    by (simp add: f64_key_def mag neg)
  show "\<not> is_nan (int_as_f64 i)" "is_finite (int_as_f64 i)" using n mag by (simp_all add: is_nan_def is_finite_def)
qed

lemma int_as_f64_mono:
  assumes "i \<le> j" "\<bar>i\<bar> < 2 ^ 128" "\<bar>j\<bar> < 2 ^ 128"
  shows "f64_key (int_as_f64 i) \<le> f64_key (int_as_f64 j)"
  using assms(1) nat_as_f64_mono [of "nat (- j)" "nat (- i)"] nat_as_f64_mono [of "nat i" "nat j"]
  unfolding int_as_f64_parts(1) [OF assms(2)] int_as_f64_parts(1) [OF assms(3)] by auto

end
