(* ===== verification/Row_Batch.thy ===== *)
theory Row_Batch
  imports Float64 Schema Row_Group_Meta "HOL-Library.AList"
begin

text \<open>
  Record batches and what the writer records about them: the statistics of a column and the
  metadata and partition values of a row group (\<^verbatim>\<open>crates/icefalldb-core/src/writer.rs\<close>).

  An Arrow array is its type and the list of its cells, \<open>None\<close> for a null. Integers are unbounded
  here and \<open>column_typed\<close> bounds them by the type; a \<^verbatim>\<open>Float32\<close> cell is the \<^verbatim>\<open>f64\<close> it widens to. The
  compute kernels of the \<^verbatim>\<open>arrow\<close> crate are the parameter \<open>K\<close>, with what their documentation
  says as \<open>kernels_law\<close>; the Parquet footer is the parameter \<open>footer\<close>.
\<close>

section \<open>Arrays and batches\<close>

datatype arrow_column =
    IntColumn data_type "int option list"
  | FloatColumn data_type "u64 option list"
  | TextColumn data_type "string option list"
  | BoolColumn "bool option list"
  | OtherColumn data_type "bool list"

record batch =
  b_rows :: nat
  b_columns :: "(string \<times> arrow_column) list"

fun ac_type :: "arrow_column \<Rightarrow> data_type" where
  "ac_type (IntColumn t vs) = t"
| "ac_type (FloatColumn t vs) = t"
| "ac_type (TextColumn t vs) = t"
| "ac_type (BoolColumn vs) = DBoolean"
| "ac_type (OtherColumn t valid) = t"

fun ac_valid :: "arrow_column \<Rightarrow> bool list" where
  "ac_valid (IntColumn t vs) = map (\<lambda>v. v \<noteq> None) vs"
| "ac_valid (FloatColumn t vs) = map (\<lambda>v. v \<noteq> None) vs"
| "ac_valid (TextColumn t vs) = map (\<lambda>v. v \<noteq> None) vs"
| "ac_valid (BoolColumn vs) = map (\<lambda>v. v \<noteq> None) vs"
| "ac_valid (OtherColumn t valid) = valid"

definition ac_len :: "arrow_column \<Rightarrow> nat" where
  "ac_len c = length (ac_valid c)"

definition ac_null_count :: "arrow_column \<Rightarrow> nat" where
  "ac_null_count c = length (filter Not (ac_valid c))"

definition int_types :: "data_type list" where
  "int_types = [DInt8, DInt16, DInt32, DInt64, DUInt8, DUInt16, DUInt32, DUInt64]"

text \<open>The least value and the bound above of an integer type.\<close>

fun int_bounds :: "data_type \<Rightarrow> int \<times> int" where
  "int_bounds DInt8 = (- (2 ^ 7), 2 ^ 7)"
| "int_bounds DInt16 = (- (2 ^ 15), 2 ^ 15)"
| "int_bounds DInt32 = (- (2 ^ 31), 2 ^ 31)"
| "int_bounds DUInt8 = (0, 2 ^ 8)"
| "int_bounds DUInt16 = (0, 2 ^ 16)"
| "int_bounds DUInt32 = (0, 2 ^ 32)"
| "int_bounds DUInt64 = (0, 2 ^ 64)"
| "int_bounds _ = (- (2 ^ 63), 2 ^ 63)"

definition in_type :: "data_type \<Rightarrow> int \<Rightarrow> bool" where
  "in_type t i \<longleftrightarrow> fst (int_bounds t) \<le> i \<and> i < snd (int_bounds t)"

fun column_typed :: "arrow_column \<Rightarrow> bool" where
  "column_typed (IntColumn t vs) =
     ((t \<in> set int_types \<or> (\<exists>tz. t = DTimestampUs tz)) \<and> (\<forall>i. Some i \<in> set vs \<longrightarrow> in_type t i))"
| "column_typed (FloatColumn t vs) = (t = DFloat32 \<or> t = DFloat64)"
| "column_typed (TextColumn t vs) = (t = DUtf8 \<or> t = DLargeUtf8)"
| "column_typed (BoolColumn vs) = True"
| "column_typed (OtherColumn t valid) =
     (t \<notin> set int_types \<union> {DFloat32, DFloat64, DUtf8, DLargeUtf8, DBoolean} \<and> (\<nexists>tz. t = DTimestampUs tz))"

text \<open>A \<^verbatim>\<open>RecordBatch\<close> checks on construction that its arrays are as long as it says.\<close>

definition batch_wf :: "batch \<Rightarrow> bool" where
  "batch_wf b \<longleftrightarrow> (\<forall>(n, c) \<in> set (b_columns b). column_typed c \<and> ac_len c = b_rows b)"

definition column_by_name :: "batch \<Rightarrow> string \<Rightarrow> arrow_column option" where
  "column_by_name b name = map_of (b_columns b) name"

section \<open>Compute kernels\<close>

record arrow_kernels =
  k_min_int :: "int option list \<Rightarrow> int option"
  k_max_int :: "int option list \<Rightarrow> int option"
  k_min_bool :: "bool option list \<Rightarrow> bool option"
  k_max_bool :: "bool option list \<Rightarrow> bool option"
  k_min_text :: "string option list \<Rightarrow> string option"
  k_max_text :: "string option list \<Rightarrow> string option"
  k_min_f64 :: "u64 option list \<Rightarrow> u64 option"
  k_max_f64 :: "u64 option list \<Rightarrow> u64 option"

text \<open>A kernel picks an extremal valid cell, and has none to pick only when all are null.\<close>

definition picks :: "('a \<Rightarrow> 'a \<Rightarrow> bool) \<Rightarrow> ('a option list \<Rightarrow> 'a option) \<Rightarrow> bool" where
  "picks le k \<longleftrightarrow> (\<forall>vs. case k vs of
      None \<Rightarrow> (\<forall>v. Some v \<notin> set vs)
    | Some m \<Rightarrow> Some m \<in> set vs \<and> (\<forall>v. Some v \<in> set vs \<longrightarrow> le m v))"

definition kernels_law :: "arrow_kernels \<Rightarrow> bool" where
  "kernels_law K \<longleftrightarrow>
     picks (\<le>) (k_min_int K) \<and> picks (\<ge>) (k_max_int K) \<and>
     picks (\<le>) (k_min_bool K) \<and> picks (\<ge>) (k_max_bool K) \<and>
     picks (\<le>) (k_min_text K) \<and> picks (\<ge>) (k_max_text K) \<and>
     picks (\<lambda>a b. total_key a \<le> total_key b) (k_min_f64 K) \<and>
     picks (\<lambda>a b. total_key b \<le> total_key a) (k_max_f64 K)"

section \<open>Column statistics\<close>

text \<open>\<^verbatim>\<open>Value::from\<close> of a number; a float that JSON cannot write becomes null.\<close>

definition f64_value :: "u64 \<Rightarrow> json" where
  "f64_value v = (if is_finite v then JNum (Float v) else JNull)"

definition canonicalize_json_value :: "ext \<Rightarrow> json \<Rightarrow> json result" where
  "canonicalize_json_value X v = ok_or (json_parse X (json_to_string X v)) Panic"

fun best_by :: "(u64 \<Rightarrow> u64 \<Rightarrow> bool) \<Rightarrow> u64 list \<Rightarrow> u64 option" where
  "best_by better [] = None"
| "best_by better (v # vs) = Some (foldl (\<lambda>a b. if better b a then b else a) v vs)"

definition opt_result :: "('a \<Rightarrow> 'b result) \<Rightarrow> 'a option \<Rightarrow> 'b option result" where
  "opt_result f x = (case x of None \<Rightarrow> Inr None | Some a \<Rightarrow> map_sum id Some (f a))"

definition finite_values :: "u64 option list \<Rightarrow> u64 list" where
  "finite_values vs = filter is_finite (List.map_filter id vs)"

definition finite_float_min_max :: "ext \<Rightarrow> u64 option list \<Rightarrow> (json option \<times> json option) result" where
  "finite_float_min_max X vs =
     (let values = finite_values vs
      in res_bind (opt_result (canonicalize_json_value X \<circ> f64_value)
           (best_by (\<lambda>b a. total_key b < total_key a) values)) (\<lambda>mn.
         res_bind (opt_result (canonicalize_json_value X \<circ> f64_value)
           (best_by (\<lambda>b a. total_key a \<le> total_key b) values)) (\<lambda>mx.
         Inr (mn, mx))))"

definition float_min_max :: "ext \<Rightarrow> arrow_kernels \<Rightarrow> u64 option list \<Rightarrow> (json option \<times> json option) result" where
  "float_min_max X K vs =
     (let mn = k_min_f64 K vs; mx = k_max_f64 K vs
      in if (\<exists>v \<in> set_option mn. \<not> is_finite v) \<or> (\<exists>v \<in> set_option mx. \<not> is_finite v)
         then finite_float_min_max X vs
         else res_bind (opt_result (canonicalize_json_value X \<circ> f64_value) mn) (\<lambda>mn.
              res_bind (opt_result (canonicalize_json_value X \<circ> f64_value) mx) (\<lambda>mx.
              Inr (mn, mx))))"

fun compute_min_max :: "ext \<Rightarrow> arrow_kernels \<Rightarrow> arrow_column \<Rightarrow> (json option \<times> json option) result" where
  "compute_min_max X K (BoolColumn vs) =
     Inr (map_option JBool (k_min_bool K vs), map_option JBool (k_max_bool K vs))"
| "compute_min_max X K (IntColumn t vs) =
     (if t \<in> set int_types \<or> t = DTimestampUs None
      then Inr (map_option jint (k_min_int K vs), map_option jint (k_max_int K vs))
      else Inr (None, None))"
| "compute_min_max X K (FloatColumn t vs) =
     (if t = DFloat32 then finite_float_min_max X vs
      else if t = DFloat64 then float_min_max X K vs
      else Inr (None, None))"
| "compute_min_max X K (TextColumn t vs) =
     (if t = DUtf8 \<or> t = DLargeUtf8
      then Inr (map_option JStr (k_min_text K vs), map_option JStr (k_max_text K vs))
      else Inr (None, None))"
| "compute_min_max X K (OtherColumn t valid) = Inr (None, None)"

section \<open>Row-group metadata\<close>

text \<open>Of a Parquet footer: the names of the leaf columns, and per row group their chunks.\<close>

record column_chunk =
  ch_dictionary_page_offset :: "int option"
  ch_data_page_offset :: int
  ch_compressed_size :: int

record parquet_metadata =
  pm_leaves :: "string list"
  pm_row_groups :: "column_chunk list list"

definition chunk_offset :: "column_chunk \<Rightarrow> column_chunk_offset" where
  "chunk_offset c =
     (let data = max (ch_data_page_offset c) 0
      in \<lparr>cc_offset = word_of_int (case ch_dictionary_page_offset c of None \<Rightarrow> data | Some o' \<Rightarrow> min o' data),
          cc_length = word_of_int (max (ch_compressed_size c) 0)\<rparr>)"

fun column_chunks ::
  "string list \<Rightarrow> column_chunk list \<Rightarrow> column list \<Rightarrow> (string \<times> column_chunk_offset) list \<Rightarrow>
   (string \<times> column_chunk_offset) list option result" where
  "column_chunks leaves rg [] acc = Inr (Some acc)"
| "column_chunks leaves rg (c # cs) acc =
     (if col_name c \<notin> set leaves then Inr None
      else let i = length (takeWhile (\<lambda>n. n \<noteq> col_name c) leaves)
           in if i < length rg
              then column_chunks leaves rg cs (AList.update (col_name c) (chunk_offset (rg ! i)) acc)
              else Inl Panic)"

definition compute_column_offsets ::
  "parquet_metadata \<Rightarrow> table_schema \<Rightarrow> (string \<times> column_chunk_offset) list option result" where
  "compute_column_offsets pm schema =
     (case pm_row_groups pm of
        [] \<Rightarrow> Inr None
      | rg # _ \<Rightarrow> column_chunks (pm_leaves pm) rg (sc_columns schema) [])"

fun column_statistics ::
  "ext \<Rightarrow> arrow_kernels \<Rightarrow> batch \<Rightarrow> string \<Rightarrow> column list \<Rightarrow> (string \<times> column_stats) list \<Rightarrow>
   (string \<times> column_stats) list result" where
  "column_statistics X K b path [] acc = Inr acc"
| "column_statistics X K b path (c # cs) acc =
     (case column_by_name b (col_name c) of
        None \<Rightarrow> Inl (SchemaMismatch (col_name c) ''found in batch'' path)
      | Some arr \<Rightarrow>
          res_bind (compute_min_max X K arr) (\<lambda>(mn, mx).
            column_statistics X K b path cs
              (AList.update (col_name c)
                 \<lparr>cs_min = mn, cs_max = mx, cs_nulls = of_nat (ac_null_count arr)\<rparr> acc)))"

definition compute_row_group_meta ::
  "ext \<Rightarrow> arrow_kernels \<Rightarrow> (bytes \<Rightarrow> parquet_metadata option) \<Rightarrow> string \<Rightarrow> u64 \<Rightarrow> batch \<Rightarrow> table_schema \<Rightarrow>
   bytes \<Rightarrow> string \<Rightarrow> row_id_segment list \<Rightarrow> row_group_meta result" where
  "compute_row_group_meta X K footer rg_id schema_id b schema parquet_bytes path row_ids =
     res_bind (column_statistics X K b path (sc_columns schema) []) (\<lambda>columns.
     res_bind (case footer parquet_bytes of None \<Rightarrow> Inr None | Some pm \<Rightarrow> compute_column_offsets pm schema) (\<lambda>offs.
       Inr (snd (rgm_compute_checksum X parquet_bytes
         \<lparr>rm_row_group = rg_id, rm_schema_id = schema_id, rm_rows = of_nat (b_rows b), rm_columns = columns,
          rm_column_offsets = offs, rm_sort = sc_sort schema, rm_row_ids = row_ids,
          rm_checksum = [], rm_meta_checksum = []\<rparr>))))"

section \<open>Partition values\<close>

text \<open>The cell of a row, as the writer turns it into JSON; the type decides whether it can.\<close>

fun cell_values :: "arrow_column \<Rightarrow> string \<Rightarrow> json option list result" where
  "cell_values (BoolColumn vs) path = Inr (map (map_option JBool) vs)"
| "cell_values (IntColumn t vs) path =
     (if t \<in> set int_types \<or> t = DTimestampUs None \<or> (\<forall>v \<in> set vs. v = None)
      then Inr (map (map_option jint) vs)
      else Inl (SchemaMismatch ''arrow type'' ''supported for partition values'' path))"
| "cell_values (FloatColumn t vs) path =
     Inr (map (\<lambda>v. case v of None \<Rightarrow> None | Some x \<Rightarrow> if is_finite x then Some (f64_value x) else None) vs)"
| "cell_values (TextColumn t vs) path = Inr (map (map_option JStr) vs)"
| "cell_values (OtherColumn t valid) path =
     (if \<exists>v \<in> set valid. v then Inl (SchemaMismatch ''arrow type'' ''supported for partition values'' path)
      else Inr (map (\<lambda>_. None) valid))"

definition insert_value :: "json list \<Rightarrow> json \<Rightarrow> json list" where
  "insert_value acc v = (if \<exists>w \<in> set acc. value_eq v w then acc else acc @ [v])"

definition distinct_non_null_values :: "arrow_column \<Rightarrow> string \<Rightarrow> json list result" where
  "distinct_non_null_values arr path =
     map_sum id (\<lambda>vs. foldl insert_value [] (List.map_filter id vs)) (cell_values arr path)"

fun partition_values_of ::
  "batch \<Rightarrow> string \<Rightarrow> string list \<Rightarrow> (string \<times> json) list \<Rightarrow> (string \<times> json) list option result" where
  "partition_values_of b path [] acc = Inr (if acc = [] then None else Some acc)"
| "partition_values_of b path (c # cs) acc =
     (case column_by_name b c of
        None \<Rightarrow> Inl (SchemaMismatch c ''found in batch'' path)
      | Some arr \<Rightarrow> res_bind (distinct_non_null_values arr path) (\<lambda>vs.
          case vs of [v] \<Rightarrow> partition_values_of b path cs (AList.update c v acc) | _ \<Rightarrow> Inr None))"

definition compute_partition_values :: "batch \<Rightarrow> string list \<Rightarrow> string \<Rightarrow> (string \<times> json) list option result" where
  "compute_partition_values b partition_by path = partition_values_of b path partition_by []"

section \<open>What is recorded about a column\<close>

text \<open>The statistics of a name are those of the batch's column of that name.\<close>

definition stats_of :: "ext \<Rightarrow> arrow_kernels \<Rightarrow> batch \<Rightarrow> string \<Rightarrow> column_stats \<Rightarrow> bool" where
  "stats_of X K b name st \<longleftrightarrow> (\<exists>arr. column_by_name b name = Some arr
     \<and> compute_min_max X K arr = Inr (cs_min st, cs_max st) \<and> cs_nulls st = of_nat (ac_null_count arr))"

lemma column_statistics_of:
  assumes "column_statistics X K b path cs acc = Inr columns"
    "\<And>n st. map_of acc n = Some st \<Longrightarrow> stats_of X K b n st" "map_of columns name = Some st"
  shows "stats_of X K b name st"
  using assms
proof (induction cs arbitrary: acc)
  case (Cons c cs)
  obtain arr mn mx where arr: "column_by_name b (col_name c) = Some arr" "compute_min_max X K arr = Inr (mn, mx)"
    and rest: "column_statistics X K b path cs (AList.update (col_name c)
        \<lparr>cs_min = mn, cs_max = mx, cs_nulls = of_nat (ac_null_count arr)\<rparr> acc) = Inr columns"
    using Cons.prems(1) by (auto simp: res_bind_eq_Inr split: option.splits)
  show ?case
    by (rule Cons.IH [OF rest _ Cons.prems(3)])
      (use Cons.prems(2) arr in \<open>auto simp: update_conv' stats_of_def split: if_splits\<close>)
qed simp

lemma row_group_meta_stats:
  assumes "compute_row_group_meta X K footer rg sid b schema bs path ids = Inr m"
  shows "map_of (rm_columns m) name = Some st \<Longrightarrow> stats_of X K b name st" "rm_rows m = of_nat (b_rows b)"
    "rm_row_ids m = ids"
  using assms column_statistics_of [of X K b path "sc_columns schema" "[]" "rm_columns m" name st]
  by (auto simp: compute_row_group_meta_def res_bind_eq_Inr rgm_compute_checksum_def compute_meta_checksum_def Let_def)

lemma picksD:
  assumes "picks le k" "k vs = Some m"
  shows "Some m \<in> set vs" "Some v \<in> set vs \<Longrightarrow> le m v"
proof -
  have "Some m \<in> set vs \<and> (\<forall>v. Some v \<in> set vs \<longrightarrow> le m v)"
    using spec [OF assms(1) [unfolded picks_def], of vs] assms(2) by simp
  then show "Some m \<in> set vs" "Some v \<in> set vs \<Longrightarrow> le m v" by simp_all
qed

end
