(* ===== verification/Scan_Prune.thy ===== *)
theory Scan_Prune
  imports Row_Batch
begin

text \<open>
  Pruning of scan plans, \<^verbatim>\<open>crates/icefalldb-core/src/reader.rs\<close>: predicates, their comparison with the
  statistics and partition values of a row group, \<^verbatim>\<open>ScanPlan::prune\<close>, the two \<^verbatim>\<open>retain\<close>
  functions and the coverage tests of the module \<^verbatim>\<open>predicate_eval\<close>; and how a query literal becomes a
  predicate literal (\<^verbatim>\<open>crates/icefalldb-query/src/predicate.rs\<close>).
\<close>

section \<open>Predicates\<close>

datatype literal = LInt64 int | LFloat64 u64 | LString string | LBool bool

fun to_value_lit :: "literal \<Rightarrow> json" where
  "to_value_lit (LInt64 v) = jint v"
| "to_value_lit (LFloat64 v) = f64_value v"
| "to_value_lit (LString v) = JStr v"
| "to_value_lit (LBool v) = JBool v"

datatype predicate =
    PEq string literal
  | PLt string literal
  | PLte string literal
  | PGt string literal
  | PGte string literal
  | PInList string "literal list"
  | PIsNull string
  | PIsNotNull string

record 'agg planned_row_group =
  pr_data_path :: string
  pr_meta_path :: string
  pr_meta :: row_group_meta
  pr_partition_values :: "(string \<times> json) list option"
  pr_snapshot :: u64
  pr_fallback :: bool
  pr_deletes :: "string option"
  pr_deleted_count :: u64
  pr_fragment_id :: u64
  pr_agg_state :: "'agg option"

record 'agg scan_plan =
  sp_table :: string
  sp_schema :: table_schema
  sp_row_groups :: "'agg planned_row_group list"

section \<open>Comparing values\<close>

fun as_i64 :: "jnumber \<Rightarrow> int option" where
  "as_i64 (PosInt n) = (if uint n < 2 ^ 63 then Some (uint n) else None)"
| "as_i64 (NegInt n) = Some (sint n)"
| "as_i64 (Float b) = None"

fun as_f64 :: "jnumber \<Rightarrow> u64" where
  "as_f64 (PosInt n) = int_as_f64 (uint n)"
| "as_f64 (NegInt n) = int_as_f64 (sint n)"
| "as_f64 (Float b) = b"

fun json_type_name :: "json \<Rightarrow> string" where
  "json_type_name JNull = ''null''"
| "json_type_name (JBool _) = ''bool''"
| "json_type_name (JNum _) = ''number''"
| "json_type_name (JStr _) = ''string''"
| "json_type_name (JArr _) = ''array''"
| "json_type_name (JObj _) = ''object''"

fun compare_values :: "json \<Rightarrow> json \<Rightarrow> ordering option result" where
  "compare_values (JNum a) (JNum b) =
     (case (as_i64 a, as_i64 b) of
        (Some ia, Some ib) \<Rightarrow> Inr (Some (cmp_of ia ib))
      | _ \<Rightarrow> Inr (f64_partial_cmp (as_f64 a) (as_f64 b)))"
| "compare_values (JStr a) (JStr b) = Inr (Some (cmp_of a b))"
| "compare_values (JBool a) (JBool b) = Inr (Some (cmp_of a b))"
| "compare_values a b = Inl (TypeNotSupported
     (''cannot compare '' @ json_type_name a @ '' literal with '' @ json_type_name b @ '' statistics''))"

definition ordered :: "(ordering \<Rightarrow> bool) \<Rightarrow> json \<Rightarrow> json \<Rightarrow> bool result" where
  "ordered P a b = map_sum id (\<lambda>c. case c of None \<Rightarrow> False | Some o' \<Rightarrow> P o') (compare_values a b)"

definition value_lt :: "json \<Rightarrow> json \<Rightarrow> bool result" where
  "value_lt = ordered (\<lambda>o'. o' = Less)"

definition value_le :: "json \<Rightarrow> json \<Rightarrow> bool result" where
  "value_le = ordered (\<lambda>o'. o' \<noteq> Greater)"

definition value_gt :: "json \<Rightarrow> json \<Rightarrow> bool result" where
  "value_gt = ordered (\<lambda>o'. o' = Greater)"

definition value_ge :: "json \<Rightarrow> json \<Rightarrow> bool result" where
  "value_ge = ordered (\<lambda>o'. o' \<noteq> Less)"

lemmas value_ops = value_lt_def value_le_def value_gt_def value_ge_def ordered_def

section \<open>Pruning\<close>

definition res_or :: "bool result \<Rightarrow> bool result \<Rightarrow> bool result" where
  "res_or a b = res_bind a (\<lambda>x. if x then Inr True else b)"

definition stats_outside_range ::
  "'agg planned_row_group \<Rightarrow> string \<Rightarrow> literal \<Rightarrow> (json \<Rightarrow> json \<Rightarrow> json \<Rightarrow> bool result) \<Rightarrow> bool result" where
  "stats_outside_range rg column value check =
     (case map_of (rm_columns (pr_meta rg)) column of
        None \<Rightarrow> Inr False
      | Some stats \<Rightarrow>
          (case (cs_min stats, cs_max stats) of
             (Some mn, Some mx) \<Rightarrow> check mn mx (to_value_lit value)
           | _ \<Rightarrow> Inr False))"

definition partition_value :: "'agg planned_row_group \<Rightarrow> string \<Rightarrow> json option" where
  "partition_value rg column = Option.bind (pr_partition_values rg) (\<lambda>vs. map_of vs column)"

fun any_within :: "json \<Rightarrow> json \<Rightarrow> literal list \<Rightarrow> bool result" where
  "any_within mn mx [] = Inr False"
| "any_within mn mx (l # ls) =
     res_bind (res_or (value_lt (to_value_lit l) mn) (value_gt (to_value_lit l) mx)) (\<lambda>out.
       if out then any_within mn mx ls else Inr True)"

fun row_group_satisfies :: "predicate \<Rightarrow> 'agg planned_row_group \<Rightarrow> string list \<Rightarrow> bool result" where
  "row_group_satisfies (PEq column value) rg partition_by =
     (if column \<in> set partition_by then
        Inr (case partition_value rg column of
               None \<Rightarrow> True | Some pv \<Rightarrow> value_eq pv (to_value_lit value))
      else map_sum id Not (stats_outside_range rg column value (\<lambda>mn mx v. res_or (value_lt v mn) (value_gt v mx))))"
| "row_group_satisfies (PLt column value) rg partition_by =
     map_sum id Not (stats_outside_range rg column value (\<lambda>mn mx v. value_ge mn v))"
| "row_group_satisfies (PLte column value) rg partition_by =
     map_sum id Not (stats_outside_range rg column value (\<lambda>mn mx v. value_gt mn v))"
| "row_group_satisfies (PGt column value) rg partition_by =
     map_sum id Not (stats_outside_range rg column value (\<lambda>mn mx v. value_le mx v))"
| "row_group_satisfies (PGte column value) rg partition_by =
     map_sum id Not (stats_outside_range rg column value (\<lambda>mn mx v. value_lt mx v))"
| "row_group_satisfies (PIsNull column) rg partition_by =
     Inr (case map_of (rm_columns (pr_meta rg)) column of None \<Rightarrow> True | Some stats \<Rightarrow> cs_nulls stats \<noteq> 0)"
| "row_group_satisfies (PIsNotNull column) rg partition_by =
     Inr (case map_of (rm_columns (pr_meta rg)) column of
            None \<Rightarrow> True | Some stats \<Rightarrow> cs_nulls stats \<noteq> rm_rows (pr_meta rg))"
| "row_group_satisfies (PInList column values) rg partition_by =
     (if column \<in> set partition_by then
        Inr (case partition_value rg column of
               None \<Rightarrow> True | Some pv \<Rightarrow> \<exists>v \<in> set values. value_eq pv (to_value_lit v))
      else (case map_of (rm_columns (pr_meta rg)) column of
              None \<Rightarrow> Inr True
            | Some stats \<Rightarrow>
                (case (cs_min stats, cs_max stats) of
                   (Some mn, Some mx) \<Rightarrow> any_within mn mx values
                 | _ \<Rightarrow> Inr True)))"

fun satisfies_all :: "predicate list \<Rightarrow> 'agg planned_row_group \<Rightarrow> string list \<Rightarrow> bool result" where
  "satisfies_all [] rg partition_by = Inr True"
| "satisfies_all (p # ps) rg partition_by =
     res_bind (row_group_satisfies p rg partition_by) (\<lambda>ok.
       if ok then satisfies_all ps rg partition_by else Inr False)"

fun prune_groups ::
  "predicate list \<Rightarrow> string list \<Rightarrow> 'agg planned_row_group list \<Rightarrow> 'agg planned_row_group list result" where
  "prune_groups predicates partition_by [] = Inr []"
| "prune_groups predicates partition_by (rg # rgs) =
     res_bind (satisfies_all predicates rg partition_by) (\<lambda>keep.
     res_bind (prune_groups predicates partition_by rgs) (\<lambda>rest.
       Inr (if keep then rg # rest else rest)))"

definition prune :: "'agg scan_plan \<Rightarrow> predicate list \<Rightarrow> 'agg scan_plan result" where
  "prune self predicates =
     (let partition_by = (case sc_partition_by (sp_schema self) of None \<Rightarrow> [] | Some cols \<Rightarrow> cols)
      in map_sum id (\<lambda>rgs. self\<lparr>sp_row_groups := rgs\<rparr>) (prune_groups predicates partition_by (sp_row_groups self)))"

text \<open>The id of a row group is the file name of its data path without \<^verbatim>\<open>.parquet\<close>.\<close>

definition data_stem :: "string \<Rightarrow> string" where
  "data_stem path =
     (case strip_suffix path ''.parquet'' of
        None \<Rightarrow> [] | Some p \<Rightarrow> (case file_name p of None \<Rightarrow> [] | Some f \<Rightarrow> f))"

definition retain_row_groups :: "'agg scan_plan \<Rightarrow> string set \<Rightarrow> 'agg scan_plan" where
  "retain_row_groups self keep =
     self\<lparr>sp_row_groups := filter (\<lambda>rg. data_stem (pr_data_path rg) \<in> keep) (sp_row_groups self)\<rparr>"

text \<open>The ids are sorted once; \<^verbatim>\<open>partition_point\<close> finds the first one that is not below the start.\<close>

definition overlaps :: "u64 list \<Rightarrow> u64 \<Rightarrow> u64 \<Rightarrow> bool" where
  "overlaps sorted_ids start end_exclusive =
     (case dropWhile (\<lambda>x. x < start) sorted_ids of [] \<Rightarrow> False | x # _ \<Rightarrow> x < end_exclusive)"

fun segment_overlaps :: "u64 list \<Rightarrow> row_id_segment \<Rightarrow> bool" where
  "segment_overlaps sorted_ids (Range start cnt) = overlaps sorted_ids start (start + cnt)"
| "segment_overlaps sorted_ids (Sorted ids) = (\<exists>i \<in> set ids. i \<in> set sorted_ids)"

definition retain_row_groups_by_row_ids :: "'agg scan_plan \<Rightarrow> u64 list \<Rightarrow> 'agg scan_plan" where
  "retain_row_groups_by_row_ids self row_ids =
     (let sorted_ids = sort row_ids
      in self\<lparr>sp_row_groups := filter (\<lambda>rg. rm_row_ids (pr_meta rg) = []
           \<or> (\<exists>seg \<in> set (rm_row_ids (pr_meta rg)). segment_overlaps sorted_ids seg)) (sp_row_groups self)\<rparr>)"

section \<open>Coverage\<close>

definition eval_cmp :: "json \<Rightarrow> json \<Rightarrow> ordering option" where
  "eval_cmp a b = (case compare_values a b of Inl _ \<Rightarrow> None | Inr c \<Rightarrow> c)"

definition bounded_by ::
  "column_stats \<Rightarrow> (json \<Rightarrow> json \<Rightarrow> bool) \<Rightarrow> bool" where
  "bounded_by stats P = (case (cs_min stats, cs_max stats) of (Some mn, Some mx) \<Rightarrow> P mn mx | _ \<Rightarrow> False)"

fun predicate_covers :: "predicate \<Rightarrow> column_stats \<Rightarrow> bool" where
  "predicate_covers (PEq _ value) stats = bounded_by stats (\<lambda>mn mx.
     eval_cmp mn (to_value_lit value) = Some Equal \<and> eval_cmp mx (to_value_lit value) = Some Equal)"
| "predicate_covers (PLt _ value) stats = bounded_by stats (\<lambda>mn mx. eval_cmp mx (to_value_lit value) = Some Less)"
| "predicate_covers (PLte _ value) stats = bounded_by stats (\<lambda>mn mx.
     eval_cmp mx (to_value_lit value) \<in> {Some Less, Some Equal})"
| "predicate_covers (PGt _ value) stats = bounded_by stats (\<lambda>mn mx. eval_cmp mn (to_value_lit value) = Some Greater)"
| "predicate_covers (PGte _ value) stats = bounded_by stats (\<lambda>mn mx.
     eval_cmp mn (to_value_lit value) \<in> {Some Greater, Some Equal})"
| "predicate_covers _ stats = False"

fun predicate_disjoint :: "predicate \<Rightarrow> column_stats \<Rightarrow> bool" where
  "predicate_disjoint (PEq _ value) stats = bounded_by stats (\<lambda>mn mx.
     eval_cmp (to_value_lit value) mn = Some Less \<or> eval_cmp (to_value_lit value) mx = Some Greater)"
| "predicate_disjoint (PLt _ value) stats = bounded_by stats (\<lambda>mn mx.
     eval_cmp mn (to_value_lit value) \<in> {Some Greater, Some Equal})"
| "predicate_disjoint (PLte _ value) stats = bounded_by stats (\<lambda>mn mx. eval_cmp mn (to_value_lit value) = Some Greater)"
| "predicate_disjoint (PGt _ value) stats = bounded_by stats (\<lambda>mn mx.
     eval_cmp mx (to_value_lit value) \<in> {Some Less, Some Equal})"
| "predicate_disjoint (PGte _ value) stats = bounded_by stats (\<lambda>mn mx. eval_cmp mx (to_value_lit value) = Some Less)"
| "predicate_disjoint _ stats = False"

definition fragment_fully_covered :: "predicate list \<Rightarrow> column_stats \<Rightarrow> bool" where
  "fragment_fully_covered predicates stats \<longleftrightarrow>
     predicates \<noteq> [] \<and> (\<forall>p \<in> set predicates. predicate_covers p stats)"

definition fragment_disjoint :: "predicate list \<Rightarrow> column_stats \<Rightarrow> bool" where
  "fragment_disjoint predicates stats \<longleftrightarrow> (\<exists>p \<in> set predicates. predicate_disjoint p stats)"

section \<open>Query literals\<close>

text \<open>The typed literals of a query that become predicate literals, by width and sign.\<close>

datatype query_scalar =
    QInt data_type int
  | QFloat data_type u64
  | QText data_type string
  | QBool bool
  | QOther

text \<open>\<^verbatim>\<open>as i64\<close> keeps the low 64 bits.\<close>

definition as_signed64 :: "int \<Rightarrow> int" where
  "as_signed64 v = sint (word_of_int v :: u64)"

fun scalar_to_literal :: "query_scalar \<Rightarrow> literal option" where
  "scalar_to_literal (QInt t v) = Some (LInt64 (as_signed64 v))"
| "scalar_to_literal (QFloat t v) = Some (LFloat64 v)"
| "scalar_to_literal (QText t v) = Some (LString v)"
| "scalar_to_literal (QBool v) = Some (LBool v)"
| "scalar_to_literal QOther = None"

end
