(* ===== verification/Prune_Sound.thy ===== *)
theory Prune_Sound
  imports Scan_Prune
begin

text \<open>
  What pruning promises: for columns whose statistics JSON compares exactly, a row group that is
  dropped holds no row that matches, a fragment reported covered holds only rows that match and
  one reported disjoint holds none.
\<close>

section \<open>Rows that match\<close>

text \<open>The meaning of a predicate: a cell compares with a literal of its own kind, a null with nothing.\<close>

datatype cell = CInt int | CFloat u64 | CText string | CBool bool | COther

fun cell_at :: "arrow_column \<Rightarrow> nat \<Rightarrow> cell option" where
  "cell_at (IntColumn t vs) i = map_option CInt (vs ! i)"
| "cell_at (FloatColumn t vs) i = map_option CFloat (vs ! i)"
| "cell_at (TextColumn t vs) i = map_option CText (vs ! i)"
| "cell_at (BoolColumn vs) i = map_option CBool (vs ! i)"
| "cell_at (OtherColumn t valid) i = (if valid ! i then Some COther else None)"

fun cell_cmp :: "cell \<Rightarrow> literal \<Rightarrow> ordering option" where
  "cell_cmp (CInt a) (LInt64 b) = Some (cmp_of a b)"
| "cell_cmp (CFloat a) (LFloat64 b) = f64_partial_cmp a b"
| "cell_cmp (CText a) (LString b) = Some (cmp_of a b)"
| "cell_cmp (CBool a) (LBool b) = Some (cmp_of a b)"
| "cell_cmp _ _ = None"

definition cell_test :: "batch \<Rightarrow> string \<Rightarrow> nat \<Rightarrow> literal \<Rightarrow> (ordering \<Rightarrow> bool) \<Rightarrow> bool" where
  "cell_test b column i l P \<longleftrightarrow> (\<exists>arr x o'. column_by_name b column = Some arr \<and> cell_at arr i = Some x
     \<and> cell_cmp x l = Some o' \<and> P o')"

fun row_matches :: "batch \<Rightarrow> nat \<Rightarrow> predicate \<Rightarrow> bool" where
  "row_matches b i (PEq c l) = cell_test b c i l (\<lambda>o'. o' = Equal)"
| "row_matches b i (PLt c l) = cell_test b c i l (\<lambda>o'. o' = Less)"
| "row_matches b i (PLte c l) = cell_test b c i l (\<lambda>o'. o' \<noteq> Greater)"
| "row_matches b i (PGt c l) = cell_test b c i l (\<lambda>o'. o' = Greater)"
| "row_matches b i (PGte c l) = cell_test b c i l (\<lambda>o'. o' \<noteq> Less)"
| "row_matches b i (PInList c ls) = (\<exists>l \<in> set ls. cell_test b c i l (\<lambda>o'. o' = Equal))"
| "row_matches b i (PIsNull c) = (\<exists>arr. column_by_name b c = Some arr \<and> cell_at arr i = None)"
| "row_matches b i (PIsNotNull c) = (\<exists>arr. column_by_name b c = Some arr \<and> cell_at arr i \<noteq> None)"

section \<open>Statistics bound the cells\<close>

text \<open>
  Cells and literals that JSON statistics compare exactly: integers within 64 signed bits, text and
  booleans.
\<close>

definition fits_i64 :: "int \<Rightarrow> bool" where
  "fits_i64 i \<longleftrightarrow> - (2 ^ 63) \<le> i \<and> i < 2 ^ 63"

fun exact_column :: "arrow_column \<Rightarrow> bool" where
  "exact_column (IntColumn t vs) = (\<forall>i. Some i \<in> set vs \<longrightarrow> fits_i64 i)"
| "exact_column (FloatColumn t vs) = False"
| "exact_column _ = True"

fun literal_wf :: "literal \<Rightarrow> bool" where
  "literal_wf (LInt64 i) = fits_i64 i"
| "literal_wf _ = True"

lemma jint_as_i64: "fits_i64 i \<Longrightarrow> \<exists>n. jint i = JNum n \<and> as_i64 n = Some i"
proof (cases "0 \<le> i")
  case True
  moreover assume "fits_i64 i"
  ultimately have "take_bit 64 i = i" by (simp add: fits_i64_def take_bit_int_eq_self)
  then have "uint (word_of_int i :: u64) = i" by (simp add: uint_word_of_int_eq)
  then show ?thesis using True \<open>fits_i64 i\<close> by (simp add: jint_def fits_i64_def)
next
  case False
  moreover assume "fits_i64 i"
  ultimately have "sint (word_of_int i :: u64) = i"
    by (simp add: fits_i64_def signed_of_int signed_take_bit_int_eq_self)
  then show ?thesis using False by (simp add: jint_def)
qed

lemma compare_jint: "fits_i64 i \<Longrightarrow> fits_i64 j \<Longrightarrow> compare_values (jint i) (jint j) = Inr (Some (cmp_of i j))"
  using jint_as_i64 [of i] jint_as_i64 [of j] by auto

text \<open>Both bounds compare with a literal as the cells do, or further out.\<close>

definition bounds_literal :: "json \<Rightarrow> json \<Rightarrow> literal \<Rightarrow> ordering \<Rightarrow> bool" where
  "bounds_literal mn mx l o' \<longleftrightarrow> (\<exists>lo hi. lo \<le> o' \<and> o' \<le> hi
     \<and> compare_values mn (to_value_lit l) = Inr (Some lo) \<and> compare_values mx (to_value_lit l) = Inr (Some hi)
     \<and> compare_values (to_value_lit l) mn = Inr (Some (flip lo)) \<and> compare_values (to_value_lit l) mx = Inr (Some (flip hi)))"

lemma bounds_literalI:
  fixes J :: "'a::linorder \<Rightarrow> json"
  assumes "lo \<le> a" "a \<le> hi" "to_value_lit l = J b"
    and cmp: "\<And>u v. u \<in> {lo, hi, b} \<Longrightarrow> v \<in> {lo, hi, b} \<Longrightarrow> compare_values (J u) (J v) = Inr (Some (cmp_of u v))"
  shows "bounds_literal (J lo) (J hi) l (cmp_of a b)"
  unfolding bounds_literal_def assms(3)
proof (intro exI conjI)
  show "cmp_of lo b \<le> cmp_of a b" "cmp_of a b \<le> cmp_of hi b" using assms(1,2) by (simp_all add: cmp_of_mono)
  show "compare_values (J lo) (J b) = Inr (Some (cmp_of lo b))" "compare_values (J hi) (J b) = Inr (Some (cmp_of hi b))"
    by (simp_all add: cmp)
  show "compare_values (J b) (J lo) = Inr (Some (flip (cmp_of lo b)))"
    "compare_values (J b) (J hi) = Inr (Some (flip (cmp_of hi b)))"
    unfolding cmp_of_flip [symmetric] by (simp_all add: cmp)
qed

lemma picked_bounds:
  fixes kmin kmax :: "'a::linorder option list \<Rightarrow> 'a option"
  assumes "picks (\<le>) kmin" "picks (\<ge>) kmax" "kmin vs = Some lo" "kmax vs = Some hi" "i < length vs" "vs ! i = Some a"
  shows "lo \<le> a" "a \<le> hi" "Some lo \<in> set vs" "Some hi \<in> set vs"
proof -
  have "Some a \<in> set vs" using assms(5,6) by (metis nth_mem)
  then show "lo \<le> a" "a \<le> hi" using picksD(2) [OF assms(1,3)] picksD(2) [OF assms(2,4)] by auto
  show "Some lo \<in> set vs" "Some hi \<in> set vs" using picksD(1) [OF assms(1,3)] picksD(1) [OF assms(2,4)] by auto
qed

lemma int_column_bounds:
  assumes K: "kernels_law K" and c: "\<forall>i. Some i \<in> set vs \<longrightarrow> fits_i64 i" and l: "literal_wf l"
    and mm: "compute_min_max X K (IntColumn t vs) = Inr (Some mn, Some mx)"
    and i: "i < length vs" "vs ! i = Some a" "cell_cmp (CInt a) l = Some o'"
  shows "bounds_literal mn mx l o'"
proof -
  obtain b where b: "l = LInt64 b" "o' = cmp_of a b" "fits_i64 b" using i(3) l by (cases l) auto
  obtain lo hi where k: "k_min_int K vs = Some lo" "k_max_int K vs = Some hi" "mn = jint lo" "mx = jint hi"
    using mm by (auto split: if_splits)
  have p: "picks (\<le>) (k_min_int K)" "picks (\<ge>) (k_max_int K)" using K by (simp_all add: kernels_law_def)
  note in_bounds = picked_bounds [OF p k(1,2) i(1,2)]
  have "fits_i64 u" if "u \<in> {lo, hi, b}" for u using that c in_bounds(3,4) b(3) by auto
  then show ?thesis
    unfolding b(2) k(3,4) by (intro bounds_literalI in_bounds(1,2) compare_jint) (simp_all add: b(1))
qed

lemma text_column_bounds:
  assumes K: "kernels_law K" and mm: "compute_min_max X K (TextColumn t vs) = Inr (Some mn, Some mx)"
    and i: "i < length vs" "vs ! i = Some a" "cell_cmp (CText a) l = Some o'"
  shows "bounds_literal mn mx l o'"
proof -
  obtain b where b: "l = LString b" "o' = cmp_of a b" using i(3) by (cases l) auto
  obtain lo hi where k: "k_min_text K vs = Some lo" "k_max_text K vs = Some hi" "mn = JStr lo" "mx = JStr hi"
    using mm by (auto split: if_splits)
  have p: "picks (\<le>) (k_min_text K)" "picks (\<ge>) (k_max_text K)" using K by (simp_all add: kernels_law_def)
  show ?thesis
    unfolding b(2) k(3,4) by (intro bounds_literalI picked_bounds(1,2) [OF p k(1,2) i(1,2)]) (simp_all add: b(1))
qed

lemma bool_column_bounds:
  assumes K: "kernels_law K" and mm: "compute_min_max X K (BoolColumn vs) = Inr (Some mn, Some mx)"
    and i: "i < length vs" "vs ! i = Some a" "cell_cmp (CBool a) l = Some o'"
  shows "bounds_literal mn mx l o'"
proof -
  obtain b where b: "l = LBool b" "o' = cmp_of a b" using i(3) by (cases l) auto
  obtain lo hi where k: "k_min_bool K vs = Some lo" "k_max_bool K vs = Some hi" "mn = JBool lo" "mx = JBool hi"
    using mm by auto
  have p: "picks (\<le>) (k_min_bool K)" "picks (\<ge>) (k_max_bool K)" using K by (simp_all add: kernels_law_def)
  show ?thesis
    unfolding b(2) k(3,4) by (intro bounds_literalI picked_bounds(1,2) [OF p k(1,2) i(1,2)]) (simp_all add: b(1))
qed

lemma min_max_bounds:
  assumes K: "kernels_law K" and c: "exact_column arr" and l: "literal_wf l"
    and mm: "compute_min_max X K arr = Inr (Some mn, Some mx)"
    and i: "i < ac_len arr" "cell_at arr i = Some x" "cell_cmp x l = Some o'"
  shows "bounds_literal mn mx l o'"
proof (cases arr)
  case (IntColumn t vs)
  then obtain a where "x = CInt a" "vs ! i = Some a" "i < length vs" using i(1,2) by (auto simp: ac_len_def)
  then show ?thesis using int_column_bounds [OF K _ l] c mm i(3) unfolding IntColumn exact_column.simps by blast
next
  case (TextColumn t vs)
  then obtain a where "x = CText a" "vs ! i = Some a" "i < length vs" using i(1,2) by (auto simp: ac_len_def)
  then show ?thesis using text_column_bounds [OF K] mm i(3) unfolding TextColumn by blast
next
  case (BoolColumn vs)
  then obtain a where "x = CBool a" "vs ! i = Some a" "i < length vs" using i(1,2) by (auto simp: ac_len_def)
  then show ?thesis using bool_column_bounds [OF K] mm i(3) unfolding BoolColumn by blast
next
  case (OtherColumn t valid)
  then show ?thesis using mm by simp
qed (use c in simp)

section \<open>Pruning keeps the matches\<close>

fun pred_column :: "predicate \<Rightarrow> string" where
  "pred_column (PEq c l) = c" | "pred_column (PLt c l) = c" | "pred_column (PLte c l) = c"
| "pred_column (PGt c l) = c" | "pred_column (PGte c l) = c" | "pred_column (PInList c ls) = c"
| "pred_column (PIsNull c) = c" | "pred_column (PIsNotNull c) = c"

fun pred_literals :: "predicate \<Rightarrow> literal list" where
  "pred_literals (PEq c l) = [l]" | "pred_literals (PLt c l) = [l]" | "pred_literals (PLte c l) = [l]"
| "pred_literals (PGt c l) = [l]" | "pred_literals (PGte c l) = [l]" | "pred_literals (PInList c ls) = ls"
| "pred_literals (PIsNull c) = []" | "pred_literals (PIsNotNull c) = []"

definition exact_pred :: "batch \<Rightarrow> predicate \<Rightarrow> bool" where
  "exact_pred b p \<longleftrightarrow> (\<forall>arr. column_by_name b (pred_column p) = Some arr \<longrightarrow> exact_column arr)
     \<and> (\<forall>l \<in> set (pred_literals p). literal_wf l)"

text \<open>A planned row group that carries the metadata and partition values of a batch.\<close>

definition planned_for ::
  "ext \<Rightarrow> arrow_kernels \<Rightarrow> string list \<Rightarrow> batch \<Rightarrow> 'agg planned_row_group \<Rightarrow> bool" where
  "planned_for X K partition_by b rg \<longleftrightarrow> batch_wf b \<and> b_rows b < 2 ^ 64
     \<and> rm_rows (pr_meta rg) = of_nat (b_rows b)
     \<and> (\<forall>name st. map_of (rm_columns (pr_meta rg)) name = Some st \<longrightarrow> stats_of X K b name st)
     \<and> (\<forall>pv. pr_partition_values rg = Some pv \<longrightarrow> (\<exists>path. compute_partition_values b partition_by path = Inr (Some pv)))"

lemma column_len: "batch_wf b \<Longrightarrow> column_by_name b c = Some arr \<Longrightarrow> ac_len arr = b_rows b"
  by (auto simp: batch_wf_def column_by_name_def dest!: map_of_SomeD)

lemma stats_bounds_cell:
  assumes K: "kernels_law K" and rg: "planned_for X K pb b rg" and p: "exact_pred b p" "pred_column p = c" "l \<in> set (pred_literals p)"
    and i: "i < b_rows b" "cell_test b c i l P"
    and st: "map_of (rm_columns (pr_meta rg)) c = Some st" "cs_min st = Some mn" "cs_max st = Some mx"
  shows "\<exists>o'. bounds_literal mn mx l o' \<and> P o'"
proof -
  obtain arr x o' where a: "column_by_name b c = Some arr" "cell_at arr i = Some x" "cell_cmp x l = Some o'" "P o'"
    using i(2) by (auto simp: cell_test_def)
  have "stats_of X K b c st" using rg st(1) by (simp add: planned_for_def)
  then have "compute_min_max X K arr = Inr (Some mn, Some mx)" using a(1) st(2,3) by (auto simp: stats_of_def)
  moreover have "exact_column arr" "literal_wf l" using p a(1) by (auto simp: exact_pred_def)
  moreover have "i < ac_len arr" using column_len [OF _ a(1)] rg i(1) by (simp add: planned_for_def)
  ultimately show ?thesis using min_max_bounds [OF K] a(2-4) by blast
qed

text \<open>A test on the bounds that no comparison between them can pass drops no match.\<close>

lemma outside_false:
  assumes K: "kernels_law K" and rg: "planned_for X K pb b rg" and p: "exact_pred b p" "pred_column p = c" "l \<in> set (pred_literals p)"
    and i: "i < b_rows b" "cell_test b c i l P"
    and check: "\<And>mn mx o'. bounds_literal mn mx l o' \<Longrightarrow> P o' \<Longrightarrow> check mn mx (to_value_lit l) = Inr False"
  shows "stats_outside_range rg c l check = Inr False"
proof (cases "map_of (rm_columns (pr_meta rg)) c")
  case (Some st)
  have "check mn mx (to_value_lit l) = Inr False" if "cs_min st = Some mn" "cs_max st = Some mx" for mn mx
    using stats_bounds_cell [OF K rg p i Some that] check by blast
  then show ?thesis using Some by (cases "cs_min st"; cases "cs_max st") (simp_all add: stats_outside_range_def)
qed (simp add: stats_outside_range_def)

lemma not_outside:
  assumes "bounds_literal mn mx l o'"
  shows "o' = Equal \<Longrightarrow> res_or (value_lt (to_value_lit l) mn) (value_gt (to_value_lit l) mx) = Inr False"
    "o' = Less \<Longrightarrow> value_ge mn (to_value_lit l) = Inr False"
    "o' \<noteq> Greater \<Longrightarrow> value_gt mn (to_value_lit l) = Inr False"
    "o' = Greater \<Longrightarrow> value_le mx (to_value_lit l) = Inr False"
    "o' \<noteq> Less \<Longrightarrow> value_lt mx (to_value_lit l) = Inr False"
proof -
  obtain lo hi where b: "lo \<le> o'" "o' \<le> hi" "compare_values mn (to_value_lit l) = Inr (Some lo)"
    "compare_values mx (to_value_lit l) = Inr (Some hi)" "compare_values (to_value_lit l) mn = Inr (Some (flip lo))"
    "compare_values (to_value_lit l) mx = Inr (Some (flip hi))"
    using assms by (auto simp: bounds_literal_def)
  have lt: "value_lt (to_value_lit l) mn = Inr (lo = Greater)" "value_gt (to_value_lit l) mx = Inr (hi = Less)"
    using b(5,6) by (cases lo; cases hi; simp add: value_ops)+
  show "o' = Equal \<Longrightarrow> res_or (value_lt (to_value_lit l) mn) (value_gt (to_value_lit l) mx) = Inr False"
    using b(1,2) unfolding lt by (auto simp: res_or_def)
  show "o' = Less \<Longrightarrow> value_ge mn (to_value_lit l) = Inr False" "o' \<noteq> Greater \<Longrightarrow> value_gt mn (to_value_lit l) = Inr False"
    using b(1,3) by (cases o'; simp add: value_ops)+
  show "o' = Greater \<Longrightarrow> value_le mx (to_value_lit l) = Inr False" "o' \<noteq> Less \<Longrightarrow> value_lt mx (to_value_lit l) = Inr False"
    using b(2,4) by (cases o'; simp add: value_ops)+
qed

text \<open>A recorded partition value is equal to every value of the column.\<close>

lemma insert_values_single:
  assumes "foldl insert_value acc xs = [v]"
  shows "\<forall>w \<in> set acc. w = v" "\<forall>x \<in> set xs. value_eq x v \<or> x = v"
proof -
  have sub: "set acc \<subseteq> set (foldl insert_value acc xs)" for acc xs
    by (induction xs arbitrary: acc) (auto simp: insert_value_def subset_iff split: if_splits)
  show "\<forall>w \<in> set acc. w = v" using sub [of acc xs] assms by auto
  show "\<forall>x \<in> set xs. value_eq x v \<or> x = v"
    using assms
  proof (induction xs arbitrary: acc)
    case (Cons x xs)
    have "set (insert_value acc x) \<subseteq> {v}" using sub [of "insert_value acc x" xs] Cons.prems by auto
    then have "value_eq x v \<or> x = v" by (auto simp: insert_value_def split: if_splits)
    then show ?case using Cons by auto
  qed simp
qed

lemma partition_values_single:
  assumes "partition_values_of b path cs acc = Inr (Some pv)" "map_of pv c = Some v"
    "\<And>n w. map_of acc n = Some w \<Longrightarrow> \<exists>arr. column_by_name b n = Some arr \<and> distinct_non_null_values arr path = Inr [w]"
  shows "\<exists>arr. column_by_name b c = Some arr \<and> distinct_non_null_values arr path = Inr [v]"
  using assms
proof (induction cs arbitrary: acc)
  case (Cons c' cs)
  obtain arr w where w: "column_by_name b c' = Some arr" "distinct_non_null_values arr path = Inr [w]"
    "partition_values_of b path cs (AList.update c' w acc) = Inr (Some pv)"
  proof -
    obtain arr vs where vs: "column_by_name b c' = Some arr" "distinct_non_null_values arr path = Inr vs"
      "(case vs of [v] \<Rightarrow> partition_values_of b path cs (AList.update c' v acc) | _ \<Rightarrow> Inr None) = Inr (Some pv)"
      using Cons.prems(1) by (cases "column_by_name b c'") (auto simp: res_bind_eq_Inr)
    then obtain w where "vs = [w]" by (cases vs; cases "tl vs") auto
    with vs that show thesis by simp
  qed
  show ?case by (rule Cons.IH [OF w(3) Cons.prems(2)]) (use Cons.prems(3) w(1,2) in \<open>auto simp: update_conv' split: if_splits\<close>)
qed (auto split: if_splits)

lemma cell_values_nth:
  assumes "cell_values arr path = Inr vs" "exact_column arr" "i < ac_len arr" "cell_at arr i = Some x" "cell_cmp x l = Some Equal"
  shows "Some (to_value_lit l) \<in> set vs \<and> (\<forall>f. to_value_lit l \<noteq> JNum (Float f))"
proof -
  have "i < length vs \<and> vs ! i = Some (to_value_lit l) \<and> (\<forall>f. to_value_lit l \<noteq> JNum (Float f))"
    using assms by (cases arr; cases l) (auto simp: ac_len_def jint_def split: if_splits)
  then show ?thesis by (metis nth_mem)
qed

lemma partition_keeps:
  assumes rg: "planned_for X K pb b rg" and x: "\<And>arr. column_by_name b c = Some arr \<Longrightarrow> exact_column arr"
    and i: "i < b_rows b" "cell_test b c i l (\<lambda>o'. o' = Equal)" and pv: "partition_value rg c = Some v"
  shows "value_eq v (to_value_lit l)"
proof -
  obtain arr x' where a: "column_by_name b c = Some arr" "cell_at arr i = Some x'" "cell_cmp x' l = Some Equal"
    using i(2) by (auto simp: cell_test_def)
  obtain pvs path where "compute_partition_values b pb path = Inr (Some pvs)" "map_of pvs c = Some v"
    using pv rg by (auto simp: partition_value_def planned_for_def bind_eq_Some_conv)
  then have "distinct_non_null_values arr path = Inr [v]"
    using partition_values_single [of b path pb "[]" pvs c v] a(1) by (auto simp: compute_partition_values_def)
  then obtain vs where vs: "cell_values arr path = Inr vs" "foldl insert_value [] (List.map_filter id vs) = [v]"
    by (cases "cell_values arr path") (auto simp: distinct_non_null_values_def)
  have "Some (to_value_lit l) \<in> set vs \<and> (\<forall>f. to_value_lit l \<noteq> JNum (Float f))"
    using cell_values_nth [OF vs(1) x [OF a(1)] _ a(2,3)] column_len [OF _ a(1)] rg i(1) by (simp add: planned_for_def)
  then have nf: "\<And>f. to_value_lit l \<noteq> JNum (Float f)" and "value_eq (to_value_lit l) v \<or> to_value_lit l = v"
    using insert_values_single(2) [OF vs(2)] by (auto simp: map_filter_def)
  then have "v = to_value_lit l" by (cases "(to_value_lit l, v)" rule: value_eq.cases) auto
  then show ?thesis using nf by (cases "(v, v)" rule: value_eq.cases) auto
qed

lemma null_cells:
  assumes "i < ac_len arr"
  shows "cell_at arr i = None \<Longrightarrow> 0 < ac_null_count arr" "cell_at arr i \<noteq> None \<Longrightarrow> ac_null_count arr < ac_len arr"
proof -
  have v: "ac_valid arr ! i \<longleftrightarrow> cell_at arr i \<noteq> None" using assms by (cases arr) (auto simp: ac_len_def)
  have mem: "ac_valid arr ! i \<in> set (ac_valid arr)" using assms by (simp add: ac_len_def)
  show "cell_at arr i = None \<Longrightarrow> 0 < ac_null_count arr"
    using mem v by (auto simp: ac_null_count_def filter_empty_conv)
  assume "cell_at arr i \<noteq> None"
  then have "True \<in> set (ac_valid arr)" using mem v by auto
  then show "ac_null_count arr < ac_len arr"
    unfolding ac_null_count_def ac_len_def by (intro length_filter_less) auto
qed

lemma satisfies_null:
  assumes rg: "planned_for X K pb b rg" and i: "i < b_rows b" and m: "row_matches b i p" and p: "p = PIsNull c \<or> p = PIsNotNull c"
  shows "row_group_satisfies p rg pb = Inr True"
proof (cases "map_of (rm_columns (pr_meta rg)) c")
  case (Some st)
  then have "stats_of X K b c st" using rg by (simp add: planned_for_def)
  then obtain arr where arr: "column_by_name b c = Some arr" "cs_nulls st = of_nat (ac_null_count arr)"
    by (auto simp: stats_of_def)
  have len: "ac_len arr = b_rows b" "b_rows b < 2 ^ 64"
    using column_len [OF _ arr(1)] rg by (simp_all add: planned_for_def)
  moreover have "ac_null_count arr \<le> ac_len arr" by (simp add: ac_null_count_def ac_len_def)
  ultimately have len: "ac_len arr = b_rows b" "b_rows b < 2 ^ 64" "ac_null_count arr \<le> b_rows b" by simp_all
  have "cs_nulls st \<noteq> 0" if "cell_at arr i = None"
    using null_cells(1) [of i arr] that i len arr(2) of_nat_u64_eq [of "ac_null_count arr" 0] by simp
  moreover have "cs_nulls st \<noteq> rm_rows (pr_meta rg)" if "cell_at arr i \<noteq> None"
    using null_cells(2) [of i arr] that i len arr(2) of_nat_u64_eq [of "ac_null_count arr" "b_rows b"] rg
    by (simp add: planned_for_def)
  ultimately show ?thesis using p m arr(1) Some by auto
qed (use p in auto)

lemma any_within_true:
  assumes "l \<in> set ls" "bounds_literal mn mx l Equal" "any_within mn mx ls = Inr keep"
  shows keep
  using assms
proof (induction ls)
  case (Cons l' ls)
  show ?case
  proof (cases "l' = l")
    case True
    then show ?thesis using Cons.prems not_outside(1) [OF Cons.prems(2) refl] by simp
  next
    case False
    then show ?thesis using Cons by (auto simp: res_bind_eq_Inr split: if_splits)
  qed
qed simp

lemma satisfies_sound:
  assumes K: "kernels_law K" and rg: "planned_for X K pb b rg" and i: "i < b_rows b"
    and p: "exact_pred b p" "row_matches b i p" and keep: "row_group_satisfies p rg pb = Inr keep"
  shows keep
proof (cases p)
  case (PEq c l)
  show ?thesis
  proof (cases "c \<in> set pb")
    case True
    have "value_eq v (to_value_lit l)" if "partition_value rg c = Some v" for v
      using partition_keeps [OF rg _ i _ that] p PEq by (auto simp: exact_pred_def)
    then show ?thesis using keep PEq True by (cases "partition_value rg c") auto
  next
    case False
    have "stats_outside_range rg c l (\<lambda>mn mx v. res_or (value_lt v mn) (value_gt v mx)) = Inr False"
      using outside_false [OF K rg p(1) _ _ i, of c l "\<lambda>o'. o' = Equal"] p(2) PEq not_outside(1) by simp
    then show ?thesis using keep PEq False by simp
  qed
next
  case (PLt c l)
  have "stats_outside_range rg c l (\<lambda>mn mx v. value_ge mn v) = Inr False"
    using outside_false [OF K rg p(1) _ _ i, of c l "\<lambda>o'. o' = Less"] p(2) PLt not_outside(2) by simp
  then show ?thesis using keep PLt by simp
next
  case (PLte c l)
  have "stats_outside_range rg c l (\<lambda>mn mx v. value_gt mn v) = Inr False"
    using outside_false [OF K rg p(1) _ _ i, of c l "\<lambda>o'. o' \<noteq> Greater"] p(2) PLte not_outside(3) by simp
  then show ?thesis using keep PLte by simp
next
  case (PGt c l)
  have "stats_outside_range rg c l (\<lambda>mn mx v. value_le mx v) = Inr False"
    using outside_false [OF K rg p(1) _ _ i, of c l "\<lambda>o'. o' = Greater"] p(2) PGt not_outside(4) by simp
  then show ?thesis using keep PGt by simp
next
  case (PGte c l)
  have "stats_outside_range rg c l (\<lambda>mn mx v. value_lt mx v) = Inr False"
    using outside_false [OF K rg p(1) _ _ i, of c l "\<lambda>o'. o' \<noteq> Less"] p(2) PGte not_outside(5) by simp
  then show ?thesis using keep PGte by simp
next
  case (PInList c ls)
  then obtain l where l: "l \<in> set ls" "cell_test b c i l (\<lambda>o'. o' = Equal)" using p(2) by auto
  show ?thesis
  proof (cases "c \<in> set pb")
    case True
    have "value_eq v (to_value_lit l)" if "partition_value rg c = Some v" for v
      using partition_keeps [OF rg _ i l(2) that] p(1) PInList by (auto simp: exact_pred_def)
    then show ?thesis using keep PInList True l(1) by (cases "partition_value rg c") auto
  next
    case out: False
    show ?thesis
    proof (cases "map_of (rm_columns (pr_meta rg)) c")
      case (Some st)
      have "bounds_literal mn mx l Equal" if "cs_min st = Some mn" "cs_max st = Some mx" for mn mx
        using stats_bounds_cell [OF K rg p(1) _ _ i l(2) Some that] l(1) PInList by auto
      then have "keep" if "cs_min st = Some mn" "cs_max st = Some mx" for mn mx
        using any_within_true [OF l(1), of mn mx keep] keep PInList out Some that by simp
      then show ?thesis using keep PInList out Some by (cases "cs_min st"; cases "cs_max st") auto
    qed (use keep PInList out in simp)
  qed
qed (use satisfies_null [OF rg i p(2)] keep in auto)

lemma satisfies_all_sound:
  assumes "kernels_law K" "planned_for X K pb b rg" "i < b_rows b"
    "\<forall>p \<in> set ps. exact_pred b p \<and> row_matches b i p" "satisfies_all ps rg pb = Inr keep"
  shows keep
  using assms(4,5)
proof (induction ps)
  case (Cons p ps)
  then obtain ok where "row_group_satisfies p rg pb = Inr ok" "(if ok then satisfies_all ps rg pb else Inr False) = Inr keep"
    by (auto simp: res_bind_eq_Inr)
  then show ?case using satisfies_sound [OF assms(1-3), of p ok] Cons by simp
qed simp

lemma prune_groups_sub:
  assumes "prune_groups ps pb rgs = Inr kept"
  shows "set kept \<subseteq> set rgs" "rg \<in> set rgs \<Longrightarrow> \<exists>keep. satisfies_all ps rg pb = Inr keep \<and> (keep \<longrightarrow> rg \<in> set kept)"
proof -
  have "set kept \<subseteq> set rgs \<and> (\<forall>rg \<in> set rgs. \<exists>keep. satisfies_all ps rg pb = Inr keep \<and> (keep \<longrightarrow> rg \<in> set kept))"
    using assms
  proof (induction rgs arbitrary: kept)
    case (Cons rg rgs)
    then obtain keep rest where "satisfies_all ps rg pb = Inr keep" "prune_groups ps pb rgs = Inr rest"
      "kept = (if keep then rg # rest else rest)" by (auto simp: res_bind_eq_Inr)
    then show ?case using Cons.IH [of rest] by (cases keep) auto
  qed simp
  then show "set kept \<subseteq> set rgs" "rg \<in> set rgs \<Longrightarrow> \<exists>keep. satisfies_all ps rg pb = Inr keep \<and> (keep \<longrightarrow> rg \<in> set kept)"
    by auto
qed

text \<open>Retaining by row ids keeps exactly the row groups that hold one of them.\<close>

lemma overlaps_iff:
  assumes "sorted xs" "wf_segment (Range s n)"
  shows "overlaps xs s (s + n) \<longleftrightarrow> (\<exists>i \<in> set (segment_ids (Range s n)). i \<in> set xs)"
proof -
  have e: "unat (s + n) = unat s + unat n" using assms(2) by (simp add: unat_add_no_wrap)
  have "set (segment_ids (Range s n)) = {i. s \<le> i \<and> i < s + n}"
  proof (rule set_eqI)
    fix i
    have "i \<in> set (segment_ids (Range s n)) \<longleftrightarrow> (\<exists>k \<in> {unat s..<unat s + unat n}. i = of_nat k)"
      unfolding segment_ids_Range [OF assms(2)] by auto
    also have "\<dots> \<longleftrightarrow> unat s \<le> unat i \<and> unat i < unat s + unat n"
    proof
      assume "\<exists>k \<in> {unat s..<unat s + unat n}. i = of_nat k"
      then obtain k where k: "unat s \<le> k" "k < unat s + unat n" "i = of_nat k" by auto
      then have "unat i = k" using assms(2) by (simp add: unat_of_nat)
      then show "unat s \<le> unat i \<and> unat i < unat s + unat n" using k by simp
    qed (auto intro!: bexI [of _ "unat i"])
    finally show "i \<in> set (segment_ids (Range s n)) \<longleftrightarrow> i \<in> {i. s \<le> i \<and> i < s + n}"
      by (simp add: word_le_nat_alt word_less_nat_alt e)
  qed
  moreover have "overlaps xs s e \<longleftrightarrow> (\<exists>i \<in> set xs. s \<le> i \<and> i < e)" for e
    using assms(1)
  proof (induction xs)
    case (Cons x xs)
    show ?case
    proof (cases "x < s")
      case False
      then have "overlaps (x # xs) s e \<longleftrightarrow> x < e" by (simp add: overlaps_def)
      moreover have "x < e" if "i \<in> set (x # xs)" "i < e" for i using that Cons.prems by auto
      ultimately show ?thesis using False by (auto simp: not_less)
    qed (use Cons in \<open>auto simp: overlaps_def\<close>)
  qed (simp add: overlaps_def)
  ultimately show ?thesis by auto
qed

lemma retain_by_ids:
  assumes "\<forall>rg \<in> set (sp_row_groups plan). \<forall>seg \<in> set (rm_row_ids (pr_meta rg)). wf_segment seg"
  shows "sp_row_groups (retain_row_groups_by_row_ids plan ids)
    = filter (\<lambda>rg. rm_row_ids (pr_meta rg) = [] \<or> set (flat_ids (rm_row_ids (pr_meta rg))) \<inter> set ids \<noteq> {}) (sp_row_groups plan)"
proof -
  have seg: "segment_overlaps (sort ids) seg \<longleftrightarrow> set (segment_ids seg) \<inter> set ids \<noteq> {}" if "wf_segment seg" for seg
    using overlaps_iff [of "sort ids"] that by (cases seg) auto
  have "(\<exists>seg \<in> set segs. segment_overlaps (sort ids) seg) \<longleftrightarrow> set (flat_ids segs) \<inter> set ids \<noteq> {}"
    if "\<forall>seg \<in> set segs. wf_segment seg" for segs
    using that by (induction segs) (auto simp: seg)
  then have "filter (\<lambda>rg. rm_row_ids (pr_meta rg) = []
        \<or> (\<exists>seg \<in> set (rm_row_ids (pr_meta rg)). segment_overlaps (sort ids) seg)) (sp_row_groups plan)
      = filter (\<lambda>rg. rm_row_ids (pr_meta rg) = []
        \<or> set (flat_ids (rm_row_ids (pr_meta rg))) \<inter> set ids \<noteq> {}) (sp_row_groups plan)"
    using assms by (intro filter_cong [OF refl]) blast
  then show ?thesis by (simp add: retain_row_groups_by_row_ids_def Let_def)
qed

text \<open>Coverage and disjointness of exact columns.\<close>

lemma coverage_sound:
  assumes K: "kernels_law K" and b: "batch_wf b" "column_by_name b (pred_column p) = Some arr" "stats_of X K b (pred_column p) st"
    and p: "exact_pred b p" and i: "i < b_rows b" "cell_at arr i = Some x" "\<forall>l \<in> set (pred_literals p). cell_cmp x l \<noteq> None"
  shows "predicate_covers p st \<Longrightarrow> row_matches b i p" "predicate_disjoint p st \<Longrightarrow> \<not> row_matches b i p"
proof -
  have bd: "\<exists>o' lo hi. (\<forall>P. cell_test b (pred_column p) i l P = P o') \<and> lo \<le> o' \<and> o' \<le> hi
      \<and> eval_cmp mn (to_value_lit l) = Some lo \<and> eval_cmp mx (to_value_lit l) = Some hi
      \<and> eval_cmp (to_value_lit l) mn = Some (flip lo) \<and> eval_cmp (to_value_lit l) mx = Some (flip hi)"
    if l: "l \<in> set (pred_literals p)" "cs_min st = Some mn" "cs_max st = Some mx" for l mn mx
  proof -
    obtain o' where o': "cell_cmp x l = Some o'" using i(3) l(1) by auto
    have "compute_min_max X K arr = Inr (Some mn, Some mx)" using b(2,3) l(2,3) by (auto simp: stats_of_def)
    moreover have "exact_column arr" "literal_wf l" "i < ac_len arr"
      using p b(2) l(1) column_len [OF b(1,2)] i(1) by (auto simp: exact_pred_def)
    ultimately have "bounds_literal mn mx l o'" using min_max_bounds [OF K] i(2) o' by blast
    moreover have "\<forall>P. cell_test b (pred_column p) i l P = P o'" using b(2) i(2) o' by (simp add: cell_test_def)
    ultimately show ?thesis unfolding bounds_literal_def eval_cmp_def by (elim exE conjE) (intro exI conjI, simp_all)
  qed
  have flips: "flip o' = Less \<longleftrightarrow> o' = Greater" "flip o' = Greater \<longleftrightarrow> o' = Less" for o' by (cases o'; simp)+
  show "row_matches b i p" if c: "predicate_covers p st"
  proof -
    obtain mn mx l where m: "cs_min st = Some mn" "cs_max st = Some mx" "pred_literals p = [l]"
      using c by (cases p) (simp_all add: bounded_by_def split: option.splits)
    then have l: "l \<in> set (pred_literals p)" by simp
    obtain o' lo hi where o': "\<forall>P. cell_test b (pred_column p) i l P = P o'" "lo \<le> o'" "o' \<le> hi"
      "eval_cmp mn (to_value_lit l) = Some lo" "eval_cmp mx (to_value_lit l) = Some hi"
      using bd [OF l m(1,2)] that by (elim exE conjE)
    show ?thesis using c m o' by (cases p; cases o') (simp_all add: bounded_by_def, auto?)
  qed
  show "\<not> row_matches b i p" if c: "predicate_disjoint p st"
  proof -
    obtain mn mx l where m: "cs_min st = Some mn" "cs_max st = Some mx" "pred_literals p = [l]"
      using c by (cases p) (simp_all add: bounded_by_def split: option.splits)
    then have l: "l \<in> set (pred_literals p)" by simp
    obtain o' lo hi where o': "\<forall>P. cell_test b (pred_column p) i l P = P o'" "lo \<le> o'" "o' \<le> hi"
      "eval_cmp mn (to_value_lit l) = Some lo" "eval_cmp mx (to_value_lit l) = Some hi"
      "eval_cmp (to_value_lit l) mn = Some (flip lo)" "eval_cmp (to_value_lit l) mx = Some (flip hi)"
      using bd [OF l m(1,2)] that by (elim exE conjE)
    show ?thesis using c m o' by (cases p; cases o') (simp_all add: bounded_by_def flips, auto?)
  qed
qed

end
