(* ===== verification/Scan_Properties.thy ===== *)
theory Scan_Properties
  imports Prune_Sound Samples
begin

text \<open>
  The properties of scan pruning, with sample batches, and the two ways in which a matching row
  is lost: unsigned values beyond the signed range, and infinite floats.
\<close>

section \<open>Samples\<close>

definition pick :: "('a \<Rightarrow> 'a \<Rightarrow> bool) \<Rightarrow> 'a option list \<Rightarrow> 'a option" where
  "pick le vs = (case List.map_filter id vs of [] \<Rightarrow> None | v # ws \<Rightarrow> Some (foldl (\<lambda>a b. if le a b then a else b) v ws))"

lemma pick_foldl:
  assumes total: "\<forall>a b. le a b \<or> le b a" and trans: "\<forall>a b c. le a b \<longrightarrow> le b c \<longrightarrow> le a c"
  shows "foldl (\<lambda>a b. if le a b then a else b) v ws \<in> set (v # ws)
    \<and> (\<forall>w \<in> set (v # ws). le (foldl (\<lambda>a b. if le a b then a else b) v ws) w)"
proof (induction ws arbitrary: v)
  case Nil
  then show ?case using total by auto
next
  case (Cons w ws)
  let ?u = "if le v w then v else w"
  let ?r = "foldl (\<lambda>a b. if le a b then a else b) ?u ws"
  have "le ?u v" "le ?u w" using total by (auto split: if_splits)
  moreover have r: "?r \<in> set (?u # ws)" "le ?r ?u" "\<forall>x \<in> set ws. le ?r x" using Cons.IH [of ?u] by auto
  ultimately have "le ?r v" "le ?r w" using trans by blast+
  then show ?case using r by (auto split: if_splits)
qed

lemma picks_pick:
  assumes "\<forall>a b. le a b \<or> le b a" "\<forall>a b c. le a b \<longrightarrow> le b c \<longrightarrow> le a c"
  shows "picks le (pick le)"
proof -
  have "case pick le vs of None \<Rightarrow> \<forall>v. Some v \<notin> set vs | Some m \<Rightarrow> Some m \<in> set vs \<and> (\<forall>v. Some v \<in> set vs \<longrightarrow> le m v)"
    for vs :: "'a option list"
  proof -
    have mem: "v \<in> set (List.map_filter id vs) \<longleftrightarrow> Some v \<in> set vs" for v
      by (force simp: map_filter_def)
    show ?thesis
    proof (cases "List.map_filter id vs")
      case Nil
      then show ?thesis using mem by (simp add: pick_def)
    next
      case (Cons v ws)
      have "Some (foldl (\<lambda>a b. if le a b then a else b) v ws) \<in> set vs"
        using pick_foldl [OF assms, of v ws] mem unfolding Cons by blast
      moreover have "le (foldl (\<lambda>a b. if le a b then a else b) v ws) w" if "Some w \<in> set vs" for w
        using pick_foldl [OF assms, of v ws] mem that unfolding Cons by blast
      ultimately show ?thesis by (simp add: pick_def Cons)
    qed
  qed
  then show ?thesis by (simp add: picks_def)
qed

definition plain_kernels :: arrow_kernels where
  "plain_kernels = \<lparr>k_min_int = pick (\<le>), k_max_int = pick (\<ge>), k_min_bool = pick (\<le>), k_max_bool = pick (\<ge>),
     k_min_text = pick (\<le>), k_max_text = pick (\<ge>),
     k_min_f64 = pick (\<lambda>a b. total_key a \<le> total_key b), k_max_f64 = pick (\<lambda>a b. total_key b \<le> total_key a)\<rparr>"

lemma plain_kernels_law: "kernels_law plain_kernels"
  unfolding kernels_law_def plain_kernels_def by (intro conjI; simp; intro picks_pick; auto)


definition sample_column :: "arrow_column \<Rightarrow> nat \<Rightarrow> batch" where
  "sample_column c n = \<lparr>b_rows = n, b_columns = [(''c'', c)]\<rparr>"

definition sample_schema_of :: "string \<Rightarrow> table_schema" where
  "sample_schema_of ty = \<lparr>sc_schema_id = 1, sc_columns = [new_column ''c'' ty True], sc_partition_by = None, sc_sort = None,
     sc_agg_group_keys = None, sc_row_group_target_rows = 10, sc_row_group_target_bytes = 100,
     sc_dropped_columns = [], sc_max_field_id = 1\<rparr>"

definition sample_group :: "row_group_meta \<Rightarrow> unit planned_row_group" where
  "sample_group m = \<lparr>pr_data_path = ''t/rg.parquet'', pr_meta_path = ''t/rg.meta'', pr_meta = m, pr_partition_values = None,
     pr_snapshot = 1, pr_fallback = False, pr_deletes = None, pr_deleted_count = 0, pr_fragment_id = 0, pr_agg_state = None\<rparr>"

definition sample_plan :: "string \<Rightarrow> row_group_meta \<Rightarrow> unit scan_plan" where
  "sample_plan ty m = \<lparr>sp_table = ''t'', sp_schema = sample_schema_of ty, sp_row_groups = [sample_group m]\<rparr>"

lemma sample_meta_of:
  assumes "compute_min_max X K c = Inr (mn, mx)"
  shows "\<exists>m. compute_row_group_meta X K (\<lambda>_. None) ''rg'' 1 (sample_column c n) (sample_schema_of ty) bs ''t'' ids = Inr m
    \<and> rm_columns m = [(''c'', \<lparr>cs_min = mn, cs_max = mx, cs_nulls = of_nat (ac_null_count c)\<rparr>)]"
  using assms by (simp add: compute_row_group_meta_def sample_schema_of_def new_column_def sample_column_def
      column_by_name_def rgm_compute_checksum_def compute_meta_checksum_def Let_def)

lemma sample_columns_of:
  assumes "compute_row_group_meta X K footer rg_id sid (sample_column c n) (sample_schema_of ty) bs path ids = Inr m"
    "compute_min_max X K c = Inr (mn, mx)"
  shows "rm_columns m = [(''c'', \<lparr>cs_min = mn, cs_max = mx, cs_nulls = of_nat (ac_null_count c)\<rparr>)]"
  using assms by (auto simp: compute_row_group_meta_def sample_schema_of_def new_column_def sample_column_def
      column_by_name_def rgm_compute_checksum_def compute_meta_checksum_def Let_def res_bind_eq_Inr)

lemma prune_single:
  "prune (sample_plan ty m) [p] = map_sum id (\<lambda>keep. (sample_plan ty m)\<lparr>sp_row_groups := if keep then [sample_group m] else []\<rparr>)
    (row_group_satisfies p (sample_group m) [])"
  by (cases "row_group_satisfies p (sample_group m) []")
    (simp_all add: prune_def sample_plan_def sample_schema_of_def)

lemma picks_single: "picks le k \<Longrightarrow> k [Some v] = Some v"
proof -
  assume "picks le k"
  from spec [OF this [unfolded picks_def], of "[Some v]"] show ?thesis by (cases "k [Some v]") auto
qed

text \<open>Around \<open>2 ^ 63\<close> floats are 1024 apart.\<close>

lemma nat_as_f64_63: "nat_as_f64 (2 ^ 63 - 1) = nat_as_f64 (2 ^ 63 + 1)"
proof -
  have "bit_len (2 ^ 63 - 1) = 63" "bit_len (2 ^ 63 + 1) = 64"
    using bit_len_eq [of 62 "2 ^ 63 - 1"] bit_len_eq [of 63 "2 ^ 63 + 1"] by simp_all
  then show ?thesis by (simp add: nat_as_f64_def significand_def round_even_def Let_def)
qed

lemma compare_unsigned: "compare_values (jint (2 ^ 63 + 1)) (jint (2 ^ 63 - 1)) = Inr (Some Equal)"
proof -
  have "uint (word_of_int i :: u64) = i" if "0 \<le> i" "i < 2 ^ 64" for i :: int
    using that by (simp add: uint_word_of_int_eq take_bit_int_eq_self)
  then have u: "uint (word_of_int (2 ^ 63 + 1) :: u64) = 2 ^ 63 + 1" "uint (word_of_int (2 ^ 63 - 1) :: u64) = 2 ^ 63 - 1"
    by simp_all
  have "f64_partial_cmp (int_as_f64 (2 ^ 63 + 1)) (int_as_f64 (2 ^ 63 - 1)) = Some Equal"
    using int_as_f64_parts(1,2) [of "2 ^ 63 + 1"] int_as_f64_parts(1,2) [of "2 ^ 63 - 1"] nat_as_f64_63
    by (simp add: f64_partial_cmp_def)
  then show ?thesis using u by (simp add: jint_def)
qed

lemma value_lt_negative: "value_lt (jint (1 - 2 ^ 63)) (jint (2 ^ 63 + 1)) = Inr True"
proof -
  obtain a where a: "jint (1 - 2 ^ 63) = JNum a" "as_i64 a = Some (1 - 2 ^ 63)" using jint_as_i64 [of "1 - 2 ^ 63"] by (auto simp: fits_i64_def)
  have neg: "sint (word_of_int (1 - 2 ^ 63) :: u64) = 1 - 2 ^ 63"
    by (simp add: signed_of_int signed_take_bit_int_eq_self)
  then have af: "as_f64 a = int_as_f64 (1 - 2 ^ 63)" using a(1) by (auto simp: jint_def)
  have u: "uint (word_of_int (2 ^ 63 + 1) :: u64) = 2 ^ 63 + 1" by (simp add: uint_word_of_int_eq take_bit_int_eq_self)
  have "f64_partial_cmp (int_as_f64 (1 - 2 ^ 63)) (int_as_f64 (2 ^ 63 + 1)) = Some Less"
    using int_as_f64_parts(1,2) [of "2 ^ 63 + 1"] int_as_f64_parts(1,2) [of "1 - 2 ^ 63"]
      nat_as_f64_pos [of "2 ^ 63 + 1"] nat_as_f64_pos [of "2 ^ 63 - 1"]
    by (simp add: f64_partial_cmp_def)
  then have "compare_values (JNum a) (jint (2 ^ 63 + 1)) = Inr (Some Less)" using a(2) af u by (simp add: jint_def)
  then show ?thesis using a(1) by (simp add: value_ops)
qed

section \<open>Properties\<close>

text \<open>
  C9: Pruning is sound: when the statistics and partition values of a row group were computed from its
  batch, the columns the predicates name compare exactly and some row of the batch satisfies every
  predicate, the row group is in the pruned plan; and pruning adds no row group.
\<close>

theorem prune_keeps_matches:
  assumes K: "kernels_law K" and b: "batch_wf b" "b_rows b < 2 ^ 64"
    and meta: "compute_row_group_meta X K footer rg_id sid b schema bs path ids = Inr (pr_meta rg)"
    and pv: "case pr_partition_values rg of None \<Rightarrow> True
      | Some vs \<Rightarrow> compute_partition_values b (case sc_partition_by (sp_schema plan) of None \<Rightarrow> [] | Some cs \<Rightarrow> cs) path = Inr (Some vs)"
    and rg: "rg \<in> set (sp_row_groups plan)" and run: "prune plan ps = Inr plan'"
    and row: "i < b_rows b" "\<forall>p \<in> set ps. exact_pred b p \<and> row_matches b i p"
  shows "rg \<in> set (sp_row_groups plan') \<and> set (sp_row_groups plan') \<subseteq> set (sp_row_groups plan)"
proof -
  let ?pb = "case sc_partition_by (sp_schema plan) of None \<Rightarrow> [] | Some cs \<Rightarrow> cs"
  have pl: "planned_for X K ?pb b rg"
    using b row_group_meta_stats [OF meta] pv by (auto simp: planned_for_def split: option.splits)
  obtain rgs where rgs: "prune_groups ps ?pb (sp_row_groups plan) = Inr rgs" "plan' = plan\<lparr>sp_row_groups := rgs\<rparr>"
    using run by (cases "prune_groups ps ?pb (sp_row_groups plan)") (auto simp: prune_def Let_def)
  then show ?thesis
    using prune_groups_sub [OF rgs(1)] rg satisfies_all_sound [OF K pl row] by auto
qed

theorem prune_keeps_matches_witness:
  "\<exists>m plan'. compute_row_group_meta plain_ext plain_kernels (\<lambda>_. None) ''rg'' 1
        (sample_column (IntColumn DInt64 [Some 5, None, Some 9]) 3) (sample_schema_of ''int64'') [] ''t'' [] = Inr m
    \<and> prune (sample_plan ''int64'' m) [PGt ''c'' (LInt64 7)] = Inr plan' \<and> sample_group m \<in> set (sp_row_groups plan')"
proof -
  let ?c = "IntColumn DInt64 [Some 5, None, Some 9]"
  have "compute_min_max plain_ext plain_kernels ?c = Inr (Some (jint 5), Some (jint 9))"
    by (simp add: plain_kernels_def pick_def int_types_def map_filter_def)
  then obtain m where m: "compute_row_group_meta plain_ext plain_kernels (\<lambda>_. None) ''rg'' 1 (sample_column ?c 3)
      (sample_schema_of ''int64'') [] ''t'' [] = Inr m"
    "rm_columns m = [(''c'', \<lparr>cs_min = Some (jint 5), cs_max = Some (jint 9), cs_nulls = of_nat (ac_null_count ?c)\<rparr>)]"
    using sample_meta_of by blast
  have "\<exists>plan'. prune (sample_plan ''int64'' m) [PGt ''c'' (LInt64 7)] = Inr plan'"
    using compare_jint [of 9 7] m(2)
    by (auto simp: prune_def Let_def sample_plan_def sample_schema_of_def sample_group_def stats_outside_range_def value_ops fits_i64_def)
  then obtain plan' where run: "prune (sample_plan ''int64'' m) [PGt ''c'' (LInt64 7)] = Inr plan'" by blast
  have "batch_wf (sample_column ?c 3)" by (auto simp: batch_wf_def sample_column_def int_types_def in_type_def ac_len_def)
  moreover have "row_matches (sample_column ?c 3) 2 (PGt ''c'' (LInt64 7))"
    by (simp add: cell_test_def column_by_name_def sample_column_def)
  moreover have "exact_pred (sample_column ?c 3) (PGt ''c'' (LInt64 7))"
    by (auto simp: exact_pred_def column_by_name_def sample_column_def fits_i64_def)
  ultimately have "sample_group m \<in> set (sp_row_groups plan')"
    using prune_keeps_matches [OF plain_kernels_law, of "sample_column ?c 3" plain_ext "\<lambda>_. None" "''rg''" 1 "sample_schema_of ''int64''"
        "[]" "''t''" "[]" "sample_group m" "sample_plan ''int64'' m" "[PGt ''c'' (LInt64 7)]" plan' 2] m(1) run
    by (simp add: sample_group_def sample_plan_def sample_column_def)
  then show ?thesis using m(1) run by blast
qed

text \<open>
  C34: Values of an unsigned 64-bit column beyond the signed range are lost: with a single row of value
  \<open>2 ^ 63 + 1\<close> the comparison falls back to floats, where the value equals \<open>2 ^ 63 - 1\<close>, so \<open>c > 2 ^ 63 - 1\<close>
  drops the row group; and the literal itself wraps to a negative number, so that
  \<open>c = 2 ^ 63 + 1\<close> drops it too.
\<close>

theorem prune_loses_unsigned:
  assumes K: "kernels_law K" and b: "b = sample_column (IntColumn DUInt64 [Some (2 ^ 63 + 1)]) 1"
    and meta: "compute_row_group_meta X K footer rg_id sid b (sample_schema_of ''uint64'') bs path ids = Inr m"
  shows "row_matches b 0 (PGt ''c'' (LInt64 (2 ^ 63 - 1)))
    \<and> prune (sample_plan ''uint64'' m) [PGt ''c'' (LInt64 (2 ^ 63 - 1))] = Inr ((sample_plan ''uint64'' m)\<lparr>sp_row_groups := []\<rparr>)
    \<and> scalar_to_literal (QInt DUInt64 (2 ^ 63 + 1)) = Some (LInt64 (1 - 2 ^ 63))
    \<and> prune (sample_plan ''uint64'' m) [PEq ''c'' (LInt64 (1 - 2 ^ 63))] = Inr ((sample_plan ''uint64'' m)\<lparr>sp_row_groups := []\<rparr>)"
proof -
  let ?v = "2 ^ 63 + 1 :: int"
  have "picks (\<le>) (k_min_int K)" "picks (\<ge>) (k_max_int K)" using K by (simp_all add: kernels_law_def)
  then have mm: "compute_min_max X K (IntColumn DUInt64 [Some ?v]) = Inr (Some (jint ?v), Some (jint ?v))"
    using picks_single [of _ "k_min_int K" ?v] picks_single [of _ "k_max_int K" ?v] by (simp add: int_types_def)
  have cols: "rm_columns m = [(''c'', \<lparr>cs_min = Some (jint ?v), cs_max = Some (jint ?v), cs_nulls = 0\<rparr>)]"
    using sample_columns_of [OF meta [unfolded b] mm] by (simp add: ac_null_count_def)
  have "value_le (jint ?v) (jint (2 ^ 63 - 1)) = Inr True" using compare_unsigned by (simp add: value_ops)
  then have "row_group_satisfies (PGt ''c'' (LInt64 (2 ^ 63 - 1))) (sample_group m) [] = Inr False"
    using cols by (simp add: sample_group_def stats_outside_range_def)
  moreover have "row_group_satisfies (PEq ''c'' (LInt64 (1 - 2 ^ 63))) (sample_group m) [] = Inr False"
    using cols value_lt_negative by (simp add: sample_group_def stats_outside_range_def res_or_def)
  moreover have "as_signed64 ?v = 1 - 2 ^ 63"
    by (simp add: as_signed64_def signed_of_int signed_take_bit_eq_take_bit_minus take_bit_eq_mod)
  moreover have "row_matches b 0 (PGt ''c'' (LInt64 (2 ^ 63 - 1)))"
    by (simp add: b cell_test_def column_by_name_def sample_column_def)
  ultimately show ?thesis unfolding prune_single by simp
qed

theorem prune_loses_unsigned_witness:
  "\<exists>m. compute_row_group_meta plain_ext plain_kernels (\<lambda>_. None) ''rg'' 1
        (sample_column (IntColumn DUInt64 [Some (2 ^ 63 + 1)]) 1) (sample_schema_of ''uint64'') [] ''t'' [] = Inr m
    \<and> prune (sample_plan ''uint64'' m) [PGt ''c'' (LInt64 (2 ^ 63 - 1))] = Inr ((sample_plan ''uint64'' m)\<lparr>sp_row_groups := []\<rparr>)"
proof -
  let ?c = "IntColumn DUInt64 [Some (2 ^ 63 + 1)]"
  have "compute_min_max plain_ext plain_kernels ?c = Inr (Some (jint (2 ^ 63 + 1)), Some (jint (2 ^ 63 + 1)))"
    by (simp add: plain_kernels_def pick_def int_types_def map_filter_def)
  then obtain m where m: "compute_row_group_meta plain_ext plain_kernels (\<lambda>_. None) ''rg'' 1 (sample_column ?c 1)
      (sample_schema_of ''uint64'') [] ''t'' [] = Inr m"
    using sample_meta_of by blast
  then show ?thesis using prune_loses_unsigned [OF plain_kernels_law refl m] by blast
qed

section \<open>Infinite values\<close>

definition f64_one :: u64 where "f64_one = 4607182418800017408"
definition f64_two :: u64 where "f64_two = 4611686018427387904"
definition f64_infinity :: u64 where "f64_infinity = 9218868437227405312"

lemmas f64_samples = f64_one_def f64_two_def f64_infinity_def f64_mag_def f64_neg_def f64_inf_def
  is_nan_def is_finite_def f64_key_def f64_partial_cmp_def total_key_def

lemma max_infinity:
  assumes "kernels_law K"
  shows "k_max_f64 K [Some f64_one, Some f64_infinity] = Some f64_infinity"
proof -
  have "picks (\<lambda>a b. total_key b \<le> total_key a) (k_max_f64 K)" using assms by (simp add: kernels_law_def)
  from spec [OF this [unfolded picks_def], of "[Some f64_one, Some f64_infinity]"] show ?thesis
    by (cases "k_max_f64 K [Some f64_one, Some f64_infinity]") (auto simp: f64_samples split: if_splits)
qed

lemma infinite_min_max:
  assumes K: "kernels_law K" and X: "json_law X"
  shows "compute_min_max X K (FloatColumn DFloat64 [Some f64_one, Some f64_infinity])
    = Inr (Some (JNum (Float f64_one)), Some (JNum (Float f64_one)))"
proof -
  have fin: "is_finite f64_one" "\<not> is_finite f64_infinity" by (simp_all add: f64_samples)
  then have "finite_values [Some f64_one, Some f64_infinity] = [f64_one]" by (simp add: finite_values_def map_filter_def)
  moreover have "canonicalize_json_value X v = Inr v" for v by (simp add: canonicalize_json_value_def json_lawD [OF X] ok_or_def)
  ultimately have "finite_float_min_max X [Some f64_one, Some f64_infinity]
      = Inr (Some (JNum (Float f64_one)), Some (JNum (Float f64_one)))"
    using fin(1) by (simp add: finite_float_min_max_def Let_def opt_result_def f64_value_def)
  then show ?thesis using fin(2) max_infinity [OF K] by (simp add: float_min_max_def Let_def)
qed

text \<open>
  C35: An infinite value is not part of the statistics: with the rows \<open>1.0\<close> and infinity the recorded maximum
  is \<open>1.0\<close>, and \<open>c > 2.0\<close>, which the infinite row satisfies, drops the row group.
\<close>

theorem prune_loses_infinity:
  assumes K: "kernels_law K" and X: "json_law X" and b: "b = sample_column (FloatColumn DFloat64 [Some f64_one, Some f64_infinity]) 2"
    and meta: "compute_row_group_meta X K footer rg_id sid b (sample_schema_of ''float64'') bs path ids = Inr m"
  shows "row_matches b 1 (PGt ''c'' (LFloat64 f64_two))
    \<and> prune (sample_plan ''float64'' m) [PGt ''c'' (LFloat64 f64_two)] = Inr ((sample_plan ''float64'' m)\<lparr>sp_row_groups := []\<rparr>)"
proof -
  have cols: "rm_columns m = [(''c'', \<lparr>cs_min = Some (JNum (Float f64_one)), cs_max = Some (JNum (Float f64_one)), cs_nulls = 0\<rparr>)]"
    using sample_columns_of [OF meta [unfolded b] infinite_min_max [OF K X]] by (simp add: ac_null_count_def)
  have cmp: "f64_partial_cmp f64_one f64_two = Some Less" "f64_partial_cmp f64_infinity f64_two = Some Greater" "is_finite f64_two"
    by (simp_all add: f64_samples cmp_of_def)
  have "row_group_satisfies (PGt ''c'' (LFloat64 f64_two)) (sample_group m) [] = Inr False"
    using cols cmp by (simp add: sample_group_def stats_outside_range_def value_ops f64_value_def)
  moreover have "row_matches b 1 (PGt ''c'' (LFloat64 f64_two))"
    using cmp(2) by (simp add: b cell_test_def column_by_name_def sample_column_def)
  ultimately show ?thesis unfolding prune_single by simp
qed

theorem prune_loses_infinity_witness:
  "\<exists>m. compute_row_group_meta plain_ext plain_kernels (\<lambda>_. None) ''rg'' 1
        (sample_column (FloatColumn DFloat64 [Some f64_one, Some f64_infinity]) 2) (sample_schema_of ''float64'') [] ''t'' [] = Inr m
    \<and> prune (sample_plan ''float64'' m) [PGt ''c'' (LFloat64 f64_two)] = Inr ((sample_plan ''float64'' m)\<lparr>sp_row_groups := []\<rparr>)"
proof -
  obtain m where m: "compute_row_group_meta plain_ext plain_kernels (\<lambda>_. None) ''rg'' 1
      (sample_column (FloatColumn DFloat64 [Some f64_one, Some f64_infinity]) 2) (sample_schema_of ''float64'') [] ''t'' [] = Inr m"
    using sample_meta_of [OF infinite_min_max [OF plain_kernels_law plain_ext_law]] by blast
  then show ?thesis using prune_loses_infinity [OF plain_kernels_law plain_ext_law refl m] by blast
qed

end
