(* ===== verification/Agg_State.thy ===== *)
theory Agg_State
  imports Row_Batch Ordered_Map Deletion
begin

text \<open>
  Aggregate partials of a row group (\<^verbatim>\<open>crates/icefalldb-core/src/agg_cache.rs\<close>): per numeric column
  the number of non-null cells, their sum and the sum of their squares, computed from a batch when
  it is written, optionally per value of a grouping column, and merged across row groups.

  Integers are summed as \<^verbatim>\<open>i128\<close> with checked arithmetic, here an \<^typ>\<open>int\<close> with the range written
  out; floats with the additions and products of \<^verbatim>\<open>f64\<close>, defined below on the bits. Sketches are an
  optional feature that is off by default, so \<open>fa_distinct\<close> and \<open>fa_quantile\<close> are never filled.
\<close>

section \<open>Arithmetic\<close>

definition in_i128 :: "int \<Rightarrow> bool" where
  "in_i128 i \<longleftrightarrow> - (2 ^ 127) \<le> i \<and> i < 2 ^ 127"

definition checked_add_i128 :: "int \<Rightarrow> int \<Rightarrow> int option" where
  "checked_add_i128 a b = (if in_i128 (a + b) then Some (a + b) else None)"

definition checked_sub_i128 :: "int \<Rightarrow> int \<Rightarrow> int option" where
  "checked_sub_i128 a b = (if in_i128 (a - b) then Some (a - b) else None)"

definition checked_mul_i128 :: "int \<Rightarrow> int \<Rightarrow> int option" where
  "checked_mul_i128 a b = (if in_i128 (a * b) then Some (a * b) else None)"

text \<open>
  A finite \<^verbatim>\<open>f64\<close> is a multiple of \<open>2 ^ -1074\<close>; \<open>f64_units\<close> is the factor. \<open>f64_round s n\<close> is the
  magnitude nearest to \<open>n * 2 ^ -(1074 + s)\<close>, ties to even, and infinity past the largest one. The
  payload of a NaN is not specified by the language; one is chosen.
\<close>

definition f64_units :: "u64 \<Rightarrow> nat" where
  "f64_units b =
     (let e = f64_mag b div 2 ^ 52; f = f64_mag b mod 2 ^ 52
      in if e = 0 then f else (2 ^ 52 + f) * 2 ^ (e - 1))"

definition f64_round :: "nat \<Rightarrow> nat \<Rightarrow> nat" where
  "f64_round s n = (let t = max s (bit_len n - 53) in min f64_inf ((t - s) * 2 ^ 52 + round_even t n))"

definition f64_make :: "bool \<Rightarrow> nat \<Rightarrow> u64" where
  "f64_make neg mag = of_nat (mag + (if neg then 2 ^ 63 else 0))"

definition f64_nan :: u64 where
  "f64_nan = f64_make False (f64_inf + 2 ^ 51)"

definition f64_negate :: "u64 \<Rightarrow> u64" where
  "f64_negate b = f64_make (\<not> f64_neg b) (f64_mag b)"

definition f64_add :: "u64 \<Rightarrow> u64 \<Rightarrow> u64" where
  "f64_add a b =
     (if is_nan a \<or> is_nan b then f64_nan
      else if \<not> is_finite a then (if \<not> is_finite b \<and> f64_neg a \<noteq> f64_neg b then f64_nan else a)
      else if \<not> is_finite b then b
      else
        let signed = (\<lambda>c. if f64_neg c then - int (f64_units c) else int (f64_units c));
            i = signed a + signed b
        in if i = 0 then f64_make (f64_neg a \<and> f64_neg b) 0
           else f64_make (i < 0) (f64_round 0 (nat \<bar>i\<bar>)))"

definition f64_sub :: "u64 \<Rightarrow> u64 \<Rightarrow> u64" where
  "f64_sub a b = f64_add a (f64_negate b)"

definition f64_mul :: "u64 \<Rightarrow> u64 \<Rightarrow> u64" where
  "f64_mul a b =
     (let neg = (f64_neg a \<noteq> f64_neg b)
      in if is_nan a \<or> is_nan b then f64_nan
         else if is_finite a \<and> is_finite b then f64_make neg (f64_round 1074 (f64_units a * f64_units b))
         else if f64_mag a = 0 \<or> f64_mag b = 0 then f64_nan
         else f64_make neg f64_inf)"

section \<open>Partials\<close>

datatype agg_scalar = AInt int | AFloat u64 | ANull

record col_agg =
  ca_count_non_null :: u64
  ca_sum :: agg_scalar
  ca_sumsq :: agg_scalar
  ca_min_off :: "u32 option"
  ca_max_off :: "u32 option"
  ca_live_min :: "json option"
  ca_live_max :: "json option"

type_synonym col_aggs = "(string \<times> col_agg) list"

record grouped_partials =
  gp_key_col :: string
  gp_groups :: "(bytes \<times> col_aggs) list"

record fragment_agg_state =
  fa_fragment_id :: u64
  fa_content_hash :: string
  fa_cols :: col_aggs
  fa_grouped :: "grouped_partials option"
  fa_distinct :: "(string \<times> bytes) list option"
  fa_quantile :: "(string \<times> bytes) list option"

definition plain_agg :: "u64 \<Rightarrow> agg_scalar \<Rightarrow> agg_scalar \<Rightarrow> col_agg" where
  "plain_agg n s q = \<lparr>ca_count_non_null = n, ca_sum = s, ca_sumsq = q, ca_min_off = None,
     ca_max_off = None, ca_live_min = None, ca_live_max = None\<rparr>"

definition null_agg :: col_agg where
  "null_agg = plain_agg 0 ANull ANull"

text \<open>One non-null integer: the count, the sum and the squares, or overflow.\<close>

definition add_int :: "int \<Rightarrow> u64 \<times> int \<times> int \<Rightarrow> (u64 \<times> int \<times> int) option" where
  "add_int v acc =
     (case acc of (n, s, q) \<Rightarrow>
        (case checked_add_i128 s v of
           None \<Rightarrow> None
         | Some s' \<Rightarrow>
             (case checked_mul_i128 v v of
                None \<Rightarrow> None
              | Some sq \<Rightarrow> map_option (\<lambda>q'. (n + 1, s', q')) (checked_add_i128 q sq))))"

definition add_float :: "u64 \<Rightarrow> u64 \<times> u64 \<times> u64 \<Rightarrow> u64 \<times> u64 \<times> u64" where
  "add_float v acc = (case acc of (n, s, q) \<Rightarrow> (n + 1, f64_add s v, f64_add q (f64_mul v v)))"

text \<open>The extremum so far with the offset of its first occurrence.\<close>

definition track :: "(int \<Rightarrow> int \<Rightarrow> bool) \<Rightarrow> int \<Rightarrow> nat \<Rightarrow> (int \<times> u32) option \<Rightarrow> (int \<times> u32) option" where
  "track better v i best =
     (case best of
        None \<Rightarrow> Some (v, of_nat i)
      | Some (m, _) \<Rightarrow> if better v m then Some (v, of_nat i) else best)"

fun int_col_loop ::
  "nat \<Rightarrow> int option list \<Rightarrow> u64 \<times> int \<times> int \<Rightarrow> (int \<times> u32) option \<Rightarrow> (int \<times> u32) option \<Rightarrow>
   ((u64 \<times> int \<times> int) \<times> (int \<times> u32) option \<times> (int \<times> u32) option) option" where
  "int_col_loop i [] acc mn mx = Some (acc, mn, mx)"
| "int_col_loop i (None # vs) acc mn mx = int_col_loop (i + 1) vs acc mn mx"
| "int_col_loop i (Some v # vs) acc mn mx =
     (case add_int v acc of
        None \<Rightarrow> None
      | Some acc' \<Rightarrow> int_col_loop (i + 1) vs acc' (track (<) v i mn) (track (>) v i mx))"

definition compute_signed_int_col :: "nat \<Rightarrow> int option list \<Rightarrow> col_agg option" where
  "compute_signed_int_col null_count vs =
     (if null_count = length vs then Some null_agg
      else map_option (\<lambda>((n, s, q), mn, mx).
             (plain_agg n (AInt s) (AInt q))\<lparr>ca_min_off := map_option snd mn, ca_max_off := map_option snd mx\<rparr>)
           (int_col_loop 0 vs (0, 0, 0) None None))"

definition float_loop :: "u64 option list \<Rightarrow> u64 \<times> u64 \<times> u64 \<Rightarrow> u64 \<times> u64 \<times> u64" where
  "float_loop vs acc = foldl (\<lambda>acc v. case v of None \<Rightarrow> acc | Some x \<Rightarrow> add_float x acc) acc vs"

definition compute_float_col :: "nat \<Rightarrow> u64 option list \<Rightarrow> col_agg" where
  "compute_float_col null_count vs =
     (if null_count = length vs then null_agg
      else case float_loop vs (0, 0, 0) of (n, s, q) \<Rightarrow> plain_agg n (AFloat s) (AFloat q))"

text \<open>The partial of a column, by its type; columns that are not numeric have none.\<close>

fun column_agg :: "arrow_column \<Rightarrow> col_agg option" where
  "column_agg (IntColumn t vs) =
     (if t \<in> set int_types then compute_signed_int_col (ac_null_count (IntColumn t vs)) vs else None)"
| "column_agg (FloatColumn t vs) = Some (compute_float_col (ac_null_count (FloatColumn t vs)) vs)"
| "column_agg _ = None"

definition compute_agg_state :: "u64 \<Rightarrow> string \<Rightarrow> batch \<Rightarrow> fragment_agg_state" where
  "compute_agg_state fragment_id content_hash b =
     \<lparr>fa_fragment_id = fragment_id, fa_content_hash = content_hash,
      fa_cols = foldl (\<lambda>cols (name, c). case column_agg c of None \<Rightarrow> cols | Some a \<Rightarrow> bt_insert name a cols)
                  [] (b_columns b),
      fa_grouped = None, fa_distinct = None, fa_quantile = None\<rparr>"

section \<open>Partials per group\<close>

definition MAX_DECLARED_GROUPS :: nat where
  "MAX_DECLARED_GROUPS = 4096"

text \<open>The key of a row is the JSON text of its cell.\<close>

fun cell_json :: "arrow_column \<Rightarrow> nat \<Rightarrow> json option" where
  "cell_json (IntColumn t vs) row =
     (case vs ! row of None \<Rightarrow> Some JNull | Some v \<Rightarrow> if t \<in> set int_types then Some (jint v) else None)"
| "cell_json (TextColumn t vs) row = Some (case vs ! row of None \<Rightarrow> JNull | Some v \<Rightarrow> JStr v)"
| "cell_json (BoolColumn vs) row = Some (case vs ! row of None \<Rightarrow> JNull | Some v \<Rightarrow> JBool v)"
| "cell_json (FloatColumn t vs) row = (case vs ! row of None \<Rightarrow> Some JNull | Some v \<Rightarrow> None)"
| "cell_json (OtherColumn t valid) row = (if valid ! row then None else Some JNull)"

definition null_key :: bytes where
  "null_key = [110, 117, 108, 108]"

definition arrow_scalar_to_group_key_string :: "ext \<Rightarrow> arrow_column \<Rightarrow> nat \<Rightarrow> bytes option" where
  "arrow_scalar_to_group_key_string X c row =
     map_option (\<lambda>v. if v = JNull then null_key else json_to_string X v) (cell_json c row)"

text \<open>The rows of each key, in order; no map at all when a key cannot be written.\<close>

fun group_rows :: "ext \<Rightarrow> arrow_column \<Rightarrow> nat list \<Rightarrow> (bytes \<times> nat list) list \<Rightarrow> (bytes \<times> nat list) list option" where
  "group_rows X c [] acc = Some acc"
| "group_rows X c (row # rows) acc =
     (case arrow_scalar_to_group_key_string X c row of
        None \<Rightarrow> None
      | Some key \<Rightarrow> group_rows X c rows (bt_push key row acc))"

fun fold_ints :: "int list \<Rightarrow> u64 \<times> int \<times> int \<Rightarrow> (u64 \<times> int \<times> int) option" where
  "fold_ints [] acc = Some acc"
| "fold_ints (v # vs) acc = Option.bind (add_int v acc) (fold_ints vs)"

fun non_null :: "'a option list \<Rightarrow> 'a list" where
  "non_null [] = []"
| "non_null (None # vs) = non_null vs"
| "non_null (Some v # vs) = v # non_null vs"

definition int_result :: "u64 \<times> int \<times> int \<Rightarrow> col_agg" where
  "int_result acc = (case acc of (n, s, q) \<Rightarrow> if n = 0 then null_agg else plain_agg n (AInt s) (AInt q))"

definition float_result :: "u64 \<times> u64 \<times> u64 \<Rightarrow> col_agg" where
  "float_result acc = (case acc of (n, s, q) \<Rightarrow> if n = 0 then null_agg else plain_agg n (AFloat s) (AFloat q))"

definition fold_int_rows_to_col_agg :: "int option list \<Rightarrow> nat list \<Rightarrow> col_agg option" where
  "fold_int_rows_to_col_agg vs rows =
     map_option int_result (fold_ints (non_null (map ((!) vs) rows)) (0, 0, 0))"

definition fold_float_rows_to_col_agg :: "u64 option list \<Rightarrow> nat list \<Rightarrow> col_agg" where
  "fold_float_rows_to_col_agg vs rows = float_result (float_loop (map ((!) vs) rows) (0, 0, 0))"

fun fold_rows :: "arrow_column \<Rightarrow> nat list \<Rightarrow> col_agg option" where
  "fold_rows (IntColumn t vs) rows =
     (if t \<in> set int_types then fold_int_rows_to_col_agg vs rows else None)"
| "fold_rows (FloatColumn t vs) rows = Some (fold_float_rows_to_col_agg vs rows)"
| "fold_rows _ rows = None"

definition group_cols :: "batch \<Rightarrow> string list \<Rightarrow> nat list \<Rightarrow> col_aggs" where
  "group_cols b names rows =
     foldl (\<lambda>cols name.
       case Option.bind (column_by_name b name) (\<lambda>c. fold_rows c rows) of
         None \<Rightarrow> cols | Some a \<Rightarrow> bt_insert name a cols) [] names"

definition compute_agg_state_with_key ::
  "ext \<Rightarrow> u64 \<Rightarrow> string \<Rightarrow> batch \<Rightarrow> string option \<Rightarrow> fragment_agg_state" where
  "compute_agg_state_with_key X fragment_id content_hash b key_col =
     (let base = compute_agg_state fragment_id content_hash b
      in case key_col of
           None \<Rightarrow> base
         | Some key_name \<Rightarrow>
             (case column_by_name b key_name of
                None \<Rightarrow> base
              | Some key \<Rightarrow>
                  (case group_rows X key [0..<b_rows b] [] of
                     None \<Rightarrow> base
                   | Some buckets \<Rightarrow>
                       if MAX_DECLARED_GROUPS < length buckets then base
                       else base\<lparr>fa_grouped := Some \<lparr>gp_key_col = key_name,
                              gp_groups = foldl (\<lambda>gs (key, rows).
                                 bt_insert key (group_cols b (map fst (fa_cols base)) rows) gs) [] buckets\<rparr>\<rparr>)))"

section \<open>Merging\<close>

fun merge_scalar :: "agg_scalar \<Rightarrow> agg_scalar \<Rightarrow> agg_scalar option" where
  "merge_scalar (AInt a) (AInt b) = map_option AInt (checked_add_i128 a b)"
| "merge_scalar (AFloat a) (AFloat b) = Some (AFloat (f64_add a b))"
| "merge_scalar ANull b = Some b"
| "merge_scalar a ANull = Some a"
| "merge_scalar a b = None"

definition merge_two_col_aggs :: "col_agg \<Rightarrow> col_agg \<Rightarrow> col_agg option" where
  "merge_two_col_aggs a b =
     (let n = ca_count_non_null a + ca_count_non_null b
      in Option.bind (merge_scalar (ca_sum a) (ca_sum b)) (\<lambda>s.
           map_option (plain_agg n s) (merge_scalar (ca_sumsq a) (ca_sumsq b))))"

definition merge_cols :: "col_aggs \<Rightarrow> col_aggs \<Rightarrow> col_aggs" where
  "merge_cols entry cols =
     foldl (\<lambda>entry (name, incoming).
       case map_of entry name of
         None \<Rightarrow> bt_insert name incoming entry
       | Some existing \<Rightarrow>
           (case merge_two_col_aggs existing incoming of
              Some a \<Rightarrow> bt_insert name a entry
            | None \<Rightarrow> bt_remove name entry)) entry cols"

text \<open>The assertion on the key columns is the error branch.\<close>

definition merge_grouped :: "grouped_partials list \<Rightarrow> (bytes \<times> col_aggs) list result" where
  "merge_grouped parts =
     (case parts of
        [] \<Rightarrow> Inr []
      | p # ps \<Rightarrow>
          if \<exists>p' \<in> set ps. gp_key_col p' \<noteq> gp_key_col p then Inl Panic
          else Inr (foldl (\<lambda>merged part.
                 foldl (\<lambda>merged (key, cols).
                   bt_update key (\<lambda>old. merge_cols (case old of None \<Rightarrow> [] | Some e \<Rightarrow> e) cols) merged)
                 merged (gp_groups part)) [] parts))"

section \<open>Integer partials in closed form\<close>

abbreviation squares :: "int list \<Rightarrow> int" where
  "squares xs \<equiv> sum_list (map (\<lambda>v. v * v) xs)"

lemma abs_le_square: "\<bar>v\<bar> \<le> v * (v :: int)"
proof (cases "v = 0")
  case False
  then have "1 * \<bar>v\<bar> \<le> \<bar>v\<bar> * \<bar>v\<bar>" by (intro mult_right_mono) auto
  then show ?thesis by simp
qed simp

lemma squares_nonneg [simp]: "0 \<le> squares xs"
  by (induction xs) (simp_all add: add_nonneg_nonneg)

lemma sum_le_squares: "\<bar>sum_list xs\<bar> \<le> squares (xs :: int list)"
proof (induction xs)
  case (Cons v xs)
  then show ?case using abs_le_square [of v] by simp
qed simp

lemma in_i128_of_squares: "squares xs < 2 ^ 127 \<Longrightarrow> in_i128 (sum_list xs) \<and> in_i128 (squares xs)"
  using sum_le_squares [of xs] squares_nonneg [of xs] unfolding in_i128_def by linarith

text \<open>The squares bound every partial sum, so the fold overflows exactly when their total does.\<close>

lemma fold_ints_eq:
  assumes "squares ys < 2 ^ 127"
  shows "fold_ints xs (of_nat (length ys), sum_list ys, squares ys) =
    (if squares (ys @ xs) < 2 ^ 127 then Some (of_nat (length (ys @ xs)), sum_list (ys @ xs), squares (ys @ xs)) else None)"
  using assms
proof (induction xs arbitrary: ys)
  case (Cons v xs)
  have le: "squares (ys @ [v]) \<le> squares (ys @ v # xs)" by simp
  show ?case
  proof (cases "squares (ys @ [v]) < 2 ^ 127")
    case True
    have "in_i128 (sum_list ys + v)" "in_i128 (squares ys + v * v)"
      using in_i128_of_squares [OF True] by simp_all
    moreover have "in_i128 (v * v)"
    proof -
      have "v * v \<le> squares (ys @ [v])" using squares_nonneg [of ys] by simp
      then show ?thesis using True zero_le_square [of v] unfolding in_i128_def by linarith
    qed
    ultimately have "add_int v (of_nat (length ys), sum_list ys, squares ys)
        = Some (of_nat (length (ys @ [v])), sum_list (ys @ [v]), squares (ys @ [v]))"
      by (simp add: add_int_def checked_add_i128_def checked_mul_i128_def)
    then show ?thesis using Cons.IH [OF True] by simp
  next
    case False
    have "\<not> in_i128 (squares ys + v * v)" using False by (simp add: in_i128_def)
    then have "add_int v (of_nat (length ys), sum_list ys, squares ys) = None"
      by (simp add: add_int_def checked_add_i128_def checked_mul_i128_def)
    moreover have "\<not> squares (ys @ v # xs) < 2 ^ 127" using False le by linarith
    ultimately show ?thesis by simp
  qed
qed simp

lemma fold_ints_0:
  "fold_ints xs (0, 0, 0) = (if squares xs < 2 ^ 127 then Some (of_nat (length xs), sum_list xs, squares xs) else None)"
  using fold_ints_eq [of "[]" xs] by simp

lemma int_col_loop_acc:
  "map_option fst (int_col_loop i vs acc mn mx) = fold_ints (non_null vs) acc"
  by (induction i vs acc mn mx rule: int_col_loop.induct) (auto split: option.splits)

text \<open>What a partial says of the non-null values \<open>xs\<close> it stands for.\<close>

definition partial_of :: "col_agg \<Rightarrow> int list \<Rightarrow> bool" where
  "partial_of a xs \<longleftrightarrow> ca_count_non_null a = of_nat (length xs)
     \<and> (ca_sum a = AInt (sum_list xs) \<and> ca_sumsq a = AInt (squares xs)
        \<or> xs = [] \<and> ca_sum a = ANull \<and> ca_sumsq a = ANull)"

lemma partial_of_null [simp]: "partial_of null_agg []"
  by (simp add: partial_of_def null_agg_def plain_agg_def)

lemma non_null_Nil_iff: "non_null vs = [] \<longleftrightarrow> length (filter Not (map (\<lambda>v. v \<noteq> None) vs)) = length vs"
proof -
  have "non_null vs = [] \<longleftrightarrow> (\<forall>v \<in> set vs. v = None)" by (induction vs rule: non_null.induct) auto
  also have "\<dots> \<longleftrightarrow> filter Not (map (\<lambda>v. v \<noteq> None) vs) = map (\<lambda>v. v \<noteq> None) vs"
    by (auto simp: filter_id_conv)
  also have "\<dots> \<longleftrightarrow> length (filter Not (map (\<lambda>v. v \<noteq> None) vs)) = length (map (\<lambda>v. v \<noteq> None) vs)"
    using filter_True length_filter_less by (metis filter_id_conv less_irrefl)
  finally show ?thesis by simp
qed

lemma set_non_null: "v \<in> set (non_null vs) \<longleftrightarrow> Some v \<in> set vs"
  by (induction vs rule: non_null.induct) auto

lemma non_null_append: "non_null (xs @ ys) = non_null xs @ non_null ys"
  by (induction xs rule: non_null.induct) auto

lemma int_result_partial:
  assumes "length xs < 2 ^ 64" "fold_ints xs (0, 0, 0) = Some acc"
  shows "partial_of (int_result acc) xs"
proof -
  have "acc = (of_nat (length xs), sum_list xs, squares xs)" using assms(2) by (simp add: fold_ints_0 split: if_splits)
  moreover have "(of_nat (length xs) :: u64) = 0 \<longleftrightarrow> xs = []"
    using assms(1) nat_dvd_not_less [of "length xs" "2 ^ 64"] by (auto simp: word_of_nat_eq_0_iff)
  ultimately show ?thesis by (simp add: int_result_def partial_of_def null_agg_def plain_agg_def)
qed

text \<open>The tracked offset is that of an extremal cell.\<close>

definition best_at :: "(int \<Rightarrow> int \<Rightarrow> bool) \<Rightarrow> int option list \<Rightarrow> (int \<times> u32) option \<Rightarrow> bool" where
  "best_at le vs best \<longleftrightarrow>
     (case best of
        None \<Rightarrow> non_null vs = []
      | Some (m, off) \<Rightarrow> (\<exists>j < length vs. vs ! j = Some m \<and> off = of_nat j) \<and> (\<forall>v. Some v \<in> set vs \<longrightarrow> le m v))"

lemma best_at_track:
  assumes "best_at le vs best" "\<And>a b. \<not> better b a \<Longrightarrow> le a b" "\<And>a b. better a b \<Longrightarrow> le a b"
    "\<And>a b c. le a b \<Longrightarrow> le b c \<Longrightarrow> le a c"
  shows "best_at le (vs @ [Some v]) (track better v (length vs) best)"
proof (cases best)
  case None
  then have "set vs \<subseteq> {None}" using assms(1) set_non_null [of _ vs] by (auto simp: best_at_def) (metis option.exhaust)
  moreover have "le v v" using assms(2,3) by blast
  ultimately show ?thesis using None by (fastforce simp: best_at_def track_def nth_append)
next
  case (Some p)
  obtain m off where p: "p = (m, off)" by fastforce
  show ?thesis
  proof (cases "better v m")
    case True
    have "le v v" "le v m" using assms(2,3) True by blast+
    moreover have "Some w \<in> set vs \<Longrightarrow> le v w" for w
      using assms(1) Some p \<open>le v m\<close> assms(4) by (auto simp: best_at_def)
    ultimately show ?thesis using Some p True by (fastforce simp: best_at_def track_def nth_append)
  next
    case False
    then have "le m v" using assms(2) by blast
    then show ?thesis using Some p False assms(1) by (fastforce simp: best_at_def track_def nth_append)
  qed
qed

lemma best_at_None: "best_at le vs best \<Longrightarrow> best_at le (vs @ [None]) best"
  by (fastforce simp: best_at_def non_null_append nth_append split: option.splits)

lemma int_col_loop_best:
  assumes "int_col_loop i vs acc mn mx = Some (acc', mn', mx')" "i = length ws"
    "best_at (\<le>) ws mn" "best_at (\<ge>) ws mx"
  shows "best_at (\<le>) (ws @ vs) mn' \<and> best_at (\<ge>) (ws @ vs) mx'"
  using assms
proof (induction i vs acc mn mx arbitrary: ws rule: int_col_loop.induct)
  case (2 i vs acc mn mx)
  then show ?case using 2(1) [of "ws @ [None]"] best_at_None by simp
next
  case (3 i v vs acc mn mx)
  then obtain acc1 where "add_int v acc = Some acc1" by (auto split: option.splits)
  then show ?case
    using 3(1) [of acc1 "ws @ [Some v]"] 3(2-5) best_at_track [OF 3(4), of "(<)" v] best_at_track [OF 3(5), of "(>)" v] by simp
qed simp

lemma compute_signed_int_col_spec:
  assumes "compute_signed_int_col (ac_null_count (IntColumn t vs)) vs = Some a"
  shows "partial_of a (non_null vs) \<and> squares (non_null vs) < 2 ^ 127
    \<and> (\<exists>mn mx. best_at (\<le>) vs mn \<and> best_at (\<ge>) vs mx \<and> ca_min_off a = map_option snd mn \<and> ca_max_off a = map_option snd mx)"
proof (cases "non_null vs = []")
  case True
  then have "a = null_agg" using assms non_null_Nil_iff [of vs] by (simp add: compute_signed_int_col_def ac_null_count_def)
  moreover have "best_at le vs None" for le using True by (simp add: best_at_def)
  ultimately show ?thesis using True by (intro conjI exI [of _ None]) (simp_all add: null_agg_def plain_agg_def partial_of_def)
next
  case False
  then obtain acc mn mx where l: "int_col_loop 0 vs (0, 0, 0) None None = Some (acc, mn, mx)"
    and a: "a = (case acc of (n, s, q) \<Rightarrow> (plain_agg n (AInt s) (AInt q))\<lparr>ca_min_off := map_option snd mn, ca_max_off := map_option snd mx\<rparr>)"
    using assms non_null_Nil_iff [of vs] by (auto simp: compute_signed_int_col_def ac_null_count_def split: prod.splits)
  have "fold_ints (non_null vs) (0, 0, 0) = Some acc" using int_col_loop_acc [of 0 vs "(0, 0, 0)" None None] l by simp
  then have acc: "acc = (of_nat (length (non_null vs)), sum_list (non_null vs), squares (non_null vs))" "squares (non_null vs) < 2 ^ 127"
    by (simp_all add: fold_ints_0 split: if_splits)
  show ?thesis
    using int_col_loop_best [OF l, of "[]"] acc a
    by (intro conjI exI [of _ mn] exI [of _ mx]) (simp_all add: best_at_def partial_of_def plain_agg_def)
qed

lemma cols_fold_get:
  assumes "distinct (map fst cs)" "bt_wf acc" "fst ` set cs \<inter> fst ` set acc = {}"
  shows "bt_wf (foldl (\<lambda>cols (name, c). case f c of None \<Rightarrow> cols | Some a \<Rightarrow> bt_insert name a cols) acc cs)
    \<and> map_of (foldl (\<lambda>cols (name, c). case f c of None \<Rightarrow> cols | Some a \<Rightarrow> bt_insert name a cols) acc cs) =
      map_of acc ++ (\<lambda>n. Option.bind (map_of cs n) f)"
  using assms
proof (induction cs arbitrary: acc)
  case (Cons p cs)
  obtain n c where p: "p = (n, c)" by fastforce
  have nin: "map_of cs n = None" "map_of acc n = None" using Cons.prems(1,3) p by (auto simp: map_of_eq_None_iff)
  show ?case
  proof (cases "f c")
    case None
    moreover have "fst ` set cs \<inter> fst ` set acc = {}" using Cons.prems(3) by auto
    moreover have "map_of acc ++ (\<lambda>m. Option.bind (map_of cs m) f) = map_of acc ++ (\<lambda>m. Option.bind (map_of (p # cs) m) f)"
      using nin None p by (auto simp: map_add_def fun_eq_iff)
    ultimately show ?thesis using Cons.IH [of acc] Cons.prems p by simp
  next
    case (Some a)
    have k: "fst ` set (bt_insert n a acc) = insert n (fst ` set acc)" by (simp add: bt_insert_def)
    have "fst ` set cs \<inter> fst ` set (bt_insert n a acc) = {}" using Cons.prems(1,3) p k by auto
    moreover have "map_of (bt_insert n a acc) ++ (\<lambda>m. Option.bind (map_of cs m) f) = map_of acc ++ (\<lambda>m. Option.bind (map_of (p # cs) m) f)"
      using nin Some p Cons.prems(2) by (auto simp: map_add_def fun_eq_iff split: option.splits)
    moreover have "bt_wf (bt_insert n a acc)" "distinct (map fst cs)" using Cons.prems(1,2) p by simp_all
    ultimately show ?thesis using Cons.IH [of "bt_insert n a acc"] p Some by (simp del: bt_insert_get)
  qed
qed simp

lemma compute_agg_state_cols:
  assumes "distinct (map fst (b_columns b))"
  shows "bt_wf (fa_cols (compute_agg_state fid h b))"
    "map_of (fa_cols (compute_agg_state fid h b)) n = Option.bind (column_by_name b n) column_agg"
  using cols_fold_get [OF assms, of "[]" column_agg] by (simp_all add: compute_agg_state_def column_by_name_def)

end
