(* ===== verification/Lru_Cache.thy ===== *)
theory Lru_Cache
  imports Prelude "HOL-Library.AList"
begin

text \<open>
  The two process-wide caches, \<^verbatim>\<open>crates/icefalldb-core/src/meta_cache.rs\<close> (\<open>MetaCache\<close>) and
  \<^verbatim>\<open>AggStateCache\<close> of \<^verbatim>\<open>agg_cache.rs\<close>: bounded maps from a path to a decoded file, with the
  least recently used key first in \<open>lc_order\<close>. A \<^verbatim>\<open>get\<close> takes the lock twice, once to look up and once
  to move the key to the back, so other threads may run in between: \<open>cache_step\<close> is the relation
  of the critical sections. A poisoned lock is left out.
\<close>

section \<open>Operations\<close>

record 'v lru =
  lc_capacity :: nat
  lc_entries :: "(string \<times> 'v) list"
  lc_order :: "string list"

definition mc_new :: "nat \<Rightarrow> 'v lru" where
  "mc_new capacity = \<lparr>lc_capacity = capacity, lc_entries = [], lc_order = []\<rparr>"

definition mc_lookup :: "'v lru \<Rightarrow> string \<Rightarrow> 'v option" where
  "mc_lookup c path = map_of (lc_entries c) path"

text \<open>The second half of a hit, under the write lock.\<close>

definition mc_promote :: "string \<Rightarrow> 'v lru \<Rightarrow> 'v lru" where
  "mc_promote path c =
     (if map_of (lc_entries c) path \<noteq> None
      then c\<lparr>lc_order := filter (\<lambda>k. k \<noteq> path) (lc_order c) @ [path]\<rparr> else c)"

definition mc_get :: "'v lru \<Rightarrow> string \<Rightarrow> 'v option \<times> 'v lru" where
  "mc_get c path =
     (case mc_lookup c path of None \<Rightarrow> (None, c) | Some v \<Rightarrow> (Some v, mc_promote path c))"

definition mc_put :: "string \<Rightarrow> 'v \<Rightarrow> 'v lru \<Rightarrow> 'v lru" where
  "mc_put path v c =
     (if lc_capacity c = 0 then c
      else
        let existed = map_of (lc_entries c) path \<noteq> None;
            order = (if existed then filter (\<lambda>k. k \<noteq> path) (lc_order c) else lc_order c) @ [path];
            entries = AList.update path v (lc_entries c)
        in if \<not> existed \<and> lc_capacity c < length order
           then (case order of
                   [] \<Rightarrow> c\<lparr>lc_order := [], lc_entries := entries\<rparr>
                 | evicted # rest \<Rightarrow> c\<lparr>lc_order := rest, lc_entries := AList.delete evicted entries\<rparr>)
           else c\<lparr>lc_order := order, lc_entries := entries\<rparr>)"

definition mc_clear :: "'v lru \<Rightarrow> 'v lru" where
  "mc_clear c = c\<lparr>lc_entries := [], lc_order := []\<rparr>"

definition mc_len :: "'v lru \<Rightarrow> nat" where
  "mc_len c = card (dom (map_of (lc_entries c)))"

text \<open>The aggregate cache counts hits and misses beside the same operations.\<close>

record 'v agg_cache =
  gc_inner :: "'v lru"
  gc_hits :: u64
  gc_misses :: u64

definition gc_new :: "nat \<Rightarrow> 'v agg_cache" where
  "gc_new capacity = \<lparr>gc_inner = mc_new capacity, gc_hits = 0, gc_misses = 0\<rparr>"

definition gc_get :: "'v agg_cache \<Rightarrow> string \<Rightarrow> 'v option \<times> 'v agg_cache" where
  "gc_get c path =
     (case mc_lookup (gc_inner c) path of
        Some v \<Rightarrow> (Some v, c\<lparr>gc_hits := gc_hits c + 1, gc_inner := mc_promote path (gc_inner c)\<rparr>)
      | None \<Rightarrow> (None, c\<lparr>gc_misses := gc_misses c + 1\<rparr>))"

definition gc_put :: "string \<Rightarrow> 'v \<Rightarrow> 'v agg_cache \<Rightarrow> 'v agg_cache" where
  "gc_put path v c = c\<lparr>gc_inner := mc_put path v (gc_inner c)\<rparr>"

definition gc_clear :: "'v agg_cache \<Rightarrow> 'v agg_cache" where
  "gc_clear c = c\<lparr>gc_inner := mc_clear (gc_inner c)\<rparr>"

definition gc_stats :: "'v agg_cache \<Rightarrow> u64 \<times> u64" where
  "gc_stats c = (gc_hits c, gc_misses c)"

definition gc_reset_stats :: "'v agg_cache \<Rightarrow> 'v agg_cache" where
  "gc_reset_stats c = c\<lparr>gc_hits := 0, gc_misses := 0\<rparr>"

section \<open>Critical sections\<close>

text \<open>One step of some thread; the last component collects what was ever put.\<close>

inductive cache_step :: "'v lru \<times> (string \<times> 'v) set \<Rightarrow> 'v lru \<times> (string \<times> 'v) set \<Rightarrow> bool" where
  lookup: "cache_step (c, H) (c, H)"
| promote: "cache_step (c, H) (mc_promote path c, H)"
| put: "cache_step (c, H) (mc_put path v c, insert (path, v) H)"
| clear: "cache_step (c, H) (mc_clear c, H)"

inductive_cases cache_stepE: "cache_step (c, H) (c', H')"

definition cache_reaches :: "nat \<Rightarrow> 'v lru \<Rightarrow> (string \<times> 'v) set \<Rightarrow> bool" where
  "cache_reaches capacity c H \<longleftrightarrow> cache_step\<^sup>*\<^sup>* (mc_new capacity, {}) (c, H)"

lemma cache_reaches_intros:
  "cache_reaches n (mc_new n) {}"
  "cache_reaches n c H \<Longrightarrow> cache_reaches n (mc_promote path c) H"
  "cache_reaches n c H \<Longrightarrow> cache_reaches n (mc_put path v c) (insert (path, v) H)"
  unfolding cache_reaches_def
  by (rule rtranclp.rtrancl_refl, erule rtranclp.rtrancl_into_rtrancl, rule cache_step.promote,
      erule rtranclp.rtrancl_into_rtrancl, rule cache_step.put)

section \<open>Invariant\<close>

definition lru_inv :: "'v lru \<Rightarrow> bool" where
  "lru_inv c \<longleftrightarrow> distinct (lc_order c) \<and> set (lc_order c) = dom (map_of (lc_entries c))
     \<and> length (lc_order c) \<le> lc_capacity c"

lemma filter_out: "distinct xs \<Longrightarrow> filter (\<lambda>k. k \<noteq> x) xs = remove1 x xs"
  by (induction xs) (auto simp: filter_id_conv)

lemma move_back:
  assumes "distinct xs" "x \<in> set xs"
  shows "distinct (filter (\<lambda>k. k \<noteq> x) xs @ [x])" "set (filter (\<lambda>k. k \<noteq> x) xs @ [x]) = set xs"
    "length (filter (\<lambda>k. k \<noteq> x) xs @ [x]) = length xs"
proof -
  show "distinct (filter (\<lambda>k. k \<noteq> x) xs @ [x])" using assms by simp
  show "set (filter (\<lambda>k. k \<noteq> x) xs @ [x]) = set xs" using assms by auto
  have "0 < length xs" using assms(2) by (cases xs) auto
  then show "length (filter (\<lambda>k. k \<noteq> x) xs @ [x]) = length xs"
    using assms by (simp add: filter_out length_remove1)
qed

lemma lru_inv_new: "lru_inv (mc_new capacity)"
  by (simp add: lru_inv_def mc_new_def)

lemma lru_inv_promote: "lru_inv c \<Longrightarrow> lru_inv (mc_promote path c)"
proof (cases "map_of (lc_entries c) path")
  case None
  assume "lru_inv c"
  then show ?thesis using None by (simp add: mc_promote_def)
next
  case (Some v)
  assume "lru_inv c"
  then have d: "distinct (lc_order c)" "set (lc_order c) = dom (map_of (lc_entries c))"
    "length (lc_order c) \<le> lc_capacity c" by (simp_all add: lru_inv_def)
  then have "path \<in> set (lc_order c)" using Some by auto
  from move_back [OF d(1) this] show ?thesis
    using d unfolding lru_inv_def mc_promote_def by simp
qed

text \<open>Putting a new key into a full cache drops the first key of the order, and only that.\<close>

lemma mc_put_entries:
  assumes inv: "lru_inv c" and cap: "0 < lc_capacity c"
  shows "lru_inv (mc_put path v c) \<and> lc_capacity (mc_put path v c) = lc_capacity c
    \<and> map_of (lc_entries (mc_put path v c)) =
      (if path \<notin> set (lc_order c) \<and> length (lc_order c) = lc_capacity c
       then (map_of (lc_entries c))(path \<mapsto> v, hd (lc_order c) := None) else (map_of (lc_entries c))(path \<mapsto> v))"
proof -
  let ?es = "lc_entries c" and ?o = "lc_order c"
  have d: "distinct ?o" "set ?o = dom (map_of ?es)" "length ?o \<le> lc_capacity c" using inv by (simp_all add: lru_inv_def)
  consider (old) "path \<in> set ?o" | (room) "path \<notin> set ?o" "length ?o < lc_capacity c"
    | (full) "path \<notin> set ?o" "length ?o = lc_capacity c" using d(3) by linarith
  then show ?thesis
  proof cases
    case old
    then have "map_of ?es path \<noteq> None" using d(2) by auto
    then show ?thesis
      using old cap d move_back [OF d(1) old] by (auto simp: mc_put_def Let_def lru_inv_def update_conv' insert_absorb)
  next
    case room
    then have "map_of ?es path = None" using d(2) by auto
    then show ?thesis using room cap d by (simp add: mc_put_def Let_def lru_inv_def update_conv')
  next
    case full
    then have n: "map_of ?es path = None" using d(2) by auto
    obtain x xs where o: "?o = x # xs" using full(2) cap by (cases ?o) auto
    have "x \<noteq> path" using full(1) o by auto
    moreover have "set xs = dom (map_of ?es) - {x}" using d(1,2) o by auto
    ultimately show ?thesis
      using n full cap d o by (auto simp: mc_put_def Let_def lru_inv_def update_conv' delete_conv')
  qed
qed

lemma lru_inv_put: "lru_inv c \<Longrightarrow> lru_inv (mc_put path v c) \<and> lc_capacity (mc_put path v c) = lc_capacity c"
  using mc_put_entries [of c path v] by (cases "lc_capacity c = 0") (auto simp: mc_put_def)

lemma mc_put_sub:
  assumes "lru_inv c" "map_of (lc_entries (mc_put path v c)) k = Some w"
  shows "map_of (lc_entries c) k = Some w \<or> (k, w) = (path, v)"
proof (cases "lc_capacity c = 0")
  case True
  then show ?thesis using assms(2) by (simp add: mc_put_def)
next
  case False
  then show ?thesis using mc_put_entries [of c path v] assms by (auto split: if_splits)
qed

lemma cache_step_inv:
  assumes "cache_step (c, H) (c', H')" "lru_inv c" "\<forall>k w. map_of (lc_entries c) k = Some w \<longrightarrow> (k, w) \<in> H"
  shows "lru_inv c' \<and> lc_capacity c' = lc_capacity c \<and> (\<forall>k w. map_of (lc_entries c') k = Some w \<longrightarrow> (k, w) \<in> H')"
  using assms(1)
proof (rule cache_stepE)
  fix path assume "c' = mc_promote path c" "H' = H"
  then show ?thesis using assms(2,3) lru_inv_promote [OF assms(2)] by (simp add: mc_promote_def)
next
  fix path v assume "c' = mc_put path v c" "H' = insert (path, v) H"
  then show ?thesis using assms(2,3) lru_inv_put [OF assms(2)] mc_put_sub [OF assms(2)] by blast
qed (use assms(2,3) in \<open>simp_all add: mc_clear_def lru_inv_def\<close>)

lemma cache_reaches_inv:
  assumes "cache_reaches capacity c H"
  shows "lru_inv c" "lc_capacity c = capacity" "map_of (lc_entries c) k = Some w \<Longrightarrow> (k, w) \<in> H"
proof -
  have "lru_inv c \<and> lc_capacity c = capacity \<and> (\<forall>k w. map_of (lc_entries c) k = Some w \<longrightarrow> (k, w) \<in> H)"
    using assms unfolding cache_reaches_def
  proof (induction "(c, H)" arbitrary: c H rule: rtranclp_induct)
    case base
    then show ?case using lru_inv_new by (auto simp: mc_new_def)
  next
    case (step y)
    then show ?case using cache_step_inv by (cases y) fastforce
  qed
  then show "lru_inv c" "lc_capacity c = capacity" "map_of (lc_entries c) k = Some w \<Longrightarrow> (k, w) \<in> H" by auto
qed

section \<open>The abstract cache\<close>

text \<open>
  What the caches promise one thread: a list of keys with their values, the most recently used first, cut
  off after \<open>n\<close> entries.
\<close>

definition recent_put :: "nat \<Rightarrow> string \<Rightarrow> 'v \<Rightarrow> (string \<times> 'v) list \<Rightarrow> (string \<times> 'v) list" where
  "recent_put n path v l = take n ((path, v) # filter (\<lambda>p. fst p \<noteq> path) l)"

definition recent_get :: "string \<Rightarrow> (string \<times> 'v) list \<Rightarrow> 'v option \<times> (string \<times> 'v) list" where
  "recent_get path l =
     (case map_of l path of None \<Rightarrow> (None, l)
      | Some v \<Rightarrow> (Some v, (path, v) # filter (\<lambda>p. fst p \<noteq> path) l))"

datatype 'v cache_op = Get string | Put string 'v | Clear

fun recent_run :: "nat \<Rightarrow> (string \<times> 'v) list \<Rightarrow> 'v cache_op list \<Rightarrow> 'v option list \<times> (string \<times> 'v) list" where
  "recent_run n l [] = ([], l)"
| "recent_run n l (Get path # ops) =
     (let (r, l') = recent_get path l; (rs, l'') = recent_run n l' ops in (r # rs, l''))"
| "recent_run n l (Put path v # ops) = recent_run n (recent_put n path v l) ops"
| "recent_run n l (Clear # ops) = recent_run n [] ops"

fun mc_run :: "'v lru \<Rightarrow> 'v cache_op list \<Rightarrow> 'v option list \<times> 'v lru" where
  "mc_run c [] = ([], c)"
| "mc_run c (Get path # ops) =
     (let (r, c') = mc_get c path; (rs, c'') = mc_run c' ops in (r # rs, c''))"
| "mc_run c (Put path v # ops) = mc_run (mc_put path v c) ops"
| "mc_run c (Clear # ops) = mc_run (mc_clear c) ops"

definition lru_list :: "'v lru \<Rightarrow> (string \<times> 'v) list" where
  "lru_list c = map (\<lambda>k. (k, the (map_of (lc_entries c) k))) (rev (lc_order c))"

lemma map_of_graph: "map_of (map (\<lambda>k. (k, f k)) ks) k = (if k \<in> set ks then Some (f k) else None)"
  by (induction ks) auto

lemma lru_list_lookup: "lru_inv c \<Longrightarrow> map_of (lru_list c) = map_of (lc_entries c)"
  by (rule ext) (auto simp: lru_list_def map_of_graph lru_inv_def domIff)

lemma filter_graph: "filter (\<lambda>p. fst p \<noteq> path) (map (\<lambda>k. (k, f k)) ks) = map (\<lambda>k. (k, f k)) (filter (\<lambda>k. k \<noteq> path) ks)"
  by (induction ks) auto

lemma lru_list_promote:
  "lru_inv c \<Longrightarrow> map_of (lc_entries c) path = Some v
   \<Longrightarrow> lru_list (mc_promote path c) = (path, v) # filter (\<lambda>p. fst p \<noteq> path) (lru_list c)"
  by (simp add: lru_list_def mc_promote_def filter_graph rev_filter)

lemma lru_list_put:
  assumes inv: "lru_inv c"
  shows "lru_list (mc_put path v c) = recent_put (lc_capacity c) path v (lru_list c)"
proof -
  let ?es = "lc_entries c" and ?o = "lc_order c"
  have d: "distinct ?o" "set ?o = dom (map_of ?es)" "length ?o \<le> lc_capacity c" using inv by (simp_all add: lru_inv_def)
  consider (off) "lc_capacity c = 0" | (old) "0 < lc_capacity c" "path \<in> set ?o"
    | (room) "path \<notin> set ?o" "length ?o < lc_capacity c"
    | (full) "path \<notin> set ?o" "0 < lc_capacity c" "length ?o = lc_capacity c" using d(3) by linarith
  then show ?thesis
  proof cases
    case off
    then show ?thesis using d(3) by (simp add: lru_list_def mc_put_def recent_put_def)
  next
    case old
    then have e: "map_of ?es path \<noteq> None" using d(2) by auto
    have l: "Suc (length (filter (\<lambda>k. k \<noteq> path) ?o)) = length ?o" using move_back(3) [OF d(1) old(2)] by simp
    have "lru_list (mc_put path v c) = (path, v) # filter (\<lambda>p. fst p \<noteq> path) (lru_list c)"
      using old e by (auto simp: lru_list_def mc_put_def update_conv' filter_graph rev_filter)
    moreover have "length ((path, v) # filter (\<lambda>p. fst p \<noteq> path) (lru_list c)) = length ?o"
      using l by (simp add: lru_list_def filter_graph flip: rev_filter)
    ultimately show ?thesis using d(3) by (simp add: recent_put_def del: take_Suc_Cons)
  next
    case room
    then have e: "map_of ?es path = None" "filter (\<lambda>k. k \<noteq> path) (rev ?o) = rev ?o"
      using d(2) by (auto simp: filter_id_conv)
    have "lru_list (mc_put path v c) = (path, v) # lru_list c"
      using room e by (auto simp: lru_list_def mc_put_def Let_def update_conv')
    moreover have "filter (\<lambda>p. fst p \<noteq> path) (lru_list c) = lru_list c"
      using e(2) by (simp add: lru_list_def filter_graph)
    moreover have "length ((path, v) # lru_list c) \<le> lc_capacity c" using room(2) by (simp add: lru_list_def)
    ultimately show ?thesis by (simp add: recent_put_def del: take_Suc_Cons)
  next
    case full
    then have e: "map_of ?es path = None" "filter (\<lambda>k. k \<noteq> path) (rev ?o) = rev ?o"
      using d(2) by (auto simp: filter_id_conv)
    obtain x xs where o: "?o = x # xs" using full(2,3) by (cases ?o) auto
    have x: "x \<notin> set xs" "x \<noteq> path" "path \<notin> set xs" using d(1) o full(1) by auto
    have "lru_list (mc_put path v c) = (path, v) # map (\<lambda>k. (k, the (map_of ?es k))) (rev xs)"
      using full(2,3) e o x by (auto simp: lru_list_def mc_put_def Let_def update_conv' delete_conv')
    moreover have "filter (\<lambda>p. fst p \<noteq> path) (lru_list c) = map (\<lambda>k. (k, the (map_of ?es k))) (rev xs) @ [(x, the (map_of ?es x))]"
      using e(2) o by (simp only: lru_list_def filter_graph) simp
    moreover have "lc_capacity c = Suc (length xs)" using full(3) o by simp
    ultimately show ?thesis by (simp add: recent_put_def)
  qed
qed

lemma mc_run_recent:
  "lru_inv c \<Longrightarrow> fst (mc_run c ops) = fst (recent_run (lc_capacity c) (lru_list c) ops)
   \<and> lru_list (snd (mc_run c ops)) = snd (recent_run (lc_capacity c) (lru_list c) ops)"
proof (induction c ops rule: mc_run.induct)
  case (2 c path ops)
  have look: "map_of (lru_list c) path = map_of (lc_entries c) path" using lru_list_lookup [OF 2(2)] by simp
  have cap: "lc_capacity (mc_promote path c) = lc_capacity c" by (simp add: mc_promote_def)
  show ?case
  proof (cases "map_of (lc_entries c) path")
    case None
    then have "mc_get c path = (None, c)" by (simp add: mc_get_def mc_lookup_def)
    then show ?thesis using 2 look None by (simp add: recent_get_def split_beta)
  next
    case (Some v)
    then have g: "mc_get c path = (Some v, mc_promote path c)" by (simp add: mc_get_def mc_lookup_def)
    then show ?thesis
      using 2(1) [OF g [symmetric] refl] lru_inv_promote [OF 2(2)] lru_list_promote [OF 2(2) Some] look Some cap
      by (simp add: recent_get_def split_beta)
  qed
next
  case (3 c path v ops)
  then show ?case using lru_inv_put [OF 3(2), of path v] lru_list_put [OF 3(2), of path v] by simp
next
  case (4 c ops)
  have "lru_inv (mc_clear c)" "lc_capacity (mc_clear c) = lc_capacity c" "lru_list (mc_clear c) = []"
    by (simp_all add: lru_inv_def mc_clear_def lru_list_def)
  then show ?case using 4(1) by simp
qed simp

section \<open>Properties\<close>

text \<open>
  C15: a cache behaves as the list of its most recently used entries. From an empty cache of any
  capacity, zero included, every sequence of gets, puts and clears answers each get as that list does, and
  leaves exactly its entries in its order.
\<close>

theorem cache_is_lru:
  "fst (mc_run (mc_new n) ops) = fst (recent_run n [] ops)
   \<and> lru_list (snd (mc_run (mc_new n) ops)) = snd (recent_run n [] ops)"
  using mc_run_recent [OF lru_inv_new, of n ops] by (simp add: mc_new_def lru_list_def)

text \<open>
  C16: threads may interleave at the two critical sections of a get. Whatever the schedule, the
  cache holds at most its capacity of entries, its order lists each cached path once and no
  other, and what it holds for a path was put there for that path.
\<close>

theorem cache_interleaved:
  assumes "cache_reaches capacity c H"
  shows "mc_len c \<le> capacity \<and> distinct (lc_order c)
    \<and> (\<forall>k. k \<in> set (lc_order c) \<longleftrightarrow> mc_lookup c k \<noteq> None) \<and> (\<forall>k w. mc_lookup c k = Some w \<longrightarrow> (k, w) \<in> H)"
proof -
  note inv = cache_reaches_inv [OF assms]
  have d: "distinct (lc_order c)" "set (lc_order c) = dom (map_of (lc_entries c))" "length (lc_order c) \<le> lc_capacity c"
    using inv(1) by (simp_all add: lru_inv_def)
  have "mc_len c = length (lc_order c)" using d(1,2) by (simp add: mc_len_def distinct_card flip: d(2))
  then show ?thesis using d inv(2) inv(3) by (auto simp: mc_lookup_def)
qed

text \<open>One thread's clear and put run between the lookup and the promotion of another's get.\<close>

theorem cache_interleaved_witness:
  "mc_len (mc_promote ''a'' (mc_put ''c'' (3::nat) (mc_put ''b'' 2 (mc_put ''a'' 1 (mc_new 2))))) \<le> 2
   \<and> mc_lookup (mc_promote ''a'' (mc_put ''c'' (3::nat) (mc_put ''b'' 2 (mc_put ''a'' 1 (mc_new 2))))) ''a'' = None"
proof -
  let ?c = "mc_promote ''a'' (mc_put ''c'' (3::nat) (mc_put ''b'' 2 (mc_put ''a'' 1 (mc_new 2))))"
  have "cache_reaches 2 ?c {(''c'', 3), (''b'', 2), (''a'', 1)}" by (intro cache_reaches_intros)
  from cache_interleaved [OF this]
  show ?thesis by (simp add: mc_promote_def mc_put_def mc_new_def mc_lookup_def)
qed

end
