(* ===== verification/Agg_Retract.thy ===== *)
theory Agg_Retract
  imports Agg_State Lru_Cache Scan_Prune Row_Locate
begin

text \<open>
  Partials of a row group with deleted rows: \<^verbatim>\<open>deleted_contribution\<close>, \<^verbatim>\<open>retract\<close>,
  \<^verbatim>\<open>scoped_recompute_extremum\<close> and \<^verbatim>\<open>retract_grouped\<close> of \<^verbatim>\<open>agg_cache.rs\<close>, and the part of
  \<^verbatim>\<open>scan_internal\<close> in \<^verbatim>\<open>crates/icefalldb-core/src/reader.rs\<close> that loads the partials of a row group through
  the process-wide cache. Only the deleted rows are read from the data file and subtracted.

  The Parquet reader is the parameter \<open>P\<close>: the schema of a file, the normalization of a
  row selection, and the batches of a projection and a selection. \<open>reader_law\<close> states what its documentation says of
  a file with known contents. The text form of a partial holds 128-bit numbers, so
  \<^verbatim>\<open>deserialize_agg_state\<close> is the parameter \<open>D\<close>.
\<close>

section \<open>The Parquet reader\<close>

record arrow_reader =
  ar_schema :: "bytes \<Rightarrow> (string \<times> data_type) list option"
  ar_selection :: "selector list \<Rightarrow> selector list"
  ar_read :: "bytes \<Rightarrow> nat list \<Rightarrow> selector list \<Rightarrow> batch list option"

fun take_cells :: "nat list \<Rightarrow> arrow_column \<Rightarrow> arrow_column" where
  "take_cells rows (IntColumn t vs) = IntColumn t (map ((!) vs) rows)"
| "take_cells rows (FloatColumn t vs) = FloatColumn t (map ((!) vs) rows)"
| "take_cells rows (TextColumn t vs) = TextColumn t (map ((!) vs) rows)"
| "take_cells rows (BoolColumn vs) = BoolColumn (map ((!) vs) rows)"
| "take_cells rows (OtherColumn t valid) = OtherColumn t (map ((!) valid) rows)"

definition take_rows :: "nat list \<Rightarrow> batch \<Rightarrow> batch" where
  "take_rows rows b = \<lparr>b_rows = length rows, b_columns = map (\<lambda>(n, c). (n, take_cells rows c)) (b_columns b)\<rparr>"

definition project :: "nat list \<Rightarrow> batch \<Rightarrow> batch" where
  "project idx b = b\<lparr>b_columns := nths (b_columns b) (set idx)\<rparr>"

text \<open>
  Of a file that holds batch \<open>b\<close>: its schema, and for columns that exist and a selection that fits,
  the selected rows of the projected columns in file order, cut into non-empty batches.
\<close>

definition reader_law :: "arrow_reader \<Rightarrow> (bytes \<Rightarrow> batch option) \<Rightarrow> bool" where
  "reader_law P file \<longleftrightarrow> selection_law (ar_selection P) \<and>
     (\<forall>data b. file data = Some b \<longrightarrow>
        ar_schema P data = Some (map (\<lambda>(n, c). (n, ac_type c)) (b_columns b)) \<and>
        (\<forall>idx sel. set idx \<subseteq> {..<length (b_columns b)} \<and> length (selection_bits sel) \<le> b_rows b \<longrightarrow>
           (\<exists>cuts. concat cuts = selected_offsets 0 sel \<and> [] \<notin> set cuts \<and>
              ar_read P data idx sel = Some (map (\<lambda>rows. take_rows rows (project idx b)) cuts))))"

section \<open>The contribution of the deleted rows\<close>

fun deleted_selectors :: "nat \<Rightarrow> nat list \<Rightarrow> selector list" where
  "deleted_selectors pos [] = []"
| "deleted_selectors pos (off # offs) =
     (if pos < off then [Skip (off - pos)] else []) @ Select 1 # deleted_selectors (off + 1) offs"

text \<open>The loops over the batches: an integer column overflows with an error.\<close>

fun int_batches :: "string \<Rightarrow> batch list \<Rightarrow> u64 \<times> int \<times> int \<Rightarrow> (u64 \<times> int \<times> int) result" where
  "int_batches name [] acc = Inr acc"
| "int_batches name (b # bs) acc =
     (case column_by_name b name of
        Some (IntColumn t vs) \<Rightarrow>
          (case fold_ints (non_null vs) acc of
             None \<Rightarrow> Inl (ParquetDecode ''i128 overflow in deleted_contribution'')
           | Some acc' \<Rightarrow> int_batches name bs acc')
      | _ \<Rightarrow> Inl Panic)"

fun float_batches :: "string \<Rightarrow> batch list \<Rightarrow> u64 \<times> u64 \<times> u64 \<Rightarrow> (u64 \<times> u64 \<times> u64) result" where
  "float_batches name [] acc = Inr acc"
| "float_batches name (b # bs) acc =
     (case column_by_name b name of
        Some (FloatColumn t vs) \<Rightarrow> float_batches name bs (float_loop vs acc)
      | _ \<Rightarrow> Inl Panic)"

definition column_contribution :: "string \<Rightarrow> data_type \<Rightarrow> batch list \<Rightarrow> col_agg option result" where
  "column_contribution name t batches =
     (if t \<in> set int_types then map_sum id (Some \<circ> int_result) (int_batches name batches (0, 0, 0))
      else if t = DFloat32 \<or> t = DFloat64
      then map_sum id (Some \<circ> float_result) (float_batches name batches (0, 0, 0))
      else Inr None)"

fun contribution_cols :: "batch list \<Rightarrow> string list \<Rightarrow> col_aggs \<Rightarrow> col_aggs result" where
  "contribution_cols batches [] acc = Inr acc"
| "contribution_cols batches (name # names) acc =
     (case column_by_name (hd batches) name of
        None \<Rightarrow> contribution_cols batches names acc
      | Some c \<Rightarrow> res_bind (column_contribution name (ac_type c) batches) (\<lambda>a.
          contribution_cols batches names (case a of None \<Rightarrow> acc | Some a \<Rightarrow> bt_insert name a acc)))"

definition data_path :: "string \<Rightarrow> row_group_entry \<Rightarrow> string" where
  "data_path table entry = table @ ''/'' @ rg_data entry"

definition deleted_contribution ::
  "arrow_reader \<Rightarrow> 'bm roaring \<Rightarrow> 's storage \<Rightarrow> string \<Rightarrow> row_group_entry \<Rightarrow> 'bm \<Rightarrow> string list \<Rightarrow> ('s, col_aggs) io" where
  "deleted_contribution P R S table entry dv numeric_cols =
     (let selectors = deleted_selectors 0 (map unat (dv_iter R dv))
      in if selectors = [] then io_return []
         else io_bind (st_read S (data_path table entry)) (\<lambda>data.
           case ar_schema P data of
             None \<Rightarrow> io_throw (ParquetDecode ''open'')
           | Some schema \<Rightarrow>
               let present = filter (\<lambda>n. position n (map fst schema) \<noteq> None) numeric_cols;
                   idx = List.map_filter (\<lambda>n. position n (map fst schema)) numeric_cols
               in if idx = [] then io_return []
                  else (case ar_read P data idx (ar_selection P selectors) of
                     None \<Rightarrow> io_throw (ParquetDecode ''read'')
                   | Some batches \<Rightarrow>
                       if batches = [] then io_return []
                       else io_lift (contribution_cols batches present []))))"

section \<open>Retraction\<close>

definition saturating_sub_u64 :: "u64 \<Rightarrow> u64 \<Rightarrow> u64" where
  "saturating_sub_u64 a b = (if b \<le> a then a - b else 0)"

fun retract_scalar :: "agg_scalar \<Rightarrow> agg_scalar \<Rightarrow> agg_scalar option" where
  "retract_scalar (AInt f) (AInt d) = map_option AInt (checked_sub_i128 f d)"
| "retract_scalar (AFloat f) (AFloat d) = Some (AFloat (f64_sub f d))"
| "retract_scalar f ANull = Some f"
| "retract_scalar f d = None"

definition retract_col :: "col_agg \<Rightarrow> col_agg \<Rightarrow> col_agg option" where
  "retract_col full del =
     Option.bind (retract_scalar (ca_sum full) (ca_sum del)) (\<lambda>s.
       map_option (\<lambda>q. full\<lparr>ca_count_non_null := saturating_sub_u64 (ca_count_non_null full) (ca_count_non_null del),
           ca_sum := s, ca_sumsq := q, ca_live_min := None, ca_live_max := None\<rparr>)
         (retract_scalar (ca_sumsq full) (ca_sumsq del)))"

fun retract_loop :: "col_aggs \<Rightarrow> col_aggs \<Rightarrow> string list \<Rightarrow> col_aggs \<times> string list" where
  "retract_loop cols [] to_remove = (cols, to_remove)"
| "retract_loop cols ((name, del) # ds) to_remove =
     (case map_of cols name of
        None \<Rightarrow> retract_loop cols ds to_remove
      | Some full \<Rightarrow>
          (case retract_col full del of
             None \<Rightarrow> retract_loop cols ds (to_remove @ [name])
           | Some a \<Rightarrow> retract_loop (bt_insert name a cols) ds to_remove))"

definition retract :: "fragment_agg_state \<Rightarrow> col_aggs \<Rightarrow> fragment_agg_state" where
  "retract full del =
     (case retract_loop (fa_cols full) del [] of (cols, to_remove) \<Rightarrow>
        full\<lparr>fa_cols := foldl (\<lambda>cols n. bt_remove n cols) cols to_remove, fa_distinct := None, fa_quantile := None\<rparr>)"

section \<open>Extrema under deletions\<close>

datatype extremum_kind = KMin | KMax

fun extremum_off :: "extremum_kind \<Rightarrow> col_agg \<Rightarrow> u32 option" where
  "extremum_off KMin a = ca_min_off a"
| "extremum_off KMax a = ca_max_off a"

definition extremum_deleted :: "'bm roaring \<Rightarrow> col_agg \<Rightarrow> 'bm \<Rightarrow> extremum_kind \<Rightarrow> bool" where
  "extremum_deleted R a dv kind =
     (case extremum_off kind a of Some off \<Rightarrow> dv_contains R dv off | None \<Rightarrow> False)"

fun survivor_selectors :: "nat \<Rightarrow> nat \<Rightarrow> nat list \<Rightarrow> selector list" where
  "survivor_selectors rows pos [] = (if pos < rows then [Select (rows - pos)] else [])"
| "survivor_selectors rows pos (off # offs) =
     (if pos < off then [Select (off - pos)] else []) @ Skip 1 # survivor_selectors rows (off + 1) offs"

fun pick_extremum :: "extremum_kind \<Rightarrow> int \<Rightarrow> int \<Rightarrow> int" where
  "pick_extremum KMin a b = min a b"
| "pick_extremum KMax a b = max a b"

definition fold_extremum :: "extremum_kind \<Rightarrow> int list \<Rightarrow> int option \<Rightarrow> int option" where
  "fold_extremum kind vs current =
     foldl (\<lambda>c v. Some (case c of None \<Rightarrow> v | Some c \<Rightarrow> pick_extremum kind c v)) current vs"

fun extremum_batches :: "extremum_kind \<Rightarrow> string \<Rightarrow> batch list \<Rightarrow> int option \<Rightarrow> int option result" where
  "extremum_batches kind name [] current = Inr current"
| "extremum_batches kind name (b # bs) current =
     (case column_by_name b name of
        Some (IntColumn t vs) \<Rightarrow> extremum_batches kind name bs (fold_extremum kind (non_null vs) current)
      | _ \<Rightarrow> Inl Panic)"

definition extremum_json :: "int \<Rightarrow> json option" where
  "extremum_json v = (if 0 \<le> v \<and> v < 2 ^ 64 then Some (JNum (PosInt (word_of_int v))) else None)"

definition scoped_recompute_extremum ::
  "arrow_reader \<Rightarrow> 'bm roaring \<Rightarrow> 's storage \<Rightarrow> string \<Rightarrow> row_group_entry \<Rightarrow> 'bm \<Rightarrow> nat \<Rightarrow> string \<Rightarrow> extremum_kind \<Rightarrow>
   ('s, json option) io" where
  "scoped_recompute_extremum P R S table entry dv total_rows name kind =
     (let selectors = survivor_selectors total_rows 0 (map unat (dv_iter R dv))
      in if selectors = [] then io_return None
         else io_bind (st_read S (data_path table entry)) (\<lambda>data.
           case ar_schema P data of
             None \<Rightarrow> io_throw (ParquetDecode ''open'')
           | Some schema \<Rightarrow>
               (case position name (map fst schema) of
                  None \<Rightarrow> io_throw (ParquetDecode ''column not found'')
                | Some i \<Rightarrow>
                    if snd (schema ! i) \<notin> set int_types then io_return None
                    else (case ar_read P data [i] (ar_selection P selectors) of
                       None \<Rightarrow> io_throw (ParquetDecode ''read'')
                     | Some batches \<Rightarrow>
                         if batches = [] then io_return None
                         else if column_by_name (hd batches) name = None
                         then io_throw (ParquetDecode ''column not in projected schema'')
                         else io_lift (map_sum id (\<lambda>c. Option.bind c extremum_json)
                                (extremum_batches kind name batches None))))))"

definition live_extremum ::
  "arrow_reader \<Rightarrow> 'bm roaring \<Rightarrow> 's storage \<Rightarrow> string \<Rightarrow> row_group_entry \<Rightarrow> 'bm \<Rightarrow> row_group_meta \<Rightarrow> string \<Rightarrow> col_agg \<Rightarrow>
   extremum_kind \<Rightarrow> (column_stats \<Rightarrow> json option) \<Rightarrow> ('s, json option) io" where
  "live_extremum P R S table entry dv meta name a kind stat =
     (if extremum_deleted R a dv kind
      then io_bind (io_try (scoped_recompute_extremum P R S table entry dv (unat (rm_rows meta)) name kind)) (\<lambda>r.
             io_return (case r of Inl _ \<Rightarrow> None | Inr v \<Rightarrow> v))
      else io_return (Option.bind (map_of (rm_columns meta) name) stat))"

fun live_cols ::
  "arrow_reader \<Rightarrow> 'bm roaring \<Rightarrow> 's storage \<Rightarrow> string \<Rightarrow> row_group_entry \<Rightarrow> 'bm \<Rightarrow> row_group_meta \<Rightarrow> col_aggs \<Rightarrow>
   ('s, col_aggs) io" where
  "live_cols P R S table entry dv meta [] = io_return []"
| "live_cols P R S table entry dv meta ((name, a) # cols) =
     (case ca_sum a of
        AFloat _ \<Rightarrow> io_bind (live_cols P R S table entry dv meta cols) (\<lambda>rest. io_return ((name, a) # rest))
      | _ \<Rightarrow>
          io_bind (live_extremum P R S table entry dv meta name a KMin cs_min) (\<lambda>mn.
          io_bind (live_extremum P R S table entry dv meta name a KMax cs_max) (\<lambda>mx.
          io_bind (live_cols P R S table entry dv meta cols) (\<lambda>rest.
            io_return ((name, a\<lparr>ca_live_min := mn, ca_live_max := mx\<rparr>) # rest)))))"

definition resolve_live_extrema ::
  "arrow_reader \<Rightarrow> 'bm roaring \<Rightarrow> 's storage \<Rightarrow> string \<Rightarrow> row_group_entry \<Rightarrow> 'bm \<Rightarrow> row_group_meta \<Rightarrow>
   fragment_agg_state \<Rightarrow> ('s, fragment_agg_state) io" where
  "resolve_live_extrema P R S table entry dv meta live =
     io_bind (live_cols P R S table entry dv meta (fa_cols live)) (\<lambda>cols. io_return (live\<lparr>fa_cols := cols\<rparr>))"

section \<open>Groups under deletions\<close>

text \<open>One measure of one deleted row: taken off its group, or the measure is dropped.\<close>

definition retract_measure :: "batch \<Rightarrow> nat \<Rightarrow> col_aggs \<Rightarrow> string \<Rightarrow> col_aggs" where
  "retract_measure b row cols name =
     (case Option.bind (column_by_name b name) (\<lambda>c. fold_rows c [row]) of
        None \<Rightarrow> cols
      | Some del \<Rightarrow>
          if ca_count_non_null del = 0 then cols
          else (case map_of cols name of
             None \<Rightarrow> cols
           | Some full \<Rightarrow>
               (case Option.bind (retract_scalar (ca_sum full) (ca_sum del)) (\<lambda>s.
                   map_option (plain_agg (saturating_sub_u64 (ca_count_non_null full) (ca_count_non_null del)) s)
                     (retract_scalar (ca_sumsq full) (ca_sumsq del))) of
                  Some a \<Rightarrow> bt_insert name a cols
                | None \<Rightarrow> bt_remove name cols)))"

definition retract_row ::
  "ext \<Rightarrow> string list \<Rightarrow> batch \<Rightarrow> arrow_column \<Rightarrow> (bytes \<times> col_aggs) list \<Rightarrow> nat \<Rightarrow> (bytes \<times> col_aggs) list" where
  "retract_row X measure_cols b key live row =
     (case arrow_scalar_to_group_key_string X key row of
        None \<Rightarrow> live
      | Some k \<Rightarrow>
          (case map_of live k of
             None \<Rightarrow> live
           | Some cols \<Rightarrow> bt_insert k (foldl (retract_measure b row) cols measure_cols) live))"

fun retract_batches ::
  "ext \<Rightarrow> string \<Rightarrow> string list \<Rightarrow> batch list \<Rightarrow> (bytes \<times> col_aggs) list \<Rightarrow> (bytes \<times> col_aggs) list result" where
  "retract_batches X key_col measure_cols [] live = Inr live"
| "retract_batches X key_col measure_cols (b # bs) live =
     (case column_by_name b key_col of
        None \<Rightarrow> Inl Panic
      | Some key \<Rightarrow>
          retract_batches X key_col measure_cols bs (foldl (retract_row X measure_cols b key) live [0..<b_rows b]))"

definition retract_grouped ::
  "ext \<Rightarrow> arrow_reader \<Rightarrow> 'bm roaring \<Rightarrow> 's storage \<Rightarrow> string \<Rightarrow> row_group_entry \<Rightarrow> grouped_partials \<Rightarrow> 'bm \<Rightarrow>
   string list \<Rightarrow> ('s, (bytes \<times> col_aggs) list) io" where
  "retract_grouped X P R S table entry gp dv measure_cols =
     (if cardinality R dv = 0 then io_return (gp_groups gp)
      else
        let selectors = deleted_selectors 0 (map unat (dv_iter R dv))
        in io_bind (st_read S (data_path table entry)) (\<lambda>data.
             case ar_schema P data of
               None \<Rightarrow> io_throw (ParquetDecode ''open'')
             | Some schema \<Rightarrow>
                 (case position (gp_key_col gp) (map fst schema) of
                    None \<Rightarrow> io_throw (ParquetDecode ''key column not found'')
                  | Some key \<Rightarrow>
                      let idx = foldl (\<lambda>idx i. if i \<in> set idx then idx else idx @ [i]) [key]
                                  (List.map_filter (\<lambda>n. position n (map fst schema)) measure_cols)
                      in (case ar_read P data idx (ar_selection P selectors) of
                            None \<Rightarrow> io_throw (ParquetDecode ''read'')
                          | Some batches \<Rightarrow>
                              if batches = [] \<or> column_by_name (hd batches) (gp_key_col gp) = None
                              then io_return (gp_groups gp)
                              else io_lift (retract_batches X (gp_key_col gp) measure_cols batches (gp_groups gp))))))"

definition resolve_live_grouped ::
  "ext \<Rightarrow> arrow_reader \<Rightarrow> 'bm roaring \<Rightarrow> 's storage \<Rightarrow> string \<Rightarrow> row_group_entry \<Rightarrow> 'bm \<Rightarrow> table_schema \<Rightarrow>
   grouped_partials option \<Rightarrow> ('s, grouped_partials option) io" where
  "resolve_live_grouped X P R S table entry dv schema full_grouped =
     (case (sc_agg_group_keys schema, full_grouped) of
        (Some (key_col # _), Some gp) \<Rightarrow>
          if gp_key_col gp \<noteq> key_col then io_return None
          else io_bind (io_try (retract_grouped X P R S table entry gp dv
                   (sorted_list_of_set (fst ` set (concat (map snd (gp_groups gp))))))) (\<lambda>r.
                 io_return (case r of Inl _ \<Rightarrow> None
                    | Inr groups \<Rightarrow> Some \<lparr>gp_key_col = gp_key_col gp, gp_groups = groups\<rparr>))
      | _ \<Rightarrow> io_return None)"

section \<open>Loading the partials of a row group\<close>

definition load_full_agg ::
  "(bytes \<Rightarrow> fragment_agg_state option) \<Rightarrow> 's storage \<Rightarrow> string \<Rightarrow> row_group_entry \<Rightarrow> fragment_agg_state agg_cache \<Rightarrow>
   ('s, fragment_agg_state option \<times> fragment_agg_state agg_cache) io" where
  "load_full_agg D S table entry cache =
     (case rg_agg entry of
        None \<Rightarrow> io_return (None, cache)
      | Some agg_rel \<Rightarrow>
          let agg_path = table @ ''/'' @ agg_rel
          in (case gc_get cache agg_path of
                (Some cached, cache) \<Rightarrow> io_return (Some cached, cache)
              | (None, cache) \<Rightarrow>
                  io_bind (io_try (st_read S agg_path)) (\<lambda>r.
                    case Option.bind (case r of Inl _ \<Rightarrow> None | Inr data \<Rightarrow> Some data) D of
                      None \<Rightarrow> io_return (None, cache)
                    | Some state \<Rightarrow> io_return (Some state, gc_put agg_path state cache))))"

definition live_state ::
  "ext \<Rightarrow> arrow_reader \<Rightarrow> 'bm roaring \<Rightarrow> 's storage \<Rightarrow> string \<Rightarrow> row_group_entry \<Rightarrow> row_group_meta \<Rightarrow> table_schema \<Rightarrow>
   fragment_agg_state \<Rightarrow> string \<Rightarrow> ('s, fragment_agg_state) io" where
  "live_state X P R S table entry meta schema full dv_path =
     io_bind (st_read S dv_path) (\<lambda>dv_bytes.
     io_bind (io_lift (dv_deserialize R dv_bytes)) (\<lambda>dv.
     io_bind (deleted_contribution P R S table entry dv (map fst (fa_cols full))) (\<lambda>del.
     io_bind (resolve_live_extrema P R S table entry dv meta (retract full del)) (\<lambda>live.
     io_bind (resolve_live_grouped X P R S table entry dv schema (fa_grouped full)) (\<lambda>grouped.
       io_return (live\<lparr>fa_grouped := grouped\<rparr>))))))"

definition load_agg_state ::
  "ext \<Rightarrow> arrow_reader \<Rightarrow> 'bm roaring \<Rightarrow> (bytes \<Rightarrow> fragment_agg_state option) \<Rightarrow> 's storage \<Rightarrow> string \<Rightarrow> row_group_entry \<Rightarrow>
   row_group_meta \<Rightarrow> table_schema \<Rightarrow> fragment_agg_state agg_cache \<Rightarrow>
   ('s, fragment_agg_state option \<times> fragment_agg_state agg_cache) io" where
  "load_agg_state X P R D S table entry meta schema cache =
     io_bind (load_full_agg D S table entry cache) (\<lambda>(full, cache).
       if rg_deleted_count entry = 0 then io_return (full, cache)
       else case (full, rg_deletes entry, rg_agg entry) of
              (Some full, Some del_rel, Some agg_rel) \<Rightarrow>
                let dv_path = table @ ''/'' @ del_rel;
                    live_key = (table @ ''/'' @ agg_rel) @ ''@'' @ dv_path
                in (case gc_get cache live_key of
                      (Some cached, cache) \<Rightarrow> io_return (Some cached, cache)
                    | (None, cache) \<Rightarrow>
                        io_bind (io_try (live_state X P R S table entry meta schema full dv_path)) (\<lambda>r.
                          case r of
                            Inl _ \<Rightarrow> io_return (None, cache)
                          | Inr live \<Rightarrow> io_return (Some live, gc_put live_key live cache)))
            | _ \<Rightarrow> io_return (None, cache))"

end
