(* ===== verification/Agg_Exact.thy ===== *)
theory Agg_Exact
  imports Agg_Retract
begin

text \<open>
  Retraction is exact on integer columns: the partial that remains after the deleted rows are subtracted is that of
  the surviving rows, and no intermediate sum overflows, because the
  squares of all rows bound every sum of a part of them. An extremum resolved for the surviving
  rows is their extremum.
\<close>

section \<open>Selections\<close>

lemma deleted_selectors_offsets:
  assumes "sorted_wrt (<) offs" "\<forall>x \<in> set offs. pos \<le> x"
  shows "selected_offsets pos (deleted_selectors pos offs) = offs"
    "pos \<le> n \<Longrightarrow> \<forall>x \<in> set offs. x < n \<Longrightarrow> pos + length (selection_bits (deleted_selectors pos offs)) \<le> n"
proof -
  have "selected_offsets pos (deleted_selectors pos offs) = offs \<and>
    (pos \<le> n \<longrightarrow> (\<forall>x \<in> set offs. x < n) \<longrightarrow> pos + length (selection_bits (deleted_selectors pos offs)) \<le> n)"
    using assms
  proof (induction offs arbitrary: pos)
    case (Cons off offs)
    have "\<forall>x \<in> set offs. off + 1 \<le> x" using Cons.prems(1) by auto
    then show ?case using Cons.IH [of "off + 1"] Cons.prems by auto
  qed simp
  then show "selected_offsets pos (deleted_selectors pos offs) = offs"
    "pos \<le> n \<Longrightarrow> \<forall>x \<in> set offs. x < n \<Longrightarrow> pos + length (selection_bits (deleted_selectors pos offs)) \<le> n"
    by simp_all
qed

lemma filter_upt_split:
  assumes "pos \<le> off" "off < n" "\<And>i. pos \<le> i \<Longrightarrow> i < off \<Longrightarrow> Q i" "\<not> Q off"
  shows "filter Q [pos..<n] = [pos..<off] @ filter Q [off + 1..<n]"
proof -
  have "[pos..<n] = [pos..<off] @ off # [off + 1..<n]"
    using assms(1,2) by (metis Suc_eq_plus1 le_add_diff_inverse less_imp_le upt_add_eq_append upt_conv_Cons)
  then show ?thesis using assms(3,4) by (simp add: filter_id_conv)
qed

lemma survivor_selectors_offsets:
  assumes "sorted_wrt (<) offs" "\<forall>x \<in> set offs. pos \<le> x \<and> x < n" "pos \<le> n"
  shows "selected_offsets pos (survivor_selectors n pos offs) = filter (\<lambda>i. i \<notin> set offs) [pos..<n]
    \<and> pos + length (selection_bits (survivor_selectors n pos offs)) = n"
  using assms
proof (induction offs arbitrary: pos)
  case (Cons off offs)
  have rest: "\<forall>x \<in> set offs. off + 1 \<le> x \<and> x < n" "off + 1 \<le> n" using Cons.prems(1,2) by auto
  have ih: "selected_offsets (off + 1) (survivor_selectors n (off + 1) offs) = filter (\<lambda>i. i \<notin> set offs) [off + 1..<n]"
    "(off + 1) + length (selection_bits (survivor_selectors n (off + 1) offs)) = n"
    using Cons.IH [OF _ rest] Cons.prems(1) by auto
  have "filter (\<lambda>i. i \<notin> set (off # offs)) [pos..<n] = [pos..<off] @ filter (\<lambda>i. i \<notin> set (off # offs)) [off + 1..<n]"
    using Cons.prems(1,2) rest(1) by (intro filter_upt_split) auto
  moreover have "filter (\<lambda>i. i \<notin> set (off # offs)) [off + 1..<n] = filter (\<lambda>i. i \<notin> set offs) [off + 1..<n]"
    by (intro filter_cong) auto
  ultimately show ?case using ih Cons.prems(2) by auto
qed simp

section \<open>The deleted and the surviving offsets\<close>

definition dead_rows :: "'bm roaring \<Rightarrow> 'bm \<Rightarrow> nat \<Rightarrow> nat list" where
  "dead_rows R dv n = filter (\<lambda>i. of_nat i \<in> dv_set R dv) [0..<n]"

definition live_rows_of :: "'bm roaring \<Rightarrow> 'bm \<Rightarrow> nat \<Rightarrow> nat list" where
  "live_rows_of R dv n = filter (\<lambda>i. of_nat i \<notin> dv_set R dv) [0..<n]"

definition dv_fits :: "'bm roaring \<Rightarrow> 'bm \<Rightarrow> nat \<Rightarrow> bool" where
  "dv_fits R dv n \<longleftrightarrow> n \<le> 2 ^ 32 \<and> (\<forall>off \<in> dv_set R dv. unat off < n)"

lemma dv_iter_facts:
  assumes "roaring_laws R"
  shows "sorted_wrt (<) (map unat (dv_iter R dv))" "set (map unat (dv_iter R dv)) = unat ` dv_set R dv"
proof -
  have it: "set (rb_iter R dv) = {n. rb_contains R dv n}" "sorted_wrt (<) (rb_iter R dv)"
    using assms by (simp_all add: roaring_laws_def)
  show "sorted_wrt (<) (map unat (dv_iter R dv))"
    using it(2) by (simp add: dv_iter_def sorted_wrt_map flip: word_less_nat_alt)
  show "set (map unat (dv_iter R dv)) = unat ` dv_set R dv"
    using it(1) by (simp add: dv_iter_def dv_set_def dv_contains_def)
qed

lemma dv_mem_unat: "n \<le> 2 ^ 32 \<Longrightarrow> i < n \<Longrightarrow> i \<in> unat ` A \<longleftrightarrow> (of_nat i :: u32) \<in> A"
proof -
  assume "n \<le> 2 ^ 32" "i < n"
  then have "unat (of_nat i :: u32) = i" by (simp add: unat_of_nat take_bit_nat_eq_self)
  then show ?thesis by (auto simp: image_iff intro: bexI [of _ "of_nat i"])
qed

lemma dv_iter_dead:
  assumes "roaring_laws R" "dv_fits R dv n"
  shows "map unat (dv_iter R dv) = dead_rows R dv n"
proof (rule sorted_distinct_set_unique)
  note it = dv_iter_facts [OF assms(1), of dv]
  show "sorted (map unat (dv_iter R dv))" "distinct (map unat (dv_iter R dv))"
    using it(1) by (simp_all add: strict_sorted_iff)
  show "sorted (dead_rows R dv n)" "distinct (dead_rows R dv n)" by (simp_all add: dead_rows_def sorted_wrt_filter)
  show "set (map unat (dv_iter R dv)) = set (dead_rows R dv n)"
    unfolding it(2) using assms(2) dv_mem_unat [of n _ "dv_set R dv"] by (auto simp: dv_fits_def dead_rows_def)
qed

lemma cells_split:
  assumes "length vs = n"
  shows "mset (non_null vs) = mset (non_null (map ((!) vs) (dead_rows R dv n))) + mset (non_null (map ((!) vs) (live_rows_of R dv n)))"
proof -
  have nn: "mset (non_null (map f (filter Q xs))) + mset (non_null (map f (filter (\<lambda>i. \<not> Q i) xs))) = mset (non_null (map f xs))"
    for f :: "nat \<Rightarrow> 'a option" and Q and xs
  proof (induction xs)
    case (Cons x xs)
    then show ?case by (cases "f x") (auto simp: ac_simps)
  qed simp
  have "map ((!) vs) [0..<n] = vs" using assms map_nth by blast
  then show ?thesis
    using nn [of "(!) vs" "\<lambda>i. of_nat i \<in> dv_set R dv" "[0..<n]"] by (simp add: dead_rows_def live_rows_of_def)
qed

section \<open>Reading selected rows\<close>

lemma take_cells_type [simp]: "ac_type (take_cells rows c) = ac_type c"
  by (cases c) simp_all

lemma project_column:
  assumes "distinct (map fst (b_columns b))" "position n (map fst (b_columns b)) = Some i" "i \<in> set idx"
  shows "column_by_name (take_rows rows (project idx b)) n = map_option (take_cells rows) (column_by_name b n)"
proof -
  have i: "i < length (b_columns b)" "fst (b_columns b ! i) = n" using assms(2) by (auto simp: position_Some)
  define c where "c = snd (b_columns b ! i)"
  have at: "b_columns b ! i = (n, c)" using i(2) by (simp add: c_def prod_eq_iff)
  have mem: "(n, c) \<in> set (nths (b_columns b) (set idx))"
    unfolding set_nths using i(1) at assms(3) by (intro CollectI exI [of _ i]) simp
  have "distinct (map fst (nths (b_columns b) (set idx)))" using distinct_nthsI [OF assms(1)] by (simp add: nths_map)
  then have "map_of (nths (b_columns b) (set idx)) n = Some c" using mem by (rule map_of_is_SomeI)
  moreover have "map_of (b_columns b) n = Some c"
    by (rule map_of_is_SomeI [OF assms(1)]) (use nth_mem [OF i(1)] at in simp)
  ultimately show ?thesis
    by (simp add: column_by_name_def take_rows_def project_def map_of_map)
qed

lemma fold_ints_append: "fold_ints (xs @ ys) acc = Option.bind (fold_ints xs acc) (fold_ints ys)"
proof (induction xs arbitrary: acc)
  case (Cons v xs)
  then show ?case by (cases "add_int v acc") simp_all
qed simp

lemma int_batches_cuts:
  assumes "\<And>rows. column_by_name (mk rows) n = Some (IntColumn t (map ((!) vs) rows))"
  shows "int_batches n (map mk cuts) acc =
    (case fold_ints (non_null (map ((!) vs) (concat cuts))) acc of
       None \<Rightarrow> Inl (ParquetDecode ''i128 overflow in deleted_contribution'') | Some acc' \<Rightarrow> Inr acc')"
proof (induction cuts arbitrary: acc)
  case (Cons rows cuts)
  then show ?case using assms by (simp add: non_null_append fold_ints_append split: option.splits)
qed simp

lemma extremum_batches_cuts:
  assumes "\<And>rows. column_by_name (mk rows) n = Some (IntColumn t (map ((!) vs) rows))"
  shows "extremum_batches kind n (map mk cuts) current = Inr (fold_extremum kind (non_null (map ((!) vs) (concat cuts))) current)"
  using assms by (induction cuts arbitrary: current) (simp_all add: fold_extremum_def non_null_append)

lemma float_batches_cuts:
  assumes "\<And>rows. column_by_name (mk rows) n = Some (FloatColumn t (map ((!) vs) rows))"
  shows "\<exists>acc'. float_batches n (map mk cuts) acc = Inr acc'"
proof (induction cuts arbitrary: acc)
  case Nil
  show ?case by (rule exI [of _ acc]) simp
next
  case (Cons rows cuts)
  then show ?case using assms by simp
qed

section \<open>Subtracting is exact\<close>

lemma sum_list_mset_eq: "mset xs = mset ys + mset zs \<Longrightarrow> sum_list (map f xs) = sum_list (map f ys) + (sum_list (map f zs) :: int)"
  by (metis map_append mset_append sum_list_append mset_map sum_mset_sum_list)

lemma squares_split: "mset xs = mset ys + mset zs \<Longrightarrow> squares xs = squares ys + squares zs"
  by (rule sum_list_mset_eq)

lemma sums_split: "mset xs = mset ys + mset zs \<Longrightarrow> sum_list xs = sum_list ys + (sum_list zs :: int)"
  using sum_list_mset_eq [of xs ys zs "\<lambda>v. v"] by simp

lemma count_split:
  assumes "mset xs = mset ys + mset zs" "length xs < 2 ^ 64"
  shows "saturating_sub_u64 (of_nat (length xs)) (of_nat (length ys)) = of_nat (length zs)"
proof -
  have l: "length xs = length ys + length zs" using assms(1) by (metis size_mset size_union)
  have u: "unat (of_nat n :: u64) = n" if "n < 2 ^ 64" for n using that by (simp add: unat_of_nat take_bit_nat_eq_self)
  have "(of_nat (length ys) :: u64) \<le> of_nat (length xs)"
    unfolding word_le_nat_alt using u [OF assms(2)] u [of "length ys"] l assms(2) by linarith
  then show ?thesis using l by (simp add: saturating_sub_u64_def)
qed

lemma retract_col_exact:
  assumes full: "partial_of full xs" "xs = [] \<Longrightarrow> ca_sum full = ANull" and del: "del = int_result (of_nat (length ys), sum_list ys, squares ys)"
    and split: "mset xs = mset ys + mset zs" and bound: "squares xs < 2 ^ 127" and len: "length xs < 2 ^ 64"
  shows "\<exists>a. retract_col full del = Some a \<and> partial_of a zs \<and> ca_min_off a = ca_min_off full \<and> ca_max_off a = ca_max_off full
    \<and> (xs \<noteq> [] \<longrightarrow> ca_sum a \<noteq> ANull) \<and> ca_sum a \<notin> range AFloat"
proof (cases "ys = []")
  case True
  then have "mset zs = mset xs" using split by simp
  then have same: "length zs = length xs" "sum_list zs = sum_list xs" "squares zs = squares xs" "zs = [] \<longleftrightarrow> xs = []"
    using sums_split [of xs "[]" zs] squares_split [of xs "[]" zs] mset_eq_length by fastforce+
  have d: "del = null_agg" using True del by (simp add: int_result_def)
  have "retract_scalar s ANull = Some s" for s by (cases s) simp_all
  then show ?thesis
    using full d same by (auto simp: retract_col_def partial_of_def null_agg_def plain_agg_def saturating_sub_u64_def)
next
  case False
  then have xs: "xs \<noteq> []" using split by auto
  have "length ys < 2 ^ 64" using split len by (metis size_mset size_union add_lessD1)
  then have "(of_nat (length ys) :: u64) \<noteq> 0" using False nat_dvd_not_less [of "length ys" "2 ^ 64"] by (auto simp: word_of_nat_eq_0_iff)
  then have d: "del = plain_agg (of_nat (length ys)) (AInt (sum_list ys)) (AInt (squares ys))"
    using del by (simp add: int_result_def)
  have "squares zs < 2 ^ 127" using bound squares_split [OF split] squares_nonneg [of ys] by linarith
  then have "in_i128 (sum_list xs - sum_list ys)" "in_i128 (squares xs - squares ys)"
    using in_i128_of_squares [of zs] sums_split [OF split] squares_split [OF split] by simp_all
  then show ?thesis
    using full(1) xs d count_split [OF split len] sums_split [OF split] squares_split [OF split]
    by (auto simp: retract_col_def partial_of_def plain_agg_def checked_sub_i128_def)
qed

lemma retract_loop_get:
  assumes "bt_wf cols" "distinct (map fst ds)" "retract_loop cols ds rm = (cols', rm')"
  shows "bt_wf cols' \<and> (\<forall>n. (if n \<in> set rm' then None else map_of cols' n) =
      (if n \<in> set rm then None else
       case (map_of cols n, map_of ds n) of (Some f, Some d) \<Rightarrow> retract_col f d | (x, _) \<Rightarrow> x))"
  using assms
proof (induction cols ds rm arbitrary: cols' rm' rule: retract_loop.induct)
  case (1 cols rm)
  then show ?case by (auto split: option.splits)
next
  case (2 cols name del ds rm)
  have nin: "map_of ds name = None" using 2(5) by (simp add: map_of_eq_None_iff)
  consider (absent) "map_of cols name = None"
    | (drop) f where "map_of cols name = Some f" "retract_col f del = None"
    | (keep) f a where "map_of cols name = Some f" "retract_col f del = Some a"
    by (cases "map_of cols name"; cases "retract_col (the (map_of cols name)) del") auto
  then show ?case
  proof cases
    case absent
    then show ?thesis using 2(1) [OF absent 2(4)] 2(5,6) nin by (auto split: option.splits)
  next
    case drop
    then show ?thesis using 2(2) [OF drop 2(4)] 2(5,6) nin by (auto split: option.splits)
  next
    case keep
    then show ?thesis using 2(3) [OF keep] 2(4-6) nin by (auto split: option.splits)
  qed
qed

lemma bt_remove_all: "map_of (foldl (\<lambda>cols n. bt_remove n cols) cols rm) n = (if n \<in> set rm then None else map_of cols n)"
  by (induction rm arbitrary: cols) auto

lemma bt_remove_all_wf: "bt_wf cols \<Longrightarrow> bt_wf (foldl (\<lambda>cols n. bt_remove n cols) cols rm)"
  by (induction rm arbitrary: cols) simp_all

lemma retract_get:
  assumes "bt_wf (fa_cols full)" "bt_wf del"
  shows "map_of (fa_cols (retract full del)) n =
      (case (map_of (fa_cols full) n, map_of del n) of (Some f, Some d) \<Rightarrow> retract_col f d | (x, _) \<Rightarrow> x)"
    "bt_wf (fa_cols (retract full del))"
proof -
  obtain cols' rm' where r: "retract_loop (fa_cols full) del [] = (cols', rm')" by fastforce
  note g = retract_loop_get [OF assms(1) bt_wf_distinct [OF assms(2)] r]
  show "map_of (fa_cols (retract full del)) n =
      (case (map_of (fa_cols full) n, map_of del n) of (Some f, Some d) \<Rightarrow> retract_col f d | (x, _) \<Rightarrow> x)"
    using g r by (auto simp: retract_def bt_remove_all split: if_splits)
  show "bt_wf (fa_cols (retract full del))" using g r by (simp add: retract_def bt_remove_all_wf)
qed


section \<open>The contribution of a column\<close>

lemma column_agg_IntColumn:
  assumes "column_agg (IntColumn t vs) = Some a"
  shows "t \<in> set int_types" "partial_of a (non_null vs)" "squares (non_null vs) < 2 ^ 127"
    "non_null vs = [] \<Longrightarrow> ca_sum a = ANull"
    "\<exists>mn mx. best_at (\<le>) vs mn \<and> best_at (\<ge>) vs mx \<and> ca_min_off a = map_option snd mn \<and> ca_max_off a = map_option snd mx"
proof -
  have c: "t \<in> set int_types" "compute_signed_int_col (ac_null_count (IntColumn t vs)) vs = Some a"
    using assms by (simp_all split: if_splits)
  note s = compute_signed_int_col_spec [OF c(2)]
  show "t \<in> set int_types" by (rule c(1))
  show "partial_of a (non_null vs)" "squares (non_null vs) < 2 ^ 127"
    "\<exists>mn mx. best_at (\<le>) vs mn \<and> best_at (\<ge>) vs mx \<and> ca_min_off a = map_option snd mn \<and> ca_max_off a = map_option snd mx"
    using s by blast+
  show "non_null vs = [] \<Longrightarrow> ca_sum a = ANull"
    using c(2) non_null_Nil_iff [of vs] by (auto simp: compute_signed_int_col_def ac_null_count_def null_agg_def plain_agg_def)
qed

lemma contribution_cols_ok:
  assumes "\<And>n. n \<in> set names \<Longrightarrow> \<exists>c. column_by_name (hd batches) n = Some c \<and> column_contribution n (ac_type c) batches = Inr (Some (g n))"
    "bt_wf acc"
  shows "\<exists>del. contribution_cols batches names acc = Inr del \<and> bt_wf del
    \<and> map_of del = map_of acc ++ (\<lambda>n. if n \<in> set names then Some (g n) else None)"
  using assms
proof (induction names arbitrary: acc)
  case (Cons n names)
  obtain c where c: "column_by_name (hd batches) n = Some c" "column_contribution n (ac_type c) batches = Inr (Some (g n))"
    using Cons.prems(1) [of n] by auto
  obtain del where del: "contribution_cols batches names (bt_insert n (g n) acc) = Inr del" "bt_wf del"
    "map_of del = map_of (bt_insert n (g n) acc) ++ (\<lambda>m. if m \<in> set names then Some (g m) else None)"
    using Cons.IH [OF Cons.prems(1) bt_insert_wf [OF Cons.prems(2)], of n "g n"] by auto
  have "map_of del = map_of acc ++ (\<lambda>m. if m \<in> set (n # names) then Some (g m) else None)"
    using del(3) Cons.prems(2) by (auto simp: map_add_def fun_eq_iff)
  then show ?case using c del(1,2) by (simp add: res_bind_def)
qed (simp add: map_add_def)

text \<open>A file with batch \<open>b\<close> whose rows have deletion vector \<open>dv\<close>.\<close>

definition fragment_file ::
  "arrow_reader \<Rightarrow> 'bm roaring \<Rightarrow> 's storage \<Rightarrow> string \<Rightarrow> row_group_entry \<Rightarrow> 's \<Rightarrow> 'bm \<Rightarrow> batch \<Rightarrow> bool" where
  "fragment_file P R S table entry s dv b \<longleftrightarrow>
     (\<exists>file data. reader_law P file \<and> file data = Some b \<and> st_read S (data_path table entry) s = (Inr data, s)) \<and>
     roaring_laws R \<and> dv_fits R dv (b_rows b) \<and> batch_wf b \<and> distinct (map fst (b_columns b))"

lemma fragment_read:
  assumes "fragment_file P R S table entry s dv b" "set idx \<subseteq> {..<length (b_columns b)}"
    "length (selection_bits sel) \<le> b_rows b"
  obtains data cuts where "st_read S (data_path table entry) s = (Inr data, s)"
    "ar_schema P data = Some (map (\<lambda>(n, c). (n, ac_type c)) (b_columns b))"
    "ar_read P data idx (ar_selection P sel) = Some (map (\<lambda>rows. take_rows rows (project idx b)) cuts)"
    "concat cuts = selected_offsets 0 sel" "[] \<notin> set cuts"
proof -
  obtain fl data where f: "reader_law P fl" "fl data = Some b" "st_read S (data_path table entry) s = (Inr data, s)"
    using assms(1) by (auto simp: fragment_file_def)
  have sl: "selection_bits (ar_selection P sel) = selection_bits sel"
    using f(1) by (simp add: reader_law_def selection_law_def)
  have "set idx \<subseteq> {..<length (b_columns b)} \<and> length (selection_bits (ar_selection P sel)) \<le> b_rows b"
    using assms(2,3) sl by simp
  with f(1,2) obtain cuts where c: "concat cuts = selected_offsets 0 (ar_selection P sel)" "[] \<notin> set cuts"
    "ar_read P data idx (ar_selection P sel) = Some (map (\<lambda>rows. take_rows rows (project idx b)) cuts)"
    "ar_schema P data = Some (map (\<lambda>(n, c). (n, ac_type c)) (b_columns b))"
    unfolding reader_law_def by blast
  have "concat cuts = selected_offsets 0 sel" using c(1) sl by (simp add: selected_offsets_bits)
  then show thesis using that f(3) c by blast
qed

lemma dead_selection:
  assumes "roaring_laws R" "dv_fits R dv n"
  shows "selected_offsets 0 (deleted_selectors 0 (map unat (dv_iter R dv))) = dead_rows R dv n"
    "length (selection_bits (deleted_selectors 0 (map unat (dv_iter R dv)))) \<le> n"
proof -
  have s: "sorted_wrt (<) (dead_rows R dv n)" "\<forall>x \<in> set (dead_rows R dv n). x < n"
    by (simp_all add: dead_rows_def sorted_wrt_filter)
  show "selected_offsets 0 (deleted_selectors 0 (map unat (dv_iter R dv))) = dead_rows R dv n"
    "length (selection_bits (deleted_selectors 0 (map unat (dv_iter R dv)))) \<le> n"
    using deleted_selectors_offsets [OF s(1), of 0] s(2) by (simp_all add: dv_iter_dead [OF assms])
qed

lemma survivor_selection:
  assumes "roaring_laws R" "dv_fits R dv n"
  shows "selected_offsets 0 (survivor_selectors n 0 (map unat (dv_iter R dv))) = live_rows_of R dv n"
    "length (selection_bits (survivor_selectors n 0 (map unat (dv_iter R dv)))) \<le> n"
proof -
  have s: "sorted_wrt (<) (dead_rows R dv n)" "\<forall>x \<in> set (dead_rows R dv n). 0 \<le> x \<and> x < n"
    by (simp_all add: dead_rows_def sorted_wrt_filter)
  have "filter (\<lambda>i. i \<notin> set (dead_rows R dv n)) [0..<n] = live_rows_of R dv n"
    unfolding live_rows_of_def by (intro filter_cong) (auto simp: dead_rows_def)
  then show "selected_offsets 0 (survivor_selectors n 0 (map unat (dv_iter R dv))) = live_rows_of R dv n"
    "length (selection_bits (survivor_selectors n 0 (map unat (dv_iter R dv)))) \<le> n"
    using survivor_selectors_offsets [OF s] by (simp_all add: dv_iter_dead [OF assms])
qed

lemma dead_squares_le:
  assumes "length vs = n"
  shows "squares (non_null (map ((!) vs) (dead_rows R dv n))) \<le> squares (non_null vs)"
  using squares_split [OF cells_split [OF assms, of R dv]] squares_nonneg [of "non_null (map ((!) vs) (live_rows_of R dv n))"] by linarith

text \<open>The contribution of one column of the full partial, read from the batches of the deleted rows.\<close>

lemma column_contribution_ok:
  assumes wf: "batch_wf b" "distinct (map fst (b_columns b))" "position n (map fst (b_columns b)) = Some i" "i \<in> set idx"
    and c: "column_by_name b n = Some c" "column_agg c = Some a"
    and cuts: "concat cuts = dead_rows R dv (b_rows b)" and bs: "bs = map (\<lambda>rows. take_rows rows (project idx b)) cuts"
  shows "\<exists>d. column_contribution n (ac_type c) bs = Inr (Some d) \<and>
    (\<forall>t vs. c = IntColumn t vs \<longrightarrow> d = int_result (let ys = non_null (map ((!) vs) (dead_rows R dv (b_rows b)))
       in (of_nat (length ys), sum_list ys, squares ys)))"
proof -
  have get: "column_by_name (take_rows rows (project idx b)) n = Some (take_cells rows c)" for rows
    using project_column [OF wf(2-4)] c(1) by simp
  have typed: "column_typed c" "ac_len c = b_rows b"
    using wf(1) c(1) by (auto simp: batch_wf_def column_by_name_def dest!: map_of_SomeD)
  show ?thesis
  proof (cases c)
    case (IntColumn t vs)
    have len: "length vs = b_rows b" using typed(2) IntColumn by (simp add: ac_len_def)
    have "squares (non_null (map ((!) vs) (dead_rows R dv (b_rows b)))) < 2 ^ 127"
      using dead_squares_le [OF len, of R dv] column_agg_IntColumn(3) [of t vs a] c(2) IntColumn by (simp add: le_less_trans)
    then have "fold_ints (non_null (map ((!) vs) (concat cuts))) (0, 0, 0) =
        Some (let ys = non_null (map ((!) vs) (dead_rows R dv (b_rows b))) in (of_nat (length ys), sum_list ys, squares ys))"
      by (simp add: cuts fold_ints_0 Let_def)
    then show ?thesis
      using int_batches_cuts [of "\<lambda>rows. take_rows rows (project idx b)" n t vs cuts "(0, 0, 0)"] get IntColumn
        column_agg_IntColumn(1) [of t vs a] c(2) by (simp add: column_contribution_def bs)
  next
    case (FloatColumn t vs)
    then have "t = DFloat32 \<or> t = DFloat64" using typed(1) by simp
    moreover obtain acc where "float_batches n bs (0, 0, 0) = Inr acc"
      using float_batches_cuts [of "\<lambda>rows. take_rows rows (project idx b)" n t vs cuts "(0, 0, 0)"] get FloatColumn bs by auto
    ultimately show ?thesis using FloatColumn by (auto simp: column_contribution_def int_types_def)
  qed (use c(2) in simp_all)
qed

definition dead_part :: "'bm roaring \<Rightarrow> 'bm \<Rightarrow> int option list \<Rightarrow> col_agg" where
  "dead_part R dv vs =
     (let ys = non_null (map ((!) vs) (dead_rows R dv (length vs))) in int_result (of_nat (length ys), sum_list ys, squares ys))"

abbreviation live_values :: "'bm roaring \<Rightarrow> 'bm \<Rightarrow> int option list \<Rightarrow> int list" where
  "live_values R dv vs \<equiv> non_null (map ((!) vs) (live_rows_of R dv (length vs)))"

lemma mem_map_filter: "y \<in> set (List.map_filter f xs) \<longleftrightarrow> (\<exists>x \<in> set xs. f x = Some y)"
  by (induction xs) (auto simp: map_filter_simps split: option.splits)

lemma full_cols_keys:
  assumes "distinct (map fst (b_columns b))" "n \<in> set (map fst (fa_cols (compute_agg_state fid h b)))"
  obtains c a i where "column_by_name b n = Some c" "column_agg c = Some a" "position n (map fst (b_columns b)) = Some i"
    "i < length (b_columns b)"
proof -
  have "map_of (fa_cols (compute_agg_state fid h b)) n \<noteq> None" using assms(2) by (simp add: map_of_eq_None_iff)
  then obtain c a where ca: "column_by_name b n = Some c" "column_agg c = Some a"
    using compute_agg_state_cols(2) [OF assms(1), of fid h n] by (auto split: bind_splits)
  then have "n \<in> set (map fst (b_columns b))" by (auto simp: column_by_name_def dest!: map_of_SomeD) (metis fst_conv image_eqI)
  then obtain i where i: "position n (map fst (b_columns b)) = Some i" using position_None [of n "map fst (b_columns b)"] by fastforce
  then have "i < length (b_columns b)" by (simp add: position_Some)
  with ca i show thesis using that by blast
qed

lemma deleted_contribution_run:
  assumes f: "fragment_file P R S table entry s dv b"
  shows "\<exists>del. deleted_contribution P R S table entry dv (map fst (fa_cols (compute_agg_state fid h b))) s = (Inr del, s)
    \<and> bt_wf del \<and> (\<forall>n t vs a. column_by_name b n = Some (IntColumn t vs) \<longrightarrow> column_agg (IntColumn t vs) = Some a \<longrightarrow>
        map_of del n = Some (dead_part R dv vs) \<or> map_of del n = None \<and> dead_rows R dv (length vs) = [])"
proof -
  let ?names = "map fst (fa_cols (compute_agg_state fid h b))" and ?sel = "deleted_selectors 0 (map unat (dv_iter R dv))"
  have wf: "batch_wf b" "distinct (map fst (b_columns b))" "roaring_laws R" "dv_fits R dv (b_rows b)"
    using f by (simp_all add: fragment_file_def)
  note ds = dead_selection [OF wf(3,4)]
  have len: "length vs = b_rows b" if "column_by_name b n = Some (IntColumn t vs)" for n t vs
    using wf(1) that by (auto simp: batch_wf_def column_by_name_def ac_len_def dest!: map_of_SomeD)
  have key: "n \<in> set ?names" if "column_by_name b n = Some c" "column_agg c = Some a" for n c a
    using compute_agg_state_cols(2) [OF wf(2), of fid h n] that by (auto dest!: map_of_SomeD) (metis fst_conv image_eqI)
  define idx where "idx = List.map_filter (\<lambda>n. position n (map fst (b_columns b))) ?names"
  have idx: "i \<in> set idx \<longleftrightarrow> (\<exists>n \<in> set ?names. position n (map fst (b_columns b)) = Some i)" for i
    unfolding idx_def by (rule mem_map_filter)
  have sub: "set idx \<subseteq> {..<length (b_columns b)}" using idx by (auto simp: position_Some)
  obtain data cuts where rd: "st_read S (data_path table entry) s = (Inr data, s)"
    "ar_schema P data = Some (map (\<lambda>(n, c). (n, ac_type c)) (b_columns b))"
    "ar_read P data idx (ar_selection P ?sel) = Some (map (\<lambda>rows. take_rows rows (project idx b)) cuts)"
    "concat cuts = dead_rows R dv (b_rows b)" "[] \<notin> set cuts"
    using fragment_read [OF f sub ds(2)] ds(1) by metis
  have names: "map fst (map (\<lambda>(n, c). (n, ac_type c)) (b_columns b)) = map fst (b_columns b)" by (simp add: case_prod_beta comp_def)
  have present: "filter (\<lambda>n. position n (map fst (b_columns b)) \<noteq> None) ?names = ?names"
  proof (rule filter_True, rule ballI)
    fix n assume n: "n \<in> set ?names"
    show "position n (map fst (b_columns b)) \<noteq> None" by (rule full_cols_keys [OF wf(2) n]) simp
  qed
  define bs where "bs = map (\<lambda>rows. take_rows rows (project idx b)) cuts"
  have run: "deleted_contribution P R S table entry dv ?names s =
      (if ?sel = [] \<or> idx = [] \<or> cuts = [] then (Inr [], s) else (contribution_cols bs ?names [], s))"
  proof -
    obtain sch where sch: "ar_schema P data = Some sch" "map fst sch = map fst (b_columns b)" using rd(2) names by blast
    define ns where "ns = ?names"
    have "filter (\<lambda>n. \<exists>i. position n (map fst (b_columns b)) = Some i) ns = ns" using present unfolding ns_def by simp
    then show ?thesis
      using rd(1,3) sch unfolding idx_def ns_def [symmetric]
      by (simp add: deleted_contribution_def bs_def idx_def Let_def flip: ns_def)
  qed
  show ?thesis
  proof (cases "?sel = [] \<or> idx = [] \<or> cuts = []")
    case True
    have "dead_rows R dv (length vs) = []" if c: "column_by_name b n = Some (IntColumn t vs)" "column_agg (IntColumn t vs) = Some a" for n t vs a
    proof -
      obtain i where "position n (map fst (b_columns b)) = Some i" by (rule full_cols_keys [OF wf(2) key [OF c]])
      then have "i \<in> set idx" using idx key [OF c] by blast
      then have "idx \<noteq> []" by auto
      then show ?thesis using True rd(4) ds(1) len [OF c(1)] by auto
    qed
    then show ?thesis using True run by auto
  next
    case False
    define g where "g n = (case column_contribution n (ac_type (the (column_by_name b n))) bs of Inr (Some d) \<Rightarrow> d | _ \<Rightarrow> null_agg)" for n
    have hd: "column_by_name (hd bs) n = map_option (take_cells (hd cuts)) (column_by_name b n)"
      if "position n (map fst (b_columns b)) = Some i" "i \<in> set idx" for n i
      using False project_column [OF wf(2) that] by (cases cuts) (simp_all add: bs_def)
    have ok: "\<exists>c. column_by_name (hd bs) n = Some c \<and> column_contribution n (ac_type c) bs = Inr (Some (g n))" if n: "n \<in> set ?names" for n
    proof -
      obtain c a i where c: "column_by_name b n = Some c" "column_agg c = Some a" "position n (map fst (b_columns b)) = Some i"
        by (rule full_cols_keys [OF wf(2) n])
      have i: "i \<in> set idx" using idx n c(3) by blast
      show ?thesis
        using column_contribution_ok [OF wf(1,2) c(3) i c(1,2) rd(4) bs_def] hd [OF c(3) i] c(1) by (auto simp: g_def)
    qed
    obtain del where del: "contribution_cols bs ?names [] = Inr del" "bt_wf del"
      "map_of del = map_of [] ++ (\<lambda>n. if n \<in> set ?names then Some (g n) else None)"
      using contribution_cols_ok [of ?names bs g "[]"] ok by auto
    have "map_of del n = Some (dead_part R dv vs)" if c: "column_by_name b n = Some (IntColumn t vs)" "column_agg (IntColumn t vs) = Some a" for n t vs a
    proof -
      obtain i where i: "position n (map fst (b_columns b)) = Some i" by (rule full_cols_keys [OF wf(2) key [OF c]])
      have "i \<in> set idx" using idx key [OF c] i by blast
      then have "g n = dead_part R dv vs"
        using column_contribution_ok [OF wf(1,2) i _ c rd(4) bs_def] c(1) len [OF c(1)] by (auto simp: g_def dead_part_def Let_def)
      then show ?thesis using del(3) key [OF c] by simp
    qed
    then show ?thesis using False run del(1,2) by auto
  qed
qed

lemma retract_exact:
  assumes f: "fragment_file P R S table entry s dv b"
    and del: "deleted_contribution P R S table entry dv (map fst (fa_cols (compute_agg_state fid h b))) s = (Inr del, s')"
    and c: "column_by_name b n = Some (IntColumn t vs)" "column_agg (IntColumn t vs) = Some a"
  shows "\<exists>a'. map_of (fa_cols (retract (compute_agg_state fid h b) del)) n = Some a' \<and> partial_of a' (live_values R dv vs)
    \<and> ca_min_off a' = ca_min_off a \<and> ca_max_off a' = ca_max_off a \<and> ca_sum a' \<notin> range AFloat
    \<and> (non_null vs \<noteq> [] \<longrightarrow> ca_sum a' \<noteq> ANull)"
proof -
  have wf: "batch_wf b" "distinct (map fst (b_columns b))" "dv_fits R dv (b_rows b)" using f by (simp_all add: fragment_file_def)
  have len: "length vs = b_rows b"
    using wf(1) c(1) by (auto simp: batch_wf_def column_by_name_def ac_len_def dest!: map_of_SomeD)
  have d: "bt_wf del" "map_of del n = Some (dead_part R dv vs) \<or> map_of del n = None \<and> dead_rows R dv (length vs) = []"
    using deleted_contribution_run [OF f, of fid h] del c by fastforce+
  have full: "map_of (fa_cols (compute_agg_state fid h b)) n = Some a" using compute_agg_state_cols(2) [OF wf(2)] c by simp
  note ca = column_agg_IntColumn [OF c(2)]
  have lnn: "length (non_null vs) \<le> length vs" by (induction vs rule: non_null.induct) simp_all
  have l64: "length (non_null vs) < 2 ^ 64" using lnn len wf(3) by (simp add: dv_fits_def)
  have sp: "mset (non_null vs) = mset (non_null (map ((!) vs) (dead_rows R dv (length vs)))) + mset (live_values R dv vs)"
    by (rule cells_split) simp
  note ex = retract_col_exact [OF ca(2,4) _ sp ca(3) l64, of "dead_part R dv vs"]
  show ?thesis
  proof (cases "map_of del n")
    case None
    then have "live_rows_of R dv (length vs) = [0..<length vs]"
      using d(2) by (auto simp: dead_rows_def live_rows_of_def filter_empty_conv filter_id_conv)
    then have "live_values R dv vs = non_null vs" by (simp add: map_nth)
    moreover have "ca_sum a \<notin> range AFloat" "non_null vs \<noteq> [] \<longrightarrow> ca_sum a \<noteq> ANull" using ca(2) by (auto simp: partial_of_def)
    ultimately show ?thesis
      using None full ca(2) retract_get(1) [OF compute_agg_state_cols(1) [OF wf(2)] d(1), of fid h n] by simp
  next
    case (Some d')
    then have "d' = dead_part R dv vs" using d(2) by auto
    then show ?thesis
      using Some full ex retract_get(1) [OF compute_agg_state_cols(1) [OF wf(2)] d(1), of fid h n] by (auto simp: dead_part_def Let_def)
  qed
qed

section \<open>Extrema of the surviving rows\<close>

fun ext_le :: "extremum_kind \<Rightarrow> int \<Rightarrow> int \<Rightarrow> bool" where
  "ext_le KMin a b \<longleftrightarrow> a \<le> b"
| "ext_le KMax a b \<longleftrightarrow> b \<le> a"

definition is_extremum :: "extremum_kind \<Rightarrow> int \<Rightarrow> int list \<Rightarrow> bool" where
  "is_extremum kind m xs \<longleftrightarrow> m \<in> set xs \<and> (\<forall>x \<in> set xs. ext_le kind m x)"

lemma fold_extremum_spec:
  "fold_extremum kind xs None = None \<and> xs = [] \<or> (\<exists>m. fold_extremum kind xs None = Some m \<and> is_extremum kind m xs)"
proof (induction xs rule: rev_induct)
  case (snoc x xs)
  show ?case
  proof (cases "xs = []")
    case True
    then show ?thesis by (cases kind) (simp_all add: fold_extremum_def is_extremum_def)
  next
    case False
    then obtain m where m: "fold_extremum kind xs None = Some m" "is_extremum kind m xs" using snoc by auto
    have "is_extremum kind (pick_extremum kind m x) (xs @ [x])"
      using m(2) by (cases kind) (auto simp: is_extremum_def min_def max_def)
    then show ?thesis using m(1) by (simp add: fold_extremum_def)
  qed
qed (simp add: fold_extremum_def)

lemma scoped_recompute_run:
  assumes f: "fragment_file P R S table entry s dv b" and c: "column_by_name b n = Some (IntColumn t vs)" "t \<in> set int_types"
  shows "scoped_recompute_extremum P R S table entry dv (b_rows b) n kind s
    = (Inr (Option.bind (fold_extremum kind (live_values R dv vs) None) extremum_json), s)"
proof -
  let ?sel = "survivor_selectors (b_rows b) 0 (map unat (dv_iter R dv))"
  have wf: "batch_wf b" "distinct (map fst (b_columns b))" "roaring_laws R" "dv_fits R dv (b_rows b)"
    using f by (simp_all add: fragment_file_def)
  note ss = survivor_selection [OF wf(3,4)]
  have len: "length vs = b_rows b"
    using wf(1) c(1) by (auto simp: batch_wf_def column_by_name_def ac_len_def dest!: map_of_SomeD)
  have mem: "(n, IntColumn t vs) \<in> set (b_columns b)" using c(1) by (auto simp: column_by_name_def dest!: map_of_SomeD)
  obtain i where i: "position n (map fst (b_columns b)) = Some i"
    using position_None [of n "map fst (b_columns b)"] mem by (metis fst_conv image_eqI image_set not_None_eq)
  then have il: "i < length (b_columns b)" "fst (b_columns b ! i) = n" by (auto simp: position_Some)
  have at: "b_columns b ! i = (n, IntColumn t vs)"
  proof -
    have "map_of (b_columns b) n = Some (snd (b_columns b ! i))"
      using map_of_is_SomeI [OF wf(2), of n "snd (b_columns b ! i)"] nth_mem [OF il(1)] il(2) by (metis prod.collapse)
    then show ?thesis using c(1) il(2) by (simp add: column_by_name_def prod_eq_iff)
  qed
  obtain data cuts where rd: "st_read S (data_path table entry) s = (Inr data, s)"
    "ar_schema P data = Some (map (\<lambda>(n, c). (n, ac_type c)) (b_columns b))"
    "ar_read P data [i] (ar_selection P ?sel) = Some (map (\<lambda>rows. take_rows rows (project [i] b)) cuts)"
    "concat cuts = live_rows_of R dv (b_rows b)" "[] \<notin> set cuts"
    using fragment_read [OF f, of "[i]" ?sel] ss il(1) by (metis empty_subsetI insert_subset lessThan_iff list.set)
  obtain sch where sch: "ar_schema P data = Some sch" "map fst sch = map fst (b_columns b)" "snd (sch ! i) = t"
    using rd(2) at il(1) by (intro that) (auto simp: case_prod_beta comp_def)
  have get: "column_by_name (take_rows rows (project [i] b)) n = Some (IntColumn t (map ((!) vs) rows))" for rows
    using project_column [OF wf(2) i, of "[i]"] c(1) by simp
  have ex: "extremum_batches kind n (map (\<lambda>rows. take_rows rows (project [i] b)) cuts) None
      = Inr (fold_extremum kind (live_values R dv vs) None)"
    using extremum_batches_cuts [OF get, of kind cuts None] rd(4) len by simp
  show ?thesis
  proof (cases "?sel = [] \<or> cuts = []")
    case True
    then have "live_values R dv vs = []" using ss(1) rd(4) len by auto
    then show ?thesis using True rd(1,3) sch i c(2) by (auto simp: scoped_recompute_extremum_def Let_def fold_extremum_def)
  next
    case False
    then have "column_by_name (hd (map (\<lambda>rows. take_rows rows (project [i] b)) cuts)) n \<noteq> None" using get by (cases cuts) simp_all
    then show ?thesis using False rd(1,3) sch i c(2) ex by (simp add: scoped_recompute_extremum_def Let_def)
  qed
qed

lemma extremum_json_jint: "extremum_json m = Some j \<Longrightarrow> j = jint m"
  by (auto simp: extremum_json_def jint_def split: if_splits)

lemma live_row_value:
  assumes "dv_fits R dv (length vs)" "i < length vs" "vs ! i = Some m" "\<not> dv_contains R dv (of_nat i)"
  shows "m \<in> set (live_values R dv vs)"
  using assms(2-4) by (auto simp: set_non_null live_rows_of_def dv_set_def image_iff intro!: exI [of _ i])

lemma live_values_sub: "v \<in> set (live_values R dv vs) \<Longrightarrow> Some v \<in> set vs"
  by (auto simp: set_non_null live_rows_of_def)

text \<open>The statistics of the column hold an extremum of all its cells.\<close>

lemma live_extremum_exact:
  assumes f: "fragment_file P R S table entry s dv b" and c: "column_by_name b n = Some (IntColumn t vs)" "t \<in> set int_types"
    and rows: "unat (rm_rows meta) = b_rows b"
    and best: "best_at (ext_le kind) vs best" "extremum_off kind a = map_option snd best"
    and stat: "\<And>st. map_of (rm_columns meta) n = Some st \<Longrightarrow> stat st = map_option jint (k vs)" "picks (ext_le kind) k"
    and r: "live_extremum P R S table entry dv meta n a kind stat s = (Inr (Some j), s')"
  shows "\<exists>m. j = jint m \<and> is_extremum kind m (live_values R dv vs)"
proof (cases "extremum_deleted R a dv kind")
  case True
  then have "Option.bind (fold_extremum kind (live_values R dv vs) None) extremum_json = Some j"
    using r rows scoped_recompute_run [OF f c, of kind] by (simp add: live_extremum_def io_success)
  then obtain m where m: "fold_extremum kind (live_values R dv vs) None = Some m" "extremum_json m = Some j"
    by (auto split: bind_splits)
  moreover have "is_extremum kind m (live_values R dv vs)" using fold_extremum_spec [of kind "live_values R dv vs"] m(1) by auto
  ultimately show ?thesis using extremum_json_jint by blast
next
  case False
  then obtain st where st: "map_of (rm_columns meta) n = Some st" "stat st = Some j"
    using r by (auto simp: live_extremum_def split: bind_splits)
  then obtain m where m: "k vs = Some m" "j = jint m" using stat(1) by auto
  note p = picksD [OF stat(2) m(1)]
  have len: "length vs = b_rows b" and fit: "dv_fits R dv (b_rows b)"
    using f c(1) by (auto simp: fragment_file_def batch_wf_def column_by_name_def ac_len_def dest!: map_of_SomeD)
  have "non_null vs \<noteq> []" using p(1) set_non_null [of m vs] by auto
  then obtain m' off i where b: "best = Some (m', off)" "i < length vs" "vs ! i = Some m'" "off = of_nat i"
    "\<And>v. Some v \<in> set vs \<Longrightarrow> ext_le kind m' v"
    using best(1) by (cases best) (auto simp: best_at_def)
  have "m' = m" using b(5) [OF p(1)] p(2) [of m'] b(2,3) nth_mem [of i vs] by (cases kind) auto
  moreover have "\<not> dv_contains R dv (of_nat i)" using False best(2) b(1,4) by (simp add: extremum_deleted_def)
  ultimately have "m \<in> set (live_values R dv vs)" using live_row_value [of R dv vs i m] b(2,3) fit len by simp
  then have "is_extremum kind m (live_values R dv vs)"
    using p(2) live_values_sub [of _ vs R dv] by (simp add: is_extremum_def)
  then show ?thesis using m(2) by blast
qed

text \<open>A non-negative extremum of the surviving cells is resolved, whether its row survived or it is computed again.\<close>

lemma is_extremum_unique: "is_extremum kind m xs \<Longrightarrow> is_extremum kind m' xs \<Longrightarrow> m' = m"
  by (cases kind) (auto simp: is_extremum_def intro: antisym)

lemma live_extremum_carried:
  assumes f: "fragment_file P R S table entry s dv b" and c: "column_by_name b n = Some (IntColumn t vs)" "t \<in> set int_types"
    and rows: "unat (rm_rows meta) = b_rows b"
    and best: "best_at (ext_le kind) vs best" "extremum_off kind a = map_option snd best"
    and stat: "\<And>st. map_of (rm_columns meta) n = Some st \<Longrightarrow> stat st = map_option jint (k vs)" "picks (ext_le kind) k"
    and there: "map_of (rm_columns meta) n \<noteq> None"
    and m: "is_extremum kind m (live_values R dv vs)" "0 \<le> m"
  shows "live_extremum P R S table entry dv meta n a kind stat s = (Inr (Some (jint m)), s)"
proof -
  have mvs: "Some m \<in> set vs" using m(1) live_values_sub by (auto simp: is_extremum_def)
  obtain r where r: "live_extremum P R S table entry dv meta n a kind stat s = (Inr r, s)"
  proof (cases "extremum_deleted R a dv kind")
    case True
    then show thesis using that rows scoped_recompute_run [OF f c, of kind] by (simp add: live_extremum_def io_bind_run io_try_run)
  qed (use that in \<open>simp add: live_extremum_def\<close>)
  moreover have "r \<noteq> None"
  proof (cases "extremum_deleted R a dv kind")
    case True
    have "Option.bind (fold_extremum kind (live_values R dv vs) None) extremum_json = r"
      using r True rows scoped_recompute_run [OF f c, of kind] by (simp add: live_extremum_def io_bind_run io_try_run)
    moreover have "fold_extremum kind (live_values R dv vs) None = Some m"
      using fold_extremum_spec [of kind "live_values R dv vs"] m(1) is_extremum_unique by (auto simp: is_extremum_def)
    moreover have "in_type t m"
      using f c(1) mvs by (auto simp: fragment_file_def batch_wf_def column_by_name_def dest!: map_of_SomeD)
    then have "m < 2 ^ 64" using c(2) by (auto simp: int_types_def in_type_def)
    ultimately show ?thesis using m(2) by (auto simp: extremum_json_def)
  next
    case False
    moreover obtain st where st: "map_of (rm_columns meta) n = Some st" using there by blast
    moreover have "k vs \<noteq> None"
    proof
      assume "k vs = None"
      then show False using spec [OF stat(2) [unfolded picks_def], of vs] mvs by simp
    qed
    ultimately show ?thesis using r stat(1) [OF st] by (auto simp: live_extremum_def)
  qed
  ultimately obtain j where j: "live_extremum P R S table entry dv meta n a kind stat s = (Inr (Some j), s)" by auto
  then show ?thesis using live_extremum_exact [OF f c rows best stat j] m(1) is_extremum_unique by blast
qed

section \<open>Loading\<close>

text \<open>
  What a live partial says: of every integer column of the full partial, exactly its surviving cells; an
  extremum it carries is theirs.
\<close>

definition live_exact :: "'bm roaring \<Rightarrow> 'bm \<Rightarrow> batch \<Rightarrow> fragment_agg_state \<Rightarrow> bool" where
  "live_exact R dv b st \<longleftrightarrow> (\<forall>n t vs a. column_by_name b n = Some (IntColumn t vs) \<longrightarrow> column_agg (IntColumn t vs) = Some a \<longrightarrow>
     (\<exists>a'. map_of (fa_cols st) n = Some a' \<and> partial_of a' (live_values R dv vs) \<and> (non_null vs \<noteq> [] \<longrightarrow> ca_sum a' \<noteq> ANull)
        \<and> (\<forall>j. ca_live_min a' = Some j \<longrightarrow> (\<exists>m. j = jint m \<and> is_extremum KMin m (live_values R dv vs)))
        \<and> (\<forall>j. ca_live_max a' = Some j \<longrightarrow> (\<exists>m. j = jint m \<and> is_extremum KMax m (live_values R dv vs)))))"

text \<open>
  Moreover, the extrema of the surviving cells are carried where they are not negative. (A negative extremum whose row was deleted is
  not: \<^verbatim>\<open>scoped_recompute_extremum\<close> has no encoding for it.)
\<close>

definition extrema_carried :: "'bm roaring \<Rightarrow> 'bm \<Rightarrow> batch \<Rightarrow> fragment_agg_state \<Rightarrow> bool" where
  "extrema_carried R dv b st \<longleftrightarrow> (\<forall>n t vs a a' m. column_by_name b n = Some (IntColumn t vs) \<longrightarrow> column_agg (IntColumn t vs) = Some a \<longrightarrow>
     map_of (fa_cols st) n = Some a' \<longrightarrow> 0 \<le> m \<longrightarrow>
       (is_extremum KMin m (live_values R dv vs) \<longrightarrow> ca_live_min a' = Some (jint m))
       \<and> (is_extremum KMax m (live_values R dv vs) \<longrightarrow> ca_live_max a' = Some (jint m)))"

definition live_partial :: "'bm roaring \<Rightarrow> 'bm \<Rightarrow> batch \<Rightarrow> fragment_agg_state \<Rightarrow> bool" where
  "live_partial R dv b st \<longleftrightarrow> live_exact R dv b st \<and> extrema_carried R dv b st"

lemma scoped_state:
  assumes "st_read S (data_path table entry) s = (Inr data, s)"
  shows "snd (scoped_recompute_extremum P R S table entry dv rows n kind s) = s"
  using assms by (simp add: scoped_recompute_extremum_def Let_def split: option.splits)

lemma live_extremum_run:
  assumes "st_read S (data_path table entry) s = (Inr data, s)"
  shows "\<exists>v. live_extremum P R S table entry dv meta n a kind stat s = (Inr v, s)"
  using scoped_state [OF assms, of P R dv "unat (rm_rows meta)" n kind]
  by (auto simp: live_extremum_def io_bind_run io_try_run split: prod.splits)

lemma live_cols_run:
  assumes rd: "st_read S (data_path table entry) s = (Inr data, s)"
  shows "\<exists>cols'. live_cols P R S table entry dv meta cols s = (Inr cols', s)
    \<and> (\<forall>n a. map_of cols n = Some a \<longrightarrow> ca_sum a \<notin> range AFloat \<longrightarrow>
        (\<exists>mn mx. map_of cols' n = Some (a\<lparr>ca_live_min := mn, ca_live_max := mx\<rparr>)
          \<and> live_extremum P R S table entry dv meta n a KMin cs_min s = (Inr mn, s)
          \<and> live_extremum P R S table entry dv meta n a KMax cs_max s = (Inr mx, s)))"
proof (induction cols)
  case (Cons p cols)
  obtain n a where p: "p = (n, a)" by fastforce
  obtain mn mx where x: "live_extremum P R S table entry dv meta n a KMin cs_min s = (Inr mn, s)"
    "live_extremum P R S table entry dv meta n a KMax cs_max s = (Inr mx, s)"
    using live_extremum_run [OF rd] by metis
  then show ?case using Cons p by (cases "ca_sum a") auto
qed simp

lemma resolve_live_grouped_run:
  assumes "st_read S (data_path table entry) s = (Inr data, s)"
  shows "\<exists>g. resolve_live_grouped X P R S table entry dv schema fg s = (Inr g, s)"
proof -
  have "snd (retract_grouped X P R S table entry gp dv ms s) = s" for gp ms
    using assms by (simp add: retract_grouped_def Let_def split: option.splits)
  then show ?thesis
    by (auto simp: resolve_live_grouped_def io_bind_run io_try_run split: option.splits list.splits prod.splits)
       (metis snd_conv)+
qed

text \<open>The metadata of the row group was computed from the batch.\<close>

definition meta_of :: "row_group_meta \<Rightarrow> batch \<Rightarrow> bool" where
  "meta_of meta b \<longleftrightarrow> unat (rm_rows meta) = b_rows b \<and>
     (\<exists>X K. kernels_law K \<and> (\<forall>n st. map_of (rm_columns meta) n = Some st \<longrightarrow> stats_of X K b n st)) \<and>
     (\<forall>n c. column_by_name b n = Some c \<longrightarrow> map_of (rm_columns meta) n \<noteq> None)"

lemma live_state_exact:
  assumes f: "fragment_file P R S table entry s dv b" and meta: "meta_of meta b"
    and dv: "st_read S dv_path s = (Inr dvb, s)" "dv_deserialize R dvb = Inr dv"
    and full: "fa_cols full = fa_cols (compute_agg_state fid h b)"
  shows "\<exists>st. live_state X P R S table entry meta schema full dv_path s = (Inr st, s) \<and> live_partial R dv b st"
proof -
  obtain data where rd: "st_read S (data_path table entry) s = (Inr data, s)" using f by (auto simp: fragment_file_def)
  obtain del where del: "deleted_contribution P R S table entry dv (map fst (fa_cols full)) s = (Inr del, s)"
    using deleted_contribution_run [OF f, of fid h] full by auto
  let ?live = "retract full del"
  have same: "fa_cols ?live = fa_cols (retract (compute_agg_state fid h b) del)"
    by (simp add: retract_def full split: prod.splits)
  obtain cols' where cols: "live_cols P R S table entry dv meta (fa_cols ?live) s = (Inr cols', s)"
    "\<And>n a. map_of (fa_cols ?live) n = Some a \<Longrightarrow> ca_sum a \<notin> range AFloat \<Longrightarrow>
        (\<exists>mn mx. map_of cols' n = Some (a\<lparr>ca_live_min := mn, ca_live_max := mx\<rparr>)
          \<and> live_extremum P R S table entry dv meta n a KMin cs_min s = (Inr mn, s)
          \<and> live_extremum P R S table entry dv meta n a KMax cs_max s = (Inr mx, s))"
    using live_cols_run [OF rd, of P R dv meta "fa_cols ?live"] by blast
  obtain g where g: "resolve_live_grouped X P R S table entry dv schema (fa_grouped full) s = (Inr g, s)"
    using resolve_live_grouped_run [OF rd, of X P R dv schema "fa_grouped full"] by blast
  define st where "st = ?live\<lparr>fa_cols := cols', fa_grouped := g\<rparr>"
  have run: "live_state X P R S table entry meta schema full dv_path s = (Inr st, s)"
    using dv del cols(1) g by (simp add: live_state_def resolve_live_extrema_def io_bind_run st_def)
  obtain Y K where K: "kernels_law K" "\<And>n st. map_of (rm_columns meta) n = Some st \<Longrightarrow> stats_of Y K b n st"
    and rows: "unat (rm_rows meta) = b_rows b" and there: "\<And>n c. column_by_name b n = Some c \<Longrightarrow> map_of (rm_columns meta) n \<noteq> None"
    using meta by (auto simp: meta_of_def)
  have each: "\<exists>a'. map_of (fa_cols st) n = Some a' \<and> partial_of a' (live_values R dv vs) \<and> (non_null vs \<noteq> [] \<longrightarrow> ca_sum a' \<noteq> ANull)
        \<and> (\<forall>j. ca_live_min a' = Some j \<longrightarrow> (\<exists>m. j = jint m \<and> is_extremum KMin m (live_values R dv vs)))
        \<and> (\<forall>j. ca_live_max a' = Some j \<longrightarrow> (\<exists>m. j = jint m \<and> is_extremum KMax m (live_values R dv vs)))
        \<and> (\<forall>m. 0 \<le> m \<longrightarrow> is_extremum KMin m (live_values R dv vs) \<longrightarrow> ca_live_min a' = Some (jint m))
        \<and> (\<forall>m. 0 \<le> m \<longrightarrow> is_extremum KMax m (live_values R dv vs) \<longrightarrow> ca_live_max a' = Some (jint m))"
    if c: "column_by_name b n = Some (IntColumn t vs)" "column_agg (IntColumn t vs) = Some a" for n t vs a
  proof -
    note ca = column_agg_IntColumn [OF c(2)]
    obtain a' where a': "map_of (fa_cols ?live) n = Some a'" "partial_of a' (live_values R dv vs)" "ca_min_off a' = ca_min_off a"
      "ca_max_off a' = ca_max_off a" "ca_sum a' \<notin> range AFloat" "non_null vs \<noteq> [] \<longrightarrow> ca_sum a' \<noteq> ANull" using retract_exact [OF f del [unfolded full] c] same by auto
    obtain mn mx where x: "map_of cols' n = Some (a'\<lparr>ca_live_min := mn, ca_live_max := mx\<rparr>)"
      "live_extremum P R S table entry dv meta n a' KMin cs_min s = (Inr mn, s)"
      "live_extremum P R S table entry dv meta n a' KMax cs_max s = (Inr mx, s)" using cols(2) [OF a'(1,5)] by blast
    obtain bn bx where best: "best_at (\<le>) vs bn" "best_at (\<ge>) vs bx" "ca_min_off a = map_option snd bn" "ca_max_off a = map_option snd bx"
      using ca(5) by blast
    have le: "ext_le KMin = (\<le>)" "ext_le KMax = (\<ge>)" by (simp_all add: fun_eq_iff)
    have stats: "cs_min st' = map_option jint (k_min_int K vs)" "cs_max st' = map_option jint (k_max_int K vs)"
      if "map_of (rm_columns meta) n = Some st'" for st'
      using K(2) [OF that] c(1) ca(1) by (auto simp: stats_of_def)
    have picks: "picks (\<le>) (k_min_int K)" "picks (\<ge>) (k_max_int K)" using K(1) by (simp_all add: kernels_law_def)
    have "\<exists>m. j = jint m \<and> is_extremum KMin m (live_values R dv vs)" if "mn = Some j" for j
      by (rule live_extremum_exact [OF f c(1) ca(1) rows, where kind = KMin and stat = cs_min and k = "k_min_int K" and best = bn])
        (use best a'(3) x(2) that stats(1) picks(1) le in auto)
    moreover have "\<exists>m. j = jint m \<and> is_extremum KMax m (live_values R dv vs)" if "mx = Some j" for j
      by (rule live_extremum_exact [OF f c(1) ca(1) rows, where kind = KMax and stat = cs_max and k = "k_max_int K" and best = bx])
        (use best a'(4) x(3) that stats(2) picks(2) le in auto)
    moreover have "mn = Some (jint m)" if "0 \<le> m" "is_extremum KMin m (live_values R dv vs)" for m
      using live_extremum_carried [OF f c(1) ca(1) rows, where kind = KMin and stat = cs_min and k = "k_min_int K" and best = bn and a = a' and m = m]
        best(1,3) a'(3) x(2) that stats(1) picks(1) le there [OF c(1)] by simp
    moreover have "mx = Some (jint m)" if "0 \<le> m" "is_extremum KMax m (live_values R dv vs)" for m
      using live_extremum_carried [OF f c(1) ca(1) rows, where kind = KMax and stat = cs_max and k = "k_max_int K" and best = bx and a = a' and m = m]
        best(2,4) a'(4) x(3) that stats(2) picks(2) le there [OF c(1)] by simp
    ultimately show ?thesis using x(1) a'(2,6) by (auto simp: st_def partial_of_def)
  qed
  have "live_exact R dv b st" unfolding live_exact_def using each by blast
  moreover have "extrema_carried R dv b st" unfolding extrema_carried_def
  proof (intro allI impI)
    fix n t vs a a' m
    assume c: "column_by_name b n = Some (IntColumn t vs)" "column_agg (IntColumn t vs) = Some a" "map_of (fa_cols st) n = Some a'" "0 \<le> (m :: int)"
    show "(is_extremum KMin m (live_values R dv vs) \<longrightarrow> ca_live_min a' = Some (jint m)) \<and> (is_extremum KMax m (live_values R dv vs) \<longrightarrow> ca_live_max a' = Some (jint m))"
      using each [OF c(1,2)] c(3,4) by auto
  qed
  ultimately show ?thesis using run by (auto simp: live_partial_def)
qed

text \<open>
  A cache is coherent for a row group when it holds nothing else for its two keys than what loading would
  compute. It may be shared with other row groups and evict at any time.
\<close>

definition agg_path_of :: "string \<Rightarrow> string \<Rightarrow> string" where
  "agg_path_of table agg_rel = table @ ''/'' @ agg_rel"

definition live_key_of :: "string \<Rightarrow> string \<Rightarrow> string \<Rightarrow> string" where
  "live_key_of table agg_rel del_rel = agg_path_of table agg_rel @ ''@'' @ table @ ''/'' @ del_rel"

definition coherent ::
  "'bm roaring \<Rightarrow> 'bm \<Rightarrow> batch \<Rightarrow> fragment_agg_state \<Rightarrow> string \<Rightarrow> string \<Rightarrow> fragment_agg_state agg_cache \<Rightarrow> bool" where
  "coherent R dv b full agg_path live_key cache \<longleftrightarrow> lru_inv (gc_inner cache)
     \<and> (\<forall>st. mc_lookup (gc_inner cache) agg_path = Some st \<longrightarrow> st = full)
     \<and> (\<forall>st. mc_lookup (gc_inner cache) live_key = Some st \<longrightarrow> live_partial R dv b st)"

lemma coherent_get:
  assumes "coherent R dv b full p k cache" "gc_get cache q = (r, cache')"
  shows "coherent R dv b full p k cache'" "r = mc_lookup (gc_inner cache) q"
  using assms lru_inv_promote [of "gc_inner cache" q]
  by (auto simp: coherent_def gc_get_def mc_lookup_def mc_promote_def split: option.splits)

lemma coherent_put:
  assumes "coherent R dv b full p k cache" "q = p \<Longrightarrow> st = full" "q = k \<Longrightarrow> live_partial R dv b st"
  shows "coherent R dv b full p k (gc_put q st cache)"
  using assms lru_inv_put [of "gc_inner cache" q st] mc_put_sub [of "gc_inner cache" q st]
  by (auto simp: coherent_def gc_put_def mc_lookup_def)

lemma load_agg_state_exact:
  assumes f: "fragment_file P R S table entry s dv b" and meta: "meta_of meta b"
    and entry: "rg_agg entry = Some agg_rel" "rg_deletes entry = Some del_rel" "rg_deleted_count entry \<noteq> 0"
    and agg: "st_read S (agg_path_of table agg_rel) s = (Inr ab, s)" "D ab = Some (compute_agg_state_with_key X fid h b key)"
    and dv: "st_read S (table @ ''/'' @ del_rel) s = (Inr dvb, s)" "dv_deserialize R dvb = Inr dv"
    and c: "coherent R dv b (compute_agg_state_with_key X fid h b key) (agg_path_of table agg_rel) (live_key_of table agg_rel del_rel) cache"
  shows "\<exists>st cache'. load_agg_state X P R D S table entry meta schema cache s = (Inr (Some st, cache'), s) \<and> live_partial R dv b st
    \<and> coherent R dv b (compute_agg_state_with_key X fid h b key) (agg_path_of table agg_rel) (live_key_of table agg_rel del_rel) cache'"
proof -
  let ?full = "compute_agg_state_with_key X fid h b key" and ?p = "agg_path_of table agg_rel" and ?k = "live_key_of table agg_rel del_rel"
  have pk: "?p \<noteq> ?k" by (simp add: live_key_of_def)
  have cols: "fa_cols ?full = fa_cols (compute_agg_state fid h b)"
    by (simp add: compute_agg_state_with_key_def Let_def split: option.splits)
  obtain c1 where full: "load_full_agg D S table entry cache s = (Inr (Some ?full, c1), s)" "coherent R dv b ?full ?p ?k c1"
  proof -
    obtain r c0 where g: "gc_get cache ?p = (r, c0)" by fastforce
    note cg = coherent_get [OF c g]
    show thesis
    proof (cases r)
      case None
      then have "load_full_agg D S table entry cache s = (Inr (Some ?full, gc_put ?p ?full c0), s)"
        using entry(1) g agg by (simp add: load_full_agg_def agg_path_of_def Let_def)
      then show thesis using that coherent_put [OF cg(1), of ?p ?full] pk by blast
    next
      case (Some st)
      then have "st = ?full" using cg(2) c by (auto simp: coherent_def)
      then have "load_full_agg D S table entry cache s = (Inr (Some ?full, c0), s)"
        using entry(1) g Some by (simp add: load_full_agg_def agg_path_of_def Let_def)
      then show thesis using that cg(1) by blast
    qed
  qed
  obtain r c2 where g: "gc_get c1 ?k = (r, c2)" by fastforce
  note cg = coherent_get [OF full(2) g]
  show ?thesis
  proof (cases r)
    case None
    obtain st where st: "live_state X P R S table entry meta schema ?full (table @ ''/'' @ del_rel) s = (Inr st, s)" "live_partial R dv b st"
      using live_state_exact [OF f meta dv cols, of X schema] by blast
    have "load_agg_state X P R D S table entry meta schema cache s = (Inr (Some st, gc_put ?k st c2), s)"
      using full(1) entry g None st(1) by (simp add: load_agg_state_def live_key_of_def agg_path_of_def Let_def)
    moreover have "coherent R dv b ?full ?p ?k (gc_put ?k st c2)"
      by (rule coherent_put [OF cg(1)]) (use pk st(2) in auto)
    ultimately show ?thesis using st(2) by blast
  next
    case (Some st)
    then have "load_agg_state X P R D S table entry meta schema cache s = (Inr (Some st, c2), s)"
      using full(1) entry g by (simp add: load_agg_state_def live_key_of_def agg_path_of_def Let_def)
    moreover have "live_partial R dv b st" using cg(2) Some full(2) by (auto simp: coherent_def)
    ultimately show ?thesis using cg(1) by blast
  qed
qed

end
