(* ===== verification/Agg_Query.thy ===== *)
theory Agg_Query
  imports Agg_Exact Prune_Sound
begin

text \<open>
  Answering aggregates from the partials of the planned row groups,
  \<^verbatim>\<open>crates/icefalldb-query/src/rules/metadata_aggregate.rs\<close>: COUNT and SUM of a whole scan, COUNT and SUM under a
  range filter, where row groups that the filter covers contribute a constant and only the others are scanned, and
  the COUNT and SUM of one group of a GROUP BY. \<^verbatim>\<open>None\<close> is \<^verbatim>\<open>StatsUnavailable\<close>: the plan is left as it was. Physical
  expressions of the query engine are reduced to the shapes the rule tells apart; AVG, VAR and STDDEV, which divide
  the same partials, and the plan nodes that wrap the results are left out.
\<close>

section \<open>Values and expressions\<close>

datatype agg_value = VInt data_type int | VFloat data_type u64 | VNull data_type

datatype operator = OEq | OLt | OLtEq | OGt | OGtEq | OAnd | OOtherOp

datatype phys_expr = XColumn string | XLiteral query_scalar | XBinary operator phys_expr phys_expr | XOther

type_synonym planned = "fragment_agg_state planned_row_group"

text \<open>
  \<^verbatim>\<open>as f32\<close>, widened again: 24 significant bits, multiples of \<open>2 ^ -149\<close>, and infinity from \<open>2 ^ 128\<close> on.
\<close>

definition f64_as_f32 :: "u64 \<Rightarrow> u64" where
  "f64_as_f32 b =
     (if is_nan b then f64_nan else if \<not> is_finite b then b
      else let n = f64_units b; t = max 925 (bit_len n - 24); m = round_even t n * 2 ^ t
           in f64_make (f64_neg b) (if 2 ^ 1202 \<le> m then f64_inf else f64_round 0 m))"

section \<open>Whole scans\<close>

definition usable_partial :: "string \<Rightarrow> planned \<Rightarrow> bool" where
  "usable_partial name rg \<longleftrightarrow> \<not> pr_fallback rg \<and>
     (case pr_agg_state rg of
        None \<Rightarrow> False
      | Some st \<Rightarrow> \<not> (pr_deleted_count rg = 0 \<and> fa_content_hash st \<noteq> rm_checksum (pr_meta rg))
          \<and> map_of (fa_cols st) name \<noteq> None)"

definition partial_col :: "string \<Rightarrow> planned \<Rightarrow> col_agg" where
  "partial_col name rg = the (map_of (fa_cols (the (pr_agg_state rg))) name)"

fun sum_int_partials :: "col_agg list \<Rightarrow> u64 \<times> int \<times> int \<Rightarrow> (u64 \<times> int \<times> int) option" where
  "sum_int_partials [] acc = Some acc"
| "sum_int_partials (a # as) (n, s, q) =
     (case (ca_sum a, ca_sumsq a) of
        (AInt s', AInt q') \<Rightarrow>
          Option.bind (checked_add_i128 s s') (\<lambda>s2. Option.bind (checked_add_i128 q q') (\<lambda>q2.
            sum_int_partials as (n + ca_count_non_null a, s2, q2)))
      | (ANull, ANull) \<Rightarrow> sum_int_partials as (n + ca_count_non_null a, s, q)
      | _ \<Rightarrow> None)"

fun sum_float_partials :: "col_agg list \<Rightarrow> u64 \<times> u64 \<times> u64 \<Rightarrow> (u64 \<times> u64 \<times> u64) option" where
  "sum_float_partials [] acc = Some acc"
| "sum_float_partials (a # as) (n, s, q) =
     (case (ca_sum a, ca_sumsq a) of
        (AFloat s', AFloat q') \<Rightarrow> sum_float_partials as (n + ca_count_non_null a, f64_add s s', f64_add q q')
      | (ANull, ANull) \<Rightarrow> sum_float_partials as (n + ca_count_non_null a, s, q)
      | _ \<Rightarrow> None)"

definition collect_col_partials :: "string \<Rightarrow> planned list \<Rightarrow> (u64 \<times> agg_scalar \<times> agg_scalar) option" where
  "collect_col_partials name rgs =
     (if \<not> (\<forall>rg \<in> set rgs. usable_partial name rg) then None
      else case map (partial_col name) rgs of
             [] \<Rightarrow> Some (0, ANull, ANull)
           | first # rest \<Rightarrow>
               (case ca_sum first of
                  AInt _ \<Rightarrow> map_option (\<lambda>(n, s, q). (n, AInt s, AInt q)) (sum_int_partials (first # rest) (0, 0, 0))
                | _ \<Rightarrow> map_option (\<lambda>(n, s, q). (n, AFloat s, AFloat q)) (sum_float_partials (first # rest) (0, 0, 0))))"

fun sum_value :: "agg_scalar \<Rightarrow> data_type \<Rightarrow> agg_value option" where
  "sum_value (AInt s) t = (if t \<in> {DInt64, DInt32} \<and> in_type t s then Some (VInt t s) else None)"
| "sum_value (AFloat s) t =
     (if t = DFloat64 then Some (VFloat t s) else if t = DFloat32 then Some (VFloat t (f64_as_f32 s)) else None)"
| "sum_value ANull t = Some (VNull t)"

fun compose_sum :: "phys_expr \<Rightarrow> planned list \<Rightarrow> data_type \<Rightarrow> agg_value option" where
  "compose_sum (XColumn name) rgs t = Option.bind (collect_col_partials name rgs) (\<lambda>(_, s, _). sum_value s t)"
| "compose_sum _ rgs t = None"

text \<open>COUNT of a column: null counts of the statistics, or the live count where rows are deleted.\<close>

definition count_usable :: "string \<Rightarrow> planned \<Rightarrow> bool" where
  "count_usable name rg \<longleftrightarrow> \<not> pr_fallback rg \<and>
     (pr_deleted_count rg \<noteq> 0 \<longrightarrow> (\<exists>st \<in> set_option (pr_agg_state rg). map_of (fa_cols st) name \<noteq> None))"

fun count_rows :: "string \<Rightarrow> planned list \<Rightarrow> u64 \<Rightarrow> u64 option" where
  "count_rows name [] n = Some n"
| "count_rows name (rg # rgs) n =
     (if pr_deleted_count rg \<noteq> 0 then count_rows name rgs (n + ca_count_non_null (partial_col name rg))
      else case map_of (rm_columns (pr_meta rg)) name of
             None \<Rightarrow> None
           | Some st \<Rightarrow> count_rows name rgs (n + saturating_sub_u64 (rm_rows (pr_meta rg)) (cs_nulls st)))"

fun compute_count :: "phys_expr \<Rightarrow> planned list \<Rightarrow> agg_value option" where
  "compute_count (XColumn name) rgs =
     (if \<forall>rg \<in> set rgs. count_usable name rg then map_option (\<lambda>n. VInt DInt64 (sint n)) (count_rows name rgs 0) else None)"
| "compute_count (XLiteral _) rgs =
     Some (VInt DInt64 (sint (sum_list (map (\<lambda>rg. saturating_sub_u64 (rm_rows (pr_meta rg)) (pr_deleted_count rg)) rgs))))"
| "compute_count _ rgs = None"

section \<open>Filtered scans\<close>

record decoded_filter =
  df_column :: string
  df_predicates :: "predicate list"

definition comparison_predicate :: "operator \<Rightarrow> bool \<Rightarrow> string \<Rightarrow> literal \<Rightarrow> predicate option" where
  "comparison_predicate op swapped c v =
     (case op of
        OEq \<Rightarrow> Some (PEq c v)
      | OLt \<Rightarrow> Some (if swapped then PGt c v else PLt c v)
      | OLtEq \<Rightarrow> Some (if swapped then PGte c v else PLte c v)
      | OGt \<Rightarrow> Some (if swapped then PLt c v else PGt c v)
      | OGtEq \<Rightarrow> Some (if swapped then PLte c v else PGte c v)
      | _ \<Rightarrow> None)"

fun phys_comparison_to_predicate :: "phys_expr \<Rightarrow> (string \<times> predicate) option" where
  "phys_comparison_to_predicate (XBinary op (XColumn c) (XLiteral l)) =
     Option.bind (scalar_to_literal l) (\<lambda>v. map_option (Pair c) (comparison_predicate op False c v))"
| "phys_comparison_to_predicate (XBinary op (XLiteral l) (XColumn c)) =
     Option.bind (scalar_to_literal l) (\<lambda>v. map_option (Pair c) (comparison_predicate op True c v))"
| "phys_comparison_to_predicate _ = None"

fun collect_conjuncts :: "phys_expr \<Rightarrow> phys_expr list" where
  "collect_conjuncts (XBinary op l r) =
     (if op = OAnd then collect_conjuncts l @ collect_conjuncts r else [XBinary op l r])"
| "collect_conjuncts e = [e]"

fun decode_conjuncts :: "phys_expr list \<Rightarrow> string option \<Rightarrow> predicate list \<Rightarrow> decoded_filter option" where
  "decode_conjuncts [] col ps = map_option (\<lambda>c. \<lparr>df_column = c, df_predicates = ps\<rparr>) col"
| "decode_conjuncts (e # es) col ps =
     Option.bind (phys_comparison_to_predicate e) (\<lambda>(c, p).
       if col \<notin> {None, Some c} then None else decode_conjuncts es (Some c) (ps @ [p]))"

definition decode_scan_filter :: "phys_expr list \<Rightarrow> decoded_filter option" where
  "decode_scan_filter filters = decode_conjuncts (concat (map collect_conjuncts filters)) None []"

datatype coverage = Covered | Boundary | Disjoint

definition classify_fragment :: "planned \<Rightarrow> decoded_filter \<Rightarrow> coverage" where
  "classify_fragment rg f =
     (case map_of (rm_columns (pr_meta rg)) (df_column f) of
        None \<Rightarrow> Boundary
      | Some stats \<Rightarrow>
          if fragment_disjoint (df_predicates f) stats then Disjoint
          else if \<not> 0 < cs_nulls stats \<and> fragment_fully_covered (df_predicates f) stats then Covered
          else Boundary)"

definition clean_partial :: "planned \<Rightarrow> bool" where
  "clean_partial rg \<longleftrightarrow> \<not> 0 < pr_deleted_count rg
     \<and> (\<exists>st \<in> set_option (pr_agg_state rg). fa_content_hash st = rm_checksum (pr_meta rg))"

definition state_col :: "string \<Rightarrow> planned \<Rightarrow> col_agg option" where
  "state_col name rg = Option.bind (pr_agg_state rg) (\<lambda>st. map_of (fa_cols st) name)"

fun covered_ints :: "string \<Rightarrow> planned list \<Rightarrow> int \<Rightarrow> bool \<Rightarrow> (int \<times> bool) option" where
  "covered_ints name [] acc any = Some (acc, any)"
| "covered_ints name (rg # rgs) acc any =
     Option.bind (state_col name rg) (\<lambda>a.
       case ca_sum a of
         AInt s \<Rightarrow> Option.bind (checked_add_i128 acc s) (\<lambda>acc'. covered_ints name rgs acc' True)
       | ANull \<Rightarrow> covered_ints name rgs acc any
       | AFloat _ \<Rightarrow> None)"

fun covered_floats :: "string \<Rightarrow> planned list \<Rightarrow> u64 \<Rightarrow> u64 option" where
  "covered_floats name [] acc = Some acc"
| "covered_floats name (rg # rgs) acc =
     Option.bind (state_col name rg) (\<lambda>a.
       covered_floats name rgs (case ca_sum a of AFloat s \<Rightarrow> f64_add acc s | AInt s \<Rightarrow> f64_add acc (int_as_f64 s) | ANull \<Rightarrow> acc))"

fun covered_sum_const :: "phys_expr \<Rightarrow> planned list \<Rightarrow> data_type \<Rightarrow> agg_value option" where
  "covered_sum_const (XColumn name) covered t =
     Option.bind (state_col name (hd covered)) (\<lambda>first.
       if (case ca_sum first of AFloat _ \<Rightarrow> False | _ \<Rightarrow> True) \<and> t \<in> {DInt64, DInt32}
       then Option.bind (covered_ints name covered 0 False) (\<lambda>(acc, any).
              if \<not> any then Some (VNull t) else if in_type t acc then Some (VInt t acc) else None)
       else if t \<in> {DFloat64, DFloat32}
       then map_option (\<lambda>acc. VFloat t (if t = DFloat32 then f64_as_f32 acc else acc)) (covered_floats name covered 0)
       else None)"
| "covered_sum_const _ covered t = None"

fun covered_counts :: "string \<Rightarrow> planned list \<Rightarrow> int \<Rightarrow> int option" where
  "covered_counts name [] acc = Some acc"
| "covered_counts name (rg # rgs) acc =
     Option.bind (state_col name rg) (\<lambda>a.
       Option.bind (checked_add_i128 acc (uint (ca_count_non_null a))) (covered_counts name rgs))"

fun covered_count_const :: "phys_expr \<Rightarrow> planned list \<Rightarrow> data_type \<Rightarrow> agg_value option" where
  "covered_count_const (XLiteral _) covered t =
     (let n = sum_list (map (\<lambda>rg. uint (rm_rows (pr_meta rg))) covered)
      in if t = DInt64 \<and> in_type DInt64 n then Some (VInt DInt64 n) else None)"
| "covered_count_const (XColumn name) covered t =
     (if t \<noteq> DInt64 then None
      else Option.bind (covered_counts name covered 0) (\<lambda>n. if in_type DInt64 n then Some (VInt DInt64 n) else None))"
| "covered_count_const _ covered t = None"

text \<open>
  What the rewritten plan is built from: the constant of the covered row groups, and the row groups left to scan.
\<close>

definition compose_filtered_from_scan ::
  "string \<Rightarrow> phys_expr \<Rightarrow> phys_expr list \<Rightarrow> planned list \<Rightarrow> data_type \<Rightarrow> (agg_value \<times> planned list) option" where
  "compose_filtered_from_scan name arg filters rgs t =
     (if name \<notin> {''sum'', ''count''} then None
      else Option.bind (decode_scan_filter filters) (\<lambda>f.
        if \<exists>rg \<in> set rgs. pr_fallback rg then None
        else
          let covered = filter (\<lambda>rg. classify_fragment rg f = Covered) rgs;
              boundary = filter (\<lambda>rg. classify_fragment rg f = Boundary) rgs
          in if covered = [] \<or> \<not> (\<forall>rg \<in> set covered. clean_partial rg) then None
             else map_option (\<lambda>c. (c, boundary))
                    (if name = ''sum'' then covered_sum_const arg covered t else covered_count_const arg covered t)))"

section \<open>Groups\<close>

text \<open>The branches of \<^verbatim>\<open>compose_aggregate_for_group\<close> for COUNT and SUM of a column.\<close>

definition group_count :: "string \<Rightarrow> col_aggs \<Rightarrow> (agg_value \<times> u64) option" where
  "group_count name cols =
     map_option (\<lambda>a. (VInt DInt64 (sint (ca_count_non_null a)), ca_count_non_null a)) (map_of cols name)"

definition group_sum :: "string \<Rightarrow> col_aggs \<Rightarrow> data_type \<Rightarrow> (agg_value \<times> u64) option" where
  "group_sum name cols t =
     Option.bind (map_of cols name) (\<lambda>a. map_option (\<lambda>v. (v, ca_count_non_null a)) (sum_value (ca_sum a) t))"

definition collect_grouped :: "string \<Rightarrow> planned list \<Rightarrow> grouped_partials list option" where
  "collect_grouped key_name rgs =
     (if \<exists>rg \<in> set rgs. pr_fallback rg then None
      else option_all (map (\<lambda>rg.
        Option.bind (pr_agg_state rg) (\<lambda>st.
          if pr_deleted_count rg = 0 \<and> fa_content_hash st \<noteq> rm_checksum (pr_meta rg) then None
          else Option.bind (fa_grouped st) (\<lambda>gp. if gp_key_col gp \<noteq> key_name then None else Some gp))) rgs))"

end
