(* ===== verification/Agg_Properties.thy ===== *)
theory Agg_Properties
  imports Agg_Query Scan_Properties Samples
begin

text \<open>
  The properties of the aggregate partials, with sample files: partials of row groups with deleted rows are
  exact, SUM and filtered COUNT composed from them are those of the live rows, and three ways in which a composed answer
  differs from that of a scan.
\<close>

section \<open>Sums of partials\<close>

lemma sum_int_partials_eq:
  assumes "list_all2 partial_of as xss" "squares ys < 2 ^ 127"
  shows "sum_int_partials as (of_nat (length ys), sum_list ys, squares ys) =
    (if squares (ys @ concat xss) < 2 ^ 127
     then Some (of_nat (length (ys @ concat xss)), sum_list (ys @ concat xss), squares (ys @ concat xss)) else None)"
  using assms
proof (induction as xss arbitrary: ys rule: list_all2_induct)
  case (Cons a as xs xss)
  have le: "squares (ys @ xs) \<le> squares (ys @ concat (xs # xss))" by simp
  consider (null) "xs = []" "ca_count_non_null a = 0" "ca_sum a = ANull" "ca_sumsq a = ANull"
    | (int) "ca_count_non_null a = of_nat (length xs)" "ca_sum a = AInt (sum_list xs)" "ca_sumsq a = AInt (squares xs)"
    using Cons.hyps(1) by (auto simp: partial_of_def)
  then show ?case
  proof cases
    case null
    then show ?thesis using Cons.IH [OF Cons.prems] by simp
  next
    case int
    show ?thesis
    proof (cases "squares (ys @ xs) < 2 ^ 127")
      case True
      then have "in_i128 (sum_list ys + sum_list xs)" "in_i128 (squares ys + squares xs)"
        using in_i128_of_squares [OF True] by simp_all
      then show ?thesis using int Cons.IH [OF True] by (simp add: checked_add_i128_def)
    next
      case False
      then have "\<not> in_i128 (squares ys + squares xs)" by (simp add: in_i128_def)
      moreover have "\<not> squares (ys @ concat (xs # xss)) < 2 ^ 127" using False le by linarith
      ultimately show ?thesis using int by (simp add: checked_add_i128_def)
    qed
  qed
qed simp

text \<open>
  A planned row group, the deletion vector and the batch behind it: the state it carries is
  exact for the live rows and trusted by the rule.
\<close>

definition trusted_live :: "'bm roaring \<Rightarrow> string \<Rightarrow> planned \<Rightarrow> 'bm \<Rightarrow> batch \<Rightarrow> int list \<Rightarrow> bool" where
  "trusted_live R name rg dv b xs \<longleftrightarrow> \<not> pr_fallback rg \<and>
     (\<exists>st t vs a. pr_agg_state rg = Some st \<and> live_exact R dv b st
        \<and> (pr_deleted_count rg = 0 \<longrightarrow> fa_content_hash st = rm_checksum (pr_meta rg))
        \<and> column_by_name b name = Some (IntColumn t vs) \<and> column_agg (IntColumn t vs) = Some a
        \<and> xs = live_values R dv vs)"

lemma live_exactD:
  assumes "live_exact R dv b st" "column_by_name b n = Some (IntColumn t vs)" "column_agg (IntColumn t vs) = Some a"
  obtains a' where "map_of (fa_cols st) n = Some a'" "partial_of a' (live_values R dv vs)" "non_null vs \<noteq> [] \<longrightarrow> ca_sum a' \<noteq> ANull"
  using assms unfolding live_exact_def by blast

lemma trusted_live_partial:
  assumes "trusted_live R name rg dv b xs"
  shows "usable_partial name rg" "partial_of (partial_col name rg) xs"
proof -
  obtain st t vs a where st: "\<not> pr_fallback rg" "pr_agg_state rg = Some st" "live_exact R dv b st"
    "pr_deleted_count rg = 0 \<longrightarrow> fa_content_hash st = rm_checksum (pr_meta rg)" "column_by_name b name = Some (IntColumn t vs)"
    "column_agg (IntColumn t vs) = Some a" "xs = live_values R dv vs" using assms unfolding trusted_live_def by blast
  obtain a' where "map_of (fa_cols st) name = Some a'" "partial_of a' xs" using live_exactD [OF st(3,5,6)] st(7) by metis
  then show "usable_partial name rg" "partial_of (partial_col name rg) xs"
    using st(1,2,4) by (auto simp: usable_partial_def partial_col_def)
qed

lemma compose_live:
  assumes "list_all2 (\<lambda>(rg, dv, b) xs. trusted_live R name rg dv b xs) frs xss" "frs \<noteq> []" "t \<in> {DInt64, DInt32}"
  shows "compose_sum (XColumn name) (map fst frs) t =
    (if ca_sum (partial_col name (fst (hd frs))) \<noteq> ANull \<and> squares (concat xss) < 2 ^ 127 \<and> in_type t (sum_list (concat xss))
     then Some (VInt t (sum_list (concat xss))) else None)"
proof -
  have u: "\<forall>rg \<in> set (map fst frs). usable_partial name rg"
    using assms(1) trusted_live_partial(1) by (fastforce simp: list_all2_conv_all_nth in_set_conv_nth split: prod.splits)
  have p: "list_all2 partial_of (map (partial_col name) (map fst frs)) xss"
  proof -
    have "list_all2 (\<lambda>fr xs. partial_of (partial_col name (fst fr)) xs) frs xss"
      by (rule list_all2_mono [OF assms(1)]) (auto dest: trusted_live_partial(2) split: prod.splits)
    then show ?thesis by (simp add: list_all2_map1)
  qed
  obtain f fs where f: "frs = f # fs" using assms(2) by (cases frs) auto
  have "ca_sum (partial_col name (fst f)) = ANull \<or> (\<exists>x. ca_sum (partial_col name (fst f)) = AInt x)"
    using p f by (cases xss) (auto simp: partial_of_def)
  then show ?thesis
    using u f assms(3) sum_int_partials_eq [OF p, of "[]"]
    by (auto simp: collect_col_partials_def simp del: sum_float_partials.simps split: bind_splits if_splits)
qed

section \<open>Filters\<close>

lemma comparison_predicate_column: "comparison_predicate op sw c v = Some p \<Longrightarrow> pred_column p = c"
  by (cases op) (auto simp: comparison_predicate_def split: if_splits)

lemma comparison_column: "phys_comparison_to_predicate e = Some (c, p) \<Longrightarrow> pred_column p = c"
  by (cases e rule: phys_comparison_to_predicate.cases) (auto split: bind_splits dest: comparison_predicate_column)

lemma decode_conjuncts_columns:
  assumes "decode_conjuncts es col ps = Some f" "\<forall>p \<in> set ps. col = Some (pred_column p)"
  shows "(\<forall>p \<in> set (df_predicates f). pred_column p = df_column f) \<and> (\<forall>c. col = Some c \<longrightarrow> df_column f = c)"
  using assms
proof (induction es arbitrary: col ps)
  case Nil
  then show ?case by (cases col) auto
next
  case (Cons e es)
  obtain c p where e: "phys_comparison_to_predicate e = Some (c, p)"
    using Cons.prems(1) by (cases "phys_comparison_to_predicate e") auto
  have d: "col \<in> {None, Some c}" "decode_conjuncts es (Some c) (ps @ [p]) = Some f"
    using Cons.prems(1) e by (simp_all split: if_splits)
  have "\<forall>q \<in> set (ps @ [p]). Some c = Some (pred_column q)" using Cons.prems(2) d(1) comparison_column [OF e] by auto
  from Cons.IH [OF d(2) this] show ?case using d(1) by auto
qed

lemma decode_scan_filter_columns: "decode_scan_filter fs = Some f \<Longrightarrow> p \<in> set (df_predicates f) \<Longrightarrow> pred_column p = df_column f"
  using decode_conjuncts_columns [of "concat (map collect_conjuncts fs)" None "[]" f] by (simp add: decode_scan_filter_def)

definition live_matches :: "'bm roaring \<Rightarrow> predicate list \<Rightarrow> planned \<times> 'bm \<times> batch \<Rightarrow> nat" where
  "live_matches R ps fr = (case fr of (rg, dv, b) \<Rightarrow>
     length (filter (\<lambda>i. \<forall>p \<in> set ps. row_matches b i p) (live_rows_of R dv (b_rows b))))"

text \<open>
  What the filter itself means, apart from its decoding: a comparison holds when both operands have a value of the same kind and the
  values compare as the operator says, a conjunction when both sides hold.
\<close>

fun scalar_cell :: "query_scalar \<Rightarrow> cell option" where
  "scalar_cell (QInt t v) = Some (CInt v)"
| "scalar_cell (QFloat t v) = Some (CFloat v)"
| "scalar_cell (QText t v) = Some (CText v)"
| "scalar_cell (QBool v) = Some (CBool v)"
| "scalar_cell QOther = None"

fun operand :: "batch \<Rightarrow> nat \<Rightarrow> phys_expr \<Rightarrow> cell option" where
  "operand b i (XColumn c) = Option.bind (column_by_name b c) (\<lambda>arr. cell_at arr i)"
| "operand b i (XLiteral l) = scalar_cell l"
| "operand b i _ = None"

fun compare_cells :: "cell \<Rightarrow> cell \<Rightarrow> ordering option" where
  "compare_cells (CInt a) (CInt b) = Some (cmp_of a b)"
| "compare_cells (CFloat a) (CFloat b) = f64_partial_cmp a b"
| "compare_cells (CText a) (CText b) = Some (cmp_of a b)"
| "compare_cells (CBool a) (CBool b) = Some (cmp_of a b)"
| "compare_cells _ _ = None"

fun op_holds :: "operator \<Rightarrow> ordering \<Rightarrow> bool" where
  "op_holds OEq r \<longleftrightarrow> r = Equal"
| "op_holds OLt r \<longleftrightarrow> r = Less"
| "op_holds OLtEq r \<longleftrightarrow> r \<noteq> Greater"
| "op_holds OGt r \<longleftrightarrow> r = Greater"
| "op_holds OGtEq r \<longleftrightarrow> r \<noteq> Less"
| "op_holds _ r \<longleftrightarrow> False"

fun passes :: "batch \<Rightarrow> nat \<Rightarrow> phys_expr \<Rightarrow> bool" where
  "passes b i (XBinary op l r) =
     (if op = OAnd then passes b i l \<and> passes b i r
      else case (operand b i l, operand b i r) of
             (Some x, Some y) \<Rightarrow> (case compare_cells x y of Some o' \<Rightarrow> op_holds op o' | None \<Rightarrow> False)
           | _ \<Rightarrow> False)"
| "passes b i _ = False"

text \<open>The live rows of a row group that pass all filters of the scan.\<close>

definition scan_matches :: "'bm roaring \<Rightarrow> phys_expr list \<Rightarrow> planned \<times> 'bm \<times> batch \<Rightarrow> nat" where
  "scan_matches R filters fr = (case fr of (rg, dv, b) \<Rightarrow>
     length (filter (\<lambda>i. \<forall>e \<in> set filters. passes b i e) (live_rows_of R dv (b_rows b))))"

text \<open>Integer literals of the filter are within 64 signed bits, so that decoding keeps their value.\<close>

fun literals_fit :: "phys_expr \<Rightarrow> bool" where
  "literals_fit (XLiteral (QInt t v)) = fits_i64 v"
| "literals_fit (XBinary op l r) \<longleftrightarrow> literals_fit l \<and> literals_fit r"
| "literals_fit _ = True"

lemma as_signed64_fits: "fits_i64 v \<Longrightarrow> as_signed64 v = v"
proof -
  assume "fits_i64 v"
  then have "signed_take_bit 63 v = v" by (intro signed_take_bit_int_eq_self) (simp_all add: fits_i64_def)
  then show ?thesis by (simp add: as_signed64_def signed_of_int)
qed

fun mirrored :: "ordering \<Rightarrow> ordering" where
  "mirrored Less = Greater" | "mirrored Equal = Equal" | "mirrored Greater = Less"

lemma mirrored_iff [simp]: "mirrored r = Less \<longleftrightarrow> r = Greater" "mirrored r = Equal \<longleftrightarrow> r = Equal" "mirrored r = Greater \<longleftrightarrow> r = Less"
  by (cases r; simp)+

lemma literal_compare:
  assumes "scalar_to_literal l = Some v" "literals_fit (XLiteral l)"
  shows "\<exists>y. scalar_cell l = Some y \<and> (\<forall>x. compare_cells x y = cell_cmp x v)
    \<and> (\<forall>x. compare_cells y x = map_option mirrored (cell_cmp x v))"
proof -
  have int: "cmp_of a c = mirrored (cmp_of c a)" for a c :: int by (simp add: cmp_of_def)
  have str: "cmp_of a c = mirrored (cmp_of c a)" for a c :: string by (auto simp: cmp_of_def)
  have bool: "cmp_of a c = mirrored (cmp_of c a)" for a c :: bool by (auto simp: cmp_of_def)
  show ?thesis
  proof (cases l)
    case (QInt t i)
    then have v: "v = LInt64 i" using assms as_signed64_fits by simp
    have "compare_cells x (CInt i) = cell_cmp x v" for x by (cases x) (simp_all add: v)
    moreover have "compare_cells (CInt i) x = map_option mirrored (cell_cmp x v)" for x
      using int [of i] by (cases x) (simp_all add: v)
    ultimately show ?thesis using QInt by simp
  next
    case (QFloat t f)
    then have v: "v = LFloat64 f" using assms by simp
    have "compare_cells x (CFloat f) = cell_cmp x v" for x by (cases x) (simp_all add: v)
    moreover have "compare_cells (CFloat f) x = map_option mirrored (cell_cmp x v)" for x
      using int [of "f64_key f"] by (cases x) (auto simp: v f64_partial_cmp_def)
    ultimately show ?thesis using QFloat by simp
  next
    case (QText t a)
    then have v: "v = LString a" using assms by simp
    have "compare_cells x (CText a) = cell_cmp x v" for x by (cases x) (simp_all add: v)
    moreover have "compare_cells (CText a) x = map_option mirrored (cell_cmp x v)" for x
      using str [of a] by (cases x) (simp_all add: v)
    ultimately show ?thesis using QText by simp
  next
    case (QBool a)
    then have v: "v = LBool a" using assms by simp
    have "compare_cells x (CBool a) = cell_cmp x v" for x by (cases x) (simp_all add: v)
    moreover have "compare_cells (CBool a) x = map_option mirrored (cell_cmp x v)" for x
      using bool [of a] by (cases x) (simp_all add: v)
    ultimately show ?thesis using QBool by simp
  qed (use assms in simp)
qed

text \<open>A decoded comparison, mirrored or not, means what the expression means.\<close>

lemma comparison_passes:
  assumes "phys_comparison_to_predicate e = Some (c, p)" "literals_fit e"
  shows "passes b i e \<longleftrightarrow> row_matches b i p"
  using assms(1)
proof (cases e rule: phys_comparison_to_predicate.cases)
  case (1 op c' l)
  then obtain v where v: "scalar_to_literal l = Some v" "comparison_predicate op False c v = Some p" "c' = c"
    using assms(1) by (auto split: bind_splits)
  obtain y where y: "scalar_cell l = Some y" "\<And>x. compare_cells x y = cell_cmp x v"
    using literal_compare [OF v(1)] assms(2) 1 by auto
  show ?thesis
    using v(2) y by (cases op) (auto simp: 1 v(3) comparison_predicate_def cell_test_def split: option.splits bind_splits)
next
  case (2 op l c')
  then obtain v where v: "scalar_to_literal l = Some v" "comparison_predicate op True c v = Some p" "c' = c"
    using assms(1) by (auto split: bind_splits)
  obtain y where y: "scalar_cell l = Some y"
    "\<And>x. compare_cells y x = map_option mirrored (cell_cmp x v)"
    using literal_compare [OF v(1)] assms(2) 2 by auto
  have "passes b i e \<longleftrightarrow> (\<exists>arr x o'. column_by_name b c = Some arr \<and> cell_at arr i = Some x \<and> cell_cmp x v = Some o' \<and> op_holds op (mirrored o'))"
    if "op \<noteq> OAnd" using that y by (auto simp: 2 v(3) split: option.splits bind_splits)
  then show ?thesis
    using v(2) by (cases op) (auto simp: comparison_predicate_def cell_test_def simp del: passes.simps)
qed simp_all

lemma conjuncts_pass:
  "(\<forall>e' \<in> set (collect_conjuncts e). passes b i e') \<longleftrightarrow> passes b i e" "literals_fit e \<Longrightarrow> e' \<in> set (collect_conjuncts e) \<Longrightarrow> literals_fit e'"
  by (induction e rule: collect_conjuncts.induct) (auto split: if_splits)

lemma decode_conjuncts_pass:
  assumes "decode_conjuncts es col ps = Some f" "\<forall>e \<in> set es. literals_fit e"
  shows "(\<forall>p \<in> set (df_predicates f). row_matches b i p) \<longleftrightarrow> (\<forall>p \<in> set ps. row_matches b i p) \<and> (\<forall>e \<in> set es. passes b i e)"
  using assms
proof (induction es arbitrary: col ps)
  case Nil
  then show ?case by (cases col) auto
next
  case (Cons e es)
  obtain c p where e: "phys_comparison_to_predicate e = Some (c, p)"
    using Cons.prems(1) by (cases "phys_comparison_to_predicate e") auto
  then have "decode_conjuncts es (Some c) (ps @ [p]) = Some f" using Cons.prems(1) by (simp split: if_splits)
  from Cons.IH [OF this] show ?case using Cons.prems(2) comparison_passes [OF e] by auto
qed

lemma scan_matches_decoded:
  assumes "decode_scan_filter filters = Some f" "\<forall>e \<in> set filters. literals_fit e"
  shows "scan_matches R filters = live_matches R (df_predicates f)"
proof -
  have "\<forall>e \<in> set (concat (map collect_conjuncts filters)). literals_fit e" using assms(2) conjuncts_pass(2) by auto
  from decode_conjuncts_pass [OF assms(1) [unfolded decode_scan_filter_def] this]
  have "(\<forall>p \<in> set (df_predicates f). row_matches b i p) \<longleftrightarrow> (\<forall>e \<in> set filters. passes b i e)" for b i
    using conjuncts_pass(1) [of _ b i] by auto
  then show ?thesis by (simp add: scan_matches_def live_matches_def fun_eq_iff)
qed

text \<open>
  The metadata is that of the batch, the count of deleted rows is zero only when none is deleted, and the
  filter compares the column with literals of its type.
\<close>

definition filtered_fragment :: "'bm roaring \<Rightarrow> decoded_filter \<Rightarrow> planned \<times> 'bm \<times> batch \<Rightarrow> bool" where
  "filtered_fragment R f fr \<longleftrightarrow> (case fr of (rg, dv, b) \<Rightarrow>
     batch_wf b \<and> b_rows b < 2 ^ 64 \<and> rm_rows (pr_meta rg) = of_nat (b_rows b)
     \<and> (\<exists>X K. kernels_law K \<and> (\<forall>n st. map_of (rm_columns (pr_meta rg)) n = Some st \<longrightarrow> stats_of X K b n st))
     \<and> (pr_deleted_count rg = 0 \<longrightarrow> dv_set R dv = {})
     \<and> (\<forall>p \<in> set (df_predicates f). exact_pred b p
          \<and> (\<forall>arr i x. column_by_name b (df_column f) = Some arr \<longrightarrow> i < b_rows b \<longrightarrow> cell_at arr i = Some x
               \<longrightarrow> (\<forall>l \<in> set (pred_literals p). cell_cmp x l \<noteq> None))))"

lemma no_nulls_cell: "ac_null_count arr = 0 \<Longrightarrow> i < ac_len arr \<Longrightarrow> cell_at arr i \<noteq> None"
  by (cases arr) (auto simp: ac_null_count_def ac_len_def filter_empty_conv dest: nth_mem)

lemma disjoint_null: "predicate_disjoint p st \<Longrightarrow> column_by_name b (pred_column p) = Some arr \<Longrightarrow> cell_at arr i = None \<Longrightarrow> \<not> row_matches b i p"
  by (cases p) (auto simp: cell_test_def)

lemma classify_matches:
  assumes fr: "filtered_fragment R f (rg, dv, b)" and cols: "\<And>p. p \<in> set (df_predicates f) \<Longrightarrow> pred_column p = df_column f"
  shows "classify_fragment rg f = Covered \<Longrightarrow> clean_partial rg \<Longrightarrow> live_matches R (df_predicates f) (rg, dv, b) = b_rows b"
    "classify_fragment rg f = Disjoint \<Longrightarrow> live_matches R (df_predicates f) (rg, dv, b) = 0"
proof -
  obtain X K where K: "kernels_law K" "\<And>n st. map_of (rm_columns (pr_meta rg)) n = Some st \<Longrightarrow> stats_of X K b n st"
    and wf: "batch_wf b" "b_rows b < 2 ^ 64" "pr_deleted_count rg = 0 \<longrightarrow> dv_set R dv = {}"
    using fr unfolding filtered_fragment_def by auto
  have cmp: "exact_pred b p" "\<And>arr i x. column_by_name b (df_column f) = Some arr \<Longrightarrow> i < b_rows b \<Longrightarrow> cell_at arr i = Some x
      \<Longrightarrow> \<forall>l \<in> set (pred_literals p). cell_cmp x l \<noteq> None" if "p \<in> set (df_predicates f)" for p
    using fr that unfolding filtered_fragment_def by auto
  show "live_matches R (df_predicates f) (rg, dv, b) = b_rows b" if c: "classify_fragment rg f = Covered" "clean_partial rg"
  proof -
    obtain st where st: "map_of (rm_columns (pr_meta rg)) (df_column f) = Some st" "cs_nulls st = 0"
      "fragment_fully_covered (df_predicates f) st"
      using c(1) by (auto simp: classify_fragment_def word_gt_0 split: option.splits if_splits)
    obtain arr where arr: "column_by_name b (df_column f) = Some arr" "cs_nulls st = of_nat (ac_null_count arr)"
      using K(2) [OF st(1)] by (auto simp: stats_of_def)
    have len: "ac_len arr = b_rows b" by (rule column_len [OF wf(1) arr(1)])
    have "ac_null_count arr \<le> ac_len arr" by (simp add: ac_null_count_def ac_len_def)
    then have "ac_null_count arr < 2 ^ 64" using len wf(2) by simp
    then have "ac_null_count arr = 0"
      using st(2) arr(2) nat_dvd_not_less [of "ac_null_count arr" "2 ^ 64"] by (auto simp: word_of_nat_eq_0_iff)
    then have "row_matches b i p" if i: "i < b_rows b" and p: "p \<in> set (df_predicates f)" for i p
    proof -
      obtain x where x: "cell_at arr i = Some x" using no_nulls_cell [of arr i] \<open>ac_null_count arr = 0\<close> i len by auto
      show ?thesis
        using coverage_sound(1) [OF K(1) wf(1) _ _ cmp(1) [OF p] i x cmp(2) [OF p arr(1) i x]] arr(1) K(2) [OF st(1)] cols [OF p] st(3) p
        by (simp add: fragment_fully_covered_def)
    qed
    moreover have "live_rows_of R dv (b_rows b) = [0..<b_rows b]"
      using wf(3) c(2) by (simp add: clean_partial_def live_rows_of_def word_gt_0)
    ultimately show ?thesis by (simp add: live_matches_def)
  qed
  show "live_matches R (df_predicates f) (rg, dv, b) = 0" if c: "classify_fragment rg f = Disjoint"
  proof -
    obtain st p where st: "map_of (rm_columns (pr_meta rg)) (df_column f) = Some st" "p \<in> set (df_predicates f)" "predicate_disjoint p st"
      using c by (auto simp: classify_fragment_def fragment_disjoint_def split: option.splits if_splits)
    obtain arr where arr: "column_by_name b (df_column f) = Some arr" using K(2) [OF st(1)] by (auto simp: stats_of_def)
    have "\<not> row_matches b i p" if i: "i < b_rows b" for i
    proof (cases "cell_at arr i")
      case None
      then show ?thesis using disjoint_null [OF st(3)] arr cols [OF st(2)] by simp
    next
      case (Some x)
      then show ?thesis
        using coverage_sound(2) [OF K(1) wf(1) _ _ cmp(1) [OF st(2)] i Some cmp(2) [OF st(2) arr i Some]] arr K(2) [OF st(1)] cols [OF st(2)] st(3)
        by simp
    qed
    then have "filter (\<lambda>i. \<forall>p \<in> set (df_predicates f). row_matches b i p) (live_rows_of R dv (b_rows b)) = []"
      using st(2) by (fastforce simp: live_rows_of_def filter_empty_conv)
    then show ?thesis by (simp add: live_matches_def)
  qed
qed

lemma sum_by_class:
  assumes "\<And>x. x \<in> set xs \<Longrightarrow> P x = Covered \<Longrightarrow> g x = h x" "\<And>x. x \<in> set xs \<Longrightarrow> P x = Disjoint \<Longrightarrow> g x = (0 :: nat)"
  shows "sum_list (map g xs) = sum_list (map h (filter (\<lambda>x. P x = Covered) xs)) + sum_list (map g (filter (\<lambda>x. P x = Boundary) xs))"
  using assms
proof (induction xs)
  case (Cons x xs)
  then have "sum_list (map g xs) = sum_list (map h (filter (\<lambda>x. P x = Covered) xs)) + sum_list (map g (filter (\<lambda>x. P x = Boundary) xs))" by simp
  then show ?case using Cons.prems by (cases "P x") auto
qed simp

section \<open>Sample files\<close>

text \<open>A reader over known contents that returns the selected rows as one batch.\<close>

definition plain_reader :: "(bytes \<Rightarrow> batch option) \<Rightarrow> arrow_reader" where
  "plain_reader contents = \<lparr>ar_schema = (\<lambda>data. map_option (\<lambda>b. map (\<lambda>(n, c). (n, ac_type c)) (b_columns b)) (contents data)),
     ar_selection = (\<lambda>sel. sel),
     ar_read = (\<lambda>data idx sel. map_option (\<lambda>b.
        if selected_offsets 0 sel = [] then [] else [take_rows (selected_offsets 0 sel) (project idx b)]) (contents data))\<rparr>"

lemma plain_reader_law: "reader_law (plain_reader contents) contents"
  unfolding reader_law_def
proof (intro conjI allI impI)
  show "selection_law (ar_selection (plain_reader contents))" by (simp add: selection_law_def plain_reader_def)
  fix data b assume b: "contents data = Some b"
  then show "ar_schema (plain_reader contents) data = Some (map (\<lambda>(n, c). (n, ac_type c)) (b_columns b))" by (simp add: plain_reader_def)
  fix idx sel
  let ?cuts = "if selected_offsets 0 sel = [] then [] else [selected_offsets 0 sel]"
  show "\<exists>cuts. concat cuts = selected_offsets 0 sel \<and> [] \<notin> set cuts
      \<and> ar_read (plain_reader contents) data idx sel = Some (map (\<lambda>rows. take_rows rows (project idx b)) cuts)"
    using b by (intro exI [of _ ?cuts]) (simp add: plain_reader_def)
qed

definition agg_batch :: batch where
  "agg_batch = sample_column (IntColumn DInt64 [Some 5, None, Some 9]) 3"

definition agg_entry :: row_group_entry where
  "agg_entry = \<lparr>rg_data = ''rg.parquet'', rg_meta = ''rg.meta'', rg_fragment_id = 1, rg_deletes = Some ''rg.dv'', rg_deleted_count = 1,
     rg_agg = Some ''rg.agg''\<rparr>"

definition agg_store :: "u32 set \<Rightarrow> memory_storage" where
  "agg_store dv = \<lparr>ms_data = [(''t/rg.parquet'', [1]), (''t/rg.agg'', [2]), (''t/rg.dv'', dv_serialize set_bitmap dv)]\<rparr>"

definition agg_contents :: "bytes \<Rightarrow> batch option" where
  "agg_contents data = (if data = [1] then Some agg_batch else None)"

lemma agg_reads:
  "st_read mem_storage ''t/rg.parquet'' (agg_store dv) = (Inr [1], (agg_store dv))"
  "st_read mem_storage ''t/rg.agg'' (agg_store dv) = (Inr [2], (agg_store dv))"
  "st_read mem_storage ''t/rg.dv'' (agg_store dv) = (Inr (dv_serialize set_bitmap dv), (agg_store dv))"
  using validate_join_path [of "[''t'', ''rg.parquet'']"] validate_join_path [of "[''t'', ''rg.agg'']"] validate_join_path [of "[''t'', ''rg.dv'']"]
  by (simp_all add: join_path_def plain_piece_def mem_storage_def mem_read_def agg_store_def ok_or_def io_bind_def)

lemma agg_fragment:
  assumes "\<forall>x \<in> dv. unat x < 3"
  shows "fragment_file (plain_reader agg_contents) set_bitmap mem_storage ''t'' agg_entry (agg_store dv) dv agg_batch"
  unfolding fragment_file_def
proof (intro conjI exI)
  show "reader_law (plain_reader agg_contents) agg_contents" by (rule plain_reader_law)
  show "agg_contents [1] = Some agg_batch" by (simp add: agg_contents_def)
  show "st_read mem_storage (data_path ''t'' agg_entry) (agg_store dv) = (Inr [1], (agg_store dv))"
    using agg_reads(1) by (simp add: data_path_def agg_entry_def)
  show "roaring_laws set_bitmap" by (rule set_bitmap_laws)
  show "dv_fits set_bitmap dv (b_rows agg_batch)"
    using assms by (simp add: dv_fits_def dv_set_def dv_contains_def set_bitmap_def agg_batch_def sample_column_def)
  show "batch_wf agg_batch" by (auto simp: batch_wf_def agg_batch_def sample_column_def int_types_def in_type_def ac_len_def)
  show "distinct (map fst (b_columns agg_batch))" by (simp add: agg_batch_def sample_column_def)
qed

lemma agg_meta: "\<exists>m. meta_of m agg_batch"
proof -
  have "\<exists>mn mx. compute_min_max plain_ext plain_kernels (IntColumn DInt64 [Some 5, None, Some 9]) = Inr (mn, mx)"
    by (simp add: int_types_def)
  then obtain m where m: "compute_row_group_meta plain_ext plain_kernels (\<lambda>_. None) ''rg'' 1 agg_batch (sample_schema_of ''int64'') [] ''t'' [] = Inr m"
    and cols: "map fst (rm_columns m) = [''c'']"
    using sample_meta_of unfolding agg_batch_def by fastforce
  then show ?thesis
    using row_group_meta_stats [OF m] plain_kernels_law
    by (intro exI [of _ m]) (auto simp: meta_of_def agg_batch_def sample_column_def column_by_name_def map_of_eq_None_iff simp flip: set_map split: if_splits)
qed

lemma agg_live: "live_values set_bitmap {2} [Some 5, None, Some 9] = [5]"
  by (simp add: live_rows_of_def dv_set_def dv_contains_def set_bitmap_def upt_rec)

section \<open>Properties\<close>

text \<open>
  C10: loading the partials of a row group with deleted rows gives, for every integer column that has a partial (its squares fit 128
  bits), the count, the sum and the sum of squares of exactly the cells that survive, without overflow. An extremum
  it carries is that of the surviving cells, and a non-negative one is always carried (a negative one may be missing, in which case the
  query scans). The result may come from the cache or be computed, and the cache stays
  coherent. The partials on disk were computed from the batch in the data file, and the Parquet reader returns selected rows.
\<close>

theorem live_partial_exact:
  assumes "fragment_file P R S table entry s dv b" "meta_of meta b"
    "rg_agg entry = Some agg_rel" "rg_deletes entry = Some del_rel" "rg_deleted_count entry \<noteq> 0"
    "st_read S (agg_path_of table agg_rel) s = (Inr ab, s)" "D ab = Some (compute_agg_state_with_key X fid h b key)"
    "st_read S (table @ ''/'' @ del_rel) s = (Inr dvb, s)" "dv_deserialize R dvb = Inr dv"
    "coherent R dv b (compute_agg_state_with_key X fid h b key) (agg_path_of table agg_rel) (live_key_of table agg_rel del_rel) cache"
  shows "\<exists>st cache'. load_agg_state X P R D S table entry meta schema cache s = (Inr (Some st, cache'), s)
    \<and> live_exact R dv b st \<and> extrema_carried R dv b st
    \<and> coherent R dv b (compute_agg_state_with_key X fid h b key) (agg_path_of table agg_rel) (live_key_of table agg_rel del_rel) cache'"
proof -
  have "\<exists>st cache'. load_agg_state X P R D S table entry meta schema cache s = (Inr (Some st, cache'), s) \<and> live_partial R dv b st
      \<and> coherent R dv b (compute_agg_state_with_key X fid h b key) (agg_path_of table agg_rel) (live_key_of table agg_rel del_rel) cache'"
    using assms by (rule load_agg_state_exact)
  then show ?thesis unfolding live_partial_def by blast
qed

theorem live_partial_exact_witness:
  "\<exists>meta st cache'. load_agg_state plain_ext (plain_reader agg_contents) set_bitmap (\<lambda>_. Some (compute_agg_state_with_key plain_ext 1 ''h'' agg_batch None))
       mem_storage ''t'' agg_entry meta (sample_schema_of ''int64'') (gc_new 8) (agg_store {2}) = (Inr (Some st, cache'), agg_store {2})
     \<and> (\<exists>a. map_of (fa_cols st) ''c'' = Some a \<and> ca_count_non_null a = 1 \<and> ca_sum a = AInt 5 \<and> ca_live_max a = Some (jint 5))"
proof -
  let ?full = "compute_agg_state_with_key plain_ext 1 ''h'' agg_batch None"
  obtain meta where meta: "meta_of meta agg_batch" using agg_meta by blast
  have "coherent set_bitmap {2} agg_batch ?full (agg_path_of ''t'' ''rg.agg'') (live_key_of ''t'' ''rg.agg'' ''rg.dv'') (gc_new 8)"
    by (simp add: coherent_def gc_new_def mc_lookup_def lru_inv_new) (simp add: mc_new_def)
  from live_partial_exact [OF agg_fragment [of "{2}"] meta _ _ _ _ _ _ dv_roundtrip [OF set_bitmap_laws] this, of "[2]" "\<lambda>_. Some ?full" "sample_schema_of ''int64''"]
  obtain st cache' where st: "load_agg_state plain_ext (plain_reader agg_contents) set_bitmap (\<lambda>_. Some ?full)
       mem_storage ''t'' agg_entry meta (sample_schema_of ''int64'') (gc_new 8) (agg_store {2}) = (Inr (Some st, cache'), agg_store {2})"
    "live_exact set_bitmap {2} agg_batch st" "extrema_carried set_bitmap {2} agg_batch st"
    using agg_reads(2,3) [of "{2}"] by (auto simp: agg_entry_def agg_path_of_def)
  have c: "column_by_name agg_batch ''c'' = Some (IntColumn DInt64 [Some 5, None, Some 9])" by (simp add: column_by_name_def agg_batch_def sample_column_def)
  have "\<exists>a. column_agg (IntColumn DInt64 [Some 5, None, Some 9]) = Some a"
    by (simp add: int_types_def compute_signed_int_col_def ac_null_count_def add_int_def checked_add_i128_def checked_mul_i128_def in_i128_def)
  then obtain a where a: "column_agg (IntColumn DInt64 [Some 5, None, Some 9]) = Some a" ..
  from live_exactD [OF st(2) c this] obtain a' where a': "map_of (fa_cols st) ''c'' = Some a'" "partial_of a' [5]"
    unfolding agg_live by blast
  moreover have "is_extremum KMax 5 (live_values set_bitmap {2} [Some 5, None, Some 9])" unfolding agg_live by (simp add: is_extremum_def)
  then have "ca_live_max a' = Some (jint 5)" using st(3) c a a'(1) unfolding extrema_carried_def by fastforce
  ultimately show ?thesis using st(1) by (auto simp: partial_of_def)
qed

text \<open>
  C11: the SUM of an integer column with a 32- or 64-bit integer result, where some live cell is not null: the rule answers the sum
  over the live cells of all row groups, or falls back to a scan, and it falls back exactly when the first row group's
  partial has no sum (the type of the sum is taken from it), the squares leave the 128-bit range, or the sum does not fit the result type.
\<close>

theorem sum_of_live_rows:
  assumes "list_all2 (\<lambda>(rg, dv, b) xs. trusted_live R name rg dv b xs) frs xss" "concat xss \<noteq> []" "t \<in> {DInt64, DInt32}"
  shows "compose_sum (XColumn name) (map fst frs) t =
    (if ca_sum (partial_col name (fst (hd frs))) \<noteq> ANull \<and> squares (concat xss) < 2 ^ 127 \<and> in_type t (sum_list (concat xss))
     then Some (VInt t (sum_list (concat xss))) else None)"
proof -
  have "frs \<noteq> []" using assms(1,2) by auto
  then show ?thesis by (rule compose_live [OF assms(1) _ assms(3)])
qed

lemma clean_live_exact:
  assumes "distinct (map fst (b_columns b))" "dv_set R dv = {}" "batch_wf b"
  shows "live_exact R dv b (compute_agg_state fid h b)"
  unfolding live_exact_def
proof (intro allI impI)
  fix n t vs a assume c: "column_by_name b n = Some (IntColumn t vs)" "column_agg (IntColumn t vs) = Some a"
  have "live_values R dv vs = non_null vs" using assms(2) by (simp add: live_rows_of_def map_nth)
  moreover have "map_of (fa_cols (compute_agg_state fid h b)) n = Some a" using compute_agg_state_cols(2) [OF assms(1)] c by simp
  moreover have "ca_live_min a = None" "ca_live_max a = None"
    using c(2) by (auto simp: compute_signed_int_col_def null_agg_def plain_agg_def split: if_splits prod.splits)
  moreover have "non_null vs \<noteq> [] \<longrightarrow> ca_sum a \<noteq> ANull" using column_agg_IntColumn(2) [OF c(2)] by (auto simp: partial_of_def)
  ultimately show "\<exists>a'. map_of (fa_cols (compute_agg_state fid h b)) n = Some a' \<and> partial_of a' (live_values R dv vs)
      \<and> (non_null vs \<noteq> [] \<longrightarrow> ca_sum a' \<noteq> ANull)
      \<and> (\<forall>j. ca_live_min a' = Some j \<longrightarrow> (\<exists>m. j = jint m \<and> is_extremum KMin m (live_values R dv vs)))
      \<and> (\<forall>j. ca_live_max a' = Some j \<longrightarrow> (\<exists>m. j = jint m \<and> is_extremum KMax m (live_values R dv vs)))"
    using column_agg_IntColumn(2) [OF c(2)] by simp
qed

definition planned_with :: "row_group_meta \<Rightarrow> u64 \<Rightarrow> fragment_agg_state \<Rightarrow> planned" where
  "planned_with m deleted st = \<lparr>pr_data_path = ''t/rg.parquet'', pr_meta_path = ''t/rg.meta'', pr_meta = m, pr_partition_values = None,
     pr_snapshot = 1, pr_fallback = False, pr_deletes = None, pr_deleted_count = deleted, pr_fragment_id = 1, pr_agg_state = Some st\<rparr>"

definition meta_with_checksum :: "string \<Rightarrow> row_group_meta" where
  "meta_with_checksum h = sample_meta\<lparr>rm_checksum := h\<rparr>"

lemma agg_column:
  "column_by_name agg_batch ''c'' = Some (IntColumn DInt64 [Some 5, None, Some 9])"
  "column_agg (IntColumn DInt64 [Some 5, None, Some 9]) = Some ((plain_agg 2 (AInt 14) (AInt 106))\<lparr>ca_min_off := Some 0, ca_max_off := Some 2\<rparr>)"
  by (simp_all add: column_by_name_def agg_batch_def sample_column_def int_types_def compute_signed_int_col_def ac_null_count_def
      add_int_def track_def checked_add_i128_def checked_mul_i128_def in_i128_def)

theorem sum_of_live_rows_witness:
  "compose_sum (XColumn ''c'') [planned_with (meta_with_checksum ''h'') 0 (compute_agg_state 1 ''h'' agg_batch)] DInt64 = Some (VInt DInt64 14)"
proof -
  let ?rg = "planned_with (meta_with_checksum ''h'') 0 (compute_agg_state 1 ''h'' agg_batch)"
  have wf: "distinct (map fst (b_columns agg_batch))" "batch_wf agg_batch" using agg_fragment [of "{}"] by (simp_all add: fragment_file_def)
  have e: "dv_set set_bitmap {} = {}" by (simp add: dv_set_def dv_contains_def set_bitmap_def)
  have l: "live_values set_bitmap {} [Some 5, None, Some 9] = [5, 9]" by (simp add: live_rows_of_def e upt_rec)
  have t: "trusted_live set_bitmap ''c'' ?rg {} agg_batch [5, 9]"
    using clean_live_exact [OF wf(1) e wf(2), of 1 "''h''"] agg_column l
    by (auto simp: trusted_live_def planned_with_def meta_with_checksum_def compute_agg_state_def)
  have "ca_sum (partial_col ''c'' ?rg) \<noteq> ANull"
    using trusted_live_partial(2) [OF t] by (auto simp: partial_of_def)
  with sum_of_live_rows [of set_bitmap "''c''" "[(?rg, {}, agg_batch)]" "[[5, 9]]" DInt64] t show ?thesis
    by (simp add: in_type_def)
qed

text \<open>
  C12: COUNT of all rows (\<^verbatim>\<open>COUNT(*)\<close>) under a filter. The constant that the covered row groups contribute, plus the
  live rows of the row groups that are still scanned that pass the filter, is the number of live rows of all of them that
  pass the filter, by the meaning of the filter expression and not its decoding. The filter's column is one that compares exactly (text,
  booleans, integers within 64 signed bits), its literals have the column's type, and integer literals are within 64 signed bits (a larger
  unsigned literal wraps).
\<close>

theorem filtered_count_exact:
  assumes "decode_scan_filter filters = Some f" "\<forall>e \<in> set filters. literals_fit e" "\<forall>fr \<in> set frs. filtered_fragment R f fr"
    "compose_filtered_from_scan ''count'' (XLiteral l) filters (map fst frs) t = Some (v, boundary)"
  shows "\<exists>n. v = VInt DInt64 n \<and> boundary = map fst (filter (\<lambda>fr. classify_fragment (fst fr) f = Boundary) frs)
    \<and> n + int (sum_list (map (scan_matches R filters) (filter (\<lambda>fr. classify_fragment (fst fr) f = Boundary) frs)))
      = int (sum_list (map (scan_matches R filters) frs))"
proof -
  let ?covered = "filter (\<lambda>fr. classify_fragment (fst fr) f = Covered) frs"
  have fm: "filter (\<lambda>rg. classify_fragment rg f = k) (map fst frs) = map fst (filter (\<lambda>fr. classify_fragment (fst fr) f = k) frs)" for k
    by (simp add: filter_map comp_def)
  have v: "v = VInt DInt64 (sum_list (map (\<lambda>rg. uint (rm_rows (pr_meta rg))) (map fst ?covered)))"
    and bd: "boundary = map fst (filter (\<lambda>fr. classify_fragment (fst fr) f = Boundary) frs)"
    and clean: "\<forall>fr \<in> set ?covered. clean_partial (fst fr)"
    using assms(1,4) by (auto simp: compose_filtered_from_scan_def Let_def fm split: if_splits)
  have cols: "pred_column p = df_column f" if "p \<in> set (df_predicates f)" for p using decode_scan_filter_columns [OF assms(1) that] .
  have rows: "uint (rm_rows (pr_meta (fst fr))) = int (b_rows (snd (snd fr)))" if "fr \<in> set frs" for fr
  proof -
    have "rm_rows (pr_meta (fst fr)) = of_nat (b_rows (snd (snd fr)))" "b_rows (snd (snd fr)) < 2 ^ 64"
      using bspec [OF assms(3) that] unfolding filtered_fragment_def by (simp_all add: case_prod_beta)
    then show ?thesis by (simp add: uint_nat unat_of_nat take_bit_nat_eq_self)
  qed
  have "sum_list (map (live_matches R (df_predicates f)) frs) = sum_list (map (\<lambda>fr. b_rows (snd (snd fr))) ?covered)
      + sum_list (map (live_matches R (df_predicates f)) (filter (\<lambda>fr. classify_fragment (fst fr) f = Boundary) frs))"
  proof (rule sum_by_class)
    fix fr assume fr: "fr \<in> set frs"
    have ff: "filtered_fragment R f (fst fr, fst (snd fr), snd (snd fr))" using assms(3) fr by simp
    show "live_matches R (df_predicates f) fr = b_rows (snd (snd fr))" if "classify_fragment (fst fr) f = Covered"
      using classify_matches(1) [OF ff cols that] clean fr that by simp
    show "live_matches R (df_predicates f) fr = 0" if "classify_fragment (fst fr) f = Disjoint"
      using classify_matches(2) [OF ff cols that] by simp
  qed
  moreover have "sum_list (map (\<lambda>rg. uint (rm_rows (pr_meta rg))) (map fst ?covered)) = int (sum_list (map (\<lambda>fr. b_rows (snd (snd fr))) ?covered))"
    using rows by (induction frs) auto
  ultimately show ?thesis unfolding scan_matches_decoded [OF assms(1,2)] using v bd by simp
qed

theorem filtered_count_exact_witness:
  "\<exists>rg b f. decode_scan_filter [XBinary OGt (XColumn ''c'') (XLiteral (QInt DInt64 3))] = Some f
     \<and> compose_filtered_from_scan ''count'' (XLiteral QOther) [XBinary OGt (XColumn ''c'') (XLiteral (QInt DInt64 3))] [rg] DInt64
         = Some (VInt DInt64 2, [])
     \<and> 2 = scan_matches set_bitmap [XBinary OGt (XColumn ''c'') (XLiteral (QInt DInt64 3))] (rg, {}, b)"
proof -
  let ?c = "IntColumn DInt64 [Some 5, Some 9]" and ?e = "XBinary OGt (XColumn ''c'') (XLiteral (QInt DInt64 3))"
    and ?f = "\<lparr>df_column = ''c'', df_predicates = [PGt ''c'' (LInt64 3)]\<rparr>"
  define b where "b = sample_column ?c 2"
  have mm: "compute_min_max plain_ext plain_kernels ?c = Inr (Some (jint 5), Some (jint 9))"
    by (simp add: int_types_def plain_kernels_def pick_def List.map_filter_def)
  obtain m where m: "compute_row_group_meta plain_ext plain_kernels (\<lambda>_. None) ''rg'' 1 b (sample_schema_of ''int64'') [] ''t'' [] = Inr m"
    and cols: "rm_columns m = [(''c'', \<lparr>cs_min = Some (jint 5), cs_max = Some (jint 9), cs_nulls = 0\<rparr>)]"
    using sample_meta_of [OF mm, of 2 "''int64''" "[]" "[]"] unfolding b_def by (auto simp: ac_null_count_def)
  note ms = row_group_meta_stats [OF m]
  define rg where "rg = planned_with m 0 (compute_agg_state 1 (rm_checksum m) b)"
  have "as_signed64 3 = 3" by (simp add: as_signed64_def)
  then have dec: "decode_scan_filter [?e] = Some ?f" by (simp add: decode_scan_filter_def comparison_predicate_def)
  have lit: "to_value_lit (LInt64 3) = jint 3" by (simp add: jint_def)
  have gt: "eval_cmp (jint 5) (to_value_lit (LInt64 3)) = Some Greater"
    unfolding lit eval_cmp_def using compare_jint [of 5 3] by (simp add: fits_i64_def)
  have "eval_cmp (jint 9) (to_value_lit (LInt64 3)) = Some Greater"
    unfolding lit eval_cmp_def using compare_jint [of 9 3] by (simp add: fits_i64_def)
  with gt have cov: "classify_fragment rg ?f = Covered"
    using cols by (simp add: classify_fragment_def rg_def planned_with_def fragment_disjoint_def fragment_fully_covered_def bounded_by_def)
  have run: "compose_filtered_from_scan ''count'' (XLiteral QOther) [?e] (map fst [(rg, {}, b)]) DInt64 = Some (VInt DInt64 2, [])"
    using cov dec ms(2) by (simp add: compose_filtered_from_scan_def rg_def planned_with_def clean_partial_def compute_agg_state_def b_def sample_column_def in_type_def)
  have "filtered_fragment set_bitmap ?f (rg, {}, b)"
    unfolding filtered_fragment_def
    using ms plain_kernels_law
    by (auto simp: rg_def planned_with_def b_def sample_column_def batch_wf_def int_types_def in_type_def ac_len_def exact_pred_def
        column_by_name_def fits_i64_def dv_set_def dv_contains_def set_bitmap_def)
  then have "2 = scan_matches set_bitmap [?e] (rg, {}, b)"
    using filtered_count_exact [OF dec _ _ run, of set_bitmap] cov by (simp add: fits_i64_def)
  then show ?thesis using dec run by (intro exI [of _ rg] exI [of _ b] exI [of _ ?f]) simp
qed

text \<open>
  C37: when every row with a value is deleted, the composed SUM is zero. A scan of the surviving
  rows answers NULL.
\<close>

theorem sum_of_deleted_rows_is_zero:
  assumes "pr_agg_state rg = Some st" "\<not> pr_fallback rg" "pr_deleted_count rg \<noteq> 0" "live_exact R dv b st"
    "column_by_name b name = Some (IntColumn t vs)" "column_agg (IntColumn t vs) = Some a"
    "\<exists>v. Some v \<in> set vs" "\<forall>i < length vs. vs ! i \<noteq> None \<longrightarrow> of_nat i \<in> dv_set R dv"
  shows "compose_sum (XColumn name) [rg] DInt64 = Some (VInt DInt64 0)"
proof -
  have "live_values R dv vs = []"
  proof (rule ccontr)
    assume "live_values R dv vs \<noteq> []"
    then obtain v where "v \<in> set (live_values R dv vs)" by (cases "live_values R dv vs") auto
    then show False using assms(8) by (auto simp: set_non_null live_rows_of_def)
  qed
  then have t: "trusted_live R name rg dv b []" using assms(1-6) unfolding trusted_live_def by metis
  have "non_null vs \<noteq> []" using assms(7) set_non_null [of _ vs] by (metis empty_iff empty_set)
  then have "ca_sum (partial_col name rg) \<noteq> ANull"
    using live_exactD [OF assms(4-6)] assms(1) by (metis option.sel partial_col_def)
  then show ?thesis
    using compose_live [of R name "[(rg, dv, b)]" "[[]]" DInt64] t by (simp add: in_type_def)
qed

text \<open>Three rows, the first and the last deleted; the second is null.\<close>

theorem sum_of_deleted_rows_is_zero_witness:
  "\<exists>st. compose_sum (XColumn ''c'') [planned_with sample_meta 2 st] DInt64 = Some (VInt DInt64 0)"
proof -
  let ?dv = "{0, 2} :: u32 set"
  have f: "fragment_file (plain_reader agg_contents) set_bitmap mem_storage ''t'' agg_entry (agg_store ?dv) ?dv agg_batch"
    by (rule agg_fragment) simp
  obtain meta where meta: "meta_of meta agg_batch" using agg_meta by blast
  obtain st where st: "live_exact set_bitmap ?dv agg_batch st"
    using live_state_exact [OF f meta agg_reads(3) dv_roundtrip [OF set_bitmap_laws] refl] unfolding live_partial_def by blast
  have "compose_sum (XColumn ''c'') [planned_with sample_meta 2 st] DInt64 = Some (VInt DInt64 0)"
    by (rule sum_of_deleted_rows_is_zero [OF _ _ _ st agg_column])
      (auto simp: planned_with_def dv_set_def dv_contains_def set_bitmap_def less_Suc_eq numeral_3_eq_3)
  then show ?thesis ..
qed

text \<open>
  the composed SUM of a float column that holds only nulls is zero. A scan answers NULL; the
  rule takes the type of the sum from the first partial, and a partial without values counts as a float.
\<close>

theorem sum_of_null_floats_is_zero:
  assumes "rgs \<noteq> []" "\<forall>rg \<in> set rgs. \<not> pr_fallback rg \<and> (\<exists>fid b t vs.
      pr_agg_state rg = Some (compute_agg_state fid (rm_checksum (pr_meta rg)) b) \<and> distinct (map fst (b_columns b))
      \<and> column_by_name b name = Some (FloatColumn t vs) \<and> set vs \<subseteq> {None})"
  shows "compose_sum (XColumn name) rgs DFloat64 = Some (VFloat DFloat64 0)"
proof -
  have null: "usable_partial name rg \<and> partial_col name rg = null_agg" if "rg \<in> set rgs" for rg
  proof -
    obtain fid b t vs where r: "\<not> pr_fallback rg" "pr_agg_state rg = Some (compute_agg_state fid (rm_checksum (pr_meta rg)) b)"
      "distinct (map fst (b_columns b))" "column_by_name b name = Some (FloatColumn t vs)" "set vs \<subseteq> {None}"
      using assms(2) \<open>rg \<in> set rgs\<close> by blast
    have "vs = replicate (length vs) None" using r(5) by (intro replicate_eqI) auto
    then obtain k where "vs = replicate k None" ..
    then have "column_agg (FloatColumn t vs) = Some null_agg"
      by (simp add: compute_float_col_def ac_null_count_def)
    then have "map_of (fa_cols (compute_agg_state fid (rm_checksum (pr_meta rg)) b)) name = Some null_agg"
      using compute_agg_state_cols(2) [OF r(3)] r(4) by simp
    then show ?thesis using r(1,2) by (simp add: usable_partial_def partial_col_def compute_agg_state_def)
  qed
  have loop: "sum_float_partials (replicate k null_agg) (0, 0, 0) = Some (0, 0, 0)" for k
    by (induction k) (simp_all add: null_agg_def plain_agg_def)
  have map: "map (partial_col name) rgs = replicate (length rgs) null_agg" using null by (intro replicate_eqI) auto
  moreover obtain k where "length rgs = Suc k" using assms(1) by (cases rgs) auto
  ultimately have "map (partial_col name) rgs = null_agg # replicate k null_agg" by simp
  then have "collect_col_partials name rgs = Some (0, AFloat 0, AFloat 0)"
    using null loop [of "Suc k"] by (simp add: collect_col_partials_def) (simp add: null_agg_def plain_agg_def)
  then show ?thesis by simp
qed

theorem sum_of_null_floats_is_zero_witness:
  "compose_sum (XColumn ''c'') [planned_with (meta_with_checksum ''h'') 0
     (compute_agg_state 1 ''h'' (sample_column (FloatColumn DFloat64 [None, None]) 2))] DFloat64 = Some (VFloat DFloat64 0)"
proof (rule sum_of_null_floats_is_zero, simp, rule ballI)
  fix rg assume "rg \<in> set [planned_with (meta_with_checksum ''h'') 0 (compute_agg_state 1 ''h'' (sample_column (FloatColumn DFloat64 [None, None]) 2))]"
  then show "\<not> pr_fallback rg \<and> (\<exists>fid b t vs. pr_agg_state rg = Some (compute_agg_state fid (rm_checksum (pr_meta rg)) b)
      \<and> distinct (map fst (b_columns b)) \<and> column_by_name b ''c'' = Some (FloatColumn t vs) \<and> set vs \<subseteq> {None})"
    by (intro conjI exI [of _ 1] exI [of _ "sample_column (FloatColumn DFloat64 [None, None]) 2"] exI [of _ DFloat64] exI [of _ "[None, None]"])
      (simp_all add: planned_with_def meta_with_checksum_def sample_column_def column_by_name_def)
qed

definition keyed_batch :: "int \<Rightarrow> batch" where
  "keyed_batch v = \<lparr>b_rows = 1, b_columns = [(''k'', TextColumn DUtf8 [Some ''a'']), (''v'', IntColumn DUInt64 [Some v])]\<rparr>"

definition keyed_group :: "ext \<Rightarrow> string \<Rightarrow> int \<Rightarrow> planned" where
  "keyed_group X h v = planned_with (meta_with_checksum h) 0 (compute_agg_state_with_key X 1 h (keyed_batch v) (Some ''k''))"

lemma keyed_partials:
  "fa_grouped (compute_agg_state_with_key X 1 h (keyed_batch v) (Some ''k'')) = Some \<lparr>gp_key_col = ''k'',
     gp_groups = [(json_to_string X (JStr ''a''), if v * v < 2 ^ 127 then [(''v'', plain_agg 1 (AInt v) (AInt (v * v)))] else [])]\<rparr>"
proof -
  have key: "group_rows X (TextColumn DUtf8 [Some ''a'']) [0..<1] [] = Some [(json_to_string X (JStr ''a''), [0])]"
    by (simp add: arrow_scalar_to_group_key_string_def bt_push_def)
  have "fold_ints [v] (0, 0, 0) = (if v * v < 2 ^ 127 then Some (1, v, v * v) else None)" using fold_ints_0 [of "[v]"] by simp
  then have add: "add_int v (0, 0, 0) = (if v * v < 2 ^ 127 then Some (1, v, v * v) else None)"
    by (cases "add_int v (0, 0, 0)") (auto split: if_splits)
  show ?thesis
    using key by (simp add: compute_agg_state_with_key_def compute_agg_state_def column_by_name_def keyed_batch_def Let_def
        MAX_DECLARED_GROUPS_def bt_insert_def group_cols_def fold_int_rows_to_col_agg_def int_result_def
        compute_signed_int_col_def ac_null_count_def int_types_def add)
qed

text \<open>
  C36: a GROUP BY answered from partials loses rows. A value whose square leaves the 128-bit
  range makes its row group drop the column; merging takes the next row group's partial for the whole, and the COUNT of the
  group is one although two rows have a value.
\<close>

theorem grouped_count_loses_rows:
  assumes "2 ^ 127 \<le> v * v" "w * w < 2 ^ 127"
  shows "\<exists>parts key cols. collect_grouped ''k'' [keyed_group X h v, keyed_group X h' w] = Some parts
     \<and> merge_grouped parts = Inr [(key, cols)] \<and> group_count ''v'' cols = Some (VInt DInt64 1, 1)"
proof -
  let ?key = "json_to_string X (JStr ''a'')"
  have hash: "fa_content_hash (compute_agg_state_with_key X 1 h (keyed_batch v) (Some ''k'')) = h" for h v
    by (simp add: compute_agg_state_with_key_def compute_agg_state_def Let_def split: option.splits)
  have "collect_grouped ''k'' [keyed_group X h v, keyed_group X h' w] =
      Some [\<lparr>gp_key_col = ''k'', gp_groups = [(?key, [])]\<rparr>, \<lparr>gp_key_col = ''k'', gp_groups = [(?key, [(''v'', plain_agg 1 (AInt w) (AInt (w * w)))])]\<rparr>]"
    using assms by (simp add: collect_grouped_def keyed_group_def planned_with_def meta_with_checksum_def keyed_partials hash)
  moreover have "merge_grouped [\<lparr>gp_key_col = ''k'', gp_groups = [(?key, [])]\<rparr>, \<lparr>gp_key_col = ''k'', gp_groups = [(?key, [(''v'', plain_agg 1 (AInt w) (AInt (w * w)))])]\<rparr>]
      = Inr [(?key, [(''v'', plain_agg 1 (AInt w) (AInt (w * w)))])]"
    by (simp add: merge_grouped_def merge_cols_def bt_insert_def)
  moreover have "group_count ''v'' [(''v'', plain_agg 1 (AInt w) (AInt (w * w)))] = Some (VInt DInt64 1, 1)"
    by (simp add: group_count_def plain_agg_def)
  ultimately show ?thesis by blast
qed

theorem grouped_count_loses_rows_witness:
  "\<exists>parts key cols. collect_grouped ''k'' [keyed_group plain_ext ''h1'' (2 ^ 64 - 1), keyed_group plain_ext ''h2'' 5] = Some parts
     \<and> merge_grouped parts = Inr [(key, cols)] \<and> group_count ''v'' cols = Some (VInt DInt64 1, 1)"
  by (rule grouped_count_loses_rows) simp_all

end
