(* ===== verification/Insert_Plan.thy ===== *)
theory Insert_Plan
  imports Table_State Agg_Exact
begin

text \<open>
  Buffering and planning of inserts in \<^verbatim>\<open>crates/icefalldb-core/src/writer.rs\<close>: \<^verbatim>\<open>insert_batch\<close> checks a
  record batch against the schema of the table and buffers it, \<^verbatim>\<open>plan_row_groups\<close> cuts the buffered rows into row groups of
  bounded size, one partition each where the table is partitioned.

  The kernels of the \<^verbatim>\<open>arrow\<close> crate that copy rows are the parameter \<open>A\<close>, with \<open>arrow_ops_law\<close>; the sizes of arrays in memory are
  whatever \<open>ao_memory\<close> says. The identifiers of row groups come from \<open>uuid\<close>, the \<open>n\<close>-th random identifier drawn,
  and \<open>ho\<close> is the order in which a \<^verbatim>\<open>HashMap\<close> is iterated.
\<close>

section \<open>Batches of a schema\<close>

record arrow_ops =
  ao_concat :: "batch list \<Rightarrow> batch option"
  ao_slice :: "nat \<Rightarrow> nat \<Rightarrow> arrow_column \<Rightarrow> arrow_column"
  ao_take :: "nat list \<Rightarrow> arrow_column \<Rightarrow> arrow_column option"
  ao_memory :: "batch \<Rightarrow> nat"

fun field_column :: "dfield \<Rightarrow> string \<times> arrow_column \<Rightarrow> bool" where
  "field_column (Field name t nullable) (n, c) \<longleftrightarrow>
     n = name \<and> ac_type c = t \<and> column_typed c \<and> (\<not> nullable \<longrightarrow> ac_null_count c = 0)"

text \<open>What \<^verbatim>\<open>RecordBatch::try_new\<close> checks.\<close>

definition conforms :: "dfield list \<Rightarrow> batch \<Rightarrow> bool" where
  "conforms fs b \<longleftrightarrow> list_all2 field_column fs (b_columns b) \<and> (\<forall>(n, c) \<in> set (b_columns b). ac_len c = b_rows b)"

definition row_cells :: "batch \<Rightarrow> nat \<Rightarrow> arrow_column list" where
  "row_cells b i = map (\<lambda>(n, c). take_cells [i] c) (b_columns b)"

definition batch_rows :: "batch \<Rightarrow> arrow_column list list" where
  "batch_rows b = map (row_cells b) [0..<b_rows b]"

text \<open>
  Concatenation keeps the rows of batches of one schema in order; \<^verbatim>\<open>slice\<close> and \<^verbatim>\<open>take\<close> copy the cells at given
  positions.
\<close>

definition arrow_ops_law :: "arrow_ops \<Rightarrow> dfield list \<Rightarrow> bool" where
  "arrow_ops_law A fs \<longleftrightarrow>
     (\<forall>bs. (\<forall>b \<in> set bs. conforms fs b) \<longrightarrow>
        (\<exists>c. ao_concat A bs = Some c \<and> conforms fs c \<and> batch_rows c = concat (map batch_rows bs))) \<and>
     (\<forall>start len c. start + len \<le> ac_len c \<longrightarrow> ao_slice A start len c = take_cells [start..<start + len] c) \<and>
     (\<forall>rows c. (\<forall>i \<in> set rows. i < ac_len c) \<longrightarrow> ao_take A rows c = Some (take_cells rows c))"

section \<open>Buffering\<close>

definition schema_equal_ignoring_metadata :: "dfield list \<Rightarrow> dfield list \<Rightarrow> bool" where
  "schema_equal_ignoring_metadata a b \<longleftrightarrow> length a = length b \<and> list_all (\<lambda>(x, y). x = y) (zip a b)"

definition insert_batch :: "arrow_ops \<Rightarrow> dfield list \<Rightarrow> batch \<Rightarrow> batch writer \<Rightarrow> batch writer result" where
  "insert_batch A fs b w =
     (if \<not> schema_equal_ignoring_metadata fs (w_arrow_schema w)
      then Inl (SchemaMismatch ''schema'' ''match writer schema'' (w_table w))
      else if b_rows b = 0 then Inr w
      else Inr (w\<lparr>w_buffered_rows := w_buffered_rows w + b_rows b,
                  w_buffered_bytes := w_buffered_bytes w + ao_memory A b, w_buffer := w_buffer w @ [b]\<rparr>))"

section \<open>Slicing\<close>

record planned_write =
  pw_rg_id :: string
  pw_data_filename :: string
  pw_meta_filename :: string
  pw_batch :: batch

definition unique_rg_id :: "(nat \<Rightarrow> string) \<Rightarrow> nat \<Rightarrow> string" where
  "unique_rg_id uuid n = ''rg_'' @ uuid n"

definition planned_write_of :: "string \<Rightarrow> batch \<Rightarrow> planned_write" where
  "planned_write_of rg_id b = \<lparr>pw_rg_id = rg_id, pw_data_filename = rg_id @ ''.parquet'', pw_meta_filename = rg_id @ ''.meta'', pw_batch = b\<rparr>"

text \<open>\<^verbatim>\<open>RecordBatch::try_new\<close> on arrays that a kernel copied from a batch; it needs a column to know the number of rows.\<close>

definition try_new :: "nat \<Rightarrow> (string \<times> arrow_column) list \<Rightarrow> batch result" where
  "try_new len cols = (if cols = [] then Inl (Other ''arrow'') else Inr \<lparr>b_rows = len, b_columns = cols\<rparr>)"

definition slice_batch :: "arrow_ops \<Rightarrow> batch \<Rightarrow> nat \<Rightarrow> nat \<Rightarrow> batch result" where
  "slice_batch A b start len = try_new len (map (\<lambda>(n, c). (n, ao_slice A start len c)) (b_columns b))"

text \<open>The loop over the starts; both branches of the size estimate run it.\<close>

function slice_loop :: "arrow_ops \<Rightarrow> (nat \<Rightarrow> string) \<Rightarrow> batch \<Rightarrow> nat \<Rightarrow> nat \<Rightarrow> nat \<Rightarrow> (planned_write list \<times> nat) result" where
  "slice_loop A uuid b chunk start n =
     (if start < b_rows b \<and> 0 < chunk
      then let len = min chunk (b_rows b - start)
           in res_bind (slice_batch A b start len) (\<lambda>slice.
                map_sum id (\<lambda>(ps, n'). (planned_write_of (unique_rg_id uuid n) slice # ps, n'))
                  (slice_loop A uuid b chunk (start + len) (n + 1)))
      else Inr ([], n))"
  by pat_completeness auto
termination by (relation "measure (\<lambda>(A, uuid, b, chunk, start, n). b_rows b - start)") auto

declare slice_loop.simps [simp del]

definition chunk_rows :: "arrow_ops \<Rightarrow> table_schema \<Rightarrow> batch \<Rightarrow> nat" where
  "chunk_rows A schema b =
     (let bytes_per_row = ao_memory A b div b_rows b
      in if bytes_per_row = 0 then max (unat (sc_row_group_target_rows schema)) 1
         else max (min (unat (sc_row_group_target_rows schema))
                    (max (unat (sc_row_group_target_bytes schema) div bytes_per_row) 1)) 1)"

definition slice_batch_into_row_groups ::
  "arrow_ops \<Rightarrow> (nat \<Rightarrow> string) \<Rightarrow> table_schema \<Rightarrow> batch \<Rightarrow> nat \<Rightarrow> (planned_write list \<times> nat) result" where
  "slice_batch_into_row_groups A uuid schema b n =
     (if b_rows b = 0 then Inr ([], n) else slice_loop A uuid b (chunk_rows A schema b) 0 n)"

definition slice_concatenated_batches ::
  "arrow_ops \<Rightarrow> (nat \<Rightarrow> string) \<Rightarrow> table_schema \<Rightarrow> batch list \<Rightarrow> nat \<Rightarrow> (planned_write list \<times> nat) result" where
  "slice_concatenated_batches A uuid schema bs n =
     (if bs = [] then Inr ([], n)
      else res_bind (ok_or (ao_concat A bs) (Other ''arrow'')) (\<lambda>combined.
        if b_rows combined = 0 then Inr ([], n) else slice_batch_into_row_groups A uuid schema combined n))"

section \<open>Partitions\<close>

definition is_supported_partition_type :: "data_type \<Rightarrow> bool" where
  "is_supported_partition_type t \<longleftrightarrow>
     t \<in> set int_types \<union> {DBoolean, DFloat32, DFloat64, DUtf8, DLargeUtf8, DTimestampUs None}"

fun validate_partition_types :: "batch \<Rightarrow> string list \<Rightarrow> string \<Rightarrow> unit result" where
  "validate_partition_types b [] path = Inr ()"
| "validate_partition_types b (c # cs) path =
     (case column_by_name b c of
        None \<Rightarrow> Inl (SchemaMismatch c ''found in batch'' path)
      | Some arr \<Rightarrow>
          if is_supported_partition_type (ac_type arr) then validate_partition_types b cs path
          else Inl (InvalidSchema (''partition column '' @ quoted c @ '' has unsupported type'') path))"

text \<open>A cell that is valid; a float that is not finite is grouped with the nulls.\<close>

fun scalar_to_json_value :: "arrow_column \<Rightarrow> nat \<Rightarrow> json result" where
  "scalar_to_json_value (BoolColumn vs) row = ok_or (map_option JBool (vs ! row)) Panic"
| "scalar_to_json_value (IntColumn t vs) row =
     (if t \<in> set int_types \<or> t = DTimestampUs None then ok_or (map_option jint (vs ! row)) Panic
      else Inl (InvalidSchema ''partition column has unsupported type'' ''partition''))"
| "scalar_to_json_value (FloatColumn t vs) row =
     ok_or (map_option (\<lambda>v. if is_finite v then f64_value v else JNull) (vs ! row)) Panic"
| "scalar_to_json_value (TextColumn t vs) row = ok_or (map_option JStr (vs ! row)) Panic"
| "scalar_to_json_value (OtherColumn t valid) row = Inl (InvalidSchema ''partition column has unsupported type'' ''partition'')"

fun partition_key_parts :: "batch \<Rightarrow> string list \<Rightarrow> nat \<Rightarrow> json list result" where
  "partition_key_parts b [] row = Inr []"
| "partition_key_parts b (c # cs) row =
     (case column_by_name b c of
        None \<Rightarrow> Inl (SchemaMismatch c ''found in batch'' ''partition'')
      | Some arr \<Rightarrow>
          res_bind (if ac_valid arr ! row then scalar_to_json_value arr row else Inr JNull) (\<lambda>v.
            map_sum id (Cons v) (partition_key_parts b cs row)))"

definition partition_key_for_row :: "ext \<Rightarrow> batch \<Rightarrow> string list \<Rightarrow> nat \<Rightarrow> bytes result" where
  "partition_key_for_row X b partition_by row =
     map_sum id (\<lambda>parts. json_to_string X (JArr parts)) (partition_key_parts b partition_by row)"

fun partition_groups ::
  "ext \<Rightarrow> batch \<Rightarrow> string list \<Rightarrow> nat list \<Rightarrow> (bytes \<times> nat list) list \<Rightarrow> (bytes \<times> nat list) list result" where
  "partition_groups X b partition_by [] groups = Inr groups"
| "partition_groups X b partition_by (row # rows) groups =
     res_bind (partition_key_for_row X b partition_by row) (\<lambda>key.
       partition_groups X b partition_by rows (bt_push key row groups))"

definition take_batch_by_indices :: "arrow_ops \<Rightarrow> batch \<Rightarrow> nat list \<Rightarrow> batch result" where
  "take_batch_by_indices A b rows =
     (case option_all (map (\<lambda>(n, c). map_option (Pair n) (ao_take A rows c)) (b_columns b)) of
        None \<Rightarrow> Inl (Other ''arrow'')
      | Some cols \<Rightarrow> try_new (length rows) cols)"

fun plan_groups ::
  "arrow_ops \<Rightarrow> (nat \<Rightarrow> string) \<Rightarrow> table_schema \<Rightarrow> batch \<Rightarrow> (bytes \<times> nat list) list \<Rightarrow> nat \<Rightarrow>
   (planned_write list \<times> nat) result" where
  "plan_groups A uuid schema b [] n = Inr ([], n)"
| "plan_groups A uuid schema b ((_, rows) # groups) n =
     res_bind (take_batch_by_indices A b rows) (\<lambda>taken.
       res_bind (slice_batch_into_row_groups A uuid schema taken n) (\<lambda>(ps, n').
         map_sum id (\<lambda>(qs, n''). (ps @ qs, n'')) (plan_groups A uuid schema b groups n')))"

type_synonym group_order = "(bytes \<times> nat list) list \<Rightarrow> (bytes \<times> nat list) list"

definition plan_partitioned_row_groups ::
  "ext \<Rightarrow> arrow_ops \<Rightarrow> group_order \<Rightarrow> (nat \<Rightarrow> string) \<Rightarrow> batch writer \<Rightarrow> string list \<Rightarrow> nat \<Rightarrow> (planned_write list \<times> nat) result" where
  "plan_partitioned_row_groups X A ho uuid w partition_by n =
     (if w_buffer w = [] then Inr ([], n)
      else res_bind (ok_or (ao_concat A (w_buffer w)) (Other ''arrow'')) (\<lambda>combined.
        if b_rows combined = 0 then Inr ([], n)
        else res_bind (validate_partition_types combined partition_by (w_table w)) (\<lambda>_.
          res_bind (partition_groups X combined partition_by [0..<b_rows combined] []) (\<lambda>groups.
            plan_groups A uuid (w_schema w) combined (ho groups) n))))"

definition plan_row_groups ::
  "ext \<Rightarrow> arrow_ops \<Rightarrow> group_order \<Rightarrow> (nat \<Rightarrow> string) \<Rightarrow> batch writer \<Rightarrow> nat \<Rightarrow> (planned_write list \<times> nat) result" where
  "plan_row_groups X A ho uuid w n =
     (case sc_partition_by (w_schema w) of
        Some (c # cs) \<Rightarrow> plan_partitioned_row_groups X A ho uuid w (c # cs) n
      | _ \<Rightarrow> slice_concatenated_batches A uuid (w_schema w) (w_buffer w) n)"

section \<open>Copied rows\<close>

lemma take_cells_len [simp]: "ac_len (take_cells rows c) = length rows"
  by (cases c) (simp_all add: ac_len_def)

lemma ac_valid_take: "\<forall>i \<in> set rows. i < ac_len c \<Longrightarrow> ac_valid (take_cells rows c) = map ((!) (ac_valid c)) rows"
  by (cases c) (simp_all add: ac_len_def)

lemma take_cells_null_free:
  assumes "\<forall>i \<in> set rows. i < ac_len c" "ac_null_count c = 0"
  shows "ac_null_count (take_cells rows c) = 0"
  using assms(2) ac_valid_take [OF assms(1)] assms(1) by (auto simp: ac_null_count_def filter_empty_conv ac_len_def)

lemma take_cells_typed:
  assumes "\<forall>i \<in> set rows. i < ac_len c" "column_typed c"
  shows "column_typed (take_cells rows c)"
proof (cases c)
  case (IntColumn t vs)
  have "Some v \<in> set vs" if "Some v \<in> (!) vs ` set rows" for v
    using that assms(1) IntColumn by (auto simp: ac_len_def)
  then show ?thesis using assms(2) IntColumn by auto
qed (use assms(2) in auto)

lemma take_rows_conforms:
  assumes "conforms fs b" "\<forall>i \<in> set rows. i < b_rows b"
  shows "conforms fs (take_rows rows b)"
proof -
  have len: "ac_len c = b_rows b" if "(n, c) \<in> set (b_columns b)" for n c using assms(1) that by (auto simp: conforms_def)
  have "list_all2 field_column fs (b_columns b)" using assms(1) by (simp add: conforms_def)
  then have "list_all2 field_column fs (map (\<lambda>(n, c). (n, take_cells rows c)) (b_columns b))"
    unfolding list_all2_map2
  proof (rule list.rel_mono_strong)
    fix f p assume "p \<in> set (b_columns b)" and f: "field_column f p"
    then have "ac_len (snd p) = b_rows b" using len [of "fst p" "snd p"] by simp
    then show "field_column f ((\<lambda>(n, c). (n, take_cells rows c)) p)"
      using f assms(2) take_cells_typed [of rows "snd p"] take_cells_null_free [of rows "snd p"] by (cases f; cases p) auto
  qed
  then show ?thesis by (auto simp: conforms_def take_rows_def)
qed

lemma take_cells_twice: "\<forall>i \<in> set rows'. i < length rows \<Longrightarrow> take_cells rows' (take_cells rows c) = take_cells (map ((!) rows) rows') c"
  by (cases c) simp_all

lemma take_rows_twice: "\<forall>i \<in> set rows'. i < length rows \<Longrightarrow> take_rows rows' (take_rows rows b) = take_rows (map ((!) rows) rows') b"
  by (simp add: take_rows_def case_prod_beta comp_def take_cells_twice)

lemma row_cells_take: "i < length rows \<Longrightarrow> row_cells (take_rows rows b) i = row_cells b (rows ! i)"
  by (simp add: row_cells_def take_rows_def case_prod_beta comp_def take_cells_twice)

lemma batch_rows_take [simp]: "batch_rows (take_rows rows b) = map (row_cells b) rows"
proof -
  have "map (row_cells (take_rows rows b)) [0..<length rows] = map (\<lambda>i. row_cells b (rows ! i)) [0..<length rows]"
    by (intro map_cong) (auto simp: row_cells_take)
  also have "\<dots> = map (row_cells b) (map ((!) rows) [0..<length rows])" by simp
  finally show ?thesis by (simp add: batch_rows_def take_rows_def map_nth)
qed

section \<open>What is planned\<close>

text \<open>Every planned batch is a copy of rows of the combined batch.\<close>

lemma conforms_columns: "conforms fs b \<Longrightarrow> fs \<noteq> [] \<Longrightarrow> b_columns b \<noteq> []"
  by (auto simp: conforms_def)

lemma slice_batch_take:
  assumes "arrow_ops_law A fs" "conforms fs b" "fs \<noteq> []" "start + len \<le> b_rows b"
  shows "slice_batch A b start len = Inr (take_rows [start..<start + len] b)"
proof -
  have "ao_slice A start len c = take_cells [start..<start + len] c" if "(n, c) \<in> set (b_columns b)" for n c
    using assms that by (auto simp: arrow_ops_law_def conforms_def)
  then show ?thesis using conforms_columns [OF assms(2,3)] by (auto simp: slice_batch_def try_new_def take_rows_def)
qed

fun copies :: "batch \<Rightarrow> (nat \<Rightarrow> string) \<Rightarrow> nat \<Rightarrow> nat list list \<Rightarrow> planned_write list" where
  "copies b uuid n [] = []"
| "copies b uuid n (rows # cuts) = planned_write_of (unique_rg_id uuid n) (take_rows rows b) # copies b uuid (n + 1) cuts"

lemma copies_batches: "map pw_batch (copies b uuid n cuts) = map (\<lambda>rows. take_rows rows b) cuts"
  by (induction cuts arbitrary: n) (simp_all add: planned_write_of_def)

lemma copies_ids: "map pw_rg_id (copies b uuid n cuts) = map (unique_rg_id uuid) [n..<n + length cuts]"
  by (induction cuts arbitrary: n) (simp_all add: planned_write_of_def upt_conv_Cons del: upt_Suc)

lemma copies_append: "copies b uuid n (xs @ ys) = copies b uuid n xs @ copies b uuid (n + length xs) ys"
  by (induction xs arbitrary: n) simp_all

definition bounded_cuts :: "nat \<Rightarrow> nat list list \<Rightarrow> bool" where
  "bounded_cuts k cuts \<longleftrightarrow> (\<forall>rows \<in> set cuts. rows \<noteq> [] \<and> length rows \<le> k)"

lemma slice_loop_copies:
  assumes "arrow_ops_law A fs" "conforms fs b" "fs \<noteq> []" "0 < chunk" "start \<le> b_rows b"
  shows "\<exists>cuts. slice_loop A uuid b chunk start n = Inr (copies b uuid n cuts, n + length cuts) \<and> concat cuts = [start..<b_rows b]
    \<and> bounded_cuts chunk cuts"
  using assms(5)
proof (induction "b_rows b - start" arbitrary: start n rule: less_induct)
  case less
  show ?case
  proof (cases "start < b_rows b")
    case False
    then show ?thesis using less.prems by (intro exI [of _ "[]"]) (simp add: slice_loop.simps bounded_cuts_def)
  next
    case True
    define len where "len = min chunk (b_rows b - start)"
    have len: "0 < len" "start + len \<le> b_rows b" "len \<le> chunk" using True assms(4) by (auto simp: len_def)
    have step: "b_rows b - (start + len) < b_rows b - start" using len True by linarith
    obtain cuts where c: "slice_loop A uuid b chunk (start + len) (n + 1) = Inr (copies b uuid (n + 1) cuts, n + 1 + length cuts)"
      "concat cuts = [start + len..<b_rows b]" "bounded_cuts chunk cuts"
      using less.hyps [of "start + len" "n + 1"] len step by auto
    have "slice_loop A uuid b chunk start n = Inr (copies b uuid n ([start..<start + len] # cuts), n + length ([start..<start + len] # cuts))"
      using True assms(4) c(1) slice_batch_take [OF assms(1-3) len(2)] by (subst slice_loop.simps) (simp add: Let_def flip: len_def)
    moreover have "concat ([start..<start + len] # cuts) = [start..<b_rows b]"
      using c(2) len(2) upt_add_eq_append [of start "start + len" "b_rows b - (start + len)"] by simp
    moreover have "bounded_cuts chunk ([start..<start + len] # cuts)" using c(3) len by (auto simp: bounded_cuts_def)
    ultimately show ?thesis by blast
  qed
qed

definition target_rows :: "table_schema \<Rightarrow> nat" where
  "target_rows schema = max (unat (sc_row_group_target_rows schema)) 1"

lemma chunk_rows_bounds: "0 < chunk_rows A schema b" "chunk_rows A schema b \<le> target_rows schema"
  by (auto simp: chunk_rows_def target_rows_def Let_def)

lemma bounded_cuts_mono: "bounded_cuts k cuts \<Longrightarrow> k \<le> k' \<Longrightarrow> bounded_cuts k' cuts"
  by (fastforce simp: bounded_cuts_def)

lemma slice_into_copies:
  assumes "arrow_ops_law A fs" "conforms fs b" "fs \<noteq> []"
  shows "\<exists>cuts. slice_batch_into_row_groups A uuid schema b n = Inr (copies b uuid n cuts, n + length cuts) \<and> concat cuts = [0..<b_rows b]
    \<and> bounded_cuts (target_rows schema) cuts"
proof (cases "b_rows b = 0")
  case True
  then show ?thesis by (intro exI [of _ "[]"]) (simp add: slice_batch_into_row_groups_def bounded_cuts_def)
next
  case False
  obtain cuts where c: "slice_loop A uuid b (chunk_rows A schema b) 0 n = Inr (copies b uuid n cuts, n + length cuts)"
    "concat cuts = [0..<b_rows b]" "bounded_cuts (chunk_rows A schema b) cuts"
    using slice_loop_copies [OF assms chunk_rows_bounds(1), of 0] by blast
  then show ?thesis using False bounded_cuts_mono [OF c(3) chunk_rows_bounds(2)] by (auto simp: slice_batch_into_row_groups_def)
qed

section \<open>Partitions of the rows\<close>

lemma partition_groups_rows:
  assumes "partition_groups X b by rows groups = Inr groups'" "bt_wf groups"
    "\<forall>(key, rs) \<in> set groups. \<forall>r \<in> set rs. partition_key_for_row X b by r = Inr key"
  shows "(\<forall>(key, rs) \<in> set groups'. \<forall>r \<in> set rs. partition_key_for_row X b by r = Inr key)
    \<and> mset (concat (map snd groups')) = mset (concat (map snd groups)) + mset rows"
  using assms
proof (induction rows arbitrary: groups)
  case (Cons row rows)
  obtain key where key: "partition_key_for_row X b by row = Inr key" "partition_groups X b by rows (bt_push key row groups) = Inr groups'"
    using Cons.prems(1) by (auto simp: res_bind_eq_Inr)
  have upd: "set (bt_push key row groups) \<subseteq> insert (key, (case map_of groups key of None \<Rightarrow> [] | Some l \<Rightarrow> l) @ [row]) (set groups)
      \<and> mset (concat (map snd (bt_push key row groups))) = add_mset row (mset (concat (map snd groups)))"
    using Cons.prems(2) unfolding bt_push_def
  proof (induction groups)
    case (Cons g groups)
    have "map_of groups key = None" if "key < fst g"
      using Cons.prems that by (auto simp: map_of_eq_None_iff)
    then show ?case using Cons by (cases g) (auto simp: less_imp_neq)
  qed simp
  have "\<forall>(k, rs) \<in> set (bt_push key row groups). \<forall>r \<in> set rs. partition_key_for_row X b by r = Inr k"
  proof (intro ballI, clarify)
    fix k rs r assume "(k, rs) \<in> set (bt_push key row groups)" "r \<in> set rs"
    then have "(k, rs) = (key, (case map_of groups key of None \<Rightarrow> [] | Some l \<Rightarrow> l) @ [row]) \<or> (k, rs) \<in> set groups" "r \<in> set rs"
      using upd by blast+
    moreover have "partition_key_for_row X b by r = Inr key" if "map_of groups key = Some l" "r \<in> set l" for l
      using Cons.prems(3) that by (blast dest: map_of_SomeD)
    ultimately show "partition_key_for_row X b by r = Inr k"
      using Cons.prems(3) key(1) by (auto split: option.splits)
  qed
  then show ?case using Cons.IH [OF key(2) bt_push_wf [OF Cons.prems(2)]] upd by simp
qed simp


lemma copies_of_copy:
  assumes "\<forall>cut \<in> set cuts. \<forall>i \<in> set cut. i < length rows"
  shows "copies (take_rows rows b) uuid n cuts = copies b uuid n (map (map ((!) rows)) cuts)"
  using assms by (induction cuts arbitrary: n) (simp_all add: take_rows_twice)

lemma take_batch_take:
  assumes "arrow_ops_law A fs" "conforms fs b" "fs \<noteq> []" "\<forall>i \<in> set rows. i < b_rows b"
  shows "take_batch_by_indices A b rows = Inr (take_rows rows b)"
proof -
  have "ao_take A rows c = Some (take_cells rows c)" if "(n, c) \<in> set (b_columns b)" for n c
    using assms that by (auto simp: arrow_ops_law_def conforms_def)
  then have "map (\<lambda>(n, c). map_option (Pair n) (ao_take A rows c)) (b_columns b)
      = map Some (map (\<lambda>(n, c). (n, take_cells rows c)) (b_columns b))"
    by auto
  then show ?thesis using conforms_columns [OF assms(2,3)]
    by (simp add: take_batch_by_indices_def try_new_def take_rows_def option_all_map_Some del: map_map)
qed

lemma plan_groups_copies:
  assumes "arrow_ops_law A fs" "conforms fs b" "fs \<noteq> []" "\<forall>(key, rows) \<in> set groups. \<forall>i \<in> set rows. i < b_rows b"
  shows "\<exists>cuts. plan_groups A uuid schema b groups n = Inr (copies b uuid n cuts, n + length cuts)
    \<and> concat cuts = concat (map snd groups) \<and> bounded_cuts (target_rows schema) cuts
    \<and> (\<forall>cut \<in> set cuts. \<exists>(key, rows) \<in> set groups. set cut \<subseteq> set rows)"
  using assms(4)
proof (induction groups arbitrary: n)
  case (Cons g groups)
  obtain key rows where g: "g = (key, rows)" by fastforce
  have rows: "\<forall>i \<in> set rows. i < b_rows b" using Cons.prems g by auto
  obtain cuts where c: "slice_batch_into_row_groups A uuid schema (take_rows rows b) n = Inr (copies (take_rows rows b) uuid n cuts, n + length cuts)"
    "concat cuts = [0..<length rows]" "bounded_cuts (target_rows schema) cuts"
    using slice_into_copies [OF assms(1) take_rows_conforms [OF assms(2) rows] assms(3)] by (fastforce simp: take_rows_def)
  have "\<forall>cut \<in> set cuts. \<forall>i \<in> set cut. i < length rows" using arg_cong [OF c(2), of set] by auto
  note copy = copies_of_copy [OF this] and sub = this
  have "concat (map (map ((!) rows)) cuts) = rows" by (simp add: c(2) map_nth flip: map_concat)
  moreover obtain ds where d: "plan_groups A uuid schema b groups (n + length cuts)
      = Inr (copies b uuid (n + length cuts) ds, n + length cuts + length ds)"
    "concat ds = concat (map snd groups)" "bounded_cuts (target_rows schema) ds"
    "\<forall>cut \<in> set ds. \<exists>(key, rows) \<in> set groups. set cut \<subseteq> set rows"
    using Cons.IH [of "n + length cuts"] Cons.prems by auto
  moreover have "rows ! i \<in> set rows" if "cut \<in> set cuts" "i \<in> set cut" for cut i using sub that by auto
  ultimately show ?case
    using c take_batch_take [OF assms(1-3) rows]
    by (intro exI [of _ "map (map ((!) rows)) cuts @ ds"])
      (auto simp: g copy copies_append bounded_cuts_def)
qed (simp add: bounded_cuts_def)

section \<open>Keys of partitions\<close>

text \<open>The partition columns are columns of the table, of a type that partitions may have.\<close>

definition partitions_supported :: "dfield list \<Rightarrow> string list \<Rightarrow> bool" where
  "partitions_supported fs by \<longleftrightarrow>
     (\<forall>c \<in> set by. c \<in> df_name ` set fs \<and> (\<forall>t nullable. Field c t nullable \<in> set fs \<longrightarrow> is_supported_partition_type t))"

lemma conforms_find:
  assumes "list_all2 field_column fs cols" "c \<in> df_name ` set fs"
  shows "\<exists>t nullable col. Field c t nullable \<in> set fs \<and> map_of cols c = Some col \<and> field_column (Field c t nullable) (c, col) \<and> (c, col) \<in> set cols"
  using assms
proof (induction fs cols rule: list_all2_induct)
  case (Cons f fs p cols)
  obtain n t nullable col where "f = Field n t nullable" "p = (n, col)"
    using Cons.hyps(1) by (cases f; cases p) auto
  then show ?case using Cons by (cases "n = c") auto
qed simp

lemma column_found:
  assumes "conforms fs b" "partitions_supported fs by" "c \<in> set by"
  obtains col where "column_by_name b c = Some col" "column_typed col" "is_supported_partition_type (ac_type col)" "ac_len col = b_rows b"
  using conforms_find [of fs "b_columns b" c] assms
  by (fastforce simp: conforms_def partitions_supported_def column_by_name_def)

lemma validate_partition_types_ok:
  assumes "conforms fs b" "partitions_supported fs by"
  shows "validate_partition_types b by path = Inr ()"
proof -
  have "validate_partition_types b cs path = Inr ()" if "set cs \<subseteq> set by" for cs
    using that
  proof (induction cs)
    case (Cons c cs)
    obtain col where "column_by_name b c = Some col" "is_supported_partition_type (ac_type col)"
      using column_found [OF assms, of c] Cons.prems by auto
    then show ?case using Cons by simp
  qed simp
  then show ?thesis by simp
qed

lemma scalar_to_json_value_ok:
  assumes "column_typed col" "is_supported_partition_type (ac_type col)" "row < ac_len col" "ac_valid col ! row"
  shows "\<exists>v. scalar_to_json_value col row = Inr v"
  using assms by (cases col) (auto simp: is_supported_partition_type_def ac_len_def int_types_def)

lemma partition_key_for_row_ok:
  assumes "conforms fs b" "partitions_supported fs by" "row < b_rows b"
  shows "\<exists>key. partition_key_for_row X b by row = Inr key"
proof -
  have "\<exists>parts. partition_key_parts b cs row = Inr parts" if "set cs \<subseteq> set by" for cs
    using that
  proof (induction cs)
    case (Cons c cs)
    obtain col where "column_by_name b c = Some col" "column_typed col" "is_supported_partition_type (ac_type col)" "ac_len col = b_rows b"
      using column_found [OF assms(1,2), of c] Cons.prems by auto
    then show ?case using Cons scalar_to_json_value_ok [of col row] assms(3) by auto
  qed simp
  then show ?thesis by (fastforce simp: partition_key_for_row_def)
qed

lemma partition_groups_ok:
  assumes "conforms fs b" "partitions_supported fs by" "\<forall>row \<in> set rows. row < b_rows b"
  shows "\<exists>groups'. partition_groups X b by rows groups = Inr groups'"
  using assms(3)
proof (induction rows arbitrary: groups)
  case (Cons row rows)
  obtain key where "partition_key_for_row X b by row = Inr key"
    using partition_key_for_row_ok [OF assms(1,2), of row X] Cons.prems by auto
  then show ?case using Cons by simp
qed simp

text \<open>A copied row has the key of the row it copies.\<close>

lemma scalar_to_json_value_take: "i < length rows \<Longrightarrow> rows ! i < ac_len c \<Longrightarrow>
    scalar_to_json_value (take_cells rows c) i = scalar_to_json_value c (rows ! i)"
  by (cases c) (simp_all add: ac_len_def)

lemma partition_key_take:
  assumes "conforms fs b" "i < length rows" "\<forall>r \<in> set rows. r < b_rows b"
  shows "partition_key_for_row X (take_rows rows b) by i = partition_key_for_row X b by (rows ! i)"
proof -
  have "partition_key_parts (take_rows rows b) by i = partition_key_parts b by (rows ! i)"
  proof (induction "by")
    case (Cons c cs)
    have find: "column_by_name (take_rows rows b) c = map_option (take_cells rows) (column_by_name b c)"
      by (simp add: column_by_name_def take_rows_def map_of_map)
    have len: "ac_len col = b_rows b" if "column_by_name b c = Some col" for col
      using assms(1) that by (auto simp: column_by_name_def conforms_def dest: map_of_SomeD)
    show ?case
      using Cons find len assms(2,3)
      by (auto simp: ac_valid_take scalar_to_json_value_take split: option.splits)
  qed simp
  then show ?thesis by (simp add: partition_key_for_row_def)
qed

section \<open>The plan of a buffer\<close>

abbreviation partition_columns :: "batch writer \<Rightarrow> string list" where
  "partition_columns w \<equiv> (case sc_partition_by (w_schema w) of None \<Rightarrow> [] | Some cs \<Rightarrow> cs)"

definition buffer_ok :: "arrow_ops \<Rightarrow> batch writer \<Rightarrow> bool" where
  "buffer_ok A w \<longleftrightarrow>
     (\<forall>b \<in> set (w_buffer w). conforms (w_arrow_schema w) b \<and> 0 < b_rows b) \<and>
     w_buffered_rows w = sum_list (map b_rows (w_buffer w)) \<and>
     w_buffered_bytes w = sum_list (map (ao_memory A) (w_buffer w))"

definition one_partition :: "ext \<Rightarrow> string list \<Rightarrow> batch \<Rightarrow> bool" where
  "one_partition X by b \<longleftrightarrow> (\<exists>key. \<forall>i < b_rows b. partition_key_for_row X b by i = Inr key)"

text \<open>The row numbers of the combined batch, cut into the planned row groups.\<close>

definition planned_cuts :: "ext \<Rightarrow> batch writer \<Rightarrow> batch \<Rightarrow> nat list list \<Rightarrow> bool" where
  "planned_cuts X w c cuts \<longleftrightarrow>
     bounded_cuts (target_rows (w_schema w)) cuts \<and> mset (concat cuts) = mset [0..<b_rows c] \<and>
     (partition_columns w = [] \<longrightarrow> concat cuts = [0..<b_rows c]) \<and>
     (\<forall>cut \<in> set cuts. \<exists>key. \<forall>r \<in> set cut. partition_key_for_row X c (partition_columns w) r = Inr key)"

lemma mset_concat_map: "mset xs = mset ys \<Longrightarrow> mset (concat (map f xs)) = mset (concat (map f ys))"
  by (metis mset_concat mset_map sum_mset_sum_list)

lemma plan_partitioned:
  assumes "arrow_ops_law A fs" "conforms fs c" "fs \<noteq> []" "partitions_supported fs by"
    "by = partition_columns w" "by \<noteq> []" "\<forall>g. mset (ho g) = mset g"
    "partition_groups X c by [0..<b_rows c] [] = Inr groups"
  shows "\<exists>cuts. plan_groups A uuid (w_schema w) c (ho groups) n = Inr (copies c uuid n cuts, n + length cuts) \<and> planned_cuts X w c cuts"
proof -
  have g: "\<forall>(key, rs) \<in> set groups. \<forall>r \<in> set rs. partition_key_for_row X c by r = Inr key"
    "mset (concat (map snd groups)) = mset [0..<b_rows c]"
    using partition_groups_rows [OF assms(8)] by auto
  have "mset (ho groups) = mset groups" using assms(7) by blast
  then have ho: "set (ho groups) = set groups" "mset (concat (map snd (ho groups))) = mset (concat (map snd groups))"
    by (rule mset_eq_setD, rule mset_concat_map)
  have "\<forall>i \<in> set (concat (map snd groups)). i < b_rows c" using mset_eq_setD [OF g(2)] by simp
  then have "\<forall>(key, rows) \<in> set (ho groups). \<forall>i \<in> set rows. i < b_rows c" unfolding ho(1) by fastforce
  from plan_groups_copies [OF assms(1-3) this, of uuid "w_schema w" n]
  obtain cuts where c: "plan_groups A uuid (w_schema w) c (ho groups) n = Inr (copies c uuid n cuts, n + length cuts)"
    "concat cuts = concat (map snd (ho groups))" "bounded_cuts (target_rows (w_schema w)) cuts"
    "\<forall>cut \<in> set cuts. \<exists>(key, rows) \<in> set (ho groups). set cut \<subseteq> set rows" by blast
  have "\<exists>key. \<forall>r \<in> set cut. partition_key_for_row X c by r = Inr key" if "cut \<in> set cuts" for cut
    using bspec [OF c(4) that] g(1) ho(1) by fastforce
  then have "planned_cuts X w c cuts" using c g(2) ho(2) assms(5,6) by (simp add: planned_cuts_def)
  then show ?thesis using c(1) by blast
qed

lemma plan_row_groups_copies:
  assumes "arrow_ops_law A (w_arrow_schema w)" "w_arrow_schema w \<noteq> []" "buffer_ok A w"
    "partitions_supported (w_arrow_schema w) (partition_columns w)" "\<forall>g. mset (ho g) = mset g"
  shows "\<exists>c cuts. conforms (w_arrow_schema w) c \<and> batch_rows c = concat (map batch_rows (w_buffer w))
    \<and> plan_row_groups X A ho uuid w n = Inr (copies c uuid n cuts, n + length cuts) \<and> planned_cuts X w c cuts"
proof -
  have buf: "\<forall>b \<in> set (w_buffer w). conforms (w_arrow_schema w) b" using assms(3) by (simp add: buffer_ok_def)
  then obtain c where c: "ao_concat A (w_buffer w) = Some c" "conforms (w_arrow_schema w) c" "batch_rows c = concat (map batch_rows (w_buffer w))"
    using assms(1) unfolding arrow_ops_law_def by blast
  have empty: "b_rows c = 0" if "w_buffer w = []" using c(3) that by (simp add: batch_rows_def)
  have nil: "\<exists>cuts. Inr ([], n) = Inr (copies c uuid n cuts, n + length cuts) \<and> planned_cuts X w c cuts" if "b_rows c = 0"
    using that by (intro exI [of _ "[]"]) (simp add: planned_cuts_def bounded_cuts_def)
  show ?thesis
  proof (cases "partition_columns w = []")
    case True
    then have plan: "plan_row_groups X A ho uuid w n = slice_concatenated_batches A uuid (w_schema w) (w_buffer w) n"
      by (auto simp: plan_row_groups_def split: option.splits list.splits)
    have "planned_cuts X w c cuts" if "concat cuts = [0..<b_rows c]" "bounded_cuts (target_rows (w_schema w)) cuts" for cuts
      using that True by (simp add: planned_cuts_def partition_key_for_row_def)
    then have "\<exists>cuts. slice_batch_into_row_groups A uuid (w_schema w) c n = Inr (copies c uuid n cuts, n + length cuts) \<and> planned_cuts X w c cuts"
      using slice_into_copies [OF assms(1) c(2) assms(2)] by metis
    then show ?thesis using c empty nil plan by (auto simp: slice_concatenated_batches_def)
  next
    case False
    then have plan: "plan_row_groups X A ho uuid w n = plan_partitioned_row_groups X A ho uuid w (partition_columns w) n"
      by (auto simp: plan_row_groups_def split: option.splits list.splits)
    obtain groups where g: "partition_groups X c (partition_columns w) [0..<b_rows c] [] = Inr groups"
      using partition_groups_ok [OF c(2) assms(4)] by fastforce
    from plan_partitioned [OF assms(1) c(2) assms(2,4) refl False assms(5) this]
    show ?thesis using c empty nil plan g validate_partition_types_ok [OF c(2) assms(4)]
      by (cases "b_rows c = 0") (auto simp: plan_partitioned_row_groups_def)
  qed
qed

end
