(* ===== verification/Insert_Commit.thy ===== *)
theory Insert_Commit
  imports Insert_Plan Scan_Prune Publish Index_Store Commit_Delta
begin

text \<open>
  Committing buffered rows: \<^verbatim>\<open>try_commit\<close>, \<^verbatim>\<open>commit\<close>, \<^verbatim>\<open>replace\<close> and what they call in
  \<^verbatim>\<open>crates/icefalldb-core/src/writer.rs\<close>, for tables that are not encrypted. Every planned row group is written to the staging area
  as data, metadata and aggregate partials, verified there, renamed to its final name, and named by a new manifest that is published last.

  What a failed commit has to undo is collected while it runs; \<open>on_storage\<close> runs a program on a state that carries this
  record along. Code of other crates is the parameter \<open>I\<close>: the \<^verbatim>\<open>parquet\<close> writer, the serialized form of partials, the
  \<^verbatim>\<open>arrow\<close> kernels, the random identifiers and the order of a hash map.
\<close>

section \<open>Undoing a commit\<close>

record rollback_info =
  rb_intent_path :: string
  rb_staged_files :: "string list"
  rb_sequence :: u64
  rb_pointer_updated :: bool

definition rollback_default :: rollback_info where
  "rollback_default = \<lparr>rb_intent_path = [], rb_staged_files = [], rb_sequence = 0, rb_pointer_updated = False\<rparr>"

definition on_storage :: "('s, 'a) io \<Rightarrow> ('s \<times> rollback_info, 'a) io" where
  "on_storage m x = (case m (fst x) of (r, s') \<Rightarrow> (r, (s', snd x)))"

definition note_rollback :: "(rollback_info \<Rightarrow> rollback_info) \<Rightarrow> ('s \<times> rollback_info, unit) io" where
  "note_rollback f x = (Inr (), (fst x, f (snd x)))"

definition rollback_commit :: "'s storage \<Rightarrow> string \<Rightarrow> rollback_info \<Rightarrow> ('s, unit) io" where
  "rollback_commit S table rb =
     (let drop_intent = (if rb_intent_path rb = [] then io_return ()
                         else io_then (io_try (st_delete S (rb_intent_path rb))) (io_return ()))
      in if rb_pointer_updated rb then drop_intent
         else io_then (io_foldM (\<lambda>_ f. io_then (io_try (st_delete S (tpath table f))) (io_return ())) () (rb_staged_files rb))
              (io_then (if rb_sequence rb > 0
                        then io_then (io_try (st_delete S (tpath table (manifest_filename (rb_sequence rb))))) (io_return ())
                        else io_return ())
               drop_intent))"

section \<open>Staging a row group\<close>

record insert_env =
  ie_kernels :: arrow_kernels
  ie_footer :: "bytes \<Rightarrow> parquet_metadata option"
  ie_parquet :: "dfield list \<Rightarrow> batch \<Rightarrow> bytes option"
  ie_agg_print :: "fragment_agg_state \<Rightarrow> bytes"
  ie_agg_parse :: "bytes \<Rightarrow> fragment_agg_state option"
  ie_reader :: parquet_reader
  ie_ops :: arrow_ops
  ie_order :: group_order
  ie_uuid :: "nat \<Rightarrow> string"

definition part_path :: "string \<Rightarrow> string \<Rightarrow> string \<Rightarrow> string" where
  "part_path table rg_id suffix = tpath table (''_staging/incoming/'' @ rg_id @ suffix @ ''.part'')"

definition write_row_group_part ::
  "ext \<Rightarrow> insert_env \<Rightarrow> 's storage \<Rightarrow> batch writer \<Rightarrow> planned_write \<Rightarrow> string \<Rightarrow> row_id_segment list \<Rightarrow> u64 \<Rightarrow> ('s, unit) io" where
  "write_row_group_part X I S w p rg_id row_ids fragment_id =
     (let table = w_table w; schema = w_schema w
      in io_bind (io_lift (ok_or (ie_parquet I (w_arrow_schema w) (pw_batch p)) (Other ''parquet''))) (\<lambda>parquet_bytes.
         io_then (st_write S (part_path table rg_id ''.parquet'') parquet_bytes)
         (io_bind (io_lift (compute_row_group_meta X (ie_kernels I) (ie_footer I) rg_id (sc_schema_id schema) (pw_batch p) schema
                     parquet_bytes table row_ids)) (\<lambda>meta.
          io_then (st_write S (part_path table rg_id ''.meta'') (json_to_string X (row_group_meta_value meta)))
          (let key_col = (case sc_agg_group_keys schema of Some (k # _) \<Rightarrow> Some k | _ \<Rightarrow> None);
               agg_state = compute_agg_state_with_key X fragment_id (rm_checksum meta) (pw_batch p) key_col
           in st_write S (part_path table rg_id ''.agg'') (ie_agg_print I agg_state))))))"

definition verify_row_group_checksum :: "ext \<Rightarrow> 's storage \<Rightarrow> string \<Rightarrow> string \<Rightarrow> ('s, bool) io" where
  "verify_row_group_checksum X S parquet_path meta_path =
     io_bind (st_read S parquet_path) (\<lambda>parquet_bytes.
     io_bind (st_read S meta_path) (\<lambda>meta_bytes.
     io_bind (io_lift (ok_or (parse_row_group_meta X meta_bytes) Serialization)) (\<lambda>meta.
       io_return (verify_against_data X parquet_bytes meta \<and> verify_meta_checksum X meta))))"

text \<open>The staged files of a row group, written again once if they do not verify.\<close>

definition verify_staged ::
  "ext \<Rightarrow> 's storage \<Rightarrow> string \<Rightarrow> string \<Rightarrow> ('s, unit) io \<Rightarrow> ('s, unit) io" where
  "verify_staged X S parquet_part meta_part write =
     io_bind (verify_row_group_checksum X S parquet_part meta_part) (\<lambda>ok.
       if ok then io_return ()
       else io_then write
         (io_bind (verify_row_group_checksum X S parquet_part meta_part) (\<lambda>ok.
            if ok then io_return () else io_throw (ChecksumMismatch parquet_part))))"

definition promote_row_group ::
  "'s storage \<Rightarrow> string \<Rightarrow> string \<Rightarrow> string \<Rightarrow> string \<Rightarrow> ('s \<times> rollback_info, string \<times> string \<times> string option) io" where
  "promote_row_group S table rg_id data_filename meta_filename =
     (let agg_part = part_path table rg_id ''.agg''
      in io_then (on_storage (st_rename S (part_path table rg_id ''.parquet'') (tpath table data_filename)))
         (io_then (on_storage (st_rename S (part_path table rg_id ''.meta'') (tpath table meta_filename)))
         (io_then (note_rollback (\<lambda>rb. rb\<lparr>rb_staged_files := rb_staged_files rb @ [data_filename, meta_filename]\<rparr>))
         (io_bind (on_storage (st_exists S agg_part)) (\<lambda>agg_there.
            if agg_there then
              let agg_filename = rg_id @ ''.agg''
              in io_then (on_storage (st_rename S agg_part (tpath table agg_filename)))
                 (io_then (note_rollback (\<lambda>rb. rb\<lparr>rb_staged_files := rb_staged_files rb @ [agg_filename]\<rparr>))
                  (io_return (data_filename, meta_filename, Some agg_filename)))
            else io_return (data_filename, meta_filename, None))))))"

text \<open>
  A staged row group is verified and renamed; when its final name is taken it is written again under another identifier,
  at most \<open>left\<close> times. The counter \<open>n\<close> is the next random identifier to draw.
\<close>

fun rename_row_group_with_collision_retry ::
  "ext \<Rightarrow> insert_env \<Rightarrow> 's storage \<Rightarrow> batch writer \<Rightarrow> planned_write \<Rightarrow> row_id_segment list \<Rightarrow> u64 \<Rightarrow>
   nat \<Rightarrow> nat \<Rightarrow> string \<Rightarrow> string \<Rightarrow> string \<Rightarrow> nat \<Rightarrow> ('s \<times> rollback_info, (string \<times> string \<times> string option) \<times> nat) io" where
  "rename_row_group_with_collision_retry X I S w p row_ids frag 0 attempt rg_id data_filename meta_filename n =
     io_throw (Other ''failed to find a unique row group id after retries'')"
| "rename_row_group_with_collision_retry X I S w p row_ids frag (Suc left) attempt rg_id data_filename meta_filename n =
     (let table = w_table w;
          parquet_part = part_path table rg_id ''.parquet''; meta_part = part_path table rg_id ''.meta'';
          write = write_row_group_part X I S w p rg_id row_ids frag
      in io_then (if attempt > 0 then on_storage write else io_return ())
         (io_then (on_storage (verify_staged X S parquet_part meta_part write))
         (io_bind (on_storage (st_exists S (tpath table data_filename))) (\<lambda>data_there.
          io_bind (if data_there then io_return True else on_storage (st_exists S (tpath table meta_filename))) (\<lambda>there.
            if there then
              if attempt = 2 then io_throw (Other ''failed to find a unique row group id after retries'')
              else
                io_then (on_storage (io_try (st_delete S parquet_part)))
                (io_then (on_storage (io_try (st_delete S meta_part)))
                (io_then (on_storage (io_try (st_delete S (part_path table rg_id ''.agg''))))
                (let rg_id' = unique_rg_id (ie_uuid I) n
                 in rename_row_group_with_collision_retry X I S w p row_ids frag left (attempt + 1)
                      rg_id' (rg_id' @ ''.parquet'') (rg_id' @ ''.meta'') (n + 1))))
            else
              io_bind (promote_row_group S table rg_id data_filename meta_filename) (\<lambda>names. io_return (names, n)))))))"

section \<open>The new manifest\<close>

text \<open>One block of row ids and one fragment id for each planned row group.\<close>

fun allocate_planned :: "u64 \<Rightarrow> u64 \<Rightarrow> planned_write list \<Rightarrow> (planned_write \<times> row_id_segment \<times> u64) list \<times> u64 \<times> u64" where
  "allocate_planned next_row_id next_fragment_id [] = ([], next_row_id, next_fragment_id)"
| "allocate_planned next_row_id next_fragment_id (p # ps) =
     (let (seg, next_row_id') = allocate_range next_row_id (of_nat (b_rows (pw_batch p)));
          (rest, counters) = allocate_planned next_row_id' (next_fragment_id + 1) ps
      in ((p, seg, next_fragment_id) # rest, counters))"

definition read_meta_rows :: "ext \<Rightarrow> 's storage \<Rightarrow> string \<Rightarrow> ('s, u64 option) io" where
  "read_meta_rows X S path =
     io_bind (io_try (st_read S path)) (\<lambda>r. io_return (case r of
         Inl _ \<Rightarrow> None
       | Inr bs \<Rightarrow> (case parse_row_group_meta X bs of
                      None \<Rightarrow> None
                    | Some m \<Rightarrow> if verify_meta_checksum X m then Some (rm_rows m) else None)))"

fun read_each_meta_rows :: "ext \<Rightarrow> 's storage \<Rightarrow> string \<Rightarrow> row_group_entry list \<Rightarrow> u64 list \<Rightarrow> ('s, u64 list option) io" where
  "read_each_meta_rows X S table [] counts = io_return (Some counts)"
| "read_each_meta_rows X S table (e # es) counts =
     io_bind (read_meta_rows X S (tpath table (rg_meta e))) (\<lambda>r.
       case r of None \<Rightarrow> io_return None | Some rows \<Rightarrow> read_each_meta_rows X S table es (counts @ [rows]))"

definition collect_row_counts ::
  "ext \<Rightarrow> 's storage \<Rightarrow> string \<Rightarrow> row_group_entry list \<Rightarrow> manifest \<Rightarrow> u64 list \<Rightarrow> ('s, u64 list option) io" where
  "collect_row_counts X S table existing current added =
     (case mf_row_counts current of
        Some counts \<Rightarrow> io_return (if length counts = length existing then Some (counts @ added) else None)
      | None \<Rightarrow> io_bind (read_each_meta_rows X S table existing []) (\<lambda>r. io_return (map_option (\<lambda>counts. counts @ added) r)))"

fun add_partition_values ::
  "string list \<Rightarrow> string \<Rightarrow> (batch \<times> string) list \<Rightarrow> (string \<times> (string \<times> json) list) list \<Rightarrow>
   (string \<times> (string \<times> json) list) list result" where
  "add_partition_values by table [] values = Inr values"
| "add_partition_values by table ((b, data) # rest) values =
     res_bind (compute_partition_values b by table) (\<lambda>pv.
       add_partition_values by table rest (case pv of None \<Rightarrow> values | Some v \<Rightarrow> AList.update data v values))"

definition inserted_partition_values ::
  "table_schema \<Rightarrow> string \<Rightarrow> manifest \<Rightarrow> (batch \<times> string) list \<Rightarrow> (string \<times> (string \<times> json) list) list option result" where
  "inserted_partition_values schema table current added =
     map_sum id (\<lambda>values. if values = [] then None else Some values)
       (case sc_partition_by schema of
          Some (c # cs) \<Rightarrow>
            add_partition_values (c # cs) table added (case mf_partition_values current of None \<Rightarrow> [] | Some values \<Rightarrow> values)
        | _ \<Rightarrow> Inr [])"

definition new_entry :: "string \<times> string \<times> string option \<Rightarrow> u64 \<Rightarrow> row_group_entry" where
  "new_entry = (\<lambda>(data, meta, agg) frag_id.
     \<lparr>rg_data = data, rg_meta = meta, rg_fragment_id = frag_id, rg_deletes = None, rg_deleted_count = 0, rg_agg = agg\<rparr>)"

definition build_indexes_into_manifest ::
  "ext \<Rightarrow> 'bm roaring \<Rightarrow> parquet_reader \<Rightarrow> 's storage \<Rightarrow> commit_env \<Rightarrow> string \<Rightarrow> u64 \<Rightarrow> manifest \<Rightarrow> manifest \<Rightarrow> string list \<Rightarrow> string \<Rightarrow> bool \<Rightarrow>
   ('s, manifest \<times> string list) io" where
  "build_indexes_into_manifest X R PQ S E table schema_id manifest current data_meta_files ipath incremental_append =
     io_bind (if incremental_append
              then let prior = map rg_data (mf_row_groups current);
                       new_fragments = filter (\<lambda>e. rg_data e \<notin> set prior) (mf_row_groups manifest)
                   in maintain_on_insert X R PQ S (ce_local E) table manifest (mf_index_generations current) new_fragments
                        (mf_sequence manifest)
              else maintain X R PQ S (ce_local E) table manifest) (\<lambda>(manifest', index_paths).
       let files = data_meta_files @ index_paths
       in io_then (write_intent X S ipath (ce_txn_id E) (ce_now E 2) schema_id files) (io_return (manifest', files)))"

definition planned_row_group_for_entry ::
  "ext \<Rightarrow> insert_env \<Rightarrow> 's storage \<Rightarrow> string \<Rightarrow> row_group_entry \<Rightarrow> u64 \<Rightarrow> (string \<times> json) list option \<Rightarrow>
   ('s, fragment_agg_state planned_row_group) io" where
  "planned_row_group_for_entry X I S table entry snapshot partition_values =
     (let data_path = tpath table (rg_data entry); meta_path = tpath table (rg_meta entry)
      in io_bind (st_read S meta_path) (\<lambda>meta_bytes.
         io_bind (io_lift (ok_or (parse_row_group_meta X meta_bytes) Serialization)) (\<lambda>meta.
         if \<not> verify_meta_checksum X meta then io_throw (RowGroupChecksumMismatch meta_path)
         else
           io_bind (case rg_agg entry of
                      None \<Rightarrow> io_return None
                    | Some agg_rel \<Rightarrow>
                        io_bind (st_read S (tpath table agg_rel)) (\<lambda>bs.
                        io_bind (io_lift (ok_or (ie_agg_parse I bs) Serialization)) (\<lambda>st. io_return (Some st)))) (\<lambda>agg_state.
             io_return \<lparr>pr_data_path = data_path, pr_meta_path = meta_path, pr_meta = meta, pr_partition_values = partition_values,
               pr_snapshot = snapshot, pr_fallback = False, pr_deletes = map_option (tpath table) (rg_deletes entry),
               pr_deleted_count = rg_deleted_count entry, pr_fragment_id = rg_fragment_id entry, pr_agg_state = agg_state\<rparr>))))"

section \<open>The commit\<close>

text \<open>The schema the writer was opened with is still the current one.\<close>

definition verify_schema_pointer :: "ext \<Rightarrow> 's storage \<Rightarrow> string \<Rightarrow> u64 \<Rightarrow> ('s, unit) io" where
  "verify_schema_pointer X S table schema_id =
     (let path = tpath table ''_schema.json''
      in io_bind (st_read S path) (\<lambda>data.
         io_bind (io_lift (ok_or (json_parse X data) (InvalidSchemaPointer path))) (\<lambda>v.
         io_bind (io_lift (ok_or (pointer_latest v) (InvalidSchemaPointer path))) (\<lambda>pointer_id.
           if pointer_id \<noteq> schema_id then io_throw (SchemaMismatch ''schema_id'' (show_nat (unat schema_id)) path)
           else io_return ()))))"

definition planned_files :: "planned_write \<Rightarrow> string list" where
  "planned_files p = [pw_data_filename p, pw_meta_filename p, pw_rg_id p @ ''.agg'']"

definition renamed_files :: "string \<times> string \<times> string option \<Rightarrow> string list" where
  "renamed_files = (\<lambda>(data, meta, agg). data # meta # (case agg of None \<Rightarrow> [] | Some a \<Rightarrow> [a]))"

text \<open>Writing, verifying and renaming all planned row groups; the intent is rewritten when a name had to change.\<close>

definition stage_row_groups ::
  "ext \<Rightarrow> insert_env \<Rightarrow> 's storage \<Rightarrow> commit_env \<Rightarrow> batch writer \<Rightarrow> (planned_write \<times> row_id_segment \<times> u64) list \<Rightarrow> nat \<Rightarrow> string \<Rightarrow>
   ('s \<times> rollback_info, (string \<times> string \<times> string option) list) io" where
  "stage_row_groups X I S E w allocated n ipath =
     (let table = w_table w; planned_names = concat (map (planned_files \<circ> fst) allocated)
      in io_then (on_storage (io_foldM (\<lambda>_ (p, seg, frag). write_row_group_part X I S w p (pw_rg_id p) [seg] frag) () allocated))
         (io_then (on_storage (st_sync S (tpath table ''_staging/incoming'')))
         (io_bind (io_foldM (\<lambda>(names, n) (p, seg, frag).
             io_bind (rename_row_group_with_collision_retry X I S w p [seg] frag 3 0 (pw_rg_id p) (pw_data_filename p) (pw_meta_filename p) n)
               (\<lambda>(renamed, n'). io_return (names @ [renamed], n'))) ([], n) allocated) (\<lambda>(names, _).
          io_then (on_storage (st_sync S (tpath table [])))
          (io_then (if concat (map renamed_files names) \<noteq> planned_names
                    then on_storage (write_intent X S ipath (ce_txn_id E) (ce_now E 1) (sc_schema_id (w_schema w)) (concat (map renamed_files names)))
                    else io_return ())
           (io_return names))))))"

definition inserted_manifest ::
  "u64 \<Rightarrow> u64 \<Rightarrow> row_group_entry list \<Rightarrow> u64 list option \<Rightarrow> (string \<times> (string \<times> json) list) list option \<Rightarrow> u64 \<Rightarrow> u64 \<Rightarrow> manifest" where
  "inserted_manifest seq schema_id row_groups row_counts partition_values next_row_id next_fragment_id =
     \<lparr>mf_format_version = 1, mf_sequence = seq, mf_schema_id = schema_id, mf_row_groups = row_groups, mf_row_counts = row_counts,
      mf_partition_values = partition_values, mf_next_row_id = next_row_id, mf_next_fragment_id = next_fragment_id,
      mf_rowindex_generation = None, mf_index_generations = [], mf_checkpoint = None, mf_parent_hash = None,
      mf_committed_at = None, mf_checksum = []\<rparr>"

text \<open>Publishing the manifest of an insert: the row groups for the delta are read before the pointer moves.\<close>

definition publish_insert ::
  "ext \<Rightarrow> insert_env \<Rightarrow> 's storage \<Rightarrow> commit_env \<Rightarrow> string \<Rightarrow> u64 \<Rightarrow> manifest \<Rightarrow> manifest \<Rightarrow> u64 \<Rightarrow> string list \<Rightarrow> string list \<Rightarrow> string \<Rightarrow>
   ('s \<times> rollback_info, manifest \<times> fragment_agg_state planned_row_group list) io" where
  "publish_insert X I S E table schema_id current manifest seq ifiles new_data_files ipath =
     (io_bind (on_storage (build_snapshot_checkpoint X S (ce_cache E) table current manifest)) (\<lambda>cp.
         io_bind (\<lambda>x. on_storage (write_checkpoint X (ce_archiver E) S (ce_local E) (ce_now E 3) table cp seq ipath ifiles
                    (rb_staged_files (snd x)) (ce_txn_id E) schema_id) x) (\<lambda>(rel, _, staged).
         io_then (note_rollback (\<lambda>rb. rb\<lparr>rb_staged_files := staged\<rparr>))
         (io_bind (on_storage (finalize_manifest X S table (ce_now E 4) (manifest\<lparr>mf_checkpoint := Some rel\<rparr>) seq)) (\<lambda>m.
          io_then (on_storage (publish_manifest X S table m seq (io_return ())))
          (io_bind (on_storage (io_foldM (\<lambda>added e.
              io_bind (planned_row_group_for_entry X I S table e (mf_sequence m)
                  (Option.bind (mf_partition_values m) (\<lambda>pv. map_of pv (rg_data e)))) (\<lambda>prg. io_return (added @ [prg])))
              [] (filter (\<lambda>e. rg_data e \<in> set new_data_files) (mf_row_groups m)))) (\<lambda>added.
           let tmp = tpath table ''_manifest.json.tmp''
           in io_then (on_storage (st_write S tmp (json_to_string X (latest_pointer seq))))
              (io_then (on_storage (st_sync S tmp))
              (io_then (on_storage (st_rename S tmp (tpath table ''_manifest.json'')))
              (io_bind (on_storage (io_try (st_sync S (tpath table [])))) (\<lambda>r.
               io_then (note_rollback (\<lambda>rb. rb\<lparr>rb_pointer_updated := True\<rparr>))
                 (case r of Inl e \<Rightarrow> io_throw e | Inr _ \<Rightarrow> io_return (m, added)))))))))))))"

definition try_commit ::
  "ext \<Rightarrow> hash_order \<Rightarrow> 'bm roaring \<Rightarrow> insert_env \<Rightarrow> 's storage \<Rightarrow> commit_env \<Rightarrow> batch writer \<Rightarrow> bool \<Rightarrow>
   ('s \<times> rollback_info, manifest \<times> fragment_agg_state planned_row_group list) io" where
  "try_commit X H R I S E w is_replace =
     (let table = w_table w; schema_id = sc_schema_id (w_schema w); ipath = intent_path table (ce_txn_id E)
      in io_bind (on_storage (load_current_manifest X H S table)) (\<lambda>(latest_seq, current).
         io_then (on_storage (verify_schema_pointer X S table schema_id))
         (io_then (on_storage (cleanup_staging X S table latest_seq (manifest_referenced_files current)))
         (let next_seq = latest_seq + 1
          in io_bind (on_storage (st_exists S (tpath table (manifest_filename next_seq)))) (\<lambda>there.
             if there then io_throw (SequenceCollision next_seq)
             else
               io_bind (io_lift (plan_row_groups X (ie_ops I) (ie_order I) (ie_uuid I) w 0)) (\<lambda>(planned, n).
               io_then (note_rollback (\<lambda>rb. rb\<lparr>rb_sequence := next_seq\<rparr>))
               (io_then (on_storage (write_intent X S ipath (ce_txn_id E) (ce_now E 0) schema_id (concat (map planned_files planned))))
               (io_then (on_storage (st_sync S (intents_dir table)))
               (io_then (note_rollback (\<lambda>rb. rb\<lparr>rb_intent_path := ipath\<rparr>))
               (case allocate_planned (mf_next_row_id current) (mf_next_fragment_id current) planned of
                  (allocated, next_row_id, next_fragment_id) \<Rightarrow>
                io_bind (stage_row_groups X I S E w allocated n ipath) (\<lambda>names.
                let existing = (if is_replace then [] else mf_row_groups current);
                    row_groups = existing @ map2 (\<lambda>name (_, _, frag). new_entry name frag) names allocated
                in io_bind (io_lift (inserted_partition_values (w_schema w) table current
                       (map2 (\<lambda>p name. (pw_batch p, fst name)) planned names))) (\<lambda>partition_values.
                   io_bind (on_storage (collect_row_counts X S table existing current (map (of_nat \<circ> b_rows \<circ> pw_batch) planned))) (\<lambda>row_counts.
                   io_bind (on_storage (build_indexes_into_manifest X R (ie_reader I) S E table schema_id
                       (inserted_manifest next_seq schema_id row_groups row_counts partition_values next_row_id next_fragment_id)
                       current (concat (map renamed_files names)) ipath (\<not> is_replace))) (\<lambda>(manifest, ifiles).
                     publish_insert X I S E table schema_id current manifest next_seq ifiles (map fst names) ipath))))))))))))))"

text \<open>Both calls leave the writer with an empty buffer once the commit may be durable, and as it was otherwise.\<close>

definition cleared :: "batch writer \<Rightarrow> batch writer" where
  "cleared w = w\<lparr>w_buffer := [], w_buffered_rows := 0, w_buffered_bytes := 0\<rparr>"

definition run_commit ::
  "ext \<Rightarrow> hash_order \<Rightarrow> 'bm roaring \<Rightarrow> insert_env \<Rightarrow> 's storage \<Rightarrow> commit_env \<Rightarrow> batch writer \<Rightarrow> bool \<Rightarrow> commit_kind \<Rightarrow>
   ('s, fragment_agg_state planned_row_group commit_delta result \<times> batch writer) io" where
  "run_commit X H R I S E w is_replace kind s =
     (case load_current_manifest X H S (w_table w) s of
        (Inl e, s) \<Rightarrow> (Inr (Inl e, w), s)
      | (Inr (_, current), s) \<Rightarrow>
          (case try_commit X H R I S E w is_replace (s, rollback_default) of
             (Inl e, s, rb) \<Rightarrow>
               io_then (rollback_commit S (w_table w) rb)
                 (io_return (Inl e, if rb_pointer_updated rb then cleared w else w)) s
           | (Inr (m, added), s, rb) \<Rightarrow>
               io_then (io_try (st_delete S (rb_intent_path rb)))
               (io_then (io_try (st_sync S (intents_dir (w_table w))))
                 (io_return (Inr (with_added_row_groups added (commit_delta_new current m kind)), cleared w))) s))"

definition commit ::
  "ext \<Rightarrow> hash_order \<Rightarrow> 'bm roaring \<Rightarrow> insert_env \<Rightarrow> 's storage \<Rightarrow> commit_env \<Rightarrow> batch writer \<Rightarrow>
   ('s, fragment_agg_state planned_row_group commit_delta result \<times> batch writer) io" where
  "commit X H R I S E w =
     (if w_buffer w = [] then
        io_bind (io_try (load_current_manifest X H S (w_table w))) (\<lambda>r.
          io_return (map_sum id (\<lambda>(_, current). commit_delta_new current current Noop) r, w))
      else run_commit X H R I S E w False Append)"

definition replace ::
  "ext \<Rightarrow> hash_order \<Rightarrow> 'bm roaring \<Rightarrow> insert_env \<Rightarrow> 's storage \<Rightarrow> commit_env \<Rightarrow> batch writer \<Rightarrow>
   ('s, fragment_agg_state planned_row_group commit_delta result \<times> batch writer) io" where
  "replace X H R I S E w = run_commit X H R I S E w True Replace"

end
