(* ===== verification/Insert_Properties.thy ===== *)
theory Insert_Properties
  imports Insert_Plan Scan_Properties
begin

text \<open>
  What inserting promises: the row groups planned from a buffer are well typed, bounded and of one partition each, and
  hold exactly the rows that were inserted.
\<close>

section \<open>The buffer\<close>

lemma schema_equal_iff: "schema_equal_ignoring_metadata a b \<longleftrightarrow> a = b"
  by (auto simp: schema_equal_ignoring_metadata_def list_eq_iff_nth_eq list_all_length)

text \<open>Calls of \<^verbatim>\<open>insert_batch\<close> in order; one that fails leaves the writer as it was.\<close>

definition run_inserts :: "arrow_ops \<Rightarrow> (dfield list \<times> batch) list \<Rightarrow> batch writer \<Rightarrow> batch writer" where
  "run_inserts A bs w = foldl (\<lambda>w (fs, b). case insert_batch A fs b w of Inl e \<Rightarrow> w | Inr w' \<Rightarrow> w') w bs"

lemma insert_batch_keeps:
  assumes "insert_batch A fs b w = Inr w'"
  shows "w_arrow_schema w' = w_arrow_schema w" "w_schema w' = w_schema w" "w_table w' = w_table w"
  using assms by (auto simp: insert_batch_def split: if_splits)

lemma insert_batch_buffer_ok: "insert_batch A fs b w = Inr w' \<Longrightarrow> buffer_ok A w \<Longrightarrow> conforms fs b \<Longrightarrow> buffer_ok A w'"
  by (auto simp: insert_batch_def buffer_ok_def schema_equal_iff split: if_splits)

lemma insert_batch_rows:
  "insert_batch A fs b w = Inr w' \<Longrightarrow>
     fs = w_arrow_schema w \<and> concat (map batch_rows (w_buffer w')) = concat (map batch_rows (w_buffer w)) @ batch_rows b"
  by (auto simp: insert_batch_def schema_equal_iff batch_rows_def split: if_splits)

lemma insert_batch_refused: "insert_batch A fs b w = Inl e \<Longrightarrow> fs \<noteq> w_arrow_schema w"
  by (auto simp: insert_batch_def schema_equal_iff split: if_splits)

definition accepted :: "batch writer \<Rightarrow> (dfield list \<times> batch) list \<Rightarrow> batch list" where
  "accepted w bs = map snd (filter (\<lambda>(fs, b). fs = w_arrow_schema w) bs)"

lemma run_inserts_ok:
  assumes "\<forall>(fs, b) \<in> set bs. conforms fs b" "buffer_ok A w"
  shows "buffer_ok A (run_inserts A bs w) \<and> w_arrow_schema (run_inserts A bs w) = w_arrow_schema w
    \<and> w_schema (run_inserts A bs w) = w_schema w
    \<and> concat (map batch_rows (w_buffer (run_inserts A bs w))) = concat (map batch_rows (w_buffer w)) @ concat (map batch_rows (accepted w bs))"
  using assms
proof (induction bs arbitrary: w)
  case (Cons p bs)
  obtain fs b where p: "p = (fs, b)" by fastforce
  show ?case
  proof (cases "insert_batch A fs b w")
    case (Inl e)
    then show ?thesis using Cons.IH [of w] Cons.prems insert_batch_refused [OF Inl] by (simp add: run_inserts_def accepted_def p)
  next
    case (Inr w')
    then show ?thesis
      using Cons.IH [of w'] Cons.prems insert_batch_rows [OF Inr] insert_batch_keeps [OF Inr] insert_batch_buffer_ok [OF Inr]
      by (simp add: run_inserts_def accepted_def p)
  qed
qed (simp add: run_inserts_def accepted_def)

section \<open>The planned row groups\<close>

lemma planned_cuts_copy:
  assumes "conforms fs c" "planned_cuts X w c cuts" "rows \<in> set cuts"
  shows "conforms fs (take_rows rows c) \<and> 0 < length rows \<and> length rows \<le> target_rows (w_schema w)
    \<and> one_partition X (partition_columns w) (take_rows rows c)"
proof -
  have in_range: "\<forall>r \<in> set rows. r < b_rows c"
    using assms(2,3) mset_eq_setD [of "concat cuts" "[0..<b_rows c]"] by (auto simp: planned_cuts_def)
  obtain key where "\<forall>r \<in> set rows. partition_key_for_row X c (partition_columns w) r = Inr key"
    using assms(2,3) unfolding planned_cuts_def by blast
  then have "one_partition X (partition_columns w) (take_rows rows c)"
    using partition_key_take [OF assms(1) _ in_range] by (auto simp: one_partition_def take_rows_def)
  moreover have "rows \<noteq> [] \<and> length rows \<le> target_rows (w_schema w)"
    using assms(2,3) by (auto simp: planned_cuts_def bounded_cuts_def)
  ultimately show ?thesis using take_rows_conforms [OF assms(1) in_range] by simp
qed

lemma copies_rows: "concat (map (batch_rows \<circ> pw_batch) (copies b uuid n cuts)) = map (row_cells b) (concat cuts)"
  by (induction cuts arbitrary: n) (simp_all add: planned_write_of_def)

lemma copies_in: "p \<in> set (copies b uuid n cuts) \<Longrightarrow> \<exists>rows \<in> set cuts. pw_batch p = take_rows rows b"
  using copies_batches [of b uuid n cuts] by (metis image_iff list.set_map)

section \<open>A table of one integer column\<close>

definition int_cells :: "batch \<Rightarrow> int option list" where
  "int_cells b = (case b_columns b of [(n, IntColumn t vs)] \<Rightarrow> vs | _ \<Rightarrow> [])"

definition int_batch :: "int option list \<Rightarrow> batch" where
  "int_batch vs = \<lparr>b_rows = length vs, b_columns = [(''k'', IntColumn DInt64 vs)]\<rparr>"

definition int_ops :: arrow_ops where
  "int_ops = \<lparr>ao_concat = (\<lambda>bs. Some (int_batch (concat (map int_cells bs)))),
     ao_slice = (\<lambda>start len. take_cells [start..<start + len]), ao_take = (\<lambda>rows c. Some (take_cells rows c)),
     ao_memory = (\<lambda>b. 8 * b_rows b)\<rparr>"

definition int_fields :: "dfield list" where
  "int_fields = [Field ''k'' DInt64 True]"

definition int_writer :: "string list option \<Rightarrow> batch writer" where
  "int_writer by = \<lparr>w_table = ''t'',
     w_schema = \<lparr>sc_schema_id = 0, sc_columns = [new_column ''k'' ''int64'' True], sc_partition_by = by, sc_sort = None, sc_agg_group_keys = None,
       sc_row_group_target_rows = 2, sc_row_group_target_bytes = 1024, sc_dropped_columns = [], sc_max_field_id = 0\<rparr>,
     w_arrow_schema = int_fields, w_buffer = [], w_buffered_rows = 0, w_buffered_bytes = 0, w_wal_mode = False, w_wal_checkpoint_threshold = 64\<rparr>"

lemma conforms_int_batch: "conforms int_fields (int_batch vs) \<longleftrightarrow> (\<forall>i. Some i \<in> set vs \<longrightarrow> in_type DInt64 i)"
  by (auto simp: conforms_def int_fields_def int_batch_def ac_len_def int_types_def)

lemma conforms_int_fields: "conforms int_fields b \<Longrightarrow> b = int_batch (int_cells b)"
  by (cases b; cases "snd (hd (b_columns b))")
    (auto simp: conforms_def int_fields_def int_batch_def int_cells_def ac_len_def list_all2_Cons1 int_types_def)

lemma batch_rows_int: "batch_rows (int_batch vs) = map (\<lambda>v. [IntColumn DInt64 [v]]) vs"
proof -
  have "batch_rows (int_batch vs) = map (\<lambda>v. [IntColumn DInt64 [v]]) (map ((!) vs) [0..<length vs])"
    by (simp add: batch_rows_def row_cells_def int_batch_def)
  then show ?thesis by (simp only: map_nth)
qed

lemma int_ops_law: "arrow_ops_law int_ops int_fields"
proof -
  have "conforms int_fields (int_batch (concat (map int_cells bs))) \<and> batch_rows (int_batch (concat (map int_cells bs))) = concat (map batch_rows bs)"
    if "\<forall>b \<in> set bs. conforms int_fields b" for bs
    using that
  proof (induction bs)
    case (Cons b bs)
    have "conforms int_fields (int_batch (int_cells b))" "batch_rows b = batch_rows (int_batch (int_cells b))"
      using conforms_int_fields [of b] Cons.prems by simp_all
    then show ?case using Cons by (auto simp: conforms_int_batch batch_rows_int)
  qed (simp add: conforms_int_batch batch_rows_int)
  then show ?thesis by (auto simp: arrow_ops_law_def int_ops_def)
qed

lemma int_writer_simps [simp]:
  "w_arrow_schema (int_writer by) = int_fields" "w_buffer (int_writer by) = []" "sc_partition_by (w_schema (int_writer by)) = by"
  "buffer_ok A (int_writer by)" "target_rows (w_schema (int_writer by)) = 2"
  by (simp_all add: int_writer_def buffer_ok_def target_rows_def)

lemma int_partitions_supported: "set by \<subseteq> {''k''} \<Longrightarrow> partitions_supported int_fields by"
  by (auto simp: partitions_supported_def int_fields_def is_supported_partition_type_def int_types_def)

definition sample_inserts :: "(dfield list \<times> batch) list" where
  "sample_inserts = [(int_fields, int_batch [Some 1, Some 2, Some 1]),
     ([Field ''x'' DInt64 True], \<lparr>b_rows = 1, b_columns = [(''x'', IntColumn DInt64 [Some 7])]\<rparr>)]"

lemma sample_inserts_conform: "\<forall>(fs, b) \<in> set sample_inserts. conforms fs b"
  by (auto simp: sample_inserts_def conforms_def int_fields_def int_batch_def in_type_def ac_len_def int_types_def)

lemma sample_accepted: "accepted (int_writer by) sample_inserts = [int_batch [Some 1, Some 2, Some 1]]"
  by (simp add: accepted_def sample_inserts_def int_fields_def)

lemma sample_plan:
  "\<exists>ps n'. plan_row_groups plain_ext int_ops id (\<lambda>n. replicate n CHR ''u'') (run_inserts int_ops sample_inserts (int_writer (Some [''k'']))) 0
     = Inr (ps, n') \<and> ps \<noteq> []"
proof -
  have "case plan_row_groups plain_ext int_ops id (\<lambda>n. replicate n CHR ''u'') (run_inserts int_ops sample_inserts (int_writer (Some [''k'']))) 0 of
      Inl e \<Rightarrow> False | Inr (ps, n') \<Rightarrow> map (int_cells \<circ> pw_batch) ps = [[Some 1, Some 1], [Some 2]]"
    by code_simp
  then show ?thesis by (auto split: sum.splits)
qed

section \<open>Properties\<close>

text \<open>
  C14: The row groups planned from a buffer of batches that were checked on insertion all conform to the schema of the table
  (names, types, nullability and one length for all columns), have at least one row and no more than the target number of rows,
  and belong to one partition each.
\<close>

theorem plan_well_typed:
  assumes "arrow_ops_law A (w_arrow_schema w)" "w_arrow_schema w \<noteq> []"
    "partitions_supported (w_arrow_schema w) (partition_columns w)" "\<forall>g. mset (ho g) = mset g"
    "buffer_ok A w" "\<forall>(fs, b) \<in> set bs. conforms fs b"
    "plan_row_groups X A ho uuid (run_inserts A bs w) n = Inr (ps, n')" "p \<in> set ps"
  shows "conforms (w_arrow_schema w) (pw_batch p) \<and> 0 < b_rows (pw_batch p) \<and> b_rows (pw_batch p) \<le> target_rows (w_schema w)
    \<and> one_partition X (partition_columns w) (pw_batch p)"
proof -
  let ?w = "run_inserts A bs w"
  have w: "buffer_ok A ?w" "w_arrow_schema ?w = w_arrow_schema w" "w_schema ?w = w_schema w"
    using run_inserts_ok [OF assms(6,5)] by auto
  obtain c cuts where c: "conforms (w_arrow_schema w) c" "ps = copies c uuid n cuts" "planned_cuts X ?w c cuts"
    using plan_row_groups_copies [of A ?w ho X uuid n] assms(1-4,7) w by auto
  obtain rows where "rows \<in> set cuts" "pw_batch p = take_rows rows c" using copies_in c(2) assms(8) by blast
  then show ?thesis using planned_cuts_copy [OF c(1,3)] w(3) by (simp add: take_rows_def)
qed

theorem plan_well_typed_witness:
  "\<exists>ps n'. plan_row_groups plain_ext int_ops id (\<lambda>n. replicate n CHR ''u'') (run_inserts int_ops sample_inserts (int_writer (Some [''k'']))) 0 = Inr (ps, n')
     \<and> ps \<noteq> [] \<and> conforms int_fields (pw_batch (hd ps)) \<and> b_rows (pw_batch (hd ps)) \<le> 2
     \<and> one_partition plain_ext [''k''] (pw_batch (hd ps))"
proof -
  let ?w = "run_inserts int_ops sample_inserts (int_writer (Some [''k'']))"
  obtain ps n' where ps: "plan_row_groups plain_ext int_ops id (\<lambda>n. replicate n CHR ''u'') ?w 0 = Inr (ps, n')" "ps \<noteq> []"
    using sample_plan by blast
  show ?thesis
    using ps plan_well_typed [OF _ _ _ _ _ sample_inserts_conform ps(1), of "hd ps"] int_ops_law int_partitions_supported [of "[''k'']"]
    by (auto simp: int_fields_def)
qed

text \<open>
  C13: Planning always succeeds on what inserting accepted, and the planned row groups together hold every inserted row once:
  in the order of insertion where the table is not partitioned, as a multiset where it is. Their identifiers are those drawn, in order.
\<close>

theorem inserted_rows_planned:
  assumes "arrow_ops_law A (w_arrow_schema w)" "w_arrow_schema w \<noteq> []"
    "partitions_supported (w_arrow_schema w) (partition_columns w)" "\<forall>g. mset (ho g) = mset g"
    "w_buffer w = []" "buffer_ok A w" "\<forall>(fs, b) \<in> set bs. conforms fs b"
  shows "\<exists>ps n'. plan_row_groups X A ho uuid (run_inserts A bs w) n = Inr (ps, n')
    \<and> mset (concat (map (batch_rows \<circ> pw_batch) ps)) = mset (concat (map batch_rows (accepted w bs)))
    \<and> (partition_columns w = [] \<longrightarrow> concat (map (batch_rows \<circ> pw_batch) ps) = concat (map batch_rows (accepted w bs)))
    \<and> map pw_rg_id ps = map (unique_rg_id uuid) [n..<n']"
proof -
  let ?w = "run_inserts A bs w"
  have w: "buffer_ok A ?w" "w_arrow_schema ?w = w_arrow_schema w" "w_schema ?w = w_schema w"
    "concat (map batch_rows (w_buffer ?w)) = concat (map batch_rows (accepted w bs))"
    using run_inserts_ok [OF assms(7,6)] assms(5) by auto
  obtain c cuts where c: "batch_rows c = concat (map batch_rows (accepted w bs))"
      "plan_row_groups X A ho uuid ?w n = Inr (copies c uuid n cuts, n + length cuts)" "planned_cuts X ?w c cuts"
    using plan_row_groups_copies [of A ?w ho X uuid n] assms(1-4) w by auto
  have "mset (map (row_cells c) (concat cuts)) = mset (batch_rows c)"
    using c(3) by (simp only: planned_cuts_def batch_rows_def mset_map)
  moreover have "map (row_cells c) (concat cuts) = batch_rows c" if "partition_columns w = []"
    using c(3) that w(3) by (simp add: planned_cuts_def batch_rows_def)
  ultimately show ?thesis using c(2) by (simp add: copies_rows copies_ids flip: c(1))
qed

theorem inserted_rows_planned_witness:
  "\<exists>ps n'. plan_row_groups plain_ext int_ops id (\<lambda>n. replicate n CHR ''u'') (run_inserts int_ops sample_inserts (int_writer None)) 0 = Inr (ps, n')
     \<and> concat (map (batch_rows \<circ> pw_batch) ps) = batch_rows (int_batch [Some 1, Some 2, Some 1])"
  using inserted_rows_planned [OF _ _ _ _ _ _ sample_inserts_conform, of int_ops "int_writer None" id plain_ext "\<lambda>n. replicate n CHR ''u''" 0]
    int_ops_law int_partitions_supported [of "[]"] sample_accepted by (auto simp: int_fields_def)

end
