(* ===== verification/Insert_Run.thy ===== *)
theory Insert_Run
  imports Insert_Commit Insert_Properties Delete_Effect
begin

text \<open>
  What a commit of buffered rows does on a table at rest: every step succeeds, the planned row groups are in their final files,
  and the new snapshot names them besides the old ones.
\<close>

section \<open>Programs beside the rollback record\<close>

lemma on_storage_eq: "m (fst x) = (r, s') \<Longrightarrow> on_storage m x = (r, (s', snd x))"
  by (simp add: on_storage_def)

lemma note_rollback_run [simp]: "note_rollback f x = (Inr (), (fst x, f (snd x)))"
  by (simp add: note_rollback_def)

lemma on_storage_pair [simp]: "on_storage m (s, rb) = (case m s of (r, s') \<Rightarrow> (r, (s', rb)))"
  by (simp add: on_storage_def)

section \<open>The files of a planned row group\<close>

text \<open>What is staged for a planned row group with its row ids and fragment id.\<close>

type_synonym allocation = "planned_write \<times> row_id_segment \<times> u64"

definition data_bytes :: "insert_env \<Rightarrow> batch writer \<Rightarrow> allocation \<Rightarrow> bytes" where
  "data_bytes I w = (\<lambda>(p, seg, frag). the (ie_parquet I (w_arrow_schema w) (pw_batch p)))"

definition staged_meta_of :: "ext \<Rightarrow> insert_env \<Rightarrow> batch writer \<Rightarrow> allocation \<Rightarrow> row_group_meta" where
  "staged_meta_of X I w = (\<lambda>(p, seg, frag). projr (compute_row_group_meta X (ie_kernels I) (ie_footer I) (pw_rg_id p)
     (sc_schema_id (w_schema w)) (pw_batch p) (w_schema w) (data_bytes I w (p, seg, frag)) (w_table w) [seg]))"

definition agg_of :: "ext \<Rightarrow> insert_env \<Rightarrow> batch writer \<Rightarrow> allocation \<Rightarrow> fragment_agg_state" where
  "agg_of X I w = (\<lambda>(p, seg, frag). compute_agg_state_with_key X frag (rm_checksum (staged_meta_of X I w (p, seg, frag))) (pw_batch p)
     (case sc_agg_group_keys (w_schema w) of Some (k # _) \<Rightarrow> Some k | _ \<Rightarrow> None))"

text \<open>The aggregate state as it is read back from its file.\<close>

definition read_agg :: "ext \<Rightarrow> insert_env \<Rightarrow> batch writer \<Rightarrow> allocation \<Rightarrow> fragment_agg_state option" where
  "read_agg X I w a = ie_agg_parse I (ie_agg_print I (agg_of X I w a))"

text \<open>Encoding the batch and computing its metadata succeed.\<close>

definition encodable :: "ext \<Rightarrow> insert_env \<Rightarrow> batch writer \<Rightarrow> allocation \<Rightarrow> bool" where
  "encodable X I w = (\<lambda>(p, seg, frag). ie_parquet I (w_arrow_schema w) (pw_batch p) \<noteq> None
     \<and> (\<exists>m. compute_row_group_meta X (ie_kernels I) (ie_footer I) (pw_rg_id p) (sc_schema_id (w_schema w)) (pw_batch p) (w_schema w)
         (data_bytes I w (p, seg, frag)) (w_table w) [seg] = Inr m \<and> rgm_wf m))"

definition file_bytes :: "ext \<Rightarrow> insert_env \<Rightarrow> batch writer \<Rightarrow> allocation \<Rightarrow> (string \<times> bytes) list" where
  "file_bytes X I w a =
     [(''.parquet'', data_bytes I w a), (''.meta'', json_to_string X (row_group_meta_value (staged_meta_of X I w a))),
      (''.agg'', ie_agg_print I (agg_of X I w a))]"

definition rg_suffixes :: "string list" where
  "rg_suffixes = [''.parquet'', ''.meta'', ''.agg'']"

definition part_paths :: "string \<Rightarrow> string \<Rightarrow> string set" where
  "part_paths table rg = part_path table rg ` set rg_suffixes"

definition final_paths :: "string \<Rightarrow> string \<Rightarrow> string set" where
  "final_paths table rg = (\<lambda>sfx. tpath table (rg @ sfx)) ` set rg_suffixes"

definition plain_rg :: "string \<Rightarrow> bool" where
  "plain_rg rg \<longleftrightarrow> rg \<noteq> [] \<and> CHR ''/'' \<notin> set rg"

lemma validate_rg_paths:
  assumes "plain_piece table" "plain_rg rg" "sfx \<in> set rg_suffixes"
  shows "validate_path (part_path table rg sfx) = Inr (part_path table rg sfx)"
    "validate_path (tpath table (rg @ sfx)) = Inr (tpath table (rg @ sfx))"
proof -
  have "plain_piece (rg @ sfx @ ''.part'')" "plain_piece (rg @ sfx)"
    using assms(2,3) by (auto simp: plain_rg_def rg_suffixes_def plain_piece_def append_eq_Cons_conv)
  then show "validate_path (part_path table rg sfx) = Inr (part_path table rg sfx)"
    "validate_path (tpath table (rg @ sfx)) = Inr (tpath table (rg @ sfx))"
    using validate_tpath [OF assms(1), of "[''_staging'', ''incoming'', rg @ sfx @ ''.part'']"]
      validate_tpath [OF assms(1), of "[rg @ sfx]"]
    by (simp_all add: join_path_def part_path_def plain_piece_def)
qed

lemma zone_part [simp]: "zone table (part_path table rg sfx) = ''_staging''"
  by (simp add: part_path_def zone_tpath)

lemma part_path_inj: "part_path table rg sfx = part_path table rg' sfx' \<longleftrightarrow> rg @ sfx = rg' @ sfx'"
  by (simp add: part_path_def flip: append_assoc)

lemma rg_names_distinct:
  "rg @ ''.parquet'' \<noteq> rg @ ''.meta''" "rg @ ''.parquet'' \<noteq> rg @ ''.agg''" "rg @ ''.meta'' \<noteq> rg @ ''.agg''"
  by simp_all

text \<open>With plain identifiers of one shape, files of different row groups differ.\<close>

definition shaped_rg :: "string \<Rightarrow> bool" where
  "shaped_rg rg \<longleftrightarrow> plain_rg rg \<and> CHR ''.'' \<notin> set rg"

lemma shaped_stem:
  assumes "shaped_rg rg" "sfx \<in> set rg_suffixes"
  shows "takeWhile (\<lambda>c. c \<noteq> CHR ''.'') (rg @ sfx) = rg"
proof -
  have "takeWhile (\<lambda>c. c \<noteq> CHR ''.'') (rg @ sfx) = rg @ takeWhile (\<lambda>c. c \<noteq> CHR ''.'') sfx"
    using assms(1) by (intro takeWhile_append2) (auto simp: shaped_rg_def)
  then show ?thesis using assms(2) by (auto simp: rg_suffixes_def)
qed

lemma shaped_name_inj:
  assumes "shaped_rg rg" "shaped_rg rg'" "sfx \<in> set rg_suffixes" "sfx' \<in> set rg_suffixes" "rg @ sfx = rg' @ sfx'"
  shows "rg = rg' \<and> sfx = sfx'"
proof -
  have "takeWhile (\<lambda>c. c \<noteq> CHR ''.'') (rg @ sfx) = rg" "takeWhile (\<lambda>c. c \<noteq> CHR ''.'') (rg' @ sfx') = rg'"
    using assms(1-4) shaped_stem by blast+
  then show ?thesis using assms(5) by simp
qed

lemma staged_meta:
  assumes "encodable X I w (p, seg, frag)"
  shows "compute_row_group_meta X (ie_kernels I) (ie_footer I) (pw_rg_id p) (sc_schema_id (w_schema w)) (pw_batch p) (w_schema w)
      (data_bytes I w (p, seg, frag)) (w_table w) [seg] = Inr (staged_meta_of X I w (p, seg, frag))"
    "rgm_wf (staged_meta_of X I w (p, seg, frag))" "verify_against_data X (data_bytes I w (p, seg, frag)) (staged_meta_of X I w (p, seg, frag))"
    "verify_meta_checksum X (staged_meta_of X I w (p, seg, frag))"
proof -
  let ?m = "staged_meta_of X I w (p, seg, frag)"
  show c: "compute_row_group_meta X (ie_kernels I) (ie_footer I) (pw_rg_id p) (sc_schema_id (w_schema w)) (pw_batch p) (w_schema w)
      (data_bytes I w (p, seg, frag)) (w_table w) [seg] = Inr ?m" and "rgm_wf ?m"
    using assms by (auto simp: encodable_def staged_meta_of_def)
  obtain m0 where "snd (rgm_compute_checksum X (data_bytes I w (p, seg, frag)) m0) = ?m"
    using c by (auto simp: compute_row_group_meta_def res_bind_eq_Inr)
  then have "rgm_compute_checksum X (data_bytes I w (p, seg, frag)) m0
      = (fst (rgm_compute_checksum X (data_bytes I w (p, seg, frag)) m0), ?m)" by (metis prod.collapse)
  then show "verify_against_data X (data_bytes I w (p, seg, frag)) ?m" "verify_meta_checksum X ?m"
    using rgm_checksum_verifies by blast+
qed

context storage_contract
begin

lemma write_row_group_part_run:
  assumes t: "plain_piece (w_table w)" and rg: "plain_rg (pw_rg_id p)" and enc: "encodable X I w (p, seg, frag)"
  shows "\<exists>s'. write_row_group_part X I S w p (pw_rg_id p) [seg] frag s = (Inr (), s')
    \<and> (\<forall>(sfx, b) \<in> set (file_bytes X I w (p, seg, frag)). view s' (part_path (w_table w) (pw_rg_id p) sfx) = Some b)
    \<and> (\<forall>q. q \<notin> part_paths (w_table w) (pw_rg_id p) \<longrightarrow> view s' q = view s q)"
proof -
  let ?a = "(p, seg, frag)" and ?p = "part_path (w_table w) (pw_rg_id p)"
  have v: "validate_path (?p sfx) = Inr (?p sfx)" if "sfx \<in> set rg_suffixes" for sfx
    using validate_rg_paths(1) [OF t rg that] .
  have vs: "validate_path (?p ''.parquet'') = Inr (?p ''.parquet'')" "validate_path (?p ''.meta'') = Inr (?p ''.meta'')"
    "validate_path (?p ''.agg'') = Inr (?p ''.agg'')"
    by (rule v, simp add: rg_suffixes_def)+
  obtain s1 where s1: "st_write S (?p ''.parquet'') (data_bytes I w ?a) s = (Inr (), s1)"
    "view s1 = (view s)(?p ''.parquet'' \<mapsto> data_bytes I w ?a)" using write_law [OF vs(1)] by blast
  obtain s2 where s2: "st_write S (?p ''.meta'') (json_to_string X (row_group_meta_value (staged_meta_of X I w ?a))) s1 = (Inr (), s2)"
    "view s2 = (view s1)(?p ''.meta'' \<mapsto> json_to_string X (row_group_meta_value (staged_meta_of X I w ?a)))" using write_law [OF vs(2)] by blast
  obtain s3 where s3: "st_write S (?p ''.agg'') (ie_agg_print I (agg_of X I w ?a)) s2 = (Inr (), s3)"
    "view s3 = (view s2)(?p ''.agg'' \<mapsto> ie_agg_print I (agg_of X I w ?a))" using write_law [OF vs(3)] by blast
  have pq: "ie_parquet I (w_arrow_schema w) (pw_batch p) = Some (data_bytes I w ?a)"
    using enc by (auto simp: encodable_def data_bytes_def)
  have "write_row_group_part X I S w p (pw_rg_id p) [seg] frag s = (Inr (), s3)"
    using s1(1) s2(1) s3(1) staged_meta(1) [OF enc]
    by (simp add: write_row_group_part_def Let_def io_bind_run io_then_run pq ok_or_def agg_of_def)
  moreover have "\<forall>(sfx, b) \<in> set (file_bytes X I w ?a). view s3 (?p sfx) = Some b"
    using s1(2) s2(2) s3(2) by (simp add: file_bytes_def part_path_inj)
  moreover have "\<forall>q. q \<notin> part_paths (w_table w) (pw_rg_id p) \<longrightarrow> view s3 q = view s q"
    using s1(2) s2(2) s3(2) by (simp add: part_paths_def rg_suffixes_def)
  ultimately show ?thesis by blast
qed

lemma verify_staged_run:
  assumes t: "plain_piece (w_table w)" and rg: "plain_rg (pw_rg_id p)" and X: "json_law X" and enc: "encodable X I w (p, seg, frag)"
    and parts: "\<forall>(sfx, b) \<in> set (file_bytes X I w (p, seg, frag)). view s (part_path (w_table w) (pw_rg_id p) sfx) = Some b"
  shows "verify_staged X S (part_path (w_table w) (pw_rg_id p) ''.parquet'') (part_path (w_table w) (pw_rg_id p) ''.meta'') wr s = (Inr (), s)"
proof -
  have vs: "validate_path (part_path (w_table w) (pw_rg_id p) sfx) = Inr (part_path (w_table w) (pw_rg_id p) sfx)"
    if "sfx \<in> {''.parquet'', ''.meta''}" for sfx
    using that by (intro validate_rg_paths(1) [OF t rg]) (auto simp: rg_suffixes_def)
  note m = staged_meta [OF enc]
  have "parse_row_group_meta X (json_to_string X (row_group_meta_value (staged_meta_of X I w (p, seg, frag)))) = Some (staged_meta_of X I w (p, seg, frag))"
    by (simp add: parse_row_group_meta_def json_lawD [OF X] rgm_roundtrip [OF m(2)])
  then show ?thesis
    using parts m(3,4) by (simp add: verify_staged_def verify_row_group_checksum_def io_bind_run read_law [OF vs] ok_or_def file_bytes_def)
qed

end

lemma part_not_final:
  assumes "plain_rg rg'" "sfx' \<in> set rg_suffixes"
  shows "part_path table rg sfx \<noteq> tpath table (rg' @ sfx')"
proof
  assume "part_path table rg sfx = tpath table (rg' @ sfx')"
  then have "''_staging/incoming/'' @ rg @ sfx @ ''.part'' = rg' @ sfx'" by (simp add: part_path_def)
  then have "CHR ''/'' \<in> set (rg' @ sfx')" by (metis Un_iff list.set_intros set_append append_Cons)
  then show False using assms by (auto simp: plain_rg_def rg_suffixes_def)
qed

definition rg_names :: "string \<Rightarrow> string \<times> string \<times> string option" where
  "rg_names rg = (rg @ ''.parquet'', rg @ ''.meta'', Some (rg @ ''.agg''))"

definition promoted :: "string \<Rightarrow> string \<Rightarrow> (string \<times> bytes) list \<Rightarrow> (string \<Rightarrow> bytes option) \<Rightarrow> (string \<Rightarrow> bytes option) \<Rightarrow> bool" where
  "promoted table rg files v v' \<longleftrightarrow>
     (\<forall>(sfx, b) \<in> set files. v' (tpath table (rg @ sfx)) = Some b) \<and> (\<forall>q \<in> part_paths table rg. v' q = None)
     \<and> (\<forall>q. q \<notin> part_paths table rg \<union> final_paths table rg \<longrightarrow> v' q = v q)"

context storage_contract
begin

lemma promote_row_group_run:
  assumes t: "plain_piece table" and rg: "plain_rg rg" and parts: "\<forall>(sfx, b) \<in> set (file_bytes X I w a). view s (part_path table rg sfx) = Some b"
  shows "\<exists>s'. promote_row_group S table rg (rg @ ''.parquet'') (rg @ ''.meta'') (s, rb)
      = (Inr (rg_names rg), s', rb\<lparr>rb_staged_files := rb_staged_files rb @ [rg @ ''.parquet'', rg @ ''.meta'', rg @ ''.agg'']\<rparr>)
    \<and> promoted table rg (file_bytes X I w a) (view s) (view s')"
proof -
  let ?P = "part_path table rg" and ?F = "\<lambda>sfx. tpath table (rg @ sfx)"
  obtain pb mb ab where fb: "file_bytes X I w a = [(''.parquet'', pb), (''.meta'', mb), (''.agg'', ab)]"
    by (simp add: file_bytes_def)
  have vp: "validate_path (?P sfx) = Inr (?P sfx)" and vf: "validate_path (?F sfx) = Inr (?F sfx)" if "sfx \<in> set rg_suffixes" for sfx
    using validate_rg_paths [OF t rg that] by simp_all
  have ne: "?P sfx \<noteq> ?F sfx'" if "sfx' \<in> set rg_suffixes" for sfx sfx' using part_not_final [OF rg that] .
  have sx: "''.parquet'' \<in> set rg_suffixes" "''.meta'' \<in> set rg_suffixes" "''.agg'' \<in> set rg_suffixes" by (simp_all add: rg_suffixes_def)
  note ne = ne [OF sx(1)] ne [OF sx(2)] ne [OF sx(3)]
  obtain s1 where s1: "st_rename S (?P ''.parquet'') (?F ''.parquet'') s = (Inr (), s1)"
    "view s1 = (view s)(?P ''.parquet'' := None, ?F ''.parquet'' \<mapsto> pb)"
    using rename_law [OF vp [OF sx(1)] vf [OF sx(1)], of s pb] parts fb by auto
  have "view s1 (?P ''.meta'') = Some mb" using s1(2) parts fb ne by (simp add: part_path_inj)
  then obtain s2 where s2: "st_rename S (?P ''.meta'') (?F ''.meta'') s1 = (Inr (), s2)"
    "view s2 = (view s1)(?P ''.meta'' := None, ?F ''.meta'' \<mapsto> mb)"
    using rename_law [OF vp [OF sx(2)] vf [OF sx(2)]] by blast
  have "view s2 (?P ''.agg'') = Some ab" using s1(2) s2(2) parts fb ne by (simp add: part_path_inj)
  moreover from this obtain s3 where s3: "st_rename S (?P ''.agg'') (?F ''.agg'') s2 = (Inr (), s3)"
    "view s3 = (view s2)(?P ''.agg'' := None, ?F ''.agg'' \<mapsto> ab)"
    using rename_law [OF vp [OF sx(3)] vf [OF sx(3)]] by blast
  ultimately have "promote_row_group S table rg (rg @ ''.parquet'') (rg @ ''.meta'') (s, rb)
      = (Inr (rg_names rg), s3, rb\<lparr>rb_staged_files := rb_staged_files rb @ [rg @ ''.parquet'', rg @ ''.meta'', rg @ ''.agg'']\<rparr>)"
    using s1(1) s2(1) exists_law [OF vp [OF sx(3)], of s2]
    by (simp add: promote_row_group_def Let_def io_bind_run io_then_run rg_names_def)
  moreover have "promoted table rg (file_bytes X I w a) (view s) (view s3)"
    using s1(2) s2(2) s3(2) ne ne [symmetric] by (simp add: promoted_def fb part_paths_def final_paths_def rg_suffixes_def part_path_inj)
  ultimately show ?thesis by blast
qed

lemma rename_row_group_run:
  assumes t: "plain_piece (w_table w)" and rg: "plain_rg (pw_rg_id p)" and X: "json_law X" and enc: "encodable X I w (p, seg, frag)"
    and parts: "\<forall>(sfx, b) \<in> set (file_bytes X I w (p, seg, frag)). view s (part_path (w_table w) (pw_rg_id p) sfx) = Some b"
    and fresh: "\<forall>q \<in> final_paths (w_table w) (pw_rg_id p). view s q = None"
    and names: "pw_data_filename p = pw_rg_id p @ ''.parquet''" "pw_meta_filename p = pw_rg_id p @ ''.meta''"
  shows "\<exists>s'. rename_row_group_with_collision_retry X I S w p [seg] frag 3 0 (pw_rg_id p) (pw_data_filename p) (pw_meta_filename p) n (s, rb)
      = (Inr (rg_names (pw_rg_id p), n), s', rb\<lparr>rb_staged_files := rb_staged_files rb @ planned_files p\<rparr>)
    \<and> promoted (w_table w) (pw_rg_id p) (file_bytes X I w (p, seg, frag)) (view s) (view s')"
proof -
  let ?F = "\<lambda>sfx. tpath (w_table w) (pw_rg_id p @ sfx)"
  have vf: "validate_path (?F sfx) = Inr (?F sfx)" "view s (?F sfx) = None" if "sfx \<in> set rg_suffixes" for sfx
    using validate_rg_paths(2) [OF t rg that] fresh that by (auto simp: final_paths_def)
  have ex: "st_exists S (?F sfx) s = (Inr False, s)" if "sfx \<in> set rg_suffixes" for sfx
    using exists_law [OF vf(1) [OF that], of s] vf(2) [OF that] by simp
  obtain s' where s': "promote_row_group S (w_table w) (pw_rg_id p) (pw_rg_id p @ ''.parquet'') (pw_rg_id p @ ''.meta'') (s, rb)
      = (Inr (rg_names (pw_rg_id p)), s', rb\<lparr>rb_staged_files := rb_staged_files rb @ planned_files p\<rparr>)"
    "promoted (w_table w) (pw_rg_id p) (file_bytes X I w (p, seg, frag)) (view s) (view s')"
    using promote_row_group_run [OF t rg parts, of rb] names by (auto simp: planned_files_def)
  show ?thesis
    using s' verify_staged_run [OF t rg X enc parts] ex
    by (intro exI [of _ s']) (simp add: eval_nat_numeral names Let_def io_bind_run io_then_run rg_suffixes_def)
qed

end

section \<open>All planned row groups\<close>

abbreviation alloc_rg :: "allocation \<Rightarrow> string" where
  "alloc_rg a \<equiv> pw_rg_id (fst a)"

definition allocations_ok :: "ext \<Rightarrow> insert_env \<Rightarrow> batch writer \<Rightarrow> allocation list \<Rightarrow> bool" where
  "allocations_ok X I w as \<longleftrightarrow> distinct (map alloc_rg as) \<and> (\<forall>a \<in> set as. shaped_rg (alloc_rg a) \<and> encodable X I w a
     \<and> pw_data_filename (fst a) = alloc_rg a @ ''.parquet'' \<and> pw_meta_filename (fst a) = alloc_rg a @ ''.meta'')"

lemma allocations_ok_Cons: "allocations_ok X I w (a # as) \<Longrightarrow> allocations_ok X I w as"
  by (simp add: allocations_ok_def)

lemma allocations_ok_apart:
  assumes "allocations_ok X I w (a # as)" "b \<in> set as"
  shows "alloc_rg b \<noteq> alloc_rg a" "shaped_rg (alloc_rg b)"
proof -
  have "alloc_rg b \<in> alloc_rg ` set as" using assms(2) by (rule imageI)
  then show "alloc_rg b \<noteq> alloc_rg a" using assms(1) by (auto simp only: allocations_ok_def list.map distinct.simps set_map)
  show "shaped_rg (alloc_rg b)" using assms by (simp add: allocations_ok_def)
qed

lemma file_suffix: "(sfx, b) \<in> set (file_bytes X I w a) \<Longrightarrow> sfx \<in> set rg_suffixes"
  by (auto simp: file_bytes_def rg_suffixes_def)

lemma rg_paths_apart:
  assumes "shaped_rg rg" "shaped_rg rg'" "rg \<noteq> rg'"
  shows "part_paths table rg \<inter> part_paths table rg' = {}" "final_paths table rg \<inter> final_paths table rg' = {}"
  using shaped_name_inj [OF assms(1,2)] assms(3) by (fastforce simp: part_paths_def final_paths_def part_path_inj)+

lemma part_final_apart: "plain_rg rg' \<Longrightarrow> part_paths table rg \<inter> final_paths table rg' = {}"
  using part_not_final [of rg'] by (fastforce simp: part_paths_def final_paths_def)

context storage_contract
begin

lemma write_parts_run:
  assumes t: "plain_piece (w_table w)" and ok: "allocations_ok X I w as"
  shows "\<exists>s'. io_foldM (\<lambda>_ (p, seg, frag). write_row_group_part X I S w p (pw_rg_id p) [seg] frag) () as s = (Inr (), s')
    \<and> (\<forall>a \<in> set as. \<forall>(sfx, b) \<in> set (file_bytes X I w a). view s' (part_path (w_table w) (alloc_rg a) sfx) = Some b)
    \<and> (\<forall>q. (\<forall>a \<in> set as. q \<notin> part_paths (w_table w) (alloc_rg a)) \<longrightarrow> view s' q = view s q)"
  using ok
proof (induction as arbitrary: s)
  case (Cons a as)
  obtain p seg frag where a: "a = (p, seg, frag)" by (cases a) auto
  have new: "alloc_rg b \<noteq> pw_rg_id p" "shaped_rg (alloc_rg b)" if "b \<in> set as" for b
    using allocations_ok_apart [OF Cons.prems that] by (simp_all add: a)
  have rg: "shaped_rg (pw_rg_id p)" "encodable X I w (p, seg, frag)" using Cons.prems by (auto simp: allocations_ok_def a)
  then have "plain_rg (pw_rg_id p)" by (simp add: shaped_rg_def)
  from write_row_group_part_run [OF t this rg(2)] obtain s1 where s1: "write_row_group_part X I S w p (pw_rg_id p) [seg] frag s = (Inr (), s1)"
    "\<forall>(sfx, b) \<in> set (file_bytes X I w a). view s1 (part_path (w_table w) (pw_rg_id p) sfx) = Some b"
    "\<forall>q. q \<notin> part_paths (w_table w) (pw_rg_id p) \<longrightarrow> view s1 q = view s q" unfolding a by blast
  obtain s2 where s2: "io_foldM (\<lambda>_ (p, seg, frag). write_row_group_part X I S w p (pw_rg_id p) [seg] frag) () as s1 = (Inr (), s2)"
    "\<forall>a \<in> set as. \<forall>(sfx, b) \<in> set (file_bytes X I w a). view s2 (part_path (w_table w) (alloc_rg a) sfx) = Some b"
    "\<forall>q. (\<forall>a \<in> set as. q \<notin> part_paths (w_table w) (alloc_rg a)) \<longrightarrow> view s2 q = view s1 q"
    using Cons.IH [OF allocations_ok_Cons [OF Cons.prems]] by blast
  have "view s2 (part_path (w_table w) (pw_rg_id p) sfx) = Some b" if "(sfx, b) \<in> set (file_bytes X I w a)" for sfx b
  proof -
    have "part_path (w_table w) (pw_rg_id p) sfx \<in> part_paths (w_table w) (pw_rg_id p)" using file_suffix [OF that] by (simp add: part_paths_def)
    then have "\<forall>b \<in> set as. part_path (w_table w) (pw_rg_id p) sfx \<notin> part_paths (w_table w) (alloc_rg b)"
      using rg_paths_apart(1) [OF rg(1) new(2) new(1) [symmetric]] by (metis IntI empty_iff)
    then show ?thesis using s2(3) s1(2) that by auto
  qed
  then show ?case using s1(1,3) s2 by (intro exI [of _ s2]) (auto simp: a io_bind_run)
qed simp

end

context storage_contract
begin

lemma rename_parts_run:
  assumes t: "plain_piece (w_table w)" and X: "json_law X" and ok: "allocations_ok X I w as"
    and parts: "\<forall>a \<in> set as. \<forall>(sfx, b) \<in> set (file_bytes X I w a). view s (part_path (w_table w) (alloc_rg a) sfx) = Some b"
    and fresh: "\<forall>a \<in> set as. \<forall>q \<in> final_paths (w_table w) (alloc_rg a). view s q = None"
  shows "\<exists>s'. io_foldM (\<lambda>(names, n) (p, seg, frag).
      io_bind (rename_row_group_with_collision_retry X I S w p [seg] frag 3 0 (pw_rg_id p) (pw_data_filename p) (pw_meta_filename p) n)
        (\<lambda>(renamed, n'). io_return (names @ [renamed], n'))) (names, n) as (s, rb)
      = (Inr (names @ map (rg_names \<circ> alloc_rg) as, n), s', rb\<lparr>rb_staged_files := rb_staged_files rb @ concat (map (planned_files \<circ> fst) as)\<rparr>)
    \<and> (\<forall>a \<in> set as. \<forall>(sfx, b) \<in> set (file_bytes X I w a). view s' (tpath (w_table w) (alloc_rg a @ sfx)) = Some b)
    \<and> (\<forall>a \<in> set as. \<forall>q \<in> part_paths (w_table w) (alloc_rg a). view s' q = None)
    \<and> (\<forall>q. (\<forall>a \<in> set as. q \<notin> part_paths (w_table w) (alloc_rg a) \<union> final_paths (w_table w) (alloc_rg a)) \<longrightarrow> view s' q = view s q)"
proof -
  define step where "step = (\<lambda>(names, n) (p, seg, frag).
      io_bind (rename_row_group_with_collision_retry X I S w p [seg] frag 3 0 (pw_rg_id p) (pw_data_filename p) (pw_meta_filename p) n)
        (\<lambda>(renamed, n'). io_return (names @ [renamed], n')))"
  show ?thesis
    unfolding step_def [symmetric]
    using ok parts fresh
  proof (induction as arbitrary: s rb names)
    case (Cons a as)
    obtain p seg frag where a: "a = (p, seg, frag)" by (cases a) auto
    let ?t = "w_table w" and ?rb1 = "rb\<lparr>rb_staged_files := rb_staged_files rb @ planned_files p\<rparr>"
    have rg: "shaped_rg (pw_rg_id p)" "encodable X I w (p, seg, frag)" "pw_data_filename p = pw_rg_id p @ ''.parquet''" "pw_meta_filename p = pw_rg_id p @ ''.meta''"
      using Cons.prems(1) by (auto simp: allocations_ok_def a)
    then have plain: "plain_rg (pw_rg_id p)" by (simp add: shaped_rg_def)
    obtain s1 where s1: "rename_row_group_with_collision_retry X I S w p [seg] frag 3 0 (pw_rg_id p) (pw_data_filename p) (pw_meta_filename p) n (s, rb)
        = (Inr (rg_names (pw_rg_id p), n), s1, ?rb1)"
      "promoted ?t (pw_rg_id p) (file_bytes X I w a) (view s) (view s1)"
      using rename_row_group_run [OF t plain X rg(2) _ _ rg(3,4), of s n rb] Cons.prems(2,3) by (auto simp: a)
    have apart: "q \<notin> part_paths ?t (pw_rg_id p) \<union> final_paths ?t (pw_rg_id p)"
      if "b \<in> set as" "q \<in> part_paths ?t (alloc_rg b) \<union> final_paths ?t (alloc_rg b)" for b q
    proof -
      have b: "shaped_rg (alloc_rg b)" "alloc_rg b \<noteq> pw_rg_id p" using allocations_ok_apart [OF Cons.prems(1) that(1)] by (simp_all add: a)
      then show ?thesis
        using that(2) rg_paths_apart [OF b(1) rg(1) b(2), of ?t] part_final_apart [OF plain, of ?t "alloc_rg b"]
          part_final_apart [of "alloc_rg b" ?t "pw_rg_id p"]
        by (auto simp: shaped_rg_def)
    qed
    have same: "view s1 q = view s q" if "b \<in> set as" "q \<in> part_paths ?t (alloc_rg b) \<union> final_paths ?t (alloc_rg b)" for b q
      using s1(2) apart [OF that] by (simp add: promoted_def)
    have "\<forall>b \<in> set as. \<forall>(sfx, bs) \<in> set (file_bytes X I w b). view s1 (part_path ?t (alloc_rg b) sfx) = Some bs"
    proof (intro ballI, clarify)
      fix b sfx bs assume b: "b \<in> set as" and f: "(sfx, bs) \<in> set (file_bytes X I w b)"
      have "part_path ?t (alloc_rg b) sfx \<in> part_paths ?t (alloc_rg b)" using file_suffix [OF f] by (simp add: part_paths_def)
      then show "view s1 (part_path ?t (alloc_rg b) sfx) = Some bs" using same [OF b] Cons.prems(2) b f by auto
    qed
    moreover have "\<forall>b \<in> set as. \<forall>q \<in> final_paths ?t (alloc_rg b). view s1 q = None"
      using Cons.prems(3) same by auto
    ultimately obtain s2 where s2: "io_foldM step (names @ [rg_names (pw_rg_id p)], n) as (s1, ?rb1)
        = (Inr ((names @ [rg_names (pw_rg_id p)]) @ map (rg_names \<circ> alloc_rg) as, n), s2, ?rb1\<lparr>rb_staged_files := rb_staged_files ?rb1 @ concat (map (planned_files \<circ> fst) as)\<rparr>)"
      "\<forall>a \<in> set as. \<forall>(sfx, b) \<in> set (file_bytes X I w a). view s2 (tpath ?t (alloc_rg a @ sfx)) = Some b"
      "\<forall>a \<in> set as. \<forall>q \<in> part_paths ?t (alloc_rg a). view s2 q = None"
      "\<forall>q. (\<forall>a \<in> set as. q \<notin> part_paths ?t (alloc_rg a) \<union> final_paths ?t (alloc_rg a)) \<longrightarrow> view s2 q = view s1 q"
      using Cons.IH [OF allocations_ok_Cons [OF Cons.prems(1)], of s1 "names @ [rg_names (pw_rg_id p)]"] by blast
    have keep: "view s2 q = view s1 q" if "q \<in> part_paths ?t (pw_rg_id p) \<union> final_paths ?t (pw_rg_id p)" for q
      using s2(4) apart that by blast
    have "view s2 (tpath ?t (pw_rg_id p @ sfx)) = Some b" if f: "(sfx, b) \<in> set (file_bytes X I w a)" for sfx b
    proof -
      have "tpath ?t (pw_rg_id p @ sfx) \<in> final_paths ?t (pw_rg_id p)" using file_suffix [OF f] by (simp add: final_paths_def)
      then show ?thesis using keep s1(2) f by (auto simp: promoted_def)
    qed
    moreover have "\<forall>q \<in> part_paths ?t (pw_rg_id p). view s2 q = None" using s1(2) keep by (simp add: promoted_def)
    moreover have "view s2 q = view s q"
      if "\<forall>b \<in> set (a # as). q \<notin> part_paths ?t (alloc_rg b) \<union> final_paths ?t (alloc_rg b)" for q
      using that s2(4) s1(2) by (simp add: promoted_def a)
    moreover have "step (names, n) a (s, rb) = (Inr (names @ [rg_names (pw_rg_id p)], n), s1, ?rb1)"
      using s1(1) by (simp add: step_def a io_bind_run)
    ultimately show ?case using s2(1-3) by (intro exI [of _ s2]) (auto simp: a io_bind_run comp_def)
  qed simp
qed

end

text \<open>The files of all row groups in their final places, and nothing of them left in the staging area.\<close>

definition all_promoted ::
  "ext \<Rightarrow> insert_env \<Rightarrow> batch writer \<Rightarrow> allocation list \<Rightarrow> (string \<Rightarrow> bytes option) \<Rightarrow> bool" where
  "all_promoted X I w as v \<longleftrightarrow>
     (\<forall>a \<in> set as. \<forall>(sfx, b) \<in> set (file_bytes X I w a). v (tpath (w_table w) (alloc_rg a @ sfx)) = Some b)"

definition insert_files :: "string \<Rightarrow> allocation list \<Rightarrow> string set" where
  "insert_files table as = (\<Union>a \<in> set as. part_paths table (alloc_rg a) \<union> final_paths table (alloc_rg a))"

context storage_contract
begin

lemma stage_row_groups_run:
  assumes t: "plain_piece (w_table w)" and X: "json_law X" and ok: "allocations_ok X I w as"
    and fresh: "\<forall>a \<in> set as. \<forall>q \<in> final_paths (w_table w) (alloc_rg a). view s q = None"
  shows "\<exists>s'. stage_row_groups X I S E w as n ipath (s, rb)
      = (Inr (map (rg_names \<circ> alloc_rg) as), s', rb\<lparr>rb_staged_files := rb_staged_files rb @ concat (map (planned_files \<circ> fst) as)\<rparr>)
    \<and> all_promoted X I w as (view s')
    \<and> (\<forall>a \<in> set as. \<forall>q \<in> part_paths (w_table w) (alloc_rg a). view s' q = None)
    \<and> (\<forall>q. q \<notin> insert_files (w_table w) as \<longrightarrow> view s' q = view s q)"
proof -
  let ?t = "w_table w" and ?rb = "rb\<lparr>rb_staged_files := rb_staged_files rb @ concat (map (planned_files \<circ> fst) as)\<rparr>"
  obtain s1 where s1: "io_foldM (\<lambda>_ (p, seg, frag). write_row_group_part X I S w p (pw_rg_id p) [seg] frag) () as s = (Inr (), s1)"
    "\<forall>a \<in> set as. \<forall>(sfx, b) \<in> set (file_bytes X I w a). view s1 (part_path ?t (alloc_rg a) sfx) = Some b"
    "\<forall>q. (\<forall>a \<in> set as. q \<notin> part_paths ?t (alloc_rg a)) \<longrightarrow> view s1 q = view s q"
    using write_parts_run [OF t ok, of s] by blast
  have "view s1 q = None" if "a \<in> set as" "q \<in> final_paths ?t (alloc_rg a)" for a q
  proof -
    have "plain_rg (alloc_rg a)" using ok that(1) by (auto simp: allocations_ok_def shaped_rg_def)
    then have "\<forall>b \<in> set as. q \<notin> part_paths ?t (alloc_rg b)" using part_final_apart that(2) by blast
    then show ?thesis using s1(3) fresh that by simp
  qed
  then obtain s2 where s2: "io_foldM (\<lambda>(names, n) (p, seg, frag).
      io_bind (rename_row_group_with_collision_retry X I S w p [seg] frag 3 0 (pw_rg_id p) (pw_data_filename p) (pw_meta_filename p) n)
        (\<lambda>(renamed, n'). io_return (names @ [renamed], n'))) ([], n) as (s1, rb) = (Inr (map (rg_names \<circ> alloc_rg) as, n), s2, ?rb)"
    "all_promoted X I w as (view s2)" "\<forall>a \<in> set as. \<forall>q \<in> part_paths ?t (alloc_rg a). view s2 q = None"
    "\<forall>q. (\<forall>a \<in> set as. q \<notin> part_paths ?t (alloc_rg a) \<union> final_paths ?t (alloc_rg a)) \<longrightarrow> view s2 q = view s1 q"
    using rename_parts_run [OF t X ok s1(2), of "[]" n rb] unfolding all_promoted_def append_Nil by blast
  have names: "renamed_files (rg_names (alloc_rg a)) = planned_files (fst a)" if "a \<in> set as" for a
    using ok that by (simp add: allocations_ok_def renamed_files_def rg_names_def planned_files_def)
  have same: "concat (map renamed_files (map (rg_names \<circ> alloc_rg) as)) = concat (map (planned_files \<circ> fst) as)"
    by (intro arg_cong [where f = concat]) (simp add: names)
  have "stage_row_groups X I S E w as n ipath (s, rb) = (Inr (map (rg_names \<circ> alloc_rg) as), s2, ?rb)"
    unfolding stage_row_groups_def Let_def using s1(1) s2(1) same
    by (simp add: io_bind_run [of "io_foldM f a xs" for f a xs] io_then_run sync_law)
  moreover have "view s2 q = view s q" if "q \<notin> insert_files ?t as" for q
    using that s1(3) s2(4) by (simp add: insert_files_def)
  ultimately show ?thesis using s2(2,3) by blast
qed

end

section \<open>Metadata of the commit\<close>

lemma partition_values_of_ok:
  assumes "conforms fs b" "partitions_supported fs pby" "set cs \<subseteq> set pby"
  shows "\<exists>pv. partition_values_of b path cs acc = Inr pv"
  using assms(3)
proof (induction cs arbitrary: acc)
  case (Cons c cs)
  obtain col where col: "column_by_name b c = Some col" "column_typed col" "is_supported_partition_type (ac_type col)"
    using column_found [OF assms(1,2), of c] Cons.prems by auto
  have "\<exists>vs. cell_values col path = Inr vs"
    using col(2,3) by (cases col) (auto simp: is_supported_partition_type_def int_types_def)
  then obtain vs where "distinct_non_null_values col path = Inr vs" by (auto simp: distinct_non_null_values_def)
  then show ?case using Cons col(1) by (auto split: list.splits)
qed simp

lemma inserted_partition_values_ok:
  assumes "\<forall>(b, data) \<in> set added. conforms fs b"
    "partitions_supported fs (case sc_partition_by schema of None \<Rightarrow> [] | Some cs \<Rightarrow> cs)"
  shows "\<exists>pv. inserted_partition_values schema table current added = Inr pv"
proof -
  have "\<exists>vals'. add_partition_values pby table added vals = Inr vals'" if sup: "partitions_supported fs pby" for pby vals
    using assms(1)
  proof (induction added arbitrary: vals)
    case (Cons a added)
    obtain b data where a: "a = (b, data)" by fastforce
    obtain pv where "compute_partition_values b pby table = Inr pv"
      using partition_values_of_ok [OF _ sup, of b pby table "[]"] Cons.prems by (auto simp: a compute_partition_values_def)
    then show ?case using Cons by (simp add: a)
  qed simp
  note added = this
  show ?thesis
  proof (cases "case sc_partition_by schema of None \<Rightarrow> [] | Some cs \<Rightarrow> cs")
    case Nil
    then show ?thesis by (auto simp: inserted_partition_values_def split: option.splits)
  next
    case (Cons c cs)
    then have by_cs: "sc_partition_by schema = Some (c # cs)" "partitions_supported fs (c # cs)"
      using assms(2) by (auto split: option.splits)
    obtain vals where "add_partition_values (c # cs) table added (case mf_partition_values current of None \<Rightarrow> [] | Some vs \<Rightarrow> vs) = Inr vals"
      using added [OF by_cs(2)] by blast
    then show ?thesis by (simp add: inserted_partition_values_def by_cs(1))
  qed
qed

context storage_contract
begin

lemma read_meta_rows_run: "\<exists>r. read_meta_rows X S path s = (Inr r, s)"
  by (cases "validate_path path") (auto simp: read_meta_rows_def io_simps invalid_read read_law)

lemma read_each_meta_rows_run: "\<exists>r. read_each_meta_rows X S table es counts s = (Inr r, s)"
proof (induction es arbitrary: counts)
  case (Cons e es)
  obtain r where "read_meta_rows X S (tpath table (rg_meta e)) s = (Inr r, s)" using read_meta_rows_run by blast
  then show ?case using Cons by (cases r) (simp_all add: io_bind_run)
qed simp

lemma collect_row_counts_run: "\<exists>r. collect_row_counts X S table existing current added s = (Inr r, s)"
  using read_each_meta_rows_run [of X table existing "[]" s]
  by (auto simp: collect_row_counts_def io_bind_run split: option.splits)

lemma build_indexes_run:
  assumes ip: "validate_path ipath = Inr ipath" and cat: "dc_of X (view s) = Some data" and none: "table_indexes table data = []"
  shows "\<exists>s'. build_indexes_into_manifest X R PQ S E table sid manifest current files ipath True s = (Inr (manifest, files), s')
    \<and> (\<forall>q. q \<noteq> ipath \<longrightarrow> view s' q = view s q)"
proof -
  obtain s' where "write_intent X S ipath (ce_txn_id E) (ce_now E 2) sid files s = (Inr (), s')"
    "view s' = (view s)(ipath \<mapsto> json_to_string X (intent_value (ce_txn_id E) (ce_now E 2) sid files))"
    using write_intent_run [OF ip] by blast
  then show ?thesis
    using cat none by (intro exI [of _ s']) (simp add: build_indexes_into_manifest_def maintain_on_insert_def dc_load_run ok_or_def
        Let_def io_bind_run io_then_run)
qed

end

section \<open>Publishing\<close>

definition inserted_entry :: "allocation \<Rightarrow> row_group_entry" where
  "inserted_entry a = new_entry (rg_names (alloc_rg a)) (snd (snd a))"

lemma inserted_entry_sel [simp]:
  "rg_data (inserted_entry a) = alloc_rg a @ ''.parquet''" "rg_meta (inserted_entry a) = alloc_rg a @ ''.meta''"
  "rg_agg (inserted_entry a) = Some (alloc_rg a @ ''.agg'')" "rg_fragment_id (inserted_entry a) = snd (snd a)"
  "rg_deletes (inserted_entry a) = None" "rg_deleted_count (inserted_entry a) = 0"
  by (simp_all add: inserted_entry_def new_entry_def rg_names_def)

lemma promoted_meta:
  assumes t: "plain_piece (w_table w)" and X: "json_law X" and rg: "shaped_rg (alloc_rg a)" and enc: "encodable X I w a"
    and files: "\<forall>(sfx, b) \<in> set (file_bytes X I w a). v (tpath (w_table w) (alloc_rg a @ sfx)) = Some b"
  shows "meta_at X v (\<lambda>_. None) (tpath (w_table w) (rg_meta (inserted_entry a))) = Some (staged_meta_of X I w a)"
proof -
  obtain p seg frag where a: "a = (p, seg, frag)" by (cases a) auto
  have "validate_path (tpath (w_table w) (alloc_rg a @ ''.meta'')) = Inr (tpath (w_table w) (alloc_rg a @ ''.meta''))"
    using rg by (intro validate_rg_paths(2) [OF t]) (simp_all add: shaped_rg_def rg_suffixes_def)
  then show ?thesis
    using files staged_meta(2) [OF enc [unfolded a]]
    by (simp add: meta_at_def file_bytes_def a parse_row_group_meta_def json_lawD [OF X] rgm_roundtrip)
qed

context storage_contract
begin

lemma planned_row_group_for_entry_run:
  assumes t: "plain_piece (w_table w)" and X: "json_law X" and rg: "shaped_rg (alloc_rg a)" and enc: "encodable X I w a"
    and files: "\<forall>(sfx, b) \<in> set (file_bytes X I w a). view s (tpath (w_table w) (alloc_rg a @ sfx)) = Some b"
    and agg: "\<forall>st. ie_agg_parse I (ie_agg_print I st) \<noteq> None"
  shows "\<exists>prg. planned_row_group_for_entry X I S (w_table w) (inserted_entry a) q pv s = (Inr prg, s)
    \<and> pr_meta prg = staged_meta_of X I w a \<and> pr_agg_state prg = read_agg X I w a \<and> pr_fragment_id prg = snd (snd a)"
proof -
  obtain p seg frag where a: "a = (p, seg, frag)" by (cases a) auto
  have v: "validate_path (tpath (w_table w) (alloc_rg a @ sfx)) = Inr (tpath (w_table w) (alloc_rg a @ sfx))" if "sfx \<in> {''.meta'', ''.agg''}" for sfx
    using rg that by (intro validate_rg_paths(2) [OF t]) (auto simp: shaped_rg_def rg_suffixes_def)
  have "parse_row_group_meta X (json_to_string X (row_group_meta_value (staged_meta_of X I w a))) = Some (staged_meta_of X I w a)"
    using staged_meta(2) [OF enc [unfolded a]] by (simp add: parse_row_group_meta_def json_lawD [OF X] rgm_roundtrip a)
  moreover have "st_read S (tpath (w_table w) (alloc_rg a @ ''.meta'')) s = (Inr (json_to_string X (row_group_meta_value (staged_meta_of X I w a))), s)"
    "st_read S (tpath (w_table w) (alloc_rg a @ ''.agg'')) s = (Inr (ie_agg_print I (agg_of X I w a)), s)"
    using files read_law [OF v, of "''.meta''" s] read_law [OF v, of "''.agg''" s] by (simp_all add: file_bytes_def ok_or_def)
  moreover have "verify_meta_checksum X (staged_meta_of X I w a)" using staged_meta(4) [OF enc [unfolded a]] by (simp add: a)
  moreover obtain st where "ie_agg_parse I (ie_agg_print I (agg_of X I w a)) = Some st" using agg by blast
  ultimately show ?thesis
    by (simp add: planned_row_group_for_entry_def read_agg_def Let_def io_bind_run ok_or_def)
qed

lemma planned_row_groups_run:
  assumes "plain_piece (w_table w)" "json_law X" "allocations_ok X I w as" "all_promoted X I w as (view s)"
    "\<forall>st. ie_agg_parse I (ie_agg_print I st) \<noteq> None"
  shows "\<exists>prgs. io_foldM (\<lambda>added e. io_bind (planned_row_group_for_entry X I S (w_table w) e q (pv e)) (\<lambda>prg. io_return (added @ [prg])))
      acc (map inserted_entry as) s = (Inr (acc @ prgs), s)
    \<and> map pr_meta prgs = map (staged_meta_of X I w) as \<and> map pr_agg_state prgs = map (read_agg X I w) as
    \<and> map pr_fragment_id prgs = map (snd \<circ> snd) as"
proof -
  define step where "step = (\<lambda>added e. io_bind (planned_row_group_for_entry X I S (w_table w) e q (pv e)) (\<lambda>prg. io_return (added @ [prg])))"
  show ?thesis
    unfolding step_def [symmetric] using assms(3,4)
  proof (induction as arbitrary: acc)
    case (Cons a as)
    have "shaped_rg (alloc_rg a)" "encodable X I w a"
      "\<forall>(sfx, b) \<in> set (file_bytes X I w a). view s (tpath (w_table w) (alloc_rg a @ sfx)) = Some b"
      using Cons.prems by (auto simp: allocations_ok_def all_promoted_def)
    from planned_row_group_for_entry_run [OF assms(1,2) this assms(5)] obtain prg where prg:
      "planned_row_group_for_entry X I S (w_table w) (inserted_entry a) q (pv (inserted_entry a)) s = (Inr prg, s)"
      "pr_meta prg = staged_meta_of X I w a" "pr_agg_state prg = read_agg X I w a" "pr_fragment_id prg = snd (snd a)" by blast
    have "step acc (inserted_entry a) s = (Inr (acc @ [prg]), s)" using prg(1) by (simp add: step_def io_bind_run)
    moreover obtain prgs where "io_foldM step (acc @ [prg]) (map inserted_entry as) s = (Inr ((acc @ [prg]) @ prgs), s)"
      "map pr_meta prgs = map (staged_meta_of X I w) as" "map pr_agg_state prgs = map (read_agg X I w) as"
      "map pr_fragment_id prgs = map (snd \<circ> snd) as"
      using Cons.IH [OF allocations_ok_Cons [OF Cons.prems(1)]] Cons.prems(2) by (fastforce simp: all_promoted_def)
    ultimately show ?case using prg by (intro exI [of _ "prg # prgs"]) (simp add: io_bind_run)
  qed simp
qed

end

text \<open>Row-group files are not the files a commit publishes.\<close>

lemma zone_final: "plain_rg rg \<Longrightarrow> sfx \<in> set rg_suffixes \<Longrightarrow> zone table (tpath table (rg @ sfx)) = rg @ sfx"
  by (auto simp: zone_tpath plain_rg_def rg_suffixes_def takeWhile_eq_all_conv)

lemma rg_zone:
  assumes "plain_rg rg" "sfx \<in> set rg_suffixes"
  shows "rg @ sfx \<notin> {''_staging'', ''_checkpoints'', ''_manifests'', ''_manifest.json'', ''_manifest.json.tmp'', ''_wal''}"
proof -
  define name where "name = rg @ sfx"
  have "CHR ''.'' \<in> set name" "last name \<in> {CHR ''t'', CHR ''a'', CHR ''g''}"
    using assms(2) by (auto simp: rg_suffixes_def name_def)
  then have "name \<notin> {''_staging'', ''_checkpoints'', ''_manifests'', ''_manifest.json'', ''_manifest.json.tmp'', ''_wal''}" by auto
  then show ?thesis by (simp add: name_def)
qed

lemma final_not_commit:
  assumes "shaped_rg rg" "p \<in> final_paths table rg"
  shows "p \<notin> commit_paths table q txn" "zone table p \<notin> {''_staging'', ''_checkpoints'', ''_manifests'', ''_manifest.json'', ''_manifest.json.tmp'', ''_wal''}"
proof -
  obtain sfx where sfx: "sfx \<in> set rg_suffixes" "p = tpath table (rg @ sfx)" using assms(2) by (auto simp: final_paths_def)
  have "plain_rg rg" using assms(1) by (simp add: shaped_rg_def)
  then show z: "zone table p \<notin> {''_staging'', ''_checkpoints'', ''_manifests'', ''_manifest.json'', ''_manifest.json.tmp'', ''_wal''}"
    using rg_zone [OF _ sfx(1)] zone_final [OF _ sfx(1)] unfolding sfx(2) by metis
  show "p \<notin> commit_paths table q txn" using z commit_paths_zone [of p table q txn] by auto
qed

lemma all_promoted_cong:
  assumes "all_promoted X I w as v" "allocations_ok X I w as"
    "\<And>a p. a \<in> set as \<Longrightarrow> p \<in> final_paths (w_table w) (alloc_rg a) \<Longrightarrow> v' p = v p"
  shows "all_promoted X I w as v'"
proof -
  have "v' (tpath (w_table w) (alloc_rg a @ sfx)) = v (tpath (w_table w) (alloc_rg a @ sfx))"
    if "a \<in> set as" "(sfx, b) \<in> set (file_bytes X I w a)" for a sfx b
    using file_suffix [OF that(2)] by (intro assms(3) [OF that(1)]) (simp add: final_paths_def)
  then show ?thesis using assms(1) by (fastforce simp: all_promoted_def)
qed

context storage_contract
begin

lemma publish_insert_run:
  assumes t: "plain_piece (w_table w)" and X: "json_law X" and txn: "plain_piece (ce_txn_id E @ ''.json'')"
    and part: "intent_path (w_table w) (ce_txn_id E) \<noteq> checkpoint_part (w_table w) seq"
    and sums: "\<forall>e \<in> set (mf_row_groups new). summary_at X (view s) (ce_cache E) (w_table w) current e \<noteq> None"
    and ok: "allocations_ok X I w as" and files: "all_promoted X I w as (view s)"
    and agg: "\<forall>st. ie_agg_parse I (ie_agg_print I st) \<noteq> None"
    and groups: "filter (\<lambda>e. rg_data e \<in> set names) (mf_row_groups new) = map inserted_entry as"
  shows "\<exists>s' parent prgs staged. publish_insert X I S E (w_table w) sid current new seq ifiles names (intent_path (w_table w) (ce_txn_id E)) (s, rb)
      = (Inr (finalize X parent (ce_now E 4) (new\<lparr>mf_checkpoint := Some (cp_filename seq)\<rparr>), prgs), s',
         rb\<lparr>rb_staged_files := staged, rb_pointer_updated := True\<rparr>)
    \<and> view s' (tpath (w_table w) ''_manifest.json'') = Some (json_to_string X (latest_pointer seq))
    \<and> view s' (tpath (w_table w) (manifest_filename seq))
      = Some (json_to_string X (manifest_value (finalize X parent (ce_now E 4) (new\<lparr>mf_checkpoint := Some (cp_filename seq)\<rparr>))))
    \<and> (\<forall>p. p \<notin> commit_paths (w_table w) seq (ce_txn_id E) \<longrightarrow> view s' p = view s p)
    \<and> map pr_meta prgs = map (staged_meta_of X I w) as \<and> map pr_agg_state prgs = map (read_agg X I w) as
    \<and> map pr_fragment_id prgs = map (snd \<circ> snd) as"
proof -
  let ?t = "w_table w"
  let ?ip = "intent_path ?t (ce_txn_id E)" and ?new = "new\<lparr>mf_checkpoint := Some (cp_filename seq)\<rparr>"
  note ip = validate_intent_path [OF t txn]
  let ?c = "checkpoint_at X (view s) (ce_cache E) ?t current new"
  have c: "build_snapshot_checkpoint X S (ce_cache E) ?t current new s = (Inr ?c, s)" by (rule build_snapshot_checkpoint_run [OF sums])
  obtain s2 st where s2: "write_checkpoint X (ce_archiver E) S (ce_local E) (ce_now E 3) ?t ?c seq ?ip ifiles (rb_staged_files rb)
      (ce_txn_id E) sid s = (Inr (cp_filename seq, ifiles @ [cp_filename seq], st), s2)"
    "\<forall>p. p \<notin> {?ip, checkpoint_part ?t seq, tpath ?t (cp_filename seq),
         tpath ?t (checkpoint_archive_filename seq), tpath ?t (checkpoint_archive_filename seq) @ ''.tmp''}
        \<longrightarrow> view s2 p = view s p"
    using write_checkpoint_run [OF t ip _ part, of X "ce_archiver E" "ce_local E" "ce_now E 3" ?c ifiles "rb_staged_files rb"
        "ce_txn_id E" sid s] by auto
  obtain parent where parent: "parent_manifest_checksum X S ?t seq s2 = (Inr parent, s2)"
    using parent_checksum_total [OF t] by blast
  let ?m = "finalize X parent (ce_now E 4) ?new"
  obtain s3 where s3: "publish_manifest X S ?t ?m seq (io_return ()) s2 = (Inr (), s3)"
    "view s3 = (view s2)(tpath ?t (manifest_filename seq) @ ''.tmp'' := None,
        tpath ?t (manifest_filename seq) \<mapsto> json_to_string X (manifest_value ?m))"
    using publish_manifest_run [OF t X finalize_verifies, of parent "ce_now E 4" ?new seq "io_return ()" s2] by blast
  have same3: "view s3 p = view s p" if "p \<notin> commit_paths ?t seq (ce_txn_id E)" for p
    using that s2(2) s3(2) by (simp add: commit_paths_def)
  have "all_promoted X I w as (view s3)"
  proof (rule all_promoted_cong [OF files ok])
    fix a p assume "a \<in> set as" "p \<in> final_paths ?t (alloc_rg a)"
    then show "view s3 p = view s p" using ok final_not_commit(1) by (intro same3) (auto simp: allocations_ok_def)
  qed
  from planned_row_groups_run [OF t X ok this agg, of "mf_sequence ?m" "\<lambda>e. Option.bind (mf_partition_values ?m) (\<lambda>pv. map_of pv (rg_data e))" "[]"]
  obtain prgs where prgs: "io_foldM (\<lambda>added e. io_bind (planned_row_group_for_entry X I S ?t e (mf_sequence ?m)
        (Option.bind (mf_partition_values ?m) (\<lambda>pv. map_of pv (rg_data e)))) (\<lambda>prg. io_return (added @ [prg]))) [] (map inserted_entry as) s3 = (Inr prgs, s3)"
    "map pr_meta prgs = map (staged_meta_of X I w) as" "map pr_agg_state prgs = map (read_agg X I w) as"
    "map pr_fragment_id prgs = map (snd \<circ> snd) as" unfolding append_Nil by blast
  have groups': "filter (\<lambda>e. rg_data e \<in> set names) (mf_row_groups ?m) = map inserted_entry as" using groups by simp
  note v = validate_pointer_path [OF t]
  let ?tmp = "tpath ?t ''_manifest.json.tmp''" and ?b = "json_to_string X (latest_pointer seq)"
  obtain s4 where s4: "st_write S ?tmp ?b s3 = (Inr (), s4)" "view s4 = (view s3)(?tmp \<mapsto> ?b)" using write_law v by blast
  obtain s5 where s5: "st_rename S ?tmp (tpath ?t ''_manifest.json'') s4 = (Inr (), s5)"
    "view s5 = (view s4)(?tmp := None, tpath ?t ''_manifest.json'' \<mapsto> ?b)"
    using rename_law [of ?tmp ?tmp "tpath ?t ''_manifest.json''" "tpath ?t ''_manifest.json''" s4 ?b] v s4(2) by auto
  have run: "publish_insert X I S E ?t sid current new seq ifiles names ?ip (s, rb)
      = (Inr (?m, prgs), s5, rb\<lparr>rb_staged_files := st, rb_pointer_updated := True\<rparr>)"
    unfolding publish_insert_def Let_def
    using c s2(1) parent s3(1) s4(1) s5(1) prgs(1) groups'
    by (simp add: io_then_run sync_law io_bind_run [of "on_storage m" for m] io_bind_run [of "\<lambda>x. on_storage (m x) x" for m]
        io_bind_run [of "parent_manifest_checksum X S ?t seq" for X S] finalize_manifest_def io_try_run)
  have "view s5 (tpath ?t (manifest_filename seq)) = Some (json_to_string X (manifest_value ?m))"
    using s3(2) s4(2) s5(2) by simp
  moreover have "\<forall>p. p \<notin> commit_paths ?t seq (ce_txn_id E) \<longrightarrow> view s5 p = view s p"
    using same3 s4(2) s5(2) by (simp add: commit_paths_def)
  ultimately show ?thesis using run s5(2) prgs(2-4) by (intro exI [of _ s5] exI [of _ parent] exI [of _ prgs] exI [of _ st]) simp
qed

end

end
