(* ===== verification/Insert_Effect.thy ===== *)
theory Insert_Effect
  imports Insert_Run
begin

text \<open>
  The metadata of a row group can be computed for every batch that conforms to the schema of the table, and it can be serialized.
\<close>

section \<open>Metadata can be computed\<close>

lemma best_by_in: "best_by better vs = Some v \<Longrightarrow> v \<in> set vs"
proof (cases vs)
  case (Cons a as)
  have "foldl (\<lambda>a b. if better b a then b else a) a as \<in> insert a (set as)" for a
  proof (induction as arbitrary: a)
    case (Cons b as)
    then show ?case using Cons [of a] Cons [of b] by auto
  qed simp
  then show "best_by better vs = Some v \<Longrightarrow> v \<in> set vs" using Cons by auto
qed simp

lemma canonical_float:
  assumes "json_law X" "\<And>v. x = Some v \<Longrightarrow> is_finite v"
  shows "\<exists>j. opt_result (canonicalize_json_value X \<circ> f64_value) x = Inr j \<and> j \<noteq> Some JNull"
  using assms by (cases x) (auto simp: opt_result_def canonicalize_json_value_def json_lawD ok_or_def f64_value_def)

lemma finite_float_min_max_ok:
  assumes "json_law X"
  shows "\<exists>a b. finite_float_min_max X vs = Inr (a, b) \<and> a \<noteq> Some JNull \<and> b \<noteq> Some JNull"
proof -
  have "is_finite v" if "best_by better (finite_values vs) = Some v" for better v
    using best_by_in [OF that] by (simp add: finite_values_def)
  then show ?thesis
    using canonical_float [OF assms, of "best_by (\<lambda>b a. total_key b < total_key a) (finite_values vs)"]
      canonical_float [OF assms, of "best_by (\<lambda>b a. total_key a \<le> total_key b) (finite_values vs)"]
    by (auto simp: finite_float_min_max_def Let_def)
qed

lemma compute_min_max_ok:
  assumes "json_law X"
  shows "\<exists>a b. compute_min_max X K col = Inr (a, b) \<and> a \<noteq> Some JNull \<and> b \<noteq> Some JNull"
proof (cases col)
  case (FloatColumn t vs)
  have "\<exists>a b. float_min_max X K vs = Inr (a, b) \<and> a \<noteq> Some JNull \<and> b \<noteq> Some JNull"
    using finite_float_min_max_ok [OF assms, of vs] canonical_float [OF assms, of "k_min_f64 K vs"]
      canonical_float [OF assms, of "k_max_f64 K vs"] by (auto simp: float_min_max_def Let_def)
  then show ?thesis using FloatColumn finite_float_min_max_ok [OF assms, of vs] by auto
qed (auto simp: jint_def)

lemma column_statistics_ok:
  assumes "json_law X" "\<forall>c \<in> set cs. column_by_name b (col_name c) \<noteq> None" "\<forall>(k, st) \<in> set acc. stats_wf st"
  shows "\<exists>columns. column_statistics X K b path cs acc = Inr columns \<and> (\<forall>(k, st) \<in> set columns. stats_wf st)"
  using assms(2,3)
proof (induction cs arbitrary: acc)
  case (Cons c cs)
  obtain arr where arr: "column_by_name b (col_name c) = Some arr" using Cons.prems(1) by auto
  obtain mn mx where mm: "compute_min_max X K arr = Inr (mn, mx)" "mn \<noteq> Some JNull" "mx \<noteq> Some JNull"
    using compute_min_max_ok [OF assms(1)] by blast
  let ?st = "\<lparr>cs_min = mn, cs_max = mx, cs_nulls = of_nat (ac_null_count arr)\<rparr>"
  have "\<forall>(k, st) \<in> set (AList.update (col_name c) ?st acc). stats_wf st"
    using Cons.prems(2) mm(2,3) set_alist_update [of _ "col_name c" ?st acc] by (fastforce simp: stats_wf_def)
  then show ?case using Cons.IH [of "AList.update (col_name c) ?st acc"] Cons.prems(1) arr mm(1) by simp
qed simp

definition footer_law :: "(bytes \<Rightarrow> parquet_metadata option) \<Rightarrow> bool" where
  "footer_law footer \<longleftrightarrow> (\<forall>bs pm. footer bs = Some pm \<longrightarrow> (\<forall>rg \<in> set (pm_row_groups pm). length rg = length (pm_leaves pm)))"

lemma column_chunks_ok:
  assumes "length rg = length leaves"
  shows "\<exists>offs. column_chunks leaves rg cs acc = Inr offs"
proof (induction cs arbitrary: acc)
  case (Cons c cs)
  have "length (takeWhile (\<lambda>n. n \<noteq> col_name c) leaves) < length rg" if "col_name c \<in> set leaves"
    using that unfolding assms by (induction leaves) auto
  then show ?case using Cons by (simp add: Let_def)
qed simp

lemma arrow_schema_names: "arrow_schema_from_icefalldb cs path = Inr fs \<Longrightarrow> map df_name fs = map col_name cs"
  by (induction cs path arbitrary: fs rule: arrow_schema_from_icefalldb.induct) (auto simp: res_bind_eq_Inr split: option.splits)

lemma compute_row_group_meta_ok:
  assumes "json_law X" "footer_law footer" "arrow_schema_from_icefalldb (sc_columns schema) path = Inr fs" "conforms fs b"
  shows "\<exists>m. compute_row_group_meta X K footer rg sid b schema bs table ids = Inr m \<and> rgm_wf m"
proof -
  have "\<forall>c \<in> set (sc_columns schema). column_by_name b (col_name c) \<noteq> None"
  proof
    fix c assume "c \<in> set (sc_columns schema)"
    then have "col_name c \<in> df_name ` set fs" using arrow_schema_names [OF assms(3)] by (metis image_eqI list.set_map)
    then show "column_by_name b (col_name c) \<noteq> None"
      using conforms_find [of fs "b_columns b"] assms(4) by (fastforce simp: conforms_def column_by_name_def)
  qed
  from column_statistics_ok [OF assms(1) this, of "[]"] obtain columns where
    "column_statistics X K b table (sc_columns schema) [] = Inr columns" "\<forall>(k, st) \<in> set columns. stats_wf st" unfolding list.set by blast
  moreover have "\<exists>offs. (case footer bs of None \<Rightarrow> Inr None | Some pm \<Rightarrow> compute_column_offsets pm schema) = Inr offs"
    using assms(2) column_chunks_ok
    by (auto simp: footer_law_def compute_column_offsets_def split: option.splits list.splits)
  ultimately show ?thesis
    by (auto simp: compute_row_group_meta_def rgm_wf_def rgm_compute_checksum_def compute_meta_checksum_def Let_def)
qed

end
