(* ===== verification/Insert_Table.thy ===== *)
theory Insert_Table
  imports Insert_Effect
begin

text \<open>
  Running \<^verbatim>\<open>try_commit\<close> of \<^verbatim>\<open>crates/icefalldb-core/src/writer.rs\<close> on a table at rest: when it succeeds, which snapshot it publishes
  and which files it leaves.
\<close>

section \<open>Allocated ids\<close>

lemma allocate_planned_spec:
  assumes "allocate_planned nr nf ps = (as, nr', nf')"
  shows "map fst as = ps" "map (snd \<circ> snd) as = map (\<lambda>i. nf + of_nat i) [0..<length ps]" "nf' = nf + of_nat (length ps)"
    "allocate_blocks nr (map (of_nat \<circ> b_rows \<circ> pw_batch) ps) = (map (fst \<circ> snd) as, nr')"
proof -
  have "map fst as = ps \<and> map (snd \<circ> snd) as = map (\<lambda>i. nf + of_nat i) [0..<length ps] \<and> nf' = nf + of_nat (length ps)
    \<and> allocate_blocks nr (map (of_nat \<circ> b_rows \<circ> pw_batch) ps) = (map (fst \<circ> snd) as, nr')"
    using assms
  proof (induction ps arbitrary: nr nf as)
    case (Cons p ps)
    obtain seg nr1 rest where r: "allocate_range nr (of_nat (b_rows (pw_batch p))) = (seg, nr1)"
      "allocate_planned nr1 (nf + 1) ps = (rest, nr', nf')" "as = (p, seg, nf) # rest"
      using Cons.prems by (auto simp: Let_def split: prod.splits)
    have "map (\<lambda>i. nf + 1 + of_nat i) [0..<length ps] = map (\<lambda>i. nf + of_nat i) (map Suc [0..<length ps])" by (simp add: add.assoc)
    then show ?case using Cons.IH [OF r(2)] r(1,3) by (simp add: map_Suc_upt upt_conv_Cons add.assoc del: upt_Suc)
  qed simp
  then show "map fst as = ps" "map (snd \<circ> snd) as = map (\<lambda>i. nf + of_nat i) [0..<length ps]" "nf' = nf + of_nat (length ps)"
    "allocate_blocks nr (map (of_nat \<circ> b_rows \<circ> pw_batch) ps) = (map (fst \<circ> snd) as, nr')" by simp_all
qed

section \<open>When a commit succeeds\<close>

text \<open>What the crates called by the writer promise.\<close>

definition insert_laws :: "ext \<Rightarrow> insert_env \<Rightarrow> dfield list \<Rightarrow> bool" where
  "insert_laws X I fs \<longleftrightarrow> json_law X \<and> arrow_ops_law (ie_ops I) fs \<and> (\<forall>b. conforms fs b \<longrightarrow> ie_parquet I fs b \<noteq> None)
     \<and> footer_law (ie_footer I) \<and> (\<forall>st. ie_agg_parse I (ie_agg_print I st) \<noteq> None) \<and> (\<forall>g. mset (ie_order I g) = mset g)"

text \<open>The writer: its schema, its buffer and its partition columns.\<close>

definition writer_ok :: "arrow_ops \<Rightarrow> batch writer \<Rightarrow> bool" where
  "writer_ok A w \<longleftrightarrow> arrow_schema_from_icefalldb (sc_columns (w_schema w)) (w_table w) = Inr (w_arrow_schema w)
     \<and> w_arrow_schema w \<noteq> [] \<and> partitions_supported (w_arrow_schema w) (partition_columns w) \<and> buffer_ok A w"

definition rg_id_paths :: "string \<Rightarrow> (nat \<Rightarrow> string) \<Rightarrow> string set" where
  "rg_id_paths table uuid = (\<Union>i. part_paths table (unique_rg_id uuid i) \<union> final_paths table (unique_rg_id uuid i))"

lemma intent_not_part: "intent_path table txn \<noteq> checkpoint_part table q"
  by (simp add: intent_path_def intents_dir_def checkpoint_part_def tpath_def)

lemma intent_not_rg:
  assumes "\<forall>i. shaped_rg (unique_rg_id uuid i)"
  shows "intent_path table txn \<notin> rg_id_paths table uuid"
proof
  assume "intent_path table txn \<in> rg_id_paths table uuid"
  then obtain i where "intent_path table txn \<in> part_paths table (unique_rg_id uuid i) \<or> intent_path table txn \<in> final_paths table (unique_rg_id uuid i)"
    by (auto simp: rg_id_paths_def)
  then show False
    using final_not_commit(1) [of "unique_rg_id uuid i" "intent_path table txn" table _ txn] assms
    by (auto simp: part_paths_def part_path_def intent_path_def intents_dir_def tpath_def commit_paths_def)
qed

definition schema_current :: "ext \<Rightarrow> (string \<Rightarrow> bytes option) \<Rightarrow> batch writer \<Rightarrow> bool" where
  "schema_current X v w \<longleftrightarrow> (\<exists>b j. v (tpath (w_table w) ''_schema.json'') = Some b \<and> json_parse X b = Some j
     \<and> pointer_latest j = Some (sc_schema_id (w_schema w)))"

text \<open>
  The commit has names of its own: the row groups it draws at random, its intent and the files of the next snapshot are not those the
  current snapshot names. The table has no secondary index.
\<close>

definition insert_apart ::
  "ext \<Rightarrow> (string \<Rightarrow> bytes option) \<Rightarrow> insert_env \<Rightarrow> commit_env \<Rightarrow> batch writer \<Rightarrow> manifest \<Rightarrow> bool" where
  "insert_apart X v I E w m \<longleftrightarrow>
     mf_sequence m + 1 \<noteq> 0 \<and> plain_piece (ce_txn_id E @ ''.json'') \<and> (\<forall>i. shaped_rg (unique_rg_id (ie_uuid I) i))
     \<and> named_paths (w_table w) m \<inter> (commit_paths (w_table w) (mf_sequence m + 1) (ce_txn_id E) \<union> rg_id_paths (w_table w) (ie_uuid I)) = {}
     \<and> (\<exists>data. dc_of X v = Some data \<and> table_indexes (w_table w) data = [])"

text \<open>
  Moreover the random names are new and distinct, there is room for fragment ids and row ids, and the schema of the writer is the current one.
\<close>

definition insert_ready ::
  "ext \<Rightarrow> (string \<Rightarrow> bytes option) \<Rightarrow> insert_env \<Rightarrow> commit_env \<Rightarrow> batch writer \<Rightarrow> manifest \<Rightarrow> bool" where
  "insert_ready X v I E w m \<longleftrightarrow> insert_apart X v I E w m \<and> schema_current X v w
     \<and> inj (ie_uuid I) \<and> (\<forall>i. \<forall>p \<in> final_paths (w_table w) (unique_rg_id (ie_uuid I) i). v p = None)
     \<and> (\<forall>e \<in> set (mf_row_groups m). rg_fragment_id e < mf_next_fragment_id m)
     \<and> unat (mf_next_fragment_id m) + w_buffered_rows w < 2 ^ 64 \<and> unat (mf_next_row_id m) + w_buffered_rows w < 2 ^ 64"

definition insertion_snapshot ::
  "ext \<Rightarrow> commit_env \<Rightarrow> batch writer \<Rightarrow> manifest \<Rightarrow> allocation list \<Rightarrow> u64 list option \<Rightarrow> (string \<times> (string \<times> json) list) list option \<Rightarrow>
   u64 \<Rightarrow> u64 \<Rightarrow> string option \<Rightarrow> manifest" where
  "insertion_snapshot X E w m as row_counts partition_values next_row_id next_fragment_id parent =
     finalize X parent (ce_now E 4) ((inserted_manifest (mf_sequence m + 1) (sc_schema_id (w_schema w)) (mf_row_groups m @ map inserted_entry as)
       row_counts partition_values next_row_id next_fragment_id)\<lparr>mf_checkpoint := Some (cp_filename (mf_sequence m + 1))\<rparr>)"

lemma insertion_snapshot_sel [simp]:
  "mf_sequence (insertion_snapshot X E w m as rc pv nr nf parent) = mf_sequence m + 1"
  "mf_row_groups (insertion_snapshot X E w m as rc pv nr nf parent) = mf_row_groups m @ map inserted_entry as"
  "mf_next_row_id (insertion_snapshot X E w m as rc pv nr nf parent) = nr"
  "mf_next_fragment_id (insertion_snapshot X E w m as rc pv nr nf parent) = nf"
  "mf_index_generations (insertion_snapshot X E w m as rc pv nr nf parent) = []"
  "mf_rowindex_generation (insertion_snapshot X E w m as rc pv nr nf parent) = None"
  "mf_checkpoint (insertion_snapshot X E w m as rc pv nr nf parent) = Some (cp_filename (mf_sequence m + 1))"
  by (simp_all add: insertion_snapshot_def inserted_manifest_def)

text \<open>The table after the pointer was moved.\<close>

definition insertion_done ::
  "ext \<Rightarrow> insert_env \<Rightarrow> (string \<Rightarrow> bytes option) \<Rightarrow> commit_env \<Rightarrow> batch writer \<Rightarrow> manifest \<Rightarrow> allocation list \<Rightarrow> manifest \<Rightarrow> (string \<Rightarrow> bytes option) \<Rightarrow> bool" where
  "insertion_done X I v E w m as m' v' \<longleftrightarrow>
     (let table = w_table w; q = mf_sequence m + 1; W = commit_paths table q (ce_txn_id E) \<union> insert_files table as
      in pointer_at X v' table = PointerAt q \<and> manifest_at X v' table q = Some m' \<and> all_promoted X I w as v'
         \<and> (\<forall>a \<in> set as. \<forall>p \<in> part_paths table (alloc_rg a). v' p = None)
         \<and> (\<forall>p. leftover table (mf_sequence m) p \<and> p \<notin> W \<longrightarrow> v' p = None)
         \<and> (\<exists>D. D \<inter> table_paths table m = {} \<and> (\<forall>p. p \<notin> W \<longrightarrow> v' p = without D v p)))"

section \<open>Running the commit\<close>

lemma copies_filenames:
  "p \<in> set (copies b uuid n cuts) \<Longrightarrow> pw_data_filename p = pw_rg_id p @ ''.parquet'' \<and> pw_meta_filename p = pw_rg_id p @ ''.meta''
    \<and> (\<exists>i. pw_rg_id p = unique_rg_id uuid i)"
  by (induction cuts arbitrary: n) (auto simp: planned_write_of_def)

lemma copies_distinct: "inj uuid \<Longrightarrow> distinct (map pw_rg_id (copies b uuid n cuts))"
  by (simp add: copies_ids distinct_map inj_on_def unique_rg_id_def)

lemma planned_allocations_ok:
  assumes laws: "insert_laws X I (w_arrow_schema w)" and w: "writer_ok (ie_ops I) w" and ids: "inj (ie_uuid I)"
    "\<forall>i. shaped_rg (unique_rg_id (ie_uuid I) i)"
    and c: "conforms (w_arrow_schema w) c" "planned_cuts X w c cuts"
    and as: "map fst as = copies c (ie_uuid I) 0 cuts"
  shows "allocations_ok X I w as"
proof -
  have "distinct (map alloc_rg as)" using copies_distinct [OF ids(1), of c 0 cuts] by (simp add: comp_def flip: as)
  moreover have "shaped_rg (alloc_rg a) \<and> encodable X I w a \<and> pw_data_filename (fst a) = alloc_rg a @ ''.parquet'' \<and> pw_meta_filename (fst a) = alloc_rg a @ ''.meta''"
    if a: "a \<in> set as" for a
  proof -
    obtain p seg frag where eq: "a = (p, seg, frag)" by (cases a) auto
    have "p \<in> fst ` set as" using a eq by force
    then have p: "p \<in> set (copies c (ie_uuid I) 0 cuts)" by (simp flip: as)
    obtain rows where "rows \<in> set cuts" "pw_batch p = take_rows rows c" using copies_in [OF p] by blast
    then have conf: "conforms (w_arrow_schema w) (pw_batch p)" using planned_cuts_copy [OF c] by simp
    have "\<exists>m. compute_row_group_meta X (ie_kernels I) (ie_footer I) (pw_rg_id p) (sc_schema_id (w_schema w)) (pw_batch p) (w_schema w)
        (data_bytes I w (p, seg, frag)) (w_table w) [seg] = Inr m \<and> rgm_wf m"
      using laws w by (intro compute_row_group_meta_ok [OF _ _ _ conf]) (auto simp: insert_laws_def writer_ok_def)
    moreover have "ie_parquet I (w_arrow_schema w) (pw_batch p) \<noteq> None" using laws conf by (simp add: insert_laws_def)
    ultimately have "encodable X I w a" by (simp add: encodable_def eq)
    then show ?thesis using copies_filenames [OF p] ids(2) by (auto simp: eq)
  qed
  ultimately show ?thesis by (simp add: allocations_ok_def)
qed

lemma sequence_next: "mf_sequence m + 1 \<noteq> 0 \<Longrightarrow> mf_sequence m < mf_sequence m + 1"
  using unatSuc [of "mf_sequence m"] by (simp add: word_less_nat_alt add.commute)

context storage_contract
begin

text \<open>The first steps every commit on a table at rest takes.\<close>

lemma begin_commit_run:
  assumes rest: "at_rest X R (view s) table m" and q: "mf_sequence m + 1 \<noteq> 0"
  shows "\<exists>s1 D. load_current_manifest X H S table s = (Inr (mf_sequence m, m), s)
    \<and> cleanup_staging X S table (mf_sequence m) (manifest_referenced_files m) s = (Inr (), s1)
    \<and> st_exists S (tpath table (manifest_filename (mf_sequence m + 1))) s1 = (Inr False, s1)
    \<and> view s1 = without D (view s) \<and> D \<inter> table_paths table m = {} \<and> (\<forall>p. leftover table (mf_sequence m) p \<longrightarrow> view s1 p = None)"
proof -
  have t: "plain_piece table" using rest by (simp add: at_rest_def)
  have load: "load_current_manifest X H S table s = (Inr (mf_sequence m, m), s)"
    using load_current_manifest_run [OF t, of X s "mf_sequence m" m] rest by (simp add: at_rest_def)
  obtain s1 D where s1: "cleanup_staging X S table (mf_sequence m) (manifest_referenced_files m) s = (Inr (), s1)"
    "view s1 = without D (view s)" "\<forall>p. leftover table (mf_sequence m) p \<longrightarrow> view s1 p = None"
    "\<forall>p \<in> D. leftover table (mf_sequence m) p \<or> p \<in> intents_doomed X table (manifest_referenced_files m) (view s)"
    using cleanup_staging_run [OF t, of s X "manifest_referenced_files m" "mf_sequence m"] rest
    unfolding at_rest_def by blast
  have "D \<inter> table_paths table m = {}" using s1(4) rest unfolding at_rest_def by blast
  moreover have "leftover table (mf_sequence m) (tpath table (manifest_filename (mf_sequence m + 1)))"
    using manifest_direct stale_manifest_iff [OF t] sequence_next [OF q] by (simp add: leftover_def)
  then have "st_exists S (tpath table (manifest_filename (mf_sequence m + 1))) s1 = (Inr False, s1)"
    using exists_law [OF validate_manifest_path [OF t]] s1(3) by simp
  ultimately show ?thesis using load s1 by blast
qed

lemma verify_schema_pointer_run:
  assumes "plain_piece (w_table w)" "schema_current X (view s) w"
  shows "verify_schema_pointer X S (w_table w) (sc_schema_id (w_schema w)) s = (Inr (), s)"
proof -
  have "validate_path (tpath (w_table w) ''_schema.json'') = Inr (tpath (w_table w) ''_schema.json'')"
    using validate_tpath [OF assms(1), of "[''_schema.json'']"] by (simp add: join_path_def plain_piece_def)
  then show ?thesis
    using assms(2) by (auto simp: verify_schema_pointer_def schema_current_def Let_def io_bind_run read_law ok_or_def)
qed

end

lemma insert_files_rg_ids:
  assumes "\<forall>a \<in> set as. \<exists>i. alloc_rg a = unique_rg_id uuid i"
  shows "insert_files table as \<subseteq> rg_id_paths table uuid"
  using assms by (fastforce simp: insert_files_def rg_id_paths_def)

lemma new_data_apart:
  assumes t: "plain_piece table" and "shaped_rg rg" "e \<in> set (mf_row_groups m)" "rg_data e = rg @ ''.parquet''"
  shows "tpath table (rg @ ''.parquet'') \<in> named_paths table m \<inter> final_paths table rg"
proof -
  have "validate_path (tpath table (rg @ ''.parquet'')) = Inr (tpath table (rg @ ''.parquet''))"
    using assms(2) by (intro validate_rg_paths(2) [OF t]) (simp_all add: shaped_rg_def rg_suffixes_def)
  then have "tpath table (rg @ ''.parquet'') \<in> named_paths table m"
    using entry_referenced [OF assms(3), of "rg_data e"] assms(4) by (simp add: entry_files_def)
  then show ?thesis by (simp add: final_paths_def rg_suffixes_def)
qed

lemma catalog_not_rg: "CATALOG_PATH \<notin> insert_files table as"
proof
  assume "CATALOG_PATH \<in> insert_files table as"
  then obtain rel where "CATALOG_PATH = tpath table rel" by (auto simp: insert_files_def part_paths_def final_paths_def part_path_def)
  then show False using no_sep_catalog sep_tpath(1) [of table rel] by simp
qed

lemma part_not_commit:
  assumes "p \<in> part_paths table rg" "p \<noteq> intent_path table txn"
  shows "p \<notin> commit_paths table q txn"
proof
  obtain sfx where sfx: "sfx \<in> set rg_suffixes" "p = part_path table rg sfx" using assms(1) by (auto simp: part_paths_def)
  assume "p \<in> commit_paths table q txn"
  moreover have "zone table p = ''_staging''" by (simp add: sfx(2))
  ultimately have "p = checkpoint_part table q" using assms(2) unfolding commit_paths_def by auto
  then have "rg @ sfx = ''_checkpoint_'' @ pad_zeros 9 (show_nat (unat q)) @ ''.json''"
    by (simp add: sfx(2) part_path_def checkpoint_part_def flip: append_assoc)
  then have "last (rg @ sfx) = last (''_checkpoint_'' @ pad_zeros 9 (show_nat (unat q)) @ ''.json'')" by (rule arg_cong)
  then show False using sfx(1) by (auto simp: rg_suffixes_def)
qed

lemma intent_in_commit: "intent_path table txn \<in> commit_paths table q txn"
  by (simp add: commit_paths_def)

context storage_contract
begin

lemma try_commit_run:
  assumes laws: "insert_laws X I (w_arrow_schema w)" and w: "writer_ok (ie_ops I) w"
    and rest: "at_rest X R (view s) (w_table w) m" and ready: "insert_ready X (view s) I E w m"
  shows "\<exists>c cuts as nr nf rc pv parent prgs s' rb.
      conforms (w_arrow_schema w) c \<and> batch_rows c = concat (map batch_rows (w_buffer w)) \<and> planned_cuts X w c cuts
    \<and> allocate_planned (mf_next_row_id m) (mf_next_fragment_id m) (copies c (ie_uuid I) 0 cuts) = (as, nr, nf)
    \<and> allocations_ok X I w as
    \<and> try_commit X H R I S E w False (s, rollback_default) = (Inr (insertion_snapshot X E w m as rc pv nr nf parent, prgs), s', rb)
    \<and> rb_intent_path rb = intent_path (w_table w) (ce_txn_id E)
    \<and> insertion_done X I (view s) E w m as (insertion_snapshot X E w m as rc pv nr nf parent) (view s')
    \<and> map pr_meta prgs = map (staged_meta_of X I w) as \<and> map pr_agg_state prgs = map (read_agg X I w) as"
proof -
  define table q sid ip where "table = w_table w" and "q = mf_sequence m + 1" and "sid = sc_schema_id (w_schema w)"
    and "ip = intent_path (w_table w) (ce_txn_id E)"
  have t: "plain_piece table" using rest by (simp add: at_rest_def table_def)
  have X: "json_law X" and agg: "\<forall>st. ie_agg_parse I (ie_agg_print I st) \<noteq> None" using laws by (simp_all add: insert_laws_def)
  have q0: "q \<noteq> 0" and txn: "plain_piece (ce_txn_id E @ ''.json'')"
    and cur: "schema_current X (view s) w"
    and inj: "inj (ie_uuid I)" and shaped: "\<forall>i. shaped_rg (unique_rg_id (ie_uuid I) i)"
    and new: "\<forall>i. \<forall>p \<in> final_paths table (unique_rg_id (ie_uuid I) i). view s p = None"
    and apart: "named_paths table m \<inter> (commit_paths table q (ce_txn_id E) \<union> rg_id_paths table (ie_uuid I)) = {}"
    using ready by (simp_all add: insert_ready_def insert_apart_def table_def q_def ip_def)
  have part: "ip \<noteq> checkpoint_part table q" by (simp add: ip_def table_def intent_not_part)
  have ipn: "ip \<notin> rg_id_paths table (ie_uuid I)" using intent_not_rg [OF shaped] by (simp add: ip_def table_def)
  obtain data where data: "dc_of X (view s) = Some data" "table_indexes table data = []"
    using ready by (auto simp: insert_ready_def insert_apart_def table_def)
  have vip: "validate_path ip = Inr ip" using validate_intent_path [OF t txn] by (simp add: ip_def table_def)
  have ipc: "ip \<in> commit_paths table q (ce_txn_id E)" by (simp add: ip_def table_def intent_in_commit)
  obtain s1 D where s1: "load_current_manifest X H S table s = (Inr (mf_sequence m, m), s)"
    "cleanup_staging X S table (mf_sequence m) (manifest_referenced_files m) s = (Inr (), s1)"
    "st_exists S (tpath table (manifest_filename q)) s1 = (Inr False, s1)"
    "view s1 = without D (view s)" "D \<inter> table_paths table m = {}" "\<forall>p. leftover table (mf_sequence m) p \<longrightarrow> view s1 p = None"
    using begin_commit_run [OF rest, of H] q0 unfolding table_def q_def by blast
  obtain c cuts where c: "conforms (w_arrow_schema w) c" "batch_rows c = concat (map batch_rows (w_buffer w))"
    "plan_row_groups X (ie_ops I) (ie_order I) (ie_uuid I) w 0 = Inr (copies c (ie_uuid I) 0 cuts, length cuts)" "planned_cuts X w c cuts"
    using plan_row_groups_copies [of "ie_ops I" w "ie_order I" X "ie_uuid I" 0] laws w by (auto simp: insert_laws_def writer_ok_def)
  define ps where "ps = copies c (ie_uuid I) 0 cuts"
  obtain as nr nf where alloc: "allocate_planned (mf_next_row_id m) (mf_next_fragment_id m) ps = (as, nr, nf)"
    by (cases "allocate_planned (mf_next_row_id m) (mf_next_fragment_id m) ps") auto
  have as: "map fst as = ps" by (rule allocate_planned_spec(1) [OF alloc])
  have ok: "allocations_ok X I w as" by (rule planned_allocations_ok [OF laws w inj shaped c(1,4) as [unfolded ps_def]])
  have ids: "\<exists>i. alloc_rg a = unique_rg_id (ie_uuid I) i" if "a \<in> set as" for a
    using copies_filenames [of "fst a" c "ie_uuid I" 0 cuts] that as by (metis imageI list.set_map ps_def)
  note files_rg = insert_files_rg_ids [of as "ie_uuid I" table, OF ballI [OF ids]]
  obtain s2 where s2: "write_intent X S ip (ce_txn_id E) (ce_now E 0) sid (concat (map planned_files ps)) s1 = (Inr (), s2)"
    "\<forall>p. p \<noteq> ip \<longrightarrow> view s2 p = view s1 p"
    using write_intent_run [OF vip, of X "ce_txn_id E" "ce_now E 0" sid "concat (map planned_files ps)" s1] by auto
  have "view s2 p = None" if "a \<in> set as" "p \<in> final_paths table (alloc_rg a)" for a p
  proof -
    have "p \<noteq> ip" using ipn files_rg that by (auto simp: insert_files_def)
    moreover have "view s p = None" using new ids that by metis
    ultimately show ?thesis using s2(2) s1(4) by (simp add: without_def)
  qed
  then obtain s3 rb3 where s3: "stage_row_groups X I S E w as (length cuts) ip (s2, rollback_default\<lparr>rb_sequence := q, rb_intent_path := ip\<rparr>)
      = (Inr (map (rg_names \<circ> alloc_rg) as), s3, rb3)" "rb_intent_path rb3 = ip" "rb_pointer_updated rb3 = False"
    "all_promoted X I w as (view s3)" "\<forall>a \<in> set as. \<forall>p \<in> part_paths table (alloc_rg a). view s3 p = None"
    "\<forall>p. p \<notin> insert_files table as \<longrightarrow> view s3 p = view s2 p"
    using stage_row_groups_run [OF t [unfolded table_def] X ok, of s2 E "length cuts" ip "rollback_default\<lparr>rb_sequence := q, rb_intent_path := ip\<rparr>"]
    unfolding table_def rollback_default_def by force
  have parts: "map2 (\<lambda>name (_, _, frag). new_entry name frag) (map (rg_names \<circ> alloc_rg) as) as = map inserted_entry as"
    by (simp add: zip_map1 zip_same_conv_map inserted_entry_def case_prod_beta)
  define added where "added = map2 (\<lambda>p name. (pw_batch p, fst name)) ps (map (rg_names \<circ> alloc_rg) as)"
  have "conforms (w_arrow_schema w) b" if bd: "(b, d) \<in> set added" for b d
  proof -
    obtain p where "p \<in> set ps" "b = pw_batch p" using bd by (auto simp: added_def dest: set_zip_leftD)
    then obtain rows where "rows \<in> set cuts" "b = take_rows rows c" using copies_in [of p c "ie_uuid I" 0 cuts] by (auto simp: ps_def)
    then show ?thesis using planned_cuts_copy [OF c(1,4)] by simp
  qed
  then obtain pv where pv: "inserted_partition_values (w_schema w) table m added = Inr pv"
    using inserted_partition_values_ok [of added "w_arrow_schema w" "w_schema w" table m] w by (auto simp: writer_ok_def)
  obtain rc where rc: "collect_row_counts X S table (mf_row_groups m) m (map (of_nat \<circ> b_rows \<circ> pw_batch) ps) s3 = (Inr rc, s3)"
    using collect_row_counts_run by blast
  define man where "man = inserted_manifest q sid (mf_row_groups m @ map inserted_entry as) rc pv nr nf"
  have "CATALOG_PATH \<in> table_paths table m" "CATALOG_PATH \<noteq> ip"
    using no_sep_catalog sep_paths(1) [of table "ce_txn_id E"] by (auto simp: table_paths_def ip_def table_def)
  then have "view s3 CATALOG_PATH = view s CATALOG_PATH"
    using s1(4,5) s2(2) s3(6) catalog_not_rg by (auto simp: without_def)
  then have "dc_of X (view s3) = Some data" using dc_of_cong data(1) by metis
  then obtain s4 where s4: "build_indexes_into_manifest X R (ie_reader I) S E table sid man m (concat (map renamed_files (map (rg_names \<circ> alloc_rg) as))) ip True s3
      = (Inr (man, concat (map renamed_files (map (rg_names \<circ> alloc_rg) as))), s4)" "\<forall>p. p \<noteq> ip \<longrightarrow> view s4 p = view s3 p"
    using build_indexes_run [OF vip _ data(2)] by blast
  have named4: "view s4 p = view s p" if "p \<in> named_paths table m" for p
  proof -
    have "p \<noteq> ip" "p \<notin> insert_files table as" using that apart ipc files_rg by blast+
    then show ?thesis using s4(2) s3(6) s2(2) s1(4,5) that by (auto simp: without_def table_paths_def)
  qed
  have prom4: "all_promoted X I w as (view s4)"
  proof (rule all_promoted_cong [OF s3(4) ok])
    fix a p assume "a \<in> set as" "p \<in> final_paths (w_table w) (alloc_rg a)"
    then have "p \<noteq> ip" using ipn files_rg by (auto simp: insert_files_def table_def)
    then show "view s4 p = view s3 p" using s4(2) by simp
  qed
  have sums: "\<forall>e \<in> set (mf_row_groups man). summary_at X (view s4) (ce_cache E) (w_table w) m e \<noteq> None"
  proof
    fix e assume "e \<in> set (mf_row_groups man)"
    then consider "e \<in> set (mf_row_groups m)" | a where "a \<in> set as" "e = inserted_entry a" by (auto simp: man_def inserted_manifest_def)
    then have "meta_at X (view s4) (\<lambda>_. None) (tpath table (rg_meta e)) \<noteq> None"
    proof cases
      case 1
      then show ?thesis using rest entry_cong(1) [OF t 1, of "view s4" "view s" X "\<lambda>_. None"] named4 by (simp add: at_rest_def table_def)
    next
      case 2
      have "shaped_rg (alloc_rg a)" "encodable X I w a"
        "\<forall>(sfx, b) \<in> set (file_bytes X I w a). view s4 (tpath (w_table w) (alloc_rg a @ sfx)) = Some b"
        using ok prom4 2(1) by (auto simp: allocations_ok_def all_promoted_def)
      from promoted_meta [OF t [unfolded table_def] X this] show ?thesis by (simp add: 2(2) table_def del: inserted_entry_sel)
    qed
    then show "summary_at X (view s4) (ce_cache E) (w_table w) m e \<noteq> None" unfolding table_def by (rule summary_at_meta [OF meta_at_cache])
  qed
  let ?names = "map fst (map (rg_names \<circ> alloc_rg) as)"
  have names: "set ?names = (\<lambda>a. alloc_rg a @ ''.parquet'') ` set as" by (auto simp: rg_names_def)
  have "rg_data e \<notin> set ?names" if "e \<in> set (mf_row_groups m)" for e
  proof
    assume "rg_data e \<in> set ?names"
    then obtain a where a: "a \<in> set as" "rg_data e = alloc_rg a @ ''.parquet''" unfolding names by blast
    then have "tpath table (rg_data e) \<in> named_paths table m \<inter> final_paths table (alloc_rg a)"
      using new_data_apart [OF t _ that a(2)] ok by (simp add: allocations_ok_def)
    then show False using apart files_rg a(1) by (auto simp: insert_files_def)
  qed
  then have groups: "filter (\<lambda>e. rg_data e \<in> set ?names) (mf_row_groups man) = map inserted_entry as"
    unfolding man_def inserted_manifest_def by (simp add: filter_id_conv rg_names_def)
  obtain s5 parent prgs staged where s5: "publish_insert X I S E (w_table w) sid m man q (concat (map renamed_files (map (rg_names \<circ> alloc_rg) as))) ?names
        (intent_path (w_table w) (ce_txn_id E)) (s4, rb3)
      = (Inr (finalize X parent (ce_now E 4) (man\<lparr>mf_checkpoint := Some (cp_filename q)\<rparr>), prgs), s5, rb3\<lparr>rb_staged_files := staged, rb_pointer_updated := True\<rparr>)"
    "view s5 (tpath table ''_manifest.json'') = Some (json_to_string X (latest_pointer q))"
    "view s5 (tpath table (manifest_filename q))
      = Some (json_to_string X (manifest_value (finalize X parent (ce_now E 4) (man\<lparr>mf_checkpoint := Some (cp_filename q)\<rparr>))))"
    "\<forall>p. p \<notin> commit_paths table q (ce_txn_id E) \<longrightarrow> view s5 p = view s4 p"
    "map pr_meta prgs = map (staged_meta_of X I w) as" "map pr_agg_state prgs = map (read_agg X I w) as"
    using publish_insert_run [OF t [unfolded table_def] X txn part [unfolded ip_def table_def] sums ok prom4 agg groups,
        of sid "concat (map renamed_files (map (rg_names \<circ> alloc_rg) as))" rb3] unfolding table_def by blast
  define m' where "m' = insertion_snapshot X E w m as rc pv nr nf parent"
  have m': "finalize X parent (ce_now E 4) (man\<lparr>mf_checkpoint := Some (cp_filename q)\<rparr>) = m'"
    by (simp add: m'_def insertion_snapshot_def man_def q_def sid_def)
  have ipe: "intent_path table (ce_txn_id E) = ip" by (simp add: ip_def table_def)
  have run: "try_commit X H R I S E w False (s, rollback_default) = (Inr (m', prgs), s5, rb3\<lparr>rb_staged_files := staged, rb_pointer_updated := True\<rparr>)"
    unfolding try_commit_def Let_def table_def [symmetric] sid_def [symmetric] ip_def [folded table_def, symmetric]
    using s1(1-3) verify_schema_pointer_run [OF t [unfolded table_def] cur, folded table_def sid_def] c(3) [folded ps_def] s2(1) alloc s3(1) parts
      pv rc s4(1) s5(1) [folded table_def, unfolded ipe m']
    by (simp add: io_bind_run io_then_run sync_law added_def man_def q_def)
  have chain: "view s5 p = view s1 p" if "p \<notin> commit_paths table q (ce_txn_id E)" "p \<notin> insert_files table as" for p
    using that s5(4) s4(2) s3(6) s2(2) ipc by metis
  have "pointer_at X (view s5) table = PointerAt q" using q0 by (simp add: pointer_at_def s5(2) pointer_state_latest [OF X])
  moreover have "manifest_at X (view s5) table q = Some m'"
    using s5(3) by (simp add: manifest_at_def parse_manifest_def json_lawD [OF X] manifest_roundtrip finalize_verifies flip: m')
  moreover have "all_promoted X I w as (view s5)"
  proof (rule all_promoted_cong [OF prom4 ok])
    fix a p assume "a \<in> set as" "p \<in> final_paths (w_table w) (alloc_rg a)"
    then have "p \<notin> commit_paths table q (ce_txn_id E)"
      using ok by (intro final_not_commit(1) [of "alloc_rg a"]) (simp_all add: allocations_ok_def table_def)
    then show "view s5 p = view s4 p" using s5(4) by simp
  qed
  moreover have "view s5 p = None" if "a \<in> set as" "p \<in> part_paths table (alloc_rg a)" for a p
  proof -
    have "p \<noteq> ip" using ipn files_rg that by (auto simp: insert_files_def)
    then show ?thesis using s5(4) s4(2) s3(5) that part_not_commit [OF that(2)] by (simp add: ipe)
  qed
  moreover have "view s5 p = None" if "leftover table (mf_sequence m) p" "p \<notin> commit_paths table q (ce_txn_id E) \<union> insert_files table as" for p
    using chain s1(6) that by simp
  moreover have "view s5 p = without D (view s) p" if "p \<notin> commit_paths table q (ce_txn_id E) \<union> insert_files table as" for p
    using chain s1(4) that by simp
  ultimately have "insertion_done X I (view s) E w m as m' (view s5)"
    unfolding insertion_done_def Let_def table_def [symmetric] q_def [symmetric] using s1(5) by blast
  then show ?thesis
    using c(1,2,4) alloc [unfolded ps_def] ok run s3(2) s5(5,6) unfolding m'_def ip_def
    by (intro exI [of _ c] exI [of _ cuts] exI [of _ as] exI [of _ nr] exI [of _ nf] exI [of _ rc] exI [of _ pv] exI [of _ parent]
        exI [of _ prgs] exI [of _ s5] exI [of _ "rb3\<lparr>rb_staged_files := staged, rb_pointer_updated := True\<rparr>"]) simp
qed

end

end
