(* ===== verification/Insert_Rest.thy ===== *)
theory Insert_Rest
  imports Insert_Table
begin

text \<open>
  After the commit of buffered rows the table is at rest again: its files, its fragment ids and its row ids.
\<close>

section \<open>The cleared intent\<close>

lemma insertion_cleaned:
  assumes "insertion_done X I v E w m as m' v'" "allocations_ok X I w as"
  shows "insertion_done X I v E w m as m' (v'(intent_path (w_table w) (ce_txn_id E) := None))"
proof -
  let ?t = "w_table w" and ?ip = "intent_path (w_table w) (ce_txn_id E)" and ?q = "mf_sequence m + 1"
  let ?v = "v'(?ip := None)"
  have d: "insertion_done X I v E w m as m' v'" by fact
  have "tpath ?t ''_manifest.json'' \<noteq> ?ip" "tpath ?t (manifest_filename ?q) \<noteq> ?ip"
    by (rule zones_differ [of ?t], simp)+
  then have "pointer_at X ?v ?t = pointer_at X v' ?t" "manifest_at X ?v ?t ?q = manifest_at X v' ?t ?q"
    by (simp_all add: pointer_at_def manifest_at_def)
  moreover have "all_promoted X I w as ?v"
  proof (rule all_promoted_cong [of X I w as v'])
    fix a p assume a: "a \<in> set as" "p \<in> final_paths ?t (alloc_rg a)"
    then have "p \<notin> commit_paths ?t ?q (ce_txn_id E)"
      using assms(2) by (intro final_not_commit(1) [of "alloc_rg a"]) (simp_all add: allocations_ok_def)
    then have "p \<noteq> ?ip" using intent_in_commit by metis
    then show "?v p = v' p" by simp
  qed (use d assms(2) in \<open>simp_all add: insertion_done_def Let_def\<close>)
  moreover have "v' p = None \<Longrightarrow> ?v p = None" for p by simp
  moreover have "p \<notin> commit_paths ?t ?q (ce_txn_id E) \<union> F \<Longrightarrow> ?v p = v' p" for p F
    using intent_in_commit [of ?t "ce_txn_id E" ?q] by auto
  ultimately show ?thesis using d unfolding insertion_done_def Let_def by metis
qed

context storage_contract
begin

lemma commit_run:
  assumes laws: "insert_laws X I (w_arrow_schema w)" and w: "writer_ok (ie_ops I) w" and rows: "w_buffer w \<noteq> []"
    and rest: "at_rest X R (view s) (w_table w) m" and ready: "insert_ready X (view s) I E w m"
  shows "\<exists>c cuts as nr nf rc pv parent prgs s'.
      conforms (w_arrow_schema w) c \<and> batch_rows c = concat (map batch_rows (w_buffer w)) \<and> planned_cuts X w c cuts
    \<and> allocate_planned (mf_next_row_id m) (mf_next_fragment_id m) (copies c (ie_uuid I) 0 cuts) = (as, nr, nf)
    \<and> allocations_ok X I w as
    \<and> commit X H R I S E w s
        = (Inr (Inr (with_added_row_groups prgs (commit_delta_new m (insertion_snapshot X E w m as rc pv nr nf parent) Append)), cleared w), s')
    \<and> insertion_done X I (view s) E w m as (insertion_snapshot X E w m as rc pv nr nf parent) (view s')
    \<and> view s' (intent_path (w_table w) (ce_txn_id E)) = None
    \<and> map pr_meta prgs = map (staged_meta_of X I w) as \<and> map pr_agg_state prgs = map (read_agg X I w) as"
proof -
  let ?ip = "intent_path (w_table w) (ce_txn_id E)"
  have t: "plain_piece (w_table w)" using rest by (simp add: at_rest_def)
  obtain c cuts as nr nf rc pv parent prgs s1 rb where r:
    "conforms (w_arrow_schema w) c" "batch_rows c = concat (map batch_rows (w_buffer w))" "planned_cuts X w c cuts"
    "allocate_planned (mf_next_row_id m) (mf_next_fragment_id m) (copies c (ie_uuid I) 0 cuts) = (as, nr, nf)"
    "allocations_ok X I w as"
    "try_commit X H R I S E w False (s, rollback_default) = (Inr (insertion_snapshot X E w m as rc pv nr nf parent, prgs), s1, rb)"
    "rb_intent_path rb = ?ip"
    "insertion_done X I (view s) E w m as (insertion_snapshot X E w m as rc pv nr nf parent) (view s1)"
    "map pr_meta prgs = map (staged_meta_of X I w) as" "map pr_agg_state prgs = map (read_agg X I w) as"
    using try_commit_run [OF laws w rest ready, of H] by blast
  have load: "load_current_manifest X H S (w_table w) s = (Inr (mf_sequence m, m), s)"
    using load_current_manifest_run [OF t, of X s "mf_sequence m" m] rest by (simp add: at_rest_def)
  have vip: "validate_path ?ip = Inr ?ip" using validate_intent_path [OF t] ready by (simp add: insert_ready_def insert_apart_def)
  obtain s' x where s': "st_delete S ?ip s1 = (x, s')" "view s' = (view s1)(?ip := None)"
    using delete_law [OF vip, of s1] by blast
  have run: "commit X H R I S E w s
      = (Inr (Inr (with_added_row_groups prgs (commit_delta_new m (insertion_snapshot X E w m as rc pv nr nf parent) Append)), cleared w), s')"
    using rows load r(6,7) s'(1)
    by (simp add: commit_def run_commit_def io_bind_run io_then_run io_try_def sync_law)
  have fin: "insertion_done X I (view s) E w m as (insertion_snapshot X E w m as rc pv nr nf parent) (view s')"
    unfolding s'(2) by (rule insertion_cleaned [OF r(8,5)])
  have "view s' ?ip = None" by (simp add: s'(2))
  then show ?thesis
    using r(1-5) run fin r(9,10)
    by (intro exI [of _ c] exI [of _ cuts] exI [of _ as] exI [of _ nr] exI [of _ nf] exI [of _ rc] exI [of _ pv] exI [of _ parent]
        exI [of _ prgs] exI [of _ s']) simp
qed

end

section \<open>The files\<close>

lemma validate_commit:
  assumes t: "plain_piece table" and "plain_piece (txn @ ''.json'')" and p: "p \<in> commit_paths table q txn"
  shows "validate_path p = Inr p"
  using p validate_commit_paths [OF t] validate_manifest_path [OF t, of q] validate_intent_path [OF assms(1,2)]
    validate_pointer_path [OF t] unfolding commit_paths_def by auto

lemma validate_insert_files:
  assumes "plain_piece table" "\<forall>a \<in> set as. shaped_rg (alloc_rg a)" "p \<in> insert_files table as"
  shows "validate_path p = Inr p"
proof -
  obtain a sfx where "a \<in> set as" "sfx \<in> set rg_suffixes" "p = part_path table (alloc_rg a) sfx \<or> p = tpath table (alloc_rg a @ sfx)"
    using assms(3) unfolding insert_files_def part_paths_def final_paths_def by blast
  then show ?thesis using validate_rg_paths [OF assms(1), of "alloc_rg a" sfx] assms(2) by (auto simp: shaped_rg_def)
qed

lemma commit_intent: "is_intent table p \<Longrightarrow> p \<in> commit_paths table q txn \<Longrightarrow> p = intent_path table txn"
  using written_intent [of table p txn q] by (auto simp: delete_writes_def)

text \<open>The files that are written are neither the log nor, but for the intent and staged files, intents.\<close>

lemma insert_files_zone:
  assumes shaped: "\<forall>a \<in> set as. shaped_rg (alloc_rg a)" and p: "p \<in> insert_files table as"
  shows "zone table p \<noteq> ''_wal''" "is_intent table p \<Longrightarrow> \<exists>a \<in> set as. p \<in> part_paths table (alloc_rg a)"
proof -
  obtain a where a: "a \<in> set as" "p \<in> part_paths table (alloc_rg a) \<or> p \<in> final_paths table (alloc_rg a)"
    using p by (auto simp: insert_files_def)
  have part: "zone table p = ''_staging''" if "p \<in> part_paths table (alloc_rg a)" using that by (auto simp: part_paths_def)
  have final: "zone table p \<notin> {''_staging'', ''_wal''}" if "p \<in> final_paths table (alloc_rg a)"
    using final_not_commit(2) [OF _ that] shaped a(1) by auto
  show "zone table p \<noteq> ''_wal''" using a(2) part final by auto
  assume "is_intent table p"
  then have "zone table p = ''_staging''" using direct_zone(1) by (simp add: is_intent_def intents_dir_def)
  then show "\<exists>a \<in> set as. p \<in> part_paths table (alloc_rg a)" using a final by auto
qed

text \<open>What is kept from the moment the pointer was moved.\<close>

lemma insertion_same:
  assumes rest: "at_rest X R v (w_table w) m" and ready: "insert_ready X v I E w m" and ok: "allocations_ok X I w as"
    and ids: "\<forall>a \<in> set as. \<exists>i. alloc_rg a = unique_rg_id (ie_uuid I) i" and fin: "insertion_done X I v E w m as m' v'"
  shows "\<forall>p \<in> named_paths (w_table w) m. v' p = v p" "v' (wal_path (w_table w)) = None"
proof -
  let ?t = "w_table w" let ?C = "commit_paths ?t (mf_sequence m + 1) (ce_txn_id E)" and ?F = "insert_files ?t as"
  have shaped: "\<forall>a \<in> set as. shaped_rg (alloc_rg a)" using ok by (simp add: allocations_ok_def)
  obtain D where D: "D \<inter> table_paths ?t m = {}" "\<And>p. p \<notin> ?C \<Longrightarrow> p \<notin> ?F \<Longrightarrow> v' p = without D v p"
    using fin by (auto simp: insertion_done_def Let_def)
  have wal: "v (wal_path ?t) = None" using rest by (simp add: at_rest_def)
  have apart: "named_paths ?t m \<inter> (?C \<union> rg_id_paths ?t (ie_uuid I)) = {}" using ready by (simp add: insert_ready_def insert_apart_def)
  note files = insert_files_rg_ids [OF ids, of ?t]
  show "\<forall>p \<in> named_paths ?t m. v' p = v p"
  proof
    fix p assume p: "p \<in> named_paths ?t m"
    then have "p \<notin> ?C" "p \<notin> ?F" "p \<notin> D" using apart files D(1) by (auto simp: table_paths_def)
    then show "v' p = v p" using D(2) [of p] by (simp add: without_def)
  qed
  have "wal_path ?t \<notin> ?C" "wal_path ?t \<notin> ?F"
    using commit_paths_zone [of "wal_path ?t" ?t] insert_files_zone(1) [OF shaped, of "wal_path ?t" ?t] by auto
  then show "v' (wal_path ?t) = None" using D(2) wal by (simp add: without_def)
qed

lemma insertion_frame:
  assumes rest: "at_rest X R v (w_table w) m" and ready: "insert_ready X v I E w m" and ok: "allocations_ok X I w as"
    and fin: "insertion_done X I v E w m as m' v'" "v' (intent_path (w_table w) (ce_txn_id E)) = None"
  shows "clean_keys (dom v')" "\<And>e. is_intent (w_table w) e \<Longrightarrow> v' e = None"
proof -
  let ?t = "w_table w" let ?C = "commit_paths ?t (mf_sequence m + 1) (ce_txn_id E)" and ?F = "insert_files ?t as"
  have shaped: "\<forall>a \<in> set as. shaped_rg (alloc_rg a)" using ok by (simp add: allocations_ok_def)
  obtain D where D: "\<And>p. p \<notin> ?C \<Longrightarrow> p \<notin> ?F \<Longrightarrow> v' p = without D v p"
    using fin(1) by (auto simp: insertion_done_def Let_def)
  have t: "plain_piece ?t" and clean: "clean_keys (dom v)" and txn: "plain_piece (ce_txn_id E @ ''.json'')"
    using rest ready by (simp_all add: at_rest_def insert_ready_def insert_apart_def)
  show "clean_keys (dom v')"
    unfolding clean_keys_def
  proof
    fix p assume p: "p \<in> dom v'"
    consider "p \<in> ?C" | "p \<in> ?F" | "p \<in> dom v" using p D [of p] by (fastforce simp: without_def split: if_splits)
    then show "validate_path p = Inr p"
      using validate_commit [OF t txn] validate_insert_files [OF t shaped] clean by cases (auto simp: clean_keys_def)
  qed
  show "v' e = None" if e: "is_intent ?t e" for e
  proof -
    consider "e \<in> ?C" | "e \<in> ?F" | "e \<notin> ?C \<union> ?F" by blast
    then show ?thesis
    proof cases
      case 1
      then show ?thesis using commit_intent [OF e] fin(2) by metis
    next
      case 2
      then show ?thesis using insert_files_zone(2) [OF shaped 2 e] fin(1) by (auto simp: insertion_done_def Let_def)
    next
      case 3
      then show ?thesis using leftover_intent [OF e] fin(1) by (simp add: insertion_done_def Let_def)
    qed
  qed
qed

lemma insertion_named:
  assumes t: "plain_piece table" and shaped: "\<forall>a \<in> set as. shaped_rg (alloc_rg a)"
    and p: "p \<in> named_paths table (insertion_snapshot X E w m as rc pv nr nf parent)"
  shows "p \<in> named_paths table m \<or> zone table p = ''_checkpoints'' \<or> (\<exists>a \<in> set as. p \<in> final_paths table (alloc_rg a))"
proof -
  let ?q = "mf_sequence m + 1"
  obtain f where f: "f \<in> set (manifest_referenced_files (insertion_snapshot X E w m as rc pv nr nf parent))"
    "validate_path (tpath table f) = Inr p" using p by (auto simp: named_paths_def)
  consider e where "e \<in> set (mf_row_groups m)" "f \<in> set (entry_files e)" | a where "a \<in> set as" "f \<in> set (entry_files (inserted_entry a))"
    | "f \<in> {cp_filename ?q, checkpoint_archive_filename ?q}"
    using f(1) unfolding referenced_iff by auto
  then show ?thesis
  proof cases
    case 1
    then show ?thesis using f(2) by (auto intro: entry_referenced)
  next
    case 2
    then obtain sfx where "sfx \<in> set rg_suffixes" "f = alloc_rg a @ sfx" by (auto simp: entry_files_def rg_suffixes_def)
    then show ?thesis
      using validate_rg_paths(2) [OF t, of "alloc_rg a" sfx] shaped 2(1) f(2) by (auto simp: final_paths_def shaped_rg_def)
  next
    case 3
    then show ?thesis using f(2) validate_commit_paths(1,2) [OF t, of ?q] by auto
  qed
qed

section \<open>The fragment ids\<close>

lemma planned_count:
  assumes "buffer_ok A w" "batch_rows c = concat (map batch_rows (w_buffer w))" "planned_cuts X w c cuts"
  shows "b_rows c = w_buffered_rows w" "length cuts \<le> w_buffered_rows w" "length (concat cuts) = w_buffered_rows w"
proof -
  have "length (batch_rows c) = sum_list (map b_rows (w_buffer w))" unfolding assms(2) by (simp add: length_concat batch_rows_def comp_def)
  then show c: "b_rows c = w_buffered_rows w" using assms(1) by (simp add: buffer_ok_def batch_rows_def)
  have "mset (concat cuts) = mset [0..<b_rows c]" using assms(3) by (simp add: planned_cuts_def)
  then show n: "length (concat cuts) = w_buffered_rows w" using c by (metis length_upt minus_nat.diff_0 size_mset)
  have "length cuts \<le> length (concat cuts)" if "bounded_cuts k cuts" for k
    using that by (induction cuts) (auto simp: bounded_cuts_def Suc_le_eq intro: le_trans add_le_mono [of 1, simplified])
  then show "length cuts \<le> w_buffered_rows w" using assms(3) n by (auto simp: planned_cuts_def)
qed

lemma fragment_ids_distinct:
  assumes "distinct (map rg_fragment_id es)" "\<forall>e \<in> set es. rg_fragment_id e < n" "unat n + k < 2 ^ 64"
    "map (snd \<circ> snd) as = map (\<lambda>i. n + of_nat i) [0..<k]"
  shows "distinct (map rg_fragment_id (es @ map inserted_entry as))" "\<forall>e \<in> set (es @ map inserted_entry as). rg_fragment_id e < n + of_nat k"
proof -
  have u: "unat (n + of_nat i) = unat n + i" if "i \<le> k" for i
    using that assms(3) by (simp add: unat_add_no_wrap unat_of_nat)
  have ids: "map rg_fragment_id (map inserted_entry as) = map (\<lambda>i. n + of_nat i) [0..<k]" using assms(4) by (simp add: comp_def)
  have "inj_on (\<lambda>i. n + of_nat i) {0..<k}" using u by (intro inj_onI) (metis add_left_cancel atLeastLessThan_iff less_imp_le)
  then have "distinct (map rg_fragment_id (map inserted_entry as))" unfolding ids by (simp add: distinct_map)
  moreover have new: "n \<le> f \<and> f < n + of_nat k" if "f \<in> set (map rg_fragment_id (map inserted_entry as))" for f
    using that u [of k] u unfolding ids by (fastforce simp: word_le_nat_alt word_less_nat_alt)
  ultimately show "distinct (map rg_fragment_id (es @ map inserted_entry as))"
    using assms(1,2) unfolding map_append distinct_append by (fastforce simp: not_le [symmetric])
  have "n \<le> n + of_nat k" using u [of k] by (simp add: word_le_nat_alt)
  show "\<forall>e \<in> set (es @ map inserted_entry as). rg_fragment_id e < n + of_nat k"
  proof (intro ballI)
    fix e assume "e \<in> set (es @ map inserted_entry as)"
    then consider "e \<in> set es" | "rg_fragment_id e \<in> set (map rg_fragment_id (map inserted_entry as))"
      unfolding set_append set_map by blast
    then show "rg_fragment_id e < n + of_nat k"
      using assms(2) new \<open>n \<le> n + of_nat k\<close> by cases (blast intro: less_le_trans)+
  qed
qed

section \<open>At rest\<close>

lemma insertion_at_rest:
  assumes X: "json_law X" and rest: "at_rest X R v (w_table w) m" and ready: "insert_ready X v I E w m" and ok: "allocations_ok X I w as"
    and ids: "\<forall>a \<in> set as. \<exists>i. alloc_rg a = unique_rg_id (ie_uuid I) i"
    and fin: "insertion_done X I v E w m as m' v'" "v' (intent_path (w_table w) (ce_txn_id E)) = None"
    and m': "m' = insertion_snapshot X E w m as rc pv nr nf parent"
    and frags: "distinct (map rg_fragment_id (mf_row_groups m @ map inserted_entry as))"
  shows "at_rest X R v' (w_table w) m'"
proof -
  let ?t = "w_table w"
  note f = insertion_same [OF rest ready ok ids fin(1)] insertion_frame [OF rest ready ok fin]
  have t: "plain_piece ?t" and q0: "mf_sequence m + 1 \<noteq> 0" using rest ready by (simp_all add: at_rest_def insert_ready_def insert_apart_def)
  have shaped: "\<forall>a \<in> set as. shaped_rg (alloc_rg a)" using ok by (simp add: allocations_ok_def)
  have le: "mf_sequence m \<le> mf_sequence m + 1" using sequence_next [OF q0] by simp
  have entries: "deletes_wf R v' ?t e \<and> meta_at X v' (\<lambda>_. None) (tpath ?t (rg_meta e)) \<noteq> None"
    if e: "e \<in> set (mf_row_groups m @ map inserted_entry as)" for e
  proof -
    consider "e \<in> set (mf_row_groups m)" | a where "a \<in> set as" "e = inserted_entry a" using e by auto
    then show ?thesis
    proof cases
      case 1
      then show ?thesis using rest entry_cong(1) [OF t 1 f(1), of X "\<lambda>_. None"] entry_cong(2) [OF t 1 f(1), of R] by (simp add: at_rest_def)
    next
      case 2
      have "encodable X I w a" "\<forall>(sfx, b) \<in> set (file_bytes X I w a). v' (tpath ?t (alloc_rg a @ sfx)) = Some b"
        using ok fin(1) 2(1) by (auto simp: allocations_ok_def all_promoted_def insertion_done_def Let_def)
      from promoted_meta [OF t X bspec [OF shaped 2(1)] this] show ?thesis by (simp add: 2(2) deletes_wf_def)
    qed
  qed
  have named: "\<not> leftover ?t (mf_sequence m + 1) p \<and> p \<noteq> wal_path ?t" if p: "p \<in> named_paths ?t m'" for p
  proof -
    consider "p \<in> named_paths ?t m" | "zone ?t p = ''_checkpoints''" | a where "a \<in> set as" "p \<in> final_paths ?t (alloc_rg a)"
      using insertion_named [OF t shaped p [unfolded m']] by blast
    then show ?thesis
    proof cases
      case 1
      then show ?thesis using rest leftover_mono [OF _ le] by (auto simp: at_rest_def table_paths_def)
    next
      case 2
      then show ?thesis using leftover_zone [of ?t "mf_sequence m + 1" p] by auto
    next
      case 3
      then show ?thesis using final_not_commit(2) [OF _ 3(2)] shaped leftover_zone [of ?t "mf_sequence m + 1" p] by auto
    qed
  qed
  have none: "intents_valid X ?t (manifest_referenced_files m') v'" "intents_doomed X ?t (manifest_referenced_files m') v' = {e. is_intent ?t e}"
    using f(4) by (intro no_intents; blast)+
  have "\<not> leftover ?t (mf_sequence m + 1) p" if "p \<in> table_paths ?t m'" for p
    using that named manifest_not_leftover [OF t] pointer_not_leftover catalog_not_leftover by (auto simp: table_paths_def m')
  then have "\<forall>p \<in> table_paths ?t m'. \<not> leftover ?t (mf_sequence m + 1) p \<and> p \<notin> intents_doomed X ?t (manifest_referenced_files m') v'"
    using leftover_intent [of ?t _ "mf_sequence m + 1"] unfolding none(2) by blast
  moreover have "pointer_at X v' ?t = PointerAt (mf_sequence m + 1)" "manifest_at X v' ?t (mf_sequence m + 1) = Some m'"
    using fin(1) by (simp_all add: insertion_done_def Let_def)
  moreover have "wal_path ?t \<notin> named_paths ?t m'" using named by blast
  ultimately show ?thesis
    using t f(2,3) q0 entries frags none(1) unfolding at_rest_def m' insertion_snapshot_sel by blast
qed

end
