(* ===== verification/Insert_Crash.thy ===== *)
theory Insert_Crash
  imports Insert_Rest Delete_Crash
begin

text \<open>
  A crash during the commit of buffered rows: every state the disk passes through, partly written files included, has the files
  of the old snapshot as they were, and but for the last two its pointer too.
\<close>

section \<open>Programs that swap the pointer\<close>

text \<open>From a state with \<open>J\<close> the program leads to a state with \<open>Q\<close>, whether it fails or not.\<close>

definition leads :: "('s \<Rightarrow> bool) \<Rightarrow> ('s \<Rightarrow> bool) \<Rightarrow> ('s, 'a) io \<Rightarrow> bool" where
  "leads J Q m \<longleftrightarrow> (\<forall>s r s'. J s \<longrightarrow> m s = (r, s') \<longrightarrow> Q s')"

lemma leadsD: "leads J Q m \<Longrightarrow> J s \<Longrightarrow> m s = (r, s') \<Longrightarrow> Q s'"
  by (auto simp: leads_def)

lemma leads_keeps: "keeps J m \<Longrightarrow> (\<And>s. J s \<Longrightarrow> Q s) \<Longrightarrow> leads J Q m"
  by (auto simp: leads_def keeps_def)

lemma leads_bind:
  assumes "keeps J m" "\<And>s. J s \<Longrightarrow> Q s" "\<And>a. leads J Q (f a)"
  shows "leads J Q (io_bind m f)"
  unfolding leads_def
proof (intro allI impI)
  fix s r s' assume s: "J s" and run: "io_bind m f s = (r, s')"
  obtain x s1 where x: "m s = (x, s1)" by (cases "m s")
  then have s1: "J s1" using assms(1) s by (auto dest: keepsD)
  show "Q s'" using run x s1 assms(2) by (cases x) (auto dest: leadsD [OF assms(3)])
qed

lemma leads_then: "keeps J m \<Longrightarrow> (\<And>s. J s \<Longrightarrow> Q s) \<Longrightarrow> leads J Q n \<Longrightarrow> leads J Q (io_then m n)"
  unfolding io_then_def by (rule leads_bind)

lemma leads_lift_bind:
  assumes "\<And>s. J s \<Longrightarrow> Q s" "\<And>a. r = Inr a \<Longrightarrow> leads J Q (f a)"
  shows "leads J Q (io_bind (io_lift r) f)"
  using assms by (cases r) (auto simp: leads_def io_bind_run)

lemma leads_if: "(c \<Longrightarrow> leads J Q m) \<Longrightarrow> (\<not> c \<Longrightarrow> leads J Q n) \<Longrightarrow> leads J Q (if c then m else n)"
  by simp

lemma leads_case_prod: "(\<And>a b. x = (a, b) \<Longrightarrow> leads J Q (f a b)) \<Longrightarrow> leads J Q (case x of (a, b) \<Rightarrow> f a b)"
  by (cases x) simp

text \<open>Once the state has \<open>Q\<close>, the rest of the program keeps it.\<close>

lemma leads_then_keeps:
  assumes "leads J Q m" "keeps Q n"
  shows "leads J Q (io_then m n)"
  unfolding leads_def
proof (intro allI impI)
  fix s r s' assume s: "J s" and run: "io_then m n s = (r, s')"
  obtain x s1 where x: "m s = (x, s1)" by (cases "m s")
  then have s1: "Q s1" using assms(1) s by (auto dest: leadsD)
  show "Q s'" using run x s1 by (cases x) (auto simp: io_then_run dest: keepsD [OF assms(2)])
qed

section \<open>Beside the rollback record\<close>

definition beside :: "('s \<Rightarrow> bool) \<Rightarrow> (rollback_info \<Rightarrow> bool) \<Rightarrow> 's \<times> rollback_info \<Rightarrow> bool" where
  "beside J U = (\<lambda>(s, rb). J s \<and> U rb)"

abbreviation any_rollback :: "rollback_info \<Rightarrow> bool" where
  "any_rollback \<equiv> \<lambda>_. True"

lemma keeps_on_storage: "keeps J m \<Longrightarrow> keeps (beside J U) (on_storage m)"
  by (auto simp: keeps_def beside_def on_storage_def split: prod.splits)

lemma leads_on_storage: "leads J Q m \<Longrightarrow> leads (beside J U) (beside Q U) (on_storage m)"
  by (auto simp: leads_def beside_def on_storage_def split: prod.splits)

lemma keeps_note_rollback: "(\<And>rb. U rb \<Longrightarrow> U (f rb)) \<Longrightarrow> keeps (beside J U) (note_rollback f)"
  by (auto simp: keeps_def beside_def note_rollback_def split: prod.splits)

lemma keeps_on_storage_rb: "(\<And>rb. keeps J (m rb)) \<Longrightarrow> keeps (beside J U) (\<lambda>x. on_storage (m (f (snd x))) x)"
  by (auto simp: keeps_def beside_def on_storage_def split: prod.splits)

text \<open>Files of row groups with a random name may be added to the record.\<close>

definition row_group_names :: "(nat \<Rightarrow> string) \<Rightarrow> string set" where
  "row_group_names uuid = (\<Union>i. (\<lambda>sfx. unique_rg_id uuid i @ sfx) ` set rg_suffixes)"

definition stages :: "(nat \<Rightarrow> string) \<Rightarrow> (rollback_info \<Rightarrow> bool) \<Rightarrow> bool" where
  "stages uuid U \<longleftrightarrow> (\<forall>rb fs. U rb \<longrightarrow> set fs \<subseteq> row_group_names uuid \<longrightarrow> U (rb\<lparr>rb_staged_files := rb_staged_files rb @ fs\<rparr>))"

section \<open>The steps of a commit\<close>

context protected_storage
begin

lemma keeps_write_row_group_part:
  assumes "\<And>p. p \<in> part_paths (w_table w) rg \<Longrightarrow> free_path G p"
  shows "keeps J (write_row_group_part X I S w p rg ids frag)"
  unfolding write_row_group_part_def Let_def
  by (intro protected_rules assms) (auto simp: part_paths_def rg_suffixes_def)

lemma keeps_verify_row_group_checksum [keeps_rules]: "keeps J (verify_row_group_checksum X S pp mp)"
  unfolding verify_row_group_checksum_def by (intro keeps_rules)

lemma keeps_verify_staged: "keeps J write \<Longrightarrow> keeps J (verify_staged X S pp mp write)"
  unfolding verify_staged_def by (intro keeps_rules)

lemma keeps_promote_row_group:
  assumes "\<And>p. p \<in> part_paths table (unique_rg_id uuid i) \<union> final_paths table (unique_rg_id uuid i) \<Longrightarrow> free_path G p" "stages uuid U"
  shows "keeps (beside J U) (promote_row_group S table (unique_rg_id uuid i) (unique_rg_id uuid i @ ''.parquet'') (unique_rg_id uuid i @ ''.meta''))"
proof -
  have "U (rb\<lparr>rb_staged_files := rb_staged_files rb @ fs\<rparr>)"
    if "U rb" "set fs \<subseteq> (\<lambda>sfx. unique_rg_id uuid i @ sfx) ` set rg_suffixes" for rb fs
    using assms(2) that unfolding stages_def row_group_names_def by blast
  then show ?thesis
    unfolding promote_row_group_def Let_def
    by (intro keeps_rules keeps_on_storage keeps_note_rollback keeps_rename assms(1) free_deletable)
      (auto simp: part_paths_def final_paths_def rg_suffixes_def)
qed

lemma keeps_rename_row_group:
  assumes free: "\<And>p. p \<in> rg_id_paths (w_table w) (ie_uuid I) \<Longrightarrow> free_path G p" and U: "stages (ie_uuid I) U"
  shows "keeps (beside J U) (rename_row_group_with_collision_retry X I S w p ids frag left attempt (unique_rg_id (ie_uuid I) i)
    (unique_rg_id (ie_uuid I) i @ ''.parquet'') (unique_rg_id (ie_uuid I) i @ ''.meta'') n)"
proof (induction left arbitrary: attempt i n)
  case 0
  show ?case unfolding rename_row_group_with_collision_retry.simps by (rule keeps_throw)
next
  case (Suc left)
  have rg: "free_path G q" if "q \<in> part_paths (w_table w) (unique_rg_id (ie_uuid I) i) \<union> final_paths (w_table w) (unique_rg_id (ie_uuid I) i)" for q
    using that by (intro free) (auto simp: rg_id_paths_def)
  have part: "deletable G (part_path (w_table w) (unique_rg_id (ie_uuid I) i) sfx)" if "sfx \<in> set rg_suffixes" for sfx
    using that by (intro free_deletable rg) (auto simp: part_paths_def)
  show ?case
    unfolding rename_row_group_with_collision_retry.simps Let_def
    by (intro keeps_rules keeps_on_storage keeps_write_row_group_part keeps_verify_staged keeps_delete keeps_promote_row_group [OF _ U] Suc.IH rg part)
      (simp_all add: rg_suffixes_def)
qed

lemma keeps_stage_row_groups:
  assumes free: "\<And>p. p \<in> rg_id_paths (w_table w) (ie_uuid I) \<Longrightarrow> free_path G p" "free_path G ip" and U: "stages (ie_uuid I) U"
    and names: "\<And>p. p \<in> fst ` set as \<Longrightarrow> \<exists>i. pw_rg_id p = unique_rg_id (ie_uuid I) i
      \<and> pw_data_filename p = pw_rg_id p @ ''.parquet'' \<and> pw_meta_filename p = pw_rg_id p @ ''.meta''"
  shows "keeps (beside J U) (stage_row_groups X I S E w as n ip)"
proof -
  have "keeps J (write_row_group_part X I S w p (pw_rg_id p) [seg] frag)" if "(p, seg, frag) \<in> set as" for p seg frag
  proof (rule keeps_write_row_group_part)
    have "p \<in> fst ` set as" using that by force
    from names [OF this] obtain i where "pw_rg_id p = unique_rg_id (ie_uuid I) i" by blast
    then show "free_path G q" if "q \<in> part_paths (w_table w) (pw_rg_id p)" for q
      using that by (intro free) (auto simp: rg_id_paths_def)
  qed
  then have w: "keeps J (io_foldM (\<lambda>_ (p, seg, frag). write_row_group_part X I S w p (pw_rg_id p) [seg] frag) () as)"
    by (intro keeps_foldM keeps_case_prod) auto
  have r: "keeps (beside J U) (rename_row_group_with_collision_retry X I S w p [seg] frag 3 0 (pw_rg_id p) (pw_data_filename p) (pw_meta_filename p) k)"
    if "(p, seg, frag) \<in> set as" for p seg frag k
    using names [of p] that keeps_rename_row_group [OF free(1) U] by force
  have "keeps (beside J U) (io_foldM (\<lambda>(names, n) (p, seg, frag).
      io_bind (rename_row_group_with_collision_retry X I S w p [seg] frag 3 0 (pw_rg_id p) (pw_data_filename p) (pw_meta_filename p) n)
        (\<lambda>(renamed, n'). io_return (names @ [renamed], n'))) ([], n) as)"
    using r by (intro keeps_foldM) (auto intro!: keeps_bind keeps_case_prod keeps_return)
  then show ?thesis
    unfolding stage_row_groups_def Let_def using w free(2)
    by (intro keeps_rules keeps_on_storage keeps_write_intent)
qed

lemma keeps_read_each_meta_rows: "keeps J (read_each_meta_rows X S table es acc)"
  by (induction es arbitrary: acc) (auto simp: read_meta_rows_def intro!: keeps_rules)

lemma keeps_collect_row_counts [keeps_rules]: "keeps J (collect_row_counts X S table es m added)"
  unfolding collect_row_counts_def by (intro keeps_rules keeps_read_each_meta_rows)

lemma keeps_planned_row_group_for_entry [keeps_rules]: "keeps J (planned_row_group_for_entry X I S table e q pv)"
  unfolding planned_row_group_for_entry_def Let_def by (intro keeps_rules)

lemma keeps_finalize_manifest [keeps_rules]: "keeps J (finalize_manifest X S table now m q)"
  unfolding finalize_manifest_def parent_manifest_checksum_def by (intro keeps_rules)

lemma keeps_publish_plain:
  assumes "free_path G (tpath table (manifest_filename seq))" "free_path G (tpath table (manifest_filename seq) @ ''.tmp'')"
  shows "keeps J (publish_manifest X S table m seq (io_return ()))"
  unfolding publish_manifest_def stage_manifest_def verify_manifest_checksum_def Let_def using assms
  by (intro protected_rules) auto

end

section \<open>The states of the disk\<close>

text \<open>All states but the current one are as allowed.\<close>

definition seen_but_last :: "(string \<Rightarrow> bytes option \<Rightarrow> bool) \<Rightarrow> memory_storage traced \<Rightarrow> bool" where
  "seen_but_last G t \<longleftrightarrow> (\<forall>d \<in> set (tr_seen t). disk_ok G d \<or> d = tr_disk t)"

lemma seen_ok_but_last: "seen_ok (\<lambda>_. False) G t \<Longrightarrow> seen_but_last G t"
  by (simp add: seen_ok_def seen_but_last_def)

lemma rename_seen: "leads (seen_ok (\<lambda>_. False) G) (seen_but_last G) (st_rename traced_mem rf rt)"
  using traced_step_seen(2) by (fastforce simp: leads_def seen_ok_def seen_but_last_def)

lemma sync_seen: "keeps (seen_but_last G) (st_sync traced_mem p)"
  unfolding keeps_def by (simp add: tmem.sync_law del: traced_sel)

lemma publish_insert_seen:
  assumes free: "\<And>p. p \<in> commit_paths table q (ce_txn_id E) \<Longrightarrow> p \<noteq> tpath table ''_manifest.json'' \<Longrightarrow> free_path G p"
  shows "leads (beside (seen_ok (\<lambda>_. False) G) any_rollback) (beside (seen_but_last G) any_rollback)
    (publish_insert X I traced_mem E table sid m new q files names (intent_path table (ce_txn_id E)))"
proof -
  let ?J = "seen_ok (\<lambda>_. False) G"
  have sub: "beside ?J any_rollback x \<Longrightarrow> beside (seen_but_last G) any_rollback x" for x by (auto simp: beside_def intro: seen_ok_but_last)
  have zp: "zone table p \<noteq> ''_manifest.json'' \<Longrightarrow> p \<noteq> tpath table ''_manifest.json''" for p by auto
  have fp: "free_path G p" if "p \<in> commit_paths table q (ce_txn_id E)" "zone table p \<noteq> ''_manifest.json''" for p
    using that by (intro free zp)
  note frees = fp [unfolded commit_paths_def]
  have cp: "keeps ?J (write_checkpoint X (ce_archiver E) traced_mem (ce_local E) now table cp q (intent_path table (ce_txn_id E)) files staged
      (ce_txn_id E) sid)" for now cp staged
    by (rule prot.keeps_write_checkpoint; rule frees) simp_all
  have pm: "keeps ?J (publish_manifest X traced_mem table m' q (io_return ()))" for m'
    by (rule prot.keeps_publish_plain; rule frees) simp_all
  have tmp: "free_path G (tpath table ''_manifest.json.tmp'')" by (rule frees) simp_all
  have added: "keeps ?J (io_foldM (\<lambda>added e. io_bind (planned_row_group_for_entry X I traced_mem table e k (pv e)) (\<lambda>prg. io_return (added @ [prg]))) [] es)" for k pv es
    by (intro keeps_foldM keeps_bind prot.keeps_planned_row_group_for_entry keeps_return)
  have tail: "keeps (beside (seen_but_last G) any_rollback) (io_bind (on_storage (io_try (st_sync traced_mem p))) (\<lambda>r.
      io_then (note_rollback f) (case r of Inl e \<Rightarrow> io_throw e | Inr _ \<Rightarrow> io_return y)))" for p f y
    by (intro keeps_bind keeps_then keeps_on_storage keeps_note_rollback keeps_try sync_seen keeps_case_sum keeps_throw keeps_return) simp_all
  show ?thesis
    unfolding publish_insert_def Let_def
    by (rule leads_bind [OF keeps_on_storage [OF prot.keeps_build_snapshot_checkpoint] sub], assumption,
        rule leads_bind [OF keeps_on_storage_rb [OF cp] sub], assumption, (rule leads_case_prod)+,
        rule leads_then [OF keeps_note_rollback sub], simp, assumption,
        rule leads_bind [OF keeps_on_storage [OF prot.keeps_finalize_manifest] sub], assumption,
        rule leads_then [OF keeps_on_storage [OF pm] sub], assumption,
        rule leads_bind [OF keeps_on_storage [OF added] sub], assumption,
        rule leads_then [OF keeps_on_storage [OF prot.keeps_write [OF tmp]] sub], assumption,
        rule leads_then [OF keeps_on_storage [OF prot.keeps_sync] sub], assumption,
        rule leads_then_keeps [OF leads_on_storage [OF rename_seen] tail])
qed

section \<open>Protected files\<close>

lemma insert_free:
  assumes rest: "at_rest X R v (w_table w) m" and ready: "insert_apart X v I E w m"
  shows "p \<in> commit_paths (w_table w) (mf_sequence m + 1) (ce_txn_id E) \<Longrightarrow> p \<noteq> tpath (w_table w) ''_manifest.json'' \<Longrightarrow>
      free_path (before_swap v (w_table w) m) p"
    "p \<in> rg_id_paths (w_table w) (ie_uuid I) \<Longrightarrow> free_path (before_swap v (w_table w) m) p"
proof -
  let ?t = "w_table w" and ?q = "mf_sequence m + 1"
  have t: "plain_piece ?t" and txn: "plain_piece (ce_txn_id E @ ''.json'')" and shaped: "\<And>i. shaped_rg (unique_rg_id (ie_uuid I) i)"
    and apart: "named_paths ?t m \<inter> (commit_paths ?t ?q (ce_txn_id E) \<union> rg_id_paths ?t (ie_uuid I)) = {}"
    using rest ready by (simp_all add: at_rest_def insert_apart_def)
  have freeI: "free_path (before_swap v ?t m) p" if "validate_path p = Inr p" "p \<notin> named_paths ?t m" "p \<noteq> wal_path ?t" "p \<noteq> CATALOG_PATH"
      "p \<noteq> tpath ?t ''_manifest.json''" "p \<noteq> tpath ?t (manifest_filename (mf_sequence m))" for p
    using that by (simp add: free_path_def before_swap_def table_paths_def)
  have catalog: "p \<noteq> CATALOG_PATH" if "p = tpath ?t rel" for p rel using no_sep_catalog sep_tpath(1) [of ?t rel] that by auto
  show "free_path (before_swap v ?t m) p" if p: "p \<in> commit_paths ?t ?q (ce_txn_id E)" "p \<noteq> tpath ?t ''_manifest.json''"
  proof (rule freeI)
    show "p \<noteq> tpath ?t (manifest_filename (mf_sequence m))"
    proof
      assume eq: "p = tpath ?t (manifest_filename (mf_sequence m))"
      then have "zone ?t p = ''_manifests''" "last p = CHR ''n''" by (simp_all add: manifest_filename_def tpath_def zone_def)
      moreover have "last (tpath ?t (manifest_filename ?q) @ ''.tmp'') = CHR ''p''" by simp
      ultimately have "p = tpath ?t (manifest_filename ?q)" using p(1) unfolding commit_paths_def by auto
      then have "mf_sequence m = ?q" using manifest_path_inj [OF t] eq by metis
      then show False by simp
    qed
    show "p \<noteq> CATALOG_PATH"
    proof -
      have "CHR ''/'' \<in> set p" using p(1) sep_paths sep_tpath unfolding commit_paths_def by auto
      then show ?thesis using no_sep_catalog by metis
    qed
  qed (use p apart commit_paths_zone [OF p(1)] validate_commit [OF t txn p(1)] in auto)
  show "free_path (before_swap v ?t m) p" if p: "p \<in> rg_id_paths ?t (ie_uuid I)"
  proof -
    obtain i where i: "p \<in> part_paths ?t (unique_rg_id (ie_uuid I) i) \<or> p \<in> final_paths ?t (unique_rg_id (ie_uuid I) i)"
      using p by (auto simp: rg_id_paths_def)
    then obtain sfx where sfx: "sfx \<in> set rg_suffixes" "p = part_path ?t (unique_rg_id (ie_uuid I) i) sfx \<or> p = tpath ?t (unique_rg_id (ie_uuid I) i @ sfx)"
      by (auto simp: part_paths_def final_paths_def)
    have z: "zone ?t p \<notin> {''_manifests'', ''_manifest.json'', ''_wal''}"
      using i final_not_commit(2) [OF shaped, of p ?t i] by (auto simp: part_paths_def)
    show ?thesis
    proof (rule freeI)
      show "validate_path p = Inr p" using sfx validate_rg_paths [OF t, of "unique_rg_id (ie_uuid I) i" sfx] shaped [of i] by (auto simp: shaped_rg_def)
      show "p \<noteq> CATALOG_PATH" using sfx(2) catalog unfolding part_path_def by blast
    qed (use z p apart in auto)
  qed
qed

lemma build_indexes_seen:
  assumes "dc_of X v = Some data" "table_indexes table data = []" "free_path (before_swap v table m) ip"
  shows "keeps (seen_ok A (before_swap v table m)) (build_indexes_into_manifest X R PQ traced_mem E table sid manifest current files ip True)"
  unfolding keeps_def
proof (intro allI impI)
  fix s r s'
  assume ok: "seen_ok A (before_swap v table m) s"
    and run: "build_indexes_into_manifest X R PQ traced_mem E table sid manifest current files ip True s = (r, s')"
  have "mem_get (tr_disk s) CATALOG_PATH = v CATALOG_PATH"
    using ok by (auto simp: seen_ok_def disk_ok_def before_swap_def table_paths_def)
  then have dc: "dc_of X (mem_get (tr_disk s)) = Some data" using assms(1) dc_of_cong by metis
  obtain x s1 where x: "write_intent X traced_mem ip (ce_txn_id E) (ce_now E 2) sid files s = (x, s1)" by fastforce
  have "s' = s1"
    using run x dc assms(2) by (cases x) (simp_all add: build_indexes_into_manifest_def maintain_on_insert_def storage_contract.dc_load_run [OF tmem.storage_contract_axioms] ok_or_def
        Let_def io_bind_run io_then_run del: traced_sel)
  then show "seen_ok A (before_swap v table m) s'" using keepsD [OF prot.keeps_write_intent [OF assms(3)] ok x] by simp
qed

section \<open>The whole commit\<close>

text \<open>A program that runs from a given state.\<close>

definition ends_in :: "('s \<Rightarrow> bool) \<Rightarrow> ('s, 'a) io \<Rightarrow> 's \<Rightarrow> bool" where
  "ends_in Q m s \<longleftrightarrow> Q (snd (m s))"

lemma ends_in_bind: "m s = (Inr a, s1) \<Longrightarrow> ends_in Q (f a) s1 \<Longrightarrow> ends_in Q (io_bind m f) s"
  by (simp add: ends_in_def io_bind_run)

lemma ends_in_then: "m s = (Inr a, s1) \<Longrightarrow> ends_in Q n s1 \<Longrightarrow> ends_in Q (io_then m n) s"
  by (simp add: ends_in_def io_then_run)

lemma ends_in_leads: "leads J Q m \<Longrightarrow> J s \<Longrightarrow> ends_in Q m s"
  by (cases "m s") (auto simp: ends_in_def leads_def)

lemma try_commit_seen:
  assumes laws: "insert_laws X I (w_arrow_schema w)" and w: "writer_ok (ie_ops I) w" and seen: "tr_seen s = []"
    and rest: "at_rest X R (mem_get (tr_disk s)) (w_table w) m" and ready: "insert_ready X (mem_get (tr_disk s)) I E w m"
  shows "ends_in (beside (seen_but_last (before_swap (mem_get (tr_disk s)) (w_table w) m)) any_rollback) (try_commit X H R I traced_mem E w False) (s, rb)"
proof -
  define v G where "v = mem_get (tr_disk s)" and "G = before_swap v (w_table w) m"
  let ?t = "w_table w" and ?ip = "intent_path (w_table w) (ce_txn_id E)" and ?J = "beside (seen_ok (\<lambda>_. False) G) any_rollback" and ?Q = "beside (seen_but_last G) any_rollback"
  note rest' = rest [folded v_def] and ready' = ready [folded v_def]
  have t: "plain_piece ?t" and q0: "mf_sequence m + 1 \<noteq> 0" and cur: "schema_current X (mem_get (tr_disk s)) w"
    using rest ready by (simp_all add: at_rest_def insert_ready_def insert_apart_def)
  obtain s1 where s1: "load_current_manifest X H traced_mem ?t s = (Inr (mf_sequence m, m), s)"
    "cleanup_staging X traced_mem ?t (mf_sequence m) (manifest_referenced_files m) s = (Inr (), s1)"
    "st_exists traced_mem (tpath ?t (manifest_filename (mf_sequence m + 1))) s1 = (Inr False, s1)"
    using tmem.begin_commit_run [OF rest q0] by blast
  have "seen_ok (\<lambda>_. False) (in_cleanup v ?t m) s"
    using seen rest by (simp add: seen_ok_def disk_ok_def in_cleanup_def before_swap_def at_rest_def v_def)
  from keepsD [OF cleanup_spares [OF rest'] this s1(2)] have j1: "seen_ok (\<lambda>_. False) G s1"
    by (rule seen_ok_mono [rotated]) (simp add: in_cleanup_def G_def)
  have sub: "?J x \<Longrightarrow> ?Q x" for x by (auto simp: beside_def intro: seen_ok_but_last)
  have apart: "insert_apart X v I E w m" using ready' by (simp add: insert_ready_def)
  note free = insert_free [OF rest' apart, folded G_def]
  have ip: "free_path G ?ip" by (rule free(1) [OF intent_in_commit zones_differ [of ?t]]) simp
  obtain data where "dc_of X v = Some data" "table_indexes ?t data = []" using ready' by (auto simp: insert_ready_def insert_apart_def)
  from build_indexes_seen [OF this ip [unfolded G_def]]
  have bi: "keeps (seen_ok (\<lambda>_. False) G) (build_indexes_into_manifest X R (ie_reader I) traced_mem E ?t sid man m files ?ip True)" for sid man files
    by (simp add: G_def)
  obtain c cuts where plan: "plan_row_groups X (ie_ops I) (ie_order I) (ie_uuid I) w 0 = Inr (copies c (ie_uuid I) 0 cuts, length cuts)"
    using plan_row_groups_copies [of "ie_ops I" w "ie_order I" X "ie_uuid I" 0] laws w by (auto simp: insert_laws_def writer_ok_def)
  have stage: "keeps ?J (stage_row_groups X I traced_mem E w as n ?ip)"
    if "allocate_planned (mf_next_row_id m) (mf_next_fragment_id m) (copies c (ie_uuid I) 0 cuts) = (as, b)" for as b n
  proof (rule prot.keeps_stage_row_groups [OF free(2) ip])
    show "stages (ie_uuid I) any_rollback" by (simp add: stages_def)
    fix p assume "p \<in> fst ` set as"
    moreover have "map fst as = copies c (ie_uuid I) 0 cuts"
      by (rule allocate_planned_spec(1) [of "mf_next_row_id m" "mf_next_fragment_id m" _ as "fst b" "snd b"]) (simp add: that)
    ultimately have "p \<in> set (copies c (ie_uuid I) 0 cuts)" by (metis list.set_map)
    then show "\<exists>i. pw_rg_id p = unique_rg_id (ie_uuid I) i \<and> pw_data_filename p = pw_rg_id p @ ''.parquet'' \<and> pw_meta_filename p = pw_rg_id p @ ''.meta''"
      using copies_filenames by blast
  qed
  have tail: "leads ?J ?Q (io_bind (io_lift r) f)" if "\<And>a. r = Inr a \<Longrightarrow> leads ?J ?Q (f a)" for r f
    using sub that by (rule leads_lift_bind)
  show ?thesis
    unfolding v_def [symmetric] G_def [symmetric] try_commit_def Let_def
    apply (rule ends_in_bind, rule on_storage_eq, simp only: fst_conv, rule s1(1))
    apply (simp only: split_conv snd_conv)
    apply (rule ends_in_then, rule on_storage_eq, simp only: fst_conv, rule tmem.verify_schema_pointer_run [OF t cur])
    apply (rule ends_in_then, rule on_storage_eq, simp only: fst_conv, rule s1(2))
    apply (rule ends_in_bind, rule on_storage_eq, simp only: fst_conv, rule s1(3))
    apply (simp only: snd_conv if_False)
    apply (rule ends_in_leads [where J = ?J])
     apply (rule tail)
     apply (simp only: plan sum.inject, hypsubst, simp only: split_conv)
     apply (rule leads_then [OF keeps_note_rollback sub], simp, assumption)
     apply (rule leads_then [OF keeps_on_storage [OF prot.keeps_write_intent [OF ip]] sub], assumption)
     apply (rule leads_then [OF keeps_on_storage [OF prot.keeps_sync] sub], assumption)
     apply (rule leads_then [OF keeps_note_rollback sub], simp, assumption)
     apply (rule leads_case_prod, rule leads_case_prod)
     apply (rule leads_bind [OF stage sub], assumption, assumption)
     apply (rule tail)
     apply (rule leads_bind [OF keeps_on_storage [OF prot.keeps_collect_row_counts] sub], assumption)
     apply (simp only: not_False_eq_True)
     apply (rule leads_bind [OF keeps_on_storage [OF bi] sub], assumption)
     apply (rule leads_case_prod)
     apply (rule publish_insert_seen [OF free(1)], assumption, assumption)
    apply (simp add: beside_def j1)
    done
qed

text \<open>Every state is as before the pointer was moved, or as after it.\<close>

lemma commit_seen:
  assumes laws: "insert_laws X I (w_arrow_schema w)" and w: "writer_ok (ie_ops I) w" and rows: "w_buffer w \<noteq> []" and seen: "tr_seen s = []"
    and rest: "at_rest X R (mem_get (tr_disk s)) (w_table w) m" and ready: "insert_ready X (mem_get (tr_disk s)) I E w m"
    and run: "commit X H R I traced_mem E w s = (r, s')"
  shows "\<exists>c cuts as nr nf rc pv parent prgs.
      conforms (w_arrow_schema w) c \<and> batch_rows c = concat (map batch_rows (w_buffer w)) \<and> planned_cuts X w c cuts
    \<and> allocate_planned (mf_next_row_id m) (mf_next_fragment_id m) (copies c (ie_uuid I) 0 cuts) = (as, nr, nf)
    \<and> allocations_ok X I w as \<and> map pr_meta (prgs :: fragment_agg_state planned_row_group list) = map (staged_meta_of X I w) as
    \<and> (\<forall>d \<in> set (tr_seen s'). disk_ok (before_swap (mem_get (tr_disk s)) (w_table w) m) d
        \<or> insertion_done X I (mem_get (tr_disk s)) E w m as (insertion_snapshot X E w m as rc pv nr nf parent) (mem_get d))"
proof -
  let ?ip = "intent_path (w_table w) (ce_txn_id E)" and ?v = "mem_get (tr_disk s)"
  have t: "plain_piece (w_table w)" using rest by (simp add: at_rest_def)
  obtain c cuts as nr nf rc pv parent prgs s1 rb where r:
    "conforms (w_arrow_schema w) c" "batch_rows c = concat (map batch_rows (w_buffer w))" "planned_cuts X w c cuts"
    "allocate_planned (mf_next_row_id m) (mf_next_fragment_id m) (copies c (ie_uuid I) 0 cuts) = (as, nr, nf)"
    "allocations_ok X I w as" "map pr_meta prgs = map (staged_meta_of X I w) as"
    "try_commit X H R I traced_mem E w False (s, rollback_default) = (Inr (insertion_snapshot X E w m as rc pv nr nf parent, prgs), s1, rb)"
    "rb_intent_path rb = ?ip" "insertion_done X I ?v E w m as (insertion_snapshot X E w m as rc pv nr nf parent) (mem_get (tr_disk s1))"
    using tmem.try_commit_run [OF laws w rest ready, of H] by blast
  have load: "load_current_manifest X H traced_mem (w_table w) s = (Inr (mf_sequence m, m), s)"
    using tmem.load_current_manifest_run [OF t, of X s "mf_sequence m" m] rest by (simp add: at_rest_def)
  have but: "seen_but_last (before_swap ?v (w_table w) m) s1"
    using try_commit_seen [OF laws w seen rest ready, of H rollback_default] r(7) by (simp add: ends_in_def beside_def)
  have vip: "validate_path ?ip = Inr ?ip" using validate_intent_path [OF t] ready by (simp add: insert_ready_def insert_apart_def)
  obtain x s2 where s2: "st_delete traced_mem ?ip s1 = (x, s2)" "mem_get (tr_disk s2) = (mem_get (tr_disk s1))(?ip := None)"
    using tmem.delete_law [OF vip, of s1] by blast
  have "s' = s2"
    using run rows load r(7,8) s2(1)
    by (simp add: commit_def run_commit_def io_bind_run io_then_run io_try_def tmem.sync_law del: traced_sel)
  moreover have "set (tr_seen s2) \<subseteq> insert (tr_disk s2) (set (tr_seen s1))"
    using s2(1) traced_step_seen(2) unfolding traced_sel by blast
  moreover have "insertion_done X I ?v E w m as (insertion_snapshot X E w m as rc pv nr nf parent) (mem_get (tr_disk s2))"
    unfolding s2(2) by (rule insertion_cleaned [OF r(9,5)])
  ultimately have "\<forall>d \<in> set (tr_seen s'). disk_ok (before_swap ?v (w_table w) m) d
      \<or> insertion_done X I ?v E w m as (insertion_snapshot X E w m as rc pv nr nf parent) (mem_get d)"
    using but r(9) by (auto simp: seen_but_last_def)
  then show ?thesis
    using r(1-6)
    by (intro exI [of _ c] exI [of _ cuts] exI [of _ as] exI [of _ nr] exI [of _ nf] exI [of _ rc] exI [of _ pv] exI [of _ parent]
        exI [of _ prgs]) simp
qed

end
