(* ===== verification/Faulty_Sync.thy ===== *)
theory Faulty_Sync
  imports Insert_Crash
begin

text \<open>
  A store that may fail to synchronise: the memory store with a \<^verbatim>\<open>sync\<close> that reports errors whenever it likes. A program that
  succeeds on it did what it does on the memory store, so that what is known of runs on the memory store carries over.
\<close>

section \<open>The store\<close>

definition unsynced :: "(string \<Rightarrow> memory_storage \<Rightarrow> ierror option) \<Rightarrow> memory_storage storage" where
  "unsynced bad = mem_storage\<lparr>st_sync := \<lambda>raw s. (case bad raw s of None \<Rightarrow> Inr () | Some e \<Rightarrow> Inl e, s)\<rparr>"

lemma unsynced_sel [simp]:
  "st_read (unsynced bad) = st_read mem_storage" "st_size (unsynced bad) = st_size mem_storage"
  "st_read_range (unsynced bad) = st_read_range mem_storage" "st_write (unsynced bad) = st_write mem_storage"
  "st_append (unsynced bad) = st_append mem_storage" "st_delete (unsynced bad) = st_delete mem_storage"
  "st_rename (unsynced bad) = st_rename mem_storage" "st_list (unsynced bad) = st_list mem_storage"
  "st_exists (unsynced bad) = st_exists mem_storage"
  "st_sync (unsynced bad) raw s = (case bad raw s of None \<Rightarrow> Inr () | Some e \<Rightarrow> Inl e, s)"
  by (simp_all add: unsynced_def)

text \<open>It never fails: the memory store.\<close>

lemma unsynced_never: "unsynced (\<lambda>_ _. None) = mem_storage"
proof -
  have "mem_sync = (\<lambda>raw s. (Inr (), s))" by (intro ext) (simp add: mem_sync_def)
  then show ?thesis by (simp add: unsynced_def mem_storage_def)
qed

section \<open>Programs that do not synchronise\<close>

named_theorems sync_free "programs that are the same on both stores"

lemma sync_free_tables [sync_free]:
  "list_or_empty (unsynced bad) d = list_or_empty mem_storage d"
  "delete_quietly (unsynced bad) p = delete_quietly mem_storage p"
  "read_manifest_validated X (unsynced bad) p = read_manifest_validated X mem_storage p"
  "read_pointer_state X (unsynced bad) table = read_pointer_state X mem_storage table"
  "dc_load X (unsynced bad) = dc_load X mem_storage"
  "w_ensure_dir (unsynced bad) p = w_ensure_dir mem_storage p"
  "verify_schema_pointer X (unsynced bad) table sid = verify_schema_pointer X mem_storage table sid"
  "verify_manifest_checksum X (unsynced bad) p = verify_manifest_checksum X mem_storage p"
  "verify_row_group_checksum X (unsynced bad) p p' = verify_row_group_checksum X mem_storage p p'"
  "prev_summaries X (unsynced bad) table m = prev_summaries X mem_storage table m"
  "read_meta_cached X (unsynced bad) c p = read_meta_cached X mem_storage c p"
  "read_meta_rows X (unsynced bad) p = read_meta_rows X mem_storage p"
  "parent_manifest_checksum X (unsynced bad) table q = parent_manifest_checksum X mem_storage table q"
  "planned_row_group_for_entry X I (unsynced bad) table e q pv = planned_row_group_for_entry X I mem_storage table e q pv"
  "write_row_group_part X I (unsynced bad) w pw rg ids frag = write_row_group_part X I mem_storage w pw rg ids frag"
  "promote_row_group (unsynced bad) table rg d mt = promote_row_group mem_storage table rg d mt"
  "rollback_commit (unsynced bad) table rb = rollback_commit mem_storage table rb"
  by (unfold list_or_empty_def delete_quietly_def read_manifest_validated_def read_pointer_state_def dc_load_def w_ensure_dir_def
      verify_schema_pointer_def verify_manifest_checksum_def verify_row_group_checksum_def prev_summaries_def read_meta_cached_def read_meta_rows_def
      parent_manifest_checksum_def planned_row_group_for_entry_def write_row_group_part_def promote_row_group_def rollback_commit_def
      unsynced_sel) (rule refl)+

lemma sync_free_calls [sync_free]:
  "cleanup_intent X (unsynced bad) table ref e = cleanup_intent X mem_storage table ref e"
  "cleanup_dir (unsynced bad) d P = cleanup_dir mem_storage d P"
  "verify_staged X (unsynced bad) p p' wr = verify_staged X mem_storage p p' wr"
  "build_snapshot_checkpoint X (unsynced bad) c table m m' = build_snapshot_checkpoint X mem_storage c table m m'"
  "finalize_manifest X (unsynced bad) table now m q = finalize_manifest X mem_storage table now m q"
  by (unfold cleanup_intent_def cleanup_dir_def verify_staged_def build_snapshot_checkpoint_def finalize_manifest_def sync_free unsynced_sel)
    (rule refl)+

lemma sync_free_cleanup [sync_free]: "cleanup_staging X (unsynced bad) table q ref = cleanup_staging X mem_storage table q ref"
  by (unfold cleanup_staging_def sync_free) (rule refl)

lemma sync_free_rename [sync_free]:
  "rename_row_group_with_collision_retry X I (unsynced bad) w p ids frag k att rg d mt n = rename_row_group_with_collision_retry X I mem_storage w p ids frag k att rg d mt n"
  by (induction k arbitrary: att rg d mt n) (unfold rename_row_group_with_collision_retry.simps Let_def sync_free unsynced_sel, simp_all only:)

lemma sync_free_counts [sync_free]:
  "read_each_meta_rows X (unsynced bad) table es counts = read_each_meta_rows X mem_storage table es counts"
  "collect_row_counts X (unsynced bad) table es m added = collect_row_counts X mem_storage table es m added"
proof -
  show each: "read_each_meta_rows X (unsynced bad) table es counts = read_each_meta_rows X mem_storage table es counts" for es counts
    by (induction es arbitrary: counts) (unfold read_each_meta_rows.simps sync_free, simp_all only:)
  show "collect_row_counts X (unsynced bad) table es m added = collect_row_counts X mem_storage table es m added"
    by (unfold collect_row_counts_def each) (rule refl)
qed

text \<open>Neither does opening a table whose pointer is intact.\<close>

lemma load_unsynced:
  assumes "plain_piece table" "pointer_at X (mem_get s) table = PointerAt q" "manifest_at X (mem_get s) table q = Some m" "q \<noteq> 0"
    "mem_get s (wal_path table) = None"
  shows "load_current_manifest X H (unsynced bad) table s = (Inr (mf_sequence m, m), s)"
proof -
  have "read_records X H (unsynced bad) table s = (Inr [], s)"
    using assms(5) by (simp add: read_records_def io_simps mem.read_law [OF validate_wal_path [OF assms(1)]] ok_or_def is_not_found_def del: mem_storage_sel)
  moreover have "load_checkpoint_manifest X (unsynced bad) table s = (Inr (q, m), s)"
    using assms mem.read_manifest_validated_run(1) [OF assms(1,3)]
    by (simp add: load_checkpoint_manifest_def mem.read_pointer_state_run Let_def io_simps sync_free del: mem_storage_sel)
  ultimately show ?thesis using assms(4) by (simp add: load_current_manifest_def live_manifest_def)
qed

section \<open>Programs that do\<close>

text \<open>What the first program returns from the state, the second returns too.\<close>

definition agrees :: "('s, 'a) io \<Rightarrow> ('s, 'a) io \<Rightarrow> bool" where
  "agrees m' m \<longleftrightarrow> (\<forall>s a s'. m' s = (Inr a, s') \<longrightarrow> m s = (Inr a, s'))"

named_theorems agrees_rules "rules that carry the agreement of two programs through their parts"

lemma agreesD: "agrees m' m \<Longrightarrow> m' s = (Inr a, s') \<Longrightarrow> m s = (Inr a, s')"
  by (simp add: agrees_def)

lemma agrees_refl [agrees_rules]: "agrees m m"
  by (simp add: agrees_def)

lemma agrees_bind [agrees_rules]: "agrees m' m \<Longrightarrow> (\<And>a. agrees (f' a) (f a)) \<Longrightarrow> agrees (io_bind m' f') (io_bind m f)"
  by (fastforce simp: agrees_def io_bind_def split: prod.splits sum.splits)

lemma agrees_then [agrees_rules]: "agrees m' m \<Longrightarrow> agrees n' n \<Longrightarrow> agrees (io_then m' n') (io_then m n)"
  unfolding io_then_def by (rule agrees_bind)

lemma agrees_if [agrees_rules]: "agrees m' m \<Longrightarrow> agrees n' n \<Longrightarrow> agrees (if c then m' else n') (if c then m else n)"
  by simp

lemma agrees_case_prod [agrees_rules]: "(\<And>a b. agrees (f' a b) (f a b)) \<Longrightarrow> agrees (case x of (a, b) \<Rightarrow> f' a b) (case x of (a, b) \<Rightarrow> f a b)"
  by (cases x) simp

lemma agrees_on_storage [agrees_rules]: "agrees m' m \<Longrightarrow> agrees (on_storage m') (on_storage m)"
  by (force simp: agrees_def on_storage_def split: prod.splits)

lemma agrees_sync [agrees_rules]: "agrees (st_sync (unsynced bad) raw) (st_sync mem_storage raw)"
  by (simp add: agrees_def mem.sync_law del: mem_storage_sel split: option.splits)

lemma agrees_write_intent [agrees_rules]: "agrees (write_intent X (unsynced bad) p txn now sid files) (write_intent X mem_storage p txn now sid files)"
  unfolding write_intent_def unsynced_sel(1-9) by (intro agrees_rules)

lemma agrees_publish_manifest [agrees_rules]:
  "agrees (publish_manifest X (unsynced bad) table m q (io_return ())) (publish_manifest X mem_storage table m q (io_return ()))"
  unfolding publish_manifest_def stage_manifest_def Let_def unsynced_sel(1-9) sync_free by (intro agrees_rules)

lemma agrees_stage_row_groups [agrees_rules]:
  "agrees (stage_row_groups X I (unsynced bad) E w as n ip) (stage_row_groups X I mem_storage E w as n ip)"
  unfolding stage_row_groups_def Let_def unsynced_sel(1-9) sync_free by (intro agrees_rules)

text \<open>A store whose \<^verbatim>\<open>sync\<close> fails while the archive of a checkpoint is written is one that cannot write archives.\<close>

definition no_archiver :: archiver where
  "no_archiver = \<lparr>rkyv_to_bytes = (\<lambda>_. None), rkyv_access = (\<lambda>_. None)\<rparr>"

lemma delete_written:
  assumes "mem_write p b s = (Inr (), s1)"
  shows "snd (mem_delete p s1) = snd (mem_delete p s)"
proof -
  have "AList.delete k (AList.update k v xs) = AList.delete k xs" for k :: string and v :: bytes and xs by (induction xs) auto
  moreover have "AList.delete k xs = xs" if "map_of xs k = None" for k :: string and xs :: "(string \<times> bytes) list"
    using that by (induction xs) (auto split: if_splits)
  ultimately show ?thesis
    using assms by (auto simp: mem_write_def mem_delete_def io_bind_def io_lift_def update_conv' split: sum.splits option.splits)
qed

lemma write_archive_unsynced:
  assumes "write_archive X K (unsynced bad) table c q s = (Inr a, s')"
  shows "write_archive X K mem_storage table c q s = (Inr a, s') \<or> write_archive X no_archiver mem_storage table c q s = (Inr a, s')"
proof (cases "to_archive_bytes X K c = []")
  case True
  then show ?thesis using assms by (simp add: write_archive_def)
next
  case False
  let ?tmp = "tpath table (checkpoint_archive_filename q) @ ''.tmp''"
  have none: "to_archive_bytes X no_archiver c = []" by (simp add: to_archive_bytes_def no_archiver_def)
  obtain r s1 where w: "mem_write ?tmp (to_archive_bytes X K c) s = (r, s1)" by fastforce
  show ?thesis
  proof (cases "r = Inr () \<and> bad ?tmp s1 \<noteq> None")
    case True
    then obtain e where "bad ?tmp s1 = Some e" by auto
    then have "a = []" "s' = snd (mem_delete ?tmp s1)"
      using assms False w True by (auto simp: write_archive_def Let_def io_bind_run io_then_run io_try_def split: prod.splits)
    then show ?thesis
      using delete_written [of ?tmp _ s s1] w True none by (simp add: write_archive_def Let_def io_then_run io_try_def split: prod.splits)
  next
    case False
    then have "write_archive X K (unsynced bad) table c q s = write_archive X K mem_storage table c q s"
      using w by (auto simp: write_archive_def Let_def io_bind_run io_then_run io_try_def mem_sync_def split: sum.splits)
    then show ?thesis using assms by simp
  qed
qed

lemma write_checkpoint_unsynced:
  assumes "write_checkpoint X K (unsynced bad) local now table c q ip files staged txn sid s = (Inr a, s')"
  shows "\<exists>K'. write_checkpoint X K' mem_storage local now table c q ip files staged txn sid s = (Inr a, s')"
proof -
  let ?to = "\<lambda>S n. io_then (w_ensure_dir S (tpath table ''_checkpoints'')) (io_then (st_write S (checkpoint_part table q) (json_to_string X (snapshot_checkpoint_value c)))
    (io_then (st_sync S (checkpoint_part table q)) (io_then (write_intent X S ip txn now sid (files @ [cp_filename q]))
    (io_then (st_rename S (checkpoint_part table q) (tpath table (cp_filename q))) n))))"
  have split: "write_checkpoint X K S local now table c q ip files staged txn sid
      = io_then (?to S (io_return ())) (if local then io_bind (write_archive X K S table c q) (\<lambda>arch. io_return (cp_filename q, files @ [cp_filename q], staged @ cp_filename q # arch))
          else io_return (cp_filename q, files @ [cp_filename q], staged @ [cp_filename q]))" for K and S :: "memory_storage storage"
    by (rule ext) (simp add: write_checkpoint_def Let_def io_then_def io_bind_def split: prod.splits sum.splits)
  have "agrees (?to (unsynced bad) (io_return ())) (?to mem_storage (io_return ()))"
    unfolding unsynced_sel(1-9) sync_free by (intro agrees_rules)
  then obtain s1 where s1: "?to mem_storage (io_return ()) s = (Inr (), s1)"
    "(if local then io_bind (write_archive X K (unsynced bad) table c q) (\<lambda>arch. io_return (cp_filename q, files @ [cp_filename q], staged @ cp_filename q # arch))
      else io_return (cp_filename q, files @ [cp_filename q], staged @ [cp_filename q])) s1 = (Inr a, s')"
    using assms unfolding split io_then_run [of "?to S n" for S n] by (auto dest: agreesD split: prod.splits sum.splits)
  show ?thesis
  proof (cases local)
    case True
    then obtain arch where arch: "write_archive X K (unsynced bad) table c q s1 = (Inr arch, s')" "a = (cp_filename q, files @ [cp_filename q], staged @ cp_filename q # arch)"
      using s1(2) by (auto simp: io_bind_run split: prod.splits sum.splits)
    then obtain K' where "write_archive X K' mem_storage table c q s1 = (Inr arch, s')" using write_archive_unsynced by blast
    then show ?thesis using s1(1) arch(2) True unfolding split by (intro exI [of _ K']) (simp add: io_then_run [of "?to S n" for S n] io_bind_run)
  next
    case False
    then show ?thesis using s1 unfolding split by (simp add: io_then_run [of "?to S n" for S n])
  qed
qed

end
