(* ===== verification/Insert_Rollback.thy ===== *)
theory Insert_Rollback
  imports Faulty_Sync
begin

text \<open>
  A commit of buffered rows that fails, whatever the reason, also because the store could not synchronise, is undone and leaves the table
  as it was, unless the pointer has moved: then the disk is the one a successful commit leaves.
\<close>

section \<open>Disks whose files are as allowed\<close>

interpretation pmem: protected_storage "unsynced bad" "disk_ok G" G for bad G
proof unfold_locales
  fix raw rf rt d e p :: string and b es and s s' :: memory_storage and off n
  have pure: "keeps (disk_ok G) m" if "\<And>d. snd (m d) = d" for m :: "(memory_storage, 'x) io"
    using that by (auto simp: keeps_def) (metis snd_conv)
  show "keeps (disk_ok G) (st_read (unsynced bad) raw)" "keeps (disk_ok G) (st_size (unsynced bad) raw)"
    "keeps (disk_ok G) (st_read_range (unsynced bad) raw off n)" "keeps (disk_ok G) (st_list (unsynced bad) raw)"
    "keeps (disk_ok G) (st_exists (unsynced bad) raw)"
    unfolding unsynced_sel mem_storage_sel by (rule pure, rule mem_reads_pure)+
  show "keeps (disk_ok G) (st_sync (unsynced bad) raw)" by (rule pure) simp
  show "keeps (disk_ok G) (st_write (unsynced bad) raw b)" "keeps (disk_ok G) (st_append (unsynced bad) raw b)" if "free_path G raw"
    unfolding unsynced_sel mem_storage_sel keeps_def using disk_ok_write [OF _ that] by (metis snd_conv)+
  show "keeps (disk_ok G) (st_delete (unsynced bad) raw)" if "deletable G raw"
    unfolding unsynced_sel mem_storage_sel keeps_def using disk_ok_delete [OF _ that] by (metis snd_conv)
  show "keeps (disk_ok G) (st_rename (unsynced bad) rf rt)" if "deletable G rf" "free_path G rt"
    unfolding unsynced_sel mem_storage_sel keeps_def using disk_ok_rename [OF _ that] by (metis snd_conv)
  show "G p (Some b)" if s: "disk_ok G s" and r: "st_read (unsynced bad) raw s = (Inr b, s')" and p: "validate_path raw = Inr p"
  proof -
    have "mem_get s p = Some b"
      using mem.read_law [OF p, of s] r by (cases "mem_get s p") (simp_all add: ok_or_def del: mem_storage_sel)
    then show ?thesis using s unfolding disk_ok_def by metis
  qed
  show "validate_path e = Inr e \<and> direct d e"
    if s: "disk_ok G s" and d: "validate_path d = Inr d" and l: "st_list (unsynced bad) d s = (Inr es, s')" and e: "e \<in> set es"
  proof -
    have "es = sorted_list_of_set (dir_children d (dom (mem_get s)))"
      using mem.list_law [OF d refl, of s] l by (simp split: if_splits del: mem_storage_sel)
    then have "e \<in> dir_children d (dom (mem_get s))" using e mem.set_list_children [of d s] by simp
    then show ?thesis using s child_direct children_clean by (auto simp: disk_ok_def)
  qed
qed

section \<open>Programs that may fail\<close>

text \<open>The program keeps \<open>J\<close>, and its result, if it has one, satisfies \<open>K\<close>.\<close>

definition gives :: "('s \<Rightarrow> bool) \<Rightarrow> ('a \<Rightarrow> bool) \<Rightarrow> ('s, 'a) io \<Rightarrow> bool" where
  "gives J K m \<longleftrightarrow> (\<forall>s r s'. J s \<longrightarrow> m s = (r, s') \<longrightarrow> J s' \<and> (\<forall>a. r = Inr a \<longrightarrow> K a))"

text \<open>
  When the first program fails, the state has \<open>P\<close>, or the pointer has moved and one of the second programs succeeds in the same
  state.
\<close>

definition late ::
  "('s \<times> rollback_info \<Rightarrow> bool) \<Rightarrow> ('s \<times> rollback_info, 'a) io \<Rightarrow> ('k \<Rightarrow> ('s \<times> rollback_info, 'a) io) \<Rightarrow> bool" where
  "late P m' m \<longleftrightarrow> (\<forall>x e x'. P x \<longrightarrow> m' x = (Inl e, x') \<longrightarrow> P x' \<or> rb_pointer_updated (snd x') \<and> (\<exists>k y. m k x = (Inr y, x')))"

text \<open>From states with \<open>P\<close> the second program returns what the first does, for some choice.\<close>

definition agrees_on :: "('s \<Rightarrow> bool) \<Rightarrow> ('s, 'a) io \<Rightarrow> ('k \<Rightarrow> ('s, 'a) io) \<Rightarrow> bool" where
  "agrees_on P m' m \<longleftrightarrow> (\<forall>x a x'. P x \<longrightarrow> m' x = (Inr a, x') \<longrightarrow> (\<exists>k. m k x = (Inr a, x')))"

lemma on_storage_Inr: "on_storage m x = (Inr a, x') \<longleftrightarrow> m (fst x) = (Inr a, fst x') \<and> snd x' = snd x"
  by (cases x') (auto simp: on_storage_def split: prod.splits)

lemma agrees_onI: "agrees m' m \<Longrightarrow> agrees_on P m' (\<lambda>_. m)"
  by (simp add: agrees_on_def agrees_def)

lemma late_choose:
  assumes "gives P K m'" "agrees_on P m' m" "\<And>a. K a \<Longrightarrow> late P (f' a) (\<lambda>_ :: unit. f a)"
  shows "late P (io_bind m' f') (\<lambda>k. io_bind (m k) f)"
  unfolding late_def
proof (intro allI impI)
  fix x e x' assume x: "P x" and run: "io_bind m' f' x = (Inl e, x')"
  obtain r x1 where r: "m' x = (r, x1)" by (cases "m' x")
  then have x1: "P x1" "\<And>a. r = Inr a \<Longrightarrow> K a" using assms(1) x unfolding gives_def by blast+
  show "P x' \<or> rb_pointer_updated (snd x') \<and> (\<exists>k y. io_bind (m k) f x = (Inr y, x'))"
  proof (cases r)
    case (Inr a)
    then have "f' a x1 = (Inl e, x')" using run r by (simp add: io_bind_run)
    then have "P x' \<or> rb_pointer_updated (snd x') \<and> (\<exists>y. f a x1 = (Inr y, x'))"
      using assms(3) [OF x1(2) [OF Inr]] x1(1) unfolding late_def by blast
    moreover obtain k where "m k x = (Inr a, x1)" using assms(2) x r unfolding agrees_on_def Inr by blast
    then have "io_bind (m k) f x = f a x1" by (simp add: io_bind_run)
    ultimately show ?thesis by metis
  qed (use run r x1 in \<open>simp add: io_bind_run\<close>)
qed

lemma late_gives:
  assumes "gives P K m'" "agrees_on P m' (\<lambda>_ :: unit. m)" "\<And>a. K a \<Longrightarrow> late P (f' a) (\<lambda>k. f k a)"
  shows "late P (io_bind m' f') (\<lambda>k. io_bind m (f k))"
  unfolding late_def
proof (intro allI impI)
  fix x e x' assume x: "P x" and run: "io_bind m' f' x = (Inl e, x')"
  obtain r x1 where r: "m' x = (r, x1)" by (cases "m' x")
  then have x1: "P x1" "\<And>a. r = Inr a \<Longrightarrow> K a" using assms(1) x unfolding gives_def by blast+
  show "P x' \<or> rb_pointer_updated (snd x') \<and> (\<exists>k y. io_bind m (f k) x = (Inr y, x'))"
  proof (cases r)
    case (Inr a)
    then have "f' a x1 = (Inl e, x')" using run r by (simp add: io_bind_run)
    then have "P x' \<or> rb_pointer_updated (snd x') \<and> (\<exists>k y. f k a x1 = (Inr y, x'))"
      using assms(3) [OF x1(2) [OF Inr]] x1(1) unfolding late_def by blast
    moreover have "m x = (Inr a, x1)" using assms(2) x r unfolding agrees_on_def Inr by blast
    then have "io_bind m (f k) x = f k a x1" for k by (simp add: io_bind_run)
    ultimately show ?thesis by simp
  qed (use run r x1 in \<open>simp add: io_bind_run\<close>)
qed

lemma gives_keeps: "keeps J m \<Longrightarrow> gives J (\<lambda>_. True) m"
  by (auto simp: gives_def keeps_def)

lemma late_bind: "keeps P m' \<Longrightarrow> agrees m' m \<Longrightarrow> (\<And>a. late P (f' a) (\<lambda>k. f k a)) \<Longrightarrow> late P (io_bind m' f') (\<lambda>k. io_bind m (f k))"
  by (rule late_gives [OF gives_keeps agrees_onI])

lemma late_then: "keeps P m' \<Longrightarrow> agrees m' m \<Longrightarrow> late P n' n \<Longrightarrow> late P (io_then m' n') (\<lambda>k. io_then m (n k))"
  unfolding io_then_def by (rule late_bind)

lemma late_lift_bind: "(\<And>a. r = Inr a \<Longrightarrow> late P (f' a) (\<lambda>k. f k a)) \<Longrightarrow> late P (io_bind (io_lift r) f') (\<lambda>k. io_bind (io_lift r) (f k))"
  by (cases r) (auto simp: late_def io_bind_run)

lemma late_case_prod: "(\<And>a b. x = (a, b) \<Longrightarrow> late P (f' a b) (\<lambda>k. f k a b)) \<Longrightarrow> late P (case x of (a, b) \<Rightarrow> f' a b) (\<lambda>k. case x of (a, b) \<Rightarrow> f k a b)"
  by (cases x) simp

section \<open>What is noted for the rollback\<close>

text \<open>Everything the record names may be deleted, and the pointer has not been moved.\<close>

definition undoable :: "(string \<Rightarrow> bytes option \<Rightarrow> bool) \<Rightarrow> string \<Rightarrow> rollback_info \<Rightarrow> bool" where
  "undoable G table rb \<longleftrightarrow> \<not> rb_pointer_updated rb
     \<and> (\<forall>f \<in> set (rb_staged_files rb). deletable G (tpath table f))
     \<and> (rb_intent_path rb = [] \<or> deletable G (rb_intent_path rb))
     \<and> (rb_sequence rb > 0 \<longrightarrow> deletable G (tpath table (manifest_filename (rb_sequence rb))))"

lemma keeps_rollback_commit:
  assumes "undoable G table rb"
  shows "keeps (disk_ok G) (rollback_commit (unsynced bad) table rb)"
  using assms unfolding rollback_commit_def Let_def undoable_def
  by (intro keeps_if keeps_then keeps_try keeps_return keeps_foldM pmem.keeps_delete) auto

lemma undoable_stages:
  assumes "\<And>p. p \<in> rg_id_paths table uuid \<Longrightarrow> free_path G p"
  shows "stages uuid (undoable G table)"
proof -
  have "deletable G (tpath table f)" if "f \<in> row_group_names uuid" for f
    using that by (intro free_deletable assms) (auto simp: row_group_names_def rg_id_paths_def final_paths_def)
  then show ?thesis by (fastforce simp: stages_def undoable_def)
qed

text \<open>The files a checkpoint adds to the record.\<close>

lemma gives_bind: "gives J K m \<Longrightarrow> (\<And>a. K a \<Longrightarrow> gives J L (f a)) \<Longrightarrow> gives J L (io_bind m f)"
  unfolding gives_def
proof (intro allI impI)
  fix s r s'
  assume m: "\<forall>s r s'. J s \<longrightarrow> m s = (r, s') \<longrightarrow> J s' \<and> (\<forall>a. r = Inr a \<longrightarrow> K a)"
    and f: "\<And>a. K a \<Longrightarrow> \<forall>s r s'. J s \<longrightarrow> f a s = (r, s') \<longrightarrow> J s' \<and> (\<forall>a. r = Inr a \<longrightarrow> L a)"
    and s: "J s" and run: "io_bind m f s = (r, s')"
  obtain x s1 where x: "m s = (x, s1)" by (cases "m s")
  then have s1: "J s1" "\<And>a. x = Inr a \<Longrightarrow> K a" using m s by blast+
  show "J s' \<and> (\<forall>a. r = Inr a \<longrightarrow> L a)"
  proof (cases x)
    case (Inr a)
    then show ?thesis using run x s1 f [of a] by auto
  qed (use run x s1 in auto)
qed

lemma gives_then: "keeps J m \<Longrightarrow> gives J L n \<Longrightarrow> gives J L (io_then m n)"
  unfolding io_then_def by (rule gives_bind [OF gives_keeps])

lemma gives_return: "K a \<Longrightarrow> gives J K (io_return a)"
  by (simp add: gives_def)

lemma gives_if: "(c \<Longrightarrow> gives J K m) \<Longrightarrow> (\<not> c \<Longrightarrow> gives J K n) \<Longrightarrow> gives J K (if c then m else n)"
  by simp

lemma gives_case_sum:
  "(\<And>e. x = Inl e \<Longrightarrow> gives J K (f e)) \<Longrightarrow> (\<And>a. x = Inr a \<Longrightarrow> gives J K (g a)) \<Longrightarrow> gives J K (case x of Inl e \<Rightarrow> f e | Inr a \<Rightarrow> g a)"
  by (cases x) simp_all

context protected_storage
begin

lemma gives_write_checkpoint:
  assumes "free_path G (tpath table ''_checkpoints'' @ ''/.keep'')" "free_path G (checkpoint_part table seq)"
    "free_path G ipath" "free_path G (tpath table (cp_filename seq))"
    "free_path G (tpath table (checkpoint_archive_filename seq))"
    "free_path G (tpath table (checkpoint_archive_filename seq) @ ''.tmp'')"
  shows "gives J (\<lambda>(rel, files, st). set st \<subseteq> set staged \<union> {cp_filename seq, checkpoint_archive_filename seq})
    (write_checkpoint X K S local now table c seq ipath ifiles staged txn sid)"
proof -
  have arch: "gives J (\<lambda>l. set l \<subseteq> {checkpoint_archive_filename seq}) (write_archive X K S table c seq)"
    unfolding write_archive_def Let_def using assms
    by (intro gives_if gives_then gives_return gives_bind [OF gives_keeps] gives_case_sum keeps_try keeps_then keeps_rules keeps_write keeps_delete keeps_rename)
      auto
  show ?thesis
    unfolding write_checkpoint_def Let_def using assms
    by (intro gives_then gives_if gives_bind [OF arch] gives_return keeps_ensure_dir keeps_write keeps_sync keeps_write_intent keeps_rename) auto
qed

end

section \<open>The failing commit\<close>

lemma rename_fails_pure: "st_rename mem_storage rf rt s = (Inl e, s') \<Longrightarrow> s' = s"
  by (auto simp: mem_rename_def io_simps split: sum.splits option.splits)

lemma swap_late:
  assumes "\<And>s rb. P (s, rb) = (J s \<and> U rb)"
  shows "late P (io_then (on_storage (st_rename (unsynced bad) rf rt)) (io_bind (on_storage (io_try (st_sync (unsynced bad) p))) (\<lambda>r.
      io_then (note_rollback (\<lambda>rb. rb\<lparr>rb_pointer_updated := True\<rparr>)) (case r of Inl e \<Rightarrow> io_throw e | Inr _ \<Rightarrow> io_return y))))
    (\<lambda>_ :: unit. io_then (on_storage (st_rename mem_storage rf rt)) (io_bind (on_storage (io_try (st_sync mem_storage p))) (\<lambda>r.
      io_then (note_rollback (\<lambda>rb. rb\<lparr>rb_pointer_updated := True\<rparr>)) (case r of Inl e \<Rightarrow> io_throw e | Inr _ \<Rightarrow> io_return y))))"
  unfolding late_def using rename_fails_pure [of rf rt]
  by (auto simp: io_then_run io_bind_run on_storage_def note_rollback_def io_try_def mem.sync_law simp del: mem_storage_sel
      split: prod.splits sum.splits option.splits)

lemma publish_insert_late:
  assumes free: "\<And>p. p \<in> commit_paths table q (ce_txn_id E) \<Longrightarrow> p \<noteq> tpath table ''_manifest.json'' \<Longrightarrow> free_path G p"
  shows "late (beside (disk_ok G) (undoable G table))
    (publish_insert X I (unsynced bad) E table sid m new q files names (intent_path table (ce_txn_id E)))
    (\<lambda>K. publish_insert X I mem_storage (E\<lparr>ce_archiver := K\<rparr>) table sid m new q files names (intent_path table (ce_txn_id E)))"
proof -
  let ?P = "beside (disk_ok G) (undoable G table)"
  have zp: "zone table p \<noteq> ''_manifest.json'' \<Longrightarrow> p \<noteq> tpath table ''_manifest.json''" for p by auto
  have fp: "free_path G p" if "p \<in> commit_paths table q (ce_txn_id E)" "zone table p \<noteq> ''_manifest.json''" for p
    using that by (intro free zp)
  note frees = fp [unfolded commit_paths_def]
  let ?K = "\<lambda>(rel :: string, files :: string list, st). \<forall>f \<in> set st. deletable G (tpath table f)"
  let ?wc = "\<lambda>S K now cp x. on_storage (write_checkpoint X K S (ce_local E) now table cp q (intent_path table (ce_txn_id E)) files
      (rb_staged_files (snd x)) (ce_txn_id E) sid) x"
  have cps: "gives (disk_ok G) (\<lambda>(rel, files, st). set st \<subseteq> set staged \<union> {cp_filename q, checkpoint_archive_filename q})
      (write_checkpoint X (ce_archiver E) (unsynced bad) (ce_local E) now table cp q (intent_path table (ce_txn_id E)) files staged (ce_txn_id E) sid)" for now cp staged
    by (rule pmem.gives_write_checkpoint; rule frees) simp_all
  have "deletable G (tpath table (cp_filename q))" "deletable G (tpath table (checkpoint_archive_filename q))"
    by (rule free_deletable, rule frees; simp)+
  then have cp: "gives ?P ?K (?wc (unsynced bad) (ce_archiver E) now cp)" for now cp
    using cps [of _ now cp] unfolding gives_def beside_def undoable_def on_storage_def
    by (fastforce split: prod.splits)
  have choose: "agrees_on ?P (?wc (unsynced bad) (ce_archiver E) now cp) (\<lambda>K. ?wc mem_storage K now cp)" for now cp
    unfolding agrees_on_def on_storage_Inr using write_checkpoint_unsynced by blast
  have pm: "keeps (disk_ok G) (publish_manifest X (unsynced bad) table m' q (io_return ()))" for m'
    by (rule pmem.keeps_publish_plain; rule frees) simp_all
  have tmp: "free_path G (tpath table ''_manifest.json.tmp'')" by (rule frees) simp_all
  have added: "keeps (disk_ok G) (io_foldM (\<lambda>added e. io_bind (planned_row_group_for_entry X I (unsynced bad) table e k (pv e)) (\<lambda>prg. io_return (added @ [prg]))) [] es)" for k pv es
    by (intro keeps_foldM keeps_bind pmem.keeps_planned_row_group_for_entry keeps_return)
  have same: "agrees (on_storage (io_foldM (\<lambda>added e. io_bind (planned_row_group_for_entry X I (unsynced bad) table e k (pv e)) (\<lambda>prg. io_return (added @ [prg]))) [] es))
      (on_storage (io_foldM (\<lambda>added e. io_bind (planned_row_group_for_entry X I mem_storage table e k (pv e)) (\<lambda>prg. io_return (added @ [prg]))) [] es))" for k pv es
    unfolding sync_free by (rule agrees_refl)
  have env: "ce_cache (E\<lparr>ce_archiver := K\<rparr>) = ce_cache E" "ce_local (E\<lparr>ce_archiver := K\<rparr>) = ce_local E" "ce_now (E\<lparr>ce_archiver := K\<rparr>) = ce_now E"
    "ce_txn_id (E\<lparr>ce_archiver := K\<rparr>) = ce_txn_id E" "ce_archiver (E\<lparr>ce_archiver := K\<rparr>) = K" for K by simp_all
  show ?thesis
    unfolding publish_insert_def Let_def env
    apply (rule late_bind [OF keeps_on_storage [OF pmem.keeps_build_snapshot_checkpoint]])
     apply (unfold sync_free, rule agrees_refl)
    apply (rule late_choose [OF cp choose])
    apply (rule late_case_prod)+
    apply (rule late_then [OF keeps_note_rollback _ ], simp add: undoable_def, rule agrees_refl)
    apply (rule late_bind [OF keeps_on_storage [OF pmem.keeps_finalize_manifest [where bad = bad], unfolded sync_free]], rule agrees_refl)
    apply (rule late_then [OF keeps_on_storage [OF pm] agrees_on_storage [OF agrees_publish_manifest]])
    apply (rule late_bind [OF keeps_on_storage [OF added [unfolded sync_free]]], rule agrees_refl)
    apply (rule late_then [OF keeps_on_storage [OF pmem.keeps_write [OF tmp]]], unfold unsynced_sel(4), rule agrees_refl)
    apply (rule late_then [OF keeps_on_storage [OF pmem.keeps_sync] agrees_on_storage [OF agrees_sync]])
    apply (rule swap_late [where J = "disk_ok G" and U = "undoable G table"], simp add: beside_def)
    done
qed

text \<open>Whatever the kernels do, planned row groups are named after random ids.\<close>

definition randomly_named :: "(nat \<Rightarrow> string) \<Rightarrow> planned_write \<Rightarrow> bool" where
  "randomly_named uuid p \<longleftrightarrow> (\<exists>i. pw_rg_id p = unique_rg_id uuid i) \<and> pw_data_filename p = pw_rg_id p @ ''.parquet''
     \<and> pw_meta_filename p = pw_rg_id p @ ''.meta''"

lemma map_sum_eq_Inr: "map_sum id f x = Inr y \<longleftrightarrow> (\<exists>a. x = Inr a \<and> y = f a)"
  by (cases x) auto

lemma slice_loop_named: "slice_loop A uuid b chunk start n = Inr (ps, n') \<Longrightarrow> p \<in> set ps \<Longrightarrow> randomly_named uuid p"
proof (induction A uuid b chunk start n arbitrary: ps n' rule: slice_loop.induct)
  case (1 A uuid b chunk start n)
  show ?case
  proof (cases "start < b_rows b \<and> 0 < chunk")
    case True
    let ?len = "min chunk (b_rows b - start)"
    obtain slice qs where q: "slice_batch A b start ?len = Inr slice" "slice_loop A uuid b chunk (start + ?len) (n + 1) = Inr (qs, n')"
      "ps = planned_write_of (unique_rg_id uuid n) slice # qs"
      using "1.prems"(1) True by (subst (asm) slice_loop.simps) (auto simp: Let_def res_bind_eq_Inr map_sum_eq_Inr)
    then show ?thesis
      using "1.IH" [OF True refl q(2)] "1.prems"(2) by (auto simp: randomly_named_def planned_write_of_def)
  next
    case False
    then show ?thesis using "1.prems" by (subst (asm) slice_loop.simps) auto
  qed
qed

lemma slice_named: "slice_batch_into_row_groups A uuid schema b n = Inr (ps, n') \<Longrightarrow> p \<in> set ps \<Longrightarrow> randomly_named uuid p"
  by (auto simp: slice_batch_into_row_groups_def split: if_splits intro: slice_loop_named)

lemma plan_groups_named: "plan_groups A uuid schema b groups n = Inr (ps, n') \<Longrightarrow> p \<in> set ps \<Longrightarrow> randomly_named uuid p"
proof (induction groups arbitrary: n ps n')
  case (Cons g groups)
  obtain k rows where g: "g = (k, rows)" by (cases g) auto
  obtain taken qs n1 rs where q: "slice_batch_into_row_groups A uuid schema taken n = Inr (qs, n1)"
    "plan_groups A uuid schema b groups n1 = Inr (rs, n')" "ps = qs @ rs"
    using Cons.prems(1) g by (auto simp: res_bind_eq_Inr map_sum_eq_Inr)
  then show ?case using Cons.IH [OF q(2)] slice_named [OF q(1)] Cons.prems(2) by auto
qed simp

lemma plan_row_groups_named: "plan_row_groups X A ho uuid w n = Inr (ps, n') \<Longrightarrow> p \<in> set ps \<Longrightarrow> randomly_named uuid p"
  by (auto simp: plan_row_groups_def plan_partitioned_row_groups_def slice_concatenated_batches_def res_bind_eq_Inr
      split: option.splits list.splits if_splits intro: slice_named plan_groups_named)

lemma build_indexes_ok:
  assumes "dc_of X v = Some data" "table_indexes table data = []" "free_path (before_swap v table m) ip"
  shows "keeps (disk_ok (before_swap v table m)) (build_indexes_into_manifest X R PQ (unsynced bad) E table sid manifest current files ip True)" (is ?keeps)
    "disk_ok (before_swap v table m) s \<Longrightarrow> build_indexes_into_manifest X R PQ (unsynced bad) E table sid manifest current files ip True s = (Inr y, s')
      \<Longrightarrow> build_indexes_into_manifest X R PQ mem_storage E table sid manifest current files ip True s = (Inr y, s')"
proof -
  have dc: "dc_load X mem_storage s = (Inr data, s)" if "disk_ok (before_swap v table m) s" for s
  proof -
    have "mem_get s CATALOG_PATH = v CATALOG_PATH" using that by (auto simp: disk_ok_def before_swap_def table_paths_def)
    then have "dc_of X (mem_get s) = Some data" using assms(1) dc_of_cong by metis
    then show ?thesis by (simp add: mem.dc_load_run ok_or_def)
  qed
  have run: "build_indexes_into_manifest X R PQ S E table sid manifest current files ip True s
      = io_then (write_intent X S ip (ce_txn_id E) (ce_now E 2) sid files) (io_return (manifest, files)) s"
    if "dc_load X S s = (Inr data, s)" for S :: "memory_storage storage" and E s
    using that assms(2) by (simp add: build_indexes_into_manifest_def maintain_on_insert_def Let_def io_bind_run)
  show ?keeps
    unfolding keeps_def
  proof (intro allI impI)
    fix s r s'
    assume ok: "disk_ok (before_swap v table m) s"
      and b: "build_indexes_into_manifest X R PQ (unsynced bad) E table sid manifest current files ip True s = (r, s')"
    have "io_then (write_intent X (unsynced bad) ip (ce_txn_id E) (ce_now E 2) sid files) (io_return (manifest, files)) s = (r, s')"
      using b run [of "unsynced bad" s E] dc [OF ok] by (simp add: sync_free)
    then show "disk_ok (before_swap v table m) s'"
      by (rule keepsD [OF keeps_then [OF pmem.keeps_write_intent [OF assms(3)] keeps_return] ok])
  qed
  show "build_indexes_into_manifest X R PQ mem_storage E table sid manifest current files ip True s = (Inr y, s')"
    if ok: "disk_ok (before_swap v table m) s"
      and b: "build_indexes_into_manifest X R PQ (unsynced bad) E table sid manifest current files ip True s = (Inr y, s')"
  proof -
    have "io_then (write_intent X (unsynced bad) ip (ce_txn_id E) (ce_now E 2) sid files) (io_return (manifest, files)) s = (Inr y, s')"
      using b run [of "unsynced bad" s E] dc [OF ok] by (simp add: sync_free)
    then have "io_then (write_intent X mem_storage ip (ce_txn_id E) (ce_now E 2) sid files) (io_return (manifest, files)) s = (Inr y, s')"
      by (rule agreesD [OF agrees_then [OF agrees_write_intent agrees_refl]])
    then show ?thesis using run [of mem_storage s E] dc [OF ok] by simp
  qed
qed

text \<open>A program that fails from a given state.\<close>

definition late_at ::
  "('s \<times> rollback_info \<Rightarrow> bool) \<Rightarrow> ('s \<times> rollback_info, 'a) io \<Rightarrow> ('k \<Rightarrow> ('s \<times> rollback_info, 'a) io) \<Rightarrow> 's \<times> rollback_info \<Rightarrow> bool" where
  "late_at P m' m x \<longleftrightarrow> (\<forall>e x'. m' x = (Inl e, x') \<longrightarrow> P x' \<or> rb_pointer_updated (snd x') \<and> (\<exists>k y. m k x = (Inr y, x')))"

lemma late_at_bind:
  "m' x = (Inr a, x1) \<Longrightarrow> m x = (Inr a, x1) \<Longrightarrow> late_at P (f' a) (\<lambda>k. f k a) x1 \<Longrightarrow> late_at P (io_bind m' f') (\<lambda>k. io_bind m (f k)) x"
  by (simp add: late_at_def io_bind_run)

lemma late_at_then:
  "m' x = (Inr a, x1) \<Longrightarrow> m x = (Inr a, x1) \<Longrightarrow> late_at P n' n x1 \<Longrightarrow> late_at P (io_then m' n') (\<lambda>k. io_then m (n k)) x"
  by (simp add: late_at_def io_then_run)

lemma late_at_stop: "m' x = (Inl e, x1) \<Longrightarrow> P x1 \<Longrightarrow> late_at P (io_then m' n') m x"
  by (auto simp: late_at_def io_then_run)

lemma late_at_in: "late P m' m \<Longrightarrow> P x \<Longrightarrow> late_at P m' m x"
  unfolding late_at_def late_def by blast

lemma verify_schema_pointer_pure:
  assumes "plain_piece table"
  shows "\<exists>r. verify_schema_pointer X mem_storage table sid s = (r, s)"
proof -
  have "validate_path (tpath table ''_schema.json'') = Inr (tpath table ''_schema.json'')"
    using validate_tpath [OF assms, of "[''_schema.json'']"] by (simp add: join_path_def plain_piece_def)
  then show ?thesis
    by (auto simp: verify_schema_pointer_def Let_def io_bind_run mem.read_law ok_or_def simp del: mem_storage_sel split: option.splits sum.splits)
qed

lemma cleanup_spares_mem:
  assumes "at_rest X R v table m"
  shows "keeps (disk_ok (in_cleanup v table m)) (cleanup_staging X mem_storage table (mf_sequence m) (manifest_referenced_files m))"
  using assms cleanup_allowed [OF assms] unfolding unsynced_never [symmetric] by (intro pmem.keeps_cleanup_staging) (auto simp: at_rest_def)

lemma try_commit_late:
  assumes rest: "at_rest X R (mem_get s) (w_table w) m" and apart: "insert_apart X (mem_get s) I E w m"
  shows "late_at (beside (disk_ok (before_swap (mem_get s) (w_table w) m)) (undoable (before_swap (mem_get s) (w_table w) m) (w_table w)))
    (try_commit X H R I (unsynced bad) E w False) (\<lambda>K. try_commit X H R I mem_storage (E\<lparr>ce_archiver := K\<rparr>) w False) (s, rollback_default)"
proof -
  define v G where "v = mem_get s" and "G = before_swap v (w_table w) m"
  let ?t = "w_table w" and ?ip = "intent_path (w_table w) (ce_txn_id E)" and ?P = "beside (disk_ok G) (undoable G (w_table w))"
  note rest' = rest [folded v_def] and apart' = apart [folded v_def]
  have t: "plain_piece ?t" and q0: "mf_sequence m + 1 \<noteq> 0" using rest apart by (simp_all add: at_rest_def insert_apart_def)
  obtain s1 where s1: "load_current_manifest X H mem_storage ?t s = (Inr (mf_sequence m, m), s)"
    "cleanup_staging X mem_storage ?t (mf_sequence m) (manifest_referenced_files m) s = (Inr (), s1)"
    "st_exists mem_storage (tpath ?t (manifest_filename (mf_sequence m + 1))) s1 = (Inr False, s1)"
    using mem.begin_commit_run [OF rest q0] by blast
  have load: "load_current_manifest X H (unsynced bad) ?t s = (Inr (mf_sequence m, m), s)"
    using load_unsynced [OF t, of X s "mf_sequence m" m] rest by (simp add: at_rest_def)
  have j0: "disk_ok (in_cleanup v ?t m) s" using rest by (simp add: disk_ok_def in_cleanup_def before_swap_def at_rest_def v_def)
  from keepsD [OF cleanup_spares_mem [OF rest'] this s1(2)] have j1: "disk_ok G s1"
    by (auto simp: disk_ok_def in_cleanup_def G_def)
  have u: "undoable G ?t rollback_default" by (simp add: undoable_def rollback_default_def)
  note free = insert_free [OF rest' apart', folded G_def]
  have ip: "free_path G ?ip" by (rule free(1) [OF intent_in_commit zones_differ [of ?t]]) simp
  have man: "deletable G (tpath ?t (manifest_filename (mf_sequence m + 1)))"
    by (rule free_deletable, rule free(1)) (simp_all add: commit_paths_def zones_differ [of ?t])
  obtain data where "dc_of X v = Some data" "table_indexes ?t data = []" using apart' by (auto simp: insert_apart_def)
  note bi = build_indexes_ok [OF this ip [unfolded G_def], folded G_def]
  have bia: "agrees_on ?P (on_storage (build_indexes_into_manifest X R (ie_reader I) (unsynced bad) E ?t sid mn m files ?ip True))
      (\<lambda>_ :: unit. on_storage (build_indexes_into_manifest X R (ie_reader I) mem_storage E ?t sid mn m files ?ip True))" for sid mn files
    unfolding agrees_on_def on_storage_Inr beside_def using bi(2) by auto
  have stage: "keeps ?P (stage_row_groups X I (unsynced bad) E w as n ?ip)"
    if plan: "plan_row_groups X (ie_ops I) (ie_order I) (ie_uuid I) w 0 = Inr (ps, k)" and as: "allocate_planned nr nf ps = (as, b)" for ps k as b n nr nf
  proof (rule pmem.keeps_stage_row_groups [OF free(2) ip undoable_stages [OF free(2)]])
    fix p assume "p \<in> fst ` set as"
    moreover have "map fst as = ps" by (rule allocate_planned_spec(1) [of nr nf _ as "fst b" "snd b"]) (simp add: as)
    ultimately have "p \<in> set ps" by (metis list.set_map)
    then show "\<exists>i. pw_rg_id p = unique_rg_id (ie_uuid I) i \<and> pw_data_filename p = pw_rg_id p @ ''.parquet'' \<and> pw_meta_filename p = pw_rg_id p @ ''.meta''"
      using plan_row_groups_named [OF plan] by (auto simp: randomly_named_def)
  qed
  have env: "ce_now (E\<lparr>ce_archiver := K\<rparr>) = ce_now E" "ce_txn_id (E\<lparr>ce_archiver := K\<rparr>) = ce_txn_id E"
    "stage_row_groups X I mem_storage (E\<lparr>ce_archiver := K\<rparr>) w as n ip = stage_row_groups X I mem_storage E w as n ip"
    "build_indexes_into_manifest X R PQ mem_storage (E\<lparr>ce_archiver := K\<rparr>) table sid mn cur files ip b
      = build_indexes_into_manifest X R PQ mem_storage E table sid mn cur files ip b" for K as n ip PQ table sid mn cur files b
    by (simp_all add: stage_row_groups_def build_indexes_into_manifest_def Let_def cong: if_cong)
  obtain r where r: "verify_schema_pointer X mem_storage ?t (sc_schema_id (w_schema w)) s = (r, s)" using verify_schema_pointer_pure [OF t] by blast
  show ?thesis
  proof (cases r)
    case (Inl e)
    have "?P (s, rollback_default)" using j0 u by (auto simp: beside_def disk_ok_def in_cleanup_def G_def)
    then show ?thesis
      unfolding v_def [symmetric] G_def [symmetric] try_commit_def Let_def sync_free
      by (rule_tac late_at_bind, rule_tac on_storage_eq, simp only: fst_conv, rule_tac load, rule_tac on_storage_eq, simp only: fst_conv, rule_tac s1(1))
        (simp only: split_conv snd_conv, rule late_at_stop, rule on_storage_eq, simp only: fst_conv, rule r [unfolded Inl], simp only: snd_conv)
  next
    case (Inr a)
    show ?thesis
      unfolding v_def [symmetric] G_def [symmetric] try_commit_def Let_def env sync_free unsynced_sel(1-9)
      apply (rule late_at_bind, rule on_storage_eq, simp only: fst_conv, rule load, rule on_storage_eq, simp only: fst_conv, rule s1(1))
      apply (simp only: split_conv snd_conv)
      apply (rule late_at_then, rule on_storage_eq, simp only: fst_conv, rule r [unfolded Inr], rule on_storage_eq, simp only: fst_conv, rule r [unfolded Inr])
      apply (rule late_at_then, rule on_storage_eq, simp only: fst_conv snd_conv, rule s1(2), rule on_storage_eq, simp only: fst_conv snd_conv, rule s1(2))
      apply (rule late_at_bind, rule on_storage_eq, simp only: fst_conv, rule s1(3), rule on_storage_eq, simp only: fst_conv, rule s1(3))
      apply (simp only: snd_conv if_False)
      apply (rule late_at_in)
       apply (rule late_lift_bind)
       apply (rule late_case_prod)
       apply (rule late_then [OF keeps_note_rollback agrees_refl], simp add: undoable_def man)
       apply (rule late_then [OF keeps_on_storage [OF pmem.keeps_write_intent [OF ip]] agrees_on_storage [OF agrees_write_intent]])
       apply (rule late_then [OF keeps_on_storage [OF pmem.keeps_sync] agrees_on_storage [OF agrees_sync]])
       apply (rule late_then [OF keeps_note_rollback agrees_refl], simp add: undoable_def free_deletable [OF ip])
       apply (rule late_case_prod, rule late_case_prod)
       apply (rule late_bind [OF _ agrees_stage_row_groups], rule stage, simp, assumption)
       apply (rule late_lift_bind)
       apply (rule late_bind [OF keeps_on_storage [OF pmem.keeps_collect_row_counts [where bad = bad, unfolded sync_free]] agrees_refl])
       apply (simp only: not_False_eq_True)
       apply (rule late_gives [OF gives_keeps [OF keeps_on_storage [OF bi(1)]] bia])
       apply (rule late_case_prod)
       apply (rule publish_insert_late [OF free(1)], assumption, assumption)
      apply (simp add: beside_def j1 u)
      done
  qed
qed

lemma commit_fails:
  assumes rest: "at_rest X R (mem_get s) (w_table w) m" and apart: "insert_apart X (mem_get s) I E w m"
    and run: "commit X H R I (unsynced bad) E w s = (Inr (Inl e, w'), s')"
  shows "w' = w \<and> disk_ok (before_swap (mem_get s) (w_table w) m) s'
    \<or> w' = cleared w \<and> (\<exists>K delta. commit X H R I mem_storage (E\<lparr>ce_archiver := K\<rparr>) w s = (Inr (Inr delta, cleared w), s'))"
proof -
  let ?t = "w_table w" and ?G = "before_swap (mem_get s) (w_table w) m"
  have t: "plain_piece ?t" using rest by (simp add: at_rest_def)
  have load: "load_current_manifest X H (unsynced bad) ?t s = (Inr (mf_sequence m, m), s)"
    "load_current_manifest X H mem_storage ?t s = (Inr (mf_sequence m, m), s)"
    using load_unsynced [OF t, of X s "mf_sequence m" m] mem.load_current_manifest_run [OF t, of X s "mf_sequence m" m] rest by (simp_all add: at_rest_def)
  have rows: "w_buffer w \<noteq> []" and rc: "run_commit X H R I (unsynced bad) E w False Append s = (Inr (Inl e, w'), s')"
    using run load by (simp_all add: commit_def io_bind_run io_try_def split: if_splits)
  obtain x s1 rb where x: "try_commit X H R I (unsynced bad) E w False (s, rollback_default) = (x, s1, rb)" by (metis prod_cases3)
  show ?thesis
  proof (cases x)
    case (Inl err)
    from try_commit_late [OF rest apart, of H bad] consider
      (undo) "disk_ok ?G s1" "undoable ?G ?t rb"
      | (moved) K y where "rb_pointer_updated rb" "try_commit X H R I mem_storage (E\<lparr>ce_archiver := K\<rparr>) w False (s, rollback_default) = (Inr y, s1, rb)"
      using x Inl by (auto simp: late_at_def beside_def)
    then show ?thesis
    proof cases
      case undo
      obtain y s2 where y: "rollback_commit (unsynced bad) ?t rb s1 = (y, s2)" by fastforce
      have "disk_ok ?G s2" by (rule keepsD [OF keeps_rollback_commit [OF undo(2)] undo(1) y])
      moreover have "\<not> rb_pointer_updated rb" using undo(2) by (simp add: undoable_def)
      ultimately show ?thesis using rc load x Inl y by (cases y) (simp_all add: run_commit_def io_then_run)
    next
      case moved
      have none: "snd (st_delete mem_storage [] s1) = s1" by (simp add: mem_delete_def validate_path_def io_simps)
      let ?s2 = "snd (st_delete mem_storage (rb_intent_path rb) s1)"
      have "rollback_commit (unsynced bad) ?t rb s1 = (Inr (), ?s2)"
        using moved(1) none by (auto simp: rollback_commit_def Let_def io_then_run io_try_def simp del: mem_storage_sel split: prod.splits)
      then have "w' = cleared w" "s' = ?s2" using rc load(1) x Inl moved(1) by (simp_all add: run_commit_def io_then_run)
      moreover have "\<exists>delta. commit X H R I mem_storage (E\<lparr>ce_archiver := K\<rparr>) w s = (Inr (Inr delta, cleared w), ?s2)"
        using rows load(2) moved(2) by (cases y) (auto simp: commit_def run_commit_def io_then_run io_try_def mem.sync_law simp del: mem_storage_sel split: prod.splits)
      ultimately show ?thesis by blast
    qed
  next
    case (Inr p)
    then show ?thesis using rc load x by (cases p) (auto simp: run_commit_def io_then_run io_try_def split: prod.splits sum.splits)
  qed
qed

end
