(* ===== verification/Commit_Properties.thy ===== *)
theory Commit_Properties
  imports Insert_Rollback Writer_Properties Scan_Properties
begin

text \<open>
  The properties of the commit of buffered rows to a table at rest: it publishes the rows, a crash leaves the table before or after it, and
  a failure leaves the table as it was, or as after it once the pointer has moved. A small table carries the witnesses.
\<close>

section \<open>Inserted rows\<close>

text \<open>
  The table after the rows of a buffer were inserted. The new row groups, described by the row groups of the commit's delta, follow the old
  ones. Each is the encoding of a batch of the table's schema and has its metadata beside it; the batches hold the rows of the buffer,
  the row ids are the next free ones in order, and the files the old snapshot names are as they were.
\<close>

definition rows_inserted ::
  "ext \<Rightarrow> insert_env \<Rightarrow> batch writer \<Rightarrow> fragment_agg_state planned_row_group list \<Rightarrow> (string \<Rightarrow> bytes option) \<Rightarrow> manifest \<Rightarrow>
   (string \<Rightarrow> bytes option) \<Rightarrow> manifest \<Rightarrow> bool" where
  "rows_inserted X I w prgs v m v' m' \<longleftrightarrow>
     (\<exists>es bs. mf_row_groups m' = mf_row_groups m @ es
       \<and> list_all2 (\<lambda>e b. rg_deletes e = None \<and> conforms (w_arrow_schema w) b
           \<and> v' (tpath (w_table w) (rg_data e)) = ie_parquet I (w_arrow_schema w) b) es bs
       \<and> list_all2 (\<lambda>e prg. meta_at X v' (\<lambda>_. None) (tpath (w_table w) (rg_meta e)) = Some (pr_meta prg)) es prgs
       \<and> list_all2 (\<lambda>b prg. rm_rows (pr_meta prg) = of_nat (b_rows b)) bs prgs
       \<and> mset (concat (map batch_rows bs)) = mset (concat (map batch_rows (w_buffer w)))
       \<and> (partition_columns w = [] \<longrightarrow> concat (map batch_rows bs) = concat (map batch_rows (w_buffer w)))
       \<and> flat_ids (concat (map (rm_row_ids \<circ> pr_meta) prgs))
           = map of_nat [unat (mf_next_row_id m) ..< unat (mf_next_row_id m) + w_buffered_rows w]
       \<and> unat (mf_next_row_id m') = unat (mf_next_row_id m) + w_buffered_rows w)
     \<and> (\<forall>p \<in> named_paths (w_table w) m. v' p = v p)"

lemma allocated_rows:
  assumes "buffer_ok A w" "batch_rows c = concat (map batch_rows (w_buffer w))" "planned_cuts X w c cuts"
    and as: "allocate_planned n f (copies c uuid 0 cuts) = (as, nr, nf)" and room: "unat n + w_buffered_rows w < 2 ^ 64"
  shows "mset (concat (map (batch_rows \<circ> pw_batch \<circ> fst) as)) = mset (concat (map batch_rows (w_buffer w)))"
    "partition_columns w = [] \<longrightarrow> concat (map (batch_rows \<circ> pw_batch \<circ> fst) as) = concat (map batch_rows (w_buffer w))"
    "flat_ids (map (fst \<circ> snd) as) = map of_nat [unat n ..< unat n + w_buffered_rows w]" "unat nr = unat n + w_buffered_rows w"
proof -
  note spec = allocate_planned_spec [OF as] and counts = planned_count [OF assms(1-3)]
  have rows: "map (row_cells c) (concat cuts) = concat (map (batch_rows \<circ> pw_batch \<circ> fst) as)"
    unfolding copies_rows [of c uuid 0 cuts, symmetric] spec(1) [symmetric] by (simp add: comp_def)
  show "mset (concat (map (batch_rows \<circ> pw_batch \<circ> fst) as)) = mset (concat (map batch_rows (w_buffer w)))"
    using assms(3) unfolding rows [symmetric] assms(2) [symmetric] by (simp add: planned_cuts_def batch_rows_def)
  show "partition_columns w = [] \<longrightarrow> concat (map (batch_rows \<circ> pw_batch \<circ> fst) as) = concat (map batch_rows (w_buffer w))"
    using assms(3) unfolding rows [symmetric] assms(2) [symmetric] by (simp add: planned_cuts_def batch_rows_def)
  have small: "length rows < 2 ^ 64" if "rows \<in> set cuts" for rows
    using split_list [OF that] counts(3) room by fastforce
  have "map ((of_nat :: nat \<Rightarrow> u64) \<circ> b_rows) (map pw_batch (copies c uuid 0 cuts)) = map (of_nat \<circ> b_rows) (map (\<lambda>rows. take_rows rows c) cuts)"
    by (simp only: copies_batches)
  then have blocks: "allocate_blocks n (map (of_nat \<circ> length) cuts) = (map (fst \<circ> snd) as, nr)"
    using spec(4) by (simp add: comp_def take_rows_def)
  have "map (unat \<circ> ((of_nat \<circ> length) :: nat list \<Rightarrow> u64)) cuts = map length cuts" using small by (simp add: unat_of_nat)
  then have total: "(\<Sum>k \<leftarrow> map (of_nat \<circ> length) cuts. unat (k :: u64)) = w_buffered_rows w"
    using counts(3) by (simp add: length_concat cong: map_cong)
  from allocate_blocks_spec [OF _ blocks] show "flat_ids (map (fst \<circ> snd) as) = map of_nat [unat n ..< unat n + w_buffered_rows w]"
    "unat nr = unat n + w_buffered_rows w" using room unfolding total by simp_all
qed

lemma rows_insertedI:
  assumes X: "json_law X" and t: "plain_piece (w_table w)" and w: "buffer_ok A w"
    and c: "conforms (w_arrow_schema w) c" "batch_rows c = concat (map batch_rows (w_buffer w))" "planned_cuts X w c cuts"
    and as: "allocate_planned (mf_next_row_id m) f (copies c uuid 0 cuts) = (as, nr, nf)"
    and room: "unat (mf_next_row_id m) + w_buffered_rows w < 2 ^ 64" and ok: "allocations_ok X I w as" "all_promoted X I w as v'"
    and same: "\<forall>p \<in> named_paths (w_table w) m. v' p = v p" and prgs: "map pr_meta prgs = map (staged_meta_of X I w) as"
    and m': "mf_row_groups m' = mf_row_groups m @ map inserted_entry as" "mf_next_row_id m' = nr"
  shows "rows_inserted X I w prgs v m v' m'"
proof -
  note r = allocated_rows [OF w c(2,3) as room]
  have entry: "conforms (w_arrow_schema w) (pw_batch (fst a)) \<and> v' (tpath (w_table w) (rg_data (inserted_entry a))) = ie_parquet I (w_arrow_schema w) (pw_batch (fst a))
      \<and> meta_at X v' (\<lambda>_. None) (tpath (w_table w) (rg_meta (inserted_entry a))) = Some (staged_meta_of X I w a)
      \<and> rm_rows (staged_meta_of X I w a) = of_nat (b_rows (pw_batch (fst a))) \<and> rm_row_ids (staged_meta_of X I w a) = [fst (snd a)]"
    if a: "a \<in> set as" for a
  proof -
    obtain p seg frag where eq: "a = (p, seg, frag)" by (cases a) auto
    have "fst a \<in> set (copies c uuid 0 cuts)" using a unfolding allocate_planned_spec(1) [OF as, symmetric] by simp
    then obtain rows where "rows \<in> set cuts" "pw_batch (fst a) = take_rows rows c" using copies_in by blast
    then have "conforms (w_arrow_schema w) (pw_batch (fst a))" using planned_cuts_copy [OF c(1,3)] by simp
    moreover have enc: "encodable X I w a" and sh: "shaped_rg (alloc_rg a)"
      and files: "\<forall>(sfx, b) \<in> set (file_bytes X I w a). v' (tpath (w_table w) (alloc_rg a @ sfx)) = Some b"
      using ok a by (auto simp: allocations_ok_def all_promoted_def)
    moreover have "v' (tpath (w_table w) (alloc_rg a @ ''.parquet'')) = ie_parquet I (w_arrow_schema w) (pw_batch (fst a))"
      using files enc by (auto simp: file_bytes_def data_bytes_def encodable_def eq)
    moreover have "rm_rows (staged_meta_of X I w a) = of_nat (b_rows (pw_batch (fst a)))" "rm_row_ids (staged_meta_of X I w a) = [fst (snd a)]"
      using enc row_group_meta_stats(2,3) by (fastforce simp: encodable_def staged_meta_of_def eq)+
    ultimately show ?thesis using promoted_meta [OF t X sh enc files] by simp
  qed
  have n: "length prgs = length as" "\<And>i. i < length as \<Longrightarrow> pr_meta (prgs ! i) = staged_meta_of X I w (as ! i)"
    using prgs by (metis length_map, metis length_map nth_map)
  have "map (rm_row_ids \<circ> pr_meta) prgs = map (\<lambda>a. [fst (snd a)]) as"
    using n entry by (simp add: list_eq_iff_nth_eq)
  then have ids: "concat (map (rm_row_ids \<circ> pr_meta) prgs) = map (fst \<circ> snd) as" by (simp add: comp_def)
  show ?thesis
    unfolding rows_inserted_def
    using m' same r ids entry n
    by (intro conjI exI [of _ "map inserted_entry as"] exI [of _ "map (pw_batch \<circ> fst) as"]) (simp_all add: list_all2_conv_all_nth comp_assoc)
qed

text \<open>What a commit on the memory store returns and leaves.\<close>

lemma commit_publishes:
  assumes laws: "insert_laws X I (w_arrow_schema w)" and w: "writer_ok (ie_ops I) w" and rows: "w_buffer w \<noteq> []"
    and rest: "at_rest X R (mem_get s) (w_table w) m" and ready: "insert_ready X (mem_get s) I E w m"
  shows "\<exists>s' m' prgs. commit X H R I mem_storage E w s
      = (Inr (Inr (with_added_row_groups prgs (commit_delta_new m m' Append)), w\<lparr>w_buffer := [], w_buffered_rows := 0, w_buffered_bytes := 0\<rparr>), s')
    \<and> load_current_manifest X H mem_storage (w_table w) s' = (Inr (mf_sequence m + 1, m'), s')
    \<and> rows_inserted X I w prgs (mem_get s) m (mem_get s') m'
    \<and> at_rest X R (mem_get s') (w_table w) m' \<and> (\<forall>e \<in> set (mf_row_groups m'). rg_fragment_id e < mf_next_fragment_id m')"
proof -
  obtain c cuts as nr nf rc pv parent prgs s' where r:
    "conforms (w_arrow_schema w) c" "batch_rows c = concat (map batch_rows (w_buffer w))" "planned_cuts X w c cuts"
    "allocate_planned (mf_next_row_id m) (mf_next_fragment_id m) (copies c (ie_uuid I) 0 cuts) = (as, nr, nf)"
    "allocations_ok X I w as"
    "commit X H R I mem_storage E w s
        = (Inr (Inr (with_added_row_groups prgs (commit_delta_new m (insertion_snapshot X E w m as rc pv nr nf parent) Append)), cleared w), s')"
    "insertion_done X I (mem_get s) E w m as (insertion_snapshot X E w m as rc pv nr nf parent) (mem_get s')"
    "mem_get s' (intent_path (w_table w) (ce_txn_id E)) = None"
    "map pr_meta prgs = map (staged_meta_of X I w) as"
    using mem.commit_run [OF assms, of H] by blast
  let ?m = "insertion_snapshot X E w m as rc pv nr nf parent"
  have X: "json_law X" and b: "buffer_ok (ie_ops I) w" and t: "plain_piece (w_table w)"
    using laws w rest by (simp_all add: insert_laws_def writer_ok_def at_rest_def)
  note spec = allocate_planned_spec [OF r(4)]
  have ids: "\<exists>i. alloc_rg a = unique_rg_id (ie_uuid I) i" if "a \<in> set as" for a
    using copies_filenames [of "fst a" c "ie_uuid I" 0 cuts] that unfolding spec(1) [symmetric] by auto
  have k: "unat (mf_next_fragment_id m) + length cuts < 2 ^ 64" "unat (mf_next_row_id m) + w_buffered_rows w < 2 ^ 64"
    using planned_count(2) [OF b r(2,3)] ready by (simp_all add: insert_ready_def insert_apart_def)
  have len: "length (copies c (ie_uuid I) 0 cuts) = length cuts" using copies_ids [of c "ie_uuid I" 0 cuts] by (metis length_map length_upt add_0 diff_zero)
  have old: "distinct (map rg_fragment_id (mf_row_groups m))" "\<forall>e \<in> set (mf_row_groups m). rg_fragment_id e < mf_next_fragment_id m"
    using rest ready by (simp_all add: at_rest_def insert_ready_def insert_apart_def)
  have frags: "distinct (map rg_fragment_id (mf_row_groups m @ map inserted_entry as))"
    "\<forall>e \<in> set (mf_row_groups m @ map inserted_entry as). rg_fragment_id e < nf"
    using fragment_ids_distinct [OF old k(1) spec(2) [unfolded len]] unfolding spec(3) len .
  have rest': "at_rest X R (mem_get s') (w_table w) ?m"
    by (rule insertion_at_rest [OF X rest ready r(5) ballI [OF ids] r(7,8) refl frags(1)])
  then have "load_current_manifest X H mem_storage (w_table w) s' = (Inr (mf_sequence m + 1, ?m), s')"
    using mem.load_current_manifest_run [OF t, of X s' "mf_sequence m + 1" ?m H] by (simp add: at_rest_def)
  moreover have "rows_inserted X I w prgs (mem_get s) m (mem_get s') ?m"
    using insertion_same(1) [OF rest ready r(5) ballI [OF ids] r(7)] r(7)
    by (intro rows_insertedI [OF X t b r(1-4) k(2) r(5)]) (simp_all add: insertion_done_def Let_def r(9))
  ultimately show ?thesis
    using r(6) rest' frags(2) unfolding cleared_def by (intro exI [of _ s'] exI [of _ ?m] exI [of _ prgs]) simp
qed

text \<open>
  C1: Committing the buffered rows of a writer to a table at rest without secondary indexes succeeds and publishes the next snapshot,
  which the following open loads. It holds the old row groups, untouched, and after them new ones with exactly the buffered rows
  (in order where the table is not partitioned), numbered with the next free row ids; the returned delta describes them, the buffer is
  empty, the table is at rest again, and the fragment ids are distinct and below the counter, ready for the next commit.
\<close>

theorem insert_commits:
  assumes laws: "insert_laws X I (w_arrow_schema w)" and w: "writer_ok (ie_ops I) w" and rows: "w_buffer w \<noteq> []"
    and rest: "at_rest X R (mem_get s) (w_table w) m" and ready: "insert_ready X (mem_get s) I E w m"
  shows "\<exists>s' m' prgs. commit X H R I mem_storage E w s
      = (Inr (Inr (with_added_row_groups prgs (commit_delta_new m m' Append)), w\<lparr>w_buffer := [], w_buffered_rows := 0, w_buffered_bytes := 0\<rparr>), s')
    \<and> load_current_manifest X H mem_storage (w_table w) s' = (Inr (mf_sequence m + 1, m'), s')
    \<and> rows_inserted X I w prgs (mem_get s) m (mem_get s') m'
    \<and> at_rest X R (mem_get s') (w_table w) m' \<and> (\<forall>e \<in> set (mf_row_groups m'). rg_fragment_id e < mf_next_fragment_id m')"
  by (rule commit_publishes [OF assms])

text \<open>
  C2: A crash of the process at any point of the commit of buffered rows, also in the middle of a write, leaves a disk that opens as the table before
  the commit, with all its files, or as the table after it, with all the buffered rows.
\<close>

theorem insert_crash_atomic:
  assumes laws: "insert_laws X I (w_arrow_schema w)" and w: "writer_ok (ie_ops I) w" and rows: "w_buffer w \<noteq> []"
    and rest: "at_rest X R (mem_get d0) (w_table w) m" and ready: "insert_ready X (mem_get d0) I E w m"
    and run: "commit X H R I traced_mem E w \<lparr>tr_disk = d0, tr_seen = []\<rparr> = (r, t)"
  shows "\<exists>m' prgs. \<forall>d \<in> set (tr_seen t).
      load_current_manifest X H mem_storage (w_table w) d = (Inr (mf_sequence m, m), d)
        \<and> (\<forall>p \<in> named_paths (w_table w) m. mem_get d p = mem_get d0 p)
      \<or> load_current_manifest X H mem_storage (w_table w) d = (Inr (mf_sequence m + 1, m'), d)
        \<and> rows_inserted X I w prgs (mem_get d0) m (mem_get d) m'"
proof -
  let ?v = "mem_get d0"
  obtain c cuts as nr nf rc pv parent and prgs :: "fragment_agg_state planned_row_group list" where r:
    "conforms (w_arrow_schema w) c" "batch_rows c = concat (map batch_rows (w_buffer w))" "planned_cuts X w c cuts"
    "allocate_planned (mf_next_row_id m) (mf_next_fragment_id m) (copies c (ie_uuid I) 0 cuts) = (as, nr, nf)"
    "allocations_ok X I w as" "map pr_meta prgs = map (staged_meta_of X I w) as"
    "\<forall>d \<in> set (tr_seen t). disk_ok (before_swap ?v (w_table w) m) d
        \<or> insertion_done X I ?v E w m as (insertion_snapshot X E w m as rc pv nr nf parent) (mem_get d)"
    using commit_seen [OF laws w rows _ _ _ run, of m, unfolded traced.simps, OF refl rest ready] by blast
  let ?m = "insertion_snapshot X E w m as rc pv nr nf parent"
  have X: "json_law X" and b: "buffer_ok (ie_ops I) w" and t: "plain_piece (w_table w)" and room: "unat (mf_next_row_id m) + w_buffered_rows w < 2 ^ 64"
    and q: "mf_sequence m \<noteq> 0" "mf_sequence m + 1 \<noteq> 0"
    using laws w rest ready by (simp_all add: insert_laws_def writer_ok_def at_rest_def insert_ready_def insert_apart_def)
  have ids: "\<exists>i. alloc_rg a = unique_rg_id (ie_uuid I) i" if "a \<in> set as" for a
    using copies_filenames [of "fst a" c "ie_uuid I" 0 cuts] that unfolding allocate_planned_spec(1) [OF r(4), symmetric] by auto
  have before: "load_current_manifest X H mem_storage (w_table w) d = (Inr (mf_sequence m, m), d) \<and> (\<forall>p \<in> named_paths (w_table w) m. mem_get d p = ?v p)"
    if "disk_ok (before_swap ?v (w_table w) m) d" for d
    using before_swap_opens [OF rest that] mem.load_current_manifest_run [OF t, of X d "mf_sequence m" m H] q(1) by (simp add: opens_before_def)
  have after: "load_current_manifest X H mem_storage (w_table w) d = (Inr (mf_sequence m + 1, ?m), d) \<and> rows_inserted X I w prgs ?v m (mem_get d) ?m"
    if d: "insertion_done X I ?v E w m as ?m (mem_get d)" for d
  proof
    note same = insertion_same [OF rest ready r(5) ballI [OF ids] d]
    show "load_current_manifest X H mem_storage (w_table w) d = (Inr (mf_sequence m + 1, ?m), d)"
      using d same(2) q(2) mem.load_current_manifest_run [OF t, of X d "mf_sequence m + 1" ?m H] by (simp add: insertion_done_def Let_def)
    show "rows_inserted X I w prgs ?v m (mem_get d) ?m"
      using d same(1) by (intro rows_insertedI [OF X t b r(1-4) room r(5)]) (simp_all add: insertion_done_def Let_def r(6))
  qed
  show ?thesis using r(7) before after by blast
qed

text \<open>
  C3: A commit of buffered rows that fails in planning, encoding, verification, for a changed schema or in any call of the store's
  \<^verbatim>\<open>sync\<close> (the other calls of the store do what they promise), is undone: the table opens as before with all its files, and the
  writer still holds the rows. The exception is a failure after the pointer has moved, where the commit stands: the writer's buffer is empty and the disk is the one that a
  successful commit leaves, up to the optional archive of the checkpoint, so that the table opens with the buffered rows inserted.
\<close>

theorem failed_insert_undone:
  assumes rest: "at_rest X R (mem_get s) (w_table w) m" and apart: "insert_apart X (mem_get s) I E w m"
    and run: "commit X H R I (unsynced bad) E w s = (Inr (Inl e, w'), s')"
  shows "w' = w \<and> load_current_manifest X H mem_storage (w_table w) s' = (Inr (mf_sequence m, m), s')
      \<and> (\<forall>p \<in> named_paths (w_table w) m. mem_get s' p = mem_get s p)
    \<or> w' = w\<lparr>w_buffer := [], w_buffered_rows := 0, w_buffered_bytes := 0\<rparr>
      \<and> (\<exists>K delta. commit X H R I mem_storage (E\<lparr>ce_archiver := K\<rparr>) w s = (Inr (Inr delta, w'), s'))
      \<and> (insert_laws X I (w_arrow_schema w) \<and> writer_ok (ie_ops I) w \<and> insert_ready X (mem_get s) I E w m \<longrightarrow>
          (\<exists>m' prgs. load_current_manifest X H mem_storage (w_table w) s' = (Inr (mf_sequence m + 1, m'), s')
            \<and> rows_inserted X I w prgs (mem_get s) m (mem_get s') m' \<and> at_rest X R (mem_get s') (w_table w) m'))"
proof (cases "w' = w \<and> disk_ok (before_swap (mem_get s) (w_table w) m) s'")
  case True
  moreover have "plain_piece (w_table w)" "mf_sequence m \<noteq> 0" using rest by (simp_all add: at_rest_def)
  ultimately show ?thesis
    using before_swap_opens [OF rest, of s'] mem.load_current_manifest_run [of "w_table w" X s' "mf_sequence m" m H] by (simp add: opens_before_def)
next
  case False
  then obtain K delta where c: "w' = cleared w" "commit X H R I mem_storage (E\<lparr>ce_archiver := K\<rparr>) w s = (Inr (Inr delta, cleared w), s')"
    using commit_fails [OF assms] by blast
  have rows: "w_buffer w \<noteq> []"
    using run load_unsynced [of "w_table w" X s "mf_sequence m" m H bad] rest
    by (auto simp: commit_def io_bind_run io_try_def at_rest_def)
  have "\<exists>m' prgs. load_current_manifest X H mem_storage (w_table w) s' = (Inr (mf_sequence m + 1, m'), s')
      \<and> rows_inserted X I w prgs (mem_get s) m (mem_get s') m' \<and> at_rest X R (mem_get s') (w_table w) m'"
    if "insert_laws X I (w_arrow_schema w)" "writer_ok (ie_ops I) w" "insert_ready X (mem_get s) I E w m"
  proof -
    have "insert_ready X (mem_get s) I (E\<lparr>ce_archiver := K\<rparr>) w m" using that(3) by (simp add: insert_ready_def insert_apart_def)
    then show ?thesis using commit_publishes [OF that(1,2) rows rest, of "E\<lparr>ce_archiver := K\<rparr>" H] c(2) by auto
  qed
  then show ?thesis using c by (auto simp: cleared_def)
qed

section \<open>A table to insert into\<close>

definition int_live :: manifest where
  "int_live = finalize plain_ext None ''now'' sample_manifest"

definition int_disk :: memory_storage where
  "int_disk = \<lparr>ms_data =
     [(tpath ''t'' ''_manifest.json'', json_to_string plain_ext (latest_pointer 4)),
      (tpath ''t'' (manifest_filename 4), json_to_string plain_ext (manifest_value int_live)),
      (''t/rg_1.meta'', json_to_string plain_ext (row_group_meta_value sample_meta)),
      (CATALOG_PATH, json_pretty plain_ext (catalog_data_value \<lparr>dc_tables = [], dc_indexes = []\<rparr>)),
      (tpath ''t'' ''_schema.json'', json_to_string plain_ext (latest_pointer 0))]\<rparr>"

definition int_env :: insert_env where
  "int_env = \<lparr>ie_kernels = plain_kernels, ie_footer = (\<lambda>_. None),
     ie_parquet = (\<lambda>fs b. Some (print_json (JArr (map (\<lambda>c. case c of None \<Rightarrow> JNull | Some i \<Rightarrow> jint i) (int_cells b))))),
     ie_agg_print = (\<lambda>st. le_u64 (fa_fragment_id st)),
     ie_agg_parse = (\<lambda>bs. Some \<lparr>fa_fragment_id = of_nat (le_nat bs), fa_content_hash = [], fa_cols = [], fa_grouped = None, fa_distinct = None, fa_quantile = None\<rparr>),
     ie_reader = sample_parquet, ie_ops = int_ops, ie_order = id, ie_uuid = (\<lambda>n. replicate n CHR ''u'')\<rparr>"

definition int_load :: "batch writer" where
  "int_load = (int_writer None)\<lparr>w_buffer := [int_batch [Some 1, Some 2, Some 1]], w_buffered_rows := 3, w_buffered_bytes := 24\<rparr>"

lemma int_live_sel [simp]:
  "mf_sequence int_live = 4" "mf_row_groups int_live = [sample_entry]" "mf_index_generations int_live = []"
  "mf_rowindex_generation int_live = None" "mf_checkpoint int_live = None" "mf_next_row_id int_live = 13" "mf_next_fragment_id int_live = 8"
  by (simp_all add: int_live_def sample_manifest_def)

lemma int_disk_get:
  "mem_get int_disk ''t/_manifest.json'' = Some (json_to_string plain_ext (latest_pointer 4))"
  "mem_get int_disk ''t/_manifests/000000004.json'' = Some (json_to_string plain_ext (manifest_value int_live))"
  "mem_get int_disk ''t/rg_1.meta'' = Some (json_to_string plain_ext (row_group_meta_value sample_meta))"
  "mem_get int_disk CATALOG_PATH = Some (json_pretty plain_ext (catalog_data_value \<lparr>dc_tables = [], dc_indexes = []\<rparr>))"
  "mem_get int_disk ''t/_schema.json'' = Some (json_to_string plain_ext (latest_pointer 0))"
  "dom (mem_get int_disk) = {''t/_manifest.json'', ''t/_manifests/000000004.json'', ''t/rg_1.meta'', CATALOG_PATH, ''t/_schema.json''}"
  by (simp_all add: int_disk_def manifest_4 tpath_t CATALOG_PATH_def dom_map_of_conv_image_fst)

lemma int_named: "named_paths ''t'' int_live = {''t/rg_1.parquet'', ''t/rg_1.meta''}"
proof -
  have files: "set (manifest_referenced_files int_live) = {''rg_1.parquet'', ''rg_1.meta''}"
    by (auto simp: manifest_referenced_files_def entry_files_def sample_entry_def)
  have "validate_path (tpath ''t'' f) = Inr (''t/'' @ f)" if "f \<in> set (manifest_referenced_files int_live)" for f
    using that validate_short [of f] unfolding files by (auto simp: tpath_t plain_piece_def)
  then show ?thesis unfolding named_paths_def files by (auto simp: files)
qed

lemma int_at_rest: "at_rest plain_ext set_bitmap (mem_get int_disk) ''t'' int_live"
proof (rule at_restI)
  show "plain_piece ''t''" by simp
  show "clean_keys (dom (mem_get int_disk))"
    using validate_short [of "''_manifest.json''"] validate_short [of "''rg_1.meta''"] validate_short [of "''_schema.json''"]
      validate_manifest_path [OF plain_t, of 4] validate_catalog_path(1)
    by (simp add: clean_keys_def int_disk_get manifest_4 tpath_t plain_piece_def)
  show "mf_sequence int_live \<noteq> 0" by simp
  show "pointer_at plain_ext (mem_get int_disk) ''t'' = PointerAt (mf_sequence int_live)"
    by (simp add: pointer_at_def tpath_t int_disk_get pointer_state_latest [OF plain_ext_law])
  have "verify_checksum plain_ext int_live" unfolding int_live_def by (rule finalize_verifies)
  then show "manifest_at plain_ext (mem_get int_disk) ''t'' (mf_sequence int_live) = Some int_live"
    by (simp add: manifest_at_def tpath_t manifest_4 int_disk_get parse_manifest_def json_lawD [OF plain_ext_law] manifest_roundtrip)
  show "zone ''t'' p \<notin> {''_staging'', ''_wal''}" if "p \<in> dom (mem_get int_disk)" for p
    using that unfolding int_disk_get(6) by (auto simp: zone_def CATALOG_PATH_def)
  show "zone ''t'' p \<notin> {''_staging'', ''_wal'', ''_manifests''}" if "p \<in> named_paths ''t'' int_live" for p
    using that unfolding int_named by (auto simp: zone_def)
  show "distinct (map rg_fragment_id (mf_row_groups int_live))" by simp
  fix e assume "e \<in> set (mf_row_groups int_live)"
  then have e: "e = sample_entry" by simp
  have "meta_at plain_ext (mem_get int_disk) (\<lambda>_. None) (tpath ''t'' (rg_meta sample_entry))
      = meta_at plain_ext (mem_get sample_disk) (\<lambda>_. None) (tpath ''t'' (rg_meta sample_entry))"
    using validate_sample_meta by (simp add: meta_at_def sample_entry_def tpath_t int_disk_get sample_disk_get)
  then show "deletes_wf set_bitmap (mem_get int_disk) ''t'' e \<and> meta_at plain_ext (mem_get int_disk) (\<lambda>_. None) (tpath ''t'' (rg_meta e)) \<noteq> None"
    using sample_meta_at by (simp add: deletes_wf_def e) (simp add: sample_entry_def)
qed

lemma int_laws: "insert_laws plain_ext int_env int_fields"
  using int_ops_law plain_ext_law by (simp add: insert_laws_def int_env_def footer_law_def)

lemma int_load_ok: "writer_ok int_ops int_load"
proof -
  have "arrow_schema_from_icefalldb (sc_columns (w_schema int_load)) (w_table int_load) = Inr (w_arrow_schema int_load)" by code_simp
  moreover have "buffer_ok int_ops int_load"
    by (simp add: buffer_ok_def int_load_def conforms_int_batch in_type_def) (simp add: int_batch_def int_ops_def)
  ultimately show ?thesis
    using int_partitions_supported [of "[]"] by (simp add: writer_ok_def) (simp add: int_load_def int_fields_def)
qed

lemma int_ready: "insert_ready plain_ext (mem_get int_disk) int_env sample_env int_load int_live"
proof -
  let ?id = "unique_rg_id (\<lambda>n. replicate n CHR ''u'')"
  have w: "w_table int_load = ''t''" "w_buffered_rows int_load = 3" "sc_schema_id (w_schema int_load) = 0" "ie_uuid int_env = (\<lambda>n. replicate n CHR ''u'')"
    "ce_txn_id sample_env = ''x''"
    by (simp_all add: int_load_def int_writer_def int_env_def sample_env_def)
  have shaped: "shaped_rg (?id i)" for i by (auto simp: shaped_rg_def plain_rg_def unique_rg_id_def)
  have cur: "schema_current plain_ext (mem_get int_disk) int_load"
    by (simp add: schema_current_def w tpath_t int_disk_get json_lawD [OF plain_ext_law] latest_pointer_def pointer_latest_def jfield_def)
  have dc: "dc_of plain_ext (mem_get int_disk) = Some \<lparr>dc_tables = [], dc_indexes = []\<rparr>"
    using catalog_data_roundtrip [of "\<lparr>dc_tables = [], dc_indexes = []\<rparr>"] by (simp add: dc_of_def int_disk_get json_lawD(4) [OF plain_ext_law])
  have no_u: "''rg_1'' @ r \<noteq> ?id i @ sfx" if "sfx \<in> set rg_suffixes" for r i sfx
    using that by (cases i) (auto simp: unique_rg_id_def rg_suffixes_def)
  have fresh: "p \<notin> insert ''t/rg_1.parquet'' (dom (mem_get int_disk))" if p: "p \<in> final_paths ''t'' (?id i)" for p i
  proof -
    obtain sfx where sfx: "sfx \<in> set rg_suffixes" "p = ''t/'' @ ?id i @ sfx" using p by (auto simp: final_paths_def tpath_t)
    then show ?thesis using no_u [of sfx "''.parquet''" i] no_u [of sfx "''.meta''" i] unfolding int_disk_get(6)
      by (auto simp: unique_rg_id_def CATALOG_PATH_def)
  qed
  have "p \<notin> rg_id_paths ''t'' (\<lambda>n. replicate n CHR ''u'')" if p: "p \<in> named_paths ''t'' int_live" for p
  proof
    assume "p \<in> rg_id_paths ''t'' (\<lambda>n. replicate n CHR ''u'')"
    then obtain i where "p \<in> part_paths ''t'' (?id i) \<or> p \<in> final_paths ''t'' (?id i)" by (auto simp: rg_id_paths_def)
    then show False using p fresh [of p i] unfolding int_named int_disk_get(6) by (auto simp: part_paths_def part_path_def tpath_t)
  qed
  moreover have "p \<notin> commit_paths ''t'' 5 ''x''" if p: "p \<in> named_paths ''t'' int_live" for p
    using commit_paths_zone [of p "''t''" 5 "''x''"] p unfolding int_named by (auto simp: zone_def)
  ultimately have "named_paths ''t'' int_live \<inter> (commit_paths ''t'' 5 ''x'' \<union> rg_id_paths ''t'' (\<lambda>n. replicate n CHR ''u'')) = {}" by blast
  moreover have "inj (\<lambda>n. replicate n CHR ''u'')" by (intro injI) (metis length_replicate)
  moreover have "plain_piece ''x.json''" by (simp add: plain_piece_def)
  moreover have "\<forall>i. \<forall>p \<in> final_paths ''t'' (?id i). mem_get int_disk p = None" using fresh by blast
  ultimately show ?thesis
    using shaped cur dc unfolding insert_ready_def insert_apart_def w by (simp add: table_indexes_def sample_entry_def)
qed

theorem insert_commits_witness:
  "\<exists>s' m' prgs. commit plain_ext id set_bitmap int_env mem_storage sample_env int_load int_disk
      = (Inr (Inr (with_added_row_groups prgs (commit_delta_new int_live m' Append)), int_writer None), s')
    \<and> load_current_manifest plain_ext id mem_storage ''t'' s' = (Inr (5, m'), s')
    \<and> rows_inserted plain_ext int_env int_load prgs (mem_get int_disk) int_live (mem_get s') m'
    \<and> at_rest plain_ext set_bitmap (mem_get s') ''t'' m'"
proof -
  have w: "w_table int_load = ''t''" "w_arrow_schema int_load = int_fields" "w_buffer int_load \<noteq> []" "ie_ops int_env = int_ops"
    "int_load\<lparr>w_buffer := [], w_buffered_rows := 0, w_buffered_bytes := 0\<rparr> = int_writer None"
    by (simp_all add: int_load_def int_writer_def int_env_def)
  show ?thesis
    using insert_commits [of plain_ext int_env int_load set_bitmap int_disk int_live sample_env id, unfolded w(1,2,4,5),
        OF int_laws int_load_ok w(3) int_at_rest int_ready] by auto
qed

theorem insert_crash_atomic_witness:
  "\<exists>r t m' prgs. commit plain_ext id set_bitmap int_env traced_mem sample_env int_load \<lparr>tr_disk = int_disk, tr_seen = []\<rparr> = (r, t)
    \<and> (\<forall>d \<in> set (tr_seen t). load_current_manifest plain_ext id mem_storage ''t'' d = (Inr (4, int_live), d)
      \<or> load_current_manifest plain_ext id mem_storage ''t'' d = (Inr (5, m'), d)
        \<and> rows_inserted plain_ext int_env int_load prgs (mem_get int_disk) int_live (mem_get d) m')"
proof -
  have w: "w_table int_load = ''t''" "w_arrow_schema int_load = int_fields" "w_buffer int_load \<noteq> []" "ie_ops int_env = int_ops"
    by (simp_all add: int_load_def int_writer_def int_env_def)
  obtain r t where run: "commit plain_ext id set_bitmap int_env traced_mem sample_env int_load \<lparr>tr_disk = int_disk, tr_seen = []\<rparr> = (r, t)"
    by fastforce
  from insert_crash_atomic [of plain_ext int_env int_load set_bitmap int_disk int_live sample_env id r t, unfolded w(1,2,4),
      OF int_laws int_load_ok w(3) int_at_rest int_ready run] run
  show ?thesis by fastforce
qed

text \<open>A disk that never synchronises: the commit fails at its intent.\<close>

definition no_sync :: "memory_storage storage" where
  "no_sync = unsynced (\<lambda>_ _. Some (Other ''sync''))"

lemma failing_commit:
  "\<exists>s'. commit plain_ext id set_bitmap int_env no_sync sample_env int_load int_disk = (Inr (Inl (Other ''sync''), int_load), s')"
proof -
  let ?ip = "intent_path ''t'' ''x''"
  have w: "w_table int_load = ''t''" "ce_txn_id sample_env = ''x''" "w_buffer int_load \<noteq> []" "w_arrow_schema int_load = int_fields"
    by (simp_all add: int_load_def int_writer_def sample_env_def)
  have load: "load_current_manifest plain_ext id no_sync ''t'' int_disk = (Inr (4, int_live), int_disk)"
    using load_unsynced [OF plain_t, of plain_ext int_disk 4 int_live id] int_at_rest by (simp add: at_rest_def no_sync_def)
  obtain s1 where s1: "cleanup_staging plain_ext mem_storage ''t'' 4 (manifest_referenced_files int_live) int_disk = (Inr (), s1)"
    "st_exists mem_storage (tpath ''t'' (manifest_filename 5)) s1 = (Inr False, s1)"
    using mem.begin_commit_run [OF int_at_rest, of id] by auto
  have schema: "verify_schema_pointer plain_ext mem_storage ''t'' (sc_schema_id (w_schema int_load)) int_disk = (Inr (), int_disk)"
    using mem.verify_schema_pointer_run [of int_load plain_ext int_disk] int_ready by (simp add: w insert_ready_def)
  obtain ps n where plan: "plan_row_groups plain_ext (ie_ops int_env) (ie_order int_env) (ie_uuid int_env) int_load 0 = Inr (ps, n)"
    using plan_row_groups_copies [of int_ops int_load id plain_ext "ie_uuid int_env" 0] int_laws int_load_ok by (auto simp: insert_laws_def writer_ok_def w int_env_def)
  have vip: "validate_path ?ip = Inr ?ip" using int_ready by (intro validate_intent_path) (simp_all add: insert_ready_def insert_apart_def w)
  obtain s2 where s2: "st_write mem_storage ?ip (json_to_string plain_ext (intent_value ''x'' (ce_now sample_env 0) (sc_schema_id (w_schema int_load))
      (concat (map planned_files ps)))) s1 = (Inr (), s2)"
    using mem.write_law [OF vip] by blast
  obtain rb where fail: "try_commit plain_ext id set_bitmap int_env no_sync sample_env int_load False (int_disk, rollback_default)
      = (Inl (Other ''sync''), s2, rb)" "rb_staged_files rb = []" "\<not> rb_pointer_updated rb"
    using load [unfolded no_sync_def] s1 schema plan s2
    by (simp add: no_sync_def try_commit_def write_intent_def Let_def w io_bind_run io_then_run sync_free rollback_default_def
        del: mem_storage_sel)
  have "\<exists>s'. rollback_commit no_sync ''t'' rb s2 = (Inr (), s')"
    by (simp add: no_sync_def sync_free rollback_commit_def fail(2,3) Let_def io_then_run io_try_run del: mem_storage_sel split: prod.splits)
  then show ?thesis using w(3) load fail(1,3) by (auto simp: commit_def run_commit_def w io_then_run)
qed

theorem failed_insert_undone_witness:
  "\<exists>s'. commit plain_ext id set_bitmap int_env no_sync sample_env int_load int_disk = (Inr (Inl (Other ''sync''), int_load), s')
    \<and> load_current_manifest plain_ext id mem_storage ''t'' s' = (Inr (4, int_live), s') \<and> mem_get s' ''t/rg_1.meta'' = mem_get int_disk ''t/rg_1.meta''"
proof -
  have w: "w_table int_load = ''t''" "int_load \<noteq> int_load\<lparr>w_buffer := [], w_buffered_rows := 0, w_buffered_bytes := 0\<rparr>"
    by (simp_all add: int_load_def int_writer_def)
  obtain s' where run: "commit plain_ext id set_bitmap int_env no_sync sample_env int_load int_disk = (Inr (Inl (Other ''sync''), int_load), s')"
    using failing_commit by blast
  have "insert_apart plain_ext (mem_get int_disk) int_env sample_env int_load int_live" using int_ready by (simp add: insert_ready_def)
  from failed_insert_undone [of plain_ext set_bitmap int_disk int_load int_live int_env sample_env id _ "Other ''sync''" int_load s',
      unfolded w(1), OF int_at_rest this run [unfolded no_sync_def]] w(2) run
  show ?thesis by (auto simp: int_named)
qed

end
