(* ===== verification/Spec2Isabelle.thy ===== *)
theory Spec2Isabelle
  imports Row_Properties Log_Properties Meta_Properties Index_Properties Writer_Properties Scan_Properties Agg_Properties Commit_Properties Type_Syntax
begin

text \<open>
  A verification library of IcefallDB, an embedded table store that keeps each table as a directory
  of immutable Parquet files described by JSON metadata. All paths below are relative to
  \<^verbatim>\<open>src/crates\<close>; \<^verbatim>\<open>core\<close> and \<^verbatim>\<open>query\<close> stand for
  \<^verbatim>\<open>icefalldb-core/src\<close> and \<^verbatim>\<open>icefalldb-query/src\<close>.

  \<^bold>\<open>How the program fits together.\<close> A table is a chain of manifests. A manifest lists row groups
  (fragments) with the row ids of their rows and an optional deletion vector, and names one generation of
  the row index (row id to fragment and offset) and of each secondary index (key to row ids). A
  commit writes new files, a new manifest linked to its predecessor by a hash, and last the pointer
  to it. Inserted batches are buffered, cut into row groups and committed; deletions mark rows. Small updates
  and deletes may skip the manifest: they append a record to the mutation log, which
  readers overlay on the committed manifest and a checkpoint later folds into a new one. The
  garbage collector removes files that no retained manifest names. A database catalog lists the
  tables of a directory and the definitions of their secondary indexes. Queries and mutations
  on an indexed column look row ids up in a secondary index and locate them through the manifest; scans drop row groups
  by their statistics, and COUNT and SUM are answered from partial aggregates stored beside each row group.

  \<^bold>\<open>State and effects.\<close> \<^verbatim>\<open>Storage\<close> models the storage trait as a record of operations on a state,
  each with a result \<^typ>\<open>ierror + 'a\<close>; \<^verbatim>\<open>mem_storage\<close> is \<^verbatim>\<open>core/storage/memory.rs\<close>, a map from
  validated paths to bytes. The locale \<^verbatim>\<open>storage_contract\<close> there states what a store promises in terms of the files it
  holds and carries the lemmas on programs over a store; it is interpreted on \<^verbatim>\<open>mem_storage\<close> and on \<^verbatim>\<open>traced_mem\<close>, the same store
  with a record of every state of the disk. The locale \<^verbatim>\<open>protected_storage\<close> (\<^verbatim>\<open>Crash_Model\<close>) states which calls keep an invariant of
  the files, and is interpreted on both. \<^verbatim>\<open>unsynced\<close> (\<^verbatim>\<open>Faulty_Sync\<close>) is the memory store with a \<^verbatim>\<open>sync\<close> that fails
  whenever it likes. The locales \<^verbatim>\<open>row_locator\<close> (\<^verbatim>\<open>Row_Map\<close>) and \<^verbatim>\<open>index_lookup\<close> (\<^verbatim>\<open>Snapshot_Index\<close>)
  are the interfaces the readers of a row index and the forms of a secondary index share, each interpreted on the model's readers.
  A writer is the record \<^verbatim>\<open>writer\<close>; between commits a table satisfies \<^verbatim>\<open>at_rest\<close> (\<^verbatim>\<open>Delete_Run\<close>): the pointer
  names a valid manifest, its files are readable, the log is empty and nothing a cleanup removes is in use. Code of other crates
  is a parameter: the records \<^verbatim>\<open>ext\<close> (SHA-256, \<^verbatim>\<open>serde_json\<close>, hex), \<^verbatim>\<open>roaring\<close> (the bitmap), \<^verbatim>\<open>arrow_kernels\<close>, \<^verbatim>\<open>arrow_ops\<close>,
  \<^verbatim>\<open>insert_env\<close> (Parquet writer, footer, random ids, hash order), \<^verbatim>\<open>archiver\<close> (rkyv), the readers of Parquet files, and the clock and cache in \<^verbatim>\<open>commit_env\<close>.
  What is relied on is a named hypothesis, such as
  \<^verbatim>\<open>json_law X\<close> (parsing inverts printing, also of floats, where \<^verbatim>\<open>serde_json\<close> is exact only with a feature the
  program does not enable), and \<^verbatim>\<open>Samples\<close> and the property theories give concrete instances.
  Fixed-width integers are words; Rust panics and wrap-around are branches where the code can reach them.

  \<^bold>\<open>Theories and what they model.\<close>
  \<^item> \<^verbatim>\<open>Prelude\<close>: the error enum of \<^verbatim>\<open>core/error.rs\<close>, the monad of fallible stateful code, and lemmas on lists,
    words and folds.
  \<^item> \<^verbatim>\<open>Rust_Str\<close>, \<^verbatim>\<open>Byte_Codec\<close>, \<^verbatim>\<open>Ordered_Map\<close>, \<^verbatim>\<open>Float64\<close>: the string functions of the Rust library the
    code uses, little-endian integers, \<^verbatim>\<open>BTreeMap\<close> as a key-sorted association list with its map contract, and \<^verbatim>\<open>f64\<close> by its bits.
  \<^item> \<^verbatim>\<open>Row_Id\<close> (\<^verbatim>\<open>rowid.rs\<close>, the allocation loop of \<^verbatim>\<open>writer.rs\<close>, the id bookkeeping of
    \<^verbatim>\<open>compaction.rs\<close>), \<^verbatim>\<open>Deletion\<close> (\<^verbatim>\<open>deletion.rs\<close>, the row selections of \<^verbatim>\<open>query/scan.rs\<close>).
  \<^item> \<^verbatim>\<open>Row_Index\<close>, \<^verbatim>\<open>Row_Map\<close>, \<^verbatim>\<open>Row_Index_Store\<close>: \<^verbatim>\<open>core/rowindex\<close>. The file format with its CRC, the lookups
    (in memory, mapped, ranged), the layered address map, and \<^verbatim>\<open>derive_base\<close>, \<^verbatim>\<open>rebuild\<close>, \<^verbatim>\<open>verify\<close> over a store.
  \<^item> \<^verbatim>\<open>Json\<close>, \<^verbatim>\<open>Json_Codec\<close>: JSON values, canonical form and checksums (\<^verbatim>\<open>metadata/checksum.rs\<close>), and the serde
    encodings the metadata types share.
  \<^item> \<^verbatim>\<open>Manifest\<close>, \<^verbatim>\<open>Row_Group_Meta\<close>, \<^verbatim>\<open>Schema\<close>, \<^verbatim>\<open>Type_Syntax\<close>, \<^verbatim>\<open>Snapshot_Checkpoint\<close>: \<^verbatim>\<open>core/metadata\<close> and
    \<^verbatim>\<open>schema_util.rs\<close>. Records with their serialized form, checksums, the hash chain, field ids,
    the parser and printer of type strings, and the summaries of a snapshot with the mirror of its archive.
  \<^item> \<^verbatim>\<open>Mutation_Wal\<close> (\<^verbatim>\<open>mutation_wal.rs\<close>), \<^verbatim>\<open>Wal_Recovery\<close> (\<^verbatim>\<open>wal.rs\<close>, \<^verbatim>\<open>recovery.rs\<close>),
    \<^verbatim>\<open>Catalog\<close> (\<^verbatim>\<open>catalog.rs\<close>), \<^verbatim>\<open>Commit_Delta\<close> (\<^verbatim>\<open>commit_delta.rs\<close>), \<^verbatim>\<open>Gc\<close> (\<^verbatim>\<open>gc.rs\<close>).
  \<^item> \<^verbatim>\<open>Index\<close>, \<^verbatim>\<open>Learned_Index\<close>, \<^verbatim>\<open>Binary_Index\<close>, \<^verbatim>\<open>Index_Store\<close>: \<^verbatim>\<open>core/index.rs\<close> and
    \<^verbatim>\<open>core/index/binary.rs\<close>. The B-tree index, its deltas and overlay, the learned model, the binary
    file, saving and loading of generations, building from rows, and the maintainer.
  \<^item> \<^verbatim>\<open>Database_Catalog\<close> (\<^verbatim>\<open>database_catalog.rs\<close>), \<^verbatim>\<open>Snapshot_Index\<close> and \<^verbatim>\<open>Row_Locate\<close>
    (\<^verbatim>\<open>query/provider.rs\<close>, \<^verbatim>\<open>query/index_selector.rs\<close>): the indexes opened for a snapshot, the
    equality probe, and the location of rows for a mutation.
  \<^item> The table writer, \<^verbatim>\<open>core/writer.rs\<close>. \<^verbatim>\<open>Table_State\<close>: creating and opening a table, its current manifest, the recovery of a lost
    pointer. \<^verbatim>\<open>Staging\<close>, \<^verbatim>\<open>Publish\<close>: intents, cleanup, checkpoints, and publishing a manifest. \<^verbatim>\<open>Delete_Commit\<close>: \<^verbatim>\<open>commit_deletes\<close>
    in both modes; \<^verbatim>\<open>Delete_Run\<close> and \<^verbatim>\<open>Delete_Effect\<close> show what it does to a table at rest, \<^verbatim>\<open>Deferred_Delete\<close> its mode through the log,
    \<^verbatim>\<open>Delete_Crash\<close> what a crash leaves. \<^verbatim>\<open>Insert_Plan\<close>: \<^verbatim>\<open>insert_batch\<close> and the planning of row groups and partitions. \<^verbatim>\<open>Insert_Commit\<close>:
    \<^verbatim>\<open>commit\<close> and \<^verbatim>\<open>replace\<close> with collision retry and rollback; \<^verbatim>\<open>Insert_Run\<close>, \<^verbatim>\<open>Insert_Effect\<close>, \<^verbatim>\<open>Insert_Table\<close> and \<^verbatim>\<open>Insert_Rest\<close> run it on a
    table at rest, \<^verbatim>\<open>Insert_Crash\<close>, \<^verbatim>\<open>Faulty_Sync\<close> and \<^verbatim>\<open>Insert_Rollback\<close> follow it through crashes, failing synchronisation and rollback.
  \<^item> \<^verbatim>\<open>Crash_Model\<close>: programs that keep an invariant of the files they may not touch, and the store that records the states of the disk.
  \<^item> \<^verbatim>\<open>Row_Batch\<close> (record batches and the statistics of a row group, \<^verbatim>\<open>writer.rs\<close>), \<^verbatim>\<open>Scan_Prune\<close> and \<^verbatim>\<open>Prune_Sound\<close>
    (\<^verbatim>\<open>core/reader.rs\<close>, \<^verbatim>\<open>query/predicate.rs\<close>): predicates, comparison with statistics, pruning and coverage.
  \<^item> \<^verbatim>\<open>Agg_State\<close>, \<^verbatim>\<open>Agg_Retract\<close>, \<^verbatim>\<open>Agg_Exact\<close> (\<^verbatim>\<open>core/agg_cache.rs\<close>, the loading of partials in \<^verbatim>\<open>reader.rs\<close>): partial aggregates of a
    batch and of its groups, merging, retraction of deleted rows and extrema. \<^verbatim>\<open>Agg_Query\<close> (\<^verbatim>\<open>query/rules/metadata_aggregate.rs\<close>): COUNT
    and SUM composed from them. \<^verbatim>\<open>Lru_Cache\<close>: the bounded caches of \<^verbatim>\<open>meta_cache.rs\<close> and \<^verbatim>\<open>agg_cache.rs\<close> with interleaved threads.
  \<^item> \<^verbatim>\<open>Samples\<close>: concrete tables for the witnesses. The theories \<^verbatim>\<open>*_Properties\<close>, \<^verbatim>\<open>Lru_Cache\<close>, \<^verbatim>\<open>Type_Syntax\<close> and this one
    hold the properties.

  \<^bold>\<open>What is shown.\<close> The writer: committing buffered rows and deleting rows refine what they mean for the rows of a table and leave it
  at rest; a crash of the process at any point, also inside a write, leaves the table before or after the commit, with the files of the old
  snapshot intact; a failed commit is undone, or, where the error came after the pointer had moved, stands and has emptied the buffer; a deletion
  through the log survives the loss of its unsynced files, on tables with at most one index generation; planned row groups are well typed and hold the inserted rows; a
  lost pointer is recovered and written again. Queries: pruning keeps every row group with a match; partials of row groups with deleted rows are exact for integer columns, and
  non-negative extrema are carried; so are the SUM of an integer column with a live value and COUNT of the rows that pass a filter, by the meaning of the
  filter expression, on columns that compare exactly; the caches are least-recently-used lists under any interleaving.
  Row addresses: a rebuilt index finds exactly the live rows, every reader of an
  index file agrees with the abstract segment list, any one-byte corruption is detected, ids are
  allocated contiguously and kept by compaction, selections read exactly the rows they should. Logs: a
  record appended is read back (with at most one index generation, since its checksum covers a hash map in the order of iteration), a checkpoint is invisible to readers, recovery partitions the
  transactions. Metadata: serialized forms round-trip, checksums do not depend on entry order,
  manifests are linked across gaps, field ids are stable, the garbage collector keeps what
  retained snapshots name, the type syntax round-trips. Secondary indexes: every form of an index
  answers like the canonical one (the learned model for values spelled as an integer is printed), building and maintaining an index keep it exact, uniqueness is
  kept, and locating rows by an index is exact. Some theorems record behaviour that departs
  from what the code means to do: records behind a torn tail, checksums over an unordered map, a
  restarted log numbering, torn files of a logged deletion, stale learned models, row groups pruned by unsigned or infinite values, and
  aggregates over dropped columns or deleted rows.

  \<^bold>\<open>Bounds.\<close> Loops over lists are structural recursions. The type parser takes fuel and a value to return when it is spent; with more fuel
  than the input has characters neither matters, which is a property and says that the parser terminates. Bisection terminates by its interval, the slicing of a batch by the rows left, and a row group is
  renamed with at most three attempts, as in the code. Sequence numbers, row
  ids and offsets are 64- and 32-bit words, and theorems state the bound they need where an addition could wrap. The theorems on commits of
  buffered rows are for tables that have a snapshot and no secondary index.

  \<^bold>\<open>Not modelled.\<close> The loss or reordering of unsynced writes by a machine that stops (the recorded states of the disk follow the order of the
  program); Parquet encoding and decoding, the Arrow compute kernels, the rkyv byte format and the sketches (third-party); the
  local and S3 backends and locks (operating system and network); the encryption layer
  (the model is of unencrypted tables); the zero-copy insert of Parquet files, \<^verbatim>\<open>commit_update\<close>, \<^verbatim>\<open>commit_merge\<close> and the rewriting of batches by the compactor;
  MIN, MAX, AVG and variance from partials; the Iceberg export; DataFusion plans,
  operators and the rewriting of plans; the server, the command line and the Python bindings.
\<close>

section \<open>The row index of a table\<close>

text \<open>
  C17: A row index rebuilt from a table is accepted by the verifier, and the address map opened
  from it finds exactly the live rows: a row id has an address when it is live, and then it is the
  fragment and offset where the row is stored.
\<close>

theorem rebuilt_index_exact:
  assumes "manifest_rows X R (mem_get s) table (mf_row_groups m) = Inr live"
    "distinct (map fst live)" "\<forall>x \<in> set live. fst x \<noteq> - 1" "length live < 2 ^ 32"
    "validate_path (tpath table (base_rel_path (mf_sequence m))) = Inr (tpath table (base_rel_path (mf_sequence m)))"
    "\<forall>raw \<in> live_files table m. validate_path raw \<noteq> Inr (tpath table (base_rel_path (mf_sequence m)))"
  shows "\<exists>gen s' am. rebuild X R mem_storage table m s = (Inr gen, s')
    \<and> verify X R mem_storage table (m\<lparr>mf_rowindex_generation := Some gen\<rparr>) s' = (Inr (), s')
    \<and> am_open mem_storage table gen s' = (Inr am, s')
    \<and> (\<forall>r a. am_lookup am r = Some a \<longleftrightarrow> (r, a) \<in> set live)"
  using assms by (rule mem.rebuild_then_verify)

theorem rebuilt_index_exact_witness:
  "\<exists>gen s' am. rebuild plain_ext set_bitmap mem_storage ''t'' sample_manifest sample_store = (Inr gen, s')
    \<and> verify plain_ext set_bitmap mem_storage ''t'' (sample_manifest\<lparr>mf_rowindex_generation := Some gen\<rparr>) s' = (Inr (), s')
    \<and> am_open mem_storage ''t'' gen s' = (Inr am, s') \<and> am_lookup am 11 = Some (7, 1)"
proof -
  have "live_files ''t'' sample_manifest = {''t/rg_1.meta''}"
    by (simp add: live_files_def sample_manifest_def sample_entry_def tpath_t)
  then have "\<forall>raw \<in> live_files ''t'' sample_manifest.
      validate_path raw \<noteq> Inr (tpath ''t'' (base_rel_path (mf_sequence sample_manifest)))"
    by (simp add: validate_sample_meta tpath_t base_rel_path_def)
  from rebuilt_index_exact [OF sample_rows _ _ _ validate_base_path [OF plain_t] this]
  show ?thesis by fastforce
qed

text \<open>
  The verifier accepts a stored row index exactly when every row it derives from the table is
  found at its place.
\<close>

theorem verify_exact:
  assumes "derive_base X R mem_storage table m s = (Inr fresh, s)" "segs_wf fresh"
    "mf_rowindex_generation m = Some gen" "am_open mem_storage table gen s = (Inr am, s)" "am_wf am"
  shows "verify X R mem_storage table m s = (Inr (), s)
    \<longleftrightarrow> seg_set fresh \<subseteq> {(r, a). am_lookup am r = Some a}"
  using mem.verify_run [OF assms] by auto

theorem verify_exact_witness:
  "verify plain_ext set_bitmap mem_storage ''t''
     (sample_manifest\<lparr>mf_rowindex_generation := Some \<lparr>ri_base = None, ri_deltas = []\<rparr>\<rparr>) sample_store
   \<noteq> (Inr (), sample_store)"
proof -
  let ?m = "sample_manifest\<lparr>mf_rowindex_generation := Some \<lparr>ri_base = None, ri_deltas = []\<rparr>\<rparr>"
  obtain segs where segs: "derive_segments [(10, 7, 0), (11, 7, 1), (12, 7, 2)] = Inr segs" "segs_wf segs"
    "seg_set segs = {(10, 7, 0), (11, 7, 1), (12, 7, 2)}"
    using derive_segments_ok [of "[(10, 7, 0), (11, 7, 1), (12, 7, 2)]"] by auto
  have "derive_base plain_ext set_bitmap mem_storage ''t'' ?m sample_store = (Inr segs, sample_store)"
    using segs(1) by (simp add: mem.derive_base_run sample_rows del: mem_storage_sel)
  moreover have "am_open mem_storage ''t'' \<lparr>ri_base = None, ri_deltas = []\<rparr> sample_store
      = (Inr \<lparr>am_base = [], am_deltas = []\<rparr>, sample_store)"
    by (simp add: am_open_def)
  ultimately show ?thesis
    using verify_exact [of plain_ext set_bitmap "''t''" ?m sample_store segs "\<lparr>ri_base = None, ri_deltas = []\<rparr>"
        "\<lparr>am_base = [], am_deltas = []\<rparr>"] segs(2,3)
    by (auto simp: am_wf_def segs_wf_def am_lookup_def lookup_in_base_def partition_point_def)
qed

end
